(* ===== verification/Nmbm_Prelude.thy ===== *)
theory Nmbm_Prelude
  imports Main "HOL-Library.Word" "HOL-Library.Monad_Syntax"
begin

text \<open>
  What every theory of the development shares: machine-integer abbreviations, the reading of
  the option type as "the run returns" (with its proof calculus), C buffers as lists with
  bounds-checked copies, and the little-endian layout of the words the code stores in flash.
\<close>

section \<open>Machine integers\<close>

unbundle bit_operations_syntax

type_synonym u8 = "8 word"
type_synonym u16 = "16 word"
type_synonym u32 = "32 word"
type_synonym u64 = "64 word"
type_synonym bytes = "u8 list"

lemma unat_succ_below [simp]:
  fixes a b :: "'a::len word"
  assumes "a < b"
  shows "unat (a + 1) = Suc (unat a)"
proof -
  have "unat b < 2 ^ LENGTH('a)" by (rule unsigned_less)
  with assms have "Suc (unat a) < 2 ^ LENGTH('a)"
    unfolding word_less_nat_alt by linarith
  then show ?thesis by (simp add: unat_word_ariths)
qed

lemma unat_pred [simp]:
  fixes a :: "'a::len word"
  assumes "a \<noteq> 0"
  shows "unat (a - 1) = unat a - 1"
  using assms by (rule unat_minus_one)

lemma word_gt_nonzero:
  fixes a b :: "'a::len word"
  shows "b < a \<Longrightarrow> a \<noteq> 0"
  by (auto simp: word_less_nat_alt)

lemma succ_le_of_less:
  fixes a b :: "'a::len word"
  shows "a < b \<Longrightarrow> a + 1 \<le> b"
  by (simp add: word_le_nat_alt word_less_nat_alt Suc_le_eq)

lemma unat_add_fits:
  fixes a b :: "'a::len word"
  assumes "unat a + unat b < 2 ^ LENGTH('a)"
  shows "unat (a + b) = unat a + unat b"
  using assms by (simp add: unat_word_ariths)

lemma unat_sub_le:
  fixes a b :: "'a::len word"
  assumes "b \<le> a"
  shows "unat (a - b) = unat a - unat b"
  using assms by (simp add: unat_sub_if' word_le_nat_alt)

lemma unat_u32_lt: "unat (w :: u32) < 4294967296"
  using unsigned_less [of w] by simp

lemma unat_ucast_u32_u64 [simp]: "unat (ucast (w :: u32) :: u64) = unat w"
  using unat_u32_lt [of w]
  by (simp add: unsigned_ucast_eq take_bit_word_eq_self take_bit_nat_eq_self)

lemma unat_ucast_u64_u32: "unat (ucast (w :: u64) :: u32) = unat w mod 2 ^ 32"
  by (simp add: unsigned_ucast_eq unsigned_take_bit_eq take_bit_eq_mod)

text \<open>The sign test of a C \<open>int32_t\<close> held in a 32-bit word.\<close>

definition is_neg32 :: "u32 \<Rightarrow> bool" where
  "is_neg32 w \<longleftrightarrow> sint w < 0"

lemma is_neg32_iff: "is_neg32 w \<longleftrightarrow> 2 ^ 31 \<le> unat w"
proof -
  have "sint w < 0 \<longleftrightarrow> bit w 31"
    by transfer (simp add: signed_take_bit_negative_iff)
  also have "\<dots> \<longleftrightarrow> 2 ^ 31 \<le> unat w"
  proof -
    have q: "unat w div 2 ^ 31 \<le> 1" using unat_u32_lt [of w] by simp
    have "bit w 31 \<longleftrightarrow> bit (unat w) 31"
      by (simp add: bit_unsigned_iff)
    also have "\<dots> \<longleftrightarrow> odd (unat w div 2 ^ 31)"
      by (simp add: bit_iff_odd)
    also have "\<dots> \<longleftrightarrow> 2 ^ 31 \<le> unat w"
      using q by (cases "unat w div 2 ^ 31") auto
    finally show ?thesis .
  qed
  finally show ?thesis by (simp add: is_neg32_def)
qed

lemma is_neg32_minus_one [simp]: "is_neg32 (- 1)"
  by (simp add: is_neg32_def)

section \<open>Partial computations\<close>

text \<open>
  A function of the source that touches the chip or a table returns an option: \<open>Some\<close> of
  its result and the new state, or \<open>None\<close> when the run leaves what C defines (an access
  outside a table or a buffer, a call through a null pointer) or never returns. \<open>ok m Q\<close> is
  total correctness: the run returns, and its result satisfies \<open>Q\<close>. \<open>post m Q\<close> is the
  partial form, for what no bound on the chip's contents can make total.
\<close>

definition ok :: "'a option \<Rightarrow> ('a \<Rightarrow> bool) \<Rightarrow> bool" where
  "ok m Q \<longleftrightarrow> (\<exists>x. m = Some x \<and> Q x)"

definition post :: "'a option \<Rightarrow> ('a \<Rightarrow> bool) \<Rightarrow> bool" where
  "post m Q \<longleftrightarrow> (\<forall>x. m = Some x \<longrightarrow> Q x)"

lemma ok_Some [simp]: "ok (Some x) Q \<longleftrightarrow> Q x"
  by (simp add: ok_def)

lemma ok_None [simp]: "\<not> ok None Q"
  by (simp add: ok_def)

lemma post_Some [simp]: "post (Some x) Q \<longleftrightarrow> Q x"
  by (simp add: post_def)

lemma post_None [simp]: "post None Q"
  by (simp add: post_def)

lemma ok_bind: "ok (Option.bind m f) Q \<longleftrightarrow> ok m (\<lambda>x. ok (f x) Q)"
  by (cases m) auto

lemma post_bind: "post (Option.bind m f) Q \<longleftrightarrow> post m (\<lambda>x. post (f x) Q)"
  by (cases m) auto

lemma ok_mono: "ok m P \<Longrightarrow> (\<And>x. P x \<Longrightarrow> Q x) \<Longrightarrow> ok m Q"
  by (auto simp: ok_def)

lemma ok_bindI: "ok m P \<Longrightarrow> (\<And>x. P x \<Longrightarrow> ok (f x) Q) \<Longrightarrow> ok (Option.bind m f) Q"
  by (auto simp: ok_def)

text \<open>The same step for results that are tuples of a value and a state.\<close>

lemma ok_bind2:
  assumes "ok m (\<lambda>(a, s). P a s)" and "\<And>a s. P a s \<Longrightarrow> ok (f a s) Q"
  shows "ok (Option.bind m (\<lambda>(a, s). f a s)) Q"
  using assms by (auto simp: ok_def)

lemma ok_bind3:
  assumes "ok m (\<lambda>(a, b, s). P a b s)" and "\<And>a b s. P a b s \<Longrightarrow> ok (f a b s) Q"
  shows "ok (Option.bind m (\<lambda>(a, b, s). f a b s)) Q"
  using assms by (auto simp: ok_def)

lemma ok_bind4:
  assumes "ok m (\<lambda>(a, b, c, s). P a b c s)" and "\<And>a b c s. P a b c s \<Longrightarrow> ok (f a b c s) Q"
  shows "ok (Option.bind m (\<lambda>(a, b, c, s). f a b c s)) Q"
  using assms by (auto simp: ok_def)

lemma ok_if: "(c \<Longrightarrow> ok a Q) \<Longrightarrow> (\<not> c \<Longrightarrow> ok b Q) \<Longrightarrow> ok (if c then a else b) Q"
  by simp

lemma ok_mono2:
  assumes "ok m (\<lambda>(a, s). P a s)" and "\<And>a s. P a s \<Longrightarrow> Q a s"
  shows "ok m (\<lambda>(a, s). Q a s)"
  using assms by (auto simp: ok_def)

lemma ok_mono3:
  assumes "ok m (\<lambda>(a, b, s). P a b s)" and "\<And>a b s. P a b s \<Longrightarrow> Q a b s"
  shows "ok m (\<lambda>(a, b, s). Q a b s)"
  using assms by (auto simp: ok_def)

lemma post_bindI:
  "post m P \<Longrightarrow> (\<And>x. P x \<Longrightarrow> post (f x) Q) \<Longrightarrow> post (Option.bind m f) Q"
  by (auto simp: post_def Option.bind_eq_Some_conv)

lemma post_mono: "post m P \<Longrightarrow> (\<And>x. P x \<Longrightarrow> Q x) \<Longrightarrow> post m Q"
  by (auto simp: post_def)

lemma ok_imp_post: "ok m Q \<Longrightarrow> post m Q"
  by (auto simp: ok_def post_def)

lemma ok_conj: "ok m P \<Longrightarrow> post m Q \<Longrightarrow> ok m (\<lambda>x. P x \<and> Q x)"
  by (auto simp: ok_def post_def)

lemma okE: "ok m Q \<Longrightarrow> (\<And>x. m = Some x \<Longrightarrow> Q x \<Longrightarrow> thesis) \<Longrightarrow> thesis"
  by (auto simp: ok_def)

lemma postD: "post m Q \<Longrightarrow> m = Some x \<Longrightarrow> Q x"
  by (simp add: post_def)

lemma ok_returns: "ok m Q \<Longrightarrow> \<exists>x. m = Some x"
  by (auto simp: ok_def)

section \<open>Buffers\<close>

text \<open>
  Reads and writes of an array element, and the copies of \<open>memcpy\<close> and \<open>memset\<close>, with
  their bounds.
\<close>

definition load :: "'a list \<Rightarrow> nat \<Rightarrow> 'a option" where
  "load xs i = (if i < length xs then Some (xs ! i) else None)"

definition store :: "'a list \<Rightarrow> nat \<Rightarrow> 'a \<Rightarrow> 'a list option" where
  "store xs i v = (if i < length xs then Some (xs[i := v]) else None)"

definition slice :: "'a list \<Rightarrow> nat \<Rightarrow> nat \<Rightarrow> 'a list option" where
  "slice xs off n = (if off + n \<le> length xs then Some (take n (drop off xs)) else None)"

definition blit :: "'a list \<Rightarrow> nat \<Rightarrow> 'a list \<Rightarrow> 'a list option" where
  "blit xs off src =
     (if off + length src \<le> length xs
      then Some (take off xs @ src @ drop (off + length src) xs) else None)"

text \<open>
  A callee that fills a caller's buffer cannot change its length: what it delivers overwrites
  a prefix.
\<close>

definition overlay :: "'a list \<Rightarrow> 'a list \<Rightarrow> 'a list" where
  "overlay old new = take (length old) (new @ drop (length new) old)"

lemma length_overlay [simp]: "length (overlay old new) = length old"
  by (simp add: overlay_def)

lemma overlay_same_length: "length new = length old \<Longrightarrow> overlay old new = new"
  by (simp add: overlay_def)

lemma ok_load [simp]: "ok (load xs i) Q \<longleftrightarrow> i < length xs \<and> Q (xs ! i)"
  by (simp add: load_def)

lemma ok_store [simp]: "ok (store xs i v) Q \<longleftrightarrow> i < length xs \<and> Q (xs[i := v])"
  by (simp add: store_def)

lemma ok_slice [simp]:
  "ok (slice xs off n) Q \<longleftrightarrow> off + n \<le> length xs \<and> Q (take n (drop off xs))"
  by (simp add: slice_def)

lemma ok_blit [simp]:
  "ok (blit xs off src) Q \<longleftrightarrow>
     off + length src \<le> length xs \<and> Q (take off xs @ src @ drop (off + length src) xs)"
  by (simp add: blit_def)

lemma slice_SomeD: "slice xs off n = Some ys \<Longrightarrow> length ys = n \<and> off + n \<le> length xs"
  by (auto simp: slice_def split: if_splits)

lemma blit_SomeD: "blit xs off src = Some ys \<Longrightarrow> length ys = length xs"
  by (auto simp: blit_def split: if_splits)

lemma store_SomeD: "store xs i v = Some ys \<Longrightarrow> ys = xs[i := v] \<and> i < length xs"
  by (auto simp: store_def split: if_splits)

lemma load_SomeD: "load xs i = Some v \<Longrightarrow> v = xs ! i \<and> i < length xs"
  by (auto simp: load_def split: if_splits)

lemma slice_blit_same:
  "blit xs off src = Some ys \<Longrightarrow> slice ys off (length src) = Some src"
  by (auto simp: blit_def slice_def split: if_splits)

lemma slice_blit_before:
  "blit xs off src = Some ys \<Longrightarrow> o2 + n \<le> off \<Longrightarrow> slice ys o2 n = slice xs o2 n"
  by (auto simp: blit_def slice_def drop_take split: if_splits)

lemma slice_blit_after:
  assumes "blit xs off src = Some ys" and "off + length src \<le> o2"
  shows "slice ys o2 n = slice xs o2 n"
proof -
  have "drop o2 (take off xs @ src @ drop (off + length src) xs) = drop o2 xs"
    if "off + length src \<le> length xs"
    using that assms(2) by (simp add: min_def)
  then show ?thesis using assms by (auto simp: blit_def slice_def split: if_splits)
qed

section \<open>Little-endian layout\<close>

definition le16 :: "u16 \<Rightarrow> bytes" where
  "le16 w = [ucast w, ucast (drop_bit 8 w)]"

definition le32 :: "u32 \<Rightarrow> bytes" where
  "le32 w = [ucast w, ucast (drop_bit 8 w), ucast (drop_bit 16 w), ucast (drop_bit 24 w)]"

definition le64 :: "u64 \<Rightarrow> bytes" where
  "le64 w = le32 (ucast w) @ le32 (ucast (drop_bit 32 w))"

definition rd32 :: "bytes \<Rightarrow> nat \<Rightarrow> u32" where
  "rd32 b i =
     ucast (b ! i) OR push_bit 8 (ucast (b ! (i + 1))) OR
     push_bit 16 (ucast (b ! (i + 2))) OR push_bit 24 (ucast (b ! (i + 3)))"

definition rd64 :: "bytes \<Rightarrow> nat \<Rightarrow> u64" where
  "rd64 b i = ucast (rd32 b i) OR push_bit 32 (ucast (rd32 b (i + 4)))"

lemma length_le [simp]: "length (le16 a) = 2" "length (le32 w) = 4" "length (le64 d) = 8"
  by (simp_all add: le16_def le32_def le64_def)

lemma word32_bytes:
  fixes w :: u32
  shows "ucast (ucast w :: u8) OR (push_bit 8 (ucast (ucast (drop_bit 8 w) :: u8)) OR
     (push_bit 16 (ucast (ucast (drop_bit 16 w) :: u8)) OR
     push_bit 24 (ucast (ucast (drop_bit 24 w) :: u8)))) = w" (is "?l = _")
proof (rule bit_word_eqI)
  fix n assume "n < LENGTH(32)"
  then consider "n < 8" | "8 \<le> n" "n < 16" | "16 \<le> n" "n < 24" | "24 \<le> n" "n < 32"
    by force
  then show "bit ?l n = bit w n"
    by cases (simp_all add: bit_or_iff bit_word_ucast_iff bit_push_bit_iff possible_bit_word
        bit_drop_bit_eq less_diff_conv2)
qed

lemma word64_halves:
  fixes w :: u64
  shows "ucast (ucast w :: u32) OR push_bit 32 (ucast (ucast (drop_bit 32 w) :: u32)) = w"
    (is "?l = _")
proof (rule bit_word_eqI)
  fix n assume "n < LENGTH(64)"
  then consider "n < 32" | "32 \<le> n" "n < 64"
    by force
  then show "bit ?l n = bit w n"
    by cases (simp_all add: bit_or_iff bit_word_ucast_iff bit_push_bit_iff possible_bit_word
        bit_drop_bit_eq less_diff_conv2)
qed

lemma rd32_le32_at:
  assumes "i = length xs"
  shows "rd32 (xs @ le32 w @ ys) i = w"
  unfolding rd32_def assms le32_def
  by (simp add: nth_append word32_bytes [simplified])

lemma rd32_le32 [simp]: "rd32 (le32 w @ ys) 0 = w"
  using rd32_le32_at [of 0 "[]"] by simp

lemma rd64_le64_at:
  assumes "i = length xs"
  shows "rd64 (xs @ le64 w @ ys) i = w"
proof -
  have "rd32 (xs @ le32 (ucast w) @ le32 (ucast (drop_bit 32 w)) @ ys) i = ucast w"
    by (rule rd32_le32_at [OF assms])
  moreover have "rd32 ((xs @ le32 (ucast w)) @ le32 (ucast (drop_bit 32 w)) @ ys) (i + 4)
      = ucast (drop_bit 32 w)"
    by (rule rd32_le32_at) (simp add: assms)
  ultimately show ?thesis
    by (simp add: rd64_def le64_def word64_halves)
qed

text \<open>An array of words as the code copies it between memory and flash.\<close>

definition words_to_bytes :: "u32 list \<Rightarrow> bytes" where
  "words_to_bytes ws = concat (map le32 ws)"

fun bytes_to_words :: "bytes \<Rightarrow> u32 list" where
  "bytes_to_words (a # b # c # d # bs) = rd32 [a, b, c, d] 0 # bytes_to_words bs"
| "bytes_to_words _ = []"

lemma length_words_to_bytes [simp]: "length (words_to_bytes ws) = 4 * length ws"
  by (induction ws) (simp_all add: words_to_bytes_def)

lemma bytes_to_words_le32 [simp]: "bytes_to_words (le32 w @ bs) = w # bytes_to_words bs"
proof -
  have "rd32 (le32 w) 0 = w" using rd32_le32 [of w "[]"] by simp
  then show ?thesis by (simp add: le32_def)
qed

lemma words_round_trip [simp]: "bytes_to_words (words_to_bytes ws) = ws"
  by (induction ws) (simp_all add: words_to_bytes_def)

lemma length_bytes_to_words [simp]: "length (bytes_to_words bs) = length bs div 4"
  by (induction bs rule: bytes_to_words.induct) simp_all

section \<open>Sequences of requests\<close>

text \<open>
  A component serves requests one after the other. The contract \<open>service\<close>: from a state with the
  invariant every legal request returns, keeps the invariant and takes a step of a preorder; so
  does every sequence of legal requests.
\<close>

fun run_all :: "('r \<Rightarrow> 's \<Rightarrow> 's option) \<Rightarrow> 'r list \<Rightarrow> 's \<Rightarrow> 's option" where
  "run_all call [] s = Some s"
| "run_all call (r # rs) s = Option.bind (call r s) (run_all call rs)"

locale service =
  fixes call :: "'r \<Rightarrow> 's \<Rightarrow> 's option"
    and legal :: "'r \<Rightarrow> bool"
    and good :: "'s \<Rightarrow> bool"
    and step :: "'s \<Rightarrow> 's \<Rightarrow> bool"
  assumes call_ok: "good s \<Longrightarrow> legal r \<Longrightarrow> ok (call r s) (\<lambda>s'. good s' \<and> step s s')"
    and step_refl: "step s s"
    and step_trans: "step s s' \<Longrightarrow> step s' s'' \<Longrightarrow> step s s''"
begin

lemma run_all_ok:
  "good s \<Longrightarrow> (\<And>r. r \<in> set rs \<Longrightarrow> legal r) \<Longrightarrow> ok (run_all call rs s) (\<lambda>s'. good s' \<and> step s s')"
proof (induction rs arbitrary: s)
  case (Cons r rs)
  have "ok (call r s) (\<lambda>s'. good s' \<and> step s s')" using Cons.prems by (simp add: call_ok)
  then show ?case
    unfolding run_all.simps
  proof (rule ok_bindI)
    fix s' assume s': "good s' \<and> step s s'"
    then have "ok (run_all call rs s') (\<lambda>s''. good s'' \<and> step s' s'')"
      using Cons.IH Cons.prems(2) by simp
    then show "ok (run_all call rs s') (\<lambda>s''. good s'' \<and> step s s'')"
      using s' by (auto elim!: ok_mono intro: step_trans)
  qed
qed (simp add: step_refl)

end

end
