(* ===== verification/Nmbm_Types.thy ===== *)
theory Nmbm_Types
  imports Nmbm_Prelude
begin

text \<open>
  The data of NMBM (nmbm.h, nmbm-private.h): the lower device with its operations, the on-flash
  structures, the instance, and the relation that says which blocks of the chip a run may have
  changed.
\<close>

section \<open>Constants\<close>

definition NMBM_MAGIC_SIGNATURE :: u32 where "NMBM_MAGIC_SIGNATURE = 0x304d4d4e"
definition NMBM_MAGIC_INFO_TABLE :: u32 where "NMBM_MAGIC_INFO_TABLE = 0x314d4d4e"

definition NMBM_VERSION_MAKE :: "u32 \<Rightarrow> u32 \<Rightarrow> u32" where
  "NMBM_VERSION_MAKE major minor = (major AND 0xffff) OR push_bit 16 (minor AND 0xffff)"

definition NMBM_VER :: u32 where "NMBM_VER = NMBM_VERSION_MAKE 1 0"

definition NMBM_ALIGN :: "u32 \<Rightarrow> u32 \<Rightarrow> u32" where
  "NMBM_ALIGN v a = (v + a - 1) AND NOT (a - 1)"

definition NMBM_TRY_COUNT :: nat where "NMBM_TRY_COUNT = 3"

definition BLOCK_ST_BAD :: u32 where "BLOCK_ST_BAD = 0"
definition BLOCK_ST_NEED_REMAP :: u32 where "BLOCK_ST_NEED_REMAP = 2"
definition BLOCK_ST_GOOD :: u32 where "BLOCK_ST_GOOD = 3"
definition BLOCK_ST_MASK :: u32 where "BLOCK_ST_MASK = 3"

definition NMBM_F_CREATE :: u32 where "NMBM_F_CREATE = 1"
definition NMBM_F_EMPTY_PAGE_ECC_OK :: u32 where "NMBM_F_EMPTY_PAGE_ECC_OK = 2"
definition NMBM_F_READ_ONLY :: u32 where "NMBM_F_READ_ONLY = 4"

lemmas block_st_defs = BLOCK_ST_BAD_def BLOCK_ST_NEED_REMAP_def BLOCK_ST_GOOD_def BLOCK_ST_MASK_def

lemma block_st_distinct [simp]:
  "BLOCK_ST_BAD \<noteq> BLOCK_ST_GOOD" "BLOCK_ST_GOOD \<noteq> BLOCK_ST_BAD"
  "BLOCK_ST_NEED_REMAP \<noteq> BLOCK_ST_GOOD" "BLOCK_ST_GOOD \<noteq> BLOCK_ST_NEED_REMAP"
  "BLOCK_ST_NEED_REMAP \<noteq> BLOCK_ST_BAD" "BLOCK_ST_BAD \<noteq> BLOCK_ST_NEED_REMAP"
  by (simp_all add: block_st_defs)

text \<open>The errno values the code returns (negated).\<close>

definition EIO :: int where "EIO = 5"
definition ENOMEM :: int where "ENOMEM = 12"
definition ENODEV :: int where "ENODEV = 19"
definition EINVAL :: int where "EINVAL = 22"
definition EROFS :: int where "EROFS = 30"
definition EBADMSG :: int where "EBADMSG = 74"
definition EUCLEAN :: int where "EUCLEAN = 117"
definition ENOTSUPP :: int where "ENOTSUPP = 524"

lemmas errno_defs = EIO_def ENOMEM_def ENODEV_def EINVAL_def EROFS_def EBADMSG_def EUCLEAN_def
  ENOTSUPP_def

section \<open>Structures\<close>

datatype nmbm_log_category =
  NMBM_LOG_DEBUG | NMBM_LOG_INFO | NMBM_LOG_WARN | NMBM_LOG_ERR | NMBM_LOG_EMERG | NMBM_LOG_MAX

datatype nmbm_oob_mode = NMBM_MODE_PLACE_OOB | NMBM_MODE_AUTO_OOB | NMBM_MODE_RAW

text \<open>
  A function pointer is an option (\<open>None\<close> for \<open>NULL\<close>) of a function that takes the chip's
  state, the type \<open>'d\<close>, and returns the new one. A read gets the caller's buffers and returns
  the bytes it put into them.
\<close>

record 'd nmbm_lower_device =
  max_ratio :: u32
  max_reserved_blocks :: u32
  flags :: u32
  chip_size :: u64
  erasesize :: u32
  writesize :: u32
  oobsize :: u32
  oobavail :: u32
  reset_chip :: "('d \<Rightarrow> 'd) option"
  read_page :: "(u64 \<Rightarrow> bytes option \<Rightarrow> bytes option \<Rightarrow> nmbm_oob_mode \<Rightarrow> 'd \<Rightarrow>
    int \<times> bytes \<times> bytes \<times> 'd) option"
  write_page :: "(u64 \<Rightarrow> bytes option \<Rightarrow> bytes option \<Rightarrow> nmbm_oob_mode \<Rightarrow> 'd \<Rightarrow> int \<times> 'd) option"
  panic_write_page :: "(u64 \<Rightarrow> bytes \<Rightarrow> 'd \<Rightarrow> int \<times> 'd) option"
  erase_block :: "(u64 \<Rightarrow> 'd \<Rightarrow> int \<times> 'd) option"
  is_bad_block :: "(u64 \<Rightarrow> 'd \<Rightarrow> int \<times> 'd) option"
  mark_bad_block :: "(u64 \<Rightarrow> 'd \<Rightarrow> int \<times> 'd) option"

record nmbm_header =
  hdr_magic :: u32
  hdr_version :: u32
  hdr_size :: u32
  hdr_checksum :: u32

record nmbm_signature =
  sig_header :: nmbm_header
  nand_size :: u64
  block_size :: u32
  page_size :: u32
  spare_size :: u32
  mgmt_start_pb :: u32
  max_try_count :: u8
  sig_padding :: bytes

record nmbm_info_table_header =
  ift_header :: nmbm_header
  write_count :: u32
  state_table_off :: u32
  mapping_table_off :: u32
  ift_padding :: u32

record 'd nmbm_instance =
  lower :: "'d nmbm_lower_device"
  chip :: 'd
  rawpage_size :: u32
  rawblock_size :: u32
  rawchip_size :: u32
  writesize_mask :: u32
  erasesize_mask :: u32
  writesize_shift :: u16
  erasesize_shift :: u16
  signature :: nmbm_signature
  info_table_cache :: bytes
  info_table_size :: u32
  info_table_spare_blocks :: u32
  info_table :: nmbm_info_table_header
  block_state :: "u32 list"
  block_state_changed :: u32
  state_table_size :: u32
  block_mapping :: "u32 list"
  block_mapping_changed :: u32
  mapping_table_size :: u32
  page_cache :: bytes
  protected :: bool
  block_count :: u32
  data_block_count :: u32
  mgmt_start_ba :: u32
  main_table_ba :: u32
  backup_table_ba :: u32
  mapping_blocks_ba :: u32
  mapping_blocks_top_ba :: u32
  signature_ba :: u32
  log_display_level :: nmbm_log_category

definition has_flag :: "'d nmbm_instance \<Rightarrow> u32 \<Rightarrow> bool" where
  "has_flag ni f \<longleftrightarrow> flags (lower ni) AND f \<noteq> 0"

definition nmbm_set_log_level ::
    "'d nmbm_instance \<Rightarrow> nmbm_log_category \<Rightarrow> nmbm_log_category \<times> 'd nmbm_instance" where
  "nmbm_set_log_level ni level = (log_display_level ni, ni\<lparr>log_display_level := level\<rparr>)"

section \<open>What a run may do to the chip\<close>

text \<open>
  \<open>dev_reach L sh A c c'\<close>: the lower operations can take the chip from \<open>c\<close> to \<open>c'\<close> with
  reads, resets and bad-block queries anywhere, and with page writes, erasures and bad-block
  marks only at addresses of the blocks in \<open>A\<close> (\<open>sh\<close> is the block size's shift).
\<close>

inductive dev_reach ::
    "'d nmbm_lower_device \<Rightarrow> nat \<Rightarrow> nat set \<Rightarrow> 'd \<Rightarrow> 'd \<Rightarrow> bool"
  for L :: "'d nmbm_lower_device" and sh :: nat and A :: "nat set" where
  dev_refl: "dev_reach L sh A c c"
| dev_reset: "dev_reach L sh A c c' \<Longrightarrow> reset_chip L = Some f \<Longrightarrow> dev_reach L sh A c (f c')"
| dev_read: "dev_reach L sh A c c' \<Longrightarrow> read_page L = Some f \<Longrightarrow>
    f addr dat oob m c' = (r, dat', oob', c'') \<Longrightarrow> dev_reach L sh A c c''"
| dev_query: "dev_reach L sh A c c' \<Longrightarrow> is_bad_block L = Some f \<Longrightarrow>
    f addr c' = (r, c'') \<Longrightarrow> dev_reach L sh A c c''"
| dev_write: "dev_reach L sh A c c' \<Longrightarrow> write_page L = Some f \<Longrightarrow>
    f addr dat oob m c' = (r, c'') \<Longrightarrow> unat (drop_bit sh addr) \<in> A \<Longrightarrow> dev_reach L sh A c c''"
| dev_panic: "dev_reach L sh A c c' \<Longrightarrow> panic_write_page L = Some f \<Longrightarrow>
    f addr pdat c' = (r, c'') \<Longrightarrow> unat (drop_bit sh addr) \<in> A \<Longrightarrow> dev_reach L sh A c c''"
| dev_erase: "dev_reach L sh A c c' \<Longrightarrow> erase_block L = Some f \<Longrightarrow>
    f addr c' = (r, c'') \<Longrightarrow> unat (drop_bit sh addr) \<in> A \<Longrightarrow> dev_reach L sh A c c''"
| dev_mark: "dev_reach L sh A c c' \<Longrightarrow> mark_bad_block L = Some f \<Longrightarrow>
    f addr c' = (r, c'') \<Longrightarrow> unat (drop_bit sh addr) \<in> A \<Longrightarrow> dev_reach L sh A c c''"

lemma dev_reach_trans:
  assumes "dev_reach L sh A c c'" and "dev_reach L sh A c' c''"
  shows "dev_reach L sh A c c''"
  using assms(2,1) by (induction rule: dev_reach.induct) (blast intro: dev_reach.intros)+

lemma dev_reach_mono:
  assumes "dev_reach L sh A c c'" and "A \<subseteq> B"
  shows "dev_reach L sh B c c'"
  using assms by (induction rule: dev_reach.induct) (blast intro: dev_reach.intros)+

text \<open>A property of the chip that reads, resets and queries keep is kept by a run that writes nowhere.\<close>

lemma dev_reach_empty_invariant:
  assumes "dev_reach L sh {} c c'" and "P c"
    and "\<And>f c. reset_chip L = Some f \<Longrightarrow> P c \<Longrightarrow> P (f c)"
    and "\<And>f a d b m c r d' b' c'. read_page L = Some f \<Longrightarrow> f a d b m c = (r, d', b', c') \<Longrightarrow> P c \<Longrightarrow> P c'"
    and "\<And>f a c r c'. is_bad_block L = Some f \<Longrightarrow> f a c = (r, c') \<Longrightarrow> P c \<Longrightarrow> P c'"
  shows "P c'"
  using assms(1,2) by (induction rule: dev_reach.induct) (blast intro: assms(3-5))+

section \<open>Well-formed instances\<close>

text \<open>
  What nmbm_init_structure establishes and no later operation changes: the geometry, the sizes
  of the tables and buffers, and the presence of the operations the code calls unchecked.
\<close>

definition read_only :: "'d nmbm_instance \<Rightarrow> bool" where
  "read_only ni \<longleftrightarrow> has_flag ni NMBM_F_READ_ONLY"

definition es_sh :: "'d nmbm_instance \<Rightarrow> nat" where
  "es_sh ni = unat (erasesize_shift ni)"

definition wf :: "'d nmbm_instance \<Rightarrow> bool" where
  "wf ni \<longleftrightarrow>
     es_sh ni < 32 \<and> unat (writesize_shift ni) \<le> es_sh ni \<and>
     unat (erasesize (lower ni)) = 2 ^ es_sh ni \<and>
     unat (writesize (lower ni)) = 2 ^ unat (writesize_shift ni) \<and>
     writesize_mask ni = writesize (lower ni) - 1 \<and>
     erasesize_mask ni = erasesize (lower ni) - 1 \<and>
     unat (rawpage_size ni) = unat (writesize (lower ni)) + unat (oobsize (lower ni)) \<and>
     0 < oobsize (lower ni) \<and>
     length (page_cache ni) = unat (rawpage_size ni) \<and>
     0 < unat (block_count ni) \<and> unat (block_count ni) < 2 ^ 31 \<and>
     length (block_state ni) = (unat (block_count ni) + 15) div 16 \<and>
     length (block_mapping ni) = unat (block_count ni) \<and>
     unat (state_table_size ni) = 4 * length (block_state ni) \<and>
     unat (mapping_table_size ni) = 4 * length (block_mapping ni) \<and>
     length (info_table_cache ni) = unat (info_table_size ni) \<and>
     32 \<le> unat (info_table_size ni) \<and>
     read_page (lower ni) \<noteq> None \<and>
     (\<not> read_only ni \<longrightarrow> write_page (lower ni) \<noteq> None \<and> erase_block (lower ni) \<noteq> None)"

text \<open>The part of the instance that well-formedness looks at.\<close>

definition static ::
    "'d nmbm_instance \<Rightarrow> 'd nmbm_lower_device \<times> u32 list \<times> u16 list \<times> nat list" where
  "static ni = (lower ni,
     [rawpage_size ni, writesize_mask ni, erasesize_mask ni, info_table_size ni,
      info_table_spare_blocks ni, state_table_size ni, mapping_table_size ni, block_count ni],
     [writesize_shift ni, erasesize_shift ni],
     [length (info_table_cache ni), length (block_state ni), length (block_mapping ni),
      length (page_cache ni)])"

lemma static_fields:
  assumes "static ni' = static ni"
  shows "lower ni' = lower ni" "rawpage_size ni' = rawpage_size ni"
    "writesize_mask ni' = writesize_mask ni" "erasesize_mask ni' = erasesize_mask ni"
    "info_table_size ni' = info_table_size ni"
    "info_table_spare_blocks ni' = info_table_spare_blocks ni"
    "state_table_size ni' = state_table_size ni" "mapping_table_size ni' = mapping_table_size ni"
    "block_count ni' = block_count ni" "writesize_shift ni' = writesize_shift ni"
    "erasesize_shift ni' = erasesize_shift ni" "es_sh ni' = es_sh ni"
    "length (info_table_cache ni') = length (info_table_cache ni)"
    "length (block_state ni') = length (block_state ni)"
    "length (block_mapping ni') = length (block_mapping ni)"
    "length (page_cache ni') = length (page_cache ni)"
    "read_only ni' = read_only ni"
  using assms by (auto simp: static_def es_sh_def read_only_def has_flag_def)

lemma wf_static:
  assumes "static ni' = static ni"
  shows "wf ni' \<longleftrightarrow> wf ni"
  by (simp only: wf_def static_fields [OF assms])

section \<open>A simulated chip\<close>

text \<open>
  A small chip for the closed examples: 32 blocks of two 64-byte pages with 4 spare bytes. Its
  state is the list of its 64 pages; every operation succeeds. \<open>demo_ni f\<close> is an instance
  attached to it with flags \<open>f\<close>: data blocks 0 to 15, info tables at blocks 16 and 20, unmapped
  spare blocks 22 to 30, signature in block 31.
\<close>

type_synonym sim = "bytes list"

definition sim_page :: "u64 \<Rightarrow> nat" where
  "sim_page addr = unat addr div 64"

definition sim_read :: "u64 \<Rightarrow> bytes option \<Rightarrow> bytes option \<Rightarrow> nmbm_oob_mode \<Rightarrow> sim \<Rightarrow>
    int \<times> bytes \<times> bytes \<times> sim" where
  "sim_read addr dat oob mode c = (0, take 64 (c ! sim_page addr), drop 64 (c ! sim_page addr), c)"

definition sim_write :: "u64 \<Rightarrow> bytes option \<Rightarrow> bytes option \<Rightarrow> nmbm_oob_mode \<Rightarrow> sim \<Rightarrow> int \<times> sim" where
  "sim_write addr dat oob mode c =
     (0, c[sim_page addr := (case dat of Some d \<Rightarrow> d | None \<Rightarrow> replicate 64 0xff) @
            (case oob of Some b \<Rightarrow> b | None \<Rightarrow> replicate 4 0xff)])"

definition sim_erase :: "u64 \<Rightarrow> sim \<Rightarrow> int \<times> sim" where
  "sim_erase addr c = (0, c[sim_page addr := replicate 68 0xff, sim_page addr + 1 := replicate 68 0xff])"

definition sim_lower :: "u32 \<Rightarrow> sim nmbm_lower_device" where
  "sim_lower f = \<lparr>max_ratio = 8, max_reserved_blocks = 0, flags = f, chip_size = 4096,
     erasesize = 128, writesize = 64, oobsize = 4, oobavail = 4, reset_chip = None,
     read_page = Some sim_read, write_page = Some sim_write, panic_write_page = None,
     erase_block = Some sim_erase, is_bad_block = None, mark_bad_block = None\<rparr>"

definition demo_header :: nmbm_header where
  "demo_header = \<lparr>hdr_magic = 0, hdr_version = 0, hdr_size = 0, hdr_checksum = 0\<rparr>"

definition demo_ni :: "u32 \<Rightarrow> sim nmbm_instance" where
  "demo_ni f = \<lparr>lower = sim_lower f, chip = replicate 64 (replicate 68 0xff),
     rawpage_size = 68, rawblock_size = 136, rawchip_size = 4352,
     writesize_mask = 63, erasesize_mask = 127, writesize_shift = 6, erasesize_shift = 7,
     signature = \<lparr>sig_header = demo_header, nand_size = 4096, block_size = 128, page_size = 64,
       spare_size = 4, mgmt_start_pb = 16, max_try_count = 3, sig_padding = replicate 7 0\<rparr>,
     info_table_cache = replicate 256 0xff, info_table_size = 256, info_table_spare_blocks = 2,
     info_table = \<lparr>ift_header = demo_header, write_count = 1, state_table_off = 64,
       mapping_table_off = 128, ift_padding = 0\<rparr>,
     block_state = [0xffffffff, 0xffffffff], block_state_changed = 0, state_table_size = 8,
     block_mapping = map of_nat [0..<16] @ replicate 16 (- 1), block_mapping_changed = 0,
     mapping_table_size = 128, page_cache = replicate 68 0xff, protected = False,
     block_count = 32, data_block_count = 16, mgmt_start_ba = 16, main_table_ba = 16,
     backup_table_ba = 20, mapping_blocks_ba = 22, mapping_blocks_top_ba = 30,
     signature_ba = 31, log_display_level = NMBM_LOG_INFO\<rparr>"

lemma wf_demo: "wf (demo_ni f)"
  by (simp add: wf_def demo_ni_def sim_lower_def es_sh_def)

lemma read_only_demo: "read_only (demo_ni f) \<longleftrightarrow> f AND NMBM_F_READ_ONLY \<noteq> 0"
  by (simp add: read_only_def has_flag_def demo_ni_def sim_lower_def)

end
