(* ===== verification/Nmbm_Phys.thy ===== *)
theory Nmbm_Phys
  imports Nmbm_Types
begin

text \<open>
  Address conversion and the retried chip accesses (nmbm-core.c, "Address conversion functions"
  and "High level NAND chip APIs"): each access is tried at most \<open>NMBM_TRY_COUNT\<close> times with a
  chip reset after a failure.
\<close>

section \<open>Address conversion\<close>

definition addr2ba :: "'d nmbm_instance \<Rightarrow> u64 \<Rightarrow> u32" where
  "addr2ba ni addr = ucast (drop_bit (unat (erasesize_shift ni)) addr)"

definition ba2addr :: "'d nmbm_instance \<Rightarrow> u32 \<Rightarrow> u64" where
  "ba2addr ni ba = push_bit (unat (erasesize_shift ni)) (ucast ba)"

definition size2blk :: "'d nmbm_instance \<Rightarrow> u64 \<Rightarrow> u32" where
  "size2blk ni sz =
     ucast (drop_bit (unat (erasesize_shift ni)) (sz + ucast (erasesize (lower ni)) - 1))"

text \<open>The offsets of a loop \<open>for (off = 0; off < erasesize; off += writesize)\<close>, from \<open>off\<close> on.\<close>

function page_offs :: "u64 \<Rightarrow> u32 \<Rightarrow> u32 \<Rightarrow> u64 list" where
  "page_offs off es ws =
     (if off < ucast es \<and> ws \<noteq> 0 then off # page_offs (off + ucast ws) es ws else [])"
  by pat_completeness auto
termination
proof (relation "measure (\<lambda>(off, es, ws). unat es - unat off)", goal_cases)
  case 1 show ?case by simp
next
  case (2 off es ws)
  then have lt: "unat off < unat es" and ws: "0 < unat ws"
    by (simp_all add: word_less_nat_alt unat_gt_0)
  have "unat off + unat ws < 2 ^ 64"
    using lt unat_u32_lt [of es] unat_u32_lt [of ws] by simp
  then have "unat (off + ucast ws) = unat off + unat ws"
    by (subst unat_add_fits) simp_all
  then show ?case using lt ws by simp
qed

declare page_offs.simps [simp del]

section \<open>Retried chip accesses\<close>

definition nmbm_reset_chip :: "'d nmbm_instance \<Rightarrow> 'd nmbm_instance" where
  "nmbm_reset_chip ni =
     (case reset_chip (lower ni) of None \<Rightarrow> ni | Some f \<Rightarrow> ni\<lparr>chip := f (chip ni)\<rparr>)"

definition lower_read_page ::
    "'d nmbm_instance \<Rightarrow> u64 \<Rightarrow> bytes option \<Rightarrow> bytes option \<Rightarrow> nmbm_oob_mode \<Rightarrow>
     (int \<times> bytes option \<times> bytes option \<times> 'd nmbm_instance) option" where
  "lower_read_page ni addr dat oob mode =
     (case read_page (lower ni) of
        None \<Rightarrow> None
      | Some f \<Rightarrow>
          (let (r, d, b, c) = f addr dat oob mode (chip ni)
           in Some (r, map_option (\<lambda>old. overlay old d) dat,
                map_option (\<lambda>old. overlay old b) oob, ni\<lparr>chip := c\<rparr>)))"

fun read_tries ::
    "nat \<Rightarrow> int \<Rightarrow> 'd nmbm_instance \<Rightarrow> u64 \<Rightarrow> bytes option \<Rightarrow> bytes option \<Rightarrow> nmbm_oob_mode \<Rightarrow>
     (int \<times> bytes option \<times> bytes option \<times> 'd nmbm_instance) option" where
  "read_tries 0 ret ni addr dat oob mode = Some (ret, dat, oob, ni)"
| "read_tries (Suc n) ret ni addr dat oob mode = do {
     (ret, dat, oob, ni) \<leftarrow> lower_read_page ni addr dat oob mode;
     if 0 \<le> ret then Some (ret, dat, oob, ni)
     else read_tries n ret (nmbm_reset_chip ni) addr dat oob mode }"

definition nmbm_read_phys_page ::
    "'d nmbm_instance \<Rightarrow> u64 \<Rightarrow> bytes option \<Rightarrow> bytes option \<Rightarrow> nmbm_oob_mode \<Rightarrow>
     (int \<times> bytes option \<times> bytes option \<times> 'd nmbm_instance) option" where
  "nmbm_read_phys_page ni addr dat oob mode = read_tries NMBM_TRY_COUNT 0 ni addr dat oob mode"

text \<open>A write, a panic write and an erasure differ in the operation they retry.\<close>

fun op_tries ::
    "nat \<Rightarrow> ('d \<Rightarrow> int \<times> 'd) \<Rightarrow> 'd nmbm_instance \<Rightarrow> bool \<times> 'd nmbm_instance" where
  "op_tries 0 f ni = (False, ni)"
| "op_tries (Suc n) f ni =
     (let (ret, c) = f (chip ni); ni = ni\<lparr>chip := c\<rparr>
      in if ret = 0 then (True, ni) else op_tries n f (nmbm_reset_chip ni))"

definition nmbm_write_phys_page ::
    "'d nmbm_instance \<Rightarrow> u64 \<Rightarrow> bytes option \<Rightarrow> bytes option \<Rightarrow> nmbm_oob_mode \<Rightarrow>
     (bool \<times> 'd nmbm_instance) option" where
  "nmbm_write_phys_page ni addr dat oob mode =
     (if has_flag ni NMBM_F_READ_ONLY then Some (False, ni)
      else case write_page (lower ni) of
        None \<Rightarrow> None
      | Some f \<Rightarrow> Some (op_tries NMBM_TRY_COUNT (f addr dat oob mode) ni))"

definition nmbm_panic_write_phys_page ::
    "'d nmbm_instance \<Rightarrow> u64 \<Rightarrow> bytes \<Rightarrow> (bool \<times> 'd nmbm_instance) option" where
  "nmbm_panic_write_phys_page ni addr dat =
     (if has_flag ni NMBM_F_READ_ONLY then Some (False, ni)
      else case panic_write_page (lower ni) of
        None \<Rightarrow> None
      | Some f \<Rightarrow> Some (op_tries NMBM_TRY_COUNT (f addr dat) ni))"

definition nmbm_erase_phys_block ::
    "'d nmbm_instance \<Rightarrow> u64 \<Rightarrow> (bool \<times> 'd nmbm_instance) option" where
  "nmbm_erase_phys_block ni addr =
     (if has_flag ni NMBM_F_READ_ONLY then Some (False, ni)
      else case erase_block (lower ni) of
        None \<Rightarrow> None
      | Some f \<Rightarrow> Some (op_tries NMBM_TRY_COUNT (f addr) ni))"

section \<open>Bad-block marks\<close>

text \<open>The two regions of the page cache, main data and spare area, as buffers of a chip access.\<close>

definition page_cache_main :: "'d nmbm_instance \<Rightarrow> bytes option" where
  "page_cache_main ni = slice (page_cache ni) 0 (unat (writesize (lower ni)))"

definition page_cache_oob :: "'d nmbm_instance \<Rightarrow> bytes option" where
  "page_cache_oob ni =
     slice (page_cache ni) (unat (writesize (lower ni))) (unat (oobsize (lower ni)))"

definition put_page_cache ::
    "'d nmbm_instance \<Rightarrow> nat \<Rightarrow> bytes option \<Rightarrow> 'd nmbm_instance option" where
  "put_page_cache ni off b =
     (case b of None \<Rightarrow> Some ni
      | Some xs \<Rightarrow> do { pc \<leftarrow> blit (page_cache ni) off xs; Some (ni\<lparr>page_cache := pc\<rparr>) })"

definition nmbm_check_bad_phys_block ::
    "'d nmbm_instance \<Rightarrow> u32 \<Rightarrow> (bool \<times> 'd nmbm_instance) option" where
  "nmbm_check_bad_phys_block ni ba =
     (let addr = ba2addr ni ba; ws = unat (writesize (lower ni)) in
      case is_bad_block (lower ni) of
        Some f \<Rightarrow> (let (r, c) = f addr (chip ni) in Some (r \<noteq> 0, ni\<lparr>chip := c\<rparr>))
      | None \<Rightarrow> do {
          oob \<leftarrow> page_cache_oob ni;
          (ret, _, oob, ni) \<leftarrow> nmbm_read_phys_page ni addr None (Some oob) NMBM_MODE_RAW;
          ni \<leftarrow> put_page_cache ni ws oob;
          if ret < 0 \<and> ret \<noteq> - EBADMSG then Some (True, ni)
          else do { b \<leftarrow> load (page_cache ni) ws; Some (b \<noteq> 0xff, ni) } })"

fun mark_pages ::
    "'d nmbm_instance \<Rightarrow> u64 \<Rightarrow> u64 list \<Rightarrow> 'd nmbm_instance option" where
  "mark_pages ni addr [] = Some ni"
| "mark_pages ni addr (off # offs) = do {
     dat \<leftarrow> page_cache_main ni;
     oob \<leftarrow> page_cache_oob ni;
     (_, ni) \<leftarrow> nmbm_write_phys_page ni (addr + off) (Some dat) (Some oob) NMBM_MODE_RAW;
     mark_pages ni addr offs }"

definition nmbm_mark_phys_bad_block ::
    "'d nmbm_instance \<Rightarrow> u32 \<Rightarrow> (int \<times> 'd nmbm_instance) option" where
  "nmbm_mark_phys_bad_block ni ba =
     (let addr = ba2addr ni ba in
      if has_flag ni NMBM_F_READ_ONLY then Some (0, ni)
      else case mark_bad_block (lower ni) of
        Some f \<Rightarrow> (let (r, c) = f addr (chip ni) in Some (r, ni\<lparr>chip := c\<rparr>))
      | None \<Rightarrow> do {
          pc \<leftarrow> blit (page_cache ni) 0 (replicate (unat (rawpage_size ni)) 0);
          let (level, ni) = nmbm_set_log_level (ni\<lparr>page_cache := pc\<rparr>) NMBM_LOG_MAX;
          ni \<leftarrow> mark_pages ni addr (page_offs 0 (erasesize (lower ni)) (writesize (lower ni)));
          let (_, ni) = nmbm_set_log_level ni level;
          Some (0, ni) })"

section \<open>Addresses and blocks\<close>

lemma wf_sh: "wf ni \<Longrightarrow> es_sh ni < 32"
  by (simp add: wf_def)

lemma unat_ba2addr:
  assumes "es_sh ni < 32"
  shows "unat (ba2addr ni ba) = unat ba * 2 ^ es_sh ni"
proof -
  have "(2::nat) ^ es_sh ni < 2 ^ 32"
    using assms by (simp only: power_strict_increasing_iff)
  then have "unat ba * 2 ^ es_sh ni < 2 ^ 32 * 2 ^ 32"
    using unat_u32_lt [of ba] by (intro mult_strict_mono) simp_all
  then have "unat ba * 2 ^ es_sh ni < 2 ^ 64" by simp
  then show ?thesis
    unfolding ba2addr_def es_sh_def unsigned_push_bit_eq
    by (simp add: push_bit_eq_mult take_bit_nat_eq_self)
qed

lemma block_of_addr:
  assumes "es_sh ni < 32" and "unat off < 2 ^ es_sh ni"
  shows "unat (drop_bit (es_sh ni) (ba2addr ni ba + off)) = unat ba"
    and "unat (ba2addr ni ba + off) = unat ba * 2 ^ es_sh ni + unat off"
proof -
  have "unat ba * 2 ^ es_sh ni + unat off < (unat ba + 1) * 2 ^ es_sh ni"
    using assms(2) by simp
  also have "\<dots> \<le> 2 ^ 32 * 2 ^ 32"
  proof (rule mult_mono)
    show "(2::nat) ^ es_sh ni \<le> 2 ^ 32"
      using assms(1) by (simp only: power_increasing_iff)
  qed (use unat_u32_lt [of ba] in simp_all)
  finally have "unat ba * 2 ^ es_sh ni + unat off < 2 ^ 64" by simp
  then show u: "unat (ba2addr ni ba + off) = unat ba * 2 ^ es_sh ni + unat off"
    by (subst unat_add_fits) (simp_all add: unat_ba2addr assms)
  show "unat (drop_bit (es_sh ni) (ba2addr ni ba + off)) = unat ba"
    unfolding unat_drop_bit_eq u using assms(2) by (simp add: drop_bit_eq_div)
qed

lemma block_of_ba2addr:
  assumes "es_sh ni < 32"
  shows "unat (drop_bit (es_sh ni) (ba2addr ni ba)) = unat ba"
  using block_of_addr(1) [OF assms, of 0 ba] by simp

lemma addr2ba_ba2addr:
  assumes "es_sh ni < 32" and "unat off < 2 ^ es_sh ni"
  shows "addr2ba ni (ba2addr ni ba + off) = ba"
proof -
  have "unat (addr2ba ni (ba2addr ni ba + off)) = unat ba"
    using block_of_addr(1) [OF assms, of ba] unat_u32_lt [of ba]
    by (simp add: addr2ba_def es_sh_def unat_ucast_u64_u32)
  then show ?thesis by (simp add: word_unat_eq_iff)
qed

lemma page_offs_bound: "off \<in> set (page_offs start es ws) \<Longrightarrow> unat off < unat es"
proof (induction start es ws rule: page_offs.induct)
  case (1 start es ws)
  then show ?case
    by (subst (asm) page_offs.simps) (auto simp: word_less_nat_alt split: if_splits)
qed

section \<open>Accesses that touch nothing but the chip and the page cache\<close>

definition may_touch :: "'d nmbm_instance \<Rightarrow> nat set \<Rightarrow> nat \<Rightarrow> bool" where
  "may_touch ni A b \<longleftrightarrow> read_only ni \<or> b \<in> A"

definition io :: "nat set \<Rightarrow> 'd nmbm_instance \<Rightarrow> 'd nmbm_instance \<Rightarrow> bool" where
  "io A ni ni' \<longleftrightarrow>
     (\<exists>c p. ni' = ni\<lparr>chip := c, page_cache := p\<rparr> \<and>
        dev_reach (lower ni) (es_sh ni) A (chip ni) c \<and> length p = length (page_cache ni))"

lemma chip_cache_update_inject [simp]:
  "ni\<lparr>chip := c, page_cache := p\<rparr> = ni\<lparr>chip := c', page_cache := p'\<rparr> \<longleftrightarrow> c = c' \<and> p = p'"
  by (cases ni) auto

lemma es_sh_update [simp]:
  "es_sh (ni\<lparr>chip := c\<rparr>) = es_sh ni" "es_sh (ni\<lparr>page_cache := p\<rparr>) = es_sh ni"
  by (simp_all add: es_sh_def)

lemma ioI:
  "dev_reach (lower ni) (es_sh ni) A (chip ni) c \<Longrightarrow> length p = length (page_cache ni) \<Longrightarrow>
   io A ni (ni\<lparr>chip := c, page_cache := p\<rparr>)"
  by (auto simp: io_def)

lemma io_chipI: "dev_reach (lower ni) (es_sh ni) A (chip ni) c \<Longrightarrow> io A ni (ni\<lparr>chip := c\<rparr>)"
  using ioI [of ni A c "page_cache ni"] by simp

lemma io_cacheI: "length p = length (page_cache ni) \<Longrightarrow> io A ni (ni\<lparr>page_cache := p\<rparr>)"
  using ioI [OF dev_refl [of "lower ni" "es_sh ni" A "chip ni"], of p] by simp

lemma io_refl [simp]: "io A ni ni"
  using io_cacheI [of "page_cache ni" ni A] by simp

lemma io_static: "io A ni ni' \<Longrightarrow> static ni' = static ni"
  by (auto simp: io_def static_def)

lemma io_wf: "io A ni ni' \<Longrightarrow> wf ni' \<longleftrightarrow> wf ni"
  by (rule wf_static) (rule io_static)

lemma io_trans:
  assumes "io A a b" and "io A b c"
  shows "io A a c"
proof -
  obtain x p where b: "b = a\<lparr>chip := x, page_cache := p\<rparr>"
    and x: "dev_reach (lower a) (es_sh a) A (chip a) x" and p: "length p = length (page_cache a)"
    using assms(1) by (auto simp: io_def)
  obtain y q where c: "c = a\<lparr>chip := y, page_cache := q\<rparr>"
    and y: "dev_reach (lower a) (es_sh a) A x y" and q: "length q = length (page_cache a)"
    using assms(2) p by (auto simp: io_def b)
  show ?thesis unfolding c by (rule ioI) (use dev_reach_trans [OF x y] q in simp_all)
qed

lemma io_mono: "io A a b \<Longrightarrow> A \<subseteq> B \<Longrightarrow> io B a b"
  by (auto simp: io_def intro: dev_reach_mono)

lemma io_from_empty: "io {} a b \<Longrightarrow> io B a b"
  by (erule io_mono) simp

lemma io_reset [simp]: "io A ni (nmbm_reset_chip ni)"
  by (auto simp: nmbm_reset_chip_def split: option.split intro: dev_reach.intros io_chipI)

lemma page_cache_reset [simp]: "page_cache (nmbm_reset_chip ni) = page_cache ni"
  by (simp add: nmbm_reset_chip_def split: option.split)

lemma lower_reset [simp]: "lower (nmbm_reset_chip ni) = lower ni"
  by (simp add: nmbm_reset_chip_def split: option.split)

definition same_shape :: "bytes option \<Rightarrow> bytes option \<Rightarrow> bool" where
  "same_shape a b \<longleftrightarrow> map_option length a = map_option length b"

lemma same_shape_simps [simp]:
  "same_shape x x" "same_shape None b \<longleftrightarrow> b = None" "same_shape a None \<longleftrightarrow> a = None"
  "same_shape a (Some y) \<longleftrightarrow> (\<exists>x. a = Some x \<and> length x = length y)"
  "same_shape (map_option (\<lambda>old. overlay old d) dat) dat"
  by (auto simp: same_shape_def option.map_comp comp_def)

lemma same_shape_trans: "same_shape a b \<Longrightarrow> same_shape b c \<Longrightarrow> same_shape a c"
  by (simp add: same_shape_def)

lemma lower_read_page_ok:
  assumes "read_page (lower ni) \<noteq> None"
  shows "ok (lower_read_page ni addr dat oob mode) (\<lambda>(ret, dat', oob', ni').
     io {} ni ni' \<and> page_cache ni' = page_cache ni \<and> same_shape dat' dat \<and> same_shape oob' oob)"
proof -
  obtain f where f: "read_page (lower ni) = Some f" using assms by auto
  obtain r d b c where rd: "f addr dat oob mode (chip ni) = (r, d, b, c)"
    by (metis prod_cases4)
  have "io {} ni (ni\<lparr>chip := c\<rparr>)"
    by (rule io_chipI) (rule dev_reach.dev_read [OF dev_refl f rd])
  then show ?thesis by (simp add: lower_read_page_def f rd)
qed

lemma io_lower: "io A ni ni' \<Longrightarrow> lower ni' = lower ni"
  by (auto simp: io_def)

lemma read_tries_ok:
  assumes "read_page (lower ni) \<noteq> None"
  shows "ok (read_tries n ret ni addr dat oob mode) (\<lambda>(ret, dat', oob', ni').
     io {} ni ni' \<and> page_cache ni' = page_cache ni \<and> same_shape dat' dat \<and> same_shape oob' oob)"
  using assms
proof (induction n arbitrary: ret ni dat oob)
  case 0
  then show ?case by simp
next
  case (Suc n)
  show ?case
    unfolding read_tries.simps
  proof (rule ok_bindI [OF lower_read_page_ok [OF Suc.prems]], clarify, goal_cases)
    case (1 r d b ni1)
    then have "read_page (lower (nmbm_reset_chip ni1)) \<noteq> None"
      using Suc.prems by (simp add: io_lower)
    note IH = Suc.IH [OF this, of r d b]
    show ?case
      using 1 by (auto intro!: ok_mono [OF IH] intro: io_trans [OF _ io_trans [OF io_reset]]
          same_shape_trans)
  qed
qed

lemma nmbm_read_phys_page_ok:
  "wf ni \<Longrightarrow> ok (nmbm_read_phys_page ni addr dat oob mode) (\<lambda>(ret, dat', oob', ni').
     io {} ni ni' \<and> page_cache ni' = page_cache ni \<and> same_shape dat' dat \<and> same_shape oob' oob)"
  unfolding nmbm_read_phys_page_def by (rule read_tries_ok) (simp add: wf_def)

lemma op_tries_io:
  assumes "\<And>c r c'. f c = (r, c') \<Longrightarrow> dev_reach (lower ni) (es_sh ni) A c c'"
  shows "op_tries n f ni = (s, ni') \<Longrightarrow> io A ni ni' \<and> page_cache ni' = page_cache ni"
  using assms
proof (induction n arbitrary: ni)
  case 0
  then show ?case by simp
next
  case (Suc n)
  obtain r c where fc: "f (chip ni) = (r, c)" by (cases "f (chip ni)")
  let ?a = "ni\<lparr>chip := c\<rparr>"
  have 1: "io A ni ?a" by (rule io_chipI) (rule Suc.prems(2) [OF fc])
  then have 2: "io A ni (nmbm_reset_chip ?a)" by (rule io_trans) (rule io_reset)
  show ?case
  proof (cases "r = 0")
    case True
    then show ?thesis using Suc.prems(1) 1 by (auto simp: fc)
  next
    case False
    have "io A (nmbm_reset_chip ?a) ni' \<and> page_cache ni' = page_cache (nmbm_reset_chip ?a)"
    proof (rule Suc.IH)
      show "op_tries n f (nmbm_reset_chip ?a) = (s, ni')"
        using Suc.prems(1) False by (simp add: fc)
      have "es_sh (nmbm_reset_chip ?a) = es_sh ni"
        by (simp add: nmbm_reset_chip_def split: option.split)
      then show "\<And>c r c'. f c = (r, c') \<Longrightarrow>
          dev_reach (lower (nmbm_reset_chip ?a)) (es_sh (nmbm_reset_chip ?a)) A c c'"
        using Suc.prems(2) by simp
    qed
    then show ?thesis using 2 by (auto intro: io_trans)
  qed
qed

lemma nmbm_write_phys_page_ok:
  assumes "wf ni" and "may_touch ni A (unat (drop_bit (es_sh ni) addr))"
  shows "ok (nmbm_write_phys_page ni addr dat oob mode)
    (\<lambda>(s, ni'). io A ni ni' \<and> page_cache ni' = page_cache ni)"
proof (cases "read_only ni")
  case True
  then show ?thesis by (simp add: nmbm_write_phys_page_def read_only_def)
next
  case False
  then obtain f where f: "write_page (lower ni) = Some f" using assms(1) by (auto simp: wf_def)
  have "dev_reach (lower ni) (es_sh ni) A c c'" if "f addr dat oob mode c = (r, c')" for c r c'
    using assms(2) False by (auto intro: dev_reach.dev_write [OF dev_refl f that] simp: may_touch_def)
  then have "io A ni ni' \<and> page_cache ni' = page_cache ni"
    if "op_tries NMBM_TRY_COUNT (f addr dat oob mode) ni = (s, ni')" for s ni'
    using op_tries_io [OF _ that] by blast
  then show ?thesis
    using False by (auto simp: nmbm_write_phys_page_def read_only_def f split: prod.split)
qed

lemma nmbm_panic_write_phys_page_ok:
  assumes "panic_write_page (lower ni) \<noteq> None"
    and "may_touch ni A (unat (drop_bit (es_sh ni) addr))"
  shows "ok (nmbm_panic_write_phys_page ni addr dat)
    (\<lambda>(s, ni'). io A ni ni' \<and> page_cache ni' = page_cache ni)"
proof (cases "read_only ni")
  case True
  then show ?thesis by (simp add: nmbm_panic_write_phys_page_def read_only_def)
next
  case False
  obtain f where f: "panic_write_page (lower ni) = Some f" using assms(1) by auto
  have "dev_reach (lower ni) (es_sh ni) A c c'" if "f addr dat c = (r, c')" for c r c'
    using assms(2) False by (auto intro: dev_reach.dev_panic [OF dev_refl f that] simp: may_touch_def)
  then have "io A ni ni' \<and> page_cache ni' = page_cache ni"
    if "op_tries NMBM_TRY_COUNT (f addr dat) ni = (s, ni')" for s ni'
    using op_tries_io [OF _ that] by blast
  then show ?thesis
    using False by (auto simp: nmbm_panic_write_phys_page_def read_only_def f split: prod.split)
qed

lemma nmbm_erase_phys_block_ok:
  assumes "wf ni" and "may_touch ni A (unat (drop_bit (es_sh ni) addr))"
  shows "ok (nmbm_erase_phys_block ni addr)
    (\<lambda>(s, ni'). io A ni ni' \<and> page_cache ni' = page_cache ni)"
proof (cases "read_only ni")
  case True
  then show ?thesis by (simp add: nmbm_erase_phys_block_def read_only_def)
next
  case False
  then obtain f where f: "erase_block (lower ni) = Some f" using assms(1) by (auto simp: wf_def)
  have "dev_reach (lower ni) (es_sh ni) A c c'" if "f addr c = (r, c')" for c r c'
    using assms(2) False by (auto intro: dev_reach.dev_erase [OF dev_refl f that] simp: may_touch_def)
  then have "io A ni ni' \<and> page_cache ni' = page_cache ni"
    if "op_tries NMBM_TRY_COUNT (f addr) ni = (s, ni')" for s ni'
    using op_tries_io [OF _ that] by blast
  then show ?thesis
    using False by (auto simp: nmbm_erase_phys_block_def read_only_def f split: prod.split)
qed


section \<open>Bad-block queries and marks\<close>

lemma wf_page_cache:
  assumes "wf ni"
  shows "length (page_cache ni) = unat (writesize (lower ni)) + unat (oobsize (lower ni))"
    and "unat (rawpage_size ni) = length (page_cache ni)"
    and "0 < unat (oobsize (lower ni))" and "0 < unat (writesize (lower ni))"
  using assms by (auto simp: wf_def word_less_nat_alt)

lemma page_cache_slices_ok:
  assumes "wf ni"
  shows "page_cache_main ni = Some (take (unat (writesize (lower ni))) (page_cache ni))"
    and "page_cache_oob ni = Some (drop (unat (writesize (lower ni))) (page_cache ni))"
  using wf_page_cache [OF assms]
  by (simp_all add: page_cache_main_def page_cache_oob_def slice_def)

lemma put_page_cache_ok:
  assumes "\<And>xs. b = Some xs \<Longrightarrow> off + length xs \<le> length (page_cache ni)"
  shows "ok (put_page_cache ni off b) (\<lambda>ni'. \<exists>p. ni' = ni\<lparr>page_cache := p\<rparr> \<and>
    length p = length (page_cache ni) \<and>
    (\<forall>xs. b = Some xs \<longrightarrow> take (length xs) (drop off p) = xs))"
proof (cases b)
  case None
  show ?thesis by (simp add: put_page_cache_def None exI [of _ "page_cache ni"])
next
  case (Some xs)
  then show ?thesis using assms [OF Some]
    by (auto simp: put_page_cache_def ok_bind)
qed

lemma nmbm_check_bad_phys_block_ok:
  assumes "wf ni"
  shows "ok (nmbm_check_bad_phys_block ni ba) (\<lambda>(b, ni'). io {} ni ni')"
proof (cases "is_bad_block (lower ni)")
  case (Some f)
  obtain r c where rc: "f (ba2addr ni ba) (chip ni) = (r, c)" by (cases "f (ba2addr ni ba) (chip ni)")
  have "io {} ni (ni\<lparr>chip := c\<rparr>)"
    by (rule io_chipI) (rule dev_reach.dev_query [OF dev_refl Some rc])
  then show ?thesis by (simp add: nmbm_check_bad_phys_block_def Some rc)
next
  case None
  note pc = wf_page_cache [OF assms]
  show ?thesis
    unfolding nmbm_check_bad_phys_block_def None Let_def option.case page_cache_slices_ok [OF assms]
      Option.bind.bind_lunit
  proof (rule ok_bind4 [OF nmbm_read_phys_page_ok [OF assms]], goal_cases)
    case (1 ret dat buf ni1)
    then obtain oob where oob: "buf = Some oob" and lo: "length oob = unat (oobsize (lower ni))"
      using pc by auto
    have "unat (writesize (lower ni)) + length oob \<le> length (page_cache ni1)"
      using 1 lo pc by simp
    note put = put_page_cache_ok [of "Some oob" "unat (writesize (lower ni))" ni1, simplified, OF this]
    show ?case unfolding oob
    proof (rule ok_bindI [OF put], goal_cases)
      case p: (1 ni2)
      then have "io {} ni1 ni2" by (auto intro: io_cacheI)
      then have "io {} ni ni2" using 1 by (blast intro: io_trans)
      then show ?case using p 1 pc by (auto simp: ok_bind)
    qed
  qed
qed

lemma mark_pages_ok:
  assumes "wf ni" and "may_touch ni A (unat ba)" and "addr = ba2addr ni ba"
    and "\<forall>off \<in> set offs. unat off < 2 ^ es_sh ni"
  shows "ok (mark_pages ni addr offs) (\<lambda>ni'. io A ni ni')"
  using assms
proof (induction offs arbitrary: ni)
  case Nil
  then show ?case by simp
next
  case (Cons off offs)
  have "may_touch ni A (unat (drop_bit (es_sh ni) (addr + off)))"
    using Cons.prems wf_sh [OF Cons.prems(1)] by (simp add: block_of_addr)
  note wr = nmbm_write_phys_page_ok [OF Cons.prems(1) this]
  show ?case
    unfolding mark_pages.simps page_cache_slices_ok [OF Cons.prems(1)] Option.bind.bind_lunit
  proof (rule ok_bind2 [OF wr], goal_cases)
    case (1 s ni1)
    then have io1: "io A ni ni1" by blast
    have eq: "static ni1 = static ni" by (rule io_static [OF io1])
    note f = static_fields [OF eq]
    have "ok (mark_pages ni1 addr offs) (\<lambda>ni'. io A ni1 ni')"
    proof (rule Cons.IH)
      show "wf ni1" using Cons.prems(1) by (simp only: wf_static [OF eq])
      show "may_touch ni1 A (unat ba)" using Cons.prems(2) by (simp add: may_touch_def f)
      show "addr = ba2addr ni1 ba" using Cons.prems(3) by (simp add: ba2addr_def f)
      show "\<forall>off \<in> set offs. unat off < 2 ^ es_sh ni1" using Cons.prems(4) by (simp add: f)
    qed
    then show ?case by (rule ok_mono) (rule io_trans [OF io1])
  qed
qed

lemma wf_erasesize: "wf ni \<Longrightarrow> unat (erasesize (lower ni)) = 2 ^ es_sh ni"
  by (simp add: wf_def)

lemma nmbm_mark_phys_bad_block_ok:
  assumes "wf ni" and "may_touch ni A (unat ba)"
  shows "ok (nmbm_mark_phys_bad_block ni ba) (\<lambda>(r, ni'). io A ni ni')"
proof (cases "read_only ni")
  case True
  then show ?thesis by (simp add: nmbm_mark_phys_bad_block_def read_only_def)
next
  case False
  show ?thesis
  proof (cases "mark_bad_block (lower ni)")
    case (Some f)
    obtain r c where rc: "f (ba2addr ni ba) (chip ni) = (r, c)"
      by (cases "f (ba2addr ni ba) (chip ni)")
    have "unat (drop_bit (es_sh ni) (ba2addr ni ba)) \<in> A"
      using assms False by (simp add: block_of_ba2addr wf_sh may_touch_def)
    then have "io A ni (ni\<lparr>chip := c\<rparr>)"
      by (intro io_chipI dev_reach.dev_mark [OF dev_refl Some rc])
    then show ?thesis using False by (simp add: nmbm_mark_phys_bad_block_def Some rc read_only_def)
  next
    case None
    let ?p = "replicate (unat (rawpage_size ni)) 0 :: bytes"
    let ?n = "ni\<lparr>page_cache := ?p, log_display_level := NMBM_LOG_MAX\<rparr>"
    have st: "static ?n = static ni"
      using wf_page_cache [OF assms(1)] by (simp add: static_def)
    note f = static_fields [OF st]
    have "ok (mark_pages ?n (ba2addr ni ba)
        (page_offs 0 (erasesize (lower ni)) (writesize (lower ni)))) (\<lambda>ni'. io A ?n ni')"
    proof (rule mark_pages_ok)
      show "wf ?n" using assms(1) by (simp only: wf_static [OF st])
      show "may_touch ?n A (unat ba)" using assms(2) by (simp add: may_touch_def f)
      show "ba2addr ni ba = ba2addr ?n ba" by (simp add: ba2addr_def)
      show "\<forall>off\<in>set (page_offs 0 (erasesize (lower ni)) (writesize (lower ni))). unat off < 2 ^ es_sh ?n"
        using page_offs_bound wf_erasesize [OF assms(1)] by (fastforce simp: f)
    qed
    then show ?thesis
      using False None wf_page_cache [OF assms(1)]
      by (auto simp: nmbm_mark_phys_bad_block_def read_only_def blit_def nmbm_set_log_level_def
          ok_def io_def es_sh_def)
  qed
qed


end
