(* ===== verification/Nmbm_State.thy ===== *)
theory Nmbm_State
  imports Nmbm_Phys
begin

text \<open>
  The block state table (two bits per block, sixteen blocks per unit), the walks over good
  blocks, and the initial scan and mapping table.
\<close>

section \<open>The state table\<close>

definition nmbm_get_spare_block_count :: "u32 \<Rightarrow> u32" where
  "nmbm_get_spare_block_count blocks =
     (let val = (blocks + 2 div 2) div 2; val = val * 1
      in if val < 2 then 2 else val)"

definition nmbm_get_block_state_raw :: "u32 list \<Rightarrow> u32 \<Rightarrow> u32 option" where
  "nmbm_get_block_state_raw bs ba =
     (let unit = ba div 16; shift = (ba mod 16) * 2
      in do { w \<leftarrow> load bs (unat unit); Some (drop_bit (unat shift) w AND BLOCK_ST_MASK) })"

definition nmbm_get_block_state :: "'d nmbm_instance \<Rightarrow> u32 \<Rightarrow> u32 option" where
  "nmbm_get_block_state ni ba = nmbm_get_block_state_raw (block_state ni) ba"

definition nmbm_set_block_state ::
    "'d nmbm_instance \<Rightarrow> u32 \<Rightarrow> u32 \<Rightarrow> (bool \<times> 'd nmbm_instance) option" where
  "nmbm_set_block_state ni ba state =
     (let unit = ba div 16; shift = (ba mod 16) * 2 in do {
        w \<leftarrow> load (block_state ni) (unat unit);
        let orig = drop_bit (unat shift) w AND BLOCK_ST_MASK;
        let state = state AND BLOCK_ST_MASK;
        let uv = w AND NOT (push_bit (unat shift) BLOCK_ST_MASK);
        let uv = uv OR push_bit (unat shift) state;
        bs \<leftarrow> store (block_state ni) (unat unit) uv;
        let ni = ni\<lparr>block_state := bs\<rparr>;
        if orig \<noteq> state
        then Some (True, ni\<lparr>block_state_changed := block_state_changed ni + 1\<rparr>)
        else Some (False, ni) })"

section \<open>Walks over good blocks\<close>

text \<open>
  An out parameter that is written only on success is an option: \<open>None\<close> is the return value
  \<open>false\<close>.
\<close>

function walk_asc :: "'d nmbm_instance \<Rightarrow> u32 \<Rightarrow> int \<Rightarrow> u32 \<Rightarrow> u32 option option" where
  "walk_asc ni ba nblock limit =
     (if ba < limit then do {
        st \<leftarrow> nmbm_get_block_state ni ba;
        let nblock = (if st = BLOCK_ST_GOOD then nblock - 1 else nblock);
        if nblock < 0 then Some (Some ba) else walk_asc ni (ba + 1) nblock limit }
      else Some None)"
  by pat_completeness auto
termination
  by (relation "measure (\<lambda>(ni, ba, nblock, limit). unat limit - unat ba)")
    (auto simp: word_less_nat_alt)

function walk_desc :: "'d nmbm_instance \<Rightarrow> u32 \<Rightarrow> int \<Rightarrow> u32 \<Rightarrow> u32 option option" where
  "walk_desc ni ba nblock limit =
     (if ba > limit then do {
        st \<leftarrow> nmbm_get_block_state ni ba;
        let nblock = (if st = BLOCK_ST_GOOD then nblock - 1 else nblock);
        if nblock < 0 then Some (Some ba) else walk_desc ni (ba - 1) nblock limit }
      else Some None)"
  by pat_completeness auto
termination
proof (relation "measure (\<lambda>(ni, ba, nblock, limit). unat ba)", goal_cases)
  case 1 show ?case by simp
next
  case (2 ni ba nblock limit)
  then have "ba \<noteq> 0" by (auto dest: word_gt_nonzero)
  then show ?case by (simp add: unat_gt_0)
qed

declare walk_asc.simps [simp del] walk_desc.simps [simp del]

definition clip_limit :: "'d nmbm_instance \<Rightarrow> u32 \<Rightarrow> u32" where
  "clip_limit ni limit = (if limit \<ge> block_count ni then block_count ni - 1 else limit)"

definition nmbm_block_walk_asc ::
    "'d nmbm_instance \<Rightarrow> u32 \<Rightarrow> u32 \<Rightarrow> u32 \<Rightarrow> u32 option option" where
  "nmbm_block_walk_asc ni ba count limit = walk_asc ni ba (sint count) (clip_limit ni limit)"

definition nmbm_block_walk_desc ::
    "'d nmbm_instance \<Rightarrow> u32 \<Rightarrow> u32 \<Rightarrow> u32 \<Rightarrow> u32 option option" where
  "nmbm_block_walk_desc ni ba count limit = walk_desc ni ba (sint count) (clip_limit ni limit)"

definition nmbm_block_walk ::
    "'d nmbm_instance \<Rightarrow> bool \<Rightarrow> u32 \<Rightarrow> u32 \<Rightarrow> u32 \<Rightarrow> u32 option option" where
  "nmbm_block_walk ni ascending ba count limit =
     (if ascending then nmbm_block_walk_asc ni ba count limit
      else nmbm_block_walk_desc ni ba count limit)"

function try_reserve ::
    "'d nmbm_instance \<Rightarrow> u32 \<Rightarrow> int \<Rightarrow> int \<Rightarrow> u32 \<Rightarrow> u32 option option" where
  "try_reserve ni ba nblocks min_count limit =
     (if nblocks \<ge> min_count then do {
        r \<leftarrow> nmbm_block_walk ni True ba (word_of_int nblocks) limit;
        case r of Some nba \<Rightarrow> Some (Some nba)
        | None \<Rightarrow> try_reserve ni ba (nblocks - 1) min_count limit }
      else Some None)"
  by pat_completeness auto
termination
  by (relation "measure (\<lambda>(ni, ba, nblocks, min_count, limit). nat (nblocks - min_count + 1))") auto

declare try_reserve.simps [simp del]

definition nmbm_try_reserve_blocks ::
    "'d nmbm_instance \<Rightarrow> u32 \<Rightarrow> u32 \<Rightarrow> int \<Rightarrow> u32 \<Rightarrow> u32 option option" where
  "nmbm_try_reserve_blocks ni ba count min_count limit =
     try_reserve ni ba (sint count) min_count limit"

section \<open>Initial scan and mapping\<close>

function scan_from :: "'d nmbm_instance \<Rightarrow> u32 \<Rightarrow> u32 \<Rightarrow> 'd nmbm_instance option" where
  "scan_from ni ba bc =
     (if ba < bc then do {
        (bad, ni) \<leftarrow> nmbm_check_bad_phys_block ni ba;
        ni \<leftarrow> (if bad then do { (_, ni) \<leftarrow> nmbm_set_block_state ni ba BLOCK_ST_BAD; Some ni }
               else Some ni);
        scan_from ni (ba + 1) bc }
      else Some ni)"
  by pat_completeness auto
termination
  by (relation "measure (\<lambda>(ni, ba, bc). unat bc - unat ba)") (auto simp: word_less_nat_alt)

declare scan_from.simps [simp del]

definition nmbm_scan_badblocks :: "'d nmbm_instance \<Rightarrow> 'd nmbm_instance option" where
  "nmbm_scan_badblocks ni = scan_from ni 0 (block_count ni)"

function map_good :: "'d nmbm_instance \<Rightarrow> u32 \<Rightarrow> u32 \<Rightarrow> u32 \<Rightarrow> (u32 \<times> 'd nmbm_instance) option" where
  "map_good ni pb lb mgmt =
     (if pb < mgmt then do {
        st \<leftarrow> nmbm_get_block_state ni pb;
        if st = BLOCK_ST_BAD then map_good ni (pb + 1) lb mgmt
        else do {
          bm \<leftarrow> store (block_mapping ni) (unat lb) pb;
          map_good (ni\<lparr>block_mapping := bm\<rparr>) (pb + 1) (lb + 1) mgmt } }
      else Some (lb, ni))"
  by pat_completeness auto
termination
  by (relation "measure (\<lambda>(ni, pb, lb, mgmt). unat mgmt - unat pb)") (auto simp: word_less_nat_alt)

function unmap_from :: "'d nmbm_instance \<Rightarrow> u32 \<Rightarrow> u32 \<Rightarrow> 'd nmbm_instance option" where
  "unmap_from ni pb bc =
     (if pb < bc then do {
        bm \<leftarrow> store (block_mapping ni) (unat pb) (- 1);
        unmap_from (ni\<lparr>block_mapping := bm\<rparr>) (pb + 1) bc }
      else Some ni)"
  by pat_completeness auto
termination
  by (relation "measure (\<lambda>(ni, pb, bc). unat bc - unat pb)") (auto simp: word_less_nat_alt)

declare map_good.simps [simp del] unmap_from.simps [simp del]

definition nmbm_build_mapping_table :: "'d nmbm_instance \<Rightarrow> 'd nmbm_instance option" where
  "nmbm_build_mapping_table ni = do {
     (lb, ni) \<leftarrow> map_good ni 0 0 (mgmt_start_ba ni);
     unmap_from (ni\<lparr>data_block_count := lb\<rparr>) lb (block_count ni) }"

section \<open>Two-bit fields\<close>

definition st_of :: "u32 list \<Rightarrow> nat \<Rightarrow> u32" where
  "st_of bs i = drop_bit (2 * (i mod 16)) (bs ! (i div 16)) AND BLOCK_ST_MASK"

definition st_upd :: "u32 list \<Rightarrow> nat \<Rightarrow> u32 \<Rightarrow> u32 list" where
  "st_upd bs i v =
     bs[i div 16 := (bs ! (i div 16) AND NOT (push_bit (2 * (i mod 16)) BLOCK_ST_MASK)) OR
        push_bit (2 * (i mod 16)) (v AND BLOCK_ST_MASK)]"

definition st_len :: "u32 list \<Rightarrow> nat" where
  "st_len bs = 16 * length bs"

lemma field_update:
  fixes w v :: u32
  assumes "k < 16" and "l < 16"
  shows "drop_bit (2 * l) ((w AND NOT (push_bit (2 * k) (mask 2))) OR push_bit (2 * k) (v AND mask 2))
      AND mask 2 = (if l = k then v AND mask 2 else drop_bit (2 * l) w AND mask 2)" (is "?l = ?r")
proof (rule bit_word_eqI)
  fix n assume "n < LENGTH(32)"
  show "bit ?l n = bit ?r n"
  proof (cases "n < 2")
    case True
    have "2 * l + n < 32" using assms True by simp
    moreover have "2 * k \<le> 2 * l + n \<and> 2 * l + n - 2 * k < 2 \<longleftrightarrow> l = k"
      using True by auto
    ultimately show ?thesis using True
      by (auto simp: bit_or_iff bit_and_iff bit_drop_bit_eq bit_push_bit_iff possible_bit_word
          bit_not_iff bit_mask_iff)
  next
    case False
    then show ?thesis by (simp add: bit_and_iff bit_mask_iff)
  qed
qed

lemma mask_two: "(BLOCK_ST_MASK :: u32) = mask 2"
  by (simp add: BLOCK_ST_MASK_def mask_eq_exp_minus_1)

lemma st_upd_same_or_other:
  assumes "i < st_len bs" and "j < st_len bs"
  shows "st_of (st_upd bs i v) j = (if j = i then v AND BLOCK_ST_MASK else st_of bs j)"
proof (cases "j div 16 = i div 16")
  case True
  have "j mod 16 = i mod 16 \<longleftrightarrow> j = i"
    using True by (metis div_mult_mod_eq)
  moreover have i: "i div 16 < length bs" using assms(1) by (simp add: st_len_def)
  have "st_of (st_upd bs i v) j =
      (if j mod 16 = i mod 16 then v AND mask 2
       else drop_bit (2 * (j mod 16)) (bs ! (i div 16)) AND mask 2)"
    unfolding st_of_def st_upd_def True nth_list_update_eq [OF i] mask_two
    by (rule field_update) simp_all
  ultimately show ?thesis by (simp add: st_of_def True mask_two)
next
  case False
  then show ?thesis by (auto simp: st_of_def st_upd_def)
qed

text \<open>
  What the management code relies on: a table of block states with updates that touch one
  entry, and the good blocks it can still lose.
\<close>

locale state_table =
  fixes get :: "'t \<Rightarrow> nat \<Rightarrow> u32"
    and upd :: "'t \<Rightarrow> nat \<Rightarrow> u32 \<Rightarrow> 't"
    and len :: "'t \<Rightarrow> nat"
  assumes get_upd: "i < len t \<Longrightarrow> j < len t \<Longrightarrow>
      get (upd t i v) j = (if j = i then v AND BLOCK_ST_MASK else get t j)"
    and len_upd: "len (upd t i v) = len t"
begin

definition goods :: "'t \<Rightarrow> nat set" where
  "goods t = {i. i < len t \<and> get t i = BLOCK_ST_GOOD}"

definition degrades :: "nat set \<Rightarrow> 't \<Rightarrow> 't \<Rightarrow> bool" where
  "degrades A t t' \<longleftrightarrow> len t' = len t \<and>
     (\<forall>i < len t. get t' i = get t i \<or>
        (i \<in> A \<and> get t i = BLOCK_ST_GOOD \<and> get t' i = BLOCK_ST_BAD))"

lemma finite_goods [simp]: "finite (goods t)"
  by (simp add: goods_def)

lemma degrades_refl [simp]: "degrades A t t"
  by (simp add: degrades_def)

lemma degrades_trans: "degrades A s t \<Longrightarrow> degrades A t u \<Longrightarrow> degrades A s u"
  unfolding degrades_def by (metis block_st_distinct(1))

lemma degrades_mono: "degrades A s t \<Longrightarrow> A \<subseteq> B \<Longrightarrow> degrades B s t"
  by (auto simp: degrades_def)

lemma degrades_goods: "degrades A t t' \<Longrightarrow> goods t' \<subseteq> goods t"
  by (auto simp: degrades_def goods_def)

lemma degrades_lost: "degrades A t t' \<Longrightarrow> goods t - goods t' \<subseteq> A"
  by (auto simp: degrades_def goods_def)

lemma degrades_bad: "degrades A t t' \<Longrightarrow> i < len t \<Longrightarrow> get t i \<noteq> BLOCK_ST_GOOD \<Longrightarrow> get t' i = get t i"
  by (auto simp: degrades_def)

lemma degrades_outside: "degrades A t t' \<Longrightarrow> i < len t \<Longrightarrow> i \<notin> A \<Longrightarrow> get t' i = get t i"
  by (auto simp: degrades_def)

lemma degrades_upd_bad:
  assumes "i < len t" and "i \<in> A" and "get t i = BLOCK_ST_GOOD"
  shows "degrades A t (upd t i BLOCK_ST_BAD)" and "i \<notin> goods (upd t i BLOCK_ST_BAD)"
  using assms by (auto simp: degrades_def goods_def get_upd len_upd BLOCK_ST_BAD_def BLOCK_ST_GOOD_def)

text \<open>A weaker order, for the operations that may also ask for a block to be remapped.\<close>

definition worse :: "nat set \<Rightarrow> 't \<Rightarrow> 't \<Rightarrow> bool" where
  "worse A t t' \<longleftrightarrow> len t' = len t \<and>
     (\<forall>i < len t. get t' i = get t i \<or>
        (i \<in> A \<and> get t i \<noteq> BLOCK_ST_BAD \<and> get t' i \<noteq> BLOCK_ST_GOOD))"

lemma worse_refl [simp]: "worse A t t"
  by (simp add: worse_def)

lemma worse_trans: "worse A s t \<Longrightarrow> worse A t u \<Longrightarrow> worse A s u"
  unfolding worse_def by metis

lemma worse_mono: "worse A s t \<Longrightarrow> A \<subseteq> B \<Longrightarrow> worse B s t"
  by (auto simp: worse_def)

lemma degrades_worse: "degrades A s t \<Longrightarrow> worse A s t"
  by (auto simp: degrades_def worse_def)

lemma worse_goods: "worse A t t' \<Longrightarrow> goods t' \<subseteq> goods t"
  by (auto simp: worse_def goods_def)

lemma worse_bad: "worse A t t' \<Longrightarrow> i < len t \<Longrightarrow> get t i = BLOCK_ST_BAD \<Longrightarrow> get t' i = BLOCK_ST_BAD"
  by (auto simp: worse_def)

lemma worse_upd:
  assumes "i < len t" and "i \<in> A" and "get t i \<noteq> BLOCK_ST_BAD" and "v AND BLOCK_ST_MASK \<noteq> BLOCK_ST_GOOD"
  shows "worse A t (upd t i v)"
  using assms by (auto simp: worse_def get_upd len_upd)

lemma goods_strict_card: "goods t' \<subset> goods t \<Longrightarrow> card (goods t') < card (goods t)"
  by (rule psubset_card_mono) simp_all

end

interpretation bitmap: state_table st_of st_upd st_len
  by unfold_locales (simp_all add: st_upd_same_or_other, simp add: st_len_def st_upd_def)

text \<open>The code's reads and updates of the table are those of the bitmap.\<close>

definition bst :: "'d nmbm_instance \<Rightarrow> nat \<Rightarrow> u32" where
  "bst ni i = st_of (block_state ni) i"

lemma unat_field_shift: "unat (((ba :: u32) mod 16) * 2) = 2 * (unat ba mod 16)"
  by (simp add: unat_word_ariths)

lemma nmbm_get_block_state_raw_eq:
  "nmbm_get_block_state_raw bs ba =
     (if unat ba < st_len bs then Some (st_of bs (unat ba)) else None)"
  by (auto simp: nmbm_get_block_state_raw_def Let_def unat_field_shift load_def st_len_def st_of_def
      unat_div)

lemma nmbm_get_block_state_eq:
  "nmbm_get_block_state ni ba =
     (if unat ba < st_len (block_state ni) then Some (bst ni (unat ba)) else None)"
  by (simp add: nmbm_get_block_state_def nmbm_get_block_state_raw_eq bst_def)

lemma nmbm_set_block_state_eq:
  "nmbm_set_block_state ni ba st =
     (if unat ba < st_len (block_state ni)
      then (let changed = bst ni (unat ba) \<noteq> st AND BLOCK_ST_MASK
            in Some (changed, ni\<lparr>block_state := st_upd (block_state ni) (unat ba) st,
                 block_state_changed := block_state_changed ni + (if changed then 1 else 0)\<rparr>))
      else None)"
  by (auto simp: nmbm_set_block_state_def Let_def unat_field_shift load_def store_def st_len_def
      st_of_def st_upd_def bst_def unat_div)

lemma st_of_le: "st_of bs i AND BLOCK_ST_MASK = st_of bs i"
  by (simp add: st_of_def and.assoc)


section \<open>Runs that may lose blocks\<close>

text \<open>
  \<open>blk A\<close>: the run touched the chip only at blocks of \<open>A\<close> (nowhere, for a read-only instance),
  and the only blocks whose state changed are blocks of \<open>A\<close> that went from good to bad; the
  change counter moved only if some did.
\<close>

definition wset :: "'d nmbm_instance \<Rightarrow> nat set \<Rightarrow> nat set" where
  "wset ni A = (if read_only ni then {} else A)"

definition blk :: "nat set \<Rightarrow> 'd nmbm_instance \<Rightarrow> 'd nmbm_instance \<Rightarrow> bool" where
  "blk A ni ni' \<longleftrightarrow>
     (\<exists>c p bs ch. ni' = ni\<lparr>chip := c, page_cache := p, block_state := bs, block_state_changed := ch\<rparr> \<and>
        dev_reach (lower ni) (es_sh ni) (wset ni A) (chip ni) c \<and>
        length p = length (page_cache ni) \<and>
        bitmap.degrades A (block_state ni) bs \<and>
        (ch = block_state_changed ni \<or> bitmap.goods bs \<subset> bitmap.goods (block_state ni)))"

lemma blkI:
  assumes "dev_reach (lower ni) (es_sh ni) (wset ni A) (chip ni) c"
    and "length p = length (page_cache ni)" and "bitmap.degrades A (block_state ni) bs"
    and "ch = block_state_changed ni \<or> bitmap.goods bs \<subset> bitmap.goods (block_state ni)"
  shows "blk A ni (ni\<lparr>chip := c, page_cache := p, block_state := bs, block_state_changed := ch\<rparr>)"
  using assms unfolding blk_def by blast

lemma blkE:
  assumes "blk A ni ni'"
  obtains c p bs ch where
    "ni' = ni\<lparr>chip := c, page_cache := p, block_state := bs, block_state_changed := ch\<rparr>"
    and "dev_reach (lower ni) (es_sh ni) (wset ni A) (chip ni) c"
    and "length p = length (page_cache ni)" and "bitmap.degrades A (block_state ni) bs"
    and "ch = block_state_changed ni \<or> bitmap.goods bs \<subset> bitmap.goods (block_state ni)"
  using assms unfolding blk_def by blast

lemma st_len_eq [simp]: "st_len a = st_len b \<longleftrightarrow> length a = length b"
  by (simp add: st_len_def)

lemma degrades_length: "bitmap.degrades A a b \<Longrightarrow> length b = length a"
  by (simp add: bitmap.degrades_def)

lemma may_touch_wset [simp]: "b \<in> A \<Longrightarrow> may_touch ni (wset ni A) b"
  by (simp add: may_touch_def wset_def)

lemma wset_static:
  assumes "static ni' = static ni"
  shows "wset ni' A = wset ni A"
  by (simp add: wset_def static_fields(17) [OF assms])

lemma wset_mono: "A \<subseteq> B \<Longrightarrow> wset ni A \<subseteq> wset ni B"
  by (simp add: wset_def)

lemma io_imp_blk:
  assumes "io (wset ni A) ni ni'"
  shows "blk A ni ni'"
proof -
  obtain c p where e: "ni' = ni\<lparr>chip := c, page_cache := p\<rparr>"
    and d: "dev_reach (lower ni) (es_sh ni) (wset ni A) (chip ni) c"
    and l: "length p = length (page_cache ni)"
    using assms by (auto simp: io_def)
  show ?thesis
    using blkI [OF d l bitmap.degrades_refl, of "block_state_changed ni"] by (simp add: e)
qed

lemma io_empty_imp_blk: "io {} ni ni' \<Longrightarrow> blk A ni ni'"
  by (rule io_imp_blk) (erule io_from_empty)

lemma blk_refl [simp]: "blk A ni ni"
  by (rule io_imp_blk) simp

lemma blk_static: "blk A ni ni' \<Longrightarrow> static ni' = static ni"
  by (erule blkE) (simp add: static_def degrades_length)

lemma blk_wf: "blk A ni ni' \<Longrightarrow> wf ni' \<longleftrightarrow> wf ni"
  by (rule wf_static) (rule blk_static)

lemma blk_state_update [simp]:
  "es_sh (ni\<lparr>block_state := bs\<rparr>) = es_sh ni"
  "es_sh (ni\<lparr>block_state_changed := ch\<rparr>) = es_sh ni"
  by (simp_all add: es_sh_def)

lemma blk_trans:
  assumes "blk A a b" and "blk A b c"
  shows "blk A a c"
proof -
  from assms(1) obtain x p bs ch where
    b: "b = a\<lparr>chip := x, page_cache := p, block_state := bs, block_state_changed := ch\<rparr>"
    and x: "dev_reach (lower a) (es_sh a) (wset a A) (chip a) x"
    and p: "length p = length (page_cache a)"
    and d: "bitmap.degrades A (block_state a) bs"
    and g: "ch = block_state_changed a \<or> bitmap.goods bs \<subset> bitmap.goods (block_state a)"
    by (rule blkE)
  have w: "wset b A = wset a A" by (rule wset_static) (rule blk_static [OF assms(1)])
  from assms(2) obtain y q bs' ch' where
    c: "c = b\<lparr>chip := y, page_cache := q, block_state := bs', block_state_changed := ch'\<rparr>"
    and y: "dev_reach (lower b) (es_sh b) (wset b A) (chip b) y"
    and q: "length q = length (page_cache b)"
    and d': "bitmap.degrades A (block_state b) bs'"
    and g': "ch' = block_state_changed b \<or> bitmap.goods bs' \<subset> bitmap.goods (block_state b)"
    by (rule blkE)
  have "c = a\<lparr>chip := y, page_cache := q, block_state := bs', block_state_changed := ch'\<rparr>"
    by (simp add: c b)
  moreover have "blk A a \<dots>"
  proof (rule blkI)
    show "dev_reach (lower a) (es_sh a) (wset a A) (chip a) y"
      using dev_reach_trans [OF x] y w by (simp add: b)
    show "length q = length (page_cache a)" using q p by (simp add: b)
    show "bitmap.degrades A (block_state a) bs'"
      using bitmap.degrades_trans [OF d] d' by (simp add: b)
    show "ch' = block_state_changed a \<or> bitmap.goods bs' \<subset> bitmap.goods (block_state a)"
      using g g' bitmap.degrades_goods [OF d] bitmap.degrades_goods [OF d'] by (auto simp: b)
  qed
  ultimately show ?thesis by simp
qed

lemma blk_mono:
  assumes "blk A a b" and "A \<subseteq> B"
  shows "blk B a b"
  using assms(1)
proof (rule blkE)
  fix c p bs ch
  assume b: "b = a\<lparr>chip := c, page_cache := p, block_state := bs, block_state_changed := ch\<rparr>"
    and d: "dev_reach (lower a) (es_sh a) (wset a A) (chip a) c"
    and p: "length p = length (page_cache a)" and bs: "bitmap.degrades A (block_state a) bs"
    and ch: "ch = block_state_changed a \<or> bitmap.goods bs \<subset> bitmap.goods (block_state a)"
  show ?thesis unfolding b
    by (rule blkI [OF dev_reach_mono [OF d wset_mono [OF assms(2)]] p
          bitmap.degrades_mono [OF bs assms(2)] ch])
qed

lemma blk_io_trans: "blk A a b \<Longrightarrow> io {} b c \<Longrightarrow> blk A a c"
  by (erule blk_trans) (rule io_empty_imp_blk)

lemma blk_goods:
  assumes "blk A ni ni'"
  shows "bitmap.goods (block_state ni') \<subseteq> bitmap.goods (block_state ni)"
    and "block_state_changed ni' = block_state_changed ni \<or>
      bitmap.goods (block_state ni') \<subset> bitmap.goods (block_state ni)"
  using assms by (rule blkE, simp add: bitmap.degrades_goods)+

lemma blk_bst:
  assumes "blk A ni ni'" and "i < st_len (block_state ni)"
  shows "bst ni' i = bst ni i \<or> (i \<in> A \<and> bst ni i = BLOCK_ST_GOOD \<and> bst ni' i = BLOCK_ST_BAD)"
  using assms(1) by (rule blkE) (use assms(2) in \<open>auto simp: bst_def bitmap.degrades_def\<close>)

lemma wf_st_len:
  assumes "wf ni" and "unat ba < unat (block_count ni)"
  shows "unat ba < st_len (block_state ni)"
  using assms by (auto simp: wf_def st_len_def)

lemma get_block_state_ok:
  assumes "wf ni" and "unat ba < unat (block_count ni)"
  shows "nmbm_get_block_state ni ba = Some (bst ni (unat ba))"
  using wf_st_len [OF assms] by (simp add: nmbm_get_block_state_eq)

lemma set_bad_ok:
  assumes "wf ni" and "unat ba < unat (block_count ni)" and "unat ba \<in> A"
    and "bst ni (unat ba) = BLOCK_ST_GOOD \<or> bst ni (unat ba) = BLOCK_ST_BAD"
  shows "ok (nmbm_set_block_state ni ba BLOCK_ST_BAD)
    (\<lambda>(r, ni'). blk A ni ni' \<and> bst ni' (unat ba) = BLOCK_ST_BAD)"
proof -
  let ?i = "unat ba" and ?bs = "block_state ni"
  let ?bs' = "st_upd ?bs ?i BLOCK_ST_BAD"
  have l: "?i < st_len ?bs" by (rule wf_st_len [OF assms(1,2)])
  have z: "BLOCK_ST_BAD AND BLOCK_ST_MASK = BLOCK_ST_BAD" by (simp add: block_st_defs)
  have g: "st_of ?bs' j = (if j = ?i then BLOCK_ST_BAD else st_of ?bs j)" if "j < st_len ?bs" for j
    using bitmap.get_upd [OF l that] by (simp add: z)
  have deg: "bitmap.degrades A ?bs ?bs'"
    using assms(3,4) g by (auto simp: bitmap.degrades_def bst_def st_len_def st_upd_def)
  have ch: "bst ni ?i = BLOCK_ST_GOOD \<Longrightarrow> bitmap.goods ?bs' \<subset> bitmap.goods ?bs"
    using bitmap.degrades_goods [OF deg] bitmap.degrades_upd_bad(2) [OF l assms(3)] l
    by (auto simp: bitmap.goods_def bst_def)
  have dev: "dev_reach (lower ni) (es_sh ni) (wset ni A) (chip ni) (chip ni)" by (rule dev_refl)
  have "blk A ni (ni\<lparr>block_state := ?bs', block_state_changed :=
      block_state_changed ni + (if bst ni ?i \<noteq> BLOCK_ST_BAD then 1 else 0)\<rparr>)"
    using blkI [OF dev refl deg, of "block_state_changed ni + (if bst ni ?i \<noteq> BLOCK_ST_BAD then 1 else 0)"]
      assms(4) ch by auto
  then show ?thesis
    using l g [OF l] by (simp add: nmbm_set_block_state_eq z Let_def bst_def)
qed

section \<open>What the walks return\<close>

definition count_good :: "'d nmbm_instance \<Rightarrow> nat \<Rightarrow> nat \<Rightarrow> nat" where
  "count_good ni a b = length (filter (\<lambda>i. bst ni i = BLOCK_ST_GOOD) [a..<b])"

lemma count_good_empty [simp]: "b \<le> a \<Longrightarrow> count_good ni a b = 0"
  by (simp add: count_good_def)

lemma count_good_first: "a < b \<Longrightarrow>
  count_good ni a b = (if bst ni a = BLOCK_ST_GOOD then 1 else 0) + count_good ni (Suc a) b"
  by (simp add: count_good_def upt_conv_Cons)

lemma count_good_last: "a \<le> b \<Longrightarrow>
  count_good ni a (Suc b) = count_good ni a b + (if bst ni b = BLOCK_ST_GOOD then 1 else 0)"
  by (simp add: count_good_def)

lemma walk_asc_ok:
  assumes "unat limit \<le> st_len (block_state ni)" and "0 \<le> nblock"
  shows "ok (walk_asc ni ba nblock limit) (\<lambda>r. case r of
      None \<Rightarrow> int (count_good ni (unat ba) (unat limit)) \<le> nblock
    | Some nba \<Rightarrow> unat ba \<le> unat nba \<and> unat nba < unat limit \<and> bst ni (unat nba) = BLOCK_ST_GOOD \<and>
        int (count_good ni (unat ba) (unat nba)) = nblock)"
  using assms
proof (induction ni ba nblock limit rule: walk_asc.induct)
  case (1 ni ba nblock limit)
  show ?case
  proof (cases "ba < limit")
    case False
    then show ?thesis using 1(3) by (subst walk_asc.simps) (simp add: word_less_nat_alt)
  next
    case True
    let ?st = "bst ni (unat ba)"
    let ?n = "if ?st = BLOCK_ST_GOOD then nblock - 1 else nblock"
    have get: "nmbm_get_block_state ni ba = Some ?st"
      using True 1(2) by (simp add: nmbm_get_block_state_eq word_less_nat_alt)
    have lt: "unat ba < unat limit" using True by (simp add: word_less_nat_alt)
    show ?thesis
    proof (cases "?n < 0")
      case neg: True
      then have "?st = BLOCK_ST_GOOD" "nblock = 0" using 1(3) by (auto split: if_splits)
      then show ?thesis using True lt get
        by (subst walk_asc.simps) (simp add: Let_def)
    next
      case nn: False
      have IH: "ok (walk_asc ni (ba + 1) ?n limit) (\<lambda>r. case r of
          None \<Rightarrow> int (count_good ni (unat (ba + 1)) (unat limit)) \<le> ?n
        | Some nba \<Rightarrow> unat (ba + 1) \<le> unat nba \<and> unat nba < unat limit \<and>
            bst ni (unat nba) = BLOCK_ST_GOOD \<and>
            int (count_good ni (unat (ba + 1)) (unat nba)) = ?n)"
        by (rule 1(1) [OF True get refl]) (use nn 1(2) in auto)
      show ?thesis
        using IH True nn get unat_succ_below [OF True]
        by (subst walk_asc.simps)
          (auto simp: Let_def count_good_first lt elim!: ok_mono split: option.splits if_splits)
    qed
  qed
qed

lemma walk_desc_ok:
  assumes "unat ba < st_len (block_state ni)" and "0 \<le> nblock"
  shows "ok (walk_desc ni ba nblock limit) (\<lambda>r. case r of
      None \<Rightarrow> int (count_good ni (Suc (unat limit)) (Suc (unat ba))) \<le> nblock
    | Some nba \<Rightarrow> unat limit < unat nba \<and> unat nba \<le> unat ba \<and> bst ni (unat nba) = BLOCK_ST_GOOD \<and>
        int (count_good ni (Suc (unat nba)) (Suc (unat ba))) = nblock)"
  using assms
proof (induction ni ba nblock limit rule: walk_desc.induct)
  case (1 ni ba nblock limit)
  show ?case
  proof (cases "limit < ba")
    case False
    then show ?thesis using 1(3) by (subst walk_desc.simps) (simp add: word_less_nat_alt)
  next
    case True
    let ?st = "bst ni (unat ba)"
    let ?n = "if ?st = BLOCK_ST_GOOD then nblock - 1 else nblock"
    have get: "nmbm_get_block_state ni ba = Some ?st"
      using 1(2) by (simp add: nmbm_get_block_state_eq)
    have lt: "unat limit < unat ba" using True by (simp add: word_less_nat_alt)
    have pr: "Suc (unat (ba - 1)) = unat ba"
      using lt word_gt_nonzero [OF True] by simp
    show ?thesis
    proof (cases "?n < 0")
      case neg: True
      then have "?st = BLOCK_ST_GOOD" "nblock = 0" using 1(3) by (auto split: if_splits)
      then show ?thesis using True lt get
        by (subst walk_desc.simps) (simp add: Let_def)
    next
      case nn: False
      have IH: "ok (walk_desc ni (ba - 1) ?n limit) (\<lambda>r. case r of
          None \<Rightarrow> int (count_good ni (Suc (unat limit)) (Suc (unat (ba - 1)))) \<le> ?n
        | Some nba \<Rightarrow> unat limit < unat nba \<and> unat nba \<le> unat (ba - 1) \<and>
            bst ni (unat nba) = BLOCK_ST_GOOD \<and>
            int (count_good ni (Suc (unat nba)) (Suc (unat (ba - 1)))) = ?n)"
        by (rule 1(1) [OF True get refl]) (use nn 1(2) pr in auto)
      then show ?thesis unfolding pr
        using True nn get lt
        by (subst walk_desc.simps)
          (use pr in \<open>auto simp: Let_def count_good_last elim!: ok_mono split: option.splits if_splits\<close>)
    qed
  qed
qed


lemma count_good_split:
  assumes "a \<le> b" and "b \<le> c"
  shows "count_good ni a c = count_good ni a b + count_good ni b c"
  using upt_add_eq_append [OF assms(1), of "c - b"] assms(2) by (simp add: count_good_def)

lemma wf_block_count: "wf ni \<Longrightarrow> 0 < unat (block_count ni) \<and> unat (block_count ni) < 2 ^ 31"
  by (simp add: wf_def)

lemma unat_clip_limit:
  assumes "wf ni"
  shows "unat (clip_limit ni limit) = min (unat limit) (unat (block_count ni) - 1)"
proof -
  have "block_count ni \<noteq> 0" using wf_block_count [OF assms] by (auto simp: unat_gt_0)
  then show ?thesis by (auto simp: clip_limit_def word_le_nat_alt)
qed

lemma sint_small:
  assumes "unat (w :: u32) = n" and "n < 2 ^ 31"
  shows "sint w = int n"
proof -
  have u: "uint w = int n" using assms(1) by (simp add: uint_nat)
  then have "signed_take_bit 31 (uint w) = uint w"
    using assms(2) by (intro signed_take_bit_int_eq_self) simp_all
  then show ?thesis using u by (simp add: sint_uint)
qed

definition walk_up_to :: "'d nmbm_instance \<Rightarrow> u32 \<Rightarrow> nat" where
  "walk_up_to ni limit = min (unat limit) (unat (block_count ni) - 1)"

lemma walk_up_to_le: "wf ni \<Longrightarrow> walk_up_to ni limit < st_len (block_state ni)"
  using wf_st_len [of ni "block_count ni - 1"] wf_block_count [of ni]
  by (auto simp: walk_up_to_def unat_gt_0)

lemma nmbm_block_walk_asc_ok:
  assumes "wf ni" and "unat count = n" and "n < 2 ^ 31"
  shows "ok (nmbm_block_walk ni True ba count limit) (\<lambda>r. case r of
      None \<Rightarrow> count_good ni (unat ba) (walk_up_to ni limit) \<le> n
    | Some nba \<Rightarrow> unat ba \<le> unat nba \<and> unat nba < walk_up_to ni limit \<and>
        bst ni (unat nba) = BLOCK_ST_GOOD \<and> count_good ni (unat ba) (unat nba) = n)"
proof -
  have "unat (clip_limit ni limit) \<le> st_len (block_state ni)"
    using walk_up_to_le [OF assms(1), of limit] by (simp add: unat_clip_limit assms walk_up_to_def)
  then show ?thesis
    using walk_asc_ok [of "clip_limit ni limit" ni "int n" ba]
    by (auto simp: nmbm_block_walk_def nmbm_block_walk_asc_def sint_small [OF assms(2,3)]
        unat_clip_limit [OF assms(1)] walk_up_to_def elim!: ok_mono split: option.splits)
qed

lemma nmbm_block_walk_desc_ok:
  assumes "wf ni" and "unat count = n" and "n < 2 ^ 31" and "unat ba < unat (block_count ni)"
  shows "ok (nmbm_block_walk ni False ba count limit) (\<lambda>r. case r of
      None \<Rightarrow> count_good ni (Suc (walk_up_to ni limit)) (Suc (unat ba)) \<le> n
    | Some nba \<Rightarrow> walk_up_to ni limit < unat nba \<and> unat nba \<le> unat ba \<and>
        bst ni (unat nba) = BLOCK_ST_GOOD \<and>
        count_good ni (Suc (unat nba)) (Suc (unat ba)) = n)"
  using walk_desc_ok [OF wf_st_len [OF assms(1,4)], of "int n" "clip_limit ni limit"]
  by (auto simp: nmbm_block_walk_def nmbm_block_walk_desc_def sint_small [OF assms(2,3)]
      unat_clip_limit [OF assms(1)] walk_up_to_def elim!: ok_mono split: option.splits)

lemma try_reserve_ok:
  assumes "wf ni" and "0 \<le> min_count" and "nblocks < 2 ^ 31"
  shows "ok (try_reserve ni ba nblocks min_count limit) (\<lambda>r. case r of
      None \<Rightarrow> nblocks < min_count \<or> int (count_good ni (unat ba) (walk_up_to ni limit)) \<le> min_count
    | Some nba \<Rightarrow> unat ba \<le> unat nba \<and> unat nba < walk_up_to ni limit \<and>
        bst ni (unat nba) = BLOCK_ST_GOOD \<and>
        int (count_good ni (unat ba) (unat nba)) =
          min nblocks (int (count_good ni (unat ba) (walk_up_to ni limit)) - 1))"
  using assms
proof (induction ni ba nblocks min_count limit rule: try_reserve.induct)
  case (1 ni ba nblocks min_count limit)
  let ?all = "count_good ni (unat ba) (walk_up_to ni limit)"
  show ?case
  proof (cases "min_count \<le> nblocks")
    case False
    then show ?thesis by (subst try_reserve.simps) simp
  next
    case True
    have u: "unat (word_of_int nblocks :: u32) = nat nblocks"
    proof -
      have "0 \<le> nblocks" "nblocks < 2 ^ 32" using 1(3,4) True by auto
      then show ?thesis
        by (simp add: unsigned_of_int take_bit_int_eq_self)
    qed
    have "nat nblocks < 2 ^ 31" using 1(3,4) True by simp
    note walk = nmbm_block_walk_asc_ok [OF 1(2) u this, of ba limit]
    from okE [OF walk] obtain r where w: "nmbm_block_walk ni True ba (word_of_int nblocks) limit = Some r"
      and r: "case r of None \<Rightarrow> ?all \<le> nat nblocks
        | Some nba \<Rightarrow> unat ba \<le> unat nba \<and> unat nba < walk_up_to ni limit \<and>
            bst ni (unat nba) = BLOCK_ST_GOOD \<and> count_good ni (unat ba) (unat nba) = nat nblocks" .
    show ?thesis
    proof (cases r)
      case (Some nba)
      have "?all = count_good ni (unat ba) (unat nba) + count_good ni (unat nba) (walk_up_to ni limit)"
        using r Some by (intro count_good_split) auto
      moreover have "0 < count_good ni (unat nba) (walk_up_to ni limit)"
        using r Some by (simp add: count_good_first)
      ultimately show ?thesis
        using r Some True 1(3) w by (subst try_reserve.simps) simp
    next
      case None
      then have few: "?all \<le> nat nblocks" using r by simp
      have IH: "ok (try_reserve ni ba (nblocks - 1) min_count limit) (\<lambda>r. case r of
            None \<Rightarrow> nblocks - 1 < min_count \<or> int ?all \<le> min_count
          | Some nba \<Rightarrow> unat ba \<le> unat nba \<and> unat nba < walk_up_to ni limit \<and>
              bst ni (unat nba) = BLOCK_ST_GOOD \<and>
              int (count_good ni (unat ba) (unat nba)) = min (nblocks - 1) (int ?all - 1))"
        by (rule 1(1) [OF True w None]) (use 1(2-4) in auto)
      have "ok (try_reserve ni ba (nblocks - 1) min_count limit) (\<lambda>r. case r of
            None \<Rightarrow> nblocks < min_count \<or> int ?all \<le> min_count
          | Some nba \<Rightarrow> unat ba \<le> unat nba \<and> unat nba < walk_up_to ni limit \<and>
              bst ni (unat nba) = BLOCK_ST_GOOD \<and>
              int (count_good ni (unat ba) (unat nba)) = min nblocks (int ?all - 1))"
        by (rule ok_mono [OF IH]) (use few True 1(3) in \<open>auto split: option.splits\<close>)
      moreover have "try_reserve ni ba nblocks min_count limit =
          try_reserve ni ba (nblocks - 1) min_count limit"
        using True w None by (subst try_reserve.simps) simp
      ultimately show ?thesis by simp
    qed
  qed
qed

lemma nmbm_try_reserve_blocks_ok:
  assumes "wf ni" and "0 \<le> min_count"
  shows "ok (nmbm_try_reserve_blocks ni ba count min_count limit) (\<lambda>r. case r of
      None \<Rightarrow> sint count < min_count \<or> int (count_good ni (unat ba) (walk_up_to ni limit)) \<le> min_count
    | Some nba \<Rightarrow> unat ba \<le> unat nba \<and> unat nba < walk_up_to ni limit \<and>
        bst ni (unat nba) = BLOCK_ST_GOOD \<and>
        int (count_good ni (unat ba) (unat nba)) =
          min (sint count) (int (count_good ni (unat ba) (walk_up_to ni limit)) - 1))"
  unfolding nmbm_try_reserve_blocks_def
  by (rule try_reserve_ok [OF assms]) (use sint_less [of count] in simp)

section \<open>What the scan and the initial mapping do\<close>

definition binary_states :: "'d nmbm_instance \<Rightarrow> bool" where
  "binary_states ni \<longleftrightarrow>
     (\<forall>i < unat (block_count ni). bst ni i = BLOCK_ST_GOOD \<or> bst ni i = BLOCK_ST_BAD)"

lemma wf_index: "wf ni \<Longrightarrow> i < unat (block_count ni) \<Longrightarrow> i < st_len (block_state ni)"
  by (auto simp: wf_def st_len_def)

lemma blk_block_count: "blk A ni ni' \<Longrightarrow> block_count ni' = block_count ni"
  by (rule static_fields(9)) (rule blk_static)

lemma blk_binary_states: "wf ni \<Longrightarrow> blk A ni ni' \<Longrightarrow> binary_states ni \<Longrightarrow> binary_states ni'"
  unfolding binary_states_def using blk_bst blk_block_count wf_index by metis

lemma scan_from_ok:
  assumes "wf ni" and "binary_states ni" and "bc = block_count ni"
  shows "ok (scan_from ni ba bc) (\<lambda>ni'. blk {unat ba..<unat bc} ni ni')"
  using assms
proof (induction ni ba bc rule: scan_from.induct)
  case (1 ni ba bc)
  show ?case
  proof (cases "ba < bc")
    case False
    then show ?thesis by (subst scan_from.simps) simp
  next
    case True
    let ?A = "{unat ba..<unat bc}"
    have lt: "unat ba < unat bc" using True by (simp add: word_less_nat_alt)
    obtain bad ni1
      where chk: "nmbm_check_bad_phys_block ni ba = Some (bad, ni1)" and io: "io {} ni ni1"
      using nmbm_check_bad_phys_block_ok [OF 1(2), of ba] by (auto simp: ok_def)
    have b1: "blk ?A ni ni1" by (rule io_empty_imp_blk [OF io])
    have wf1: "wf ni1" using 1(2) b1 by (simp add: blk_wf)
    have bin1: "binary_states ni1" by (rule blk_binary_states [OF 1(2) b1 1(3)])
    have bc1: "block_count ni1 = bc" using 1(4) b1 by (simp add: blk_block_count)
    let ?upd = "if bad then do { (_, ni) \<leftarrow> nmbm_set_block_state ni1 ba BLOCK_ST_BAD; Some ni } else Some ni1"
    have "ok ?upd (\<lambda>ni2. blk ?A ni1 ni2)"
    proof (cases bad)
      case bad: True
      have st: "bst ni1 (unat ba) = BLOCK_ST_GOOD \<or> bst ni1 (unat ba) = BLOCK_ST_BAD"
        using bin1 lt by (simp add: binary_states_def bc1)
      have "unat ba < unat (block_count ni1)" "unat ba \<in> ?A" using lt bc1 by simp_all
      from set_bad_ok [OF wf1 this st] bad show ?thesis
        by (auto simp: ok_bind elim!: ok_mono)
    qed simp
    then obtain ni2 where upd: "?upd = Some ni2" and b2: "blk ?A ni1 ni2" by (rule okE)
    have b02: "blk ?A ni ni2" by (rule blk_trans [OF b1 b2])
    have "ok (scan_from ni2 (ba + 1) bc) (\<lambda>ni'. blk {unat (ba + 1)..<unat bc} ni2 ni')"
      using 1(1) [OF True chk refl upd] b02 1(2-4)
      by (simp add: blk_wf blk_binary_states [OF 1(2) b02] blk_block_count)
    then have "ok (scan_from ni2 (ba + 1) bc) (\<lambda>ni'. blk ?A ni ni')"
      by (rule ok_mono) (rule blk_trans [OF b02 blk_mono], use True in auto)
    then show ?thesis using True chk upd by (subst scan_from.simps) simp
  qed
qed

lemma nmbm_scan_badblocks_ok:
  assumes "wf ni" and "binary_states ni"
  shows "ok (nmbm_scan_badblocks ni) (\<lambda>ni'. blk {0..<unat (block_count ni)} ni ni')"
  using scan_from_ok [OF assms refl, of 0] by (simp add: nmbm_scan_badblocks_def)

definition usable :: "'d nmbm_instance \<Rightarrow> nat \<Rightarrow> nat \<Rightarrow> nat list" where
  "usable ni a b = filter (\<lambda>i. bst ni i \<noteq> BLOCK_ST_BAD) [a..<b]"

lemma length_usable: "length (usable ni a b) \<le> b - a"
  unfolding usable_def by (rule order_trans [OF length_filter_le]) simp

lemma map_good_ok:
  assumes "wf ni" and "unat mgmt \<le> unat (block_count ni)" and "unat lb \<le> unat pb"
    and "unat pb \<le> unat mgmt"
  shows "ok (map_good ni pb lb mgmt) (\<lambda>(lb', ni').
     unat lb' = unat lb + length (usable ni (unat pb) (unat mgmt)) \<and>
     ni' = ni\<lparr>block_mapping := take (unat lb) (block_mapping ni) @
       map of_nat (usable ni (unat pb) (unat mgmt)) @ drop (unat lb') (block_mapping ni)\<rparr>)"
  using assms
proof (induction ni pb lb mgmt rule: map_good.induct)
  case (1 ni pb lb mgmt)
  show ?case
  proof (cases "pb < mgmt")
    case False
    then show ?thesis using 1(6) by (subst map_good.simps) (simp add: usable_def word_less_nat_alt)
  next
    case True
    have lt: "unat pb < unat mgmt" using True by (simp add: word_less_nat_alt)
    have get: "nmbm_get_block_state ni pb = Some (bst ni (unat pb))"
      using 1(3,4) lt by (intro get_block_state_ok) auto
    have us: "usable ni (unat pb) (unat mgmt) = (if bst ni (unat pb) = BLOCK_ST_BAD
        then usable ni (Suc (unat pb)) (unat mgmt) else unat pb # usable ni (Suc (unat pb)) (unat mgmt))"
      using lt by (simp add: usable_def upt_conv_Cons)
    show ?thesis
    proof (cases "bst ni (unat pb) = BLOCK_ST_BAD")
      case bad: True
      have "ok (map_good ni (pb + 1) lb mgmt) (\<lambda>(lb', ni').
         unat lb' = unat lb + length (usable ni (unat (pb + 1)) (unat mgmt)) \<and>
         ni' = ni\<lparr>block_mapping := take (unat lb) (block_mapping ni) @
           map of_nat (usable ni (unat (pb + 1)) (unat mgmt)) @ drop (unat lb') (block_mapping ni)\<rparr>)"
        by (rule 1(1) [OF True get bad]) (use 1(3-6) lt in \<open>simp_all add: unat_succ_below [OF True]\<close>)
      then show ?thesis using True get bad us by (subst map_good.simps) simp
    next
      case good: False
      let ?bm = "(block_mapping ni)[unat lb := pb]"
      have lbm: "unat lb < length (block_mapping ni)" using 1(3-6) lt by (simp add: wf_def)
      then have st: "store (block_mapping ni) (unat lb) pb = Some ?bm" by (simp add: store_def)
      have lb1: "unat (lb + 1) = Suc (unat lb)"
        using 1(5) lt by (intro unat_succ_below [of _ mgmt]) (simp add: word_less_nat_alt)
      let ?n = "ni\<lparr>block_mapping := ?bm\<rparr>"
      have stat: "static ?n = static ni" by (simp add: static_def)
      have u: "usable ?n a b = usable ni a b" for a b by (simp add: usable_def bst_def)
      have IH: "ok (map_good ?n (pb + 1) (lb + 1) mgmt) (\<lambda>(lb', ni').
         unat lb' = unat (lb + 1) + length (usable ?n (unat (pb + 1)) (unat mgmt)) \<and>
         ni' = ?n\<lparr>block_mapping := take (unat (lb + 1)) (block_mapping ?n) @
           map of_nat (usable ?n (unat (pb + 1)) (unat mgmt)) @ drop (unat lb') (block_mapping ?n)\<rparr>)"
        by (rule 1(2) [OF True get good st])
          (use 1(3-6) lt lb1 in \<open>simp_all add: unat_succ_below [OF True] wf_static [OF stat]\<close>)
      have tk: "take (Suc (unat lb)) ?bm = take (unat lb) (block_mapping ni) @ [pb]"
        using lbm by (simp add: take_Suc_conv_app_nth)
      have dr: "drop k ?bm = drop k (block_mapping ni)" if "unat lb < k" for k
        using that by simp
      obtain lb' where "map_good ?n (pb + 1) (lb + 1) mgmt = Some (lb',
          ?n\<lparr>block_mapping := take (unat (lb + 1)) ?bm @
           map of_nat (usable ni (Suc (unat pb)) (unat mgmt)) @ drop (unat lb') ?bm\<rparr>)"
        and "unat lb' = Suc (unat lb) + length (usable ni (Suc (unat pb)) (unat mgmt))"
        using IH by (auto simp: ok_def u lb1 unat_succ_below [OF True])
      then show ?thesis
        using True get good st
        by (subst map_good.simps) (simp add: us lb1 tk dr)
    qed
  qed
qed

lemma unmap_from_ok:
  assumes "bc = block_count ni" and "wf ni" and "unat pb \<le> unat bc"
  shows "ok (unmap_from ni pb bc) (\<lambda>ni'.
    ni' = ni\<lparr>block_mapping := take (unat pb) (block_mapping ni) @
      replicate (unat bc - unat pb) (- 1)\<rparr>)"
  using assms
proof (induction ni pb bc rule: unmap_from.induct)
  case (1 ni pb bc)
  have len: "length (block_mapping ni) = unat bc" using 1(2,3) by (simp add: wf_def)
  show ?case
  proof (cases "pb < bc")
    case False
    then show ?thesis using 1(4) len by (subst unmap_from.simps) (simp add: word_less_nat_alt)
  next
    case True
    have lt: "unat pb < unat bc" using True by (simp add: word_less_nat_alt)
    let ?bm = "(block_mapping ni)[unat pb := - 1]"
    let ?n = "ni\<lparr>block_mapping := ?bm\<rparr>"
    have st: "store (block_mapping ni) (unat pb) (- 1) = Some ?bm"
      using lt len by (simp add: store_def)
    have stat: "static ?n = static ni" by (simp add: static_def)
    have IH: "ok (unmap_from ?n (pb + 1) bc) (\<lambda>ni'.
        ni' = ?n\<lparr>block_mapping := take (unat (pb + 1)) (block_mapping ?n) @
          replicate (unat bc - unat (pb + 1)) (- 1)\<rparr>)"
      by (rule 1(1) [OF True st]) (use 1(2,3) lt in \<open>simp_all add: unat_succ_below [OF True] wf_static [OF stat]\<close>)
    have "take (Suc (unat pb)) ?bm @ replicate (unat bc - Suc (unat pb)) (- 1) =
        take (unat pb) (block_mapping ni) @ replicate (unat bc - unat pb) (- 1)"
      using lt len by (simp add: take_Suc_conv_app_nth flip: replicate_Suc Suc_diff_Suc)
    moreover have "unmap_from ?n (pb + 1) bc = Some (?n\<lparr>block_mapping :=
        take (Suc (unat pb)) ?bm @ replicate (unat bc - Suc (unat pb)) (- 1)\<rparr>)"
      using IH by (simp add: ok_def unat_succ_below [OF True])
    ultimately show ?thesis
      using True st by (subst unmap_from.simps) simp
  qed
qed


end
