(* ===== verification/Nmbm_Header.thy ===== *)
theory Nmbm_Header
  imports Nmbm_State
begin

text \<open>
  The structures NMBM keeps in flash: their little-endian layout, the checksum of nmbm-os.h and
  the header checks of nmbm-core.c. The kernel's \<open>crc32_le\<close> is a parameter; what the code relies
  on is that it can be computed piecewise.
\<close>

section \<open>Checksums\<close>

type_synonym crc_fun = "u32 \<Rightarrow> bytes \<Rightarrow> u32"

definition UINT_MAX :: nat where "UINT_MAX = 4294967295"

function nmbm_crc32 :: "crc_fun \<Rightarrow> u32 \<Rightarrow> bytes \<Rightarrow> u32" where
  "nmbm_crc32 crc crcval buf =
     (if buf \<noteq> [] then
        (let chksz = (if length buf > UINT_MAX then UINT_MAX else length buf)
         in nmbm_crc32 crc (crc crcval (take chksz buf)) (drop chksz buf))
      else crcval)"
  by pat_completeness auto
termination
  by (relation "measure (\<lambda>(crc, crcval, buf). length buf)") (auto simp: UINT_MAX_def)

declare nmbm_crc32.simps [simp del]

definition crc_incremental :: "crc_fun \<Rightarrow> bool" where
  "crc_incremental crc \<longleftrightarrow>
     (\<forall>c. crc c [] = c) \<and> (\<forall>c xs ys. crc (crc c xs) ys = crc c (xs @ ys))"

lemma nmbm_crc32_eq:
  assumes "crc_incremental crc"
  shows "nmbm_crc32 crc c buf = crc c buf"
proof (induction crc\<equiv>crc c buf rule: nmbm_crc32.induct)
  case (1 c buf)
  then show ?case
    using assms by (subst nmbm_crc32.simps) (simp add: crc_incremental_def Let_def)
qed

section \<open>Layout\<close>

definition header_of :: "bytes \<Rightarrow> nmbm_header" where
  "header_of b = \<lparr>hdr_magic = rd32 b 0, hdr_version = rd32 b 4, hdr_size = rd32 b 8,
     hdr_checksum = rd32 b 12\<rparr>"

definition header_bytes :: "nmbm_header \<Rightarrow> bytes" where
  "header_bytes h =
     le32 (hdr_magic h) @ le32 (hdr_version h) @ le32 (hdr_size h) @ le32 (hdr_checksum h)"

definition sig_of :: "bytes \<Rightarrow> nmbm_signature" where
  "sig_of b = \<lparr>sig_header = header_of b, nand_size = rd64 b 16, block_size = rd32 b 24,
     page_size = rd32 b 28, spare_size = rd32 b 32, mgmt_start_pb = rd32 b 36,
     max_try_count = b ! 40, sig_padding = drop 41 b\<rparr>"

definition sig_bytes :: "nmbm_signature \<Rightarrow> bytes" where
  "sig_bytes s = header_bytes (sig_header s) @ le64 (nand_size s) @ le32 (block_size s) @
     le32 (page_size s) @ le32 (spare_size s) @ le32 (mgmt_start_pb s) @ [max_try_count s] @
     sig_padding s"

definition SIG_SIZE :: nat where "SIG_SIZE = 48"

definition ift_of :: "bytes \<Rightarrow> nmbm_info_table_header" where
  "ift_of b = \<lparr>ift_header = header_of b, write_count = rd32 b 16, state_table_off = rd32 b 20,
     mapping_table_off = rd32 b 24, ift_padding = rd32 b 28\<rparr>"

definition ift_bytes :: "nmbm_info_table_header \<Rightarrow> bytes" where
  "ift_bytes h = header_bytes (ift_header h) @ le32 (write_count h) @ le32 (state_table_off h) @
     le32 (mapping_table_off h) @ le32 (ift_padding h)"

definition IFT_SIZE :: nat where "IFT_SIZE = 32"

lemma length_header_bytes [simp]: "length (header_bytes h) = 16"
  by (simp add: header_bytes_def)

lemma length_ift_bytes [simp]: "length (ift_bytes h) = 32"
  by (simp add: ift_bytes_def)

lemma length_sig_bytes [simp]: "length (sig_bytes s) = 41 + length (sig_padding s)"
  by (simp add: sig_bytes_def)

text \<open>A field at offset \<open>i\<close> of a structure is found behind the fields before it.\<close>

lemma rd32_skip: "length xs \<le> i \<Longrightarrow> rd32 (xs @ ys) i = rd32 ys (i - length xs)"
  by (simp add: rd32_def nth_append Suc_diff_le)

lemma rd64_skip: "length xs \<le> i \<Longrightarrow> rd64 (xs @ ys) i = rd64 ys (i - length xs)"
  by (simp add: rd64_def rd32_skip)

lemma rd64_le64 [simp]: "rd64 (le64 d @ ys) 0 = d"
  using rd64_le64_at [of 0 "[]"] by simp

lemma rd32_take: "i + 4 \<le> n \<Longrightarrow> rd32 (take n b) i = rd32 b i"
  by (simp add: rd32_def)

lemma header_of_bytes [simp]: "header_of (header_bytes h @ xs) = h"
  by (simp add: header_of_def header_bytes_def rd32_skip)

lemma header_of_take: "16 \<le> n \<Longrightarrow> header_of (take n b) = header_of b"
  by (simp add: header_of_def rd32_take)

lemma ift_of_take: "32 \<le> n \<Longrightarrow> ift_of (take n b) = ift_of b"
  by (simp add: ift_of_def header_of_take rd32_take)

lemma rd32_le32_nil [simp]: "rd32 (le32 w) 0 = w"
  using rd32_le32 [of w "[]"] by simp

lemma ift_round_trip [simp]: "ift_of (ift_bytes h @ xs) = h"
  by (simp add: ift_of_def ift_bytes_def rd32_skip)

lemma sig_round_trip:
  "sig_of (sig_bytes s) = s"
  by (simp add: sig_of_def sig_bytes_def rd32_skip rd64_skip nth_append drop_append)

lemma header_bytes_of:
  assumes "length b = 16"
  shows "header_bytes (header_of b) = b"
proof -
  have word: "le32 (rd32 [x0, x1, x2, x3] 0) = [x0, x1, x2, x3]" for x0 x1 x2 x3 :: u8
  proof -
    have bits: "ucast (drop_bit k (ucast x0 OR (push_bit 8 (ucast x1) OR
        (push_bit 16 (ucast x2) OR push_bit 24 (ucast x3 :: u32))))) =
        (if k = 0 then x0 else if k = 8 then x1 else if k = 16 then x2 else x3)"
      if "k = 0 \<or> k = 8 \<or> k = 16 \<or> k = 24" for k
      by (rule bit_word_eqI)
        (use that in \<open>auto simp: bit_or_iff bit_word_ucast_iff bit_push_bit_iff possible_bit_word
          bit_drop_bit_eq dest: bit_imp_le_length\<close>)
    show ?thesis using bits [of 0] bits [of 8] bits [of 16] bits [of 24]
      by (simp add: rd32_def le32_def)
  qed
  have split: "b = [b!0, b!1, b!2, b!3] @ [b!4, b!5, b!6, b!7] @ [b!8, b!9, b!10, b!11] @
      [b!12, b!13, b!14, b!15]"
    using assms by (intro nth_equalityI) (auto simp: less_Suc_eq numeral_eq_Suc)
  have at: "rd32 b i = rd32 [b!i, b!(i+1), b!(i+2), b!(i+3)] 0" for i
    by (simp add: rd32_def numeral_eq_Suc)
  show ?thesis
    by (rule trans [OF _ split [symmetric]])
      (simp add: header_bytes_def header_of_def at [of 0] at [of 4] at [of 8] at [of 12] word
        numeral_2_eq_2)
qed

section \<open>Header checks\<close>

definition nmbm_check_header :: "crc_fun \<Rightarrow> bytes \<Rightarrow> u32 \<Rightarrow> bool option" where
  "nmbm_check_header crc dat sz = do {
     hd \<leftarrow> slice dat 0 16;
     let header = header_of hd;
     if hdr_size header > sz then Some False
     else do {
       let nhdr = header\<lparr>hdr_checksum := 0\<rparr>;
       let new_checksum = nmbm_crc32 crc 0 (header_bytes nhdr);
       new_checksum \<leftarrow>
         (if hdr_size header > 16 then do {
            rest \<leftarrow> slice dat 16 (unat (hdr_size header) - 16);
            Some (nmbm_crc32 crc new_checksum rest) }
          else Some new_checksum);
       Some (hdr_checksum header = new_checksum) } }"

definition nmbm_update_checksum :: "crc_fun \<Rightarrow> bytes \<Rightarrow> bytes option" where
  "nmbm_update_checksum crc buf = do {
     hd \<leftarrow> slice buf 0 16;
     buf \<leftarrow> blit buf 12 (le32 0);
     body \<leftarrow> slice buf 0 (unat (hdr_size (header_of hd)));
     blit buf 12 (le32 (nmbm_crc32 crc 0 body)) }"

lemma nmbm_check_header_eq:
  assumes "crc_incremental crc" and "16 \<le> length dat"
    and "16 \<le> unat (hdr_size (header_of dat))" and "unat (hdr_size (header_of dat)) \<le> length dat"
    and "unat (hdr_size (header_of dat)) \<le> unat sz"
  shows "nmbm_check_header crc dat sz = Some (hdr_checksum (header_of dat) =
     crc 0 (header_bytes ((header_of dat)\<lparr>hdr_checksum := 0\<rparr>) @
       take (unat (hdr_size (header_of dat)) - 16) (drop 16 dat)))"
proof -
  let ?h = "header_of dat"
  have comp: "crc (crc 0 xs) ys = crc 0 (xs @ ys)" and nil: "crc c [] = c" for xs ys c
    using assms(1) by (simp_all add: crc_incremental_def)
  have "hdr_size ?h \<le> sz" using assms(5) by (simp add: word_le_nat_alt)
  moreover have "16 < hdr_size ?h \<longleftrightarrow> 16 < unat (hdr_size ?h)" by (simp add: word_less_nat_alt)
  ultimately show ?thesis
    using assms(2-4)
    by (auto simp: nmbm_check_header_def slice_def header_of_take nmbm_crc32_eq [OF assms(1)] comp
        not_less Let_def)
qed

lemma blit_checksum:
  "blit (header_bytes h @ rest) 12 (le32 x) =
     Some (header_bytes (h\<lparr>hdr_checksum := x\<rparr>) @ rest)"
  by (simp add: blit_def header_bytes_def)

lemma nmbm_update_checksum_eq:
  assumes "crc_incremental crc" and "16 \<le> length buf"
    and "16 \<le> unat (hdr_size (header_of buf))" and "unat (hdr_size (header_of buf)) \<le> length buf"
  shows "nmbm_update_checksum crc buf = Some (header_bytes ((header_of buf)\<lparr>hdr_checksum :=
      crc 0 (header_bytes ((header_of buf)\<lparr>hdr_checksum := 0\<rparr>) @
        take (unat (hdr_size (header_of buf)) - 16) (drop 16 buf))\<rparr>) @ drop 16 buf)"
proof -
  let ?h = "header_of buf"
  have buf: "buf = header_bytes ?h @ drop 16 buf"
    using header_bytes_of [of "take 16 buf"] assms(2) header_of_take [of 16 buf]
      append_take_drop_id [of 16 buf] by simp
  have bl: "blit buf 12 (le32 0) = Some (header_bytes (?h\<lparr>hdr_checksum := 0\<rparr>) @ drop 16 buf)"
    by (subst buf) (rule blit_checksum)
  have body: "slice (header_bytes (?h\<lparr>hdr_checksum := 0\<rparr>) @ drop 16 buf) 0 (unat (hdr_size ?h)) =
      Some (header_bytes (?h\<lparr>hdr_checksum := 0\<rparr>) @ take (unat (hdr_size ?h) - 16) (drop 16 buf))"
    using assms by (simp add: slice_def)
  have hd: "slice buf 0 16 = Some (take 16 buf)" using assms by (simp add: slice_def)
  show ?thesis
    by (simp add: nmbm_update_checksum_def hd header_of_take bl body blit_checksum
        nmbm_crc32_eq [OF assms(1)])
qed

lemma update_then_check:
  assumes "crc_incremental crc" and "16 \<le> length buf"
    and "16 \<le> unat (hdr_size (header_of buf))" and "unat (hdr_size (header_of buf)) \<le> length buf"
    and "unat (hdr_size (header_of buf)) \<le> unat sz"
  shows "ok (nmbm_update_checksum crc buf) (\<lambda>buf'.
     nmbm_check_header crc buf' sz = Some True \<and> length buf' = length buf \<and>
     drop 16 buf' = drop 16 buf \<and>
     header_of buf' = (header_of buf)\<lparr>hdr_checksum := hdr_checksum (header_of buf')\<rparr>)"
  unfolding nmbm_update_checksum_eq [OF assms(1-4)] ok_Some
  by (subst nmbm_check_header_eq [OF assms(1)]) (use assms in simp_all)

text \<open>C31: A structure whose checksum nmbm_update_checksum has just written passes
  nmbm_check_header, for any buffer size that holds it, and nothing but the checksum field
  changed.\<close>

theorem checksum_round_trip:
  assumes "crc_incremental crc" and "16 \<le> length buf"
    and "16 \<le> unat (hdr_size (header_of buf))" and "unat (hdr_size (header_of buf)) \<le> length buf"
    and "unat (hdr_size (header_of buf)) \<le> unat sz"
  shows "ok (nmbm_update_checksum crc buf) (\<lambda>buf'.
     nmbm_check_header crc buf' sz = Some True \<and> length buf' = length buf \<and>
     drop 16 buf' = drop 16 buf \<and>
     header_of buf' = (header_of buf)\<lparr>hdr_checksum := hdr_checksum (header_of buf')\<rparr>)"
  using assms by (rule update_then_check)

theorem checksum_round_trip_witness:
  "ok (nmbm_update_checksum (\<lambda>c b. c + sum_list (map ucast b)) (header_bytes
      (demo_header\<lparr>hdr_size := 20\<rparr>) @ [1, 2, 3, 4])) (\<lambda>buf'.
     nmbm_check_header (\<lambda>c b. c + sum_list (map ucast b)) buf' 20 = Some True)"
proof -
  let ?crc = "\<lambda>(c :: u32) (b :: bytes). c + sum_list (map ucast b)"
  have "crc_incremental ?crc" by (simp add: crc_incremental_def add.assoc)
  from checksum_round_trip [OF this, of "header_bytes (demo_header\<lparr>hdr_size := 20\<rparr>) @ [1, 2, 3, 4]" 20]
  show ?thesis by (auto elim!: ok_mono)
qed

end
