(* ===== verification/Nmbm_Blocks.thy ===== *)
theory Nmbm_Blocks
  imports Nmbm_Header
begin

text \<open>
  Erasing with a usability check, writing with read-back verification, and the loops that put a
  signature or an info table into the next usable blocks, retiring the blocks that fail.
\<close>

section \<open>Erasing\<close>

fun check_pages :: "'d nmbm_instance \<Rightarrow> u64 \<Rightarrow> u64 list \<Rightarrow> (bool \<times> 'd nmbm_instance) option" where
  "check_pages ni addr [] = Some (True, ni)"
| "check_pages ni addr (off # offs) = do {
     dat \<leftarrow> page_cache_main ni;
     (ret, dat, _, ni) \<leftarrow> nmbm_read_phys_page ni (addr + off) (Some dat) None NMBM_MODE_PLACE_OOB;
     ni \<leftarrow> put_page_cache ni 0 dat;
     if ret = - EBADMSG then Some (False, ni) else check_pages ni addr offs }"

definition nmbm_erase_block_and_check ::
    "'d nmbm_instance \<Rightarrow> u32 \<Rightarrow> (bool \<times> 'd nmbm_instance) option" where
  "nmbm_erase_block_and_check ni ba = do {
     (success, ni) \<leftarrow> nmbm_erase_phys_block ni (ba2addr ni ba);
     if \<not> success then Some (False, ni)
     else if \<not> has_flag ni NMBM_F_EMPTY_PAGE_ECC_OK then Some (True, ni)
     else check_pages ni (ba2addr ni ba) (page_offs 0 (erasesize (lower ni)) (writesize (lower ni))) }"

text \<open>
  The body shared by nmbm_erase_range, nmbm_write_signature and nmbm_write_mgmt_range: skip a
  block that is not good, record a block that turns out to be marked bad, run the action on the
  rest, and retire a block on which it fails (\<open>skip_bad_block\<close>). The result says whether the
  action succeeded; every path continues at \<open>next_block\<close>.
\<close>

definition use_block ::
    "'d nmbm_instance \<Rightarrow> u32 \<Rightarrow> ('d nmbm_instance \<Rightarrow> (bool \<times> 'd nmbm_instance) option) \<Rightarrow>
     (bool \<times> 'd nmbm_instance) option" where
  "use_block ni ba act = do {
     st \<leftarrow> nmbm_get_block_state ni ba;
     if st \<noteq> BLOCK_ST_GOOD then Some (False, ni)
     else do {
       (bad, ni) \<leftarrow> nmbm_check_bad_phys_block ni ba;
       if bad then do { (_, ni) \<leftarrow> nmbm_set_block_state ni ba BLOCK_ST_BAD; Some (False, ni) }
       else do {
         (success, ni) \<leftarrow> act ni;
         if success then Some (True, ni)
         else do {
           (_, ni) \<leftarrow> nmbm_mark_phys_bad_block ni ba;
           (_, ni) \<leftarrow> nmbm_set_block_state ni ba BLOCK_ST_BAD;
           Some (False, ni) } } } }"

function nmbm_erase_range :: "'d nmbm_instance \<Rightarrow> u32 \<Rightarrow> u32 \<Rightarrow> 'd nmbm_instance option" where
  "nmbm_erase_range ni ba limit =
     (if ba < limit then do {
        (_, ni) \<leftarrow> use_block ni ba (\<lambda>ni. nmbm_erase_block_and_check ni ba);
        nmbm_erase_range ni (ba + 1) limit }
      else Some ni)"
  by pat_completeness auto
termination
  by (relation "measure (\<lambda>(ni, ba, limit). unat limit - unat ba)") (auto simp: word_less_nat_alt)

declare nmbm_erase_range.simps [simp del]

section \<open>Writing with verification\<close>

fun repeat_pages ::
    "'d nmbm_instance \<Rightarrow> u64 \<Rightarrow> bytes \<Rightarrow> u64 list \<Rightarrow> (bool \<times> 'd nmbm_instance) option" where
  "repeat_pages ni addr dat [] = Some (True, ni)"
| "repeat_pages ni addr dat (off # offs) = do {
     pc \<leftarrow> blit (page_cache ni) 0 dat;
     pc \<leftarrow> blit pc (length dat) (replicate (unat (rawpage_size ni) - length dat) 0xff);
     let ni = ni\<lparr>page_cache := pc\<rparr>;
     buf \<leftarrow> page_cache_main ni;
     (success, ni) \<leftarrow> nmbm_write_phys_page ni (addr + off) (Some buf) None NMBM_MODE_PLACE_OOB;
     if \<not> success then Some (False, ni)
     else do {
       buf \<leftarrow> page_cache_main ni;
       (ret, buf, _, ni) \<leftarrow> nmbm_read_phys_page ni (addr + off) (Some buf) None NMBM_MODE_PLACE_OOB;
       ni \<leftarrow> put_page_cache ni 0 buf;
       if ret < 0 then Some (False, ni)
       else do {
         got \<leftarrow> slice (page_cache ni) 0 (length dat);
         if got \<noteq> dat then Some (False, ni) else repeat_pages ni addr dat offs } } }"

definition nmbm_write_repeated_data ::
    "'d nmbm_instance \<Rightarrow> u32 \<Rightarrow> bytes \<Rightarrow> (bool \<times> 'd nmbm_instance) option" where
  "nmbm_write_repeated_data ni ba dat =
     (if length dat > unat (writesize (lower ni)) then Some (False, ni)
      else repeat_pages ni (ba2addr ni ba) dat
             (page_offs 0 (erasesize (lower ni)) (writesize (lower ni))))"

function signature_loop ::
    "'d nmbm_instance \<Rightarrow> u32 \<Rightarrow> u32 \<Rightarrow> bytes \<Rightarrow> (u32 option \<times> 'd nmbm_instance) option" where
  "signature_loop ni ba limit sig =
     (if ba > limit then do {
        (used, ni) \<leftarrow> use_block ni ba (\<lambda>ni. do {
          (success, ni) \<leftarrow> nmbm_erase_block_and_check ni ba;
          if \<not> success then Some (False, ni) else nmbm_write_repeated_data ni ba sig });
        if used then Some (Some ba, ni) else signature_loop ni (ba - 1) limit sig }
      else Some (None, ni))"
  by pat_completeness auto
termination
proof (relation "measure (\<lambda>(ni, ba, limit, sig). unat ba)", goal_cases)
  case 1 show ?case by simp
next
  case (2 ni ba limit)
  then have "ba \<noteq> 0" by (auto dest: word_gt_nonzero)
  then show ?case by (simp add: unat_gt_0)
qed

declare signature_loop.simps [simp del]

definition nmbm_write_signature ::
    "'d nmbm_instance \<Rightarrow> u32 \<Rightarrow> nmbm_signature \<Rightarrow> (u32 option \<times> 'd nmbm_instance) option" where
  "nmbm_write_signature ni limit sig = signature_loop ni (block_count ni - 1) limit (sig_bytes sig)"

text \<open>
  The transfer loops over pages. \<open>leading\<close> is the offset in the first page; a chunk of zero
  bytes would repeat forever.
\<close>

definition page_leading :: "'d nmbm_instance \<Rightarrow> u64 \<Rightarrow> u32" where
  "page_leading ni off = ucast (off AND ucast (writesize_mask ni))"

definition page_chunk :: "'d nmbm_instance \<Rightarrow> u64 \<Rightarrow> nat \<Rightarrow> nat" where
  "page_chunk ni off sizeremain =
     min (unat (writesize (lower ni) - page_leading ni off)) sizeremain"

function read_data_loop ::
    "'d nmbm_instance \<Rightarrow> u64 \<Rightarrow> bytes \<Rightarrow> bytes \<Rightarrow> (int \<times> bytes \<times> 'd nmbm_instance) option" where
  "read_data_loop ni off got rest =
     (if rest \<noteq> [] then
        (let leading = page_leading ni off; chunksize = page_chunk ni off (length rest) in
         if chunksize = 0 then None
         else if chunksize = unat (writesize (lower ni)) then do {
           (ret, buf, _, ni) \<leftarrow> nmbm_read_phys_page ni (off - ucast leading)
              (Some (take chunksize rest)) None NMBM_MODE_PLACE_OOB;
           dat \<leftarrow> buf;
           if ret < 0 then Some (ret, got @ dat @ drop chunksize rest, ni)
           else read_data_loop ni (off + of_nat chunksize) (got @ dat) (drop chunksize rest) }
         else do {
           buf \<leftarrow> page_cache_main ni;
           (ret, buf, _, ni) \<leftarrow> nmbm_read_phys_page ni (off - ucast leading)
              (Some buf) None NMBM_MODE_PLACE_OOB;
           ni \<leftarrow> put_page_cache ni 0 buf;
           if ret < 0 then Some (ret, got @ rest, ni)
           else do {
             dat \<leftarrow> slice (page_cache ni) (unat leading) chunksize;
             read_data_loop ni (off + of_nat chunksize) (got @ dat) (drop chunksize rest) } })
      else Some (0, got, ni))"
  by pat_completeness auto
termination
  by (relation "measure (\<lambda>(ni, off, got, rest). length rest)") (auto simp: page_chunk_def)

declare read_data_loop.simps [simp del]

definition nmbn_read_data ::
    "'d nmbm_instance \<Rightarrow> u64 \<Rightarrow> bytes \<Rightarrow> (int \<times> bytes \<times> 'd nmbm_instance) option" where
  "nmbn_read_data ni addr buf = read_data_loop ni addr [] buf"

function nmbn_write_verify_data ::
    "'d nmbm_instance \<Rightarrow> u64 \<Rightarrow> bytes \<Rightarrow> (bool \<times> 'd nmbm_instance) option" where
  "nmbn_write_verify_data ni off rest =
     (if rest \<noteq> [] then
        (let leading = page_leading ni off; chunksize = page_chunk ni off (length rest) in
         if chunksize = 0 then None
         else do {
           pc \<leftarrow> blit (page_cache ni) 0 (replicate (unat (rawpage_size ni)) 0xff);
           pc \<leftarrow> blit pc (unat leading) (take chunksize rest);
           let ni = ni\<lparr>page_cache := pc\<rparr>;
           buf \<leftarrow> page_cache_main ni;
           (success, ni) \<leftarrow> nmbm_write_phys_page ni (off - ucast leading) (Some buf) None
              NMBM_MODE_PLACE_OOB;
           if \<not> success then Some (False, ni)
           else do {
             buf \<leftarrow> page_cache_main ni;
             (ret, buf, _, ni) \<leftarrow> nmbm_read_phys_page ni (off - ucast leading) (Some buf) None
                NMBM_MODE_PLACE_OOB;
             ni \<leftarrow> put_page_cache ni 0 buf;
             if ret < 0 then Some (False, ni)
             else do {
               got \<leftarrow> slice (page_cache ni) (unat leading) chunksize;
               if got \<noteq> take chunksize rest then Some (False, ni)
               else nmbn_write_verify_data ni (off + of_nat chunksize) (drop chunksize rest) } } })
      else Some (True, ni))"
  by pat_completeness auto
termination
  by (relation "measure (\<lambda>(ni, off, rest). length rest)") (auto simp: page_chunk_def)

declare nmbn_write_verify_data.simps [simp del]

section \<open>Management data\<close>

text \<open>
  \<open>sz\<close> is the full size; \<open>start\<close> is the out parameter for the first block used. The result
  is the range of the data, or \<open>None\<close> when the range was too small.
\<close>

function mgmt_loop ::
    "'d nmbm_instance \<Rightarrow> u32 \<Rightarrow> u32 \<Rightarrow> bytes \<Rightarrow> nat \<Rightarrow> u32 option \<Rightarrow>
     ((u32 \<times> u32) option \<times> 'd nmbm_instance) option" where
  "mgmt_loop ni ba limit rest sz start =
     (if rest \<noteq> [] \<and> ba < limit then do {
        let chunksize = unat (erasesize (lower ni));
        (used, ni) \<leftarrow> use_block ni ba (\<lambda>ni. do {
          (success, ni) \<leftarrow> nmbm_erase_block_and_check ni ba;
          if \<not> success then Some (False, ni)
          else nmbn_write_verify_data ni (ba2addr ni ba) (take chunksize rest) });
        if used
        then mgmt_loop ni (ba + 1) limit (drop chunksize rest) sz
               (if length rest = sz then Some ba else start)
        else mgmt_loop ni (ba + 1) limit rest sz start }
      else if rest \<noteq> [] then Some (None, ni)
      else do { start \<leftarrow> start; Some (Some (start, ba), ni) })"
  by pat_completeness auto
termination
  by (relation "measure (\<lambda>(ni, ba, limit, rest, sz, start). unat limit - unat ba)")
    (auto simp: word_less_nat_alt)

declare mgmt_loop.simps [simp del]

definition nmbm_write_mgmt_range ::
    "'d nmbm_instance \<Rightarrow> u32 \<Rightarrow> u32 \<Rightarrow> bytes \<Rightarrow>
     ((u32 \<times> u32) option \<times> 'd nmbm_instance) option" where
  "nmbm_write_mgmt_range ni ba limit dat = mgmt_loop ni ba limit dat (length dat) None"

section \<open>Total correctness of the loops\<close>

lemma check_pages_ok:
  "wf ni \<Longrightarrow> ok (check_pages ni addr offs) (\<lambda>(b, ni'). io {} ni ni')"
proof (induction offs arbitrary: ni)
  case Nil
  then show ?case by simp
next
  case (Cons off offs)
  show ?case
    unfolding check_pages.simps page_cache_slices_ok [OF Cons.prems] Option.bind.bind_lunit
  proof (rule ok_bind4 [OF nmbm_read_phys_page_ok [OF Cons.prems]], goal_cases)
    case (1 ret dat oob ni1)
    then have "\<And>xs. dat = Some xs \<Longrightarrow> 0 + length xs \<le> length (page_cache ni1)"
      using wf_page_cache [OF Cons.prems] by auto
    then have "ok (put_page_cache ni1 0 dat) (\<lambda>ni2. io {} ni1 ni2)"
      by (intro ok_mono [OF put_page_cache_ok]) (auto intro: io_cacheI)
    then show ?case
    proof (rule ok_bindI, goal_cases)
      case p: (1 ni2)
      then have io: "io {} ni ni2" using 1 by (blast intro: io_trans)
      then have "wf ni2" using Cons.prems by (simp add: io_wf)
      from Cons.IH [OF this] show ?case using io
        by (auto elim!: ok_mono intro: io_trans)
    qed
  qed
qed

lemma nmbm_erase_block_and_check_ok:
  assumes "wf ni" and "may_touch ni A (unat ba)"
  shows "ok (nmbm_erase_block_and_check ni ba) (\<lambda>(b, ni'). io A ni ni')"
  unfolding nmbm_erase_block_and_check_def
proof (rule ok_bind2 [OF nmbm_erase_phys_block_ok [OF assms(1)]])
  show "may_touch ni A (unat (drop_bit (es_sh ni) (ba2addr ni ba)))"
    using assms by (simp add: block_of_ba2addr wf_sh)
next
  fix s ni1 assume "io A ni ni1 \<and> page_cache ni1 = page_cache ni"
  then have io: "io A ni ni1" by blast
  then have "wf ni1" using assms(1) by (simp add: io_wf)
  note c = check_pages_ok [OF this, of "ba2addr ni1 ba" "page_offs 0 (erasesize (lower ni1)) (writesize (lower ni1))"]
  have "ok (check_pages ni1 (ba2addr ni1 ba) (page_offs 0 (erasesize (lower ni1)) (writesize (lower ni1))))
      (\<lambda>(b, ni'). io A ni ni')"
    by (rule ok_mono [OF c]) (auto intro: io_trans [OF io] io_from_empty)
  then show "ok (if \<not> s then Some (False, ni1)
     else if \<not> has_flag ni1 NMBM_F_EMPTY_PAGE_ECC_OK then Some (True, ni1)
     else check_pages ni1 (ba2addr ni1 ba) (page_offs 0 (erasesize (lower ni1)) (writesize (lower ni1))))
     (\<lambda>(b, ni'). io A ni ni')"
    using io by simp
qed

lemma may_touch_static:
  assumes "static ni' = static ni"
  shows "may_touch ni' A b = may_touch ni A b"
  by (simp add: may_touch_def static_fields(17) [OF assms])

lemma blk_may_touch: "blk A ni ni' \<Longrightarrow> may_touch ni' B b = may_touch ni B b"
  by (rule may_touch_static) (rule blk_static)

lemma io_bst: "io A ni ni' \<Longrightarrow> bst ni' i = bst ni i"
  by (auto simp: io_def bst_def)

lemma use_block_ok:
  assumes wf: "wf ni" and ba: "unat ba < unat (block_count ni)" and A: "unat ba \<in> A"
    and act: "\<And>ni1. wf ni1 \<Longrightarrow> static ni1 = static ni \<Longrightarrow>
      ok (act ni1) (\<lambda>(s, ni2). io (wset ni A) ni1 ni2)"
  shows "ok (use_block ni ba act) (\<lambda>(used, ni'). blk A ni ni' \<and>
     bst ni' (unat ba) = (if used then BLOCK_ST_GOOD else if bst ni (unat ba) = BLOCK_ST_GOOD
        then BLOCK_ST_BAD else bst ni (unat ba)) \<and> (used \<longrightarrow> bst ni (unat ba) = BLOCK_ST_GOOD))"
proof (cases "bst ni (unat ba) = BLOCK_ST_GOOD")
  case False
  then show ?thesis by (simp add: use_block_def get_block_state_ok [OF wf ba])
next
  case good: True
  show ?thesis
    unfolding use_block_def get_block_state_ok [OF wf ba] Option.bind.bind_lunit good
  proof (simp, rule ok_bind2 [OF nmbm_check_bad_phys_block_ok [OF wf]], goal_cases)
    case (1 bad ni1)
    have b1: "blk A ni ni1" by (rule io_empty_imp_blk [OF 1])
    have wf1: "wf ni1" and bc1: "block_count ni1 = block_count ni"
      using wf b1 by (simp_all add: blk_wf blk_block_count)
    have g1: "bst ni1 (unat ba) = BLOCK_ST_GOOD" using good io_bst [OF 1] by simp
    have ret: "ok (nmbm_set_block_state m ba BLOCK_ST_BAD)
        (\<lambda>(r, ni'). blk A ni ni' \<and> bst ni' (unat ba) = BLOCK_ST_BAD)"
      if m: "blk A ni m" and gm: "bst m (unat ba) = BLOCK_ST_GOOD" for m
    proof -
      have "ok (nmbm_set_block_state m ba BLOCK_ST_BAD)
          (\<lambda>(r, ni'). blk A m ni' \<and> bst ni' (unat ba) = BLOCK_ST_BAD)"
        by (rule set_bad_ok) (use m gm wf ba A in \<open>simp_all add: blk_wf blk_block_count\<close>)
      then show ?thesis by (rule ok_mono) (auto intro: blk_trans [OF m])
    qed
    show ?case
    proof (cases bad)
      case True
      then show ?thesis by (simp, intro ok_bind2 [OF ret [OF b1 g1]]) simp
    next
      case False
      have w1: "wset ni A = wset ni1 A" by (simp add: wset_static [OF blk_static [OF b1]])
      show ?thesis unfolding if_not_P [OF False]
      proof (rule ok_bind2 [OF act [OF wf1 blk_static [OF b1]]], goal_cases)
        case a: (1 s ni2)
        have b12: "blk A ni1 ni2" by (rule io_imp_blk) (use a w1 in simp)
        have b2: "blk A ni ni2" by (rule blk_trans [OF b1 b12])
        have g2: "bst ni2 (unat ba) = BLOCK_ST_GOOD" using g1 io_bst [OF a] by simp
        show ?case
        proof (cases s)
          case True
          then show ?thesis using b2 g2 by simp
        next
          case False
          have wf2: "wf ni2" using wf b2 by (simp add: blk_wf)
          have mt: "may_touch ni2 (wset ni2 A) (unat ba)" using A by simp
          show ?thesis unfolding if_not_P [OF False]
          proof (rule ok_bind2 [OF nmbm_mark_phys_bad_block_ok [OF wf2 mt]], goal_cases)
            case k: (1 r ni3)
            have b3: "blk A ni ni3" by (rule blk_trans [OF b2 io_imp_blk [OF k]])
            have g3: "bst ni3 (unat ba) = BLOCK_ST_GOOD" using g2 io_bst [OF k] by simp
            show ?case by (intro ok_bind2 [OF ret [OF b3 g3]]) simp
          qed
        qed
      qed
    qed
  qed
qed

section \<open>Pages within a block\<close>

lemma unat_p2:
  assumes "n < LENGTH('a)"
  shows "unat ((2 :: 'a::len word) ^ n) = 2 ^ n"
proof -
  have "unat (push_bit n (1 :: 'a word)) = 2 ^ n"
    unfolding unsigned_push_bit_eq using assms by (simp add: take_bit_nat_eq_self)
  then show ?thesis by (simp add: push_bit_eq_mult)
qed

lemma wf_pages:
  assumes "wf ni"
  obtains k where "unat (writesize (lower ni)) = 2 ^ k" and "k \<le> es_sh ni" and "k < 32"
    and "writesize_mask ni = mask k" and "unat (writesize_shift ni) = k"
proof
  let ?k = "unat (writesize_shift ni)"
  have k: "unat (writesize (lower ni)) = 2 ^ ?k" "?k \<le> es_sh ni" "?k < 32"
    using assms by (simp_all add: wf_def)
  then show "unat (writesize (lower ni)) = 2 ^ ?k" "?k \<le> es_sh ni" "?k < 32" .
  have "writesize (lower ni) = 2 ^ ?k"
    using k by (intro word_unat_eq_iff [THEN iffD2]) (simp add: unat_p2)
  then show "writesize_mask ni = mask ?k"
    using assms by (simp add: wf_def mask_eq_exp_minus_1)
qed rule

lemma unat_page_leading:
  assumes "wf ni"
  shows "unat (page_leading ni off) = unat off mod unat (writesize (lower ni))"
proof -
  obtain k where k: "unat (writesize (lower ni)) = 2 ^ k" "k < 32" "writesize_mask ni = mask k"
    by (rule wf_pages [OF assms])
  have "ucast (mask k :: u32) = (mask k :: u64)"
    using k(2) by (intro bit_word_eqI) (auto simp: bit_word_ucast_iff bit_mask_iff)
  then have "unat (off AND ucast (writesize_mask ni)) = unat off mod 2 ^ k"
    unfolding k(3) by (simp only: unsigned_take_bit_eq take_bit_eq_mod [where 'a = nat] flip: take_bit_eq_mask)
  moreover have "unat off mod 2 ^ k < 2 ^ 32"
  proof -
    have "unat off mod 2 ^ k < 2 ^ k" by simp
    also have "(2::nat) ^ k < 2 ^ 32" using k(2) by (simp only: power_strict_increasing_iff)
    finally show ?thesis .
  qed
  ultimately show ?thesis
    by (simp add: page_leading_def unat_ucast_u64_u32 k(1))
qed

lemma page_leading_lt: "wf ni \<Longrightarrow> unat (page_leading ni off) < unat (writesize (lower ni))"
  using wf_page_cache(4) [of ni] by (simp add: unat_page_leading)

lemma page_chunk_eq:
  assumes "wf ni"
  shows "page_chunk ni off n = min (unat (writesize (lower ni)) - unat (page_leading ni off)) n"
  using page_leading_lt [OF assms, of off]
  by (simp add: page_chunk_def unat_sub_le word_le_nat_alt)

lemma page_chunk_pos [simp]: "wf ni \<Longrightarrow> page_chunk ni off n = 0 \<longleftrightarrow> n = 0"
  using page_leading_lt [of ni off] by (auto simp: page_chunk_eq min_def)

lemma page_start:
  assumes "wf ni"
  shows "unat (off - ucast (page_leading ni off)) = unat off - unat (page_leading ni off)"
    and "unat (drop_bit (es_sh ni) (off - ucast (page_leading ni off))) = unat off div 2 ^ es_sh ni"
proof -
  let ?l = "page_leading ni off"
  have "(ucast ?l :: u64) \<le> off"
    by (simp add: word_le_nat_alt unat_page_leading [OF assms])
  then show u: "unat (off - ucast ?l) = unat off - unat ?l"
    by (simp add: unat_sub_le)
  obtain k where k: "unat (writesize (lower ni)) = 2 ^ k" "k \<le> es_sh ni" by (rule wf_pages [OF assms])
  obtain d where d: "es_sh ni = k + d" using k(2) le_Suc_ex by blast
  have "(unat off - unat off mod 2 ^ k) div 2 ^ es_sh ni = unat off div 2 ^ es_sh ni"
    by (simp add: d power_add div_mult2_eq minus_mod_eq_div_mult)
  then show "unat (drop_bit (es_sh ni) (off - ucast ?l)) = unat off div 2 ^ es_sh ni"
    unfolding unat_drop_bit_eq u unat_page_leading [OF assms] k(1) by (simp add: drop_bit_eq_div)
qed

section \<open>Writes that stay in their block\<close>

lemma repeat_pages_ok:
  assumes "wf ni" and "may_touch ni A (unat ba)" and "addr = ba2addr ni ba"
    and "\<forall>off \<in> set offs. unat off < 2 ^ es_sh ni" and "length dat \<le> unat (writesize (lower ni))"
  shows "ok (repeat_pages ni addr dat offs) (\<lambda>(b, ni'). io A ni ni')"
  using assms
proof (induction offs arbitrary: ni)
  case Nil
  then show ?case by simp
next
  case (Cons off offs)
  note pc = wf_page_cache [OF Cons.prems(1)]
  let ?p = "dat @ replicate (length (page_cache ni) - length dat) 0xff"
  let ?n = "ni\<lparr>page_cache := ?p\<rparr>"
  have io0: "io A ni ?n" by (rule io_cacheI) (use pc Cons.prems(5) in simp)
  have wf0: "wf ?n" using Cons.prems(1) io0 by (simp add: io_wf)
  have mt: "may_touch ?n A (unat (drop_bit (es_sh ?n) (addr + off)))"
    using Cons.prems wf_sh [OF Cons.prems(1)]
    by (simp add: block_of_addr may_touch_static [OF io_static [OF io0]])
  have b1: "blit (page_cache ni) 0 dat = Some (dat @ drop (length dat) (page_cache ni))"
    using pc Cons.prems(5) by (simp add: blit_def)
  have b2: "blit (dat @ drop (length dat) (page_cache ni)) (length dat)
      (replicate (unat (rawpage_size ni) - length dat) 0xff) = Some ?p"
    using pc Cons.prems(5) by (simp add: blit_def)
  show ?case
    unfolding repeat_pages.simps b1 b2 Option.bind.bind_lunit Let_def page_cache_slices_ok [OF wf0]
  proof (rule ok_bind2 [OF nmbm_write_phys_page_ok [OF wf0 mt]], goal_cases)
    case (1 s ni1)
    have io1: "io A ni ni1" using 1 by (blast intro: io_trans [OF io0])
    have wf1: "wf ni1" using Cons.prems(1) io1 by (simp add: io_wf)
    note pc1 = wf_page_cache [OF wf1]
    show ?case
    proof (cases s)
      case False
      then show ?thesis using io1 by simp
    next
      case True
      then have ns: "\<not> \<not> s" by simp
      show ?thesis unfolding if_not_P [OF ns] page_cache_slices_ok [OF wf1] Option.bind.bind_lunit
      proof (rule ok_bind4 [OF nmbm_read_phys_page_ok [OF wf1]], goal_cases)
        case (1 ret buf oob ni2)
        then have "ok (put_page_cache ni2 0 buf) (\<lambda>ni3. io {} ni2 ni3)"
          using pc1 by (intro ok_mono [OF put_page_cache_ok]) (auto intro: io_cacheI)
        then show ?case
        proof (rule ok_bindI, goal_cases)
          case p: (1 ni3)
          have "io {} ni1 ni3" using 1 p by (blast intro: io_trans)
          then have io3: "io A ni ni3" by (rule io_trans [OF io1 io_from_empty])
          have wf3: "wf ni3" using Cons.prems(1) io3 by (simp add: io_wf)
          note f = static_fields [OF io_static [OF io3]]
          have len: "length dat \<le> length (page_cache ni3)" using Cons.prems(5) pc by (simp add: f)
          have "ok (repeat_pages ni3 addr dat offs) (\<lambda>(b, ni'). io A ni3 ni')"
          proof (rule Cons.IH [OF wf3])
            show "may_touch ni3 A (unat ba)"
              using Cons.prems(2) by (simp add: may_touch_static [OF io_static [OF io3]])
            show "addr = ba2addr ni3 ba" using Cons.prems(3) by (simp add: ba2addr_def f)
            show "\<forall>off\<in>set offs. unat off < 2 ^ es_sh ni3" using Cons.prems(4) by (simp add: f)
            show "length dat \<le> unat (writesize (lower ni3))" using Cons.prems(5) by (simp add: f)
          qed
          then have "ok (repeat_pages ni3 addr dat offs) (\<lambda>(b, ni'). io A ni ni')"
            by (rule ok_mono) (auto intro: io_trans [OF io3])
          then show ?case using io3 len by (simp add: ok_bind)
        qed
      qed
    qed
  qed
qed

lemma nmbm_write_repeated_data_ok:
  assumes "wf ni" and "may_touch ni A (unat ba)"
  shows "ok (nmbm_write_repeated_data ni ba dat) (\<lambda>(b, ni'). io A ni ni')"
proof -
  have "\<forall>off \<in> set (page_offs 0 (erasesize (lower ni)) (writesize (lower ni))). unat off < 2 ^ es_sh ni"
    using page_offs_bound wf_erasesize [OF assms(1)] by fastforce
  from repeat_pages_ok [OF assms refl this] show ?thesis
    by (simp add: nmbm_write_repeated_data_def)
qed

lemma nmbn_write_verify_data_ok:
  assumes "wf ni" and "may_touch ni A b" and "b * 2 ^ es_sh ni \<le> unat off"
    and "unat off + length rest \<le> Suc b * 2 ^ es_sh ni" and "Suc b * 2 ^ es_sh ni < 2 ^ 64"
  shows "ok (nmbn_write_verify_data ni off rest) (\<lambda>(s, ni'). io A ni ni')"
  using assms
proof (induction "length rest" arbitrary: ni off rest rule: less_induct)
  case less
  note wf = less.prems(1) and bnd = less.prems(3-5)
  show ?case
  proof (cases "rest = []")
    case True
    then show ?thesis by (subst nmbn_write_verify_data.simps) simp
  next
    case False
    define l where "l = page_leading ni off"
    define n where "n = page_chunk ni off (length rest)"
    have n: "n \<noteq> 0" "n \<le> length rest" using False wf page_leading_lt [OF wf, of off]
      by (simp_all add: n_def page_chunk_eq)
    note pc = wf_page_cache [OF wf]
    have ln: "unat l + n \<le> length (page_cache ni)"
      using page_leading_lt [OF wf, of off] pc
      by (auto simp: n_def l_def page_chunk_eq [OF wf] min_def)
    define p where "p = take (unat l) (replicate (unat (rawpage_size ni)) 0xff) @ take n rest @
        drop (unat l + n) (replicate (unat (rawpage_size ni)) (0xff :: u8))"
    have b1: "blit (page_cache ni) 0 (replicate (unat (rawpage_size ni)) 0xff) =
        Some (replicate (unat (rawpage_size ni)) 0xff)"
      using pc by (simp add: blit_def)
    have b2: "blit (replicate (unat (rawpage_size ni)) 0xff) (unat l) (take n rest) = Some p"
      using pc ln n by (simp add: blit_def p_def min_absorb2)
    have lp: "length p = length (page_cache ni)" using pc ln n by (simp add: p_def)
    let ?n = "ni\<lparr>page_cache := p\<rparr>"
    have io0: "io A ni ?n" by (rule io_cacheI [OF lp])
    have wf0: "wf ?n" using wf io0 by (simp add: io_wf)
    have dv: "unat off div 2 ^ es_sh ni = b"
    proof (rule div_nat_eqI)
      show "2 ^ es_sh ni * b \<le> unat off" using bnd(1) by (simp add: mult.commute)
      show "unat off < 2 ^ es_sh ni * Suc b"
        using bnd(2) False by (cases rest) (simp_all add: mult.commute)
    qed
    have mt: "may_touch ?n A (unat (drop_bit (es_sh ?n) (off - ucast l)))"
      using less.prems(2) page_start(2) [OF wf, of off] dv
      by (simp add: may_touch_static [OF io_static [OF io0]] l_def)
    have eq: "nmbn_write_verify_data ni off rest = do {
       buf \<leftarrow> page_cache_main ?n;
       (success, ni) \<leftarrow> nmbm_write_phys_page ?n (off - ucast l) (Some buf) None NMBM_MODE_PLACE_OOB;
       if \<not> success then Some (False, ni)
       else do {
         buf \<leftarrow> page_cache_main ni;
         (ret, buf, _, ni) \<leftarrow> nmbm_read_phys_page ni (off - ucast l) (Some buf) None NMBM_MODE_PLACE_OOB;
         ni \<leftarrow> put_page_cache ni 0 buf;
         if ret < 0 then Some (False, ni)
         else do {
           got \<leftarrow> slice (page_cache ni) (unat l) n;
           if got \<noteq> take n rest then Some (False, ni)
           else nmbn_write_verify_data ni (off + of_nat n) (drop n rest) } } }"
      using False n(1)
      by (subst nmbn_write_verify_data.simps) (simp add: b1 b2 Let_def flip: l_def n_def)
    show ?thesis
      unfolding eq page_cache_slices_ok [OF wf0] Option.bind.bind_lunit
    proof (rule ok_bind2 [OF nmbm_write_phys_page_ok [OF wf0 mt]], goal_cases)
      case (1 s ni1)
      have io1: "io A ni ni1" using 1 by (blast intro: io_trans [OF io0])
      have wf1: "wf ni1" using wf io1 by (simp add: io_wf)
      note pc1 = wf_page_cache [OF wf1]
      show ?case
      proof (cases s)
        case False
        then show ?thesis using io1 by simp
      next
        case True
        then have ns: "\<not> \<not> s" by simp
        show ?thesis unfolding if_not_P [OF ns] page_cache_slices_ok [OF wf1] Option.bind.bind_lunit
        proof (rule ok_bind4 [OF nmbm_read_phys_page_ok [OF wf1]], goal_cases)
          case (1 ret buf oob ni2)
          then have "ok (put_page_cache ni2 0 buf) (\<lambda>ni3. io {} ni2 ni3)"
            using pc1 by (intro ok_mono [OF put_page_cache_ok]) (auto intro: io_cacheI)
          then show ?case
          proof (rule ok_bindI, goal_cases)
            case q: (1 ni3)
            have "io {} ni1 ni3" using 1 q by (blast intro: io_trans)
            then have io3: "io A ni ni3" by (rule io_trans [OF io1 io_from_empty])
            have wf3: "wf ni3" using wf io3 by (simp add: io_wf)
            note f = static_fields [OF io_static [OF io3]]
            have len: "unat l + n \<le> length (page_cache ni3)" using ln by (simp add: f)
            have "n < 2 ^ 64" using bnd(2,3) n by linarith
            then have un: "unat (of_nat n :: u64) = n"
              by (simp add: unsigned_of_nat take_bit_nat_eq_self)
            have uo: "unat (off + of_nat n) = unat off + n"
              using bnd(2,3) n un by (subst unat_add_fits) simp_all
            have "ok (nmbn_write_verify_data ni3 (off + of_nat n) (drop n rest)) (\<lambda>(s, ni'). io A ni3 ni')"
              by (rule less.hyps) (use n wf3 bnd less.prems(2) uo in
                \<open>simp_all add: f may_touch_static [OF io_static [OF io3]]\<close>)
            then have "ok (nmbn_write_verify_data ni3 (off + of_nat n) (drop n rest)) (\<lambda>(s, ni'). io A ni ni')"
              by (rule ok_mono) (auto intro: io_trans [OF io3])
            then show ?case using io3 len by (simp add: ok_bind)
          qed
        qed
      qed
    qed
  qed
qed

lemma read_data_loop_ok:
  "wf ni \<Longrightarrow> ok (read_data_loop ni off got rest) (\<lambda>(r, buf, ni').
     io {} ni ni' \<and> length buf = length got + length rest \<and> r \<le> 0)"
proof (induction "length rest" arbitrary: ni off got rest rule: less_induct)
  case less
  show ?case
  proof (cases "rest = []")
    case True
    then show ?thesis by (subst read_data_loop.simps) simp
  next
    case False
    define l where "l = page_leading ni off"
    define n where "n = page_chunk ni off (length rest)"
    have n: "n \<noteq> 0" "n \<le> length rest" 
      using False less.prems page_leading_lt [OF less.prems, of off]
      by (simp_all add: n_def page_chunk_eq)
    note pc = wf_page_cache [OF less.prems]
    have rec: "ok (read_data_loop ni3 (off + of_nat n) (got @ d) (drop n rest)) (\<lambda>(r, buf, ni').
        io {} ni ni' \<and> length buf = length got + length rest \<and> r \<le> 0)"
      if io: "io {} ni ni3" and d: "length d = n" for ni3 d
    proof -
      have "wf ni3" using less.prems io by (simp add: io_wf)
      then have "ok (read_data_loop ni3 (off + of_nat n) (got @ d) (drop n rest)) (\<lambda>(r, buf, ni').
          io {} ni3 ni' \<and> length buf = length (got @ d) + length (drop n rest) \<and> r \<le> 0)"
        by (intro less.hyps) (use n in simp_all)
      then show ?thesis by (rule ok_mono) (use n d in \<open>auto intro: io_trans [OF io]\<close>)
    qed
    show ?thesis
    proof (cases "n = unat (writesize (lower ni))")
      case True
      have eq: "read_data_loop ni off got rest = do {
           (ret, buf, _, ni) \<leftarrow> nmbm_read_phys_page ni (off - ucast l)
              (Some (take n rest)) None NMBM_MODE_PLACE_OOB;
           dat \<leftarrow> buf;
           if ret < 0 then Some (ret, got @ dat @ drop n rest, ni)
           else read_data_loop ni (off + of_nat n) (got @ dat) (drop n rest) }"
        using False n(1) True [symmetric]
        by (subst read_data_loop.simps) (simp add: Let_def flip: l_def n_def)
      show ?thesis unfolding eq
      proof (rule ok_bind4 [OF nmbm_read_phys_page_ok [OF less.prems]], goal_cases)
        case (1 ret buf oob ni2)
        then obtain x where x: "buf = Some x" "length x = n" and io: "io {} ni ni2" using n by auto
        show ?case using io rec [OF io x(2)] n x by simp
      qed
    next
      case part: False
      have ln: "unat l + n \<le> length (page_cache ni)"
        using page_leading_lt [OF less.prems, of off] pc
        by (auto simp: n_def l_def page_chunk_eq [OF less.prems] min_def)
      have eq: "read_data_loop ni off got rest = do {
           buf \<leftarrow> page_cache_main ni;
           (ret, buf, _, ni) \<leftarrow> nmbm_read_phys_page ni (off - ucast l)
              (Some buf) None NMBM_MODE_PLACE_OOB;
           ni \<leftarrow> put_page_cache ni 0 buf;
           if ret < 0 then Some (ret, got @ rest, ni)
           else do {
             dat \<leftarrow> slice (page_cache ni) (unat l) n;
             read_data_loop ni (off + of_nat n) (got @ dat) (drop n rest) } }"
        using False n(1) part
        by (subst read_data_loop.simps) (simp add: Let_def flip: l_def n_def)
      show ?thesis unfolding eq page_cache_slices_ok [OF less.prems] Option.bind.bind_lunit
      proof (rule ok_bind4 [OF nmbm_read_phys_page_ok [OF less.prems]], goal_cases)
        case (1 ret buf oob ni2)
        then have "ok (put_page_cache ni2 0 buf) (\<lambda>ni3. io {} ni2 ni3)"
          using pc by (intro ok_mono [OF put_page_cache_ok]) (auto intro: io_cacheI)
        then show ?case
        proof (rule ok_bindI, goal_cases)
          case q: (1 ni3)
          have io: "io {} ni ni3" using 1 q by (blast intro: io_trans)
          have "unat l + n \<le> length (page_cache ni3)"
            using ln by (simp add: static_fields [OF io_static [OF io]])
          then show ?case using io rec [OF io] by (simp add: ok_bind)
        qed
      qed
    qed
  qed
qed

lemma nmbn_read_data_ok:
  "wf ni \<Longrightarrow> ok (nmbn_read_data ni addr buf) (\<lambda>(r, buf', ni').
     io {} ni ni' \<and> length buf' = length buf \<and> r \<le> 0)"
  using read_data_loop_ok [of ni addr "[]" buf] by (simp add: nmbn_read_data_def)

section \<open>Filling blocks of a range\<close>

lemma unat_u64_block:
  assumes "wf ni" and "unat ba < unat (block_count ni)"
  shows "Suc (unat ba) * 2 ^ es_sh ni < 2 ^ 64"
proof -
  have "(2::nat) ^ es_sh ni < 2 ^ 32"
    using wf_sh [OF assms(1)] by (simp only: power_strict_increasing_iff)
  moreover have "Suc (unat ba) < 2 ^ 32" using assms wf_block_count [OF assms(1)] by simp
  ultimately have "Suc (unat ba) * 2 ^ es_sh ni < 2 ^ 32 * 2 ^ 32"
    by (intro mult_strict_mono) simp_all
  then show ?thesis by simp
qed

lemma erase_then_ok:
  assumes wf: "wf ni" and A: "unat ba \<in> A" and mask: "static ni = static ni0"
    and k: "\<And>ni1. wf ni1 \<Longrightarrow> static ni1 = static ni \<Longrightarrow> ok (f ni1) (\<lambda>(s, ni2). io (wset ni1 A) ni1 ni2)"
  shows "ok (do { (success, ni) \<leftarrow> nmbm_erase_block_and_check ni ba;
      if \<not> success then Some (False, ni) else f ni }) (\<lambda>(s, ni2). io (wset ni0 A) ni ni2)"
proof (rule ok_bind2 [OF nmbm_erase_block_and_check_ok [OF wf may_touch_wset [OF A]]], goal_cases)
  case (1 s ni1)
  have st: "static ni1 = static ni" by (rule io_static [OF 1])
  have w: "wset ni0 A = wset ni A" "wset ni1 A = wset ni A"
    by (simp_all add: wset_static [OF st] wset_static [OF mask])
  show ?case
  proof (cases s)
    case True
    have "wf ni1" using wf by (simp add: wf_static [OF st])
    from k [OF this st] True show ?thesis
      by (auto simp: w elim!: ok_mono intro: io_trans [OF 1])
  qed (use 1 w in simp)
qed

lemma nmbm_erase_range_ok:
  assumes "wf ni" and "unat limit \<le> unat (block_count ni)"
  shows "ok (nmbm_erase_range ni ba limit) (\<lambda>ni'. blk {unat ba..<unat limit} ni ni')"
  using assms
proof (induction ni ba limit rule: nmbm_erase_range.induct)
  case (1 ni ba limit)
  show ?case
  proof (cases "ba < limit")
    case False
    then show ?thesis by (subst nmbm_erase_range.simps) simp
  next
    case True
    let ?A = "{unat ba..<unat limit}"
    have lt: "unat ba < unat limit" using True by (simp add: word_less_nat_alt)
    have "ok (use_block ni ba (\<lambda>ni. nmbm_erase_block_and_check ni ba)) (\<lambda>(used, ni'). blk ?A ni ni' \<and>
     bst ni' (unat ba) = (if used then BLOCK_ST_GOOD else if bst ni (unat ba) = BLOCK_ST_GOOD
        then BLOCK_ST_BAD else bst ni (unat ba)) \<and> (used \<longrightarrow> bst ni (unat ba) = BLOCK_ST_GOOD))"
    proof (rule use_block_ok)
      fix ni1 assume w: "wf ni1" "static ni1 = static ni"
      show "ok (nmbm_erase_block_and_check ni1 ba) (\<lambda>(s, ni2). io (wset ni ?A) ni1 ni2)"
        by (rule nmbm_erase_block_and_check_ok [OF w(1)])
          (use lt w(2) in \<open>simp add: may_touch_static [OF w(2)]\<close>)
    qed (use 1(2,3) lt in simp_all)
    then obtain used ni1 where u: "use_block ni ba (\<lambda>ni. nmbm_erase_block_and_check ni ba) = Some (used, ni1)"
      and b: "blk ?A ni ni1" by (auto simp: ok_def)
    have "ok (nmbm_erase_range ni1 (ba + 1) limit) (\<lambda>ni'. blk {unat (ba + 1)..<unat limit} ni1 ni')"
      using 1(1) [OF True u refl] 1(2,3) b by (simp add: blk_wf blk_block_count)
    then have "ok (nmbm_erase_range ni1 (ba + 1) limit) (\<lambda>ni'. blk ?A ni ni')"
      by (rule ok_mono) (rule blk_trans [OF b blk_mono], use True in auto)
    then show ?thesis using True u by (subst nmbm_erase_range.simps) simp
  qed
qed

lemma nmbm_write_signature_ok:
  assumes "wf ni"
  shows "ok (nmbm_write_signature ni limit sig) (\<lambda>(r, ni').
     blk {unat limit<..<unat (block_count ni)} ni ni' \<and>
     (case r of None \<Rightarrow> \<forall>i. unat limit < i \<and> i < unat (block_count ni) \<longrightarrow> bst ni' i \<noteq> BLOCK_ST_GOOD
      | Some sba \<Rightarrow> unat limit < unat sba \<and> unat sba < unat (block_count ni) \<and>
          bst ni' (unat sba) = BLOCK_ST_GOOD))"
proof -
  have loop: "ok (signature_loop ni ba limit dat) (\<lambda>(r, ni').
      blk {unat limit<..unat ba} ni ni' \<and>
     (case r of None \<Rightarrow> \<forall>i. unat limit < i \<and> i \<le> unat ba \<longrightarrow> bst ni' i \<noteq> BLOCK_ST_GOOD
      | Some sba \<Rightarrow> unat limit < unat sba \<and> unat sba \<le> unat ba \<and> bst ni' (unat sba) = BLOCK_ST_GOOD))"
    if "wf ni" "unat ba < unat (block_count ni)" for ba dat
    using that
  proof (induction ni ba limit dat rule: signature_loop.induct)
    case (1 ni ba limit dat)
    show ?case
    proof (cases "limit < ba")
      case False
      then show ?thesis by (subst signature_loop.simps) (auto simp: word_less_nat_alt)
    next
      case True
      let ?A = "{unat limit<..unat ba}"
      let ?act = "\<lambda>ni. do { (success, ni) \<leftarrow> nmbm_erase_block_and_check ni ba;
          if \<not> success then Some (False, ni) else nmbm_write_repeated_data ni ba dat }"
      have lt: "unat limit < unat ba" using True by (simp add: word_less_nat_alt)
      have pr: "Suc (unat (ba - 1)) = unat ba"
        using lt word_gt_nonzero [OF True] by simp
      have "ok (use_block ni ba ?act) (\<lambda>(used, ni'). blk ?A ni ni' \<and>
         bst ni' (unat ba) = (if used then BLOCK_ST_GOOD else if bst ni (unat ba) = BLOCK_ST_GOOD
            then BLOCK_ST_BAD else bst ni (unat ba)) \<and> (used \<longrightarrow> bst ni (unat ba) = BLOCK_ST_GOOD))"
      proof (rule use_block_ok)
        fix ni1 assume w: "wf ni1" "static ni1 = static ni"
        show "ok (?act ni1) (\<lambda>(s, ni2). io (wset ni ?A) ni1 ni2)"
          by (rule erase_then_ok [OF w(1) _ w(2)]) (use lt in \<open>auto intro: nmbm_write_repeated_data_ok\<close>)
      qed (use 1(2,3) lt in simp_all)
      then obtain used ni1 where u: "use_block ni ba ?act = Some (used, ni1)" and b: "blk ?A ni ni1"
        and st: "bst ni1 (unat ba) = (if used then BLOCK_ST_GOOD else if bst ni (unat ba) = BLOCK_ST_GOOD
            then BLOCK_ST_BAD else bst ni (unat ba))" by (auto simp: ok_def)
      show ?thesis
      proof (cases used)
        case True
        then show ?thesis using \<open>limit < ba\<close> u b st lt by (subst signature_loop.simps) simp
      next
        case False
        have wf1: "wf ni1" and bc1: "block_count ni1 = block_count ni"
          using 1(2) b by (simp_all add: blk_wf blk_block_count)
        have nb: "bst ni1 (unat ba) \<noteq> BLOCK_ST_GOOD" using st False by auto
        have IH: "ok (signature_loop ni1 (ba - 1) limit dat) (\<lambda>(r, ni').
            blk {unat limit<..unat (ba - 1)} ni1 ni' \<and>
           (case r of None \<Rightarrow> \<forall>i. unat limit < i \<and> i \<le> unat (ba - 1) \<longrightarrow> bst ni' i \<noteq> BLOCK_ST_GOOD
            | Some sba \<Rightarrow> unat limit < unat sba \<and> unat sba \<le> unat (ba - 1) \<and>
                bst ni' (unat sba) = BLOCK_ST_GOOD))"
          by (rule 1(1) [OF True u refl False]) (use wf1 bc1 1(3) pr in simp_all)
        have *: "bst ni' (unat ba) \<noteq> BLOCK_ST_GOOD" if "blk {unat limit<..unat (ba - 1)} ni1 ni'" for ni'
          using blk_bst [OF that, of "unat ba"] nb wf_index [OF wf1, of "unat ba"] 1(3) bc1 by auto
        have "ok (signature_loop ni1 (ba - 1) limit dat) (\<lambda>(r, ni').
            blk {unat limit<..unat ba} ni ni' \<and>
           (case r of None \<Rightarrow> \<forall>i. unat limit < i \<and> i \<le> unat ba \<longrightarrow> bst ni' i \<noteq> BLOCK_ST_GOOD
            | Some sba \<Rightarrow> unat limit < unat sba \<and> unat sba \<le> unat ba \<and>
                bst ni' (unat sba) = BLOCK_ST_GOOD))"
        proof (rule ok_mono2 [OF IH], intro conjI, goal_cases)
          case (1 r ni')
          then have "blk {unat limit<..unat (ba - 1)} ni1 ni'" by blast
          then show ?case by (rule blk_trans [OF b blk_mono]) (use pr in auto)
        next
          case (2 r ni')
          then have *: "bst ni' (unat ba) \<noteq> BLOCK_ST_GOOD" using * by blast
          have "i \<le> unat ba \<Longrightarrow> i \<le> unat (ba - 1) \<or> i = unat ba" for i using pr by linarith
          then show ?case using 2 * pr by (auto split: option.splits)
        qed
        then show ?thesis using True u False by (subst signature_loop.simps) simp
      qed
    qed
  qed
  moreover have "unat (block_count ni - 1) = unat (block_count ni) - 1"
    using wf_block_count [OF assms] by (simp add: unat_gt_0)
  moreover have "{unat limit<..unat (block_count ni) - 1} = {unat limit<..<unat (block_count ni)}"
    using wf_block_count [OF assms] by auto
  moreover have "i \<le> unat (block_count ni) - 1 \<longleftrightarrow> i < unat (block_count ni)" for i
    using wf_block_count [OF assms] by auto
  moreover have "unat (block_count ni) - 1 < unat (block_count ni)"
    using wf_block_count [OF assms] by simp
  ultimately have u: "unat (block_count ni - 1) < unat (block_count ni)"
    and r: "{unat limit<..unat (block_count ni - 1)} = {unat limit<..<unat (block_count ni)}"
    and i: "\<And>i. i \<le> unat (block_count ni - 1) \<longleftrightarrow> i < unat (block_count ni)" by simp_all
  show ?thesis
    using loop [OF assms u, of "sig_bytes sig"] unfolding nmbm_write_signature_def r i .
qed

section \<open>Management data\<close>

definition blocks_for :: "'d nmbm_instance \<Rightarrow> nat \<Rightarrow> nat" where
  "blocks_for ni n = (n + 2 ^ es_sh ni - 1) div 2 ^ es_sh ni"

lemma blocks_for_zero [simp]: "blocks_for ni 0 = 0"
  by (simp add: blocks_for_def)

lemma blocks_for_step:
  assumes "0 < n"
  shows "blocks_for ni n = Suc (blocks_for ni (n - 2 ^ es_sh ni))"
proof (cases "n \<le> 2 ^ es_sh ni")
  case True
  have "(n + 2 ^ es_sh ni - 1) div 2 ^ es_sh ni = 1"
    using True assms by (intro div_nat_eqI) auto
  then show ?thesis using True by (simp add: blocks_for_def)
next
  case False
  define m where "m = n - 2 ^ es_sh ni - 1"
  have n: "n = m + 1 + 2 ^ es_sh ni" using False by (simp add: m_def)
  have "(m + 1 + 2 ^ es_sh ni + 2 ^ es_sh ni - 1) div 2 ^ es_sh ni =
      Suc ((m + 2 ^ es_sh ni) div 2 ^ es_sh ni)"
    using div_add_self2 [of "2 ^ es_sh ni" "m + 2 ^ es_sh ni"] by simp
  then show ?thesis by (simp add: blocks_for_def n)
qed

lemma blocks_for_static:
  assumes "static ni' = static ni"
  shows "blocks_for ni' n = blocks_for ni n"
  by (simp add: blocks_for_def static_fields(12) [OF assms])

lemma count_good_cong:
  assumes "\<And>i. a \<le> i \<Longrightarrow> i < b \<Longrightarrow> bst ni' i = bst ni i"
  shows "count_good ni' a b = count_good ni a b"
  unfolding count_good_def by (rule arg_cong [where f = length], rule filter_cong) (use assms in auto)

text \<open>
  What a write of \<open>n\<close> bytes into the range from \<open>a\<close> to \<open>b\<close> comes to: it succeeds with the
  range of its first and last block, or the range has too few good blocks left.
\<close>

definition mgmt_result ::
    "'d nmbm_instance \<Rightarrow> nat \<Rightarrow> nat \<Rightarrow> nat \<Rightarrow> (u32 \<times> u32) option \<Rightarrow> 'd nmbm_instance \<Rightarrow> bool" where
  "mgmt_result ni a b n r ni' \<longleftrightarrow> blk {a..<b} ni ni' \<and>
     (case r of
        None \<Rightarrow> count_good ni' a b < blocks_for ni n
      | Some (s, e) \<Rightarrow> a \<le> unat s \<and> unat s < unat e \<and> unat e \<le> b \<and>
          bst ni' (unat s) = BLOCK_ST_GOOD \<and> count_good ni' a (unat s) = 0 \<and>
          count_good ni' (unat s) (unat e) = blocks_for ni n)"

definition mgmt_inv ::
    "'d nmbm_instance \<Rightarrow> nat \<Rightarrow> nat \<Rightarrow> nat \<Rightarrow> nat \<Rightarrow> u32 option \<Rightarrow>
     (u32 \<times> u32) option \<Rightarrow> 'd nmbm_instance \<Rightarrow> bool" where
  "mgmt_inv ni a b n sz start r ni' \<longleftrightarrow> blk {a..<b} ni ni' \<and>
     (case r of
        None \<Rightarrow> count_good ni' a b < blocks_for ni n
      | Some (s, e) \<Rightarrow> a \<le> unat e \<and> unat e \<le> b \<and> count_good ni' a (unat e) = blocks_for ni n \<and>
          (if n = sz then a \<le> unat s \<and> unat s < unat e \<and> bst ni' (unat s) = BLOCK_ST_GOOD \<and>
             count_good ni' a (unat s) = 0
           else start = Some s))"

lemma mgmt_loop_ok:
  assumes "wf ni" and "unat limit \<le> unat (block_count ni)" and "unat ba \<le> unat limit"
    and "length rest \<le> sz" and "0 < sz" and "length rest \<noteq> sz \<longrightarrow> start \<noteq> None"
  shows "ok (mgmt_loop ni ba limit rest sz start) (\<lambda>(r, ni').
    mgmt_inv ni (unat ba) (unat limit) (length rest) sz start r ni')"
  using assms
proof (induction ni ba limit rest sz start rule: mgmt_loop.induct)
  case (1 ni ba limit rest sz start)
  note wf = 1(3)
  show ?case
  proof (cases "rest \<noteq> [] \<and> ba < limit")
    case False
    show ?thesis
    proof (cases "rest = []")
      case True
      then show ?thesis using 1(4-8) by (subst mgmt_loop.simps) (auto simp: mgmt_inv_def)
    next
      case ne: False
      then have "0 < blocks_for ni (length rest)" by (simp add: blocks_for_step)
      then show ?thesis using ne False 1(5)
        by (subst mgmt_loop.simps) (auto simp: mgmt_inv_def word_less_nat_alt)
    qed
  next
    case True
    let ?A = "{unat ba..<unat limit}"
    let ?es = "unat (erasesize (lower ni))"
    let ?act = "\<lambda>ni'. do { (success, ni') \<leftarrow> nmbm_erase_block_and_check ni' ba;
          if \<not> success then Some (False, ni')
          else nmbn_write_verify_data ni' (ba2addr ni' ba) (take ?es rest) }"
    have lt: "unat ba < unat limit" and ne: "rest \<noteq> []" and lt': "ba < limit"
      using True by (simp_all add: word_less_nat_alt)
    have ba: "unat ba < unat (block_count ni)" using lt 1(4) by simp
    have es: "?es = 2 ^ es_sh ni" using wf by (rule wf_erasesize)
    have "ok (use_block ni ba ?act) (\<lambda>(used, ni'). blk ?A ni ni' \<and>
       bst ni' (unat ba) = (if used then BLOCK_ST_GOOD else if bst ni (unat ba) = BLOCK_ST_GOOD
          then BLOCK_ST_BAD else bst ni (unat ba)) \<and> (used \<longrightarrow> bst ni (unat ba) = BLOCK_ST_GOOD))"
    proof (rule use_block_ok)
      fix ni1 assume w: "wf ni1" "static ni1 = static ni"
      show "ok (?act ni1) (\<lambda>(s, ni2). io (wset ni ?A) ni1 ni2)"
      proof (rule erase_then_ok [OF w(1) _ w(2)])
        show "unat ba \<in> ?A" using lt by simp
        fix ni2 assume x: "wf ni2" "static ni2 = static ni1"
        have f: "es_sh ni2 = es_sh ni" using static_fields(12) [OF x(2)] static_fields(12) [OF w(2)] by simp
        have u: "unat (ba2addr ni2 ba) = unat ba * 2 ^ es_sh ni2"
          by (rule unat_ba2addr) (rule wf_sh [OF x(1)])
        show "ok (nmbn_write_verify_data ni2 (ba2addr ni2 ba) (take ?es rest)) (\<lambda>(s, ni3). io (wset ni2 ?A) ni2 ni3)"
        proof (rule nmbn_write_verify_data_ok [OF x(1), where b = "unat ba"])
          show "may_touch ni2 (wset ni2 ?A) (unat ba)" using lt by simp
          show "unat ba * 2 ^ es_sh ni2 \<le> unat (ba2addr ni2 ba)" by (simp add: u)
          show "unat (ba2addr ni2 ba) + length (take ?es rest) \<le> Suc (unat ba) * 2 ^ es_sh ni2"
            unfolding u f es by simp
          show "Suc (unat ba) * 2 ^ es_sh ni2 < 2 ^ 64"
            unfolding f by (rule unat_u64_block [OF wf ba])
        qed
      qed
    qed (use 1(3) ba lt in simp_all)
    then obtain used ni1 where u: "use_block ni ba ?act = Some (used, ni1)" and b: "blk ?A ni ni1"
      and st: "bst ni1 (unat ba) = (if used then BLOCK_ST_GOOD else if bst ni (unat ba) = BLOCK_ST_GOOD
          then BLOCK_ST_BAD else bst ni (unat ba))" by (auto simp: ok_def)
    have wf1: "wf ni1" and bc1: "block_count ni1 = block_count ni" and s1: "static ni1 = static ni"
      using wf b by (simp_all add: blk_wf blk_block_count blk_static)
    note bf = blocks_for_static [OF s1] blocks_for_step
    note sc = unat_succ_below [OF lt']
    have keep: "bst ni' (unat ba) = bst ni1 (unat ba)" if "blk {Suc (unat ba)..<unat limit} ni1 ni'" for ni'
      using blk_bst [OF that, of "unat ba"] wf_index [OF wf1, of "unat ba"] ba bc1 by auto
    have comp: "blk ?A ni ni'" if "blk {Suc (unat ba)..<unat limit} ni1 ni'" for ni'
      by (rule blk_trans [OF b blk_mono [OF that]]) auto
    show ?thesis
    proof (cases used)
      case used: True
      let ?s = "if length rest = sz then Some ba else start"
      let ?r = "drop ?es rest"
      have IH: "ok (mgmt_loop ni1 (ba + 1) limit ?r sz ?s) (\<lambda>(r, ni').
          mgmt_inv ni1 (unat (ba + 1)) (unat limit) (length ?r) sz ?s r ni')"
        by (rule 1(1) [OF True refl u refl used]) (use wf1 bc1 1(4-8) lt sc in auto)
      have "ok (mgmt_loop ni1 (ba + 1) limit ?r sz ?s) (\<lambda>(r, ni').
          mgmt_inv ni (unat ba) (unat limit) (length rest) sz start r ni')"
      proof (rule ok_mono2 [OF IH], goal_cases)
        case (1 r ni')
        have bl: "blk {Suc (unat ba)..<unat limit} ni1 ni'" using 1 by (simp add: mgmt_inv_def sc)
        have g: "bst ni' (unat ba) = BLOCK_ST_GOOD" using keep [OF bl] st used by simp
        have cg: "count_good ni' (unat ba) e = Suc (count_good ni' (Suc (unat ba)) e)"
          if "unat ba < e" for e using that g by (simp add: count_good_first)
        have bs: "blocks_for ni (length rest) = Suc (blocks_for ni (length rest - 2 ^ es_sh ni))"
          using ne by (simp add: blocks_for_step)
        have "(0::nat) < 2 ^ es_sh ni" "0 < length rest" using ne by simp_all
        then have "length ?r \<noteq> sz" using es \<open>length rest \<le> sz\<close> by (simp, linarith)
        then show ?case
          using 1 comp [OF bl] g lt cg
          by (auto simp: mgmt_inv_def bf(1) bs sc es split: option.splits if_splits)
      qed
      then show ?thesis using True u used by (subst mgmt_loop.simps) (simp add: Let_def)
    next
      case unused: False
      have IH: "ok (mgmt_loop ni1 (ba + 1) limit rest sz start) (\<lambda>(r, ni').
          mgmt_inv ni1 (unat (ba + 1)) (unat limit) (length rest) sz start r ni')"
        by (rule 1(2) [OF True refl u refl unused]) (use wf1 bc1 1(4-8) lt sc in auto)
      have "ok (mgmt_loop ni1 (ba + 1) limit rest sz start) (\<lambda>(r, ni').
          mgmt_inv ni (unat ba) (unat limit) (length rest) sz start r ni')"
      proof (rule ok_mono2 [OF IH], goal_cases)
        case (1 r ni')
        have bl: "blk {Suc (unat ba)..<unat limit} ni1 ni'" using 1 by (simp add: mgmt_inv_def sc)
        have g: "bst ni' (unat ba) \<noteq> BLOCK_ST_GOOD" using keep [OF bl] st unused by auto
        have cg: "count_good ni' (unat ba) e = count_good ni' (Suc (unat ba)) e" for e
          using g by (cases "unat ba < e") (simp_all add: count_good_first)
        show ?case
          using 1 comp [OF bl] lt
          by (auto simp: mgmt_inv_def bf(1) sc cg split: option.splits if_splits)
      qed
      then show ?thesis using True u unused by (subst mgmt_loop.simps) (simp add: Let_def)
    qed
  qed
qed

lemma nmbm_write_mgmt_range_ok:
  assumes "wf ni" and "unat limit \<le> unat (block_count ni)" and "unat ba \<le> unat limit"
    and "dat \<noteq> []"
  shows "ok (nmbm_write_mgmt_range ni ba limit dat) (\<lambda>(r, ni').
    mgmt_result ni (unat ba) (unat limit) (length dat) r ni')"
proof -
  have "ok (mgmt_loop ni ba limit dat (length dat) None) (\<lambda>(r, ni').
    mgmt_inv ni (unat ba) (unat limit) (length dat) (length dat) None r ni')"
    by (rule mgmt_loop_ok) (use assms in simp_all)
  then show ?thesis unfolding nmbm_write_mgmt_range_def
  proof (rule ok_mono2, goal_cases)
    case (1 r ni')
    show ?case
    proof (cases r)
      case None
      then show ?thesis using 1 by (simp add: mgmt_result_def mgmt_inv_def)
    next
      case (Some p)
      then obtain s e where p: "r = Some (s, e)" by (cases p) simp
      have "count_good ni' (unat ba) (unat e) =
          count_good ni' (unat ba) (unat s) + count_good ni' (unat s) (unat e)"
        by (rule count_good_split) (use 1 in \<open>auto simp: p mgmt_inv_def\<close>)
      then show ?thesis using 1 by (auto simp: p mgmt_result_def mgmt_inv_def)
    qed
  qed
qed

end
