(* ===== verification/Nmbm_Tables.thy ===== *)
theory Nmbm_Tables
  imports Nmbm_Blocks
begin

text \<open>
  The info tables: their image in memory, the procedures that keep a main and a backup copy in
  the management area while blocks fail under them, and the mapping of logic blocks to spare
  blocks. \<open>crc\<close> is the kernel's \<open>crc32_le\<close>.
\<close>

section \<open>The image of the tables\<close>

definition nmbm_generate_info_table_cache ::
    "crc_fun \<Rightarrow> 'd nmbm_instance \<Rightarrow> (bool \<times> 'd nmbm_instance) option" where
  "nmbm_generate_info_table_cache crc ni = do {
     c \<leftarrow> blit (info_table_cache ni) 0 (replicate (unat (info_table_size ni)) 0xff);
     st \<leftarrow> slice (words_to_bytes (block_state ni)) 0 (unat (state_table_size ni));
     c \<leftarrow> blit c (unat (state_table_off (info_table ni))) st;
     mp \<leftarrow> slice (words_to_bytes (block_mapping ni)) 0 (unat (mapping_table_size ni));
     c \<leftarrow> blit c (unat (mapping_table_off (info_table ni))) mp;
     let hd = (ift_header (info_table ni))\<lparr>hdr_magic := NMBM_MAGIC_INFO_TABLE,
         hdr_version := NMBM_VER, hdr_size := info_table_size ni\<rparr>;
     let changed = (block_state_changed ni \<noteq> 0 \<or> block_mapping_changed ni \<noteq> 0);
     let it = (info_table ni)\<lparr>ift_header := hd,
         write_count := write_count (info_table ni) + (if changed then 1 else 0)\<rparr>;
     c \<leftarrow> blit c 0 (ift_bytes it);
     c \<leftarrow> nmbm_update_checksum crc c;
     Some (changed, ni\<lparr>info_table_cache := c, info_table := it\<rparr>) }"

definition nmbm_write_info_table ::
    "'d nmbm_instance \<Rightarrow> u32 \<Rightarrow> u32 \<Rightarrow> ((u32 \<times> u32) option \<times> 'd nmbm_instance) option" where
  "nmbm_write_info_table ni ba limit = do {
     dat \<leftarrow> slice (info_table_cache ni) 0 (unat (info_table_size ni));
     nmbm_write_mgmt_range ni ba limit dat }"

definition nmbm_mark_tables_clean :: "'d nmbm_instance \<Rightarrow> 'd nmbm_instance" where
  "nmbm_mark_tables_clean ni = ni\<lparr>block_state_changed := 0, block_mapping_changed := 0\<rparr>"

section \<open>Writing both tables\<close>

definition nmbm_rebuild_info_table :: "'d nmbm_instance \<Rightarrow> (bool \<times> 'd nmbm_instance) option" where
  "nmbm_rebuild_info_table ni = do {
     let ni = ni\<lparr>main_table_ba := 0, backup_table_ba := 0,
         mapping_blocks_ba := mapping_blocks_top_ba ni\<rparr>;
     (r, ni) \<leftarrow> nmbm_write_info_table ni (mgmt_start_ba ni) (mapping_blocks_top_ba ni);
     case r of
       None \<Rightarrow> Some (False, ni\<lparr>protected := True\<rparr>)
     | Some (table_start_ba, main_table_end_ba) \<Rightarrow> do {
         let ni = ni\<lparr>main_table_ba := table_start_ba, mapping_blocks_ba := main_table_end_ba\<rparr>;
         let ni = nmbm_mark_tables_clean ni;
         nba \<leftarrow> nmbm_try_reserve_blocks ni main_table_end_ba (info_table_spare_blocks ni) 0
            (mapping_blocks_top_ba ni - size2blk ni (ucast (info_table_size ni)));
         case nba of
           None \<Rightarrow> Some (True, ni)
         | Some next_start_ba \<Rightarrow> do {
             (r, ni) \<leftarrow> nmbm_write_info_table ni next_start_ba (mapping_blocks_top_ba ni);
             case r of
               None \<Rightarrow> Some (True, ni)
             | Some (table_start_ba, table_end_ba) \<Rightarrow> do {
                 let ni = ni\<lparr>backup_table_ba := table_start_ba, mapping_blocks_ba := table_end_ba\<rparr>;
                 ni \<leftarrow> nmbm_erase_range ni main_table_end_ba (backup_table_ba ni);
                 Some (True, ni) } } } }"

text \<open>
  The loop \<open>while (write_ba >= lo)\<close> of the rescue procedures: it tries ever lower start blocks,
  and does not end when \<open>lo\<close> is 0. Its results are used uninitialised when it is not entered.
\<close>

partial_function (option) write_downwards ::
    "'d nmbm_instance \<Rightarrow> u32 \<Rightarrow> u32 \<Rightarrow> ((u32 \<times> u32) option \<times> 'd nmbm_instance) option" where
  "write_downwards ni write_ba lo =
     (if write_ba \<ge> lo then
        Option.bind (nmbm_write_info_table ni write_ba (mapping_blocks_top_ba ni)) (\<lambda>(r, ni).
          case r of Some t \<Rightarrow> Some (Some t, ni)
          | None \<Rightarrow> write_downwards ni (write_ba - 1) lo)
      else Some (None, ni))"

definition write_rescue ::
    "'d nmbm_instance \<Rightarrow> u32 \<Rightarrow> u32 \<Rightarrow> ((u32 \<times> u32) option \<times> 'd nmbm_instance) option" where
  "write_rescue ni write_ba lo = (if write_ba < lo then None else write_downwards ni write_ba lo)"

definition nmbm_rescue_single_info_table :: "'d nmbm_instance \<Rightarrow> (bool \<times> 'd nmbm_instance) option" where
  "nmbm_rescue_single_info_table ni = do {
     (r, ni) \<leftarrow> nmbm_write_info_table ni (mgmt_start_ba ni) (main_table_ba ni);
     case r of
       Some (table_start_ba, table_end_ba) \<Rightarrow> do {
         let ni = ni\<lparr>backup_table_ba := main_table_ba ni\<rparr>;
         let ni = ni\<lparr>main_table_ba := table_start_ba\<rparr>;
         let ni = nmbm_mark_tables_clean ni;
         ni \<leftarrow> nmbm_erase_range ni table_end_ba (backup_table_ba ni);
         Some (True, ni) }
     | None \<Rightarrow> do {
         w \<leftarrow> nmbm_try_reserve_blocks ni (mapping_blocks_ba ni) (info_table_spare_blocks ni) 0
            (mapping_blocks_top_ba ni - size2blk ni (ucast (info_table_size ni)));
         case w of
           None \<Rightarrow> Some (False, ni)
         | Some write_ba \<Rightarrow> do {
             (r, ni) \<leftarrow> write_rescue ni write_ba (mapping_blocks_ba ni);
             case r of
               Some (table_start_ba, table_end_ba) \<Rightarrow> do {
                 ni \<leftarrow> nmbm_erase_range ni (mapping_blocks_ba ni) table_start_ba;
                 let ni = ni\<lparr>backup_table_ba := table_start_ba, mapping_blocks_ba := table_end_ba\<rparr>;
                 Some (True, nmbm_mark_tables_clean ni) }
             | None \<Rightarrow> Some (False, ni) } } }"

definition nmbm_update_single_info_table ::
    "'d nmbm_instance \<Rightarrow> bool \<Rightarrow> (bool \<times> 'd nmbm_instance) option" where
  "nmbm_update_single_info_table ni update_main_table = do {
     let (write_start_ba, write_limit) =
       (if update_main_table then (main_table_ba ni, backup_table_ba ni)
        else (backup_table_ba ni, mapping_blocks_top_ba ni));
     (r, ni) \<leftarrow> nmbm_write_info_table ni write_start_ba write_limit;
     case r of
       Some (table_start_ba, table_end_ba) \<Rightarrow> do {
         let ni = (if update_main_table then ni\<lparr>main_table_ba := table_start_ba\<rparr>
           else ni\<lparr>backup_table_ba := table_start_ba, mapping_blocks_ba := table_end_ba\<rparr>);
         Some (True, nmbm_mark_tables_clean ni) }
     | None \<Rightarrow>
         if update_main_table
         then nmbm_rescue_single_info_table
                (ni\<lparr>main_table_ba := backup_table_ba ni, backup_table_ba := 0\<rparr>)
         else Some (False, ni\<lparr>mapping_blocks_ba := backup_table_ba ni, backup_table_ba := 0\<rparr>) }"

definition nmbm_rescue_main_info_table :: "'d nmbm_instance \<Rightarrow> (bool \<times> 'd nmbm_instance) option" where
  "nmbm_rescue_main_info_table ni = do {
     let info_table_erasesize = size2blk ni (ucast (info_table_size ni));
     w \<leftarrow> nmbm_try_reserve_blocks ni (mapping_blocks_ba ni) (info_table_spare_blocks ni) 0
        (mapping_blocks_top_ba ni - info_table_erasesize);
     case w of
       None \<Rightarrow> Some (True, ni\<lparr>main_table_ba := backup_table_ba ni, backup_table_ba := 0\<rparr>)
     | Some write_ba \<Rightarrow> do {
         (r, ni) \<leftarrow> write_rescue ni write_ba (mapping_blocks_ba ni);
         case r of
           None \<Rightarrow> Some (True, ni\<lparr>main_table_ba := backup_table_ba ni, backup_table_ba := 0\<rparr>)
         | Some (tmp_table_start_ba, tmp_table_end_ba) \<Rightarrow> do {
             let ni = ni\<lparr>mapping_blocks_ba := tmp_table_end_ba\<rparr>;
             (r, ni) \<leftarrow> nmbm_write_info_table ni (mgmt_start_ba ni) tmp_table_start_ba;
             case r of
               None \<Rightarrow> Some (True, nmbm_mark_tables_clean
                   (ni\<lparr>main_table_ba := tmp_table_start_ba, backup_table_ba := 0\<rparr>))
             | Some (main_table_start_ba, main_table_end_ba) \<Rightarrow> do {
                 let ni = nmbm_mark_tables_clean (ni\<lparr>main_table_ba := main_table_start_ba\<rparr>);
                 if main_table_end_ba \<le> tmp_table_start_ba
                 then Some (True, ni\<lparr>backup_table_ba := tmp_table_start_ba\<rparr>)
                 else do {
                   let ni = ni\<lparr>mapping_blocks_ba := main_table_end_ba\<rparr>;
                   w \<leftarrow> nmbm_try_reserve_blocks ni main_table_end_ba (info_table_spare_blocks ni) 0
                      (mapping_blocks_top_ba ni - info_table_erasesize);
                   case w of
                     None \<Rightarrow> Some (True, ni\<lparr>backup_table_ba := 0\<rparr>)
                   | Some write_ba \<Rightarrow> do {
                       (r, ni) \<leftarrow> write_rescue ni write_ba main_table_end_ba;
                       case r of
                         None \<Rightarrow> Some (True, ni\<lparr>backup_table_ba := 0\<rparr>)
                       | Some (tmp_table_start_ba, tmp_table_end_ba) \<Rightarrow> do {
                           let ni = ni\<lparr>backup_table_ba := tmp_table_start_ba,
                               mapping_blocks_ba := tmp_table_end_ba\<rparr>;
                           ni \<leftarrow> nmbm_erase_range ni main_table_end_ba (backup_table_ba ni);
                           Some (True, ni) } } } } } } }"

text \<open>The label \<open>write_main_table\<close> with what follows it.\<close>

definition write_main_table :: "'d nmbm_instance \<Rightarrow> u32 \<Rightarrow> (bool \<times> 'd nmbm_instance) option" where
  "write_main_table ni main_table_limit =
     (if main_table_ba ni = 0 then nmbm_rebuild_info_table ni
      else do {
        (r, ni) \<leftarrow> nmbm_write_info_table ni (main_table_ba ni) main_table_limit;
        case r of
          None \<Rightarrow> if backup_table_ba ni = 0 then nmbm_rebuild_info_table ni
                  else nmbm_rescue_main_info_table ni
        | Some (table_start_ba, table_end_ba) \<Rightarrow> do {
            let ni = ni\<lparr>main_table_ba := table_start_ba\<rparr>;
            let ni = (if backup_table_ba ni = 0 then ni\<lparr>mapping_blocks_ba := table_end_ba\<rparr> else ni);
            Some (True, nmbm_mark_tables_clean ni) } })"

definition nmbm_update_info_table_once ::
    "crc_fun \<Rightarrow> 'd nmbm_instance \<Rightarrow> bool \<Rightarrow> (bool \<times> 'd nmbm_instance) option" where
  "nmbm_update_info_table_once crc ni force = do {
     (changed, ni) \<leftarrow> nmbm_generate_info_table_cache crc ni;
     if \<not> changed \<and> \<not> force then Some (True, ni)
     else if backup_table_ba ni = 0 then write_main_table ni (mapping_blocks_top_ba ni)
     else do {
       (r, ni) \<leftarrow> nmbm_write_info_table ni (backup_table_ba ni) (mapping_blocks_top_ba ni);
       case r of
         None \<Rightarrow> write_main_table
             (ni\<lparr>mapping_blocks_ba := backup_table_ba ni, backup_table_ba := 0\<rparr>)
             (mapping_blocks_top_ba ni)
       | Some (table_start_ba, table_end_ba) \<Rightarrow> do {
           let ni = ni\<lparr>backup_table_ba := table_start_ba, mapping_blocks_ba := table_end_ba\<rparr>;
           let ni = nmbm_mark_tables_clean ni;
           write_main_table ni (backup_table_ba ni) } } }"

definition tables_changed :: "'d nmbm_instance \<Rightarrow> bool" where
  "tables_changed ni \<longleftrightarrow> block_state_changed ni \<noteq> 0 \<or> block_mapping_changed ni \<noteq> 0"

partial_function (option) update_while_changed ::
    "crc_fun \<Rightarrow> 'd nmbm_instance \<Rightarrow> (bool \<times> 'd nmbm_instance) option" where
  "update_while_changed crc ni =
     (if tables_changed ni then
        Option.bind (nmbm_update_info_table_once crc ni False) (\<lambda>(success, ni).
          if \<not> success then Some (False, ni) else update_while_changed crc ni)
      else Some (True, ni))"

definition nmbm_update_info_table ::
    "crc_fun \<Rightarrow> 'd nmbm_instance \<Rightarrow> (bool \<times> 'd nmbm_instance) option" where
  "nmbm_update_info_table crc ni =
     (if protected ni then Some (True, ni) else update_while_changed crc ni)"

section \<open>Mapping logic blocks to spare blocks\<close>

definition nmbm_map_block ::
    "crc_fun \<Rightarrow> 'd nmbm_instance \<Rightarrow> u32 \<Rightarrow> (bool \<times> 'd nmbm_instance) option" where
  "nmbm_map_block crc ni lb =
     (if mapping_blocks_ba ni = mapping_blocks_top_ba ni then Some (False, ni)
      else do {
        r \<leftarrow> nmbm_block_walk ni False (mapping_blocks_top_ba ni) 0 (mapping_blocks_ba ni);
        case r of
          None \<Rightarrow> do {
            (_, ni) \<leftarrow> nmbm_update_info_table crc ni;
            Some (False, ni\<lparr>mapping_blocks_top_ba := mapping_blocks_ba ni\<rparr>) }
        | Some pb \<Rightarrow> do {
            bm \<leftarrow> store (block_mapping ni) (unat lb) pb;
            Some (True, ni\<lparr>block_mapping := bm,
              mapping_blocks_top_ba := mapping_blocks_top_ba ni - 1,
              block_mapping_changed := block_mapping_changed ni + 1\<rparr>) } })"

function remap_end :: "crc_fun \<Rightarrow> 'd nmbm_instance \<Rightarrow> u32 \<Rightarrow> u32 \<Rightarrow> 'd nmbm_instance option" where
  "remap_end crc ni lb mgmt =
     (if lb < mgmt then do {
        (success, ni) \<leftarrow> nmbm_map_block crc ni lb;
        if \<not> success then Some ni
        else remap_end crc (ni\<lparr>data_block_count := data_block_count ni + 1\<rparr>) (lb + 1) mgmt }
      else Some ni)"
  by pat_completeness auto
termination
  by (relation "measure (\<lambda>(crc, ni, lb, mgmt). unat mgmt - unat lb)") (auto simp: word_less_nat_alt)

declare remap_end.simps [simp del]

definition nmbm_create_info_table ::
    "crc_fun \<Rightarrow> 'd nmbm_instance \<Rightarrow> (bool \<times> 'd nmbm_instance) option" where
  "nmbm_create_info_table crc ni = do {
     r \<leftarrow> nmbm_block_walk ni False (signature_ba ni) 1 (mgmt_start_ba ni);
     case r of
       None \<Rightarrow> Some (False, ni)
     | Some top_ba \<Rightarrow> do {
         let ni = ni\<lparr>mapping_blocks_top_ba := top_ba\<rparr>;
         (_, ni) \<leftarrow> nmbm_generate_info_table_cache crc ni;
         (success, ni) \<leftarrow> nmbm_rebuild_info_table ni;
         if \<not> success then Some (False, ni)
         else do {
           ni \<leftarrow> remap_end crc ni (data_block_count ni) (mgmt_start_ba ni);
           (success, ni) \<leftarrow> nmbm_update_info_table crc ni;
           Some (success, ni) } } }"

section \<open>Layout of the management area\<close>

text \<open>
  The tables and the spare blocks lie in order between the start of the management area and
  the top of the spare blocks; address 0 stands for a table that does not exist. The image of
  the tables has room for both.
\<close>

definition fits :: "'d nmbm_instance \<Rightarrow> bool" where
  "fits ni \<longleftrightarrow>
     32 \<le> unat (state_table_off (info_table ni)) \<and>
     unat (state_table_off (info_table ni)) + unat (state_table_size ni) \<le>
       unat (mapping_table_off (info_table ni)) \<and>
     unat (mapping_table_off (info_table ni)) + unat (mapping_table_size ni) \<le>
       unat (info_table_size ni)"

definition lay :: "'d nmbm_instance \<Rightarrow> bool" where
  "lay ni \<longleftrightarrow> wf ni \<and> fits ni \<and>
     0 < mgmt_start_ba ni \<and> mgmt_start_ba ni \<le> mapping_blocks_ba ni \<and>
     mapping_blocks_ba ni \<le> mapping_blocks_top_ba ni \<and> mapping_blocks_top_ba ni < block_count ni \<and>
     (main_table_ba ni \<noteq> 0 \<longrightarrow>
        mgmt_start_ba ni \<le> main_table_ba ni \<and> main_table_ba ni < mapping_blocks_ba ni) \<and>
     (backup_table_ba ni \<noteq> 0 \<longrightarrow>
        mgmt_start_ba ni \<le> backup_table_ba ni \<and> main_table_ba ni < backup_table_ba ni \<and>
        backup_table_ba ni < mapping_blocks_ba ni)"

definition region :: "'d nmbm_instance \<Rightarrow> nat set" where
  "region ni = {unat (mgmt_start_ba ni)..<unat (mapping_blocks_top_ba ni)}"

lemma lay_wf: "lay ni \<Longrightarrow> wf ni"
  by (simp add: lay_def)

text \<open>What an update of the tables leaves alone.\<close>

definition kept :: "'d nmbm_instance \<Rightarrow> u32 list \<times> u32 list \<times> nmbm_signature" where
  "kept ni = ([mgmt_start_ba ni, mapping_blocks_top_ba ni, signature_ba ni, data_block_count ni,
      state_table_off (info_table ni), mapping_table_off (info_table ni)],
     block_mapping ni, signature ni)"

definition tbl :: "nat set \<Rightarrow> 'd nmbm_instance \<Rightarrow> 'd nmbm_instance \<Rightarrow> bool" where
  "tbl A ni ni' \<longleftrightarrow> static ni' = static ni \<and> kept ni' = kept ni \<and>
     dev_reach (lower ni) (es_sh ni) (wset ni A) (chip ni) (chip ni') \<and>
     bitmap.degrades A (block_state ni) (block_state ni')"

lemma tbl_static: "tbl A ni ni' \<Longrightarrow> static ni' = static ni"
  by (simp add: tbl_def)

lemma tbl_fields:
  assumes "tbl A ni ni'"
  shows "mgmt_start_ba ni' = mgmt_start_ba ni" "mapping_blocks_top_ba ni' = mapping_blocks_top_ba ni"
    "signature_ba ni' = signature_ba ni" "data_block_count ni' = data_block_count ni"
    "block_mapping ni' = block_mapping ni" "signature ni' = signature ni"
    "block_count ni' = block_count ni" "region ni' = region ni" "wf ni' = wf ni" "fits ni' = fits ni"
  using assms static_fields [OF tbl_static [OF assms]] wf_static [OF tbl_static [OF assms]]
  by (auto simp: tbl_def kept_def region_def fits_def)

lemma tbl_refl [simp]: "tbl A ni ni"
  by (simp add: tbl_def dev_refl)

lemma tbl_trans:
  assumes "tbl A a b" and "tbl A b c"
  shows "tbl A a c"
proof -
  have st: "static b = static a" by (rule tbl_static [OF assms(1)])
  have "dev_reach (lower a) (es_sh a) (wset a A) (chip b) (chip c)"
    using assms(2) static_fields(1,12) [OF st] wset_static [OF st] by (simp add: tbl_def)
  then show ?thesis
    using assms by (auto simp: tbl_def intro: dev_reach_trans bitmap.degrades_trans)
qed

lemma tbl_mono: "tbl A a b \<Longrightarrow> A \<subseteq> B \<Longrightarrow> tbl B a b"
  unfolding tbl_def by (blast intro: dev_reach_mono [OF _ wset_mono] bitmap.degrades_mono)

lemma blk_imp_tbl: "blk A ni ni' \<Longrightarrow> tbl A ni ni'"
  unfolding tbl_def by (intro conjI blk_static) (auto elim!: blkE simp: kept_def)

lemma blk_fields:
  assumes "blk A ni ni'"
  shows "main_table_ba ni' = main_table_ba ni" "backup_table_ba ni' = backup_table_ba ni"
    "mapping_blocks_ba ni' = mapping_blocks_ba ni"
    "mgmt_start_ba ni' = mgmt_start_ba ni" "mapping_blocks_top_ba ni' = mapping_blocks_top_ba ni"
    "block_mapping_changed ni' = block_mapping_changed ni" "protected ni' = protected ni"
    "info_table ni' = info_table ni" "block_count ni' = block_count ni"
  using assms by (auto elim!: blkE)

lemma lay_blk: "blk A ni ni' \<Longrightarrow> lay ni' = lay ni"
  using tbl_fields [OF blk_imp_tbl, of A ni ni'] blk_fields [of A ni ni'] by (simp add: lay_def)

lemma static_upd [simp]:
  "static (ni\<lparr>main_table_ba := x\<rparr>) = static ni" "static (ni\<lparr>backup_table_ba := x\<rparr>) = static ni"
  "static (ni\<lparr>mapping_blocks_ba := x\<rparr>) = static ni"
  "static (ni\<lparr>mapping_blocks_top_ba := x\<rparr>) = static ni"
  "static (ni\<lparr>block_state_changed := x\<rparr>) = static ni"
  "static (ni\<lparr>block_mapping_changed := x\<rparr>) = static ni" "static (ni\<lparr>protected := p\<rparr>) = static ni"
  "static (ni\<lparr>info_table := it\<rparr>) = static ni"
  "length c = length (info_table_cache ni) \<Longrightarrow> static (ni\<lparr>info_table_cache := c\<rparr>) = static ni"
  "length m = length (block_mapping ni) \<Longrightarrow> static (ni\<lparr>block_mapping := m\<rparr>) = static ni"
  "static (ni\<lparr>data_block_count := x\<rparr>) = static ni"
  by (simp_all add: static_def)

lemmas wf_upd [simp] = static_upd [THEN wf_static]

lemma tbl_upd [simp]:
  "tbl A a (b\<lparr>main_table_ba := x\<rparr>) = tbl A a b" "tbl A a (b\<lparr>backup_table_ba := x\<rparr>) = tbl A a b"
  "tbl A a (b\<lparr>mapping_blocks_ba := x\<rparr>) = tbl A a b"
  "tbl A a (b\<lparr>block_state_changed := x\<rparr>) = tbl A a b"
  "tbl A a (b\<lparr>block_mapping_changed := x\<rparr>) = tbl A a b" "tbl A a (b\<lparr>protected := p\<rparr>) = tbl A a b"
  by (simp_all add: tbl_def kept_def)

lemma es_sh_upd [simp]:
  "es_sh (b\<lparr>main_table_ba := x\<rparr>) = es_sh b" "es_sh (b\<lparr>backup_table_ba := x\<rparr>) = es_sh b"
  "es_sh (b\<lparr>mapping_blocks_ba := x\<rparr>) = es_sh b" "es_sh (b\<lparr>block_mapping_changed := x\<rparr>) = es_sh b"
  "es_sh (b\<lparr>protected := p\<rparr>) = es_sh b"
  by (simp_all add: es_sh_def)

lemma wset_upd [simp]:
  "wset (b\<lparr>main_table_ba := x\<rparr>) = wset b" "wset (b\<lparr>backup_table_ba := x\<rparr>) = wset b"
  "wset (b\<lparr>mapping_blocks_ba := x\<rparr>) = wset b" "wset (b\<lparr>block_mapping_changed := x\<rparr>) = wset b"
  "wset (b\<lparr>block_state_changed := x\<rparr>) = wset b"
  "wset (b\<lparr>protected := p\<rparr>) = wset b"
  by (rule ext, simp add: wset_def read_only_def has_flag_def)+

lemma tbl_upd_first [simp]:
  "tbl A (a\<lparr>main_table_ba := x\<rparr>) b = tbl A a b" "tbl A (a\<lparr>backup_table_ba := x\<rparr>) b = tbl A a b"
  "tbl A (a\<lparr>mapping_blocks_ba := x\<rparr>) b = tbl A a b"
  "tbl A (a\<lparr>block_state_changed := x\<rparr>) b = tbl A a b"
  "tbl A (a\<lparr>block_mapping_changed := x\<rparr>) b = tbl A a b" "tbl A (a\<lparr>protected := p\<rparr>) b = tbl A a b"
  by (simp_all add: tbl_def kept_def)

lemma fits_upd [simp]:
  "fits (b\<lparr>main_table_ba := x\<rparr>) = fits b" "fits (b\<lparr>backup_table_ba := x\<rparr>) = fits b"
  "fits (b\<lparr>mapping_blocks_ba := x\<rparr>) = fits b" "fits (b\<lparr>mapping_blocks_top_ba := x\<rparr>) = fits b"
  "fits (b\<lparr>block_mapping_changed := x\<rparr>) = fits b"
  "fits (b\<lparr>block_state_changed := x\<rparr>) = fits b" "fits (b\<lparr>protected := p\<rparr>) = fits b"
  "fits (b\<lparr>block_mapping := m\<rparr>) = fits b" "fits (b\<lparr>data_block_count := x\<rparr>) = fits b"
  by (simp_all add: fits_def)

lemma region_upd [simp]:
  "region (b\<lparr>main_table_ba := x\<rparr>) = region b" "region (b\<lparr>backup_table_ba := x\<rparr>) = region b"
  "region (b\<lparr>mapping_blocks_ba := x\<rparr>) = region b" "region (b\<lparr>block_mapping_changed := x\<rparr>) = region b"
  "region (b\<lparr>block_state_changed := x\<rparr>) = region b" "region (b\<lparr>protected := p\<rparr>) = region b"
  by (simp_all add: region_def)

section \<open>The image\<close>

lemma blit_total:
  "off + length src \<le> length xs \<Longrightarrow> \<exists>ys. blit xs off src = Some ys \<and> length ys = length xs"
  by (simp add: blit_def)

lemma nmbm_update_checksum_ok:
  assumes "16 \<le> length buf" and "unat (hdr_size (header_of buf)) \<le> length buf"
  shows "ok (nmbm_update_checksum crc buf) (\<lambda>b. length b = length buf)"
  using assms by (simp add: nmbm_update_checksum_def ok_bind header_of_take min_absorb2)

lemma ift_header_of: "header_of (ift_bytes h @ xs) = ift_header h"
  by (simp add: ift_bytes_def)

lemma nmbm_update_checksum_slice:
  assumes "nmbm_update_checksum crc buf = Some c" and "16 \<le> off"
  shows "slice c off n = slice buf off n"
proof -
  obtain b x where b: "blit buf 12 (le32 0) = Some b" and c: "blit b 12 (le32 x) = Some c"
    using assms(1) by (auto simp: nmbm_update_checksum_def bind_eq_Some_conv)
  show ?thesis
    using slice_blit_after [OF b, of off n] slice_blit_after [OF c, of off n] assms(2) by simp
qed

definition next_info_table :: "'d nmbm_instance \<Rightarrow> nmbm_info_table_header" where
  "next_info_table ni = (info_table ni)\<lparr>ift_header := (ift_header (info_table ni))\<lparr>
      hdr_magic := NMBM_MAGIC_INFO_TABLE, hdr_version := NMBM_VER, hdr_size := info_table_size ni\<rparr>,
      write_count := write_count (info_table ni) + (if tables_changed ni then 1 else 0)\<rparr>"

lemma nmbm_generate_info_table_cache_eq:
  assumes "wf ni" and "fits ni"
  obtains c buf where "nmbm_generate_info_table_cache crc ni =
      Some (tables_changed ni, ni\<lparr>info_table_cache := c, info_table := next_info_table ni\<rparr>)"
    and "length c = length (info_table_cache ni)" and "nmbm_update_checksum crc buf = Some c"
    and "length buf = length c" and "ift_of buf = next_info_table ni"
    and "slice c (unat (state_table_off (info_table ni))) (unat (state_table_size ni)) =
      Some (words_to_bytes (block_state ni))"
    and "slice c (unat (mapping_table_off (info_table ni))) (unat (mapping_table_size ni)) =
      Some (words_to_bytes (block_mapping ni))"
proof -
  let ?n = "unat (info_table_size ni)" and ?it = "info_table ni"
  define ch where "ch = tables_changed ni"
  define it where "it = next_info_table ni"
  have len: "length (info_table_cache ni) = ?n" "32 \<le> ?n"
    "unat (state_table_size ni) = 4 * length (block_state ni)"
    "unat (mapping_table_size ni) = 4 * length (block_mapping ni)"
    using assms(1) by (simp_all add: wf_def)
  note f = assms(2) [unfolded fits_def]
  have 1: "blit (info_table_cache ni) 0 (replicate ?n 0xff) = Some (replicate ?n 0xff)"
    using len by (simp add: blit_def)
  have 2: "slice (words_to_bytes (block_state ni)) 0 (unat (state_table_size ni)) =
      Some (words_to_bytes (block_state ni))"
    using len by (simp add: slice_def)
  obtain c2 where 3: "blit (replicate ?n 0xff) (unat (state_table_off ?it)) (words_to_bytes (block_state ni)) = Some c2"
    and l2: "length c2 = ?n"
    using blit_total [of "unat (state_table_off ?it)" "words_to_bytes (block_state ni)" "replicate ?n 0xff"] len f
    by auto
  have 4: "slice (words_to_bytes (block_mapping ni)) 0 (unat (mapping_table_size ni)) =
      Some (words_to_bytes (block_mapping ni))"
    using len by (simp add: slice_def)
  obtain c3 where 5: "blit c2 (unat (mapping_table_off ?it)) (words_to_bytes (block_mapping ni)) = Some c3"
    and l3: "length c3 = ?n"
    using blit_total [of "unat (mapping_table_off ?it)" "words_to_bytes (block_mapping ni)" c2] len f l2
    by auto
  have 6: "blit c3 0 (ift_bytes it) = Some (ift_bytes it @ drop 32 c3)"
    using l3 len by (simp add: blit_def)
  have "ok (nmbm_update_checksum crc (ift_bytes it @ drop 32 c3)) (\<lambda>c. length c = ?n)"
    using nmbm_update_checksum_ok [of "ift_bytes it @ drop 32 c3" crc] l3 len
    by (simp add: ift_header_of it_def next_info_table_def)
  then obtain c where 7: "nmbm_update_checksum crc (ift_bytes it @ drop 32 c3) = Some c"
    and l: "length c = ?n" by (rule okE)
  have "nmbm_generate_info_table_cache crc ni = Some (ch, ni\<lparr>info_table_cache := c, info_table := it\<rparr>)"
    by (simp only: nmbm_generate_info_table_cache_def Let_def 1 2 3 4 5 6 [unfolded it_def]
        7 [unfolded it_def] Option.bind.bind_lunit it_def ch_def
        flip: tables_changed_def next_info_table_def)
  moreover have "slice c off n = slice c3 off n" if "32 \<le> off" for off n
    using nmbm_update_checksum_slice [OF 7, of off n] slice_blit_after [OF 6, of off n] that by simp
  moreover have "slice c3 (unat (state_table_off ?it)) (unat (state_table_size ni)) =
      Some (words_to_bytes (block_state ni))"
    using slice_blit_same [OF 3] slice_blit_before [OF 5] f len by simp
  moreover have "slice c3 (unat (mapping_table_off ?it)) (unat (mapping_table_size ni)) =
      Some (words_to_bytes (block_mapping ni))"
    using slice_blit_same [OF 5] len by simp
  ultimately show ?thesis
    using that [of c "ift_bytes it @ drop 32 c3"] 7 l l3 len f by (simp add: it_def ch_def)
qed

lemma nmbm_write_info_table_ok:
  assumes "wf ni" and "unat limit \<le> unat (block_count ni)"
  shows "ok (nmbm_write_info_table ni ba limit) (\<lambda>(r, ni').
    mgmt_result ni (unat ba) (unat limit) (unat (info_table_size ni)) r ni')"
proof -
  have len: "length (info_table_cache ni) = unat (info_table_size ni)" "0 < unat (info_table_size ni)"
    using assms(1) by (simp_all add: wf_def)
  then have ne: "info_table_cache ni \<noteq> []" by auto
  have eq: "nmbm_write_info_table ni ba limit = nmbm_write_mgmt_range ni ba limit (info_table_cache ni)"
    by (simp add: nmbm_write_info_table_def slice_def flip: len(1))
  show ?thesis
  proof (cases "unat ba \<le> unat limit")
    case True
    show ?thesis using nmbm_write_mgmt_range_ok [OF assms True ne] by (simp add: eq len)
  next
    case False
    then show ?thesis unfolding eq nmbm_write_mgmt_range_def
      using ne len(2) blocks_for_step [of "unat (info_table_size ni)" ni]
      by (subst mgmt_loop.simps) (simp add: word_less_nat_alt mgmt_result_def)
  qed
qed

section \<open>Termination measure of an update\<close>

text \<open>
  The tables were marked clean since the good blocks were those of \<open>g\<close>: the counters are zero
  unless a block of \<open>g\<close> has been lost.
\<close>

definition settled :: "nat set \<Rightarrow> 'd nmbm_instance \<Rightarrow> bool" where
  "settled g ni \<longleftrightarrow> bitmap.goods (block_state ni) \<subseteq> g \<and> block_mapping_changed ni = 0 \<and>
     (block_state_changed ni = 0 \<or> bitmap.goods (block_state ni) \<subset> g)"

lemma settled_blk:
  assumes "blk A ni ni'" and "settled g ni"
  shows "settled g ni'"
  using blk_goods [OF assms(1)] blk_fields(6) [OF assms(1)] assms(2) by (auto simp: settled_def)

lemma settled_upd [simp]:
  "settled g (b\<lparr>main_table_ba := x\<rparr>) = settled g b" "settled g (b\<lparr>backup_table_ba := x\<rparr>) = settled g b"
  "settled g (b\<lparr>mapping_blocks_ba := x\<rparr>) = settled g b"
  by (simp_all add: settled_def)

lemma settled_clean [simp]:
  "settled g (nmbm_mark_tables_clean ni) \<longleftrightarrow> bitmap.goods (block_state ni) \<subseteq> g"
  by (auto simp: settled_def nmbm_mark_tables_clean_def)

lemma tbl_goods: "tbl A a b \<Longrightarrow> bitmap.goods (block_state b) \<subseteq> bitmap.goods (block_state a)"
  by (auto simp: tbl_def dest: bitmap.degrades_goods)

lemma clean_simps [simp]:
  "tbl A a (nmbm_mark_tables_clean b) = tbl A a b" "lay (nmbm_mark_tables_clean b) = lay b"
  "static (nmbm_mark_tables_clean b) = static b"
  "main_table_ba (nmbm_mark_tables_clean b) = main_table_ba b"
  "backup_table_ba (nmbm_mark_tables_clean b) = backup_table_ba b"
  "mapping_blocks_ba (nmbm_mark_tables_clean b) = mapping_blocks_ba b"
  "mapping_blocks_top_ba (nmbm_mark_tables_clean b) = mapping_blocks_top_ba b"
  "mgmt_start_ba (nmbm_mark_tables_clean b) = mgmt_start_ba b"
  "block_count (nmbm_mark_tables_clean b) = block_count b"
  "wf (nmbm_mark_tables_clean b) = wf b" "region (nmbm_mark_tables_clean b) = region b"
  "block_state (nmbm_mark_tables_clean b) = block_state b"
  by (simp_all add: nmbm_mark_tables_clean_def lay_def)

section \<open>Steps inside the management area\<close>

definition placed :: "u32 \<Rightarrow> u32 \<Rightarrow> (u32 \<times> u32) option \<Rightarrow> bool" where
  "placed a b r \<longleftrightarrow> (case r of None \<Rightarrow> True | Some (s, e) \<Rightarrow> a \<le> s \<and> s < e \<and> e \<le> b)"

lemma placed_simps [simp]:
  "placed a b None" "placed a b (Some (s, e)) \<longleftrightarrow> a \<le> s \<and> s < e \<and> e \<le> b"
  by (simp_all add: placed_def)

lemma write_table_ok:
  assumes "lay ni" and "mgmt_start_ba ni \<le> ba" and "limit \<le> mapping_blocks_top_ba ni"
  shows "ok (nmbm_write_info_table ni ba limit) (\<lambda>(r, ni'). blk (region ni) ni ni' \<and> placed ba limit r)"
proof -
  have wf: "wf ni" and lim: "unat limit \<le> unat (block_count ni)"
    and sub: "{unat ba..<unat limit} \<subseteq> region ni"
    using assms by (auto simp: lay_def region_def word_le_nat_alt word_less_nat_alt)
  show ?thesis
    by (rule ok_mono2 [OF nmbm_write_info_table_ok [OF wf lim]])
      (auto simp: mgmt_result_def word_le_nat_alt word_less_nat_alt placed_def
        intro: blk_mono [OF _ sub] split: option.splits)
qed

lemma erase_gap_ok:
  assumes "lay ni" and "mgmt_start_ba ni \<le> ba" and "limit \<le> mapping_blocks_top_ba ni"
  shows "ok (nmbm_erase_range ni ba limit) (\<lambda>ni'. blk (region ni) ni ni')"
proof -
  have wf: "wf ni" and lim: "unat limit \<le> unat (block_count ni)"
    and sub: "{unat ba..<unat limit} \<subseteq> region ni"
    using assms by (auto simp: lay_def region_def word_le_nat_alt word_less_nat_alt)
  show ?thesis
    by (rule ok_mono [OF nmbm_erase_range_ok [OF wf lim]]) (rule blk_mono [OF _ sub])
qed

lemma reserve_ok:
  assumes "wf ni"
  shows "ok (nmbm_try_reserve_blocks ni ba count 0 limit) (\<lambda>r. \<forall>nba. r = Some nba \<longrightarrow> ba \<le> nba)"
  by (rule ok_mono [OF nmbm_try_reserve_blocks_ok [OF assms]])
    (auto simp: word_le_nat_alt split: option.splits)

lemma region_blk: "blk A ni ni' \<Longrightarrow> region ni' = region ni"
  by (rule tbl_fields(8)) (rule blk_imp_tbl)

lemma write_downwards_ok:
  assumes "lay ni" and "lo = mapping_blocks_ba ni \<or> mgmt_start_ba ni \<le> lo"
  shows "ok (write_downwards ni write_ba lo)
    (\<lambda>(r, ni'). blk (region ni) ni ni' \<and> placed lo (mapping_blocks_top_ba ni) r)"
  using assms
proof (induction "unat write_ba" arbitrary: ni write_ba rule: less_induct)
  case less
  have lo: "mgmt_start_ba ni \<le> lo" "lo \<noteq> 0"
    using less.prems by (auto simp: lay_def)
  show ?case
  proof (cases "lo \<le> write_ba")
    case False
    then show ?thesis by (subst write_downwards.simps) simp
  next
    case True
    show ?thesis
    proof (subst write_downwards.simps, simp only: True if_True,
        rule ok_bind2 [OF write_table_ok [OF less.prems(1)]], goal_cases)
      case 1 then show ?case using lo True by simp
    next
      case 2 then show ?case by simp
    next
      case (3 r ni1)
      have b: "blk (region ni) ni ni1" and p: "placed write_ba (mapping_blocks_top_ba ni) r"
        using 3 by simp_all
      show ?case
      proof (cases r)
        case (Some t)
        then show ?thesis using b p True by (cases t) auto
      next
        case None
        have "write_ba \<noteq> 0" using True lo by auto
        then have "unat (write_ba - 1) < unat write_ba" by (simp add: unat_gt_0)
        from less.hyps [OF this, of ni1] less.prems b
        have "ok (write_downwards ni1 (write_ba - 1) lo)
            (\<lambda>(r, ni'). blk (region ni1) ni1 ni' \<and> placed lo (mapping_blocks_top_ba ni1) r)"
          by (simp add: lay_blk blk_fields [OF b])
        then show ?thesis unfolding None
          by (auto simp: region_blk [OF b] blk_fields [OF b] elim!: ok_mono intro: blk_trans [OF b])
      qed
    qed
  qed
qed

lemma write_rescue_ok:
  assumes "lay ni" and "mgmt_start_ba ni \<le> lo" and "lo \<le> write_ba"
  shows "ok (write_rescue ni write_ba lo)
    (\<lambda>(r, ni'). blk (region ni) ni ni' \<and> placed lo (mapping_blocks_top_ba ni) r)"
  using write_downwards_ok [of ni lo write_ba] assms by (simp add: write_rescue_def)

section \<open>The table procedures\<close>

text \<open>
  \<open>at g ni m\<close>: in the middle of a procedure started at \<open>ni\<close>, with the layout intact, nothing
  outside the management area touched, and the tables settled with respect to \<open>g\<close> if \<open>z\<close>.
\<close>

definition mid :: "nat set \<Rightarrow> bool \<Rightarrow> 'd nmbm_instance \<Rightarrow> 'd nmbm_instance \<Rightarrow> bool" where
  "mid g z ni m \<longleftrightarrow> lay m \<and> tbl (region ni) ni m \<and> bitmap.goods (block_state ni) \<subseteq> g \<and> (z \<longrightarrow> settled g m)"

definition same_addrs :: "'d nmbm_instance \<Rightarrow> 'd nmbm_instance \<Rightarrow> bool" where
  "same_addrs m m' \<longleftrightarrow> main_table_ba m' = main_table_ba m \<and> backup_table_ba m' = backup_table_ba m \<and>
     mapping_blocks_ba m' = mapping_blocks_ba m \<and> mgmt_start_ba m' = mgmt_start_ba m \<and>
     mapping_blocks_top_ba m' = mapping_blocks_top_ba m"

lemma mid_blk:
  assumes "mid g z ni m" and "blk (region m) m m'"
  shows "mid g z ni m'" and "same_addrs m m'"
proof -
  have t: "tbl (region ni) ni m" and l: "lay m" and s: "z \<longrightarrow> settled g m"
    and c: "bitmap.goods (block_state ni) \<subseteq> g"
    using assms(1) by (auto simp: mid_def)
  have b: "blk (region ni) m m'" using assms(2) tbl_fields(8) [OF t] by simp
  have "tbl (region ni) ni m'" by (rule tbl_trans [OF t blk_imp_tbl [OF b]])
  moreover have "lay m'" using l by (simp add: lay_blk [OF b])
  moreover have "z \<longrightarrow> settled g m'" using s settled_blk [OF b] by blast
  ultimately show "mid g z ni m'" using c by (simp add: mid_def)
  show "same_addrs m m'" by (simp add: same_addrs_def blk_fields [OF b])
qed

lemma step_write:
  assumes "mid g z ni m" and "mgmt_start_ba m \<le> ba" and "limit \<le> mapping_blocks_top_ba m"
    and "\<And>r m'. mid g z ni m' \<Longrightarrow> same_addrs m m' \<Longrightarrow> placed ba limit r \<Longrightarrow> ok (f r m') Q"
  shows "ok (Option.bind (nmbm_write_info_table m ba limit) (\<lambda>(r, m). f r m)) Q"
proof -
  have "lay m" using assms(1) by (simp add: mid_def)
  from write_table_ok [OF this assms(2,3)] show ?thesis
    by (rule ok_bind2) (use assms(4) mid_blk [OF assms(1)] in blast)
qed

lemma step_rescue:
  assumes "mid g z ni m" and "mgmt_start_ba m \<le> lo" and "lo \<le> ba"
    and "\<And>r m'. mid g z ni m' \<Longrightarrow> same_addrs m m' \<Longrightarrow> placed lo (mapping_blocks_top_ba m) r \<Longrightarrow> ok (f r m') Q"
  shows "ok (Option.bind (write_rescue m ba lo) (\<lambda>(r, m). f r m)) Q"
proof -
  have "lay m" using assms(1) by (simp add: mid_def)
  from write_rescue_ok [OF this assms(2,3)] show ?thesis
    by (rule ok_bind2) (use assms(4) mid_blk [OF assms(1)] in blast)
qed

lemma step_erase:
  assumes "mid g z ni m" and "mgmt_start_ba m \<le> ba" and "limit \<le> mapping_blocks_top_ba m"
    and "\<And>m'. mid g z ni m' \<Longrightarrow> same_addrs m m' \<Longrightarrow> ok (f m') Q"
  shows "ok (Option.bind (nmbm_erase_range m ba limit) f) Q"
proof -
  have "lay m" using assms(1) by (simp add: mid_def)
  from erase_gap_ok [OF this assms(2,3)] show ?thesis
    by (rule ok_bindI) (use assms(4) mid_blk [OF assms(1)] in blast)
qed

lemma step_reserve:
  assumes "mid g z ni m"
    and "\<And>nba. (\<And>b. nba = Some b \<Longrightarrow> ba \<le> b) \<Longrightarrow> ok (f nba) Q"
  shows "ok (Option.bind (nmbm_try_reserve_blocks m ba count 0 limit) f) Q"
proof -
  have "wf m" using assms(1) by (simp add: mid_def lay_def)
  from reserve_ok [OF this] show ?thesis
    by (rule ok_bindI) (use assms(2) in blast)
qed

definition table_post :: "nat set \<Rightarrow> 'd nmbm_instance \<Rightarrow> bool \<Rightarrow> 'd nmbm_instance \<Rightarrow> bool" where
  "table_post g ni b ni' \<longleftrightarrow> mid g b ni ni' \<and> (\<not> b \<longrightarrow> protected ni')"

lemma mid_upd [simp]:
  "mid g z (a\<lparr>main_table_ba := x\<rparr>) b = mid g z a b" "mid g z (a\<lparr>backup_table_ba := x\<rparr>) b = mid g z a b"
  "mid g z (a\<lparr>mapping_blocks_ba := x\<rparr>) b = mid g z a b"
  by (simp_all add: mid_def)

lemma fits_clean [simp]: "fits (nmbm_mark_tables_clean b) = fits b"
  by (simp add: nmbm_mark_tables_clean_def)

lemma mid_clean [simp]: "mid g z a (nmbm_mark_tables_clean b) \<longleftrightarrow> mid g False a b"
  using tbl_goods [of "region a" a b] by (auto simp: mid_def)

lemma mid_weaken: "mid g z a b \<Longrightarrow> mid g False a b"
  by (simp add: mid_def)

lemma mid_move:
  assumes "mid g z a b" and "lay b'" and "static b' = static b" and "kept b' = kept b"
    and "chip b' = chip b" and "block_state b' = block_state b"
    and "block_state_changed b' = block_state_changed b"
    and "block_mapping_changed b' = block_mapping_changed b"
  shows "mid g z a b'"
  using assms by (simp add: mid_def tbl_def settled_def)

text \<open>Recording new addresses keeps \<open>mid\<close> as long as they respect the layout.\<close>

lemma mid_set:
  assumes "mid g z a b"
  shows "lay (b\<lparr>main_table_ba := x\<rparr>) \<Longrightarrow> mid g z a (b\<lparr>main_table_ba := x\<rparr>)"
    and "lay (b\<lparr>main_table_ba := x, mapping_blocks_ba := y\<rparr>) \<Longrightarrow>
      mid g z a (b\<lparr>main_table_ba := x, mapping_blocks_ba := y\<rparr>)"
    and "lay (b\<lparr>main_table_ba := x, backup_table_ba := y\<rparr>) \<Longrightarrow>
      mid g z a (b\<lparr>main_table_ba := x, backup_table_ba := y\<rparr>)"
    and "lay (b\<lparr>backup_table_ba := x\<rparr>) \<Longrightarrow> mid g z a (b\<lparr>backup_table_ba := x\<rparr>)"
    and "lay (b\<lparr>mapping_blocks_ba := y\<rparr>) \<Longrightarrow> mid g z a (b\<lparr>mapping_blocks_ba := y\<rparr>)"
    and "lay (b\<lparr>backup_table_ba := x, mapping_blocks_ba := y\<rparr>) \<Longrightarrow>
      mid g z a (b\<lparr>backup_table_ba := x, mapping_blocks_ba := y\<rparr>)"
    and "lay (b\<lparr>main_table_ba := w, backup_table_ba := x, mapping_blocks_ba := y\<rparr>) \<Longrightarrow>
      mid g z a (b\<lparr>main_table_ba := w, backup_table_ba := x, mapping_blocks_ba := y\<rparr>)"
    and "mid g False a (b\<lparr>protected := p\<rparr>)"
  using assms by (auto simp: mid_def lay_def)

lemma mid_lay: "mid g z a b \<Longrightarrow> lay b"
  by (simp add: mid_def)

lemma rebuild_from:
  assumes 0: "mid g z ni (m\<lparr>main_table_ba := 0, backup_table_ba := 0, mapping_blocks_ba := mapping_blocks_top_ba m\<rparr>)"
  shows "ok (nmbm_rebuild_info_table m) (\<lambda>(b, ni'). table_post g ni b ni')"
proof -
  show ?thesis
    unfolding nmbm_rebuild_info_table_def Let_def
  proof (rule step_write [OF 0], goal_cases)
    case (3 r m1)
    show ?case
    proof (cases r)
      case None
      then show ?thesis using mid_set(8) [OF 3(1)] by (simp add: table_post_def)
    next
      case (Some t)
      then obtain s e where t: "r = Some (s, e)" by (cases t) simp
      have a: "mid g z ni (m1\<lparr>main_table_ba := s, mapping_blocks_ba := e\<rparr>)"
        by (rule mid_set(2) [OF 3(1)]) (use mid_lay [OF 3(1)] 3(2,3) in \<open>auto simp: lay_def same_addrs_def t\<close>)
      then have c: "mid g True ni (nmbm_mark_tables_clean (m1\<lparr>main_table_ba := s, mapping_blocks_ba := e\<rparr>))"
        by (auto intro: mid_weaken)
      show ?thesis unfolding t option.case prod.case
      proof (rule step_reserve [OF c], goal_cases)
        case (1 nba)
        show ?case
        proof (cases nba)
          case None
          then show ?thesis using c by (simp add: table_post_def)
        next
          case (Some nb)
          then have nb: "e \<le> nb" using 1 by simp
          show ?thesis unfolding Some option.case
          proof (rule step_write [OF c], goal_cases)
            case 1
            then show ?case using nb 3(2,3) by (auto simp: same_addrs_def t)
          next
            case w: (3 r2 m2)
            show ?case
            proof (cases r2)
              case None
              then show ?thesis using w by (simp add: table_post_def)
            next
              case (Some t')
              then obtain s' e' where t': "r2 = Some (s', e')" by (cases t') simp
              have d: "mid g True ni (m2\<lparr>backup_table_ba := s', mapping_blocks_ba := e'\<rparr>)"
                by (rule mid_set(6) [OF w(1)])
                  (use mid_lay [OF w(1)] w(2,3) 3(2,3) nb in \<open>auto simp: lay_def same_addrs_def t t'\<close>)
              show ?thesis unfolding t' option.case prod.case
                by (rule step_erase [OF d])
                  (use w(2,3) 3(2,3) nb in \<open>auto simp: same_addrs_def t t' table_post_def\<close>)
            qed
          qed simp
        qed
      qed
    qed
  qed simp_all
qed

lemma nmbm_rebuild_info_table_ok:
  assumes "mid g z ni m"
  shows "ok (nmbm_rebuild_info_table m) (\<lambda>(b, ni'). table_post g ni b ni')"
  by (rule rebuild_from [OF mid_set(7) [OF assms]]) (use mid_lay [OF assms] in \<open>auto simp: lay_def\<close>)

lemma nmbm_rescue_main_info_table_ok:
  assumes m: "mid g True ni m" and bk: "backup_table_ba m \<noteq> 0"
  shows "ok (nmbm_rescue_main_info_table m) (\<lambda>(b, ni'). table_post g ni b ni')"
proof -
  have L: "lay m" by (rule mid_lay [OF m])
  have alone: "table_post g ni True (m1\<lparr>main_table_ba := backup_table_ba m1, backup_table_ba := 0\<rparr>)"
    if "mid g True ni m1" "same_addrs m m1" for m1
    unfolding table_post_def
    by (auto intro!: mid_set(3) [OF that(1)])
      (use mid_lay [OF that(1)] that(2) bk in \<open>auto simp: lay_def same_addrs_def\<close>)
  show ?thesis
    unfolding nmbm_rescue_main_info_table_def Let_def
  proof (rule step_reserve [OF m], goal_cases)
    case (1 w)
    show ?case
    proof (cases w)
      case None
      then show ?thesis using alone [OF m] by (simp add: same_addrs_def)
    next
      case (Some ba)
      then have ba: "mapping_blocks_ba m \<le> ba" using 1 by simp
      show ?thesis unfolding Some option.case
      proof (rule step_rescue [OF m _ ba], goal_cases)
        case 1
        then show ?case using L by (simp add: lay_def)
      next
        case r: (2 r m1)
        show ?case
        proof (cases r)
          case None
          then show ?thesis using alone r(1,2) by simp
        next
          case (Some t)
          then obtain s e where t: "r = Some (s, e)" by (cases t) simp
          have a: "mid g True ni (m1\<lparr>mapping_blocks_ba := e\<rparr>)"
            by (rule mid_set(5) [OF r(1)])
              (use mid_lay [OF r(1)] r(2,3) in \<open>auto simp: lay_def same_addrs_def t\<close>)
          show ?thesis unfolding t option.case prod.case
          proof (rule step_write [OF a], goal_cases)
            case 2
            then show ?case using r(2,3) by (auto simp: same_addrs_def t)
          next
            case w: (3 r2 m2)
            show ?case
            proof (cases r2)
              case None
              have "mid g True ni (m2\<lparr>main_table_ba := s, backup_table_ba := 0\<rparr>)"
                by (rule mid_set(3) [OF w(1)])
                  (use mid_lay [OF w(1)] w(2) r(2,3) L in \<open>auto simp: lay_def same_addrs_def t\<close>)
              then show ?thesis using None by (auto simp: table_post_def intro: mid_weaken)
            next
              case (Some t')
              then obtain s' e' where t': "r2 = Some (s', e')" by (cases t') simp
              have "mid g True ni (m2\<lparr>main_table_ba := s', backup_table_ba := s\<rparr>)"
                by (rule mid_set(3) [OF w(1)])
                  (use mid_lay [OF w(1)] w(2,3) r(2,3) L in \<open>auto simp: lay_def same_addrs_def t t'\<close>)
              then have "mid g True ni (nmbm_mark_tables_clean (m2\<lparr>main_table_ba := s', backup_table_ba := s\<rparr>))"
                by (auto intro: mid_weaken)
              moreover have "nmbm_mark_tables_clean (m2\<lparr>main_table_ba := s', backup_table_ba := s\<rparr>) =
                  (nmbm_mark_tables_clean (m2\<lparr>main_table_ba := s'\<rparr>))\<lparr>backup_table_ba := s\<rparr>"
                by (simp add: nmbm_mark_tables_clean_def)
              ultimately show ?thesis using w(3) t' by (simp add: table_post_def)
            qed
          qed simp
        qed
      qed
    qed
  qed
qed

lemma write_main_table_ok:
  assumes m: "mid g z ni m" and z: "backup_table_ba m \<noteq> 0 \<longrightarrow> z"
    and lim: "limit = (if backup_table_ba m = 0 then mapping_blocks_top_ba m else backup_table_ba m)"
  shows "ok (write_main_table m limit) (\<lambda>(b, ni'). table_post g ni b ni')"
proof (cases "main_table_ba m = 0")
  case True
  then show ?thesis using nmbm_rebuild_info_table_ok [OF m] by (simp add: write_main_table_def)
next
  case False
  have L: "lay m" by (rule mid_lay [OF m])
  show ?thesis unfolding write_main_table_def if_not_P [OF False]
  proof (rule step_write [OF m], goal_cases)
    case 1
    then show ?case using L False by (simp add: lay_def)
  next
    case 2
    then show ?case using L by (auto simp: lay_def lim)
  next
    case (3 r m1)
    show ?case
    proof (cases r)
      case None
      then show ?thesis
        using nmbm_rebuild_info_table_ok [OF 3(1)] nmbm_rescue_main_info_table_ok [of g ni m1] z 3(1,2)
        by (auto simp: same_addrs_def)
    next
      case (Some t)
      then obtain s e where t: "r = Some (s, e)" by (cases t) simp
      have "mid g False ni (m1\<lparr>main_table_ba := s, mapping_blocks_ba := e\<rparr>)" if "backup_table_ba m = 0"
        by (rule mid_weaken [OF mid_set(2) [OF 3(1)]])
          (use mid_lay [OF 3(1)] 3(2,3) L that False in \<open>auto simp: lay_def same_addrs_def t lim\<close>)
      moreover have "mid g False ni (m1\<lparr>main_table_ba := s\<rparr>)" if "backup_table_ba m \<noteq> 0"
        by (rule mid_weaken [OF mid_set(1) [OF 3(1)]])
          (use mid_lay [OF 3(1)] 3(2,3) L that False in \<open>auto simp: lay_def same_addrs_def t lim\<close>)
      ultimately show ?thesis using 3(2) by (auto simp: t Let_def same_addrs_def table_post_def)
    qed
  qed
qed

lemma nmbm_update_info_table_once_ok:
  assumes "lay ni" and "tables_changed ni \<or> force"
  shows "ok (nmbm_update_info_table_once crc ni force)
    (\<lambda>(b, ni'). table_post (bitmap.goods (block_state ni)) ni b ni')"
proof -
  have wf: "wf ni" and fits: "fits ni" using assms(1) by (simp_all add: lay_def)
  obtain c where gen: "nmbm_generate_info_table_cache crc ni =
      Some (tables_changed ni, ni\<lparr>info_table_cache := c, info_table := next_info_table ni\<rparr>)"
    and len: "length c = length (info_table_cache ni)"
    by (rule nmbm_generate_info_table_cache_eq [OF wf fits])
  let ?m = "ni\<lparr>info_table_cache := c, info_table := next_info_table ni\<rparr>"
  let ?g = "bitmap.goods (block_state ni)"
  have st: "static ?m = static ni" using len by (simp add: static_def)
  have "tbl (region ni) ni ?m"
    using st by (simp add: tbl_def kept_def next_info_table_def dev_refl)
  moreover have "lay ?m"
    using assms(1) len by (simp add: lay_def) (simp add: fits_def next_info_table_def)
  ultimately have m: "mid ?g False ni ?m" by (simp add: mid_def)
  show ?thesis
  proof (cases "backup_table_ba ni = 0")
    case True
    then show ?thesis using assms(2) write_main_table_ok [OF m, of "mapping_blocks_top_ba ni"]
      by (auto simp: nmbm_update_info_table_once_def gen)
  next
    case False
    have "nmbm_update_info_table_once crc ni force = do {
       (r, ni) \<leftarrow> nmbm_write_info_table ?m (backup_table_ba ni) (mapping_blocks_top_ba ni);
       case r of
         None \<Rightarrow> write_main_table
             (ni\<lparr>mapping_blocks_ba := backup_table_ba ni, backup_table_ba := 0\<rparr>)
             (mapping_blocks_top_ba ni)
       | Some (table_start_ba, table_end_ba) \<Rightarrow> do {
           let ni = ni\<lparr>backup_table_ba := table_start_ba, mapping_blocks_ba := table_end_ba\<rparr>;
           let ni = nmbm_mark_tables_clean ni;
           write_main_table ni (backup_table_ba ni) } }"
      using assms(2) False by (auto simp: nmbm_update_info_table_once_def gen)
    also have "ok \<dots> (\<lambda>(b, ni'). table_post ?g ni b ni')"
    proof (rule step_write [OF m], goal_cases)
      case 1
      then show ?case using assms(1) False by (simp add: lay_def)
    next
      case 2
      then show ?case by simp
    next
      case (3 r m1)
      have L: "lay m1" by (rule mid_lay [OF 3(1)])
      show ?case
      proof (cases r)
        case None
        have "mid ?g False ni (m1\<lparr>backup_table_ba := 0, mapping_blocks_ba := backup_table_ba m1\<rparr>)"
          by (rule mid_set(6) [OF 3(1)]) (use L 3(2) False in \<open>auto simp: lay_def same_addrs_def\<close>)
        moreover have "m1\<lparr>backup_table_ba := 0, mapping_blocks_ba := backup_table_ba m1\<rparr> =
            m1\<lparr>mapping_blocks_ba := backup_table_ba m1, backup_table_ba := 0\<rparr>" by simp
        ultimately have mm: "mid ?g False ni (m1\<lparr>mapping_blocks_ba := backup_table_ba m1, backup_table_ba := 0\<rparr>)"
          by metis
        from write_main_table_ok [OF mm, of "mapping_blocks_top_ba m1"] None 3(2)
        show ?thesis by (simp add: same_addrs_def)
      next
        case (Some t)
        then obtain s e where t: "r = Some (s, e)" by (cases t) simp
        have "mid ?g False ni (m1\<lparr>backup_table_ba := s, mapping_blocks_ba := e\<rparr>)"
          by (rule mid_set(6) [OF 3(1)])
            (use L 3(2,3) assms(1) False in \<open>auto simp: lay_def same_addrs_def t\<close>)
        then have "mid ?g True ni (nmbm_mark_tables_clean (m1\<lparr>backup_table_ba := s, mapping_blocks_ba := e\<rparr>))"
          by simp
        moreover have "s \<noteq> 0" using 3(3) False by (auto simp: t)
        ultimately show ?thesis
          using write_main_table_ok [of ?g True ni "nmbm_mark_tables_clean
              (m1\<lparr>backup_table_ba := s, mapping_blocks_ba := e\<rparr>)" s]
          by (simp add: t Let_def)
      qed
    qed
    finally show ?thesis .
  qed
qed

section \<open>The update ends\<close>

definition clean :: "'d nmbm_instance \<Rightarrow> bool" where
  "clean ni \<longleftrightarrow> block_state_changed ni = 0 \<and> block_mapping_changed ni = 0"

lemma not_tables_changed: "\<not> tables_changed ni \<longleftrightarrow> clean ni"
  by (simp add: tables_changed_def clean_def)

lemma update_while_changed_ok:
  assumes "lay ni"
  shows "ok (update_while_changed crc ni) (\<lambda>(b, ni').
    lay ni' \<and> tbl (region ni) ni ni' \<and> (if b then clean ni' else protected ni'))"
  using assms
proof (induction "card (bitmap.goods (block_state ni))" arbitrary: ni rule: less_induct)
  case less
  show ?case
  proof (cases "tables_changed ni")
    case False
    then show ?thesis using less.prems
      by (subst update_while_changed.simps) (simp flip: not_tables_changed)
  next
    case True
    let ?g = "bitmap.goods (block_state ni)"
    note once = nmbm_update_info_table_once_ok [OF less.prems, of False crc]
    show ?thesis
    proof (subst update_while_changed.simps, simp only: True if_True, rule ok_bind2 [OF once], goal_cases)
      case 1
      then show ?case using True by simp
    next
      case (2 b m)
      then have L: "lay m" and t: "tbl (region ni) ni m" by (simp_all add: table_post_def mid_def)
      show ?case
      proof (cases b)
        case False
        then show ?thesis using 2 L t by (simp add: table_post_def)
      next
        case b: True
        have "ok (update_while_changed crc m) (\<lambda>(b, ni').
            lay ni' \<and> tbl (region m) m ni' \<and> (if b then clean ni' else protected ni'))"
        proof (cases "tables_changed m")
          case False
          then show ?thesis using L
            by (subst update_while_changed.simps) (simp flip: not_tables_changed)
        next
          case True
          then have "bitmap.goods (block_state m) \<subset> ?g"
            using 2 b by (auto simp: table_post_def mid_def settled_def tables_changed_def)
          then show ?thesis by (intro less.hyps bitmap.goods_strict_card L)
        qed
        then show ?thesis using b
          by (auto simp: tbl_fields(8) [OF t] elim!: ok_mono intro: tbl_trans [OF t])
      qed
    qed
  qed
qed

lemma nmbm_update_info_table_ok:
  assumes "lay ni"
  shows "ok (nmbm_update_info_table crc ni) (\<lambda>(b, ni').
    lay ni' \<and> tbl (region ni) ni ni' \<and> (if b then clean ni' \<or> (protected ni \<and> ni' = ni) else protected ni'))"
proof (cases "protected ni")
  case True
  then show ?thesis using assms by (simp add: nmbm_update_info_table_def)
next
  case False
  then show ?thesis using update_while_changed_ok [OF assms, of crc]
    by (auto simp: nmbm_update_info_table_def elim!: ok_mono)
qed

section \<open>Repairs when attaching\<close>

lemma nmbm_rescue_single_info_table_ok:
  assumes m: "mid g z ni m" and mt: "main_table_ba m \<noteq> 0" and bk: "backup_table_ba m = 0"
  shows "ok (nmbm_rescue_single_info_table m) (\<lambda>(b, ni'). mid g b ni ni')"
proof -
  have L: "lay m" by (rule mid_lay [OF m])
  show ?thesis
    unfolding nmbm_rescue_single_info_table_def Let_def
  proof (rule step_write [OF m], goal_cases)
    case 2
    then show ?case using L mt by (auto simp: lay_def)
  next
    case (3 r m1)
    have L1: "lay m1" by (rule mid_lay [OF 3(1)])
    show ?case
    proof (cases r)
      case (Some t)
      then obtain s e where t: "r = Some (s, e)" by (cases t) simp
      let ?b = "m1\<lparr>backup_table_ba := main_table_ba m1, main_table_ba := s\<rparr>"
      have eq: "?b = m1\<lparr>main_table_ba := s, backup_table_ba := main_table_ba m1\<rparr>" by simp
      have "mid g z ni ?b" unfolding eq
        by (rule mid_set(3) [OF 3(1)])
          (use L1 3(2,3) mt in \<open>auto simp: lay_def same_addrs_def t\<close>)
      then have c: "mid g True ni (nmbm_mark_tables_clean ?b)" by (auto intro: mid_weaken)
      show ?thesis unfolding t option.case prod.case
        by (rule step_erase [OF c])
          (use 3(2,3) L1 mt in \<open>auto simp: same_addrs_def t lay_def\<close>)
    next
      case None
      show ?thesis unfolding None option.case
      proof (rule step_reserve [OF 3(1)], goal_cases)
        case (1 w)
        show ?case
        proof (cases w)
          case None
          then show ?thesis using mid_weaken [OF 3(1)] by simp
        next
          case (Some ba)
          then have ba: "mapping_blocks_ba m1 \<le> ba" using 1 by simp
          show ?thesis unfolding Some option.case
          proof (rule step_rescue [OF 3(1) _ ba], goal_cases)
            case 1
            then show ?case using L1 by (simp add: lay_def)
          next
            case r: (2 r2 m2)
            show ?case
            proof (cases r2)
              case None
              then show ?thesis using mid_weaken [OF r(1)] by simp
            next
              case (Some t)
              then obtain s e where t: "r2 = Some (s, e)" by (cases t) simp
              show ?thesis unfolding t option.case prod.case
              proof (rule step_erase [OF r(1)], goal_cases)
                case 1
                then show ?case using mid_lay [OF r(1)] by (simp add: lay_def)
              next
                case 2
                then show ?case using r(2,3) by (auto simp: same_addrs_def t)
              next
                case d: (3 m3)
                have "mid g z ni (m3\<lparr>backup_table_ba := s, mapping_blocks_ba := e\<rparr>)"
                  by (rule mid_set(6) [OF d(1)])
                    (use mid_lay [OF d(1)] d(2) r(2,3) L1 3(2) mt in \<open>auto simp: lay_def same_addrs_def t\<close>)
                then show ?case by (auto intro: mid_weaken)
              qed
            qed
          qed
        qed
      qed
    qed
  qed simp
qed

lemma nmbm_update_single_info_table_ok:
  assumes m: "mid g z ni m" and mt: "main_table_ba m \<noteq> 0" and bk: "backup_table_ba m \<noteq> 0"
  shows "ok (nmbm_update_single_info_table m upd_main) (\<lambda>(b, ni'). mid g b ni ni')"
proof -
  have L: "lay m" by (rule mid_lay [OF m])
  let ?lo = "if upd_main then main_table_ba m else backup_table_ba m"
  let ?hi = "if upd_main then backup_table_ba m else mapping_blocks_top_ba m"
  have eq: "(if upd_main then (main_table_ba m, backup_table_ba m)
      else (backup_table_ba m, mapping_blocks_top_ba m)) = (?lo, ?hi)" by simp
  show ?thesis
    unfolding nmbm_update_single_info_table_def Let_def eq prod.case
  proof (rule step_write [OF m], goal_cases)
    case 1
    then show ?case using L mt bk by (simp add: lay_def)
  next
    case 2
    then show ?case using L bk by (auto simp: lay_def)
  next
    case (3 r m1)
    have L1: "lay m1" by (rule mid_lay [OF 3(1)])
    show ?case
    proof (cases r)
      case (Some t)
      then obtain s e where t: "r = Some (s, e)" by (cases t) simp
      have "mid g z ni (m1\<lparr>main_table_ba := s\<rparr>)" if "upd_main"
        by (rule mid_set(1) [OF 3(1)])
          (use L1 3(2,3) that mt bk L in \<open>auto simp: lay_def same_addrs_def t\<close>)
      moreover have "mid g z ni (m1\<lparr>backup_table_ba := s, mapping_blocks_ba := e\<rparr>)" if "\<not> upd_main"
        by (rule mid_set(6) [OF 3(1)])
          (use L1 3(2,3) that mt bk L in \<open>auto simp: lay_def same_addrs_def t\<close>)
      ultimately show ?thesis by (auto simp: t intro: mid_weaken)
    next
      case None
      have "mid g z ni (m1\<lparr>main_table_ba := backup_table_ba m1, backup_table_ba := 0\<rparr>)"
        by (rule mid_set(3) [OF 3(1)]) (use L1 3(2) mt bk in \<open>auto simp: lay_def same_addrs_def\<close>)
      note single = nmbm_rescue_single_info_table_ok [OF this]
      have "m1\<lparr>mapping_blocks_ba := backup_table_ba m1, backup_table_ba := 0\<rparr> =
          m1\<lparr>backup_table_ba := 0, mapping_blocks_ba := backup_table_ba m1\<rparr>" by simp
      moreover have "mid g z ni (m1\<lparr>backup_table_ba := 0, mapping_blocks_ba := backup_table_ba m1\<rparr>)"
        by (rule mid_set(6) [OF 3(1)]) (use L1 3(2) mt bk in \<open>auto simp: lay_def same_addrs_def\<close>)
      ultimately have "mid g False ni (m1\<lparr>mapping_blocks_ba := backup_table_ba m1, backup_table_ba := 0\<rparr>)"
        by (metis mid_weaken)
      then show ?thesis using single None 3(2) bk by (auto simp: same_addrs_def)
    qed
  qed
qed

section \<open>Runs that keep what is promised\<close>

text \<open>
  \<open>safe A\<close>: the geometry is untouched, the chip was written, erased or marked only in blocks of
  \<open>A\<close> (nowhere on a read-only device), and the recorded block states only got worse, in \<open>A\<close>.
\<close>

definition safe :: "nat set \<Rightarrow> 'd nmbm_instance \<Rightarrow> 'd nmbm_instance \<Rightarrow> bool" where
  "safe A ni ni' \<longleftrightarrow> static ni' = static ni \<and>
     dev_reach (lower ni) (es_sh ni) (wset ni A) (chip ni) (chip ni') \<and>
     bitmap.worse A (block_state ni) (block_state ni')"

lemma safe_refl [simp]: "safe A ni ni"
  by (simp add: safe_def dev_refl)

lemma safe_static: "safe A ni ni' \<Longrightarrow> static ni' = static ni"
  by (simp add: safe_def)

lemma safe_trans:
  assumes "safe A a b" and "safe A b c"
  shows "safe A a c"
proof -
  have st: "static b = static a" by (rule safe_static [OF assms(1)])
  have "dev_reach (lower a) (es_sh a) (wset a A) (chip b) (chip c)"
    using assms(2) static_fields(1,12) [OF st] wset_static [OF st] by (simp add: safe_def)
  then show ?thesis
    using assms by (auto simp: safe_def intro: dev_reach_trans bitmap.worse_trans)
qed

lemma safe_mono: "safe A a b \<Longrightarrow> A \<subseteq> B \<Longrightarrow> safe B a b"
  unfolding safe_def by (blast intro: dev_reach_mono [OF _ wset_mono] bitmap.worse_mono)

lemma tbl_safe: "tbl A a b \<Longrightarrow> safe A a b"
  by (auto simp: tbl_def safe_def intro: bitmap.degrades_worse)

lemma blk_safe: "blk A a b \<Longrightarrow> safe A a b"
  by (rule tbl_safe) (rule blk_imp_tbl)

lemma safe_wf: "safe A a b \<Longrightarrow> wf b = wf a"
  by (rule wf_static) (rule safe_static)

lemma safe_block_count: "safe A a b \<Longrightarrow> block_count b = block_count a"
  by (rule static_fields(9)) (rule safe_static)

text \<open>A step that leaves the chip and the states alone.\<close>

lemma safe_same:
  "static b = static a \<Longrightarrow> chip b = chip a \<Longrightarrow> block_state b = block_state a \<Longrightarrow> safe A a b"
  by (simp add: safe_def dev_refl)

definition all_blocks :: "'d nmbm_instance \<Rightarrow> nat set" where
  "all_blocks ni = {..<unat (block_count ni)}"

lemma region_subset: "lay ni \<Longrightarrow> region ni \<subseteq> all_blocks ni"
  by (auto simp: lay_def region_def all_blocks_def word_less_nat_alt)

section \<open>Spare blocks\<close>

definition no_good :: "'d nmbm_instance \<Rightarrow> nat \<Rightarrow> nat \<Rightarrow> bool" where
  "no_good ni a b \<longleftrightarrow> (\<forall>i. a < i \<and> i \<le> b \<longrightarrow> bst ni i \<noteq> BLOCK_ST_GOOD)"

lemma count_good_no_good: "count_good ni (Suc a) (Suc b) = 0 \<longleftrightarrow> no_good ni a b"
  by (auto simp: count_good_def no_good_def filter_empty_conv Suc_le_eq less_Suc_eq_le simp del: upt_Suc)

lemma no_good_refl [simp]: "no_good ni a a"
  by (auto simp: no_good_def)

lemma nmbm_map_block_ok:
  assumes "lay ni" and "unat lb < unat (block_count ni)"
  shows "ok (nmbm_map_block crc ni lb) (\<lambda>(b, ni').
     lay ni' \<and> safe (region ni) ni ni' \<and> mgmt_start_ba ni' = mgmt_start_ba ni \<and>
     signature_ba ni' = signature_ba ni \<and> data_block_count ni' = data_block_count ni \<and>
     mapping_blocks_top_ba ni' \<le> mapping_blocks_top_ba ni \<and>
     (if b then \<exists>pb. ni' = ni\<lparr>block_mapping := (block_mapping ni)[unat lb := pb],
            mapping_blocks_top_ba := mapping_blocks_top_ba ni - 1,
            block_mapping_changed := block_mapping_changed ni + 1\<rparr> \<and>
          mapping_blocks_ba ni < pb \<and> pb \<le> mapping_blocks_top_ba ni \<and>
          bst ni (unat pb) = BLOCK_ST_GOOD \<and>
          no_good ni (unat pb) (unat (mapping_blocks_top_ba ni))
      else block_mapping ni' = block_mapping ni \<and>
          no_good ni (unat (mapping_blocks_ba ni)) (unat (mapping_blocks_top_ba ni))))"
proof (cases "mapping_blocks_ba ni = mapping_blocks_top_ba ni")
  case True
  then show ?thesis using assms(1) by (simp add: nmbm_map_block_def)
next
  case False
  have wf: "wf ni" and top_lt: "unat (mapping_blocks_top_ba ni) < unat (block_count ni)"
    using assms(1) by (simp_all add: lay_def word_less_nat_alt)
  have mp: "mapping_blocks_ba ni < mapping_blocks_top_ba ni"
    using assms(1) False by (simp add: lay_def order_less_le)
  have wu: "walk_up_to ni (mapping_blocks_ba ni) = unat (mapping_blocks_ba ni)"
    using mp top_lt by (simp add: walk_up_to_def word_less_nat_alt)
  have "unat (0 :: u32) = 0" "(0::nat) < 2 ^ 31" by simp_all
  from nmbm_block_walk_desc_ok [OF wf this top_lt, of "mapping_blocks_ba ni"]
  obtain r where w: "nmbm_block_walk ni False (mapping_blocks_top_ba ni) 0 (mapping_blocks_ba ni) = Some r"
    and r: "case r of
      None \<Rightarrow> no_good ni (unat (mapping_blocks_ba ni)) (unat (mapping_blocks_top_ba ni))
    | Some nba \<Rightarrow> mapping_blocks_ba ni < nba \<and> nba \<le> mapping_blocks_top_ba ni \<and>
        bst ni (unat nba) = BLOCK_ST_GOOD \<and> no_good ni (unat nba) (unat (mapping_blocks_top_ba ni))"
    by (auto simp: ok_def wu count_good_no_good word_less_nat_alt word_le_nat_alt split: option.splits)
  show ?thesis
  proof (cases r)
    case None
    have "ok (nmbm_update_info_table crc ni) (\<lambda>(b, ni'). lay ni' \<and> tbl (region ni) ni ni')"
      by (rule ok_mono2 [OF nmbm_update_info_table_ok [OF assms(1)]]) simp
    then obtain b n1 where u: "nmbm_update_info_table crc ni = Some (b, n1)" and l: "lay n1"
      and t: "tbl (region ni) ni n1" by (auto simp: ok_def)
    let ?n = "n1\<lparr>mapping_blocks_top_ba := mapping_blocks_ba n1\<rparr>"
    have "lay ?n" using l by (auto simp: lay_def)
    moreover have "safe (region ni) ni ?n"
      by (rule safe_trans [OF tbl_safe [OF t]]) (rule safe_same, simp_all)
    moreover have "mapping_blocks_top_ba ?n \<le> mapping_blocks_top_ba ni"
      using l tbl_fields(2) [OF t] by (simp add: lay_def)
    ultimately show ?thesis
      using False w None r u tbl_fields [OF t] by (simp add: nmbm_map_block_def)
  next
    case (Some pb)
    have st: "store (block_mapping ni) (unat lb) pb = Some ((block_mapping ni)[unat lb := pb])"
      using assms(2) wf by (simp add: store_def wf_def)
    let ?n = "ni\<lparr>block_mapping := (block_mapping ni)[unat lb := pb],
            mapping_blocks_top_ba := mapping_blocks_top_ba ni - 1,
            block_mapping_changed := block_mapping_changed ni + 1\<rparr>"
    have nz: "mapping_blocks_top_ba ni \<noteq> 0" using mp by auto
    have "mapping_blocks_ba ni \<le> mapping_blocks_top_ba ni - 1"
      "mapping_blocks_top_ba ni - 1 \<le> mapping_blocks_top_ba ni"
      using mp nz by (simp_all add: word_le_nat_alt word_less_nat_alt)
    moreover from this have "lay ?n" using assms(1) by (auto simp: lay_def fits_def)
    moreover have "safe (region ni) ni ?n" by (rule safe_same) simp_all
    ultimately show ?thesis
      using False w Some r st by (auto simp: nmbm_map_block_def)
  qed
qed

definition mapped :: "'d nmbm_instance \<Rightarrow> bool" where
  "mapped ni \<longleftrightarrow> (\<forall>pb \<in> set (block_mapping ni). is_neg32 pb \<or> pb < block_count ni)"

lemma mapped_upd: "mapped ni \<Longrightarrow> is_neg32 pb \<or> pb < block_count ni \<Longrightarrow>
  pb' \<in> set ((block_mapping ni)[i := pb]) \<Longrightarrow> is_neg32 pb' \<or> pb' < block_count ni"
  using set_update_subset_insert [of "block_mapping ni" i pb] by (auto simp: mapped_def)

lemma remap_end_ok:
  assumes "lay ni" and "mapped ni" and "unat mgmt \<le> unat (block_count ni)" and "region ni \<subseteq> A"
  shows "ok (remap_end crc ni lb mgmt) (\<lambda>ni'. lay ni' \<and> mapped ni' \<and> safe A ni ni' \<and> region ni' \<subseteq> A \<and>
    signature_ba ni' = signature_ba ni \<and>
    (data_block_count ni = lb \<and> lb \<le> mgmt \<longrightarrow> data_block_count ni' \<le> mgmt))"
  using assms
proof (induction crc ni lb mgmt rule: remap_end.induct)
  case (1 crc ni lb mgmt)
  show ?case
  proof (cases "lb < mgmt")
    case False
    then show ?thesis using 1(2-5) by (subst remap_end.simps) simp
  next
    case True
    have lb: "unat lb < unat (block_count ni)" using True 1(4) by (simp add: word_less_nat_alt)
    obtain b n1 where m: "nmbm_map_block crc ni lb = Some (b, n1)"
      and P: "lay n1 \<and> safe (region ni) ni n1 \<and> mgmt_start_ba n1 = mgmt_start_ba ni \<and>
       signature_ba n1 = signature_ba ni \<and> data_block_count n1 = data_block_count ni \<and>
       mapping_blocks_top_ba n1 \<le> mapping_blocks_top_ba ni"
      and bm: "if b then \<exists>pb. block_mapping n1 = (block_mapping ni)[unat lb := pb] \<and>
          pb \<le> mapping_blocks_top_ba ni else block_mapping n1 = block_mapping ni"
    proof (rule okE [OF nmbm_map_block_ok [OF 1(2) lb, of crc]], goal_cases)
      case (1 x)
      obtain b n1 where x: "x = (b, n1)" by (cases x)
      show ?case
      proof (rule 1(1) [of b n1])
        show "if b then \<exists>pb. block_mapping n1 = (block_mapping ni)[unat lb := pb] \<and>
            pb \<le> mapping_blocks_top_ba ni else block_mapping n1 = block_mapping ni"
        proof (cases b)
          case True
          then obtain pb where "n1 = ni\<lparr>block_mapping := (block_mapping ni)[unat lb := pb],
            mapping_blocks_top_ba := mapping_blocks_top_ba ni - 1,
            block_mapping_changed := block_mapping_changed ni + 1\<rparr>" "pb \<le> mapping_blocks_top_ba ni"
            using 1(3) by (auto simp: x)
          then have "block_mapping n1 = (block_mapping ni)[unat lb := pb] \<and> pb \<le> mapping_blocks_top_ba ni"
            by simp
          then show ?thesis using True by auto
        qed (use 1(3) in \<open>simp add: x\<close>)
      qed (use 1(2,3) in \<open>simp_all add: x\<close>)
    qed
    have l: "lay n1" and s: "safe (region ni) ni n1" and mg: "mgmt_start_ba n1 = mgmt_start_ba ni"
      and sg: "signature_ba n1 = signature_ba ni" and dc: "data_block_count n1 = data_block_count ni"
      and tp: "mapping_blocks_top_ba n1 \<le> mapping_blocks_top_ba ni" using P by simp_all
    have bc: "block_count n1 = block_count ni" by (rule safe_block_count [OF s])
    have rg: "region n1 \<subseteq> A" using 1(5) mg tp by (auto simp: region_def word_le_nat_alt)
    have sA: "safe A ni n1" by (rule safe_mono [OF s 1(5)])
    have mp: "mapped n1"
    proof (cases b)
      case True
      then obtain pb where pb: "block_mapping n1 = (block_mapping ni)[unat lb := pb]"
        "pb \<le> mapping_blocks_top_ba ni" using bm by auto
      then have "pb < block_count ni" using 1(2) by (auto simp: lay_def)
      then show ?thesis using mapped_upd [OF 1(3)] pb(1) bc by (auto simp: mapped_def)
    qed (use 1(3) bm bc in \<open>simp add: mapped_def\<close>)
    show ?thesis
    proof (cases b)
      case False
      then show ?thesis using True m l mp sA rg sg dc by (subst remap_end.simps) simp
    next
      case b: True
      let ?n = "n1\<lparr>data_block_count := data_block_count n1 + 1\<rparr>"
      have "ok (remap_end crc ?n (lb + 1) mgmt) (\<lambda>ni'. lay ni' \<and> mapped ni' \<and> safe A ?n ni' \<and>
          region ni' \<subseteq> A \<and> signature_ba ni' = signature_ba ?n \<and>
          (data_block_count ?n = lb + 1 \<and> lb + 1 \<le> mgmt \<longrightarrow> data_block_count ni' \<le> mgmt))"
        by (rule 1(1) [OF True m refl]) (use b l mp rg bc 1(4) in \<open>auto simp: lay_def mapped_def region_def\<close>)
      moreover have "safe A n1 ?n" by (rule safe_same) simp_all
      moreover have "lb + 1 \<le> mgmt" using True by (rule succ_le_of_less)
      ultimately show ?thesis
        using True m b sg dc
        by (subst remap_end.simps) (auto elim!: ok_mono intro: safe_trans [OF sA] safe_trans)
    qed
  qed
qed

text \<open>Before the tables exist: the sizes fit and the signature block bounds the management area.\<close>

definition fresh :: "'d nmbm_instance \<Rightarrow> bool" where
  "fresh ni \<longleftrightarrow> wf ni \<and> fits ni \<and> mapped ni \<and> 0 < mgmt_start_ba ni \<and>
     mgmt_start_ba ni < block_count ni \<and> signature_ba ni < block_count ni \<and>
     data_block_count ni \<le> mgmt_start_ba ni"

lemma nmbm_create_info_table_ok:
  assumes "fresh ni"
  shows "ok (nmbm_create_info_table crc ni) (\<lambda>(b, ni').
     safe {unat (mgmt_start_ba ni)..<unat (signature_ba ni)} ni ni' \<and>
     (b \<longrightarrow> lay ni' \<and> mapped ni' \<and> (clean ni' \<or> protected ni') \<and> data_block_count ni' \<le> block_count ni'))"
proof -
  have wf: "wf ni" and fits: "fits ni" and mp: "mapped ni" and mg: "0 < mgmt_start_ba ni"
    "mgmt_start_ba ni < block_count ni" and sg: "signature_ba ni < block_count ni"
    and db: "data_block_count ni \<le> mgmt_start_ba ni"
    using assms by (simp_all add: fresh_def)
  have sgn: "unat (signature_ba ni) < unat (block_count ni)" using sg by (simp add: word_less_nat_alt)
  have wu: "walk_up_to ni (mgmt_start_ba ni) = unat (mgmt_start_ba ni)"
    using mg by (simp add: walk_up_to_def word_less_nat_alt)
  have "unat (1 :: u32) = 1" "(1::nat) < 2 ^ 31" by simp_all
  from nmbm_block_walk_desc_ok [OF wf this sgn, of "mgmt_start_ba ni"]
  obtain r where w: "nmbm_block_walk ni False (signature_ba ni) 1 (mgmt_start_ba ni) = Some r"
    and r: "\<And>t. r = Some t \<Longrightarrow> mgmt_start_ba ni < t \<and> t \<le> signature_ba ni"
    by (auto simp: ok_def wu word_less_nat_alt word_le_nat_alt split: option.splits)
  show ?thesis
  proof (cases r)
    case None
    then show ?thesis by (simp add: nmbm_create_info_table_def w)
  next
    case (Some t)
    then have t: "mgmt_start_ba ni < t" "t \<le> signature_ba ni" using r by simp_all
    let ?A = "{unat (mgmt_start_ba ni)..<unat (signature_ba ni)}"
    let ?a = "ni\<lparr>mapping_blocks_top_ba := t\<rparr>"
    have wfa: "wf ?a" and fa: "fits ?a" using wf fits by simp_all
    obtain c where gen: "nmbm_generate_info_table_cache crc ?a =
        Some (tables_changed ?a, ?a\<lparr>info_table_cache := c, info_table := next_info_table ?a\<rparr>)"
      and len: "length c = length (info_table_cache ?a)"
      by (rule nmbm_generate_info_table_cache_eq [OF wfa fa])
    let ?b = "?a\<lparr>info_table_cache := c, info_table := next_info_table ?a\<rparr>"
    let ?c = "?b\<lparr>main_table_ba := 0, backup_table_ba := 0, mapping_blocks_ba := mapping_blocks_top_ba ?b\<rparr>"
    let ?g = "bitmap.goods (block_state ni)"
    have st: "static ?c = static ni" using len by (simp add: static_def)
    have fit: "fits ?b = fits ?a" by (simp add: fits_def next_info_table_def)
    have "mgmt_start_ba ni \<le> t" "t < block_count ni" using t sg by auto
    then have lc: "lay ?c" using mg(1) wf fits len
      by (simp add: lay_def wf_static [OF st]) (simp add: fits_def next_info_table_def)
    have "mid ?g False ?c ?c" using lc by (simp add: mid_def)
    from rebuild_from [OF this]
    obtain b n1 where rb: "nmbm_rebuild_info_table ?b = Some (b, n1)"
      and p: "table_post ?g ?c b n1" by (auto simp: ok_def)
    have l1: "lay n1" and t1: "tbl (region ?c) ?c n1" using p by (auto simp: table_post_def mid_def)
    have rg: "region ?c \<subseteq> ?A" using t by (auto simp: region_def word_le_nat_alt)
    have s1: "safe ?A ni n1"
      by (rule safe_trans [OF safe_same [OF st] safe_mono [OF tbl_safe [OF t1] rg]]) simp_all
    have rg1: "region n1 \<subseteq> ?A" using tbl_fields(8) [OF t1] rg by simp
    have mp1: "mapped n1" using mp tbl_fields(5,7) [OF t1] by (simp add: mapped_def)
    show ?thesis
    proof (cases b)
      case False
      then show ?thesis using w Some gen rb s1 by (simp add: nmbm_create_info_table_def)
    next
      case True
      have "unat (mgmt_start_ba n1) \<le> unat (block_count n1)"
        using l1 by (auto simp: lay_def word_le_nat_alt word_less_nat_alt)
      from remap_end_ok [OF l1 mp1 this rg1, of crc "data_block_count n1"]
      obtain n2 where re: "remap_end crc n1 (data_block_count n1) (mgmt_start_ba n1) = Some n2"
        and l2: "lay n2" and mp2: "mapped n2" and s2: "safe ?A n1 n2" and rg2: "region n2 \<subseteq> ?A"
        and d2: "data_block_count n1 \<le> mgmt_start_ba n1 \<longrightarrow> data_block_count n2 \<le> mgmt_start_ba n1"
        by (auto simp: ok_def)
      have "data_block_count n1 = data_block_count ni" "mgmt_start_ba n1 = mgmt_start_ba ni"
        using tbl_fields [OF t1] by simp_all
      then have d2': "data_block_count n2 \<le> block_count ni" using d2 db mg(2) by simp

      have "ok (nmbm_update_info_table crc n2) (\<lambda>(b, ni').
         safe ?A ni ni' \<and> (b \<longrightarrow> lay ni' \<and> mapped ni' \<and> (clean ni' \<or> protected ni') \<and>
           data_block_count ni' \<le> block_count ni'))"
      proof (rule ok_mono2 [OF nmbm_update_info_table_ok [OF l2]], goal_cases)
        case (1 b ni')
        then have t: "tbl (region n2) n2 ni'" by blast
        have "safe ?A ni ni'"
          by (rule safe_trans [OF s1 safe_trans [OF s2 safe_mono [OF tbl_safe [OF t] rg2]]])
        moreover have "mapped ni'" using mp2 tbl_fields(5,7) [OF t] by (simp add: mapped_def)
        moreover have "data_block_count ni' \<le> block_count ni'"
          using d2' tbl_fields [OF t] safe_block_count [OF \<open>safe ?A ni ni'\<close>] by simp
        ultimately show ?case using 1 by auto
      qed
      then obtain b' n3 where up: "nmbm_update_info_table crc n2 = Some (b', n3)"
        and Q: "safe ?A ni n3 \<and> (b' \<longrightarrow> lay n3 \<and> mapped n3 \<and> (clean n3 \<or> protected n3) \<and>
          data_block_count n3 \<le> block_count n3)"
        by (auto simp: ok_def)
      show ?thesis using w Some gen rb True re up Q by (simp add: nmbm_create_info_table_def)
    qed
  qed
qed

end
