(* ===== verification/Nmbm_Attach.thy ===== *)
theory Nmbm_Attach
  imports Nmbm_Tables
begin

text \<open>
  Attaching: validation of the lower device, sizes and buffers of the instance, the search for
  the signature, the creation of the tables on a new chip and their recovery from a used one.
\<close>

definition NMBM_MGMT_DIV :: u32 where "NMBM_MGMT_DIV = 16"
definition NMBM_MGMT_BLOCKS_MIN :: u32 where "NMBM_MGMT_BLOCKS_MIN = 32"
definition NMBM_DEFAULT_LOG_LEVEL :: nmbm_log_category where "NMBM_DEFAULT_LOG_LEVEL = NMBM_LOG_INFO"

definition NMBM_VERSION_MAJOR_GET :: "u32 \<Rightarrow> u32" where
  "NMBM_VERSION_MAJOR_GET ver = ver AND 0xffff"

definition NMBM_VERSION_MINOR_GET :: "u32 \<Rightarrow> u32" where
  "NMBM_VERSION_MINOR_GET ver = drop_bit 16 ver AND 0xffff"

section \<open>A new chip\<close>

definition nmbm_create_new :: "crc_fun \<Rightarrow> 'd nmbm_instance \<Rightarrow> (bool \<times> 'd nmbm_instance) option" where
  "nmbm_create_new crc ni = do {
     let ni = ni\<lparr>mgmt_start_ba :=
         block_count ni * (NMBM_MGMT_DIV - max_ratio (lower ni)) div NMBM_MGMT_DIV\<rparr>;
     let ni = (if max_reserved_blocks (lower ni) \<noteq> 0 \<and>
           block_count ni - mgmt_start_ba ni > max_reserved_blocks (lower ni)
         then ni\<lparr>mgmt_start_ba := block_count ni - max_reserved_blocks (lower ni)\<rparr> else ni);
     ni \<leftarrow> nmbm_scan_badblocks ni;
     ni \<leftarrow> nmbm_build_mapping_table ni;
     let sig = (signature ni)\<lparr>sig_header := (sig_header (signature ni))\<lparr>
           hdr_magic := NMBM_MAGIC_SIGNATURE, hdr_version := NMBM_VER, hdr_size := 48\<rparr>,
         nand_size := chip_size (lower ni), block_size := erasesize (lower ni),
         page_size := writesize (lower ni), spare_size := oobsize (lower ni),
         mgmt_start_pb := mgmt_start_ba ni, max_try_count := of_nat NMBM_TRY_COUNT\<rparr>;
     b \<leftarrow> nmbm_update_checksum crc (sig_bytes sig);
     let ni = ni\<lparr>signature := sig_of b\<rparr>;
     if has_flag ni NMBM_F_READ_ONLY then Some (True, ni)
     else do {
       (r, ni) \<leftarrow> nmbm_write_signature ni (mgmt_start_ba ni) (signature ni);
       case r of
         None \<Rightarrow> Some (False, ni)
       | Some sba \<Rightarrow> nmbm_create_info_table crc (ni\<lparr>signature_ba := sba\<rparr>) } }"

section \<open>Validation of an info table\<close>

definition nmbm_check_info_table_header :: "'d nmbm_instance \<Rightarrow> bytes \<Rightarrow> bool option" where
  "nmbm_check_info_table_header ni dat = do {
     hd \<leftarrow> slice dat 0 32;
     let h = ift_of hd;
     Some (hdr_magic (ift_header h) = NMBM_MAGIC_INFO_TABLE \<and>
       hdr_size (ift_header h) = info_table_size ni \<and>
       \<not> mapping_table_off h - state_table_off h < state_table_size ni \<and>
       \<not> info_table_size ni - mapping_table_off h < mapping_table_size ni) }"

text \<open>
  The mapping entries are signed in the code, but every comparison is with an unsigned value.
  The loop returns the lowest block above the tables that is mapped, or fails.
\<close>

function check_mappings ::
    "'d nmbm_instance \<Rightarrow> u32 list \<Rightarrow> u32 \<Rightarrow> u32 \<Rightarrow> u32 \<Rightarrow> u32 \<Rightarrow> u32 option option" where
  "check_mappings ni mp ba n end_ba minimum_mapping_pb =
     (if ba < n then do {
        pb \<leftarrow> load mp (unat ba);
        if (pb \<ge> data_block_count ni \<and> pb < end_ba) \<or> pb = signature_ba ni then Some None
        else check_mappings ni mp (ba + 1) n end_ba
               (if pb \<ge> end_ba \<and> pb < minimum_mapping_pb then pb else minimum_mapping_pb) }
      else Some (Some minimum_mapping_pb))"
  by pat_completeness auto
termination
  by (relation "measure (\<lambda>(ni, mp, ba, n, end_ba, m). unat n - unat ba)") (auto simp: word_less_nat_alt)

function check_states :: "'d nmbm_instance \<Rightarrow> u32 list \<Rightarrow> u32 \<Rightarrow> u32 \<Rightarrow> bool option" where
  "check_states ni bs ba end_ba =
     (if ba < end_ba then do {
        st \<leftarrow> nmbm_get_block_state ni ba;
        if st \<noteq> BLOCK_ST_GOOD then check_states ni bs (ba + 1) end_ba
        else do {
          st \<leftarrow> nmbm_get_block_state_raw bs ba;
          if st \<noteq> BLOCK_ST_GOOD then Some False else check_states ni bs (ba + 1) end_ba } }
      else Some True)"
  by pat_completeness auto
termination
  by (relation "measure (\<lambda>(ni, bs, ba, end_ba). unat end_ba - unat ba)") (auto simp: word_less_nat_alt)

declare check_mappings.simps [simp del] check_states.simps [simp del]

definition nmbm_check_info_table ::
    "'d nmbm_instance \<Rightarrow> u32 \<Rightarrow> u32 \<Rightarrow> bytes \<Rightarrow> u32 option option" where
  "nmbm_check_info_table ni start_ba end_ba dat = do {
     hd \<leftarrow> slice dat 0 32;
     let h = ift_of hd;
     m \<leftarrow> check_mappings ni (bytes_to_words (drop (unat (mapping_table_off h)) dat)) 0
        (data_block_count ni) end_ba (signature_ba ni);
     case m of
       None \<Rightarrow> Some None
     | Some minimum_mapping_pb \<Rightarrow> do {
         good \<leftarrow> check_states ni (bytes_to_words (drop (unat (state_table_off h)) dat)) start_ba end_ba;
         Some (if good then Some (minimum_mapping_pb - 1) else None) } }"

text \<open>A header with the right magic and size passes when its tables lie one behind the other and fit.\<close>

lemma check_table_header_ok:
  assumes "hdr_magic (ift_header (ift_of dat)) = NMBM_MAGIC_INFO_TABLE"
    and "hdr_size (ift_header (ift_of dat)) = info_table_size ni"
    and "unat (state_table_off (ift_of dat)) + unat (state_table_size ni) \<le> unat (mapping_table_off (ift_of dat))"
    and "unat (mapping_table_off (ift_of dat)) + unat (mapping_table_size ni) \<le> unat (info_table_size ni)"
    and "32 \<le> length dat"
  shows "nmbm_check_info_table_header ni dat = Some True"
proof -
  have "unat (mapping_table_off (ift_of dat) - state_table_off (ift_of dat)) =
      unat (mapping_table_off (ift_of dat)) - unat (state_table_off (ift_of dat))"
    by (rule unat_sub_le) (use assms(3) in \<open>simp add: word_le_nat_alt\<close>)
  moreover have "unat (info_table_size ni - mapping_table_off (ift_of dat)) =
      unat (info_table_size ni) - unat (mapping_table_off (ift_of dat))"
    by (rule unat_sub_le) (use assms(4) in \<open>simp add: word_le_nat_alt\<close>)
  ultimately show ?thesis
    using assms unfolding nmbm_check_info_table_header_def
    by (simp add: slice_def ift_of_take word_less_nat_alt Let_def, linarith)
qed

section \<open>Loading\<close>

text \<open>
  The loop of nmbm_try_load_info_table: \<open>Some (start_ba, ba)\<close> when the whole table has been
  read into the cache, \<open>None\<close> for a return of \<open>false\<close> or a shortfall.
\<close>

function try_load_loop ::
    "'d nmbm_instance \<Rightarrow> u32 \<Rightarrow> u32 \<Rightarrow> nat \<Rightarrow> nat \<Rightarrow> u32 \<Rightarrow> bool \<Rightarrow>
     ((u32 \<times> u32) option \<times> 'd nmbm_instance) option" where
  "try_load_loop ni ba limit off sizeremain start_ba checkhdr =
     (if sizeremain \<noteq> 0 \<and> ba < limit then do {
        st \<leftarrow> nmbm_get_block_state ni ba;
        if st \<noteq> BLOCK_ST_GOOD then try_load_loop ni (ba + 1) limit off sizeremain start_ba checkhdr
        else do {
          (bad, ni) \<leftarrow> nmbm_check_bad_phys_block ni ba;
          if bad then do {
            (_, ni) \<leftarrow> nmbm_set_block_state ni ba BLOCK_ST_BAD;
            try_load_loop ni (ba + 1) limit off sizeremain start_ba checkhdr }
          else do {
            let chunksize = min sizeremain (unat (erasesize (lower ni)));
            buf \<leftarrow> slice (info_table_cache ni) off chunksize;
            (ret, dat, ni) \<leftarrow> nmbn_read_data ni (ba2addr ni ba) buf;
            cache \<leftarrow> blit (info_table_cache ni) off dat;
            let ni = ni\<lparr>info_table_cache := cache\<rparr>;
            if ret < 0 then do {
              (_, ni) \<leftarrow> nmbm_set_block_state ni ba BLOCK_ST_BAD;
              try_load_loop ni (ba + 1) limit off sizeremain start_ba checkhdr }
            else if ret > 0 then Some (None, ni)
            else do {
              success \<leftarrow> (if checkhdr
                then nmbm_check_info_table_header ni (drop off (info_table_cache ni)) else Some True);
              if \<not> success then Some (None, ni)
              else try_load_loop ni (ba + 1) limit (off + chunksize) (sizeremain - chunksize)
                     (if checkhdr then ba else start_ba) False } } } }
      else if sizeremain \<noteq> 0 then Some (None, ni)
      else Some (Some (start_ba, ba), ni))"
  by pat_completeness auto
termination
  by (relation "measure (\<lambda>(ni, ba, limit, off, sizeremain, start_ba, checkhdr). unat limit - unat ba)")
    (auto simp: word_less_nat_alt)

declare try_load_loop.simps [simp del]

text \<open>The result is the out parameters: end of the table, its write count, its top spare block.\<close>

definition nmbm_try_load_info_table ::
    "crc_fun \<Rightarrow> 'd nmbm_instance \<Rightarrow> u32 \<Rightarrow> bool \<Rightarrow>
     ((u32 \<times> u32 \<times> u32) option \<times> 'd nmbm_instance) option" where
  "nmbm_try_load_info_table crc ni ba table_loaded = do {
     let limit = ba + size2blk ni (ucast (info_table_size ni));
     (r, ni) \<leftarrow> try_load_loop ni ba limit 0 (unat (info_table_size ni)) 0 True;
     case r of
       None \<Rightarrow> Some (None, ni)
     | Some (start_ba, eba) \<Rightarrow> do {
         success \<leftarrow> nmbm_check_header crc (info_table_cache ni) (info_table_size ni);
         if \<not> success then Some (None, ni)
         else do {
           hd \<leftarrow> slice (info_table_cache ni) 0 32;
           let ifthdr = ift_of hd;
           m \<leftarrow> nmbm_check_info_table ni start_ba eba (info_table_cache ni);
           case m of
             None \<Rightarrow> Some (None, ni)
           | Some top_ba \<Rightarrow>
               if \<not> table_loaded \<or> write_count ifthdr > write_count (info_table ni) then do {
                 st \<leftarrow> slice (info_table_cache ni) (unat (state_table_off ifthdr)) (unat (state_table_size ni));
                 mp \<leftarrow> slice (info_table_cache ni) (unat (mapping_table_off ifthdr)) (unat (mapping_table_size ni));
                 Some (Some (eba, write_count ifthdr, top_ba),
                   ni\<lparr>info_table := ifthdr, block_state := bytes_to_words st,
                      block_mapping := bytes_to_words mp\<rparr>) }
               else Some (Some (eba, write_count ifthdr, top_ba), ni) } } }"

text \<open>
  \<open>bound\<close> is \<open>limit - size2blk(info_table_size)\<close>, which the loop recomputes from fields it does
  not change. A hit adds the block where the search stood.
\<close>

function search_loop ::
    "crc_fun \<Rightarrow> 'd nmbm_instance \<Rightarrow> u32 \<Rightarrow> u32 \<Rightarrow> bool \<Rightarrow>
     ((u32 \<times> u32 \<times> u32 \<times> u32) option \<times> 'd nmbm_instance) option" where
  "search_loop crc ni ba bound table_loaded =
     (if ba < bound then do {
        (r, ni) \<leftarrow> nmbm_try_load_info_table crc ni ba table_loaded;
        case r of
          Some (eba, wc, top_ba) \<Rightarrow> Some (Some (ba, eba, wc, top_ba), ni)
        | None \<Rightarrow> search_loop crc ni (ba + 1) bound table_loaded }
      else Some (None, ni))"
  by pat_completeness auto
termination
  by (relation "measure (\<lambda>(crc, ni, ba, bound, l). unat bound - unat ba)") (auto simp: word_less_nat_alt)

declare search_loop.simps [simp del]

definition nmbm_search_info_table ::
    "crc_fun \<Rightarrow> 'd nmbm_instance \<Rightarrow> u32 \<Rightarrow> u32 \<Rightarrow> bool \<Rightarrow>
     ((u32 \<times> u32 \<times> u32 \<times> u32) option \<times> 'd nmbm_instance) option" where
  "nmbm_search_info_table crc ni ba limit table_loaded =
     search_loop crc ni ba (limit - size2blk ni (ucast (info_table_size ni))) table_loaded"

text \<open>The last logic block below \<open>i\<close> with a mapping decides the number of data blocks.\<close>

function last_mapped :: "u32 list \<Rightarrow> u32 \<Rightarrow> u32 option option" where
  "last_mapped mp i =
     (if i > 0 then do {
        pb \<leftarrow> load mp (unat (i - 1));
        if \<not> is_neg32 pb then Some (Some i) else last_mapped mp (i - 1) }
      else Some None)"
  by pat_completeness auto
termination
  by (relation "measure (\<lambda>(mp, i). unat i)") (auto simp: unat_gt_0 word_gt_0)

declare last_mapped.simps [simp del]

definition nmbm_load_info_table ::
    "crc_fun \<Rightarrow> 'd nmbm_instance \<Rightarrow> u32 \<Rightarrow> u32 \<Rightarrow> (bool \<times> 'd nmbm_instance) option" where
  "nmbm_load_info_table crc ni ba limit = do {
     let ni = ni\<lparr>main_table_ba := 0, backup_table_ba := 0,
         info_table := (info_table ni)\<lparr>write_count := 0\<rparr>,
         mapping_blocks_top_ba := signature_ba ni - 1,
         data_block_count := mgmt_start_pb (signature ni)\<rparr>;
     (r, ni) \<leftarrow> nmbm_search_info_table crc ni ba limit False;
     case r of
       None \<Rightarrow> Some (False, ni)
     | Some (main_ba, main_table_end_ba, main_wc, main_top_ba) \<Rightarrow> do {
         let ni = ni\<lparr>main_table_ba := main_ba\<rparr>;
         (r, ni) \<leftarrow> nmbm_search_info_table crc ni main_table_end_ba limit True;
         let (ni, table_end_ba, backup_wc, backup_top_ba) =
           (case r of
              None \<Rightarrow> (ni, main_table_end_ba, 0, 0)
            | Some (backup_ba, backup_table_end_ba, wc, top_ba) \<Rightarrow>
                (ni\<lparr>backup_table_ba := backup_ba\<rparr>, backup_table_end_ba, wc, top_ba));
         let ni = ni\<lparr>mapping_blocks_top_ba :=
             (if backup_table_ba ni = 0 then main_top_ba
              else if main_wc \<ge> backup_wc then main_top_ba else backup_top_ba)\<rparr>;
         let ni = ni\<lparr>mapping_blocks_ba := table_end_ba\<rparr>;
         i \<leftarrow> last_mapped (block_mapping ni) (mgmt_start_pb (signature ni));
         let ni = (case i of None \<Rightarrow> ni | Some i \<Rightarrow> ni\<lparr>data_block_count := i\<rparr>);
         (_, ni) \<leftarrow> nmbm_generate_info_table_cache crc ni;
         if has_flag ni NMBM_F_READ_ONLY then Some (True, ni)
         else do {
           (success, ni) \<leftarrow>
             (if backup_table_ba ni = 0 then nmbm_rescue_single_info_table ni
              else if main_wc \<noteq> backup_wc
              then nmbm_update_single_info_table
                     (ni\<lparr>block_state_changed := 1, block_mapping_changed := 1\<rparr>) (main_wc < backup_wc)
              else Some (True, ni));
           let ni = (if mapping_blocks_ba ni = mapping_blocks_top_ba ni then ni\<lparr>protected := True\<rparr>
             else if \<not> success then ni\<lparr>protected := True\<rparr> else ni);
           Some (True, ni) } } }"

definition nmbm_load_existing :: "crc_fun \<Rightarrow> 'd nmbm_instance \<Rightarrow> (bool \<times> 'd nmbm_instance) option" where
  "nmbm_load_existing crc ni = do {
     let ni = ni\<lparr>mgmt_start_ba := mgmt_start_pb (signature ni)\<rparr>;
     (success, ni) \<leftarrow> nmbm_load_info_table crc ni (mgmt_start_ba ni) (signature_ba ni);
     if success then Some (True, ni)
     else if \<not> has_flag ni NMBM_F_CREATE then Some (False, ni)
     else do {
       ni \<leftarrow> nmbm_scan_badblocks ni;
       ni \<leftarrow> nmbm_build_mapping_table ni;
       if has_flag ni NMBM_F_READ_ONLY then Some (True, ni)
       else nmbm_create_info_table crc ni } }"

section \<open>Finding the signature\<close>

text \<open>
  The pages of a candidate block. \<open>sig\<close> is the buffer on the stack; its contents count only
  after a successful read has filled it.
\<close>

fun signature_pages ::
    "crc_fun \<Rightarrow> 'd nmbm_instance \<Rightarrow> u64 \<Rightarrow> u64 list \<Rightarrow> bytes \<Rightarrow>
     (nmbm_signature option \<times> bytes \<times> 'd nmbm_instance) option" where
  "signature_pages crc ni addr [] sig = Some (None, sig, ni)"
| "signature_pages crc ni addr (off # offs) sig = do {
     (ret, sig, ni) \<leftarrow> nmbn_read_data ni (addr + off) sig;
     if ret \<noteq> 0 then signature_pages crc ni addr offs sig
     else do {
       success \<leftarrow> nmbm_check_header crc sig 48;
       if \<not> success then signature_pages crc ni addr offs sig
       else if hdr_magic (header_of sig) = NMBM_MAGIC_SIGNATURE then Some (Some (sig_of sig), sig, ni)
       else signature_pages crc ni addr offs sig } }"

text \<open>The loop \<open>while (ba >= limit) { ba--; ... }\<close>; the decrement may pass 0.\<close>

partial_function (option) find_loop ::
    "crc_fun \<Rightarrow> 'd nmbm_instance \<Rightarrow> u32 \<Rightarrow> u32 \<Rightarrow> bytes \<Rightarrow>
     ((nmbm_signature \<times> u32) option \<times> 'd nmbm_instance) option" where
  "find_loop crc ni ba limit sig =
     (if ba \<ge> limit then
        Option.bind (nmbm_check_bad_phys_block ni (ba - 1)) (\<lambda>(bad, ni).
          if bad then find_loop crc ni (ba - 1) limit sig
          else Option.bind (signature_pages crc ni (ba2addr ni (ba - 1))
                 (page_offs 0 (erasesize (lower ni)) (writesize (lower ni))) sig) (\<lambda>(r, sig, ni).
            case r of
              Some s \<Rightarrow> Some (Some (s, ba - 1), ni)
            | None \<Rightarrow> find_loop crc ni (ba - 1) limit sig))
      else Some (None, ni))"

definition find_limit :: "'d nmbm_lower_device \<Rightarrow> u32 \<Rightarrow> u32" where
  "find_limit nld bc =
     (let limit = (bc div NMBM_MGMT_DIV) * (NMBM_MGMT_DIV - max_ratio nld)
      in if max_reserved_blocks nld \<noteq> 0 \<and> bc - limit > max_reserved_blocks nld
         then bc - max_reserved_blocks nld else limit)"

definition nmbm_find_signature ::
    "crc_fun \<Rightarrow> 'd nmbm_instance \<Rightarrow> ((nmbm_signature \<times> u32) option \<times> 'd nmbm_instance) option" where
  "nmbm_find_signature crc ni =
     (let bc = ucast (drop_bit (unat (erasesize_shift ni)) (chip_size (lower ni)))
      in find_loop crc ni bc (find_limit (lower ni) bc) (replicate 48 0))"

section \<open>Validation and sizes\<close>

definition is_power_of_2_u64 :: "u64 \<Rightarrow> bool" where
  "is_power_of_2_u64 n \<longleftrightarrow> n \<noteq> 0 \<and> n AND (n - 1) = 0"

text \<open>The kernel's \<open>is_power_of_2\<close> and \<open>ffs\<close>.\<close>

definition is_power_of_2 :: "u32 \<Rightarrow> bool" where
  "is_power_of_2 n \<longleftrightarrow> n \<noteq> 0 \<and> n AND (n - 1) = 0"

definition ffs :: "u32 \<Rightarrow> nat" where
  "ffs w = (case find (\<lambda>i. bit w i) [0..<32] of None \<Rightarrow> 0 | Some i \<Rightarrow> Suc i)"

definition nmbm_check_lower_members :: "'d nmbm_lower_device \<Rightarrow> bool \<times> 'd nmbm_lower_device" where
  "nmbm_check_lower_members nld =
     (if chip_size nld = 0 \<or> \<not> is_power_of_2_u64 (chip_size nld) then (False, nld)
      else if erasesize nld = 0 \<or> \<not> is_power_of_2 (erasesize nld) then (False, nld)
      else if writesize nld = 0 \<or> \<not> is_power_of_2 (writesize nld) then (False, nld)
      else if oobsize nld = 0 then (False, nld)
      else if read_page nld = None then (False, nld)
      else if flags nld AND NMBM_F_READ_ONLY = 0 \<and> (write_page nld = None \<or> erase_block nld = None)
      then (False, nld)
      else
        (let nld = (if max_ratio nld = 0 then nld\<lparr>max_ratio := 1\<rparr> else nld) in
         if max_ratio nld \<ge> NMBM_MGMT_DIV - 1 then (False, nld)
         else if max_reserved_blocks nld \<noteq> 0 \<and> max_reserved_blocks nld < NMBM_MGMT_BLOCKS_MIN
         then (False, nld)
         else (True, nld)))"

definition nmbm_lldiv :: "u64 \<Rightarrow> u32 \<Rightarrow> u32 option" where
  "nmbm_lldiv dividend divisor =
     (if divisor = 0 then None else Some (ucast (dividend div ucast divisor)))"

text \<open>\<open>sizeof_ni\<close> is the compiler's size of the instance structure.\<close>

definition nmbm_calc_structure_size :: "u64 \<Rightarrow> 'd nmbm_lower_device \<Rightarrow> u64 option" where
  "nmbm_calc_structure_size sizeof_ni nld = do {
     bc \<leftarrow> nmbm_lldiv (chip_size nld) (erasesize nld);
     let state_size = ((bc + 16 - 1) div 16) * 4;
     let mapping_size = bc * 4;
     let info_size = NMBM_ALIGN 32 (writesize nld);
     let info_size = info_size + NMBM_ALIGN state_size (writesize nld);
     let info_size = info_size + NMBM_ALIGN mapping_size (writesize nld);
     Some (ucast (info_size + state_size + mapping_size + writesize nld + oobsize nld) + sizeof_ni) }"

text \<open>
  The tables and the page cache are carved out of the zeroed allocation behind the structure.
\<close>

definition nmbm_init_structure :: "'d nmbm_instance \<Rightarrow> 'd nmbm_instance option" where
  "nmbm_init_structure ni = do {
     let L = lower ni;
     pages_per_block \<leftarrow> (if writesize L = 0 then None else Some (erasesize L div writesize L));
     blocks_per_chip \<leftarrow> nmbm_lldiv (chip_size L) (erasesize L);
     let ni = ni\<lparr>rawpage_size := writesize L + oobsize L\<rparr>;
     let ni = ni\<lparr>rawblock_size := pages_per_block * rawpage_size ni\<rparr>;
     let ni = ni\<lparr>rawchip_size := blocks_per_chip * rawblock_size ni\<rparr>;
     let ni = ni\<lparr>writesize_mask := writesize L - 1, erasesize_mask := erasesize L - 1,
         writesize_shift := of_nat (ffs (writesize L)) - 1,
         erasesize_shift := of_nat (ffs (erasesize L)) - 1\<rparr>;
     let ni = ni\<lparr>block_count := ucast (drop_bit (unat (erasesize_shift ni)) (chip_size L))\<rparr>;
     let ni = ni\<lparr>state_table_size := ((block_count ni + 16 - 1) div 16) * 4,
         mapping_table_size := block_count ni * 4\<rparr>;
     let ni = ni\<lparr>info_table_size := NMBM_ALIGN 32 (writesize L)\<rparr>;
     let ni = ni\<lparr>info_table := (info_table ni)\<lparr>state_table_off := info_table_size ni\<rparr>\<rparr>;
     let ni = ni\<lparr>info_table_size := info_table_size ni + NMBM_ALIGN (state_table_size ni) (writesize L)\<rparr>;
     let ni = ni\<lparr>info_table := (info_table ni)\<lparr>mapping_table_off := info_table_size ni\<rparr>\<rparr>;
     let ni = ni\<lparr>info_table_size := info_table_size ni + NMBM_ALIGN (mapping_table_size ni) (writesize L)\<rparr>;
     let ni = ni\<lparr>info_table_spare_blocks :=
         nmbm_get_spare_block_count (size2blk ni (ucast (info_table_size ni)))\<rparr>;
     let ni = ni\<lparr>info_table_cache := replicate (unat (info_table_size ni)) 0,
         block_state := replicate (unat (state_table_size ni) div 4) (- 1),
         block_mapping := replicate (unat (mapping_table_size ni) div 4) 0,
         page_cache := replicate (unat (writesize L + oobsize L)) 0\<rparr>;
     Some (ni\<lparr>block_state_changed := 0, block_mapping_changed := 0\<rparr>) }"

section \<open>Attaching and detaching\<close>

text \<open>\<open>ni\<close> is the zeroed instance, with the chip in its present state.\<close>

definition nmbm_attach ::
    "crc_fun \<Rightarrow> 'd nmbm_lower_device \<Rightarrow> 'd nmbm_instance \<Rightarrow> (int \<times> 'd nmbm_instance) option" where
  "nmbm_attach crc nld ni = do {
     let ni = ni\<lparr>log_display_level := NMBM_DEFAULT_LOG_LEVEL\<rparr>;
     let (success, nld) = nmbm_check_lower_members nld;
     if \<not> success then Some (- EINVAL, ni)
     else do {
       ni \<leftarrow> nmbm_init_structure (ni\<lparr>lower := nld\<rparr>);
       (r, ni) \<leftarrow> nmbm_find_signature crc ni;
       case r of
         None \<Rightarrow>
           if flags nld AND NMBM_F_CREATE = 0 then Some (- ENODEV, ni)
           else do {
             (success, ni) \<leftarrow> nmbm_create_new crc ni;
             Some (if success then 0 else - ENODEV, ni) }
       | Some (sig, sba) \<Rightarrow> do {
           let ni = ni\<lparr>signature := sig, signature_ba := sba\<rparr>;
           if hdr_version (sig_header (signature ni)) \<noteq> NMBM_VER then Some (- EINVAL, ni)
           else if nand_size (signature ni) \<noteq> chip_size nld \<or> block_size (signature ni) \<noteq> erasesize nld \<or>
               page_size (signature ni) \<noteq> writesize nld \<or> spare_size (signature ni) \<noteq> oobsize nld
           then Some (- EINVAL, ni)
           else do {
             (success, ni) \<leftarrow> nmbm_load_existing crc ni;
             Some (if success then 0 else - ENODEV, ni) } } } }"

definition nmbm_detach :: "crc_fun \<Rightarrow> 'd nmbm_instance \<Rightarrow> (int \<times> 'd nmbm_instance) option" where
  "nmbm_detach crc ni =
     (if has_flag ni NMBM_F_READ_ONLY then Some (0, ni)
      else do { (_, ni) \<leftarrow> nmbm_update_info_table crc ni; Some (0, ni) })"

end
