(* ===== verification/Nmbm_Logic.thy ===== *)
theory Nmbm_Logic
  imports Nmbm_Attach
begin

text \<open>
  The logic-block operations: reads, writes, erasures and bad-block queries by logic address,
  with the remapping of blocks that fail. These are the operations the MTD layer calls.
\<close>

section \<open>Erasing logic blocks\<close>

text \<open>
  The code from the label \<open>remap_logic_block\<close> to the jump back to \<open>retry\<close>; \<open>None\<close> as first
  component stands for the jump.
\<close>

definition remap_logic_block ::
    "crc_fun \<Rightarrow> 'd nmbm_instance \<Rightarrow> u32 \<Rightarrow> u32 \<Rightarrow> (int option \<times> 'd nmbm_instance) option" where
  "remap_logic_block crc ni block_addr pb = do {
     (success, ni) \<leftarrow> nmbm_map_block crc ni block_addr;
     ni \<leftarrow> (if success then Some ni
       else do { bm \<leftarrow> store (block_mapping ni) (unat block_addr) (- 1); Some (ni\<lparr>block_mapping := bm\<rparr>) });
     st \<leftarrow> nmbm_get_block_state ni pb;
     ni \<leftarrow> (if st \<noteq> BLOCK_ST_NEED_REMAP
       then do { (_, ni) \<leftarrow> nmbm_set_block_state ni pb BLOCK_ST_BAD; Some ni } else Some ni);
     (_, ni) \<leftarrow> nmbm_update_info_table crc ni;
     Some (if success then None else Some (- EIO), ni) }"

partial_function (option) nmbm_erase_logic_block ::
    "crc_fun \<Rightarrow> 'd nmbm_instance \<Rightarrow> u32 \<Rightarrow> (int \<times> 'd nmbm_instance) option" where
  "nmbm_erase_logic_block crc ni block_addr =
     Option.bind (load (block_mapping ni) (unat block_addr)) (\<lambda>pb.
     if is_neg32 pb then Some (- EIO, ni)
     else Option.bind (nmbm_get_block_state ni pb) (\<lambda>st.
     Option.bind
       (if st = BLOCK_ST_BAD \<or> st = BLOCK_ST_NEED_REMAP then remap_logic_block crc ni block_addr pb
        else Option.bind (nmbm_check_bad_phys_block ni pb) (\<lambda>(bad, ni).
          if bad then Option.bind (nmbm_set_block_state ni pb BLOCK_ST_BAD) (\<lambda>(_, ni).
            remap_logic_block crc ni block_addr pb)
          else Option.bind (nmbm_erase_block_and_check ni pb) (\<lambda>(success, ni).
            if success then Some (Some 0, ni)
            else Option.bind (nmbm_mark_phys_bad_block ni pb) (\<lambda>(_, ni).
              Option.bind (nmbm_set_block_state ni pb BLOCK_ST_BAD) (\<lambda>(_, ni).
                remap_logic_block crc ni block_addr pb)))))
       (\<lambda>(r, ni). case r of Some ret \<Rightarrow> Some (ret, ni)
          | None \<Rightarrow> nmbm_erase_logic_block crc ni block_addr)))"

text \<open>The loop \<open>while (start_ba <= end_ba)\<close>: the failing block is the third component.\<close>

partial_function (option) erase_range_loop ::
    "crc_fun \<Rightarrow> 'd nmbm_instance \<Rightarrow> u32 \<Rightarrow> u32 \<Rightarrow> (int \<times> u64 option \<times> 'd nmbm_instance) option" where
  "erase_range_loop crc ni start_ba end_ba =
     (if start_ba \<le> end_ba then
        Option.bind (nmbm_erase_logic_block crc ni start_ba) (\<lambda>(ret, ni).
          if ret \<noteq> 0 then Some (ret, Some (ba2addr ni start_ba), ni)
          else erase_range_loop crc ni (start_ba + 1) end_ba)
      else Some (0, None, ni))"

definition nmbm_erase_block_range ::
    "crc_fun \<Rightarrow> 'd nmbm_instance \<Rightarrow> u64 \<Rightarrow> u64 \<Rightarrow> (int \<times> u64 option \<times> 'd nmbm_instance) option" where
  "nmbm_erase_block_range crc ni addr sz =
     (if protected ni \<or> has_flag ni NMBM_F_READ_ONLY then Some (- EROFS, None, ni)
      else if addr \<ge> ba2addr ni (data_block_count ni) then Some (- EINVAL, None, ni)
      else if addr + sz > ba2addr ni (data_block_count ni) then Some (- EINVAL, None, ni)
      else if sz = 0 then Some (0, None, ni)
      else erase_range_loop crc ni (addr2ba ni addr) (addr2ba ni (addr + sz - 1)))"

section \<open>Reading\<close>

text \<open>The translation that reads and writes share: the physical address, or \<open>None\<close> for \<open>-EIO\<close>.\<close>

definition logic_to_phys :: "'d nmbm_instance \<Rightarrow> u64 \<Rightarrow> (u32 \<times> u64) option option" where
  "logic_to_phys ni addr =
     (let lb = addr2ba ni addr; offset = (ucast (addr AND ucast (erasesize_mask ni)) :: u32) in do {
        pb \<leftarrow> load (block_mapping ni) (unat lb);
        if is_neg32 pb then Some None
        else do {
          st \<leftarrow> nmbm_get_block_state ni pb;
          if st = BLOCK_ST_BAD then Some None
          else Some (Some (pb, ba2addr ni pb + ucast offset)) } })"

definition nmbm_read_logic_page ::
    "'d nmbm_instance \<Rightarrow> u64 \<Rightarrow> bytes option \<Rightarrow> bytes option \<Rightarrow> nmbm_oob_mode \<Rightarrow>
     (int \<times> bytes option \<times> bytes option \<times> 'd nmbm_instance) option" where
  "nmbm_read_logic_page ni addr dat oob mode = do {
     p \<leftarrow> logic_to_phys ni addr;
     case p of
       None \<Rightarrow> Some (- EIO, dat, oob, ni)
     | Some (pb, paddr) \<Rightarrow> nmbm_read_phys_page ni paddr dat oob mode }"

definition nmbm_read_single_page ::
    "'d nmbm_instance \<Rightarrow> u64 \<Rightarrow> bytes option \<Rightarrow> bytes option \<Rightarrow> nmbm_oob_mode \<Rightarrow>
     (int \<times> bytes option \<times> bytes option \<times> 'd nmbm_instance) option" where
  "nmbm_read_single_page ni addr dat oob mode =
     (if protected ni then Some (- EROFS, dat, oob, ni)
      else if addr \<ge> ba2addr ni (data_block_count ni) then Some (- EINVAL, dat, oob, ni)
      else nmbm_read_logic_page ni addr dat oob mode)"

text \<open>
  The loop of nmbm_read_range. \<open>got\<close> is what has been delivered, \<open>rest\<close> the part of the
  caller's buffer still to fill; the result holds the last return value, the two accumulators,
  the buffer and the number of bytes left.
\<close>

definition note_ret :: "int \<Rightarrow> bool \<times> int \<Rightarrow> bool \<times> int" where
  "note_ret ret acc = (fst acc \<or> ret = - EBADMSG, max (snd acc) ret)"

definition hard_error :: "int \<Rightarrow> bool" where
  "hard_error ret \<longleftrightarrow> ret < 0 \<and> ret \<noteq> - EBADMSG"

function read_range_loop ::
    "'d nmbm_instance \<Rightarrow> u64 \<Rightarrow> bytes \<Rightarrow> bytes \<Rightarrow> nmbm_oob_mode \<Rightarrow> int \<Rightarrow> bool \<times> int \<Rightarrow>
     (int \<times> (bool \<times> int) \<times> bytes \<times> nat \<times> 'd nmbm_instance) option" where
  "read_range_loop ni off got rest mode ret acc =
     (if rest \<noteq> [] then
        (let leading = page_leading ni off; chunksize = page_chunk ni off (length rest) in
         if chunksize = 0 then None
         else if chunksize = unat (writesize (lower ni)) then do {
           (ret, buf, _, ni) \<leftarrow> nmbm_read_logic_page ni (off - ucast leading)
              (Some (take chunksize rest)) None mode;
           dat \<leftarrow> buf;
           if hard_error ret
           then Some (ret, acc, got @ dat @ drop chunksize rest, length rest, ni)
           else read_range_loop ni (off + of_nat chunksize) (got @ dat) (drop chunksize rest) mode
                  ret (note_ret ret acc) }
         else do {
           buf \<leftarrow> page_cache_main ni;
           (ret, buf, _, ni) \<leftarrow> nmbm_read_logic_page ni (off - ucast leading) (Some buf) None mode;
           ni \<leftarrow> put_page_cache ni 0 buf;
           if hard_error ret then Some (ret, acc, got @ rest, length rest, ni)
           else do {
             dat \<leftarrow> slice (page_cache ni) (unat leading) chunksize;
             read_range_loop ni (off + of_nat chunksize) (got @ dat) (drop chunksize rest) mode
               ret (note_ret ret acc) } })
      else Some (ret, acc, got, 0, ni))"
  by pat_completeness auto
termination
  by (relation "measure (\<lambda>(ni, off, got, rest, mode, ret, acc). length rest)")
    (auto simp: page_chunk_def)

declare read_range_loop.simps [simp del]

text \<open>The result: the return value, the buffer, \<open>*retlen\<close> if it was written, the state.\<close>

definition nmbm_read_range ::
    "'d nmbm_instance \<Rightarrow> u64 \<Rightarrow> bytes \<Rightarrow> nmbm_oob_mode \<Rightarrow>
     (int \<times> bytes \<times> nat option \<times> 'd nmbm_instance) option" where
  "nmbm_read_range ni addr buf mode =
     (if protected ni then Some (- EROFS, buf, None, ni)
      else if addr \<ge> ba2addr ni (data_block_count ni) then Some (- EINVAL, buf, None, ni)
      else if addr + of_nat (length buf) > ba2addr ni (data_block_count ni)
      then Some (- EINVAL, buf, None, ni)
      else if buf = [] then Some (0, buf, None, ni)
      else do {
        (ret, (has_ecc_err, max_bitflips), dat, sizeremain, ni) \<leftarrow>
          read_range_loop ni addr [] buf mode 0 (False, 0);
        let retlen = Some (length buf - sizeremain);
        if hard_error ret then Some (ret, dat, retlen, ni)
        else if has_ecc_err then Some (- EBADMSG, dat, retlen, ni)
        else Some (max_bitflips, dat, retlen, ni) })"

section \<open>Writing\<close>

definition nmbm_write_logic_page ::
    "crc_fun \<Rightarrow> 'd nmbm_instance \<Rightarrow> u64 \<Rightarrow> bytes option \<Rightarrow> bytes option \<Rightarrow> nmbm_oob_mode \<Rightarrow>
     (int \<times> 'd nmbm_instance) option" where
  "nmbm_write_logic_page crc ni addr dat oob mode = do {
     p \<leftarrow> logic_to_phys ni addr;
     case p of
       None \<Rightarrow> Some (- EIO, ni)
     | Some (pb, paddr) \<Rightarrow> do {
         (success, ni) \<leftarrow> nmbm_write_phys_page ni paddr dat oob mode;
         if success then Some (0, ni)
         else do {
           (_, ni) \<leftarrow> nmbm_set_block_state ni pb BLOCK_ST_NEED_REMAP;
           (_, ni) \<leftarrow> nmbm_update_info_table crc ni;
           Some (- EIO, ni) } } }"

definition nmbm_panic_write_logic_page ::
    "crc_fun \<Rightarrow> 'd nmbm_instance \<Rightarrow> u64 \<Rightarrow> bytes \<Rightarrow> (int \<times> 'd nmbm_instance) option" where
  "nmbm_panic_write_logic_page crc ni addr dat =
     (if panic_write_page (lower ni) = None then Some (- ENOTSUPP, ni)
      else do {
        p \<leftarrow> logic_to_phys ni addr;
        case p of
          None \<Rightarrow> Some (- EIO, ni)
        | Some (pb, paddr) \<Rightarrow> do {
            (success, ni) \<leftarrow> nmbm_panic_write_phys_page ni paddr dat;
            if success then Some (0, ni)
            else do {
              (_, ni) \<leftarrow> nmbm_set_block_state ni pb BLOCK_ST_NEED_REMAP;
              (_, ni) \<leftarrow> nmbm_update_info_table crc ni;
              Some (- EIO, ni) } } })"

definition nmbm_write_single_page ::
    "crc_fun \<Rightarrow> 'd nmbm_instance \<Rightarrow> u64 \<Rightarrow> bytes option \<Rightarrow> bytes option \<Rightarrow> nmbm_oob_mode \<Rightarrow>
     (int \<times> 'd nmbm_instance) option" where
  "nmbm_write_single_page crc ni addr dat oob mode =
     (if protected ni \<or> has_flag ni NMBM_F_READ_ONLY then Some (- EROFS, ni)
      else if addr \<ge> ba2addr ni (data_block_count ni) then Some (- EINVAL, ni)
      else nmbm_write_logic_page crc ni addr dat oob mode)"

definition nmbm_panic_write_single_page ::
    "crc_fun \<Rightarrow> 'd nmbm_instance \<Rightarrow> u64 \<Rightarrow> bytes \<Rightarrow> (int \<times> 'd nmbm_instance) option" where
  "nmbm_panic_write_single_page crc ni addr dat =
     (if protected ni \<or> has_flag ni NMBM_F_READ_ONLY then Some (- EROFS, ni)
      else if addr \<ge> ba2addr ni (data_block_count ni) then Some (- EINVAL, ni)
      else nmbm_panic_write_logic_page crc ni addr dat)"

text \<open>The page that holds a chunk: only the bytes before it are padded.\<close>

function write_range_loop ::
    "crc_fun \<Rightarrow> 'd nmbm_instance \<Rightarrow> u64 \<Rightarrow> bytes \<Rightarrow> nmbm_oob_mode \<Rightarrow>
     (int \<times> nat \<times> 'd nmbm_instance) option" where
  "write_range_loop crc ni off rest mode =
     (if rest \<noteq> [] then
        (let leading = page_leading ni off; chunksize = page_chunk ni off (length rest) in
         if chunksize = 0 then None
         else do {
           (buf, ni) \<leftarrow> (if chunksize = unat (writesize (lower ni)) then Some (take chunksize rest, ni)
             else do {
               pc \<leftarrow> blit (page_cache ni) 0 (replicate (unat leading) 0xff);
               pc \<leftarrow> blit pc (unat leading) (take chunksize rest);
               let ni = ni\<lparr>page_cache := pc\<rparr>;
               buf \<leftarrow> page_cache_main ni;
               Some (buf, ni) });
           (ret, ni) \<leftarrow> nmbm_write_logic_page crc ni (off - ucast leading) (Some buf) None mode;
           if ret \<noteq> 0 then Some (ret, length rest, ni)
           else write_range_loop crc ni (off + of_nat chunksize) (drop chunksize rest) mode })
      else Some (0, 0, ni))"
  by pat_completeness auto
termination
  by (relation "measure (\<lambda>(crc, ni, off, rest, mode). length rest)") (auto simp: page_chunk_def)

declare write_range_loop.simps [simp del]

definition nmbm_write_range ::
    "crc_fun \<Rightarrow> 'd nmbm_instance \<Rightarrow> u64 \<Rightarrow> bytes \<Rightarrow> nmbm_oob_mode \<Rightarrow>
     (int \<times> nat option \<times> 'd nmbm_instance) option" where
  "nmbm_write_range crc ni addr dat mode =
     (if protected ni \<or> has_flag ni NMBM_F_READ_ONLY then Some (- EROFS, None, ni)
      else if addr \<ge> ba2addr ni (data_block_count ni) then Some (- EINVAL, None, ni)
      else if addr + of_nat (length dat) > ba2addr ni (data_block_count ni)
      then Some (- EINVAL, None, ni)
      else if dat = [] then Some (0, None, ni)
      else do {
        (ret, sizeremain, ni) \<leftarrow> write_range_loop crc ni addr dat mode;
        Some (ret, Some (length dat - sizeremain), ni) })"

section \<open>Bad blocks and geometry\<close>

definition nmbm_check_bad_block :: "'d nmbm_instance \<Rightarrow> u64 \<Rightarrow> int option" where
  "nmbm_check_bad_block ni addr =
     (if addr \<ge> ba2addr ni (data_block_count ni) then Some (- EINVAL)
      else do {
        pb \<leftarrow> load (block_mapping ni) (unat (addr2ba ni addr));
        if is_neg32 pb then Some 1
        else do {
          st \<leftarrow> nmbm_get_block_state ni pb;
          Some (if st = BLOCK_ST_BAD then 1 else 0) } })"

definition nmbm_mark_bad_block ::
    "crc_fun \<Rightarrow> 'd nmbm_instance \<Rightarrow> u64 \<Rightarrow> (int \<times> 'd nmbm_instance) option" where
  "nmbm_mark_bad_block crc ni addr =
     (if protected ni \<or> has_flag ni NMBM_F_READ_ONLY then Some (- EROFS, ni)
      else if addr \<ge> ba2addr ni (data_block_count ni) then Some (- EINVAL, ni)
      else do {
        let lb = addr2ba ni addr;
        pb \<leftarrow> load (block_mapping ni) (unat lb);
        if is_neg32 pb then Some (0, ni)
        else do {
          bm \<leftarrow> store (block_mapping ni) (unat lb) (- 1);
          (_, ni) \<leftarrow> nmbm_mark_phys_bad_block (ni\<lparr>block_mapping := bm\<rparr>) pb;
          (_, ni) \<leftarrow> nmbm_set_block_state ni pb BLOCK_ST_BAD;
          (_, ni) \<leftarrow> nmbm_update_info_table crc ni;
          Some (0, ni) } })"

definition nmbm_get_avail_size :: "'d nmbm_instance \<Rightarrow> u64" where
  "nmbm_get_avail_size ni = push_bit (unat (erasesize_shift ni)) (ucast (data_block_count ni))"

definition nmbm_get_lower_device :: "'d nmbm_instance \<Rightarrow> int \<times> 'd nmbm_lower_device" where
  "nmbm_get_lower_device ni = (0, lower ni)"

section \<open>What every operation keeps\<close>

text \<open>
  The invariant of an attached device that may be written: the layout of the management area,
  mappings that lead to blocks of the chip, data blocks within the chip.
\<close>

definition attached :: "'d nmbm_instance \<Rightarrow> bool" where
  "attached ni \<longleftrightarrow> lay ni \<and> mapped ni \<and> data_block_count ni \<le> block_count ni"

lemma attached_wf: "attached ni \<Longrightarrow> wf ni"
  by (simp add: attached_def lay_def)

lemma set_state_ok:
  assumes "wf ni" and "unat ba < unat (block_count ni)" and "unat ba \<in> A"
    and "v = BLOCK_ST_BAD \<or> (v = BLOCK_ST_NEED_REMAP \<and> bst ni (unat ba) \<noteq> BLOCK_ST_BAD)"
  shows "ok (nmbm_set_block_state ni ba v) (\<lambda>(r, ni'). safe A ni ni' \<and> bst ni' (unat ba) = v \<and>
    (\<exists>bs ch. length bs = length (block_state ni) \<and> ni' = ni\<lparr>block_state := bs, block_state_changed := ch\<rparr>))"
proof -
  let ?i = "unat ba" and ?bs = "block_state ni"
  let ?bs' = "st_upd ?bs ?i v"
  have l: "?i < st_len ?bs" by (rule wf_st_len [OF assms(1,2)])
  have z: "v AND BLOCK_ST_MASK = v" using assms(4) by (auto simp: block_st_defs)
  have g: "st_of ?bs' j = (if j = ?i then v else st_of ?bs j)" if "j < st_len ?bs" for j
    using bitmap.get_upd [OF l that] by (simp add: z)
  have len: "length ?bs' = length ?bs" by (simp add: st_upd_def)
  have "bitmap.worse A ?bs ?bs'"
    using assms(3,4) g len by (auto simp: bitmap.worse_def bst_def)
  moreover have "static (ni\<lparr>block_state := ?bs', block_state_changed := ch\<rparr>) = static ni" for ch
    using len by (simp add: static_def)
  moreover obtain r ch where "nmbm_set_block_state ni ba v =
      Some (r, ni\<lparr>block_state := ?bs', block_state_changed := ch\<rparr>)"
    using l by (auto simp only: nmbm_set_block_state_eq z Let_def if_True)
  ultimately show ?thesis
    using g [OF l] len by (auto simp: bst_def safe_def dev_refl)
qed

lemma attached_state_update:
  assumes "attached ni" and "length bs = length (block_state ni)"
  shows "attached (ni\<lparr>block_state := bs, block_state_changed := ch\<rparr>)"
proof -
  have "static (ni\<lparr>block_state := bs\<rparr>) = static ni" using assms(2) by (simp add: static_def)
  note st = wf_static [OF this]
  show ?thesis
    using assms(1) by (simp add: attached_def lay_def mapped_def st) (simp add: fits_def)
qed

lemma attached_tbl:
  assumes "attached ni" and "tbl A ni ni'" and "lay ni'"
  shows "attached ni'"
  using assms(1,3) tbl_fields [OF assms(2)] by (simp add: attached_def mapped_def)

lemma attached_blk: "attached ni \<Longrightarrow> blk A ni ni' \<Longrightarrow> attached ni'"
  by (rule attached_tbl [OF _ blk_imp_tbl]) (simp_all add: attached_def lay_blk)

lemma attached_unmap:
  assumes "attached ni"
  shows "attached (ni\<lparr>block_mapping := (block_mapping ni)[i := - 1]\<rparr>)"
proof -
  have "static (ni\<lparr>block_mapping := (block_mapping ni)[i := - 1]\<rparr>) = static ni" by simp
  note st = wf_static [OF this]
  show ?thesis
    using assms set_update_subset_insert [of "block_mapping ni" i "- 1"]
    by (auto simp: attached_def lay_def mapped_def st)
qed

text \<open>An operation keeps the invariant, and touches only what it may: \<open>kept_by m ni\<close>.\<close>

definition good_step :: "'d nmbm_instance \<Rightarrow> 'd nmbm_instance \<Rightarrow> bool" where
  "good_step ni ni' \<longleftrightarrow> attached ni' \<and> safe (all_blocks ni) ni ni'"

lemma all_blocks_safe: "safe A a b \<Longrightarrow> all_blocks b = all_blocks a"
  by (simp add: all_blocks_def safe_block_count)

lemma good_step_refl [simp]: "good_step ni ni \<longleftrightarrow> attached ni"
  by (simp add: good_step_def)

lemma good_step_trans: "good_step a b \<Longrightarrow> good_step b c \<Longrightarrow> good_step a c"
  using safe_trans [of "all_blocks a" a b c] by (auto simp: good_step_def all_blocks_safe)

lemma good_step_attached: "good_step a b \<Longrightarrow> attached b"
  by (simp add: good_step_def)

lemma good_step_blk: "attached ni \<Longrightarrow> blk A ni ni' \<Longrightarrow> A \<subseteq> all_blocks ni \<Longrightarrow> good_step ni ni'"
  by (auto simp: good_step_def intro: attached_blk safe_mono [OF blk_safe])

lemma good_step_io: "attached ni \<Longrightarrow> io (wset ni A) ni ni' \<Longrightarrow> A \<subseteq> all_blocks ni \<Longrightarrow> good_step ni ni'"
  by (erule good_step_blk) (rule io_imp_blk)

lemma good_step_quiet: "attached ni \<Longrightarrow> io {} ni ni' \<Longrightarrow> good_step ni ni'"
  by (rule good_step_blk [OF _ io_empty_imp_blk]) auto

lemma good_step_static: "good_step a b \<Longrightarrow> static b = static a"
  by (simp add: good_step_def safe_def)

lemma in_all_blocks: "i < unat (block_count ni) \<Longrightarrow> i \<in> all_blocks ni"
  by (simp add: all_blocks_def)

lemma set_state_good:
  assumes "attached ni" and "unat ba < unat (block_count ni)"
    and "v = BLOCK_ST_BAD \<or> (v = BLOCK_ST_NEED_REMAP \<and> bst ni (unat ba) \<noteq> BLOCK_ST_BAD)"
  shows "ok (nmbm_set_block_state ni ba v) (\<lambda>(r, ni'). good_step ni ni' \<and> bst ni' (unat ba) = v \<and>
    block_mapping ni' = block_mapping ni \<and> mapping_blocks_top_ba ni' = mapping_blocks_top_ba ni)"
  by (rule ok_mono2 [OF set_state_ok [OF attached_wf [OF assms(1)] assms(2) in_all_blocks [OF assms(2)] assms(3)]])
    (use attached_state_update [OF assms(1)] in \<open>auto simp: good_step_def\<close>)

lemma update_good:
  assumes "attached ni"
  shows "ok (nmbm_update_info_table crc ni) (\<lambda>(r, ni'). good_step ni ni' \<and>
    block_mapping ni' = block_mapping ni \<and> mapping_blocks_top_ba ni' = mapping_blocks_top_ba ni \<and>
    (\<forall>i < st_len (block_state ni). bst ni i \<noteq> BLOCK_ST_GOOD \<longrightarrow> bst ni' i = bst ni i) \<and>
    (\<forall>i < st_len (block_state ni). i \<notin> region ni \<longrightarrow> bst ni' i = bst ni i))"
proof -
  have l: "lay ni" using assms by (simp add: attached_def)
  show ?thesis
  proof (rule ok_mono2 [OF nmbm_update_info_table_ok [OF l]], goal_cases)
    case (1 b ni')
    then have t: "tbl (region ni) ni ni'" and l': "lay ni'" by simp_all
    have "bitmap.degrades (region ni) (block_state ni) (block_state ni')" using t by (simp add: tbl_def)
    then have "\<forall>i < st_len (block_state ni). bst ni' i = bst ni i \<or>
        (i \<in> region ni \<and> bst ni i = BLOCK_ST_GOOD \<and> bst ni' i = BLOCK_ST_BAD)"
      by (simp add: bitmap.degrades_def bst_def)
    moreover have "good_step ni ni'"
      using attached_tbl [OF assms t l'] safe_mono [OF tbl_safe [OF t] region_subset [OF l]]
      by (simp add: good_step_def)
    ultimately show ?case using tbl_fields [OF t] by auto
  qed
qed

lemma map_block_good:
  assumes "attached ni" and "unat lb < unat (block_count ni)"
  shows "ok (nmbm_map_block crc ni lb) (\<lambda>(b, ni'). good_step ni ni' \<and>
     (b \<longrightarrow> mapping_blocks_top_ba ni' < mapping_blocks_top_ba ni) \<and>
     mapping_blocks_top_ba ni' \<le> mapping_blocks_top_ba ni \<and>
     (\<not> b \<longrightarrow> block_mapping ni' = block_mapping ni))"
proof -
  have l: "lay ni" and mp: "mapped ni" and dc: "data_block_count ni \<le> block_count ni"
    using assms(1) by (simp_all add: attached_def)
  show ?thesis
  proof (rule ok_mono2 [OF nmbm_map_block_ok [OF l assms(2)]], goal_cases)
    case (1 b ni')
    have s: "safe (region ni) ni ni'" and l': "lay ni'" and dd: "data_block_count ni' = data_block_count ni"
      and tp: "mapping_blocks_top_ba ni' \<le> mapping_blocks_top_ba ni" using 1 by simp_all
    have bc: "block_count ni' = block_count ni" by (rule safe_block_count [OF s])
    have "mapped ni' \<and> (b \<longrightarrow> mapping_blocks_top_ba ni' < mapping_blocks_top_ba ni)"
    proof (cases b)
      case False
      then show ?thesis using 1 mp bc by (simp add: mapped_def)
    next
      case True
      then obtain pb where n: "ni' = ni\<lparr>block_mapping := (block_mapping ni)[unat lb := pb],
            mapping_blocks_top_ba := mapping_blocks_top_ba ni - 1,
            block_mapping_changed := block_mapping_changed ni + 1\<rparr>"
        and pb: "mapping_blocks_ba ni < pb" "pb \<le> mapping_blocks_top_ba ni"
        using 1 by auto
      have "pb < block_count ni" using pb l by (auto simp: lay_def)
      then have "mapped ni'" using mapped_upd [OF mp] by (auto simp: n mapped_def)
      moreover have "mapping_blocks_top_ba ni \<noteq> 0" using pb by auto
      then have "mapping_blocks_top_ba ni - 1 < mapping_blocks_top_ba ni"
        by (simp add: word_less_nat_alt unat_gt_0)
      ultimately show ?thesis by (simp add: n)
    qed
    then show ?case
      using 1 s l' dd dc tp bc safe_mono [OF s region_subset [OF l]]
      by (auto simp: good_step_def attached_def)
  qed
qed

lemma remap_logic_block_ok:
  assumes "attached ni" and "unat lb < unat (block_count ni)" and "unat pb < unat (block_count ni)"
  shows "ok (remap_logic_block crc ni lb pb) (\<lambda>(r, ni'). good_step ni ni' \<and>
     (case r of
        None \<Rightarrow> mapping_blocks_top_ba ni' < mapping_blocks_top_ba ni
      | Some ret \<Rightarrow> ret = - EIO \<and> block_mapping ni' ! unat lb = - 1))"
  unfolding remap_logic_block_def
proof (rule ok_bind2 [OF map_block_good [OF assms(1,2)]], goal_cases)
  case (1 b n1)
  have g1: "good_step ni n1" using 1 by blast
  have st1: "static n1 = static ni" by (rule good_step_static [OF g1])
  note f1 = static_fields [OF st1]
  have a1: "attached n1" by (rule good_step_attached [OF g1])
  let ?m = "n1\<lparr>block_mapping := (block_mapping n1)[unat lb := - 1]\<rparr>"
  have len: "unat lb < length (block_mapping n1)"
    using attached_wf [OF a1] assms(2) f1 by (simp add: wf_def)
  define n2 where "n2 = (if b then n1 else ?m)"
  have step: "(if b then Some n1 else do { bm \<leftarrow> store (block_mapping n1) (unat lb) (- 1);
      Some (n1\<lparr>block_mapping := bm\<rparr>) }) = Some n2"
    using len by (simp add: n2_def store_def)
  have am: "attached ?m" by (rule attached_unmap [OF a1])
  have sm: "safe (all_blocks n1) n1 ?m" by (rule safe_same) simp_all
  have g12: "good_step n1 n2"
    using a1 am sm by (simp add: n2_def good_step_def)
  have g2: "good_step ni n2" by (rule good_step_trans [OF g1 g12])
  have a2: "attached n2" by (rule good_step_attached [OF g2])
  have bc2: "block_count n2 = block_count ni"
    using static_fields(9) [OF good_step_static [OF g2]] .
  have pb: "unat pb < unat (block_count n2)" using assms(3) bc2 by simp
  have get: "nmbm_get_block_state n2 pb = Some (bst n2 (unat pb))"
    by (rule get_block_state_ok [OF attached_wf [OF a2] pb])
  have m2: "\<not> b \<Longrightarrow> block_mapping n2 ! unat lb = - 1" using len by (simp add: n2_def)
  have t2: "mapping_blocks_top_ba n2 = mapping_blocks_top_ba n1" by (simp add: n2_def)
  have set: "ok (if bst n2 (unat pb) \<noteq> BLOCK_ST_NEED_REMAP
       then do { (_, ni) \<leftarrow> nmbm_set_block_state n2 pb BLOCK_ST_BAD; Some ni } else Some n2)
     (\<lambda>n3. good_step n2 n3 \<and> block_mapping n3 = block_mapping n2 \<and>
        mapping_blocks_top_ba n3 = mapping_blocks_top_ba n2)"
    using set_state_good [OF a2 pb, of BLOCK_ST_BAD] a2 by (auto simp: ok_bind elim!: ok_mono)
  show ?case unfolding step Option.bind.bind_lunit get
  proof (rule ok_bindI [OF set], goal_cases)
    case s: (1 n3)
    have g3: "good_step ni n3" using s g2 good_step_trans by blast
    have a3: "attached n3" by (rule good_step_attached [OF g3])
    show ?case
    proof (rule ok_bind2 [OF update_good [OF a3]], goal_cases)
      case u: (1 r n4)
      have "good_step ni n4" using u g3 good_step_trans by blast
      then show ?case using s u m2 t2 1 by (auto split: option.splits)
    qed
  qed
qed

lemma neg_minus_one: "pb = - 1 \<Longrightarrow> is_neg32 pb"
  by simp

text \<open>
  What an erasure leaves: a logic block in working order, or one without a mapping.
\<close>

definition erase_result :: "u32 \<Rightarrow> int \<Rightarrow> 'd nmbm_instance \<Rightarrow> bool" where
  "erase_result lb ret ni \<longleftrightarrow> (ret = 0 \<or> ret = - EIO) \<and>
     (let pb = block_mapping ni ! unat lb in
      if ret = 0 then \<not> is_neg32 pb \<and> pb < block_count ni \<and> bst ni (unat pb) \<noteq> BLOCK_ST_BAD \<and>
        bst ni (unat pb) \<noteq> BLOCK_ST_NEED_REMAP
      else is_neg32 pb)"

lemma nmbm_erase_logic_block_ok:
  assumes "attached ni" and "unat lb < unat (block_count ni)"
  shows "ok (nmbm_erase_logic_block crc ni lb) (\<lambda>(ret, ni'). good_step ni ni' \<and>
    erase_result lb ret ni')"
  using assms
proof (induction "unat (mapping_blocks_top_ba ni)" arbitrary: ni rule: less_induct)
  case less
  note at = less.prems(1) and lb = less.prems(2)
  have wf: "wf ni" by (rule attached_wf [OF at])
  let ?pb = "block_mapping ni ! unat lb"
  have len: "unat lb < length (block_mapping ni)" using wf lb by (simp add: wf_def)
  have ld: "load (block_mapping ni) (unat lb) = Some ?pb" using len by (simp add: load_def)
  let ?Q = "\<lambda>(ret, ni'). good_step ni ni' \<and> erase_result lb ret ni'"
  show ?case
  proof (cases "is_neg32 ?pb")
    case True
    then show ?thesis using at
      by (subst nmbm_erase_logic_block.simps) (simp add: ld EIO_def Let_def erase_result_def)
  next
    case nn: False
    have pbw: "?pb < block_count ni"
      using at nn len by (auto simp: attached_def mapped_def)
    then have pb: "unat ?pb < unat (block_count ni)" by (simp add: word_less_nat_alt)
    have get: "nmbm_get_block_state ni ?pb = Some (bst ni (unat ?pb))"
      by (rule get_block_state_ok [OF wf pb])
    let ?k = "\<lambda>(r, ni). case r of Some ret \<Rightarrow> Some (ret, ni) | None \<Rightarrow> nmbm_erase_logic_block crc ni lb"
    have remap: "ok (Option.bind (remap_logic_block crc m lb ?pb) ?k) ?Q"
      if m: "good_step ni m" "mapping_blocks_top_ba m = mapping_blocks_top_ba ni" for m
    proof -
      have am: "attached m" by (rule good_step_attached [OF m(1)])
      have bc: "block_count m = block_count ni"
        using static_fields(9) [OF good_step_static [OF m(1)]] .
      have lbm: "unat lb < unat (block_count m)" and pbm: "unat ?pb < unat (block_count m)"
        using lb pb bc by simp_all
      show ?thesis
      proof (rule ok_bind2 [OF remap_logic_block_ok [OF am lbm pbm]], goal_cases)
        case (1 r n1)
        have g: "good_step ni n1" using 1 m good_step_trans by blast
        show ?case
        proof (cases r)
          case (Some ret)
          then show ?thesis using 1 g by (simp add: EIO_def Let_def erase_result_def)
        next
          case None
          have "unat (mapping_blocks_top_ba n1) < unat (mapping_blocks_top_ba ni)"
            using 1 None m(2) by (simp add: word_less_nat_alt)
          moreover have "unat lb < unat (block_count n1)"
            using lb static_fields(9) [OF good_step_static [OF g]] by simp
          ultimately have "ok (nmbm_erase_logic_block crc n1 lb)
              (\<lambda>(ret, ni'). good_step n1 ni' \<and> erase_result lb ret ni')"
            by (intro less.hyps good_step_attached [OF g])
          then show ?thesis unfolding None option.case prod.case
            by (rule ok_mono2) (use g good_step_trans in blast)
        qed
      qed
    qed
    show ?thesis
    proof (cases "bst ni (unat ?pb) = BLOCK_ST_BAD \<or> bst ni (unat ?pb) = BLOCK_ST_NEED_REMAP")
      case True
      then have "nmbm_erase_logic_block crc ni lb = Option.bind (remap_logic_block crc ni lb ?pb) ?k"
        using nn by (subst nmbm_erase_logic_block.simps) (simp add: ld get)
      then show ?thesis using remap [of ni] at by simp
    next
      case False
      have eq: "nmbm_erase_logic_block crc ni lb = Option.bind
          (Option.bind (nmbm_check_bad_phys_block ni ?pb) (\<lambda>(bad, ni).
            if bad then Option.bind (nmbm_set_block_state ni ?pb BLOCK_ST_BAD) (\<lambda>(_, ni).
              remap_logic_block crc ni lb ?pb)
            else Option.bind (nmbm_erase_block_and_check ni ?pb) (\<lambda>(success, ni).
              if success then Some (Some 0, ni)
              else Option.bind (nmbm_mark_phys_bad_block ni ?pb) (\<lambda>(_, ni).
                Option.bind (nmbm_set_block_state ni ?pb BLOCK_ST_BAD) (\<lambda>(_, ni).
                  remap_logic_block crc ni lb ?pb))))) ?k"
        using nn False by (subst nmbm_erase_logic_block.simps) (simp add: ld get)
      have set: "ok (Option.bind (Option.bind (nmbm_set_block_state m ?pb BLOCK_ST_BAD) (\<lambda>(_, ni).
              remap_logic_block crc ni lb ?pb)) ?k) ?Q"
        if m: "good_step ni m" "mapping_blocks_top_ba m = mapping_blocks_top_ba ni" for m
      proof -
        have am: "attached m" by (rule good_step_attached [OF m(1)])
        have pbm: "unat ?pb < unat (block_count m)"
          using pb static_fields(9) [OF good_step_static [OF m(1)]] by simp
        note s = set_state_good [OF am pbm, of BLOCK_ST_BAD, simplified]
        show ?thesis unfolding bind_assoc
        proof (rule ok_bindI [OF s], goal_cases)
          case (1 x)
          then have "good_step ni (snd x)" "mapping_blocks_top_ba (snd x) = mapping_blocks_top_ba ni"
            using m good_step_trans [OF m(1)] by auto
          from remap [OF this] show ?case by (cases x) simp
        qed
      qed
      show ?thesis unfolding eq bind_assoc
      proof (rule ok_bindI [OF nmbm_check_bad_phys_block_ok [OF wf]], goal_cases)
        case (1 z)
        obtain bad n1 where z: "z = (bad, n1)" by (cases z)
        have io1: "io {} ni n1" using 1 by (simp add: z)
        have g1: "good_step ni n1" by (rule good_step_quiet [OF at io1])
        have t1: "mapping_blocks_top_ba n1 = mapping_blocks_top_ba ni" using io1 by (auto simp: io_def)
        have w1: "wf n1" using attached_wf [OF good_step_attached [OF g1]] .
        show ?case
        proof (cases bad)
          case True
          then show ?thesis using set [OF g1 t1] by (simp add: z)
        next
          case good: False
          have mt: "may_touch n1 (wset n1 {unat ?pb}) (unat ?pb)" by simp
          have sub: "{unat ?pb} \<subseteq> all_blocks n1"
            using pb static_fields(9) [OF good_step_static [OF g1]] by (simp add: all_blocks_def)
          show ?thesis unfolding z prod.case if_not_P [OF good] bind_assoc
          proof (rule ok_bindI [OF nmbm_erase_block_and_check_ok [OF w1 mt]], goal_cases)
            case (1 x)
            obtain success n2 where x: "x = (success, n2)" by (cases x)
            have io2: "io (wset n1 {unat ?pb}) n1 n2" using 1 by (simp add: x)
            have g12: "good_step n1 n2"
              by (rule good_step_io [OF good_step_attached [OF g1] io2 sub])
            have g2: "good_step ni n2" by (rule good_step_trans [OF g1 g12])
            have t2: "mapping_blocks_top_ba n2 = mapping_blocks_top_ba ni"
              using io2 t1 by (auto simp: io_def)
            have keep: "block_mapping n2 = block_mapping ni" "bst n2 i = bst ni i" for i
              using io2 io1 by (auto simp: io_def bst_def)
            show ?case
            proof (cases success)
              case True
              then show ?thesis
                using g2 nn False pbw static_fields(9) [OF good_step_static [OF g2]]
                by (simp add: x Let_def keep erase_result_def)
            next
              case fail: False
              have w2: "wf n2" using attached_wf [OF good_step_attached [OF g2]] .
              have mt2: "may_touch n2 (wset n2 {unat ?pb}) (unat ?pb)" by simp
              have sub2: "{unat ?pb} \<subseteq> all_blocks n2"
                using pb static_fields(9) [OF good_step_static [OF g2]] by (simp add: all_blocks_def)
              show ?thesis unfolding x prod.case if_not_P [OF fail] bind_assoc
              proof (rule ok_bindI [OF nmbm_mark_phys_bad_block_ok [OF w2 mt2]], goal_cases)
                case (1 y)
                obtain rr n3 where y: "y = (rr, n3)" by (cases y)
                have io3: "io (wset n2 {unat ?pb}) n2 n3" using 1 by (simp add: y)
                have g3: "good_step ni n3"
                  by (rule good_step_trans [OF g2 good_step_io [OF good_step_attached [OF g2] io3 sub2]])
                have t3: "mapping_blocks_top_ba n3 = mapping_blocks_top_ba ni"
                  using io3 t2 by (auto simp: io_def)
                show ?case using set [OF g3 t3] by (simp add: y bind_assoc)
              qed
            qed
          qed
        qed
      qed
    qed
  qed
qed

section \<open>Address translation\<close>

lemma unat_addr2ba:
  assumes "unat addr div 2 ^ es_sh ni < 2 ^ 32"
  shows "unat (addr2ba ni addr) = unat addr div 2 ^ es_sh ni"
  using assms unfolding addr2ba_def es_sh_def unat_ucast_u64_u32 unat_drop_bit_eq
  by (simp add: drop_bit_eq_div)

lemma unat_u64_lt: "unat (w :: u64) < 2 ^ 64"
  using unsigned_less [of w] by simp

lemma addr_below:
  assumes "wf ni" and "n \<le> block_count ni" and "unat addr < unat (ba2addr ni n)"
  shows "unat (addr2ba ni addr) = unat addr div 2 ^ es_sh ni"
    and "unat (addr2ba ni addr) < unat n"
proof -
  have lt: "unat addr < unat n * 2 ^ es_sh ni"
    using assms(3) by (simp add: unat_ba2addr [OF wf_sh [OF assms(1)]])
  then have d: "unat addr div 2 ^ es_sh ni < unat n"
    by (simp add: less_mult_imp_div_less)
  moreover have "unat addr div 2 ^ es_sh ni < 2 ^ 32"
    using d unat_u32_lt [of n] by simp
  ultimately show "unat (addr2ba ni addr) = unat addr div 2 ^ es_sh ni"
    and "unat (addr2ba ni addr) < unat n"
    using unat_addr2ba [of addr ni] by simp_all
qed

lemma addr_below_bc:
  assumes "wf ni" and "n \<le> block_count ni" and "unat addr < unat (ba2addr ni n)"
  shows "unat (addr2ba ni addr) < unat (block_count ni)"
  using addr_below(2) [OF assms] assms(2) by (simp add: word_le_nat_alt)

lemma unat_in_block_offset:
  assumes "wf ni"
  shows "unat (ucast (addr AND ucast (erasesize_mask ni) :: u64) :: u32) = unat addr mod 2 ^ es_sh ni"
proof -
  let ?k = "es_sh ni"
  have k: "?k < 32" using wf_sh [OF assms] .
  have "erasesize (lower ni) = 2 ^ ?k"
    using wf_erasesize [OF assms] k by (intro word_unat_eq_iff [THEN iffD2]) (simp add: unat_p2)
  then have m: "erasesize_mask ni = mask ?k"
    using assms by (simp add: wf_def mask_eq_exp_minus_1)
  have "ucast (mask ?k :: u32) = (mask ?k :: u64)"
    using k by (intro bit_word_eqI) (auto simp: bit_word_ucast_iff bit_mask_iff)
  then have u: "unat (addr AND ucast (erasesize_mask ni)) = unat addr mod 2 ^ ?k"
    unfolding m by (simp only: unsigned_take_bit_eq take_bit_eq_mod [where 'a = nat] flip: take_bit_eq_mask)
  moreover have "unat addr mod 2 ^ ?k < 2 ^ 32"
  proof -
    have "unat addr mod 2 ^ ?k < 2 ^ ?k" by simp
    also have "(2::nat) ^ ?k < 2 ^ 32" using k by (simp only: power_strict_increasing_iff)
    finally show ?thesis .
  qed
  ultimately show ?thesis by (simp add: unat_ucast_u64_u32)
qed

lemma logic_to_phys_ok:
  assumes "wf ni" and "mapped ni" and "unat (addr2ba ni addr) < unat (block_count ni)"
  shows "ok (logic_to_phys ni addr) (\<lambda>r.
    let pb = block_mapping ni ! unat (addr2ba ni addr) in
    if is_neg32 pb \<or> bst ni (unat pb) = BLOCK_ST_BAD then r = None
    else pb < block_count ni \<and> (\<exists>paddr. r = Some (pb, paddr) \<and>
      unat paddr = unat pb * 2 ^ es_sh ni + unat addr mod 2 ^ es_sh ni \<and>
      unat (drop_bit (es_sh ni) paddr) = unat pb))"
proof -
  let ?pb = "block_mapping ni ! unat (addr2ba ni addr)"
  let ?o = "ucast (addr AND ucast (erasesize_mask ni) :: u64) :: u32"
  have len: "unat (addr2ba ni addr) < length (block_mapping ni)" using assms by (simp add: wf_def)
  have o: "unat (ucast ?o :: u64) < 2 ^ es_sh ni"
    by (simp add: unat_in_block_offset [OF assms(1)])
  note a = block_of_addr [OF wf_sh [OF assms(1)] o, of ?pb]
  show ?thesis
  proof (cases "is_neg32 ?pb")
    case True
    then show ?thesis using len by (simp add: logic_to_phys_def load_def Let_def)
  next
    case False
    then have pb: "?pb < block_count ni" using assms(2) len by (auto simp: mapped_def)
    then have "nmbm_get_block_state ni ?pb = Some (bst ni (unat ?pb))"
      by (intro get_block_state_ok [OF assms(1)]) (simp add: word_less_nat_alt)
    then show ?thesis using False len pb a
      by (simp add: logic_to_phys_def load_def Let_def unat_in_block_offset [OF assms(1)])
  qed
qed

section \<open>Reads\<close>

lemma nmbm_read_logic_page_ok:
  assumes "wf ni" and "mapped ni" and "unat (addr2ba ni addr) < unat (block_count ni)"
  shows "ok (nmbm_read_logic_page ni addr dat oob mode) (\<lambda>(ret, dat', oob', ni').
     io {} ni ni' \<and> page_cache ni' = page_cache ni \<and> same_shape dat' dat \<and> same_shape oob' oob)"
  unfolding nmbm_read_logic_page_def
  by (rule ok_bindI [OF logic_to_phys_ok [OF assms]])
    (auto simp: Let_def split: if_splits intro!: nmbm_read_phys_page_ok [OF assms(1)])

lemma nmbm_read_single_page_ok:
  assumes "wf ni" and "mapped ni" and "data_block_count ni \<le> block_count ni"
  shows "ok (nmbm_read_single_page ni addr dat oob mode) (\<lambda>(ret, dat', oob', ni').
     io {} ni ni' \<and> page_cache ni' = page_cache ni \<and> same_shape dat' dat \<and> same_shape oob' oob)"
proof (cases "protected ni \<or> addr \<ge> ba2addr ni (data_block_count ni)")
  case True
  then show ?thesis by (auto simp: nmbm_read_single_page_def)
next
  case False
  then have "unat (addr2ba ni addr) < unat (block_count ni)"
    by (intro addr_below_bc [OF assms(1,3)]) (simp add: word_le_nat_alt)
  then show ?thesis
    using False nmbm_read_logic_page_ok [OF assms(1,2)] by (simp add: nmbm_read_single_page_def)
qed

lemma mapped_static_io: "io A ni ni' \<Longrightarrow> mapped ni' = mapped ni"
  by (auto simp: io_def mapped_def)

lemma read_range_loop_ok:
  assumes "wf ni" and "mapped ni" and "n \<le> block_count ni"
    and "unat off + length rest \<le> unat (ba2addr ni n)" and "0 \<le> snd acc"
  shows "ok (read_range_loop ni off got rest mode ret acc) (\<lambda>(ret', acc', buf, left, ni').
     io {} ni ni' \<and> length buf = length got + length rest \<and> left \<le> length rest \<and>
     (left = 0 \<or> hard_error ret') \<and> 0 \<le> snd acc' \<and> (rest \<noteq> [] \<and> left = 0 \<longrightarrow> \<not> hard_error ret') )"
  using assms
proof (induction "length rest" arbitrary: ni off got rest ret acc rule: less_induct)
  case less
  note wf = less.prems(1) and mp = less.prems(2) and n = less.prems(3) and bnd = less.prems(4)
  show ?case
  proof (cases "rest = []")
    case True
    then show ?thesis using less.prems(5) by (subst read_range_loop.simps) simp
  next
    case False
    define l where "l = page_leading ni off"
    define c where "c = page_chunk ni off (length rest)"
    have c: "c \<noteq> 0" "c \<le> length rest" using False wf page_leading_lt [OF wf, of off]
      by (simp_all add: c_def page_chunk_eq)
    note pc = wf_page_cache [OF wf]
    have lr: "0 < length rest" using False by simp
    have st: "unat (off - ucast l) \<le> unat off"
      using page_start(1) [OF wf, of off] by (simp add: l_def)
    have inr: "unat (addr2ba ni (off - ucast l)) < unat (block_count ni)"
      by (rule addr_below_bc [OF wf n]) (use st bnd lr in linarith)
    note rd = nmbm_read_logic_page_ok [OF wf mp inr]
    have rec: "ok (read_range_loop ni3 (off + of_nat c) (got @ d) (drop c rest) mode r (note_ret r acc))
        (\<lambda>(ret', acc', buf, left, ni'). io {} ni ni' \<and> length buf = length got + length rest \<and>
          left \<le> length rest \<and> (left = 0 \<or> hard_error ret') \<and> 0 \<le> snd acc' \<and>
          (rest \<noteq> [] \<and> left = 0 \<longrightarrow> \<not> hard_error ret'))"
      if io: "io {} ni ni3" and d: "length d = c" and r: "\<not> hard_error r" for ni3 d r
    proof -
      note f = static_fields [OF io_static [OF io]]
      have "c < 2 ^ 64" using bnd c unat_u64_lt [of "ba2addr ni n"] by simp
      then have uc: "unat (of_nat c :: u64) = c"
        by (simp add: unsigned_of_nat take_bit_nat_eq_self)
      have uo: "unat (off + of_nat c) = unat off + c"
        using bnd c uc unat_u64_lt [of "ba2addr ni n"] by (subst unat_add_fits) simp_all
      have bb: "ba2addr ni3 n = ba2addr ni n" by (simp add: ba2addr_def f)
      have IH: "ok (read_range_loop ni3 (off + of_nat c) (got @ d) (drop c rest) mode r (note_ret r acc))
        (\<lambda>(ret', acc', buf, left, ni'). io {} ni3 ni' \<and> length buf = length (got @ d) + length (drop c rest) \<and>
          left \<le> length (drop c rest) \<and> (left = 0 \<or> hard_error ret') \<and> 0 \<le> snd acc' \<and>
          (drop c rest \<noteq> [] \<and> left = 0 \<longrightarrow> \<not> hard_error ret'))"
      proof (rule less.hyps)
        show "length (drop c rest) < length rest" using c by simp
        show "wf ni3" using wf io by (simp add: io_wf)
        show "mapped ni3" using mp by (simp add: mapped_static_io [OF io])
        show "n \<le> block_count ni3" using n by (simp add: f)
        show "unat (off + of_nat c) + length (drop c rest) \<le> unat (ba2addr ni3 n)"
          unfolding uo bb using bnd c by simp
        show "0 \<le> snd (note_ret r acc)" using less.prems(5) by (simp add: note_ret_def)
      qed
      show ?thesis
      proof (cases "drop c rest = []")
        case True
        then have "c = length rest" using c by simp
        then show ?thesis using r d io less.prems(5)
          by (subst read_range_loop.simps) (simp add: note_ret_def)
      next
        case False
        show ?thesis by (rule ok_mono [OF IH]) (use c d False in \<open>auto intro: io_trans [OF io]\<close>)
      qed
    qed
    show ?thesis
    proof (cases "c = unat (writesize (lower ni))")
      case True
      have eq: "read_range_loop ni off got rest mode ret acc = do {
           (ret, buf, _, ni) \<leftarrow> nmbm_read_logic_page ni (off - ucast l) (Some (take c rest)) None mode;
           dat \<leftarrow> buf;
           if hard_error ret
           then Some (ret, acc, got @ dat @ drop c rest, length rest, ni)
           else read_range_loop ni (off + of_nat c) (got @ dat) (drop c rest) mode
                  ret (note_ret ret acc) }"
        using False c(1) True [symmetric]
        by (subst read_range_loop.simps) (simp add: Let_def flip: l_def c_def)
      show ?thesis unfolding eq
      proof (rule ok_bind4 [OF rd], goal_cases)
        case (1 r buf oob ni2)
        then obtain x where x: "buf = Some x" "length x = c" and io: "io {} ni ni2" using c by auto
        show ?case using io rec [OF io x(2)] c x less.prems(5) by simp
      qed
    next
      case part: False
      have ln: "unat l + c \<le> length (page_cache ni)"
        using page_leading_lt [OF wf, of off] pc
        by (auto simp: c_def l_def page_chunk_eq [OF wf] min_def)
      have eq: "read_range_loop ni off got rest mode ret acc = do {
           buf \<leftarrow> page_cache_main ni;
           (ret, buf, _, ni) \<leftarrow> nmbm_read_logic_page ni (off - ucast l) (Some buf) None mode;
           ni \<leftarrow> put_page_cache ni 0 buf;
           if hard_error ret then Some (ret, acc, got @ rest, length rest, ni)
           else do {
             dat \<leftarrow> slice (page_cache ni) (unat l) c;
             read_range_loop ni (off + of_nat c) (got @ dat) (drop c rest) mode
               ret (note_ret ret acc) } }"
        using False c(1) part
        by (subst read_range_loop.simps) (simp add: Let_def flip: l_def c_def)
      show ?thesis unfolding eq page_cache_slices_ok [OF wf] Option.bind.bind_lunit
      proof (rule ok_bind4 [OF rd], goal_cases)
        case (1 r buf oob ni2)
        then have "ok (put_page_cache ni2 0 buf) (\<lambda>ni3. io {} ni2 ni3)"
          using pc by (intro ok_mono [OF put_page_cache_ok]) (auto intro: io_cacheI)
        then show ?case
        proof (rule ok_bindI, goal_cases)
          case q: (1 ni3)
          have io: "io {} ni ni3" using 1 q by (blast intro: io_trans)
          have "unat l + c \<le> length (page_cache ni3)"
            using ln by (simp add: static_fields [OF io_static [OF io]])
          then show ?case using io rec [OF io] less.prems(5) by (simp add: ok_bind)
        qed
      qed
    qed
  qed
qed

definition readable :: "'d nmbm_instance \<Rightarrow> bool" where
  "readable ni \<longleftrightarrow> wf ni \<and> mapped ni \<and> data_block_count ni \<le> block_count ni"

lemma attached_readable: "attached ni \<Longrightarrow> readable ni"
  by (simp add: attached_def readable_def lay_def)

lemma unat_add_length:
  assumes "unat (addr :: u64) + n < 2 ^ 64"
  shows "unat (addr + of_nat n) = unat addr + n"
proof -
  have "unat (of_nat n :: u64) = n"
    using assms by (simp add: unsigned_of_nat take_bit_nat_eq_self)
  then show ?thesis using assms by (subst unat_add_fits) simp_all
qed

lemma nmbm_read_range_ok:
  assumes "readable ni" and "unat addr + length buf < 2 ^ 64"
  shows "ok (nmbm_read_range ni addr buf mode) (\<lambda>(ret, buf', retlen, ni').
    io {} ni ni' \<and> length buf' = length buf \<and>
    (case retlen of None \<Rightarrow> buf' = buf \<and> (ret = 0 \<longrightarrow> buf = [])
     | Some n \<Rightarrow> n \<le> length buf \<and> (ret \<ge> 0 \<or> ret = - EBADMSG \<longrightarrow> n = length buf)))"
proof -
  have wf: "wf ni" and mp: "mapped ni" and dc: "data_block_count ni \<le> block_count ni"
    using assms(1) by (simp_all add: readable_def)
  let ?lim = "ba2addr ni (data_block_count ni)"
  show ?thesis
  proof (cases "protected ni \<or> addr \<ge> ?lim \<or> addr + of_nat (length buf) > ?lim \<or> buf = []")
    case True
    then show ?thesis by (auto simp: nmbm_read_range_def EROFS_def EINVAL_def)
  next
    case False
    have bnd: "unat addr + length buf \<le> unat ?lim"
      using False unat_add_length [OF assms(2)] by (simp add: word_less_nat_alt not_less)
    have "(0::int) \<le> snd (False, 0::int)" by simp
    from read_range_loop_ok [OF wf mp dc bnd this, of "[]" mode 0]
    show ?thesis using False
      by (auto simp: nmbm_read_range_def ok_bind Let_def hard_error_def EBADMSG_def elim!: ok_mono)
  qed
qed

section \<open>Writes\<close>

lemma logic_to_phys_cases:
  assumes "attached ni" and "unat (addr2ba ni addr) < unat (block_count ni)"
  obtains (unmapped) "logic_to_phys ni addr = Some None"
  | (block) pb paddr where "logic_to_phys ni addr = Some (Some (pb, paddr))"
      and "pb < block_count ni" and "bst ni (unat pb) \<noteq> BLOCK_ST_BAD"
      and "unat (drop_bit (es_sh ni) paddr) = unat pb"
proof -
  have wf: "wf ni" and mp: "mapped ni" using assms(1) by (simp_all add: attached_def lay_def)
  let ?pb = "block_mapping ni ! unat (addr2ba ni addr)"
  obtain r where r: "logic_to_phys ni addr = Some r"
    and c: "if is_neg32 ?pb \<or> bst ni (unat ?pb) = BLOCK_ST_BAD then r = None
      else ?pb < block_count ni \<and> (\<exists>paddr. r = Some (?pb, paddr) \<and>
        unat paddr = unat ?pb * 2 ^ es_sh ni + unat addr mod 2 ^ es_sh ni \<and>
        unat (drop_bit (es_sh ni) paddr) = unat ?pb)"
    by (rule okE [OF logic_to_phys_ok [OF wf mp assms(2)]]) (simp add: Let_def)
  show thesis
  proof (cases "is_neg32 ?pb \<or> bst ni (unat ?pb) = BLOCK_ST_BAD")
    case True
    then show thesis using unmapped r c by simp
  next
    case False
    then show thesis using block r c by auto
  qed
qed

text \<open>What both kinds of page write do once the physical write is over.\<close>

lemma write_tail_ok:
  assumes at: "attached ni" and pb: "pb < block_count ni" and nb: "bst ni (unat pb) \<noteq> BLOCK_ST_BAD"
    and w: "ok m (\<lambda>(s, n1). io (wset ni {unat pb}) ni n1 \<and> page_cache n1 = page_cache ni)"
  shows "ok (do {
      (success, ni) \<leftarrow> m;
      if success then Some (0, ni)
      else do {
        (_, ni) \<leftarrow> nmbm_set_block_state ni pb BLOCK_ST_NEED_REMAP;
        (_, ni) \<leftarrow> nmbm_update_info_table crc ni;
        Some (- EIO, ni) } })
    (\<lambda>(ret, ni'). good_step ni ni' \<and> (ret = 0 \<or> ret = - EIO) \<and> block_mapping ni' = block_mapping ni)"
proof (rule ok_bind2 [OF w], goal_cases)
  case (1 s n1)
  then have io: "io (wset ni {unat pb}) ni n1" by simp
  have pbn: "unat pb < unat (block_count ni)" using pb by (simp add: word_less_nat_alt)
  have g1: "good_step ni n1"
    by (rule good_step_io [OF at io]) (simp add: all_blocks_def pbn)
  have b1: "block_mapping n1 = block_mapping ni" using io by (auto simp: io_def)
  show ?case
  proof (cases s)
    case True
    then show ?thesis using g1 b1 by simp
  next
    case False
    have a1: "attached n1" by (rule good_step_attached [OF g1])
    have pb1: "unat pb < unat (block_count n1)"
      using pbn static_fields(9) [OF good_step_static [OF g1]] by simp
    have nb1: "BLOCK_ST_NEED_REMAP = BLOCK_ST_BAD \<or>
        (BLOCK_ST_NEED_REMAP = BLOCK_ST_NEED_REMAP \<and> bst n1 (unat pb) \<noteq> BLOCK_ST_BAD)"
      using nb io_bst [OF io] by simp
    show ?thesis unfolding if_not_P [OF False]
    proof (rule ok_bind2 [OF set_state_good [OF a1 pb1 nb1]], goal_cases)
      case s: (1 q n2)
      have a2: "attached n2" using s good_step_attached by blast
      show ?case
      proof (rule ok_bind2 [OF update_good [OF a2]], goal_cases)
        case (1 q n3)
        then show ?case using s g1 b1 by (auto intro: good_step_trans)
      qed
    qed
  qed
qed

lemma nmbm_write_logic_page_ok:
  assumes "attached ni" and "unat (addr2ba ni addr) < unat (block_count ni)"
  shows "ok (nmbm_write_logic_page crc ni addr dat oob mode) (\<lambda>(ret, ni'). good_step ni ni' \<and>
    (ret = 0 \<or> ret = - EIO) \<and> block_mapping ni' = block_mapping ni)"
  using assms
proof (cases rule: logic_to_phys_cases)
  case unmapped
  then show ?thesis using assms(1) by (simp add: nmbm_write_logic_page_def)
next
  case (block pb paddr)
  have "may_touch ni (wset ni {unat pb}) (unat (drop_bit (es_sh ni) paddr))" by (simp add: block(4))
  note w = nmbm_write_phys_page_ok [OF attached_wf [OF assms(1)] this]
  show ?thesis unfolding nmbm_write_logic_page_def block(1) Option.bind.bind_lunit option.case prod.case
    by (rule write_tail_ok [OF assms(1) block(2,3) w])
qed

lemma nmbm_panic_write_logic_page_ok:
  assumes "attached ni" and "unat (addr2ba ni addr) < unat (block_count ni)"
  shows "ok (nmbm_panic_write_logic_page crc ni addr dat) (\<lambda>(ret, ni'). good_step ni ni' \<and>
    (ret = 0 \<or> ret = - EIO \<or> ret = - ENOTSUPP) \<and> block_mapping ni' = block_mapping ni)"
proof (cases "panic_write_page (lower ni) = None")
  case True
  then show ?thesis using assms(1) by (simp add: nmbm_panic_write_logic_page_def)
next
  case sup: False
  show ?thesis
    using assms
  proof (cases rule: logic_to_phys_cases)
    case unmapped
    then show ?thesis using assms(1) sup by (simp add: nmbm_panic_write_logic_page_def)
  next
    case (block pb paddr)
    have "may_touch ni (wset ni {unat pb}) (unat (drop_bit (es_sh ni) paddr))" by (simp add: block(4))
    note w = nmbm_panic_write_phys_page_ok [OF sup this]
    show ?thesis
      unfolding nmbm_panic_write_logic_page_def if_not_P [OF sup] block(1) Option.bind.bind_lunit
        option.case prod.case
      by (rule ok_mono2 [OF write_tail_ok [OF assms(1) block(2,3) w]]) blast
  qed
qed

lemma attached_bounds: "attached ni \<Longrightarrow> data_block_count ni \<le> block_count ni"
  by (simp add: attached_def)

lemma attached_addr:
  assumes "attached ni" and "\<not> addr \<ge> ba2addr ni (data_block_count ni)"
  shows "unat (addr2ba ni addr) < unat (block_count ni)"
  by (rule addr_below_bc [OF attached_wf [OF assms(1)] attached_bounds [OF assms(1)]])
    (use assms(2) in \<open>simp add: word_le_nat_alt\<close>)

lemma nmbm_write_single_page_ok:
  assumes "attached ni"
  shows "ok (nmbm_write_single_page crc ni addr dat oob mode) (\<lambda>(ret, ni'). good_step ni ni' \<and> ret \<le> 0)"
proof (cases "protected ni \<or> has_flag ni NMBM_F_READ_ONLY \<or> addr \<ge> ba2addr ni (data_block_count ni)")
  case True
  then show ?thesis using assms by (auto simp: nmbm_write_single_page_def EROFS_def EINVAL_def)
next
  case False
  then have "unat (addr2ba ni addr) < unat (block_count ni)" by (intro attached_addr [OF assms]) simp
  from nmbm_write_logic_page_ok [OF assms this]
  have "ok (nmbm_write_logic_page crc ni addr dat oob mode) (\<lambda>(ret, ni'). good_step ni ni' \<and> ret \<le> 0)"
    by (rule ok_mono2) (auto simp: EIO_def)
  then show ?thesis using False by (simp add: nmbm_write_single_page_def)
qed

lemma nmbm_panic_write_single_page_ok:
  assumes "attached ni"
  shows "ok (nmbm_panic_write_single_page crc ni addr dat) (\<lambda>(ret, ni'). good_step ni ni' \<and> ret \<le> 0)"
proof (cases "protected ni \<or> has_flag ni NMBM_F_READ_ONLY \<or> addr \<ge> ba2addr ni (data_block_count ni)")
  case True
  then show ?thesis using assms by (auto simp: nmbm_panic_write_single_page_def EROFS_def EINVAL_def)
next
  case False
  then have "unat (addr2ba ni addr) < unat (block_count ni)" by (intro attached_addr [OF assms]) simp
  from nmbm_panic_write_logic_page_ok [OF assms this]
  have "ok (nmbm_panic_write_logic_page crc ni addr dat) (\<lambda>(ret, ni'). good_step ni ni' \<and> ret \<le> 0)"
    by (rule ok_mono2) (auto simp: EIO_def ENOTSUPP_def)
  then show ?thesis using False by (simp add: nmbm_panic_write_single_page_def)
qed

lemma attached_cache:
  assumes "attached ni" and "length p = length (page_cache ni)"
  shows "good_step ni (ni\<lparr>page_cache := p\<rparr>)"
  by (rule good_step_quiet [OF assms(1)]) (rule io_cacheI [OF assms(2)])

lemma write_range_loop_ok:
  assumes "attached ni" and "n \<le> block_count ni"
    and "unat off + length rest \<le> unat (ba2addr ni n)"
  shows "ok (write_range_loop crc ni off rest mode) (\<lambda>(ret, left, ni'). good_step ni ni' \<and>
     left \<le> length rest \<and> (ret = 0 \<or> ret = - EIO) \<and> (ret = 0 \<longleftrightarrow> left = 0))"
  using assms
proof (induction "length rest" arbitrary: ni off rest rule: less_induct)
  case less
  note at = less.prems(1) and n = less.prems(2) and bnd = less.prems(3)
  have wf: "wf ni" by (rule attached_wf [OF at])
  show ?case
  proof (cases "rest = []")
    case True
    then show ?thesis using at by (subst write_range_loop.simps) simp
  next
    case False
    define l where "l = page_leading ni off"
    define c where "c = page_chunk ni off (length rest)"
    have c: "c \<noteq> 0" "c \<le> length rest" using False wf page_leading_lt [OF wf, of off]
      by (simp_all add: c_def page_chunk_eq)
    have lr: "0 < length rest" using False by simp
    note pc = wf_page_cache [OF wf]
    have ln: "unat l + c \<le> unat (writesize (lower ni))"
      using page_leading_lt [OF wf, of off]
      by (auto simp: c_def l_def page_chunk_eq [OF wf] min_def)
    let ?prep = "if c = unat (writesize (lower ni)) then Some (take c rest, ni)
        else do {
          pc \<leftarrow> blit (page_cache ni) 0 (replicate (unat l) 0xff);
          pc \<leftarrow> blit pc (unat l) (take c rest);
          let ni = ni\<lparr>page_cache := pc\<rparr>;
          buf \<leftarrow> page_cache_main ni;
          Some (buf, ni) }"
    have prep: "ok ?prep (\<lambda>(buf, ni'). good_step ni ni')"
    proof (cases "c = unat (writesize (lower ni))")
      case True
      then show ?thesis using at by simp
    next
      case part: False
      define q where "q = replicate (unat l) 0xff @ drop (unat l) (page_cache ni)"
      define p where "p = take (unat l) q @ take c rest @ drop (unat l + c) q"
      have lq: "length q = length (page_cache ni)" using ln pc by (simp add: q_def)
      have b1: "blit (page_cache ni) 0 (replicate (unat l) 0xff) = Some q"
        using ln pc by (simp add: blit_def q_def)
      have b2: "blit q (unat l) (take c rest) = Some p"
        using ln pc c lq by (simp add: blit_def p_def min_absorb2)
      have "length p = length (page_cache ni)" using ln pc c lq by (simp add: p_def)
      then have g: "good_step ni (ni\<lparr>page_cache := p\<rparr>)" by (rule attached_cache [OF at])
      then have "wf (ni\<lparr>page_cache := p\<rparr>)" using attached_wf good_step_attached by blast
      then show ?thesis using g part b1 b2 by (simp add: page_cache_slices_ok)
    qed
    have eq: "write_range_loop crc ni off rest mode = do {
        (buf, ni) \<leftarrow> ?prep;
        (ret, ni) \<leftarrow> nmbm_write_logic_page crc ni (off - ucast l) (Some buf) None mode;
        if ret \<noteq> 0 then Some (ret, length rest, ni)
        else write_range_loop crc ni (off + of_nat c) (drop c rest) mode }"
      using False c(1) by (subst write_range_loop.simps) (simp add: Let_def flip: l_def c_def)
    show ?thesis unfolding eq
    proof (rule ok_bind2 [OF prep], goal_cases)
      case (1 buf n1)
      note g1 = 1
      have a1: "attached n1" by (rule good_step_attached [OF g1])
      note f1 = static_fields [OF good_step_static [OF g1]]
      have st: "unat (off - ucast l) \<le> unat off"
        using page_start(1) [OF wf, of off] by (simp add: l_def)
      have bb: "ba2addr n1 n = ba2addr ni n" by (simp add: ba2addr_def f1)
      have inr: "unat (addr2ba n1 (off - ucast l)) < unat (block_count n1)"
      proof (rule addr_below_bc [OF attached_wf [OF a1]])
        show "n \<le> block_count n1" using n by (simp add: f1)
        show "unat (off - ucast l) < unat (ba2addr n1 n)" unfolding bb using st bnd lr by linarith
      qed
      show ?case
      proof (rule ok_bind2 [OF nmbm_write_logic_page_ok [OF a1 inr]], goal_cases)
        case (1 ret n2)
        have g2: "good_step ni n2" using 1 g1 good_step_trans by blast
        show ?case
        proof (cases "ret = 0")
          case False
          then show ?thesis using 1 g2 lr by simp
        next
          case True
          note f2 = static_fields [OF good_step_static [OF g2]]
          have "c < 2 ^ 64" using bnd c unat_u64_lt [of "ba2addr ni n"] by simp
          then have uc: "unat (of_nat c :: u64) = c"
            by (simp add: unsigned_of_nat take_bit_nat_eq_self)
          have uo: "unat (off + of_nat c) = unat off + c"
            using bnd c uc unat_u64_lt [of "ba2addr ni n"] by (subst unat_add_fits) simp_all
          have bb2: "ba2addr n2 n = ba2addr ni n" by (simp add: ba2addr_def f2)
          have "ok (write_range_loop crc n2 (off + of_nat c) (drop c rest) mode)
            (\<lambda>(ret, left, ni'). good_step n2 ni' \<and> left \<le> length (drop c rest) \<and>
               (ret = 0 \<or> ret = - EIO) \<and> (ret = 0 \<longleftrightarrow> left = 0))"
          proof (rule less.hyps)
            show "length (drop c rest) < length rest" using c by simp
            show "attached n2" by (rule good_step_attached [OF g2])
            show "n \<le> block_count n2" using n by (simp add: f2)
            show "unat (off + of_nat c) + length (drop c rest) \<le> unat (ba2addr n2 n)"
              unfolding uo bb2 using bnd c by simp
          qed
          then show ?thesis using True
            by (simp, elim ok_mono3) (use g2 c in \<open>auto intro: good_step_trans\<close>)
        qed
      qed
    qed
  qed
qed

lemma nmbm_write_range_ok:
  assumes "attached ni" and "unat addr + length dat < 2 ^ 64"
  shows "ok (nmbm_write_range crc ni addr dat mode) (\<lambda>(ret, retlen, ni'). good_step ni ni' \<and> ret \<le> 0 \<and>
    (case retlen of None \<Rightarrow> ret = 0 \<longrightarrow> dat = []
     | Some n \<Rightarrow> n \<le> length dat \<and> (ret = 0 \<longleftrightarrow> n = length dat)))"
proof -
  let ?lim = "ba2addr ni (data_block_count ni)"
  show ?thesis
  proof (cases "protected ni \<or> has_flag ni NMBM_F_READ_ONLY \<or> addr \<ge> ?lim \<or>
      addr + of_nat (length dat) > ?lim \<or> dat = []")
    case True
    then show ?thesis using assms(1) by (auto simp: nmbm_write_range_def EROFS_def EINVAL_def)
  next
    case False
    have bnd: "unat addr + length dat \<le> unat ?lim"
      using False unat_add_length [OF assms(2)] by (simp add: word_less_nat_alt not_less)
    show ?thesis
      using False write_range_loop_ok [OF assms(1) attached_bounds [OF assms(1)] bnd, of crc mode]
      by (auto simp: nmbm_write_range_def ok_bind EIO_def elim!: ok_mono)
  qed
qed

section \<open>Bad blocks\<close>

lemma nmbm_mark_bad_block_ok:
  assumes "attached ni"
  shows "ok (nmbm_mark_bad_block crc ni addr) (\<lambda>(ret, ni'). good_step ni ni' \<and> ret \<le> 0 \<and>
    (ret = 0 \<longrightarrow> is_neg32 (block_mapping ni' ! unat (addr2ba ni addr))))"
proof (cases "protected ni \<or> has_flag ni NMBM_F_READ_ONLY \<or> addr \<ge> ba2addr ni (data_block_count ni)")
  case True
  then show ?thesis using assms by (auto simp: nmbm_mark_bad_block_def EROFS_def EINVAL_def)
next
  case False
  let ?lb = "unat (addr2ba ni addr)"
  let ?pb = "block_mapping ni ! ?lb"
  have wf: "wf ni" by (rule attached_wf [OF assms])
  have lb: "?lb < unat (block_count ni)" by (rule attached_addr [OF assms]) (use False in simp)
  then have len: "?lb < length (block_mapping ni)" using wf by (simp add: wf_def)
  show ?thesis
  proof (cases "is_neg32 ?pb")
    case True
    then show ?thesis using False len assms by (simp add: nmbm_mark_bad_block_def load_def Let_def)
  next
    case nn: False
    let ?m = "ni\<lparr>block_mapping := (block_mapping ni)[?lb := - 1]\<rparr>"
    have am: "attached ?m" by (rule attached_unmap [OF assms])
    have gm: "good_step ni ?m" using am by (simp add: good_step_def safe_same)
    have "?pb < block_count ni" using assms nn len by (auto simp: attached_def mapped_def)
    then have pb: "unat ?pb < unat (block_count ?m)" by (simp add: word_less_nat_alt)
    have sub: "{unat ?pb} \<subseteq> all_blocks ?m" using pb by (simp add: all_blocks_def)
    have mt: "may_touch ?m (wset ?m {unat ?pb}) (unat ?pb)" by simp
    have eq: "nmbm_mark_bad_block crc ni addr = do {
        (_, ni) \<leftarrow> nmbm_mark_phys_bad_block ?m ?pb;
        (_, ni) \<leftarrow> nmbm_set_block_state ni ?pb BLOCK_ST_BAD;
        (_, ni) \<leftarrow> nmbm_update_info_table crc ni;
        Some (0, ni) }"
      using False nn len by (simp add: nmbm_mark_bad_block_def load_def store_def Let_def)
    show ?thesis unfolding eq
    proof (rule ok_bind2 [OF nmbm_mark_phys_bad_block_ok [OF attached_wf [OF am] mt]], goal_cases)
      case (1 r n1)
      have g1: "good_step ?m n1" by (rule good_step_io [OF am 1 sub])
      have m1: "block_mapping n1 = block_mapping ?m" using 1 by (auto simp: io_def)
      have pb1: "unat ?pb < unat (block_count n1)"
        using pb static_fields(9) [OF good_step_static [OF g1]] by simp
      note s = set_state_good [OF good_step_attached [OF g1] pb1, of BLOCK_ST_BAD, simplified]
      show ?case
      proof (rule ok_bind2 [OF s], goal_cases)
        case s: (1 q n2)
        then have a2: "attached n2" using good_step_attached by blast
        show ?case
        proof (rule ok_bind2 [OF update_good [OF a2]], goal_cases)
          case (1 q n3)
          have "good_step ni n3"
            using 1 s g1 gm by (blast intro: good_step_trans)
          then show ?case using 1 s m1 len by simp
        qed
      qed
    qed
  qed
qed

lemma erase_range_loop_ok:
  assumes "attached ni" and "unat end_ba < unat (block_count ni)"
  shows "ok (erase_range_loop crc ni start_ba end_ba) (\<lambda>(ret, failed, ni'). good_step ni ni' \<and>
    (if ret = 0 then failed = None
     else ret = - EIO \<and> (\<exists>lb. start_ba \<le> lb \<and> lb \<le> end_ba \<and> failed = Some (ba2addr ni lb) \<and>
       is_neg32 (block_mapping ni' ! unat lb))))"
  using assms
proof (induction "Suc (unat end_ba) - unat start_ba" arbitrary: ni start_ba rule: less_induct)
  case less
  note at = less.prems(1)
  show ?case
  proof (cases "start_ba \<le> end_ba")
    case False
    then show ?thesis using at by (subst erase_range_loop.simps) simp
  next
    case True
    have sb: "unat start_ba < unat (block_count ni)"
      using True less.prems(2) by (simp add: word_le_nat_alt)
    show ?thesis
    proof (subst erase_range_loop.simps, simp only: True if_True,
        rule ok_bind2 [OF nmbm_erase_logic_block_ok [OF at sb]], goal_cases)
      case (1 ret n1)
      then have g1: "good_step ni n1" and er: "erase_result start_ba ret n1" by simp_all
      note f1 = static_fields [OF good_step_static [OF g1]]
      have ba: "ba2addr n1 x = ba2addr ni x" for x by (simp add: ba2addr_def f1)
      show ?case
      proof (cases "ret = 0")
        case False
        then show ?thesis using g1 er True by (auto simp: erase_result_def Let_def ba)
      next
        case ok: True
        have us: "unat (start_ba + 1) = Suc (unat start_ba)"
          using sb unat_u32_lt [of "block_count ni"] by (subst unat_add_fits) simp_all
        have "ok (erase_range_loop crc n1 (start_ba + 1) end_ba) (\<lambda>(ret, failed, ni'). good_step n1 ni' \<and>
            (if ret = 0 then failed = None
             else ret = - EIO \<and> (\<exists>lb. start_ba + 1 \<le> lb \<and> lb \<le> end_ba \<and> failed = Some (ba2addr n1 lb) \<and>
               is_neg32 (block_mapping ni' ! unat lb))))"
          by (rule less.hyps) (use us True less.prems(2) good_step_attached [OF g1] in
              \<open>auto simp: f1 word_le_nat_alt\<close>)
        moreover have "start_ba + 1 \<le> lb \<Longrightarrow> start_ba \<le> lb" for lb
          using us by (simp add: word_le_nat_alt)
        ultimately show ?thesis using ok
          by (simp, elim ok_mono3) (use g1 in \<open>auto simp: ba intro: good_step_trans split: if_splits\<close>)
      qed
    qed
  qed
qed

text \<open>Which answer nmbm_erase_block_range gives, and what it says of the failed address.\<close>

definition range_result :: "'d nmbm_instance \<Rightarrow> u64 \<Rightarrow> u64 \<Rightarrow> int \<Rightarrow> u64 option \<Rightarrow> 'd nmbm_instance \<Rightarrow> bool" where
  "range_result ni addr sz ret failed ni' \<longleftrightarrow>
     (if protected ni \<or> has_flag ni NMBM_F_READ_ONLY then ret = - EROFS \<and> failed = None \<and> ni' = ni
      else if addr \<ge> ba2addr ni (data_block_count ni) \<or>
        unat (ba2addr ni (data_block_count ni)) < unat addr + unat sz then ret = - EINVAL \<and> failed = None \<and> ni' = ni
      else ret = 0 \<and> failed = None \<or>
        ret = - EIO \<and> (\<exists>lb. addr2ba ni addr \<le> lb \<and> lb \<le> addr2ba ni (addr + sz - 1) \<and>
          failed = Some (ba2addr ni lb) \<and> is_neg32 (block_mapping ni' ! unat lb)))"

lemma nmbm_erase_block_range_ok:
  assumes "attached ni" and "unat addr + unat sz < 2 ^ 64"
  shows "ok (nmbm_erase_block_range crc ni addr sz) (\<lambda>(ret, failed, ni'). good_step ni ni' \<and>
    range_result ni addr sz ret failed ni')"
proof -
  let ?lim = "ba2addr ni (data_block_count ni)"
  have us: "unat (addr + sz) = unat addr + unat sz" using assms(2) by (intro unat_add_fits) simp
  show ?thesis
  proof (cases "protected ni \<or> has_flag ni NMBM_F_READ_ONLY \<or> addr \<ge> ?lim \<or> addr + sz > ?lim \<or> sz = 0")
    case True
    then show ?thesis using assms(1) us
      by (auto simp: nmbm_erase_block_range_def range_result_def word_le_nat_alt word_less_nat_alt)
  next
    case False
    have nz: "addr + sz \<noteq> 0" using us False by (metis add_is_0 unat_eq_zero)
    have "unat (addr + sz - 1) < unat ?lim"
      using False nz us by (simp add: word_less_nat_alt not_less unat_gt_0) (metis nz unat_gt_0 Suc_le_lessD diff_Suc_less less_le_trans One_nat_def)
    then have eb: "unat (addr2ba ni (addr + sz - 1)) < unat (block_count ni)"
      by (rule addr_below_bc [OF attached_wf [OF assms(1)] attached_bounds [OF assms(1)]])
    have "\<not> unat ?lim < unat addr + unat sz" using False us by (simp add: word_less_nat_alt)
    then have "nmbm_erase_block_range crc ni addr sz =
        erase_range_loop crc ni (addr2ba ni addr) (addr2ba ni (addr + sz - 1))"
      "range_result ni addr sz ret failed ni' \<longleftrightarrow> ret = 0 \<and> failed = None \<or>
        ret = - EIO \<and> (\<exists>lb. addr2ba ni addr \<le> lb \<and> lb \<le> addr2ba ni (addr + sz - 1) \<and>
          failed = Some (ba2addr ni lb) \<and> is_neg32 (block_mapping ni' ! unat lb))" for ret failed ni'
      using False by (simp_all add: nmbm_erase_block_range_def range_result_def)
    then show ?thesis
      using erase_range_loop_ok [OF assms(1) eb, of crc "addr2ba ni addr"]
      by (auto elim!: ok_mono split: if_splits)
  qed
qed

end
