(* ===== verification/Mtd_Request.thy ===== *)
theory Mtd_Request
  imports Nmbm_Phys
begin

text \<open>
  What the MTD layers of NMBM and of the SPI-NAND driver share: the request of the kernel's MTD core
  (\<open>struct mtd_oob_ops\<close>) and the copies between a driver's page cache and the buffers of the
  request, page by page. A page cache holds the \<open>ws\<close> bytes of a page and the \<open>os\<close> bytes of its
  spare area. \<open>oobav_fun\<close> is the type of the kernel's \<open>mtd_oobavail\<close>, a function of the spare size, the
  free spare size and the mode.
\<close>

section \<open>Requests\<close>

definition MTD_OPS_PLACE_OOB :: u32 where "MTD_OPS_PLACE_OOB = 0"
definition MTD_OPS_AUTO_OOB :: u32 where "MTD_OPS_AUTO_OOB = 1"
definition MTD_OPS_RAW :: u32 where "MTD_OPS_RAW = 2"

record mtd_oob_ops =
  ops_mode :: u32
  ops_len :: nat
  ops_retlen :: nat
  ops_ooblen :: nat
  ops_oobretlen :: nat
  ops_ooboffs :: u32
  ops_datbuf :: "bytes option"
  ops_oobbuf :: "bytes option"

definition zero_ops :: mtd_oob_ops where
  "zero_ops = \<lparr>ops_mode = 0, ops_len = 0, ops_retlen = 0, ops_ooblen = 0, ops_oobretlen = 0,
     ops_ooboffs = 0, ops_datbuf = None, ops_oobbuf = None\<rparr>"

type_synonym oobav_fun = "u32 \<Rightarrow> u32 \<Rightarrow> u32 \<Rightarrow> u32"

text \<open>\<open>k\<close> bytes fit into the caller's buffer after the first \<open>n\<close>; no buffer is needed for none.\<close>

definition room :: "bytes option \<Rightarrow> nat \<Rightarrow> nat \<Rightarrow> bool" where
  "room b n k \<longleftrightarrow> k = 0 \<or> (\<exists>buf. b = Some buf \<and> n + k \<le> length buf)"

lemma room_0 [simp]: "room b n 0"
  by (simp add: room_def)

definition ops_room :: "mtd_oob_ops \<Rightarrow> bool" where
  "ops_room ops \<longleftrightarrow> room (ops_datbuf ops) 0 (ops_len ops) \<and> room (ops_oobbuf ops) 0 (ops_ooblen ops)"

text \<open>
  A request after \<open>n\<close> more bytes of data and \<open>k\<close> more of spare area: the counts have grown, the
  buffers kept their sizes.
\<close>

definition filled :: "mtd_oob_ops \<Rightarrow> nat \<Rightarrow> nat \<Rightarrow> mtd_oob_ops \<Rightarrow> bool" where
  "filled ops n k ops' \<longleftrightarrow>
     (\<exists>d s. ops' = ops\<lparr>ops_retlen := ops_retlen ops + n, ops_oobretlen := ops_oobretlen ops + k,
        ops_datbuf := d, ops_oobbuf := s\<rparr> \<and> same_shape d (ops_datbuf ops) \<and> same_shape s (ops_oobbuf ops))"

lemma filledI:
  "same_shape d (ops_datbuf ops) \<Longrightarrow> same_shape s (ops_oobbuf ops) \<Longrightarrow>
   filled ops n k (ops\<lparr>ops_retlen := ops_retlen ops + n, ops_oobretlen := ops_oobretlen ops + k,
     ops_datbuf := d, ops_oobbuf := s\<rparr>)"
  by (auto simp: filled_def)

lemma ops_update_order:
  "ops\<lparr>ops_datbuf := d, ops_retlen := n\<rparr> = ops\<lparr>ops_retlen := n, ops_datbuf := d\<rparr>"
  "ops\<lparr>ops_oobbuf := s, ops_oobretlen := k\<rparr> = ops\<lparr>ops_oobretlen := k, ops_oobbuf := s\<rparr>"
  by (cases ops, simp)+

lemma filled_refl [simp]: "filled ops 0 0 ops"
  using filledI [of "ops_datbuf ops" ops "ops_oobbuf ops" 0 0] by simp

lemma filled_trans:
  assumes "filled a n k b" and "filled b n' k' c"
  shows "filled a (n + n') (k + k') c"
proof -
  obtain d s where b: "b = a\<lparr>ops_retlen := ops_retlen a + n, ops_oobretlen := ops_oobretlen a + k,
      ops_datbuf := d, ops_oobbuf := s\<rparr>" and ds: "same_shape d (ops_datbuf a)" "same_shape s (ops_oobbuf a)"
    using assms(1) by (auto simp: filled_def)
  obtain d' s' where c: "c = b\<lparr>ops_retlen := ops_retlen b + n', ops_oobretlen := ops_oobretlen b + k',
      ops_datbuf := d', ops_oobbuf := s'\<rparr>" and ds': "same_shape d' (ops_datbuf b)" "same_shape s' (ops_oobbuf b)"
    using assms(2) by (auto simp: filled_def)
  have "c = a\<lparr>ops_retlen := ops_retlen a + (n + n'), ops_oobretlen := ops_oobretlen a + (k + k'),
      ops_datbuf := d', ops_oobbuf := s'\<rparr>" by (simp add: c b)
  moreover have "same_shape d' (ops_datbuf a)" "same_shape s' (ops_oobbuf a)"
    using ds ds' by (auto simp: b intro: same_shape_trans)
  ultimately show ?thesis by (auto simp: filled_def)
qed

lemma filled_fields:
  assumes "filled a n k b"
  shows "ops_retlen b = ops_retlen a + n" "ops_oobretlen b = ops_oobretlen a + k"
    "same_shape (ops_datbuf b) (ops_datbuf a)" "same_shape (ops_oobbuf b) (ops_oobbuf a)"
  using assms by (auto simp: filled_def)

lemma room_filled:
  assumes "filled a n k b"
  shows "room (ops_datbuf a) (ops_retlen a) (n + m) \<Longrightarrow> room (ops_datbuf b) (ops_retlen b) m"
    and "room (ops_oobbuf a) (ops_oobretlen a) (k + m) \<Longrightarrow> room (ops_oobbuf b) (ops_oobretlen b) m"
  using filled_fields [OF assms] by (auto simp: room_def same_shape_def)

section \<open>Copies\<close>

lemma ok_bind5:
  assumes "ok m (\<lambda>(a, b, c, d, s). P a b c d s)" and "\<And>a b c d s. P a b c d s \<Longrightarrow> ok (f a b c d s) Q"
  shows "ok (Option.bind m (\<lambda>(a, b, c, d, s). f a b c d s)) Q"
  using assms by (auto simp: ok_def)

lemma blit_exists: "off + length src \<le> length xs \<Longrightarrow> \<exists>ys. blit xs off src = Some ys \<and> length ys = length xs"
  by (simp add: blit_def)

lemma slice_exists: "off + n \<le> length xs \<Longrightarrow> \<exists>ys. slice xs off n = Some ys \<and> length ys = n"
  by (simp add: slice_def)

text \<open>Three copies fill a stretch of the page cache.\<close>

lemma three_blits:
  assumes "o1 + length a \<le> length pc" and "o2 + length b \<le> length pc" and "o3 + length c \<le> length pc"
  obtains p1 p2 p3 where "blit pc o1 a = Some p1" "blit p1 o2 b = Some p2" "blit p2 o3 c = Some p3"
    "length p3 = length pc"
proof -
  obtain p1 where 1: "blit pc o1 a = Some p1" "length p1 = length pc" using blit_exists [OF assms(1)] by auto
  obtain p2 where 2: "blit p1 o2 b = Some p2" "length p2 = length pc" using blit_exists [of o2 b p1] assms(2) 1 by auto
  obtain p3 where 3: "blit p2 o3 c = Some p3" "length p3 = length pc" using blit_exists [of o3 c p2] assms(3) 2 by auto
  from 1 2 3 show thesis by (intro that)
qed

text \<open>
  A chunk of a page, from column \<open>col\<close> on, and of its spare area, from \<open>ooboffs\<close> on: out of the page
  cache into the buffers of a read, and out of the buffers of a write into the page cache, with 0xff
  around it. The results are the request, what is left to move and where the next page starts.
\<close>

definition to_user_dat :: "bytes \<Rightarrow> nat \<Rightarrow> mtd_oob_ops \<Rightarrow> nat \<Rightarrow> nat \<Rightarrow> (mtd_oob_ops \<times> nat \<times> nat) option" where
  "to_user_dat pc ws ops len col =
     (if len = 0 then Some (ops, len, col)
      else do {
        let chklen = min (ws - col) len;
        src \<leftarrow> slice pc col chklen;
        buf \<leftarrow> ops_datbuf ops;
        buf \<leftarrow> blit buf (ops_retlen ops) src;
        Some (ops\<lparr>ops_datbuf := Some buf, ops_retlen := ops_retlen ops + chklen\<rparr>, len - chklen, 0) })"

definition to_user_oob ::
    "bytes \<Rightarrow> nat \<Rightarrow> nat \<Rightarrow> mtd_oob_ops \<Rightarrow> nat \<Rightarrow> nat \<Rightarrow> (mtd_oob_ops \<times> nat \<times> nat) option" where
  "to_user_oob pc ws maxooblen ops ooblen ooboffs =
     (if ooblen = 0 then Some (ops, ooblen, ooboffs)
      else do {
        let chklen = min (maxooblen - ooboffs) ooblen;
        src \<leftarrow> slice pc (ws + ooboffs) chklen;
        buf \<leftarrow> ops_oobbuf ops;
        buf \<leftarrow> blit buf (ops_oobretlen ops) src;
        Some (ops\<lparr>ops_oobbuf := Some buf, ops_oobretlen := ops_oobretlen ops + chklen\<rparr>,
          ooblen - chklen, 0) })"

definition from_user_dat ::
    "bytes \<Rightarrow> nat \<Rightarrow> mtd_oob_ops \<Rightarrow> nat \<Rightarrow> nat \<Rightarrow> (mtd_oob_ops \<times> nat \<times> nat \<times> bytes) option" where
  "from_user_dat pc ws ops len col =
     (if len = 0 then Some (ops, len, col, pc)
      else do {
        let chklen = min (ws - col) len;
        pc \<leftarrow> blit pc 0 (replicate col 0xff);
        buf \<leftarrow> ops_datbuf ops;
        src \<leftarrow> slice buf (ops_retlen ops) chklen;
        pc \<leftarrow> blit pc col src;
        pc \<leftarrow> blit pc (col + chklen) (replicate (ws - col - chklen) 0xff);
        Some (ops\<lparr>ops_retlen := ops_retlen ops + chklen\<rparr>, len - chklen, 0, pc) })"

definition from_user_oob ::
    "bytes \<Rightarrow> nat \<Rightarrow> nat \<Rightarrow> nat \<Rightarrow> mtd_oob_ops \<Rightarrow> nat \<Rightarrow> nat \<Rightarrow>
     (mtd_oob_ops \<times> nat \<times> nat \<times> nat \<times> bytes) option" where
  "from_user_oob pc ws os maxooblen ops ooblen ooboffs =
     (if ooblen = 0 then Some (ops, ooblen, ooboffs, 0, pc)
      else do {
        let chklen = min (maxooblen - ooboffs) ooblen;
        pc \<leftarrow> blit pc ws (replicate ooboffs 0xff);
        buf \<leftarrow> ops_oobbuf ops;
        src \<leftarrow> slice buf (ops_oobretlen ops) chklen;
        pc \<leftarrow> blit pc (ws + ooboffs) src;
        pc \<leftarrow> blit pc (ws + ooboffs + chklen) (replicate (os - ooboffs - chklen) 0xff);
        Some (ops\<lparr>ops_oobretlen := ops_oobretlen ops + chklen\<rparr>, ooblen - chklen, 0, chklen + ooboffs, pc) })"

text \<open>
  The state between two pages: a column and a spare-area offset that leave room in the page, and room
  in the caller's buffers for what is left.
\<close>

definition chunks :: "nat \<Rightarrow> nat \<Rightarrow> nat \<Rightarrow> mtd_oob_ops \<Rightarrow> nat \<Rightarrow> nat \<Rightarrow> nat \<Rightarrow> nat \<Rightarrow> bool" where
  "chunks ws os maxooblen ops len ooblen col ooboffs \<longleftrightarrow> col < ws \<and> (ooblen \<noteq> 0 \<longrightarrow> ooboffs < maxooblen) \<and>
     maxooblen \<le> os \<and> room (ops_datbuf ops) (ops_retlen ops) len \<and> room (ops_oobbuf ops) (ops_oobretlen ops) ooblen"

text \<open>The chunk taken at a column advances: it is empty only when nothing is left.\<close>

lemma to_user_dat_ok:
  assumes "ws \<le> length pc" and "col < ws" and "room (ops_datbuf ops) (ops_retlen ops) len"
  shows "ok (to_user_dat pc ws ops len col) (\<lambda>(ops', len', col'). col' < ws \<and>
    (\<exists>n. len = n + len' \<and> (len \<noteq> 0 \<longrightarrow> 0 < n) \<and> filled ops n 0 ops'))"
proof (cases "len = 0")
  case True
  then show ?thesis using assms(2) by (simp add: to_user_dat_def)
next
  case False
  with assms(3) obtain buf where b: "ops_datbuf ops = Some buf" "ops_retlen ops + len \<le> length buf"
    by (auto simp: room_def)
  define k where "k = min (ws - col) len"
  have k: "0 < k" "k \<le> len" "col + k \<le> length pc" using assms(1,2) False by (auto simp: k_def)
  obtain src where src: "slice pc col k = Some src" "length src = k" using slice_exists [OF k(3)] by auto
  obtain buf' where bl: "blit buf (ops_retlen ops) src = Some buf'" and lb: "length buf' = length buf"
    using blit_exists [of "ops_retlen ops" src buf] b(2) k(2) src(2) by auto
  have "filled ops k 0 (ops\<lparr>ops_datbuf := Some buf', ops_retlen := ops_retlen ops + k\<rparr>)"
    using filledI [of "Some buf'" ops "ops_oobbuf ops" k 0] b(1) lb by (simp add: ops_update_order)
  then have "\<exists>n. len = n + (len - k) \<and> (len \<noteq> 0 \<longrightarrow> 0 < n) \<and>
      filled ops n 0 (ops\<lparr>ops_datbuf := Some buf', ops_retlen := ops_retlen ops + k\<rparr>)"
    using k by (intro exI [of _ k]) simp
  then show ?thesis
    using assms(2) False by (simp add: to_user_dat_def k_def [symmetric] src(1) b(1) bl)
qed

lemma to_user_oob_ok:
  assumes "ws + os \<le> length pc" and "ooblen \<noteq> 0 \<longrightarrow> ooboffs < maxooblen" and "maxooblen \<le> os"
    and "room (ops_oobbuf ops) (ops_oobretlen ops) ooblen"
  shows "ok (to_user_oob pc ws maxooblen ops ooblen ooboffs) (\<lambda>(ops', ooblen', ooboffs').
    (ooblen' \<noteq> 0 \<longrightarrow> ooboffs' < maxooblen) \<and>
    (\<exists>n. ooblen = n + ooblen' \<and> (ooblen \<noteq> 0 \<longrightarrow> 0 < n) \<and> filled ops 0 n ops'))"
proof (cases "ooblen = 0")
  case True
  then show ?thesis by (simp add: to_user_oob_def)
next
  case False
  with assms(4) obtain buf where b: "ops_oobbuf ops = Some buf" "ops_oobretlen ops + ooblen \<le> length buf"
    by (auto simp: room_def)
  define k where "k = min (maxooblen - ooboffs) ooblen"
  have k: "0 < k" "k \<le> ooblen" "ws + ooboffs + k \<le> length pc" using assms(1-3) False by (auto simp: k_def)
  obtain src where src: "slice pc (ws + ooboffs) k = Some src" "length src = k" using slice_exists [OF k(3)] by auto
  obtain buf' where bl: "blit buf (ops_oobretlen ops) src = Some buf'" and lb: "length buf' = length buf"
    using blit_exists [of "ops_oobretlen ops" src buf] b(2) k(2) src(2) by auto
  have "filled ops 0 k (ops\<lparr>ops_oobbuf := Some buf', ops_oobretlen := ops_oobretlen ops + k\<rparr>)"
    using filledI [of "ops_datbuf ops" ops "Some buf'" 0 k] b(1) lb by (simp add: ops_update_order)
  then have "\<exists>n. ooblen = n + (ooblen - k) \<and> (ooblen \<noteq> 0 \<longrightarrow> 0 < n) \<and>
      filled ops 0 n (ops\<lparr>ops_oobbuf := Some buf', ops_oobretlen := ops_oobretlen ops + k\<rparr>)"
    using k by (intro exI [of _ k]) simp
  moreover have "0 < maxooblen" using assms(2) False by simp
  ultimately show ?thesis
    using False by (simp add: to_user_oob_def k_def [symmetric] src(1) b(1) bl)
qed

lemma from_user_dat_ok:
  assumes "ws \<le> length pc" and "col < ws" and "room (ops_datbuf ops) (ops_retlen ops) len"
  shows "ok (from_user_dat pc ws ops len col) (\<lambda>(ops', len', col', pc').
    length pc' = length pc \<and> col' < ws \<and>
    (\<exists>n. len = n + len' \<and> (len \<noteq> 0 \<longrightarrow> 0 < n) \<and> filled ops n 0 ops'))"
proof (cases "len = 0")
  case True
  then show ?thesis using assms(2) by (simp add: from_user_dat_def)
next
  case False
  with assms(3) obtain buf where b: "ops_datbuf ops = Some buf" "ops_retlen ops + len \<le> length buf"
    by (auto simp: room_def)
  define k where "k = min (ws - col) len"
  have k: "0 < k" "k \<le> len" "col + k \<le> ws" using assms(2) False by (auto simp: k_def)
  obtain src where src: "slice buf (ops_retlen ops) k = Some src" "length src = k"
    using slice_exists [of "ops_retlen ops" k buf] b(2) k(2) by auto
  have "0 + length (replicate col (0xff :: u8)) \<le> length pc" "col + length src \<le> length pc"
    "(col + k) + length (replicate (ws - col - k) (0xff :: u8)) \<le> length pc"
    using k(3) assms(1) src(2) by simp_all
  then obtain p1 p2 p3 where p: "blit pc 0 (replicate col 0xff) = Some p1"
      "blit p1 col src = Some p2" "blit p2 (col + k) (replicate (ws - col - k) 0xff) = Some p3"
      "length p3 = length pc" by (rule three_blits)
  have "filled ops k 0 (ops\<lparr>ops_retlen := ops_retlen ops + k\<rparr>)"
    using filledI [of "ops_datbuf ops" ops "ops_oobbuf ops" k 0] by simp
  then have "\<exists>n. len = n + (len - k) \<and> (len \<noteq> 0 \<longrightarrow> 0 < n) \<and> filled ops n 0 (ops\<lparr>ops_retlen := ops_retlen ops + k\<rparr>)"
    using k by (intro exI [of _ k]) simp
  then show ?thesis
    using assms(2) False
    by (simp add: from_user_dat_def Let_def k_def [symmetric] p(1,2,4) p(3) [unfolded diff_diff_left] b(1) src)
qed

lemma from_user_oob_ok:
  assumes "ws + os \<le> length pc" and "ooblen \<noteq> 0 \<longrightarrow> ooboffs < maxooblen" and "maxooblen \<le> os"
    and "room (ops_oobbuf ops) (ops_oobretlen ops) ooblen"
  shows "ok (from_user_oob pc ws os maxooblen ops ooblen ooboffs) (\<lambda>(ops', ooblen', ooboffs', wrlen, pc').
    length pc' = length pc \<and> wrlen \<le> os \<and> (ooblen' \<noteq> 0 \<longrightarrow> ooboffs' < maxooblen) \<and>
    (\<exists>n. ooblen = n + ooblen' \<and> (ooblen \<noteq> 0 \<longrightarrow> 0 < n) \<and> filled ops 0 n ops'))"
proof (cases "ooblen = 0")
  case True
  then show ?thesis by (simp add: from_user_oob_def)
next
  case False
  with assms(4) obtain buf where b: "ops_oobbuf ops = Some buf" "ops_oobretlen ops + ooblen \<le> length buf"
    by (auto simp: room_def)
  define k where "k = min (maxooblen - ooboffs) ooblen"
  have k: "0 < k" "k \<le> ooblen" "ooboffs + k \<le> os" using assms(2,3) False by (auto simp: k_def)
  obtain src where src: "slice buf (ops_oobretlen ops) k = Some src" "length src = k"
    using slice_exists [of "ops_oobretlen ops" k buf] b(2) k(2) by auto
  have "ws + length (replicate ooboffs (0xff :: u8)) \<le> length pc" "ws + ooboffs + length src \<le> length pc"
    "(ws + ooboffs + k) + length (replicate (os - ooboffs - k) (0xff :: u8)) \<le> length pc"
    using k(3) assms(1) src(2) by simp_all
  then obtain p1 p2 p3 where p: "blit pc ws (replicate ooboffs 0xff) = Some p1"
      "blit p1 (ws + ooboffs) src = Some p2"
      "blit p2 (ws + ooboffs + k) (replicate (os - ooboffs - k) 0xff) = Some p3"
      "length p3 = length pc" by (rule three_blits)
  have "filled ops 0 k (ops\<lparr>ops_oobretlen := ops_oobretlen ops + k\<rparr>)"
    using filledI [of "ops_datbuf ops" ops "ops_oobbuf ops" 0 k] by simp
  then have "\<exists>n. ooblen = n + (ooblen - k) \<and> (ooblen \<noteq> 0 \<longrightarrow> 0 < n) \<and> filled ops 0 n (ops\<lparr>ops_oobretlen := ops_oobretlen ops + k\<rparr>)"
    using k by (intro exI [of _ k]) simp
  moreover have "0 < maxooblen" using assms(2) False by simp
  ultimately show ?thesis
    using False k(3)
    by (simp add: from_user_oob_def Let_def k_def [symmetric] p(1,2,4) p(3) [unfolded diff_diff_left] b(1) src)
qed

text \<open>Both chunks of a page: the state of the loop after them, and some progress.\<close>

lemma to_user_ok:
  assumes c: "chunks ws os maxooblen ops len ooblen col ooboffs" and pc: "ws + os \<le> length pc"
    and step: "\<And>ops' len' col' ooblen' ooboffs' n k. len = n + len' \<Longrightarrow> ooblen = k + ooblen' \<Longrightarrow>
      (len \<noteq> 0 \<or> ooblen \<noteq> 0 \<longrightarrow> 0 < n + k) \<Longrightarrow> filled ops n k ops' \<Longrightarrow>
      chunks ws os maxooblen ops' len' ooblen' col' ooboffs' \<Longrightarrow> ok (f ops' len' col' ooblen' ooboffs') Q"
  shows "ok (Option.bind (to_user_dat pc ws ops len col) (\<lambda>(ops, len, col).
           Option.bind (to_user_oob pc ws maxooblen ops ooblen ooboffs) (\<lambda>(ops, ooblen, ooboffs).
             f ops len col ooblen ooboffs))) Q"
proof (rule ok_bind3 [OF to_user_dat_ok])
  note c = c [unfolded chunks_def]
  show "ws \<le> length pc" "col < ws" "room (ops_datbuf ops) (ops_retlen ops) len" using c pc by simp_all
  fix ops1 len1 col1
  assume 1: "col1 < ws \<and> (\<exists>n. len = n + len1 \<and> (len \<noteq> 0 \<longrightarrow> 0 < n) \<and> filled ops n 0 ops1)"
  then obtain n where n: "len = n + len1" "len \<noteq> 0 \<longrightarrow> 0 < n" "filled ops n 0 ops1" by blast
  have r1: "room (ops_oobbuf ops1) (ops_oobretlen ops1) ooblen" "room (ops_datbuf ops1) (ops_retlen ops1) len1"
    using room_filled [OF n(3)] c n(1) by simp_all
  show "ok (Option.bind (to_user_oob pc ws maxooblen ops1 ooblen ooboffs) (\<lambda>(ops, ooblen, ooboffs).
      f ops len1 col1 ooblen ooboffs)) Q"
  proof (rule ok_bind3 [OF to_user_oob_ok [OF pc _ _ r1(1)]])
    show "ooblen \<noteq> 0 \<longrightarrow> ooboffs < maxooblen" using c by simp
    show "maxooblen \<le> os" using c by simp
    fix ops2 ooblen2 ooboffs2
    assume 2: "(ooblen2 \<noteq> 0 \<longrightarrow> ooboffs2 < maxooblen) \<and>
      (\<exists>k. ooblen = k + ooblen2 \<and> (ooblen \<noteq> 0 \<longrightarrow> 0 < k) \<and> filled ops1 0 k ops2)"
    then obtain k where k: "ooblen = k + ooblen2" "ooblen \<noteq> 0 \<longrightarrow> 0 < k" "filled ops1 0 k ops2" by blast
    have fl: "filled ops n k ops2" using filled_trans [OF n(3) k(3)] by simp
    show "ok (f ops2 len1 col1 ooblen2 ooboffs2) Q"
    proof (rule step [OF n(1) k(1) _ fl])
      show "len \<noteq> 0 \<or> ooblen \<noteq> 0 \<longrightarrow> 0 < n + k" using n(2) k(2) by auto
      show "chunks ws os maxooblen ops2 len1 ooblen2 col1 ooboffs2"
        using 1 2 c room_filled [OF k(3)] r1 k(1) by (simp add: chunks_def)
    qed
  qed
qed

lemma from_user_ok:
  assumes c: "chunks ws os maxooblen ops len ooblen col ooboffs" and pc: "ws + os \<le> length pc"
    and step: "\<And>ops' len' col' ooblen' ooboffs' n k wrlen pc'. len = n + len' \<Longrightarrow> ooblen = k + ooblen' \<Longrightarrow>
      (len \<noteq> 0 \<or> ooblen \<noteq> 0 \<longrightarrow> 0 < n + k) \<Longrightarrow> filled ops n k ops' \<Longrightarrow> length pc' = length pc \<Longrightarrow> wrlen \<le> os \<Longrightarrow>
      chunks ws os maxooblen ops' len' ooblen' col' ooboffs' \<Longrightarrow> ok (f ops' len' col' ooblen' ooboffs' wrlen pc') Q"
  shows "ok (Option.bind (from_user_dat pc ws ops len col) (\<lambda>(ops, len, col, pc).
           Option.bind (from_user_oob pc ws os maxooblen ops ooblen ooboffs) (\<lambda>(ops, ooblen, ooboffs, wrlen, pc).
             f ops len col ooblen ooboffs wrlen pc))) Q"
proof (rule ok_bind4 [OF from_user_dat_ok])
  note c = c [unfolded chunks_def]
  show "ws \<le> length pc" "col < ws" "room (ops_datbuf ops) (ops_retlen ops) len" using c pc by simp_all
  fix ops1 len1 col1 and pc1 :: bytes
  assume 1: "length pc1 = length pc \<and> col1 < ws \<and> (\<exists>n. len = n + len1 \<and> (len \<noteq> 0 \<longrightarrow> 0 < n) \<and> filled ops n 0 ops1)"
  then obtain n where n: "len = n + len1" "len \<noteq> 0 \<longrightarrow> 0 < n" "filled ops n 0 ops1" by blast
  have r1: "room (ops_oobbuf ops1) (ops_oobretlen ops1) ooblen" "room (ops_datbuf ops1) (ops_retlen ops1) len1"
    using room_filled [OF n(3)] c n(1) by simp_all
  have pc1: "ws + os \<le> length pc1" using 1 pc by simp
  have oc: "ooblen \<noteq> 0 \<longrightarrow> ooboffs < maxooblen" "maxooblen \<le> os" using c by simp_all
  show "ok (Option.bind (from_user_oob pc1 ws os maxooblen ops1 ooblen ooboffs) (\<lambda>(ops, ooblen, ooboffs, wrlen, pc).
      f ops len1 col1 ooblen ooboffs wrlen pc)) Q"
  proof (rule ok_bind5 [OF from_user_oob_ok [OF pc1 oc r1(1)]])
    fix ops2 ooblen2 ooboffs2 wrlen and pc2 :: bytes
    assume 2: "length pc2 = length pc1 \<and> wrlen \<le> os \<and> (ooblen2 \<noteq> 0 \<longrightarrow> ooboffs2 < maxooblen) \<and>
      (\<exists>k. ooblen = k + ooblen2 \<and> (ooblen \<noteq> 0 \<longrightarrow> 0 < k) \<and> filled ops1 0 k ops2)"
    then obtain k where k: "ooblen = k + ooblen2" "ooblen \<noteq> 0 \<longrightarrow> 0 < k" "filled ops1 0 k ops2" by blast
    have fl: "filled ops n k ops2" using filled_trans [OF n(3) k(3)] by simp
    have ch: "chunks ws os maxooblen ops2 len1 ooblen2 col1 ooboffs2"
      using 1 2 c room_filled [OF k(3)] r1 k(1) by (simp add: chunks_def)
    show "ok (f ops2 len1 col1 ooblen2 ooboffs2 wrlen pc2) Q"
      using step [OF n(1) k(1) _ fl _ _ ch] n(2) k(2) 1 2 by auto
  qed
qed

end
