(* ===== verification/Nmbm_Mtd.thy ===== *)
theory Nmbm_Mtd
  imports Nmbm_Logic Mtd_Request
begin

text \<open>
  The MTD layer of NMBM (nmbm-mtd.c): the adapters that turn the lower MTD device into NMBM's
  lower device, the state machine that serialises access, and the operations of the upper MTD
  device. The kernel's MTD core is the record of functions \<open>lower_mtd\<close>; requests are those of
  \<open>Mtd_Request\<close>, and \<open>oobav\<close> is the kernel's \<open>mtd_oobavail\<close>.
\<close>

section \<open>Data\<close>

record 'c lower_mtd =
  lm_size :: u64
  lm_erasesize :: u32
  lm_writesize :: u32
  lm_oobsize :: u32
  lm_oobavail :: u32
  lm_writesize_mask :: u32
  lm_writesize_shift :: u32
  lm_bitflip_threshold :: u32
  lm_ecc_strength :: u32
  lm_read_oob :: "u64 \<Rightarrow> mtd_oob_ops \<Rightarrow> 'c \<Rightarrow> int \<times> mtd_oob_ops \<times> 'c"
  lm_write_oob :: "u64 \<Rightarrow> mtd_oob_ops \<Rightarrow> 'c \<Rightarrow> int \<times> 'c"
  lm_panic_write :: "u64 \<Rightarrow> u32 \<Rightarrow> bytes \<Rightarrow> 'c \<Rightarrow> int \<times> 'c"
  lm_erase :: "u64 \<Rightarrow> u32 \<Rightarrow> 'c \<Rightarrow> int \<times> 'c"
  lm_block_isbad :: "u64 \<Rightarrow> 'c \<Rightarrow> int \<times> 'c"
  lm_block_markbad :: "u64 \<Rightarrow> 'c \<Rightarrow> int \<times> 'c"
  lm_ecc_stats :: "'c \<Rightarrow> u32 \<times> u32"

text \<open>The state behind NMBM's lower device: the lower MTD device and the upper ECC statistics.\<close>

record 'c nm_chip =
  nm_dev :: 'c
  upper_corrected :: u32
  upper_failed :: u32

datatype flstate = FL_READY | FL_READING | FL_WRITING | FL_ERASING | FL_PM_SUSPENDED

record 'c nmbm_mtd =
  upper_size :: u64
  nm_lower :: "'c lower_mtd"
  nm_ni :: "'c nm_chip nmbm_instance"
  nm_page_cache :: bytes
  fl_state :: flstate

section \<open>The lower device\<close>

definition ops_mode_of :: "nmbm_oob_mode \<Rightarrow> u32" where
  "ops_mode_of mode = (case mode of NMBM_MODE_PLACE_OOB \<Rightarrow> MTD_OPS_PLACE_OOB
     | NMBM_MODE_AUTO_OOB \<Rightarrow> MTD_OPS_AUTO_OOB | NMBM_MODE_RAW \<Rightarrow> MTD_OPS_RAW)"

definition lower_ops ::
    "oobav_fun \<Rightarrow> 'c lower_mtd \<Rightarrow> bytes option \<Rightarrow> bytes option \<Rightarrow> nmbm_oob_mode \<Rightarrow> mtd_oob_ops" where
  "lower_ops oobav lm buf oob mode =
     (let ops = zero_ops\<lparr>ops_mode := ops_mode_of mode\<rparr>;
          ops = (if buf \<noteq> None then ops\<lparr>ops_datbuf := buf, ops_len := unat (lm_writesize lm)\<rparr> else ops);
          ops = (if oob \<noteq> None then ops\<lparr>ops_oobbuf := oob,
                   ops_ooblen := unat (oobav (lm_oobsize lm) (lm_oobavail lm) (ops_mode_of mode))\<rparr>
                 else ops)
      in ops)"

definition bytes_of :: "bytes option \<Rightarrow> bytes" where
  "bytes_of b = (case b of None \<Rightarrow> [] | Some xs \<Rightarrow> xs)"

definition nmbm_lower_read_page ::
    "oobav_fun \<Rightarrow> 'c lower_mtd \<Rightarrow> u64 \<Rightarrow> bytes option \<Rightarrow> bytes option \<Rightarrow> nmbm_oob_mode \<Rightarrow> 'c nm_chip \<Rightarrow>
     int \<times> bytes \<times> bytes \<times> 'c nm_chip" where
  "nmbm_lower_read_page oobav lm addr buf oob mode nc =
     (let (ret, ops, c) = lm_read_oob lm addr (lower_ops oobav lm buf oob mode) (nm_dev nc);
          (corrected, failed) = lm_ecc_stats lm c;
          nc = nc\<lparr>nm_dev := c, upper_corrected := corrected, upper_failed := failed\<rparr>;
          ret = (if ret < 0 \<and> ret \<noteq> - EUCLEAN then ret
                 else if ret = - EUCLEAN
                 then sint (min (lm_bitflip_threshold lm + 1) (lm_ecc_strength lm))
                 else 0)
      in (ret, bytes_of (ops_datbuf ops), bytes_of (ops_oobbuf ops), nc))"

definition nmbm_lower_write_page ::
    "oobav_fun \<Rightarrow> 'c lower_mtd \<Rightarrow> u64 \<Rightarrow> bytes option \<Rightarrow> bytes option \<Rightarrow> nmbm_oob_mode \<Rightarrow> 'c nm_chip \<Rightarrow>
     int \<times> 'c nm_chip" where
  "nmbm_lower_write_page oobav lm addr buf oob mode nc =
     (let (ret, c) = lm_write_oob lm addr (lower_ops oobav lm buf oob mode) (nm_dev nc)
      in (ret, nc\<lparr>nm_dev := c\<rparr>))"

definition nmbm_lower_panic_write_page ::
    "'c lower_mtd \<Rightarrow> u64 \<Rightarrow> bytes \<Rightarrow> 'c nm_chip \<Rightarrow> int \<times> 'c nm_chip" where
  "nmbm_lower_panic_write_page lm addr buf nc =
     (let (ret, c) = lm_panic_write lm addr (lm_writesize lm) buf (nm_dev nc) in (ret, nc\<lparr>nm_dev := c\<rparr>))"

definition nmbm_lower_erase_block :: "'c lower_mtd \<Rightarrow> u64 \<Rightarrow> 'c nm_chip \<Rightarrow> int \<times> 'c nm_chip" where
  "nmbm_lower_erase_block lm addr nc =
     (let (ret, c) = lm_erase lm addr (lm_erasesize lm) (nm_dev nc) in (ret, nc\<lparr>nm_dev := c\<rparr>))"

definition nmbm_lower_is_bad_block :: "'c lower_mtd \<Rightarrow> u64 \<Rightarrow> 'c nm_chip \<Rightarrow> int \<times> 'c nm_chip" where
  "nmbm_lower_is_bad_block lm addr nc =
     (let (ret, c) = lm_block_isbad lm addr (nm_dev nc) in (ret, nc\<lparr>nm_dev := c\<rparr>))"

definition nmbm_lower_mark_bad_block :: "'c lower_mtd \<Rightarrow> u64 \<Rightarrow> 'c nm_chip \<Rightarrow> int \<times> 'c nm_chip" where
  "nmbm_lower_mark_bad_block lm addr nc =
     (let (ret, c) = lm_block_markbad lm addr (nm_dev nc) in (ret, nc\<lparr>nm_dev := c\<rparr>))"

section \<open>Serialising access\<close>

text \<open>
  One pass of nmbm_get_device over the state under the spin lock: the new state, or \<open>None\<close> when
  the caller queues itself and sleeps until the next release.
\<close>

definition get_pass :: "flstate \<Rightarrow> flstate \<Rightarrow> flstate option" where
  "get_pass state new_state =
     (if state = FL_READY then Some new_state
      else if new_state = FL_PM_SUSPENDED \<and> state = FL_PM_SUSPENDED then Some state
      else None)"

text \<open>
  The device shared by tasks: its state, the tasks that have returned from nmbm_get_device and
  not released, and the tasks asleep on the wait queue with the state they want. A release wakes
  every sleeper, which then tries again.
\<close>

record gate =
  g_state :: flstate
  g_holders :: "(nat \<times> flstate) list"
  g_sleepers :: "(nat \<times> flstate) list"

inductive gate_step :: "gate \<Rightarrow> gate \<Rightarrow> bool" where
  enter: "want \<noteq> FL_READY \<Longrightarrow> get_pass (g_state g) want = Some s \<Longrightarrow>
    gate_step g (g\<lparr>g_state := s, g_holders := (t, want) # g_holders g\<rparr>)"
| sleep: "want \<noteq> FL_READY \<Longrightarrow> get_pass (g_state g) want = None \<Longrightarrow>
    gate_step g (g\<lparr>g_sleepers := (t, want) # g_sleepers g\<rparr>)"
| retry: "(t, want) \<in> set (g_sleepers g) \<Longrightarrow> get_pass (g_state g) want = Some s \<Longrightarrow>
    gate_step g (g\<lparr>g_state := s, g_holders := (t, want) # g_holders g,
      g_sleepers := remove1 (t, want) (g_sleepers g)\<rparr>)"
| release: "(t, want) \<in> set (g_holders g) \<Longrightarrow> want \<noteq> FL_PM_SUSPENDED \<Longrightarrow>
    gate_step g (g\<lparr>g_state := FL_READY, g_holders := remove1 (t, want) (g_holders g)\<rparr>)"

definition gate_init :: gate where
  "gate_init = \<lparr>g_state = FL_READY, g_holders = [], g_sleepers = []\<rparr>"

text \<open>In a single task a device that is not ready is never released: the call does not return.\<close>

definition nmbm_get_device :: "'c nmbm_mtd \<Rightarrow> flstate \<Rightarrow> 'c nmbm_mtd option" where
  "nmbm_get_device nm new_state =
     (case get_pass (fl_state nm) new_state of
        Some s \<Rightarrow> Some (nm\<lparr>fl_state := s\<rparr>) | None \<Rightarrow> None)"

definition nmbm_release_device :: "'c nmbm_mtd \<Rightarrow> 'c nmbm_mtd" where
  "nmbm_release_device nm = nm\<lparr>fl_state := FL_READY\<rparr>"

section \<open>Erase and read\<close>

text \<open>The second component is \<open>instr->fail_addr\<close>, when the callee wrote it.\<close>

definition nmbm_mtd_erase ::
    "crc_fun \<Rightarrow> 'c nmbm_mtd \<Rightarrow> u64 \<Rightarrow> u64 \<Rightarrow> (int \<times> u64 option \<times> 'c nmbm_mtd) option" where
  "nmbm_mtd_erase crc nm addr len = do {
     nm \<leftarrow> nmbm_get_device nm FL_ERASING;
     (ret, fail_addr, ni) \<leftarrow> nmbm_erase_block_range crc (nm_ni nm) addr len;
     let nm = nmbm_release_device (nm\<lparr>nm_ni := ni\<rparr>);
     Some (if ret = 0 then 0 else - EIO, fail_addr, nm) }"

text \<open>
  The state of the page loops of nmbm_mtd_read_data and nmbm_mtd_write_data. \<open>useDat\<close> and
  \<open>useOob\<close> say whether the cache pointers were set before the loop.
\<close>

definition dat_cache :: "'c nmbm_mtd \<Rightarrow> bool \<Rightarrow> bytes option option" where
  "dat_cache nm use = (if use then map_option Some
     (slice (nm_page_cache nm) 0 (unat (lm_writesize (nm_lower nm)))) else Some None)"

definition oob_cache :: "'c nmbm_mtd \<Rightarrow> bool \<Rightarrow> bytes option option" where
  "oob_cache nm use = (if use then map_option Some
     (slice (nm_page_cache nm) (unat (lm_writesize (nm_lower nm))) (unat (lm_oobsize (nm_lower nm))))
     else Some None)"

definition put_cache :: "'c nmbm_mtd \<Rightarrow> nat \<Rightarrow> bytes option \<Rightarrow> 'c nmbm_mtd option" where
  "put_cache nm off b = (case b of None \<Rightarrow> Some nm
     | Some xs \<Rightarrow> do { pc \<leftarrow> blit (nm_page_cache nm) off xs; Some (nm\<lparr>nm_page_cache := pc\<rparr>) })"

definition move_dat ::
    "'c nmbm_mtd \<Rightarrow> mtd_oob_ops \<Rightarrow> nat \<Rightarrow> nat \<Rightarrow> (mtd_oob_ops \<times> nat \<times> nat) option" where
  "move_dat nm ops len col =
     (if len = 0 then Some (ops, len, col)
      else do {
        let chklen = min (unat (lm_writesize (nm_lower nm)) - col) len;
        src \<leftarrow> slice (nm_page_cache nm) col chklen;
        buf \<leftarrow> ops_datbuf ops;
        buf \<leftarrow> blit buf (ops_retlen ops) src;
        Some (ops\<lparr>ops_datbuf := Some buf, ops_retlen := ops_retlen ops + chklen\<rparr>, len - chklen, 0) })"

definition move_oob ::
    "'c nmbm_mtd \<Rightarrow> mtd_oob_ops \<Rightarrow> nat \<Rightarrow> nat \<Rightarrow> nat \<Rightarrow> (mtd_oob_ops \<times> nat \<times> nat) option" where
  "move_oob nm ops ooblen ooboffs maxooblen =
     (if ooblen = 0 then Some (ops, ooblen, ooboffs)
      else do {
        let chklen = min (maxooblen - ooboffs) ooblen;
        src \<leftarrow> slice (nm_page_cache nm) (unat (lm_writesize (nm_lower nm)) + ooboffs) chklen;
        buf \<leftarrow> ops_oobbuf ops;
        buf \<leftarrow> blit buf (ops_oobretlen ops) src;
        Some (ops\<lparr>ops_oobbuf := Some buf, ops_oobretlen := ops_oobretlen ops + chklen\<rparr>,
          ooblen - chklen, 0) })"

partial_function (option) read_data_pages ::
    "'c nmbm_mtd \<Rightarrow> u64 \<Rightarrow> mtd_oob_ops \<Rightarrow> nmbm_oob_mode \<Rightarrow> bool \<Rightarrow> bool \<Rightarrow> nat \<Rightarrow> nat \<Rightarrow> nat \<Rightarrow> nat \<Rightarrow>
     nat \<Rightarrow> bool \<times> int \<Rightarrow> (int \<times> mtd_oob_ops \<times> 'c nmbm_mtd) option" where
  "read_data_pages nm addr ops mode useDat useOob len ooblen col ooboffs maxooblen acc =
     (if len \<noteq> 0 \<or> ooblen \<noteq> 0 then
        Option.bind (dat_cache nm useDat) (\<lambda>datcache.
        Option.bind (oob_cache nm useOob) (\<lambda>oobcache.
        Option.bind (nmbm_read_single_page (nm_ni nm) addr datcache oobcache mode) (\<lambda>(ret, dat, oob, ni).
        Option.bind (put_cache (nm\<lparr>nm_ni := ni\<rparr>) 0 dat) (\<lambda>nm.
        Option.bind (put_cache nm (unat (lm_writesize (nm_lower nm))) oob) (\<lambda>nm.
          if hard_error ret then Some (ret, ops, nm)
          else
            Option.bind (move_dat nm ops len col) (\<lambda>(ops, len, col).
            Option.bind (move_oob nm ops ooblen ooboffs maxooblen) (\<lambda>(ops, ooblen, ooboffs).
              read_data_pages nm (addr + ucast (lm_writesize (nm_lower nm))) ops mode useDat useOob
                len ooblen col ooboffs maxooblen (note_ret ret acc))))))))
      else Some (if fst acc then - EBADMSG else snd acc, ops, nm))"

definition page_start_addr :: "'c nmbm_mtd \<Rightarrow> u64 \<Rightarrow> u64" where
  "page_start_addr nm addr = addr AND ucast (NOT (lm_writesize_mask (nm_lower nm)))"

definition page_col :: "'c nmbm_mtd \<Rightarrow> u64 \<Rightarrow> nat" where
  "page_col nm addr = unat (ucast (addr AND ucast (lm_writesize_mask (nm_lower nm))) :: u32)"

definition max_ooblen :: "oobav_fun \<Rightarrow> 'c nmbm_mtd \<Rightarrow> mtd_oob_ops \<Rightarrow> u32" where
  "max_ooblen oobav nm ops = oobav (lm_oobsize (nm_lower nm)) (lm_oobavail (nm_lower nm)) (ops_mode ops)"

definition nmbm_mtd_read_data ::
    "oobav_fun \<Rightarrow> 'c nmbm_mtd \<Rightarrow> u64 \<Rightarrow> mtd_oob_ops \<Rightarrow> nmbm_oob_mode \<Rightarrow>
     (int \<times> mtd_oob_ops \<times> 'c nmbm_mtd) option" where
  "nmbm_mtd_read_data oobav nm addr ops mode =
     read_data_pages nm (page_start_addr nm addr) (ops\<lparr>ops_oobretlen := 0, ops_retlen := 0\<rparr>) mode
       (ops_len ops \<noteq> 0) (ops_ooblen ops \<noteq> 0) (ops_len ops) (ops_ooblen ops) (page_col nm addr)
       (unat (ops_ooboffs ops)) (unat (max_ooblen oobav nm ops)) (False, 0)"

definition mode_of_ops :: "u32 \<Rightarrow> nmbm_oob_mode option" where
  "mode_of_ops m =
     (if m = MTD_OPS_PLACE_OOB then Some NMBM_MODE_PLACE_OOB
      else if m = MTD_OPS_AUTO_OOB then Some NMBM_MODE_AUTO_OOB
      else if m = MTD_OPS_RAW then Some NMBM_MODE_RAW else None)"

text \<open>The checks that nmbm_mtd_read_oob and nmbm_mtd_write_oob make on spare-area requests.\<close>

definition beyond_end :: "'c nmbm_mtd \<Rightarrow> u64 \<Rightarrow> mtd_oob_ops \<Rightarrow> u32 \<Rightarrow> bool" where
  "beyond_end nm from ops maxooblen \<longleftrightarrow>
     (let sh = unat (lm_writesize_shift (nm_lower nm)) in
      from \<ge> upper_size nm \<or>
      ucast (ops_ooboffs ops) + of_nat (ops_ooblen ops) >
        (drop_bit sh (upper_size nm) - drop_bit sh from) * ucast maxooblen)"

definition nmbm_mtd_read_oob ::
    "oobav_fun \<Rightarrow> 'c nmbm_mtd \<Rightarrow> u64 \<Rightarrow> mtd_oob_ops \<Rightarrow> (int \<times> mtd_oob_ops \<times> 'c nmbm_mtd) option" where
  "nmbm_mtd_read_oob oobav nm from ops =
     (if ops_oobbuf ops = None \<and> ops_datbuf ops = None
      then Some (if ops_ooblen ops \<noteq> 0 \<or> ops_len ops \<noteq> 0 then - EINVAL else 0, ops, nm)
      else case mode_of_ops (ops_mode ops) of
        None \<Rightarrow> Some (- ENOTSUPP, ops, nm)
      | Some mode \<Rightarrow>
          (let maxooblen = max_ooblen oobav nm ops in
           if ops_datbuf ops \<noteq> None \<and> from + of_nat (ops_len ops) > upper_size nm
           then Some (- EINVAL, ops, nm)
           else if ops_oobbuf ops = None then do {
             nm \<leftarrow> nmbm_get_device nm FL_READING;
             buf \<leftarrow> ops_datbuf ops;
             dst \<leftarrow> slice buf 0 (ops_len ops);
             (ret, dst, retlen, ni) \<leftarrow> nmbm_read_range (nm_ni nm) from dst mode;
             buf \<leftarrow> blit buf 0 dst;
             let ops = ops\<lparr>ops_datbuf := Some buf,
               ops_retlen := (case retlen of None \<Rightarrow> ops_retlen ops | Some n \<Rightarrow> n)\<rparr>;
             Some (ret, ops, nmbm_release_device (nm\<lparr>nm_ni := ni\<rparr>)) }
           else if ops_ooboffs ops \<ge> maxooblen then Some (- EINVAL, ops, nm)
           else if beyond_end nm from ops maxooblen then Some (- EINVAL, ops, nm)
           else do {
             nm \<leftarrow> nmbm_get_device nm FL_READING;
             (ret, ops, nm) \<leftarrow> nmbm_mtd_read_data oobav nm from ops mode;
             Some (ret, ops, nmbm_release_device nm) }))"

section \<open>Write\<close>

definition fill_dat ::
    "'c nmbm_mtd \<Rightarrow> mtd_oob_ops \<Rightarrow> nat \<Rightarrow> nat \<Rightarrow> (mtd_oob_ops \<times> nat \<times> nat \<times> 'c nmbm_mtd) option" where
  "fill_dat nm ops len col =
     (if len = 0 then Some (ops, len, col, nm)
      else do {
        let ws = unat (lm_writesize (nm_lower nm));
        let chklen = min (ws - col) len;
        pc \<leftarrow> blit (nm_page_cache nm) 0 (replicate col 0xff);
        buf \<leftarrow> ops_datbuf ops;
        src \<leftarrow> slice buf (ops_retlen ops) chklen;
        pc \<leftarrow> blit pc col src;
        pc \<leftarrow> blit pc (col + chklen) (replicate (ws - col - chklen) 0xff);
        Some (ops\<lparr>ops_retlen := ops_retlen ops + chklen\<rparr>, len - chklen, 0, nm\<lparr>nm_page_cache := pc\<rparr>) })"

definition fill_oob ::
    "'c nmbm_mtd \<Rightarrow> mtd_oob_ops \<Rightarrow> nat \<Rightarrow> nat \<Rightarrow> nat \<Rightarrow> (mtd_oob_ops \<times> nat \<times> nat \<times> 'c nmbm_mtd) option" where
  "fill_oob nm ops ooblen ooboffs maxooblen =
     (if ooblen = 0 then Some (ops, ooblen, ooboffs, nm)
      else do {
        let ws = unat (lm_writesize (nm_lower nm));
        let chklen = min (maxooblen - ooboffs) ooblen;
        pc \<leftarrow> blit (nm_page_cache nm) ws (replicate ooboffs 0xff);
        buf \<leftarrow> ops_oobbuf ops;
        src \<leftarrow> slice buf (ops_oobretlen ops) chklen;
        pc \<leftarrow> blit pc (ws + ooboffs) src;
        pc \<leftarrow> blit pc (ws + ooboffs + chklen)
          (replicate (unat (lm_oobsize (nm_lower nm)) - ooboffs - chklen) 0xff);
        Some (ops\<lparr>ops_oobretlen := ops_oobretlen ops + chklen\<rparr>, ooblen - chklen, 0,
          nm\<lparr>nm_page_cache := pc\<rparr>) })"

partial_function (option) write_data_pages ::
    "crc_fun \<Rightarrow> 'c nmbm_mtd \<Rightarrow> u64 \<Rightarrow> mtd_oob_ops \<Rightarrow> nmbm_oob_mode \<Rightarrow> bool \<Rightarrow> bool \<Rightarrow> nat \<Rightarrow> nat \<Rightarrow> nat \<Rightarrow>
     nat \<Rightarrow> nat \<Rightarrow> (int \<times> mtd_oob_ops \<times> 'c nmbm_mtd) option" where
  "write_data_pages crc nm addr ops mode useDat useOob len ooblen col ooboffs maxooblen =
     (if len \<noteq> 0 \<or> ooblen \<noteq> 0 then
        Option.bind (fill_dat nm ops len col) (\<lambda>(ops, len, col, nm).
        Option.bind (fill_oob nm ops ooblen ooboffs maxooblen) (\<lambda>(ops, ooblen, ooboffs, nm).
        Option.bind (dat_cache nm useDat) (\<lambda>datcache.
        Option.bind (oob_cache nm useOob) (\<lambda>oobcache.
        Option.bind (nmbm_write_single_page crc (nm_ni nm) addr datcache oobcache mode) (\<lambda>(ret, ni).
          if ret \<noteq> 0 then Some (ret, ops, nm\<lparr>nm_ni := ni\<rparr>)
          else write_data_pages crc (nm\<lparr>nm_ni := ni\<rparr>) (addr + ucast (lm_writesize (nm_lower nm))) ops
                 mode useDat useOob len ooblen col ooboffs maxooblen)))))
      else Some (0, ops, nm))"

definition nmbm_mtd_write_data ::
    "crc_fun \<Rightarrow> oobav_fun \<Rightarrow> 'c nmbm_mtd \<Rightarrow> u64 \<Rightarrow> mtd_oob_ops \<Rightarrow> nmbm_oob_mode \<Rightarrow>
     (int \<times> mtd_oob_ops \<times> 'c nmbm_mtd) option" where
  "nmbm_mtd_write_data crc oobav nm addr ops mode =
     write_data_pages crc nm (page_start_addr nm addr) (ops\<lparr>ops_oobretlen := 0, ops_retlen := 0\<rparr>) mode
       (ops_len ops \<noteq> 0) (ops_ooblen ops \<noteq> 0) (ops_len ops) (ops_ooblen ops) (page_col nm addr)
       (unat (ops_ooboffs ops)) (unat (max_ooblen oobav nm ops))"

definition nmbm_mtd_write_oob ::
    "crc_fun \<Rightarrow> oobav_fun \<Rightarrow> 'c nmbm_mtd \<Rightarrow> u64 \<Rightarrow> mtd_oob_ops \<Rightarrow>
     (int \<times> mtd_oob_ops \<times> 'c nmbm_mtd) option" where
  "nmbm_mtd_write_oob crc oobav nm to ops =
     (if ops_oobbuf ops = None \<and> ops_datbuf ops = None
      then Some (if ops_ooblen ops \<noteq> 0 \<or> ops_len ops \<noteq> 0 then - EINVAL else 0, ops, nm)
      else case mode_of_ops (ops_mode ops) of
        None \<Rightarrow> Some (- ENOTSUPP, ops, nm)
      | Some mode \<Rightarrow>
          (let maxooblen = max_ooblen oobav nm ops in
           if ops_datbuf ops \<noteq> None \<and> to + of_nat (ops_len ops) > upper_size nm
           then Some (- EINVAL, ops, nm)
           else if ops_oobbuf ops = None then do {
             nm \<leftarrow> nmbm_get_device nm FL_WRITING;
             buf \<leftarrow> ops_datbuf ops;
             src \<leftarrow> slice buf 0 (ops_len ops);
             (ret, retlen, ni) \<leftarrow> nmbm_write_range crc (nm_ni nm) to src mode;
             let ops = ops\<lparr>ops_retlen := (case retlen of None \<Rightarrow> ops_retlen ops | Some n \<Rightarrow> n)\<rparr>;
             Some (ret, ops, nmbm_release_device (nm\<lparr>nm_ni := ni\<rparr>)) }
           else if ops_ooboffs ops \<ge> maxooblen then Some (- EINVAL, ops, nm)
           else if beyond_end nm to ops maxooblen then Some (- EINVAL, ops, nm)
           else do {
             nm \<leftarrow> nmbm_get_device nm FL_WRITING;
             (ret, ops, nm) \<leftarrow> nmbm_mtd_write_data crc oobav nm to ops mode;
             Some (ret, ops, nmbm_release_device nm) }))"

text \<open>\<open>wrlen\<close> counts the bytes moved into the cache, before the page is written.\<close>

partial_function (option) panic_pages ::
    "crc_fun \<Rightarrow> 'c nmbm_mtd \<Rightarrow> u64 \<Rightarrow> nat \<Rightarrow> nat \<Rightarrow> bytes \<Rightarrow> nat \<Rightarrow> (nat \<times> 'c nmbm_mtd) option" where
  "panic_pages crc nm to len col buf wrlen =
     (if len \<noteq> 0 then
        (let ws = unat (lm_writesize (nm_lower nm)); chklen = min (ws - col) len in
         Option.bind (if chklen < ws then blit (nm_page_cache nm) 0 (replicate ws 0xff)
                      else Some (nm_page_cache nm)) (\<lambda>pc.
         Option.bind (slice buf wrlen chklen) (\<lambda>src.
         Option.bind (blit pc col src) (\<lambda>pc.
         Option.bind (slice pc 0 ws) (\<lambda>page.
         Option.bind (nmbm_panic_write_single_page crc (nm_ni nm) to page) (\<lambda>(ret, ni).
           let nm = nm\<lparr>nm_page_cache := pc, nm_ni := ni\<rparr> in
           if ret \<noteq> 0 then Some (wrlen + chklen, nm)
           else panic_pages crc nm (to + ucast (lm_writesize (nm_lower nm))) (len - chklen) 0 buf
                  (wrlen + chklen)))))))
      else Some (wrlen, nm))"

definition nmbm_mtd_panic_write ::
    "crc_fun \<Rightarrow> 'c nmbm_mtd \<Rightarrow> u64 \<Rightarrow> nat \<Rightarrow> bytes \<Rightarrow> (int \<times> nat \<times> 'c nmbm_mtd) option" where
  "nmbm_mtd_panic_write crc nm to len buf = do {
     (wrlen, nm) \<leftarrow> panic_pages crc nm (page_start_addr nm to) len (page_col nm to) buf 0;
     Some (0, wrlen, nm) }"

section \<open>Bad blocks and shutdown\<close>

definition nmbm_mtd_block_isbad :: "'c nmbm_mtd \<Rightarrow> u64 \<Rightarrow> (int \<times> 'c nmbm_mtd) option" where
  "nmbm_mtd_block_isbad nm offs = do {
     nm \<leftarrow> nmbm_get_device nm FL_READING;
     ret \<leftarrow> nmbm_check_bad_block (nm_ni nm) offs;
     Some (ret, nmbm_release_device nm) }"

definition nmbm_mtd_block_markbad :: "crc_fun \<Rightarrow> 'c nmbm_mtd \<Rightarrow> u64 \<Rightarrow> (int \<times> 'c nmbm_mtd) option" where
  "nmbm_mtd_block_markbad crc nm offs = do {
     nm \<leftarrow> nmbm_get_device nm FL_WRITING;
     (ret, ni) \<leftarrow> nmbm_mark_bad_block crc (nm_ni nm) offs;
     Some (ret, nmbm_release_device (nm\<lparr>nm_ni := ni\<rparr>)) }"

definition nmbm_mtd_shutdown :: "'c nmbm_mtd \<Rightarrow> 'c nmbm_mtd option" where
  "nmbm_mtd_shutdown nm = nmbm_get_device nm FL_PM_SUSPENDED"

section \<open>Probe and remove\<close>

definition EPROBE_DEFER :: int where "EPROBE_DEFER = 517"
definition NMBM_MAX_RATIO_DEFAULT :: u32 where "NMBM_MAX_RATIO_DEFAULT = 1"
definition NMBM_MAX_BLOCKS_DEFAULT :: u32 where "NMBM_MAX_BLOCKS_DEFAULT = 256"

text \<open>
  What the probe function asks the device tree: the lower device by phandle and by name
  (\<open>None\<close>: no such property; \<open>Some None\<close>: the device is not there yet), and the settings.
\<close>

record 'c nmbm_dt =
  dt_phandle :: "'c lower_mtd option option"
  dt_name :: "'c lower_mtd option option"
  dt_max_ratio :: "u32 option"
  dt_max_reserved_blocks :: "u32 option"
  dt_forced_create :: bool
  dt_empty_page_ecc :: bool

text \<open>
  With neither property the code goes on with an uninitialised pointer: the outer \<open>None\<close>.
\<close>

definition find_lower :: "'c nmbm_dt \<Rightarrow> (int + 'c lower_mtd) option" where
  "find_lower dt =
     (case dt_phandle dt of
        Some (Some lm) \<Rightarrow> Some (Inr lm)
      | Some None \<Rightarrow> Some (Inl (- EPROBE_DEFER))
      | None \<Rightarrow>
          (case dt_name dt of
             Some (Some lm) \<Rightarrow> Some (Inr lm)
           | Some None \<Rightarrow> Some (Inl (- EPROBE_DEFER))
           | None \<Rightarrow> None))"

definition build_nld :: "oobav_fun \<Rightarrow> 'c nmbm_dt \<Rightarrow> 'c lower_mtd \<Rightarrow> 'c nm_chip nmbm_lower_device" where
  "build_nld oobav dt lm =
     \<lparr>max_ratio = (case dt_max_ratio dt of None \<Rightarrow> NMBM_MAX_RATIO_DEFAULT | Some r \<Rightarrow> r),
      max_reserved_blocks = (case dt_max_reserved_blocks dt of None \<Rightarrow> NMBM_MAX_BLOCKS_DEFAULT | Some n \<Rightarrow> n),
      flags = (if dt_forced_create dt then NMBM_F_CREATE else 0) OR
        (if dt_empty_page_ecc dt then NMBM_F_EMPTY_PAGE_ECC_OK else 0),
      chip_size = lm_size lm, erasesize = lm_erasesize lm, writesize = lm_writesize lm,
      oobsize = lm_oobsize lm, oobavail = lm_oobavail lm, reset_chip = None,
      read_page = Some (nmbm_lower_read_page oobav lm), write_page = Some (nmbm_lower_write_page oobav lm),
      panic_write_page = Some (nmbm_lower_panic_write_page lm),
      erase_block = Some (nmbm_lower_erase_block lm),
      is_bad_block = Some (nmbm_lower_is_bad_block lm),
      mark_bad_block = Some (nmbm_lower_mark_bad_block lm)\<rparr>"

text \<open>The instance as \<open>devm_kzalloc\<close> delivers it, next to the chip in its present state.\<close>

definition zero_header :: nmbm_header where
  "zero_header = \<lparr>hdr_magic = 0, hdr_version = 0, hdr_size = 0, hdr_checksum = 0\<rparr>"

definition zero_ni :: "'d nmbm_lower_device \<Rightarrow> 'd \<Rightarrow> 'd nmbm_instance" where
  "zero_ni nld c = \<lparr>lower = nld, chip = c, rawpage_size = 0, rawblock_size = 0, rawchip_size = 0,
     writesize_mask = 0, erasesize_mask = 0, writesize_shift = 0, erasesize_shift = 0,
     signature = \<lparr>sig_header = zero_header, nand_size = 0, block_size = 0, page_size = 0,
       spare_size = 0, mgmt_start_pb = 0, max_try_count = 0, sig_padding = replicate 7 0\<rparr>,
     info_table_cache = [], info_table_size = 0, info_table_spare_blocks = 0,
     info_table = \<lparr>ift_header = zero_header, write_count = 0, state_table_off = 0,
       mapping_table_off = 0, ift_padding = 0\<rparr>,
     block_state = [], block_state_changed = 0, state_table_size = 0, block_mapping = [],
     block_mapping_changed = 0, mapping_table_size = 0, page_cache = [], protected = False,
     block_count = 0, data_block_count = 0, mgmt_start_ba = 0, main_table_ba = 0,
     backup_table_ba = 0, mapping_blocks_ba = 0, mapping_blocks_top_ba = 0, signature_ba = 0,
     log_display_level = NMBM_LOG_DEBUG\<rparr>"

text \<open>
  \<open>alloc_ok\<close> and \<open>reg_ret\<close> are what the allocator and \<open>mtd_device_register\<close> answer; \<open>devs\<close> is
  the list \<open>nmbm_devs\<close>, with the device entered under the name \<open>node\<close>.
\<close>

definition nmbm_probe ::
    "crc_fun \<Rightarrow> oobav_fun \<Rightarrow> u64 \<Rightarrow> 'c nmbm_dt \<Rightarrow> bool \<Rightarrow> int \<Rightarrow> nat list \<Rightarrow> nat \<Rightarrow> 'c \<Rightarrow>
     (int \<times> 'c nmbm_mtd option \<times> nat list) option" where
  "nmbm_probe crc oobav sizeof_ni dt alloc_ok reg_ret devs node c = do {
     r \<leftarrow> find_lower dt;
     case r of
       Inl e \<Rightarrow> Some (e, None, devs)
     | Inr lm \<Rightarrow> do {
         let nld = build_nld oobav dt lm;
         alloc_size \<leftarrow> nmbm_calc_structure_size sizeof_ni nld;
         if \<not> alloc_ok then Some (- ENOMEM, None, devs)
         else do {
           (ret, ni) \<leftarrow> nmbm_attach crc nld
              (zero_ni nld \<lparr>nm_dev = c, upper_corrected = 0, upper_failed = 0\<rparr>);
           if ret \<noteq> 0 then Some (ret, None, devs)
           else do {
             let nm = \<lparr>upper_size = ucast (data_block_count ni) * ucast (lm_erasesize lm),
                 nm_lower = lm, nm_ni = ni,
                 nm_page_cache = replicate (unat (lm_writesize lm) + unat (lm_oobsize lm)) 0,
                 fl_state = FL_READY\<rparr>;
             if reg_ret \<noteq> 0 then do {
               (_, ni) \<leftarrow> nmbm_detach crc ni;
               Some (reg_ret, None, devs) }
             else Some (0, Some nm, devs @ [node]) } } } }"

definition nmbm_remove ::
    "crc_fun \<Rightarrow> 'c nmbm_mtd \<Rightarrow> int \<Rightarrow> nat list \<Rightarrow> nat \<Rightarrow> (int \<times> 'c nmbm_mtd \<times> nat list) option" where
  "nmbm_remove crc nm unreg_ret devs node =
     (if unreg_ret \<noteq> 0 then Some (unreg_ret, nm, devs)
      else do {
        (_, ni) \<leftarrow> nmbm_detach crc (nm_ni nm);
        Some (0, nm\<lparr>nm_ni := ni\<rparr>, devs @ [node]) })"

section \<open>Mutual exclusion\<close>

definition gate_inv :: "gate \<Rightarrow> bool" where
  "gate_inv g \<longleftrightarrow>
     (case g_state g of
        FL_READY \<Rightarrow> g_holders g = []
      | FL_PM_SUSPENDED \<Rightarrow> g_holders g \<noteq> [] \<and> (\<forall>h \<in> set (g_holders g). snd h = FL_PM_SUSPENDED)
      | s \<Rightarrow> \<exists>t. g_holders g = [(t, s)]) \<and>
     (\<forall>w \<in> set (g_sleepers g). snd w \<noteq> FL_READY)"

inductive gate_reach :: "gate \<Rightarrow> bool" where
  gate_start: "gate_reach gate_init"
| gate_next: "gate_reach g \<Longrightarrow> gate_step g g' \<Longrightarrow> gate_reach g'"

inductive_cases gate_stepE: "gate_step g g'"

lemma get_pass_cases:
  assumes "get_pass state want = Some s" and "want \<noteq> FL_READY"
  shows "(state = FL_READY \<and> s = want) \<or> (state = FL_PM_SUSPENDED \<and> want = FL_PM_SUSPENDED \<and> s = state)"
  using assms by (auto simp: get_pass_def split: if_splits)

lemma gate_enter_inv:
  assumes "gate_inv g" and "get_pass (g_state g) want = Some s" and "want \<noteq> FL_READY"
  shows "gate_inv (g\<lparr>g_state := s, g_holders := (t, want) # g_holders g\<rparr>)"
  using get_pass_cases [OF assms(2,3)] assms(1,3)
  by (auto simp: gate_inv_def split: flstate.splits)

lemma gate_inv_sleepers:
  "gate_inv g \<Longrightarrow> set ws \<subseteq> set (g_sleepers g) \<Longrightarrow> gate_inv (g\<lparr>g_sleepers := ws\<rparr>)"
  by (auto simp: gate_inv_def split: flstate.splits)

lemma gate_step_inv:
  assumes "gate_step g g'" and "gate_inv g"
  shows "gate_inv g'"
  using assms
proof (cases rule: gate_step.cases)
  case (enter want s t)
  then show ?thesis using gate_enter_inv [OF assms(2)] by simp
next
  case (sleep want t)
  then show ?thesis using assms(2) by (auto simp: gate_inv_def split: flstate.splits)
next
  case (retry t want s)
  then have "want \<noteq> FL_READY" using assms(2) by (auto simp: gate_inv_def)
  then have "gate_inv (g\<lparr>g_state := s, g_holders := (t, want) # g_holders g\<rparr>)"
    by (rule gate_enter_inv [OF assms(2) retry(3)])
  moreover have "set (remove1 (t, want) (g_sleepers g)) \<subseteq>
      set (g_sleepers (g\<lparr>g_state := s, g_holders := (t, want) # g_holders g\<rparr>))"
    by (simp add: set_remove1_subset)
  ultimately show ?thesis
    using gate_inv_sleepers [of "g\<lparr>g_state := s, g_holders := (t, want) # g_holders g\<rparr>"
        "remove1 (t, want) (g_sleepers g)"] by (simp add: retry(1))
next
  case (release t want)
  then show ?thesis using assms(2) by (auto simp: gate_inv_def split: flstate.splits)
qed

lemma gate_reach_inv: "gate_reach g \<Longrightarrow> gate_inv g"
proof (induction rule: gate_reach.induct)
  case gate_start
  then show ?case by (simp add: gate_inv_def gate_init_def)
next
  case (gate_next g g')
  then show ?case by (blast intro: gate_step_inv)
qed

end
