(* ===== verification/Nmbm_Properties.thy ===== *)
theory Nmbm_Properties
  imports Nmbm_Attach Nmbm_Mtd
begin

text \<open>
  What NMBM's components promise, stated over the lemmas of their theories, each with an instance
  on the simulated chip.
\<close>

section \<open>The simulated instance\<close>

lemma attached_demo: "attached (demo_ni f)"
proof -
  have "fits (demo_ni f)" by (simp add: fits_def demo_ni_def)
  then have "lay (demo_ni f)"
    using wf_demo [of f] by (simp add: lay_def) (simp add: demo_ni_def)
  moreover have "mapped (demo_ni f)"
    by (auto simp: mapped_def demo_ni_def word_less_nat_alt unat_of_nat)
  ultimately show ?thesis
    by (simp add: attached_def) (simp add: demo_ni_def)
qed

lemma demo_fields [simp]:
  "block_count (demo_ni f) = 32" "data_block_count (demo_ni f) = 16" "es_sh (demo_ni f) = 7"
  "mapping_blocks_ba (demo_ni f) = 22" "mapping_blocks_top_ba (demo_ni f) = 30"
  "mgmt_start_ba (demo_ni f) = 16" "signature_ba (demo_ni f) = 31"
  by (simp_all add: demo_ni_def es_sh_def)

definition demo_crc :: crc_fun where
  "demo_crc c b = c + sum_list (map ucast b)"

section \<open>Addresses and block states\<close>

text \<open>An address inside a block converts to that block: addr2ba inverts ba2addr for every
  block number and every offset below the erase size, without overflow in the 64-bit sum.\<close>

theorem address_round_trip:
  assumes "wf ni" and "off < ucast (erasesize (lower ni))"
  shows "addr2ba ni (ba2addr ni ba + off) = ba \<and>
    unat (ba2addr ni ba + off) = unat ba * unat (erasesize (lower ni)) + unat off"
proof -
  have "es_sh ni < 32" and "unat off < 2 ^ es_sh ni" and "unat (erasesize (lower ni)) = 2 ^ es_sh ni"
    using assms by (auto simp: wf_def word_less_nat_alt)
  then show ?thesis using addr2ba_ba2addr block_of_addr(2) by metis
qed

theorem address_round_trip_witness:
  "addr2ba (demo_ni 0) (ba2addr (demo_ni 0) 31 + 127) = 31"
  using address_round_trip [of "demo_ni 0" 127 31] wf_demo [of 0]
  by (simp add: demo_ni_def sim_lower_def)

text \<open>Setting the state of a block changes the state of that block only: afterwards every
  block reads back its old state, and the block itself the new one, and the counter of changes
  grows exactly when the state differs.\<close>

theorem block_state_set_get:
  assumes "wf ni" and "ba < block_count ni" and "b < block_count ni" and "st \<le> 3"
  shows "ok (nmbm_set_block_state ni ba st) (\<lambda>(changed, ni').
    nmbm_get_block_state ni' b = (if b = ba then Some st else nmbm_get_block_state ni b) \<and>
    (changed \<longleftrightarrow> nmbm_get_block_state ni ba \<noteq> Some st) \<and>
    block_state_changed ni' = block_state_changed ni + (if changed then 1 else 0))"
proof -
  have len: "unat ba < st_len (block_state ni)" "unat b < st_len (block_state ni)"
    using assms by (simp_all add: wf_st_len word_less_nat_alt)
  have "unat st < 2 ^ 2" using assms(4) by (simp add: word_le_nat_alt)
  then have m: "st AND BLOCK_ST_MASK = st"
    unfolding mask_two by (intro less_mask_eq) (simp add: word_less_nat_alt)
  have e: "unat b = unat ba \<longleftrightarrow> b = ba" by (simp add: word_unat_eq_iff)
  show ?thesis
    unfolding nmbm_set_block_state_eq nmbm_get_block_state_eq
    using len bitmap.get_upd [OF len, of st] bitmap.len_upd [of "block_state ni" "unat ba" st] e m
    by (simp add: Let_def bst_def st_len_def)
qed


theorem block_state_set_get_witness:
  "ok (nmbm_set_block_state (demo_ni 0) 17 BLOCK_ST_BAD) (\<lambda>(changed, ni').
     nmbm_get_block_state ni' 17 = Some BLOCK_ST_BAD \<and>
     nmbm_get_block_state ni' 18 = nmbm_get_block_state (demo_ni 0) 18)"
  using block_state_set_get [of "demo_ni 0" 17 17 BLOCK_ST_BAD]
    block_state_set_get [of "demo_ni 0" 17 18 BLOCK_ST_BAD] wf_demo [of 0]
  by (auto simp: ok_def BLOCK_ST_BAD_def)

text \<open>The upward walk returns the first good block from \<open>ba\<close> on that leaves \<open>count\<close> good
  blocks behind, below the limit and the last block; it fails only when there are not more than
  \<open>count\<close> good blocks in that range.\<close>

theorem block_walk_asc_spec:
  assumes "wf ni" and "unat count < 2 ^ 31"
  shows "ok (nmbm_block_walk ni True ba count limit) (\<lambda>r. case r of
      None \<Rightarrow> count_good ni (unat ba) (walk_up_to ni limit) \<le> unat count
    | Some nba \<Rightarrow> unat ba \<le> unat nba \<and> unat nba < walk_up_to ni limit \<and>
        bst ni (unat nba) = BLOCK_ST_GOOD \<and> count_good ni (unat ba) (unat nba) = unat count)"
  using assms by (intro nmbm_block_walk_asc_ok) auto

theorem block_walk_asc_spec_witness:
  "ok (nmbm_block_walk (demo_ni 0) True 3 2 30) (\<lambda>r. case r of
      None \<Rightarrow> count_good (demo_ni 0) (unat (3 :: u32)) (walk_up_to (demo_ni 0) 30) \<le> unat (2 :: u32)
    | Some nba \<Rightarrow> unat (3 :: u32) \<le> unat nba \<and> unat nba < walk_up_to (demo_ni 0) 30 \<and>
        bst (demo_ni 0) (unat nba) = BLOCK_ST_GOOD \<and>
        count_good (demo_ni 0) (unat (3 :: u32)) (unat nba) = unat (2 :: u32))"
  by (rule block_walk_asc_spec) (simp_all add: wf_demo)

text \<open>The downward walk, from a block of the chip, is the mirror image: it stops at the first
  good block above the limit that leaves \<open>count\<close> good blocks behind.\<close>

theorem block_walk_desc_spec:
  assumes "wf ni" and "unat count < 2 ^ 31" and "ba < block_count ni"
  shows "ok (nmbm_block_walk ni False ba count limit) (\<lambda>r. case r of
      None \<Rightarrow> count_good ni (Suc (walk_up_to ni limit)) (Suc (unat ba)) \<le> unat count
    | Some nba \<Rightarrow> walk_up_to ni limit < unat nba \<and> unat nba \<le> unat ba \<and>
        bst ni (unat nba) = BLOCK_ST_GOOD \<and>
        count_good ni (Suc (unat nba)) (Suc (unat ba)) = unat count)"
  using assms by (intro nmbm_block_walk_desc_ok) (auto simp: word_less_nat_alt)

theorem block_walk_desc_spec_witness:
  "ok (nmbm_block_walk (demo_ni 0) False 30 1 22) (\<lambda>r. case r of
      None \<Rightarrow> count_good (demo_ni 0) (Suc (walk_up_to (demo_ni 0) 22)) (Suc (unat (30 :: u32)))
        \<le> unat (1 :: u32)
    | Some nba \<Rightarrow> walk_up_to (demo_ni 0) 22 < unat nba \<and> unat nba \<le> unat (30 :: u32) \<and>
        bst (demo_ni 0) (unat nba) = BLOCK_ST_GOOD \<and>
        count_good (demo_ni 0) (Suc (unat nba)) (Suc (unat (30 :: u32))) = unat (1 :: u32))"
  by (rule block_walk_desc_spec) (simp_all add: wf_demo)

text \<open>Reservation takes the largest number of good blocks, at most \<open>count\<close>, for which a good
  block is left; it fails only when fewer than \<open>min_count\<close> were wanted or are there.\<close>

theorem try_reserve_spec:
  assumes "wf ni" and "0 \<le> min_count"
  shows "ok (nmbm_try_reserve_blocks ni ba count min_count limit) (\<lambda>r. case r of
      None \<Rightarrow> sint count < min_count \<or> int (count_good ni (unat ba) (walk_up_to ni limit)) \<le> min_count
    | Some nba \<Rightarrow> unat ba \<le> unat nba \<and> unat nba < walk_up_to ni limit \<and>
        bst ni (unat nba) = BLOCK_ST_GOOD \<and>
        int (count_good ni (unat ba) (unat nba)) =
          min (sint count) (int (count_good ni (unat ba) (walk_up_to ni limit)) - 1))"
  using assms by (rule nmbm_try_reserve_blocks_ok)

theorem try_reserve_spec_witness:
  "ok (nmbm_try_reserve_blocks (demo_ni 0) 22 2 0 28) (\<lambda>r. case r of
      None \<Rightarrow> sint (2 :: u32) < 0 \<or>
        int (count_good (demo_ni 0) (unat (22 :: u32)) (walk_up_to (demo_ni 0) 28)) \<le> 0
    | Some nba \<Rightarrow> unat (22 :: u32) \<le> unat nba \<and> unat nba < walk_up_to (demo_ni 0) 28 \<and>
        bst (demo_ni 0) (unat nba) = BLOCK_ST_GOOD \<and>
        int (count_good (demo_ni 0) (unat (22 :: u32)) (unat nba)) =
          min (sint (2 :: u32))
            (int (count_good (demo_ni 0) (unat (22 :: u32)) (walk_up_to (demo_ni 0) 28)) - 1))"
  by (rule try_reserve_spec) (simp_all add: wf_demo)

section \<open>Mapping tables\<close>

lemma nmbm_build_mapping_table_ok:
  assumes "wf ni" and "mgmt_start_ba ni \<le> block_count ni"
  shows "ok (nmbm_build_mapping_table ni) (\<lambda>ni'.
    let u = usable ni 0 (unat (mgmt_start_ba ni)) in
    block_mapping ni' = map of_nat u @ replicate (unat (block_count ni) - length u) (- 1) \<and>
    unat (data_block_count ni') = length u \<and>
    ni' = ni\<lparr>data_block_count := data_block_count ni', block_mapping := block_mapping ni'\<rparr>)"
proof -
  let ?u = "usable ni 0 (unat (mgmt_start_ba ni))"
  have le: "unat (mgmt_start_ba ni) \<le> unat (block_count ni)"
    using assms(2) by (simp add: word_le_nat_alt)
  have m: "ok (map_good ni 0 0 (mgmt_start_ba ni)) (\<lambda>(lb', ni'). unat lb' = length ?u \<and>
      ni' = ni\<lparr>block_mapping := map of_nat ?u @ drop (unat lb') (block_mapping ni)\<rparr>)"
    using map_good_ok [OF assms(1) le, of 0 0] by simp
  have lu: "length ?u \<le> unat (mgmt_start_ba ni)"
    using length_usable [of ni 0 "unat (mgmt_start_ba ni)"] by simp
  show ?thesis
    unfolding nmbm_build_mapping_table_def
  proof (rule ok_bind2 [OF m])
    fix lb :: u32 and ni1 :: "'a nmbm_instance"
    assume a: "unat lb = length ?u \<and>
      ni1 = ni\<lparr>block_mapping := map of_nat ?u @ drop (unat lb) (block_mapping ni)\<rparr>"
    let ?n = "ni1\<lparr>data_block_count := lb\<rparr>"
    have len: "length (block_mapping ni) = unat (block_count ni)" using assms(1) by (simp add: wf_def)
    have "wf ?n"
      using assms(1) a lu le len by (simp add: wf_def es_sh_def read_only_def has_flag_def)
    from unmap_from_ok [OF _ this, of "block_count ni1" lb]
    show "ok (unmap_from ?n lb (block_count ni1)) (\<lambda>ni'.
      let u = ?u in
      block_mapping ni' = map of_nat u @ replicate (unat (block_count ni) - length u) (- 1) \<and>
      unat (data_block_count ni') = length u \<and>
      ni' = ni\<lparr>data_block_count := data_block_count ni', block_mapping := block_mapping ni'\<rparr>)"
      using a lu le by (auto simp: Let_def elim!: ok_mono)
  qed
qed

text \<open>C27: The initial mapping assigns the blocks below the management area that are not bad, in
  ascending order, to logic blocks 0, 1, ...; every further entry of the table is -1, and the
  number of data blocks is the number of entries assigned.\<close>

theorem build_mapping_table_spec:
  assumes "wf ni" and "mgmt_start_ba ni \<le> block_count ni"
  shows "ok (nmbm_build_mapping_table ni) (\<lambda>ni'.
    let u = usable ni 0 (unat (mgmt_start_ba ni)) in
    block_mapping ni' = map of_nat u @ replicate (unat (block_count ni) - length u) (- 1) \<and>
    unat (data_block_count ni') = length u \<and>
    ni' = ni\<lparr>data_block_count := data_block_count ni', block_mapping := block_mapping ni'\<rparr>)"
  using assms by (rule nmbm_build_mapping_table_ok)

theorem build_mapping_table_spec_witness:
  "ok (nmbm_build_mapping_table (demo_ni 0)) (\<lambda>ni'.
    let u = usable (demo_ni 0) 0 (unat (mgmt_start_ba (demo_ni 0))) in
    block_mapping ni' = map of_nat u @ replicate (unat (block_count (demo_ni 0)) - length u) (- 1) \<and>
    unat (data_block_count ni') = length u \<and>
    ni' = (demo_ni 0)\<lparr>data_block_count := data_block_count ni', block_mapping := block_mapping ni'\<rparr>)"
  by (rule build_mapping_table_spec) (simp_all add: wf_demo)

text \<open>The highest good spare block is the one taken.\<close>

lemma map_block_takes:
  assumes "lay ni" and "unat lb < unat (block_count ni)"
    and "mapping_blocks_ba ni < pb" and "pb \<le> mapping_blocks_top_ba ni"
    and "bst ni (unat pb) = BLOCK_ST_GOOD" and "no_good ni (unat pb) (unat (mapping_blocks_top_ba ni))"
  shows "ok (nmbm_map_block crc ni lb) (\<lambda>(b, ni'). b \<and> block_mapping ni' = (block_mapping ni)[unat lb := pb])"
proof (rule ok_mono2 [OF nmbm_map_block_ok [OF assms(1,2)]], elim conjE)
  fix b ni'
  assume a: "if b then \<exists>p. ni' = ni\<lparr>block_mapping := (block_mapping ni)[unat lb := p],
            mapping_blocks_top_ba := mapping_blocks_top_ba ni - 1,
            block_mapping_changed := block_mapping_changed ni + 1\<rparr> \<and>
          mapping_blocks_ba ni < p \<and> p \<le> mapping_blocks_top_ba ni \<and> bst ni (unat p) = BLOCK_ST_GOOD \<and>
          no_good ni (unat p) (unat (mapping_blocks_top_ba ni))
      else block_mapping ni' = block_mapping ni \<and>
          no_good ni (unat (mapping_blocks_ba ni)) (unat (mapping_blocks_top_ba ni))"
  then have b: b using assms(3-5) by (auto simp: no_good_def word_less_nat_alt word_le_nat_alt split: if_splits)
  then obtain p where n: "block_mapping ni' = (block_mapping ni)[unat lb := p]"
    and p: "p \<le> mapping_blocks_top_ba ni" "bst ni (unat p) = BLOCK_ST_GOOD"
      "no_good ni (unat p) (unat (mapping_blocks_top_ba ni))" using a by auto
  have "\<not> unat p < unat pb" using p(3) assms(4,5) by (auto simp: no_good_def word_le_nat_alt)
  moreover have "\<not> unat pb < unat p" using assms(6) p(1,2) by (auto simp: no_good_def word_le_nat_alt)
  ultimately have "p = pb" by (simp add: word_unat_eq_iff)
  then show "b \<and> block_mapping ni' = (block_mapping ni)[unat lb := pb]" using b n by simp
qed

text \<open>C33: With a bad block between the top of the spare area and the spare block that
  nmbm_map_block takes, the same spare block is free for the next call: two different logic blocks
  get the same physical block.\<close>

theorem map_block_reuses_spare:
  assumes "lay ni" and "lb < block_count ni" and "lb' < block_count ni" and "lb' \<noteq> lb"
    and "nmbm_map_block crc ni lb = Some (True, ni1)"
    and "block_mapping ni1 ! unat lb < mapping_blocks_top_ba ni"
  shows "ok (nmbm_map_block crc ni1 lb') (\<lambda>(b, ni2).
    b \<and> block_mapping ni2 ! unat lb' = block_mapping ni2 ! unat lb)"
proof -
  have lb: "unat lb < unat (block_count ni)" "unat lb' < unat (block_count ni)" "unat lb' \<noteq> unat lb"
    using assms(2-4) by (simp_all add: word_less_nat_alt word_unat_eq_iff)
  have len: "length (block_mapping ni) = unat (block_count ni)"
    using assms(1) by (simp add: lay_def wf_def)
  obtain pb where n1: "ni1 = ni\<lparr>block_mapping := (block_mapping ni)[unat lb := pb],
        mapping_blocks_top_ba := mapping_blocks_top_ba ni - 1,
        block_mapping_changed := block_mapping_changed ni + 1\<rparr>"
      and pb: "mapping_blocks_ba ni < pb" "bst ni (unat pb) = BLOCK_ST_GOOD"
        "no_good ni (unat pb) (unat (mapping_blocks_top_ba ni))"
      and lay1: "lay ni1"
    using nmbm_map_block_ok [OF assms(1) lb(1), of crc] assms(5) by auto
  have lt: "pb < mapping_blocks_top_ba ni" using assms(6) lb(1) len by (simp add: n1)
  then have top1: "unat (mapping_blocks_top_ba ni1) = unat (mapping_blocks_top_ba ni) - 1"
    by (simp add: n1 word_gt_nonzero)
  have "ok (nmbm_map_block crc ni1 lb') (\<lambda>(b, ni'). b \<and> block_mapping ni' = (block_mapping ni1)[unat lb' := pb])"
  proof (rule map_block_takes [OF lay1])
    show "pb \<le> mapping_blocks_top_ba ni1" using lt by (simp add: word_le_nat_alt top1 word_less_nat_alt)
    show "no_good ni1 (unat pb) (unat (mapping_blocks_top_ba ni1))"
      using pb(3) top1 by (auto simp: no_good_def n1 bst_def)
  qed (use lb pb in \<open>simp_all add: n1 bst_def\<close>)
  then show ?thesis by (rule ok_mono2) (use lb len in \<open>simp add: n1\<close>)
qed

definition demo_bad30 :: "sim nmbm_instance" where
  "demo_bad30 = (demo_ni 0)\<lparr>block_state := [0xffffffff, 0xcfffffff]\<rparr>"

lemma lay_demo_bad30: "lay demo_bad30"
  using attached_demo [of 0]
  by (simp add: attached_def lay_def demo_bad30_def) (simp add: wf_def fits_def demo_ni_def sim_lower_def es_sh_def read_only_def has_flag_def)

lemma walk_demo_bad30: "nmbm_block_walk demo_bad30 False 30 0 22 = Some (Some 29)"
  by (simp add: demo_bad30_def nmbm_block_walk_def nmbm_block_walk_desc_def
      walk_desc.simps clip_limit_def nmbm_get_block_state_def nmbm_get_block_state_raw_def load_def
      block_st_defs)

lemma map_block_demo:
  "nmbm_map_block demo_crc demo_bad30 5 = Some (True, demo_bad30\<lparr>
     block_mapping := (block_mapping demo_bad30)[5 := 29], mapping_blocks_top_ba := 29,
     block_mapping_changed := block_mapping_changed demo_bad30 + 1\<rparr>)"
proof -
  have f: "mapping_blocks_ba demo_bad30 = 22" "mapping_blocks_top_ba demo_bad30 = 30"
    "length (block_mapping demo_bad30) = 32"
    by (simp_all add: demo_bad30_def) (simp add: demo_ni_def)
  show ?thesis by (simp add: nmbm_map_block_def f walk_demo_bad30 store_def)
qed

theorem map_block_reuses_spare_witness:
  "ok (nmbm_map_block demo_crc (demo_bad30\<lparr>
     block_mapping := (block_mapping demo_bad30)[5 := 29], mapping_blocks_top_ba := 29,
     block_mapping_changed := block_mapping_changed demo_bad30 + 1\<rparr>) 6)
   (\<lambda>(b, ni2). b \<and> block_mapping ni2 ! unat (6 :: u32) = block_mapping ni2 ! unat (5 :: u32))"
  by (rule map_block_reuses_spare [OF lay_demo_bad30 _ _ _ map_block_demo])
    (simp_all add: demo_bad30_def, simp_all add: demo_ni_def)

section \<open>Tables on flash\<close>

lemma nth_behind:
  assumes "drop n xs = drop n ys" and "length xs = length ys" and "n \<le> i" and "i < length xs"
  shows "xs ! i = ys ! i"
proof -
  have "drop i xs = drop (i - n) (drop n xs)" "drop i ys = drop (i - n) (drop n ys)"
    using assms(3) by simp_all
  then have "drop i xs = drop i ys" using assms(1) by metis
  then show ?thesis using assms(2,4) by (metis hd_drop_conv_nth)
qed

lemma ift_of_behind:
  assumes "drop 16 c = drop 16 buf" and "length c = length buf" and "32 \<le> length buf"
  shows "ift_of c = (ift_of buf)\<lparr>ift_header := header_of c\<rparr>"
proof -
  have "rd32 c i = rd32 buf i" if "16 \<le> i" "i \<le> 28" for i
    unfolding rd32_def using nth_behind [OF assms(1,2)] that assms(2,3) by simp
  then show ?thesis by (simp add: ift_of_def)
qed

text \<open>C18: What nmbm_generate_info_table_cache lays out for a well-formed instance whose tables fit can
  be read back, given a checksum that can be computed in pieces: the table passes the check of its
  checksum and the check of its magic, size and offsets, its header is that of the instance with the
  write count advanced when something changed, and its two tables decode to the block states and the
  mapping.\<close>

theorem info_table_round_trip:
  assumes "wf ni" and "fits ni" and "crc_incremental crc"
  shows "ok (nmbm_generate_info_table_cache crc ni) (\<lambda>(changed, ni').
    changed = tables_changed ni \<and> info_table ni' = next_info_table ni \<and>
    nmbm_check_header crc (info_table_cache ni') (info_table_size ni) = Some True \<and>
    nmbm_check_info_table_header ni' (info_table_cache ni') = Some True \<and>
    (\<exists>sum. ift_of (info_table_cache ni') = (info_table ni')\<lparr>ift_header :=
       (ift_header (info_table ni'))\<lparr>hdr_checksum := sum\<rparr>\<rparr>) \<and>
    map_option bytes_to_words (slice (info_table_cache ni') (unat (state_table_off (info_table ni)))
      (unat (state_table_size ni))) = Some (block_state ni) \<and>
    map_option bytes_to_words (slice (info_table_cache ni') (unat (mapping_table_off (info_table ni)))
      (unat (mapping_table_size ni))) = Some (block_mapping ni))"
proof -
  obtain c buf where g: "nmbm_generate_info_table_cache crc ni =
      Some (tables_changed ni, ni\<lparr>info_table_cache := c, info_table := next_info_table ni\<rparr>)"
    and lc: "length c = length (info_table_cache ni)" and u: "nmbm_update_checksum crc buf = Some c"
    and lb: "length buf = length c" and io: "ift_of buf = next_info_table ni"
    and st: "slice c (unat (state_table_off (info_table ni))) (unat (state_table_size ni)) =
      Some (words_to_bytes (block_state ni))"
    and mp: "slice c (unat (mapping_table_off (info_table ni))) (unat (mapping_table_size ni)) =
      Some (words_to_bytes (block_mapping ni))"
    by (rule nmbm_generate_info_table_cache_eq [OF assms(1,2)])
  have sz: "unat (info_table_size ni) = length buf" "32 \<le> length buf"
    using assms(1) lc lb by (simp_all add: wf_def)
  have hd: "header_of buf = ift_header (next_info_table ni)"
    by (simp add: ift_of_def flip: io)
  then have hs: "hdr_size (header_of buf) = info_table_size ni" by (simp add: next_info_table_def)
  have c: "nmbm_check_header crc c (info_table_size ni) = Some True" "drop 16 c = drop 16 buf"
      "header_of c = (header_of buf)\<lparr>hdr_checksum := hdr_checksum (header_of c)\<rparr>"
    using update_then_check [OF assms(3), of buf "info_table_size ni"] u hs sz by simp_all
  have "ift_of c = (next_info_table ni)\<lparr>ift_header :=
      (ift_header (next_info_table ni))\<lparr>hdr_checksum := hdr_checksum (header_of c)\<rparr>\<rparr>"
    using ift_of_behind [OF c(2)] lb sz c(3) hd io by simp
  moreover from this have "nmbm_check_info_table_header (ni\<lparr>info_table_cache := c, info_table := next_info_table ni\<rparr>) c =
      Some True"
    using assms(2) lb sz by (intro check_table_header_ok) (simp_all add: next_info_table_def fits_def)
  ultimately show ?thesis using c(1) by (auto simp: g st mp)
qed

lemma demo_crc_incremental: "crc_incremental demo_crc"
  by (simp add: crc_incremental_def demo_crc_def add.assoc)

lemma lay_demo: "lay (demo_ni f)"
  using attached_demo by (simp add: attached_def)

theorem info_table_round_trip_witness:
  "ok (nmbm_generate_info_table_cache demo_crc (demo_ni 0)) (\<lambda>(changed, ni').
     nmbm_check_header demo_crc (info_table_cache ni') 256 = Some True \<and>
     map_option bytes_to_words (slice (info_table_cache ni') 64 8) = Some [0xffffffff, 0xffffffff])"
  by (rule ok_mono2 [OF info_table_round_trip])
    (use lay_demo [of 0] in \<open>simp_all add: lay_def demo_crc_incremental\<close>, simp add: demo_ni_def)



text \<open>C6: nmbm_update_info_table always returns, however the chip behaves: the update loop ends
  because every round that leaves the tables dirty has found another bad block. It keeps the layout,
  writes only blocks of the management area, and leaves clean tables, or a protected instance.\<close>

theorem update_info_table_total:
  assumes "lay ni"
  shows "ok (nmbm_update_info_table crc ni) (\<lambda>(b, ni'). lay ni' \<and> tbl (region ni) ni ni' \<and>
    (if b then clean ni' \<or> (protected ni \<and> ni' = ni) else protected ni'))"
  using assms by (rule nmbm_update_info_table_ok)

theorem update_info_table_total_witness:
  "ok (nmbm_update_info_table demo_crc ((demo_ni 0)\<lparr>block_mapping_changed := 1\<rparr>)) (\<lambda>(b, ni').
     lay ni' \<and> tbl (region ((demo_ni 0)\<lparr>block_mapping_changed := 1\<rparr>)) ((demo_ni 0)\<lparr>block_mapping_changed := 1\<rparr>) ni' \<and>
     (if b then clean ni' \<or> (protected ((demo_ni 0)\<lparr>block_mapping_changed := 1\<rparr>) \<and>
        ni' = (demo_ni 0)\<lparr>block_mapping_changed := 1\<rparr>) else protected ni'))"
  by (rule update_info_table_total)
    (use lay_demo [of 0] in \<open>simp add: lay_def wf_def fits_def es_sh_def read_only_def has_flag_def\<close>)

text \<open>C9: A table update on a valid layout leaves a valid layout, and rewrites nothing outside the
  management area below the top spare block: on the chip only those blocks are written, erased or
  marked, and the mapping of all logic blocks, the signature block, the top spare block and the data
  block count stay as they were. The recorded state of a block b stays as it was, or b lies in that
  area, was recorded as good and is now recorded as bad.\<close>

theorem update_info_table_confined:
  assumes "lay ni" and "b < block_count ni"
  shows "ok (nmbm_update_info_table crc ni) (\<lambda>(r, ni').
    lay ni' \<and>
    (nmbm_get_block_state ni' b = nmbm_get_block_state ni b \<or>
      mgmt_start_ba ni \<le> b \<and> b < mapping_blocks_top_ba ni \<and>
      nmbm_get_block_state ni b = Some BLOCK_ST_GOOD \<and> nmbm_get_block_state ni' b = Some BLOCK_ST_BAD) \<and>
    block_mapping ni' = block_mapping ni \<and> signature_ba ni' = signature_ba ni \<and>
    mapping_blocks_top_ba ni' = mapping_blocks_top_ba ni \<and> data_block_count ni' = data_block_count ni \<and>
    dev_reach (lower ni) (es_sh ni) (wset ni (region ni)) (chip ni) (chip ni'))"
proof (rule ok_mono2 [OF nmbm_update_info_table_ok [OF assms(1)]])
  fix r and ni' :: "'a nmbm_instance"
  assume *: "lay ni' \<and> tbl (region ni) ni ni' \<and>
    (if r then clean ni' \<or> (protected ni \<and> ni' = ni) else protected ni')"
  then have t: "tbl (region ni) ni ni'" by blast
  have b: "unat b < st_len (block_state ni)"
    using assms(1,2) by (simp add: lay_def wf_st_len word_less_nat_alt)
  have d: "st_len (block_state ni') = st_len (block_state ni)"
      "bst ni' (unat b) = bst ni (unat b) \<or>
       (unat b \<in> region ni \<and> bst ni (unat b) = BLOCK_ST_GOOD \<and> bst ni' (unat b) = BLOCK_ST_BAD)"
    using t b by (auto simp: tbl_def bitmap.degrades_def bst_def)
  have "nmbm_get_block_state ni b = Some (bst ni (unat b))" "nmbm_get_block_state ni' b = Some (bst ni' (unat b))"
    using b d(1) by (simp_all add: nmbm_get_block_state_eq st_len_def)
  moreover have "unat b \<in> region ni \<longleftrightarrow> mgmt_start_ba ni \<le> b \<and> b < mapping_blocks_top_ba ni"
    by (simp add: region_def word_le_nat_alt word_less_nat_alt)
  ultimately show "lay ni' \<and>
    (nmbm_get_block_state ni' b = nmbm_get_block_state ni b \<or>
      mgmt_start_ba ni \<le> b \<and> b < mapping_blocks_top_ba ni \<and>
      nmbm_get_block_state ni b = Some BLOCK_ST_GOOD \<and> nmbm_get_block_state ni' b = Some BLOCK_ST_BAD) \<and>
    block_mapping ni' = block_mapping ni \<and> signature_ba ni' = signature_ba ni \<and>
    mapping_blocks_top_ba ni' = mapping_blocks_top_ba ni \<and> data_block_count ni' = data_block_count ni \<and>
    dev_reach (lower ni) (es_sh ni) (wset ni (region ni)) (chip ni) (chip ni')"
    using * t d(2) tbl_fields [OF t] by (auto simp: tbl_def)
qed

theorem update_info_table_confined_witness:
  "ok (nmbm_update_info_table demo_crc (demo_ni 0)) (\<lambda>(r, ni').
    nmbm_get_block_state ni' 3 = nmbm_get_block_state (demo_ni 0) 3 \<and>
    block_mapping ni' = block_mapping (demo_ni 0))"
  by (rule ok_mono2 [OF update_info_table_confined [OF lay_demo, of 3]]) (auto simp: demo_ni_def)

section \<open>Logic blocks\<close>

text \<open>C10: nmbm_map_block returns. When it maps, the entry of the logic block becomes the highest
  good block of the spare area, which lies above the tables and not above the top mark, and only
  the mapping, the top mark and the change counter change; when it does not, the mapping is
  unchanged and the spare area has no good block.\<close>

theorem map_block_spec:
  assumes "lay ni" and "lb < block_count ni"
  shows "ok (nmbm_map_block crc ni lb) (\<lambda>(b, ni'). lay ni' \<and> safe (region ni) ni ni' \<and>
     (if b then \<exists>pb. ni' = ni\<lparr>block_mapping := (block_mapping ni)[unat lb := pb],
            mapping_blocks_top_ba := mapping_blocks_top_ba ni - 1,
            block_mapping_changed := block_mapping_changed ni + 1\<rparr> \<and>
          mapping_blocks_ba ni < pb \<and> pb \<le> mapping_blocks_top_ba ni \<and>
          bst ni (unat pb) = BLOCK_ST_GOOD \<and>
          no_good ni (unat pb) (unat (mapping_blocks_top_ba ni))
      else block_mapping ni' = block_mapping ni \<and>
          no_good ni (unat (mapping_blocks_ba ni)) (unat (mapping_blocks_top_ba ni))))"
  by (rule ok_mono2 [OF nmbm_map_block_ok [OF assms(1)]]) (use assms(2) in \<open>auto simp: word_less_nat_alt\<close>)

theorem map_block_spec_witness:
  "ok (nmbm_map_block demo_crc (demo_ni 0) 5) (\<lambda>(b, ni'). lay ni')"
  by (rule ok_mono2 [OF map_block_spec [OF lay_demo]]) simp_all

text \<open>C19: Erasing a logic block returns, whatever the chip does: every retry has consumed a spare
  block. The instance stays attached. Result 0 means that the block is mapped to a block of the chip
  that is neither bad nor to be remapped; the only other result is -EIO, and then the logic block is
  unmapped, which is what nmbm_check_bad_block reports as bad.\<close>

theorem erase_logic_block_total:
  assumes "attached ni" and "lb < block_count ni"
  shows "ok (nmbm_erase_logic_block crc ni lb) (\<lambda>(ret, ni'). attached ni' \<and>
    safe (all_blocks ni) ni ni' \<and> (ret = 0 \<or> ret = - EIO) \<and>
    (let pb = block_mapping ni' ! unat lb in
     if ret = 0 then \<not> is_neg32 pb \<and> pb < block_count ni' \<and> bst ni' (unat pb) \<noteq> BLOCK_ST_BAD \<and>
       bst ni' (unat pb) \<noteq> BLOCK_ST_NEED_REMAP
     else is_neg32 pb))"
proof -
  have "unat lb < unat (block_count ni)" using assms(2) by (simp add: word_less_nat_alt)
  from nmbm_erase_logic_block_ok [OF assms(1) this, of crc] show ?thesis
    by (auto simp: good_step_def erase_result_def elim!: ok_mono)
qed

theorem erase_logic_block_total_witness:
  "ok (nmbm_erase_logic_block demo_crc (demo_ni 0) 5) (\<lambda>(ret, ni'). attached ni' \<and> (ret = 0 \<or> ret = - EIO))"
  by (rule ok_mono2 [OF erase_logic_block_total [OF attached_demo]]) simp_all

text \<open>C30: Erasing a range whose end does not wrap around the address space returns and keeps the
  instance attached. The answer is -EROFS exactly on a protected or read-only instance, -EINVAL
  exactly on another instance when the range starts or ends beyond the logic blocks, and nothing is
  done then; otherwise it is 0, or -EIO with the address of a block of the range that is now unmapped.\<close>

theorem erase_block_range_spec:
  assumes "attached ni" and "unat addr + unat sz < 2 ^ 64"
  shows "ok (nmbm_erase_block_range crc ni addr sz) (\<lambda>(ret, failed, ni').
    attached ni' \<and> safe (all_blocks ni) ni ni' \<and> ret \<in> {0, - EROFS, - EINVAL, - EIO} \<and>
    (if protected ni \<or> has_flag ni NMBM_F_READ_ONLY then ret = - EROFS \<and> failed = None \<and> ni' = ni
     else if addr \<ge> ba2addr ni (data_block_count ni) \<or>
       unat (ba2addr ni (data_block_count ni)) < unat addr + unat sz then ret = - EINVAL \<and> failed = None \<and> ni' = ni
     else ret = 0 \<and> failed = None \<or>
       ret = - EIO \<and> (\<exists>lb. addr2ba ni addr \<le> lb \<and> lb \<le> addr2ba ni (addr + sz - 1) \<and>
         failed = Some (ba2addr ni lb) \<and> is_neg32 (block_mapping ni' ! unat lb))))"
  by (rule ok_mono3 [OF nmbm_erase_block_range_ok [OF assms]])
    (auto simp: good_step_def range_result_def split: if_splits)

theorem erase_block_range_spec_witness:
  "ok (nmbm_erase_block_range demo_crc (demo_ni 0) 256 512) (\<lambda>(ret, failed, ni').
    attached ni' \<and> (ret = 0 \<or> ret = - EIO))"
  by (rule ok_mono3 [OF erase_block_range_spec [OF attached_demo]])
    (auto simp: demo_ni_def sim_lower_def has_flag_def NMBM_F_READ_ONLY_def ba2addr_def split: if_splits)

text \<open>The range check of nmbm_erase_block_range adds without looking for a carry: for a size
  that takes the sum past 2^64 and back to a block below the first, the call is not refused with
  -EINVAL but reports success, with nothing erased.\<close>

theorem erase_range_check_wraps:
  assumes "\<not> protected ni" and "\<not> has_flag ni NMBM_F_READ_ONLY"
    and "addr < ba2addr ni (data_block_count ni)" and "2 ^ 64 \<le> unat addr + unat sz"
    and "addr2ba ni (addr + sz - 1) < addr2ba ni addr" and "addr + sz \<le> ba2addr ni (data_block_count ni)"
  shows "nmbm_erase_block_range crc ni addr sz = Some (0, None, ni)"
proof -
  have "sz \<noteq> 0" using assms(4) unat_u64_lt [of addr] by auto
  then have "nmbm_erase_block_range crc ni addr sz =
      erase_range_loop crc ni (addr2ba ni addr) (addr2ba ni (addr + sz - 1))"
    using assms(1-3,6) by (auto simp: nmbm_erase_block_range_def dest: leD)
  also have "\<dots> = Some (0, None, ni)"
    using assms(5) by (subst erase_range_loop.simps) (auto dest: leD)
  finally show ?thesis .
qed

theorem erase_range_check_wraps_witness:
  "nmbm_erase_block_range demo_crc (demo_ni 0) 256 (- 128) = Some (0, None, demo_ni 0)"
  by (rule erase_range_check_wraps)
    (simp_all add: demo_ni_def sim_lower_def has_flag_def NMBM_F_READ_ONLY_def ba2addr_def addr2ba_def)

section \<open>Reading back what was written\<close>

text \<open>
  What a working chip does at a page address \<open>a\<close>, in the states \<open>good\<close> of the chip: a write that
  reports success stores the page, a read that reports success delivers the stored page, and
  neither reads nor resets change it. A write that fails may leave anything.
\<close>

definition page_memory ::
    "'d nmbm_lower_device \<Rightarrow> ('d \<Rightarrow> bool) \<Rightarrow> ('d \<Rightarrow> bytes) \<Rightarrow> u64 \<Rightarrow> nmbm_oob_mode \<Rightarrow> bool" where
  "page_memory L good peek a mode \<longleftrightarrow>
     (\<forall>f d c r c'. write_page L = Some f \<and> good c \<and> length d = unat (writesize L) \<and>
        f a (Some d) None mode c = (r, c') \<longrightarrow> good c' \<and> (r = 0 \<longrightarrow> peek c' = d)) \<and>
     (\<forall>f old c r d b c'. read_page L = Some f \<and> good c \<and> f a (Some old) None mode c = (r, d, b, c') \<longrightarrow>
        good c' \<and> peek c' = peek c \<and> (0 \<le> r \<longrightarrow> d = peek c)) \<and>
     (\<forall>f c. reset_chip L = Some f \<and> good c \<longrightarrow> good (f c) \<and> peek (f c) = peek c)"

lemma memory_reset:
  "page_memory L good peek a mode \<Longrightarrow> reset_chip L = Some f \<Longrightarrow> good c \<Longrightarrow> good (f c) \<and> peek (f c) = peek c"
  unfolding page_memory_def by blast

lemma reset_memory:
  assumes "page_memory (lower ni) good peek a mode" and "good (chip ni)"
  shows "\<exists>c. nmbm_reset_chip ni = ni\<lparr>chip := c\<rparr> \<and> good c \<and> peek c = peek (chip ni)"
proof (cases "reset_chip (lower ni)")
  case None
  then have "nmbm_reset_chip ni = ni\<lparr>chip := chip ni\<rparr>" by (simp add: nmbm_reset_chip_def)
  then show ?thesis using assms(2) by blast
next
  case (Some f)
  then have "nmbm_reset_chip ni = ni\<lparr>chip := f (chip ni)\<rparr>" by (simp add: nmbm_reset_chip_def)
  then show ?thesis using memory_reset [OF assms(1) Some assms(2)] by blast
qed

lemma write_tries_memory:
  assumes "page_memory L good peek a mode" and "write_page L = Some f"
    and "length d = unat (writesize L)" and "lower ni = L" and "good (chip ni)"
    and "op_tries n (f a (Some d) None mode) ni = (True, ni')"
  shows "good (chip ni') \<and> peek (chip ni') = d \<and> ni' = ni\<lparr>chip := chip ni'\<rparr>"
  using assms(4-6)
proof (induction n arbitrary: ni)
  case (Suc n)
  obtain r c where rc: "f a (Some d) None mode (chip ni) = (r, c)" by fastforce
  then have c: "good c" "r = 0 \<longrightarrow> peek c = d"
    using assms(1-3) Suc.prems(2) unfolding page_memory_def by blast+
  show ?case
  proof (cases "r = 0")
    case True
    then show ?thesis using Suc.prems(3) c rc by (auto simp: Let_def)
  next
    case False
    let ?n = "nmbm_reset_chip (ni\<lparr>chip := c\<rparr>)"
    have m: "page_memory (lower (ni\<lparr>chip := c\<rparr>)) good peek a mode" using assms(1) Suc.prems(1) by simp
    obtain c2 where c2: "?n = (ni\<lparr>chip := c\<rparr>)\<lparr>chip := c2\<rparr>" "good c2"
      using reset_memory [OF m] c(1) by auto
    then show ?thesis
      using Suc.IH [of ?n] Suc.prems(1,3) False rc by (auto simp: Let_def)
  qed
qed simp

lemma read_tries_memory:
  assumes "page_memory L good peek a mode"
    and "lower ni = L" and "good (chip ni)" and "length buf = length (peek (chip ni))" and "n \<noteq> 0"
    and "read_tries n ret ni a (Some buf) None mode = Some (r, dat, oob, ni')" and "0 \<le> r"
  shows "dat = Some (peek (chip ni)) \<and> peek (chip ni') = peek (chip ni)"
  using assms(2-7)
proof (induction n arbitrary: ret ni buf)
  case (Suc n)
  obtain f where f: "read_page L = Some f"
    using Suc.prems by (cases "read_page L") (auto simp: lower_read_page_def)
  obtain r1 d b c where rc: "f a (Some buf) None mode (chip ni) = (r1, d, b, c)"
    by (metis prod_cases4)
  then have c: "good c" "peek c = peek (chip ni)" "0 \<le> r1 \<longrightarrow> d = peek (chip ni)"
    using assms(1) f Suc.prems(2) unfolding page_memory_def by blast+
  have lr: "lower_read_page ni a (Some buf) None mode =
      Some (r1, Some (overlay buf d), None, ni\<lparr>chip := c\<rparr>)"
    by (simp add: lower_read_page_def Suc.prems(1) f rc)
  show ?case
  proof (cases "0 \<le> r1")
    case True
    then show ?thesis using Suc.prems lr c by (auto simp: overlay_same_length)
  next
    case False
    let ?n = "nmbm_reset_chip (ni\<lparr>chip := c\<rparr>)"
    have m: "page_memory (lower (ni\<lparr>chip := c\<rparr>)) good peek a mode" using assms(1) Suc.prems(1) by simp
    obtain c2 where c2': "?n = (ni\<lparr>chip := c\<rparr>)\<lparr>chip := c2\<rparr>" "good c2" "peek c2 = peek c"
      using reset_memory [OF m] c(1) by auto
    then have c2: "lower ?n = L" "good (chip ?n)" "peek (chip ?n) = peek (chip ni)"
      using Suc.prems(1) c(2) by simp_all
    have rt: "read_tries n r1 ?n a (Some (overlay buf d)) None mode = Some (r, dat, oob, ni')"
      using Suc.prems(5) False by (simp add: lr)
    then have "n \<noteq> 0" using False Suc.prems(6) by (cases n) auto
    then show ?thesis
      using Suc.IH [OF c2(1,2) _ _ rt Suc.prems(6)] c2(3) Suc.prems(3) by simp
  qed
qed simp

text \<open>C7: A page written through nmbm_write_single_page with result 0 is what
  nmbm_read_single_page delivers for the same address afterwards, whenever the read succeeds, on a
  chip that stores pages: the translation of the address, the retries and the resets in between do
  not lose it.\<close>

theorem read_after_write:
  assumes "\<And>pb a. logic_to_phys ni addr = Some (Some (pb, a)) \<Longrightarrow> page_memory (lower ni) good peek a mode"
    and "good (chip ni)" and "length d = unat (writesize (lower ni))" and "length buf = length d"
    and "nmbm_write_single_page crc ni addr (Some d) None mode = Some (0, ni1)"
    and "nmbm_read_single_page ni1 addr (Some buf) None mode = Some (ret, dat, oob, ni2)" and "0 \<le> ret"
  shows "dat = Some d"
proof -
  have w: "\<not> protected ni" "\<not> has_flag ni NMBM_F_READ_ONLY" "\<not> addr \<ge> ba2addr ni (data_block_count ni)"
      "nmbm_write_logic_page crc ni addr (Some d) None mode = Some (0, ni1)"
    using assms(5) by (auto simp: nmbm_write_single_page_def EROFS_def EINVAL_def split: if_splits)
  obtain pb a ni' where lp: "logic_to_phys ni addr = Some (Some (pb, a))"
      and wp: "nmbm_write_phys_page ni a (Some d) None mode = Some (True, ni1)"
    using w(4) by (auto simp: nmbm_write_logic_page_def EIO_def bind_eq_Some_conv split: option.splits if_splits)
  note m = assms(1) [OF lp]
  obtain f where f: "write_page (lower ni) = Some f"
      and ot: "op_tries NMBM_TRY_COUNT (f a (Some d) None mode) ni = (True, ni1)"
    using wp w(2) by (auto simp: nmbm_write_phys_page_def split: option.splits)
  have n1: "good (chip ni1)" "peek (chip ni1) = d" "ni1 = ni\<lparr>chip := chip ni1\<rparr>"
    using write_tries_memory [OF m f assms(3) refl assms(2) ot] by blast+
  have lp1: "logic_to_phys ni1 addr = Some (Some (pb, a))"
    using lp by (subst n1(3)) (simp add: logic_to_phys_def addr2ba_def ba2addr_def
        nmbm_get_block_state_def cong: if_cong)
  have g: "protected ni1 = protected ni" "ba2addr ni1 = ba2addr ni" "data_block_count ni1 = data_block_count ni"
      "lower ni1 = lower ni"
    by (subst n1(3), simp add: ba2addr_def fun_eq_iff)+
  have "read_tries NMBM_TRY_COUNT 0 ni1 a (Some buf) None mode = Some (ret, dat, oob, ni2)"
    using assms(6) w(1,3) lp1 g
    by (simp add: nmbm_read_single_page_def nmbm_read_logic_page_def nmbm_read_phys_page_def)
  from read_tries_memory [OF m g(4) n1(1) _ _ this assms(7)] show ?thesis
    using n1(2) assms(4) by (simp add: NMBM_TRY_COUNT_def)
qed

lemma sim_memory:
  assumes "sim_page a < 64"
  shows "page_memory (sim_lower f) (\<lambda>c. length c = 64) (\<lambda>c. take 64 (c ! sim_page a)) a mode"
  using assms by (auto simp: page_memory_def sim_lower_def sim_write_def sim_read_def)

lemma demo_phys: "logic_to_phys ((demo_ni 0)\<lparr>chip := c\<rparr>) 192 = Some (Some (1, 192))"
  by (simp add: logic_to_phys_def demo_ni_def addr2ba_def ba2addr_def load_def nmbm_get_block_state_def
      nmbm_get_block_state_raw_def is_neg32_def block_st_defs nth_append)

lemma try_count_Suc: "NMBM_TRY_COUNT = Suc 2"
  by (simp add: NMBM_TRY_COUNT_def)

lemma demo_chip: "(demo_ni f)\<lparr>chip := replicate 64 (replicate 68 0xff)\<rparr> = demo_ni f"
  by (simp add: demo_ni_def)

definition demo_written :: "sim nmbm_instance" where
  "demo_written = (demo_ni 0)\<lparr>chip := (replicate 64 (replicate 68 0xff))[3 := replicate 64 7 @ replicate 4 0xff]\<rparr>"

lemma demo_write:
  "nmbm_write_single_page demo_crc (demo_ni 0) 192 (Some (replicate 64 7)) None NMBM_MODE_PLACE_OOB =
     Some (0, demo_written)"
proof -
  have "nmbm_write_phys_page (demo_ni 0) 192 (Some (replicate 64 7)) None NMBM_MODE_PLACE_OOB =
      Some (True, demo_written)"
    unfolding nmbm_write_phys_page_def try_count_Suc op_tries.simps
    by (simp add: has_flag_def NMBM_F_READ_ONLY_def demo_written_def)
      (simp add: demo_ni_def sim_lower_def sim_write_def sim_page_def)
  then show ?thesis
    using demo_phys [of "replicate 64 (replicate 68 0xff)"] demo_chip [of 0]
    by (simp add: nmbm_write_single_page_def nmbm_write_logic_page_def)
      (simp add: demo_ni_def has_flag_def NMBM_F_READ_ONLY_def sim_lower_def ba2addr_def)
qed

lemma demo_read:
  "nmbm_read_single_page demo_written 192 (Some (replicate 64 0)) None NMBM_MODE_PLACE_OOB =
     Some (0, Some (overlay (replicate 64 0) (take 64 (chip demo_written ! 3))), None, demo_written)"
proof -
  have "lower_read_page demo_written 192 (Some (replicate 64 0)) None NMBM_MODE_PLACE_OOB =
      Some (0, Some (overlay (replicate 64 0) (take 64 (chip demo_written ! 3))), None, demo_written)"
    by (simp add: demo_written_def lower_read_page_def)
      (simp add: demo_ni_def sim_lower_def sim_read_def sim_page_def)
  then have "nmbm_read_phys_page demo_written 192 (Some (replicate 64 0)) None NMBM_MODE_PLACE_OOB =
      Some (0, Some (overlay (replicate 64 0) (take 64 (chip demo_written ! 3))), None, demo_written)"
    unfolding nmbm_read_phys_page_def try_count_Suc read_tries.simps by simp
  then show ?thesis
    using demo_phys [of "chip demo_written"]
    by (simp add: nmbm_read_single_page_def nmbm_read_logic_page_def demo_written_def)
      (simp add: demo_ni_def ba2addr_def)
qed

theorem read_after_write_witness:
  "\<exists>ni1 oob ni2.
     nmbm_write_single_page demo_crc (demo_ni 0) 192 (Some (replicate 64 7)) None NMBM_MODE_PLACE_OOB =
       Some (0, ni1) \<and>
     nmbm_read_single_page ni1 192 (Some (replicate 64 0)) None NMBM_MODE_PLACE_OOB =
       Some (0, Some (replicate 64 7), oob, ni2)"
proof -
  have "Some (overlay (replicate 64 0) (take 64 (chip demo_written ! 3))) = Some (replicate 64 7)"
    by (rule read_after_write [where good = "\<lambda>c. length c = 64" and peek = "\<lambda>c. take 64 (c ! 3)",
          OF _ _ _ _ demo_write demo_read])
      (use demo_phys [of "replicate 64 (replicate 68 0xff)"] demo_chip [of 0] sim_memory [of 192 0]
        in \<open>simp_all add: sim_page_def\<close>, simp_all add: demo_ni_def sim_lower_def)
  then show ?thesis using demo_write demo_read by metis
qed

end
