(* ===== verification/Nmbm_Service.thy ===== *)
theory Nmbm_Service
  imports Nmbm_Properties
begin

text \<open>
  Sequences of requests. The NMBM core and the MTD layer above it each provide the contract
  \<open>service\<close> of the prelude: every request returns and keeps the component's invariant, so every
  sequence of requests does.
\<close>

section \<open>The requests of a device\<close>

datatype request =
    EraseRange u64 u64
  | ReadPage u64 "bytes option" "bytes option" nmbm_oob_mode
  | ReadRange u64 bytes nmbm_oob_mode
  | WritePage u64 "bytes option" "bytes option" nmbm_oob_mode
  | PanicWritePage u64 bytes
  | WriteRange u64 bytes nmbm_oob_mode
  | MarkBad u64
  | CheckBad u64

fun serve :: "crc_fun \<Rightarrow> request \<Rightarrow> 'd nmbm_instance \<Rightarrow> 'd nmbm_instance option" where
  "serve crc (EraseRange addr sz) ni = map_option (\<lambda>(_, _, ni'). ni') (nmbm_erase_block_range crc ni addr sz)"
| "serve crc (ReadPage addr dat oob mode) ni = map_option (\<lambda>(_, _, _, ni'). ni') (nmbm_read_single_page ni addr dat oob mode)"
| "serve crc (ReadRange addr buf mode) ni = map_option (\<lambda>(_, _, _, ni'). ni') (nmbm_read_range ni addr buf mode)"
| "serve crc (WritePage addr dat oob mode) ni = map_option (\<lambda>(_, ni'). ni') (nmbm_write_single_page crc ni addr dat oob mode)"
| "serve crc (PanicWritePage addr dat) ni = map_option (\<lambda>(_, ni'). ni') (nmbm_panic_write_single_page crc ni addr dat)"
| "serve crc (WriteRange addr dat mode) ni = map_option (\<lambda>(_, _, ni'). ni') (nmbm_write_range crc ni addr dat mode)"
| "serve crc (MarkBad addr) ni = map_option (\<lambda>(_, ni'). ni') (nmbm_mark_bad_block crc ni addr)"
| "serve crc (CheckBad addr) ni = map_option (\<lambda>_. ni) (nmbm_check_bad_block ni addr)"

text \<open>The one thing the callers owe: the end of a range does not wrap around.\<close>

fun no_wrap :: "request \<Rightarrow> bool" where
  "no_wrap (EraseRange addr sz) \<longleftrightarrow> unat addr + unat sz < 2 ^ 64"
| "no_wrap (ReadRange addr buf mode) \<longleftrightarrow> unat addr + length buf < 2 ^ 64"
| "no_wrap (WriteRange addr dat mode) \<longleftrightarrow> unat addr + length dat < 2 ^ 64"
| "no_wrap _ \<longleftrightarrow> True"

lemma ok_map_option: "ok (map_option f m) Q \<longleftrightarrow> ok m (\<lambda>x. Q (f x))"
  by (cases m) simp_all

lemma nmbm_check_bad_block_ok:
  assumes "readable ni"
  shows "ok (nmbm_check_bad_block ni addr) (\<lambda>ret. ret = - EINVAL \<or> ret = 0 \<or> ret = 1)"
proof (cases "addr \<ge> ba2addr ni (data_block_count ni)")
  case True
  then show ?thesis by (simp add: nmbm_check_bad_block_def)
next
  case False
  have wf: "wf ni" and m: "mapped ni" and d: "data_block_count ni \<le> block_count ni"
    using assms by (simp_all add: readable_def)
  have a: "unat (addr2ba ni addr) < length (block_mapping ni)"
    using addr_below_bc [OF wf d, of addr] False wf by (simp add: word_le_nat_alt wf_def)
  let ?pb = "block_mapping ni ! unat (addr2ba ni addr)"
  have "unat ?pb < unat (block_count ni)" if "\<not> is_neg32 ?pb"
    using m that nth_mem [OF a] by (auto simp: mapped_def word_less_nat_alt)
  then show ?thesis
    using False a wf_st_len [OF wf] by (auto simp: nmbm_check_bad_block_def ok_bind nmbm_get_block_state_eq)
qed

lemma serve_good:
  assumes "attached ni" and "no_wrap r"
  shows "ok (serve crc r ni) (good_step ni)"
proof -
  have rd: "readable ni" by (rule attached_readable [OF assms(1)])
  then have wf: "wf ni" "mapped ni" "data_block_count ni \<le> block_count ni" by (simp_all add: readable_def)
  show ?thesis
  proof (cases r)
    case (EraseRange addr sz)
    then show ?thesis
      using nmbm_erase_block_range_ok [OF assms(1), of addr sz crc] assms(2)
      by (auto simp: ok_map_option case_prod_unfold elim!: ok_mono)
  next
    case (ReadPage addr dat oob mode)
    show ?thesis
      using nmbm_read_single_page_ok [OF wf, of addr dat oob mode]
      by (auto simp: ReadPage ok_map_option case_prod_unfold elim!: ok_mono intro: good_step_quiet [OF assms(1)])
  next
    case (ReadRange addr buf mode)
    show ?thesis
      using nmbm_read_range_ok [OF rd, of addr buf mode] assms(2)
      by (auto simp: ReadRange ok_map_option case_prod_unfold elim!: ok_mono intro: good_step_quiet [OF assms(1)])
  next
    case (WritePage addr dat oob mode)
    show ?thesis
      using nmbm_write_single_page_ok [OF assms(1), of crc addr dat oob mode]
      by (auto simp: WritePage ok_map_option case_prod_unfold elim!: ok_mono)
  next
    case (PanicWritePage addr dat)
    show ?thesis
      using nmbm_panic_write_single_page_ok [OF assms(1), of crc addr dat]
      by (auto simp: PanicWritePage ok_map_option case_prod_unfold elim!: ok_mono)
  next
    case (WriteRange addr dat mode)
    show ?thesis
      using nmbm_write_range_ok [OF assms(1), of addr dat crc mode] assms(2)
      by (auto simp: WriteRange ok_map_option case_prod_unfold elim!: ok_mono)
  next
    case (MarkBad addr)
    show ?thesis
      using nmbm_mark_bad_block_ok [OF assms(1), of crc addr]
      by (auto simp: MarkBad ok_map_option case_prod_unfold elim!: ok_mono)
  next
    case (CheckBad addr)
    show ?thesis
      using nmbm_check_bad_block_ok [OF rd, of addr] assms(1)
      by (auto simp: CheckBad ok_map_option elim!: ok_mono)
  qed
qed

interpretation nmbm: service "serve crc" no_wrap attached "\<lambda>a b. safe (all_blocks a) a b"
proof unfold_locales
  fix s :: "'a nmbm_instance" and r
  assume "attached s" and "no_wrap r"
  then show "ok (serve crc r s) (\<lambda>s'. attached s' \<and> safe (all_blocks s) s s')"
    using serve_good [of s r crc] by (simp add: good_step_def [abs_def])
next
  fix s s' s'' :: "'a nmbm_instance"
  assume "safe (all_blocks s) s s'" and "safe (all_blocks s') s' s''"
  then show "safe (all_blocks s) s s''" by (metis all_blocks_safe safe_trans)
qed simp

lemmas requests_ok = nmbm.run_all_ok

text \<open>C1: Whatever requests an attached device is given, in whatever order, as long as the end of
  no range wraps around: every one of them returns, the device stays attached with the same geometry, and a
  block recorded as bad is never taken back into use.\<close>

theorem requests_total:
  assumes "attached ni" and "list_all no_wrap rs"
  shows "\<exists>ni'. run_all (serve crc) rs ni = Some ni' \<and> attached ni' \<and> static ni' = static ni \<and>
    (\<forall>i < unat (block_count ni). bst ni i = BLOCK_ST_BAD \<longrightarrow> bst ni' i = BLOCK_ST_BAD)"
proof -
  have "ok (run_all (serve crc) rs ni) (\<lambda>ni'. attached ni' \<and> safe (all_blocks ni) ni ni')"
    by (rule requests_ok [OF assms(1)]) (use assms(2) in \<open>auto simp: list_all_iff\<close>)
  then obtain ni' where r: "run_all (serve crc) rs ni = Some ni'" and a: "attached ni'"
    and s: "safe (all_blocks ni) ni ni'" by (auto elim: okE)
  have "i < st_len (block_state ni)" if "i < unat (block_count ni)" for i
    using wf_st_len [OF attached_wf [OF assms(1)], of "of_nat i :: u32"] that unat_u32_lt [of "block_count ni"]
    by (simp add: unsigned_of_nat take_bit_nat_eq_self)
  then show ?thesis
    using r a s by (auto simp: safe_def bst_def intro: bitmap.worse_bad)
qed

theorem requests_total_witness:
  "\<exists>ni'. run_all (serve demo_crc) [EraseRange 0 256, WriteRange 4 [1, 2, 3] NMBM_MODE_RAW, MarkBad 128, CheckBad 128] (demo_ni 0) =
     Some ni' \<and> attached ni' \<and> static ni' = static (demo_ni 0) \<and>
    (\<forall>i < unat (block_count (demo_ni 0)). bst (demo_ni 0) i = BLOCK_ST_BAD \<longrightarrow> bst ni' i = BLOCK_ST_BAD)"
  by (rule requests_total [OF attached_demo]) simp

text \<open>C20: On a device attached read-only every sequence of requests whose ranges do not wrap around the
  address space returns, and none writes, erases or marks anything on the chip: the chip is only
  read, reset and queried.\<close>

theorem read_only_requests:
  assumes "attached ni" and "read_only ni" and "list_all no_wrap rs"
  shows "\<exists>ni'. run_all (serve crc) rs ni = Some ni' \<and> dev_reach (lower ni) (es_sh ni) {} (chip ni) (chip ni')"
proof -
  have "ok (run_all (serve crc) rs ni) (\<lambda>ni'. attached ni' \<and> safe (all_blocks ni) ni ni')"
    by (rule requests_ok [OF assms(1)]) (use assms(3) in \<open>auto simp: list_all_iff\<close>)
  then show ?thesis using assms(2) by (auto elim!: okE simp: safe_def wset_def)
qed

theorem read_only_requests_witness:
  "\<exists>ni'. run_all (serve demo_crc) [EraseRange 0 256, MarkBad 128, ReadRange 3 [0, 0] NMBM_MODE_RAW] (demo_ni NMBM_F_READ_ONLY) =
     Some ni' \<and> dev_reach (lower (demo_ni NMBM_F_READ_ONLY)) (es_sh (demo_ni NMBM_F_READ_ONLY)) {}
       (chip (demo_ni NMBM_F_READ_ONLY)) (chip ni')"
  by (rule read_only_requests [OF attached_demo]) (simp_all add: read_only_def has_flag_def demo_ni_def sim_lower_def NMBM_F_READ_ONLY_def)

end
