(* ===== verification/Nmbm_Mtd_Service.thy ===== *)
theory Nmbm_Mtd_Service
  imports Nmbm_Service
begin

text \<open>
  The MTD layer above the NMBM core: its page loops stay inside the page cache and the caller's
  buffers, its operations return and give the device back, and no address beyond 4 GiB survives.
\<close>

section \<open>The invariant of the MTD layer\<close>

text \<open>
  The instance below is attached, the page cache holds a page and its spare area, and the column
  mask is below the page size.
\<close>

definition cached :: "'c nmbm_mtd \<Rightarrow> bool" where
  "cached nm \<longleftrightarrow> attached (nm_ni nm) \<and>
     unat (lm_writesize_mask (nm_lower nm)) < unat (lm_writesize (nm_lower nm)) \<and>
     length (nm_page_cache nm) = unat (lm_writesize (nm_lower nm)) + unat (lm_oobsize (nm_lower nm))"

definition mtd_step :: "'c nmbm_mtd \<Rightarrow> 'c nmbm_mtd \<Rightarrow> bool" where
  "mtd_step a b \<longleftrightarrow> nm_lower b = nm_lower a \<and> fl_state b = fl_state a \<and> upper_size b = upper_size a \<and>
     safe (all_blocks (nm_ni a)) (nm_ni a) (nm_ni b)"

lemma mtd_step_refl [simp]: "mtd_step a a"
  by (simp add: mtd_step_def)

lemma mtd_step_trans: "mtd_step a b \<Longrightarrow> mtd_step b c \<Longrightarrow> mtd_step a c"
  unfolding mtd_step_def by (metis all_blocks_safe safe_trans)

definition mtd_ok :: "'c nmbm_mtd \<Rightarrow> 'c nmbm_mtd \<Rightarrow> bool" where
  "mtd_ok a b \<longleftrightarrow> cached b \<and> mtd_step a b"

lemma mtd_ok_refl [simp]: "mtd_ok a a \<longleftrightarrow> cached a"
  by (simp add: mtd_ok_def)

lemma mtd_ok_trans: "mtd_ok a b \<Longrightarrow> mtd_ok b c \<Longrightarrow> mtd_ok a c"
  by (auto simp: mtd_ok_def intro: mtd_step_trans)

lemma mtd_ok_cached: "mtd_ok a b \<Longrightarrow> cached b"
  by (simp add: mtd_ok_def)

lemma mtd_ok_ni: "cached nm \<Longrightarrow> good_step (nm_ni nm) ni \<Longrightarrow> mtd_ok nm (nm\<lparr>nm_ni := ni\<rparr>)"
  by (simp add: mtd_ok_def cached_def mtd_step_def good_step_def)

lemma mtd_ok_cache: "cached nm \<Longrightarrow> length pc = length (nm_page_cache nm) \<Longrightarrow> mtd_ok nm (nm\<lparr>nm_page_cache := pc\<rparr>)"
  by (simp add: mtd_ok_def cached_def mtd_step_def)

lemma mtd_ok_lower: "mtd_ok a b \<Longrightarrow> nm_lower b = nm_lower a"
  by (simp add: mtd_ok_def mtd_step_def)

section \<open>The page loops\<close>

lemma dat_cache_ok: "cached nm \<Longrightarrow> ok (dat_cache nm use)
    (\<lambda>d. \<forall>xs. d = Some xs \<longrightarrow> length xs = unat (lm_writesize (nm_lower nm)))"
  by (auto simp: dat_cache_def cached_def ok_map_option)

lemma oob_cache_ok: "cached nm \<Longrightarrow> ok (oob_cache nm use)
    (\<lambda>d. \<forall>xs. d = Some xs \<longrightarrow> length xs = unat (lm_oobsize (nm_lower nm)))"
  by (auto simp: oob_cache_def cached_def ok_map_option)

lemma put_cache_ok:
  assumes "cached nm" and "\<And>xs. b = Some xs \<Longrightarrow> off + length xs \<le> length (nm_page_cache nm)"
  shows "ok (put_cache nm off b) (mtd_ok nm)"
  using assms by (cases b) (auto simp: put_cache_def ok_bind intro: mtd_ok_cache)

text \<open>The copies are those of \<open>Mtd_Request\<close> on this device's page cache.\<close>

lemma move_eqs:
  "move_dat nm ops len col = to_user_dat (nm_page_cache nm) (unat (lm_writesize (nm_lower nm))) ops len col"
  "move_oob nm ops ooblen ooboffs maxooblen =
     to_user_oob (nm_page_cache nm) (unat (lm_writesize (nm_lower nm))) maxooblen ops ooblen ooboffs"
  by (simp_all add: move_dat_def to_user_dat_def move_oob_def to_user_oob_def)

lemma move_dat_ok:
  assumes "cached nm" and "col < unat (lm_writesize (nm_lower nm))" and "room (ops_datbuf ops) (ops_retlen ops) len"
  shows "ok (move_dat nm ops len col) (\<lambda>(ops', len', col').
    col' < unat (lm_writesize (nm_lower nm)) \<and> (\<exists>n. len = n + len' \<and> (len \<noteq> 0 \<longrightarrow> 0 < n) \<and> filled ops n 0 ops'))"
  unfolding move_eqs by (rule to_user_dat_ok) (use assms in \<open>auto simp: cached_def\<close>)

lemma move_oob_ok:
  assumes "cached nm" and "ooblen \<noteq> 0 \<Longrightarrow> ooboffs < maxooblen" and "maxooblen \<le> unat (lm_oobsize (nm_lower nm))"
    and "room (ops_oobbuf ops) (ops_oobretlen ops) ooblen"
  shows "ok (move_oob nm ops ooblen ooboffs maxooblen) (\<lambda>(ops', ooblen', ooboffs').
    (ooblen' \<noteq> 0 \<longrightarrow> ooboffs' < maxooblen) \<and>
    (\<exists>n. ooblen = n + ooblen' \<and> (ooblen \<noteq> 0 \<longrightarrow> 0 < n) \<and> filled ops 0 n ops'))"
  unfolding move_eqs
  by (rule to_user_oob_ok [where os = "unat (lm_oobsize (nm_lower nm))"]) (use assms in \<open>auto simp: cached_def\<close>)

text \<open>
  The state of a page loop: the invariant, a column and a spare-area offset that leave room in
  the page, and room in the caller's buffers for what is left.
\<close>

definition page_loop :: "'c nmbm_mtd \<Rightarrow> mtd_oob_ops \<Rightarrow> nat \<Rightarrow> nat \<Rightarrow> nat \<Rightarrow> nat \<Rightarrow> nat \<Rightarrow> bool" where
  "page_loop nm ops len ooblen col ooboffs maxooblen \<longleftrightarrow> cached nm \<and>
     col < unat (lm_writesize (nm_lower nm)) \<and> (ooblen \<noteq> 0 \<longrightarrow> ooboffs < maxooblen) \<and>
     maxooblen \<le> unat (lm_oobsize (nm_lower nm)) \<and>
     room (ops_datbuf ops) (ops_retlen ops) len \<and> room (ops_oobbuf ops) (ops_oobretlen ops) ooblen"

text \<open>One page of a read: both moves, and the state of the loop after them.\<close>

lemma moves_ok:
  assumes "page_loop nm ops len ooblen col ooboffs maxooblen" and "mtd_ok nm nm'"
    and step: "\<And>ops' len' col' ooblen' ooboffs' n k. len = n + len' \<Longrightarrow> ooblen = k + ooblen' \<Longrightarrow>
      (len \<noteq> 0 \<or> ooblen \<noteq> 0 \<longrightarrow> 0 < n + k) \<Longrightarrow> filled ops n k ops' \<Longrightarrow>
      page_loop nm' ops' len' ooblen' col' ooboffs' maxooblen \<Longrightarrow> ok (f ops' len' col' ooblen' ooboffs') Q"
  shows "ok (Option.bind (move_dat nm' ops len col) (\<lambda>(ops, len, col).
           Option.bind (move_oob nm' ops ooblen ooboffs maxooblen) (\<lambda>(ops, ooblen, ooboffs).
             f ops len col ooblen ooboffs))) Q"
proof (rule ok_bind3 [OF move_dat_ok])
  note a = assms(1) [unfolded page_loop_def] and lw = mtd_ok_lower [OF assms(2)]
  show "cached nm'" by (rule mtd_ok_cached [OF assms(2)])
  show "col < unat (lm_writesize (nm_lower nm'))" using a by (simp add: lw)
  show "room (ops_datbuf ops) (ops_retlen ops) len" using a by simp
  fix ops1 len1 col1
  assume 1: "col1 < unat (lm_writesize (nm_lower nm')) \<and>
    (\<exists>n. len = n + len1 \<and> (len \<noteq> 0 \<longrightarrow> 0 < n) \<and> filled ops n 0 ops1)"
  then obtain n where n: "len = n + len1" "len \<noteq> 0 \<longrightarrow> 0 < n" "filled ops n 0 ops1" by blast
  have r1: "room (ops_oobbuf ops1) (ops_oobretlen ops1) ooblen"
    and rd1: "room (ops_datbuf ops1) (ops_retlen ops1) len1"
    using room_filled [OF n(3)] a n(1) by simp_all
  show "ok (Option.bind (move_oob nm' ops1 ooblen ooboffs maxooblen) (\<lambda>(ops, ooblen, ooboffs).
      f ops len1 col1 ooblen ooboffs)) Q"
  proof (rule ok_bind3 [OF move_oob_ok [OF mtd_ok_cached [OF assms(2)] _ _ r1]])
    show "ooboffs < maxooblen" if "ooblen \<noteq> 0" using a that by simp
    show "maxooblen \<le> unat (lm_oobsize (nm_lower nm'))" using a by (simp add: lw)
    fix ops2 ooblen2 ooboffs2
    assume 2: "(ooblen2 \<noteq> 0 \<longrightarrow> ooboffs2 < maxooblen) \<and>
      (\<exists>k. ooblen = k + ooblen2 \<and> (ooblen \<noteq> 0 \<longrightarrow> 0 < k) \<and> filled ops1 0 k ops2)"
    then obtain k where k: "ooblen = k + ooblen2" "ooblen \<noteq> 0 \<longrightarrow> 0 < k" "filled ops1 0 k ops2" by blast
    have fl: "filled ops n k ops2" using filled_trans [OF n(3) k(3)] by simp
    show "ok (f ops2 len1 col1 ooblen2 ooboffs2) Q"
    proof (rule step [OF n(1) k(1) _ fl])
      show "len \<noteq> 0 \<or> ooblen \<noteq> 0 \<longrightarrow> 0 < n + k" using n(2) k(2) by auto
      show "page_loop nm' ops2 len1 ooblen2 col1 ooboffs2 maxooblen"
        using 1 2 a room_filled [OF k(3)] r1 rd1 k(1) mtd_ok_cached [OF assms(2)]
        by (simp add: page_loop_def lw)
    qed
  qed
qed

text \<open>One page of a read: the page and its spare area end up in the page cache.\<close>

lemma cache_page_ok:
  assumes c: "cached nm" and step: "\<And>ret nm'. mtd_ok nm nm' \<Longrightarrow> ok (f ret nm') Q"
  shows "ok (Option.bind (dat_cache nm useDat) (\<lambda>dc. Option.bind (oob_cache nm useOob) (\<lambda>oc.
     Option.bind (nmbm_read_single_page (nm_ni nm) addr dc oc mode) (\<lambda>(ret, dat, oob, ni).
     Option.bind (put_cache (nm\<lparr>nm_ni := ni\<rparr>) 0 dat) (\<lambda>nm.
     Option.bind (put_cache nm (unat (lm_writesize (nm_lower nm))) oob) (f ret)))))) Q"
proof (rule ok_bindI [OF dat_cache_ok [OF c]], rule ok_bindI [OF oob_cache_ok [OF c]])
  let ?ws = "unat (lm_writesize (nm_lower nm))" and ?os = "unat (lm_oobsize (nm_lower nm))"
  have at: "attached (nm_ni nm)" using c by (simp add: cached_def)
  have rd: "wf (nm_ni nm)" "mapped (nm_ni nm)" "data_block_count (nm_ni nm) \<le> block_count (nm_ni nm)"
    using attached_readable [OF at] by (simp_all add: readable_def)
  have len: "length (nm_page_cache x) = ?ws + ?os" if "mtd_ok nm x" for x
    using mtd_ok_cached [OF that] mtd_ok_lower [OF that] by (simp add: cached_def)
  fix dc oc :: "bytes option"
  assume dc: "\<forall>xs. dc = Some xs \<longrightarrow> length xs = ?ws" and oc: "\<forall>xs. oc = Some xs \<longrightarrow> length xs = ?os"
  show "ok (Option.bind (nmbm_read_single_page (nm_ni nm) addr dc oc mode) (\<lambda>(ret, dat, oob, ni).
     Option.bind (put_cache (nm\<lparr>nm_ni := ni\<rparr>) 0 dat) (\<lambda>nm.
     Option.bind (put_cache nm (unat (lm_writesize (nm_lower nm))) oob) (f ret)))) Q"
  proof (rule ok_bind4 [OF nmbm_read_single_page_ok [OF rd]])
    fix ret dat oob ni
    assume rp: "io {} (nm_ni nm) ni \<and> page_cache ni = page_cache (nm_ni nm) \<and> same_shape dat dc \<and> same_shape oob oc"
    then have n0: "mtd_ok nm (nm\<lparr>nm_ni := ni\<rparr>)" by (intro mtd_ok_ni [OF c good_step_quiet [OF at]]) simp
    have ld: "length xs = ?ws" if "dat = Some xs" for xs using rp dc that by (cases dc) auto
    have lo: "length xs = ?os" if "oob = Some xs" for xs using rp oc that by (cases oc) auto
    have p1: "ok (put_cache (nm\<lparr>nm_ni := ni\<rparr>) 0 dat) (mtd_ok (nm\<lparr>nm_ni := ni\<rparr>))"
      by (rule put_cache_ok [OF mtd_ok_cached [OF n0]]) (use ld len [OF n0] in simp)
    have p2: "ok (put_cache nm1 (unat (lm_writesize (nm_lower nm1))) oob) (mtd_ok nm1)" if "mtd_ok nm nm1" for nm1
      by (rule put_cache_ok [OF mtd_ok_cached [OF that]]) (use lo len [OF that] mtd_ok_lower [OF that] in simp)
    show "ok (Option.bind (put_cache (nm\<lparr>nm_ni := ni\<rparr>) 0 dat) (\<lambda>nm.
       Option.bind (put_cache nm (unat (lm_writesize (nm_lower nm))) oob) (f ret))) Q"
      by (rule ok_bindI [OF p1], rule ok_bindI [OF p2], erule mtd_ok_trans [OF n0], rule step)
        (blast intro: mtd_ok_trans n0)
  qed
qed

text \<open>A page loop moved part of what it was asked for, and all of it unless it failed.\<close>

definition moved :: "'c nmbm_mtd \<Rightarrow> mtd_oob_ops \<Rightarrow> nat \<Rightarrow> nat \<Rightarrow> bool \<Rightarrow> mtd_oob_ops \<Rightarrow> 'c nmbm_mtd \<Rightarrow> bool" where
  "moved nm ops len ooblen failed ops' nm' \<longleftrightarrow> mtd_ok nm nm' \<and>
     (\<exists>n k. n \<le> len \<and> k \<le> ooblen \<and> filled ops n k ops' \<and> (\<not> failed \<longrightarrow> n = len \<and> k = ooblen))"

lemma moved_none: "mtd_ok nm nm' \<Longrightarrow> failed \<or> len = 0 \<and> ooblen = 0 \<Longrightarrow> moved nm ops len ooblen failed ops nm'"
  unfolding moved_def by (intro conjI exI [of _ "0::nat"]) auto

lemma moved_step:
  assumes "mtd_ok nm nm1" and "filled ops n k ops1" and "moved nm1 ops1 len ooblen failed ops2 nm2"
  shows "moved nm ops (n + len) (k + ooblen) failed ops2 nm2"
proof -
  obtain n' k' where m: "mtd_ok nm1 nm2" "n' \<le> len" "k' \<le> ooblen" "filled ops1 n' k' ops2"
      "\<not> failed \<longrightarrow> n' = len \<and> k' = ooblen"
    using assms(3) by (auto simp: moved_def)
  show ?thesis
    unfolding moved_def using mtd_ok_trans [OF assms(1) m(1)] filled_trans [OF assms(2) m(4)] m(2,3,5)
    by (intro conjI exI [of _ "n + n'"] exI [of _ "k + k'"]) auto
qed

lemma read_data_pages_ok:
  assumes "page_loop nm ops len ooblen col ooboffs maxooblen"
  shows "ok (read_data_pages nm addr ops mode useDat useOob len ooblen col ooboffs maxooblen acc)
    (\<lambda>(ret, ops', nm'). moved nm ops len ooblen (hard_error ret) ops' nm')"
  using assms
proof (induction "len + ooblen" arbitrary: nm addr ops len ooblen col ooboffs acc rule: less_induct)
  case less
  have c: "cached nm" using less.prems by (simp add: page_loop_def)
  show ?case
  proof (cases "len \<noteq> 0 \<or> ooblen \<noteq> 0")
    case False
    then show ?thesis using c by (subst read_data_pages.simps) (simp add: moved_none)
  next
    case True
    show ?thesis
      unfolding read_data_pages.simps [of nm] if_P [OF True]
    proof (rule cache_page_ok [OF c])
      fix ret nm2 assume n2: "mtd_ok nm nm2"
      show "ok (if hard_error ret then Some (ret, ops, nm2)
        else Option.bind (move_dat nm2 ops len col) (\<lambda>(ops, len, col).
          Option.bind (move_oob nm2 ops ooblen ooboffs maxooblen) (\<lambda>(ops, ooblen, ooboffs).
            read_data_pages nm2 (addr + ucast (lm_writesize (nm_lower nm2))) ops mode useDat useOob
              len ooblen col ooboffs maxooblen (note_ret ret acc))))
        (\<lambda>(ret, ops', nm'). moved nm ops len ooblen (hard_error ret) ops' nm')"
      proof (cases "hard_error ret")
        case False
        show ?thesis
          unfolding if_not_P [OF False]
        proof (rule moves_ok [OF less.prems n2])
          fix ops' len' col' ooblen' ooboffs' n k
          assume l: "len = n + len'" and ol: "ooblen = k + ooblen'"
            and pos: "len \<noteq> 0 \<or> ooblen \<noteq> 0 \<longrightarrow> 0 < n + k" and fl: "filled ops n k ops'"
            and pl: "page_loop nm2 ops' len' ooblen' col' ooboffs' maxooblen"
          have dec: "len' + ooblen' < len + ooblen" using pos True l ol by auto
          show "ok (read_data_pages nm2 (addr + ucast (lm_writesize (nm_lower nm2))) ops' mode useDat useOob
              len' ooblen' col' ooboffs' maxooblen (note_ret ret acc))
            (\<lambda>(ret, ops', nm'). moved nm ops len ooblen (hard_error ret) ops' nm')"
            by (rule ok_mono3 [OF less.hyps [OF dec pl]]) (simp add: l ol moved_step [OF n2 fl])
        qed
      qed (simp add: n2 moved_none)
    qed
  qed
qed


section \<open>Writing and panic writing\<close>

lemma ok_blit_len: "ok (blit xs off src) Q \<longleftrightarrow> off + length src \<le> length xs \<and> Q (take off xs @ src @ drop (off + length src) xs)"
  by (simp add: blit_def)

lemma fill_eqs:
  "fill_dat nm ops len col =
     map_option (\<lambda>(ops, len, col, pc). (ops, len, col, nm\<lparr>nm_page_cache := pc\<rparr>))
       (from_user_dat (nm_page_cache nm) (unat (lm_writesize (nm_lower nm))) ops len col)"
  "fill_oob nm ops ooblen ooboffs maxooblen =
     map_option (\<lambda>(ops, ooblen, ooboffs, wrlen, pc). (ops, ooblen, ooboffs, nm\<lparr>nm_page_cache := pc\<rparr>))
       (from_user_oob (nm_page_cache nm) (unat (lm_writesize (nm_lower nm))) (unat (lm_oobsize (nm_lower nm)))
          maxooblen ops ooblen ooboffs)"
  by (simp_all add: fill_dat_def from_user_dat_def fill_oob_def from_user_oob_def Let_def split: Option.bind_splits)

lemma fill_dat_ok:
  assumes "cached nm" and "col < unat (lm_writesize (nm_lower nm))" and "room (ops_datbuf ops) (ops_retlen ops) len"
  shows "ok (fill_dat nm ops len col) (\<lambda>(ops', len', col', nm').
    mtd_ok nm nm' \<and> nm_ni nm' = nm_ni nm \<and> col' < unat (lm_writesize (nm_lower nm)) \<and>
    (\<exists>n. len = n + len' \<and> (len \<noteq> 0 \<longrightarrow> 0 < n) \<and> filled ops n 0 ops'))"
proof -
  have pc: "unat (lm_writesize (nm_lower nm)) \<le> length (nm_page_cache nm)" using assms(1) by (simp add: cached_def)
  show ?thesis
    using from_user_dat_ok [OF pc assms(2,3)] mtd_ok_cache [OF assms(1)]
    by (auto simp: fill_eqs ok_map_option case_prod_unfold elim!: ok_mono)
qed

lemma fill_oob_ok:
  assumes "cached nm" and "ooblen \<noteq> 0 \<Longrightarrow> ooboffs < maxooblen" and "maxooblen \<le> unat (lm_oobsize (nm_lower nm))"
    and "room (ops_oobbuf ops) (ops_oobretlen ops) ooblen"
  shows "ok (fill_oob nm ops ooblen ooboffs maxooblen) (\<lambda>(ops', ooblen', ooboffs', nm').
    mtd_ok nm nm' \<and> nm_ni nm' = nm_ni nm \<and> (ooblen' \<noteq> 0 \<longrightarrow> ooboffs' < maxooblen) \<and>
    (\<exists>n. ooblen = n + ooblen' \<and> (ooblen \<noteq> 0 \<longrightarrow> 0 < n) \<and> filled ops 0 n ops'))"
proof -
  let ?ws = "unat (lm_writesize (nm_lower nm))" and ?os = "unat (lm_oobsize (nm_lower nm))"
  have pc: "?ws + ?os \<le> length (nm_page_cache nm)" using assms(1) by (simp add: cached_def)
  have "ok (from_user_oob (nm_page_cache nm) ?ws ?os maxooblen ops ooblen ooboffs) (\<lambda>(ops', ooblen', ooboffs', wrlen, pc').
      length pc' = length (nm_page_cache nm) \<and> wrlen \<le> ?os \<and> (ooblen' \<noteq> 0 \<longrightarrow> ooboffs' < maxooblen) \<and>
      (\<exists>n. ooblen = n + ooblen' \<and> (ooblen \<noteq> 0 \<longrightarrow> 0 < n) \<and> filled ops 0 n ops'))"
    by (rule from_user_oob_ok [OF pc]) (use assms in auto)
  then show ?thesis
    using mtd_ok_cache [OF assms(1)]
    by (auto simp: fill_eqs ok_map_option case_prod_unfold elim!: ok_mono)
qed

lemma fills_ok:
  assumes "page_loop nm ops len ooblen col ooboffs maxooblen"
    and step: "\<And>ops' len' col' ooblen' ooboffs' n k nm'. len = n + len' \<Longrightarrow> ooblen = k + ooblen' \<Longrightarrow>
      (len \<noteq> 0 \<or> ooblen \<noteq> 0 \<longrightarrow> 0 < n + k) \<Longrightarrow> filled ops n k ops' \<Longrightarrow> mtd_ok nm nm' \<Longrightarrow>
      page_loop nm' ops' len' ooblen' col' ooboffs' maxooblen \<Longrightarrow> ok (f ops' len' col' ooblen' ooboffs' nm') Q"
  shows "ok (Option.bind (fill_dat nm ops len col) (\<lambda>(ops, len, col, nm).
           Option.bind (fill_oob nm ops ooblen ooboffs maxooblen) (\<lambda>(ops, ooblen, ooboffs, nm).
             f ops len col ooblen ooboffs nm))) Q"
proof (rule ok_bind4 [OF fill_dat_ok])
  note a = assms(1) [unfolded page_loop_def]
  show "cached nm" "col < unat (lm_writesize (nm_lower nm))" "room (ops_datbuf ops) (ops_retlen ops) len"
    using a by simp_all
  fix ops1 len1 col1 nm1
  assume 1: "mtd_ok nm nm1 \<and> nm_ni nm1 = nm_ni nm \<and> col1 < unat (lm_writesize (nm_lower nm)) \<and>
    (\<exists>n. len = n + len1 \<and> (len \<noteq> 0 \<longrightarrow> 0 < n) \<and> filled ops n 0 ops1)"
  then obtain n where n: "len = n + len1" "len \<noteq> 0 \<longrightarrow> 0 < n" "filled ops n 0 ops1" by blast
  have m1: "mtd_ok nm nm1" using 1 by simp
  note lw = mtd_ok_lower [OF m1]
  have r1: "room (ops_oobbuf ops1) (ops_oobretlen ops1) ooblen"
    and rd1: "room (ops_datbuf ops1) (ops_retlen ops1) len1"
    using room_filled [OF n(3)] a n(1) by simp_all
  show "ok (Option.bind (fill_oob nm1 ops1 ooblen ooboffs maxooblen) (\<lambda>(ops, ooblen, ooboffs, nm).
      f ops len1 col1 ooblen ooboffs nm)) Q"
  proof (rule ok_bind4 [OF fill_oob_ok [OF mtd_ok_cached [OF m1] _ _ r1]])
    show "ooboffs < maxooblen" if "ooblen \<noteq> 0" using a that by simp
    show "maxooblen \<le> unat (lm_oobsize (nm_lower nm1))" using a by (simp add: lw)
    fix ops2 ooblen2 ooboffs2 nm2
    assume 2: "mtd_ok nm1 nm2 \<and> nm_ni nm2 = nm_ni nm1 \<and> (ooblen2 \<noteq> 0 \<longrightarrow> ooboffs2 < maxooblen) \<and>
      (\<exists>k. ooblen = k + ooblen2 \<and> (ooblen \<noteq> 0 \<longrightarrow> 0 < k) \<and> filled ops1 0 k ops2)"
    then obtain k where k: "ooblen = k + ooblen2" "ooblen \<noteq> 0 \<longrightarrow> 0 < k" "filled ops1 0 k ops2" by blast
    have fl: "filled ops n k ops2" using filled_trans [OF n(3) k(3)] by simp
    have m2: "mtd_ok nm nm2" using 2 by (blast intro: mtd_ok_trans [OF m1])
    show "ok (f ops2 len1 col1 ooblen2 ooboffs2 nm2) Q"
    proof (rule step [OF n(1) k(1) _ fl m2])
      show "len \<noteq> 0 \<or> ooblen \<noteq> 0 \<longrightarrow> 0 < n + k" using n(2) k(2) by auto
      show "page_loop nm2 ops2 len1 ooblen2 col1 ooboffs2 maxooblen"
        using 1 2 a room_filled [OF k(3)] r1 rd1 k(1) mtd_ok_cached [OF m2]
        by (simp add: page_loop_def mtd_ok_lower [OF m2])
    qed
  qed
qed

lemma write_page_ok:
  assumes "cached nm" and "\<And>ret ni. mtd_ok nm (nm\<lparr>nm_ni := ni\<rparr>) \<Longrightarrow> ok (f ret ni) Q"
  shows "ok (Option.bind (dat_cache nm useDat) (\<lambda>dc. Option.bind (oob_cache nm useOob) (\<lambda>oc.
    Option.bind (nmbm_write_single_page crc (nm_ni nm) addr dc oc mode) (\<lambda>(ret, ni). f ret ni)))) Q"
proof (rule ok_bindI [OF dat_cache_ok [OF assms(1)]], rule ok_bindI [OF oob_cache_ok [OF assms(1)]],
    rule ok_bind2 [OF nmbm_write_single_page_ok])
  show "attached (nm_ni nm)" using assms(1) by (simp add: cached_def)
qed (rule assms(2), rule mtd_ok_ni [OF assms(1)], simp)

lemma write_data_pages_ok:
  assumes "page_loop nm ops len ooblen col ooboffs maxooblen"
  shows "ok (write_data_pages crc nm addr ops mode useDat useOob len ooblen col ooboffs maxooblen)
    (\<lambda>(ret, ops', nm'). moved nm ops len ooblen (ret \<noteq> 0) ops' nm')"
  using assms
proof (induction "len + ooblen" arbitrary: nm addr ops len ooblen col ooboffs rule: less_induct)
  case less
  have c: "cached nm" using less.prems by (simp add: page_loop_def)
  show ?case
  proof (cases "len \<noteq> 0 \<or> ooblen \<noteq> 0")
    case False
    then show ?thesis using c by (subst write_data_pages.simps) (simp add: moved_none)
  next
    case True
    show ?thesis
      unfolding write_data_pages.simps [of crc nm] if_P [OF True]
    proof (rule fills_ok [OF less.prems])
      fix ops' len' col' ooblen' ooboffs' n k nm1
      assume l: "len = n + len'" and ol: "ooblen = k + ooblen'"
        and pos: "len \<noteq> 0 \<or> ooblen \<noteq> 0 \<longrightarrow> 0 < n + k" and fl: "filled ops n k ops'" and m1: "mtd_ok nm nm1"
        and pl: "page_loop nm1 ops' len' ooblen' col' ooboffs' maxooblen"
      show "ok (Option.bind (dat_cache nm1 useDat) (\<lambda>dc. Option.bind (oob_cache nm1 useOob) (\<lambda>oc.
          Option.bind (nmbm_write_single_page crc (nm_ni nm1) addr dc oc mode) (\<lambda>(ret, ni).
            if ret \<noteq> 0 then Some (ret, ops', nm1\<lparr>nm_ni := ni\<rparr>)
            else write_data_pages crc (nm1\<lparr>nm_ni := ni\<rparr>) (addr + ucast (lm_writesize (nm_lower nm1))) ops'
                   mode useDat useOob len' ooblen' col' ooboffs' maxooblen))))
        (\<lambda>(ret, ops', nm'). moved nm ops len ooblen (ret \<noteq> 0) ops' nm')"
      proof (rule write_page_ok [OF mtd_ok_cached [OF m1]])
        fix ret ni assume "mtd_ok nm1 (nm1\<lparr>nm_ni := ni\<rparr>)"
        then have m2: "mtd_ok nm (nm1\<lparr>nm_ni := ni\<rparr>)" by (rule mtd_ok_trans [OF m1])
        have dec: "len' + ooblen' < len + ooblen" using pos True l ol by auto
        have pl2: "page_loop (nm1\<lparr>nm_ni := ni\<rparr>) ops' len' ooblen' col' ooboffs' maxooblen"
          using pl mtd_ok_cached [OF m2] by (simp add: page_loop_def)
        have "moved nm ops len ooblen True ops' (nm1\<lparr>nm_ni := ni\<rparr>)"
          unfolding l ol by (rule moved_step [OF m2 fl moved_none]) (use mtd_ok_cached [OF m2] in simp_all)
        then show "ok (if ret \<noteq> 0 then Some (ret, ops', nm1\<lparr>nm_ni := ni\<rparr>)
            else write_data_pages crc (nm1\<lparr>nm_ni := ni\<rparr>) (addr + ucast (lm_writesize (nm_lower nm1))) ops'
                   mode useDat useOob len' ooblen' col' ooboffs' maxooblen)
          (\<lambda>(ret, ops', nm'). moved nm ops len ooblen (ret \<noteq> 0) ops' nm')"
          using ok_mono3 [OF less.hyps [OF dec pl2]] moved_step [OF m2 fl] by (simp add: l ol)
      qed
    qed
  qed
qed

lemma panic_pages_ok:
  assumes "cached nm" and "col < unat (lm_writesize (nm_lower nm))" and "wrlen + len \<le> length buf"
  shows "ok (panic_pages crc nm to len col buf wrlen) (\<lambda>(n, nm'). mtd_ok nm nm' \<and> wrlen \<le> n \<and> n \<le> wrlen + len)"
  using assms
proof (induction len arbitrary: nm to col wrlen rule: less_induct)
  case (less len)
  let ?ws = "unat (lm_writesize (nm_lower nm))"
  show ?case
  proof (cases "len = 0")
    case True
    then show ?thesis using less.prems(1) by (subst panic_pages.simps) simp
  next
    case False
    define k where "k = min (?ws - col) len"
    have k: "0 < k" "k \<le> len" "col + k \<le> ?ws" using less.prems(2) False by (auto simp: k_def)
    have pc: "?ws \<le> length (nm_page_cache nm)" using less.prems(1) by (simp add: cached_def)
    obtain p0 where p0: "(if k < ?ws then blit (nm_page_cache nm) 0 (replicate ?ws 0xff) else Some (nm_page_cache nm)) = Some p0"
        "length p0 = length (nm_page_cache nm)"
      using blit_exists [of 0 "replicate ?ws 0xff" "nm_page_cache nm"] pc by (cases "k < ?ws") auto
    obtain src where src: "slice buf wrlen k = Some src" "length src = k"
      using slice_exists [of wrlen k buf] less.prems(3) k(2) by auto
    obtain p1 where p1: "blit p0 col src = Some p1" "length p1 = length (nm_page_cache nm)"
      using blit_exists [of col src p0] p0(2) src(2) k(3) pc by auto
    obtain page where page: "slice p1 0 ?ws = Some page" using slice_exists [of 0 ?ws p1] p1(2) pc by auto
    have at: "attached (nm_ni nm)" using less.prems(1) by (simp add: cached_def)
    have "ok (Option.bind (nmbm_panic_write_single_page crc (nm_ni nm) to page) (\<lambda>(ret, ni).
        let nm = nm\<lparr>nm_page_cache := p1, nm_ni := ni\<rparr> in
        if ret \<noteq> 0 then Some (wrlen + k, nm)
        else panic_pages crc nm (to + ucast (lm_writesize (nm_lower nm))) (len - k) 0 buf (wrlen + k)))
      (\<lambda>(n, nm'). mtd_ok nm nm' \<and> wrlen \<le> n \<and> n \<le> wrlen + len)"
    proof (rule ok_bind2 [OF nmbm_panic_write_single_page_ok [OF at]])
      fix ret ni assume g: "good_step (nm_ni nm) ni \<and> ret \<le> 0"
      let ?nm = "nm\<lparr>nm_page_cache := p1, nm_ni := ni\<rparr>"
      have m: "mtd_ok nm ?nm"
        using mtd_ok_trans [OF mtd_ok_cache [OF less.prems(1) p1(2)] mtd_ok_ni [OF _ ]] g
          mtd_ok_cached [OF mtd_ok_cache [OF less.prems(1) p1(2)]] by simp
      have "ok (panic_pages crc ?nm (to + ucast (lm_writesize (nm_lower nm))) (len - k) 0 buf (wrlen + k))
          (\<lambda>(n, nm'). mtd_ok ?nm nm' \<and> wrlen + k \<le> n \<and> n \<le> wrlen + k + (len - k))"
        by (rule less.IH) (use k less.prems mtd_ok_cached [OF m] in simp_all)
      then have "ok (panic_pages crc ?nm (to + ucast (lm_writesize (nm_lower nm))) (len - k) 0 buf (wrlen + k))
          (\<lambda>(n, nm'). mtd_ok nm nm' \<and> wrlen \<le> n \<and> n \<le> wrlen + len)"
        by (rule ok_mono2) (use k mtd_ok_trans [OF m] in simp)
      then show "ok (let nm = ?nm in if ret \<noteq> 0 then Some (wrlen + k, nm)
          else panic_pages crc nm (to + ucast (lm_writesize (nm_lower nm))) (len - k) 0 buf (wrlen + k))
        (\<lambda>(n, nm'). mtd_ok nm nm' \<and> wrlen \<le> n \<and> n \<le> wrlen + len)"
        using m k by (simp add: Let_def)
    qed
    then show ?thesis
      using False
      by (subst panic_pages.simps, unfold Let_def, unfold k_def [symmetric]) (simp add: p0 src p1 page)
  qed
qed

section \<open>The operations\<close>

definition mtd_good :: "oobav_fun \<Rightarrow> 'c nmbm_mtd \<Rightarrow> bool" where
  "mtd_good oobav nm \<longleftrightarrow> cached nm \<and> fl_state nm = FL_READY \<and>
     (\<forall>m. oobav (lm_oobsize (nm_lower nm)) (lm_oobavail (nm_lower nm)) m \<le> lm_oobsize (nm_lower nm))"

lemma mtd_good_step: "mtd_good oobav a \<Longrightarrow> mtd_ok a b \<Longrightarrow> mtd_good oobav b"
  by (simp add: mtd_good_def mtd_ok_def mtd_step_def)

text \<open>An operation holds the device while it works and gives it back as it found it.\<close>

lemma get_device_ready: "fl_state nm = FL_READY \<Longrightarrow> nmbm_get_device nm s = Some (nm\<lparr>fl_state := s\<rparr>)"
  by (simp add: nmbm_get_device_def get_pass_def)

lemma cached_busy [simp]: "cached (nm\<lparr>fl_state := s\<rparr>) = cached nm"
  by (simp add: cached_def)

lemma release_ok:
  assumes "mtd_good oobav nm" and "mtd_ok (nm\<lparr>fl_state := s\<rparr>) nm'"
  shows "mtd_ok nm (nmbm_release_device nm')"
  using assms by (simp add: mtd_ok_def mtd_step_def nmbm_release_device_def mtd_good_def)

lemma release_ni:
  assumes "mtd_good oobav nm" and "good_step (nm_ni nm) ni"
  shows "mtd_ok nm (nmbm_release_device (nm\<lparr>fl_state := s, nm_ni := ni\<rparr>))"
  by (rule release_ok [OF assms(1) mtd_ok_ni]) (use assms in \<open>simp_all add: mtd_good_def\<close>)

lemma page_col_bound:
  assumes "cached nm"
  shows "page_col nm addr < unat (lm_writesize (nm_lower nm))"
proof -
  have "addr AND ucast (lm_writesize_mask (nm_lower nm)) \<le> ucast (lm_writesize_mask (nm_lower nm))"
    by (simp add: word_and_le1)
  then have "unat (addr AND ucast (lm_writesize_mask (nm_lower nm))) \<le> unat (lm_writesize_mask (nm_lower nm))"
    by (simp add: word_le_nat_alt)
  then have "page_col nm addr \<le> unat (lm_writesize_mask (nm_lower nm))"
    unfolding page_col_def unat_ucast_u64_u32 by (metis le_trans mod_less_eq_dividend)
  then show ?thesis using assms by (simp add: cached_def)
qed

lemma page_loop_start:
  assumes "mtd_good oobav nm" and "ops_room ops" and "\<not> ops_ooboffs ops \<ge> max_ooblen oobav nm ops"
  shows "page_loop (nm\<lparr>fl_state := s\<rparr>) (ops\<lparr>ops_oobretlen := 0, ops_retlen := 0\<rparr>) (ops_len ops) (ops_ooblen ops)
    (page_col (nm\<lparr>fl_state := s\<rparr>) addr) (unat (ops_ooboffs ops)) (unat (max_ooblen oobav (nm\<lparr>fl_state := s\<rparr>) ops))"
  using assms page_col_bound [of "nm\<lparr>fl_state := s\<rparr>" addr]
  by (simp add: page_loop_def mtd_good_def ops_room_def max_ooblen_def word_le_nat_alt)

text \<open>What a data operation leaves in the request, counting frm zero.\<close>

lemma nmbm_mtd_erase_ok:
  assumes "mtd_good oobav nm" and "unat addr + unat len < 2 ^ 64"
  shows "ok (nmbm_mtd_erase crc nm addr len) (\<lambda>(ret, failed, nm'). mtd_ok nm nm' \<and> (ret = 0 \<or> ret = - EIO))"
proof -
  have c: "cached nm" and r: "fl_state nm = FL_READY" using assms(1) by (simp_all add: mtd_good_def)
  then have at: "attached (nm_ni nm)" by (simp add: cached_def)
  show ?thesis
    unfolding nmbm_mtd_erase_def get_device_ready [OF r] Option.bind.bind_lunit
  proof (rule ok_bind3)
    show "ok (nmbm_erase_block_range crc (nm_ni (nm\<lparr>fl_state := FL_ERASING\<rparr>)) addr len)
        (\<lambda>(ret, failed, ni). good_step (nm_ni nm) ni)"
      by (rule ok_mono3 [OF nmbm_erase_block_range_ok]) (use at assms(2) in simp_all)
    fix ret failed ni assume "good_step (nm_ni nm) ni"
    then have "mtd_ok nm (nmbm_release_device (nm\<lparr>fl_state := FL_ERASING, nm_ni := ni\<rparr>))"
      by (rule release_ni [OF assms(1)])
    then show "ok (let nm = nmbm_release_device (nm\<lparr>fl_state := FL_ERASING, nm_ni := ni\<rparr>)
        in Some (if ret = 0 then 0 else - EIO, failed, nm)) (\<lambda>(ret, failed, nm'). mtd_ok nm nm' \<and> (ret = 0 \<or> ret = - EIO))"
      by (simp add: Let_def)
  qed
qed

lemma nmbm_mtd_read_oob_ok:
  assumes "mtd_good oobav nm" and "ops_room ops" and "unat frm + ops_len ops < 2 ^ 64"
  shows "ok (nmbm_mtd_read_oob oobav nm frm ops) (\<lambda>(ret, ops', nm'). mtd_ok nm nm' \<and>
    same_shape (ops_datbuf ops') (ops_datbuf ops) \<and> same_shape (ops_oobbuf ops') (ops_oobbuf ops))"
    (is "ok _ ?Q")
proof -
  have c: "cached nm" and r: "fl_state nm = FL_READY" using assms(1) by (simp_all add: mtd_good_def)
  then have at: "attached (nm_ni nm)" by (simp add: cached_def)
  let ?nm = "nm\<lparr>fl_state := FL_READING\<rparr>"
  have small: ?thesis if "nmbm_mtd_read_oob oobav nm frm ops = Some (e, ops, nm)" for e
    using that c by simp
  show ?thesis
  proof (cases "ops_oobbuf ops = None \<and> ops_datbuf ops = None \<or> mode_of_ops (ops_mode ops) = None \<or>
      ops_datbuf ops \<noteq> None \<and> frm + of_nat (ops_len ops) > upper_size nm \<or>
      ops_oobbuf ops \<noteq> None \<and> (ops_ooboffs ops \<ge> max_ooblen oobav nm ops \<or> beyond_end nm frm ops (max_ooblen oobav nm ops))")
    case True
    then show ?thesis
      using small by (cases "mode_of_ops (ops_mode ops)") (auto simp: nmbm_mtd_read_oob_def Let_def split: if_splits)
  next
    case False
    then obtain mode where m: "mode_of_ops (ops_mode ops) = Some mode" by auto
    show ?thesis
    proof (cases "ops_oobbuf ops")
      case None
      with False obtain buf where b: "ops_datbuf ops = Some buf" by auto
      with assms(2) have lb: "ops_len ops \<le> length buf" by (auto simp: ops_room_def room_def)
      obtain dst where dst: "slice buf 0 (ops_len ops) = Some dst" "length dst = ops_len ops"
        using slice_exists [of 0 "ops_len ops" buf] lb by auto
      have "ok (Option.bind (nmbm_read_range (nm_ni ?nm) frm dst mode) (\<lambda>(ret, dst, retlen, ni). do {
          buf \<leftarrow> blit buf 0 dst;
          let ops = ops\<lparr>ops_datbuf := Some buf,
            ops_retlen := (case retlen of None \<Rightarrow> ops_retlen ops | Some n \<Rightarrow> n)\<rparr>;
          Some (ret, ops, nmbm_release_device (?nm\<lparr>nm_ni := ni\<rparr>)) })) ?Q"
      proof (rule ok_bind4)
        show "ok (nmbm_read_range (nm_ni ?nm) frm dst mode) (\<lambda>(ret, d, retlen, ni).
            io {} (nm_ni nm) ni \<and> length d = length dst)"
          using nmbm_read_range_ok [OF attached_readable [OF at], of frm dst mode] dst assms(3)
          by (auto elim!: ok_mono)
        fix ret retlen ni and d :: bytes assume d: "io {} (nm_ni nm) ni \<and> length d = length dst"
        then have "mtd_ok nm (nmbm_release_device (?nm\<lparr>nm_ni := ni\<rparr>))"
          using good_step_quiet [OF at] release_ni [OF assms(1)] by blast
        then show "ok (do {
          buf \<leftarrow> blit buf 0 d;
          let ops = ops\<lparr>ops_datbuf := Some buf,
            ops_retlen := (case retlen of None \<Rightarrow> ops_retlen ops | Some n \<Rightarrow> n)\<rparr>;
          Some (ret, ops, nmbm_release_device (?nm\<lparr>nm_ni := ni\<rparr>)) }) ?Q"
          using d dst lb b None by (simp add: ok_bind Let_def overlay_same_length)
      qed
      then show ?thesis
        using False None b m by (simp add: nmbm_mtd_read_oob_def Let_def get_device_ready [OF r] dst)
    next
      case (Some oob)
      have "\<not> ops_ooboffs ops \<ge> max_ooblen oobav nm ops" using False Some by simp
      note pl = page_loop_start [OF assms(1,2) this]
      have "ok (nmbm_mtd_read_data oobav ?nm frm ops mode) (\<lambda>(ret, ops', nm').
          mtd_ok ?nm nm' \<and> same_shape (ops_datbuf ops') (ops_datbuf ops) \<and> same_shape (ops_oobbuf ops') (ops_oobbuf ops))"
        unfolding nmbm_mtd_read_data_def
        by (rule ok_mono3 [OF read_data_pages_ok [OF pl]]) (auto simp: moved_def dest: filled_fields)
      then have "ok (Option.bind (nmbm_mtd_read_data oobav ?nm frm ops mode)
          (\<lambda>(ret, ops, nm). Some (ret, ops, nmbm_release_device nm))) ?Q"
        by (rule ok_bind3) (auto intro: release_ok [OF assms(1)])
      then show ?thesis
        using False Some m c by (auto simp: nmbm_mtd_read_oob_def Let_def get_device_ready [OF r])
    qed
  qed
qed


lemma nmbm_mtd_write_oob_ok:
  assumes "mtd_good oobav nm" and "ops_room ops" and "unat addr + ops_len ops < 2 ^ 64"
  shows "ok (nmbm_mtd_write_oob crc oobav nm addr ops) (\<lambda>(ret, ops', nm'). mtd_ok nm nm' \<and>
    same_shape (ops_datbuf ops') (ops_datbuf ops) \<and> same_shape (ops_oobbuf ops') (ops_oobbuf ops))"
    (is "ok _ ?Q")
proof -
  have c: "cached nm" and r: "fl_state nm = FL_READY" using assms(1) by (simp_all add: mtd_good_def)
  then have at: "attached (nm_ni nm)" by (simp add: cached_def)
  let ?nm = "nm\<lparr>fl_state := FL_WRITING\<rparr>"
  have small: ?thesis if "nmbm_mtd_write_oob crc oobav nm addr ops = Some (e, ops, nm)" for e
    using that c by simp
  show ?thesis
  proof (cases "ops_oobbuf ops = None \<and> ops_datbuf ops = None \<or> mode_of_ops (ops_mode ops) = None \<or>
      ops_datbuf ops \<noteq> None \<and> addr + of_nat (ops_len ops) > upper_size nm \<or>
      ops_oobbuf ops \<noteq> None \<and> (ops_ooboffs ops \<ge> max_ooblen oobav nm ops \<or> beyond_end nm addr ops (max_ooblen oobav nm ops))")
    case True
    then show ?thesis
      using small by (cases "mode_of_ops (ops_mode ops)") (auto simp: nmbm_mtd_write_oob_def Let_def split: if_splits)
  next
    case False
    then obtain mode where m: "mode_of_ops (ops_mode ops) = Some mode" by auto
    show ?thesis
    proof (cases "ops_oobbuf ops")
      case None
      with False obtain buf where b: "ops_datbuf ops = Some buf" by auto
      with assms(2) have lb: "ops_len ops \<le> length buf" by (auto simp: ops_room_def room_def)
      obtain src where src: "slice buf 0 (ops_len ops) = Some src" "length src = ops_len ops"
        using slice_exists [of 0 "ops_len ops" buf] lb by auto
      have "ok (Option.bind (nmbm_write_range crc (nm_ni ?nm) addr src mode) (\<lambda>(ret, retlen, ni).
          let ops = ops\<lparr>ops_retlen := (case retlen of None \<Rightarrow> ops_retlen ops | Some n \<Rightarrow> n)\<rparr>
          in Some (ret, ops, nmbm_release_device (?nm\<lparr>nm_ni := ni\<rparr>)))) ?Q"
      proof (rule ok_bind3)
        show "ok (nmbm_write_range crc (nm_ni ?nm) addr src mode) (\<lambda>(ret, retlen, ni). good_step (nm_ni nm) ni)"
          by (rule ok_mono3 [OF nmbm_write_range_ok]) (use at src assms(3) in simp_all)
      qed (simp add: Let_def release_ni [OF assms(1)])
      then show ?thesis
        using False None b m by (simp add: nmbm_mtd_write_oob_def Let_def get_device_ready [OF r] src)
    next
      case (Some oob)
      have "\<not> ops_ooboffs ops \<ge> max_ooblen oobav nm ops" using False Some by simp
      note pl = page_loop_start [OF assms(1,2) this]
      have "ok (nmbm_mtd_write_data crc oobav ?nm addr ops mode) (\<lambda>(ret, ops', nm').
          mtd_ok ?nm nm' \<and> same_shape (ops_datbuf ops') (ops_datbuf ops) \<and> same_shape (ops_oobbuf ops') (ops_oobbuf ops))"
        unfolding nmbm_mtd_write_data_def
        by (rule ok_mono3 [OF write_data_pages_ok [OF pl]]) (auto simp: moved_def dest: filled_fields)
      then have "ok (Option.bind (nmbm_mtd_write_data crc oobav ?nm addr ops mode)
          (\<lambda>(ret, ops, nm). Some (ret, ops, nmbm_release_device nm))) ?Q"
        by (rule ok_bind3) (auto intro: release_ok [OF assms(1)])
      then show ?thesis
        using False Some m c by (auto simp: nmbm_mtd_write_oob_def Let_def get_device_ready [OF r])
    qed
  qed
qed

lemma nmbm_mtd_panic_write_ok:
  assumes "cached nm" and "len \<le> length buf"
  shows "ok (nmbm_mtd_panic_write crc nm addr len buf) (\<lambda>(ret, wrlen, nm'). mtd_ok nm nm' \<and> ret = 0 \<and> wrlen \<le> len)"
proof -
  have "ok (panic_pages crc nm (page_start_addr nm addr) len (page_col nm addr) buf 0)
      (\<lambda>(n, nm'). mtd_ok nm nm' \<and> 0 \<le> n \<and> n \<le> 0 + len)"
    by (rule panic_pages_ok [OF assms(1) page_col_bound [OF assms(1)]]) (use assms(2) in simp)
  then show ?thesis
    unfolding nmbm_mtd_panic_write_def by (rule ok_bind2) simp
qed

lemma nmbm_mtd_block_isbad_ok:
  assumes "mtd_good oobav nm"
  shows "ok (nmbm_mtd_block_isbad nm addr) (\<lambda>(ret, nm'). mtd_ok nm nm' \<and> (ret = - EINVAL \<or> ret = 0 \<or> ret = 1))"
proof -
  have c: "cached nm" and r: "fl_state nm = FL_READY" using assms by (simp_all add: mtd_good_def)
  then have at: "attached (nm_ni nm)" by (simp add: cached_def)
  have "mtd_ok nm (nmbm_release_device (nm\<lparr>fl_state := FL_READING\<rparr>))"
    by (rule release_ok [OF assms, of FL_READING]) (simp add: c)
  then show ?thesis
    using nmbm_check_bad_block_ok [OF attached_readable [OF at], of addr]
    by (auto simp: nmbm_mtd_block_isbad_def get_device_ready [OF r] ok_bind elim!: ok_mono)
qed

lemma nmbm_mtd_block_markbad_ok:
  assumes "mtd_good oobav nm"
  shows "ok (nmbm_mtd_block_markbad crc nm addr) (\<lambda>(ret, nm'). mtd_ok nm nm' \<and> ret \<le> 0)"
proof -
  have c: "cached nm" and r: "fl_state nm = FL_READY" using assms by (simp_all add: mtd_good_def)
  then have at: "attached (nm_ni nm)" by (simp add: cached_def)
  show ?thesis
    unfolding nmbm_mtd_block_markbad_def get_device_ready [OF r] Option.bind.bind_lunit
  proof (rule ok_bind2)
    show "ok (nmbm_mark_bad_block crc (nm_ni (nm\<lparr>fl_state := FL_WRITING\<rparr>)) addr) (\<lambda>(ret, ni). good_step (nm_ni nm) ni \<and> ret \<le> 0)"
      by (rule ok_mono2 [OF nmbm_mark_bad_block_ok]) (use at in simp_all)
  qed (simp add: release_ni [OF assms])
qed

section \<open>The requests of the MTD layer\<close>

datatype mtd_request =
    MtdErase u64 u64
  | MtdReadOob u64 mtd_oob_ops
  | MtdWriteOob u64 mtd_oob_ops
  | MtdPanicWrite u64 nat bytes
  | MtdIsBad u64
  | MtdMarkBad u64

fun mtd_serve :: "crc_fun \<Rightarrow> oobav_fun \<Rightarrow> mtd_request \<Rightarrow> 'c nmbm_mtd \<Rightarrow> 'c nmbm_mtd option" where
  "mtd_serve crc oobav (MtdErase addr len) nm = map_option (\<lambda>(_, _, nm'). nm') (nmbm_mtd_erase crc nm addr len)"
| "mtd_serve crc oobav (MtdReadOob addr ops) nm = map_option (\<lambda>(_, _, nm'). nm') (nmbm_mtd_read_oob oobav nm addr ops)"
| "mtd_serve crc oobav (MtdWriteOob addr ops) nm = map_option (\<lambda>(_, _, nm'). nm') (nmbm_mtd_write_oob crc oobav nm addr ops)"
| "mtd_serve crc oobav (MtdPanicWrite addr len buf) nm = map_option (\<lambda>(_, _, nm'). nm') (nmbm_mtd_panic_write crc nm addr len buf)"
| "mtd_serve crc oobav (MtdIsBad addr) nm = map_option (\<lambda>(_, nm'). nm') (nmbm_mtd_block_isbad nm addr)"
| "mtd_serve crc oobav (MtdMarkBad addr) nm = map_option (\<lambda>(_, nm'). nm') (nmbm_mtd_block_markbad crc nm addr)"

text \<open>The buffers are as long as the request says, and its end does not wrap around.\<close>

fun mtd_legal :: "mtd_request \<Rightarrow> bool" where
  "mtd_legal (MtdErase addr len) \<longleftrightarrow> unat addr + unat len < 2 ^ 64"
| "mtd_legal (MtdReadOob addr ops) \<longleftrightarrow> ops_room ops \<and> unat addr + ops_len ops < 2 ^ 64"
| "mtd_legal (MtdWriteOob addr ops) \<longleftrightarrow> ops_room ops \<and> unat addr + ops_len ops < 2 ^ 64"
| "mtd_legal (MtdPanicWrite addr len buf) \<longleftrightarrow> len \<le> length buf"
| "mtd_legal _ \<longleftrightarrow> True"

lemma mtd_serve_ok:
  assumes "mtd_good oobav nm" and "mtd_legal r"
  shows "ok (mtd_serve crc oobav r nm) (mtd_ok nm)"
proof (cases r)
  case (MtdErase addr len)
  then show ?thesis using nmbm_mtd_erase_ok [OF assms(1), of addr len crc] assms(2)
    by (auto simp: ok_map_option case_prod_unfold elim!: ok_mono)
next
  case (MtdReadOob addr ops)
  then show ?thesis using nmbm_mtd_read_oob_ok [OF assms(1), of ops addr] assms(2)
    by (auto simp: ok_map_option case_prod_unfold elim!: ok_mono)
next
  case (MtdWriteOob addr ops)
  then show ?thesis using nmbm_mtd_write_oob_ok [OF assms(1), of ops addr crc] assms(2)
    by (auto simp: ok_map_option case_prod_unfold elim!: ok_mono)
next
  case (MtdPanicWrite addr len buf)
  have "cached nm" using assms(1) by (simp add: mtd_good_def)
  then show ?thesis using nmbm_mtd_panic_write_ok [of nm len buf crc addr] assms(2) MtdPanicWrite
    by (auto simp: ok_map_option case_prod_unfold elim!: ok_mono)
next
  case (MtdIsBad addr)
  then show ?thesis using nmbm_mtd_block_isbad_ok [OF assms(1), of addr]
    by (auto simp: ok_map_option case_prod_unfold elim!: ok_mono)
next
  case (MtdMarkBad addr)
  then show ?thesis using nmbm_mtd_block_markbad_ok [OF assms(1), of crc addr]
    by (auto simp: ok_map_option case_prod_unfold elim!: ok_mono)
qed

interpretation upper: service "mtd_serve crc oobav" mtd_legal "mtd_good oobav" mtd_step
proof unfold_locales
  fix s :: "'a nmbm_mtd" and r
  assume g: "mtd_good oobav s" and "mtd_legal r"
  then have "ok (mtd_serve crc oobav r s) (mtd_ok s)" by (rule mtd_serve_ok)
  then show "ok (mtd_serve crc oobav r s) (\<lambda>s'. mtd_good oobav s' \<and> mtd_step s s')"
    by (rule ok_mono) (use mtd_good_step [OF g] in \<open>auto simp: mtd_ok_def\<close>)
qed (auto intro: mtd_step_trans)

lemmas mtd_requests_ok = upper.run_all_ok

section \<open>A device over the simulated instance\<close>

definition demo_lm :: "unit lower_mtd" where
  "demo_lm = \<lparr>lm_size = 4096, lm_erasesize = 128, lm_writesize = 64, lm_oobsize = 4, lm_oobavail = 4,
     lm_writesize_mask = 63, lm_writesize_shift = 6, lm_bitflip_threshold = 1, lm_ecc_strength = 1,
     lm_read_oob = \<lambda>addr ops c. (0, ops, c), lm_write_oob = \<lambda>addr ops c. (0, c),
     lm_panic_write = \<lambda>addr len buf c. (0, c), lm_erase = \<lambda>addr len c. (0, c),
     lm_block_isbad = \<lambda>addr c. (0, c), lm_block_markbad = \<lambda>addr c. (0, c), lm_ecc_stats = \<lambda>c. (0, 0)\<rparr>"

definition demo_oobav :: oobav_fun where
  "demo_oobav os av m = (if m = MTD_OPS_AUTO_OOB then av else os)"

definition demo_dt :: "unit nmbm_dt" where
  "demo_dt = \<lparr>dt_phandle = Some (Some demo_lm), dt_name = None, dt_max_ratio = Some 8,
     dt_max_reserved_blocks = None, dt_forced_create = False, dt_empty_page_ecc = False\<rparr>"

definition demo_upper_ni :: "unit nm_chip nmbm_instance" where
  "demo_upper_ni = \<lparr>lower = build_nld demo_oobav demo_dt demo_lm,
     chip = \<lparr>nm_dev = (), upper_corrected = 0, upper_failed = 0\<rparr>,
     rawpage_size = 68, rawblock_size = 136, rawchip_size = 4352,
     writesize_mask = 63, erasesize_mask = 127, writesize_shift = 6, erasesize_shift = 7,
     signature = signature (demo_ni 0),
     info_table_cache = replicate 256 0xff, info_table_size = 256, info_table_spare_blocks = 2,
     info_table = info_table (demo_ni 0),
     block_state = [0xffffffff, 0xffffffff], block_state_changed = 0, state_table_size = 8,
     block_mapping = map of_nat [0..<16] @ replicate 16 (- 1), block_mapping_changed = 0,
     mapping_table_size = 128, page_cache = replicate 68 0xff, protected = False,
     block_count = 32, data_block_count = 16, mgmt_start_ba = 16, main_table_ba = 16,
     backup_table_ba = 20, mapping_blocks_ba = 22, mapping_blocks_top_ba = 30,
     signature_ba = 31, log_display_level = NMBM_LOG_INFO\<rparr>"

definition demo_mtd :: "unit nmbm_mtd" where
  "demo_mtd = \<lparr>upper_size = 2048, nm_lower = demo_lm, nm_ni = demo_upper_ni,
     nm_page_cache = replicate 68 0, fl_state = FL_READY\<rparr>"

lemma attached_demo_upper: "attached demo_upper_ni"
proof -
  have "fits demo_upper_ni" by (simp add: fits_def demo_upper_ni_def demo_ni_def)
  moreover have "wf demo_upper_ni"
    by (simp add: wf_def demo_upper_ni_def build_nld_def demo_lm_def es_sh_def)
  ultimately have "lay demo_upper_ni" by (simp add: lay_def) (simp add: demo_upper_ni_def)
  moreover have "mapped demo_upper_ni"
    by (auto simp: mapped_def demo_upper_ni_def word_less_nat_alt unat_of_nat)
  ultimately show ?thesis by (simp add: attached_def) (simp add: demo_upper_ni_def)
qed

lemma mtd_good_demo: "mtd_good demo_oobav demo_mtd"
  using attached_demo_upper by (simp add: mtd_good_def cached_def demo_mtd_def demo_lm_def demo_oobav_def)

section \<open>What the MTD layer promises\<close>

text \<open>C4: Whatever requests the MTD layer is given, with buffers as long as they say and without wrap-around,
  in whatever order: every one returns with the device ready for the next, on the same lower
  device with the same size, and with every buffer access inside its buffer (an access outside would not return).\<close>

theorem mtd_requests_total:
  assumes "mtd_good oobav nm" and "list_all mtd_legal rs"
  shows "\<exists>nm'. run_all (mtd_serve crc oobav) rs nm = Some nm' \<and> mtd_good oobav nm' \<and>
    fl_state nm' = FL_READY \<and> nm_lower nm' = nm_lower nm \<and> upper_size nm' = upper_size nm"
proof -
  have "ok (run_all (mtd_serve crc oobav) rs nm) (\<lambda>nm'. mtd_good oobav nm' \<and> mtd_step nm nm')"
    by (rule mtd_requests_ok [OF assms(1)]) (use assms(2) in \<open>auto simp: list_all_iff\<close>)
  then show ?thesis by (auto elim!: okE simp: mtd_step_def mtd_good_def)
qed

theorem mtd_requests_total_witness:
  "\<exists>nm'. run_all (mtd_serve demo_crc demo_oobav)
      [MtdErase 0 256, MtdWriteOob 4 (zero_ops\<lparr>ops_len := 2, ops_datbuf := Some [1, 2]\<rparr>),
       MtdReadOob 4 (zero_ops\<lparr>ops_len := 70, ops_datbuf := Some (replicate 70 0), ops_ooblen := 3,
         ops_oobbuf := Some [0, 0, 0]\<rparr>), MtdPanicWrite 0 1 [7]] demo_mtd = Some nm' \<and>
    mtd_good demo_oobav nm' \<and> fl_state nm' = FL_READY \<and> nm_lower nm' = nm_lower demo_mtd \<and>
    upper_size nm' = upper_size demo_mtd"
  by (rule mtd_requests_total [OF mtd_good_demo]) (simp add: ops_room_def room_def zero_ops_def)

text \<open>C25: A read of data and spare area through the MTD layer returns whatever the chip does; unless it
  fails, it has delivered exactly the requested number of data and spare bytes, and it never
  delivers more.\<close>

theorem mtd_read_data_spec:
  assumes "mtd_good oobav nm" and "ops_room ops" and "ops_ooboffs ops < max_ooblen oobav nm ops"
  shows "ok (nmbm_mtd_read_data oobav nm addr ops mode) (\<lambda>(ret, ops', nm').
    ops_retlen ops' \<le> ops_len ops \<and> ops_oobretlen ops' \<le> ops_ooblen ops \<and>
    (\<not> hard_error ret \<longrightarrow> ops_retlen ops' = ops_len ops \<and> ops_oobretlen ops' = ops_ooblen ops))"
proof -
  have "fl_state nm = FL_READY" using assms(1) by (simp add: mtd_good_def)
  then have nm: "nm\<lparr>fl_state := FL_READY\<rparr> = nm" by simp
  have "\<not> ops_ooboffs ops \<ge> max_ooblen oobav nm ops" using assms(3) by simp
  from page_loop_start [OF assms(1,2) this, of FL_READY addr, unfolded nm] show ?thesis
    unfolding nmbm_mtd_read_data_def
    by (rule ok_mono3 [OF read_data_pages_ok]) (auto simp: moved_def dest: filled_fields)
qed

theorem mtd_read_data_spec_witness:
  "ok (nmbm_mtd_read_data demo_oobav demo_mtd 100
        (zero_ops\<lparr>ops_len := 70, ops_datbuf := Some (replicate 70 0), ops_ooblen := 7, ops_oobbuf := Some (replicate 9 0)\<rparr>)
        NMBM_MODE_PLACE_OOB) (\<lambda>(ret, ops', nm').
    ops_retlen ops' \<le> ops_len (zero_ops\<lparr>ops_len := 70, ops_datbuf := Some (replicate 70 0), ops_ooblen := 7, ops_oobbuf := Some (replicate 9 0)\<rparr>) \<and>
    ops_oobretlen ops' \<le> ops_ooblen (zero_ops\<lparr>ops_len := 70, ops_datbuf := Some (replicate 70 0), ops_ooblen := 7, ops_oobbuf := Some (replicate 9 0)\<rparr>) \<and>
    (\<not> hard_error ret \<longrightarrow>
      ops_retlen ops' = ops_len (zero_ops\<lparr>ops_len := 70, ops_datbuf := Some (replicate 70 0), ops_ooblen := 7, ops_oobbuf := Some (replicate 9 0)\<rparr>) \<and>
      ops_oobretlen ops' = ops_ooblen (zero_ops\<lparr>ops_len := 70, ops_datbuf := Some (replicate 70 0), ops_ooblen := 7, ops_oobbuf := Some (replicate 9 0)\<rparr>)))"
  by (rule mtd_read_data_spec [OF mtd_good_demo])
    (simp_all add: ops_room_def room_def zero_ops_def max_ooblen_def demo_oobav_def demo_mtd_def demo_lm_def MTD_OPS_AUTO_OOB_def)

text \<open>The page address of a spare-area read or write, and of a panic write, loses the upper half of the
  address: the 32-bit page mask is complemented before it is widened, so an access beyond 4 GiB
  goes to the page 4 GiB below.\<close>

theorem page_start_addr_truncates:
  "page_start_addr nm addr = page_start_addr nm (addr AND 0xffffffff) \<and> unat (page_start_addr nm addr) < 2 ^ 32"
proof -
  let ?m = "ucast (NOT (lm_writesize_mask (nm_lower nm))) :: u64"
  have ff: "(0xffffffff :: u64) = mask 32" by (simp add: mask_eq_exp_minus_1)
  have m: "?m AND 0xffffffff = ?m"
    unfolding ff by (rule bit_word_eqI) (auto simp: bit_simps dest: bit_imp_le_length)
  have "unat ?m < 2 ^ 32" using unat_u32_lt [of "NOT (lm_writesize_mask (nm_lower nm))"] by simp
  moreover have "addr AND ?m \<le> ?m" by (simp add: word_and_le1)
  ultimately show ?thesis
    using m by (auto simp: page_start_addr_def word_le_nat_alt ac_simps)
qed

text \<open>The page that the first chunk of a panic write leaves: 0xff around the bytes of the chunk.\<close>

definition first_panic_page :: "'c nmbm_mtd \<Rightarrow> u64 \<Rightarrow> nat \<Rightarrow> bytes \<Rightarrow> bytes" where
  "first_panic_page nm addr n buf =
     replicate (page_col nm addr) 0xff @ take n buf @
     replicate (unat (lm_writesize (nm_lower nm)) - page_col nm addr - n) 0xff"

lemma first_panic_page_in_cache:
  assumes "ws \<le> length pc" and "col + k \<le> ws" and "k \<le> length buf"
  shows "\<exists>p0 p1. (if k < ws then blit pc 0 (replicate ws 0xff) else Some pc) = Some p0 \<and>
    blit p0 col (take k buf) = Some p1 \<and>
    slice p1 0 ws = Some (replicate col 0xff @ take k buf @ replicate (ws - col - k) 0xff)"
proof (cases "k < ws")
  case True
  obtain m where m: "ws = col + k + m" using assms(2) le_Suc_ex by blast
  then show ?thesis using assms True by (simp add: blit_def slice_def)
next
  case False
  then have "k = ws" "col = 0" using assms(2) by auto
  then show ?thesis using assms by (auto simp: blit_def slice_def)
qed

text \<open>C39: nmbm_mtd_panic_write reports success when not even the first page could be written: on any
  attached device with the page cache and the column mask of its MTD layer, for a request that is not empty and lies in its buffer, if the write of the
  page with the first chunk returns an error, the result is 0 and the length of that chunk.\<close>

theorem panic_write_hides_failure:
  assumes "cached nm" and "len \<noteq> 0" and "len \<le> length buf"
    and "nmbm_panic_write_single_page crc (nm_ni nm) (page_start_addr nm addr)
      (first_panic_page nm addr (min (unat (lm_writesize (nm_lower nm)) - page_col nm addr) len) buf) = Some (ret, ni)"
    and "ret \<noteq> 0"
  shows "\<exists>nm'. nmbm_mtd_panic_write crc nm addr len buf =
      Some (0, min (unat (lm_writesize (nm_lower nm)) - page_col nm addr) len, nm') \<and> nm_ni nm' = ni"
proof -
  let ?ws = "unat (lm_writesize (nm_lower nm))" and ?col = "page_col nm addr"
  define k where "k = min (?ws - ?col) len"
  have col: "?col < ?ws" by (rule page_col_bound [OF assms(1)])
  then have k: "?col + k \<le> ?ws" "k \<le> length buf" using assms(3) by (auto simp: k_def)
  have pc: "?ws \<le> length (nm_page_cache nm)" using assms(1) by (simp add: cached_def)
  obtain p0 p1 where p:
      "(if k < ?ws then blit (nm_page_cache nm) 0 (replicate ?ws 0xff) else Some (nm_page_cache nm)) = Some p0"
      "blit p0 ?col (take k buf) = Some p1" "slice p1 0 ?ws = Some (first_panic_page nm addr k buf)"
    using first_panic_page_in_cache [OF pc k] unfolding first_panic_page_def by blast
  have src: "slice buf 0 k = Some (take k buf)" using k(2) by (simp add: slice_def)
  have "panic_pages crc nm (page_start_addr nm addr) len ?col buf 0 =
      Some (k, nm\<lparr>nm_page_cache := p1, nm_ni := ni\<rparr>)"
    using assms(2,4,5)
    by (subst panic_pages.simps, unfold Let_def, unfold k_def [symmetric]) (simp add: p src)
  then show ?thesis by (simp add: nmbm_mtd_panic_write_def k_def)
qed

text \<open>A device whose logic block 0 is mapped to a block that has gone bad.\<close>

definition demo_bad_mtd :: "unit nmbm_mtd" where
  "demo_bad_mtd = demo_mtd\<lparr>nm_ni := demo_upper_ni\<lparr>block_state := [0xfffffffc, 0xffffffff]\<rparr>\<rparr>"

lemma length_demo_states: "length (block_state demo_upper_ni) = 2"
  by (simp add: demo_upper_ni_def)

lemma demo_bad_mtd_cached: "cached demo_bad_mtd"
proof -
  have "attached (demo_upper_ni\<lparr>block_state := [0xfffffffc, 0xffffffff]\<rparr>)"
    using attached_demo_upper length_demo_states
    by (simp add: attached_def lay_def mapped_def fits_def wf_def read_only_def has_flag_def es_sh_def)
  then show ?thesis by (simp add: cached_def demo_bad_mtd_def demo_mtd_def demo_lm_def)
qed

theorem panic_write_hides_failure_witness:
  "\<exists>nm'. nmbm_mtd_panic_write demo_crc demo_bad_mtd 0 2 [1, 2] =
      Some (0, min (unat (lm_writesize (nm_lower demo_bad_mtd)) - page_col demo_bad_mtd 0) 2, nm') \<and>
    nm_ni nm' = nm_ni demo_bad_mtd"
proof (rule panic_write_hides_failure [OF demo_bad_mtd_cached, where ret = "- EIO"])
  show "nmbm_panic_write_single_page demo_crc (nm_ni demo_bad_mtd) (page_start_addr demo_bad_mtd 0)
      (first_panic_page demo_bad_mtd 0 (min (unat (lm_writesize (nm_lower demo_bad_mtd)) - page_col demo_bad_mtd 0) 2) [1, 2]) =
      Some (- EIO, nm_ni demo_bad_mtd)"
    by (simp add: nmbm_panic_write_single_page_def nmbm_panic_write_logic_page_def logic_to_phys_def load_def
        demo_bad_mtd_def demo_mtd_def demo_upper_ni_def demo_lm_def demo_dt_def build_nld_def page_start_addr_def
        has_flag_def ba2addr_def addr2ba_def is_neg32_def nmbm_get_block_state_def nmbm_get_block_state_raw_def
        BLOCK_ST_BAD_def BLOCK_ST_MASK_def upt_rec)
qed (simp_all add: EIO_def)

section \<open>The device state machine\<close>

text \<open>C21: At most one task is past nmbm_get_device for reading, writing or erasing; several tasks can
  be past it only when all of them suspended the device, and the device is ready exactly
  when no task is.\<close>

theorem device_exclusive:
  assumes "gate_reach g"
  shows "(g_state g = FL_READY \<longleftrightarrow> g_holders g = []) \<and>
    (g_state g \<noteq> FL_PM_SUSPENDED \<longrightarrow> length (g_holders g) \<le> 1) \<and>
    (\<forall>h \<in> set (g_holders g). snd h = g_state g)"
  using gate_reach_inv [OF assms] by (auto simp: gate_inv_def split: flstate.splits)

theorem device_exclusive_witness:
  "length (g_holders (gate_init\<lparr>g_state := FL_READING, g_holders := [(7, FL_READING)]\<rparr>)) \<le> 1"
proof -
  have "gate_step gate_init (gate_init\<lparr>g_state := FL_READING, g_holders := (7, FL_READING) # g_holders gate_init\<rparr>)"
    by (rule gate_step.enter) (simp_all add: gate_init_def get_pass_def)
  then have "gate_reach (gate_init\<lparr>g_state := FL_READING, g_holders := (7, FL_READING) # g_holders gate_init\<rparr>)"
    by (rule gate_reach.gate_next [OF gate_reach.gate_start])
  then have "gate_reach (gate_init\<lparr>g_state := FL_READING, g_holders := [(7, FL_READING)]\<rparr>)"
    by (simp add: gate_init_def)
  from device_exclusive [OF this] show ?thesis by simp
qed

text \<open>
  After a shutdown: the device stays suspended, whoever is past nmbm_get_device has suspended it, and
  whoever waits for something else keeps waiting.
\<close>

definition shut :: "gate \<Rightarrow> gate \<Rightarrow> bool" where
  "shut g g' \<longleftrightarrow> g_state g' = FL_PM_SUSPENDED \<and>
     (\<forall>h \<in> set (g_holders g'). snd h = FL_PM_SUSPENDED) \<and>
     (\<forall>w \<in> set (g_sleepers g). snd w \<noteq> FL_PM_SUSPENDED \<longrightarrow> w \<in> set (g_sleepers g'))"

lemma get_pass_suspended: "get_pass FL_PM_SUSPENDED want = (if want = FL_PM_SUSPENDED then Some want else None)"
  by (simp add: get_pass_def)

lemma gate_step_shut: "gate_step h h' \<Longrightarrow> shut g h \<Longrightarrow> shut g h'"
  by (induction rule: gate_step.induct)
    (auto simp: shut_def get_pass_suspended in_set_remove1 split: if_splits)

text \<open>C40: Once nmbm_mtd_shutdown has gone through on the shared device, every later state, whatever
  steps the tasks take, is suspended: every task past nmbm_get_device is one that suspends, every
  task that waits to read, write or erase goes on waiting, and an erasure, a bad-block query or a
  marking that starts in such a state does not get past nmbm_get_device.\<close>

theorem shutdown_is_final:
  assumes "nmbm_mtd_shutdown nm = Some nm'" and "gate_reach g" and "g_state g = fl_state nm'"
    and "gate_step\<^sup>*\<^sup>* g g'"
  shows "g_state g' = FL_PM_SUSPENDED \<and> (\<forall>h \<in> set (g_holders g'). snd h = FL_PM_SUSPENDED) \<and>
    (\<forall>w \<in> set (g_sleepers g). snd w \<noteq> FL_PM_SUSPENDED \<longrightarrow> w \<in> set (g_sleepers g')) \<and>
    nmbm_mtd_erase crc (nm'\<lparr>fl_state := g_state g'\<rparr>) addr len = None \<and>
    nmbm_mtd_block_isbad (nm'\<lparr>fl_state := g_state g'\<rparr>) addr = None \<and>
    nmbm_mtd_block_markbad crc (nm'\<lparr>fl_state := g_state g'\<rparr>) addr = None"
proof -
  have "fl_state nm' = FL_PM_SUSPENDED"
    using assms(1) by (auto simp: nmbm_mtd_shutdown_def nmbm_get_device_def get_pass_def split: if_splits option.splits)
  with gate_reach_inv [OF assms(2)] assms(3) have "shut g g" by (simp add: shut_def gate_inv_def)
  with assms(4) have "shut g g'" by (induction rule: rtranclp_induct) (blast intro: gate_step_shut)+
  then show ?thesis
    by (simp add: shut_def nmbm_mtd_erase_def nmbm_mtd_block_isbad_def nmbm_mtd_block_markbad_def
        nmbm_get_device_def get_pass_suspended)
qed

text \<open>Task 7 suspends the device, task 8 wants to erase and waits, task 9 suspends it once more.\<close>

theorem shutdown_is_final_witness:
  "(8, FL_ERASING) \<in> set (g_sleepers \<lparr>g_state = FL_PM_SUSPENDED,
      g_holders = [(9, FL_PM_SUSPENDED), (7, FL_PM_SUSPENDED)], g_sleepers = [(8, FL_ERASING)]\<rparr>) \<and>
   nmbm_mtd_erase demo_crc (demo_mtd\<lparr>fl_state := FL_PM_SUSPENDED\<rparr>) 0 128 = None"
proof -
  let ?susp = "\<lparr>g_state = FL_PM_SUSPENDED, g_holders = [(7, FL_PM_SUSPENDED)], g_sleepers = []\<rparr>"
  let ?wait = "\<lparr>g_state = FL_PM_SUSPENDED, g_holders = [(7, FL_PM_SUSPENDED)], g_sleepers = [(8, FL_ERASING)]\<rparr>"
  let ?both = "\<lparr>g_state = FL_PM_SUSPENDED,
      g_holders = [(9, FL_PM_SUSPENDED), (7, FL_PM_SUSPENDED)], g_sleepers = [(8, FL_ERASING)]\<rparr>"
  have s0: "gate_step gate_init ?susp"
    using gate_step.enter [of FL_PM_SUSPENDED gate_init FL_PM_SUSPENDED 7] by (simp add: gate_init_def get_pass_def)
  have s1: "gate_step ?susp ?wait"
    using gate_step.sleep [of FL_ERASING ?susp 8] by (simp add: get_pass_def)
  have r: "gate_reach ?wait" by (rule gate_next [OF gate_next [OF gate_start s0] s1])
  have "gate_step ?wait ?both"
    using gate_step.enter [of FL_PM_SUSPENDED ?wait FL_PM_SUSPENDED 9] by (simp add: get_pass_def)
  then have "gate_step\<^sup>*\<^sup>* ?wait ?both" by blast
  from shutdown_is_final [OF _ r _ this, of demo_mtd "demo_mtd\<lparr>fl_state := FL_PM_SUSPENDED\<rparr>" demo_crc 0 128]
  show ?thesis by (simp add: nmbm_mtd_shutdown_def nmbm_get_device_def get_pass_def demo_mtd_def)
qed

end
