(* ===== verification/Nmbm_Start.thy ===== *)
theory Nmbm_Start
  imports Nmbm_Mtd_Service
begin

text \<open>
  Attaching: a lower device that passes the checks gets a well-formed structure of the size the
  caller allocated, the search for the signature ends, and a new chip ends up attached.
\<close>

section \<open>Powers of two\<close>

lemma nat_power_of_2:
  "0 < n \<Longrightarrow> n AND (n - 1) = 0 \<Longrightarrow> \<exists>k. n = 2 ^ k" for n :: nat
proof (induction n rule: less_induct)
  case (less n)
  show ?case
  proof (cases "even n")
    case True
    then obtain m where m: "n = 2 * m" by blast
    then have m0: "0 < m" using less.prems(1) by simp
    then have "n - 1 = 1 + 2 * (m - 1)" using m by simp
    then have "n AND (n - 1) = 2 * (m AND (m - 1))"
      using m by (subst and_rec) simp
    then have "m AND (m - 1) = 0" using less.prems(2) by simp
    then obtain k where "m = 2 ^ k" using less.IH [of m] m m0 by auto
    then show ?thesis using m by (intro exI [of _ "Suc k"]) simp
  next
    case False
    then obtain m where m: "n = 1 + 2 * m" by (metis oddE add.commute)
    then have "n AND (n - 1) = 2 * m" by (subst and_rec) simp
    then show ?thesis using m less.prems(2) by (intro exI [of _ 0]) simp
  qed
qed

lemma word_power_of_2:
  fixes w :: "'a::len word"
  assumes "w \<noteq> 0" and "w AND (w - 1) = 0"
  shows "\<exists>k < LENGTH('a). unat w = 2 ^ k"
proof -
  have "unat w AND (unat w - 1) = 0"
    using assms by (metis unsigned_and_eq unsigned_0 unat_minus_one)
  then obtain k where k: "unat w = 2 ^ k"
    using nat_power_of_2 [of "unat w"] assms(1) by (auto simp: unat_gt_0)
  moreover have "2 ^ k < (2::nat) ^ LENGTH('a)" using unsigned_less [of w] by (simp add: k [symmetric])
  ultimately show ?thesis using power_strict_increasing_iff [of "2::nat" k "LENGTH('a)"] by auto
qed

lemma word_of_power_of_2: "unat w = 2 ^ k \<Longrightarrow> w = 2 ^ k" for w :: u32
proof -
  assume "unat w = 2 ^ k"
  then have "(of_nat (unat w) :: u32) = of_nat (2 ^ k)" by simp
  then show "w = 2 ^ k" by simp
qed

lemma ffs_power_of_2:
  assumes "unat w = 2 ^ k" and "k < 32"
  shows "ffs w = Suc k"
proof -
  have w: "w = 2 ^ k" by (rule word_of_power_of_2 [OF assms(1)])
  have "find (\<lambda>i. bit w i) [0..<32] = Some k"
    unfolding find_Some_iff by (rule exI [of _ k]) (use assms(2) in \<open>auto simp: w bit_exp_iff\<close>)
  then show ?thesis by (simp add: ffs_def)
qed

lemma unat_clear_low:
  "unat (x AND NOT (mask k) :: u32) = unat x div 2 ^ k * 2 ^ k" if "k < 32"
proof -
  have e: "x AND NOT (mask k) = push_bit k (drop_bit k x)"
    by (rule bit_word_eqI) (auto simp: bit_simps)
  have "unat x div 2 ^ k * 2 ^ k < 4294967296"
    by (rule le_less_trans [OF div_times_less_eq_dividend unat_u32_lt])
  then have "unat x div 2 ^ k * 2 ^ k < 2 ^ 32" by simp
  then show ?thesis
    unfolding e unsigned_push_bit_eq unat_drop_bit_eq
    by (simp add: push_bit_eq_mult drop_bit_eq_div take_bit_nat_eq_self)
qed

lemma unat_align:
  assumes "unat a = 2 ^ k" and "unat v + 2 ^ k \<le> 2 ^ 32"
  shows "unat v \<le> unat (NMBM_ALIGN v a) \<and> unat (NMBM_ALIGN v a) < unat v + 2 ^ k"
proof -
  have k: "k < 32" using assms(1) unat_u32_lt [of a] power_less_imp_less_exp [of "2::nat" k 32] by simp
  have a: "a = 2 ^ k" by (rule word_of_power_of_2 [OF assms(1)])
  have m: "a - 1 = mask k" unfolding a by (simp add: mask_eq_exp_minus_1)
  have "a \<noteq> 0" using assms(1) by auto
  then have p: "unat (a - 1) = 2 ^ k - 1" using assms(1) by (simp add: unat_minus_one)
  have "unat v + (2 ^ k - 1) < 2 ^ 32" using assms(2) zero_less_power [of "2::nat" k] by linarith
  then have "unat (v + (a - 1)) = unat v + unat (a - 1)" by (intro unat_add_fits) (simp add: p)
  then have s: "unat (v + a - 1) = unat v + (2 ^ k - 1)" by (simp add: p algebra_simps)
  have "NMBM_ALIGN v a = (v + a - 1) AND NOT (mask k)" by (simp add: NMBM_ALIGN_def m)
  then have "unat (NMBM_ALIGN v a) = (unat v + (2 ^ k - 1)) div 2 ^ k * 2 ^ k"
    by (simp add: unat_clear_low [OF k] s)
  moreover have "n \<le> (n + (b - 1)) div b * b \<and> (n + (b - 1)) div b * b < n + b" if "0 < b" for n b :: nat
  proof -
    have "(n + (b - 1)) div b * b + (n + (b - 1)) mod b = n + (b - 1)" by simp
    moreover have "(n + (b - 1)) mod b < b" using that by simp
    ultimately show ?thesis using that by linarith
  qed
  ultimately show ?thesis by simp
qed


section \<open>The structure of the instance\<close>

text \<open>
  A geometry the structure can be laid out for: powers of two, at most \<open>2 ^ 27\<close> blocks of at most \<open>2 ^ 27\<close>
  bytes, a page within a block, and a spare area of at most \<open>2 ^ 27\<close> bytes.
\<close>

definition geometry :: "'d nmbm_lower_device \<Rightarrow> nat \<Rightarrow> nat \<Rightarrow> nat \<Rightarrow> bool" where
  "geometry L p b c \<longleftrightarrow> unat (writesize L) = 2 ^ p \<and> unat (erasesize L) = 2 ^ b \<and>
     unat (chip_size L) = 2 ^ (b + c) \<and> p \<le> b \<and> b \<le> 27 \<and> c \<le> 27 \<and>
     0 < unat (oobsize L) \<and> unat (oobsize L) \<le> 2 ^ 27"

lemma check_lower_geometry:
  assumes "nmbm_check_lower_members nld = (True, nld')"
    and "writesize nld \<le> erasesize nld" and "unat (erasesize nld) \<le> 2 ^ 27" and "unat (oobsize nld) \<le> 2 ^ 27"
    and "unat (erasesize nld) \<le> unat (chip_size nld)" and "unat (chip_size nld) \<le> 2 ^ 27 * unat (erasesize nld)"
  shows "\<exists>p b c. geometry nld p b c"
proof -
  have cs: "chip_size nld \<noteq> 0" "chip_size nld AND (chip_size nld - 1) = 0"
    and es: "erasesize nld \<noteq> 0" "erasesize nld AND (erasesize nld - 1) = 0"
    and ws: "writesize nld \<noteq> 0" "writesize nld AND (writesize nld - 1) = 0" and os: "oobsize nld \<noteq> 0"
    using assms(1) by (auto simp: nmbm_check_lower_members_def is_power_of_2_def is_power_of_2_u64_def split: if_splits)
  obtain k where k: "unat (chip_size nld) = 2 ^ k" using word_power_of_2 [OF cs] by auto
  obtain b where b: "unat (erasesize nld) = 2 ^ b" using word_power_of_2 [OF es] by auto
  obtain p where p: "unat (writesize nld) = 2 ^ p" using word_power_of_2 [OF ws] by auto
  have "(2::nat) ^ p \<le> 2 ^ b" using assms(2) p b by (simp add: word_le_nat_alt)
  then have pb: "p \<le> b" by simp
  have "(2::nat) ^ b \<le> 2 ^ 27" using assms(3) b by simp
  then have b27: "b \<le> 27" by (rule power_le_imp_le_exp [rotated]) simp
  have "(2::nat) ^ b \<le> 2 ^ k" using assms(5) b k by simp
  then have bk: "b \<le> k" by simp
  have "(2::nat) ^ k \<le> 2 ^ (27 + b)" using assms(6) b k by (simp only: power_add)
  then have "k \<le> 27 + b" by (rule power_le_imp_le_exp [rotated]) simp
  then have "geometry nld p b (k - b)"
    using k b p pb b27 bk os assms(4) by (simp add: geometry_def unat_gt_0)
  then show ?thesis by blast
qed


lemma word_add_div_16: "unat x \<le> 2 ^ 27 \<Longrightarrow> unat (((x + 16 - 1) div 16) * 4 :: u32) = 4 * ((unat x + 15) div 16)"
proof -
  assume a: "unat x \<le> 2 ^ 27"
  have "unat (x + 15) = unat x + 15" by (subst unat_add_fits) (use a in simp_all)
  then have d: "unat ((x + 15) div 16) = (unat x + 15) div 16" by (simp add: unat_div)
  have m: "unat (y * 4) = 4 * unat y" if "unat y < 2 ^ 30" for y :: u32
    using that by (simp add: unat_word_ariths)
  have "unat (((x + 15) div 16) * 4) = 4 * ((unat x + 15) div 16)"
    by (subst m) (use a in \<open>simp_all add: d\<close>)
  then show ?thesis by (simp add: add_diff_eq [symmetric])
qed

text \<open>The three parts of the info table and its buffers, with no 32-bit sum overflowing.\<close>

lemma table_sizes:
  assumes g: "geometry L p b c" and bc: "unat bc = 2 ^ c"
  defines "st \<equiv> ((bc + 16 - 1) div 16) * 4 :: u32" and "mt \<equiv> bc * 4"
  defines "H \<equiv> NMBM_ALIGN 32 (writesize L)" and "S \<equiv> NMBM_ALIGN st (writesize L)" and "M \<equiv> NMBM_ALIGN mt (writesize L)"
  shows "unat st = 4 * ((2 ^ c + 15) div 16)" and "unat mt = 4 * 2 ^ c"
    and "32 \<le> unat H" and "unat st \<le> unat S" and "unat mt \<le> unat M"
    and "unat (H + S) = unat H + unat S" and "unat (H + S + M) = unat H + unat S + unat M"
    and "unat (writesize L + oobsize L) = unat (writesize L) + unat (oobsize L)"
    and "unat (H + S + M + st + mt + writesize L + oobsize L) =
      unat H + unat S + unat M + unat st + unat mt + unat (writesize L) + unat (oobsize L)"
proof -
  have gg: "unat (writesize L) = 2 ^ p" "p \<le> b" "b \<le> 27" "c \<le> 27" "unat (oobsize L) \<le> 2 ^ 27"
    using g by (simp_all add: geometry_def)
  have pw: "(2::nat) ^ p \<le> 2 ^ 27" "(2::nat) ^ c \<le> 2 ^ 27"
    using power_increasing [of p 27 "2::nat"] power_increasing [of c 27 "2::nat"] gg by simp_all
  show st: "unat st = 4 * ((2 ^ c + 15) div 16)"
    unfolding st_def using word_add_div_16 [of bc] pw(2) by (simp add: bc)
  show mt: "unat mt = 4 * 2 ^ c"
    unfolding mt_def using pw(2) by (simp add: unat_word_ariths bc)
  have H: "32 \<le> unat H" "unat H < 32 + 2 ^ p" using unat_align [OF gg(1), of 32] pw(1) by (simp_all add: H_def)
  have S: "unat st \<le> unat S" "unat S < unat st + 2 ^ p"
    unfolding S_def using unat_align [OF gg(1), of st] pw st by simp_all
  have M: "unat mt \<le> unat M" "unat M < unat mt + 2 ^ p"
    unfolding M_def using unat_align [OF gg(1), of mt] pw mt by simp_all
  show "32 \<le> unat H" "unat st \<le> unat S" "unat mt \<le> unat M" by (fact H S M)+
  show HS: "unat (H + S) = unat H + unat S" by (rule unat_add_fits) (use H S st pw in simp)
  show HSM: "unat (H + S + M) = unat H + unat S + unat M"
    by (subst unat_add_fits) (use H S M st mt pw HS in simp_all)
  show "unat (writesize L + oobsize L) = unat (writesize L) + unat (oobsize L)"
    by (rule unat_add_fits) (use gg pw in simp)
  have 1: "unat (H + S + M + st) = unat H + unat S + unat M + unat st"
    by (subst unat_add_fits) (use H S M st mt pw HSM in simp_all)
  have 2: "unat (H + S + M + st + mt) = unat H + unat S + unat M + unat st + unat mt"
    by (subst unat_add_fits) (use H S M st mt pw 1 in simp_all)
  have 3: "unat (H + S + M + st + mt + writesize L) = unat H + unat S + unat M + unat st + unat mt + unat (writesize L)"
    by (subst unat_add_fits) (use H S M st mt pw 2 gg in simp_all)
  show "unat (H + S + M + st + mt + writesize L + oobsize L) =
      unat H + unat S + unat M + unat st + unat mt + unat (writesize L) + unat (oobsize L)"
    by (subst unat_add_fits) (use H S M st mt pw 3 gg in simp_all)
qed

text \<open>The structure after nmbm_init_structure, field by field.\<close>

lemma init_structure_fields:
  assumes "geometry (lower ni) p b c"
  defines "L \<equiv> lower ni"
  obtains ni' where "nmbm_init_structure ni = Some ni'" and "lower ni' = L" and "chip ni' = chip ni"
    and "rawpage_size ni' = writesize L + oobsize L" and "writesize_mask ni' = writesize L - 1"
    and "erasesize_mask ni' = erasesize L - 1" and "unat (writesize_shift ni') = p"
    and "es_sh ni' = b" and "unat (block_count ni') = 2 ^ c"
    and "state_table_size ni' = ((block_count ni' + 16 - 1) div 16) * 4"
    and "mapping_table_size ni' = block_count ni' * 4"
    and "state_table_off (info_table ni') = NMBM_ALIGN 32 (writesize L)"
    and "mapping_table_off (info_table ni') =
      NMBM_ALIGN 32 (writesize L) + NMBM_ALIGN (state_table_size ni') (writesize L)"
    and "info_table_size ni' = NMBM_ALIGN 32 (writesize L) + NMBM_ALIGN (state_table_size ni') (writesize L) +
      NMBM_ALIGN (mapping_table_size ni') (writesize L)"
    and "info_table_cache ni' = replicate (unat (info_table_size ni')) 0"
    and "block_state ni' = replicate (unat (state_table_size ni') div 4) (- 1)"
    and "block_mapping ni' = replicate (unat (mapping_table_size ni') div 4) 0"
    and "page_cache ni' = replicate (unat (writesize L + oobsize L)) 0"
proof -
  have g: "unat (writesize L) = 2 ^ p" "unat (erasesize L) = 2 ^ b" "unat (chip_size L) = 2 ^ (b + c)"
      "p \<le> b" "b \<le> 27" "c \<le> 27"
    using assms(1) by (simp_all add: geometry_def L_def)
  have nz: "writesize L \<noteq> 0" "erasesize L \<noteq> 0" using g(1,2) by auto
  have f: "ffs (writesize L) = Suc p" "ffs (erasesize L) = Suc b"
    by (rule ffs_power_of_2, use g in simp_all)+
  have sh: "unat (of_nat b :: u16) = b" "unat (of_nat p :: u16) = p"
    using g(4,5) by (simp_all add: unsigned_of_nat take_bit_nat_eq_self)
  have "unat (drop_bit b (chip_size L)) = 2 ^ c" unfolding unat_drop_bit_eq g(3) by (simp add: drop_bit_eq_div power_add)
  moreover have "(2::nat) ^ c < 2 ^ 32" by (rule power_strict_increasing) (use g(6) in simp_all)
  ultimately have bc: "unat (ucast (drop_bit b (chip_size L)) :: u32) = 2 ^ c" by (simp add: unat_ucast_u64_u32)
  define ni' where "ni' = the (nmbm_init_structure ni)"
  note d = ni'_def nmbm_init_structure_def nmbm_lldiv_def Let_def L_def [symmetric] nz f sh
  show thesis
  proof (rule that [of ni'])
    show "nmbm_init_structure ni = Some ni'" by (simp add: d)
    show "unat (block_count ni') = 2 ^ c" by (simp add: d bc)
  qed (simp_all add: d es_sh_def)
qed

lemma st_of_ones: "i div 16 < n \<Longrightarrow> st_of (replicate n (- 1)) i = BLOCK_ST_GOOD"
proof -
  assume "i div 16 < n"
  then have "st_of (replicate n (- 1)) i = drop_bit (2 * (i mod 16)) (- 1) AND BLOCK_ST_MASK"
    by (simp add: st_of_def)
  also have "BLOCK_ST_MASK = mask 2" by (simp add: block_st_defs mask_eq_exp_minus_1)
  also have "drop_bit (2 * (i mod 16)) (- 1 :: u32) AND mask 2 = mask 2"
  proof (rule bit_word_eqI)
    fix n assume "n < LENGTH(32)"
    have "i mod 16 < 16" by simp
    then show "bit (drop_bit (2 * (i mod 16)) (- 1 :: u32) AND mask 2) n = bit (mask 2 :: u32) n"
      by (auto simp: bit_simps)
  qed
  also have "mask 2 = BLOCK_ST_GOOD" by (simp add: block_st_defs mask_eq_exp_minus_1)
  finally show ?thesis .
qed

lemma init_structure_ok:
  assumes g: "geometry (lower ni) p b c" and "read_page (lower ni) \<noteq> None"
    and "flags (lower ni) AND NMBM_F_READ_ONLY = 0 \<Longrightarrow> write_page (lower ni) \<noteq> None \<and> erase_block (lower ni) \<noteq> None"
  shows "\<exists>ni'. nmbm_init_structure ni = Some ni' \<and> lower ni' = lower ni \<and> chip ni' = chip ni \<and> wf ni' \<and>
    fits ni' \<and> unat (block_count ni') = 2 ^ c \<and> (\<forall>i < 2 ^ c. bst ni' i = BLOCK_ST_GOOD) \<and> es_sh ni' = b"
proof -
  let ?L = "lower ni"
  obtain ni' where f: "nmbm_init_structure ni = Some ni'" "lower ni' = ?L" "chip ni' = chip ni"
      "rawpage_size ni' = writesize ?L + oobsize ?L" "writesize_mask ni' = writesize ?L - 1"
      "erasesize_mask ni' = erasesize ?L - 1" "unat (writesize_shift ni') = p"
      "es_sh ni' = b" "unat (block_count ni') = 2 ^ c"
      "state_table_size ni' = ((block_count ni' + 16 - 1) div 16) * 4"
      "mapping_table_size ni' = block_count ni' * 4"
      "state_table_off (info_table ni') = NMBM_ALIGN 32 (writesize ?L)"
      "mapping_table_off (info_table ni') =
        NMBM_ALIGN 32 (writesize ?L) + NMBM_ALIGN (state_table_size ni') (writesize ?L)"
      "info_table_size ni' = NMBM_ALIGN 32 (writesize ?L) + NMBM_ALIGN (state_table_size ni') (writesize ?L) +
        NMBM_ALIGN (mapping_table_size ni') (writesize ?L)"
      "info_table_cache ni' = replicate (unat (info_table_size ni')) 0"
      "block_state ni' = replicate (unat (state_table_size ni') div 4) (- 1)"
      "block_mapping ni' = replicate (unat (mapping_table_size ni') div 4) 0"
      "page_cache ni' = replicate (unat (writesize ?L + oobsize ?L)) 0"
    by (rule init_structure_fields [OF g])
  have gg: "unat (writesize ?L) = 2 ^ p" "unat (erasesize ?L) = 2 ^ b" "p \<le> b" "b \<le> 27" "c \<le> 27"
      "0 < unat (oobsize ?L)"
    using g by (simp_all add: geometry_def)
  have c27: "(2::nat) ^ c \<le> 2 ^ 27" using power_increasing [of c 27 "2::nat"] gg(5) by simp
  note s = table_sizes [OF g f(9), folded f(10) f(11)]
  have "wf ni'"
    unfolding wf_def f(2,4-8) f(9) f(14-18) using gg c27 assms(2,3) s
    by (simp add: f(9) read_only_def has_flag_def f(2) word_less_nat_alt)
  moreover have "fits ni'" using s by (simp add: fits_def f(12-14))
  moreover have "bst ni' i = BLOCK_ST_GOOD" if "i < 2 ^ c" for i
    unfolding bst_def f(16) by (rule st_of_ones) (use that s(1) in simp)
  ultimately show ?thesis using f(1-3,8,9) by blast
qed

text \<open>C29: On a geometry within the bounds, nmbm_calc_structure_size is exactly the instance structure
  plus the buffers that nmbm_init_structure carves out behind it: the info table cache, the state
  table, the mapping table and the page cache, without overflow in the 32-bit sums.\<close>

theorem calc_structure_size_spec:
  assumes "geometry (lower ni) p b c" and "unat sizeof_ni < 2 ^ 32"
  shows "\<exists>sz ni'. nmbm_calc_structure_size sizeof_ni (lower ni) = Some sz \<and> nmbm_init_structure ni = Some ni' \<and>
    unat sz = unat sizeof_ni + length (info_table_cache ni') + 4 * length (block_state ni') +
      4 * length (block_mapping ni') + length (page_cache ni')"
proof (rule init_structure_fields [OF assms(1)], goal_cases)
  case (1 ni')
  let ?L = "lower ni"
  have es: "unat (erasesize ?L) = 2 ^ b" "unat (chip_size ?L) = 2 ^ (b + c)" "c \<le> 27"
    using assms(1) by (simp_all add: geometry_def)
  have nz: "erasesize ?L \<noteq> 0" using es(1) by auto
  have "unat (chip_size ?L div ucast (erasesize ?L)) = 2 ^ c" by (simp add: unat_div es power_add)
  moreover have "(2::nat) ^ c < 2 ^ 32" by (rule power_strict_increasing) (use es(3) in simp_all)
  ultimately have "unat (ucast (chip_size ?L div ucast (erasesize ?L)) :: u32) = unat (block_count ni')"
    using 1 by (simp add: unat_ucast_u64_u32)
  then have "(ucast (chip_size ?L div ucast (erasesize ?L)) :: u32) = block_count ni'"
    by (simp only: word_unat_eq_iff)
  then have bc: "nmbm_lldiv (chip_size ?L) (erasesize ?L) = Some (block_count ni')"
    by (simp add: nmbm_lldiv_def nz)
  note s = table_sizes [OF assms(1) 1(9), folded 1(10,11)]
  have sz: "nmbm_calc_structure_size sizeof_ni ?L = Some (ucast (info_table_size ni' + state_table_size ni' +
      mapping_table_size ni' + writesize ?L + oobsize ?L) + sizeof_ni)"
    by (simp only: nmbm_calc_structure_size_def bc Let_def 1(10) [symmetric] 1(11) [symmetric] 1(14)
        Option.bind.bind_lunit)
  show ?case
    using 1(1) s sz assms(2) unat_u32_lt [of "info_table_size ni' + state_table_size ni' +
      mapping_table_size ni' + writesize ?L + oobsize ?L"]
    by (auto simp: 1(14-18) unat_add_fits)
qed

section \<open>The search for the signature\<close>

lemma check_header_total:
  assumes "16 \<le> length dat" and "unat sz \<le> length dat"
  shows "\<exists>r. nmbm_check_header crc dat sz = Some r"
proof -
  obtain hd where hd: "slice dat 0 16 = Some hd" using slice_exists [of 0 16 dat] assms(1) by auto
  let ?n = "unat (hdr_size (header_of hd))"
  have "\<exists>rest. slice dat 16 (?n - 16) = Some rest" if "16 < ?n" "\<not> hdr_size (header_of hd) > sz"
    using slice_exists [of 16 "?n - 16" dat] that assms(2) by (auto simp: word_less_nat_alt not_less)
  then show ?thesis by (auto simp: nmbm_check_header_def hd Let_def word_less_nat_alt)
qed

lemma signature_pages_ok:
  "wf ni \<Longrightarrow> length sig = 48 \<Longrightarrow> ok (signature_pages crc ni addr offs sig) (\<lambda>(r, sig', ni').
     io {} ni ni' \<and> length sig' = 48)"
proof (induction offs arbitrary: ni sig)
  case (Cons off offs)
  show ?case
    unfolding signature_pages.simps
  proof (rule ok_bind3 [OF nmbn_read_data_ok [OF Cons.prems(1)]])
    fix ret and sig1 :: bytes and ni1 :: "'a nmbm_instance"
    assume 1: "io {} ni ni1 \<and> length sig1 = length sig \<and> ret \<le> 0"
    then have wf1: "wf ni1" and l1: "length sig1 = 48" using Cons.prems io_wf by auto
    have rec: "ok (signature_pages crc ni1 addr offs sig1) (\<lambda>(r, sig', ni'). io {} ni ni' \<and> length sig' = 48)"
      by (rule ok_mono3 [OF Cons.IH [OF wf1 l1]]) (use 1 in \<open>blast intro: io_trans\<close>)
    obtain s where s: "nmbm_check_header crc sig1 48 = Some s" using check_header_total [of sig1 48 crc] l1 by auto
    show "ok (if ret \<noteq> 0 then signature_pages crc ni1 addr offs sig1
        else do {
          success \<leftarrow> nmbm_check_header crc sig1 48;
          if \<not> success then signature_pages crc ni1 addr offs sig1
          else if hdr_magic (header_of sig1) = NMBM_MAGIC_SIGNATURE then Some (Some (sig_of sig1), sig1, ni1)
          else signature_pages crc ni1 addr offs sig1 }) (\<lambda>(r, sig', ni'). io {} ni ni' \<and> length sig' = 48)"
      using rec 1 l1 by (simp add: s)
  qed
qed simp

lemma find_loop_ok:
  assumes "wf ni" and "0 < limit" and "length sig = 48"
  shows "ok (find_loop crc ni ba limit sig) (\<lambda>(r, ni'). io {} ni ni' \<and>
    (\<forall>s sba. r = Some (s, sba) \<longrightarrow> limit - 1 \<le> sba \<and> sba < ba))"
  using assms
proof (induction "unat ba" arbitrary: ni ba sig rule: less_induct)
  case less
  show ?case
  proof (cases "ba \<ge> limit")
    case False
    then show ?thesis by (subst find_loop.simps) simp
  next
    case True
    have b0: "ba \<noteq> 0" using True less.prems(2) by auto
    then have dec: "unat (ba - 1) < unat ba" by (simp add: unat_gt_0)
    have lim: "limit - 1 \<le> ba - 1" "ba - 1 < ba"
      using True less.prems(2) b0 by (simp_all add: word_le_nat_alt word_less_nat_alt unat_gt_0)
    have rec: "ok (find_loop crc ni1 (ba - 1) limit sig1) (\<lambda>(r, ni'). io {} ni ni' \<and>
        (\<forall>s sba. r = Some (s, sba) \<longrightarrow> limit - 1 \<le> sba \<and> sba < ba))"
      if "io {} ni ni1" "length sig1 = 48" for ni1 sig1
      by (rule ok_mono2 [OF less.hyps [OF dec]])
        (use that less.prems io_wf lim in \<open>auto intro: io_trans less_trans\<close>)
    show ?thesis
      unfolding find_loop.simps [of crc ni] if_P [OF True]
    proof (rule ok_bind2 [OF nmbm_check_bad_phys_block_ok [OF less.prems(1)]])
      fix bad and ni1 :: "'a nmbm_instance" assume i1: "io {} ni ni1"
      then have wf1: "wf ni1" using less.prems(1) io_wf by auto
      have "ok (Option.bind (signature_pages crc ni1 (ba2addr ni1 (ba - 1))
          (page_offs 0 (erasesize (lower ni1)) (writesize (lower ni1))) sig) (\<lambda>(r, sig, ni).
            case r of Some s \<Rightarrow> Some (Some (s, ba - 1), ni) | None \<Rightarrow> find_loop crc ni (ba - 1) limit sig))
        (\<lambda>(r, ni'). io {} ni ni' \<and> (\<forall>s sba. r = Some (s, sba) \<longrightarrow> limit - 1 \<le> sba \<and> sba < ba))"
      proof (rule ok_bind3 [OF signature_pages_ok [OF wf1 less.prems(3)]])
        fix r ni2 and sig2 :: bytes assume "io {} ni1 ni2 \<and> length sig2 = 48"
        then show "ok (case r of Some s \<Rightarrow> Some (Some (s, ba - 1), ni2) | None \<Rightarrow> find_loop crc ni2 (ba - 1) limit sig2)
          (\<lambda>(r, ni'). io {} ni ni' \<and> (\<forall>s sba. r = Some (s, sba) \<longrightarrow> limit - 1 \<le> sba \<and> sba < ba))"
          using rec [of ni2 sig2] io_trans [OF i1] lim by (auto split: option.split)
      qed
      then show "ok (if bad then find_loop crc ni1 (ba - 1) limit sig
          else Option.bind (signature_pages crc ni1 (ba2addr ni1 (ba - 1))
          (page_offs 0 (erasesize (lower ni1)) (writesize (lower ni1))) sig) (\<lambda>(r, sig, ni).
            case r of Some s \<Rightarrow> Some (Some (s, ba - 1), ni) | None \<Rightarrow> find_loop crc ni (ba - 1) limit sig))
        (\<lambda>(r, ni'). io {} ni ni' \<and> (\<forall>s sba. r = Some (s, sba) \<longrightarrow> limit - 1 \<le> sba \<and> sba < ba))"
        using rec [OF i1 less.prems(3)] by simp
    qed
  qed
qed


text \<open>
  With \<open>limit = 0\<close> the comparison \<open>ba >= limit\<close> always holds: the loop can only end by finding a
  signature.
\<close>

lemma find_loop_zero_aux:
  assumes "find_loop crc ni ba limit sig = Some y"
  shows "limit = 0 \<longrightarrow> fst y \<noteq> None"
proof (rule find_loop.raw_induct [where P = "\<lambda>crc ni ba limit sig y. limit = 0 \<longrightarrow> fst y \<noteq> None", OF _ assms], goal_cases)
  case (1 self crc ni ba limit sig y)
  show ?case
  proof
    assume l: "limit = 0"
    have IH: "self crc n b 0 s = Some z \<Longrightarrow> fst z \<noteq> None" for n b s z
      using 1(1) [of crc n b 0 s z] by simp
    from 1(2) l show "fst y \<noteq> None"
      by (auto simp: Option.bind_eq_Some_conv split: if_splits option.splits dest: IH)
  qed
qed

lemma find_loop_zero: "find_loop crc ni ba 0 sig \<noteq> Some (None, ni')"
  using find_loop_zero_aux [of crc ni ba 0 sig "(None, ni')"] by auto

section \<open>Creating NMBM on a new chip\<close>

lemma mgmt_start_bounds:
  assumes "16 \<le> unat bc" and "unat bc \<le> 2 ^ 27" and "0 < unat r" and "unat r < 15"
  shows "0 < bc * (NMBM_MGMT_DIV - r) div NMBM_MGMT_DIV \<and> bc * (NMBM_MGMT_DIV - r) div NMBM_MGMT_DIV < bc"
proof -
  have d: "unat (NMBM_MGMT_DIV - r) = 16 - unat r"
    using assms(4) by (subst unat_sub_le) (simp_all add: NMBM_MGMT_DIV_def word_le_nat_alt)
  have "unat bc * (16 - unat r) \<le> 2 ^ 27 * 16" by (rule mult_le_mono) (use assms(2) in simp_all)
  then have "unat bc * (16 - unat r) < 2 ^ 32" by simp
  then have "unat (bc * (NMBM_MGMT_DIV - r)) = unat bc * (16 - unat r)"
    by (simp only: unat_word_ariths d) simp
  then have e: "unat (bc * (NMBM_MGMT_DIV - r) div NMBM_MGMT_DIV) = unat bc * (16 - unat r) div 16"
    by (simp add: unat_div NMBM_MGMT_DIV_def)
  have "16 \<le> unat bc * (16 - unat r)"
    using assms(1,4) mult_le_mono [of 16 "unat bc" 1 "16 - unat r"] by simp
  moreover have "unat bc * (16 - unat r) < unat bc * 16" using assms(1,3) by (intro mult_strict_left_mono) auto
  ultimately show ?thesis using less_mult_imp_div_less by (simp add: word_less_nat_alt e div_greater_zero_iff)
qed

lemma mapped_build:
  assumes "wf ni"
    and "block_mapping ni' = map of_nat (usable ni 0 (unat (mgmt_start_ba ni))) @ replicate n (- 1)"
    and "mgmt_start_ba ni \<le> block_count ni" and "block_count ni' = block_count ni"
  shows "mapped ni'"
proof -
  have "(of_nat i :: u32) < block_count ni" if "i \<in> set (usable ni 0 (unat (mgmt_start_ba ni)))" for i
  proof -
    have "i < unat (block_count ni)"
      using that assms(3) by (auto simp: usable_def word_le_nat_alt)
    then show ?thesis using unat_u32_lt [of "block_count ni"]
      by (simp add: word_less_nat_alt unsigned_of_nat take_bit_nat_eq_self)
  qed
  then show ?thesis using assms(2,4) by (auto simp: mapped_def)
qed

definition creatable :: "'d nmbm_instance \<Rightarrow> bool" where
  "creatable ni \<longleftrightarrow> wf ni \<and> fits ni \<and> binary_states ni \<and> 16 \<le> unat (block_count ni) \<and>
     unat (block_count ni) \<le> 2 ^ 27 \<and> length (sig_padding (signature ni)) = 7 \<and> 0 < unat (max_ratio (lower ni)) \<and> unat (max_ratio (lower ni)) < 15 \<and>
     (max_reserved_blocks (lower ni) = 0 \<or> 32 \<le> unat (max_reserved_blocks (lower ni)))"

text \<open>The start of the management area nmbm_create_new chooses.\<close>

definition chosen_start :: "'d nmbm_instance \<Rightarrow> u32" where
  "chosen_start ni =
     (let m = block_count ni * (NMBM_MGMT_DIV - max_ratio (lower ni)) div NMBM_MGMT_DIV
      in if max_reserved_blocks (lower ni) \<noteq> 0 \<and> block_count ni - m > max_reserved_blocks (lower ni)
         then block_count ni - max_reserved_blocks (lower ni) else m)"

lemma chosen_start_bounds:
  assumes "creatable ni"
  shows "0 < chosen_start ni \<and> chosen_start ni < block_count ni"
proof -
  let ?m = "block_count ni * (NMBM_MGMT_DIV - max_ratio (lower ni)) div NMBM_MGMT_DIV"
  let ?r = "max_reserved_blocks (lower ni)"
  have m: "0 < ?m \<and> ?m < block_count ni"
    by (rule mgmt_start_bounds) (use assms in \<open>simp_all add: creatable_def\<close>)
  show ?thesis
  proof (cases "?r \<noteq> 0 \<and> block_count ni - ?m > ?r")
    case True
    have "unat (block_count ni - ?m) = unat (block_count ni) - unat ?m"
      by (rule unat_sub_le) (use m in \<open>auto intro: less_imp_le\<close>)
    then have "unat ?r < unat (block_count ni)" using True by (auto simp: word_less_nat_alt)
    then have "unat (block_count ni - ?r) = unat (block_count ni) - unat ?r"
      by (intro unat_sub_le) (simp add: word_le_nat_alt)
    moreover have "0 < unat ?r" using True by (simp add: unat_gt_0)
    ultimately show ?thesis
      using True \<open>unat ?r < unat (block_count ni)\<close> by (simp add: chosen_start_def word_less_nat_alt)
  qed (use m in \<open>auto simp: chosen_start_def Let_def\<close>)
qed

lemma nmbm_create_new_eq:
  "nmbm_create_new crc ni = do {
     ni \<leftarrow> nmbm_scan_badblocks (ni\<lparr>mgmt_start_ba := chosen_start ni\<rparr>);
     ni \<leftarrow> nmbm_build_mapping_table ni;
     let sig = (signature ni)\<lparr>sig_header := (sig_header (signature ni))\<lparr>
           hdr_magic := NMBM_MAGIC_SIGNATURE, hdr_version := NMBM_VER, hdr_size := 48\<rparr>,
         nand_size := chip_size (lower ni), block_size := erasesize (lower ni),
         page_size := writesize (lower ni), spare_size := oobsize (lower ni),
         mgmt_start_pb := mgmt_start_ba ni, max_try_count := of_nat NMBM_TRY_COUNT\<rparr>;
     b \<leftarrow> nmbm_update_checksum crc (sig_bytes sig);
     let ni = ni\<lparr>signature := sig_of b\<rparr>;
     if has_flag ni NMBM_F_READ_ONLY then Some (True, ni)
     else do {
       (r, ni) \<leftarrow> nmbm_write_signature ni (mgmt_start_ba ni) (signature ni);
       case r of
         None \<Rightarrow> Some (False, ni)
       | Some sba \<Rightarrow> nmbm_create_info_table crc (ni\<lparr>signature_ba := sba\<rparr>) } }"
proof -
  let ?m = "block_count ni * (NMBM_MGMT_DIV - max_ratio (lower ni)) div NMBM_MGMT_DIV"
  have "(let ni = ni\<lparr>mgmt_start_ba := ?m\<rparr>
         in if max_reserved_blocks (lower ni) \<noteq> 0 \<and> block_count ni - mgmt_start_ba ni > max_reserved_blocks (lower ni)
            then ni\<lparr>mgmt_start_ba := block_count ni - max_reserved_blocks (lower ni)\<rparr> else ni) =
      ni\<lparr>mgmt_start_ba := chosen_start ni\<rparr>"
    by (simp add: chosen_start_def Let_def)
  then show ?thesis unfolding nmbm_create_new_def Let_def by simp
qed

lemma build_safe:
  assumes "wf ni" and "mgmt_start_ba ni \<le> block_count ni"
  shows "ok (nmbm_build_mapping_table ni) (\<lambda>ni'. safe {} ni ni' \<and> mapped ni' \<and>
    mgmt_start_ba ni' = mgmt_start_ba ni \<and> data_block_count ni' \<le> mgmt_start_ba ni \<and>
    info_table ni' = info_table ni \<and> signature ni' = signature ni)"
proof (rule ok_mono [OF nmbm_build_mapping_table_ok [OF assms]])
  fix ni'
  let ?u = "usable ni 0 (unat (mgmt_start_ba ni))"
  assume "let u = ?u in
    block_mapping ni' = map of_nat u @ replicate (unat (block_count ni) - length u) (- 1) \<and>
    unat (data_block_count ni') = length u \<and>
    ni' = ni\<lparr>data_block_count := data_block_count ni', block_mapping := block_mapping ni'\<rparr>"
  then have bm: "block_mapping ni' = map of_nat ?u @ replicate (unat (block_count ni) - length ?u) (- 1)"
    and dc: "unat (data_block_count ni') = length ?u"
    and e: "ni' = ni\<lparr>data_block_count := data_block_count ni', block_mapping := block_mapping ni'\<rparr>"
    unfolding Let_def by blast+
  have u: "length ?u \<le> unat (mgmt_start_ba ni)" using length_usable [of ni 0 "unat (mgmt_start_ba ni)"] by simp
  have f: "block_count ni' = block_count ni" "chip ni' = chip ni" "block_state ni' = block_state ni"
    "mgmt_start_ba ni' = mgmt_start_ba ni" "info_table ni' = info_table ni" "signature ni' = signature ni"
    by (subst e, simp)+
  have "length (block_mapping ni') = length (block_mapping ni)"
    using bm u assms by (simp add: wf_def word_le_nat_alt)
  then have st: "static ni' = static ni" by (subst e) (simp add: static_def)
  have "safe {} ni ni'" by (rule safe_same [OF st]) (simp_all add: f)
  moreover have "mapped ni'" by (rule mapped_build [OF assms(1) bm assms(2) f(1)])
  ultimately show "safe {} ni ni' \<and> mapped ni' \<and> mgmt_start_ba ni' = mgmt_start_ba ni \<and>
      data_block_count ni' \<le> mgmt_start_ba ni \<and> info_table ni' = info_table ni \<and> signature ni' = signature ni"
    using f dc u by (simp add: word_le_nat_alt)
qed

lemma header_of_sig_bytes: "header_of (sig_bytes s) = sig_header s"
  by (simp add: sig_bytes_def)

text \<open>The second half: the signature and the tables are written.\<close>

lemma write_new_ok:
  assumes "wf ni" and "fits ni" and "mapped ni" and "0 < mgmt_start_ba ni" and "mgmt_start_ba ni < block_count ni"
    and "data_block_count ni \<le> mgmt_start_ba ni"
  shows "ok (Option.bind (nmbm_write_signature ni (mgmt_start_ba ni) (signature ni)) (\<lambda>(r, ni).
      case r of None \<Rightarrow> Some (False, ni) | Some sba \<Rightarrow> nmbm_create_info_table crc (ni\<lparr>signature_ba := sba\<rparr>)))
    (\<lambda>(b, ni'). safe (all_blocks ni) ni ni' \<and> (b \<longrightarrow> attached ni'))"
proof (rule ok_bind2 [OF nmbm_write_signature_ok [OF assms(1)]])
  fix r :: "u32 option" and n1
  assume a: "blk {unat (mgmt_start_ba ni)<..<unat (block_count ni)} ni n1 \<and>
    (case r of None \<Rightarrow> \<forall>i. unat (mgmt_start_ba ni) < i \<and> i < unat (block_count ni) \<longrightarrow> bst n1 i \<noteq> BLOCK_ST_GOOD
      | Some sba \<Rightarrow> unat (mgmt_start_ba ni) < unat sba \<and> unat sba < unat (block_count ni) \<and>
          bst n1 (unat sba) = BLOCK_ST_GOOD)"
  then have b: "blk {unat (mgmt_start_ba ni)<..<unat (block_count ni)} ni n1" by simp
  have s1: "safe (all_blocks ni) ni n1"
    by (rule safe_mono [OF blk_safe [OF b]]) (auto simp: all_blocks_def)
  show "ok (case r of None \<Rightarrow> Some (False, n1)
      | Some sba \<Rightarrow> nmbm_create_info_table crc (n1\<lparr>signature_ba := sba\<rparr>))
    (\<lambda>(b, ni'). safe (all_blocks ni) ni ni' \<and> (b \<longrightarrow> attached ni'))"
  proof (cases r)
    case None
    then show ?thesis using s1 by simp
  next
    case (Some sba)
    let ?n = "n1\<lparr>signature_ba := sba\<rparr>"
    have st: "static ?n = static n1" by (simp add: static_def)
    have s: "safe (all_blocks ni) ni ?n" by (rule safe_trans [OF s1 safe_same [OF st]]) simp_all
    have f: "mgmt_start_ba n1 = mgmt_start_ba ni" "data_block_count n1 = data_block_count ni"
      "block_mapping n1 = block_mapping ni" "info_table n1 = info_table ni"
      using b by (auto elim!: blkE)
    have bc: "block_count n1 = block_count ni" by (rule safe_block_count [OF s1])
    have "fresh ?n"
      using safe_wf [OF s] assms static_fields [OF safe_static [OF s1]] f bc a Some
      by (simp add: fresh_def fits_def mapped_def word_less_nat_alt)
    from nmbm_create_info_table_ok [OF this, of crc] show ?thesis
      unfolding Some option.case
    proof (rule ok_mono2, goal_cases)
      case (1 b n2)
      have "safe (all_blocks ni) ni n2"
        by (rule safe_trans [OF s safe_mono]) (use 1 a Some in \<open>auto simp: all_blocks_def\<close>)
      then show ?case using 1 by (auto simp: attached_def)
    qed
  qed
qed

lemma nmbm_create_new_ok:
  assumes "creatable ni"
  shows "ok (nmbm_create_new crc ni) (\<lambda>(b, ni'). safe (all_blocks ni) ni ni' \<and>
    (b \<longrightarrow> readable ni' \<and> (\<not> read_only ni \<longrightarrow> attached ni')))"
proof -
  have wf: "wf ni" and fits: "fits ni" and bin: "binary_states ni"
    and pad: "length (sig_padding (signature ni)) = 7" using assms by (simp_all add: creatable_def)
  let ?m = "chosen_start ni"
  let ?a = "ni\<lparr>mgmt_start_ba := ?m\<rparr>"
  note m = chosen_start_bounds [OF assms]
  have sa: "static ?a = static ni" by (simp add: static_def)
  have wa: "wf ?a" using wf wf_static [OF sa] by simp
  have ba: "binary_states ?a" using bin by (simp add: binary_states_def bst_def)
  have s0: "safe (all_blocks ni) ni ?a" by (rule safe_same [OF sa]) simp_all
  show ?thesis
    unfolding nmbm_create_new_eq
  proof (rule ok_bindI [OF nmbm_scan_badblocks_ok [OF wa ba]])
    fix n1 assume b1: "blk {0..<unat (block_count ?a)} ?a n1"
    have w1: "wf n1" using wa blk_wf [OF b1] by simp
    have f1: "block_count n1 = block_count ni" "mgmt_start_ba n1 = ?m" "signature n1 = signature ni"
      "info_table n1 = info_table ni" using b1 by (auto elim!: blkE)
    have s1: "safe (all_blocks ni) ni n1"
      by (rule safe_trans [OF s0 safe_mono [OF blk_safe [OF b1]]]) (auto simp: all_blocks_def)
    have "mgmt_start_ba n1 \<le> block_count n1" using f1 m by (auto intro: less_imp_le)
    from build_safe [OF w1 this]
    obtain n2 where bm: "nmbm_build_mapping_table n1 = Some n2" and s12: "safe {} n1 n2" and mp2: "mapped n2"
      and f2: "mgmt_start_ba n2 = ?m" "data_block_count n2 \<le> ?m" "info_table n2 = info_table ni"
        "signature n2 = signature ni"
      using f1 by (auto simp: ok_def)
    have s2: "safe (all_blocks ni) ni n2" by (rule safe_trans [OF s1 safe_mono [OF s12]]) simp
    have bc2: "block_count n2 = block_count ni" by (rule safe_block_count [OF s2])
    have fi2: "fits n2" using fits static_fields [OF safe_static [OF s2]] f2(3) by (simp add: fits_def)
    define sig where "sig = (signature n2)\<lparr>sig_header := (sig_header (signature n2))\<lparr>
           hdr_magic := NMBM_MAGIC_SIGNATURE, hdr_version := NMBM_VER, hdr_size := 48\<rparr>,
         nand_size := chip_size (lower n2), block_size := erasesize (lower n2),
         page_size := writesize (lower n2), spare_size := oobsize (lower n2),
         mgmt_start_pb := mgmt_start_ba n2, max_try_count := of_nat NMBM_TRY_COUNT\<rparr>"
    have ls: "length (sig_bytes sig) = 48" by (simp add: sig_def f2(4) pad)
    obtain b where cs: "nmbm_update_checksum crc (sig_bytes sig) = Some b"
      using nmbm_update_checksum_ok [of "sig_bytes sig" crc] ls by (auto simp: header_of_sig_bytes sig_def ok_def)
    let ?n3 = "n2\<lparr>signature := sig_of b\<rparr>"
    have st3: "static ?n3 = static n2" by (simp add: static_def)
    have s3: "safe (all_blocks ni) ni ?n3" by (rule safe_trans [OF s2 safe_same [OF st3]]) simp_all
    have w3: "wf ?n3" using safe_wf [OF s3] wf by simp
    have mp3: "mapped ?n3" and fi3: "fits ?n3" using mp2 fi2 by (simp_all add: mapped_def fits_def)
    have d3: "data_block_count n2 \<le> block_count n2" using f2(2) bc2 m by auto
    have ab: "all_blocks ?n3 = all_blocks ni" by (rule all_blocks_safe [OF s3])
    have ro: "has_flag ?n3 NMBM_F_READ_ONLY = read_only ni"
      using static_fields [OF safe_static [OF s2]] by (simp add: read_only_def has_flag_def)
    have rest: "ok (Option.bind (nmbm_write_signature ?n3 (mgmt_start_ba ?n3) (signature ?n3)) (\<lambda>(r, ni).
        case r of None \<Rightarrow> Some (False, ni)
        | Some sba \<Rightarrow> nmbm_create_info_table crc (ni\<lparr>signature_ba := sba\<rparr>)))
      (\<lambda>(b, ni'). safe (all_blocks ni) ni ni' \<and> (b \<longrightarrow> readable ni' \<and> (\<not> read_only ni \<longrightarrow> attached ni')))"
      by (rule ok_mono2 [OF write_new_ok [OF w3 fi3 mp3]])
        (use f2 bc2 m ab safe_trans [OF s3] attached_readable in auto)
    then show "ok (do {
     ni \<leftarrow> nmbm_build_mapping_table n1;
     let sig = (signature ni)\<lparr>sig_header := (sig_header (signature ni))\<lparr>
           hdr_magic := NMBM_MAGIC_SIGNATURE, hdr_version := NMBM_VER, hdr_size := 48\<rparr>,
         nand_size := chip_size (lower ni), block_size := erasesize (lower ni),
         page_size := writesize (lower ni), spare_size := oobsize (lower ni),
         mgmt_start_pb := mgmt_start_ba ni, max_try_count := of_nat NMBM_TRY_COUNT\<rparr>;
     b \<leftarrow> nmbm_update_checksum crc (sig_bytes sig);
     let ni = ni\<lparr>signature := sig_of b\<rparr>;
     if has_flag ni NMBM_F_READ_ONLY then Some (True, ni)
     else do {
       (r, ni) \<leftarrow> nmbm_write_signature ni (mgmt_start_ba ni) (signature ni);
       case r of
         None \<Rightarrow> Some (False, ni)
       | Some sba \<Rightarrow> nmbm_create_info_table crc (ni\<lparr>signature_ba := sba\<rparr>) } })
      (\<lambda>(b, ni'). safe (all_blocks ni) ni ni' \<and> (b \<longrightarrow> readable ni' \<and> (\<not> read_only ni \<longrightarrow> attached ni')))"
      unfolding bm Option.bind.bind_lunit Let_def sig_def [symmetric] cs ro
      using s3 w3 mp3 d3 by (cases "read_only ni") (simp_all add: readable_def)
  qed
qed

lemma geometry_block_count:
  assumes "geometry L p b c"
  shows "unat (ucast (drop_bit b (chip_size L)) :: u32) = 2 ^ c"
proof -
  have g: "unat (chip_size L) = 2 ^ (b + c)" "c \<le> 27" using assms by (simp_all add: geometry_def)
  have "unat (drop_bit b (chip_size L)) = 2 ^ c" unfolding unat_drop_bit_eq g(1) by (simp add: drop_bit_eq_div power_add)
  moreover have "(2::nat) ^ c < 2 ^ 32" by (rule power_strict_increasing) (use g(2) in simp_all)
  ultimately show ?thesis by (simp add: unat_ucast_u64_u32)
qed

lemma unat_mult_fits: "unat a * unat b < 2 ^ 32 \<Longrightarrow> unat (a * b) = unat a * unat b" for a b :: u32
  by (simp add: unat_word_ariths)

lemma find_limit_pos:
  assumes "16 \<le> unat bc" and "0 < unat (max_ratio L)" and "unat (max_ratio L) < 15"
  shows "0 < find_limit L bc"
proof -
  have d: "unat (NMBM_MGMT_DIV - max_ratio L) = 16 - unat (max_ratio L)"
    using assms(3) by (subst unat_sub_le) (simp_all add: NMBM_MGMT_DIV_def word_le_nat_alt)
  have q: "unat (bc div NMBM_MGMT_DIV) = unat bc div 16" by (simp add: unat_div NMBM_MGMT_DIV_def)
  have "unat bc div 16 * (16 - unat (max_ratio L)) \<le> unat bc div 16 * 16" by simp
  also have "\<dots> \<le> unat bc" by simp
  also have "\<dots> < 2 ^ 32" using unat_u32_lt [of bc] by simp
  finally have u: "unat ((bc div NMBM_MGMT_DIV) * (NMBM_MGMT_DIV - max_ratio L)) =
      unat bc div 16 * (16 - unat (max_ratio L))"
    by (subst unat_mult_fits) (simp_all only: d q)
  have le: "unat bc div 16 * (16 - unat (max_ratio L)) \<le> unat bc"
    using mult_le_mono2 [of "16 - unat (max_ratio L)" 16 "unat bc div 16"] by linarith
  have "0 < unat bc div 16" using assms(1) by (simp add: div_greater_zero_iff)
  then have p: "0 < (bc div NMBM_MGMT_DIV) * (NMBM_MGMT_DIV - max_ratio L)"
    using assms(3) by (simp add: word_less_nat_alt u)
  show ?thesis
  proof (cases "max_reserved_blocks L \<noteq> 0 \<and> bc - (bc div NMBM_MGMT_DIV) * (NMBM_MGMT_DIV - max_ratio L) > max_reserved_blocks L")
    case True
    have "unat (bc - (bc div NMBM_MGMT_DIV) * (NMBM_MGMT_DIV - max_ratio L)) \<le> unat bc"
      by (subst unat_sub_le) (use le in \<open>simp_all add: word_le_nat_alt u\<close>)
    then have "bc - max_reserved_blocks L \<noteq> 0" using True by (auto simp: word_less_nat_alt)
    then have "0 < bc - max_reserved_blocks L" by (simp add: word_neq_0_conv del: right_minus_eq)
    then show ?thesis using True by (simp add: find_limit_def Let_def)
  qed (use p in \<open>auto simp: find_limit_def Let_def\<close>)
qed

lemma find_signature_ok:
  assumes "wf ni" and "geometry (lower ni) p (es_sh ni) c" and "4 \<le> c"
    and "0 < unat (max_ratio (lower ni))" and "unat (max_ratio (lower ni)) < 15"
  shows "ok (nmbm_find_signature crc ni) (\<lambda>(r, ni'). io {} ni ni' \<and>
    (\<forall>s sba. r = Some (s, sba) \<longrightarrow> find_limit (lower ni) (2 ^ c) - 1 \<le> sba \<and> sba < 2 ^ c))"
proof -
  let ?bc = "ucast (drop_bit (es_sh ni) (chip_size (lower ni))) :: u32"
  have u: "unat ?bc = 2 ^ c" by (rule geometry_block_count [OF assms(2)])
  then have bc: "?bc = 2 ^ c" by (rule word_of_power_of_2)
  have "(2::nat) ^ 4 \<le> 2 ^ c" using assms(3) by (rule power_increasing) simp
  then have "0 < find_limit (lower ni) ?bc" by (intro find_limit_pos) (use u assms(4,5) in simp_all)
  from find_loop_ok [OF assms(1) this, of "replicate 48 0" crc ?bc]
  show ?thesis by (simp add: nmbm_find_signature_def Let_def bc [unfolded es_sh_def] es_sh_def)
qed

text \<open>C28: On a chip of at least 16 blocks the search for the signature ends; it only reads the chip,
  and a signature it reports lies in a block of the chip not more than one below the search limit.\<close>

theorem find_signature_total:
  assumes "wf ni" and "geometry (lower ni) p (es_sh ni) c" and "4 \<le> c"
    and "0 < unat (max_ratio (lower ni))" and "unat (max_ratio (lower ni)) < 15"
  shows "ok (nmbm_find_signature crc ni) (\<lambda>(r, ni'). io {} ni ni' \<and>
    (\<forall>s sba. r = Some (s, sba) \<longrightarrow> find_limit (lower ni) (2 ^ c) - 1 \<le> sba \<and> sba < 2 ^ c))"
  using assms by (rule find_signature_ok)

lemma init_keeps_signature: "nmbm_init_structure ni = Some ni' \<Longrightarrow> signature ni' = signature ni"
  by (auto simp: nmbm_init_structure_def Let_def bind_eq_Some_conv)

lemma check_lower_fields:
  assumes "nmbm_check_lower_members nld = (True, nld')"
  shows "read_page nld' \<noteq> None" and "flags nld' = flags nld"
    and "flags nld' AND NMBM_F_READ_ONLY = 0 \<Longrightarrow> write_page nld' \<noteq> None \<and> erase_block nld' \<noteq> None"
    and "0 < unat (max_ratio nld')" and "unat (max_ratio nld') < 15"
    and "max_reserved_blocks nld' = 0 \<or> 32 \<le> unat (max_reserved_blocks nld')"
    and "geometry nld' p b c = geometry nld p b c"
  using assms
  by (auto simp: nmbm_check_lower_members_def Let_def geometry_def NMBM_MGMT_DIV_def NMBM_MGMT_BLOCKS_MIN_def
      word_le_nat_alt word_less_nat_alt unat_gt_0 split: if_splits)

text \<open>C35: On a chip of fewer than 16 blocks, whatever ratio and limit of reserved blocks
  nmbm_check_lower_members lets pass, the search limit is 0 and the search cannot end without a
  signature: nmbm_find_signature never reports that there is none, so such a chip is never set up.\<close>

theorem find_signature_small_chip:
  assumes "nmbm_check_lower_members nld = (True, lower ni)"
    and "unat (ucast (drop_bit (unat (erasesize_shift ni)) (chip_size (lower ni))) :: u32) < 16"
  shows "nmbm_find_signature crc ni \<noteq> Some (None, ni')"
proof -
  let ?bc = "ucast (drop_bit (unat (erasesize_shift ni)) (chip_size (lower ni))) :: u32"
  have "unat (?bc div 16) = 0" using assms(2) by (simp add: unat_div)
  then have z: "?bc div 16 = 0" by (simp only: unat_eq_zero)
  have "max_reserved_blocks (lower ni) = 0 \<or> \<not> ?bc > max_reserved_blocks (lower ni)"
    using check_lower_fields(6) [OF assms(1)] assms(2) by (auto simp: word_less_nat_alt)
  then have "find_limit (lower ni) ?bc = 0" using z by (auto simp: find_limit_def Let_def NMBM_MGMT_DIV_def)
  then show ?thesis by (simp add: nmbm_find_signature_def Let_def find_loop_zero)
qed

lemma attach_new_ok:
  assumes "nmbm_check_lower_members nld = (True, nld')" and "geometry nld p b c" and "4 \<le> c"
    and "flags nld AND NMBM_F_CREATE \<noteq> 0" and "length (sig_padding (signature ni)) = 7"
    and "nmbm_init_structure (ni\<lparr>log_display_level := NMBM_DEFAULT_LOG_LEVEL, lower := nld'\<rparr>) = Some ni1"
    and "nmbm_find_signature crc ni1 = Some (None, ni2)"
  shows "ok (nmbm_attach crc nld ni) (\<lambda>(ret, ni'). (ret = 0 \<or> ret = - ENODEV) \<and>
    (ret = 0 \<longrightarrow> lower ni' = nld' \<and> readable ni' \<and> (flags nld AND NMBM_F_READ_ONLY = 0 \<longrightarrow> attached ni')))"
proof -
  let ?i = "ni\<lparr>log_display_level := NMBM_DEFAULT_LOG_LEVEL, lower := nld'\<rparr>"
  note chk = check_lower_fields [OF assms(1)]
  have g: "geometry (lower ?i) p b c" using assms(2) chk(7) by simp
  obtain i where i: "nmbm_init_structure ?i = Some i" "lower i = nld'" "wf i" "fits i"
      "unat (block_count i) = 2 ^ c" "\<forall>k < 2 ^ c. bst i k = BLOCK_ST_GOOD" "es_sh i = b"
    using init_structure_ok [OF g] chk by auto
  then have ni1: "i = ni1" using assms(6) by simp
  have c: "(2::nat) ^ 4 \<le> 2 ^ c" "(2::nat) ^ c \<le> 2 ^ 27"
    using power_increasing [of 4 c "2::nat"] power_increasing [of c 27 "2::nat"] assms(2,3)
    by (simp_all add: geometry_def)
  have "io {} ni1 ni2"
    using find_signature_ok [of ni1 p c crc] i(2,3,5,7) g chk(4,5) assms(3,7) by (simp add: ni1 ok_def)
  note f = static_fields [OF io_static [OF this]] and e = this [unfolded io_def]
  have "fits ni2" "binary_states ni2" "signature ni2 = signature ni"
    using e i(4,5,6) init_keeps_signature [OF i(1)]
    by (auto simp: ni1 fits_def binary_states_def bst_def)
  then have "creatable ni2"
    using i(2,3,5) c chk(4-6) assms(5) f wf_static [OF io_static [OF \<open>io {} ni1 ni2\<close>]]
    by (simp add: creatable_def ni1)
  from nmbm_create_new_ok [OF this, of crc]
  have "ok (Option.bind (nmbm_create_new crc ni2) (\<lambda>(success, ni). Some (if success then 0 else - ENODEV, ni)))
    (\<lambda>(ret, ni'). (ret = 0 \<or> ret = - ENODEV) \<and>
      (ret = 0 \<longrightarrow> lower ni' = nld' \<and> readable ni' \<and> (flags nld AND NMBM_F_READ_ONLY = 0 \<longrightarrow> attached ni')))"
  proof (rule ok_bind2, goal_cases)
    case (1 r ni')
    then have "lower ni' = nld'" using static_fields [OF safe_static] f i(2) by (auto simp: ni1)
    moreover have "read_only ni2 = (flags nld AND NMBM_F_READ_ONLY \<noteq> 0)"
      using f i(2) chk(2) by (simp add: ni1 read_only_def has_flag_def)
    ultimately show ?case using 1 by (auto simp: ENODEV_def)
  qed
  then show ?thesis
    using assms(1,4,6,7) chk(2) by (simp add: nmbm_attach_def Let_def)
qed

text \<open>C2: Attaching a lower device that passes nmbm_check_lower_members, has sizes that are powers of
  two within the bounds of \<^verbatim>\<open>geometry\<close>, at least 16 blocks, and carries no signature, with the flag that asks for creation, returns 0 or -ENODEV; when it returns 0,
  the instance satisfies the invariant of an attached device, or, when the lower device is flagged
  read-only, the part of it that reading needs.\<close>

theorem attach_new_chip:
  assumes "nmbm_check_lower_members nld = (True, nld')" and "geometry nld p b c" and "4 \<le> c"
    and "flags nld AND NMBM_F_CREATE \<noteq> 0" and "length (sig_padding (signature ni)) = 7"
    and "nmbm_init_structure (ni\<lparr>log_display_level := NMBM_DEFAULT_LOG_LEVEL, lower := nld'\<rparr>) = Some ni1"
    and "nmbm_find_signature crc ni1 = Some (None, ni2)"
  shows "ok (nmbm_attach crc nld ni) (\<lambda>(ret, ni'). (ret = 0 \<or> ret = - ENODEV) \<and>
    (ret = 0 \<longrightarrow> lower ni' = nld' \<and> readable ni' \<and> (flags nld AND NMBM_F_READ_ONLY = 0 \<longrightarrow> attached ni')))"
  using assms by (rule attach_new_ok)

lemma geometry_demo: "geometry (sim_lower f) 6 7 5"
  by (simp add: geometry_def sim_lower_def)

lemma lower_demo: "lower (demo_ni f) = sim_lower f"
  by (simp add: demo_ni_def)

theorem calc_structure_size_spec_witness:
  "\<exists>sz ni'. nmbm_calc_structure_size 400 (lower (demo_ni 0)) = Some sz \<and> nmbm_init_structure (demo_ni 0) = Some ni' \<and>
    unat sz = unat (400 :: u64) + length (info_table_cache ni') + 4 * length (block_state ni') +
      4 * length (block_mapping ni') + length (page_cache ni')"
  by (rule calc_structure_size_spec [of _ 6 7 5]) (simp_all add: demo_ni_def geometry_demo)

theorem find_signature_total_witness:
  "ok (nmbm_find_signature demo_crc (demo_ni 0)) (\<lambda>(r, ni'). io {} (demo_ni 0) ni' \<and>
    (\<forall>s sba. r = Some (s, sba) \<longrightarrow> find_limit (lower (demo_ni 0)) (2 ^ 5) - 1 \<le> sba \<and> sba < 2 ^ 5))"
  by (rule find_signature_total [OF wf_demo, of 0 6])
    (simp_all add: geometry_demo [of 0] lower_demo, simp_all add: sim_lower_def)

text \<open>A chip of eight blocks, with the limit of reserved blocks that probe sets when none is given.\<close>

theorem find_signature_small_chip_witness:
  "nmbm_find_signature demo_crc ((demo_ni 0)\<lparr>lower := (sim_lower 0)\<lparr>chip_size := 1024, max_reserved_blocks := 256\<rparr>\<rparr>)
    \<noteq> Some (None, demo_ni 0)"
  by (rule find_signature_small_chip [of "(sim_lower 0)\<lparr>chip_size := 1024, max_reserved_blocks := 256\<rparr>"])
    (simp_all add: nmbm_check_lower_members_def Let_def demo_ni_def sim_lower_def is_power_of_2_def
      is_power_of_2_u64_def NMBM_MGMT_DIV_def NMBM_MGMT_BLOCKS_MIN_def NMBM_F_READ_ONLY_def word_le_nat_alt)

declare find_loop.simps [code]

text \<open>A new chip of 16 blocks, of which two can hold the signature.\<close>

definition new_lower :: "unit nmbm_lower_device" where
  "new_lower = \<lparr>max_ratio = 1, max_reserved_blocks = 0, flags = NMBM_F_CREATE, chip_size = 2048,
     erasesize = 128, writesize = 64, oobsize = 4, oobavail = 4, reset_chip = None,
     read_page = Some (\<lambda>addr dat oob mode c. (0, replicate 64 0xff, replicate 4 0xff, c)),
     write_page = Some (\<lambda>addr dat oob mode c. (0, c)), panic_write_page = None,
     erase_block = Some (\<lambda>addr c. (0, c)), is_bad_block = None, mark_bad_block = None\<rparr>"

definition new_ni :: "unit nmbm_instance" where
  "new_ni = zero_ni new_lower ()"

lemma no_signature_new:
  "map_option fst (Option.bind (nmbm_init_structure (new_ni\<lparr>log_display_level := NMBM_DEFAULT_LOG_LEVEL, lower := new_lower\<rparr>))
     (nmbm_find_signature demo_crc)) = Some None"
  by code_simp

theorem attach_new_chip_witness:
  "ok (nmbm_attach demo_crc new_lower new_ni) (\<lambda>(ret, ni'). (ret = 0 \<or> ret = - ENODEV) \<and>
    (ret = 0 \<longrightarrow> lower ni' = new_lower \<and> readable ni' \<and> (flags new_lower AND NMBM_F_READ_ONLY = 0 \<longrightarrow> attached ni')))"
proof -
  obtain ni1 ni2 where "nmbm_init_structure (new_ni\<lparr>log_display_level := NMBM_DEFAULT_LOG_LEVEL, lower := new_lower\<rparr>) = Some ni1"
    and "nmbm_find_signature demo_crc ni1 = Some (None, ni2)"
    using no_signature_new by (auto simp: map_option_eq_Some bind_eq_Some_conv)
  moreover have "nmbm_check_lower_members new_lower = (True, new_lower)"
    by (simp add: nmbm_check_lower_members_def Let_def new_lower_def is_power_of_2_def is_power_of_2_u64_def
        NMBM_MGMT_DIV_def word_le_nat_alt)
  moreover have "geometry new_lower 6 7 4" "flags new_lower AND NMBM_F_CREATE \<noteq> 0"
    "length (sig_padding (signature new_ni)) = 7"
    by (simp_all add: geometry_def new_lower_def NMBM_F_CREATE_def new_ni_def zero_ni_def)
  ultimately show ?thesis by (intro attach_new_chip [of _ _ 6 7 4]) simp_all
qed

lemma build_nld_fields:
  "erasesize (build_nld oobav dt lm) = lm_erasesize lm" "writesize (build_nld oobav dt lm) = lm_writesize lm"
  "oobsize (build_nld oobav dt lm) = lm_oobsize lm" "flags (build_nld oobav dt lm) AND NMBM_F_READ_ONLY = 0"
  "flags (build_nld oobav dt lm) AND NMBM_F_CREATE \<noteq> 0 \<longleftrightarrow> dt_forced_create dt"
  by (simp_all add: build_nld_def NMBM_F_READ_ONLY_def NMBM_F_CREATE_def NMBM_F_EMPTY_PAGE_ECC_OK_def)

lemma nmbm_detach_ok: "attached ni \<Longrightarrow> ok (nmbm_detach crc ni) (\<lambda>_. True)"
  unfolding nmbm_detach_def attached_def
  by (auto intro!: ok_bind2 [OF nmbm_update_info_table_ok])

text \<open>C5: Probing a lower MTD device that the device tree names, with sizes that are powers of two within
  the bounds of \<^verbatim>\<open>geometry\<close> and at least 16 blocks, whose members pass nmbm_check_lower_members and which
  carries no signature, with forced creation set in the device tree, returns, whatever the
  allocator and the registration answer, provided that the column mask is below the page size and
  mtd_oobavail gives at most the spare size. Either nothing is registered, and the answer is -ENOMEM
  after a failed allocation, the error of a failed registration, or -ENODEV; or the answer is 0 and
  the upper device satisfies the invariant of the MTD layer, with the size of its data blocks.\<close>

theorem probe_new_chip:
  assumes "find_lower dt = Some (Inr lm)" and "nmbm_check_lower_members (build_nld oobav dt lm) = (True, nld')"
    and "geometry (build_nld oobav dt lm) p b c" and "4 \<le> c" and "dt_forced_create dt"
    and "nmbm_init_structure ((zero_ni (build_nld oobav dt lm) \<lparr>nm_dev = c0, upper_corrected = 0, upper_failed = 0\<rparr>)
        \<lparr>log_display_level := NMBM_DEFAULT_LOG_LEVEL, lower := nld'\<rparr>) = Some ni1"
    and "nmbm_find_signature crc ni1 = Some (None, ni2)"
    and "unat (lm_writesize_mask lm) < unat (lm_writesize lm)"
    and "\<forall>m. oobav (lm_oobsize lm) (lm_oobavail lm) m \<le> lm_oobsize lm"
  shows "ok (nmbm_probe crc oobav sizeof_ni dt alloc_ok reg_ret devs node c0) (\<lambda>(ret, r, devs').
    (ret = - ENODEV \<or> (ret = - ENOMEM \<and> \<not> alloc_ok) \<or> (ret = reg_ret \<and> reg_ret \<noteq> 0)) \<and> r = None \<and> devs' = devs \<or>
    ret = 0 \<and> alloc_ok \<and> reg_ret = 0 \<and> devs' = devs @ [node] \<and>
      (\<exists>nm. r = Some nm \<and> mtd_good oobav nm \<and> nm_lower nm = lm \<and>
        upper_size nm = ucast (data_block_count (nm_ni nm)) * ucast (lm_erasesize lm)))"
proof -
  define nld where e: "nld = build_nld oobav dt lm"
  define chip0 where ch: "chip0 = \<lparr>nm_dev = c0, upper_corrected = 0, upper_failed = (0 :: u32)\<rparr>"
  note as = assms [folded e ch]
  have "erasesize nld \<noteq> 0" using as(3) by (auto simp: geometry_def)
  then obtain sz where sz: "nmbm_calc_structure_size sizeof_ni nld = Some sz"
    by (auto simp: nmbm_calc_structure_size_def nmbm_lldiv_def Let_def)
  have "ok (nmbm_attach crc nld (zero_ni nld chip0)) (\<lambda>(ret, ni). (ret = 0 \<or> ret = - ENODEV) \<and>
      (ret = 0 \<longrightarrow> lower ni = nld' \<and> readable ni \<and> (flags nld AND NMBM_F_READ_ONLY = 0 \<longrightarrow> attached ni)))"
    by (rule attach_new_ok [OF as(2-4) _ _ as(6,7)])
      (use as(5) in \<open>simp_all add: e build_nld_fields zero_ni_def\<close>)
  then obtain ret ni where a: "nmbm_attach crc nld (zero_ni nld chip0) = Some (ret, ni)"
    and r: "ret = 0 \<or> ret = - ENODEV" "ret = 0 \<longrightarrow> attached ni"
    by (auto simp: ok_def e build_nld_fields)
  have good: "mtd_good oobav \<lparr>upper_size = s, nm_lower = lm, nm_ni = ni,
      nm_page_cache = replicate (unat (lm_writesize lm) + unat (lm_oobsize lm)) 0, fl_state = FL_READY\<rparr>"
    if "attached ni" for s
    using that as(8,9) by (simp add: mtd_good_def cached_def)
  note p = nmbm_probe_def as(1) e [symmetric] ch [symmetric] sz a Let_def ENODEV_def
  show ?thesis
  proof (cases "alloc_ok \<and> ret = 0 \<and> reg_ret \<noteq> 0")
    case True
    then obtain x where "nmbm_detach crc ni = Some x" using nmbm_detach_ok [of ni crc] r(2) by (auto simp: ok_def)
    then show ?thesis using True by (auto simp: p split: prod.split)
  qed (use r good in \<open>auto simp: p\<close>)
qed

section \<open>A device over an erased chip\<close>

definition new_lm :: "unit lower_mtd" where
  "new_lm = demo_lm\<lparr>lm_size := 2048, lm_read_oob := \<lambda>addr ops c.
     (0, ops\<lparr>ops_datbuf := Some (replicate 64 0xff), ops_oobbuf := Some (replicate 4 0xff)\<rparr>, c)\<rparr>"

definition new_dt :: "unit nmbm_dt" where
  "new_dt = \<lparr>dt_phandle = None, dt_name = Some (Some new_lm), dt_max_ratio = None,
     dt_max_reserved_blocks = Some 0, dt_forced_create = True, dt_empty_page_ecc = False\<rparr>"

lemma no_signature_upper:
  "map_option fst (Option.bind (nmbm_init_structure ((zero_ni (build_nld demo_oobav new_dt new_lm)
        \<lparr>nm_dev = (), upper_corrected = 0, upper_failed = 0\<rparr>)
      \<lparr>log_display_level := NMBM_DEFAULT_LOG_LEVEL, lower := build_nld demo_oobav new_dt new_lm\<rparr>))
     (nmbm_find_signature demo_crc)) = Some None"
  by code_simp

theorem probe_new_chip_witness:
  "ok (nmbm_probe demo_crc demo_oobav 400 new_dt True 0 [] 7 ()) (\<lambda>(ret, r, devs').
    (ret = - ENODEV \<or> (ret = - ENOMEM \<and> \<not> True) \<or> (ret = 0 \<and> (0 :: int) \<noteq> 0)) \<and> r = None \<and> devs' = [] \<or>
    ret = 0 \<and> True \<and> (0 :: int) = 0 \<and> devs' = [] @ [7] \<and>
      (\<exists>nm. r = Some nm \<and> mtd_good demo_oobav nm \<and> nm_lower nm = new_lm \<and>
        upper_size nm = ucast (data_block_count (nm_ni nm)) * ucast (lm_erasesize new_lm)))"
proof -
  let ?L = "build_nld demo_oobav new_dt new_lm"
  obtain ni1 ni2 where "nmbm_init_structure ((zero_ni ?L \<lparr>nm_dev = (), upper_corrected = 0, upper_failed = 0\<rparr>)
      \<lparr>log_display_level := NMBM_DEFAULT_LOG_LEVEL, lower := ?L\<rparr>) = Some ni1"
    and "nmbm_find_signature demo_crc ni1 = Some (None, ni2)"
    using no_signature_upper by (auto simp: map_option_eq_Some bind_eq_Some_conv)
  moreover have "nmbm_check_lower_members ?L = (True, ?L)"
    by (simp add: nmbm_check_lower_members_def Let_def build_nld_def new_lm_def demo_lm_def new_dt_def is_power_of_2_def
        is_power_of_2_u64_def NMBM_MGMT_DIV_def word_le_nat_alt NMBM_MAX_RATIO_DEFAULT_def)
  moreover have "geometry ?L 6 7 4" "find_lower new_dt = Some (Inr new_lm)" "dt_forced_create new_dt"
    by (simp_all add: geometry_def build_nld_def new_lm_def demo_lm_def new_dt_def find_lower_def)
  ultimately show ?thesis
    by (intro probe_new_chip [of _ _ _ _ 6 7 4]) (simp_all add: new_lm_def demo_lm_def demo_oobav_def)
qed

end
