(* ===== verification/Nmbm_Flash.thy ===== *)
theory Nmbm_Flash
  imports Nmbm_Start
begin

text \<open>
  What the flash holds. On a chip that works as a memory of pages, the management data that the
  write procedures report as written is on the chip, the procedures that attach a used chip find
  it there, and nothing but writes, erasures and marks of the block in question disturbs it.
\<close>

section \<open>A chip as a memory\<close>

text \<open>
  \<open>peek c a\<close> is the content of the page at address \<open>a\<close> and \<open>marked c b\<close> says that block \<open>b\<close> carries
  a bad-block mark, in the chip state \<open>c\<close>. \<open>untouched\<close>: outside the blocks in \<open>A\<close> nothing changes.
\<close>

definition untouched ::
    "('d \<Rightarrow> u64 \<Rightarrow> bytes) \<Rightarrow> ('d \<Rightarrow> nat \<Rightarrow> bool) \<Rightarrow> nat \<Rightarrow> nat set \<Rightarrow> 'd \<Rightarrow> 'd \<Rightarrow> bool" where
  "untouched peek marked sh A c c' \<longleftrightarrow>
     (\<forall>x. unat (drop_bit sh x) \<notin> A \<longrightarrow> peek c' x = peek c x) \<and>
     (\<forall>b. b \<notin> A \<longrightarrow> marked c' b = marked c b)"

text \<open>
  The laws of the chip, for the states \<open>good\<close> of it: queries and resets change nothing; writes,
  erasures and marks change at most their block, also when they fail; a write without spare bytes
  changes only its page and no mark, and stores the page when it reports success; a read in the
  ordinary mode that reports success delivers the page; the bad-block query reports the marks; an
  erasure keeps them.
\<close>

definition reset_law where
  "reset_law L good peek marked \<longleftrightarrow> (\<forall>f c. reset_chip L = Some f \<and> good c \<longrightarrow>
     good (f c) \<and> peek (f c) = peek c \<and> marked (f c) = marked c)"

definition read_law where
  "read_law L good peek marked \<longleftrightarrow>
     (\<forall>f a d b m c r d' b' c'. read_page L = Some f \<and> f a d b m c = (r, d', b', c') \<and> good c \<longrightarrow>
        good c' \<and> peek c' = peek c \<and> marked c' = marked c \<and>
        (d \<noteq> None \<and> b = None \<and> m = NMBM_MODE_PLACE_OOB \<and> 0 \<le> r \<longrightarrow> d' = peek c a))"

definition write_law where
  "write_law L sh good peek marked \<longleftrightarrow>
     (\<forall>f a d b m c r c'. write_page L = Some f \<and> f a d b m c = (r, c') \<and> good c \<longrightarrow>
        good c' \<and> untouched peek marked sh {unat (drop_bit sh a)} c c')"

definition write_page_law where
  "write_page_law L good peek marked \<longleftrightarrow>
     (\<forall>f a d c r c'. write_page L = Some f \<and> f a (Some d) None NMBM_MODE_PLACE_OOB c = (r, c') \<and> good c \<and>
        length d = unat (writesize L) \<and> unat (writesize L) dvd unat a \<longrightarrow>
        marked c' = marked c \<and>
        (\<forall>x. unat (writesize L) dvd unat x \<and> x \<noteq> a \<longrightarrow> peek c' x = peek c x) \<and>
        (r = 0 \<longrightarrow> peek c' a = d))"

definition panic_law where
  "panic_law L sh good peek marked \<longleftrightarrow>
     (\<forall>f a d c r c'. panic_write_page L = Some f \<and> f a d c = (r, c') \<and> good c \<longrightarrow>
        good c' \<and> untouched peek marked sh {unat (drop_bit sh a)} c c')"

definition erase_law where
  "erase_law L sh good peek marked \<longleftrightarrow>
     (\<forall>f a c r c'. erase_block L = Some f \<and> f a c = (r, c') \<and> good c \<longrightarrow>
        good c' \<and> untouched peek marked sh {unat (drop_bit sh a)} c c' \<and> marked c' = marked c)"

definition query_law where
  "query_law L sh good peek marked \<longleftrightarrow>
     (\<exists>f. is_bad_block L = Some f \<and> (\<forall>a c r c'. f a c = (r, c') \<and> good c \<longrightarrow>
        good c' \<and> peek c' = peek c \<and> marked c' = marked c \<and> (r \<noteq> 0 \<longleftrightarrow> marked c (unat (drop_bit sh a)))))"

definition mark_law where
  "mark_law L sh good peek marked \<longleftrightarrow>
     (\<exists>f. mark_bad_block L = Some f \<and> (\<forall>a c r c'. f a c = (r, c') \<and> good c \<longrightarrow>
        good c' \<and> untouched peek marked sh {unat (drop_bit sh a)} c c' \<and> marked c' (unat (drop_bit sh a))))"

definition memory ::
    "'d nmbm_lower_device \<Rightarrow> nat \<Rightarrow> ('d \<Rightarrow> bool) \<Rightarrow> ('d \<Rightarrow> u64 \<Rightarrow> bytes) \<Rightarrow> ('d \<Rightarrow> nat \<Rightarrow> bool) \<Rightarrow> bool" where
  "memory L sh good peek marked \<longleftrightarrow>
     (\<forall>c a. good c \<longrightarrow> length (peek c a) = unat (writesize L)) \<and>
     reset_law L good peek marked \<and> read_law L good peek marked \<and>
     write_law L sh good peek marked \<and> write_page_law L good peek marked \<and>
     panic_law L sh good peek marked \<and> erase_law L sh good peek marked \<and>
     query_law L sh good peek marked \<and> mark_law L sh good peek marked"

text \<open>A chip whose blocks without a mark can be read.\<close>

definition reads_ok :: "'d nmbm_lower_device \<Rightarrow> nat \<Rightarrow> ('d \<Rightarrow> bool) \<Rightarrow> ('d \<Rightarrow> nat \<Rightarrow> bool) \<Rightarrow> bool" where
  "reads_ok L sh good marked \<longleftrightarrow>
     (\<forall>f a d b m c r d' b' c'. read_page L = Some f \<and> f a d b m c = (r, d', b', c') \<and> good c \<and>
        \<not> marked c (unat (drop_bit sh a)) \<longrightarrow> 0 \<le> r)"

lemma untouched_refl [simp]: "untouched peek marked sh A c c"
  by (simp add: untouched_def)

lemma untouched_trans:
  "untouched peek marked sh A a b \<Longrightarrow> untouched peek marked sh A b c \<Longrightarrow> untouched peek marked sh A a c"
  by (simp add: untouched_def)

lemma untouched_mono:
  "untouched peek marked sh A a b \<Longrightarrow> A \<subseteq> B \<Longrightarrow> untouched peek marked sh B a b"
  by (auto simp: untouched_def)

lemma untouched_empty [simp]:
  "untouched peek marked sh {} c c' \<longleftrightarrow> peek c' = peek c \<and> marked c' = marked c"
  by (auto simp: untouched_def)

lemma mem_length: "memory L sh good peek marked \<Longrightarrow> good c \<Longrightarrow> length (peek c a) = unat (writesize L)"
  by (simp add: memory_def)

lemma mem_reset:
  assumes "memory L sh good peek marked" and "reset_chip L = Some f" and "good c"
  shows "good (f c)" "peek (f c) = peek c" "marked (f c) = marked c"
  proof -
  have l: "reset_law L good peek marked" using assms(1) by (simp add: memory_def)
  show "good (f c)" using l [unfolded reset_law_def] assms(2-) by blast
  show "peek (f c) = peek c" using l [unfolded reset_law_def] assms(2-) by blast
  show "marked (f c) = marked c" using l [unfolded reset_law_def] assms(2-) by blast
qed

lemma mem_read:
  assumes "memory L sh good peek marked" and "read_page L = Some f" and "f a d b m c = (r, d', b', c')" and "good c"
  shows "good c'" "peek c' = peek c" "marked c' = marked c"
    "d \<noteq> None \<Longrightarrow> b = None \<Longrightarrow> m = NMBM_MODE_PLACE_OOB \<Longrightarrow> 0 \<le> r \<Longrightarrow> d' = peek c a"
  proof -
  have l: "read_law L good peek marked" using assms(1) by (simp add: memory_def)
  show "good c'" using l [unfolded read_law_def] assms(2-) by blast
  show "peek c' = peek c" using l [unfolded read_law_def] assms(2-) by blast
  show "marked c' = marked c" using l [unfolded read_law_def] assms(2-) by blast
  show "d \<noteq> None \<Longrightarrow> b = None \<Longrightarrow> m = NMBM_MODE_PLACE_OOB \<Longrightarrow> 0 \<le> r \<Longrightarrow> d' = peek c a" using l [unfolded read_law_def] assms(2-) by blast
qed

lemma mem_write:
  assumes "memory L sh good peek marked" and "write_page L = Some f" and "f a d b m c = (r, c')" and "good c"
  shows "good c'" "untouched peek marked sh {unat (drop_bit sh a)} c c'"
  proof -
  have l: "write_law L sh good peek marked" using assms(1) by (simp add: memory_def)
  show "good c'" using l [unfolded write_law_def] assms(2-) by blast
  show "untouched peek marked sh {unat (drop_bit sh a)} c c'" using l [unfolded write_law_def] assms(2-) by blast
qed

lemma mem_write_page:
  assumes "memory L sh good peek marked" and "write_page L = Some f"
    and "f a (Some d) None NMBM_MODE_PLACE_OOB c = (r, c')" and "good c"
    and "length d = unat (writesize L)" and "unat (writesize L) dvd unat a"
  shows "good c'" "marked c' = marked c" "r = 0 \<Longrightarrow> peek c' a = d"
    "unat (writesize L) dvd unat x \<Longrightarrow> x \<noteq> a \<Longrightarrow> peek c' x = peek c x"
  proof -
  have "write_page_law L good peek marked" "write_law L sh good peek marked"
    using assms(1) by (simp_all add: memory_def)
  note l = this [unfolded write_page_law_def write_law_def]
  show "good c'" using l(2) assms(2-4) by blast
  show "marked c' = marked c" using l(1) assms(2-6) by blast
  show "r = 0 \<Longrightarrow> peek c' a = d" using l(1) assms(2-6) by blast
  show "unat (writesize L) dvd unat x \<Longrightarrow> x \<noteq> a \<Longrightarrow> peek c' x = peek c x"
    using l(1) assms(2-6) by blast
qed

lemma mem_panic:
  assumes "memory L sh good peek marked" and "panic_write_page L = Some f" and "f a pd c = (r, c')" and "good c"
  shows "good c'" "untouched peek marked sh {unat (drop_bit sh a)} c c'"
  proof -
  have l: "panic_law L sh good peek marked" using assms(1) by (simp add: memory_def)
  show "good c'" using l [unfolded panic_law_def] assms(2-) by blast
  show "untouched peek marked sh {unat (drop_bit sh a)} c c'" using l [unfolded panic_law_def] assms(2-) by blast
qed

lemma mem_erase:
  assumes "memory L sh good peek marked" and "erase_block L = Some f" and "f a c = (r, c')" and "good c"
  shows "good c'" "untouched peek marked sh {unat (drop_bit sh a)} c c'" "marked c' = marked c"
  proof -
  have l: "erase_law L sh good peek marked" using assms(1) by (simp add: memory_def)
  show "good c'" using l [unfolded erase_law_def] assms(2-) by blast
  show "untouched peek marked sh {unat (drop_bit sh a)} c c'" using l [unfolded erase_law_def] assms(2-) by blast
  show "marked c' = marked c" using l [unfolded erase_law_def] assms(2-) by blast
qed

lemma mem_query:
  assumes "memory L sh good peek marked" and "is_bad_block L = Some f" and "f a c = (r, c')" and "good c"
  shows "good c'" "peek c' = peek c" "marked c' = marked c" "r \<noteq> 0 \<longleftrightarrow> marked c (unat (drop_bit sh a))"
proof -
  have "query_law L sh good peek marked" using assms(1) by (simp add: memory_def)
  then have "\<forall>a c r c'. f a c = (r, c') \<and> good c \<longrightarrow>
        good c' \<and> peek c' = peek c \<and> marked c' = marked c \<and> (r \<noteq> 0 \<longleftrightarrow> marked c (unat (drop_bit sh a)))"
    using assms(2) by (auto simp: query_law_def)
  then show "good c'" "peek c' = peek c" "marked c' = marked c" "r \<noteq> 0 \<longleftrightarrow> marked c (unat (drop_bit sh a))"
    using assms(3,4) by blast+
qed

lemma mem_mark:
  assumes "memory L sh good peek marked" and "mark_bad_block L = Some f" and "f a c = (r, c')" and "good c"
  shows "good c'" "untouched peek marked sh {unat (drop_bit sh a)} c c'" "marked c' (unat (drop_bit sh a))"
proof -
  have "mark_law L sh good peek marked" using assms(1) by (simp add: memory_def)
  then have "\<forall>a c r c'. f a c = (r, c') \<and> good c \<longrightarrow>
        good c' \<and> untouched peek marked sh {unat (drop_bit sh a)} c c' \<and> marked c' (unat (drop_bit sh a))"
    using assms(2) by (auto simp: mark_law_def)
  then show "good c'" "untouched peek marked sh {unat (drop_bit sh a)} c c'" "marked c' (unat (drop_bit sh a))"
    using assms(3,4) by blast+
qed

lemma mem_queries:
  assumes "memory L sh good peek marked"
  obtains f g where "is_bad_block L = Some f" and "mark_bad_block L = Some g"
  using assms by (auto simp: memory_def query_law_def mark_law_def)

text \<open>Whatever a run does, it leaves the blocks alone that it may not touch.\<close>

lemma dev_reach_untouched:
  assumes "dev_reach L sh A c c'" and "memory L sh good peek marked" and "good c"
  shows "good c' \<and> untouched peek marked sh A c c'"
  using assms(1,3)
proof (induction rule: dev_reach.induct)
  case dev_refl
  then show ?case by simp
next
  case (dev_reset c1 f)
  then show ?case using mem_reset [OF assms(2) dev_reset(2)] by (simp add: untouched_def)
next
  case (dev_read c1 f addr dat oob m r dat' oob' c2)
  then show ?case using mem_read(1-3) [OF assms(2) dev_read(2,3)] by (simp add: untouched_def)
next
  case (dev_query c1 f addr r c2)
  then show ?case using mem_query(1-3) [OF assms(2) dev_query(2,3)] by (simp add: untouched_def)
next
  case (dev_write c1 f addr dat oob m r c2)
  then show ?case using mem_write [OF assms(2) dev_write(2,3)]
    by (meson empty_subsetI insert_subset untouched_mono untouched_trans)
next
  case (dev_panic c1 f addr pdat r c2)
  then show ?case using mem_panic [OF assms(2) dev_panic(2,3)]
    by (meson empty_subsetI insert_subset untouched_mono untouched_trans)
next
  case (dev_erase c1 f addr r c2)
  then show ?case using mem_erase(1,2) [OF assms(2) dev_erase(2,3)]
    by (meson empty_subsetI insert_subset untouched_mono untouched_trans)
next
  case (dev_mark c1 f addr r c2)
  then show ?case using mem_mark(1,2) [OF assms(2) dev_mark(2,3)]
    by (meson empty_subsetI insert_subset untouched_mono untouched_trans)
qed

lemma io_untouched:
  assumes "io A ni ni'" and "memory (lower ni) (es_sh ni) good peek marked" and "good (chip ni)"
  shows "good (chip ni')" "untouched peek marked (es_sh ni) A (chip ni) (chip ni')"
  using assms dev_reach_untouched by (fastforce simp: io_def)+

section \<open>Single accesses\<close>

lemma mem_reset_chip:
  assumes "memory (lower ni) sh good peek marked" and "good (chip ni)"
  shows "\<exists>c. nmbm_reset_chip ni = ni\<lparr>chip := c\<rparr> \<and> good c \<and> peek c = peek (chip ni) \<and> marked c = marked (chip ni)"
proof (cases "reset_chip (lower ni)")
  case None
  then have "nmbm_reset_chip ni = ni\<lparr>chip := chip ni\<rparr>" by (simp add: nmbm_reset_chip_def)
  then show ?thesis using assms(2) by blast
next
  case (Some f)
  then have "nmbm_reset_chip ni = ni\<lparr>chip := f (chip ni)\<rparr>" by (simp add: nmbm_reset_chip_def)
  then show ?thesis using mem_reset [OF assms(1) Some assms(2)] by blast
qed


text \<open>A retried page write changes only its page, and stores it when it succeeds.\<close>

lemma mem_op_tries:
  assumes "memory L sh good peek marked" and "write_page L = Some f"
    and "length d = unat (writesize L)" and "unat (writesize L) dvd unat a"
    and "lower ni = L" and "good (chip ni)"
    and "op_tries n (f a (Some d) None NMBM_MODE_PLACE_OOB) ni = (s, ni')"
  shows "good (chip ni') \<and> marked (chip ni') = marked (chip ni) \<and> (s \<longrightarrow> peek (chip ni') a = d) \<and>
    (\<forall>x. unat (writesize L) dvd unat x \<and> x \<noteq> a \<longrightarrow> peek (chip ni') x = peek (chip ni) x) \<and>
    ni' = ni\<lparr>chip := chip ni'\<rparr>"
  using assms(5-7)
proof (induction n arbitrary: ni)
  case (Suc n)
  obtain r c where rc: "f a (Some d) None NMBM_MODE_PLACE_OOB (chip ni) = (r, c)" by fastforce
  note c = mem_write_page [OF assms(1,2) rc Suc.prems(2) assms(3,4)]
  show ?case
  proof (cases "r = 0")
    case True
    then show ?thesis using Suc.prems(3) c rc by (auto simp: Let_def)
  next
    case False
    let ?n = "nmbm_reset_chip (ni\<lparr>chip := c\<rparr>)"
    have m: "memory (lower (ni\<lparr>chip := c\<rparr>)) sh good peek marked" using assms(1) Suc.prems(1) by simp
    obtain c2 where c2: "?n = (ni\<lparr>chip := c\<rparr>)\<lparr>chip := c2\<rparr>" "good c2" "peek c2 = peek c" "marked c2 = marked c"
      using mem_reset_chip [OF m] c(1) by auto
    have "op_tries n (f a (Some d) None NMBM_MODE_PLACE_OOB) ?n = (s, ni')"
      using Suc.prems(3) False rc by (simp add: Let_def)
    then show ?thesis
      using Suc.IH [of ?n] Suc.prems(1) c2 c(2,4) by auto
  qed
qed simp

lemma mem_write_phys_page:
  assumes "memory (lower ni) sh good peek marked" and "good (chip ni)"
    and "length d = unat (writesize (lower ni))" and "unat (writesize (lower ni)) dvd unat a"
    and "nmbm_write_phys_page ni a (Some d) None NMBM_MODE_PLACE_OOB = Some (s, ni')"
  shows "good (chip ni')" "marked (chip ni') = marked (chip ni)" "s \<Longrightarrow> peek (chip ni') a = d"
    "unat (writesize (lower ni)) dvd unat x \<Longrightarrow> x \<noteq> a \<Longrightarrow> peek (chip ni') x = peek (chip ni) x"
    "ni' = ni\<lparr>chip := chip ni'\<rparr>"
proof -
  have "has_flag ni NMBM_F_READ_ONLY \<and> s = False \<and> ni' = ni \<or>
      (\<exists>f. write_page (lower ni) = Some f \<and>
        op_tries NMBM_TRY_COUNT (f a (Some d) None NMBM_MODE_PLACE_OOB) ni = (s, ni'))"
    using assms(5) by (auto simp: nmbm_write_phys_page_def split: if_splits option.splits)
  then have "good (chip ni') \<and> marked (chip ni') = marked (chip ni) \<and> (s \<longrightarrow> peek (chip ni') a = d) \<and>
    (\<forall>x. unat (writesize (lower ni)) dvd unat x \<and> x \<noteq> a \<longrightarrow> peek (chip ni') x = peek (chip ni) x) \<and>
    ni' = ni\<lparr>chip := chip ni'\<rparr>"
    using mem_op_tries [OF assms(1) _ assms(3,4) refl assms(2)] assms(2) by auto
  then show "good (chip ni')" "marked (chip ni') = marked (chip ni)" "s \<Longrightarrow> peek (chip ni') a = d"
    "unat (writesize (lower ni)) dvd unat x \<Longrightarrow> x \<noteq> a \<Longrightarrow> peek (chip ni') x = peek (chip ni) x"
    "ni' = ni\<lparr>chip := chip ni'\<rparr>" by blast+
qed

text \<open>A retried read delivers the page, or an error.\<close>

lemma mem_read_tries:
  assumes "memory L sh good peek marked"
    and "lower ni = L" and "good (chip ni)" and "length buf = unat (writesize L)"
    and "n \<noteq> 0 \<or> ret < 0"
    and "read_tries n ret ni a (Some buf) None NMBM_MODE_PLACE_OOB = Some (r, dat, oob, ni')"
  shows "good (chip ni') \<and> peek (chip ni') = peek (chip ni) \<and> marked (chip ni') = marked (chip ni) \<and>
    (0 \<le> r \<longrightarrow> dat = Some (peek (chip ni) a)) \<and>
    (n \<noteq> 0 \<and> reads_ok L sh good marked \<and> \<not> marked (chip ni) (unat (drop_bit sh a)) \<longrightarrow> 0 \<le> r)"
  using assms(2-6)
proof (induction n arbitrary: ret ni buf)
  case (Suc n)
  obtain f where f: "read_page L = Some f"
    using Suc.prems by (cases "read_page L") (auto simp: lower_read_page_def)
  obtain r1 d b c where rc: "f a (Some buf) None NMBM_MODE_PLACE_OOB (chip ni) = (r1, d, b, c)"
    by (metis prod_cases4)
  note c = mem_read [OF assms(1) f rc Suc.prems(2)]
  have lr: "lower_read_page ni a (Some buf) None NMBM_MODE_PLACE_OOB =
      Some (r1, Some (overlay buf d), None, ni\<lparr>chip := c\<rparr>)"
    by (simp add: lower_read_page_def Suc.prems(1) f rc)
  show ?case
  proof (cases "0 \<le> r1")
    case True
    then have "d = peek (chip ni) a" using c(4) by simp
    then have "overlay buf d = peek (chip ni) a"
      using mem_length [OF assms(1) Suc.prems(2)] Suc.prems(3) by (simp add: overlay_same_length)
    then show ?thesis using Suc.prems(5) lr c(1-3) True by auto
  next
    case False
    let ?n = "nmbm_reset_chip (ni\<lparr>chip := c\<rparr>)"
    have m: "memory (lower (ni\<lparr>chip := c\<rparr>)) sh good peek marked" using assms(1) Suc.prems(1) by simp
    obtain c2 where c2: "?n = (ni\<lparr>chip := c\<rparr>)\<lparr>chip := c2\<rparr>" "good c2" "peek c2 = peek c" "marked c2 = marked c"
      using mem_reset_chip [OF m] c(1) by auto
    have rt: "read_tries n r1 ?n a (Some (overlay buf d)) None NMBM_MODE_PLACE_OOB = Some (r, dat, oob, ni')"
      using Suc.prems(5) False by (simp add: lr)
    have "\<not> (reads_ok L sh good marked \<and> \<not> marked (chip ni) (unat (drop_bit sh a)))"
      using f rc Suc.prems(2) False unfolding reads_ok_def by blast
    then show ?thesis
      using Suc.IH [of ?n "overlay buf d" r1] rt False c2 c(2,3) Suc.prems(1,3) by auto
  qed
qed simp

lemma mem_read_phys_page:
  assumes "wf ni" and "memory (lower ni) (es_sh ni) good peek marked" and "good (chip ni)"
    and "length buf = unat (writesize (lower ni))"
  shows "ok (nmbm_read_phys_page ni a (Some buf) None NMBM_MODE_PLACE_OOB) (\<lambda>(r, dat, oob, ni').
    io {} ni ni' \<and> page_cache ni' = page_cache ni \<and>
    (\<exists>x. dat = Some x \<and> length x = unat (writesize (lower ni)) \<and> (0 \<le> r \<longrightarrow> x = peek (chip ni) a)) \<and>
    (reads_ok (lower ni) (es_sh ni) good marked \<and> \<not> marked (chip ni) (unat (drop_bit (es_sh ni) a)) \<longrightarrow> 0 \<le> r))"
proof -
  obtain r dat oob ni' where e: "nmbm_read_phys_page ni a (Some buf) None NMBM_MODE_PLACE_OOB = Some (r, dat, oob, ni')"
    and io: "io {} ni ni'" "page_cache ni' = page_cache ni" "same_shape dat (Some buf)"
    using nmbm_read_phys_page_ok [OF assms(1), of a "Some buf" None NMBM_MODE_PLACE_OOB] by (auto simp: ok_def)
  have n: "NMBM_TRY_COUNT \<noteq> 0 \<or> (0::int) < 0" by (simp add: NMBM_TRY_COUNT_def)
  note t = mem_read_tries [OF assms(2) refl assms(3,4) n e [unfolded nmbm_read_phys_page_def]]
  show ?thesis unfolding e ok_Some using io t assms(4) by (auto simp: NMBM_TRY_COUNT_def)
qed

text \<open>An access that may write nowhere leaves the view of the chip as it is.\<close>

lemma io_view:
  assumes "io {} ni ni'" and "memory (lower ni) (es_sh ni) good peek marked" and "good (chip ni)"
  shows "good (chip ni')" "peek (chip ni') = peek (chip ni)" "marked (chip ni') = marked (chip ni)"
    "memory (lower ni') (es_sh ni') good peek marked" "lower ni' = lower ni" "es_sh ni' = es_sh ni"
  using io_untouched [OF assms] assms(2) static_fields(1,12) [OF io_static [OF assms(1)]] by simp_all

section \<open>Bytes of the flash\<close>

text \<open>The byte at offset \<open>i\<close> of a chip with the pages \<open>pg\<close>, and a run of bytes from offset \<open>a\<close> on.\<close>

definition flash :: "(u64 \<Rightarrow> bytes) \<Rightarrow> nat \<Rightarrow> nat \<Rightarrow> u8" where
  "flash pg ws i = pg (of_nat (i - i mod ws)) ! (i mod ws)"

definition stored :: "(u64 \<Rightarrow> bytes) \<Rightarrow> nat \<Rightarrow> nat \<Rightarrow> bytes \<Rightarrow> bool" where
  "stored pg ws a d \<longleftrightarrow> (\<forall>i < length d. flash pg ws (a + i) = d ! i)"

lemma stored_append:
  "stored pg ws a (d @ e) \<longleftrightarrow> stored pg ws a d \<and> stored pg ws (a + length d) e"
proof (intro iffI conjI)
  assume l: "stored pg ws a (d @ e)"
  show "stored pg ws a d"
    unfolding stored_def
  proof (intro allI impI)
    fix i assume "i < length d"
    then show "flash pg ws (a + i) = d ! i" using l by (simp add: stored_def nth_append)
  qed
  show "stored pg ws (a + length d) e"
    unfolding stored_def
  proof (intro allI impI)
    fix i assume i: "i < length e"
    have "flash pg ws (a + (length d + i)) = (d @ e) ! (length d + i)"
      using l i unfolding stored_def by (simp del: nth_append_length_plus)
    then show "flash pg ws (a + length d + i) = e ! i" by (simp add: add.assoc)
  qed
next
  assume r: "stored pg ws a d \<and> stored pg ws (a + length d) e"
  show "stored pg ws a (d @ e)"
    unfolding stored_def
  proof (intro allI impI)
    fix i assume i: "i < length (d @ e)"
    show "flash pg ws (a + i) = (d @ e) ! i"
    proof (cases "i < length d")
      case True
      then show ?thesis using r by (simp add: stored_def nth_append)
    next
      case False
      then obtain j where j: "i = length d + j" using le_Suc_ex not_less by blast
      then have "flash pg ws (a + length d + j) = e ! j" using r i by (simp add: stored_def)
      then show ?thesis by (simp add: j add.assoc)
    qed
  qed
qed

lemma stored_unique:
  assumes "stored pg ws a d" and "stored pg ws a e" and "length d = length e"
  shows "d = e"
  using assms by (auto simp: stored_def intro!: nth_equalityI)


text \<open>A piece of a page in the byte view.\<close>

lemma stored_page:
  assumes "off mod ws + n \<le> ws" and "p = of_nat (off - off mod ws)"
    and "length d = n" and "length (pg p) = ws"
  shows "stored pg ws off d \<longleftrightarrow> take (length d) (drop (off mod ws) (pg p)) = d"
proof -
  have f: "flash pg ws (off + i) = pg p ! (off mod ws + i)" if "i < n" for i
  proof -
    have "(off + i) mod ws = off mod ws + i"
      using that assms(1) by (metis mod_add_left_eq mod_less add_less_le_mono less_le_trans nat_add_left_cancel_less)
    then show ?thesis by (simp add: flash_def assms(2))
  qed
  show ?thesis
  proof
    assume "stored pg ws off d"
    then show "take (length d) (drop (off mod ws) (pg p)) = d"
      using f assms by (auto simp: stored_def intro!: nth_equalityI)
  next
    assume t: "take (length d) (drop (off mod ws) (pg p)) = d"
    have "pg p ! (off mod ws + i) = d ! i" if i: "i < n" for i
    proof -
      have "d ! i = take (length d) (drop (off mod ws) (pg p)) ! i" using t by simp
      also have "\<dots> = pg p ! (off mod ws + i)" using i assms by simp
      finally show ?thesis by simp
    qed
    then show "stored pg ws off d" using f assms(3) by (simp add: stored_def)
  qed
qed

lemma mem_read_data_loop:
  assumes "wf ni" and "memory (lower ni) (es_sh ni) good peek marked" and "good (chip ni)"
    and "unat off + length rest < 2 ^ 64"
  shows "ok (read_data_loop ni off got rest) (\<lambda>(r, buf, ni'). io {} ni ni' \<and>
     (0 \<le> r \<longrightarrow> (\<exists>d. buf = got @ d \<and> length d = length rest \<and>
        stored (peek (chip ni)) (unat (writesize (lower ni))) (unat off) d)) \<and>
     (reads_ok (lower ni) (es_sh ni) good marked \<and>
        (\<forall>i < length rest. \<not> marked (chip ni) ((unat off + i) div 2 ^ es_sh ni)) \<longrightarrow> 0 \<le> r))"
  using assms
proof (induction "length rest" arbitrary: ni off got rest rule: less_induct)
  case less
  note wf = less.prems(1) and m = less.prems(2) and g = less.prems(3)
  show ?case
  proof (cases "rest = []")
    case True
    then show ?thesis by (subst read_data_loop.simps) (simp add: stored_def)
  next
    case False
    define ws where "ws = unat (writesize (lower ni))"
    define l where "l = page_leading ni off"
    define n where "n = page_chunk ni off (length rest)"
    define p where "p = off - ucast l"
    have l: "unat l = unat off mod ws" "unat l < ws"
      using page_leading_lt [OF wf] by (simp_all add: l_def ws_def unat_page_leading [OF wf])
    have n: "n = min (ws - unat l) (length rest)"
      by (simp add: n_def l_def ws_def page_chunk_eq [OF wf])
    have n0: "n \<noteq> 0" "n \<le> length rest" "unat l + n \<le> ws" using n l(2) False by (auto simp: min_def)
    have p: "unat p = unat off - unat off mod ws" "unat (drop_bit (es_sh ni) p) = unat off div 2 ^ es_sh ni"
      using page_start [OF wf, of off] l(1) by (simp_all add: p_def flip: l_def)
    have p': "p = of_nat (unat off - unat off mod ws)" by (simp flip: p(1))
    have off: "unat (off + of_nat n) = unat off + n"
      using less.prems(4) n0(2) by (subst unat_add_fits) (simp_all add: unat_of_nat)
    have lenp: "length (peek (chip ni) p) = ws" by (simp add: mem_length [OF m g] ws_def)
    define Q where "Q = (\<lambda>(r :: int, buf, ni'). io {} ni ni' \<and>
     (0 \<le> r \<longrightarrow> (\<exists>d. buf = got @ d \<and> length d = length rest \<and> stored (peek (chip ni)) ws (unat off) d)) \<and>
     (reads_ok (lower ni) (es_sh ni) good marked \<and>
        (\<forall>i < length rest. \<not> marked (chip ni) ((unat off + i) div 2 ^ es_sh ni)) \<longrightarrow> 0 \<le> r))"
    have rec: "ok (read_data_loop ni3 (off + of_nat n) (got @ d) (drop n rest)) Q"
      if io: "io {} ni ni3" and d: "d = take n (drop (unat l) (peek (chip ni) p))" for ni3 d
    proof -
      note v = io_view [OF io m g]
      have wf3: "wf ni3" using wf io by (simp add: io_wf)
      have ld: "length d = n" using d lenp n0 by simp
      have sd: "stored (peek (chip ni)) ws (unat off) d"
        using stored_page [where off = "unat off" and pg = "peek (chip ni)",
            OF n0(3) [unfolded l(1)] p' ld lenp] ld l(1) d by simp
      have "ok (read_data_loop ni3 (off + of_nat n) (got @ d) (drop n rest)) (\<lambda>(r, buf, ni').
         io {} ni3 ni' \<and>
         (0 \<le> r \<longrightarrow> (\<exists>e. buf = (got @ d) @ e \<and> length e = length (drop n rest) \<and>
           stored (peek (chip ni3)) (unat (writesize (lower ni3))) (unat (off + of_nat n)) e)) \<and>
         (reads_ok (lower ni3) (es_sh ni3) good marked \<and>
           (\<forall>i < length (drop n rest). \<not> marked (chip ni3) ((unat (off + of_nat n) + i) div 2 ^ es_sh ni3)) \<longrightarrow> 0 \<le> r))"
        by (rule less.hyps [OF _ wf3 v(4) v(1)]) (use n0 False off less.prems(4) in simp_all)
      then show ?thesis
        unfolding Q_def
      proof (rule ok_mono3, intro conjI, goal_cases)
        case (1 r buf ni')
        then show ?case using io by (blast intro: io_trans)
      next
        case (2 r buf ni')
        show ?case
        proof
          assume "0 \<le> r"
          then obtain e where e: "buf = (got @ d) @ e" "length e = length (drop n rest)"
              "stored (peek (chip ni)) ws (unat off + n) e"
            using 2 by (auto simp: v(2,5) off ws_def)
          have "stored (peek (chip ni)) ws (unat off) (d @ e)"
            using sd e(3) ld by (simp add: stored_append)
          then show "\<exists>d. buf = got @ d \<and> length d = length rest \<and> stored (peek (chip ni)) ws (unat off) d"
            using e(1,2) ld n0(2) by (intro exI [of _ "d @ e"]) simp
        qed
      next
        case (3 r buf ni')
        have "\<not> marked (chip ni) ((unat off + n + i) div 2 ^ es_sh ni)"
          if "\<forall>i < length rest. \<not> marked (chip ni) ((unat off + i) div 2 ^ es_sh ni)" and "i < length rest - n" for i
          using that(1) [rule_format, of "n + i"] that(2) by (simp add: add.assoc)
        then show ?case using 3 by (simp add: v off)
      qed
    qed
    have bad: "reads_ok (lower ni) (es_sh ni) good marked \<and>
        (\<forall>i < length rest. \<not> marked (chip ni) ((unat off + i) div 2 ^ es_sh ni)) \<Longrightarrow>
        \<not> marked (chip ni) (unat (drop_bit (es_sh ni) p))"
      using p(2) False by (metis add.right_neutral length_greater_0_conv)
    have "ok (read_data_loop ni off got rest) Q"
    proof (cases "n = ws")
      case True
      have l0: "unat l = 0" using True n0(3) l(2) n by simp
      have eq: "read_data_loop ni off got rest = do {
           (ret, buf, _, ni) \<leftarrow> nmbm_read_phys_page ni p (Some (take n rest)) None NMBM_MODE_PLACE_OOB;
           dat \<leftarrow> buf;
           if ret < 0 then Some (ret, got @ dat @ drop n rest, ni)
           else read_data_loop ni (off + of_nat n) (got @ dat) (drop n rest) }"
        using False n0(1) True [unfolded ws_def, symmetric]
        by (subst read_data_loop.simps) (simp add: Let_def p_def flip: l_def n_def)
      show ?thesis unfolding eq
      proof (rule ok_bind4 [OF mem_read_phys_page [OF wf m g]], goal_cases)
        case 1
        then show ?case using True n0(2) by (simp add: ws_def)
      next
        case (2 ret buf oob ni2)
        then obtain x where x: "buf = Some x" "length x = ws" "0 \<le> ret \<longrightarrow> x = peek (chip ni) p" and io: "io {} ni ni2"
          and rr: "reads_ok (lower ni) (es_sh ni) good marked \<and> \<not> marked (chip ni) (unat (drop_bit (es_sh ni) p)) \<longrightarrow> 0 \<le> ret"
          by (auto simp: ws_def)
        show ?case
        proof (cases "ret < 0")
          case neg: True
          then have "\<not> (reads_ok (lower ni) (es_sh ni) good marked \<and>
            (\<forall>i < length rest. \<not> marked (chip ni) ((unat off + i) div 2 ^ es_sh ni)))" using bad rr by auto
          then show ?thesis using x(1) io neg by (auto simp: Q_def)
        next
          case pos: False
          then have "x = take n (drop (unat l) (peek (chip ni) p))" using x True l0 lenp by simp
          then show ?thesis using rec [OF io] x(1) pos by simp
        qed
      qed
    next
      case part: False
      have eq: "read_data_loop ni off got rest = do {
           buf \<leftarrow> page_cache_main ni;
           (ret, buf, _, ni) \<leftarrow> nmbm_read_phys_page ni p (Some buf) None NMBM_MODE_PLACE_OOB;
           ni \<leftarrow> put_page_cache ni 0 buf;
           if ret < 0 then Some (ret, got @ rest, ni)
           else do {
             dat \<leftarrow> slice (page_cache ni) (unat l) n;
             read_data_loop ni (off + of_nat n) (got @ dat) (drop n rest) } }"
        using False n0(1) part
        by (subst read_data_loop.simps) (simp add: Let_def ws_def p_def flip: l_def n_def)
      show ?thesis unfolding eq page_cache_slices_ok [OF wf] Option.bind.bind_lunit
      proof (rule ok_bind4 [OF mem_read_phys_page [OF wf m g]], goal_cases)
        case 1
        then show ?case using wf_page_cache [OF wf] by simp
      next
        case (2 ret buf oob ni2)
        then obtain x where x: "buf = Some x" "length x = ws" "0 \<le> ret \<longrightarrow> x = peek (chip ni) p" and io: "io {} ni ni2"
          and pc: "page_cache ni2 = page_cache ni"
          and rr: "reads_ok (lower ni) (es_sh ni) good marked \<and> \<not> marked (chip ni) (unat (drop_bit (es_sh ni) p)) \<longrightarrow> 0 \<le> ret"
          by (auto simp: ws_def)
        have len: "length x \<le> length (page_cache ni2)" using x(2) pc wf_page_cache [OF wf] by (simp add: ws_def)
        have put: "put_page_cache ni2 0 buf = Some (ni2\<lparr>page_cache := x @ drop ws (page_cache ni2)\<rparr>)"
          using len x(1,2) by (simp add: put_page_cache_def blit_def)
        let ?n3 = "ni2\<lparr>page_cache := x @ drop ws (page_cache ni2)\<rparr>"
        have io3: "io {} ni ?n3" by (rule io_trans [OF io io_cacheI]) (use len x(2) in simp)
        show ?case
        proof (cases "ret < 0")
          case neg: True
          then have "\<not> (reads_ok (lower ni) (es_sh ni) good marked \<and>
            (\<forall>i < length rest. \<not> marked (chip ni) ((unat off + i) div 2 ^ es_sh ni)))" using bad rr by auto
          then show ?thesis using put io3 neg by (auto simp: Q_def)
        next
          case pos: False
          have "slice (page_cache ?n3) (unat l) n = Some (take n (drop (unat l) (peek (chip ni) p)))"
            using pos x n0(3) lenp by (simp add: slice_def)
          then show ?thesis using rec [OF io3] put pos by simp
        qed
      qed
    qed
    then show ?thesis by (simp add: Q_def ws_def)
  qed
qed


text \<open>
  Writing with verification: pages before the first one and all marks stay; after a success the
  data are on the chip, since every page was compared with what was read back.
\<close>

lemma flash_write_frame:
  assumes "unat p = i0" and "ws dvd i0" and "i0 < 2 ^ 64" and "i < i0"
    and "\<And>x. ws dvd unat x \<Longrightarrow> x \<noteq> p \<Longrightarrow> pg' x = pg x"
  shows "flash pg' ws i = flash pg ws i"
proof -
  define j where "j = i - i mod ws"
  have j: "ws dvd j" "j < i0" using assms(4) by (auto simp: j_def dvd_minus_mod)
  then have u: "unat (of_nat j :: u64) = j" using assms(3) by (simp add: unat_of_nat)
  then have "pg' (of_nat j) = pg (of_nat j)" using j assms(1) by (intro assms(5)) auto
  then show ?thesis by (simp only: flash_def flip: j_def)
qed

lemma write_verify_step:
  fixes off :: u64
  assumes "wf ni" and "rest \<noteq> []"
  defines "l \<equiv> page_leading ni off" and "n \<equiv> page_chunk ni off (length rest)"
  shows "\<exists>p. length p = length (page_cache ni) \<and> nmbn_write_verify_data ni off rest = do {
       (success, ni) \<leftarrow> nmbm_write_phys_page (ni\<lparr>page_cache := p\<rparr>) (off - ucast l)
          (Some (take (unat (writesize (lower ni))) p)) None NMBM_MODE_PLACE_OOB;
       if \<not> success then Some (False, ni)
       else do {
         buf \<leftarrow> page_cache_main ni;
         (ret, buf, _, ni) \<leftarrow> nmbm_read_phys_page ni (off - ucast l) (Some buf) None NMBM_MODE_PLACE_OOB;
         ni \<leftarrow> put_page_cache ni 0 buf;
         if ret < 0 then Some (False, ni)
         else do {
           got \<leftarrow> slice (page_cache ni) (unat l) n;
           if got \<noteq> take n rest then Some (False, ni)
           else nmbn_write_verify_data ni (off + of_nat n) (drop n rest) } } }"
proof -
  have n: "n \<noteq> 0" "n \<le> length rest" using assms(1,2) page_leading_lt [OF assms(1), of off]
    by (simp_all add: n_def page_chunk_eq)
  note pc = wf_page_cache [OF assms(1)]
  have ln: "unat l + n \<le> length (page_cache ni)"
    using page_leading_lt [OF assms(1), of off] pc
    by (auto simp: n_def l_def page_chunk_eq [OF assms(1)] min_def)
  define p where "p = take (unat l) (replicate (unat (rawpage_size ni)) 0xff) @ take n rest @
      drop (unat l + n) (replicate (unat (rawpage_size ni)) (0xff :: u8))"
  have b1: "blit (page_cache ni) 0 (replicate (unat (rawpage_size ni)) 0xff) =
      Some (replicate (unat (rawpage_size ni)) 0xff)"
    using pc by (simp add: blit_def)
  have b2: "blit (replicate (unat (rawpage_size ni)) 0xff) (unat l) (take n rest) = Some p"
    using pc ln n by (simp add: blit_def p_def min_absorb2)
  have lp: "length p = length (page_cache ni)" using pc ln n by (simp add: p_def)
  have wf0: "wf (ni\<lparr>page_cache := p\<rparr>)" using assms(1) io_wf [OF io_cacheI [OF lp]] by blast
  show ?thesis
    using n assms(2) lp page_cache_slices_ok(1) [OF wf0]
    by (intro exI [of _ p] conjI)
      (simp_all add: nmbn_write_verify_data.simps [of ni off rest] b1 b2 Let_def flip: l_def n_def)
qed

lemma mem_write_verify:
  assumes "wf ni" and "memory (lower ni) (es_sh ni) good peek marked" and "good (chip ni)"
    and "unat off + length rest < 2 ^ 64"
    and "nmbn_write_verify_data ni off rest = Some (s, ni')"
  shows "good (chip ni') \<and> marked (chip ni') = marked (chip ni) \<and>
     (\<forall>i < unat off - unat off mod unat (writesize (lower ni)).
        flash (peek (chip ni')) (unat (writesize (lower ni))) i = flash (peek (chip ni)) (unat (writesize (lower ni))) i) \<and>
     (s \<longrightarrow> stored (peek (chip ni')) (unat (writesize (lower ni))) (unat off) rest)"
  using assms
proof (induction "length rest" arbitrary: ni off rest rule: less_induct)
  case less
  note wf = less.prems(1) and m = less.prems(2) and g = less.prems(3)
  show ?case
  proof (cases "rest = []")
    case True
    then show ?thesis using less.prems(3,5) by (simp add: nmbn_write_verify_data.simps [of ni off "[]"] stored_def)
  next
    case False
    define ws where "ws = unat (writesize (lower ni))"
    define l where "l = page_leading ni off"
    define n where "n = page_chunk ni off (length rest)"
    define p where "p = off - ucast l"
    have l: "unat l = unat off mod ws" "unat l < ws"
      using page_leading_lt [OF wf] by (simp_all add: l_def ws_def unat_page_leading [OF wf])
    have n: "n = min (ws - unat l) (length rest)"
      by (simp add: n_def l_def ws_def page_chunk_eq [OF wf])
    have n0: "n \<noteq> 0" "n \<le> length rest" "unat l + n \<le> ws" using n l(2) False by (auto simp: min_def)
    have p: "unat p = unat off - unat off mod ws"
      using page_start [OF wf, of off] l(1) by (simp_all add: p_def flip: l_def)
    have dv: "ws dvd unat p" unfolding p by (rule dvd_minus_mod)
    have p': "p = of_nat (unat off - unat off mod ws)" by (simp flip: p)
    have off: "unat (off + of_nat n) = unat off + n"
      using less.prems(4) n0(2) by (subst unat_add_fits) (simp_all add: unat_of_nat)
    obtain q where q: "length q = length (page_cache ni)" and eq: "nmbn_write_verify_data ni off rest = do {
       (success, ni) \<leftarrow> nmbm_write_phys_page (ni\<lparr>page_cache := q\<rparr>) p (Some (take ws q)) None NMBM_MODE_PLACE_OOB;
       if \<not> success then Some (False, ni)
       else do {
         buf \<leftarrow> page_cache_main ni;
         (ret, buf, _, ni) \<leftarrow> nmbm_read_phys_page ni p (Some buf) None NMBM_MODE_PLACE_OOB;
         ni \<leftarrow> put_page_cache ni 0 buf;
         if ret < 0 then Some (False, ni)
         else do {
           got \<leftarrow> slice (page_cache ni) (unat l) n;
           if got \<noteq> take n rest then Some (False, ni)
           else nmbn_write_verify_data ni (off + of_nat n) (drop n rest) } } }"
      using write_verify_step [OF wf False, of off] unfolding l_def n_def p_def ws_def by blast
    let ?n = "ni\<lparr>page_cache := q\<rparr>"
    have pc: "length q = ws + unat (oobsize (lower ni))" using q wf_page_cache [OF wf] by (simp add: ws_def)
    obtain s1 ni1 where w: "nmbm_write_phys_page ?n p (Some (take ws q)) None NMBM_MODE_PLACE_OOB = Some (s1, ni1)"
      using less.prems(5) eq by (auto simp: bind_eq_Some_conv)
    have x: "good (chip ni1)" "marked (chip ni1) = marked (chip ni)" "ni1 = ?n\<lparr>chip := chip ni1\<rparr>"
        "\<And>x. ws dvd unat x \<Longrightarrow> x \<noteq> p \<Longrightarrow> peek (chip ni1) x = peek (chip ni) x"
      using mem_write_phys_page(1,2,4,5) [OF _ _ _ _ w, of "es_sh ni" good peek marked] m g dv pc
      by (simp_all add: ws_def)
    have st1: "static ni1 = static ni" by (subst x(3)) (simp add: static_def q)
    note f1 = static_fields [OF st1]
    have wf1: "wf ni1" using wf by (simp add: wf_static [OF st1])
    have m1: "memory (lower ni1) (es_sh ni1) good peek marked" using m by (simp add: f1)
    have frame: "flash (peek (chip ni1)) ws i = flash (peek (chip ni)) ws i" if "i < unat off - unat off mod ws" for i
      by (rule flash_write_frame [where p = p, OF p]) (use that dv p x(4) less.prems(4) in \<open>simp_all add: less_imp_diff_less\<close>)
    show ?thesis
    proof (cases s1)
      case False
      then have "s = False" "ni' = ni1" using less.prems(5) eq w by auto
      then show ?thesis using x frame by (simp add: ws_def)
    next
      case True
      note pc1 = wf_page_cache [OF wf1] and sl1 = page_cache_slices_ok(1) [OF wf1]
      obtain r buf oob ni2 where r: "nmbm_read_phys_page ni1 p (Some (take ws (page_cache ni1))) None NMBM_MODE_PLACE_OOB =
          Some (r, buf, oob, ni2)" and io: "io {} ni1 ni2" and pc2: "page_cache ni2 = page_cache ni1"
        and b: "\<exists>x. buf = Some x \<and> length x = ws \<and> (0 \<le> r \<longrightarrow> x = peek (chip ni1) p)"
        using mem_read_phys_page [OF wf1 m1 x(1), of "take ws (page_cache ni1)" p] pc1
        by (auto simp: ok_def f1 ws_def)
      note v = io_view [OF io m1 x(1)]
      obtain y where y: "buf = Some y" "length y = ws" "0 \<le> r \<longrightarrow> y = peek (chip ni1) p" using b by blast
      define ni3 where "ni3 = ni2\<lparr>page_cache := y @ drop ws (page_cache ni2)\<rparr>"
      have len: "ws \<le> length (page_cache ni2)" using pc2 pc1 by (simp add: f1 ws_def)
      then have put: "put_page_cache ni2 0 buf = Some ni3"
        using y by (simp add: put_page_cache_def blit_def ni3_def)
      have st3: "static ni3 = static ni"
        using io_static [OF io] st1 len y(2) by (simp add: ni3_def static_def)
      note f3 = static_fields [OF st3]
      have c3: "chip ni3 = chip ni2" by (simp add: ni3_def)
      have rest: "nmbn_write_verify_data ni off rest = (if r < 0 then Some (False, ni3) else do {
           got \<leftarrow> slice (page_cache ni3) (unat l) n;
           if got \<noteq> take n rest then Some (False, ni3)
           else nmbn_write_verify_data ni3 (off + of_nat n) (drop n rest) })"
        unfolding eq w using True sl1 r put by (simp add: f1 ws_def)
      show ?thesis
      proof (cases "s = False \<and> ni' = ni3")
        case True
        then show ?thesis using v x frame c3 by (simp add: ws_def)
      next
        case go: False
        then have r0: "0 \<le> r" and got: "slice (page_cache ni3) (unat l) n = Some (take n rest)"
          and rec: "nmbn_write_verify_data ni3 (off + of_nat n) (drop n rest) = Some (s, ni')"
          using less.prems(5) rest by (auto simp: bind_eq_Some_conv split: if_splits)
        have "page_cache ni3 = peek (chip ni1) p @ drop ws (page_cache ni2)" using y(3) r0 by (simp add: ni3_def)
        then have tk: "take n (drop (unat l) (peek (chip ni1) p)) = take n rest"
          using got n0(3) y(2,3) r0 by (simp add: slice_def split: if_splits)
        have sd: "stored (peek (chip ni1)) ws (unat off) (take n rest)"
          using stored_page [where off = "unat off" and pg = "peek (chip ni1)" and d = "take n rest",
            OF n0(3) [unfolded l(1)] p'] tk l(1) n0(2) y(2,3) r0 by simp
        have IH: "good (chip ni') \<and> marked (chip ni') = marked (chip ni3) \<and>
           (\<forall>i < unat (off + of_nat n) - unat (off + of_nat n) mod ws.
              flash (peek (chip ni')) ws i = flash (peek (chip ni3)) ws i) \<and>
           (s \<longrightarrow> stored (peek (chip ni')) ws (unat (off + of_nat n)) (drop n rest))"
          using less.hyps [OF _ _ _ _ _ rec] n0 m v(1) False less.prems(4) wf
          by (simp add: f3 ws_def off c3 wf_static [OF st3])
        have pk: "peek (chip ni3) = peek (chip ni1)" using v(2) c3 by simp
        have al: "unat off + n - (unat off + n) mod ws = unat off + n" if "n < length rest"
        proof -
          have "n = ws - unat off mod ws" using n that l by (simp add: min_def split: if_splits)
          then have "unat off + n = (unat off - unat off mod ws) + ws" using l by simp
          moreover have "ws dvd (unat off - unat off mod ws) + ws" by (simp only: dvd_add_triv_right_iff dvd_minus_mod)
          ultimately have "ws dvd unat off + n" by (simp only:)
          then show ?thesis by (simp add: dvd_eq_mod_eq_0)
        qed
        have lo: "unat off - unat off mod ws \<le> unat off + n - (unat off + n) mod ws"
          by (simp add: minus_mod_eq_mult_div div_le_mono)
        have sd': "stored (peek (chip ni')) ws (unat off) (take n rest)"
        proof (cases "n < length rest")
          case True
          then show ?thesis using IH sd al pk by (simp add: stored_def off)
        next
          case False
          then have "ni' = ni3" using rec n0(2) by (simp add: nmbn_write_verify_data.simps [of _ _ "[]"])
          then show ?thesis using sd pk by simp
        qed
        have "stored (peek (chip ni')) ws (unat off) rest" if s
          using IH sd' that stored_append [of _ ws "unat off" "take n rest" "drop n rest"] n0(2) by (simp add: off)
        then show ?thesis using IH frame lo pk v(3) c3 x(2) by (simp add: off ws_def)
      qed
    qed
  qed
qed

section \<open>Blocks and bytes\<close>

text \<open>The blocks of a run of bytes; a run outside the blocks a run of the code touched stays.\<close>

lemma stored_untouched:
  assumes "untouched peek marked sh A c c'" and "ws dvd 2 ^ sh" and "a + length d \<le> 2 ^ 64"
    and "\<And>i. i < length d \<Longrightarrow> (a + i) div 2 ^ sh \<notin> A" and "stored (peek c) ws a d"
  shows "stored (peek c') ws a d"
proof -
  have "flash (peek c') ws (a + i) = flash (peek c) ws (a + i)" if i: "i < length d" for i
  proof -
    define j where "j = a + i"
    define k where "k = j - j mod ws"
    obtain q where q: "2 ^ sh = ws * q" using assms(2) by (auto simp: dvd_def)
    have k: "k = ws * (j div ws)" by (simp add: k_def minus_mod_eq_mult_div)
    have "k < 2 ^ 64" using i assms(3) by (simp add: k_def j_def less_imp_diff_less)
    then have u: "unat (of_nat k :: u64) = k" by (simp add: unat_of_nat)
    have "0 < ws" using q by (cases ws) auto
    then have "k div 2 ^ sh = j div 2 ^ sh" unfolding q k by (simp add: div_mult2_eq)
    then have "unat (drop_bit sh (of_nat k :: u64)) = j div 2 ^ sh"
      unfolding unat_drop_bit_eq u by (simp add: drop_bit_eq_div)
    then have "peek c' (of_nat k) = peek c (of_nat k)"
      using assms(1,4) i by (simp add: untouched_def j_def)
    then show ?thesis by (simp only: flash_def flip: j_def k_def)
  qed
  then show ?thesis using assms(5) by (simp add: stored_def)
qed

lemma wf_page_dvd: "wf ni \<Longrightarrow> unat (writesize (lower ni)) dvd 2 ^ es_sh ni"
  by (simp add: wf_def le_imp_power_dvd)

section \<open>Bad blocks\<close>

lemma mem_check_bad:
  assumes "wf ni" and "memory (lower ni) (es_sh ni) good peek marked" and "good (chip ni)"
    and "nmbm_check_bad_phys_block ni ba = Some (b, ni')"
  shows "b \<longleftrightarrow> marked (chip ni) (unat ba)" "ni' = ni\<lparr>chip := chip ni'\<rparr>" "io {} ni ni'"
proof -
  obtain f where f: "is_bad_block (lower ni) = Some f" by (rule mem_queries [OF assms(2)])
  obtain r c where rc: "f (ba2addr ni ba) (chip ni) = (r, c)" by fastforce
  have e: "b = (r \<noteq> 0)" "ni' = ni\<lparr>chip := c\<rparr>"
    using assms(4) by (auto simp: nmbm_check_bad_phys_block_def f rc)
  show "b \<longleftrightarrow> marked (chip ni) (unat ba)"
    using mem_query(4) [OF assms(2) f rc assms(3)] e(1) by (simp add: block_of_ba2addr wf_sh [OF assms(1)])
  show "ni' = ni\<lparr>chip := chip ni'\<rparr>" by (simp add: e(2))
  show "io {} ni ni'" unfolding e(2) by (rule io_chipI) (rule dev_reach.dev_query [OF dev_refl f rc])
qed

lemma mem_mark_phys:
  assumes "wf ni" and "memory (lower ni) (es_sh ni) good peek marked" and "good (chip ni)"
    and "\<not> read_only ni" and "nmbm_mark_phys_bad_block ni ba = Some (r, ni')"
  shows "marked (chip ni') (unat ba)"
proof -
  obtain f where f: "mark_bad_block (lower ni) = Some f" by (rule mem_queries [OF assms(2)])
  obtain q c where rc: "f (ba2addr ni ba) (chip ni) = (q, c)" by fastforce
  have "ni' = ni\<lparr>chip := c\<rparr>"
    using assms(4,5) by (auto simp: nmbm_mark_phys_bad_block_def read_only_def f rc)
  then show ?thesis
    using mem_mark(3) [OF assms(2) f rc assms(3)] by (simp add: block_of_ba2addr wf_sh [OF assms(1)])
qed

lemma mem_op_tries_erase:
  assumes "memory L sh good peek marked" and "erase_block L = Some f"
    and "lower ni = L" and "good (chip ni)" and "op_tries n (f a) ni = (s, ni')"
  shows "marked (chip ni') = marked (chip ni)"
  using assms(3-5)
proof (induction n arbitrary: ni)
  case (Suc n)
  obtain r c where rc: "f a (chip ni) = (r, c)" by fastforce
  note c = mem_erase [OF assms(1,2) rc Suc.prems(2)]
  show ?case
  proof (cases "r = 0")
    case True
    then show ?thesis using Suc.prems(3) c rc by (auto simp: Let_def)
  next
    case False
    let ?n = "nmbm_reset_chip (ni\<lparr>chip := c\<rparr>)"
    have m: "memory (lower (ni\<lparr>chip := c\<rparr>)) sh good peek marked" using assms(1) Suc.prems(1) by simp
    obtain c2 where c2: "?n = (ni\<lparr>chip := c\<rparr>)\<lparr>chip := c2\<rparr>" "good c2" "peek c2 = peek c" "marked c2 = marked c"
      using mem_reset_chip [OF m] c(1) by auto
    have "op_tries n (f a) ?n = (s, ni')"
      using Suc.prems(3) False rc by (simp add: Let_def)
    then show ?thesis
      using Suc.IH [of ?n] Suc.prems(1) c2 c(3) by auto
  qed
qed simp

lemma mem_erase_and_check:
  assumes "wf ni" and "memory (lower ni) (es_sh ni) good peek marked" and "good (chip ni)"
    and "nmbm_erase_block_and_check ni ba = Some (s, ni')"
  shows "io {unat ba} ni ni'" "good (chip ni')" "marked (chip ni') = marked (chip ni)"
proof -
  have "may_touch ni {unat ba} (unat ba)" by (simp add: may_touch_def)
  from nmbm_erase_block_and_check_ok [OF assms(1) this] show io: "io {unat ba} ni ni'"
    using assms(4) by (auto simp: ok_def)
  then show "good (chip ni')" using io_untouched(1) [OF io assms(2,3)] by simp
  obtain s1 ni1 where e: "nmbm_erase_phys_block ni (ba2addr ni ba) = Some (s1, ni1)"
    using assms(4) by (auto simp: nmbm_erase_block_and_check_def bind_eq_Some_conv)
  have m1: "marked (chip ni1) = marked (chip ni)"
    using e mem_op_tries_erase [OF assms(2) _ refl assms(3)]
    by (auto simp: nmbm_erase_phys_block_def split: if_splits option.splits)
  have "may_touch ni {unat ba} (unat (drop_bit (es_sh ni) (ba2addr ni ba)))"
    by (simp add: may_touch_def block_of_ba2addr wf_sh [OF assms(1)])
  from nmbm_erase_phys_block_ok [OF assms(1) this] have io1: "io {unat ba} ni ni1"
    using e by (auto simp: ok_def)
  note u1 = io_untouched [OF io1 assms(2,3)]
  note f1 = static_fields [OF io_static [OF io1]]
  have wf1: "wf ni1" using assms(1) io1 by (simp add: io_wf)
  have mm: "memory (lower ni1) (es_sh ni1) good peek marked" using assms(2) by (simp add: f1)
  have "ni' = ni1 \<or> io {} ni1 ni'"
    using assms(4) e check_pages_ok [OF wf1]
    by (auto simp: nmbm_erase_block_and_check_def ok_def bind_eq_Some_conv split: if_splits)
      (metis old.prod.inject option.inject)+
  then have "marked (chip ni') = marked (chip ni1)" using io_view(3) [OF _ mm u1(1)] by blast
  then show "marked (chip ni') = marked (chip ni)" using m1 by simp
qed


section \<open>Management data\<close>

text \<open>
  \<open>laid_on\<close>: the data lie on the flash in pieces of a block each, in the blocks of the list.
\<close>

fun laid_on :: "(u64 \<Rightarrow> bytes) \<Rightarrow> nat \<Rightarrow> nat \<Rightarrow> nat list \<Rightarrow> bytes \<Rightarrow> bool" where
  "laid_on pg ws es [] d \<longleftrightarrow> d = []"
| "laid_on pg ws es (b # bs) d \<longleftrightarrow>
     d \<noteq> [] \<and> stored pg ws (b * es) (take es d) \<and> laid_on pg ws es bs (drop es d)"

lemma mem_use_block:
  assumes wf: "wf ni" and m: "memory (lower ni) (es_sh ni) good peek marked" and g: "good (chip ni)"
    and ba: "unat ba < unat (block_count ni)"
    and act: "\<And>ni1 s ni2. wf ni1 \<Longrightarrow> static ni1 = static ni \<Longrightarrow> good (chip ni1) \<Longrightarrow> act ni1 = Some (s, ni2) \<Longrightarrow>
      s \<Longrightarrow> marked (chip ni2) = marked (chip ni1) \<and> R (chip ni2)"
    and u: "use_block ni ba act = Some (True, ni')"
  shows "bst ni (unat ba) = BLOCK_ST_GOOD \<and> \<not> marked (chip ni') (unat ba) \<and> R (chip ni')"
proof -
  have gd: "bst ni (unat ba) = BLOCK_ST_GOOD"
    using u by (simp add: use_block_def get_block_state_ok [OF wf ba] split: if_splits)
  then obtain b ni1 where c: "nmbm_check_bad_phys_block ni ba = Some (b, ni1)"
    using u by (auto simp: use_block_def get_block_state_ok [OF wf ba] bind_eq_Some_conv)
  note cb = mem_check_bad [OF wf m g c]
  note v = io_view [OF cb(3) m g]
  have nb: "\<not> b" and a: "act ni1 = Some (True, ni')"
    using u gd c by (auto simp: use_block_def get_block_state_ok [OF wf ba] bind_eq_Some_conv split: if_splits)
  have "wf ni1" using wf cb(3) by (simp add: io_wf)
  from act [OF this io_static [OF cb(3)] v(1) a]
  show ?thesis using gd cb(1) nb v(3) by simp
qed

lemma blk_untouched:
  assumes "blk A ni ni'" and "memory (lower ni) (es_sh ni) good peek marked" and "good (chip ni)"
  shows "good (chip ni')" "untouched peek marked (es_sh ni) A (chip ni) (chip ni')"
    "memory (lower ni') (es_sh ni') good peek marked"
proof -
  obtain c p bs ch where c: "ni' = ni\<lparr>chip := c, page_cache := p, block_state := bs, block_state_changed := ch\<rparr>"
    "dev_reach (lower ni) (es_sh ni) (wset ni A) (chip ni) c" by (rule blkE [OF assms(1)])
  have "wset ni A \<subseteq> A" by (simp add: wset_def)
  with dev_reach_untouched [OF c(2) assms(2,3)]
  show "good (chip ni')" "untouched peek marked (es_sh ni) A (chip ni) (chip ni')"
    "memory (lower ni') (es_sh ni') good peek marked"
    using assms(2) by (auto simp: c(1) es_sh_def intro: untouched_mono)
qed

lemma stored_in_block:
  assumes "untouched peek marked sh A c c'" and "ws dvd 2 ^ sh" and "Suc b * 2 ^ sh \<le> 2 ^ 64"
    and "length d \<le> 2 ^ sh" and "b \<notin> A" and "stored (peek c) ws (b * 2 ^ sh) d"
  shows "stored (peek c') ws (b * 2 ^ sh) d"
proof (rule stored_untouched [OF assms(1,2) _ _ assms(6)])
  show "b * 2 ^ sh + length d \<le> 2 ^ 64" using assms(3,4) by simp
  fix i assume "i < length d"
  then have "(b * 2 ^ sh + i) div 2 ^ sh = b" using assms(4) by simp
  then show "(b * 2 ^ sh + i) div 2 ^ sh \<notin> A" using assms(5) by simp
qed

lemma mem_mgmt_loop:
  assumes "wf ni" and "memory (lower ni) (es_sh ni) good peek marked" and "good (chip ni)"
    and "unat limit \<le> unat (block_count ni)" and "unat ba \<le> unat limit"
    and "length rest \<le> sz" and "0 < sz" and "length rest \<noteq> sz \<longrightarrow> start \<noteq> None"
    and "mgmt_loop ni ba limit rest sz start = Some (Some (s, e), ni')"
  shows "\<exists>bs. sorted_wrt (<) bs \<and> set bs \<subseteq> {unat ba..<unat e} \<and>
      laid_on (peek (chip ni')) (unat (writesize (lower ni))) (2 ^ es_sh ni) bs rest \<and>
      (\<forall>b \<in> set bs. bst ni b = BLOCK_ST_GOOD \<and> \<not> marked (chip ni') b) \<and>
      (length rest = sz \<longrightarrow> bs \<noteq> [] \<and> hd bs = unat s)"
  using assms
proof (induction ni ba limit rest sz start rule: mgmt_loop.induct)
  case (1 ni ba limit rest sz start)
  note wf = 1(3) and m = 1(4) and g = 1(5)
  show ?case
  proof (cases "rest \<noteq> [] \<and> ba < limit")
    case False
    then have "rest = []" using 1(11) by (subst (asm) mgmt_loop.simps) (auto split: if_splits)
    then show ?thesis using 1(9) by (intro exI [of _ "[]"]) simp
  next
    case True
    define es where "es = unat (erasesize (lower ni))"
    let ?ws = "unat (writesize (lower ni))"
    let ?act = "\<lambda>ni'. do { (success, ni') \<leftarrow> nmbm_erase_block_and_check ni' ba;
          if \<not> success then Some (False, ni')
          else nmbn_write_verify_data ni' (ba2addr ni' ba) (take es rest) }"
    have lt: "unat ba < unat limit" and ne: "rest \<noteq> []" and lt': "ba < limit"
      using True by (simp_all add: word_less_nat_alt)
    have ba: "unat ba < unat (block_count ni)" using lt 1(6) by simp
    have es: "es = 2 ^ es_sh ni" using wf_erasesize [OF wf] by (simp add: es_def)
    note b64 = unat_u64_block [OF wf ba]
    note sc = unat_succ_below [OF lt']
    obtain used ni1 where u: "use_block ni ba ?act = Some (used, ni1)"
      using 1(11) True by (subst (asm) mgmt_loop.simps) (auto simp: Let_def bind_eq_Some_conv simp flip: es_def)
    have act: "ok (?act ni1) (\<lambda>(s, ni2). io (wset ni {unat ba}) ni1 ni2)" if w: "wf ni1" "static ni1 = static ni" for ni1
    proof (rule erase_then_ok [OF w(1) _ w(2)])
      show "unat ba \<in> {unat ba}" by simp
      fix ni2 assume x: "wf ni2" "static ni2 = static ni1"
      have f: "es_sh ni2 = es_sh ni" using static_fields(12) [OF x(2)] static_fields(12) [OF w(2)] by simp
      have u: "unat (ba2addr ni2 ba) = unat ba * 2 ^ es_sh ni2"
        by (rule unat_ba2addr) (rule wf_sh [OF x(1)])
      show "ok (nmbn_write_verify_data ni2 (ba2addr ni2 ba) (take es rest)) (\<lambda>(s, ni3). io (wset ni2 {unat ba}) ni2 ni3)"
        by (rule nmbn_write_verify_data_ok [OF x(1), where b = "unat ba"])
          (use b64 in \<open>simp_all add: u f es\<close>)
    qed
    have ub: "blk {unat ba} ni ni1" and ust: "\<not> used \<Longrightarrow> bst ni1 (unat ba) \<noteq> BLOCK_ST_GOOD"
      using use_block_ok [OF wf ba, of "{unat ba}" ?act] act u by (auto simp: ok_def)
    note v = blk_untouched [OF ub m g]
    have wf1: "wf ni1" and bc1: "block_count ni1 = block_count ni" and s1: "static ni1 = static ni"
      using wf ub by (simp_all add: blk_wf blk_block_count blk_static)
    note f1 = static_fields [OF s1]
    have old: "bst ni b = BLOCK_ST_GOOD" if "bst ni1 b = BLOCK_ST_GOOD" "b < unat (block_count ni)" for b
      using blk_bst [OF ub wf_index [OF wf that(2)]] that(1) by (auto simp: block_st_defs)
    show ?thesis
    proof (cases used)
      case used: True
      let ?r = "drop es rest" and ?s = "if length rest = sz then Some ba else start"
      have rec: "mgmt_loop ni1 (ba + 1) limit ?r sz ?s = Some (Some (s, e), ni')"
        using 1(11) True u used by (subst (asm) mgmt_loop.simps) (simp add: Let_def flip: es_def)
      have u1: "use_block ni ba ?act = Some (True, ni1)" using u used by simp
      have R: "bst ni (unat ba) = BLOCK_ST_GOOD" "\<not> marked (chip ni1) (unat ba)"
        "stored (peek (chip ni1)) ?ws (unat ba * 2 ^ es_sh ni) (take es rest)"
      proof -
        have a: "marked (chip ni2) = marked (chip nia) \<and>
            stored (peek (chip ni2)) ?ws (unat ba * 2 ^ es_sh ni) (take es rest)"
          if w: "wf nia" "static nia = static ni" "good (chip nia)" "?act nia = Some (s, ni2)" "s" for nia s ni2
        proof -
          note fa = static_fields [OF w(2)]
          have ma: "memory (lower nia) (es_sh nia) good peek marked" using m by (simp add: fa)
          obtain nib where e: "nmbm_erase_block_and_check nia ba = Some (True, nib)"
            and wv: "nmbn_write_verify_data nib (ba2addr nib ba) (take es rest) = Some (True, ni2)"
            using w(4,5) by (auto simp: bind_eq_Some_conv split: if_splits)
          note er = mem_erase_and_check [OF w(1) ma w(3) e]
          note fb = static_fields [OF io_static [OF er(1)]]
          have wfb: "wf nib" using w(1) er(1) by (simp add: io_wf)
          have mb: "memory (lower nib) (es_sh nib) good peek marked" using ma by (simp add: fb)
          have ad: "unat (ba2addr nib ba) = unat ba * 2 ^ es_sh ni"
            using unat_ba2addr [OF wf_sh [OF wfb]] by (simp add: fa fb)
          have "unat (ba2addr nib ba) + length (take es rest) < 2 ^ 64"
            using b64 by (simp add: ad es)
          from mem_write_verify [OF wfb mb er(2) this wv] show ?thesis
            using er(3) by (simp add: ad fa fb)
        qed
        have "bst ni (unat ba) = BLOCK_ST_GOOD \<and> \<not> marked (chip ni1) (unat ba) \<and>
          stored (peek (chip ni1)) ?ws (unat ba * 2 ^ es_sh ni) (take es rest)"
          by (rule mem_use_block [where R = "\<lambda>c. stored (peek c) ?ws (unat ba * 2 ^ es_sh ni) (take es rest)",
            OF wf m g ba _ u1]) (erule (4) a)
        then show "bst ni (unat ba) = BLOCK_ST_GOOD" "\<not> marked (chip ni1) (unat ba)"
          "stored (peek (chip ni1)) ?ws (unat ba * 2 ^ es_sh ni) (take es rest)" by blast+
      qed
      have c: "wf ni1" "unat limit \<le> unat (block_count ni1)" "unat (ba + 1) \<le> unat limit"
          "length ?r \<le> sz" "length ?r \<noteq> sz \<longrightarrow> ?s \<noteq> None"
        using wf1 bc1 1(6-10) lt sc by auto
      have "0 < es" "0 < length rest" using es ne by simp_all
      then have nsz: "length ?r \<noteq> sz" using 1(8) unfolding length_drop by linarith
      obtain bs where bs: "sorted_wrt (<) bs" "set bs \<subseteq> {unat (ba + 1)..<unat e}"
        "laid_on (peek (chip ni')) ?ws (2 ^ es_sh ni) bs ?r"
        "\<forall>b \<in> set bs. bst ni1 b = BLOCK_ST_GOOD \<and> \<not> marked (chip ni') b"
        using 1(1) [OF True es_def u refl used c(1) v(3,1) c(2-4) 1(9) c(5)] rec
        by (auto simp: f1 es_def)
      have inv: "mgmt_inv ni1 (unat (ba + 1)) (unat limit) (length ?r) sz ?s (Some (s, e)) ni'"
        using mgmt_loop_ok [OF c(1-4) 1(9) c(5)] rec by (simp add: ok_def)
      have bl: "blk {Suc (unat ba)..<unat limit} ni1 ni'" and e: "unat ba < unat e" "unat e \<le> unat limit"
        and ss: "length rest = sz \<Longrightarrow> s = ba"
        using inv nsz sc by (auto simp: mgmt_inv_def)
      note v' = blk_untouched [OF bl v(3,1)]
      have "stored (peek (chip ni')) ?ws (unat ba * 2 ^ es_sh ni) (take es rest)"
        by (rule stored_in_block [OF v'(2) [unfolded f1(12)] _ _ _ _ R(3)])
          (use wf_page_dvd [OF wf] b64 es in simp_all)
      moreover have "\<not> marked (chip ni') (unat ba)"
        using v'(2) R(2) by (simp add: untouched_def)
      moreover have "bst ni b = BLOCK_ST_GOOD" if "b \<in> set bs" for b
        using bs(2,4) that e(2) 1(6) by (intro old) auto
      ultimately show ?thesis
        using bs ne R(1) sc e(1) ss by (intro exI [of _ "unat ba # bs"]) (auto simp: es)
    next
      case unused: False
      have rec: "mgmt_loop ni1 (ba + 1) limit rest sz start = Some (Some (s, e), ni')"
        using 1(11) True u unused by (subst (asm) mgmt_loop.simps) (simp add: Let_def flip: es_def)
      have c: "wf ni1" "unat limit \<le> unat (block_count ni1)" "unat (ba + 1) \<le> unat limit"
        using wf1 bc1 1(6) lt sc by auto
      obtain bs where bs: "sorted_wrt (<) bs" "set bs \<subseteq> {unat (ba + 1)..<unat e}"
        "laid_on (peek (chip ni')) ?ws (2 ^ es_sh ni) bs rest"
        "\<forall>b \<in> set bs. bst ni1 b = BLOCK_ST_GOOD \<and> \<not> marked (chip ni') b"
        "length rest = sz \<longrightarrow> bs \<noteq> [] \<and> hd bs = unat s"
        using 1(2) [OF True es_def u refl unused c(1) v(3,1) c(2,3) 1(8-10)] rec
        by (auto simp: f1)
      have "mgmt_inv ni1 (unat (ba + 1)) (unat limit) (length rest) sz start (Some (s, e)) ni'"
        using mgmt_loop_ok [OF c 1(8-10)] rec by (simp add: ok_def)
      then have "unat e \<le> unat limit" by (simp add: mgmt_inv_def)
      then have "bst ni b = BLOCK_ST_GOOD" if "b \<in> set bs" for b
        using bs(2,4) that 1(6) by (intro old) auto
      then show ?thesis using bs sc by (intro exI [of _ bs]) auto
    qed
  qed
qed

end
