(* ===== verification/Nmbm_Recovery.thy ===== *)
theory Nmbm_Recovery
  imports Nmbm_Flash
begin

text \<open>
  Attaching a used chip: the search for the info tables, their validation and loading, on a chip
  that works as a memory and whose unmarked blocks can be read. A chip that carries the signature
  and two copies of the tables gives back those tables.
\<close>

section \<open>Loading an info table\<close>

lemma io_cache_upd: "io A ni ni' \<Longrightarrow> io A (ni\<lparr>info_table_cache := x\<rparr>) (ni'\<lparr>info_table_cache := x\<rparr>)"
proof -
  assume "io A ni ni'"
  then obtain c p where e: "ni' = ni\<lparr>chip := c, page_cache := p\<rparr>"
    and d: "dev_reach (lower ni) (es_sh ni) A (chip ni) c" "length p = length (page_cache ni)"
    by (auto simp: io_def)
  have "ni'\<lparr>info_table_cache := x\<rparr> = (ni\<lparr>info_table_cache := x\<rparr>)\<lparr>chip := c, page_cache := p\<rparr>"
    by (cases ni) (simp add: e)
  then show ?thesis using ioI [of "ni\<lparr>info_table_cache := x\<rparr>" A c p] d by (simp add: es_sh_def)
qed

lemma io_fields:
  assumes "io A ni ni'"
  shows "info_table_cache ni' = info_table_cache ni" "block_state ni' = block_state ni"
    "block_mapping ni' = block_mapping ni" "data_block_count ni' = data_block_count ni"
    "signature_ba ni' = signature_ba ni" "info_table ni' = info_table ni"
  using assms by (auto simp: io_def)

text \<open>
  \<open>table_image\<close>: the image of tables with the header \<open>it\<close>, the block states \<open>bs\<close> and the
  mapping \<open>mp\<close>, as nmbm_generate_info_table_cache lays it out.
\<close>

definition table_image ::
    "crc_fun \<Rightarrow> 'd nmbm_instance \<Rightarrow> nmbm_info_table_header \<Rightarrow> u32 list \<Rightarrow> u32 list \<Rightarrow> bytes \<Rightarrow> bool" where
  "table_image crc ni it bs mp img \<longleftrightarrow>
     length img = unat (info_table_size ni) \<and> ift_of img = it \<and>
     hdr_magic (ift_header it) = NMBM_MAGIC_INFO_TABLE \<and> hdr_size (ift_header it) = info_table_size ni \<and>
     nmbm_check_header crc img (info_table_size ni) = Some True \<and>
     32 \<le> unat (state_table_off it) \<and>
     unat (state_table_off it) + unat (state_table_size ni) \<le> unat (mapping_table_off it) \<and>
     unat (mapping_table_off it) + unat (mapping_table_size ni) \<le> unat (info_table_size ni) \<and>
     slice img (unat (state_table_off it)) (unat (state_table_size ni)) = Some (words_to_bytes bs) \<and>
     slice img (unat (mapping_table_off it)) (unat (mapping_table_size ni)) = Some (words_to_bytes mp)"

lemma table_image_static:
  assumes "static ni' = static ni"
  shows "table_image crc ni' it bs mp img = table_image crc ni it bs mp img"
  by (simp add: table_image_def static_fields [OF assms])

lemma try_load_loop_good:
  assumes "wf ni" and "memory (lower ni) (es_sh ni) good peek marked" and "good (chip ni)"
    and "reads_ok (lower ni) (es_sh ni) good marked"
    and "unat ba + blocks_for ni n \<le> unat limit" and "unat limit \<le> unat (block_count ni)"
    and "\<And>b. unat ba \<le> b \<Longrightarrow> b < unat ba + blocks_for ni n \<Longrightarrow>
      bst ni b = BLOCK_ST_GOOD \<and> \<not> marked (chip ni) b"
    and "stored (peek (chip ni)) (unat (writesize (lower ni))) (unat ba * 2 ^ es_sh ni) (drop off img)"
    and "length img = off + n" and "length (info_table_cache ni) = off + n"
    and "take off (info_table_cache ni) = take off img"
    and "chk \<longrightarrow> off = 0 \<and> (32::nat) \<le> 2 ^ es_sh ni \<and> 32 \<le> n \<and>
      (\<forall>x. take 32 x = take 32 img \<and> 32 \<le> length x \<longrightarrow> nmbm_check_info_table_header ni x = Some True)"
  shows "ok (try_load_loop ni ba limit off n start chk) (\<lambda>(r, ni').
    io {} (ni\<lparr>info_table_cache := img\<rparr>) ni' \<and>
    r = Some (if chk then ba else start, ba + of_nat (blocks_for ni n)))"
  using assms
proof (induction n arbitrary: ni ba off start chk rule: less_induct)
  case (less n)
  note wf = less.prems(1) and m = less.prems(2) and g = less.prems(3)
  show ?case
  proof (cases "n = 0")
    case True
    then have "info_table_cache ni = img" using less.prems(9-11) by simp
    then show ?thesis using True less.prems(12) by (subst try_load_loop.simps) auto
  next
    case False
    define k where "k = min n (2 ^ es_sh ni)"
    have bf: "blocks_for ni n = Suc (blocks_for ni (n - 2 ^ es_sh ni))"
      using False by (simp add: blocks_for_step)
    have lt: "unat ba < unat limit" using less.prems(5) bf by simp
    then have lt': "ba < limit" by (simp add: word_less_nat_alt)
    have ba: "unat ba < unat (block_count ni)" using lt less.prems(6) by simp
    have k: "k \<noteq> 0" "k \<le> n" "n - k = n - 2 ^ es_sh ni" using False by (auto simp: k_def)
    have st: "bst ni (unat ba) = BLOCK_ST_GOOD" "\<not> marked (chip ni) (unat ba)"
      using less.prems(7) [of "unat ba"] bf by simp_all
    have ke: "min n (unat (erasesize (lower ni))) = k" by (simp add: k_def wf_erasesize [OF wf])
    obtain b ni1 where c: "nmbm_check_bad_phys_block ni ba = Some (b, ni1)"
      using nmbm_check_bad_phys_block_ok [OF wf, of ba] by (auto simp: ok_def)
    note cb = mem_check_bad [OF wf m g c]
    have nb: "\<not> b" using cb(1) st(2) by simp
    note v1 = io_view [OF cb(3) m g] and i1 = io_fields [OF cb(3)]
    note f1 = static_fields [OF io_static [OF cb(3)]]
    have wf1: "wf ni1" using wf cb(3) by (simp add: io_wf)
    have ad: "unat (ba2addr ni1 ba) = unat ba * 2 ^ es_sh ni"
      using unat_ba2addr [OF wf_sh [OF wf1]] by (simp add: f1)
    define buf where "buf = take k (drop off (info_table_cache ni1))"
    have lb: "length buf = k" and sl: "slice (info_table_cache ni1) off k = Some buf"
      using k(2) less.prems(10) by (simp_all add: buf_def i1 slice_def)
    note b64 = unat_u64_block [OF wf ba]
    have fit: "unat (ba2addr ni1 ba) + length buf < 2 ^ 64"
      using b64 by (simp add: ad lb k_def)
    obtain r dat ni2 where rd: "nmbn_read_data ni1 (ba2addr ni1 ba) buf = Some (r, dat, ni2)"
      and io2: "io {} ni1 ni2" and ld: "length dat = k" and r: "r \<le> 0"
      using nmbn_read_data_ok [OF wf1, of "ba2addr ni1 ba" buf] lb by (auto simp: ok_def)
    have blk: "(unat (ba2addr ni1 ba) + i) div 2 ^ es_sh ni = unat ba" if "i < k" for i
      using that by (simp add: ad k_def)
    have r0: "r = 0" and sd: "stored (peek (chip ni)) (unat (writesize (lower ni))) (unat ba * 2 ^ es_sh ni) dat"
      using mem_read_data_loop [OF wf1 v1(4,1) fit, of "[]"] rd r less.prems(4) st(2) blk lb
      by (auto simp: ok_def nmbn_read_data_def f1 v1 ad)
    have dat: "dat = take k (drop off img)"
    proof (rule stored_unique [OF sd])
      have "drop off img = take k (drop off img) @ drop k (drop off img)" by (rule append_take_drop_id [symmetric])
      then show "stored (peek (chip ni)) (unat (writesize (lower ni))) (unat ba * 2 ^ es_sh ni) (take k (drop off img))"
        using less.prems(8) by (metis stored_append)
      show "length dat = length (take k (drop off img))" using ld k(2) less.prems(9) by simp
    qed
    have io02: "io {} ni ni2" by (rule io_trans [OF cb(3) io2])
    note v2 = io_view [OF io02 m g] and i2 = io_fields [OF io02]
    note f2 = static_fields [OF io_static [OF io02]]
    define cache where "cache = take off (info_table_cache ni2) @ dat @ drop (off + k) (info_table_cache ni2)"
    have bl: "blit (info_table_cache ni2) off dat = Some cache"
      using k(2) less.prems(10) ld by (simp add: blit_def cache_def i2)
    define ni3 where "ni3 = ni2\<lparr>info_table_cache := cache\<rparr>"
    have lc: "length cache = off + n" using less.prems(10) k(2) ld by (simp add: cache_def i2)
    have pre: "take (off + k) cache = take (off + k) img"
      using less.prems(9-11) ld k(2) by (simp add: cache_def i2 dat take_add)
    have s3: "static ni3 = static ni"
      using io_static [OF io02] lc less.prems(10) by (simp add: ni3_def static_def)
    note f3 = static_fields [OF s3]
    have hd: "chk \<longrightarrow> nmbm_check_info_table_header ni3 (drop off cache) = Some True"
    proof
      assume chk
      then have x: "off = 0" "32 \<le> k" "32 \<le> n" using less.prems(12) by (auto simp: k_def)
      have "take 32 cache = take 32 (take (off + k) cache)" using x by (simp add: min_absorb1)
      also have "\<dots> = take 32 img" unfolding pre using x by (simp add: min_absorb1)
      finally have y: "nmbm_check_info_table_header ni cache = Some True"
        using less.prems(12) \<open>chk\<close> lc x by auto
      have "nmbm_check_info_table_header ni3 cache = nmbm_check_info_table_header ni cache"
        by (simp add: nmbm_check_info_table_header_def f3)
      then show "nmbm_check_info_table_header ni3 (drop off cache) = Some True" using x y by simp
    qed
    define q where "q = (if chk then ba else start)"
    have step: "try_load_loop ni ba limit off n start chk =
        try_load_loop ni3 (ba + 1) limit (off + k) (n - k) q False"
      using False lt' get_block_state_ok [OF wf ba] st(1) c nb sl rd r0 bl hd
      by (subst try_load_loop.simps) (simp add: Let_def i1 ke ni3_def q_def f1 wf_erasesize)
    have sc: "unat (ba + 1) = Suc (unat ba)" by (rule unat_succ_below [OF lt'])
    have wf3: "wf ni3" using wf by (simp add: wf_static [OF s3])
    have c3: "chip ni3 = chip ni2" and b3: "block_state ni3 = block_state ni" by (simp_all add: ni3_def i2)
    have bfs: "blocks_for ni3 x = blocks_for ni x" for x by (rule blocks_for_static [OF s3])
    have stb: "stored (peek (chip ni3)) (unat (writesize (lower ni3))) (unat (ba + 1) * 2 ^ es_sh ni3) (drop (off + k) img)"
    proof (cases "k = 2 ^ es_sh ni")
      case True
      have "drop off img = take k (drop off img) @ drop (off + k) img"
        using append_take_drop_id [of k "drop off img", symmetric] by (simp only: drop_drop add.commute)
      moreover have "length (take k (drop off img)) = k" using less.prems(9) k(2) by simp
      ultimately have "stored (peek (chip ni)) (unat (writesize (lower ni))) (unat ba * 2 ^ es_sh ni + k) (drop (off + k) img)"
        using less.prems(8) stored_append by metis
      moreover have "unat ba * 2 ^ es_sh ni + k = unat (ba + 1) * 2 ^ es_sh ni" unfolding sc using True by simp
      ultimately show ?thesis by (simp only: f3 c3 v2)
    next
      case f: False
      then have "drop (off + k) img = []" using less.prems(9) by (simp add: k_def min_def split: if_splits)
      then show ?thesis by (simp add: stored_def)
    qed
    have IH: "ok (try_load_loop ni3 (ba + 1) limit (off + k) (n - k) q False) (\<lambda>(r, ni').
        io {} (ni3\<lparr>info_table_cache := img\<rparr>) ni' \<and>
        r = Some (if False then ba + 1 else q, ba + 1 + of_nat (blocks_for ni3 (n - k))))"
    proof (rule less.IH [OF _ wf3 _ _ _ _ _ _ stb])
      show "n - k < n" using k by simp
      show "memory (lower ni3) (es_sh ni3) good peek marked" using m by (simp add: f3)
      show "good (chip ni3)" using v2 c3 by simp
      show "reads_ok (lower ni3) (es_sh ni3) good marked" using less.prems(4) by (simp add: f3)
      show "unat (ba + 1) + blocks_for ni3 (n - k) \<le> unat limit" using less.prems(5) bf k(3) by (simp add: sc bfs)
      show "unat limit \<le> unat (block_count ni3)" using less.prems(6) by (simp add: f3)
      show "bst ni3 b = BLOCK_ST_GOOD \<and> \<not> marked (chip ni3) b"
        if "unat (ba + 1) \<le> b" "b < unat (ba + 1) + blocks_for ni3 (n - k)" for b
        using less.prems(7) [of b] that bf k(3) by (simp add: sc bfs c3 v2 bst_def b3)
      show "length img = off + k + (n - k)" using less.prems(9) k(2) by simp
      show "length (info_table_cache ni3) = off + k + (n - k)" using lc k(2) by (simp add: ni3_def)
      show "take (off + k) (info_table_cache ni3) = take (off + k) img" using pre by (simp add: ni3_def)
    qed simp
    have "io {} (ni\<lparr>info_table_cache := img\<rparr>) (ni3\<lparr>info_table_cache := img\<rparr>)"
      using io_cache_upd [OF io02, of img] by (simp add: ni3_def)
    moreover have "ba + 1 + of_nat (blocks_for ni3 (n - k)) = ba + of_nat (blocks_for ni n)"
      by (simp add: bfs bf k(3))
    ultimately show ?thesis
      unfolding step by - (rule ok_mono2 [OF IH], auto intro: io_trans simp: q_def)
  qed
qed

section \<open>Scans\<close>

text \<open>
  \<open>scanned M\<close>: the run read the chip and may have recorded blocks of \<open>M\<close> as bad; the table cache
  is scratch space.
\<close>

definition scanned :: "nat set \<Rightarrow> 'd nmbm_instance \<Rightarrow> 'd nmbm_instance \<Rightarrow> bool" where
  "scanned M ni ni' \<longleftrightarrow>
     (\<exists>c p bs ch x. ni' = ni\<lparr>chip := c, page_cache := p, block_state := bs, block_state_changed := ch,
          info_table_cache := x\<rparr> \<and>
        dev_reach (lower ni) (es_sh ni) {} (chip ni) c \<and> length p = length (page_cache ni) \<and>
        length x = length (info_table_cache ni) \<and> bitmap.degrades M (block_state ni) bs)"

lemma scannedI:
  "dev_reach (lower ni) (es_sh ni) {} (chip ni) c \<Longrightarrow> length p = length (page_cache ni) \<Longrightarrow>
   length x = length (info_table_cache ni) \<Longrightarrow> bitmap.degrades M (block_state ni) bs \<Longrightarrow>
   scanned M ni (ni\<lparr>chip := c, page_cache := p, block_state := bs, block_state_changed := ch, info_table_cache := x\<rparr>)"
  unfolding scanned_def by blast

lemma scanned_io:
  assumes "io {} ni ni'"
  shows "scanned M ni ni'"
proof -
  obtain c p where e: "ni' = ni\<lparr>chip := c, page_cache := p\<rparr>"
    and d: "dev_reach (lower ni) (es_sh ni) {} (chip ni) c" "length p = length (page_cache ni)"
    using assms by (auto simp: io_def)
  have "ni' = ni\<lparr>chip := c, page_cache := p, block_state := block_state ni,
      block_state_changed := block_state_changed ni, info_table_cache := info_table_cache ni\<rparr>"
    by (cases ni) (simp add: e)
  then show ?thesis
    using scannedI [OF d(1,2) refl bitmap.degrades_refl [of M], where ch = "block_state_changed ni"] by simp
qed

lemma scanned_refl [simp]: "scanned M ni ni"
  by (rule scanned_io) simp

lemma scanned_cache:
  assumes "length x = length (info_table_cache ni)"
  shows "scanned M ni (ni\<lparr>info_table_cache := x\<rparr>)"
proof -
  have "ni\<lparr>info_table_cache := x\<rparr> = ni\<lparr>chip := chip ni, page_cache := page_cache ni,
      block_state := block_state ni, block_state_changed := block_state_changed ni, info_table_cache := x\<rparr>"
    by (cases ni) simp
  then show ?thesis
    using scannedI [OF dev_refl refl assms bitmap.degrades_refl [of M], where ch = "block_state_changed ni"] by simp
qed

lemma scanned_static: "scanned M ni ni' \<Longrightarrow> static ni' = static ni"
  by (auto simp: scanned_def static_def degrades_length)

lemma scanned_trans:
  assumes "scanned M a b" and "scanned M b c"
  shows "scanned M a c"
proof -
  obtain y p bs ch x where b: "b = a\<lparr>chip := y, page_cache := p, block_state := bs, block_state_changed := ch,
      info_table_cache := x\<rparr>" and 1: "dev_reach (lower a) (es_sh a) {} (chip a) y"
      "length p = length (page_cache a)" "length x = length (info_table_cache a)"
      "bitmap.degrades M (block_state a) bs"
    using assms(1) by (auto simp: scanned_def)
  have s: "lower b = lower a" "es_sh b = es_sh a" using static_fields [OF scanned_static [OF assms(1)]] by simp_all
  obtain y' p' bs' ch' x' where c: "c = b\<lparr>chip := y', page_cache := p', block_state := bs',
      block_state_changed := ch', info_table_cache := x'\<rparr>" and 2: "dev_reach (lower b) (es_sh b) {} (chip b) y'"
      "length p' = length (page_cache b)" "length x' = length (info_table_cache b)"
      "bitmap.degrades M (block_state b) bs'"
    using assms(2) by (auto simp: scanned_def)
  have "c = a\<lparr>chip := y', page_cache := p', block_state := bs', block_state_changed := ch', info_table_cache := x'\<rparr>"
    by (cases a) (simp add: c b)
  moreover have "dev_reach (lower a) (es_sh a) {} (chip a) y'"
    using dev_reach_trans [OF 1(1)] 2(1) s by (simp add: b)
  moreover have "bitmap.degrades M (block_state a) bs'"
    using bitmap.degrades_trans [OF 1(4)] 2(4) by (simp add: b)
  ultimately show ?thesis using scannedI [of a y' p' x' M bs' ch'] 1 2 by (simp add: b)
qed

lemma scanned_fields:
  assumes "scanned M ni ni'"
  shows "block_mapping ni' = block_mapping ni" "data_block_count ni' = data_block_count ni"
    "signature_ba ni' = signature_ba ni" "info_table ni' = info_table ni" "signature ni' = signature ni"
    "mgmt_start_ba ni' = mgmt_start_ba ni" "main_table_ba ni' = main_table_ba ni"
    "backup_table_ba ni' = backup_table_ba ni" "mapping_blocks_ba ni' = mapping_blocks_ba ni"
    "mapping_blocks_top_ba ni' = mapping_blocks_top_ba ni" "protected ni' = protected ni"
    "block_mapping_changed ni' = block_mapping_changed ni"
  using assms by (auto simp: scanned_def)

lemma scanned_wf: "scanned M ni ni' \<Longrightarrow> wf ni' \<longleftrightarrow> wf ni"
  by (rule wf_static) (rule scanned_static)

lemma scanned_view:
  assumes "scanned M ni ni'" and "memory (lower ni) (es_sh ni) good peek marked" and "good (chip ni)"
  shows "good (chip ni')" "peek (chip ni') = peek (chip ni)" "marked (chip ni') = marked (chip ni)"
    "memory (lower ni') (es_sh ni') good peek marked" "lower ni' = lower ni" "es_sh ni' = es_sh ni"
proof -
  obtain c p bs ch x where c: "ni' = ni\<lparr>chip := c, page_cache := p, block_state := bs, block_state_changed := ch,
      info_table_cache := x\<rparr>" "dev_reach (lower ni) (es_sh ni) {} (chip ni) c"
    using assms(1) by (auto simp: scanned_def)
  show "good (chip ni')" "peek (chip ni') = peek (chip ni)" "marked (chip ni') = marked (chip ni)"
    using dev_reach_untouched [OF c(2) assms(2,3)] by (simp_all add: c(1))
  show "memory (lower ni') (es_sh ni') good peek marked" "lower ni' = lower ni" "es_sh ni' = es_sh ni"
    using assms(2) static_fields [OF scanned_static [OF assms(1)]] by simp_all
qed

lemma scanned_bst:
  assumes "scanned M ni ni'" and "wf ni" and "i < unat (block_count ni)"
  shows "bst ni' i = bst ni i \<or> i \<in> M \<and> bst ni i = BLOCK_ST_GOOD \<and> bst ni' i = BLOCK_ST_BAD"
  using assms(1) wf_index [OF assms(2,3)] by (auto simp: scanned_def bst_def bitmap.degrades_def)

lemma scanned_set_bad:
  assumes "wf ni" and "unat ba < unat (block_count ni)" and "unat ba \<in> M" and "bst ni (unat ba) = BLOCK_ST_GOOD"
  shows "ok (nmbm_set_block_state ni ba BLOCK_ST_BAD) (\<lambda>(r, ni'). scanned M ni ni')"
proof -
  have l: "unat ba < st_len (block_state ni)" by (rule wf_st_len [OF assms(1,2)])
  have d: "bitmap.degrades M (block_state ni) (st_upd (block_state ni) (unat ba) BLOCK_ST_BAD)"
    using bitmap.get_upd [OF l] assms(3,4)
    by (auto simp: bitmap.degrades_def bitmap.len_upd bst_def block_st_defs)
  have e: "scanned M ni (ni\<lparr>block_state := st_upd (block_state ni) (unat ba) BLOCK_ST_BAD, block_state_changed := ch\<rparr>)" for ch
  proof -
    have "ni\<lparr>block_state := bs, block_state_changed := ch\<rparr> = ni\<lparr>chip := chip ni, page_cache := page_cache ni,
      block_state := bs, block_state_changed := ch, info_table_cache := info_table_cache ni\<rparr>" for bs
      by (cases ni) simp
    then show ?thesis using scannedI [OF dev_refl refl refl d, of ch] by (simp only:)
  qed
  show ?thesis
    unfolding nmbm_set_block_state_eq using l by (simp only: if_True Let_def ok_Some prod.case e)
qed

text \<open>
  The load loop on a chip whose unmarked blocks can be read: it returns, records only marked
  blocks as bad, needs a block for every piece of the table, and gives up at a block that does
  not start with the header of a table.
\<close>

definition blank :: "(u64 \<Rightarrow> bytes) \<Rightarrow> nat \<Rightarrow> nat \<Rightarrow> bool" where
  "blank pg ws a \<longleftrightarrow>
     (\<exists>d. length d = 32 \<and> stored pg ws a d \<and> hdr_magic (ift_header (ift_of d)) \<noteq> NMBM_MAGIC_INFO_TABLE)"

lemma mem_read_block:
  assumes "wf ni" and "memory (lower ni) (es_sh ni) good peek marked" and "good (chip ni)"
    and "reads_ok (lower ni) (es_sh ni) good marked" and "unat ba < unat (block_count ni)"
    and "\<not> marked (chip ni) (unat ba)" and "length buf \<le> 2 ^ es_sh ni"
  shows "ok (nmbn_read_data ni (ba2addr ni ba) buf) (\<lambda>(r, dat, ni'). r = 0 \<and> io {} ni ni' \<and> length dat = length buf \<and>
     stored (peek (chip ni)) (unat (writesize (lower ni))) (unat ba * 2 ^ es_sh ni) dat)"
proof -
  have ad: "unat (ba2addr ni ba) = unat ba * 2 ^ es_sh ni" by (rule unat_ba2addr) (rule wf_sh [OF assms(1)])
  have fit: "unat (ba2addr ni ba) + length buf < 2 ^ 64"
    using unat_u64_block [OF assms(1,5)] assms(7) by (simp add: ad)
  have blk: "(unat (ba2addr ni ba) + i) div 2 ^ es_sh ni = unat ba" if "i < length buf" for i
    using that assms(7) by (simp add: ad)
  obtain r dat ni2 where rd: "nmbn_read_data ni (ba2addr ni ba) buf = Some (r, dat, ni2)"
    and io2: "io {} ni ni2" and ld: "length dat = length buf" and r: "r \<le> 0"
    using nmbn_read_data_ok [OF assms(1), of "ba2addr ni ba" buf] by (auto simp: ok_def)
  have "0 \<le> r" and "0 \<le> r \<longrightarrow> stored (peek (chip ni)) (unat (writesize (lower ni))) (unat ba * 2 ^ es_sh ni) dat"
    using mem_read_data_loop [OF assms(1-3) fit, of "[]"] rd assms(4,6) blk
    by (auto simp: ok_def nmbn_read_data_def ad)
  then show ?thesis using rd io2 ld r by simp
qed


lemma try_load_loop_scan:
  assumes "wf ni" and "memory (lower ni) (es_sh ni) good peek marked" and "good (chip ni)"
    and "reads_ok (lower ni) (es_sh ni) good marked"
    and "unat ba \<le> unat limit" and "unat limit \<le> unat (block_count ni)"
    and "length (info_table_cache ni) = off + n" and "chk \<longrightarrow> off = 0 \<and> 32 \<le> n"
  shows "ok (try_load_loop ni ba limit off n start chk) (\<lambda>(r, ni').
    scanned {b. marked (chip ni) b} ni ni' \<and>
    (r \<noteq> None \<longrightarrow> unat ba + blocks_for ni n +
       (if n \<noteq> 0 \<and> (bst ni (unat ba) \<noteq> BLOCK_ST_GOOD \<or> marked (chip ni) (unat ba)) then 1 else 0) \<le> unat limit) \<and>
    (r \<noteq> None \<and> chk \<and> unat limit = unat ba + blocks_for ni n \<longrightarrow> (32::nat) \<le> 2 ^ es_sh ni \<longrightarrow>
       \<not> blank (peek (chip ni)) (unat (writesize (lower ni))) (unat ba * 2 ^ es_sh ni)) \<and>
    (r \<noteq> None \<and> unat limit = unat ba + blocks_for ni n \<longrightarrow>
       (\<forall>x. unat ba \<le> x \<and> x < unat limit \<longrightarrow> bst ni x = BLOCK_ST_GOOD \<and> \<not> marked (chip ni) x)))"
  using assms
proof (induction "unat limit - unat ba" arbitrary: ni ba off n start chk rule: less_induct)
  case less
  note wf = less.prems(1) and m = less.prems(2) and g = less.prems(3)
  define M where "M = {b. marked (chip ni) b}"
  define Q where "Q = (\<lambda>(r :: (u32 \<times> u32) option, ni'). scanned M ni ni' \<and>
    (r \<noteq> None \<longrightarrow> unat ba + blocks_for ni n +
       (if n \<noteq> 0 \<and> (bst ni (unat ba) \<noteq> BLOCK_ST_GOOD \<or> marked (chip ni) (unat ba)) then 1 else 0) \<le> unat limit) \<and>
    (r \<noteq> None \<and> chk \<and> unat limit = unat ba + blocks_for ni n \<longrightarrow> (32::nat) \<le> 2 ^ es_sh ni \<longrightarrow>
       \<not> blank (peek (chip ni)) (unat (writesize (lower ni))) (unat ba * 2 ^ es_sh ni)) \<and>
    (r \<noteq> None \<and> unat limit = unat ba + blocks_for ni n \<longrightarrow>
       (\<forall>x. unat ba \<le> x \<and> x < unat limit \<longrightarrow> bst ni x = BLOCK_ST_GOOD \<and> \<not> marked (chip ni) x)))"
  have "ok (try_load_loop ni ba limit off n start chk) Q"
  proof (cases "n \<noteq> 0 \<and> ba < limit")
    case False
    then show ?thesis
      using less.prems(5,8) by (subst try_load_loop.simps) (auto simp: Q_def)
  next
    case True
    then have lt: "unat ba < unat limit" and lt': "ba < limit" and n: "n \<noteq> 0" by (auto simp: word_less_nat_alt)
    have ba: "unat ba < unat (block_count ni)" using lt less.prems(6) by simp
    have sc: "unat (ba + 1) = Suc (unat ba)" by (rule unat_succ_below [OF lt'])
    have rec: "ok (try_load_loop ni3 (ba + 1) limit off' n' q chk') (\<lambda>(r, ni'). scanned M ni ni' \<and>
        (r \<noteq> None \<longrightarrow> Suc (unat ba) + blocks_for ni n' \<le> unat limit) \<and>
        (r \<noteq> None \<and> unat limit = Suc (unat ba) + blocks_for ni n' \<longrightarrow>
          (\<forall>x. Suc (unat ba) \<le> x \<and> x < unat limit \<longrightarrow> bst ni x = BLOCK_ST_GOOD \<and> \<not> marked (chip ni) x)))"
      if s: "scanned M ni ni3" and l: "length (info_table_cache ni3) = off' + n'" "chk' \<longrightarrow> off' = 0 \<and> 32 \<le> n'"
      for ni3 off' n' q chk'
    proof -
      note v = scanned_view [OF s m g] and f = static_fields [OF scanned_static [OF s]]
      have "ok (try_load_loop ni3 (ba + 1) limit off' n' q chk') (\<lambda>(r, ni').
         scanned {b. marked (chip ni3) b} ni3 ni' \<and>
         (r \<noteq> None \<longrightarrow> unat (ba + 1) + blocks_for ni3 n' +
           (if n' \<noteq> 0 \<and> (bst ni3 (unat (ba + 1)) \<noteq> BLOCK_ST_GOOD \<or> marked (chip ni3) (unat (ba + 1))) then 1 else 0) \<le> unat limit) \<and>
         (r \<noteq> None \<and> chk' \<and> unat limit = unat (ba + 1) + blocks_for ni3 n' \<longrightarrow> (32::nat) \<le> 2 ^ es_sh ni3 \<longrightarrow>
           \<not> blank (peek (chip ni3)) (unat (writesize (lower ni3))) (unat (ba + 1) * 2 ^ es_sh ni3)) \<and>
         (r \<noteq> None \<and> unat limit = unat (ba + 1) + blocks_for ni3 n' \<longrightarrow>
           (\<forall>x. unat (ba + 1) \<le> x \<and> x < unat limit \<longrightarrow> bst ni3 x = BLOCK_ST_GOOD \<and> \<not> marked (chip ni3) x)))"
        by (rule less.hyps [OF _ _ v(4,1)])
          (use lt sc wf less.prems(4,6) l in \<open>simp_all add: f scanned_wf [OF s]\<close>)
      then show ?thesis
      proof (rule ok_mono2, goal_cases)
        case (1 r ni')
        have g: "bst ni x = BLOCK_ST_GOOD" if "bst ni3 x = BLOCK_ST_GOOD" "x < unat limit" for x
          using scanned_bst [OF s wf, of x] that less.prems(6) by auto
        have "scanned M ni ni'" using 1 s by (auto simp: M_def v(3) intro: scanned_trans)
        then show ?case using 1 g by (auto simp: v(3) sc blocks_for_static [OF scanned_static [OF s]])
      qed
    qed
    have skip: "ok (try_load_loop ni3 (ba + 1) limit off n start chk) Q"
      if "scanned M ni ni3" "length (info_table_cache ni3) = off + n" for ni3
      by (rule ok_mono [OF rec [OF that less.prems(8)]]) (auto simp: Q_def)
    show ?thesis
    proof (cases "bst ni (unat ba) = BLOCK_ST_GOOD")
      case False
      then show ?thesis
        using skip [OF scanned_refl less.prems(7)] True get_block_state_ok [OF wf ba]
        by (subst try_load_loop.simps) simp
    next
      case st: True
      obtain b ni1 where c: "nmbm_check_bad_phys_block ni ba = Some (b, ni1)"
        using nmbm_check_bad_phys_block_ok [OF wf, of ba] by (auto simp: ok_def)
      note cb = mem_check_bad [OF wf m g c]
      note s1 = scanned_io [OF cb(3), of M]
      note v1 = io_view [OF cb(3) m g] and i1 = io_fields [OF cb(3)] and f1 = static_fields [OF io_static [OF cb(3)]]
      have wf1: "wf ni1" using wf cb(3) by (simp add: io_wf)
      show ?thesis
      proof (cases b)
        case bad: True
        have "ok (nmbm_set_block_state ni1 ba BLOCK_ST_BAD) (\<lambda>(r, ni'). scanned M ni1 ni')"
          by (rule scanned_set_bad [OF wf1]) (use ba cb(1) bad st i1 in \<open>simp_all add: f1 M_def bst_def\<close>)
        then obtain x ni2 where x: "nmbm_set_block_state ni1 ba BLOCK_ST_BAD = Some (x, ni2)" and "scanned M ni1 ni2"
          by (auto simp: ok_def)
        then have s2: "scanned M ni ni2" by (blast intro: scanned_trans [OF s1])
        have "length (info_table_cache ni2) = off + n"
          using less.prems(7) static_fields(13) [OF scanned_static [OF s2]] by simp
        from skip [OF s2 this] show ?thesis
          using True get_block_state_ok [OF wf ba] st c bad x by (subst try_load_loop.simps) simp
      next
        case ok: False
        then have nm: "\<not> marked (chip ni1) (unat ba)" using cb(1) v1 by simp
        define k where "k = min n (2 ^ es_sh ni)"
        have k: "k \<noteq> 0" "k \<le> n" "n - k = n - 2 ^ es_sh ni" using n by (auto simp: k_def)
        have ke: "min n (unat (erasesize (lower ni))) = k" by (simp add: k_def wf_erasesize [OF wf])
        define buf where "buf = take k (drop off (info_table_cache ni1))"
        have lb: "length buf = k" and sl: "slice (info_table_cache ni1) off k = Some buf"
          using k(2) less.prems(7) by (simp_all add: buf_def i1 slice_def)
        obtain dat ni2 where rd: "nmbn_read_data ni1 (ba2addr ni1 ba) buf = Some (0, dat, ni2)"
          and io2: "io {} ni1 ni2" and ld: "length dat = k"
          and sd: "stored (peek (chip ni)) (unat (writesize (lower ni))) (unat ba * 2 ^ es_sh ni) dat"
          using mem_read_block [OF wf1 v1(4,1) _ _ nm, of buf] less.prems(4) ba lb
          by (auto simp: ok_def f1 v1 k_def)
        have io02: "io {} ni ni2" by (rule io_trans [OF cb(3) io2])
        note i2 = io_fields [OF io02]
        define cache where "cache = take off (info_table_cache ni2) @ dat @ drop (off + k) (info_table_cache ni2)"
        have bl: "blit (info_table_cache ni2) off dat = Some cache"
          using k(2) less.prems(7) ld by (simp add: blit_def cache_def i2)
        define ni3 where "ni3 = ni2\<lparr>info_table_cache := cache\<rparr>"
        have lc: "length cache = off + n" using less.prems(7) k(2) ld by (simp add: cache_def i2)
        have s3: "scanned M ni ni3"
          unfolding ni3_def by (rule scanned_trans [OF scanned_io [OF io02] scanned_cache]) (use lc less.prems(7) i2 in simp)
        have "\<exists>h. (if chk then nmbm_check_info_table_header ni3 (drop off cache) else Some True) = Some h \<and>
            (chk \<and> h \<longrightarrow> hdr_magic (ift_header (ift_of (take 32 (drop off cache)))) = NMBM_MAGIC_INFO_TABLE)"
          using less.prems(8) lc by (cases chk) (auto simp: nmbm_check_info_table_header_def slice_def Let_def)
        then obtain h where h: "(if chk then nmbm_check_info_table_header ni3 (drop off cache) else Some True) = Some h"
          and hm: "chk \<and> h \<longrightarrow> hdr_magic (ift_header (ift_of (take 32 (drop off cache)))) = NMBM_MAGIC_INFO_TABLE" by blast
        have step: "try_load_loop ni ba limit off n start chk = (if \<not> h then Some (None, ni3)
            else try_load_loop ni3 (ba + 1) limit (off + k) (n - k) (if chk then ba else start) False)"
          using True get_block_state_ok [OF wf ba] st c ok sl rd bl h ke
          by (subst try_load_loop.simps, cases chk) (simp_all add: Let_def i1 f1 flip: ni3_def)
        have l3: "length (info_table_cache ni3) = (off + k) + (n - k)" using lc k(2) by (simp add: ni3_def)
        have bf: "blocks_for ni n = Suc (blocks_for ni (n - k))" using n by (simp add: blocks_for_step k(3))
        have nb: "\<not> blank (peek (chip ni)) (unat (writesize (lower ni))) (unat ba * 2 ^ es_sh ni)"
          if "chk" "h" "(32::nat) \<le> 2 ^ es_sh ni"
        proof
          assume "blank (peek (chip ni)) (unat (writesize (lower ni))) (unat ba * 2 ^ es_sh ni)"
          then obtain d where d: "length d = 32" "hdr_magic (ift_header (ift_of d)) \<noteq> NMBM_MAGIC_INFO_TABLE"
            "stored (peek (chip ni)) (unat (writesize (lower ni))) (unat ba * 2 ^ es_sh ni) d"
            by (auto simp: blank_def)
          have k32: "32 \<le> k" "off = 0" using that less.prems(8) by (auto simp: k_def)
          have "stored (peek (chip ni)) (unat (writesize (lower ni))) (unat ba * 2 ^ es_sh ni) (take 32 dat)"
            using sd stored_append [of _ _ _ "take 32 dat" "drop 32 dat"] by simp
          then have "take 32 dat = d" using d(1,3) k32 ld by (intro stored_unique) auto
          then show False using hm d(2) that k32 ld by (simp add: cache_def)
        qed
        have all: "bst ni x = BLOCK_ST_GOOD \<and> \<not> marked (chip ni) x"
          if "\<forall>x. Suc (unat ba) \<le> x \<and> x < unat limit \<longrightarrow> bst ni x = BLOCK_ST_GOOD \<and> \<not> marked (chip ni) x"
            "unat ba \<le> x" "x < unat limit" for x
          using that nm v1(3) st by (cases "x = unat ba") auto
        have "ok (try_load_loop ni3 (ba + 1) limit (off + k) (n - k) (if chk then ba else start) False) Q" if h
        proof (rule ok_mono [OF rec [OF s3 l3]], goal_cases)
          case 1
          then show ?case by simp
        next
          case (2 x)
          obtain r ni' where x: "x = (r, ni')" by fastforce
          have nm': "\<not> marked (chip ni) (unat ba)" using nm v1(3) by simp
          have 1: "scanned M ni ni'" "r \<noteq> None \<Longrightarrow> Suc (unat ba) + blocks_for ni (n - k) \<le> unat limit"
            and run: "r \<noteq> None \<Longrightarrow> unat limit = Suc (unat ba) + blocks_for ni (n - k) \<Longrightarrow>
              \<forall>x. Suc (unat ba) \<le> x \<and> x < unat limit \<longrightarrow> bst ni x = BLOCK_ST_GOOD \<and> \<not> marked (chip ni) x"
            using 2 unfolding x prod.case by blast+
          have 2: "\<forall>x. unat ba \<le> x \<and> x < unat limit \<longrightarrow> bst ni x = BLOCK_ST_GOOD \<and> \<not> marked (chip ni) x"
            if e: "r \<noteq> None" "unat limit = unat ba + blocks_for ni n"
          proof -
            have "unat limit = Suc (unat ba) + blocks_for ni (n - k)" using e(2) bf by simp
            from all [OF run [OF e(1) this]] show ?thesis by blast
          qed
          have 3: "r \<noteq> None \<Longrightarrow> unat ba + blocks_for ni n + (if n \<noteq> 0 \<and>
              (bst ni (unat ba) \<noteq> BLOCK_ST_GOOD \<or> marked (chip ni) (unat ba)) then 1 else 0) \<le> unat limit"
            using 1(2) bf nm' st by simp
          show ?case unfolding Q_def x prod.case using 1(1) 2 3 nb that by blast
        qed
        then show ?thesis unfolding step using s3 by (simp add: Q_def)
      qed
    qed
  qed
  then show ?case by (simp add: Q_def M_def)
qed

section \<open>Validation of a table\<close>

lemma unat_size2blk:
  assumes "wf ni"
  shows "unat (size2blk ni (ucast (info_table_size ni))) = blocks_for ni (unat (info_table_size ni))"
proof -
  let ?es = "(2::nat) ^ es_sh ni" and ?n = "unat (info_table_size ni)"
  have es: "unat (erasesize (lower ni)) = ?es" by (rule wf_erasesize [OF assms])
  have "unat (erasesize (lower ni)) < 2 ^ 32" using unat_u32_lt by simp
  then have b: "?n < 2 ^ 32" "?es < 2 ^ 32" "0 < ?es" using unat_u32_lt [of "info_table_size ni"] es by simp_all
  have s: "unat (ucast (info_table_size ni) + ucast (erasesize (lower ni)) :: u64) = ?n + ?es"
    using b es by (subst unat_add_fits) simp_all
  have nz: "ucast (info_table_size ni) + ucast (erasesize (lower ni)) \<noteq> (0 :: u64)"
  proof
    assume "ucast (info_table_size ni) + ucast (erasesize (lower ni)) = (0 :: u64)"
    then have "unat (ucast (info_table_size ni) + ucast (erasesize (lower ni)) :: u64) = 0" by (simp only: unsigned_0)
    then show False using s b(3) by simp
  qed
  have "unat (ucast (info_table_size ni) + ucast (erasesize (lower ni)) - 1 :: u64) = ?n + ?es - 1"
    by (subst unat_minus_one [OF nz]) (simp only: s)
  then have "unat (drop_bit (unat (erasesize_shift ni))
      (ucast (info_table_size ni) + ucast (erasesize (lower ni)) - 1 :: u64)) = blocks_for ni ?n"
    unfolding unat_drop_bit_eq by (simp add: drop_bit_eq_div blocks_for_def es_sh_def)
  moreover have "blocks_for ni ?n < 2 ^ 32"
  proof (cases "?n = 0")
    case True
    then show ?thesis by simp
  next
    case False
    have "?n - 1 + ?es < 2 ^ 32 * ?es"
    proof -
      have "2 ^ 32 * ?es = (2 ^ 32 - 1) * ?es + ?es" by (simp add: algebra_simps)
      moreover have "?n - 1 < (2 ^ 32 - 1) * ?es" using b mult_le_mono2 [of 1 ?es "2 ^ 32 - 1"] False by linarith
      ultimately show ?thesis by linarith
    qed
    then have "(?n + ?es - 1) div ?es < 2 ^ 32" using False b(3) by (simp add: div_less_iff_less_mult mult.commute)
    then show ?thesis by (simp add: blocks_for_def)
  qed
  ultimately show ?thesis by (simp add: size2blk_def unat_ucast_u64_u32)
qed

lemma bytes_to_words_append [simp]: "bytes_to_words (words_to_bytes ws @ bs) = ws @ bytes_to_words bs"
proof (induction ws)
  case (Cons w ws)
  then show ?case using bytes_to_words_le32 [of w "words_to_bytes ws @ bs"] by (simp add: words_to_bytes_def)
qed (simp add: words_to_bytes_def)

lemma slice_words:
  assumes "slice img off n = Some (words_to_bytes ws)"
  shows "\<exists>xs. bytes_to_words (drop off img) = ws @ xs"
proof -
  have "drop off img = words_to_bytes ws @ drop n (drop off img)"
    using assms append_take_drop_id [of n "drop off img"] by (simp add: slice_def split: if_splits)
  then show ?thesis by (metis bytes_to_words_append)
qed

lemma check_mappings_ok:
  assumes "unat n \<le> length mp"
    and "\<And>i. unat ba \<le> i \<Longrightarrow> i < unat n \<Longrightarrow>
      \<not> (data_block_count ni \<le> mp ! i \<and> mp ! i < e) \<and> mp ! i \<noteq> signature_ba ni"
  shows "ok (check_mappings ni mp ba n e tp) (\<lambda>r. \<exists>t. r = Some t \<and> t \<le> tp \<and>
    (\<forall>i. unat ba \<le> i \<and> i < unat n \<and> e \<le> mp ! i \<longrightarrow> t \<le> mp ! i) \<and>
    (t = tp \<or> (\<exists>i. unat ba \<le> i \<and> i < unat n \<and> e \<le> mp ! i \<and> t = mp ! i)))"
  using assms
proof (induction "unat n - unat ba" arbitrary: ba tp rule: less_induct)
  case less
  show ?case
  proof (cases "ba < n")
    case False
    then show ?thesis by (subst check_mappings.simps) (auto simp: word_less_nat_alt)
  next
    case True
    then have lt: "unat ba < unat n" by (simp add: word_less_nat_alt)
    have sc: "unat (ba + 1) = Suc (unat ba)" by (rule unat_succ_below [OF True])
    let ?pb = "mp ! unat ba"
    let ?tp = "if e \<le> ?pb \<and> ?pb < tp then ?pb else tp"
    have l: "load mp (unat ba) = Some ?pb" using lt less.prems(1) by (simp add: load_def)
    have IH: "ok (check_mappings ni mp (ba + 1) n e ?tp) (\<lambda>r. \<exists>t. r = Some t \<and> t \<le> ?tp \<and>
      (\<forall>i. unat (ba + 1) \<le> i \<and> i < unat n \<and> e \<le> mp ! i \<longrightarrow> t \<le> mp ! i) \<and>
      (t = ?tp \<or> (\<exists>i. unat (ba + 1) \<le> i \<and> i < unat n \<and> e \<le> mp ! i \<and> t = mp ! i)))"
      by (rule less.hyps) (use lt sc less.prems in auto)
    have "check_mappings ni mp ba n e tp = check_mappings ni mp (ba + 1) n e ?tp"
      using True l less.prems(2) [OF order_refl lt] by (subst check_mappings.simps) auto
    moreover have "ok (check_mappings ni mp (ba + 1) n e ?tp) (\<lambda>r. \<exists>t. r = Some t \<and> t \<le> tp \<and>
      (\<forall>i. unat ba \<le> i \<and> i < unat n \<and> e \<le> mp ! i \<longrightarrow> t \<le> mp ! i) \<and>
      (t = tp \<or> (\<exists>i. unat ba \<le> i \<and> i < unat n \<and> e \<le> mp ! i \<and> t = mp ! i)))"
    proof (rule ok_mono [OF IH], elim exE conjE, goal_cases)
      case (1 r t)
      have "t \<le> tp" using 1(2) by (auto split: if_splits)
      moreover have "t \<le> mp ! i" if "unat ba \<le> i" "i < unat n" "e \<le> mp ! i" for i
      proof (cases "i = unat ba")
        case True
        then show ?thesis using 1(2) that by (auto split: if_splits)
      next
        case False
        then show ?thesis using 1(3) that sc by simp
      qed
      moreover have "t = tp \<or> (\<exists>i. unat ba \<le> i \<and> i < unat n \<and> e \<le> mp ! i \<and> t = mp ! i)"
        using 1(4)
      proof
        assume "t = ?tp"
        then show ?thesis using lt by (cases "e \<le> ?pb \<and> ?pb < tp") auto
      next
        assume "\<exists>i. unat (ba + 1) \<le> i \<and> i < unat n \<and> e \<le> mp ! i \<and> t = mp ! i"
        then show ?thesis using sc by (auto intro: Suc_leD)
      qed
      ultimately show ?case using 1(1) by blast
    qed
    ultimately show ?thesis by simp
  qed
qed

lemma check_states_ok:
  assumes "wf ni" and "unat e \<le> unat (block_count ni)" and "unat e \<le> st_len bs"
    and "\<And>b. unat ba \<le> b \<Longrightarrow> b < unat e \<Longrightarrow> st_of bs b = BLOCK_ST_GOOD"
  shows "check_states ni bs ba e = Some True"
  using assms
proof (induction "unat e - unat ba" arbitrary: ba rule: less_induct)
  case less
  show ?case
  proof (cases "ba < e")
    case False
    then show ?thesis by (subst check_states.simps) simp
  next
    case True
    then have lt: "unat ba < unat e" by (simp add: word_less_nat_alt)
    have sc: "unat (ba + 1) = Suc (unat ba)" by (rule unat_succ_below [OF True])
    have IH: "check_states ni bs (ba + 1) e = Some True"
      by (rule less.hyps) (use lt sc less.prems in auto)
    have "nmbm_get_block_state ni ba = Some (bst ni (unat ba))"
      by (rule get_block_state_ok) (use less.prems lt in simp_all)
    moreover have "nmbm_get_block_state_raw bs ba = Some BLOCK_ST_GOOD"
      using less.prems(3) less.prems(4) [OF order_refl lt] lt by (simp add: nmbm_get_block_state_raw_eq)
    ultimately show ?thesis using True IH by (subst check_states.simps) simp
  qed
qed

lemma st_of_append: "i < st_len bs \<Longrightarrow> st_of (bs @ xs) i = st_of bs i"
  by (simp add: st_of_def st_len_def nth_append less_mult_imp_div_less mult.commute)

text \<open>
  A table whose entries the search accepts: no logic block is mapped into the info tables or to
  the signature, and the blocks that hold the table are recorded as good.
\<close>

definition acceptable :: "'d nmbm_instance \<Rightarrow> u32 list \<Rightarrow> u32 list \<Rightarrow> u32 \<Rightarrow> u32 \<Rightarrow> bool" where
  "acceptable ni bs mp s e \<longleftrightarrow>
     (\<forall>i < unat (data_block_count ni).
        \<not> (data_block_count ni \<le> mp ! i \<and> mp ! i < e) \<and> mp ! i \<noteq> signature_ba ni) \<and>
     (\<forall>b. unat s \<le> b \<and> b < unat e \<longrightarrow> st_of bs b = BLOCK_ST_GOOD)"

text \<open>\<open>spare_top\<close>: the highest block below every spare block in use.\<close>

definition spare_top :: "u32 list \<Rightarrow> u32 \<Rightarrow> u32 \<Rightarrow> u32 \<Rightarrow> u32 \<Rightarrow> bool" where
  "spare_top mp n e sba tp \<longleftrightarrow>
     tp + 1 \<le> sba \<and> (\<forall>i < unat n. e \<le> mp ! i \<longrightarrow> tp + 1 \<le> mp ! i) \<and>
     (tp + 1 = sba \<or> (\<exists>i < unat n. e \<le> mp ! i \<and> tp + 1 = mp ! i))"

lemma nmbm_check_info_table_ok:
  assumes "wf ni" and "unat e \<le> unat (block_count ni)" and "data_block_count ni \<le> block_count ni"
    and "table_image crc ni it bs mp img" and "length bs = length (block_state ni)"
    and "length mp = length (block_mapping ni)" and "acceptable ni bs mp s e"
  shows "ok (nmbm_check_info_table ni s e img) (\<lambda>r. \<exists>tp. r = Some tp \<and>
    spare_top mp (data_block_count ni) e (signature_ba ni) tp)"
proof -
  note im = assms(4) [unfolded table_image_def]
  have len: "32 \<le> length img" using im assms(1) by (simp add: wf_def)
  then have h: "slice img 0 32 = Some (take 32 img)" by (simp add: slice_def)
  have it: "ift_of (take 32 img) = it" using im by (simp add: ift_of_take)
  obtain xs where xs: "bytes_to_words (drop (unat (mapping_table_off it)) img) = mp @ xs"
    using slice_words im by blast
  obtain ys where ys: "bytes_to_words (drop (unat (state_table_off it)) img) = bs @ ys"
    using slice_words im by blast
  have lm: "length mp = unat (block_count ni)" using assms(1,6) by (simp add: wf_def)
  then have dl: "unat (data_block_count ni) \<le> length mp" using assms(3) by (simp add: word_le_nat_alt)
  have sl: "st_len bs = st_len (block_state ni)" using assms(5) by simp
  have n: "(mp @ xs) ! i = mp ! i" if "i < unat (data_block_count ni)" for i
    using that dl by (simp add: nth_append)
  have "ok (check_mappings ni (mp @ xs) 0 (data_block_count ni) e (signature_ba ni)) (\<lambda>r. \<exists>t. r = Some t \<and>
    t \<le> signature_ba ni \<and> (\<forall>i. unat (0 :: u32) \<le> i \<and> i < unat (data_block_count ni) \<and> e \<le> (mp @ xs) ! i \<longrightarrow> t \<le> (mp @ xs) ! i) \<and>
    (t = signature_ba ni \<or> (\<exists>i. unat (0 :: u32) \<le> i \<and> i < unat (data_block_count ni) \<and> e \<le> (mp @ xs) ! i \<and> t = (mp @ xs) ! i)))"
    by (rule check_mappings_ok) (use dl n assms(7) in \<open>simp_all add: acceptable_def\<close>)
  then have cm: "ok (check_mappings ni (mp @ xs) 0 (data_block_count ni) e (signature_ba ni)) (\<lambda>r. \<exists>t. r = Some t \<and>
    t \<le> signature_ba ni \<and> (\<forall>i < unat (data_block_count ni). e \<le> mp ! i \<longrightarrow> t \<le> mp ! i) \<and>
    (t = signature_ba ni \<or> (\<exists>i < unat (data_block_count ni). e \<le> mp ! i \<and> t = mp ! i)))"
    by (rule ok_mono) (elim exE conjE, intro exI conjI, assumption, simp_all add: n, metis n)
  have cs: "check_states ni (bs @ ys) s e = Some True"
  proof (rule check_states_ok [OF assms(1,2)])
    show "unat e \<le> st_len (bs @ ys)"
      using wf_index [OF assms(1), of "unat e - 1"] assms(2) sl by (simp add: st_len_def) linarith
    show "st_of (bs @ ys) b = BLOCK_ST_GOOD" if "unat s \<le> b" "b < unat e" for b
    proof -
      have "b < st_len bs" using that assms(2) wf_index [OF assms(1), of b] unfolding sl by simp
      then show ?thesis using that assms(7) by (simp add: st_of_append acceptable_def)
    qed
  qed
  show ?thesis
    unfolding nmbm_check_info_table_def h Option.bind.bind_lunit Let_def it xs ys
  proof (rule ok_bindI [OF cm], elim exE conjE, goal_cases)
    case (1 r t)
    then show ?case by (simp add: cs spare_top_def)
  qed
qed


section \<open>Trying one position\<close>

definition table_blocks :: "'d nmbm_instance \<Rightarrow> nat" where
  "table_blocks ni = blocks_for ni (unat (info_table_size ni))"

lemma table_blocks_static:
  assumes "static ni' = static ni"
  shows "table_blocks ni' = table_blocks ni"
  by (simp add: table_blocks_def blocks_for_static [OF assms] static_fields [OF assms])

lemma table_blocks_pos: "wf ni \<Longrightarrow> 0 < table_blocks ni"
  by (simp add: table_blocks_def wf_def blocks_for_step)

text \<open>A copy of the tables in unmarked blocks from \<open>ba\<close> on.\<close>

definition table_copy ::
    "crc_fun \<Rightarrow> 'd nmbm_instance \<Rightarrow> (u64 \<Rightarrow> bytes) \<Rightarrow> (nat \<Rightarrow> bool) \<Rightarrow> nmbm_info_table_header \<Rightarrow>
     u32 list \<Rightarrow> u32 list \<Rightarrow> nat \<Rightarrow> bool" where
  "table_copy crc ni pg mk it bs mp ba \<longleftrightarrow> ba + table_blocks ni \<le> unat (block_count ni) \<and>
     (\<exists>img. table_image crc ni it bs mp img \<and>
        stored pg (unat (writesize (lower ni))) (ba * 2 ^ es_sh ni) img) \<and>
     (\<forall>b. ba \<le> b \<and> b < ba + table_blocks ni \<longrightarrow> \<not> mk b)"

lemma table_copy_static:
  assumes "static ni' = static ni"
  shows "table_copy crc ni' pg mk it bs mp ba = table_copy crc ni pg mk it bs mp ba"
  by (simp add: table_copy_def static_fields [OF assms] table_blocks_static [OF assms] table_image_static [OF assms])

text \<open>A position that holds no table: a block recorded or marked as bad, or without a header.\<close>

definition no_table :: "'d nmbm_instance \<Rightarrow> (u64 \<Rightarrow> bytes) \<Rightarrow> (nat \<Rightarrow> bool) \<Rightarrow> u32 list \<Rightarrow> nat \<Rightarrow> bool" where
  "no_table ni pg mk bs b \<longleftrightarrow>
     st_of bs b \<noteq> BLOCK_ST_GOOD \<or> mk b \<or> blank pg (unat (writesize (lower ni))) (b * 2 ^ es_sh ni)"

lemma limit_unat:
  assumes "wf ni" and "unat ba + table_blocks ni \<le> unat (block_count ni)"
  shows "unat (ba + size2blk ni (ucast (info_table_size ni))) = unat ba + table_blocks ni"
    "ba + of_nat (table_blocks ni) = ba + size2blk ni (ucast (info_table_size ni))"
proof -
  note s = unat_size2blk [OF assms(1), folded table_blocks_def]
  show "unat (ba + size2blk ni (ucast (info_table_size ni))) = unat ba + table_blocks ni"
    using assms(2) wf_block_count [OF assms(1)] s by (subst unat_add_fits) simp_all
  have "of_nat (table_blocks ni) = size2blk ni (ucast (info_table_size ni))" by (simp flip: s)
  then show "ba + of_nat (table_blocks ni) = ba + size2blk ni (ucast (info_table_size ni))" by simp
qed

lemma try_load_scan:
  assumes "wf ni" and "memory (lower ni) (es_sh ni) good peek marked" and "good (chip ni)"
    and "reads_ok (lower ni) (es_sh ni) good marked"
    and "unat ba + table_blocks ni \<le> unat (block_count ni)"
  shows "ok (try_load_loop ni ba (ba + size2blk ni (ucast (info_table_size ni))) 0 (unat (info_table_size ni)) 0 True)
    (\<lambda>(r, ni'). scanned {b. marked (chip ni) b} ni ni' \<and>
      (r \<noteq> None \<longrightarrow>
        (\<forall>x. unat ba \<le> x \<and> x < unat ba + table_blocks ni \<longrightarrow> bst ni x = BLOCK_ST_GOOD \<and> \<not> marked (chip ni) x) \<and>
        ((32::nat) \<le> 2 ^ es_sh ni \<longrightarrow>
          \<not> blank (peek (chip ni)) (unat (writesize (lower ni))) (unat ba * 2 ^ es_sh ni))))"
proof -
  let ?lim = "ba + size2blk ni (ucast (info_table_size ni))"
  note lim = limit_unat(1) [OF assms(1,5)]
  have sz: "32 \<le> unat (info_table_size ni)" "length (info_table_cache ni) = unat (info_table_size ni)"
    using assms(1) by (simp_all add: wf_def)
  have "ok (try_load_loop ni ba ?lim 0 (unat (info_table_size ni)) 0 True) (\<lambda>(r, ni').
      scanned {b. marked (chip ni) b} ni ni' \<and>
      (r \<noteq> None \<longrightarrow> unat ba + blocks_for ni (unat (info_table_size ni)) +
        (if unat (info_table_size ni) \<noteq> 0 \<and> (bst ni (unat ba) \<noteq> BLOCK_ST_GOOD \<or> marked (chip ni) (unat ba)) then 1 else 0)
        \<le> unat ?lim) \<and>
      (r \<noteq> None \<and> True \<and> unat ?lim = unat ba + blocks_for ni (unat (info_table_size ni)) \<longrightarrow> (32::nat) \<le> 2 ^ es_sh ni \<longrightarrow>
       \<not> blank (peek (chip ni)) (unat (writesize (lower ni))) (unat ba * 2 ^ es_sh ni)) \<and>
      (r \<noteq> None \<and> unat ?lim = unat ba + blocks_for ni (unat (info_table_size ni)) \<longrightarrow>
        (\<forall>x. unat ba \<le> x \<and> x < unat ?lim \<longrightarrow> bst ni x = BLOCK_ST_GOOD \<and> \<not> marked (chip ni) x)))"
    by (rule try_load_loop_scan [OF assms(1-4)]) (use lim sz assms(5) in simp_all)
  then show ?thesis
    by (rule ok_mono2) (simp add: lim, simp add: table_blocks_def)
qed

lemma try_load_miss:
  assumes "wf ni" and "memory (lower ni) (es_sh ni) good peek marked" and "good (chip ni)"
    and "reads_ok (lower ni) (es_sh ni) good marked" and "(32::nat) \<le> 2 ^ es_sh ni"
    and "unat ba + table_blocks ni \<le> unat (block_count ni)"
    and "no_table ni (peek (chip ni)) (marked (chip ni)) (block_state ni) (unat ba)"
  shows "ok (nmbm_try_load_info_table crc ni ba loaded) (\<lambda>(r, ni'). r = None \<and>
    scanned {b. marked (chip ni) b} ni ni')"
proof -
  have "ok (try_load_loop ni ba (ba + size2blk ni (ucast (info_table_size ni))) 0 (unat (info_table_size ni)) 0 True)
      (\<lambda>(r, ni'). r = None \<and> scanned {b. marked (chip ni) b} ni ni')"
  proof (rule ok_mono2 [OF try_load_scan [OF assms(1-4,6)]], goal_cases)
    case (1 r ni')
    have "unat ba < unat ba + table_blocks ni" using table_blocks_pos [OF assms(1)] by simp
    then show ?case
      using 1 assms(5,7) by (cases r) (auto simp: no_table_def bst_def)
  qed
  then show ?thesis by (auto simp: nmbm_try_load_info_table_def Let_def ok_def)
qed

lemma try_load_copy:
  assumes "wf ni" and "memory (lower ni) (es_sh ni) good peek marked" and "good (chip ni)"
    and "reads_ok (lower ni) (es_sh ni) good marked" and "(32::nat) \<le> 2 ^ es_sh ni"
    and "table_copy crc ni (peek (chip ni)) (marked (chip ni)) it bs mp (unat ba)"
    and "\<And>b. unat ba \<le> b \<Longrightarrow> b < unat ba + table_blocks ni \<Longrightarrow> bst ni b = BLOCK_ST_GOOD"
    and "data_block_count ni \<le> block_count ni" and "length bs = length (block_state ni)"
    and "length mp = length (block_mapping ni)"
    and "acceptable ni bs mp ba (ba + of_nat (table_blocks ni))"
  shows "ok (nmbm_try_load_info_table crc ni ba loaded) (\<lambda>(r, ni'). \<exists>tp img ni2.
    r = Some (ba + of_nat (table_blocks ni), write_count it, tp) \<and>
    spare_top mp (data_block_count ni) (ba + of_nat (table_blocks ni)) (signature_ba ni) tp \<and>
    length img = length (info_table_cache ni) \<and> io {} (ni\<lparr>info_table_cache := img\<rparr>) ni2 \<and>
    ni' = (if \<not> loaded \<or> write_count (info_table ni) < write_count it
      then ni2\<lparr>info_table := it, block_state := bs, block_mapping := mp\<rparr> else ni2))"
proof -
  let ?lim = "ba + size2blk ni (ucast (info_table_size ni))"
  have fit: "unat ba + table_blocks ni \<le> unat (block_count ni)" using assms(6) by (simp add: table_copy_def)
  note lim = limit_unat [OF assms(1) fit]
  have sz: "32 \<le> unat (info_table_size ni)" "length (info_table_cache ni) = unat (info_table_size ni)"
    using assms(1) by (simp_all add: wf_def)
  obtain img where img: "table_image crc ni it bs mp img"
    and st: "stored (peek (chip ni)) (unat (writesize (lower ni))) (unat ba * 2 ^ es_sh ni) img"
    using assms(6) by (auto simp: table_copy_def)
  note im = img [unfolded table_image_def]
  have hdr: "nmbm_check_info_table_header ni x = Some True" if "take 32 x = take 32 img" "32 \<le> length x" for x
  proof -
    have "ift_of x = it" using that(1) im sz ift_of_take [of 32 x] ift_of_take [of 32 img] by simp
    then show ?thesis using im that(2) by (intro check_table_header_ok) simp_all
  qed
  have L: "ok (try_load_loop ni ba ?lim 0 (unat (info_table_size ni)) 0 True) (\<lambda>(r, ni').
    io {} (ni\<lparr>info_table_cache := img\<rparr>) ni' \<and>
    r = Some (if True then ba else 0, ba + of_nat (blocks_for ni (unat (info_table_size ni)))))"
    by (rule try_load_loop_good [OF assms(1-4)])
      (use lim fit st im sz hdr assms(5-7) in \<open>simp_all add: table_copy_def table_blocks_def\<close>)
  have wr: "wf (ni\<lparr>info_table_cache := img\<rparr>)" using assms(1) im by (simp add: wf_def es_sh_def read_only_def has_flag_def)
  show ?thesis
    unfolding nmbm_try_load_info_table_def Let_def
  proof (rule ok_bind2 [OF L], elim conjE, goal_cases)
    case (1 r ni2)
    have s2: "static ni2 = static ni" using io_static [OF 1(1)] im sz by (simp add: static_def)
    note f2 = static_fields [OF s2] and i2 = io_fields [OF 1(1), simplified]
    have wf2: "wf ni2" using assms(1) by (simp add: wf_static [OF s2])
    have im2: "table_image crc ni2 it bs mp img" using img by (simp add: table_image_static [OF s2])
    have e: "unat (ba + of_nat (table_blocks ni)) = unat ba + table_blocks ni" using lim by simp
    have ck: "ok (nmbm_check_info_table ni2 ba (ba + of_nat (table_blocks ni)) img) (\<lambda>r. \<exists>tp. r = Some tp \<and>
        spare_top mp (data_block_count ni2) (ba + of_nat (table_blocks ni)) (signature_ba ni2) tp)"
      by (rule nmbm_check_info_table_ok [OF wf2 _ _ im2])
        (use fit e assms(8-11) in \<open>simp_all add: f2 i2 acceptable_def\<close>)
    then obtain tp where tp: "nmbm_check_info_table ni2 ba (ba + of_nat (table_blocks ni)) img = Some (Some tp)"
      and spt: "spare_top mp (data_block_count ni) (ba + of_nat (table_blocks ni)) (signature_ba ni) tp"
      by (auto simp: ok_def i2)
    have h: "slice img 0 32 = Some (take 32 img)" and it: "ift_of (take 32 img) = it"
      using im sz by (simp_all add: slice_def ift_of_take)
    have ck2: "nmbm_check_header crc img (info_table_size ni) = Some True" using im by simp
    show ?case
      using 1 tp spt im sz
      by (simp add: i2 f2 ck2 h it flip: table_blocks_def) blast
  qed
qed


section \<open>Searching\<close>

text \<open>What a hit leaves: a scan, and the tables when they were loaded.\<close>

definition table_hit ::
    "nat set \<Rightarrow> 'd nmbm_instance \<Rightarrow> bool \<Rightarrow> nmbm_info_table_header \<Rightarrow> u32 list \<Rightarrow> u32 list \<Rightarrow> 'd nmbm_instance \<Rightarrow> bool" where
  "table_hit M ni loaded it bs mp ni' \<longleftrightarrow>
     (\<exists>ni2. scanned M ni ni2 \<and> ni' = (if \<not> loaded \<or> write_count (info_table ni) < write_count it
        then ni2\<lparr>info_table := it, block_state := bs, block_mapping := mp\<rparr> else ni2))"

lemma no_table_scanned:
  assumes "scanned M ni ni'" and "memory (lower ni) (es_sh ni) good peek marked" and "good (chip ni)"
    and "wf ni" and "b < unat (block_count ni)"
    and "no_table ni (peek (chip ni)) (marked (chip ni)) (block_state ni) b"
  shows "no_table ni' (peek (chip ni')) (marked (chip ni')) (block_state ni') b"
proof -
  note v = scanned_view [OF assms(1-3)]
  have "bst ni b \<noteq> BLOCK_ST_GOOD \<Longrightarrow> bst ni' b \<noteq> BLOCK_ST_GOOD"
    using scanned_bst [OF assms(1,4,5)] by auto
  then show ?thesis using assms(6) by (auto simp: no_table_def bst_def v)
qed

lemma search_hit:
  assumes "wf ni" and "memory (lower ni) (es_sh ni) good peek marked" and "good (chip ni)"
    and "reads_ok (lower ni) (es_sh ni) good marked" and "(32::nat) \<le> 2 ^ es_sh ni"
    and "unat ba \<le> unat m" and "unat m < unat bound"
    and "unat bound + table_blocks ni \<le> unat (block_count ni)"
    and "\<And>b. unat ba \<le> b \<Longrightarrow> b < unat m \<Longrightarrow> no_table ni (peek (chip ni)) (marked (chip ni)) (block_state ni) b"
    and "table_copy crc ni (peek (chip ni)) (marked (chip ni)) it bs mp (unat m)"
    and "\<And>b. unat m \<le> b \<Longrightarrow> b < unat m + table_blocks ni \<Longrightarrow> bst ni b = BLOCK_ST_GOOD"
    and "data_block_count ni \<le> block_count ni" and "length bs = length (block_state ni)"
    and "length mp = length (block_mapping ni)"
    and "acceptable ni bs mp m (m + of_nat (table_blocks ni))"
  shows "ok (search_loop crc ni ba bound loaded) (\<lambda>(r, ni'). \<exists>tp.
    r = Some (m, m + of_nat (table_blocks ni), write_count it, tp) \<and>
    spare_top mp (data_block_count ni) (m + of_nat (table_blocks ni)) (signature_ba ni) tp \<and>
    table_hit {b. marked (chip ni) b} ni loaded it bs mp ni')"
  using assms
proof (induction "unat m - unat ba" arbitrary: ni ba rule: less_induct)
  case less
  note wf = less.prems(1) and m = less.prems(2) and g = less.prems(3)
  let ?M = "{b. marked (chip ni) b}"
  have lt: "ba < bound" using less.prems(6,7) by (simp add: word_less_nat_alt)
  show ?case
  proof (cases "ba = m")
    case True
    have T: "ok (nmbm_try_load_info_table crc ni ba loaded) (\<lambda>(r, ni'). \<exists>tp img ni2.
      r = Some (ba + of_nat (table_blocks ni), write_count it, tp) \<and>
      spare_top mp (data_block_count ni) (ba + of_nat (table_blocks ni)) (signature_ba ni) tp \<and>
      length img = length (info_table_cache ni) \<and> io {} (ni\<lparr>info_table_cache := img\<rparr>) ni2 \<and>
      ni' = (if \<not> loaded \<or> write_count (info_table ni) < write_count it
        then ni2\<lparr>info_table := it, block_state := bs, block_mapping := mp\<rparr> else ni2))"
      unfolding True by (rule try_load_copy [OF wf m g less.prems(4,5,10-15)])
    show ?thesis
    proof (subst search_loop.simps, simp only: lt if_True, rule ok_bind2 [OF T], elim exE conjE, goal_cases)
      case (1 r ni' tp img ni2)
      have "scanned ?M ni ni2"
        by (rule scanned_trans [OF scanned_cache [OF 1(3)] scanned_io [OF 1(4)]])
      then have "table_hit ?M ni loaded it bs mp ni'" using 1(5) unfolding table_hit_def by blast
      then show ?case using 1(1,2) True by simp
    qed
  next
    case False
    then have nm: "unat ba < unat m" using less.prems(6) by (metis le_neq_implies_less word_unat_eq_iff)
    have sc: "unat (ba + 1) = Suc (unat ba)" by (rule unat_succ_below [OF lt])
    have T: "ok (nmbm_try_load_info_table crc ni ba loaded) (\<lambda>(r, ni'). r = None \<and> scanned ?M ni ni')"
      by (rule try_load_miss [OF wf m g less.prems(4,5)]) (use less.prems(7-9) nm in simp_all)
    show ?thesis
    proof (subst search_loop.simps, simp only: lt if_True, rule ok_bind2 [OF T], elim conjE, goal_cases)
      case (1 r ni1)
      note s = scanned_static [OF 1(2)] and v = scanned_view [OF 1(2) m g] and f = scanned_fields [OF 1(2)]
      note sf = static_fields [OF s] and tb = table_blocks_static [OF s]
      have IH: "ok (search_loop crc ni1 (ba + 1) bound loaded) (\<lambda>(r, ni'). \<exists>tp.
        r = Some (m, m + of_nat (table_blocks ni1), write_count it, tp) \<and>
        spare_top mp (data_block_count ni1) (m + of_nat (table_blocks ni1)) (signature_ba ni1) tp \<and>
        table_hit {b. marked (chip ni1) b} ni1 loaded it bs mp ni')"
      proof (rule less.hyps [OF _ _ v(4,1)])
        show "no_table ni1 (peek (chip ni1)) (marked (chip ni1)) (block_state ni1) b"
          if "unat (ba + 1) \<le> b" "b < unat m" for b
          by (rule no_table_scanned [OF 1(2) m g wf]) (use that sc less.prems(7-9) in simp_all)
        show "bst ni1 b = BLOCK_ST_GOOD" if "unat m \<le> b" "b < unat m + table_blocks ni1" for b
          using scanned_bst [OF 1(2) wf, of b] less.prems(7,8,10,11) that by (auto simp: tb table_copy_def)
        show "table_copy crc ni1 (peek (chip ni1)) (marked (chip ni1)) it bs mp (unat m)"
          using less.prems(10) by (simp add: table_copy_static [OF s] v)
        show "acceptable ni1 bs mp m (m + of_nat (table_blocks ni1))"
          using less.prems(15) by (simp add: acceptable_def f tb)
        show "wf ni1" using wf by (simp add: wf_static [OF s])
      qed (use nm sc less.prems in \<open>simp_all add: sf f tb\<close>)
      have hit: "table_hit ?M ni loaded it bs mp ni'" if h: "table_hit {b. marked (chip ni1) b} ni1 loaded it bs mp ni'" for ni'
      proof -
        obtain ni2 where "scanned ?M ni1 ni2" and e: "ni' = (if \<not> loaded \<or> write_count (info_table ni1) < write_count it
          then ni2\<lparr>info_table := it, block_state := bs, block_mapping := mp\<rparr> else ni2)"
          using h by (auto simp: table_hit_def v(3))
        then have "scanned ?M ni ni2" by (blast intro: scanned_trans [OF 1(2)])
        then show ?thesis unfolding table_hit_def using e by (intro exI [of _ ni2]) (simp add: f)
      qed
      show ?case
        unfolding 1(1) option.case
        by (rule ok_mono2 [OF IH]) (use hit in \<open>auto simp: f tb\<close>)
    qed
  qed
qed

lemma last_mapped_ok:
  assumes "unat i \<le> length mp" and "unat k \<le> unat i"
    and "\<And>j. unat k \<le> j \<Longrightarrow> j < unat i \<Longrightarrow> is_neg32 (mp ! j)"
    and "k = 0 \<or> \<not> is_neg32 (mp ! (unat k - 1))"
  shows "last_mapped mp i = Some (if k = 0 then None else Some k)"
  using assms
proof (induction "unat i" arbitrary: i)
  case 0
  then have "i = 0" "k = 0" by (simp_all add: unat_eq_zero)
  then show ?case by (subst last_mapped.simps) simp
next
  case (Suc n)
  then have "i \<noteq> 0" by auto
  then have pos: "i > 0" and pr: "unat (i - 1) = n" using Suc(2) by (simp_all add: word_neq_0_conv unat_minus_one)
  have l: "load mp (unat (i - 1)) = Some (mp ! n)" using Suc(2,3) pr by (simp add: load_def)
  show ?case
  proof (cases "k = i")
    case True
    then have "\<not> is_neg32 (mp ! n)" using Suc(2,6) \<open>i \<noteq> 0\<close> by (metis diff_Suc_1)
    then show ?thesis using True pos l by (subst last_mapped.simps) auto
  next
    case False
    then have "unat k \<le> n" using Suc(2,4) by (metis le_SucE word_unat_eq_iff)
    moreover have "is_neg32 (mp ! n)" using Suc(2,5) \<open>unat k \<le> n\<close> by auto
    moreover have "last_mapped mp (i - 1) = Some (if k = 0 then None else Some k)"
      using Suc pr \<open>unat k \<le> n\<close> by (intro Suc.hyps(1)) auto
    ultimately show ?thesis using pos l by (subst last_mapped.simps) auto
  qed
qed

end
