(* ===== verification/Nmbm_Reattach.thy ===== *)
theory Nmbm_Reattach
  imports Nmbm_Recovery
begin

text \<open>
  Attaching a chip that is in use. The tables that a successful write leaves in consecutive blocks
  are tables that the search accepts, and a chip with its signature and two such copies attaches
  with the recorded mapping and block states, without a write.
\<close>


section \<open>Loading two copies\<close>

lemma search_bound:
  assumes "wf ni" and "unat b + table_blocks ni < unat limit" and "unat limit \<le> unat (block_count ni)"
  shows "unat b < unat (limit - size2blk ni (ucast (info_table_size ni)))"
    "unat (limit - size2blk ni (ucast (info_table_size ni))) + table_blocks ni = unat limit"
proof -
  note s = unat_size2blk [OF assms(1), folded table_blocks_def]
  have "unat (limit - size2blk ni (ucast (info_table_size ni))) = unat limit - table_blocks ni"
    using assms s by (subst unat_sub_le) (simp_all add: word_le_nat_alt)
  then show "unat b < unat (limit - size2blk ni (ucast (info_table_size ni)))"
    "unat (limit - size2blk ni (ucast (info_table_size ni))) + table_blocks ni = unat limit"
    using assms by linarith+
qed

text \<open>
  A chip with two copies of the tables: the main copy at \<open>m\<close>, the backup at \<open>b\<close>, nothing that
  looks like a table before them, both with the same write count. The mapping keeps the last \<open>k\<close>
  data blocks.
\<close>

definition two_copies ::
    "crc_fun \<Rightarrow> 'd nmbm_instance \<Rightarrow> (u64 \<Rightarrow> bytes) \<Rightarrow> (nat \<Rightarrow> bool) \<Rightarrow> u32 \<Rightarrow> u32 \<Rightarrow>
     nmbm_info_table_header \<Rightarrow> u32 list \<Rightarrow> u32 list \<Rightarrow> u32 \<Rightarrow> u32 \<Rightarrow> u32 \<Rightarrow> bool" where
  "two_copies crc ni pg mk start sba it bs mp k m b \<longleftrightarrow>
     0 < unat start \<and> unat start \<le> unat m \<and> unat m + table_blocks ni \<le> unat b \<and>
     unat b + table_blocks ni < unat sba \<and> unat sba < unat (block_count ni) \<and>
     length bs = length (block_state ni) \<and> length mp = length (block_mapping ni) \<and>
     table_copy crc ni pg mk it bs mp (unat m) \<and> table_copy crc ni pg mk it bs mp (unat b) \<and>
     (\<forall>x. unat start \<le> x \<and> x < unat m \<longrightarrow>
        mk x \<or> blank pg (unat (writesize (lower ni))) (x * 2 ^ es_sh ni)) \<and>
     (\<forall>x. unat m + table_blocks ni \<le> x \<and> x < unat b \<longrightarrow> no_table ni pg mk bs x) \<and>
     (\<forall>x. unat m \<le> x \<and> x < unat m + table_blocks ni \<longrightarrow> st_of bs x = BLOCK_ST_GOOD) \<and>
     (\<forall>x. unat b \<le> x \<and> x < unat b + table_blocks ni \<longrightarrow> st_of bs x = BLOCK_ST_GOOD) \<and>
     (\<forall>i < unat start. mp ! i \<noteq> sba \<and>
        (unat (mp ! i) < unat start \<or> unat b + table_blocks ni < unat (mp ! i))) \<and>
     (\<forall>x \<in> set mp. is_neg32 x \<or> x < block_count ni) \<and>
     0 < unat k \<and> unat k \<le> unat start \<and> \<not> is_neg32 (mp ! (unat k - 1)) \<and>
     (\<forall>i. unat k \<le> i \<and> i < unat start \<longrightarrow> is_neg32 (mp ! i))"

lemma table_hit_fields:
  assumes "table_hit M ni loaded it bs mp ni'"
  shows "data_block_count ni' = data_block_count ni" "signature_ba ni' = signature_ba ni"
    "signature ni' = signature ni" "mgmt_start_ba ni' = mgmt_start_ba ni"
    "main_table_ba ni' = main_table_ba ni" "backup_table_ba ni' = backup_table_ba ni"
    "protected ni' = protected ni"
    "dev_reach (lower ni) (es_sh ni) {} (chip ni) (chip ni')"
proof -
  obtain ni2 where s: "scanned M ni ni2" and e: "ni' = (if \<not> loaded \<or> write_count (info_table ni) < write_count it
      then ni2\<lparr>info_table := it, block_state := bs, block_mapping := mp\<rparr> else ni2)"
    using assms by (auto simp: table_hit_def)
  note f = scanned_fields [OF s]
  show "data_block_count ni' = data_block_count ni" "signature_ba ni' = signature_ba ni"
    "signature ni' = signature ni" "mgmt_start_ba ni' = mgmt_start_ba ni"
    "main_table_ba ni' = main_table_ba ni" "backup_table_ba ni' = backup_table_ba ni"
    "protected ni' = protected ni"
    by (simp_all add: e f)
  have "dev_reach (lower ni) (es_sh ni) {} (chip ni) (chip ni2)" using s by (auto simp: scanned_def)
  then show "dev_reach (lower ni) (es_sh ni) {} (chip ni) (chip ni')" by (simp add: e)
qed

lemma table_hit_loaded:
  assumes "table_hit M ni False it bs mp ni'" and "length bs = length (block_state ni)"
    and "length mp = length (block_mapping ni)"
  shows "info_table ni' = it" "block_state ni' = bs" "block_mapping ni' = mp" "static ni' = static ni"
proof -
  obtain ni2 where s: "scanned M ni ni2" and e: "ni' = ni2\<lparr>info_table := it, block_state := bs, block_mapping := mp\<rparr>"
    using assms(1) by (auto simp: table_hit_def)
  show "info_table ni' = it" "block_state ni' = bs" "block_mapping ni' = mp" by (simp_all add: e)
  have "length (block_state ni2) = length (block_state ni)" "block_mapping ni2 = block_mapping ni"
    using s by (auto simp: scanned_def degrades_length)
  then show "static ni' = static ni" using scanned_static [OF s] assms(2,3) by (simp add: static_def e)
qed

lemma table_hit_again:
  assumes "table_hit M ni True it bs mp ni'" and "write_count it \<le> write_count (info_table ni)"
  shows "scanned M ni ni'"
  using assms by (auto simp: table_hit_def)

lemma two_copies_acceptable:
  assumes "two_copies crc ni pg mk (data_block_count ni) (signature_ba ni) it bs mp k m b" and "wf ni"
  shows "acceptable ni bs mp m (m + of_nat (table_blocks ni))"
    "acceptable ni bs mp b (b + of_nat (table_blocks ni))"
proof -
  note t = assms(1) [unfolded two_copies_def]
  have "unat (m + of_nat (table_blocks ni)) = unat m + table_blocks ni"
    using limit_unat [OF assms(2), of m] t by simp
  moreover have "unat (b + of_nat (table_blocks ni)) = unat b + table_blocks ni"
    using limit_unat [OF assms(2), of b] t by simp
  ultimately show "acceptable ni bs mp m (m + of_nat (table_blocks ni))"
    "acceptable ni bs mp b (b + of_nat (table_blocks ni))"
    using t unfolding acceptable_def by (force simp: word_le_nat_alt word_less_nat_alt)+
qed

text \<open>What loading leaves.\<close>

definition recovered ::
    "nat set \<Rightarrow> 'd nmbm_instance \<Rightarrow> nmbm_info_table_header \<Rightarrow> u32 list \<Rightarrow> u32 list \<Rightarrow> u32 \<Rightarrow>
     u32 \<Rightarrow> u32 \<Rightarrow> 'd nmbm_instance \<Rightarrow> bool" where
  "recovered M ni it bs mp k m b ni' \<longleftrightarrow>
     static ni' = static ni \<and> signature ni' = signature ni \<and> signature_ba ni' = signature_ba ni \<and>
     mgmt_start_ba ni' = mgmt_start_ba ni \<and> main_table_ba ni' = m \<and> backup_table_ba ni' = b \<and>
     mapping_blocks_ba ni' = b + of_nat (table_blocks ni) \<and>
     spare_top mp (mgmt_start_pb (signature ni)) (m + of_nat (table_blocks ni)) (signature_ba ni)
       (mapping_blocks_top_ba ni') \<and>
     data_block_count ni' = k \<and> block_mapping ni' = mp \<and> bitmap.degrades M bs (block_state ni') \<and>
     state_table_off (info_table ni') = state_table_off it \<and>
     mapping_table_off (info_table ni') = mapping_table_off it \<and>
     dev_reach (lower ni) (es_sh ni) {} (chip ni) (chip ni')"

lemma nmbm_load_info_table_ok:
  assumes "wf ni" and "memory (lower ni) (es_sh ni) good peek marked" and "good (chip ni)"
    and "reads_ok (lower ni) (es_sh ni) good marked" and "(32::nat) \<le> 2 ^ es_sh ni"
    and "two_copies crc ni (peek (chip ni)) (marked (chip ni)) (mgmt_start_pb (signature ni)) (signature_ba ni)
      it bs mp k m b"
    and "\<And>x. x < unat (block_count ni) \<Longrightarrow> bst ni x = BLOCK_ST_GOOD"
  shows "ok (nmbm_load_info_table crc ni (mgmt_start_pb (signature ni)) (signature_ba ni)) (\<lambda>(r, ni'). r \<and>
    recovered {x. marked (chip ni) x} ni it bs mp k m b ni')"
proof -
  let ?s = "mgmt_start_pb (signature ni)" and ?sba = "signature_ba ni" and ?M = "{x. marked (chip ni) x}"
  let ?n = "table_blocks ni"
  define n0 where "n0 = ni\<lparr>main_table_ba := 0, backup_table_ba := 0,
      info_table := (info_table ni)\<lparr>write_count := 0\<rparr>,
      mapping_blocks_top_ba := ?sba - 1, data_block_count := ?s\<rparr>"
  have s0: "static n0 = static ni" by (simp add: n0_def static_def)
  note f0 = static_fields [OF s0] and tb0 = table_blocks_static [OF s0]
  have e0: "chip n0 = chip ni" "data_block_count n0 = ?s" "signature_ba n0 = ?sba" "signature n0 = signature ni"
    "block_state n0 = block_state ni" "block_mapping n0 = block_mapping ni" "mgmt_start_ba n0 = mgmt_start_ba ni"
    by (simp_all add: n0_def)
  have wf0: "wf n0" using assms(1) by (simp add: wf_static [OF s0])
  note t = assms(6) [unfolded two_copies_def]
  have tc0: "two_copies crc n0 (peek (chip n0)) (marked (chip n0)) (data_block_count n0) (signature_ba n0) it bs mp k m b"
    using assms(6) by (simp add: two_copies_def f0 tb0 e0 table_copy_static [OF s0] no_table_def)
  note ac = two_copies_acceptable [OF tc0 wf0]
  have nb: "unat (m + of_nat ?n) = unat m + ?n" "unat (b + of_nat ?n) = unat b + ?n"
    using limit_unat [OF assms(1), of m] limit_unat [OF assms(1), of b] t by simp_all
  let ?lim = "?sba - size2blk n0 (ucast (info_table_size n0))"
  have mb: "unat m < unat ?lim" and mbs: "unat ?lim + table_blocks n0 = unat ?sba"
    using search_bound [OF wf0, of m ?sba] t by (simp_all add: f0 tb0)
  have H1: "ok (nmbm_search_info_table crc n0 ?s ?sba False) (\<lambda>(r, ni'). \<exists>tp.
    r = Some (m, m + of_nat (table_blocks n0), write_count it, tp) \<and>
    spare_top mp (data_block_count n0) (m + of_nat (table_blocks n0)) (signature_ba n0) tp \<and>
    table_hit {b. marked (chip n0) b} n0 False it bs mp ni')"
    unfolding nmbm_search_info_table_def
  proof (rule search_hit [OF wf0, where good = good and peek = peek and marked = marked])
    show "no_table n0 (peek (chip n0)) (marked (chip n0)) (block_state n0) x" if "unat ?s \<le> x" "x < unat m" for x
      using t that by (auto simp: no_table_def e0 f0)
    show "bst n0 x = BLOCK_ST_GOOD" if "unat m \<le> x" "x < unat m + table_blocks n0" for x
      using assms(7) [of x] that t by (simp add: bst_def e0 tb0)
  qed (use assms(2-5) t mb mbs ac(1) in \<open>simp_all add: e0 f0 tb0 table_copy_static [OF s0] word_le_nat_alt\<close>)
  obtain tp n1 where h1: "nmbm_search_info_table crc n0 ?s ?sba False = Some (Some (m, m + of_nat ?n, write_count it, tp), n1)"
    and tp: "spare_top mp ?s (m + of_nat ?n) ?sba tp" and hit1: "table_hit ?M n0 False it bs mp n1"
    using H1 by (auto simp: ok_def tb0 e0)
  have lens: "length bs = length (block_state n0)" "length mp = length (block_mapping n0)" using t by (simp_all add: e0)
  note l1 = table_hit_loaded [OF hit1 lens] and g1 = table_hit_fields [OF hit1]
  define n2 where "n2 = n1\<lparr>main_table_ba := m\<rparr>"
  have s2: "static n2 = static ni" using l1(4) s0 by (simp add: n2_def static_def)
  note f2 = static_fields [OF s2] and tb2 = table_blocks_static [OF s2]
  have e2: "data_block_count n2 = ?s" "signature_ba n2 = ?sba" "signature n2 = signature ni"
    "block_state n2 = bs" "block_mapping n2 = mp" "info_table n2 = it" "main_table_ba n2 = m"
    "backup_table_ba n2 = 0" "mgmt_start_ba n2 = mgmt_start_ba ni"
    using l1 g1 e0 by (simp_all add: n2_def) (simp add: n0_def)
  have r2: "dev_reach (lower ni) (es_sh ni) {} (chip ni) (chip n2)" using g1(8) by (simp add: n2_def e0 f0)
  have v2: "good (chip n2)" "peek (chip n2) = peek (chip ni)" "marked (chip n2) = marked (chip ni)"
    using dev_reach_untouched [OF r2 assms(2,3)] by simp_all
  have wf2: "wf n2" using assms(1) by (simp add: wf_static [OF s2])
  have H2: "ok (nmbm_search_info_table crc n2 (m + of_nat ?n) ?sba True) (\<lambda>(r, ni'). \<exists>tp.
    r = Some (b, b + of_nat (table_blocks n2), write_count it, tp) \<and>
    spare_top mp (data_block_count n2) (b + of_nat (table_blocks n2)) (signature_ba n2) tp \<and>
    table_hit {b. marked (chip n2) b} n2 True it bs mp ni')"
    unfolding nmbm_search_info_table_def
  proof (rule search_hit [OF wf2, where good = good and peek = peek and marked = marked])
    show "unat b < unat (?sba - size2blk n2 (ucast (info_table_size n2)))"
      "unat (?sba - size2blk n2 (ucast (info_table_size n2))) + table_blocks n2 \<le> unat (block_count n2)"
      using search_bound [OF wf2, of b ?sba] t by (simp_all add: f2 tb2)
    show "no_table n2 (peek (chip n2)) (marked (chip n2)) (block_state n2) x"
      if "unat (m + of_nat ?n) \<le> x" "x < unat b" for x
      using t that by (auto simp: no_table_def e2 f2 nb v2)
    show "bst n2 x = BLOCK_ST_GOOD" if "unat b \<le> x" "x < unat b + table_blocks n2" for x
      using that t by (simp add: bst_def e2 tb2)
    show "acceptable n2 bs mp b (b + of_nat (table_blocks n2))"
      using ac(2) by (simp add: acceptable_def e2 e0 tb2 tb0)
  qed (use assms(2-5) t nb in \<open>simp_all add: e2 f2 tb2 v2 table_copy_static [OF s2] word_le_nat_alt\<close>)
  obtain tp2 n3 where h2: "nmbm_search_info_table crc n2 (m + of_nat ?n) ?sba True =
      Some (Some (b, b + of_nat ?n, write_count it, tp2), n3)" and hit2: "table_hit ?M n2 True it bs mp n3"
    using H2 by (auto simp: ok_def tb2 v2)
  have sc: "scanned ?M n2 n3" by (rule table_hit_again [OF hit2]) (simp add: e2)
  note g3 = scanned_fields [OF sc]
  define n4 where "n4 = n3\<lparr>backup_table_ba := b, mapping_blocks_top_ba := tp, mapping_blocks_ba := b + of_nat ?n,
    data_block_count := k\<rparr>"
  have s4: "static n4 = static ni" using scanned_static [OF sc] s2 by (simp add: n4_def static_def)
  have wf4: "wf n4" using assms(1) by (simp add: wf_static [OF s4])
  obtain img where img: "table_image crc ni it bs mp img" using t by (auto simp: table_copy_def)
  have fit4: "fits n4" using img by (simp add: fits_def table_image_def n4_def g3 e2 static_fields [OF s4, unfolded n4_def, simplified])
  obtain c buf where gen: "nmbm_generate_info_table_cache crc n4 =
      Some (tables_changed n4, n4\<lparr>info_table_cache := c, info_table := next_info_table n4\<rparr>)"
    and lc: "length c = length (info_table_cache n4)"
    by (rule nmbm_generate_info_table_cache_eq [OF wf4 fit4])
  have lm: "last_mapped mp ?s = Some (Some k)"
    using last_mapped_ok [of ?s mp k] t wf0 assms(1) by (auto simp: wf_def)
  have b0: "b \<noteq> 0" using t by auto
  have deg: "bitmap.degrades ?M bs (block_state n3)" using sc e2 by (auto simp: scanned_def)
  have r3: "dev_reach (lower ni) (es_sh ni) {} (chip ni) (chip n3)"
    using dev_reach_trans [OF r2] sc f2 by (auto simp: scanned_def)
  define x where "x = n4\<lparr>info_table_cache := c, info_table := next_info_table n4\<rparr>"
  have b4: "backup_table_ba n4 = b" by (simp add: n4_def)
  have run: "nmbm_load_info_table crc ni ?s ?sba =
      (if has_flag x NMBM_F_READ_ONLY then Some (True, x)
       else Some (True, if mapping_blocks_ba x = mapping_blocks_top_ba x then x\<lparr>protected := True\<rparr> else x))"
    unfolding nmbm_load_info_table_def Let_def n0_def [symmetric] h1
    using b0 by (simp add: n2_def [symmetric] h2 lm g3 e2)
      (simp add: gen b4 x_def flip: n4_def)
  have "static (x\<lparr>protected := pr\<rparr>) = static ni" for pr
    using s4 lc by (simp add: static_def x_def)
  then have rc: "recovered ?M ni it bs mp k m b (x\<lparr>protected := pr\<rparr>)" for pr
    using r3 deg tp by (simp add: recovered_def x_def next_info_table_def n4_def g3 e2)
  have "x = x\<lparr>protected := protected x\<rparr>" by (cases x) simp
  then have "recovered ?M ni it bs mp k m b x" using rc by metis
  then show ?thesis using rc unfolding run by simp
qed


lemma two_copies_static:
  assumes "static ni' = static ni"
  shows "two_copies crc ni' pg mk start sba it bs mp k m b = two_copies crc ni pg mk start sba it bs mp k m b"
  by (simp add: two_copies_def table_blocks_static [OF assms] table_copy_static [OF assms] static_fields [OF assms] no_table_def)

lemma recovered_attached:
  assumes "recovered M ni it bs mp k m b ni'" and "wf ni" and "mgmt_start_ba ni = mgmt_start_pb (signature ni)"
    and "two_copies crc ni pg mk (mgmt_start_pb (signature ni)) (signature_ba ni) it bs mp k m b"
  shows "attached ni'"
proof -
  note r = assms(1) [unfolded recovered_def] and t = assms(4) [unfolded two_copies_def]
  have s: "static ni' = static ni" using r by simp
  note f = static_fields [OF s]
  have u: "unat (m + of_nat (table_blocks ni)) = unat m + table_blocks ni"
    "unat (b + of_nat (table_blocks ni)) = unat b + table_blocks ni"
    using limit_unat [OF assms(2), of m] limit_unat [OF assms(2), of b] t by simp_all
  let ?tp = "mapping_blocks_top_ba ni'" and ?sba = "signature_ba ni"
  have st: "?tp + 1 \<le> ?sba" "?tp + 1 = ?sba \<or> (\<exists>i < unat (mgmt_start_pb (signature ni)).
      m + of_nat (table_blocks ni) \<le> mp ! i \<and> ?tp + 1 = mp ! i)"
    using r by (auto simp: spare_top_def)
  have "unat b + table_blocks ni < unat (?tp + 1)"
    using st(2)
  proof (elim disjE exE conjE)
    fix i
    assume i: "i < unat (mgmt_start_pb (signature ni))" "m + of_nat (table_blocks ni) \<le> mp ! i" "?tp + 1 = mp ! i"
    then have "unat (mgmt_start_pb (signature ni)) \<le> unat (mp ! i)" using t u(1) by (simp add: word_le_nat_alt)
    then show ?thesis using t i by auto
  qed (use t in simp)
  moreover from this have "unat (?tp + 1) = Suc (unat ?tp)" by (metis unatSuc Suc_eq_plus1 add.commute not_less_zero unat_0)
  moreover have "unat (?tp + 1) \<le> unat ?sba" using st(1) by (simp add: word_le_nat_alt)
  ultimately have tp: "unat b + table_blocks ni \<le> unat ?tp" "unat ?tp < unat (block_count ni)" using t by linarith+
  obtain img where img: "table_image crc ni it bs mp img" using t by (auto simp: table_copy_def)
  then have "fits ni'" using r by (simp add: fits_def table_image_def f)
  moreover have "mapped ni'" using r t f by (simp add: mapped_def)
  ultimately show ?thesis
    using r t tp u assms(2,3) table_blocks_pos [OF assms(2)]
    by (simp add: attached_def lay_def wf_static [OF s] f word_le_nat_alt word_less_nat_alt)
qed

section \<open>Finding the signature\<close>

lemma page_offs_first: "0 < unat es \<Longrightarrow> 0 < unat ws \<Longrightarrow> \<exists>xs. page_offs 0 es ws = 0 # xs"
  by (subst page_offs.simps) (auto simp: word_less_nat_alt unat_ucast_u32_u64)

lemma find_loop_hit:
  assumes "wf ni" and "memory (lower ni) (es_sh ni) good peek marked" and "good (chip ni)"
    and "reads_ok (lower ni) (es_sh ni) good marked" and "(48::nat) \<le> 2 ^ es_sh ni"
    and "unat sba < unat ba" and "unat ba \<le> unat (block_count ni)" and "unat lim \<le> unat sba + 1"
    and "\<And>x. unat sba < x \<Longrightarrow> x < unat ba \<Longrightarrow> marked (chip ni) x" and "\<not> marked (chip ni) (unat sba)"
    and "stored (peek (chip ni)) (unat (writesize (lower ni))) (unat sba * 2 ^ es_sh ni) d"
    and "length d = 48" and "nmbm_check_header crc d 48 = Some True"
    and "hdr_magic (header_of d) = NMBM_MAGIC_SIGNATURE" and "length buf = 48"
  shows "ok (find_loop crc ni ba lim buf) (\<lambda>(r, ni'). r = Some (sig_of d, sba) \<and> io {} ni ni')"
  using assms
proof (induction "unat ba" arbitrary: ni ba rule: less_induct)
  case less
  note wf = less.prems(1) and m = less.prems(2) and g = less.prems(3)
  have pr: "unat (ba - 1) = unat ba - 1" by (rule unat_minus_one) (use less.prems(6) in auto)
  have lim: "lim \<le> ba" using less.prems(6,8) by (simp add: word_le_nat_alt)
  obtain bad ni1 where c: "nmbm_check_bad_phys_block ni (ba - 1) = Some (bad, ni1)"
    using nmbm_check_bad_phys_block_ok [OF wf, of "ba - 1"] by (auto simp: ok_def)
  note cb = mem_check_bad [OF wf m g c]
  note v1 = io_view [OF cb(3) m g] and f1 = static_fields [OF io_static [OF cb(3)]]
  have wf1: "wf ni1" using wf cb(3) by (simp add: io_wf)
  show ?case
  proof (cases "ba - 1 = sba")
    case True
    have nb: "\<not> bad" using cb(1) less.prems(10) True by simp
    have rd: "ok (nmbn_read_data ni1 (ba2addr ni1 sba) buf) (\<lambda>(r, dat, ni'). r = 0 \<and> io {} ni1 ni' \<and> length dat = length buf \<and>
      stored (peek (chip ni1)) (unat (writesize (lower ni1))) (unat sba * 2 ^ es_sh ni1) dat)"
      by (rule mem_read_block [OF wf1 v1(4,1)]) (use less.prems v1 f1 in simp_all)
    then obtain dat ni2 where r: "nmbn_read_data ni1 (ba2addr ni1 sba) buf = Some (0, dat, ni2)" and i2: "io {} ni1 ni2"
      and dat: "length dat = 48" "stored (peek (chip ni)) (unat (writesize (lower ni))) (unat sba * 2 ^ es_sh ni) dat"
      using less.prems(15) by (auto simp: ok_def v1 f1)
    have "dat = d" by (rule stored_unique [OF dat(2) less.prems(11)]) (use dat(1) less.prems(12) in simp)
    moreover obtain xs where "page_offs 0 (erasesize (lower ni1)) (writesize (lower ni1)) = 0 # xs"
      using page_offs_first wf_erasesize [OF wf1] wf1 by (metis wf_def zero_less_numeral zero_less_power)
    moreover have "io {} ni ni2" by (rule io_trans [OF cb(3) i2])
    ultimately show ?thesis
      using lim c nb True r less.prems(13,14) by (subst find_loop.simps) simp
  next
    case False
    then have lt: "unat sba < unat (ba - 1)" using less.prems(6) pr by (metis Suc_pred' less_SucE less_nat_zero_code word_unat_eq_iff zero_less_iff_neq_zero not_less_zero)
    have bad using cb(1) less.prems(6,9) lt pr by simp
    have "ok (find_loop crc ni1 (ba - 1) lim buf) (\<lambda>(r, ni'). r = Some (sig_of d, sba) \<and> io {} ni1 ni')"
      by (rule less.hyps [OF _ wf1 v1(4,1)]) (use less.prems lt pr v1 f1 in simp_all)
    then show ?thesis
      using lim c \<open>bad\<close> io_trans [OF cb(3)] by (subst find_loop.simps) (auto simp: ok_def)
  qed
qed

text \<open>
  A used chip, seen from the instance \<open>ni\<close> that is being attached: the signature \<open>d\<close> in block
  \<open>sba\<close>, the last block without a mark, with the geometry of the lower device, and two copies of
  the tables below it.
\<close>

definition used_chip ::
    "crc_fun \<Rightarrow> 'd nmbm_instance \<Rightarrow> (u64 \<Rightarrow> bytes) \<Rightarrow> (nat \<Rightarrow> bool) \<Rightarrow> bytes \<Rightarrow> u32 \<Rightarrow>
     nmbm_info_table_header \<Rightarrow> u32 list \<Rightarrow> u32 list \<Rightarrow> u32 \<Rightarrow> u32 \<Rightarrow> u32 \<Rightarrow> bool" where
  "used_chip crc ni pg mk d sba it bs mp k m b \<longleftrightarrow>
     (48::nat) \<le> 2 ^ es_sh ni \<and> length d = 48 \<and> nmbm_check_header crc d 48 = Some True \<and>
     hdr_magic (header_of d) = NMBM_MAGIC_SIGNATURE \<and> hdr_version (sig_header (sig_of d)) = NMBM_VER \<and>
     nand_size (sig_of d) = chip_size (lower ni) \<and> block_size (sig_of d) = erasesize (lower ni) \<and>
     page_size (sig_of d) = writesize (lower ni) \<and> spare_size (sig_of d) = oobsize (lower ni) \<and>
     unat (find_limit (lower ni) (block_count ni)) \<le> unat sba + 1 \<and>
     stored pg (unat (writesize (lower ni))) (unat sba * 2 ^ es_sh ni) d \<and>
     \<not> mk (unat sba) \<and> (\<forall>x. unat sba < x \<and> x < unat (block_count ni) \<longrightarrow> mk x) \<and>
     two_copies crc ni pg mk (mgmt_start_pb (sig_of d)) sba it bs mp k m b"

lemma find_signature_used:
  assumes "wf ni" and "geometry (lower ni) p (es_sh ni) c" and "unat (block_count ni) = 2 ^ c"
    and "memory (lower ni) (es_sh ni) good peek marked" and "good (chip ni)"
    and "reads_ok (lower ni) (es_sh ni) good marked"
    and "used_chip crc ni (peek (chip ni)) (marked (chip ni)) d sba it bs mp k m b"
  shows "ok (nmbm_find_signature crc ni) (\<lambda>(r, ni'). r = Some (sig_of d, sba) \<and> io {} ni ni')"
proof -
  let ?bc = "ucast (drop_bit (es_sh ni) (chip_size (lower ni))) :: u32"
  have bc: "?bc = block_count ni"
    using geometry_block_count [OF assms(2)] assms(3) by (simp add: word_unat_eq_iff)
  note u = assms(7) [unfolded used_chip_def]
  have "unat sba < unat (block_count ni)" using u by (simp add: two_copies_def)
  then have "ok (find_loop crc ni (block_count ni) (find_limit (lower ni) (block_count ni)) (replicate 48 0))
      (\<lambda>(r, ni'). r = Some (sig_of d, sba) \<and> io {} ni ni')"
    by (intro find_loop_hit [OF assms(1,4-6)]) (use u in simp_all)
  then show ?thesis by (simp add: nmbm_find_signature_def Let_def bc [unfolded es_sh_def] es_sh_def)
qed

lemma load_existing_used:
  assumes "wf ni" and "memory (lower ni) (es_sh ni) good peek marked" and "good (chip ni)"
    and "reads_ok (lower ni) (es_sh ni) good marked" and "(32::nat) \<le> 2 ^ es_sh ni"
    and "two_copies crc ni (peek (chip ni)) (marked (chip ni)) (mgmt_start_pb (signature ni)) (signature_ba ni)
      it bs mp k m b"
    and "\<And>x. x < unat (block_count ni) \<Longrightarrow> bst ni x = BLOCK_ST_GOOD"
  shows "ok (nmbm_load_existing crc ni) (\<lambda>(r, ni'). r \<and> attached ni' \<and>
    recovered {x. marked (chip ni) x} (ni\<lparr>mgmt_start_ba := mgmt_start_pb (signature ni)\<rparr>) it bs mp k m b ni')"
proof -
  define n0 where "n0 = ni\<lparr>mgmt_start_ba := mgmt_start_pb (signature ni)\<rparr>"
  have s0: "static n0 = static ni" by (simp add: n0_def static_def)
  note f0 = static_fields [OF s0]
  have e0: "chip n0 = chip ni" "signature n0 = signature ni" "signature_ba n0 = signature_ba ni"
    "mgmt_start_ba n0 = mgmt_start_pb (signature n0)" "block_state n0 = block_state ni"
    by (simp_all add: n0_def)
  have wf0: "wf n0" using assms(1) by (simp add: wf_static [OF s0])
  have t0: "two_copies crc n0 (peek (chip n0)) (marked (chip n0)) (mgmt_start_pb (signature n0)) (signature_ba n0)
      it bs mp k m b"
    using assms(6) by (simp add: two_copies_static [OF s0] e0)
  have "ok (nmbm_load_info_table crc n0 (mgmt_start_pb (signature n0)) (signature_ba n0)) (\<lambda>(r, ni'). r \<and>
    recovered {x. marked (chip n0) x} n0 it bs mp k m b ni')"
    by (rule nmbm_load_info_table_ok [where good = good and peek = peek and marked = marked, OF wf0 _ _ _ _ t0])
      (use assms(2-5,7) in \<open>simp_all add: f0 e0 bst_def\<close>)
  then obtain ni' where r: "nmbm_load_info_table crc n0 (mgmt_start_pb (signature n0)) (signature_ba n0) = Some (True, ni')"
    and rc: "recovered {x. marked (chip n0) x} n0 it bs mp k m b ni'"
    by (auto simp: ok_def)
  have "attached ni'" by (rule recovered_attached [OF rc wf0 e0(4) t0])
  then show ?thesis using r rc e0 unfolding nmbm_load_existing_def Let_def by (simp flip: n0_def)
qed

lemma check_lower_sizes:
  assumes "nmbm_check_lower_members nld = (True, nld')"
  shows "chip_size nld' = chip_size nld" "erasesize nld' = erasesize nld" "writesize nld' = writesize nld"
    "oobsize nld' = oobsize nld"
proof -
  have "nld' = nld \<or> nld' = nld\<lparr>max_ratio := 1\<rparr>"
    using assms by (simp add: nmbm_check_lower_members_def Let_def split: if_splits)
  then show "chip_size nld' = chip_size nld" "erasesize nld' = erasesize nld" "writesize nld' = writesize nld"
    "oobsize nld' = oobsize nld"
    by auto
qed

lemma attach_used_ok:
  assumes "nmbm_check_lower_members nld = (True, nld')" and "geometry nld p b c"
    and "memory nld' b good peek marked" and "good (chip ni)" and "reads_ok nld' b good marked"
    and "nmbm_init_structure (ni\<lparr>log_display_level := NMBM_DEFAULT_LOG_LEVEL, lower := nld'\<rparr>) = Some i"
    and "used_chip crc i (peek (chip ni)) (marked (chip ni)) d sba it bs mp k m bk"
  shows "ok (nmbm_attach crc nld ni) (\<lambda>(ret, ni'). ret = 0 \<and> attached ni' \<and> lower ni' = nld' \<and>
    signature ni' = sig_of d \<and> signature_ba ni' = sba \<and> mgmt_start_ba ni' = mgmt_start_pb (sig_of d) \<and>
    main_table_ba ni' = m \<and> backup_table_ba ni' = bk \<and> data_block_count ni' = k \<and> block_mapping ni' = mp \<and>
    bitmap.degrades {x. marked (chip ni) x} bs (block_state ni') \<and>
    dev_reach nld' b {} (chip ni) (chip ni'))"
proof -
  let ?i = "ni\<lparr>log_display_level := NMBM_DEFAULT_LOG_LEVEL, lower := nld'\<rparr>"
  note chk = check_lower_fields [OF assms(1)]
  have g: "geometry (lower ?i) p b c" using assms(2) chk(7) by simp
  obtain i' where "nmbm_init_structure ?i = Some i'" and i: "lower i' = nld'" "chip i' = chip ni" "wf i'"
      "unat (block_count i') = 2 ^ c" "\<forall>x < 2 ^ c. bst i' x = BLOCK_ST_GOOD" "es_sh i' = b"
    using init_structure_ok [OF g] chk by auto
  then have ii: "i' = i" using assms(6) by simp
  note i = i [unfolded ii]
  note u = assms(7) [unfolded used_chip_def]
  have "ok (nmbm_find_signature crc i) (\<lambda>(r, ni'). r = Some (sig_of d, sba) \<and> io {} i ni')"
    by (rule find_signature_used [OF i(3) _ i(4)]) (use g assms(3-5,7) i in simp_all)
  then obtain i2 where fs: "nmbm_find_signature crc i = Some (Some (sig_of d, sba), i2)" and io: "io {} i i2"
    by (auto simp: ok_def)
  have mi: "memory (lower i) (es_sh i) good peek marked" "good (chip i)" using assms(3,4) i by simp_all
  note v = io_view [OF io mi] and iof = io_fields [OF io]
  define i3 where "i3 = i2\<lparr>signature := sig_of d, signature_ba := sba\<rparr>"
  have s3: "static i3 = static i" using io_static [OF io] by (simp add: i3_def static_def)
  note f3 = static_fields [OF s3]
  have e3: "signature i3 = sig_of d" "signature_ba i3 = sba" "chip i3 = chip i2" "block_state i3 = block_state i"
    by (simp_all add: i3_def iof)
  have L: "ok (nmbm_load_existing crc i3) (\<lambda>(r, ni'). r \<and> attached ni' \<and>
    recovered {x. marked (chip i3) x} (i3\<lparr>mgmt_start_ba := mgmt_start_pb (signature i3)\<rparr>) it bs mp k m bk ni')"
    by (rule load_existing_used [where good = good and peek = peek])
      (use u i mi v assms(5) in \<open>simp_all add: f3 e3 wf_static [OF s3] two_copies_static [OF s3] bst_def\<close>)
  have d2: "dev_reach nld' b {} (chip ni) (chip i2)" using io i by (auto simp: io_def)
  have hdr: "hdr_version (sig_header (signature i3)) = NMBM_VER" "nand_size (signature i3) = chip_size nld"
    "block_size (signature i3) = erasesize nld" "page_size (signature i3) = writesize nld" "spare_size (signature i3) = oobsize nld"
    using u i check_lower_sizes [OF assms(1)] by (simp_all add: e3)
  have run: "nmbm_attach crc nld ni = Option.bind (nmbm_load_existing crc i3)
      (\<lambda>(success, ni). Some (if success then 0 else - ENODEV, ni))"
    using hdr assms(1,6) fs e3(1) check_lower_sizes [OF assms(1)] unfolding nmbm_attach_def by (simp add: Let_def flip: i3_def)
  show ?thesis
    unfolding run
  proof (rule ok_bind2 [OF L], elim conjE, goal_cases)
    case (1 r ni')
    have f: "lower i3 = nld'" "es_sh i3 = b" "marked (chip i3) = marked (chip ni)" "chip i3 = chip i2"
      using f3 e3 v i by simp_all
    have "static (i3\<lparr>mgmt_start_ba := x\<rparr>) = static i3" for x by (simp add: static_def)
    then have s: "static ni' = static i3" using 1(3) unfolding recovered_def by metis
    have "dev_reach nld' b {} (chip i2) (chip ni')"
      using 1 f by (simp add: recovered_def es_sh_def)
    then have "dev_reach nld' b {} (chip ni) (chip ni')" using d2 by (blast intro: dev_reach_trans)
    moreover have "lower ni' = nld'" using static_fields(1) [OF s] f(1) by simp
    ultimately show ?case using 1 f e3 by (simp add: recovered_def)
  qed
qed

section \<open>From a write to a copy that can be loaded\<close>

lemma generate_table_image:
  assumes "wf ni" and "fits ni" and "crc_incremental crc"
  shows "ok (nmbm_generate_info_table_cache crc ni) (\<lambda>(changed, ni'). \<exists>c.
    ni' = ni\<lparr>info_table_cache := c, info_table := next_info_table ni\<rparr> \<and>
    table_image crc ni (ift_of c) (block_state ni) (block_mapping ni) c \<and>
    write_count (ift_of c) = write_count (next_info_table ni))"
proof -
  obtain c buf where g: "nmbm_generate_info_table_cache crc ni =
      Some (tables_changed ni, ni\<lparr>info_table_cache := c, info_table := next_info_table ni\<rparr>)"
    and lc: "length c = length (info_table_cache ni)" and u: "nmbm_update_checksum crc buf = Some c"
    and lb: "length buf = length c" and io: "ift_of buf = next_info_table ni"
    and st: "slice c (unat (state_table_off (info_table ni))) (unat (state_table_size ni)) =
      Some (words_to_bytes (block_state ni))"
    and mp: "slice c (unat (mapping_table_off (info_table ni))) (unat (mapping_table_size ni)) =
      Some (words_to_bytes (block_mapping ni))"
    by (rule nmbm_generate_info_table_cache_eq [OF assms(1,2)])
  have sz: "unat (info_table_size ni) = length buf" "32 \<le> length buf"
    using assms(1) lc lb by (simp_all add: wf_def)
  have hd: "header_of buf = ift_header (next_info_table ni)"
    by (simp add: ift_of_def flip: io)
  then have hs: "hdr_size (header_of buf) = info_table_size ni" by (simp add: next_info_table_def)
  have c: "nmbm_check_header crc c (info_table_size ni) = Some True" "drop 16 c = drop 16 buf"
      "header_of c = (header_of buf)\<lparr>hdr_checksum := hdr_checksum (header_of c)\<rparr>"
    using update_then_check [OF assms(3), of buf "info_table_size ni"] u hs sz by simp_all
  have it: "ift_of c = (next_info_table ni)\<lparr>ift_header := header_of c\<rparr>"
    using ift_of_behind [OF c(2)] lb sz io by simp
  have "hdr_magic (header_of c) = NMBM_MAGIC_INFO_TABLE" "hdr_size (header_of c) = info_table_size ni"
    by (subst c(3), simp add: hd next_info_table_def)+
  then have "table_image crc ni (ift_of c) (block_state ni) (block_mapping ni) c"
    using c(1) st mp sz lb assms(2) by (simp add: table_image_def it fits_def next_info_table_def)
  then show ?thesis by (auto simp: g it)
qed

lemma laid_on_length: "laid_on pg ws (2 ^ es_sh ni) bs d \<Longrightarrow> length bs = blocks_for ni (length d)"
proof (induction bs arbitrary: d)
  case (Cons b bs)
  then have "length bs = blocks_for ni (length (drop (2 ^ es_sh ni) d))" by (intro Cons.IH) simp
  then show ?case using Cons.prems by (simp add: blocks_for_step [of "length d"])
qed (simp add: blocks_for_step)

lemma laid_on_run: "laid_on pg ws es [s..<s + k] d \<Longrightarrow> stored pg ws (s * es) d"
proof (induction k arbitrary: s d)
  case (Suc k)
  have u: "[s..<s + Suc k] = s # [Suc s..<Suc s + k]" by (simp add: upt_conv_Cons)
  then have st: "stored pg ws (s * es) (take es d)" and "laid_on pg ws es [Suc s..<Suc s + k] (drop es d)"
    using Suc.prems by simp_all
  then have r: "stored pg ws (Suc s * es) (drop es d)" using Suc.IH by blast
  have "stored pg ws (s * es + length (take es d)) (drop es d)"
  proof (cases "es \<le> length d")
    case True
    then show ?thesis using r by (simp add: add.commute min_absorb2)
  qed (simp add: stored_def)
  then show ?case using st stored_append [of pg ws "s * es" "take es d" "drop es d"] by simp
qed (simp add: stored_def)

lemma strict_run:
  assumes "sorted_wrt (<) bs" and "set bs \<subseteq> {s..<s + length bs}"
  shows "bs = [s..<s + length bs]"
proof -
  have d: "distinct bs" "sorted bs" using assms(1) by (simp_all add: strict_sorted_iff)
  have "card (set bs) = card {s..<s + length bs}" using d(1) by (simp add: distinct_card)
  then have "set bs = {s..<s + length bs}" using assms(2) by (intro card_subset_eq) simp_all
  then show ?thesis using d by (intro sorted_distinct_set_unique) simp_all
qed

lemma sorted_hd_least: "sorted_wrt (<) bs \<Longrightarrow> x \<in> set bs \<Longrightarrow> hd bs \<le> x" for x :: nat
  by (cases bs) auto

lemma written_table_copy:
  assumes "wf ni" and "fits ni" and "crc_incremental crc"
    and "memory (lower ni) (es_sh ni) good peek marked" and "good (chip ni)"
    and "nmbm_generate_info_table_cache crc ni = Some (ch, ni1)"
    and "unat limit \<le> unat (block_count ni)" and "unat ba \<le> unat limit"
    and "nmbm_write_info_table ni1 ba limit = Some (Some (s, e), ni2)"
    and "unat e = unat s + table_blocks ni"
  shows "table_copy crc ni (peek (chip ni2)) (marked (chip ni2)) (ift_of (info_table_cache ni1))
      (block_state ni) (block_mapping ni) (unat s)"
    and "\<And>b. unat s \<le> b \<Longrightarrow> b < unat e \<Longrightarrow> bst ni b = BLOCK_ST_GOOD"
proof -
  obtain c where n1: "ni1 = ni\<lparr>info_table_cache := c, info_table := next_info_table ni\<rparr>"
    and im: "table_image crc ni (ift_of c) (block_state ni) (block_mapping ni) c"
    using generate_table_image [OF assms(1-3)] assms(6) by (auto simp: ok_def)
  have lc: "length c = unat (info_table_size ni)" "0 < length c" "length c = length (info_table_cache ni)"
    using im assms(1) by (simp_all add: table_image_def wf_def)
  have s1: "static ni1 = static ni" using lc by (simp add: n1 static_def)
  note f1 = static_fields [OF s1]
  have wf1: "wf ni1" using assms(1) by (simp add: wf_static [OF s1])
  have w: "mgmt_loop ni1 ba limit c (length c) None = Some (Some (s, e), ni2)"
    using assms(9) lc(1) by (simp add: nmbm_write_info_table_def nmbm_write_mgmt_range_def n1 slice_def)
  have "\<exists>bs. sorted_wrt (<) bs \<and> set bs \<subseteq> {unat ba..<unat e} \<and>
      laid_on (peek (chip ni2)) (unat (writesize (lower ni1))) (2 ^ es_sh ni1) bs c \<and>
      (\<forall>b \<in> set bs. bst ni1 b = BLOCK_ST_GOOD \<and> \<not> marked (chip ni2) b) \<and>
      (length c = length c \<longrightarrow> bs \<noteq> [] \<and> hd bs = unat s)"
    by (rule mem_mgmt_loop [where good = good, OF wf1 _ _ _ assms(8) _ lc(2) _ w])
      (use assms(4,5,7) in \<open>simp_all add: f1, simp add: n1\<close>)
  then obtain bs where bs: "sorted_wrt (<) bs" "set bs \<subseteq> {unat ba..<unat e}"
    "laid_on (peek (chip ni2)) (unat (writesize (lower ni))) (2 ^ es_sh ni) bs c"
    "\<forall>b \<in> set bs. bst ni b = BLOCK_ST_GOOD \<and> \<not> marked (chip ni2) b" "bs \<noteq> []" "hd bs = unat s"
    by (auto simp: f1) (auto simp: n1 bst_def)
  have len: "length bs = table_blocks ni" using laid_on_length [OF bs(3)] lc(1) by (simp add: table_blocks_def)
  have "set bs \<subseteq> {unat s..<unat s + length bs}"
    using bs(2,6) sorted_hd_least [OF bs(1)] assms(10) len by auto
  then have run: "bs = [unat s..<unat s + table_blocks ni]" using strict_run [OF bs(1)] len by metis
  have "mgmt_result ni1 (unat ba) (unat limit) (length c) (Some (s, e)) ni2"
    using nmbm_write_mgmt_range_ok [OF wf1 _ assms(8), of c] assms(7) lc w
    by (cases "c = []") (auto simp: nmbm_write_mgmt_range_def ok_def f1)
  then have "unat e \<le> unat limit" by (simp add: mgmt_result_def)
  then show "table_copy crc ni (peek (chip ni2)) (marked (chip ni2)) (ift_of (info_table_cache ni1))
      (block_state ni) (block_mapping ni) (unat s)"
    using im laid_on_run [of _ _ "2 ^ es_sh ni" "unat s" "table_blocks ni" c] bs(3,4) assms(7,10)
    unfolding run table_copy_def n1 by auto
  show "bst ni b = BLOCK_ST_GOOD" if "unat s \<le> b" "b < unat e" for b
    using bs(4) that assms(10) unfolding run by simp
qed


lemma written_then_loaded:
  assumes "wf ni" and "fits ni" and "crc_incremental crc"
    and "memory (lower ni) (es_sh ni) good peek marked" and "good (chip ni)"
    and "reads_ok (lower ni) (es_sh ni) good marked" and "(32::nat) \<le> 2 ^ es_sh ni"
    and "nmbm_generate_info_table_cache crc ni = Some (ch, ni1)"
    and "unat limit \<le> unat (block_count ni)" and "unat ba \<le> unat limit"
    and "nmbm_write_info_table ni1 ba limit = Some (Some (s, e), ni2)"
    and "unat e = unat s + table_blocks ni"
    and "static ld = static ni" and "chip ld = chip ni2"
    and "\<And>b. unat s \<le> b \<Longrightarrow> b < unat e \<Longrightarrow> bst ld b = BLOCK_ST_GOOD"
    and "data_block_count ld \<le> block_count ld" and "acceptable ld (block_state ni) (block_mapping ni) s e"
  shows "ok (nmbm_try_load_info_table crc ld s False) (\<lambda>(r, ld').
    (\<exists>tp. r = Some (e, write_count (info_table ni1), tp)) \<and> block_state ld' = block_state ni \<and>
    block_mapping ld' = block_mapping ni \<and> dev_reach (lower ni) (es_sh ni) {} (chip ni2) (chip ld'))"
proof -
  note f = static_fields [OF assms(13)] and tb = table_blocks_static [OF assms(13)]
  have wfl: "wf ld" using assms(1) by (simp add: wf_static [OF assms(13)])
  obtain c where n1: "ni1 = ni\<lparr>info_table_cache := c, info_table := next_info_table ni\<rparr>"
    and im: "table_image crc ni (ift_of c) (block_state ni) (block_mapping ni) c"
    and wc: "write_count (ift_of c) = write_count (next_info_table ni)"
    using generate_table_image [OF assms(1-3)] assms(8) by (auto simp: ok_def)
  have lc: "length c = length (info_table_cache ni)" using im assms(1) by (simp add: table_image_def wf_def)
  have s1: "static ni1 = static ni" using lc by (simp add: n1 static_def)
  note f1 = static_fields [OF s1]
  have wf1: "wf ni1" using assms(1) by (simp add: wf_static [OF s1])
  have "mgmt_result ni1 (unat ba) (unat limit) (unat (info_table_size ni1)) (Some (s, e)) ni2"
    using nmbm_write_info_table_ok [OF wf1, of limit ba] assms(9,11) by (simp add: ok_def f1)
  then have "blk {unat ba..<unat limit} ni1 ni2" by (simp add: mgmt_result_def)
  from blk_untouched [OF this] have g2: "good (chip ni2)" using assms(4,5) wf1 by (simp add: f1, simp add: n1)
  note cp = written_table_copy [OF assms(1-5,8-12)]
  have "unat s + table_blocks ld \<le> unat (block_count ld)" using cp(1) by (simp add: table_copy_def tb f)
  from limit_unat [OF wfl this] have e: "e = s + of_nat (table_blocks ld)"
    using assms(12) by (simp add: word_unat_eq_iff tb)
  have "ok (nmbm_try_load_info_table crc ld s False) (\<lambda>(r, ni'). \<exists>tp img ni2.
    r = Some (s + of_nat (table_blocks ld), write_count (ift_of c), tp) \<and>
    spare_top (block_mapping ni) (data_block_count ld) (s + of_nat (table_blocks ld)) (signature_ba ld) tp \<and>
    length img = length (info_table_cache ld) \<and> io {} (ld\<lparr>info_table_cache := img\<rparr>) ni2 \<and>
    ni' = (if \<not> False \<or> write_count (info_table ld) < write_count (ift_of c)
      then ni2\<lparr>info_table := ift_of c, block_state := block_state ni, block_mapping := block_mapping ni\<rparr> else ni2))"
    by (rule try_load_copy [OF wfl, where good = good and peek = peek and marked = marked])
      (use assms(4,6,7,12,15-17) g2 e cp(1)
       in \<open>simp_all add: f assms(14) n1 tb table_copy_static [OF assms(13)]\<close>)
  then show ?thesis
    by (rule ok_mono2) (auto simp: e n1 wc io_def f assms(14) es_sh_def)
qed

text \<open>A table is loaded from a position only when all its blocks from there on are good.\<close>

lemma try_load_hit_run:
  assumes "wf ni" and "memory (lower ni) (es_sh ni) good peek marked" and "good (chip ni)"
    and "reads_ok (lower ni) (es_sh ni) good marked"
    and "unat ba + table_blocks ni \<le> unat (block_count ni)"
    and "nmbm_try_load_info_table crc ni ba loaded = Some (r, ni')" and "r \<noteq> None"
    and "unat ba \<le> b" and "b < unat ba + table_blocks ni"
  shows "bst ni b = BLOCK_ST_GOOD \<and> \<not> marked (chip ni) b"
proof -
  obtain x ni1 where "try_load_loop ni ba (ba + size2blk ni (ucast (info_table_size ni))) 0
      (unat (info_table_size ni)) 0 True = Some (x, ni1)" and "x \<noteq> None"
    using assms(6,7) by (auto simp: nmbm_try_load_info_table_def bind_eq_Some_conv split: option.splits)
  then show ?thesis using try_load_scan [OF assms(1-5)] assms(8,9) by (simp add: ok_def)
qed

end
