(* ===== verification/Nmbm_Used_Chip.thy ===== *)
theory Nmbm_Used_Chip
  imports Nmbm_Reattach
begin

text \<open>
  The properties of attaching a used chip, with a chip in memory on which their hypotheses hold: its
  signature and both copies of its tables are in place and some of its blocks are marked as bad.
\<close>


section \<open>A chip in memory\<close>

text \<open>A chip as a function from page addresses to pages with a list of marked blocks.\<close>

type_synonym ram = "(u64 \<Rightarrow> bytes) \<times> nat list"

definition ram_lower :: "ram nmbm_lower_device" where
  "ram_lower = \<lparr>max_ratio = 1, max_reserved_blocks = 0, flags = 0, chip_size = 2048,
     erasesize = 128, writesize = 64, oobsize = 4, oobavail = 4, reset_chip = None,
     read_page = Some (\<lambda>a d b m c. (0, fst c a, replicate 4 0xff, c)),
     write_page = Some (\<lambda>a d b m c. (0, case d of None \<Rightarrow> c | Some x \<Rightarrow>
       if length x = 64 then ((fst c)(a := x), snd c) else c)), panic_write_page = None,
     erase_block = Some (\<lambda>a c. (0, (\<lambda>x. if unat (drop_bit 7 x) = unat (drop_bit 7 a) then replicate 64 0xff else fst c x), snd c)),
     is_bad_block = Some (\<lambda>a c. (if unat (drop_bit 7 a) \<in> set (snd c) then 1 else 0, c)),
     mark_bad_block = Some (\<lambda>a c. (0, (fst c, unat (drop_bit 7 a) # snd c)))\<rparr>"

definition ram_good :: "ram \<Rightarrow> bool" where
  "ram_good c \<longleftrightarrow> (\<forall>a. length (fst c a) = 64)"

definition ram_marked :: "ram \<Rightarrow> nat \<Rightarrow> bool" where
  "ram_marked c b \<longleftrightarrow> b \<in> set (snd c)"

lemma memory_ram: "memory ram_lower 7 ram_good fst ram_marked"
  unfolding memory_def
  by (auto simp: ram_lower_def reset_law_def read_law_def write_law_def write_page_law_def panic_law_def
      erase_law_def query_law_def mark_law_def ram_good_def ram_marked_def untouched_def split: option.splits if_splits)

lemma reads_ram: "reads_ok ram_lower 7 ram_good ram_marked"
  by (auto simp: ram_lower_def reads_ok_def)

lemma geometry_ram: "geometry ram_lower 6 7 4"
  by (simp add: geometry_def ram_lower_def)

text \<open>The instance as nmbm_init_structure lays it out.\<close>

definition ram_init :: "ram \<Rightarrow> ram nmbm_instance" where
  "ram_init c = (zero_ni ram_lower c)\<lparr>log_display_level := NMBM_DEFAULT_LOG_LEVEL,
     rawpage_size := 68, rawblock_size := 136, rawchip_size := 2176, writesize_mask := 63, erasesize_mask := 127,
     writesize_shift := 6, erasesize_shift := 7, block_count := 16, state_table_size := 4, mapping_table_size := 64,
     info_table_size := 192, info_table := (info_table (zero_ni ram_lower c))\<lparr>state_table_off := 64, mapping_table_off := 128\<rparr>,
     info_table_spare_blocks := nmbm_get_spare_block_count 2, info_table_cache := replicate 192 0,
     block_state := [- 1], block_mapping := replicate 16 0, page_cache := replicate 68 0\<rparr>"

lemma ffs_64: "ffs 64 = 7" "ffs 128 = 8"
  by code_simp+

lemma init_ram:
  "nmbm_init_structure ((zero_ni ram_lower c)\<lparr>log_display_level := NMBM_DEFAULT_LOG_LEVEL, lower := ram_lower\<rparr>) =
    Some (ram_init c)"
  by (simp add: nmbm_init_structure_def Let_def ram_init_def zero_ni_def ram_lower_def nmbm_lldiv_def ffs_64
      NMBM_ALIGN_def size2blk_def)

lemma es_sh_ram: "es_sh (ram_init c) = 7"
  by (simp add: es_sh_def ram_init_def)

lemma lower_ram: "lower (ram_init c) = ram_lower" "block_count (ram_init c) = 16"
  "info_table_size (ram_init c) = 192"
  by (simp_all add: ram_init_def zero_ni_def)

lemma wf_ram: "wf (ram_init c)" "fits (ram_init c)"
proof -
  obtain i where "nmbm_init_structure ((zero_ni ram_lower c)\<lparr>log_display_level := NMBM_DEFAULT_LOG_LEVEL, lower := ram_lower\<rparr>) = Some i"
    and "wf i" "fits i"
    using init_structure_ok [of "(zero_ni ram_lower c)\<lparr>log_display_level := NMBM_DEFAULT_LOG_LEVEL, lower := ram_lower\<rparr>" 6 7 4]
      geometry_ram by (auto simp: ram_lower_def)
  then show "wf (ram_init c)" "fits (ram_init c)" by (simp_all add: init_ram)
qed

lemma table_blocks_ram: "table_blocks (ram_init c) = 2"
  by (simp add: table_blocks_def lower_ram blocks_for_step es_sh_ram)

lemma sig_of_behind:
  assumes "drop 16 c = drop 16 buf" and "length c = length buf" and "48 \<le> length buf"
  shows "sig_of c = (sig_of buf)\<lparr>sig_header := header_of c\<rparr>"
proof -
  have r: "rd32 c i = rd32 buf i" if "16 \<le> i" "i \<le> 40" for i
    unfolding rd32_def using nth_behind [OF assms(1,2)] that assms(2,3) by simp
  have "rd64 c 16 = rd64 buf 16" by (simp add: rd64_def r)
  moreover have "drop 41 c = drop 41 buf"
    using arg_cong [OF assms(1), of "drop 25"] by simp
  moreover have "c ! 40 = buf ! 40" using nth_behind [OF assms(1,2), of 40] assms(2,3) by simp
  ultimately show ?thesis by (simp add: sig_of_def r)
qed

definition ram_signature_buf :: bytes where
  "ram_signature_buf = sig_bytes
     \<lparr>sig_header = \<lparr>hdr_magic = NMBM_MAGIC_SIGNATURE, hdr_version = NMBM_VER, hdr_size = 48, hdr_checksum = 0\<rparr>,
      nand_size = 2048, block_size = 128, page_size = 64, spare_size = 4, mgmt_start_pb = 7,
      max_try_count = 3, sig_padding = replicate 7 0\<rparr>"

definition ram_signature :: bytes where
  "ram_signature = the (nmbm_update_checksum demo_crc ram_signature_buf)"

definition ram_mapping :: "u32 list" where
  "ram_mapping = [0, 1, 2, 13, 4, 5, 6] @ replicate 9 (- 1)"

definition ram_states :: "u32 list" where
  "ram_states = [0xffffff3f]"

definition ram_table :: bytes where
  "ram_table = info_table_cache (snd (the (nmbm_generate_info_table_cache demo_crc
     ((ram_init (\<lambda>_. [], []))\<lparr>block_state := ram_states, block_mapping := ram_mapping\<rparr>))))"

definition ram_chip :: ram where
  "ram_chip = (\<lambda>a. if a = 1024 \<or> a = 1280 then take 64 ram_table
     else if a = 1088 \<or> a = 1344 then take 64 (drop 64 ram_table)
     else if a = 1152 \<or> a = 1408 then drop 128 ram_table
     else if a = 1792 then ram_signature @ replicate 16 0xff else replicate 64 0xff, [15, 7, 3])"

lemma ram_signature_facts:
  "length ram_signature = 48" "nmbm_check_header demo_crc ram_signature 48 = Some True"
  "hdr_magic (header_of ram_signature) = NMBM_MAGIC_SIGNATURE"
  "hdr_version (sig_header (sig_of ram_signature)) = NMBM_VER"
  "nand_size (sig_of ram_signature) = 2048" "block_size (sig_of ram_signature) = 128"
  "page_size (sig_of ram_signature) = 64" "spare_size (sig_of ram_signature) = 4"
  "mgmt_start_pb (sig_of ram_signature) = 7"
proof -
  let ?s = "\<lparr>sig_header = \<lparr>hdr_magic = NMBM_MAGIC_SIGNATURE, hdr_version = NMBM_VER, hdr_size = 48, hdr_checksum = 0\<rparr>,
      nand_size = 2048, block_size = 128, page_size = 64, spare_size = 4, mgmt_start_pb = 7,
      max_try_count = 3, sig_padding = replicate 7 0\<rparr> :: nmbm_signature"
  have l: "length ram_signature_buf = 48" by (simp add: ram_signature_buf_def)
  have h: "header_of ram_signature_buf = sig_header ?s" by (simp add: ram_signature_buf_def header_of_sig_bytes)
  have so: "sig_of ram_signature_buf = ?s" unfolding ram_signature_buf_def by (rule sig_round_trip)
  have "ok (nmbm_update_checksum demo_crc ram_signature_buf) (\<lambda>buf'.
     nmbm_check_header demo_crc buf' 48 = Some True \<and> length buf' = length ram_signature_buf \<and>
     drop 16 buf' = drop 16 ram_signature_buf \<and>
     header_of buf' = (header_of ram_signature_buf)\<lparr>hdr_checksum := hdr_checksum (header_of buf')\<rparr>)"
    by (rule update_then_check [OF demo_crc_incremental]) (simp_all add: l h)
  then have c: "nmbm_check_header demo_crc ram_signature 48 = Some True" "length ram_signature = 48"
     "drop 16 ram_signature = drop 16 ram_signature_buf"
     "header_of ram_signature = (sig_header ?s)\<lparr>hdr_checksum := hdr_checksum (header_of ram_signature)\<rparr>"
    by (auto simp: ok_def ram_signature_def l h)
  have s: "sig_of ram_signature = ?s\<lparr>sig_header := header_of ram_signature\<rparr>"
    using sig_of_behind [OF c(3)] l c(2) so by simp
  show "length ram_signature = 48" "nmbm_check_header demo_crc ram_signature 48 = Some True" using c by simp_all
  show "hdr_magic (header_of ram_signature) = NMBM_MAGIC_SIGNATURE" by (subst c(4)) simp
  show "hdr_version (sig_header (sig_of ram_signature)) = NMBM_VER" by (simp add: s, subst c(4)) simp
  show "nand_size (sig_of ram_signature) = 2048" "block_size (sig_of ram_signature) = 128"
    "page_size (sig_of ram_signature) = 64" "spare_size (sig_of ram_signature) = 4"
    "mgmt_start_pb (sig_of ram_signature) = 7"
    by (simp_all add: s)
qed

lemma static_ram:
  "static ((ram_init c)\<lparr>block_state := ram_states, block_mapping := ram_mapping\<rparr>) = static (ram_init c')"
  by (simp add: static_def ram_states_def ram_mapping_def) (simp add: ram_init_def zero_ni_def)

lemma ram_table_image: "table_image demo_crc (ram_init c) (ift_of ram_table) ram_states ram_mapping ram_table"
proof -
  define i where "i = (ram_init (\<lambda>_. [], []))\<lparr>block_state := ram_states, block_mapping := ram_mapping\<rparr>"
  have s: "static i = static (ram_init c)" unfolding i_def by (rule static_ram)
  have f: "fits i" using wf_ram(2) by (simp add: fits_def i_def)
  have w: "wf i" using wf_ram(1) by (simp add: wf_static [OF s])
  have e: "block_state i = ram_states" "block_mapping i = ram_mapping" by (simp_all add: i_def)
  obtain ch c' where g: "nmbm_generate_info_table_cache demo_crc i =
      Some (ch, i\<lparr>info_table_cache := c', info_table := next_info_table i\<rparr>)"
    and t: "table_image demo_crc i (ift_of c') ram_states ram_mapping c'"
    using generate_table_image [OF w f demo_crc_incremental] by (auto simp only: ok_def e)
  have "ram_table = c'" unfolding ram_table_def i_def [symmetric] g by simp
  then show ?thesis using t by (simp only: table_image_static [OF s])
qed

lemma length_ram_table: "length ram_table = 192"
  using ram_table_image by (simp add: table_image_def lower_ram)

lemma ram_good_chip: "ram_good ram_chip"
  by (auto simp: ram_good_def ram_chip_def length_ram_table ram_signature_facts)

lemma ram_stored_table:
  assumes "a = 1024 \<or> a = 1280"
  shows "stored (fst ram_chip) 64 a ram_table"
proof -
  have st: "stored (fst ram_chip) 64 p (fst ram_chip (of_nat p))" if "p mod 64 = 0" for p
    by (subst stored_page [where n = 64 and p = "of_nat p"]) (use that ram_good_chip in \<open>simp_all add: ram_good_def\<close>)
  have "drop 64 ram_table = take 64 (drop 64 ram_table) @ drop 128 ram_table"
    using append_take_drop_id [of 64 "drop 64 ram_table", symmetric] by simp
  then have t: "ram_table = take 64 ram_table @ take 64 (drop 64 ram_table) @ drop 128 ram_table"
    using append_take_drop_id [of 64 ram_table, symmetric] by simp
  have pages: "stored (fst ram_chip) 64 a (take 64 ram_table)"
    "stored (fst ram_chip) 64 (a + 64) (take 64 (drop 64 ram_table))"
    "stored (fst ram_chip) 64 (a + 128) (drop 128 ram_table)"
    using assms st [of a] st [of "a + 64"] st [of "a + 128"] by (auto simp: ram_chip_def)
  have "stored (fst ram_chip) 64 a (take 64 ram_table @ take 64 (drop 64 ram_table) @ drop 128 ram_table)"
    using pages by (simp add: stored_append length_ram_table add.commute [of 128])
  then show ?thesis by (simp flip: t)
qed


lemma ram_stored_signature: "stored (fst ram_chip) 64 1792 ram_signature"
  by (subst stored_page [where n = 48 and p = 1792]) (simp_all add: ram_chip_def ram_signature_facts)

lemma used_ram:
  "used_chip demo_crc (ram_init ram_chip) (fst ram_chip) (ram_marked ram_chip) ram_signature 14
     (ift_of ram_table) ram_states ram_mapping 7 8 10"
proof -
  have copy: "table_copy demo_crc (ram_init ram_chip) (fst ram_chip) (ram_marked ram_chip) (ift_of ram_table)
      ram_states ram_mapping b" if "b = 8 \<or> b = 10" for b
    using that ram_table_image [of ram_chip] ram_stored_table [of "b * 128"]
    unfolding table_copy_def table_blocks_ram es_sh_ram
    by (auto simp: lower_ram ram_lower_def ram_marked_def ram_chip_def)
  have good: "list_all (\<lambda>x. st_of ram_states x = BLOCK_ST_GOOD) [8, 9, 10, 11]" by code_simp
  have maps: "list_all (\<lambda>i. ram_mapping ! i \<noteq> 14 \<and> (unat (ram_mapping ! i) < 7 \<or> 12 < unat (ram_mapping ! i))) [0, 1, 2, 3, 4, 5, 6]"
    by code_simp
  have bounds: "list_all (\<lambda>x. is_neg32 x \<or> x < 16) ram_mapping" "\<not> is_neg32 (ram_mapping ! 6)" by code_simp+
  have ex: "x < 7 \<Longrightarrow> x \<in> {0, 1, 2, 3, 4, 5, 6}" "8 \<le> x \<Longrightarrow> x < 12 \<Longrightarrow> x \<in> {8, 9, 10, 11}" for x :: nat by auto
  have lens: "length ram_states = length (block_state (ram_init ram_chip))"
    "length ram_mapping = length (block_mapping (ram_init ram_chip))"
    by (simp_all add: ram_states_def ram_mapping_def ram_init_def)
  have g: "st_of ram_states x = BLOCK_ST_GOOD" if "8 \<le> x" "x < 12" for x
    using ex(2) [OF that] good by auto
  have mp: "ram_mapping ! i \<noteq> 14 \<and> (unat (ram_mapping ! i) < 7 \<or> 12 < unat (ram_mapping ! i))" if "i < 7" for i
    using ex(1) [OF that] maps by auto
  have tc: "two_copies demo_crc (ram_init ram_chip) (fst ram_chip) (ram_marked ram_chip) 7 14 (ift_of ram_table)
      ram_states ram_mapping 7 8 10"
    unfolding two_copies_def table_blocks_ram
    using copy lens g mp bounds by (auto simp: lower_ram list_all_iff ram_marked_def ram_chip_def)
  have lim: "unat (find_limit ram_lower 16) \<le> 15"
    by (simp add: find_limit_def ram_lower_def NMBM_MGMT_DIV_def)
  have "x = 15" if "14 < x" "x < 16" for x :: nat using that by simp
  then show ?thesis
    unfolding used_chip_def es_sh_ram
    using tc lim ram_signature_facts ram_stored_signature
    by (auto simp: lower_ram ram_lower_def ram_marked_def ram_chip_def)
qed

text \<open>C3: On a chip that works as a memory and whose unmarked blocks can be read, which holds the
  signature in its last unmarked block and below it two copies of the info tables with the same
  write count, nmbm_attach returns 0 without writing: the instance satisfies the invariant of an
  attached device and has the recorded mapping, number of data blocks and table positions; its block
  states are the recorded ones, except that marked blocks may have been found bad.\<close>

theorem attach_recovers:
  assumes "nmbm_check_lower_members nld = (True, nld')" and "geometry nld p b c"
    and "memory nld' b good peek marked" and "good (chip ni)" and "reads_ok nld' b good marked"
    and "nmbm_init_structure (ni\<lparr>log_display_level := NMBM_DEFAULT_LOG_LEVEL, lower := nld'\<rparr>) = Some i"
    and "used_chip crc i (peek (chip ni)) (marked (chip ni)) d sba it bs mp k m bk"
  shows "ok (nmbm_attach crc nld ni) (\<lambda>(ret, ni'). ret = 0 \<and> attached ni' \<and> lower ni' = nld' \<and>
    signature ni' = sig_of d \<and> signature_ba ni' = sba \<and> mgmt_start_ba ni' = mgmt_start_pb (sig_of d) \<and>
    main_table_ba ni' = m \<and> backup_table_ba ni' = bk \<and> data_block_count ni' = k \<and> block_mapping ni' = mp \<and>
    bitmap.degrades {x. marked (chip ni) x} bs (block_state ni') \<and>
    dev_reach nld' b {} (chip ni) (chip ni'))"
  using assms by (rule attach_used_ok)

theorem attach_recovers_witness:
  "ok (nmbm_attach demo_crc ram_lower (zero_ni ram_lower ram_chip)) (\<lambda>(ret, ni'). ret = 0 \<and> attached ni' \<and>
    signature_ba ni' = 14 \<and> main_table_ba ni' = 8 \<and> backup_table_ba ni' = 10 \<and> data_block_count ni' = 7 \<and>
    block_mapping ni' = ram_mapping)"
proof -
  have c: "nmbm_check_lower_members ram_lower = (True, ram_lower)"
    by (simp add: nmbm_check_lower_members_def Let_def ram_lower_def is_power_of_2_def is_power_of_2_u64_def
        NMBM_MGMT_DIV_def word_le_nat_alt)
  have z: "chip (zero_ni ram_lower ram_chip) = ram_chip" by (simp add: zero_ni_def)
  show ?thesis
    by (rule ok_mono2 [OF attach_recovers [OF c geometry_ram memory_ram _ reads_ram init_ram]])
      (use used_ram ram_good_chip in \<open>auto simp: z\<close>)
qed


definition zcrc :: crc_fun where "zcrc c b = c"

definition ram_src :: "ram nmbm_instance" where
  "ram_src = (ram_init (\<lambda>_. replicate 64 0xff, []))\<lparr>block_state := ram_states, block_mapping := ram_mapping\<rparr>"



definition ram_img :: bytes where
  "ram_img = ift_bytes \<lparr>ift_header = \<lparr>hdr_magic = NMBM_MAGIC_INFO_TABLE, hdr_version = NMBM_VER, hdr_size = 192, hdr_checksum = 0\<rparr>,
      write_count = 0, state_table_off = 64, mapping_table_off = 128, ift_padding = 0\<rparr> @
     replicate 32 0xff @ words_to_bytes ram_states @ replicate 60 0xff @ words_to_bytes ram_mapping"

lemma zcrc_incremental: "crc_incremental zcrc"
  by (simp add: crc_incremental_def zcrc_def)

lemma ram_src_generate:
  "nmbm_generate_info_table_cache zcrc ram_src =
     Some (False, ram_src\<lparr>info_table_cache := ram_img, info_table := next_info_table ram_src\<rparr>)"
proof -
  define it where "it = next_info_table ram_src"
  have it: "it = \<lparr>ift_header = \<lparr>hdr_magic = NMBM_MAGIC_INFO_TABLE, hdr_version = NMBM_VER, hdr_size = 192, hdr_checksum = 0\<rparr>,
      write_count = 0, state_table_off = 64, mapping_table_off = 128, ift_padding = 0\<rparr>"
    by (simp add: it_def next_info_table_def ram_src_def ram_init_def zero_ni_def zero_header_def tables_changed_def)
  have e: "info_table_cache ram_src = replicate 192 0" "info_table_size ram_src = 192" "state_table_size ram_src = 4"
    "mapping_table_size ram_src = 64" "block_state ram_src = ram_states" "block_mapping ram_src = ram_mapping"
    "state_table_off (info_table ram_src) = 64" "mapping_table_off (info_table ram_src) = 128" "\<not> tables_changed ram_src"
    by (simp_all add: ram_src_def ram_init_def zero_ni_def tables_changed_def)
  have l: "length ram_states = 1" "length ram_mapping = 16" by (simp_all add: ram_states_def ram_mapping_def)
  have h: "header_of ram_img = ift_header it" by (simp add: ram_img_def it ift_header_of)
  have li: "length ram_img = 192" by (simp add: ram_img_def l)
  have "header_bytes (ift_header it) @ drop 16 ram_img = ram_img" by (simp add: ram_img_def it ift_bytes_def)
  then have c: "nmbm_update_checksum zcrc ram_img = Some ram_img"
    by (subst nmbm_update_checksum_eq [OF zcrc_incremental]) (simp_all add: h li, simp_all add: it zcrc_def)
  let ?st = "words_to_bytes ram_states" and ?mp = "words_to_bytes ram_mapping"
  have 1: "blit (replicate 192 0) 0 (replicate 192 (0xff :: u8)) = Some (replicate 192 0xff)"
    and 2: "slice ?st 0 4 = Some ?st" "slice ?mp 0 64 = Some ?mp"
    and 3: "blit (replicate 192 0xff) 64 ?st = Some (replicate 64 0xff @ ?st @ replicate 124 0xff)"
    and 4: "blit (replicate 64 0xff @ ?st @ replicate 124 0xff) 128 ?mp =
      Some (replicate 64 0xff @ ?st @ replicate 60 0xff @ ?mp)"
    by (simp_all add: blit_def slice_def l)
  have 5: "blit (replicate 64 0xff @ ?st @ replicate 60 0xff @ ?mp) 0 (ift_bytes it) = Some ram_img"
    by (simp add: blit_def l ram_img_def it)
  have nit: "(info_table ram_src)\<lparr>ift_header := (ift_header (info_table ram_src))\<lparr>hdr_magic := NMBM_MAGIC_INFO_TABLE,
      hdr_version := NMBM_VER, hdr_size := 192\<rparr>\<rparr> = next_info_table ram_src"
    by (simp add: next_info_table_def e)
  have nit': "(next_info_table ram_src)\<lparr>write_count := write_count (info_table ram_src)\<rparr> = next_info_table ram_src"
    by (simp add: next_info_table_def e)
  have u: "unat (192 :: u32) = 192" "unat (4 :: u32) = 4" "unat (64 :: u32) = 64" "unat (128 :: u32) = 128" by simp_all
  show ?thesis
    by (simp only: nmbm_generate_info_table_cache_def Let_def e(1-8) u 1 2 3 4 5 [unfolded it_def] c
        Option.bind.bind_lunit it_def flip: tables_changed_def next_info_table_def)
      (simp add: e nit nit' 5 [unfolded it_def] c)
qed

lemma ram_write:
  "map_option fst (nmbm_write_info_table (ram_src\<lparr>info_table_cache := ram_img,
     info_table := next_info_table ram_src\<rparr>) 8 14) = Some (Some (8, 10))"
  by code_simp


text \<open>C8: A table survives on the flash: when the tables of an instance have been generated and written into
  consecutive blocks of a chip that works as a memory, an instance of the same layout that looks at
  that position of the chip loads them, provided they keep clear of the table blocks and the
  signature; it gets the block states, the mapping and the write count that were written, and only
  reads the chip.\<close>

theorem table_survives:
  assumes "wf ni" and "fits ni" and "crc_incremental crc"
    and "memory (lower ni) (es_sh ni) good peek marked" and "good (chip ni)"
    and "reads_ok (lower ni) (es_sh ni) good marked" and "(32::nat) \<le> 2 ^ es_sh ni"
    and "nmbm_generate_info_table_cache crc ni = Some (ch, ni1)"
    and "unat limit \<le> unat (block_count ni)" and "unat ba \<le> unat limit"
    and "nmbm_write_info_table ni1 ba limit = Some (Some (s, e), ni2)"
    and "unat e = unat s + table_blocks ni"
    and "static ld = static ni" and "chip ld = chip ni2"
    and "\<And>b. unat s \<le> b \<Longrightarrow> b < unat e \<Longrightarrow> bst ld b = BLOCK_ST_GOOD"
    and "data_block_count ld \<le> block_count ld" and "acceptable ld (block_state ni) (block_mapping ni) s e"
  shows "ok (nmbm_try_load_info_table crc ld s False) (\<lambda>(r, ld').
    (\<exists>tp. r = Some (e, write_count (info_table ni1), tp)) \<and> block_state ld' = block_state ni \<and>
    block_mapping ld' = block_mapping ni \<and> dev_reach (lower ni) (es_sh ni) {} (chip ni2) (chip ld'))"
  using assms by (rule written_then_loaded)

theorem table_survives_witness:
  "\<exists>c. ok (nmbm_try_load_info_table zcrc ((ram_init c)\<lparr>data_block_count := 7, signature_ba := 14\<rparr>) 8 False) (\<lambda>(r, ld').
    block_state ld' = ram_states \<and> block_mapping ld' = ram_mapping)"
proof -
  let ?n1 = "ram_src\<lparr>info_table_cache := ram_img, info_table := next_info_table ram_src\<rparr>"
  obtain ni2 where w: "nmbm_write_info_table ?n1 8 14 = Some (Some (8, 10), ni2)"
    using ram_write by (auto simp: map_option_eq_Some)
  let ?ld = "(ram_init (chip ni2))\<lparr>data_block_count := 7, signature_ba := 14\<rparr>"
  have s: "static ram_src = static (ram_init c)" for c unfolding ram_src_def by (rule static_ram)
  have "static ?ld = static (ram_init (chip ni2))" by (simp add: static_def)
  then have sl: "static ?ld = static ram_src" using s by metis
  note f = static_fields [OF s [of undefined]]
  have sh: "es_sh ram_src = 7" using f es_sh_ram [of undefined] by simp
  have ex: "8 \<le> x \<Longrightarrow> x < 10 \<Longrightarrow> x \<in> {8, 9}" "x < 7 \<Longrightarrow> x \<in> {0, 1, 2, 3, 4, 5, 6}" for x :: nat by auto
  have l: "list_all (\<lambda>x. st_of ram_states x = BLOCK_ST_GOOD \<and> st_of [- 1] x = BLOCK_ST_GOOD) [8, 9]"
    "list_all (\<lambda>i. ram_mapping ! i \<noteq> 14 \<and> \<not> (7 \<le> ram_mapping ! i \<and> ram_mapping ! i < 10)) [0, 1, 2, 3, 4, 5, 6]"
    by code_simp+
  have m: "\<not> (7 \<le> ram_mapping ! i \<and> ram_mapping ! i < 10) \<and> ram_mapping ! i \<noteq> 14" if "i < 7" for i
    using ex(2) [OF that] l(2) by auto
  have g: "st_of ram_states x = BLOCK_ST_GOOD" if "8 \<le> x" "x < 10" for x
    using ex(1) [OF that] l(1) by auto
  have ac: "acceptable ?ld ram_states ram_mapping 8 10"
    unfolding acceptable_def using m g by simp
  have gd: "bst ?ld x = BLOCK_ST_GOOD" if "8 \<le> x" "x < 10" for x
    using ex(1) [OF that] l(1) by (auto simp: bst_def ram_init_def)
  have src: "wf ram_src" "fits ram_src" "lower ram_src = ram_lower" "ram_good (chip ram_src)" "block_count ram_src = 16"
    "table_blocks ram_src = 2" "block_state ram_src = ram_states" "block_mapping ram_src = ram_mapping"
  proof -
    show "wf ram_src" using wf_ram(1) wf_static [OF s] by simp
    show "fits ram_src" using wf_ram(2) by (simp add: fits_def ram_src_def)
    show "table_blocks ram_src = 2" using table_blocks_ram table_blocks_static [OF s] by simp
  qed (simp_all add: f lower_ram, simp_all add: ram_src_def ram_good_def ram_init_def zero_ni_def)
  have ld: "chip ?ld = chip ni2" "data_block_count ?ld = 7" "block_count ?ld = 16"
    by (simp_all add: ram_init_def zero_ni_def)
  have "ok (nmbm_try_load_info_table zcrc ?ld 8 False) (\<lambda>(r, ld').
    (\<exists>tp. r = Some (10, write_count (info_table ?n1), tp)) \<and> block_state ld' = block_state ram_src \<and>
    block_mapping ld' = block_mapping ram_src \<and> dev_reach (lower ram_src) (es_sh ram_src) {} (chip ni2) (chip ld'))"
    by (rule table_survives [where good = ram_good and peek = fst and marked = ram_marked, OF src(1,2)
          zcrc_incremental _ src(4) _ _ ram_src_generate _ _ w _ sl ld(1)])
      (use memory_ram reads_ram ac gd in \<open>simp_all add: src sh ld\<close>)
  then show ?thesis by (intro exI [of _ "chip ni2"]) (auto simp: ok_def src)
qed

text \<open>C34: A table is loaded only from a run of good blocks: when nmbm_try_load_info_table reports a table at
  a position, every block from there on over the length of the table is recorded as good and
  carries no mark. A table that the write procedure laid around a bad block is therefore never
  found again.\<close>

theorem table_needs_good_run:
  assumes "wf ni" and "memory (lower ni) (es_sh ni) good peek marked" and "good (chip ni)"
    and "reads_ok (lower ni) (es_sh ni) good marked"
    and "unat ba + table_blocks ni \<le> unat (block_count ni)"
    and "nmbm_try_load_info_table crc ni ba loaded = Some (r, ni')" and "r \<noteq> None"
    and "unat ba \<le> b" and "b < unat ba + table_blocks ni"
  shows "bst ni b = BLOCK_ST_GOOD \<and> \<not> marked (chip ni) b"
  using assms by (rule try_load_hit_run)

theorem table_needs_good_run_witness:
  "\<exists>r ni'. nmbm_try_load_info_table demo_crc ((ram_init ram_chip)\<lparr>data_block_count := 7, signature_ba := 14\<rparr>) 8 False =
     Some (r, ni') \<and> bst (ram_init ram_chip) 9 = BLOCK_ST_GOOD \<and> \<not> ram_marked ram_chip 9"
proof -
  define ni where "ni = (ram_init ram_chip)\<lparr>data_block_count := 7, signature_ba := 14\<rparr>"
  have s: "static ni = static (ram_init ram_chip)" by (simp add: static_def ni_def)
  have e: "chip ni = ram_chip" "data_block_count ni = 7" "signature_ba ni = 14" "block_state ni = replicate 1 (- 1)"
    by (simp_all add: ni_def ram_init_def zero_ni_def)
  have f: "block_count ni = 16" "table_blocks ni = 2" "lower ni = ram_lower" "es_sh ni = 7"
    by (simp_all add: static_fields [OF s] table_blocks_static [OF s] table_blocks_ram lower_ram es_sh_ram)
  have tc: "two_copies demo_crc ni (fst ram_chip) (ram_marked ram_chip) 7 14 (ift_of ram_table) ram_states ram_mapping 7 8 10"
    using used_ram by (simp add: used_chip_def ram_signature_facts two_copies_static [OF s])
  have w: "wf ni" using wf_ram(1) by (simp add: wf_static [OF s])
  have m: "memory (lower ni) (es_sh ni) ram_good fst ram_marked" "reads_ok (lower ni) (es_sh ni) ram_good ram_marked"
    "ram_good (chip ni)"
    using memory_ram reads_ram ram_good_chip by (simp_all add: f e)
  have g: "bst ni x = BLOCK_ST_GOOD" if "x < 16" for x
    using st_of_ones [of x 1] that unfolding bst_def e by simp
  have ac: "acceptable ni ram_states ram_mapping 8 (8 + of_nat (table_blocks ni))"
    using two_copies_acceptable(1) [OF _ w] tc by (simp add: e)
  have "ok (nmbm_try_load_info_table demo_crc ni 8 False) (\<lambda>(r, ni'). \<exists>tp img ni2.
    r = Some (8 + of_nat (table_blocks ni), write_count (ift_of ram_table), tp) \<and>
    spare_top ram_mapping (data_block_count ni) (8 + of_nat (table_blocks ni)) (signature_ba ni) tp \<and>
    length img = length (info_table_cache ni) \<and> io {} (ni\<lparr>info_table_cache := img\<rparr>) ni2 \<and>
    ni' = (if \<not> False \<or> write_count (info_table ni) < write_count (ift_of ram_table)
      then ni2\<lparr>info_table := ift_of ram_table, block_state := ram_states, block_mapping := ram_mapping\<rparr> else ni2))"
    by (rule try_load_copy [OF w m(1,3,2) _ _ _ _ _ _ ac]) (use tc g in \<open>simp_all add: two_copies_def f e\<close>)
  then obtain r ni' where r: "nmbm_try_load_info_table demo_crc ni 8 False = Some (r, ni')" "r \<noteq> None"
    by (auto simp: ok_def)
  have "bst ni 9 = BLOCK_ST_GOOD \<and> \<not> ram_marked (chip ni) 9"
    by (rule table_needs_good_run [OF w m(1,3,2) _ r]) (simp_all add: f)
  then show ?thesis using r by (simp add: e) (simp add: ni_def bst_def)
qed

end
