(* ===== verification/Mtd_Split.thy ===== *)
theory Mtd_Split
  imports Nmbm_Types
begin

text \<open>
  The root of the mtdsplit parsers (mtdsplit.c, mtdsplit.h): the MTD device as they see it, the
  test for a root file system at an offset and the search for one from an offset on. The device
  is a record with the kernel's MTD functions as fields; a read is a function of offset and
  length, so a parse sees a device that nothing else changes. All sizes are those of a 64-bit
  little-endian machine. A result is a sum: a negative error number, or the value.
\<close>

section \<open>The device\<close>

type_synonym reader = "u64 \<Rightarrow> nat \<Rightarrow> int \<times> bytes"

text \<open>
  \<open>mtd_read\<close> returns the error and the bytes read, whose number is \<open>retlen\<close>. \<open>div_by_eb\<close> and
  \<open>mod_by_eb\<close> are the kernel's \<open>mtd_div_by_eb\<close> and \<open>mtd_mod_by_eb\<close>, which return \<open>uint32_t\<close>.
\<close>

record mtd_info =
  mtd_name :: string
  mtd_size :: u64
  mtd_erasesize :: u32
  mtd_read :: reader
  div_by_eb :: "u64 \<Rightarrow> u32"
  mod_by_eb :: "u64 \<Rightarrow> u32"

record mtd_partition =
  part_name :: string
  part_offset :: u64
  part_size :: u64

datatype mtdsplit_part_type =
  MTDSPLIT_PART_TYPE_UNK | MTDSPLIT_PART_TYPE_SQUASHFS | MTDSPLIT_PART_TYPE_JFFS2
| MTDSPLIT_PART_TYPE_UBI

definition KERNEL_PART_NAME :: string where "KERNEL_PART_NAME = ''kernel''"
definition ROOTFS_PART_NAME :: string where "ROOTFS_PART_NAME = ''rootfs''"
definition UBI_PART_NAME :: string where "UBI_PART_NAME = ''ubi''"
definition ROOTFS_SPLIT_NAME :: string where "ROOTFS_SPLIT_NAME = ''rootfs_data''"

definition UBI_EC_MAGIC :: u32 where "UBI_EC_MAGIC = 0x55424923"
definition SQUASHFS_MAGIC :: u32 where "SQUASHFS_MAGIC = 0x73717368"
definition JFFS2_NODE_MAGIC :: u32 where "JFFS2_NODE_MAGIC = 0x19852003"

section \<open>Reading fields\<close>

definition rd16 :: "bytes \<Rightarrow> nat \<Rightarrow> u16" where
  "rd16 b i = ucast (b ! i) OR push_bit 8 (ucast (b ! (i + 1)))"

definition be16 :: "bytes \<Rightarrow> nat \<Rightarrow> u16" where
  "be16 b i = push_bit 8 (ucast (b ! i)) OR ucast (b ! (i + 1))"

definition be32 :: "bytes \<Rightarrow> nat \<Rightarrow> u32" where
  "be32 b i =
     push_bit 24 (ucast (b ! i)) OR push_bit 16 (ucast (b ! (i + 1))) OR
     push_bit 8 (ucast (b ! (i + 2))) OR ucast (b ! (i + 3))"

text \<open>The read of a header, with the error and the short read that every parser checks.\<close>

definition mtdsplit_elf_read_mtd :: "mtd_info \<Rightarrow> u64 \<Rightarrow> nat \<Rightarrow> int + bytes" where
  "mtdsplit_elf_read_mtd mtd offset len =
     (case mtd_read mtd offset len of (ret, b) \<Rightarrow>
        if ret \<noteq> 0 then Inl ret else if length b \<noteq> len then Inl (- EIO) else Inr b)"

lemma read_Inr:
  "mtdsplit_elf_read_mtd mtd offset len = Inr b \<longleftrightarrow>
     mtd_read mtd offset len = (0, b) \<and> length b = len"
  by (auto simp: mtdsplit_elf_read_mtd_def split: prod.splits if_splits)

section \<open>mtdsplit.c\<close>

text \<open>\<open>err || retlen != sizeof(sb)\<close> is one error here.\<close>

definition mtd_get_squashfs_len :: "mtd_info \<Rightarrow> u64 \<Rightarrow> int + u64" where
  "mtd_get_squashfs_len master offset =
     (case mtdsplit_elf_read_mtd master offset 48 of
        Inl _ \<Rightarrow> Inl (- EIO)
      | Inr sb \<Rightarrow>
          if rd32 sb 0 \<noteq> SQUASHFS_MAGIC then Inl (- EINVAL)
          else if rd64 sb 40 \<le> 0 then Inl (- ENODEV)
          else if offset + rd64 sb 40 > mtd_size master then Inl (- EINVAL)
          else Inr (rd64 sb 40))"

text \<open>The helpers that a patch adds to the kernel's mtd.h; the products are of 32-bit values.\<close>

definition mtd_roundup_to_eb :: "u64 \<Rightarrow> mtd_info \<Rightarrow> u64" where
  "mtd_roundup_to_eb sz mtd =
     (if mod_by_eb mtd sz = 0 then sz else ucast ((div_by_eb mtd sz + 1) * mtd_erasesize mtd))"

definition mtd_rounddown_to_eb :: "u64 \<Rightarrow> mtd_info \<Rightarrow> u64" where
  "mtd_rounddown_to_eb sz mtd =
     (if mod_by_eb mtd sz = 0 then sz else ucast (div_by_eb mtd sz * mtd_erasesize mtd))"

definition mtd_next_eb :: "mtd_info \<Rightarrow> u64 \<Rightarrow> u64" where
  "mtd_next_eb mtd offset = mtd_rounddown_to_eb offset mtd + ucast (mtd_erasesize mtd)"

definition mtd_check_rootfs_magic :: "mtd_info \<Rightarrow> u64 \<Rightarrow> int + mtdsplit_part_type" where
  "mtd_check_rootfs_magic mtd offset =
     (case mtdsplit_elf_read_mtd mtd offset 4 of
        Inl e \<Rightarrow> Inl e
      | Inr magic \<Rightarrow>
          if rd32 magic 0 = SQUASHFS_MAGIC then Inr MTDSPLIT_PART_TYPE_SQUASHFS
          else if rd32 magic 0 = JFFS2_NODE_MAGIC then Inr MTDSPLIT_PART_TYPE_JFFS2
          else if be32 magic 0 = UBI_EC_MAGIC then Inr MTDSPLIT_PART_TYPE_UBI
          else Inl (- EINVAL))"

partial_function (option) mtd_find_rootfs_from ::
    "mtd_info \<Rightarrow> u64 \<Rightarrow> u64 \<Rightarrow> (int + u64 \<times> mtdsplit_part_type) option" where
  "mtd_find_rootfs_from mtd offset limit =
     (if offset < limit then
        (case mtd_check_rootfs_magic mtd offset of
           Inr type \<Rightarrow> Some (Inr (offset, type))
         | Inl _ \<Rightarrow> mtd_find_rootfs_from mtd (mtd_next_eb mtd offset) limit)
      else Some (Inl (- ENODEV)))"

section \<open>Results of the parsers\<close>

type_synonym parse_result = "(int + mtd_partition list) option"

definition mk_part :: "string \<Rightarrow> u64 \<Rightarrow> u64 \<Rightarrow> mtd_partition" where
  "mk_part nm off sz = \<lparr>part_name = nm, part_offset = off, part_size = sz\<rparr>"

text \<open>\<open>kz\<close> says whether the allocation of the partition array succeeds.\<close>

definition two_parts :: "bool \<Rightarrow> mtd_partition \<Rightarrow> mtd_partition \<Rightarrow> parse_result" where
  "two_parts kz p q = Some (if kz then Inr [p, q] else Inl (- ENOMEM))"

definition rootfs_name :: "mtdsplit_part_type \<Rightarrow> string" where
  "rootfs_name type =
     (if type = MTDSPLIT_PART_TYPE_UBI then UBI_PART_NAME else ROOTFS_PART_NAME)"

section \<open>The search is a search for the first candidate\<close>

text \<open>
  The documented behaviour of the kernel's division and remainder by the erase block size, which
  they return in 32 bits.
\<close>

definition eb_ok :: "mtd_info \<Rightarrow> bool" where
  "eb_ok mtd \<longleftrightarrow> 0 < mtd_erasesize mtd \<and>
     (\<forall>sz. div_by_eb mtd sz = ucast (sz div ucast (mtd_erasesize mtd)) \<and>
           mod_by_eb mtd sz = ucast (sz mod ucast (mtd_erasesize mtd)))"

definition eb :: "mtd_info \<Rightarrow> nat" where
  "eb mtd = unat (mtd_erasesize mtd)"

lemma eb_pos: "eb_ok mtd \<Longrightarrow> 0 < eb mtd"
  by (simp add: eb_ok_def eb_def word_less_nat_alt)

lemma unat_ucast_small:
  "unat (w :: u64) < 2 ^ 32 \<Longrightarrow> unat (ucast w :: u32) = unat w"
  by (simp add: unat_ucast_u64_u32)

lemma mod_by_eb_zero:
  assumes "eb_ok mtd"
  shows "mod_by_eb mtd sz = 0 \<longleftrightarrow> unat sz mod eb mtd = 0"
proof -
  let ?m = "sz mod ucast (mtd_erasesize mtd)"
  have m: "unat ?m = unat sz mod eb mtd" by (simp add: unat_mod_distrib eb_def)
  then have "unat ?m < 2 ^ 32"
    using order.strict_trans [OF mod_less_divisor [OF eb_pos [OF assms], of "unat sz"],
        OF unat_u32_lt [of "mtd_erasesize mtd", folded eb_def]] by simp
  then have "unat (mod_by_eb mtd sz) = unat sz mod eb mtd"
    using assms m by (simp add: eb_ok_def unat_ucast_small)
  then show ?thesis by (metis unat_eq_zero)
qed

lemma div_by_eb_unat:
  assumes "eb_ok mtd" and "unat sz < 2 ^ 32"
  shows "unat (div_by_eb mtd sz) = unat sz div eb mtd"
proof -
  have "unat (sz div ucast (mtd_erasesize mtd)) = unat sz div eb mtd"
    by (simp add: unat_div_distrib eb_def)
  moreover have "\<dots> < 2 ^ 32" using assms(2) div_le_dividend [of "unat sz" "eb mtd"] by linarith
  ultimately show ?thesis using assms(1) by (simp add: eb_ok_def unat_ucast_small)
qed

lemma rounddown_unat:
  assumes "eb_ok mtd" and "unat sz < 2 ^ 32"
  shows "unat (mtd_rounddown_to_eb sz mtd) = unat sz div eb mtd * eb mtd"
proof (cases "unat sz mod eb mtd = 0")
  case True
  then show ?thesis
    using assms by (auto simp: mtd_rounddown_to_eb_def mod_by_eb_zero)
next
  case False
  have "unat sz div eb mtd * eb mtd < 2 ^ 32"
    using assms(2) div_times_less_eq_dividend [of "unat sz" "eb mtd"] by linarith
  then have "unat (div_by_eb mtd sz * mtd_erasesize mtd) = unat sz div eb mtd * eb mtd"
    by (simp add: unat_word_ariths div_by_eb_unat [OF assms]) (simp add: eb_def)
  then show ?thesis
    using False assms by (simp add: mtd_rounddown_to_eb_def mod_by_eb_zero)
qed

lemma next_eb_unat:
  assumes "eb_ok mtd" and "unat off < 2 ^ 32"
  shows "unat (mtd_next_eb mtd off) = (unat off div eb mtd + 1) * eb mtd"
proof -
  have le: "unat off div eb mtd * eb mtd \<le> unat off" by simp
  have "unat off div eb mtd * eb mtd + unat (mtd_erasesize mtd) < 4294967296 + 4294967296"
    by (rule add_strict_mono [OF le_less_trans [OF le] unat_u32_lt]) (use assms(2) in simp)
  then have "unat (mtd_rounddown_to_eb off mtd) + unat (ucast (mtd_erasesize mtd) :: u64) < 2 ^ LENGTH(64)"
    unfolding rounddown_unat [OF assms] by simp
  then show ?thesis
    unfolding mtd_next_eb_def by (simp only: unat_add_fits rounddown_unat [OF assms]) (simp add: eb_def)
qed

text \<open>The offsets the search may look at: the first, and every erase block boundary after it.\<close>

definition candidates :: "nat \<Rightarrow> nat \<Rightarrow> nat \<Rightarrow> nat list" where
  "candidates es from limit =
     (if from < limit then from # map (\<lambda>k. k * es) [from div es + 1..<(limit + es - 1) div es] else [])"

fun first_rootfs :: "mtd_info \<Rightarrow> nat list \<Rightarrow> int + u64 \<times> mtdsplit_part_type" where
  "first_rootfs mtd [] = Inl (- ENODEV)"
| "first_rootfs mtd (c # cs) =
     (case mtd_check_rootfs_magic mtd (of_nat c) of
        Inr type \<Rightarrow> Inr (of_nat c, type)
      | Inl _ \<Rightarrow> first_rootfs mtd cs)"

lemma candidates_step:
  assumes "0 < es" and "from < limit"
  shows "candidates es from limit = from # candidates es ((from div es + 1) * es) limit"
proof -
  let ?k = "from div es + 1"
  have lt: "?k * es < limit \<longleftrightarrow> ?k < (limit + es - 1) div es" (is "?l \<longleftrightarrow> ?r")
  proof
    assume ?l
    then have "Suc ?k * es \<le> limit + es - 1" using assms(1) by simp
    then have "Suc ?k \<le> (limit + es - 1) div es" using assms(1)
      by (metis div_le_mono nonzero_mult_div_cancel_right not_gr_zero)
    then show ?r by simp
  next
    assume ?r
    then have "Suc ?k * es \<le> (limit + es - 1) div es * es" by (intro mult_le_mono1) simp
    also have "\<dots> \<le> limit + es - 1" by simp
    finally show ?l using assms(1) by simp
  qed
  have d: "?k * es div es = ?k" using assms(1) by simp
  show ?thesis
  proof (cases "?k * es < limit")
    case True
    then have r: "?k < (limit + es - 1) div es" using lt by blast
    have "[?k..<(limit + es - 1) div es] = ?k # [?k + 1..<(limit + es - 1) div es]"
      using r by (simp add: upt_conv_Cons)
    then show ?thesis using assms True d by (simp add: candidates_def)
  next
    case False
    then have "\<not> ?k < (limit + es - 1) div es" using lt by blast
    then show ?thesis using assms False by (simp add: candidates_def)
  qed
qed

lemma candidates_bounds: "0 < es \<Longrightarrow> c \<in> set (candidates es from limit) \<Longrightarrow> from \<le> c \<and> c < limit"
proof (induction "limit - from" arbitrary: "from" rule: less_induct)
  case less
  have nx: "from < (from div es + 1) * es"
    using less.prems(1) dividend_less_div_times [of es "from"] by (simp add: algebra_simps)
  show ?case
  proof (cases "from < limit")
    case True
    then show ?thesis
      using less.prems less.hyps [of "(from div es + 1) * es"] nx candidates_step [OF less.prems(1) True]
      by (auto simp: diff_less_mono2)
  qed (use less.prems in \<open>simp add: candidates_def\<close>)
qed

lemma find_rootfs_first:
  assumes "eb_ok mtd" and "unat limit \<le> 2 ^ 32"
  shows "mtd_find_rootfs_from mtd start limit =
    Some (first_rootfs mtd (candidates (eb mtd) (unat start) (unat limit)))"
proof (induction "unat limit - unat start" arbitrary: start rule: less_induct)
  case less
  show ?case
  proof (cases "start < limit")
    case True
    then have lt: "unat start < unat limit" by (simp add: word_less_nat_alt)
    then have b: "unat start < 2 ^ 32" using assms(2) by linarith
    have nx: "unat (mtd_next_eb mtd start) = (unat start div eb mtd + 1) * eb mtd"
      by (rule next_eb_unat [OF assms(1) b])
    have "unat start < (unat start div eb mtd + 1) * eb mtd"
      using eb_pos [OF assms(1)] dividend_less_div_times [of "eb mtd" "unat start"]
      by (simp add: algebra_simps)
    then have "unat limit - unat (mtd_next_eb mtd start) < unat limit - unat start"
      using nx lt by linarith
    note IH = less.hyps [OF this]
    show ?thesis
      using candidates_step [OF eb_pos [OF assms(1)] lt] True
      by (subst mtd_find_rootfs_from.simps) (simp add: IH nx split: sum.split)
  next
    case False
    then have "\<not> unat start < unat limit" by (simp add: word_less_nat_alt)
    then show ?thesis using False
      by (subst mtd_find_rootfs_from.simps) (simp add: candidates_def)
  qed
qed

lemma first_rootfs_Inr:
  assumes "first_rootfs mtd cs = Inr (off, t)"
  shows "\<exists>c \<in> set cs. off = of_nat c \<and> mtd_check_rootfs_magic mtd off = Inr t"
  using assms by (induction cs) (auto split: sum.splits)

lemma find_rootfs_result:
  assumes "eb_ok mtd" and "unat limit \<le> 2 ^ 32"
    and "mtd_find_rootfs_from mtd start limit = Some (Inr (off, t))"
  shows "start \<le> off \<and> off < limit \<and> mtd_check_rootfs_magic mtd off = Inr t"
proof -
  obtain c where c: "c \<in> set (candidates (eb mtd) (unat start) (unat limit))"
    and o: "off = of_nat c" and m: "mtd_check_rootfs_magic mtd off = Inr t"
    using assms(3) first_rootfs_Inr by (force simp: find_rootfs_first [OF assms(1,2)])
  have b: "unat start \<le> c" "c < unat limit"
    using candidates_bounds [OF eb_pos [OF assms(1)] c] by auto
  then have "unat off = c" using o order.strict_trans [OF b(2) unsigned_less [of limit, where ?'a = nat]]
    by (simp add: unat_of_nat)
  then show ?thesis using b m by (simp add: word_le_nat_alt word_less_nat_alt)
qed

end
