(* ===== verification/Mtd_Parsers.thy ===== *)
theory Mtd_Parsers
  imports Mtd_Split
begin

text \<open>
  The firmware parsers of the mtdsplit directory. Each reads headers of its image format and
  splits the device into a kernel and a root file system partition. \<open>kz\<close> and \<open>vm\<close> say whether
  the allocations succeed. \<open>None\<close> stands for a run that does not return or that uses a variable
  before it is set.
\<close>

section \<open>Search from an erase block on\<close>

definition YAFFS_OBJECT_TYPE_FILE :: u32 where "YAFFS_OBJECT_TYPE_FILE = 1"
definition YAFFS_OBJECTID_ROOT :: u32 where "YAFFS_OBJECTID_ROOT = 1"
definition YAFFS_SUM_UNUSED :: u16 where "YAFFS_SUM_UNUSED = 0xffff"
definition YAFFS_NAME :: bytes where "YAFFS_NAME = [0x6b, 0x65, 0x72, 0x6e, 0x65, 0x6c, 0]"

text \<open>\<open>is_pow2\<close> is the kernel's \<open>is_power_of_2\<close>.\<close>

definition is_pow2 :: "u32 \<Rightarrow> bool" where
  "is_pow2 n \<longleftrightarrow> n \<noteq> 0 \<and> n AND (n - 1) = 0"

definition mtdsplit_parse_lzma :: "mtd_info \<Rightarrow> bool \<Rightarrow> parse_result" where
  "mtdsplit_parse_lzma master kz =
     (case mtdsplit_elf_read_mtd master 0 13 of
        Inl e \<Rightarrow> Some (Inl e)
      | Inr hdr \<Rightarrow>
          if hdr ! 0 \<ge> 9 * 5 * 5 then Some (Inl (- EINVAL))
          else if \<not> is_pow2 (rd32 hdr 1) then Some (Inl (- EINVAL))
          else if rd32 hdr 9 \<noteq> 0 then Some (Inl (- EINVAL))
          else do {
            r \<leftarrow> mtd_find_rootfs_from master (ucast (mtd_erasesize master)) (mtd_size master);
            case r of
              Inl e \<Rightarrow> Some (Inl e)
            | Inr (rootfs_offset, _) \<Rightarrow>
                two_parts kz (mk_part KERNEL_PART_NAME 0 rootfs_offset)
                  (mk_part ROOTFS_PART_NAME rootfs_offset (mtd_size master - rootfs_offset)) })"

definition mtdsplit_parse_minor :: "mtd_info \<Rightarrow> bool \<Rightarrow> parse_result" where
  "mtdsplit_parse_minor master kz =
     (case mtdsplit_elf_read_mtd master 0 20 of
        Inl e \<Rightarrow> Some (Inl e)
      | Inr hdr \<Rightarrow>
          if rd32 hdr 0 \<noteq> YAFFS_OBJECT_TYPE_FILE then Some (Inl (- EINVAL))
          else if rd32 hdr 4 \<noteq> YAFFS_OBJECTID_ROOT then Some (Inl (- EINVAL))
          else if rd16 hdr 8 \<noteq> YAFFS_SUM_UNUSED then Some (Inl (- EINVAL))
          else if take 7 (drop 10 hdr) \<noteq> YAFFS_NAME then Some (Inl (- EINVAL))
          else do {
            r \<leftarrow> mtd_find_rootfs_from master (ucast (mtd_erasesize master)) (mtd_size master);
            case r of
              Inl e \<Rightarrow> Some (Inl e)
            | Inr (rootfs_offset, _) \<Rightarrow>
                two_parts kz (mk_part KERNEL_PART_NAME 0 rootfs_offset)
                  (mk_part ROOTFS_PART_NAME rootfs_offset (mtd_size master - rootfs_offset)) })"

definition WRGG_MIN_ROOTFS_OFFS :: u64 where "WRGG_MIN_ROOTFS_OFFS = 0x80000"
definition WRGG03_MAGIC :: u32 where "WRGG03_MAGIC = 0x20080321"
definition WRG_MAGIC :: u32 where "WRG_MAGIC = 0x20040220"

text \<open>The size of the kernel entity, or an error. The WRGG03 header has 160 bytes, WRG's 96.\<close>

definition wrgg_entity_size :: "u64 \<Rightarrow> bytes \<Rightarrow> int + u64" where
  "wrgg_entity_size msize hdr =
     (if rd32 hdr 32 = WRGG03_MAGIC then
        (let kernel_ent_size = 160 + ucast (be32 hdr 104);
             kernel_ent_size = (if kernel_ent_size > msize then 160 + ucast (rd32 hdr 104) else kernel_ent_size)
         in if kernel_ent_size > msize then Inl (- EINVAL) else Inr kernel_ent_size)
      else if rd32 hdr 32 = WRG_MAGIC then Inr (96 + ucast (rd32 hdr 40))
      else Inl (- EINVAL))"

definition mtdsplit_parse_wrgg :: "mtd_info \<Rightarrow> bool \<Rightarrow> parse_result" where
  "mtdsplit_parse_wrgg master kz =
     (case mtdsplit_elf_read_mtd master 0 160 of
        Inl e \<Rightarrow> Some (Inl e)
      | Inr hdr \<Rightarrow>
          (case wrgg_entity_size (mtd_size master) hdr of
             Inl e \<Rightarrow> Some (Inl e)
           | Inr kernel_ent_size \<Rightarrow>
               if kernel_ent_size > mtd_size master then Some (Inl (- EINVAL))
               else do {
                 r \<leftarrow> mtd_find_rootfs_from master WRGG_MIN_ROOTFS_OFFS (mtd_size master);
                 case r of
                   Inl e \<Rightarrow> Some (Inl e)
                 | Inr (rootfs_offset, type) \<Rightarrow>
                     two_parts kz (mk_part KERNEL_PART_NAME 0 rootfs_offset)
                       (mk_part ROOTFS_PART_NAME rootfs_offset (mtd_size master - rootfs_offset)) }))"

text \<open>
  cfe-bootfs: the end of the JFFS2 nodes is computed and not used; the search starts at the
  second erase block. \<open>offset\<close> advances by the length a node states, which may be 0.
\<close>

definition JFFS2_MAGIC_BITMASK :: u16 where "JFFS2_MAGIC_BITMASK = 0x1985"

partial_function (option) bootfs_end :: "mtd_info \<Rightarrow> u64 \<Rightarrow> u64 option" where
  "bootfs_end mtd offset =
     (case mtdsplit_elf_read_mtd mtd offset 40 of
        Inl _ \<Rightarrow> Some offset
      | Inr node \<Rightarrow>
          if rd16 node 0 \<noteq> JFFS2_MAGIC_BITMASK then Some offset
          else (let offset = (offset + ucast (rd32 node 4) + 3) AND NOT 3 in
                if offset < mtd_size mtd then bootfs_end mtd offset else Some offset))"

definition mtdsplit_cfe_bootfs_parse :: "mtd_info \<Rightarrow> bool \<Rightarrow> parse_result" where
  "mtdsplit_cfe_bootfs_parse mtd kz =
     (if mtd_name mtd \<noteq> ''firmware'' then Some (Inl (- EINVAL))
      else do {
        _ \<leftarrow> bootfs_end mtd 0;
        r \<leftarrow> mtd_find_rootfs_from mtd (ucast (mtd_erasesize mtd)) (mtd_size mtd);
        case r of
          Inl e \<Rightarrow> Some (Inl e)
        | Inr (rootfs_offset, type) \<Rightarrow>
            two_parts kz (mk_part ''bootfs'' 0 rootfs_offset)
              (mk_part (rootfs_name type) rootfs_offset (mtd_size mtd - rootfs_offset)) })"

section \<open>The end of the kernel image from its header\<close>

definition SEAMA_MAGIC :: u32 where "SEAMA_MAGIC = 0x5EA3A417"
definition SEAMA_MIN_ROOTFS_OFFS :: u64 where "SEAMA_MIN_ROOTFS_OFFS = 0x80000"

definition mtdsplit_parse_seama :: "mtd_info \<Rightarrow> bool \<Rightarrow> parse_result" where
  "mtdsplit_parse_seama master kz =
     (case mtdsplit_elf_read_mtd master 0 28 of
        Inl e \<Rightarrow> Some (Inl e)
      | Inr hdr \<Rightarrow>
          if be32 hdr 0 \<noteq> SEAMA_MAGIC then Some (Inl (- EINVAL))
          else
            (let kernel_ent_size = 28 + ucast (be32 hdr 8) + ucast (be16 hdr 6) in
             if kernel_ent_size > mtd_size master then Some (Inl (- EINVAL))
             else do {
               r \<leftarrow> (case mtd_check_rootfs_magic master kernel_ent_size of
                   Inr type \<Rightarrow> Some (Inr (kernel_ent_size, type))
                 | Inl _ \<Rightarrow> mtd_find_rootfs_from master SEAMA_MIN_ROOTFS_OFFS (mtd_size master));
               case r of
                 Inl e \<Rightarrow> Some (Inl e)
               | Inr (rootfs_offset, type) \<Rightarrow>
                   (let koff = 28 + ucast (be16 hdr 6) in
                    two_parts kz (mk_part KERNEL_PART_NAME koff (rootfs_offset - koff))
                      (mk_part (rootfs_name type) rootfs_offset (mtd_size master - rootfs_offset))) }))"

definition TPLINK_MIN_ROOTFS_OFFS :: u64 where "TPLINK_MIN_ROOTFS_OFFS = 0x80000"

text \<open>The kernel size and the rootfs offset of a TP-Link header of 512 bytes.\<close>

definition tplink_header :: "bytes \<Rightarrow> (u64 \<times> u64) option" where
  "tplink_header hdr =
     (if rd32 hdr 0 = 1 then
        (if be32 hdr 128 \<noteq> 512 then None
         else Some (512 + ucast (be32 hdr 132), ucast (be32 hdr 136)))
      else if rd32 hdr 0 = 2 \<or> rd32 hdr 0 = 3 then
        (if be32 hdr 116 \<noteq> 512 then None
         else Some (512 + ucast (be32 hdr 120), ucast (be32 hdr 124)))
      else None)"

definition mtdsplit_parse_tplink :: "mtd_info \<Rightarrow> bool \<Rightarrow> parse_result" where
  "mtdsplit_parse_tplink master kz =
     (case mtdsplit_elf_read_mtd master 0 512 of
        Inl e \<Rightarrow> Some (Inl e)
      | Inr hdr \<Rightarrow>
          (case tplink_header hdr of
             None \<Rightarrow> Some (Inl (- EINVAL))
           | Some (kernel_size, rootfs_offset) \<Rightarrow>
               if kernel_size > mtd_size master then Some (Inl (- EINVAL))
               else do {
                 r \<leftarrow> (case mtd_check_rootfs_magic master rootfs_offset of
                     Inr type \<Rightarrow> Some (Inr (rootfs_offset, type))
                   | Inl _ \<Rightarrow> mtd_find_rootfs_from master TPLINK_MIN_ROOTFS_OFFS (mtd_size master));
                 case r of
                   Inl e \<Rightarrow> Some (Inl e)
                 | Inr (rootfs_offset, _) \<Rightarrow>
                     two_parts kz (mk_part KERNEL_PART_NAME 0 kernel_size)
                       (mk_part ROOTFS_PART_NAME rootfs_offset (mtd_size master - rootfs_offset)) }))"

text \<open>
  eva: the sum of the size and the footer is a 32-bit addition; \<open>round_up\<close> is the kernel's macro.
\<close>

definition EVA_MAGIC :: u32 where "EVA_MAGIC = 0xfeed1281"
definition EVA_FOOTER_SIZE :: u32 where "EVA_FOOTER_SIZE = 0x18"
definition EVA_DUMMY_SQUASHFS_SIZE :: u64 where "EVA_DUMMY_SQUASHFS_SIZE = 0x100"

definition round_up :: "u64 \<Rightarrow> u64 \<Rightarrow> u64" where
  "round_up x y = ((x - 1) OR (y - 1)) + 1"

definition mtdsplit_parse_eva :: "mtd_info \<Rightarrow> bool \<Rightarrow> parse_result" where
  "mtdsplit_parse_eva master kz =
     (case mtdsplit_elf_read_mtd master 0 8 of
        Inl e \<Rightarrow> Some (Inl e)
      | Inr hdr \<Rightarrow>
          if rd32 hdr 0 \<noteq> EVA_MAGIC then Some (Inl (- EINVAL))
          else
            (let kernel_size = ucast (rd32 hdr 4 + EVA_FOOTER_SIZE);
                 rootfs_offset = round_up kernel_size 0x10000 + EVA_DUMMY_SQUASHFS_SIZE in
             if rootfs_offset \<ge> mtd_size master then Some (Inl (- EINVAL))
             else (case mtd_check_rootfs_magic master rootfs_offset of
                Inl e \<Rightarrow> Some (Inl e)
              | Inr _ \<Rightarrow>
                  two_parts kz (mk_part KERNEL_PART_NAME 0 kernel_size)
                    (mk_part ROOTFS_PART_NAME rootfs_offset (mtd_size master - rootfs_offset)))))"

section \<open>A root file system behind a footer\<close>

definition BRNIMAGE_ALIGN_BYTES :: u64 where "BRNIMAGE_ALIGN_BYTES = 0x400"
definition BRNIMAGE_FOOTER_SIZE :: u64 where "BRNIMAGE_FOOTER_SIZE = 12"
definition BRNIMAGE_MIN_OVERHEAD :: u64 where "BRNIMAGE_MIN_OVERHEAD = BRNIMAGE_FOOTER_SIZE"
definition BRNIMAGE_MAX_OVERHEAD :: u64 where
  "BRNIMAGE_MAX_OVERHEAD = BRNIMAGE_ALIGN_BYTES + BRNIMAGE_FOOTER_SIZE"

text \<open>The search loop: the answer of the last check and the offset it ended at.\<close>

partial_function (option) brnimage_search :: "mtd_info \<Rightarrow> u64 \<Rightarrow> int \<Rightarrow> (int \<times> u64) option" where
  "brnimage_search master rootfs_offset ret =
     (if rootfs_offset < mtd_size master then
        (case mtd_check_rootfs_magic master rootfs_offset of
           Inr _ \<Rightarrow> Some (0, rootfs_offset)
         | Inl e \<Rightarrow> brnimage_search master (rootfs_offset + BRNIMAGE_ALIGN_BYTES) e)
      else Some (ret, rootfs_offset))"

definition mtdsplit_parse_brnimage :: "mtd_info \<Rightarrow> bool \<Rightarrow> parse_result" where
  "mtdsplit_parse_brnimage master kz = do {
     (ret, rootfs_offset) \<leftarrow> brnimage_search master 0 0;
     if ret \<noteq> 0 then Some (Inl ret)
     else if rootfs_offset \<ge> mtd_size master then Some (Inl (- EINVAL))
     else (case mtdsplit_elf_read_mtd master (rootfs_offset - BRNIMAGE_FOOTER_SIZE) 4 of
        Inl e \<Rightarrow> Some (Inl e)
      | Inr buf \<Rightarrow>
          (let kernel_size = ucast (rd32 buf 0) in
           if kernel_size > rootfs_offset - BRNIMAGE_MIN_OVERHEAD then Some (Inl (- EINVAL))
           else if kernel_size < rootfs_offset - BRNIMAGE_MAX_OVERHEAD then Some (Inl (- EINVAL))
           else two_parts kz (mk_part KERNEL_PART_NAME 0 kernel_size)
             (mk_part ROOTFS_PART_NAME rootfs_offset
                (mtd_size master - rootfs_offset - BRNIMAGE_FOOTER_SIZE)))) }"

section \<open>The data behind a squashfs image\<close>

text \<open>
  \<open>parent_mtd\<close> and \<open>poffset\<close> are what the kernel's \<open>mtd_get_master\<close> and
  \<open>mtdpart_get_offset\<close> say of the device.
\<close>

definition mtdsplit_parse_squashfs :: "mtd_info \<Rightarrow> mtd_info \<Rightarrow> u64 \<Rightarrow> bool \<Rightarrow> int + mtd_partition list" where
  "mtdsplit_parse_squashfs master parent_mtd poffset kz =
     (case mtd_get_squashfs_len master 0 of
        Inl e \<Rightarrow> Inl e
      | Inr squashfs_len \<Rightarrow>
          if \<not> kz then Inl (- ENOMEM)
          else
            (let offset = mtd_roundup_to_eb (poffset + squashfs_len) parent_mtd - poffset
             in Inr [mk_part ROOTFS_SPLIT_NAME offset
                  (mtd_rounddown_to_eb (mtd_size master - offset) master)]))"

section \<open>Images found by a scan over the erase blocks\<close>

text \<open>
  The scan loops of uimage, jimage and trx: the size of the last candidate is kept when the loop
  runs off the end. \<open>at\<close> says for an offset the size assigned and whether the loop stops there.
\<close>

partial_function (option) image_scan ::
    "mtd_info \<Rightarrow> (u64 \<Rightarrow> u64 \<times> bool) \<Rightarrow> u64 \<Rightarrow> u64 \<Rightarrow> (u64 \<times> u64) option" where
  "image_scan master at offset sz =
     (if offset < mtd_size master then
        (if snd (at offset) then Some (offset, fst (at offset))
         else image_scan master at (offset + ucast (mtd_erasesize master)) (fst (at offset)))
      else Some (offset, sz))"

text \<open>What uimage and jimage do with the image the scan has found.\<close>

definition image_parts :: "mtd_info \<Rightarrow> u64 \<Rightarrow> u64 \<Rightarrow> parse_result" where
  "image_parts master image_offset image_size =
     (if image_size = 0 then Some (Inl (- ENODEV))
      else if image_offset = 0 then do {
        r \<leftarrow> mtd_find_rootfs_from master (image_offset + image_size) (mtd_size master);
        case r of
          Inl e \<Rightarrow> Some (Inl e)
        | Inr (rootfs_offset, type) \<Rightarrow>
            (let rootfs_size = mtd_size master - rootfs_offset in
             if rootfs_size = 0 then Some (Inl (- ENODEV))
             else Some (Inr [mk_part KERNEL_PART_NAME image_offset (rootfs_offset - image_offset),
                    mk_part (rootfs_name type) rootfs_offset rootfs_size])) }
      else
        (case mtd_check_rootfs_magic master 0 of
           Inl e \<Rightarrow> Some (Inl e)
         | Inr type \<Rightarrow>
             if image_offset = 0 then Some (Inl (- ENODEV))
             else Some (Inr [mk_part (rootfs_name type) 0 image_offset,
                    mk_part KERNEL_PART_NAME image_offset image_size])))"

definition IH_MAGIC :: u32 where "IH_MAGIC = 0x27051956"
definition IH_OS_LINUX :: u8 where "IH_OS_LINUX = 5"
definition IH_TYPE_KERNEL :: u32 where "IH_TYPE_KERNEL = 2"

text \<open>The device-tree node and what it overrides; \<open>None\<close> is an absent property.\<close>

record uimage_node =
  compatible_openwrt :: bool
  dt_padding :: "u32 option"
  dt_ih_magic :: "u32 option"
  dt_ih_type :: "u32 option"
  dt_offset :: "u32 option"
  dt_partition_magic :: "u32 option"

record uimage_cfg =
  extralen :: u32
  ih_magic :: u32
  ih_type :: u32
  header_offset :: u32
  part_magic :: u32

definition uimage_default :: uimage_cfg where
  "uimage_default = \<lparr>extralen = 0, ih_magic = IH_MAGIC, ih_type = IH_TYPE_KERNEL, header_offset = 0,
     part_magic = 0\<rparr>"

definition uimage_parse_dt :: "uimage_node option \<Rightarrow> uimage_cfg \<Rightarrow> uimage_cfg" where
  "uimage_parse_dt node cfg =
     (case node of
        None \<Rightarrow> cfg
      | Some np \<Rightarrow>
          if \<not> compatible_openwrt np then cfg
          else
            (let get = (\<lambda>p old. case p of None \<Rightarrow> old | Some v \<Rightarrow> v) in
             \<lparr>extralen = get (dt_padding np) (extralen cfg),
              ih_magic = get (dt_ih_magic np) (ih_magic cfg),
              ih_type = get (dt_ih_type np) (ih_type cfg),
              header_offset = get (dt_offset np) (header_offset cfg),
              part_magic = get (dt_partition_magic np) (part_magic cfg)\<rparr>))"

text \<open>The header at \<open>ho\<close> in the buffer.\<close>

definition uimage_verify_default :: "bytes \<Rightarrow> nat \<Rightarrow> u32 \<Rightarrow> u32 \<Rightarrow> int" where
  "uimage_verify_default buf ho magic type =
     (if be32 buf ho \<noteq> magic then - EINVAL
      else if buf ! (ho + 28) \<noteq> IH_OS_LINUX then - EINVAL
      else if ucast (buf ! (ho + 30)) \<noteq> type then - EINVAL
      else 0)"

definition read_uimage_header :: "mtd_info \<Rightarrow> u64 \<Rightarrow> nat \<Rightarrow> int + bytes" where
  "read_uimage_header mtd offset header_len = mtdsplit_elf_read_mtd mtd offset header_len"

definition uimage_at :: "mtd_info \<Rightarrow> uimage_cfg \<Rightarrow> u64 \<Rightarrow> u64 \<times> bool" where
  "uimage_at master cfg offset =
     (let ho = unat (header_offset cfg) in
      case read_uimage_header master offset (64 + ho) of
        Inl _ \<Rightarrow> (0, False)
      | Inr buf \<Rightarrow>
          if header_offset cfg \<noteq> 0 \<and> part_magic cfg \<noteq> 0 \<and> be32 buf 0 \<noteq> part_magic cfg then (0, False)
          else if uimage_verify_default buf ho (ih_magic cfg) (ih_type cfg) < 0 then (0, False)
          else
            (let uimage_size = 64 + ucast (be32 buf (ho + 12)) + ucast (header_offset cfg) +
                   scast (extralen cfg)
             in (uimage_size, \<not> offset + uimage_size > mtd_size master)))"

definition mtdsplit_parse_uimage :: "mtd_info \<Rightarrow> uimage_node option \<Rightarrow> bool \<Rightarrow> bool \<Rightarrow> parse_result" where
  "mtdsplit_parse_uimage master node kz vm =
     (if \<not> kz \<or> \<not> vm then Some (Inl (- ENOMEM))
      else do {
        (offset, uimage_size) \<leftarrow>
          image_scan master (uimage_at master (uimage_parse_dt node uimage_default)) 0 0;
        image_parts master offset uimage_size })"

definition STAG_ID :: u8 where "STAG_ID = 0x04"
definition STAG_MAGIC :: u16 where "STAG_MAGIC = 0x2B24"
definition SCH2_MAGIC :: u16 where "SCH2_MAGIC = 0x2124"
definition SCH2_VER :: u8 where "SCH2_VER = 0x02"

definition read_jimage_header :: "mtd_info \<Rightarrow> u64 \<Rightarrow> nat \<Rightarrow> int + bytes" where
  "read_jimage_header mtd offset header_len = mtdsplit_elf_read_mtd mtd offset header_len"

definition jimage_verify_default :: "bytes \<Rightarrow> int" where
  "jimage_verify_default buf =
     (if rd16 buf 2 \<noteq> STAG_MAGIC then - EINVAL
      else if rd16 buf 16 \<noteq> SCH2_MAGIC then - EINVAL
      else if buf ! 0 \<noteq> buf ! 1 then - EINVAL
      else if buf ! 1 \<noteq> STAG_ID then - EINVAL
      else if buf ! 19 \<noteq> SCH2_VER then - EINVAL
      else 0)"

text \<open>\<open>find_header\<close> is always \<open>jimage_verify_default\<close>, whose only success is 0.\<close>

definition jimage_at :: "mtd_info \<Rightarrow> u64 \<Rightarrow> u64 \<times> bool" where
  "jimage_at master offset =
     (case read_jimage_header master offset 56 of
        Inl _ \<Rightarrow> (0, False)
      | Inr buf \<Rightarrow>
          if jimage_verify_default buf < 0 then (0, False)
          else
            (let jimage_size = 56 + ucast (rd32 buf 24)
             in (jimage_size, \<not> offset + jimage_size > mtd_size master)))"

definition mtdsplit_parse_jimage :: "mtd_info \<Rightarrow> bool \<Rightarrow> bool \<Rightarrow> parse_result" where
  "mtdsplit_parse_jimage master kz vm =
     (if \<not> kz \<or> \<not> vm then Some (Inl (- ENOMEM))
      else do {
        (offset, jimage_size) \<leftarrow> image_scan master (jimage_at master) 0 0;
        image_parts master offset jimage_size })"

text \<open>
  trx: the header that the parser uses after the scan is that of the last good read, \<open>hdr\<close>.
\<close>

definition TRX_MAGIC :: u32 where "TRX_MAGIC = 0x30524448"

definition read_trx_header :: "mtd_info \<Rightarrow> u64 \<Rightarrow> int + bytes" where
  "read_trx_header mtd offset = mtdsplit_elf_read_mtd mtd offset 32"

partial_function (option) trx_scan ::
    "mtd_info \<Rightarrow> u64 \<Rightarrow> u64 \<Rightarrow> bytes option \<Rightarrow> (u64 \<times> u64 \<times> bytes option) option" where
  "trx_scan master offset sz hdr =
     (if offset < mtd_size master then
        (case read_trx_header master offset of
           Inl _ \<Rightarrow> trx_scan master (offset + ucast (mtd_erasesize master)) 0 None
         | Inr b \<Rightarrow>
             if rd32 b 0 \<noteq> TRX_MAGIC
             then trx_scan master (offset + ucast (mtd_erasesize master)) 0 (Some b)
             else if offset + ucast (rd32 b 4) > mtd_size master
             then trx_scan master (offset + ucast (mtd_erasesize master)) (ucast (rd32 b 4)) (Some b)
             else Some (offset, ucast (rd32 b 4), Some b))
      else Some (offset, sz, hdr))"

text \<open>The offsets in the header are added without conversion from little endian.\<close>

definition mtdsplit_parse_trx :: "mtd_info \<Rightarrow> bool \<Rightarrow> parse_result" where
  "mtdsplit_parse_trx master kz =
     (if \<not> kz then Some (Inl (- ENOMEM))
      else do {
        (offset, trx_size, hdr) \<leftarrow> trx_scan master 0 0 None;
        if trx_size = 0 then Some (Inl (- ENODEV))
        else do {
          hdr \<leftarrow> hdr;
          let trx_offset = offset + ucast (rd32 hdr 16);
          let rootfs_offset = offset + ucast (rd32 hdr 20);
          let rootfs_size = mtd_size master - rootfs_offset;
          let trx_size = rootfs_offset - trx_offset;
          if rootfs_size = 0 then Some (Inl (- ENODEV))
          else Some (Inr [mk_part KERNEL_PART_NAME trx_offset trx_size,
                 mk_part ROOTFS_PART_NAME rootfs_offset rootfs_size]) } })"

text \<open>
  fit: a read error ends the scan; when no header matches, the one read last is used, and none
  on a device smaller than a header.
\<close>

definition OF_DT_HEADER :: u32 where "OF_DT_HEADER = 0xd00dfeed"

partial_function (option) fit_scan ::
    "mtd_info \<Rightarrow> u64 \<Rightarrow> bytes option \<Rightarrow> (int + u64 \<times> bytes option) option" where
  "fit_scan mtd offset hdr =
     (if offset + 40 \<le> mtd_size mtd then
        (case mtdsplit_elf_read_mtd mtd offset 40 of
           Inl e \<Rightarrow> Some (Inl e)
         | Inr b \<Rightarrow>
             if be32 b 0 \<noteq> OF_DT_HEADER
             then fit_scan mtd (offset + ucast (mtd_erasesize mtd)) (Some b)
             else Some (Inr (offset, Some b)))
      else Some (Inr (offset, hdr)))"

definition mtdsplit_fit_parse :: "mtd_info \<Rightarrow> bool \<Rightarrow> parse_result" where
  "mtdsplit_fit_parse mtd kz = do {
     s \<leftarrow> fit_scan mtd 0 None;
     case s of
       Inl e \<Rightarrow> Some (Inl e)
     | Inr (fit_offset, hdr) \<Rightarrow> do {
         hdr \<leftarrow> hdr;
         let fit_size = ucast (be32 hdr 4);
         if fit_size = 0 then Some (Inl (- ENODEV))
         else do {
           r \<leftarrow> mtd_find_rootfs_from mtd (fit_offset + fit_size) (mtd_size mtd);
           case r of
             Inl e \<Rightarrow> Some (Inl e)
           | Inr (rootfs_offset, _) \<Rightarrow>
               two_parts kz
                 (mk_part KERNEL_PART_NAME fit_offset
                    (mtd_rounddown_to_eb fit_size mtd + ucast (mtd_erasesize mtd)))
                 (mk_part ROOTFS_PART_NAME rootfs_offset (mtd_size mtd - rootfs_offset)) } } }"

section \<open>ELF loaders\<close>

definition ELF_MAGIC :: u32 where "ELF_MAGIC = 0x7f454c46"
definition ELF_CLASS_32 :: u8 where "ELF_CLASS_32 = 1"
definition ELF_CLASS_64 :: u8 where "ELF_CLASS_64 = 2"

text \<open>The product of two \<open>uint16_t\<close> is one of two \<open>int\<close>: undefined from \<open>2 ^ 31\<close> on.\<close>

definition mul16 :: "u16 \<Rightarrow> u16 \<Rightarrow> u32 option" where
  "mul16 a b = (if unat a * unat b < 2 ^ 31 then Some (ucast a * ucast b) else None)"

text \<open>The loops over the program headers: the size of an entry, and where one ends.\<close>

partial_function (option) elf_segments ::
    "mtd_info \<Rightarrow> nat \<Rightarrow> (bytes \<Rightarrow> u64) \<Rightarrow> u16 \<Rightarrow> u64 \<Rightarrow> u64 \<Rightarrow> u64 \<Rightarrow> (int + u64) option" where
  "elf_segments mtd ph_len section_end phentsize ph_entry ph_table_end sz =
     (if ph_entry < ph_table_end then
        (case mtdsplit_elf_read_mtd mtd ph_entry ph_len of
           Inl e \<Rightarrow> Some (Inl e)
         | Inr ph \<Rightarrow>
             elf_segments mtd ph_len section_end phentsize (ph_entry + ucast phentsize) ph_table_end
               (if section_end ph > sz then section_end ph else sz))
      else Some (Inr sz))"

definition section_end32 :: "bytes \<Rightarrow> u64" where
  "section_end32 ph = ucast (rd32 ph 4 + rd32 ph 16)"

definition section_end64 :: "bytes \<Rightarrow> u64" where
  "section_end64 ph = rd64 ph 8 + rd64 ph 32"

definition elf32_determine_size :: "mtd_info \<Rightarrow> bytes \<Rightarrow> (int + u64) option" where
  "elf32_determine_size mtd hdr =
     (if rd32 hdr 32 > 0 then do {
        n \<leftarrow> mul16 (rd16 hdr 46) (rd16 hdr 48);
        Some (Inr (ucast (rd32 hdr 32 + n))) }
      else do {
        n \<leftarrow> mul16 (rd16 hdr 42) (rd16 hdr 44);
        elf_segments mtd 28 section_end32 (rd16 hdr 42) (ucast (rd32 hdr 28))
          (ucast (rd32 hdr 28 + n)) 0 })"

definition elf64_determine_size :: "mtd_info \<Rightarrow> bytes \<Rightarrow> (int + u64) option" where
  "elf64_determine_size mtd hdr =
     (if rd64 hdr 40 > 0 then do {
        n \<leftarrow> mul16 (rd16 hdr 58) (rd16 hdr 60);
        Some (Inr (rd64 hdr 40 + ucast n)) }
      else do {
        n \<leftarrow> mul16 (rd16 hdr 54) (rd16 hdr 56);
        elf_segments mtd 48 section_end64 (rd16 hdr 54) (rd64 hdr 32) (rd64 hdr 32 + ucast n) 0 })"

definition mtdsplit_parse_elf :: "mtd_info \<Rightarrow> bool \<Rightarrow> parse_result" where
  "mtdsplit_parse_elf mtd kz =
     (case mtdsplit_elf_read_mtd mtd 0 64 of
        Inl e \<Rightarrow> Some (Inl e)
      | Inr hdr \<Rightarrow>
          if be32 hdr 0 \<noteq> ELF_MAGIC then Some (Inl (- EINVAL))
          else do {
            s \<leftarrow> (if hdr ! 4 = ELF_CLASS_32 then elf32_determine_size mtd hdr
                 else if hdr ! 4 = ELF_CLASS_64 then elf64_determine_size mtd hdr
                 else Some (Inl (- EINVAL)));
            case s of
              Inl e \<Rightarrow> Some (Inl e)
            | Inr loader_size \<Rightarrow> do {
                r \<leftarrow> mtd_find_rootfs_from mtd loader_size (mtd_size mtd);
                case r of
                  Inl e \<Rightarrow> Some (Inl e)
                | Inr (rootfs_offset, type) \<Rightarrow>
                    if rootfs_offset = mtd_size mtd then Some (Inl (- ENODEV))
                    else two_parts kz (mk_part KERNEL_PART_NAME 0 rootfs_offset)
                      (mk_part (rootfs_name type) rootfs_offset (mtd_size mtd - rootfs_offset)) } })"

section \<open>Parsers whose root file system takes the tail of the device\<close>

text \<open>\<open>tiles a ps b\<close>: the partitions fill the range from \<open>a\<close> to \<open>b\<close> in order, without gaps.\<close>

fun tiles :: "nat \<Rightarrow> mtd_partition list \<Rightarrow> nat \<Rightarrow> bool" where
  "tiles a [] b \<longleftrightarrow> a = b"
| "tiles a (p # ps) b \<longleftrightarrow>
     unat (part_offset p) = a \<and> tiles (a + unat (part_size p)) ps b"

definition extent :: "mtd_partition \<Rightarrow> nat set" where
  "extent p = {unat (part_offset p)..<unat (part_offset p) + unat (part_size p)}"

lemma tiles_le: "tiles a ps b \<Longrightarrow> a \<le> b"
  by (induction ps arbitrary: a) fastforce+

lemma tiles_cover: "tiles a ps b \<Longrightarrow> (\<Union>p \<in> set ps. extent p) = {a..<b}"
proof (induction ps arbitrary: a)
  case (Cons p ps)
  have "{a..<a + unat (part_size p)} \<union> {a + unat (part_size p)..<b} = {a..<b}"
    using Cons.prems tiles_le by (intro ivl_disj_un) force+
  moreover have "(\<Union>q \<in> set ps. extent q) = {a + unat (part_size p)..<b}"
    using Cons by simp
  ultimately show ?case using Cons.prems by (simp add: extent_def)
qed simp

lemma tiles_disjoint:
  assumes "tiles a (p # ps) b" and "q \<in> set ps"
  shows "extent p \<inter> extent q = {}"
proof -
  have "extent q \<subseteq> {a + unat (part_size p)..<b}"
    using tiles_cover [of "a + unat (part_size p)" ps b] assms by auto
  then show ?thesis using assms(1) by (auto simp: extent_def)
qed

text \<open>
  The contract: a successful parse names two partitions, the second of which starts at a root
  file system that is not before \<open>start\<close> and reaches to the end of the device.
\<close>

definition small :: "mtd_info \<Rightarrow> bool" where
  "small mtd \<longleftrightarrow> eb_ok mtd \<and> unat (mtd_size mtd) \<le> 2 ^ 32"

definition tail_at :: "mtd_info \<Rightarrow> u64 \<Rightarrow> mtd_partition list \<Rightarrow> bool" where
  "tail_at mtd start ps \<longleftrightarrow> (\<exists>n n' off t.
     ps = [mk_part n 0 off, mk_part n' off (mtd_size mtd - off)] \<and>
     start \<le> off \<and> off < mtd_size mtd \<and> mtd_check_rootfs_magic mtd off = Inr t)"

lemma tail_at_tiles:
  assumes "tail_at mtd s ps"
  shows "tiles 0 ps (unat (mtd_size mtd))"
proof -
  obtain n n' off t where ps: "ps = [mk_part n 0 off, mk_part n' off (mtd_size mtd - off)]"
      and "off < mtd_size mtd"
    using assms by (auto simp: tail_at_def)
  then have "unat (mtd_size mtd - off) = unat (mtd_size mtd) - unat off"
    and "unat off \<le> unat (mtd_size mtd)"
    by (simp_all add: unat_sub_le word_le_nat_alt word_less_nat_alt)
  then show ?thesis by (simp add: ps mk_part_def)
qed

lemma tail_at_last:
  "tail_at mtd s ps \<Longrightarrow> \<exists>t. mtd_check_rootfs_magic mtd (part_offset (last ps)) = Inr t"
  by (auto simp: tail_at_def mk_part_def)

locale tail_split =
  fixes parse :: "mtd_info \<Rightarrow> bool \<Rightarrow> parse_result"
    and start :: "mtd_info \<Rightarrow> u64"
  assumes parse_tail: "small mtd \<Longrightarrow> parse mtd kz = Some (Inr ps) \<Longrightarrow> tail_at mtd (start mtd) ps"
begin

lemma tiled:
  "small mtd \<Longrightarrow> parse mtd kz = Some (Inr ps) \<Longrightarrow> tiles 0 ps (unat (mtd_size mtd))"
  by (rule tail_at_tiles [OF parse_tail])

lemma rootfs_last:
  "small mtd \<Longrightarrow> parse mtd kz = Some (Inr ps) \<Longrightarrow>
    \<exists>t. mtd_check_rootfs_magic mtd (part_offset (last ps)) = Inr t"
  by (rule tail_at_last [OF parse_tail])

end

lemma two_parts_tail:
  assumes "small mtd" and "mtd_find_rootfs_from mtd start (mtd_size mtd) = Some (Inr (off, t))"
    and "two_parts kz (mk_part n 0 off) (mk_part n' off (mtd_size mtd - off)) = Some (Inr ps)"
  shows "tail_at mtd start ps"
proof -
  have "start \<le> off \<and> off < mtd_size mtd \<and> mtd_check_rootfs_magic mtd off = Inr t"
    by (rule find_rootfs_result [OF _ _ assms(2)]) (use assms(1) in \<open>simp_all add: small_def\<close>)
  then show ?thesis using assms(3) by (auto simp: tail_at_def two_parts_def split: if_splits)
qed

lemma after_search:
  assumes "Option.bind (mtd_find_rootfs_from mtd start (mtd_size mtd)) (\<lambda>r. case r of
       Inl e \<Rightarrow> Some (Inl e)
     | Inr (off, t) \<Rightarrow>
         two_parts kz (mk_part n 0 off) (mk_part (g t) off (mtd_size mtd - off))) = Some (Inr ps)"
    and "small mtd"
  shows "tail_at mtd start ps"
proof (cases "mtd_find_rootfs_from mtd start (mtd_size mtd)")
  case (Some r)
  then show ?thesis
    using assms two_parts_tail [OF assms(2)] by (cases r) auto
qed (use assms in simp)

lemma tail_at_zero: "tail_at mtd start ps \<Longrightarrow> tail_at mtd 0 ps"
  unfolding tail_at_def by fastforce

lemma elf_tail:
  assumes "small mtd" and "mtdsplit_parse_elf mtd kz = Some (Inr ps)"
  shows "tail_at mtd 0 ps"
  using assms
  by (auto simp: mtdsplit_parse_elf_def split: sum.splits if_splits bind_splits
      intro: tail_at_zero [OF two_parts_tail])

interpretation lzma: tail_split mtdsplit_parse_lzma "\<lambda>mtd. ucast (mtd_erasesize mtd)"
  by unfold_locales
    (auto simp: mtdsplit_parse_lzma_def split: sum.splits if_splits intro: after_search)

interpretation minor: tail_split mtdsplit_parse_minor "\<lambda>mtd. ucast (mtd_erasesize mtd)"
  by unfold_locales
    (auto simp: mtdsplit_parse_minor_def split: sum.splits if_splits intro: after_search)

interpretation wrgg: tail_split mtdsplit_parse_wrgg "\<lambda>mtd. WRGG_MIN_ROOTFS_OFFS"
  by unfold_locales
    (auto simp: mtdsplit_parse_wrgg_def split: sum.splits if_splits intro: after_search)

interpretation bootfs: tail_split mtdsplit_cfe_bootfs_parse "\<lambda>mtd. ucast (mtd_erasesize mtd)"
  by unfold_locales
    (auto simp: mtdsplit_cfe_bootfs_parse_def split: sum.splits if_splits bind_splits intro: after_search)

interpretation elf: tail_split mtdsplit_parse_elf "\<lambda>mtd. 0"
  by unfold_locales (rule elf_tail)

text \<open>A device over a list of bytes, for the closed examples.\<close>

definition flat_mtd :: "string \<Rightarrow> u32 \<Rightarrow> bytes \<Rightarrow> mtd_info" where
  "flat_mtd nm es b = \<lparr>mtd_name = nm, mtd_size = of_nat (length b), mtd_erasesize = es,
     mtd_read = (\<lambda>off len. if unat off + len \<le> length b then (0, take len (drop (unat off) b))
       else (- EINVAL, [])),
     div_by_eb = (\<lambda>sz. ucast (sz div ucast es)), mod_by_eb = (\<lambda>sz. ucast (sz mod ucast es))\<rparr>"

lemma flat_mtd_small: "0 < es \<Longrightarrow> length b \<le> 2 ^ 32 \<Longrightarrow> small (flat_mtd nm es b)"
  by (simp add: small_def eb_ok_def flat_mtd_def unat_of_nat)

definition sqsh :: bytes where "sqsh = [0x68, 0x73, 0x71, 0x73]"

section \<open>Parsers that scan the erase blocks\<close>

lemma add_es_unat:
  assumes "unat (off :: u64) < 2 ^ 33"
  shows "unat (off + ucast (es :: u32)) = unat off + unat es"
proof -
  have "unat off + unat es < 2 ^ 33 + 2 ^ 32"
    using add_strict_mono [OF assms unat_u32_lt [of es]] by simp
  then show ?thesis by (subst unat_add_fits) simp_all
qed

lemma image_scan_returns:
  assumes "small master" and "unat offset < 2 ^ 33"
  shows "ok (image_scan master at offset sz) (\<lambda>(o', s).
    (o' < mtd_size master \<and> at o' = (s, True)) \<or> mtd_size master \<le> o')"
  using assms(2)
proof (induction "unat (mtd_size master) - unat offset" arbitrary: offset sz rule: less_induct)
  case less
  show ?case
  proof (cases "offset < mtd_size master \<and> \<not> snd (at offset)")
    case True
    let ?next = "offset + ucast (mtd_erasesize master)"
    have lt: "unat offset < unat (mtd_size master)" using True by (simp add: word_less_nat_alt)
    have sm: "unat (mtd_size master) \<le> 2 ^ 32" "0 < unat (mtd_erasesize master)"
      using assms(1) eb_pos [of master] by (simp_all add: small_def eb_def)
    have nx: "unat ?next = unat offset + unat (mtd_erasesize master)"
      by (rule add_es_unat [OF less.prems])
    have "unat offset + unat (mtd_erasesize master) < 2 ^ 32 + 2 ^ 32"
      by (rule add_less_le_mono) (use lt sm unat_u32_lt [of "mtd_erasesize master"] in simp_all)
    then have "unat ?next < 2 ^ 33" using nx by simp
    moreover have "unat (mtd_size master) - unat ?next < unat (mtd_size master) - unat offset"
      using nx lt sm by linarith
    ultimately have "ok (image_scan master at ?next (fst (at offset))) (\<lambda>(o', s).
        (o' < mtd_size master \<and> at o' = (s, True)) \<or> mtd_size master \<le> o')"
      by (rule less.hyps [rotated])
    then show ?thesis using True by (subst image_scan.simps) simp
  next
    case False
    then show ?thesis
      by (subst image_scan.simps) (auto simp: prod_eq_iff)
  qed
qed

text \<open>\<open>image_split\<close>: what a scanning parser may answer.\<close>

definition image_split :: "mtd_info \<Rightarrow> (u64 \<Rightarrow> u64 \<times> bool) \<Rightarrow> mtd_partition list \<Rightarrow> bool" where
  "image_split master at ps \<longleftrightarrow>
     tiles 0 ps (unat (mtd_size master)) \<or>
     (\<exists>n off sz. ps = [mk_part n 0 off, mk_part KERNEL_PART_NAME off sz] \<and>
        (off < mtd_size master \<longrightarrow> at off = (sz, True)))"

lemma image_split_behind:
  "(off < mtd_size master \<longrightarrow> at off = (sz, True)) \<Longrightarrow>
     image_split master at [mk_part n 0 off, mk_part KERNEL_PART_NAME off sz]"
  unfolding image_split_def by blast

lemma image_parts_split:
  assumes "small master" and "image_scan master at 0 0 = Some (off, sz)"
  shows "ok (image_parts master off sz) (\<lambda>r. \<forall>ps. r = Inr ps \<longrightarrow> image_split master at ps)"
proof -
  have s: "(off < mtd_size master \<and> at off = (sz, True)) \<or> mtd_size master \<le> off"
    using image_scan_returns [OF assms(1), of 0 "at" 0] assms(2) by simp
  have sm: "eb_ok master" "unat (mtd_size master) \<le> 2 ^ 32"
    using assms(1) by (simp_all add: small_def)
  show ?thesis
  proof (cases "sz = 0 \<or> off \<noteq> 0")
    case True
    then show ?thesis using s
      by (auto simp: image_parts_def intro: image_split_behind split: sum.split)
  next
    case False
    then have o: "off = 0" "sz \<noteq> 0" by auto
    let ?cs = "candidates (eb master) (unat sz) (unat (mtd_size master))"
    note f = find_rootfs_first [OF sm, of sz]
    show ?thesis
    proof (cases "first_rootfs master ?cs")
      case (Inl e)
      then show ?thesis using o by (simp add: image_parts_def f)
    next
      case (Inr q)
      obtain ro t where q: "q = (ro, t)" by (cases q)
      have lt: "ro < mtd_size master"
        using find_rootfs_result [OF sm, of sz ro t] f Inr q by simp
      then have "unat (mtd_size master - ro) = unat (mtd_size master) - unat ro"
        and "unat ro < unat (mtd_size master)"
        by (simp_all add: unat_sub_le word_le_nat_alt word_less_nat_alt)
      then show ?thesis using o lt
        by (simp add: image_parts_def f Inr q image_split_def mk_part_def)
    qed
  qed
qed

lemma scan_parser_ok:
  assumes "small master"
  shows "ok (Option.bind (image_scan master at 0 0) (\<lambda>(off, sz). image_parts master off sz))
    (\<lambda>r. \<forall>ps. r = Inr ps \<longrightarrow> image_split master at ps)"
  using image_scan_returns [OF assms, of 0 "at" 0] image_parts_split [OF assms, of "at"]
  by (auto simp: ok_bind elim!: okE)

text \<open>The size the header of a jImage states is that of an image that ends inside the device.\<close>

lemma jimage_at_inside:
  assumes "small master" and "off < mtd_size master" and "jimage_at master off = (sz, True)"
  shows "unat off + unat sz \<le> unat (mtd_size master)"
proof -
  obtain buf where sz: "sz = 56 + ucast (rd32 buf 24)" and le: "off + sz \<le> mtd_size master"
    using assms(3) by (auto simp: jimage_at_def Let_def split: sum.splits if_splits)
  have "unat sz = 56 + unat (rd32 buf 24)"
    unfolding sz by (subst unat_add_fits) (use unat_u32_lt [of "rd32 buf 24"] in simp_all)
  then have "unat sz < 2 ^ 33" using unat_u32_lt [of "rd32 buf 24"] by simp
  moreover have "unat off < 2 ^ 32"
    using assms(1,2) by (simp add: small_def word_less_nat_alt)
  ultimately have "unat (off + sz) = unat off + unat sz"
    by (intro unat_add_fits) simp
  then show ?thesis using le by (simp add: word_le_nat_alt)
qed

section \<open>Alignment of the data behind a squashfs image\<close>

lemma roundup_unat:
  assumes "eb_ok mtd" and "unat sz < 2 ^ 32" and "(unat sz div eb mtd + 1) * eb mtd < 2 ^ 32"
  shows "unat (mtd_roundup_to_eb sz mtd) =
    (if unat sz mod eb mtd = 0 then unat sz else (unat sz div eb mtd + 1) * eb mtd)"
proof (cases "unat sz mod eb mtd = 0")
  case True
  then show ?thesis using assms(1) by (simp add: mtd_roundup_to_eb_def mod_by_eb_zero)
next
  case False
  have d: "unat (div_by_eb mtd sz) = unat sz div eb mtd" by (rule div_by_eb_unat [OF assms(1,2)])
  have "unat sz div eb mtd + 1 \<le> (unat sz div eb mtd + 1) * eb mtd"
    using eb_pos [OF assms(1)] by (cases "eb mtd") simp_all
  then have "unat (div_by_eb mtd sz) + unat (1 :: u32) < 2 ^ LENGTH(32)"
    using d assms(3) by simp
  then have "unat (div_by_eb mtd sz + 1) = unat sz div eb mtd + 1"
    by (simp add: unat_add_fits d)
  then have "unat ((div_by_eb mtd sz + 1) * mtd_erasesize mtd) = (unat sz div eb mtd + 1) * eb mtd"
    using assms(3) by (simp add: unat_mult_lem [THEN iffD1] eb_def)
  then show ?thesis
    using False assms(1) by (simp add: mtd_roundup_to_eb_def mod_by_eb_zero)
qed

section \<open>Properties\<close>

text \<open>C22: On a device of at most 4 GiB whose kernel helpers divide by its erase block size, with a
  limit inside the device, the search for a root file system returns, and its answer is that of the first candidate with a known magic
  among the start offset and the erase block boundaries after it; without one it is
  \<open>-ENODEV\<close>.\<close>

theorem find_rootfs_is_first:
  assumes "small mtd" and "limit \<le> mtd_size mtd"
  shows "mtd_find_rootfs_from mtd start limit =
    Some (first_rootfs mtd (candidates (eb mtd) (unat start) (unat limit)))"
  using assms by (intro find_rootfs_first) (auto simp: small_def word_le_nat_alt)

theorem find_rootfs_is_first_witness:
  "mtd_find_rootfs_from (flat_mtd ''fw'' 16 (replicate 32 0 @ sqsh @ replicate 12 0)) 3 48 =
    Some (first_rootfs (flat_mtd ''fw'' 16 (replicate 32 0 @ sqsh @ replicate 12 0))
      (candidates (eb (flat_mtd ''fw'' 16 (replicate 32 0 @ sqsh @ replicate 12 0))) (unat (3 :: u64)) (unat (48 :: u64))))"
  by (rule find_rootfs_is_first) (simp_all add: flat_mtd_small sqsh_def, simp add: flat_mtd_def)

text \<open>C23: On a device of at most 4 GiB whose kernel helpers divide by its erase block size the lzma, minor, wrgg, cfe-bootfs and elf parsers split the
  device exactly: the partitions of a successful parse follow each other without gap or overlap from
  offset 0 to the end, and the last one starts with the magic of a root file system.\<close>

theorem tail_parsers_tile:
  assumes "small mtd"
    and "parse \<in> {mtdsplit_parse_lzma, mtdsplit_parse_minor, mtdsplit_parse_wrgg,
           mtdsplit_cfe_bootfs_parse, mtdsplit_parse_elf}"
    and "parse mtd kz = Some (Inr ps)"
  shows "tiles 0 ps (unat (mtd_size mtd)) \<and>
    (\<exists>t. mtd_check_rootfs_magic mtd (part_offset (last ps)) = Inr t)"
proof -
  have t: "tail_at mtd 0 ps"
    using assms lzma.parse_tail [of mtd kz ps] minor.parse_tail [of mtd kz ps]
      wrgg.parse_tail [of mtd kz ps] bootfs.parse_tail [of mtd kz ps] elf.parse_tail [of mtd kz ps]
    by (auto intro: tail_at_zero)
  then show ?thesis using tail_at_tiles [OF t] tail_at_last [OF t] by blast
qed

definition lzma_flash :: mtd_info where
  "lzma_flash = flat_mtd ''firmware'' 16 ([0x5d, 0, 0, 0x80, 0] @ replicate 11 0 @ sqsh @ replicate 12 0)"

lemma lzma_flash_small: "small lzma_flash"
  by (simp add: lzma_flash_def flat_mtd_small sqsh_def)

lemma lzma_flash_parse:
  "mtdsplit_parse_lzma lzma_flash True = Some (Inr [mk_part ''kernel'' 0 16, mk_part ''rootfs'' 16 16])"
  by (simp add: mtdsplit_parse_lzma_def lzma_flash_def flat_mtd_def mtdsplit_elf_read_mtd_def sqsh_def
      rd32_def is_pow2_def mtd_find_rootfs_from.simps mtd_check_rootfs_magic_def SQUASHFS_MAGIC_def
      two_parts_def KERNEL_PART_NAME_def ROOTFS_PART_NAME_def)

theorem tail_parsers_tile_witness:
  "tiles 0 [mk_part ''kernel'' 0 16, mk_part ''rootfs'' 16 16] (unat (mtd_size lzma_flash)) \<and>
    (\<exists>t. mtd_check_rootfs_magic lzma_flash
      (part_offset (last [mk_part ''kernel'' 0 16, mk_part ''rootfs'' 16 16])) = Inr t)"
  using tail_parsers_tile [where parse = mtdsplit_parse_lzma, OF lzma_flash_small _ lzma_flash_parse]
  by blast

end
