(* ===== verification/Mtd_Wfi.thy ===== *)
theory Mtd_Wfi
  imports Mtd_Parsers
begin

text \<open>
  The parsers of the Broadcom whole flash image (mtdsplit_bcm_wfi.c): an image is found by JFFS2 directory
  entries at erase block boundaries, for the boot loader and for the kernel, and by a UBI volume behind them.
  Offsets of type \<open>loff_t\<close> are words that compare as signed. \<open>crc\<close> is the kernel's \<open>crc32\<close>. A parser gives its
  return code and what it stores through \<open>pparts\<close>, if anything.
\<close>

section \<open>Names and nodes\<close>

definition ENOENT :: int where "ENOENT = 2"
definition JFFS2_NODETYPE_DIRENT :: u16 where "JFFS2_NODETYPE_DIRENT = 0xe001"
definition MTD_WRITEABLE :: u32 where "MTD_WRITEABLE = 0x400"

definition CFERAM_NAME :: bytes where "CFERAM_NAME = [0x63, 0x66, 0x65, 0x72, 0x61, 0x6d]"
definition CFERAM_NAME_MAX_LEN :: nat where "CFERAM_NAME_MAX_LEN = 32"
definition KERNEL_NAME :: bytes where
  "KERNEL_NAME = [0x76, 0x6d, 0x6c, 0x69, 0x6e, 0x75, 0x78, 0x2e, 0x6c, 0x7a]"
definition OPENWRT_NAME :: bytes where
  "OPENWRT_NAME = [0x31, 0x2d, 0x6f, 0x70, 0x65, 0x6e, 0x77, 0x72, 0x74]"
definition UBI_MAGIC :: u32 where "UBI_MAGIC = 0x55424923"
definition CFE_MAGIC_PFX :: bytes where "CFE_MAGIC_PFX = [0x63, 0x66, 0x65, 0x72, 0x61, 0x6d, 0x2e]"
definition CFE_MAGIC_LEN :: nat where "CFE_MAGIC_LEN = 10"
definition SERCOMM_MAGIC_PFX :: bytes where "SERCOMM_MAGIC_PFX = [0x65, 0x52, 0x63, 0x4f, 0x6d, 0x4d, 0x2e]"
definition SERCOMM_MAGIC_LEN :: nat where "SERCOMM_MAGIC_LEN = 10"

definition PART_CFERAM :: string where "PART_CFERAM = ''cferam''"
definition PART_FIRMWARE :: string where "PART_FIRMWARE = ''firmware''"
definition PART_IMAGE_1 :: string where "PART_IMAGE_1 = ''img1''"
definition PART_IMAGE_2 :: string where "PART_IMAGE_2 = ''img2''"

definition char_to_num :: "u8 \<Rightarrow> int" where
  "char_to_num c = (if 0x30 \<le> c \<and> c \<le> 0x39 then uint c - 48 else 0)"

text \<open>\<open>struct jffs2_raw_dirent\<close> has 40 bytes: totlen at 4, ino at 20, nsize at 28, node_crc at 32, the name behind.\<close>

type_synonym crc32_fun = "u32 \<Rightarrow> bytes \<Rightarrow> u32"

definition jffs2_dirent_crc :: "crc32_fun \<Rightarrow> bytes \<Rightarrow> u32" where
  "jffs2_dirent_crc crc node = crc 0 (take 32 node)"

text \<open>The fields are read only as far as the conjunction needs them; the node may reach beyond the buffer.\<close>

definition jffs2_dirent_valid :: "crc32_fun \<Rightarrow> bytes \<Rightarrow> nat \<Rightarrow> bool option" where
  "jffs2_dirent_valid crc buf p = do {
     magic \<leftarrow> slice buf p 2;
     (if rd16 magic 0 \<noteq> JFFS2_MAGIC_BITMASK then Some False
      else do {
        nodetype \<leftarrow> slice buf (p + 2) 2;
        (if rd16 nodetype 0 \<noteq> JFFS2_NODETYPE_DIRENT then Some False
         else do {
           ino \<leftarrow> slice buf (p + 20) 4;
           (if rd32 ino 0 = 0 then Some False
            else do {
              node_crc \<leftarrow> slice buf (p + 32) 4;
              node \<leftarrow> slice buf p 32;
              Some (rd32 node_crc 0 = jffs2_dirent_crc crc node)
            })
         })
      })
   }"

definition next_node :: "bytes \<Rightarrow> u32 \<Rightarrow> u32" where
  "next_node buf block_offs = (block_offs + rd32 buf (unat block_offs + 4) + 3) AND NOT 3"

section \<open>Search for a file\<close>

text \<open>
  The nodes of a block: \<open>valid\<close> becomes true with the marker file; the second result is the return code and
  the place of the node when the search ends in this block.
\<close>

partial_function (option) scan_nodes ::
    "crc32_fun \<Rightarrow> bytes \<Rightarrow> u32 \<Rightarrow> bytes \<Rightarrow> u32 \<Rightarrow> bool \<Rightarrow> (bool \<times> (int \<times> nat) option) option" where
  "scan_nodes crc buf es name block_offs valid =
     (if block_offs < es then
        Option.bind (jffs2_dirent_valid crc buf (unat block_offs)) (\<lambda>is_node.
          if \<not> is_node then scan_nodes crc buf es name (block_offs + 4) valid
          else Option.bind (slice buf (unat block_offs + 40) (length OPENWRT_NAME)) (\<lambda>nm.
            if nm = OPENWRT_NAME then scan_nodes crc buf es name (next_node buf block_offs) True
            else Option.bind (slice buf (unat block_offs + 40) (length name)) (\<lambda>nm.
              if nm = name then Some (valid, Some (if valid then 0 else - EINVAL, unat block_offs))
              else scan_nodes crc buf es name (next_node buf block_offs) valid)))
      else Some (valid, None))"

text \<open>The result is the return code, the offset reached, and the block with the place of the node.\<close>

partial_function (option) find_file_loop ::
    "crc32_fun \<Rightarrow> mtd_info \<Rightarrow> bytes \<Rightarrow> u64 \<Rightarrow> u64 \<Rightarrow> bool \<Rightarrow> (int \<times> u64 \<times> (bytes \<times> nat) option) option" where
  "find_file_loop crc mtd name end_off offs valid =
     (if offs <s end_off then
        (case mtdsplit_elf_read_mtd mtd offs 2 of
           Inl _ \<Rightarrow> find_file_loop crc mtd name end_off (offs + ucast (mtd_erasesize mtd)) valid
         | Inr magic \<Rightarrow>
             if rd16 magic 0 \<noteq> JFFS2_MAGIC_BITMASK
             then find_file_loop crc mtd name end_off (offs + ucast (mtd_erasesize mtd)) valid
             else (case mtd_read mtd offs (unat (mtd_erasesize mtd)) of (rc, buf) \<Rightarrow>
               if rc \<noteq> 0 then Some (rc, offs, None)
               else if length buf \<noteq> unat (mtd_erasesize mtd) then Some (- EINVAL, offs, None)
               else Option.bind (scan_nodes crc buf (mtd_erasesize mtd) name 0 valid) (\<lambda>(valid, r).
                 case r of
                   None \<Rightarrow> find_file_loop crc mtd name end_off (offs + ucast (mtd_erasesize mtd)) valid
                 | Some (rc, p) \<Rightarrow> Some (rc, offs, if rc = 0 then Some (buf, p) else None))))
      else Some (- ENOENT, offs, None))"

definition jffs2_find_file ::
    "crc32_fun \<Rightarrow> mtd_info \<Rightarrow> bytes \<Rightarrow> u64 \<Rightarrow> u64 \<Rightarrow> (int \<times> u64 \<times> (bytes \<times> nat) option) option" where
  "jffs2_find_file crc mtd name offs sz = find_file_loop crc mtd name (offs + sz) offs False"

text \<open>\<open>kstrndup\<close> reads up to a zero byte or \<open>n\<close> bytes; it adds a zero byte to its copy.\<close>

fun strn :: "bytes \<Rightarrow> nat \<Rightarrow> nat \<Rightarrow> bytes option" where
  "strn buf p 0 = Some []"
| "strn buf p (Suc n) = do {
     c \<leftarrow> load buf p;
     (if c = 0 then Some [] else do { cs \<leftarrow> strn buf (p + 1) n; Some (c # cs) })
   }"

text \<open>What the caller's \<open>out_name\<close> and \<open>out_name_len\<close> hold after the search, from \<open>NULL\<close> and 0 on.\<close>

definition out_name :: "bool \<Rightarrow> (bytes \<times> nat) option \<Rightarrow> (bytes option \<times> nat) option" where
  "out_name kz node =
     (case node of
        None \<Rightarrow> Some (None, 0)
      | Some (buf, p) \<Rightarrow> do {
          nsize \<leftarrow> load buf (p + 28);
          cs \<leftarrow> strn buf (p + 40) (unat nsize);
          Some (if kz then Some (cs @ [0]) else None, unat nsize)
        })"

partial_function (option) ubifs_find :: "mtd_info \<Rightarrow> u64 \<Rightarrow> u64 \<Rightarrow> (int \<times> u64) option" where
  "ubifs_find mtd end_off offs =
     (if offs <s end_off then
        (case mtdsplit_elf_read_mtd mtd offs 4 of
           Inl _ \<Rightarrow> ubifs_find mtd end_off (offs + ucast (mtd_erasesize mtd))
         | Inr magic \<Rightarrow>
             if be32 magic 0 = UBI_MAGIC then Some (0, offs)
             else ubifs_find mtd end_off (offs + ucast (mtd_erasesize mtd)))
      else Some (- ENOENT, offs))"

section \<open>An image\<close>

text \<open>The device tree node: the property that names the boot loader, and the flag that there is none.\<close>

record wfi_node =
  wn_cferam :: "bytes option"
  wn_no_cferam :: bool

record masked_partition = mtd_partition +
  part_mask_flags :: u32

type_synonym wfi_result = "(int \<times> masked_partition list option) option"

definition wfi_part :: "string \<Rightarrow> u64 \<Rightarrow> u64 \<Rightarrow> u32 \<Rightarrow> masked_partition" where
  "wfi_part nm off sz fl = \<lparr>part_name = nm, part_offset = off, part_size = sz, part_mask_flags = fl\<rparr>"

definition cferam_key :: "wfi_node option \<Rightarrow> bytes" where
  "cferam_key node =
     (let name = (case node of Some n \<Rightarrow> (case wn_cferam n of Some s \<Rightarrow> s | None \<Rightarrow> CFERAM_NAME) | None \<Rightarrow> CFERAM_NAME);
          len = min (length name) CFERAM_NAME_MAX_LEN
      in take (if len > 0 then len - 1 else len) name)"

text \<open>The part from the search for the kernel on; \<open>cfe\<close> is the offset of the boot loader, if there is one.\<close>

definition wfi_kernel_on ::
    "crc32_fun \<Rightarrow> mtd_info \<Rightarrow> bool \<Rightarrow> u64 \<Rightarrow> u64 \<Rightarrow> u64 option \<Rightarrow> u64 \<Rightarrow> wfi_result" where
  "wfi_kernel_on crc master kz off sz cfe kernel_off = do {
     (ret, kernel_off, _) \<leftarrow> jffs2_find_file crc master KERNEL_NAME kernel_off (sz - (kernel_off - off));
     (if ret \<noteq> 0 then Some (ret, None)
      else do {
        let rootfs_off = kernel_off + ucast (mtd_erasesize master);
        (ret, rootfs_off) \<leftarrow> ubifs_find master (rootfs_off + (sz - (rootfs_off - off))) rootfs_off;
        (if ret \<noteq> 0 then Some (ret, None)
         else if \<not> kz then Some (- ENOMEM, None)
         else Some (if cfe \<noteq> None then 4 else 3, Some (
           (case cfe of Some cfe_off \<Rightarrow> [wfi_part PART_CFERAM cfe_off (kernel_off - cfe_off) MTD_WRITEABLE] | None \<Rightarrow> []) @
           [wfi_part PART_FIRMWARE kernel_off (sz - (kernel_off - off)) 0,
            wfi_part KERNEL_PART_NAME kernel_off (rootfs_off - kernel_off) 0,
            wfi_part UBI_PART_NAME rootfs_off (sz - (rootfs_off - off)) 0])))
      })
   }"

definition parse_bcm_wfi ::
    "crc32_fun \<Rightarrow> mtd_info \<Rightarrow> wfi_node option \<Rightarrow> bool \<Rightarrow> u64 \<Rightarrow> u64 \<Rightarrow> bool \<Rightarrow> wfi_result" where
  "parse_bcm_wfi crc master node kz off sz cfe_part =
     (if cfe_part then do {
        (ret, cfe_off, _) \<leftarrow> jffs2_find_file crc master (cferam_key node) off (sz - (off - off));
        (if ret \<noteq> 0 then Some (ret, None)
         else wfi_kernel_on crc master kz off sz (Some cfe_off) (cfe_off + ucast (mtd_erasesize master)))
      } else wfi_kernel_on crc master kz off sz None off)"

text \<open>\<open>kz\<close> says which allocations succeed.\<close>

datatype wfi_alloc = Wfi_buf | Wfi_name1 | Wfi_name2 | Wfi_parts | Wfi_more | Wfi_halves

definition mtdsplit_parse_bcm_wfi ::
    "crc32_fun \<Rightarrow> mtd_info \<Rightarrow> wfi_node option \<Rightarrow> (wfi_alloc \<Rightarrow> bool) \<Rightarrow> wfi_result" where
  "mtdsplit_parse_bcm_wfi crc master node kz =
     (case node of
        None \<Rightarrow> Some (- EINVAL, None)
      | Some n \<Rightarrow>
          if \<not> kz Wfi_buf then Some (- ENOMEM, None)
          else parse_bcm_wfi crc master node (kz Wfi_parts) 0 (mtd_size master) (\<not> wn_no_cferam n))"

section \<open>Two images\<close>

definition cferam_bootflag_value :: "bytes option \<Rightarrow> nat \<Rightarrow> int option" where
  "cferam_bootflag_value name name_len =
     (case name of
        None \<Rightarrow> Some (- ENOENT)
      | Some nm \<Rightarrow>
          if name_len < CFE_MAGIC_LEN then Some (- ENOENT)
          else do {
            pfx \<leftarrow> slice nm 0 (length CFE_MAGIC_PFX);
            (if pfx \<noteq> CFE_MAGIC_PFX then Some (- ENOENT)
             else do {
               a \<leftarrow> load nm 7; b \<leftarrow> load nm 8; c \<leftarrow> load nm 9;
               Some (char_to_num a * 100 + char_to_num b * 10 + char_to_num c)
             })
          })"

definition img2_off :: "mtd_info \<Rightarrow> u64" where
  "img2_off master = mtd_size master div 2"

definition img1_part :: "mtd_info \<Rightarrow> masked_partition" where
  "img1_part master = wfi_part PART_IMAGE_1 0 (img2_off master - 0) 0"

definition img2_part :: "mtd_info \<Rightarrow> masked_partition" where
  "img2_part master = wfi_part PART_IMAGE_2 (img2_off master) (mtd_size master - img2_off master) 0"

text \<open>The end of both parsers of two images: the active one is parsed, the other becomes a partition.\<close>

definition parse_active ::
    "crc32_fun \<Rightarrow> mtd_info \<Rightarrow> wfi_node option \<Rightarrow> (wfi_alloc \<Rightarrow> bool) \<Rightarrow> int \<Rightarrow> int \<Rightarrow> bool \<Rightarrow> wfi_result" where
  "parse_active crc master node kz bf1 bf2 cfe_part = do {
     let (active, inactive) = (if bf1 \<ge> bf2 then (img1_part master, img2_part master)
       else (img2_part master, img1_part master));
     (ret, pparts) \<leftarrow> parse_bcm_wfi crc master node (kz Wfi_parts) (part_offset active) (part_size active) cfe_part;
     (if ret > 0 then
        (if \<not> kz Wfi_more then Some (- ENOMEM, pparts)
         else do { ps \<leftarrow> pparts; Some (ret + 1, Some (ps @ [inactive])) })
      else if \<not> kz Wfi_halves then None
      else Some (ret, Some [img1_part master, img2_part master]))
   }"

definition mtdsplit_parse_bcm_wfi_split ::
    "crc32_fun \<Rightarrow> mtd_info \<Rightarrow> wfi_node option \<Rightarrow> (wfi_alloc \<Rightarrow> bool) \<Rightarrow> wfi_result" where
  "mtdsplit_parse_bcm_wfi_split crc master node kz =
     (if \<not> kz Wfi_buf then Some (- ENOMEM, None)
      else do {
        (_, _, node1) \<leftarrow> jffs2_find_file crc master CFERAM_NAME 0 (img2_off master - 0);
        (name1, size1) \<leftarrow> out_name (kz Wfi_name1) node1;
        (_, _, node2) \<leftarrow> jffs2_find_file crc master CFERAM_NAME (img2_off master) (mtd_size master - img2_off master);
        (name2, size2) \<leftarrow> out_name (kz Wfi_name2) node2;
        bf1 \<leftarrow> cferam_bootflag_value name1 size1;
        bf2 \<leftarrow> cferam_bootflag_value name2 size2;
        parse_active crc master node kz bf1 bf2 True
      })"

text \<open>\<open>cap\<close> is the size of the buffer, a block of the master device.\<close>

partial_function (option) sercomm_bootflag_value :: "mtd_info \<Rightarrow> nat \<Rightarrow> u64 \<Rightarrow> int option" where
  "sercomm_bootflag_value mtd cap offs =
     (if offs < mtd_size mtd then
        (if cap < SERCOMM_MAGIC_LEN then None
         else case mtdsplit_elf_read_mtd mtd offs SERCOMM_MAGIC_LEN of
           Inl _ \<Rightarrow> sercomm_bootflag_value mtd cap (offs + ucast (mtd_erasesize mtd))
         | Inr buf \<Rightarrow>
             if take (length SERCOMM_MAGIC_PFX) buf \<noteq> SERCOMM_MAGIC_PFX
             then sercomm_bootflag_value mtd cap (offs + ucast (mtd_erasesize mtd))
             else Some (char_to_num (buf ! 7) * 100 + char_to_num (buf ! 8) * 10 + char_to_num (buf ! 9)))
      else Some (- ENOENT))"

text \<open>\<open>bf1\<close> and \<open>bf2\<close> are the devices of the boot flags; the result also says whether the second one was erased.\<close>

definition mtdsplit_parse_ser_wfi ::
    "crc32_fun \<Rightarrow> mtd_info \<Rightarrow> wfi_node option \<Rightarrow> (wfi_alloc \<Rightarrow> bool) \<Rightarrow> mtd_info option \<Rightarrow> mtd_info option \<Rightarrow>
     (int \<times> masked_partition list option \<times> bool) option" where
  "mtdsplit_parse_ser_wfi crc master node kz mtd_bf1 mtd_bf2 =
     (case (mtd_bf1, mtd_bf2) of
        (Some m1, Some m2) \<Rightarrow>
          if \<not> kz Wfi_buf then Some (- ENOMEM, None, False)
          else do {
            bf1 \<leftarrow> sercomm_bootflag_value m1 (unat (mtd_erasesize master)) 0;
            bf2 \<leftarrow> sercomm_bootflag_value m2 (unat (mtd_erasesize master)) 0;
            let erased = (bf1 = bf2 \<and> bf2 \<ge> 0);
            let bf2 = (if erased then - ENOENT else bf2);
            (ret, pparts) \<leftarrow> parse_active crc master node kz bf1 bf2 False;
            Some (ret, pparts, erased)
          }
      | _ \<Rightarrow> Some (- ENOENT, None, False))"

end
