(* ===== verification/Mtd_Wfi_Properties.thy ===== *)
theory Mtd_Wfi_Properties
  imports Mtd_Wfi
begin

text \<open>
  What the whole-flash-image parsers do on a device whose directory blocks are well formed: they return,
  inside their block buffer, and the partitions lie where the files and the UBI volume are.
\<close>

section \<open>Words\<close>

lemma sint_small64:
  assumes "unat (w :: u64) < 2 ^ 63"
  shows "sint w = int (unat w)"
proof -
  have "int (unat w) < int (2 ^ 63)" using assms by (simp only: of_nat_less_iff)
  then have u: "uint w < 2 ^ 63" by simp
  have "sint w = signed_take_bit 63 (uint w)" by (simp add: sint_uint)
  also have "\<dots> = uint w" by (rule signed_take_bit_int_eq_self) (use u uint_ge_0 [of w] in linarith)+
  finally show ?thesis by simp
qed

lemma sless_small:
  fixes a b :: u64
  assumes "unat a < 2 ^ 63" and "unat b < 2 ^ 63"
  shows "a <s b \<longleftrightarrow> unat a < unat b"
  by (simp only: word_sless_alt sint_small64 [OF assms(1)] sint_small64 [OF assms(2)] of_nat_less_iff)

lemma and_not_3: "unat ((x :: u32) AND NOT 3) = unat x - unat x mod 4"
proof -
  have m: "(3 :: u32) = mask 2" by (simp add: mask_eq_exp_minus_1)
  have no: "(x AND NOT 3) AND (x AND 3) = 0" by (rule bit_word_eqI) (auto simp: bit_simps)
  have yes: "(x AND NOT 3) OR (x AND 3) = x" by (rule bit_word_eqI) (auto simp: bit_simps)
  have "unat (x AND NOT 3) + unat (x AND 3) = unat (x AND NOT 3) OR unat (x AND 3)"
    by (rule disjunctive_add_eq_or) (simp only: no unsigned_0 flip: unsigned_and_eq)
  also have "\<dots> = unat x" by (simp only: yes flip: unsigned_or_eq)
  moreover have "unat (x AND 3) = unat x mod 4"
    unfolding m by (simp add: take_bit_eq_mod unat_mod_distrib flip: take_bit_eq_mask)
  ultimately show ?thesis by simp
qed

section \<open>The nodes of a block\<close>

text \<open>
  At every fourth byte of the block stands either no directory node, read inside the block, or a node
  with \<open>k\<close> bytes of room behind its fixed part and a length that leads forward.
\<close>

definition dir_block :: "crc32_fun \<Rightarrow> nat \<Rightarrow> bytes \<Rightarrow> bool" where
  "dir_block crc k buf \<longleftrightarrow> (\<forall>p < length buf. p mod 4 = 0 \<longrightarrow>
     (case jffs2_dirent_valid crc buf p of
        None \<Rightarrow> False
      | Some False \<Rightarrow> True
      | Some True \<Rightarrow> p + 40 + k \<le> length buf \<and> 0 < unat (rd32 buf (p + 4)) \<and> unat (rd32 buf (p + 4)) < 2 ^ 30))"

lemma next_node_unat:
  assumes "unat bo < 2 ^ 31" and "unat bo mod 4 = 0" and "0 < unat (rd32 buf (unat bo + 4))"
    and "unat (rd32 buf (unat bo + 4)) < 2 ^ 30"
  shows "unat bo < unat (next_node buf bo)" "unat (next_node buf bo) mod 4 = 0"
proof -
  let ?t = "rd32 buf (unat bo + 4)"
  let ?n = "unat bo + unat ?t + 3"
  have "unat (bo + ?t + 3) = ?n" using assms by (simp add: unat_word_ariths)
  then have n: "unat (next_node buf bo) = ?n - ?n mod 4" by (simp only: next_node_def and_not_3)
  have "?n mod 4 \<le> 3" by simp
  then show "unat bo < unat (next_node buf bo)" unfolding n using assms(3) by linarith
  show "unat (next_node buf bo) mod 4 = 0" unfolding n by (simp add: minus_mod_eq_mult_div)
qed

definition node_at :: "crc32_fun \<Rightarrow> bytes \<Rightarrow> bytes \<Rightarrow> nat \<Rightarrow> bool" where
  "node_at crc name buf p \<longleftrightarrow> p < length buf \<and> jffs2_dirent_valid crc buf p = Some True \<and>
     slice buf (p + 40) (length name) = Some name"

lemma scan_nodes_ok:
  assumes d: "dir_block crc k buf" and es: "unat es = length buf" "unat es mod 4 = 0" "unat es \<le> 2 ^ 31"
    and nm: "length name \<le> k" "length OPENWRT_NAME \<le> k"
  shows "unat bo mod 4 = 0 \<Longrightarrow> ok (scan_nodes crc buf es name bo valid)
    (\<lambda>(v, r). case r of None \<Rightarrow> True | Some (rc, p) \<Rightarrow> rc \<le> 0 \<and> node_at crc name buf p)"
proof (induction "unat es - unat bo" arbitrary: bo valid rule: less_induct)
  case less
  let ?Q = "\<lambda>(v, r). case r of None \<Rightarrow> True | Some (rc, p) \<Rightarrow> rc \<le> 0 \<and> node_at crc name buf p"
  show ?case
  proof (cases "bo < es")
    case False
    then show ?thesis by (subst scan_nodes.simps) simp
  next
    case True
    then have lt: "unat bo < length buf" by (simp add: word_less_nat_alt es(1))
    obtain v where valid_at: "jffs2_dirent_valid crc buf (unat bo) = Some v"
      and node: "v \<Longrightarrow> unat bo + 40 + k \<le> length buf \<and> 0 < unat (rd32 buf (unat bo + 4)) \<and>
        unat (rd32 buf (unat bo + 4)) < 2 ^ 30"
      using d lt less.prems by (force simp: dir_block_def split: option.splits bool.splits)
    have rest: "ok (scan_nodes crc buf es name b w) ?Q" if "unat bo < unat b" "unat b mod 4 = 0" for b w
      by (rule less.hyps) (use that lt es(1) in simp_all)
    have four: "unat (bo + 4) = unat bo + 4"
      using lt es by (simp add: unat_word_ariths)
    have next_ok: "ok (scan_nodes crc buf es name (next_node buf bo) w) ?Q" if v for w
      by (rule rest) (use next_node_unat [of bo buf] node [OF that] lt es less.prems in auto)
    show ?thesis
    proof (cases v)
      case False
      have "ok (scan_nodes crc buf es name (bo + 4) valid) ?Q"
        by (rule rest) (use less.prems in \<open>simp_all add: four\<close>)
      then show ?thesis using True False by (subst scan_nodes.simps) (simp add: valid_at)
    next
      case v: True
      note n = node [OF v]
      obtain a where a: "slice buf (unat bo + 40) (length OPENWRT_NAME) = Some a"
        using n nm(2) by (simp add: slice_def)
      obtain b where b: "slice buf (unat bo + 40) (length name) = Some b" using n nm(1) by (simp add: slice_def)
      have t: "jffs2_dirent_valid crc buf (unat bo) = Some True" using valid_at v by simp
      have at: "node_at crc name buf (unat bo)" if "b = name" using lt t b that by (simp add: node_at_def)
      show ?thesis
        using True next_ok [OF v] at by (subst scan_nodes.simps) (simp add: v t a b EINVAL_def)
    qed
  qed
qed

text \<open>Two blocks that are not: the start of a node at the end of the block, and a node of length 0.\<close>

lemma node_beyond_block:
  assumes "length buf = p + 4" and "drop p buf = [0x85, 0x19, 0x01, 0xe0]"
  shows "jffs2_dirent_valid crc buf p = None"
proof -
  have "drop (p + 2) buf = drop 2 (drop p buf)" by simp
  then have d2: "drop (Suc (Suc p)) buf = [0x01, 0xe0]" by (simp add: assms(2))
  show ?thesis
    by (simp add: jffs2_dirent_valid_def slice_def assms d2 rd16_def JFFS2_MAGIC_BITMASK_def JFFS2_NODETYPE_DIRENT_def)
qed

lemma empty_node_hangs:
  assumes "0 < es" and "jffs2_dirent_valid crc buf 0 = Some True" and "rd32 buf 4 = 0"
    and "slice buf 40 (length name) = Some nm" "nm \<noteq> name"
  shows "scan_nodes crc buf es name 0 valid = None"
proof -
  have stay: "next_node buf 0 = 0" by (simp add: next_node_def assms(3))
  let ?P = "\<lambda>c b e n (bo :: u32) (v :: bool) (y :: bool \<times> (int \<times> nat) option). \<not> (c = crc \<and> b = buf \<and> e = es \<and> n = name \<and> bo = 0)"
  have "?P crc buf es name 0 valid y" if "scan_nodes crc buf es name 0 valid = Some y" for y
    by (rule scan_nodes.raw_induct [where P = ?P, OF _ that])
       (use assms stay in \<open>auto simp: bind_eq_Some_conv split: if_splits\<close>)
  then show ?thesis by (cases "scan_nodes crc buf es name 0 valid") auto
qed

section \<open>The device\<close>

definition on_block :: "mtd_info \<Rightarrow> u64 \<Rightarrow> u64 \<Rightarrow> bool" where
  "on_block mtd off x \<longleftrightarrow> unat off \<le> unat x \<and> (unat x - unat off) mod unat (mtd_erasesize mtd) = 0"

definition jffs2_block :: "mtd_info \<Rightarrow> u64 \<Rightarrow> bool" where
  "jffs2_block mtd x \<longleftrightarrow> (\<exists>b. mtdsplit_elf_read_mtd mtd x 2 = Inr b \<and> rd16 b 0 = JFFS2_MAGIC_BITMASK)"

definition ubi_block :: "mtd_info \<Rightarrow> u64 \<Rightarrow> bool" where
  "ubi_block mtd x \<longleftrightarrow> (\<exists>b. mtdsplit_elf_read_mtd mtd x 4 = Inr b \<and> be32 b 0 = UBI_MAGIC)"

text \<open>A block that holds a valid directory node of a file whose name starts with \<open>name\<close>.\<close>

definition holds_file :: "crc32_fun \<Rightarrow> mtd_info \<Rightarrow> bytes \<Rightarrow> u64 \<Rightarrow> bool" where
  "holds_file crc mtd name x \<longleftrightarrow> jffs2_block mtd x \<and>
     (\<exists>buf p. mtd_read mtd x (unat (mtd_erasesize mtd)) = (0, buf) \<and> node_at crc name buf p)"

text \<open>Blocks of a multiple of four bytes, offsets of less than 63 bits, errors that are negative, and directory
  blocks with room for names of \<open>k\<close> bytes.\<close>

definition wfi_device :: "crc32_fun \<Rightarrow> nat \<Rightarrow> mtd_info \<Rightarrow> u64 \<Rightarrow> u64 \<Rightarrow> bool" where
  "wfi_device crc k mtd off sz \<longleftrightarrow>
     (let es = unat (mtd_erasesize mtd)
      in 0 < es \<and> es mod 4 = 0 \<and> es \<le> 2 ^ 31 \<and> unat off + unat sz < 2 ^ 62 \<and>
         (\<forall>x n. fst (mtd_read mtd x n) \<le> 0) \<and>
         (\<forall>x buf. on_block mtd off x \<longrightarrow> unat x < unat off + unat sz \<longrightarrow> jffs2_block mtd x \<longrightarrow>
            mtd_read mtd x es = (0, buf) \<longrightarrow> length buf = es \<longrightarrow> dir_block crc k buf))"

lemma wfi_deviceD:
  assumes "wfi_device crc k mtd off sz"
  shows "0 < unat (mtd_erasesize mtd)" "unat (mtd_erasesize mtd) mod 4 = 0" "unat (mtd_erasesize mtd) \<le> 2 ^ 31"
    "unat off + unat sz < 2 ^ 62" "\<And>x n. fst (mtd_read mtd x n) \<le> 0"
    "\<And>x buf. on_block mtd off x \<Longrightarrow> unat x < unat off + unat sz \<Longrightarrow> jffs2_block mtd x \<Longrightarrow>
       mtd_read mtd x (unat (mtd_erasesize mtd)) = (0, buf) \<Longrightarrow> length buf = unat (mtd_erasesize mtd) \<Longrightarrow>
       dir_block crc k buf"
  using assms unfolding wfi_device_def Let_def by blast+

lemma on_block_next:
  assumes "wfi_device crc k mtd off sz" and "on_block mtd off x" and "unat x < unat off + unat sz"
  shows "unat (x + ucast (mtd_erasesize mtd)) = unat x + unat (mtd_erasesize mtd)"
    "on_block mtd off (x + ucast (mtd_erasesize mtd))"
    "unat (x + ucast (mtd_erasesize mtd)) < 2 ^ 63"
proof -
  let ?es = "mtd_erasesize mtd"
  note d = wfi_deviceD [OF assms(1)]
  have "unat x + unat ?es < 2 ^ 63" using d(3,4) assms(3) by simp
  then show u: "unat (x + ucast ?es) = unat x + unat ?es" by (simp add: unat_word_ariths)
  show "unat (x + ucast ?es) < 2 ^ 63" unfolding u using d(3,4) assms(3) by simp
  have le: "unat off \<le> unat x" and m: "(unat x - unat off) mod unat ?es = 0" using assms(2) by (simp_all only: on_block_def)
  have "unat x + unat ?es - unat off = unat x - unat off + unat ?es" using le by linarith
  then have "(unat (x + ucast ?es) - unat off) mod unat ?es = 0" using m by (simp only: u mod_add_self2)
  then show "on_block mtd off (x + ucast ?es)" unfolding on_block_def u using le by linarith
qed

lemma find_file_loop_ok:
  assumes dev: "wfi_device crc k mtd off sz" and nm: "length name \<le> k" "length OPENWRT_NAME \<le> k"
    and end_off: "unat end_off \<le> unat off + unat sz"
  shows "on_block mtd off offs \<Longrightarrow> unat offs < 2 ^ 63 \<Longrightarrow> ok (find_file_loop crc mtd name end_off offs valid)
    (\<lambda>(rc, x, node). rc \<le> 0 \<and> on_block mtd off x \<and> unat offs \<le> unat x \<and>
       (rc = 0 \<longrightarrow> unat x < unat end_off \<and> holds_file crc mtd name x))"
proof (induction "unat end_off - unat offs" arbitrary: offs valid rule: less_induct)
  case less
  note d = wfi_deviceD [OF dev]
  let ?es = "mtd_erasesize mtd"
  let ?Q = "\<lambda>(rc, x, node). rc \<le> 0 \<and> on_block mtd off x \<and> unat offs \<le> unat x \<and>
       (rc = 0 \<longrightarrow> unat x < unat end_off \<and> holds_file crc mtd name x)"
  have e63: "unat end_off < 2 ^ 63" using end_off d(4) by simp
  show ?case
  proof (cases "offs <s end_off")
    case False
    then show ?thesis using less.prems by (subst find_file_loop.simps) (simp add: ENOENT_def)
  next
    case True
    then have lt: "unat offs < unat end_off" using sless_small [OF less.prems(2) e63] by simp
    then have lt2: "unat offs < unat off + unat sz" using end_off by simp
    note nx = on_block_next [OF dev less.prems(1) lt2]
    have rest: "ok (find_file_loop crc mtd name end_off (offs + ucast ?es) v) ?Q" for v
    proof (rule ok_mono3 [OF less.hyps])
      show "unat end_off - unat (offs + ucast ?es) < unat end_off - unat offs" using lt d(1) by (simp add: nx(1))
    qed (use nx in auto)
    show ?thesis
    proof (cases "jffs2_block mtd offs")
      case False
      then show ?thesis
        using True rest by (subst find_file_loop.simps) (auto simp: jffs2_block_def split: sum.split)
    next
      case jb: True
      then obtain b where b: "mtdsplit_elf_read_mtd mtd offs 2 = Inr b" "rd16 b 0 = JFFS2_MAGIC_BITMASK"
        by (auto simp: jffs2_block_def)
      obtain rc buf where r: "mtd_read mtd offs (unat ?es) = (rc, buf)" by fastforce
      have rc: "rc \<le> 0" using d(5) [of offs "unat ?es"] by (simp add: r)
      have body: "ok (Option.bind (scan_nodes crc buf ?es name 0 valid) (\<lambda>(valid, r).
          case r of
            None \<Rightarrow> find_file_loop crc mtd name end_off (offs + ucast ?es) valid
          | Some (rc, p) \<Rightarrow> Some (rc, offs, if rc = 0 then Some (buf, p) else None))) ?Q"
        if "rc = 0" "length buf = unat ?es"
      proof (rule ok_bind2 [OF scan_nodes_ok])
        show "dir_block crc k buf" by (rule d(6) [OF less.prems(1) lt2 jb]) (use that r in simp_all)
        show "unat ?es = length buf" "unat ?es mod 4 = 0" "unat ?es \<le> 2 ^ 31" "unat (0 :: u32) mod 4 = 0"
          using that d(2,3) by simp_all
        show "length name \<le> k" "length OPENWRT_NAME \<le> k" by (rule nm)+
        show "ok (case r of None \<Rightarrow> find_file_loop crc mtd name end_off (offs + ucast ?es) v
            | Some (rc, p) \<Rightarrow> Some (rc, offs, if rc = 0 then Some (buf, p) else None)) ?Q"
          if "case r of None \<Rightarrow> True | Some (rc, p) \<Rightarrow> rc \<le> 0 \<and> node_at crc name buf p" for v r
          using that rest less.prems lt jb \<open>rc = 0\<close> \<open>mtd_read mtd offs (unat ?es) = (rc, buf)\<close>
          by (auto simp: holds_file_def split: option.splits)
      qed
      show ?thesis
        using True body rc less.prems by (subst find_file_loop.simps) (simp add: b r EINVAL_def)
    qed
  qed
qed

lemma ubifs_find_ok:
  assumes dev: "wfi_device crc k mtd off sz" and end_off: "unat end_off \<le> unat off + unat sz"
  shows "on_block mtd off offs \<Longrightarrow> unat offs < 2 ^ 63 \<Longrightarrow> ok (ubifs_find mtd end_off offs)
    (\<lambda>(rc, x). rc \<le> 0 \<and> on_block mtd off x \<and> unat offs \<le> unat x \<and>
       (rc = 0 \<longrightarrow> unat x < unat end_off \<and> ubi_block mtd x))"
proof (induction "unat end_off - unat offs" arbitrary: offs rule: less_induct)
  case less
  note d = wfi_deviceD [OF dev]
  let ?es = "mtd_erasesize mtd"
  let ?Q = "\<lambda>(rc, x). rc \<le> 0 \<and> on_block mtd off x \<and> unat offs \<le> unat x \<and>
       (rc = 0 \<longrightarrow> unat x < unat end_off \<and> ubi_block mtd x)"
  have e63: "unat end_off < 2 ^ 63" using end_off d(4) by simp
  show ?case
  proof (cases "offs <s end_off")
    case False
    then show ?thesis using less.prems by (subst ubifs_find.simps) (simp add: ENOENT_def)
  next
    case True
    then have lt: "unat offs < unat end_off" using sless_small [OF less.prems(2) e63] by simp
    then have lt2: "unat offs < unat off + unat sz" using end_off by simp
    note nx = on_block_next [OF dev less.prems(1) lt2]
    have rest: "ok (ubifs_find mtd end_off (offs + ucast ?es)) ?Q"
    proof (rule ok_mono2 [OF less.hyps])
      show "unat end_off - unat (offs + ucast ?es) < unat end_off - unat offs" using lt d(1) by (simp add: nx(1))
    qed (use nx in auto)
    show ?thesis
      using True rest less.prems lt
      by (subst ubifs_find.simps) (auto simp: ubi_block_def split: sum.split)
  qed
qed

section \<open>The partitions of an image\<close>

text \<open>The boot loader, if there is one, the kernel and the UBI volume start at block boundaries in this order;
  the partitions lie between them and reach to the end of the area.\<close>

definition wfi_tail :: "crc32_fun \<Rightarrow> mtd_info \<Rightarrow> u64 \<Rightarrow> u64 \<Rightarrow> u64 option \<Rightarrow> int \<Rightarrow> masked_partition list \<Rightarrow> bool" where
  "wfi_tail crc mtd off sz cfe ret ps \<longleftrightarrow> (\<exists>k r.
     on_block mtd off k \<and> on_block mtd off r \<and> (\<forall>c. cfe = Some c \<longrightarrow> unat c < unat k) \<and>
     unat k < unat r \<and> unat r < unat off + unat sz \<and> holds_file crc mtd KERNEL_NAME k \<and> ubi_block mtd r \<and>
     ret = int (length ps) \<and>
     map (\<lambda>p. (part_name p, unat (part_offset p), unat (part_size p))) ps =
       (case cfe of Some c \<Rightarrow> [(PART_CFERAM, unat c, unat k - unat c)] | None \<Rightarrow> []) @
       [(PART_FIRMWARE, unat k, unat off + unat sz - unat k), (KERNEL_PART_NAME, unat k, unat r - unat k),
        (UBI_PART_NAME, unat r, unat off + unat sz - unat r)])"

definition wfi_image ::
    "crc32_fun \<Rightarrow> mtd_info \<Rightarrow> wfi_node option \<Rightarrow> u64 \<Rightarrow> u64 \<Rightarrow> bool \<Rightarrow> int \<Rightarrow> masked_partition list \<Rightarrow> bool" where
  "wfi_image crc mtd node off sz cfe_part ret ps \<longleftrightarrow>
     (if cfe_part then \<exists>c. on_block mtd off c \<and> holds_file crc mtd (cferam_key node) c \<and> wfi_tail crc mtd off sz (Some c) ret ps
      else wfi_tail crc mtd off sz None ret ps)"

lemma rest_of_area:
  fixes off sz x :: u64
  assumes "unat off \<le> unat x" and "unat x \<le> unat off + unat sz" and "unat off + unat sz < 2 ^ 62"
  shows "unat (sz - (x - off)) = unat off + unat sz - unat x"
proof -
  have a: "unat (x - off) = unat x - unat off" using assms(1) by (simp add: unat_sub word_le_nat_alt)
  have "x - off \<le> sz" using assms(1,2) by (simp add: word_le_nat_alt a)
  then show ?thesis using assms(1) by (simp add: unat_sub a)
qed

lemma end_of_area:
  fixes off sz x :: u64
  assumes "unat off + unat sz < 2 ^ 62"
  shows "unat (x + (sz - (x - off))) = unat off + unat sz"
proof -
  have "x + (sz - (x - off)) = off + sz" by simp
  then show ?thesis using assms by (simp add: unat_word_ariths)
qed

lemma between:
  fixes x y :: u64
  assumes "unat x \<le> unat y"
  shows "unat (y - x) = unat y - unat x"
  using assms by (simp add: unat_sub word_le_nat_alt)

lemma key_length: "length (cferam_key node) \<le> 31"
proof -
  have "length (take (if 0 < n then n - 1 else n) name) \<le> 31" if "n \<le> 32" for n and name :: bytes
    using that by (auto simp: min_le_iff_disj)
  then show ?thesis by (simp only: cferam_key_def CFERAM_NAME_MAX_LEN_def Let_def min.cobounded2)
qed

lemma find_in_area:
  assumes dev: "wfi_device crc 31 mtd off sz" and "length name \<le> 31" and "on_block mtd off x" "unat x < 2 ^ 63"
  shows "ok (jffs2_find_file crc mtd name x (sz - (x - off))) (\<lambda>(rc, y, nd). rc \<le> 0 \<and> on_block mtd off y \<and>
    unat x \<le> unat y \<and> (rc = 0 \<longrightarrow> unat y < unat off + unat sz \<and> holds_file crc mtd name y))"
proof -
  have "length OPENWRT_NAME \<le> 31" by (simp add: OPENWRT_NAME_def)
  then show ?thesis
    using find_file_loop_ok [OF dev assms(2) _ _ assms(3,4), of "x + (sz - (x - off))" False]
      end_of_area [OF wfi_deviceD(4) [OF dev], of x]
    by (simp add: jffs2_find_file_def)
qed

lemma wfi_tail_made:
  assumes dev: "wfi_device crc 31 mtd off sz"
    and k: "on_block mtd off k" "\<And>c. cfe = Some c \<Longrightarrow> unat c < unat k" "holds_file crc mtd KERNEL_NAME k"
    and r: "on_block mtd off r" "unat k < unat r" "unat r < unat off + unat sz" "ubi_block mtd r"
  shows "wfi_tail crc mtd off sz cfe (if cfe \<noteq> None then 4 else 3)
    ((case cfe of Some cfe_off \<Rightarrow> [wfi_part PART_CFERAM cfe_off (k - cfe_off) MTD_WRITEABLE] | None \<Rightarrow> []) @
     [wfi_part PART_FIRMWARE k (sz - (k - off)) 0, wfi_part KERNEL_PART_NAME k (r - k) 0,
      wfi_part UBI_PART_NAME r (sz - (r - off)) 0])"
proof -
  note d = wfi_deviceD [OF dev]
  have le: "unat off \<le> unat k" "unat off \<le> unat r" using k(1) r(1) by (simp_all add: on_block_def)
  have sizes: "unat (sz - (k - off)) = unat off + unat sz - unat k" "unat (sz - (r - off)) = unat off + unat sz - unat r"
    "unat (r - k) = unat r - unat k"
    using rest_of_area [OF le(1) _ d(4)] rest_of_area [OF le(2) _ d(4)] r(2,3) between [of k r] by simp_all
  have c: "unat (k - c) = unat k - unat c" if "cfe = Some c" for c using k(2) [OF that] by (simp add: between)
  show ?thesis
    unfolding wfi_tail_def
    by (intro exI [of _ k] exI [of _ r])
       (use k r c sizes in \<open>auto simp: wfi_part_def split: option.split\<close>)
qed

lemma wfi_kernel_on_ok:
  assumes dev: "wfi_device crc 31 mtd off sz" and k0: "on_block mtd off k0" "unat k0 < 2 ^ 63"
    and c: "\<And>c. cfe = Some c \<Longrightarrow> unat c < unat k0"
  shows "ok (wfi_kernel_on crc mtd kz off sz cfe k0) (\<lambda>(ret, ps).
    case ps of None \<Rightarrow> ret < 0 | Some ps \<Rightarrow> wfi_tail crc mtd off sz cfe ret ps)"
proof -
  let ?Q = "\<lambda>(ret, ps). case ps of None \<Rightarrow> ret < 0 | Some ps \<Rightarrow> wfi_tail crc mtd off sz cfe ret ps"
  note d = wfi_deviceD [OF dev]
  have nm: "length KERNEL_NAME \<le> 31" by (simp add: KERNEL_NAME_def)
  show ?thesis
    unfolding wfi_kernel_on_def Let_def
  proof (rule ok_bind3 [OF find_in_area [OF dev nm k0]], rule ok_if, goal_cases)
    case (1 ret k nd)
    then show ?case by simp
  next
    case (2 ret k nd)
    then have k: "on_block mtd off k" "unat k0 \<le> unat k" "unat k < unat off + unat sz" "holds_file crc mtd KERNEL_NAME k"
      by simp_all
    note r0 = on_block_next [OF dev k(1,3)]
    have ck: "unat c < unat k" if "cfe = Some c" for c using c [OF that] k(2) by simp
    have endk: "unat (k + ucast (mtd_erasesize mtd) + (sz - (k + ucast (mtd_erasesize mtd) - off))) = unat off + unat sz"
      by (rule end_of_area [OF d(4)])
    show ?case
      by (rule ok_bind2 [OF ubifs_find_ok [OF dev eq_refl [OF endk] r0(2,3)]])
         (use wfi_tail_made [OF dev k(1) ck k(4)] d(1) endk in \<open>auto simp: ENOMEM_def r0(1)\<close>)
  qed
qed

lemma parse_bcm_wfi_ok:
  assumes dev: "wfi_device crc 31 mtd off sz"
  shows "ok (parse_bcm_wfi crc mtd node kz off sz cfe_part) (\<lambda>(ret, ps).
    case ps of None \<Rightarrow> ret < 0 | Some ps \<Rightarrow> wfi_image crc mtd node off sz cfe_part ret ps)"
proof -
  note d = wfi_deviceD [OF dev]
  have o: "on_block mtd off off" "unat off < 2 ^ 63" using d(4) by (simp_all add: on_block_def)
  show ?thesis
  proof (cases cfe_part)
    case False
    then show ?thesis
      using wfi_kernel_on_ok [OF dev o, of None kz] by (simp add: parse_bcm_wfi_def wfi_image_def cong: option.case_cong)
  next
    case True
    show ?thesis
      unfolding parse_bcm_wfi_def if_P [OF True]
    proof (rule ok_bind3 [OF find_in_area [OF dev key_length o]], rule ok_if, goal_cases)
      case (1 ret c nd)
      then show ?case by simp
    next
      case (2 ret c nd)
      then have c: "on_block mtd off c" "unat c < unat off + unat sz" "holds_file crc mtd (cferam_key node) c" by simp_all
      note n = on_block_next [OF dev c(1,2)]
      show ?case
        by (rule ok_mono2 [OF wfi_kernel_on_ok [OF dev n(2,3)]])
           (use n(1) d(1) c True in \<open>auto simp: wfi_image_def split: option.splits\<close>)
    qed
  qed
qed

section \<open>Two images\<close>

lemma wfi_tail_pos:
  assumes "wfi_tail crc mtd off sz cfe ret ps"
  shows "0 < ret"
proof (cases ps)
  case Nil
  then show ?thesis using assms by (simp add: wfi_tail_def)
next
  case (Cons p ps')
  then show ?thesis using assms by (auto simp: wfi_tail_def)
qed

text \<open>The half that the parsers of two images take as the active one, and the partition of the other.\<close>

definition active_off :: "mtd_info \<Rightarrow> int \<Rightarrow> int \<Rightarrow> u64" where
  "active_off mtd bf1 bf2 = (if bf1 \<ge> bf2 then 0 else img2_off mtd)"

definition active_size :: "mtd_info \<Rightarrow> int \<Rightarrow> int \<Rightarrow> u64" where
  "active_size mtd bf1 bf2 = (if bf1 \<ge> bf2 then img2_off mtd else mtd_size mtd - img2_off mtd)"

definition other_part :: "mtd_info \<Rightarrow> int \<Rightarrow> int \<Rightarrow> masked_partition" where
  "other_part mtd bf1 bf2 = (if bf1 \<ge> bf2 then img2_part mtd else img1_part mtd)"

lemma parse_active_eq:
  "parse_active crc mtd node kz bf1 bf2 cfe_part = do {
     (ret, pparts) \<leftarrow> parse_bcm_wfi crc mtd node (kz Wfi_parts) (active_off mtd bf1 bf2) (active_size mtd bf1 bf2) cfe_part;
     (if ret > 0 then (if \<not> kz Wfi_more then Some (- ENOMEM, pparts)
        else do { ps \<leftarrow> pparts; Some (ret + 1, Some (ps @ [other_part mtd bf1 bf2])) })
      else if \<not> kz Wfi_halves then None else Some (ret, Some [img1_part mtd, img2_part mtd])) }"
  by (cases "bf1 \<ge> bf2")
    (simp_all add: parse_active_def active_off_def active_size_def other_part_def img1_part_def img2_part_def
      wfi_part_def Let_def cong: if_cong)

lemma wfi_image_pos: "wfi_image crc mtd node off sz cfe_part ret ps \<Longrightarrow> 0 < ret"
  using wfi_tail_pos by (auto simp: wfi_image_def split: if_splits)

section \<open>A device with one image\<close>

definition wfi_dirent :: "bytes \<Rightarrow> bytes" where
  "wfi_dirent nm = [0x85, 0x19, 0x01, 0xe0, 52, 0, 0, 0] @ replicate 12 0 @ [1, 0, 0, 0] @ replicate 4 0 @
     [of_nat (length nm), 8, 0, 0] @ replicate 8 0 @ nm @ replicate (12 - length nm) 0"

definition wfi_block :: "bytes \<Rightarrow> bytes" where
  "wfi_block nm = wfi_dirent OPENWRT_NAME @ wfi_dirent nm @ replicate 24 0"

text \<open>Six blocks of 128 bytes: boot loader, kernel, UBI; an empty half.\<close>

abbreviation cferam_001 :: bytes where
  "cferam_001 \<equiv> CFERAM_NAME @ [0x2e, 0x30, 0x30, 0x31]"

definition wfi_data :: bytes where
  "wfi_data = (wfi_block cferam_001 @ wfi_block KERNEL_NAME @ [0x55, 0x42, 0x49, 0x23]) @ replicate 508 0"

definition wfi_flash :: mtd_info where
  "wfi_flash = flat_mtd ''flash'' 128 wfi_data"

definition zero_crc :: crc32_fun where "zero_crc seed b = 0"

lemma no_node:
  assumes "p + 2 \<le> length buf" and "buf ! p \<noteq> 0x85"
  shows "jffs2_dirent_valid crc buf p = Some False"
proof -
  obtain b where s: "slice buf p 2 = Some b" "b ! 0 = buf ! p" using assms(1) by (simp add: slice_def)
  have "rd16 b 0 \<noteq> JFFS2_MAGIC_BITMASK"
  proof
    assume "rd16 b 0 = JFFS2_MAGIC_BITMASK"
    then have "ucast (rd16 b 0) = (ucast JFFS2_MAGIC_BITMASK :: u8)" by simp
    moreover have "ucast (rd16 b 0) = b ! 0"
      unfolding rd16_def by (rule bit_word_eqI) (auto simp: bit_simps)
    ultimately show False using assms(2) s(2) by (simp add: JFFS2_MAGIC_BITMASK_def)
  qed
  then show ?thesis by (simp add: jffs2_dirent_valid_def s(1))
qed

lemma slice_behind: "slice (a @ c) (length a + i) n = slice c i n"
  by (simp add: slice_def)

lemma valid_behind: "jffs2_dirent_valid crc (a @ c) (length a + p) = jffs2_dirent_valid crc c p"
  unfolding jffs2_dirent_valid_def by (simp only: add.assoc slice_behind)

lemma wfi_dirent_node:
  assumes "length nm \<le> 12"
  shows "jffs2_dirent_valid zero_crc (wfi_dirent nm @ xs) 0 = Some True" "rd32 (wfi_dirent nm @ xs) 4 = 52"
    "length (wfi_dirent nm) = 52"
proof -
  have w: "wfi_dirent nm @ xs = [0x85, 0x19, 0x01, 0xe0, 52, 0, 0, 0, 0, 0, 0, 0, 0, 0, 0, 0, 0, 0, 0, 0, 1, 0, 0, 0, 0, 0, 0, 0,
      of_nat (length nm), 8, 0, 0, 0, 0, 0, 0, 0, 0, 0, 0] @ (nm @ replicate (12 - length nm) 0 @ xs)"
    by (simp add: wfi_dirent_def numeral_eq_Suc)
  show "jffs2_dirent_valid zero_crc (wfi_dirent nm @ xs) 0 = Some True" "rd32 (wfi_dirent nm @ xs) 4 = 52"
    unfolding w by (simp_all add: jffs2_dirent_valid_def slice_def rd16_def rd32_def JFFS2_MAGIC_BITMASK_def
        JFFS2_NODETYPE_DIRENT_def zero_crc_def jffs2_dirent_crc_def)
  show "length (wfi_dirent nm) = 52" using assms by (simp add: wfi_dirent_def)
qed

lemma wfi_block_node:
  assumes nm: "length nm = 10" "0x85 \<notin> set nm"
  shows "dir_block zero_crc 31 (wfi_block nm)"
proof -
  let ?a = "wfi_dirent OPENWRT_NAME" and ?c = "wfi_dirent nm @ replicate 24 0"
  have lo: "length OPENWRT_NAME \<le> 12" "0x85 \<notin> set OPENWRT_NAME" "length OPENWRT_NAME = 9" by (simp_all add: OPENWRT_NAME_def)
  have ln: "length nm \<le> 12" using nm(1) by simp
  have b: "wfi_block nm = ?a @ ?c" by (simp add: wfi_block_def)
  have len: "length ?a = 52" "length ?c = 76" using wfi_dirent_node(3) lo(1) ln by simp_all
  have tl: "wfi_dirent x = 0x85 # tl (wfi_dirent x)" for x by (simp add: wfi_dirent_def)
  have no: "0x85 \<notin> set (tl (wfi_dirent x))" if "length x \<le> 12" "0x85 \<notin> set x" for x
  proof -
    have "(of_nat (length x) :: u8) \<noteq> 0x85"
    proof
      assume "(of_nat (length x) :: u8) = 0x85"
      then have "unat (of_nat (length x) :: u8) = 133" by simp
      then show False using that(1) by (simp add: unat_of_nat)
    qed
    then show ?thesis using that(2) by (simp add: wfi_dirent_def)
  qed
  have other: "(?a @ ?c) ! p \<noteq> 0x85" if "p \<noteq> 0" "p \<noteq> 52" "p < 128" for p
  proof (cases "p < 52")
    case True
    then have "(?a @ ?c) ! p = tl ?a ! (p - 1)" using that(1) len(1) by (simp add: nth_append nth_tl)
    moreover have "tl ?a ! (p - 1) \<in> set (tl ?a)" by (rule nth_mem) (use True that(1) len(1) in simp)
    ultimately show ?thesis using no [OF lo(1,2)] by auto
  next
    case False
    define t where "t = tl (wfi_dirent nm) @ replicate 24 0"
    have c: "?c = 0x85 # t" unfolding t_def by (subst tl) simp
    have lt: "length t = 75" using len(2) by (simp add: c)
    have "(?a @ ?c) ! p = t ! (p - 53)" using False that(2) len(1) by (simp add: nth_append c nth_Cons')
    moreover have "t ! (p - 53) \<in> set t" by (rule nth_mem) (use False that lt in simp)
    ultimately show ?thesis using no [OF ln nm(2)] by (auto simp: t_def)
  qed
  show ?thesis
    unfolding dir_block_def b
  proof (intro allI impI)
    fix p assume p: "p < length (?a @ ?c)" "p mod 4 = 0"
    then have "p < 128" using len by simp
    consider "p = 0" | "p = 52" | "p \<noteq> 0" "p \<noteq> 52" by blast
    then show "case jffs2_dirent_valid zero_crc (?a @ ?c) p of None \<Rightarrow> False | Some False \<Rightarrow> True
      | Some True \<Rightarrow> p + 40 + 31 \<le> length (?a @ ?c) \<and> 0 < unat (rd32 (?a @ ?c) (p + 4)) \<and>
          unat (rd32 (?a @ ?c) (p + 4)) < 2 ^ 30"
    proof cases
      case 1
      then show ?thesis using wfi_dirent_node(1,2) [OF lo(1), of ?c] len by simp
    next
      case 2
      have "rd32 (?a @ ?c) (52 + 4) = rd32 ?c 4" using len(1) by (simp add: rd32_def nth_append)
      then show ?thesis
        using 2 valid_behind [of zero_crc ?a ?c 0] wfi_dirent_node(1,2) [OF ln, of "replicate 24 0"] len by simp
    next
      case 3
      have "p + 2 \<le> 128" using p(2) \<open>p < 128\<close> by presburger
      then show ?thesis using no_node [of p "?a @ ?c"] other [OF 3 \<open>p < 128\<close>] len by simp
    qed
  qed
qed

lemma wfi_names:
  "length cferam_001 = 10" "0x85 \<notin> set cferam_001" "length KERNEL_NAME = 10" "0x85 \<notin> set KERNEL_NAME"
  by (simp_all add: CFERAM_NAME_def KERNEL_NAME_def)

lemma wfi_block_length: "length nm = 10 \<Longrightarrow> length (wfi_block nm) = 128"
  by (simp add: wfi_block_def wfi_dirent_def OPENWRT_NAME_def)

lemma wfi_flash_facts:
  "mtd_size wfi_flash = 768" "img2_off wfi_flash = 384" "mtd_erasesize wfi_flash = 128"
  "mtd_read wfi_flash x n = (if unat x + n \<le> 768 then (0, take n (drop (unat x) wfi_data)) else (- EINVAL, []))"
proof -
  have l: "length wfi_data = 768" using wfi_block_length wfi_names by (simp add: wfi_data_def)
  show "mtd_size wfi_flash = 768" "mtd_erasesize wfi_flash = 128"
    "mtd_read wfi_flash x n = (if unat x + n \<le> 768 then (0, take n (drop (unat x) wfi_data)) else (- EINVAL, []))"
    by (simp_all add: wfi_flash_def flat_mtd_def l)
  then show "img2_off wfi_flash = 384" by (simp add: img2_off_def)
qed

lemma wfi_flash_blank:
  assumes "260 \<le> unat x" and "unat x + 2 \<le> 768"
  shows "\<not> jffs2_block wfi_flash x"
proof -
  obtain pre where pre: "wfi_data = pre @ replicate 508 0" "length pre = 260"
    using wfi_block_length wfi_names by (simp add: wfi_data_def)
  have "take 2 (drop (unat x) wfi_data) = replicate 2 0"
    using assms by (simp add: pre min_def)
  then have "take 2 (drop (unat x) wfi_data) = [0, 0]" by (simp add: numeral_2_eq_2)
  then show ?thesis
    using assms by (simp add: jffs2_block_def mtdsplit_elf_read_mtd_def wfi_flash_facts rd16_def JFFS2_MAGIC_BITMASK_def
        split: if_splits)
qed

lemma wfi_flash_devices:
  "wfi_device zero_crc 31 wfi_flash 0 384" "wfi_device zero_crc 31 wfi_flash 384 384"
proof -
  have dir: "dir_block zero_crc 31 buf"
    if "unat x mod 128 = 0" "unat x < 384" "jffs2_block wfi_flash x" "mtd_read wfi_flash x 128 = (0, buf)" for x buf
  proof -
    have "unat x = 0 \<or> unat x = 128 \<or> unat x = 256" using that(1,2) by presburger
    then have "buf = wfi_block cferam_001 \<or> buf = wfi_block KERNEL_NAME \<or> unat x = 256"
      using that(4) wfi_block_length wfi_names by (auto simp: wfi_flash_facts wfi_data_def)
    moreover have "unat x \<noteq> 256"
    proof
      assume "unat x = 256"
      then show False
        using that(3) wfi_block_length wfi_names
        by (auto simp: jffs2_block_def mtdsplit_elf_read_mtd_def wfi_flash_facts wfi_data_def rd16_def
            JFFS2_MAGIC_BITMASK_def)
    qed
    ultimately show ?thesis using wfi_block_node wfi_names by blast
  qed
  show "wfi_device zero_crc 31 wfi_flash 0 384"
    using dir by (auto simp: wfi_device_def wfi_flash_facts on_block_def EINVAL_def)
  have blank: "\<not> jffs2_block wfi_flash x" if "384 \<le> unat x" "(unat x - 384) mod 128 = 0" "unat x < 768" for x
    by (rule wfi_flash_blank) (use that in presburger)+
  show "wfi_device zero_crc 31 wfi_flash 384 384"
    using blank by (auto simp: wfi_device_def wfi_flash_facts on_block_def EINVAL_def)
qed

section \<open>Properties\<close>

text \<open>C24: On a device with well-formed directory blocks the parser of a Broadcom whole flash image returns, inside its
  block buffer; either with an error and no partition, or with the boot loader (where there is one), the firmware, the
  kernel and the UBI volume in ascending order of their block boundaries, up to the end of the area, each where its file
  or its magic is.\<close>

theorem wfi_partitions:
  assumes "wfi_device crc 31 mtd off sz"
  shows "\<exists>ret ps. parse_bcm_wfi crc mtd node kz off sz cfe_part = Some (ret, ps) \<and>
    (case ps of None \<Rightarrow> ret < 0 | Some ps \<Rightarrow> wfi_image crc mtd node off sz cfe_part ret ps)"
  using parse_bcm_wfi_ok [OF assms, of node kz cfe_part] by (auto elim!: okE)

theorem wfi_partitions_witness:
  "\<exists>ret ps. parse_bcm_wfi zero_crc wfi_flash None True 0 384 True = Some (ret, ps) \<and>
    (case ps of None \<Rightarrow> ret < 0 | Some ps \<Rightarrow> wfi_image zero_crc wfi_flash None 0 384 True ret ps)"
  by (rule wfi_partitions [OF wfi_flash_devices(1)])

text \<open>C38: The common end of the two parsers of two images, parse_active, on a device whose halves have
  well-formed directory blocks, with memory for the longer table and for the table of the halves. It
  parses the half that the boot flags name. When that fails with a code, the answer is the same
  negative code, although a partition for each half is stored by then: the fallback is never
  registered. Otherwise the answer counts one partition more, and the table is that of the active
  half with the other half behind it.\<close>

theorem wfi_fallback_unused:
  assumes "wfi_device crc 31 mtd (active_off mtd bf1 bf2) (active_size mtd bf1 bf2)"
    and "kz Wfi_more" "kz Wfi_halves"
  shows "\<exists>ret q. parse_bcm_wfi crc mtd node (kz Wfi_parts) (active_off mtd bf1 bf2) (active_size mtd bf1 bf2) cfe_part =
      Some (ret, q) \<and>
    (ret < 0 \<and> parse_active crc mtd node kz bf1 bf2 cfe_part = Some (ret, Some [img1_part mtd, img2_part mtd]) \<or>
     ret > 0 \<and> (\<exists>ps. q = Some ps \<and>
       wfi_image crc mtd node (active_off mtd bf1 bf2) (active_size mtd bf1 bf2) cfe_part ret ps \<and>
       parse_active crc mtd node kz bf1 bf2 cfe_part = Some (ret + 1, Some (ps @ [other_part mtd bf1 bf2]))))"
proof -
  obtain ret q where r: "parse_bcm_wfi crc mtd node (kz Wfi_parts) (active_off mtd bf1 bf2) (active_size mtd bf1 bf2) cfe_part =
      Some (ret, q)"
    and q: "case q of None \<Rightarrow> ret < 0
      | Some ps \<Rightarrow> wfi_image crc mtd node (active_off mtd bf1 bf2) (active_size mtd bf1 bf2) cfe_part ret ps"
    using parse_bcm_wfi_ok [OF assms(1), of node "kz Wfi_parts" cfe_part] by (auto elim!: okE)
  show ?thesis
  proof (cases q)
    case None
    then show ?thesis using r q assms(3) by (simp add: parse_active_eq)
  next
    case (Some ps)
    then have "0 < ret" using q wfi_image_pos by auto
    then show ?thesis using r q Some assms(2) by (simp add: parse_active_eq)
  qed
qed

theorem wfi_fallback_unused_witness:
  "\<exists>ret q. parse_bcm_wfi zero_crc wfi_flash None True 384 384 True = Some (ret, q) \<and>
    (ret < 0 \<and> parse_active zero_crc wfi_flash None (\<lambda>_. True) 1 2 True =
       Some (ret, Some [img1_part wfi_flash, img2_part wfi_flash]) \<or>
     ret > 0 \<and> (\<exists>ps. q = Some ps \<and> wfi_image zero_crc wfi_flash None 384 384 True ret ps \<and>
       parse_active zero_crc wfi_flash None (\<lambda>_. True) 1 2 True = Some (ret + 1, Some (ps @ [img1_part wfi_flash]))))"
  using wfi_fallback_unused [of zero_crc wfi_flash 1 2 "\<lambda>_. True" None True] wfi_flash_devices(2)
  by (simp add: active_off_def active_size_def other_part_def wfi_flash_facts)

end
