(* ===== verification/Snand_Base.thy ===== *)
theory Snand_Base
  imports Nmbm_Types
begin

text \<open>
  The MediaTek SPI-NAND controller driver (drivers/mtd/mtk-snand): its constants, the structures of
  mtk-snand-def.h, register access, and the commands of the chip that go through the controller's
  general purpose RAM (mtk_snand_mac_io and its callers up to mtk_snand_page_op).

  The controller and the kernel below the driver are the record of functions \<open>'h bus\<close> over an
  opaque state \<open>'h\<close>: register reads and writes, the kernel's register polling macros (which return
  0 or \<open>- ETIMEDOUT\<close>), completions, the clock, DMA mapping and allocation. Nothing is assumed of it
  here. The state of a run is \<open>struct mtk_snand\<close> together with that opaque state. Functions
  whose accesses to memory can leave a buffer, and those that loop on the clock, return an option.
\<close>

section \<open>Bits\<close>

definition BIT :: "nat \<Rightarrow> u32" where
  "BIT n = push_bit n 1"

definition GENMASK :: "nat \<Rightarrow> nat \<Rightarrow> u32" where
  "GENMASK h l = push_bit l (mask (h + 1 - l))"

text \<open>The kernel's fls, ffs and hweight: the number of the highest and of the lowest bit that is
  set, counted from 1 (0 for a zero word), and the number of bits that are set.\<close>

definition fls :: "u32 \<Rightarrow> nat" where
  "fls w = (case filter (bit w) (rev [0..<32]) of [] \<Rightarrow> 0 | n # _ \<Rightarrow> Suc n)"

definition ffs32 :: "u32 \<Rightarrow> nat" where
  "ffs32 w = (case filter (bit w) [0..<32] of [] \<Rightarrow> 0 | n # _ \<Rightarrow> Suc n)"

definition hweight8 :: "u8 \<Rightarrow> u32" where
  "hweight8 b = of_nat (length (filter (bit b) [0..<8]))"

definition hweight32 :: "u32 \<Rightarrow> u32" where
  "hweight32 w = of_nat (length (filter (bit w) [0..<32]))"

definition mtk_snand_ffs64 :: "u64 \<Rightarrow> nat" where
  "mtk_snand_ffs64 x =
     (if x = 0 then 0
      else if x AND 0xffffffff = 0 then ffs32 (ucast (drop_bit 32 x)) + 32
      else ffs32 (ucast (x AND 0xffffffff)))"

section \<open>Constants\<close>

definition ETIMEDOUT :: int where "ETIMEDOUT = 110"

text \<open>\<open>enum snand_flash_io\<close>\<close>

definition SNAND_IO_1_1_1 :: nat where "SNAND_IO_1_1_1 = 0"
definition SNAND_IO_1_1_2 :: nat where "SNAND_IO_1_1_2 = 1"
definition SNAND_IO_1_2_2 :: nat where "SNAND_IO_1_2_2 = 2"
definition SNAND_IO_1_1_4 :: nat where "SNAND_IO_1_1_4 = 3"
definition SNAND_IO_1_4_4 :: nat where "SNAND_IO_1_4_4 = 4"
definition SNAND_IO_MAX :: nat where "SNAND_IO_MAX = 5"
definition SPI_IO_1_1_1 :: u32 where "SPI_IO_1_1_1 = BIT SNAND_IO_1_1_1"
definition SPI_IO_1_1_2 :: u32 where "SPI_IO_1_1_2 = BIT SNAND_IO_1_1_2"
definition SPI_IO_1_2_2 :: u32 where "SPI_IO_1_2_2 = BIT SNAND_IO_1_2_2"
definition SPI_IO_1_1_4 :: u32 where "SPI_IO_1_1_4 = BIT SNAND_IO_1_1_4"
definition SPI_IO_1_4_4 :: u32 where "SPI_IO_1_4_4 = BIT SNAND_IO_1_4_4"
definition NFI_CMD_DUMMY_READ :: u32 where "NFI_CMD_DUMMY_READ = 0"
definition NFI_CMD_DUMMY_WRITE :: u32 where "NFI_CMD_DUMMY_WRITE = 0x80"
definition SNAND_CMD_RESET :: u8 where "SNAND_CMD_RESET = 0xff"
definition SNAND_CMD_BLOCK_ERASE :: u8 where "SNAND_CMD_BLOCK_ERASE = 0xd8"
definition SNAND_CMD_READ_FROM_CACHE_QUAD :: u8 where "SNAND_CMD_READ_FROM_CACHE_QUAD = 0xeb"
definition SNAND_CMD_WINBOND_SELECT_DIE :: u8 where "SNAND_CMD_WINBOND_SELECT_DIE = 0xc2"
definition SNAND_CMD_READ_FROM_CACHE_DUAL :: u8 where "SNAND_CMD_READ_FROM_CACHE_DUAL = 0xbb"
definition SNAND_CMD_READID :: u8 where "SNAND_CMD_READID = 0x9f"
definition SNAND_CMD_READ_FROM_CACHE_X4 :: u8 where "SNAND_CMD_READ_FROM_CACHE_X4 = 0x6b"
definition SNAND_CMD_READ_FROM_CACHE_X2 :: u8 where "SNAND_CMD_READ_FROM_CACHE_X2 = 0x3b"
definition SNAND_CMD_PROGRAM_LOAD_X4 :: u8 where "SNAND_CMD_PROGRAM_LOAD_X4 = 0x32"
definition SNAND_CMD_SET_FEATURE :: u8 where "SNAND_CMD_SET_FEATURE = 0x1f"
definition SNAND_CMD_READ_TO_CACHE :: u8 where "SNAND_CMD_READ_TO_CACHE = 0x13"
definition SNAND_CMD_PROGRAM_EXECUTE :: u8 where "SNAND_CMD_PROGRAM_EXECUTE = 0x10"
definition SNAND_CMD_GET_FEATURE :: u8 where "SNAND_CMD_GET_FEATURE = 0xf"
definition SNAND_CMD_READ_FROM_CACHE :: u8 where "SNAND_CMD_READ_FROM_CACHE = 0xb"
definition SNAND_CMD_WRITE_ENABLE :: u8 where "SNAND_CMD_WRITE_ENABLE = 0x6"
definition SNAND_CMD_PROGRAM_LOAD :: u8 where "SNAND_CMD_PROGRAM_LOAD = 0x2"
definition SNAND_FEATURE_MICRON_DIE_ADDR :: u32 where "SNAND_FEATURE_MICRON_DIE_ADDR = 0xd0"
definition SNAND_MICRON_DIE_SEL_1 :: u32 where "SNAND_MICRON_DIE_SEL_1 = BIT 6"
definition SNAND_FEATURE_STATUS_ADDR :: u32 where "SNAND_FEATURE_STATUS_ADDR = 0xc0"
definition SNAND_STATUS_OIP :: int where "SNAND_STATUS_OIP = 1"
definition SNAND_STATUS_WEL :: int where "SNAND_STATUS_WEL = 2"
definition SNAND_STATUS_ERASE_FAIL :: int where "SNAND_STATUS_ERASE_FAIL = 4"
definition SNAND_STATUS_PROGRAM_FAIL :: int where "SNAND_STATUS_PROGRAM_FAIL = 8"
definition SNAND_FEATURE_CONFIG_ADDR :: u32 where "SNAND_FEATURE_CONFIG_ADDR = 0xb0"
definition SNAND_FEATURE_QUAD_ENABLE :: int where "SNAND_FEATURE_QUAD_ENABLE = 1"
definition SNAND_FEATURE_ECC_EN :: int where "SNAND_FEATURE_ECC_EN = 16"
definition SNAND_FEATURE_PROTECT_ADDR :: u32 where "SNAND_FEATURE_PROTECT_ADDR = 0xa0"

text \<open>mtk-snand.c\<close>

definition NFI_CNFG :: u32 where "NFI_CNFG = 0"
definition CNFG_OP_MODE_S :: nat where "CNFG_OP_MODE_S = 12"
definition CNFG_OP_MODE_CUST :: u32 where "CNFG_OP_MODE_CUST = 6"
definition CNFG_OP_MODE_PROGRAM :: u32 where "CNFG_OP_MODE_PROGRAM = 3"
definition CNFG_AUTO_FMT_EN :: u32 where "CNFG_AUTO_FMT_EN = BIT 9"
definition CNFG_HW_ECC_EN :: u32 where "CNFG_HW_ECC_EN = BIT 8"
definition CNFG_DMA_BURST_EN :: u32 where "CNFG_DMA_BURST_EN = BIT 2"
definition CNFG_READ_MODE :: u32 where "CNFG_READ_MODE = BIT 1"
definition CNFG_DMA_MODE :: u32 where "CNFG_DMA_MODE = BIT 0"
definition NFI_PAGEFMT :: u32 where "NFI_PAGEFMT = 0x4"
definition NFI_SPARE_SIZE_LS_S :: nat where "NFI_SPARE_SIZE_LS_S = 16"
definition NFI_FDM_ECC_NUM_S :: nat where "NFI_FDM_ECC_NUM_S = 12"
definition NFI_FDM_NUM_S :: nat where "NFI_FDM_NUM_S = 8"
definition NFI_SPARE_SIZE_S :: nat where "NFI_SPARE_SIZE_S = 4"
definition NFI_SEC_SEL_512 :: u32 where "NFI_SEC_SEL_512 = BIT 2"
definition NFI_PAGE_SIZE_S :: nat where "NFI_PAGE_SIZE_S = 0"
definition NFI_PAGE_SIZE_512_2K :: u32 where "NFI_PAGE_SIZE_512_2K = 0"
definition NFI_PAGE_SIZE_2K_4K :: u32 where "NFI_PAGE_SIZE_2K_4K = 1"
definition NFI_PAGE_SIZE_4K_8K :: u32 where "NFI_PAGE_SIZE_4K_8K = 2"
definition NFI_PAGE_SIZE_8K_16K :: u32 where "NFI_PAGE_SIZE_8K_16K = 3"
definition NFI_CON :: u32 where "NFI_CON = 0x8"
definition CON_SEC_NUM_S :: nat where "CON_SEC_NUM_S = 12"
definition CON_BWR :: u32 where "CON_BWR = BIT 9"
definition CON_BRD :: u32 where "CON_BRD = BIT 8"
definition CON_NFI_RST :: u32 where "CON_NFI_RST = BIT 1"
definition CON_FIFO_FLUSH :: u32 where "CON_FIFO_FLUSH = BIT 0"
definition NFI_INTR_EN :: u32 where "NFI_INTR_EN = 0x10"
definition NFI_INTR_STA :: u32 where "NFI_INTR_STA = 0x14"
definition NFI_IRQ_INTR_EN :: u32 where "NFI_IRQ_INTR_EN = BIT 31"
definition NFI_IRQ_CUS_READ :: u32 where "NFI_IRQ_CUS_READ = BIT 8"
definition NFI_IRQ_CUS_PG :: u32 where "NFI_IRQ_CUS_PG = BIT 7"
definition NFI_CMD :: u32 where "NFI_CMD = 0x20"
definition NFI_STRDATA :: u32 where "NFI_STRDATA = 0x40"
definition STR_DATA :: u32 where "STR_DATA = BIT 0"
definition NFI_STA :: u32 where "NFI_STA = 0x60"
definition NFI_NAND_FSM :: u32 where "NFI_NAND_FSM = GENMASK 28 24"
definition NFI_FSM :: u32 where "NFI_FSM = GENMASK 19 16"
definition NFI_FIFOSTA :: u32 where "NFI_FIFOSTA = 0x64"
definition FIFO_WR_REMAIN_S :: nat where "FIFO_WR_REMAIN_S = 8"
definition FIFO_RD_REMAIN_S :: nat where "FIFO_RD_REMAIN_S = 0"
definition NFI_ADDRCNTR :: u32 where "NFI_ADDRCNTR = 0x70"
definition SEC_CNTR :: u32 where "SEC_CNTR = GENMASK 16 12"
definition SEC_CNTR_S :: nat where "SEC_CNTR_S = 12"
definition NFI_STRADDR :: u32 where "NFI_STRADDR = 0x80"
definition NFI_BYTELEN :: u32 where "NFI_BYTELEN = 0x84"
definition NFI_FDM0L :: u32 where "NFI_FDM0L = 0xa0"
definition NFI_FDM0M :: u32 where "NFI_FDM0M = 0xa4"
definition NFI_DEBUG_CON1 :: u32 where "NFI_DEBUG_CON1 = 0x220"
definition WBUF_EN :: u32 where "WBUF_EN = BIT 2"
definition NFI_MASTERSTA :: u32 where "NFI_MASTERSTA = 0x224"
definition MAS_ADDR :: u32 where "MAS_ADDR = GENMASK 11 9"
definition MAS_RD :: u32 where "MAS_RD = GENMASK 8 6"
definition MAS_WR :: u32 where "MAS_WR = GENMASK 5 3"
definition MAS_RDDLY :: u32 where "MAS_RDDLY = GENMASK 2 0"
definition NFI_MASTERSTA_MASK_7622 :: u32 where "NFI_MASTERSTA_MASK_7622 = MAS_ADDR OR MAS_RD OR MAS_WR OR MAS_RDDLY"
definition AHB_BUS_BUSY :: u32 where "AHB_BUS_BUSY = BIT 1"
definition BUS_BUSY :: u32 where "BUS_BUSY = BIT 0"
definition NFI_MASTERSTA_MASK_7981 :: u32 where "NFI_MASTERSTA_MASK_7981 = AHB_BUS_BUSY OR BUS_BUSY"
definition NFI_MASTERSTA_MASK_7986 :: u32 where "NFI_MASTERSTA_MASK_7986 = AHB_BUS_BUSY OR BUS_BUSY"
definition SNF_MAC_CTL :: u32 where "SNF_MAC_CTL = 0x500"
definition SF_MAC_EN :: u32 where "SF_MAC_EN = BIT 3"
definition SF_TRIG :: u32 where "SF_TRIG = BIT 2"
definition WIP_READY :: u32 where "WIP_READY = BIT 1"
definition WIP :: u32 where "WIP = BIT 0"
definition SNF_MAC_OUTL :: u32 where "SNF_MAC_OUTL = 0x504"
definition SNF_MAC_INL :: u32 where "SNF_MAC_INL = 0x508"
definition SNF_RD_CTL2 :: u32 where "SNF_RD_CTL2 = 0x510"
definition DATA_READ_DUMMY_S :: nat where "DATA_READ_DUMMY_S = 8"
definition DATA_READ_CMD_S :: nat where "DATA_READ_CMD_S = 0"
definition SNF_RD_CTL3 :: u32 where "SNF_RD_CTL3 = 0x514"
definition SNF_PG_CTL1 :: u32 where "SNF_PG_CTL1 = 0x524"
definition PG_LOAD_CMD_S :: nat where "PG_LOAD_CMD_S = 8"
definition SNF_PG_CTL2 :: u32 where "SNF_PG_CTL2 = 0x528"
definition SNF_MISC_CTL :: u32 where "SNF_MISC_CTL = 0x538"
definition SW_RST :: u32 where "SW_RST = BIT 28"
definition FIFO_RD_LTC_S :: nat where "FIFO_RD_LTC_S = 25"
definition PG_LOAD_X4_EN :: u32 where "PG_LOAD_X4_EN = BIT 20"
definition DATA_READ_MODE_S :: nat where "DATA_READ_MODE_S = 16"
definition DATA_READ_MODE :: u32 where "DATA_READ_MODE = GENMASK 18 16"
definition DATA_READ_MODE_X1 :: u32 where "DATA_READ_MODE_X1 = 0"
definition DATA_READ_MODE_X2 :: u32 where "DATA_READ_MODE_X2 = 1"
definition DATA_READ_MODE_X4 :: u32 where "DATA_READ_MODE_X4 = 2"
definition DATA_READ_MODE_DUAL :: u32 where "DATA_READ_MODE_DUAL = 5"
definition DATA_READ_MODE_QUAD :: u32 where "DATA_READ_MODE_QUAD = 6"
definition LATCH_LAT_S :: nat where "LATCH_LAT_S = 8"
definition LATCH_LAT :: u32 where "LATCH_LAT = GENMASK 9 8"
definition PG_LOAD_CUSTOM_EN :: u32 where "PG_LOAD_CUSTOM_EN = BIT 7"
definition DATARD_CUSTOM_EN :: u32 where "DATARD_CUSTOM_EN = BIT 6"
definition CS_DESELECT_CYC_S :: nat where "CS_DESELECT_CYC_S = 0"
definition SNF_MISC_CTL2 :: u32 where "SNF_MISC_CTL2 = 0x53c"
definition PROGRAM_LOAD_BYTE_NUM_S :: nat where "PROGRAM_LOAD_BYTE_NUM_S = 16"
definition SNF_DLY_CTL3 :: u32 where "SNF_DLY_CTL3 = 0x548"
definition SFCK_SAM_DLY_S :: nat where "SFCK_SAM_DLY_S = 0"
definition SNF_STA_CTL1 :: u32 where "SNF_STA_CTL1 = 0x550"
definition CUS_PG_DONE :: u32 where "CUS_PG_DONE = BIT 28"
definition CUS_READ_DONE :: u32 where "CUS_READ_DONE = BIT 27"
definition SPI_STATE :: u32 where "SPI_STATE = GENMASK 3 0"
definition SNF_CFG :: u32 where "SNF_CFG = 0x55c"
definition SPI_MODE :: u32 where "SPI_MODE = BIT 0"
definition SNF_GPRAM :: u32 where "SNF_GPRAM = 0x800"
definition SNF_GPRAM_SIZE :: u32 where "SNF_GPRAM_SIZE = 0xa0"
definition SNFI_POLL_INTERVAL :: u32 where "SNFI_POLL_INTERVAL = 1000000"

section \<open>Structures\<close>

record mtk_snand_soc_data =
  sd_sector_size :: u16
  sd_max_sectors :: u16
  sd_fdm_size :: u16
  sd_fdm_ecc_size :: u16
  sd_fifo_size :: u16
  sd_bbm_swap :: bool
  sd_empty_page_check :: bool
  sd_mastersta_mask :: u32
  sd_spare_sizes :: bytes
  sd_num_spare_size :: u32
  sd_latch_lat :: u16
  sd_sample_delay :: u16

definition mt7622_spare_sizes :: bytes where "mt7622_spare_sizes = [16, 26, 27, 28]"

definition mt7981_spare_sizes :: bytes where
  "mt7981_spare_sizes = [16, 26, 27, 28, 32, 36, 40, 44, 48, 49, 50, 51, 52, 62, 61, 63, 64, 67, 74]"

definition mt7986_spare_sizes :: bytes where
  "mt7986_spare_sizes = [16, 26, 27, 28, 32, 36, 40, 44, 48, 49, 50, 51, 52, 62, 61, 63, 64, 67, 74]"

text \<open>The table mtk_snand_socs, in the order of \<open>enum mtk_snand_soc\<close>.\<close>

definition SNAND_SOC_MT7622 :: nat where "SNAND_SOC_MT7622 = 0"
definition SNAND_SOC_MT7629 :: nat where "SNAND_SOC_MT7629 = 1"
definition SNAND_SOC_MT7981 :: nat where "SNAND_SOC_MT7981 = 2"
definition SNAND_SOC_MT7986 :: nat where "SNAND_SOC_MT7986 = 3"
definition SNAND_SOC_MT7988 :: nat where "SNAND_SOC_MT7988 = 4"
definition SNAND_SOC_MAX :: nat where "SNAND_SOC_MAX = 5"

definition soc_7622 :: mtk_snand_soc_data where
  "soc_7622 = \<lparr>sd_sector_size = 512, sd_max_sectors = 8, sd_fdm_size = 8, sd_fdm_ecc_size = 1,
     sd_fifo_size = 32, sd_bbm_swap = False, sd_empty_page_check = False,
     sd_mastersta_mask = NFI_MASTERSTA_MASK_7622, sd_spare_sizes = mt7622_spare_sizes,
     sd_num_spare_size = of_nat (length mt7622_spare_sizes), sd_latch_lat = 0, sd_sample_delay = 40\<rparr>"

definition soc_7629 :: mtk_snand_soc_data where
  "soc_7629 = \<lparr>sd_sector_size = 512, sd_max_sectors = 8, sd_fdm_size = 8, sd_fdm_ecc_size = 1,
     sd_fifo_size = 32, sd_bbm_swap = True, sd_empty_page_check = False,
     sd_mastersta_mask = NFI_MASTERSTA_MASK_7622, sd_spare_sizes = mt7622_spare_sizes,
     sd_num_spare_size = of_nat (length mt7622_spare_sizes), sd_latch_lat = 0, sd_sample_delay = 40\<rparr>"

definition soc_7981 :: mtk_snand_soc_data where
  "soc_7981 = \<lparr>sd_sector_size = 1024, sd_max_sectors = 16, sd_fdm_size = 8, sd_fdm_ecc_size = 1,
     sd_fifo_size = 64, sd_bbm_swap = True, sd_empty_page_check = True,
     sd_mastersta_mask = NFI_MASTERSTA_MASK_7981, sd_spare_sizes = mt7981_spare_sizes,
     sd_num_spare_size = of_nat (length mt7981_spare_sizes), sd_latch_lat = 0, sd_sample_delay = 40\<rparr>"

definition soc_7986 :: mtk_snand_soc_data where
  "soc_7986 = \<lparr>sd_sector_size = 1024, sd_max_sectors = 16, sd_fdm_size = 8, sd_fdm_ecc_size = 1,
     sd_fifo_size = 64, sd_bbm_swap = True, sd_empty_page_check = True,
     sd_mastersta_mask = NFI_MASTERSTA_MASK_7986, sd_spare_sizes = mt7986_spare_sizes,
     sd_num_spare_size = of_nat (length mt7986_spare_sizes), sd_latch_lat = 0, sd_sample_delay = 40\<rparr>"

definition soc_7988 :: mtk_snand_soc_data where
  "soc_7988 = \<lparr>sd_sector_size = 1024, sd_max_sectors = 16, sd_fdm_size = 8, sd_fdm_ecc_size = 1,
     sd_fifo_size = 64, sd_bbm_swap = True, sd_empty_page_check = True,
     sd_mastersta_mask = NFI_MASTERSTA_MASK_7986, sd_spare_sizes = mt7986_spare_sizes,
     sd_num_spare_size = of_nat (length mt7986_spare_sizes), sd_latch_lat = 0, sd_sample_delay = 40\<rparr>"

definition mtk_snand_socs :: "mtk_snand_soc_data list" where
  "mtk_snand_socs = [soc_7622, soc_7629, soc_7981, soc_7986, soc_7988]"

record mtk_ecc_soc_data =
  ed_ecc_caps :: bytes
  ed_num_ecc_cap :: u32
  ed_decdone :: u32
  ed_mode_shift :: u16
  ed_errnum_bits :: u8
  ed_errnum_shift :: u8

text \<open>The pointer to a function that selects a die (mtk-snand-ids.c has two).\<close>

datatype select_die_fn = Winbond_select_die | Micron_select_die

text \<open>
  \<open>struct mtk_snand\<close>: the part that mtk_snand_init fills and no operation changes, and the part
  that operations change (the caches, the array of bit flips, \<open>poll_mode\<close> of the platform
  device) with the opaque state of the hardware. \<open>sf_page_addr\<close> is the address of page_cache,
  on whose alignment the bit-flip count depends.
\<close>

record mtk_snand_conf =
  sf_soc :: nat
  sf_nfi_soc :: mtk_snand_soc_data
  sf_ecc_soc :: mtk_ecc_soc_data
  sf_snfi_quad_spi :: bool
  sf_quad_spi_op :: bool
  sf_model :: string
  sf_size :: u64
  sf_die_size :: u64
  sf_erasesize :: u32
  sf_writesize :: u32
  sf_oobsize :: u32
  sf_num_dies :: u32
  sf_select_die :: "select_die_fn option"
  sf_opcode_rfc :: u8
  sf_opcode_pl :: u8
  sf_dummy_rfc :: u8
  sf_mode_rfc :: u8
  sf_mode_pl :: u8
  sf_writesize_mask :: u32
  sf_writesize_shift :: u32
  sf_erasesize_mask :: u32
  sf_erasesize_shift :: u32
  sf_die_mask :: u64
  sf_die_shift :: u32
  sf_spare_per_sector :: u32
  sf_raw_sector_size :: u32
  sf_ecc_strength :: u32
  sf_ecc_steps :: u32
  sf_ecc_bytes :: u32
  sf_ecc_parity_bits :: u32
  sf_page_addr :: nat

record 'h mtk_snand = mtk_snand_conf +
  sf_page_cache :: bytes
  sf_buf_cache :: bytes
  sf_sect_bf :: "int list"
  sf_poll_mode :: bool
  sf_hw :: 'h

abbreviation sector_size :: "'h mtk_snand \<Rightarrow> u32" where
  "sector_size s \<equiv> ucast (sd_sector_size (sf_nfi_soc s))"

abbreviation fdm_size :: "'h mtk_snand \<Rightarrow> u32" where
  "fdm_size s \<equiv> ucast (sd_fdm_size (sf_nfi_soc s))"

abbreviation fdm_ecc_size :: "'h mtk_snand \<Rightarrow> u32" where
  "fdm_ecc_size s \<equiv> ucast (sd_fdm_ecc_size (sf_nfi_soc s))"

section \<open>Registers\<close>

record 'h bus =
  bus_nfi_read :: "u32 \<Rightarrow> 'h \<Rightarrow> u32 \<times> 'h"
  bus_nfi_write :: "u32 \<Rightarrow> u32 \<Rightarrow> 'h \<Rightarrow> 'h"
  bus_nfi_write16 :: "u32 \<Rightarrow> u16 \<Rightarrow> 'h \<Rightarrow> 'h"
  bus_nfi_poll16 :: "u32 \<Rightarrow> (u16 \<Rightarrow> bool) \<Rightarrow> u32 \<Rightarrow> 'h \<Rightarrow> int \<times> 'h"
  bus_nfi_poll32 :: "u32 \<Rightarrow> (u32 \<Rightarrow> bool) \<Rightarrow> u32 \<Rightarrow> 'h \<Rightarrow> int \<times> 'h"
  bus_ecc_read :: "u32 \<Rightarrow> 'h \<Rightarrow> u32 \<times> 'h"
  bus_ecc_write :: "u32 \<Rightarrow> u32 \<Rightarrow> 'h \<Rightarrow> 'h"
  bus_ecc_write16 :: "u32 \<Rightarrow> u16 \<Rightarrow> 'h \<Rightarrow> 'h"
  bus_ecc_poll16 :: "u32 \<Rightarrow> (u16 \<Rightarrow> bool) \<Rightarrow> u32 \<Rightarrow> 'h \<Rightarrow> int \<times> 'h"
  bus_ktime_get :: "'h \<Rightarrow> int \<times> 'h"
  bus_init_completion :: "'h \<Rightarrow> 'h"
  bus_complete :: "'h \<Rightarrow> 'h"
  bus_wait_for_completion :: "u32 \<Rightarrow> 'h \<Rightarrow> nat \<times> 'h"
  bus_dma_map :: "bytes \<Rightarrow> u32 \<Rightarrow> bool \<Rightarrow> 'h \<Rightarrow> int \<times> u64 \<times> 'h"
  bus_dma_unmap :: "u64 \<Rightarrow> u32 \<Rightarrow> bool \<Rightarrow> 'h \<Rightarrow> 'h"
  bus_dma_data :: "'h \<Rightarrow> bytes"
  bus_kzalloc :: "nat \<Rightarrow> 'h \<Rightarrow> nat option \<times> 'h"
  bus_kfree :: "nat \<Rightarrow> 'h \<Rightarrow> 'h"

definition on_hw :: "('h \<Rightarrow> 'h) \<Rightarrow> 'h mtk_snand \<Rightarrow> 'h mtk_snand" where
  "on_hw f s = s\<lparr>sf_hw := f (sf_hw s)\<rparr>"

definition from_hw :: "('h \<Rightarrow> 'a \<times> 'h) \<Rightarrow> 'h mtk_snand \<Rightarrow> 'a \<times> 'h mtk_snand" where
  "from_hw f s = (let (x, h) = f (sf_hw s) in (x, s\<lparr>sf_hw := h\<rparr>))"

definition nfi_read32 :: "'h bus \<Rightarrow> u32 \<Rightarrow> 'h mtk_snand \<Rightarrow> u32 \<times> 'h mtk_snand" where
  "nfi_read32 B reg = from_hw (bus_nfi_read B reg)"

definition nfi_write32 :: "'h bus \<Rightarrow> u32 \<Rightarrow> u32 \<Rightarrow> 'h mtk_snand \<Rightarrow> 'h mtk_snand" where
  "nfi_write32 B reg val = on_hw (bus_nfi_write B reg val)"

definition nfi_write16 :: "'h bus \<Rightarrow> u32 \<Rightarrow> u32 \<Rightarrow> 'h mtk_snand \<Rightarrow> 'h mtk_snand" where
  "nfi_write16 B reg val = on_hw (bus_nfi_write16 B reg (ucast val))"

definition nfi_rmw32 :: "'h bus \<Rightarrow> u32 \<Rightarrow> u32 \<Rightarrow> u32 \<Rightarrow> 'h mtk_snand \<Rightarrow> 'h mtk_snand" where
  "nfi_rmw32 B reg clr put s =
     (let (val, s) = nfi_read32 B reg s;
          val = val AND NOT clr;
          val = val OR put
      in nfi_write32 B reg val s)"

definition nfi_poll16 :: "'h bus \<Rightarrow> u32 \<Rightarrow> (u16 \<Rightarrow> bool) \<Rightarrow> u32 \<Rightarrow> 'h mtk_snand \<Rightarrow> int \<times> 'h mtk_snand"
  where "nfi_poll16 B reg cond tmo = from_hw (bus_nfi_poll16 B reg cond tmo)"

definition nfi_poll32 :: "'h bus \<Rightarrow> u32 \<Rightarrow> (u32 \<Rightarrow> bool) \<Rightarrow> u32 \<Rightarrow> 'h mtk_snand \<Rightarrow> int \<times> 'h mtk_snand"
  where "nfi_poll32 B reg cond tmo = from_hw (bus_nfi_poll32 B reg cond tmo)"

definition ecc_read32 :: "'h bus \<Rightarrow> u32 \<Rightarrow> 'h mtk_snand \<Rightarrow> u32 \<times> 'h mtk_snand" where
  "ecc_read32 B reg = from_hw (bus_ecc_read B reg)"

definition ecc_write32 :: "'h bus \<Rightarrow> u32 \<Rightarrow> u32 \<Rightarrow> 'h mtk_snand \<Rightarrow> 'h mtk_snand" where
  "ecc_write32 B reg val = on_hw (bus_ecc_write B reg val)"

definition ecc_write16 :: "'h bus \<Rightarrow> u32 \<Rightarrow> u32 \<Rightarrow> 'h mtk_snand \<Rightarrow> 'h mtk_snand" where
  "ecc_write16 B reg val = on_hw (bus_ecc_write16 B reg (ucast val))"

text \<open>The bytes of the general purpose RAM, four to a register.\<close>

fun nfi_write_bytes :: "'h bus \<Rightarrow> u32 \<Rightarrow> bytes \<Rightarrow> u32 \<Rightarrow> 'h mtk_snand \<Rightarrow> 'h mtk_snand" where
  "nfi_write_bytes B i [] val s = s"
| "nfi_write_bytes B i (d # ds) val s =
     (let val = val OR push_bit (unat (8 * (i mod 4))) (ucast d)
      in if i mod 4 = 3 \<or> ds = []
         then nfi_write_bytes B (i + 1) ds 0 (nfi_write32 B (i AND NOT 3) val s)
         else nfi_write_bytes B (i + 1) ds val s)"

definition nfi_write_data :: "'h bus \<Rightarrow> u32 \<Rightarrow> bytes \<Rightarrow> 'h mtk_snand \<Rightarrow> 'h mtk_snand" where
  "nfi_write_data B reg data s = nfi_write_bytes B reg data 0 s"

fun nfi_read_bytes ::
    "'h bus \<Rightarrow> bool \<Rightarrow> u32 \<Rightarrow> nat \<Rightarrow> u32 \<Rightarrow> 'h mtk_snand \<Rightarrow> bytes \<times> 'h mtk_snand" where
  "nfi_read_bytes B start i 0 val s = ([], s)"
| "nfi_read_bytes B start i (Suc n) val s =
     (let (val, s) = (if start \<or> i mod 4 = 0 then nfi_read32 B (i AND NOT 3) s else (val, s));
          d = ucast (drop_bit (unat (8 * (i mod 4))) val);
          (ds, s) = nfi_read_bytes B False (i + 1) n val s
      in (d # ds, s))"

definition nfi_read_data :: "'h bus \<Rightarrow> u32 \<Rightarrow> u32 \<Rightarrow> 'h mtk_snand \<Rightarrow> bytes \<times> 'h mtk_snand" where
  "nfi_read_data B reg n s = nfi_read_bytes B True reg (unat n) 0 s"

section \<open>The platform layer\<close>

definition timer_get_ticks :: "'h bus \<Rightarrow> 'h mtk_snand \<Rightarrow> int \<times> 'h mtk_snand" where
  "timer_get_ticks B = from_hw (bus_ktime_get B)"

text \<open>A \<open>ktime_t\<close> counts nanoseconds.\<close>

definition timer_time_to_tick :: "u32 \<Rightarrow> int" where
  "timer_time_to_tick timeout_us = uint timeout_us * 1000"

definition timer_is_timeout :: "'h bus \<Rightarrow> int \<Rightarrow> int \<Rightarrow> 'h mtk_snand \<Rightarrow> bool \<times> 'h mtk_snand" where
  "timer_is_timeout B start_tick timeout_tick s =
     (let tmo = start_tick + timeout_tick;
          (now, s) = from_hw (bus_ktime_get B) s
      in (now > tmo, s))"

definition irq_completion_done :: "'h bus \<Rightarrow> 'h mtk_snand \<Rightarrow> 'h mtk_snand" where
  "irq_completion_done B s = (if \<not> sf_poll_mode s then on_hw (bus_complete B) s else s)"

definition irq_completion_init :: "'h bus \<Rightarrow> 'h mtk_snand \<Rightarrow> 'h mtk_snand" where
  "irq_completion_init B s = (if \<not> sf_poll_mode s then on_hw (bus_init_completion B) s else s)"

definition irq_completion_wait ::
    "'h bus \<Rightarrow> u32 \<Rightarrow> u32 \<Rightarrow> u32 \<Rightarrow> 'h mtk_snand \<Rightarrow> int \<times> 'h mtk_snand" where
  "irq_completion_wait B reg bits timeout_us s =
     (if sf_poll_mode s then nfi_poll32 B reg (\<lambda>val. val AND bits \<noteq> 0) timeout_us s
      else let (left, s) = from_hw (bus_wait_for_completion B timeout_us) s
           in (if left = 0 then - ETIMEDOUT else 0, s))"

definition dma_mem_map :: "'h bus \<Rightarrow> u32 \<Rightarrow> bool \<Rightarrow> 'h mtk_snand \<Rightarrow> int \<times> u64 \<times> 'h mtk_snand" where
  "dma_mem_map B len to_device s =
     (let (ret, addr, h) = bus_dma_map B (sf_page_cache s) len to_device (sf_hw s)
      in (ret, addr, s\<lparr>sf_hw := h\<rparr>))"

definition dma_mem_unmap :: "'h bus \<Rightarrow> u64 \<Rightarrow> u32 \<Rightarrow> bool \<Rightarrow> 'h mtk_snand \<Rightarrow> 'h mtk_snand" where
  "dma_mem_unmap B addr len to_device = on_hw (bus_dma_unmap B addr len to_device)"

definition mtk_snand_control_poll_mode :: "bool \<Rightarrow> 'h mtk_snand \<Rightarrow> 'h mtk_snand" where
  "mtk_snand_control_poll_mode enable s = s\<lparr>sf_poll_mode := enable\<rparr>"

text \<open>What the controller has put into the mapped page cache.\<close>

definition dma_arrived :: "'h bus \<Rightarrow> 'h mtk_snand \<Rightarrow> 'h mtk_snand" where
  "dma_arrived B s = s\<lparr>sf_page_cache := overlay (sf_page_cache s) (bus_dma_data B (sf_hw s))\<rparr>"

section \<open>Commands\<close>

definition mtk_nfi_reset :: "'h bus \<Rightarrow> 'h mtk_snand \<Rightarrow> int \<times> 'h mtk_snand" where
  "mtk_nfi_reset B s =
     (let s = nfi_write32 B NFI_CON (CON_FIFO_FLUSH OR CON_NFI_RST) s;
          (ret, s) = nfi_poll16 B NFI_MASTERSTA
            (\<lambda>val. ucast val AND sd_mastersta_mask (sf_nfi_soc s) = 0) SNFI_POLL_INTERVAL s
      in if ret \<noteq> 0 then (ret, s)
         else let (ret, s) = nfi_poll32 B NFI_STA (\<lambda>val. val AND (NFI_FSM OR NFI_NAND_FSM) = 0)
                    SNFI_POLL_INTERVAL s
         in if ret \<noteq> 0 then (ret, s)
         else let fifo = ucast (sd_fifo_size (sf_nfi_soc s)) - 1;
                  fifo_mask = push_bit FIFO_RD_REMAIN_S fifo OR push_bit FIFO_WR_REMAIN_S fifo;
                  (ret, s) = nfi_poll16 B NFI_FIFOSTA (\<lambda>val. (ucast val :: u32) AND fifo_mask = 0)
                    SNFI_POLL_INTERVAL s
         in if ret \<noteq> 0 then (ret, s) else (0, s))"

definition mtk_snand_mac_reset :: "'h bus \<Rightarrow> 'h mtk_snand \<Rightarrow> int \<times> 'h mtk_snand" where
  "mtk_snand_mac_reset B s =
     (let s = nfi_rmw32 B SNF_MISC_CTL 0 SW_RST s;
          (ret, s) = nfi_poll32 B SNF_STA_CTL1 (\<lambda>val. val AND SPI_STATE = 0) SNFI_POLL_INTERVAL s;
          s = nfi_write32 B SNF_MISC_CTL
                (push_bit FIFO_RD_LTC_S 2 OR push_bit CS_DESELECT_CYC_S 10 OR
                 push_bit LATCH_LAT_S (ucast (sd_latch_lat (sf_nfi_soc s)))) s
      in (ret, s))"

definition mtk_snand_mac_trigger ::
    "'h bus \<Rightarrow> u32 \<Rightarrow> u32 \<Rightarrow> 'h mtk_snand \<Rightarrow> int \<times> 'h mtk_snand" where
  "mtk_snand_mac_trigger B outlen inlen s =
     (let s = nfi_write32 B SNF_MAC_CTL SF_MAC_EN s;
          s = nfi_write32 B SNF_MAC_OUTL outlen s;
          s = nfi_write32 B SNF_MAC_INL inlen s;
          s = nfi_write32 B SNF_MAC_CTL (SF_MAC_EN OR SF_TRIG) s;
          (ret, s) = nfi_poll32 B SNF_MAC_CTL (\<lambda>val. val AND WIP_READY \<noteq> 0) SNFI_POLL_INTERVAL s;
          (ret, s) = (if ret \<noteq> 0 then (ret, s)
                      else nfi_poll32 B SNF_MAC_CTL (\<lambda>val. val AND WIP = 0) SNFI_POLL_INTERVAL s)
      in (ret, nfi_write32 B SNF_MAC_CTL 0 s))"

text \<open>
  The result of a command: its return value and the bytes read, \<open>[]\<close> where the code leaves
  the caller's buffer as it was.
\<close>

definition mtk_snand_mac_io ::
    "'h bus \<Rightarrow> bytes \<Rightarrow> u32 \<Rightarrow> 'h mtk_snand \<Rightarrow> int \<times> bytes \<times> 'h mtk_snand" where
  "mtk_snand_mac_io B out inlen s =
     (let outlen = of_nat (length out)
      in if outlen + inlen > SNF_GPRAM_SIZE then (- EINVAL, [], s)
         else let (_, s) = mtk_snand_mac_reset B s;
                  s = nfi_write_data B SNF_GPRAM out s;
                  (ret, s) = mtk_snand_mac_trigger B outlen inlen s
         in if ret \<noteq> 0 then (ret, [], s)
         else if inlen = 0 then (0, [], s)
         else let (data, s) = nfi_read_data B (SNF_GPRAM + outlen) inlen s
         in (0, data, s))"

text \<open>A command without an answer.\<close>

definition mac_out :: "'h bus \<Rightarrow> bytes \<Rightarrow> 'h mtk_snand \<Rightarrow> int \<times> 'h mtk_snand" where
  "mac_out B out s = (let (ret, _, s) = mtk_snand_mac_io B out 0 s in (ret, s))"

definition mtk_snand_get_feature :: "'h bus \<Rightarrow> u32 \<Rightarrow> 'h mtk_snand \<Rightarrow> int \<times> 'h mtk_snand" where
  "mtk_snand_get_feature B addr s =
     (let (ret, val, s) = mtk_snand_mac_io B [SNAND_CMD_GET_FEATURE, ucast addr] 1 s
      in if ret \<noteq> 0 then (ret, s) else (uint (val ! 0), s))"

definition mtk_snand_set_feature :: "'h bus \<Rightarrow> u32 \<Rightarrow> u32 \<Rightarrow> 'h mtk_snand \<Rightarrow> int \<times> 'h mtk_snand" where
  "mtk_snand_set_feature B addr val s = mac_out B [SNAND_CMD_SET_FEATURE, ucast addr, ucast val] s"

partial_function (option) poll_status_loop ::
    "'h bus \<Rightarrow> int \<Rightarrow> int \<Rightarrow> 'h mtk_snand \<Rightarrow> (int \<times> 'h mtk_snand) option" where
  "poll_status_loop B time_start tmo s =
     (let (val, s) = mtk_snand_get_feature B SNAND_FEATURE_STATUS_ADDR s
      in if val AND SNAND_STATUS_OIP = 0
         then Some (val AND (SNAND_STATUS_ERASE_FAIL OR SNAND_STATUS_PROGRAM_FAIL), s)
         else let (timed_out, s) = timer_is_timeout B time_start tmo s
         in if timed_out then Some (- ETIMEDOUT, s) else poll_status_loop B time_start tmo s)"

definition mtk_snand_poll_status ::
    "'h bus \<Rightarrow> u32 \<Rightarrow> 'h mtk_snand \<Rightarrow> (int \<times> 'h mtk_snand) option" where
  "mtk_snand_poll_status B wait_us s =
     (let (time_start, s) = timer_get_ticks B s
      in poll_status_loop B time_start (timer_time_to_tick wait_us) s)"

definition mtk_snand_chip_reset :: "'h bus \<Rightarrow> 'h mtk_snand \<Rightarrow> (int \<times> 'h mtk_snand) option" where
  "mtk_snand_chip_reset B s =
     (let (ret, s) = mac_out B [SNAND_CMD_RESET] s
      in if ret \<noteq> 0 then Some (ret, s)
         else do {
           (ret, s) \<leftarrow> mtk_snand_poll_status B SNFI_POLL_INTERVAL s;
           Some (if ret < 0 then ret else 0, s)
         })"

definition mtk_snand_config_feature ::
    "'h bus \<Rightarrow> int \<Rightarrow> int \<Rightarrow> 'h mtk_snand \<Rightarrow> int \<times> 'h mtk_snand" where
  "mtk_snand_config_feature B clr put s =
     (let (val, s) = mtk_snand_get_feature B SNAND_FEATURE_CONFIG_ADDR s
      in if val < 0 then (val, s)
         else let newval = (val AND NOT clr) OR put
         in if newval = val then (0, s)
         else let (ret, s) = mtk_snand_set_feature B SNAND_FEATURE_CONFIG_ADDR (word_of_int newval) s
         in if val < 0 then (ret, s)
         else let (val, s) = mtk_snand_get_feature B SNAND_FEATURE_CONFIG_ADDR s
         in if val < 0 then (val, s)
         else if newval \<noteq> val then (- ENOTSUPP, s)
         else (0, s))"

definition mtk_snand_ondie_ecc_control :: "'h bus \<Rightarrow> bool \<Rightarrow> 'h mtk_snand \<Rightarrow> int \<times> 'h mtk_snand" where
  "mtk_snand_ondie_ecc_control B enable s =
     (if enable then mtk_snand_config_feature B 0 SNAND_FEATURE_ECC_EN s
      else mtk_snand_config_feature B SNAND_FEATURE_ECC_EN 0 s)"

definition mtk_snand_qspi_control :: "'h bus \<Rightarrow> bool \<Rightarrow> 'h mtk_snand \<Rightarrow> int \<times> 'h mtk_snand" where
  "mtk_snand_qspi_control B enable s =
     (if enable then mtk_snand_config_feature B 0 SNAND_FEATURE_QUAD_ENABLE s
      else mtk_snand_config_feature B SNAND_FEATURE_QUAD_ENABLE 0 s)"

definition mtk_snand_unlock :: "'h bus \<Rightarrow> 'h mtk_snand \<Rightarrow> int \<times> 'h mtk_snand" where
  "mtk_snand_unlock B s = mtk_snand_set_feature B SNAND_FEATURE_PROTECT_ADDR 0 s"

definition mtk_snand_write_enable :: "'h bus \<Rightarrow> 'h mtk_snand \<Rightarrow> int \<times> 'h mtk_snand" where
  "mtk_snand_write_enable B s =
     (let (ret, s) = mac_out B [SNAND_CMD_WRITE_ENABLE] s
      in if ret \<noteq> 0 then (ret, s)
         else let (val, s) = mtk_snand_get_feature B SNAND_FEATURE_STATUS_ADDR s
         in if val < 0 then (ret, s)
         else if val AND SNAND_STATUS_WEL \<noteq> 0 then (0, s)
         else (- ENOTSUPP, s))"

definition mtk_snand_winbond_select_die :: "'h bus \<Rightarrow> u32 \<Rightarrow> 'h mtk_snand \<Rightarrow> int \<times> 'h mtk_snand" where
  "mtk_snand_winbond_select_die B dieidx s =
     (if dieidx > 1 then (- EINVAL, s) else mac_out B [SNAND_CMD_WINBOND_SELECT_DIE, ucast dieidx] s)"

definition mtk_snand_micron_select_die :: "'h bus \<Rightarrow> u32 \<Rightarrow> 'h mtk_snand \<Rightarrow> int \<times> 'h mtk_snand" where
  "mtk_snand_micron_select_die B dieidx s =
     (if dieidx > 1 then (- EINVAL, s)
      else let (ret, s) = mtk_snand_set_feature B SNAND_FEATURE_MICRON_DIE_ADDR SNAND_MICRON_DIE_SEL_1 s
      in if ret \<noteq> 0 then (ret, s) else (0, s))"

definition mtk_snand_select_die :: "'h bus \<Rightarrow> u32 \<Rightarrow> 'h mtk_snand \<Rightarrow> int \<times> 'h mtk_snand" where
  "mtk_snand_select_die B dieidx s =
     (case sf_select_die s of
        None \<Rightarrow> (0, s)
      | Some Winbond_select_die \<Rightarrow> mtk_snand_winbond_select_die B dieidx s
      | Some Micron_select_die \<Rightarrow> mtk_snand_micron_select_die B dieidx s)"

definition mtk_snand_select_die_address :: "'h bus \<Rightarrow> u64 \<Rightarrow> 'h mtk_snand \<Rightarrow> u64 \<times> 'h mtk_snand" where
  "mtk_snand_select_die_address B addr s =
     (if sf_select_die s = None then (addr, s)
      else let dieidx = ucast (drop_bit (unat (sf_die_shift s)) addr);
               (_, s) = mtk_snand_select_die B dieidx s
      in (addr AND sf_die_mask s, s))"

definition mtk_snand_get_plane_address :: "'h mtk_snand \<Rightarrow> u32 \<Rightarrow> u32" where
  "mtk_snand_get_plane_address s page =
     (let pages_per_block = push_bit (unat (sf_erasesize_shift s - sf_writesize_shift s)) 1
      in if page AND pages_per_block \<noteq> 0 then push_bit (unat (sf_writesize_shift s + 1)) 1 else 0)"

definition mtk_snand_page_op :: "'h bus \<Rightarrow> u32 \<Rightarrow> u8 \<Rightarrow> 'h mtk_snand \<Rightarrow> int \<times> 'h mtk_snand" where
  "mtk_snand_page_op B page cmd s =
     mac_out B [cmd, ucast (drop_bit 16 page AND 0xff), ucast (drop_bit 8 page AND 0xff),
                ucast (page AND 0xff)] s"

end
