(* ===== verification/Snand_Page.thy ===== *)
theory Snand_Page
  imports Snand_Base
begin

text \<open>
  The page buffer of the SPI-NAND driver: the two layouts of a page (data, FDM and parity apart, or
  sector after sector as they lie in the chip), the copies between them, and the exchanges that
  keep the factory's bad-block mark out of the data (mtk-snand.c).
\<close>

section \<open>Code\<close>

definition memcpy :: "bytes \<Rightarrow> nat \<Rightarrow> bytes \<Rightarrow> nat \<Rightarrow> nat \<Rightarrow> bytes option" where
  "memcpy dst d src p n = do { data \<leftarrow> slice src p n; blit dst d data }"

definition memset :: "bytes \<Rightarrow> nat \<Rightarrow> u8 \<Rightarrow> nat \<Rightarrow> bytes option" where
  "memset dst d v n = blit dst d (replicate n v)"

definition do_bm_swap :: "bytes \<Rightarrow> nat \<Rightarrow> nat \<Rightarrow> bytes option" where
  "do_bm_swap m bm1 bm2 = do {
     tmp \<leftarrow> load m bm1;
     b \<leftarrow> load m bm2;
     m \<leftarrow> store m bm1 b;
     store m bm2 tmp
   }"

definition swap_cache :: "u32 \<Rightarrow> u32 \<Rightarrow> 'h mtk_snand \<Rightarrow> 'h mtk_snand option" where
  "swap_cache p q s = do {
     m \<leftarrow> do_bm_swap (sf_page_cache s) (unat p) (unat q);
     Some (s\<lparr>sf_page_cache := m\<rparr>)
   }"

definition no_swap :: "'h mtk_snand \<Rightarrow> bool" where
  "no_swap s \<longleftrightarrow> \<not> sd_bbm_swap (sf_nfi_soc s) \<or> sf_ecc_steps s = 1"

definition mtk_snand_bm_swap_raw :: "'h mtk_snand \<Rightarrow> 'h mtk_snand option" where
  "mtk_snand_bm_swap_raw s =
     (if no_swap s then Some s
      else let fdm_bbm_pos = (sf_ecc_steps s - 1) * sf_raw_sector_size s + sector_size s
           in swap_cache fdm_bbm_pos (sf_writesize s) s)"

definition mtk_snand_bm_swap :: "'h mtk_snand \<Rightarrow> 'h mtk_snand option" where
  "mtk_snand_bm_swap s =
     (if no_swap s then Some s
      else let buf_bbm_pos = sf_writesize s - (sf_ecc_steps s - 1) * sf_spare_per_sector s;
               fdm_bbm_pos = sf_writesize s + (sf_ecc_steps s - 1) * fdm_size s
           in swap_cache fdm_bbm_pos buf_bbm_pos s)"

definition mtk_snand_fdm_bm_swap_raw :: "'h mtk_snand \<Rightarrow> 'h mtk_snand option" where
  "mtk_snand_fdm_bm_swap_raw s =
     (if no_swap s then Some s
      else let fdm_bbm_pos1 = sector_size s;
               fdm_bbm_pos2 = (sf_ecc_steps s - 1) * sf_raw_sector_size s + sector_size s
           in swap_cache fdm_bbm_pos1 fdm_bbm_pos2 s)"

definition mtk_snand_fdm_bm_swap :: "'h mtk_snand \<Rightarrow> 'h mtk_snand option" where
  "mtk_snand_fdm_bm_swap s =
     (if no_swap s then Some s
      else let fdm_bbm_pos1 = sf_writesize s;
               fdm_bbm_pos2 = sf_writesize s + (sf_ecc_steps s - 1) * fdm_size s
           in swap_cache fdm_bbm_pos1 fdm_bbm_pos2 s)"

definition ecc_room :: "'h mtk_snand \<Rightarrow> u32" where
  "ecc_room s = sf_spare_per_sector s - fdm_size s"

text \<open>
  The body of the loop of mtk_snand_from_raw_page; the pointers of the code advance by one sector
  a turn, so that they are offsets here. A null pointer is \<open>None\<close>.
\<close>

definition from_raw_sector ::
    "'h mtk_snand \<Rightarrow> nat \<Rightarrow> bytes option \<times> bytes option \<Rightarrow> (bytes option \<times> bytes option) option" where
  "from_raw_sector s i = (\<lambda>(buf, oob).
     let raw_sector = unat (of_nat i * sf_raw_sector_size s);
         ss = unat (sector_size s); fs = unat (fdm_size s); es = unat (ecc_room s);
         eccptr = unat (sf_ecc_steps s * fdm_size s) + i * es
     in do {
       buf \<leftarrow> (case buf of None \<Rightarrow> Some None
              | Some b \<Rightarrow> map_option Some (memcpy b (i * ss) (sf_page_cache s) raw_sector ss));
       oob \<leftarrow> (case oob of None \<Rightarrow> Some None
              | Some ob \<Rightarrow> do {
                  ob \<leftarrow> memcpy ob (i * fs) (sf_page_cache s) (raw_sector + ss) fs;
                  map_option Some (memcpy ob eccptr (sf_page_cache s) (raw_sector + ss + fs) es)
                });
       Some (buf, oob)
     })"

definition mtk_snand_from_raw_page ::
    "'h mtk_snand \<Rightarrow> bytes option \<Rightarrow> bytes option \<Rightarrow> (bytes option \<times> bytes option) option" where
  "mtk_snand_from_raw_page s buf oob =
     run_all (from_raw_sector s) [0..<unat (sf_ecc_steps s)] (buf, oob)"

definition to_raw_sector ::
    "bytes option \<Rightarrow> bytes option \<Rightarrow> bool \<Rightarrow> nat \<Rightarrow> 'h mtk_snand \<Rightarrow> 'h mtk_snand option" where
  "to_raw_sector buf oob empty_ecc i s =
     (let raw_sector = unat (of_nat i * sf_raw_sector_size s);
          ss = unat (sector_size s); fs = unat (fdm_size s); es = unat (ecc_room s);
          eccptr = unat (sf_ecc_steps s * fdm_size s) + i * es
      in do {
        m \<leftarrow> (case buf of None \<Rightarrow> Some (sf_page_cache s)
             | Some b \<Rightarrow> memcpy (sf_page_cache s) raw_sector b (i * ss) ss);
        m \<leftarrow> (case oob of None \<Rightarrow> Some m
             | Some ob \<Rightarrow> do {
                 m \<leftarrow> memcpy m (raw_sector + ss) ob (i * fs) fs;
                 (if empty_ecc then memset m (raw_sector + ss + fs) 0xff es
                  else memcpy m (raw_sector + ss + fs) ob eccptr es)
               });
        Some (s\<lparr>sf_page_cache := m\<rparr>)
      })"

definition clear_page_cache :: "'h mtk_snand \<Rightarrow> 'h mtk_snand option" where
  "clear_page_cache s = do {
     m \<leftarrow> memset (sf_page_cache s) 0 0xff (unat (sf_writesize s + sf_oobsize s));
     Some (s\<lparr>sf_page_cache := m\<rparr>)
   }"

definition mtk_snand_to_raw_page ::
    "'h mtk_snand \<Rightarrow> bytes option \<Rightarrow> bytes option \<Rightarrow> bool \<Rightarrow> 'h mtk_snand option" where
  "mtk_snand_to_raw_page s buf oob empty_ecc = do {
     s \<leftarrow> clear_page_cache s;
     run_all (to_raw_sector buf oob empty_ecc) [0..<unat (sf_ecc_steps s)] s
   }"

text \<open>Are \<open>n\<close> bytes from \<open>off\<close> all 0xff?\<close>

fun all_ff :: "bytes \<Rightarrow> nat \<Rightarrow> nat \<Rightarrow> bool option" where
  "all_ff p off 0 = Some True"
| "all_ff p off (Suc n) = do {
     b \<leftarrow> load p off;
     (if b \<noteq> 0xff then Some False else all_ff p (Suc off) n)
   }"

fun fdm_all_ff :: "'h mtk_snand \<Rightarrow> bytes \<Rightarrow> nat list \<Rightarrow> bool option" where
  "fdm_all_ff s oob [] = Some True"
| "fdm_all_ff s oob (j # js) = do {
     e \<leftarrow> all_ff oob (unat (of_nat j * fdm_size s)) (unat (fdm_ecc_size s));
     (if e then fdm_all_ff s oob js else Some False)
   }"

definition mtk_snand_is_empty_page ::
    "'h mtk_snand \<Rightarrow> bytes option \<Rightarrow> bytes option \<Rightarrow> bool option" where
  "mtk_snand_is_empty_page s buf oob = do {
     e \<leftarrow> (case buf of None \<Rightarrow> Some True | Some p \<Rightarrow> all_ff p 0 (unat (sf_writesize s)));
     (if \<not> e then Some False
      else case oob of None \<Rightarrow> Some True
        | Some p \<Rightarrow> fdm_all_ff s p [0..<unat (sf_ecc_steps s)])
   }"

text \<open>Free bytes of the FDM, skipping the first of each sector.\<close>

fun fill_steps :: "nat \<Rightarrow> nat \<Rightarrow> nat \<Rightarrow> bytes \<Rightarrow> bytes \<Rightarrow> nat \<Rightarrow> nat \<Rightarrow> (nat \<times> bytes) option" where
  "fill_steps fs 0 step oobraw oob pos n = Some (n, oobraw)"
| "fill_steps fs (Suc k) step oobraw oob pos n =
     (if n = 0 then Some (0, oobraw)
      else let sect_fdm_len = (if fs - 1 > n then n else fs - 1)
      in do {
        oobraw \<leftarrow> memcpy oobraw (step * fs + 1) oob pos sect_fdm_len;
        fill_steps fs k (step + 1) oobraw oob (pos + sect_fdm_len) (n - sect_fdm_len)
      })"

definition mtk_snand_fill_oob ::
    "'h mtk_snand \<Rightarrow> bytes \<Rightarrow> bytes \<Rightarrow> nat \<Rightarrow> (nat \<times> bytes) option" where
  "mtk_snand_fill_oob s oobraw oobbuf ooblen =
     fill_steps (unat (fdm_size s)) (unat (sf_ecc_steps s)) 0 oobraw oobbuf 0 ooblen"

fun transfer_steps :: "nat \<Rightarrow> nat \<Rightarrow> nat \<Rightarrow> bytes \<Rightarrow> bytes \<Rightarrow> nat \<Rightarrow> nat \<Rightarrow> (nat \<times> bytes) option" where
  "transfer_steps fs 0 step oob oobraw pos n = Some (n, oob)"
| "transfer_steps fs (Suc k) step oob oobraw pos n =
     (if n = 0 then Some (0, oob)
      else let sect_fdm_len = (if fs - 1 > n then n else fs - 1)
      in do {
        oob \<leftarrow> memcpy oob pos oobraw (step * fs + 1) sect_fdm_len;
        transfer_steps fs k (step + 1) oob oobraw (pos + sect_fdm_len) (n - sect_fdm_len)
      })"

definition mtk_snand_transfer_oob ::
    "'h mtk_snand \<Rightarrow> bytes \<Rightarrow> nat \<Rightarrow> bytes \<Rightarrow> (nat \<times> bytes) option" where
  "mtk_snand_transfer_oob s oobbuf ooblen oobraw =
     transfer_steps (unat (fdm_size s)) (unat (sf_ecc_steps s)) 0 oobbuf oobraw 0 ooblen"

section \<open>Copies and exchanges\<close>

lemma run_all_upt:
  assumes "I 0 s" and "\<And>j s. j < n \<Longrightarrow> I j s \<Longrightarrow> ok (f j s) (I (Suc j))"
  shows "ok (run_all f [0..<n] s) (I n)"
proof -
  have "ok (run_all f [k..<n] s) (I n)" if "k \<le> n" "I k s" for k s
    using that
  proof (induction "n - k" arbitrary: k s)
    case 0
    then show ?case by simp
  next
    case (Suc d)
    then have k: "k < n" by linarith
    have "ok (run_all f (k # [Suc k..<n]) s) (I n)"
      unfolding run_all.simps
      by (rule ok_bindI [OF assms(2) [OF k Suc.prems(2)]], rule Suc.hyps(1)) (use Suc.hyps(2) k in auto)
    then show ?case by (simp add: upt_conv_Cons k)
  qed
  from this [of 0] show ?thesis using assms(1) by simp
qed

abbreviation patch :: "'a list \<Rightarrow> nat \<Rightarrow> 'a list \<Rightarrow> 'a list" where
  "patch xs d ys \<equiv> take d xs @ ys @ drop (d + length ys) xs"

lemma nth_patch:
  "d + length ys \<le> length xs \<Longrightarrow> k < length xs \<Longrightarrow>
   patch xs d ys ! k = (if d \<le> k \<and> k < d + length ys then ys ! (k - d) else xs ! k)"
  by (auto simp: nth_append)

lemma ok_memcpy [simp]:
  "ok (memcpy dst d src p n) Q \<longleftrightarrow>
     p + n \<le> length src \<and> d + n \<le> length dst \<and> Q (patch dst d (take n (drop p src)))"
  by (auto simp: memcpy_def ok_bind min_def)

lemma ok_memset [simp]:
  "ok (memset dst d v n) Q \<longleftrightarrow> d + n \<le> length dst \<and> Q (patch dst d (replicate n v))"
  by (simp add: memset_def)

lemma memcpy_SomeD: "memcpy dst d src p n = Some r \<Longrightarrow> length r = length dst"
  by (auto simp: memcpy_def Option.bind_eq_Some_conv dest: blit_SomeD)

definition exch :: "nat \<Rightarrow> nat \<Rightarrow> nat \<Rightarrow> nat" where
  "exch p q k = (if k = p then q else if k = q then p else k)"

lemma do_bm_swap_eq:
  assumes "p < length m" and "q < length m"
  shows "do_bm_swap m p q = Some (map (\<lambda>k. m ! exch p q k) [0..<length m])"
proof -
  have "m[p := m ! q, q := m ! p] = map (\<lambda>k. m ! exch p q k) [0..<length m]"
    by (rule nth_equalityI) (auto simp: exch_def nth_list_update)
  then show ?thesis
    using assms by (simp add: do_bm_swap_def load_def store_def)
qed

lemma exch_less: "p < n \<Longrightarrow> q < n \<Longrightarrow> k < n \<Longrightarrow> exch p q k < n"
  by (simp add: exch_def)

lemma exch_exch [simp]: "exch p q (exch p q k) = k"
  by (simp add: exch_def)

section \<open>The page format\<close>

text \<open>
  What mtk_snand_setup establishes: the sectors with their spare bytes fill the page at most, a
  sector's spare bytes hold its FDM, and the spare bytes of all sectors but one are not more than a
  sector's data, so that the first spare byte of the chip lies in the last sector's data.
\<close>

definition page_format :: "'h mtk_snand \<Rightarrow> bool" where
  "page_format s \<longleftrightarrow>
     (let n = unat (sf_ecc_steps s); S = unat (sector_size s); F = unat (fdm_size s);
          P = unat (sf_spare_per_sector s)
      in 0 < n \<and> 0 < F \<and> F \<le> P \<and> P \<le> S \<and> (n - 1) * P \<le> S \<and> unat (sf_writesize s) = n * S \<and>
         n * P \<le> unat (sf_oobsize s) \<and> unat (sf_writesize s) + unat (sf_oobsize s) < 2 ^ 31 \<and>
         unat (sf_raw_sector_size s) = S + P \<and> unat (fdm_ecc_size s) \<le> F)"

definition page_len :: "'h mtk_snand \<Rightarrow> nat" where
  "page_len s = unat (sf_writesize s) + unat (sf_oobsize s)"

lemma page_format_cache [simp]:
  "page_format (s\<lparr>sf_page_cache := m\<rparr>) = page_format s"
  "page_len (s\<lparr>sf_page_cache := m\<rparr>) = page_len s"
  "no_swap (s\<lparr>sf_page_cache := m\<rparr>) = no_swap s"
  "ecc_room (s\<lparr>sf_page_cache := m\<rparr>) = ecc_room s"
  by (simp_all add: page_format_def page_len_def no_swap_def ecc_room_def)

lemma page_format_nat:
  assumes "page_format s"
  shows "0 < unat (sf_ecc_steps s)" "0 < unat (fdm_size s)"
    "unat (fdm_size s) \<le> unat (sf_spare_per_sector s)"
    "unat (sf_spare_per_sector s) \<le> unat (sector_size s)"
    "unat (sf_writesize s) = unat (sf_ecc_steps s) * unat (sector_size s)"
    "unat (sf_ecc_steps s) * unat (sf_spare_per_sector s) \<le> unat (sf_oobsize s)"
    "unat (sf_raw_sector_size s) = unat (sector_size s) + unat (sf_spare_per_sector s)"
    "unat (fdm_ecc_size s) \<le> unat (fdm_size s)"
    "unat (sf_writesize s) + unat (sf_oobsize s) < 2 ^ 31"
    "(unat (sf_ecc_steps s) - 1) * unat (sf_spare_per_sector s) \<le> unat (sector_size s)"
  using assms by (simp_all add: page_format_def Let_def)

lemma unat_times_word:
  fixes a b :: "'a::len word"
  assumes "unat a * unat b < 2 ^ LENGTH('a)"
  shows "unat (a * b) = unat a * unat b"
  using assms by (simp add: unat_word_ariths)

lemma unat_mul_u32: "unat a * unat b < 2 ^ 32 \<Longrightarrow> unat (a * b :: u32) = unat a * unat b"
  by (rule unat_times_word) simp

lemma unat_add_u32: "unat a + unat b < 2 ^ 32 \<Longrightarrow> unat (a + b :: u32) = unat a + unat b"
  by (rule unat_add_fits) simp

lemma unat_of_nat_u32: "i < 2 ^ 32 \<Longrightarrow> unat (of_nat i :: u32) = i"
  by (simp add: unat_of_nat)

text \<open>The positions the code computes in 32 bits, as numbers.\<close>

lemma page_positions:
  assumes "page_format s"
  defines "n \<equiv> unat (sf_ecc_steps s)" and "S \<equiv> unat (sector_size s)" and "F \<equiv> unat (fdm_size s)"
    and "P \<equiv> unat (sf_spare_per_sector s)"
  shows "unat ((sf_ecc_steps s - 1) * sf_raw_sector_size s + sector_size s) = (n - 1) * (S + P) + S"
    and "unat (sf_writesize s - (sf_ecc_steps s - 1) * sf_spare_per_sector s) = n * S - (n - 1) * P"
    and "unat (sf_writesize s + (sf_ecc_steps s - 1) * fdm_size s) = n * S + (n - 1) * F"
    and "i < n \<Longrightarrow> unat (of_nat i * sf_raw_sector_size s) = i * (S + P)"
    and "unat (sf_ecc_steps s * fdm_size s) = n * F"
    and "unat (ecc_room s) = P - F"
    and "unat (sf_writesize s + sf_oobsize s) = page_len s"
    and "n * (S + P) \<le> page_len s"
    and "page_len s < 2 ^ 31"
    and "i < n \<Longrightarrow> unat (of_nat i * fdm_size s) = i * F"
proof -
  note f = page_format_nat [OF assms(1), folded n_def S_def F_def P_def]
  have np: "n * (S + P) \<le> page_len s"
    using f(5,6) by (simp add: page_len_def algebra_simps)
  then show "n * (S + P) \<le> page_len s" .
  show pl: "page_len s < 2 ^ 31" using f(9) by (simp add: page_len_def)
  have le: "(n - 1) * x \<le> n * x" for x by simp
  have F: "n * F \<le> n * P" using f(3) by simp
  have R: "n * S + n * P < 2 ^ 31" using np pl by (simp add: algebra_simps)
  have n1: "unat (sf_ecc_steps s - 1) = n - 1"
    using f(1) by (simp add: n_def unat_pred unat_gt_0)
  have small: "(n - 1) * P < 2 ^ 31" "(n - 1) * F < 2 ^ 31" "n * F < 2 ^ 31"
      "(n - 1) * (S + P) < 2 ^ 31" "n * S + (n - 1) * F < 2 ^ 31"
    using R F le [of P] le [of F] le [of "S + P"] np pl by linarith+
  have m1: "unat ((sf_ecc_steps s - 1) * sf_raw_sector_size s) = (n - 1) * (S + P)"
    using small(4) unat_mul_u32 [of "sf_ecc_steps s - 1" "sf_raw_sector_size s"] by (simp add: n1 f(7))
  have last: "(n - 1) * (S + P) + S \<le> n * (S + P)"
    using f(1) by (cases n) simp_all
  show "unat ((sf_ecc_steps s - 1) * sf_raw_sector_size s + sector_size s) = (n - 1) * (S + P) + S"
    using unat_add_u32 [of "(sf_ecc_steps s - 1) * sf_raw_sector_size s" "sector_size s",
        unfolded m1, folded S_def] last np pl by simp
  have m2: "unat ((sf_ecc_steps s - 1) * sf_spare_per_sector s) = (n - 1) * P"
    using small(1) unat_mul_u32 [of "sf_ecc_steps s - 1" "sf_spare_per_sector s"]
    by (simp add: n1 flip: P_def)
  have PS: "(n - 1) * P \<le> n * S" using f(4) le [of P] mult_le_mono2 [of P S n] by linarith
  show "unat (sf_writesize s - (sf_ecc_steps s - 1) * sf_spare_per_sector s) = n * S - (n - 1) * P"
    using PS unat_sub_le [of "(sf_ecc_steps s - 1) * sf_spare_per_sector s" "sf_writesize s"]
    by (simp add: m2 f(5) word_le_nat_alt)
  have m3: "unat ((sf_ecc_steps s - 1) * fdm_size s) = (n - 1) * F"
    using small(2) unat_mul_u32 [of "sf_ecc_steps s - 1" "fdm_size s"]
    by (simp add: n1 flip: F_def)
  show "unat (sf_writesize s + (sf_ecc_steps s - 1) * fdm_size s) = n * S + (n - 1) * F"
    using unat_add_u32 [of "sf_writesize s" "(sf_ecc_steps s - 1) * fdm_size s", unfolded m3 f(5)]
      small(5) by simp
  show "unat (of_nat i * sf_raw_sector_size s) = i * (S + P)" if "i < n"
  proof -
    have "i * (S + P) \<le> n * (S + P)" using that by simp
    then have "i * (S + P) \<le> page_len s" using np by (rule le_trans)
    then have i: "i * (S + P) < 2 ^ 32" using pl by simp
    have "unat (of_nat i :: u32) = i"
      using that unat_u32_lt [of "sf_ecc_steps s"] by (simp add: n_def unat_of_nat)
    then show ?thesis
      using i unat_mul_u32 [of "of_nat i" "sf_raw_sector_size s"] by (simp add: f(7))
  qed
  show "unat (of_nat i * fdm_size s) = i * F" if "i < n"
  proof -
    have "i * F < 2 ^ 31" by (rule le_less_trans [OF _ small(3)]) (use that in simp)
    then have i: "i * F < 2 ^ 32" by simp
    have "unat (of_nat i :: u32) = i"
      using that unat_u32_lt [of "sf_ecc_steps s"] by (simp add: n_def unat_of_nat)
    then show ?thesis
      using i unat_mul_u32 [of "of_nat i" "fdm_size s"] by (simp flip: F_def)
  qed
  show "unat (sf_ecc_steps s * fdm_size s) = n * F"
    using small(3) unat_mul_u32 [of "sf_ecc_steps s" "fdm_size s"] by (simp flip: n_def F_def)
  show "unat (ecc_room s) = P - F"
    using f(3) unat_sub_le [of "fdm_size s" "sf_spare_per_sector s"]
    by (simp add: ecc_room_def P_def F_def word_le_nat_alt)
  show "unat (sf_writesize s + sf_oobsize s) = page_len s"
    using pl unat_add_u32 [of "sf_writesize s" "sf_oobsize s"] by (simp add: page_len_def)
qed

end
