(* ===== verification/Snand_Layout.thy ===== *)
theory Snand_Layout
  imports Snand_Page
begin

text \<open>
  The two layouts of a page in the SPI-NAND driver. In a raw page the bytes of sector \<open>i\<close>, its
  FDM and its parity lie together; the requests and the controller's automatic format keep data,
  FDM and parity apart. \<open>sector_pos\<close> gives for a position of the raw page the position in the
  concatenation of data, FDM and parity, and specifies both copies of the code.
\<close>

definition sector_pos :: "nat \<Rightarrow> nat \<Rightarrow> nat \<Rightarrow> nat \<Rightarrow> nat \<Rightarrow> nat" where
  "sector_pos n S F E r =
     (let i = r div (S + F + E); x = r mod (S + F + E)
      in if x < S then i * S + x
         else if x < S + F then n * S + i * F + (x - S)
         else n * S + n * F + i * E + (x - S - F))"

text \<open>Byte \<open>k\<close> of data, FDM and parity as a request gives them; what it leaves out is 0xff.\<close>

definition cooked :: "nat \<Rightarrow> nat \<Rightarrow> nat \<Rightarrow> bytes option \<Rightarrow> bytes option \<Rightarrow> bool \<Rightarrow> nat \<Rightarrow> u8" where
  "cooked n S F buf oob empty_ecc k =
     (if k < n * S then (case buf of None \<Rightarrow> 0xff | Some b \<Rightarrow> b ! k)
      else case oob of None \<Rightarrow> 0xff
        | Some ob \<Rightarrow> if empty_ecc \<and> n * S + n * F \<le> k then 0xff else ob ! (k - n * S))"

lemma sector_pos_in:
  assumes "x < S + F + E"
  shows "sector_pos n S F E (i * (S + F + E) + x) =
     (if x < S then i * S + x
      else if x < S + F then n * S + i * F + (x - S)
      else n * S + n * F + i * E + (x - S - F))"
  using assms by (simp add: sector_pos_def Let_def)

lemma sector_index: "i < n \<Longrightarrow> x < S \<Longrightarrow> i * S + x < n * (S :: nat)"
proof -
  assume "i < n" "x < S"
  then have "i * S + x < (i + 1) * S" "(i + 1) * S \<le> n * S"
    by (simp, intro mult_le_mono1) simp
  then show ?thesis by linarith
qed

lemma raw_index_cases:
  fixes r n S F E :: nat
  assumes "r < n * (S + F + E)"
  obtains i x where "i < n" "x < S + F + E" "r = i * (S + F + E) + x"
proof
  show "r div (S + F + E) < n" using assms by (simp add: less_mult_imp_div_less)
  show "r mod (S + F + E) < S + F + E" using assms by (cases "S + F + E") simp_all
  show "r = r div (S + F + E) * (S + F + E) + r mod (S + F + E)"
    by (rule div_mult_mod_eq [symmetric])
qed

lemma sector_pos_less:
  assumes "r < n * (S + F + E)"
  shows "sector_pos n S F E r < n * (S + F + E)"
proof -
  obtain i x where r: "i < n" "x < S + F + E" "r = i * (S + F + E) + x"
    using assms by (rule raw_index_cases)
  have "i * S + x < n * S" if "x < S" using r(1) that by (rule sector_index)
  moreover have "i * F + (x - S) < n * F" if "S \<le> x" "x < S + F"
    using r(1) that by (intro sector_index) auto
  moreover have "i * E + (x - S - F) < n * E" if "S + F \<le> x"
    using r(1,2) that by (intro sector_index) auto
  ultimately show ?thesis
    unfolding r(3) sector_pos_in [OF r(2)] by (auto simp: algebra_simps not_less)
qed

lemma mult_add_eq: "x < S \<Longrightarrow> y < S \<Longrightarrow> i * S + x = j * S + y \<longleftrightarrow> i = j \<and> x = (y :: nat)"
  by (metis add.commute div_mult_self1 div_less add_cancel_right_left less_nat_zero_code
      add_left_cancel bot_nat_0.not_eq_extremum)

lemma sector_pos_inj:
  assumes "r < n * (S + F + E)" "r' < n * (S + F + E)"
    and "sector_pos n S F E r = sector_pos n S F E r'"
  shows "r = r'"
proof -
  obtain i x where r: "i < n" "x < S + F + E" "r = i * (S + F + E) + x"
    using assms(1) by (rule raw_index_cases)
  obtain j y where r': "j < n" "y < S + F + E" "r' = j * (S + F + E) + y"
    using assms(2) by (rule raw_index_cases)
  have S: "i * S + x < n * S" if "x < S" using r(1) that by (rule sector_index)
  have S': "j * S + y < n * S" if "y < S" using r'(1) that by (rule sector_index)
  have F: "i * F + (x - S) < n * F" if "S \<le> x" "x < S + F"
    using r(1) that by (intro sector_index) auto
  have F': "j * F + (y - S) < n * F" if "S \<le> y" "y < S + F"
    using r'(1) that by (intro sector_index) auto
  have eq: "(if x < S then i * S + x else if x < S + F then n * S + i * F + (x - S)
        else n * S + n * F + i * E + (x - S - F)) =
      (if y < S then j * S + y else if y < S + F then n * S + j * F + (y - S)
        else n * S + n * F + j * E + (y - S - F))"
    using assms(3) unfolding r(3) r'(3) sector_pos_in [OF r(2)] sector_pos_in [OF r'(2)] .
  have 1: "x < S \<longleftrightarrow> y < S"
  proof (cases "x < S")
    case True
    then show ?thesis using S [OF True] eq by (simp split: if_splits)
  next
    case False
    then show ?thesis using S' eq by (simp split: if_splits)
  qed
  have 2: "x < S + F \<longleftrightarrow> y < S + F"
  proof (cases "x < S + F")
    case True
    then show ?thesis using F eq 1 by (simp split: if_splits)
  next
    case False
    then show ?thesis using F' eq 1 by (simp split: if_splits)
  qed
  consider "x < S" "y < S" | "S \<le> x" "x < S + F" "S \<le> y" "y < S + F" | "S + F \<le> x" "S + F \<le> y"
    using 1 2 by linarith
  then have "i = j \<and> x = y"
  proof cases
    case 1
    then show ?thesis
      using assms(3) unfolding r(3) r'(3) sector_pos_in [OF r(2)] sector_pos_in [OF r'(2)]
      by (simp add: mult_add_eq)
  next
    case 2
    then have "i * F + (x - S) = j * F + (y - S)"
      using assms(3) unfolding r(3) r'(3) sector_pos_in [OF r(2)] sector_pos_in [OF r'(2)] by simp
    then show ?thesis using 2 by (subst (asm) mult_add_eq) auto
  next
    case 3
    then have "i * E + (x - S - F) = j * E + (y - S - F)"
      using assms(3) unfolding r(3) r'(3) sector_pos_in [OF r(2)] sector_pos_in [OF r'(2)] by simp
    then show ?thesis using 3 r(2) r'(2) by (subst (asm) mult_add_eq) auto
  qed
  then show ?thesis using r(3) r'(3) by simp
qed

text \<open>\<open>m'\<close> is \<open>m\<close> with the bytes of the positions in \<open>A\<close> replaced by those of \<open>g\<close>.\<close>

definition written :: "(nat \<Rightarrow> 'a) \<Rightarrow> nat set \<Rightarrow> 'a list \<Rightarrow> 'a list \<Rightarrow> bool" where
  "written g A m m' \<longleftrightarrow>
     length m' = length m \<and> (\<forall>r < length m. m' ! r = (if r \<in> A then g r else m ! r))"

lemma written_patch:
  assumes "d + length ys \<le> length m" and "\<And>x. x < length ys \<Longrightarrow> ys ! x = g (d + x)"
  shows "written g {d..<d + length ys} m (patch m d ys)"
  unfolding written_def
proof (intro conjI allI impI)
  show "length (patch m d ys) = length m" using assms(1) by simp
  fix r assume r: "r < length m"
  have "ys ! (r - d) = g r" if "d \<le> r" "r < d + length ys"
    using assms(2) [of "r - d"] that by simp
  then show "patch m d ys ! r = (if r \<in> {d..<d + length ys} then g r else m ! r)"
    by (simp add: nth_patch [OF assms(1) r])
qed

lemma written_slice:
  assumes "d + k \<le> length m" and "p + k \<le> length src" and "\<And>x. x < k \<Longrightarrow> src ! (p + x) = g (d + x)"
  shows "written g {d..<d + k} m (patch m d (take k (drop p src)))"
  using written_patch [of d "take k (drop p src)" m g] assms by simp

lemma written_refl: "(\<And>r. r \<in> A \<Longrightarrow> r < length m \<Longrightarrow> m ! r = g r) \<Longrightarrow> written g A m m"
  by (auto simp: written_def)

lemma written_Un: "written g A m m' \<Longrightarrow> written g B m' m'' \<Longrightarrow> written g (A \<union> B) m m''"
  by (auto simp: written_def)

lemma written_length: "written g A m m' \<Longrightarrow> length m' = length m"
  by (simp add: written_def)

lemma written_outside: "written g A m m' \<Longrightarrow> r \<notin> A \<Longrightarrow> r < length m \<Longrightarrow> m' ! r = m ! r"
  by (simp add: written_def)

lemma written_nth: "written g A m m' \<Longrightarrow> r \<in> A \<Longrightarrow> r < length m \<Longrightarrow> m' ! r = g r"
  by (simp add: written_def)

section \<open>Sector after sector\<close>

text \<open>The sizes of a page as numbers.\<close>

definition sizes :: "'h mtk_snand \<Rightarrow> nat \<times> nat \<times> nat \<times> nat" where
  "sizes s = (unat (sf_ecc_steps s), unat (sector_size s), unat (fdm_size s),
     unat (sf_spare_per_sector s) - unat (fdm_size s))"

lemma sizes_cache [simp]: "sizes (s\<lparr>sf_page_cache := m\<rparr>) = sizes s"
  by (simp add: sizes_def)

lemma sizes_facts:
  assumes "page_format s" and "sizes s = (n, S, F, E)"
  shows "unat (sf_ecc_steps s) = n" "unat (sector_size s) = S" "unat (fdm_size s) = F"
    "unat (sf_spare_per_sector s) = F + E" "unat (ecc_room s) = E"
    "unat (sf_ecc_steps s * fdm_size s) = n * F"
    "i < n \<Longrightarrow> unat (of_nat i * sf_raw_sector_size s) = i * (S + F + E)"
    "i < n \<Longrightarrow> unat (of_nat i * fdm_size s) = i * F"
    "n * (S + F + E) \<le> page_len s" "0 < n" "0 < F" "F + E \<le> S"
    "unat (sf_writesize s) = n * S" "n * (F + E) \<le> unat (sf_oobsize s)"
    "unat (sf_writesize s + sf_oobsize s) = page_len s"
    "unat ((sf_ecc_steps s - 1) * sf_raw_sector_size s + sector_size s) = (n - 1) * (S + F + E) + S"
    "unat (sf_writesize s - (sf_ecc_steps s - 1) * sf_spare_per_sector s) = n * S - (n - 1) * (F + E)"
    "unat (sf_writesize s + (sf_ecc_steps s - 1) * fdm_size s) = n * S + (n - 1) * F"
    "(n - 1) * (F + E) \<le> S" "page_len s < 2 ^ 31"
proof -
  note f = page_format_nat [OF assms(1)] and p = page_positions [OF assms(1)]
  have e: "unat (sf_ecc_steps s) = n" "unat (sector_size s) = S" "unat (fdm_size s) = F"
      "unat (sf_spare_per_sector s) = F + E"
    using assms(2) f(3) by (auto simp: sizes_def)
  note f' = f [unfolded e] and p' = p [unfolded e, folded add.assoc]
  show "unat (sf_ecc_steps s) = n" "unat (sector_size s) = S" "unat (fdm_size s) = F"
    "unat (sf_spare_per_sector s) = F + E" by (fact e)+
  show "unat (ecc_room s) = E" using p'(6) by simp
  show "unat (sf_ecc_steps s * fdm_size s) = n * F" by (fact p'(5))
  show "i < n \<Longrightarrow> unat (of_nat i * sf_raw_sector_size s) = i * (S + F + E)" by (fact p'(4))
  show "i < n \<Longrightarrow> unat (of_nat i * fdm_size s) = i * F" by (fact p'(10))
  show "n * (S + F + E) \<le> page_len s" by (fact p'(8))
  show "0 < n" "0 < F" "F + E \<le> S" "unat (sf_writesize s) = n * S" "n * (F + E) \<le> unat (sf_oobsize s)"
    by (fact f'(1) f'(2) f'(4) f'(5) f'(6))+
  show "unat (sf_writesize s + sf_oobsize s) = page_len s" by (fact p'(7))
  show "unat ((sf_ecc_steps s - 1) * sf_raw_sector_size s + sector_size s) = (n - 1) * (S + F + E) + S"
    by (fact p'(1))
  show "unat (sf_writesize s - (sf_ecc_steps s - 1) * sf_spare_per_sector s) = n * S - (n - 1) * (F + E)"
    by (fact p'(2))
  show "unat (sf_writesize s + (sf_ecc_steps s - 1) * fdm_size s) = n * S + (n - 1) * F"
    by (fact p'(3))
  show "(n - 1) * (F + E) \<le> S" by (fact f'(10))
  show "page_len s < 2 ^ 31" by (fact p(9))
qed

lemma sector_pos_data: "x < S \<Longrightarrow> sector_pos n S F E (i * (S + F + E) + x) = i * S + x"
  by (simp add: sector_pos_in)

lemma sector_pos_fdm:
  "x < F \<Longrightarrow> sector_pos n S F E (i * (S + F + E) + S + x) = n * S + (i * F + x)"
  using sector_pos_in [of "S + x" S F E n i] by (simp add: add.assoc)

lemma sector_pos_ecc:
  "x < E \<Longrightarrow> sector_pos n S F E (i * (S + F + E) + S + F + x) = n * S + (n * F + (i * E + x))"
  using sector_pos_in [of "S + F + x" S F E n i] by (simp add: add.assoc)

definition wide :: "nat \<Rightarrow> bytes option \<Rightarrow> bool" where
  "wide k b = (case b of None \<Rightarrow> True | Some xs \<Rightarrow> k \<le> length xs)"

text \<open>One turn of the loop of mtk_snand_to_raw_page puts one sector into the raw page.\<close>

lemma to_raw_sector_ok:
  assumes "page_format s" and sz: "sizes s = (n, S, F, E)" and i: "i < n"
    and L: "length (sf_page_cache s) = page_len s"
    and wide: "wide (n * S) buf" "wide (n * F + (if empty_ecc then 0 else n * E)) oob"
    and blank: "\<And>r. i * (S + F + E) \<le> r \<Longrightarrow> r < page_len s \<Longrightarrow> sf_page_cache s ! r = 0xff"
  defines "g \<equiv> \<lambda>r. cooked n S F buf oob empty_ecc (sector_pos n S F E r)"
  shows "ok (to_raw_sector buf oob empty_ecc i s)
     (\<lambda>s'. \<exists>m. s' = s\<lparr>sf_page_cache := m\<rparr> \<and>
        written g {i * (S + F + E)..<Suc i * (S + F + E)} (sf_page_cache s) m)"
proof -
  note sf = sizes_facts [OF assms(1) sz]
  let ?R = "S + F + E" and ?c = "sf_page_cache s"
  have room: "Suc i * ?R \<le> page_len s"
    using mult_le_mono1 [of "Suc i" n ?R] i sf(9) by linarith
  have data: "i * S + x < n * S" if "x < S" for x using i that by (rule sector_index)
  have fdm: "i * F + x < n * F" if "x < F" for x using i that by (rule sector_index)
  have ecc: "i * E + x < n * E" if "x < E" for x using i that by (rule sector_index)
  have gd: "g (i * ?R + x) = (case buf of None \<Rightarrow> 0xff | Some b \<Rightarrow> b ! (i * S + x))" if "x < S" for x
    using data [OF that] unfolding g_def sector_pos_data [OF that] by (simp add: cooked_def)
  have gf: "g (i * ?R + S + x) = (case oob of None \<Rightarrow> 0xff | Some ob \<Rightarrow> ob ! (i * F + x))" if "x < F" for x
    using fdm [OF that] unfolding g_def sector_pos_fdm [OF that]
    by (simp add: cooked_def split: option.splits)
  have ge: "g (i * ?R + S + F + x) =
      (case oob of None \<Rightarrow> 0xff | Some ob \<Rightarrow> if empty_ecc then 0xff else ob ! (n * F + i * E + x))"
    if "x < E" for x
    using ecc [OF that] unfolding g_def sector_pos_ecc [OF that]
    by (simp add: cooked_def add.assoc split: option.splits)
  let ?A = "{i * ?R..<i * ?R + S}" and ?B = "{i * ?R + S..<i * ?R + S + F}"
    and ?C = "{i * ?R + S + F..<i * ?R + S + F + E}"
  have split: "?A \<union> ?B \<union> ?C = {i * ?R..<Suc i * ?R}" by auto
  have lenS: "i * S + S \<le> n * S" if "0 < S" using data [of "S - 1"] that by simp
  have 1: "ok (case buf of None \<Rightarrow> Some ?c | Some b \<Rightarrow> memcpy ?c (i * ?R) b (i * S) S) (written g ?A ?c)"
  proof (cases buf)
    case None
    have "?c ! r = g r" if "r \<in> ?A" "r < length ?c" for r
      using gd [of "r - i * ?R"] blank [of r] that L None by auto
    then have "written g ?A ?c ?c" by (rule written_refl)
    then show ?thesis using None by simp
  next
    case (Some b)
    have len: "i * S + S \<le> length b"
      using wide(1) mult_le_mono1 [of "Suc i" n S] i Some by (simp add: wide_def)
    have "written g ?A ?c (patch ?c (i * ?R) (take S (drop (i * S) b)))"
      by (rule written_slice) (use room L len gd Some in auto)
    then show ?thesis using room L Some len by simp
  qed
  have 2: "ok (case oob of None \<Rightarrow> Some m | Some ob \<Rightarrow> do {
        m \<leftarrow> memcpy m (i * ?R + S) ob (i * F) F;
        (if empty_ecc then memset m (i * ?R + S + F) 0xff E
         else memcpy m (i * ?R + S + F) ob (n * F + i * E) E)}) (written g (?B \<union> ?C) m)"
    if m: "written g ?A ?c m" for m
  proof (cases oob)
    case None
    have "m ! r = g r" if r: "r \<in> ?B \<union> ?C" "r < length m" for r
    proof -
      have "m ! r = 0xff" using written_outside [OF m, of r] written_length [OF m] blank [of r] r L by auto
      moreover have "g r = 0xff"
        using r(1) gf [of "r - (i * ?R + S)"] ge [of "r - (i * ?R + S + F)"] None by auto
      ultimately show ?thesis by simp
    qed
    then have "written g (?B \<union> ?C) m m" by (rule written_refl)
    then show ?thesis using None by simp
  next
    case (Some ob)
    have lm: "length m = page_len s" using written_length [OF m] L by simp
    have wf: "i * F + F \<le> length ob"
      using wide(2) mult_le_mono1 [of "Suc i" n F] i Some by (simp add: wide_def)
    have f: "written g ?B m (patch m (i * ?R + S) (take F (drop (i * F) ob)))"
      by (rule written_slice) (use room lm wf gf Some in auto)
    let ?m = "patch m (i * ?R + S) (take F (drop (i * F) ob))"
    have lm': "length ?m = page_len s" using written_length [OF f] lm by simp
    have e: "ok (if empty_ecc then memset m2 (i * ?R + S + F) 0xff E
         else memcpy m2 (i * ?R + S + F) ob (n * F + i * E) E) (written g ?C m2)"
      if lm': "length m2 = page_len s" for m2 :: bytes
    proof (cases empty_ecc)
      case True
      have "written g {i * ?R + S + F..<i * ?R + S + F + length (replicate E (0xff :: u8))} m2
          (patch m2 (i * ?R + S + F) (replicate E 0xff))"
        by (rule written_patch) (use room lm' ge True Some in auto)
      then show ?thesis using True room lm' by simp
    next
      case False
      have "n * F + i * E + E \<le> length ob"
        using wide(2) mult_le_mono1 [of "Suc i" n E] i Some False by (simp add: wide_def)
      moreover have "written g ?C m2 (patch m2 (i * ?R + S + F) (take E (drop (n * F + i * E) ob)))"
        by (rule written_slice) (use room lm' ge False Some calculation in auto)
      ultimately show ?thesis using False room lm' by simp
    qed
    show ?thesis
      unfolding Some option.case ok_bind ok_memcpy
      using wf room lm ok_mono [OF e [OF lm'] written_Un [OF f]] by simp
  qed
  show ?thesis
    unfolding to_raw_sector_def Let_def sf(1-6) sf(7) [OF i]
    apply (rule ok_bindI [OF 1])
    apply (rule ok_bindI [OF 2], assumption)
    using written_Un [where g = g and A = ?A and B = "?B \<union> ?C" and m = ?c] split
    by (auto simp: Un_assoc)
qed

lemma wide_mono: "wide k b \<Longrightarrow> j \<le> k \<Longrightarrow> wide j b"
  by (auto simp: wide_def split: option.splits)

definition raw_byte ::
    "'h mtk_snand \<Rightarrow> bytes option \<Rightarrow> bytes option \<Rightarrow> bool \<Rightarrow> nat \<Rightarrow> u8" where
  "raw_byte s buf oob empty_ecc r =
     (case sizes s of (n, S, F, E) \<Rightarrow>
        if r < n * (S + F + E) then cooked n S F buf oob empty_ecc (sector_pos n S F E r) else 0xff)"

text \<open>The raw page that mtk_snand_to_raw_page makes of a request.\<close>

lemma to_raw_page_ok:
  assumes f: "page_format s" and sz: "sizes s = (n, S, F, E)"
    and L: "length (sf_page_cache s) = page_len s"
    and w: "wide (n * S) buf" "wide (n * F + (if empty_ecc then 0 else n * E)) oob"
  shows "mtk_snand_to_raw_page s buf oob empty_ecc =
     Some (s\<lparr>sf_page_cache := map (raw_byte s buf oob empty_ecc) [0..<page_len s]\<rparr>)"
proof -
  note sf = sizes_facts [OF f sz]
  let ?R = "S + F + E" and ?ff = "replicate (page_len s) (0xff :: u8)"
  define g where "g = (\<lambda>r. cooked n S F buf oob empty_ecc (sector_pos n S F E r))"
  define I where "I = (\<lambda>j s'. \<exists>m. s' = s\<lparr>sf_page_cache := m\<rparr> \<and> written g {0..<j * ?R} ?ff m)"
  have clear: "clear_page_cache s = Some (s\<lparr>sf_page_cache := ?ff\<rparr>)"
    using L by (simp add: clear_page_cache_def memset_def blit_def sf(15))
  have step: "ok (to_raw_sector buf oob empty_ecc j s') (I (Suc j))" if j: "j < n" and I: "I j s'" for j s'
  proof -
    obtain m where s': "s' = s\<lparr>sf_page_cache := m\<rparr>" and m: "written g {0..<j * ?R} ?ff m"
      using I by (auto simp: I_def)
    have lm: "length m = page_len s" using written_length [OF m] by simp
    have "ok (to_raw_sector buf oob empty_ecc j s')
        (\<lambda>s''. \<exists>m'. s'' = s'\<lparr>sf_page_cache := m'\<rparr> \<and>
           written g {j * ?R..<Suc j * ?R} (sf_page_cache s') m')"
      unfolding g_def
    proof (rule to_raw_sector_ok [OF _ _ j])
      fix r assume "j * ?R \<le> r" "r < page_len s'"
      then show "sf_page_cache s' ! r = 0xff"
        using written_outside [OF m, of r] by (simp add: s')
    qed (use f sz lm w in \<open>simp_all add: s'\<close>)
    then show ?thesis
    proof (rule ok_mono)
      fix s'' assume "\<exists>m'. s'' = s'\<lparr>sf_page_cache := m'\<rparr> \<and>
           written g {j * ?R..<Suc j * ?R} (sf_page_cache s') m'"
      then obtain m' where m': "s'' = s\<lparr>sf_page_cache := m'\<rparr>" "written g {j * ?R..<Suc j * ?R} m m'"
        by (auto simp: s')
      have "{0..<j * ?R} \<union> {j * ?R..<Suc j * ?R} = {0..<Suc j * ?R}" by auto
      then show "I (Suc j) s''" using written_Un [OF m m'(2)] m'(1) by (auto simp: I_def)
    qed
  qed
  have "ok (run_all (to_raw_sector buf oob empty_ecc) [0..<n] (s\<lparr>sf_page_cache := ?ff\<rparr>)) (I n)"
  proof (rule run_all_upt)
    show "I 0 (s\<lparr>sf_page_cache := ?ff\<rparr>)" by (auto simp: I_def intro: written_refl)
  qed (rule step)
  then obtain m where run: "mtk_snand_to_raw_page s buf oob empty_ecc = Some (s\<lparr>sf_page_cache := m\<rparr>)"
      and m: "written g {0..<n * ?R} ?ff m"
    by (auto simp: mtk_snand_to_raw_page_def clear sf(1) I_def elim!: okE)
  have "m = map (raw_byte s buf oob empty_ecc) [0..<page_len s]"
    using m by (intro nth_equalityI) (auto simp: written_def raw_byte_def sz g_def)
  then show ?thesis using run by simp
qed

text \<open>Where byte \<open>k\<close> of data, FDM and parity lies in the raw page.\<close>

definition raw_pos :: "nat \<Rightarrow> nat \<Rightarrow> nat \<Rightarrow> nat \<Rightarrow> nat \<Rightarrow> nat" where
  "raw_pos n S F E k =
     (if k < n * S then k div S * (S + F + E) + k mod S
      else let k = k - n * S in
        if k < n * F then k div F * (S + F + E) + S + k mod F
        else let k = k - n * F in k div E * (S + F + E) + S + F + k mod E)"

lemma sector_pos_raw_pos:
  assumes "k < n * (S + F + E)"
  shows "sector_pos n S F E (raw_pos n S F E k) = k"
proof -
  consider "k < n * S" | "n * S \<le> k" "k - n * S < n * F"
    | "n * S \<le> k" "n * F \<le> k - n * S" "k - n * S - n * F < n * E"
    using assms by (fastforce simp: algebra_simps not_less)
  then show ?thesis
  proof cases
    case 1
    then have "k mod S < S" by (cases S) simp_all
    then show ?thesis using 1 by (simp add: raw_pos_def sector_pos_data)
  next
    case 2
    then have "(k - n * S) mod F < F" by (cases F) simp_all
    then show ?thesis using 2 by (simp add: raw_pos_def sector_pos_fdm Let_def)
  next
    case 3
    then have "(k - n * S - n * F) mod E < E" by (cases E) simp_all
    then show ?thesis using 3 by (simp add: raw_pos_def sector_pos_ecc Let_def)
  qed
qed

lemma raw_pos_less:
  assumes "k < n * (S + F + E)"
  shows "raw_pos n S F E k < n * (S + F + E)"
proof -
  have "i * (S + F + E) + x < n * (S + F + E)" if "i < n" "x < S + F + E" for i x
    using that by (rule sector_index)
  note in_range = this
  consider "k < n * S" | "n * S \<le> k" "k - n * S < n * F"
    | "n * S \<le> k" "n * F \<le> k - n * S" "k - n * S - n * F < n * E"
    using assms by (fastforce simp: algebra_simps not_less)
  then show ?thesis
  proof cases
    case 1
    then have "k div S < n" "k mod S < S" by (cases S; simp add: less_mult_imp_div_less)+
    then show ?thesis using 1 in_range [of "k div S" "k mod S"] by (simp add: raw_pos_def)
  next
    case 2
    then have "(k - n * S) div F < n" "(k - n * S) mod F < F"
      by (cases F; simp add: less_mult_imp_div_less)+
    then show ?thesis using 2 in_range [of "(k - n * S) div F" "S + (k - n * S) mod F"]
      by (simp add: raw_pos_def Let_def add.assoc)
  next
    case 3
    then have "(k - n * S - n * F) div E < n" "(k - n * S - n * F) mod E < E"
      by (cases E; simp add: less_mult_imp_div_less)+
    then show ?thesis using 3 in_range [of "(k - n * S - n * F) div E" "S + F + (k - n * S - n * F) mod E"]
      by (simp add: raw_pos_def Let_def add.assoc)
  qed
qed

section \<open>Exchanges in both layouts\<close>

definition exchanged :: "nat \<Rightarrow> nat \<Rightarrow> 'a list \<Rightarrow> 'a list" where
  "exchanged p q m = map (\<lambda>k. m ! exch p q k) [0..<length m]"

lemma length_exchanged [simp]: "length (exchanged p q m) = length m"
  by (simp add: exchanged_def)

lemma nth_exchanged: "k < length m \<Longrightarrow> exchanged p q m ! k = m ! exch p q k"
  by (simp add: exchanged_def)

lemma exchanged_twice:
  "p < length m \<Longrightarrow> q < length m \<Longrightarrow> exchanged p q (exchanged p q m) = m"
  by (rule nth_equalityI) (simp_all add: nth_exchanged exch_less)

lemma swap_cache_eq:
  "unat p < length (sf_page_cache s) \<Longrightarrow> unat q < length (sf_page_cache s) \<Longrightarrow>
   swap_cache p q s = Some (s\<lparr>sf_page_cache := exchanged (unat p) (unat q) (sf_page_cache s)\<rparr>)"
  by (simp add: swap_cache_def do_bm_swap_eq exchanged_def)

text \<open>The exchanged positions: in the raw page, and in data, FDM and parity.\<close>

definition first_fdm :: "nat \<Rightarrow> nat" where "first_fdm S = S"
definition last_fdm :: "nat \<Rightarrow> nat \<Rightarrow> nat \<Rightarrow> nat \<Rightarrow> nat" where
  "last_fdm n S F E = (n - 1) * (S + F + E) + S"

lemma swap_positions:
  assumes "page_format s" and "sizes s = (n, S, F, E)"
  shows "last_fdm n S F E < n * (S + F + E)" "first_fdm S < n * (S + F + E)" "n * S < n * (S + F + E)"
    and "sector_pos n S F E (last_fdm n S F E) = n * S + (n - 1) * F"
    and "sector_pos n S F E (first_fdm S) = n * S"
    and "sector_pos n S F E (n * S) = n * S - (n - 1) * (F + E)"
proof -
  note sf = sizes_facts [OF assms]
  obtain n' where n: "n = Suc n'" using sf(10) by (cases n) simp_all
  show "last_fdm n S F E < n * (S + F + E)" "first_fdm S < n * (S + F + E)" "n * S < n * (S + F + E)"
    using sf(11) by (simp_all add: n last_fdm_def first_fdm_def algebra_simps)
  show "sector_pos n S F E (last_fdm n S F E) = n * S + (n - 1) * F"
    using sf(11) sector_pos_fdm [of 0 F n S E "n - 1"] by (simp add: last_fdm_def)
  show "sector_pos n S F E (first_fdm S) = n * S"
    using sf(11) sector_pos_fdm [of 0 F n S E 0] by (simp add: first_fdm_def)
  have "n * S = n' * (S + F + E) + (S - n' * (F + E))"
    using sf(19) by (simp add: n algebra_simps)
  moreover have "sector_pos n S F E (n' * (S + F + E) + (S - n' * (F + E))) = n * S - n' * (F + E)"
  proof (cases "n' = 0")
    case True
    then show ?thesis using sf(11) sector_pos_fdm [of 0 F n S E 0] by (simp add: n)
  next
    case False
    then have "S - n' * (F + E) < S" using sf(11,12) by simp
    then have "sector_pos n S F E (n' * (S + F + E) + (S - n' * (F + E))) = n' * S + (S - n' * (F + E))"
      by (rule sector_pos_data)
    moreover have "n' * S + (S - n' * (F + E)) = n * S - n' * (F + E)" using sf(19) by (simp add: n)
    ultimately show ?thesis by (rule trans)
  qed
  ultimately show "sector_pos n S F E (n * S) = n * S - (n - 1) * (F + E)" by (simp add: n)
qed

lemma bm_swap_eqs:
  assumes "page_format s" and "sizes s = (n, S, F, E)" and "length (sf_page_cache s) = page_len s"
  defines "c \<equiv> sf_page_cache s" and "N \<equiv> n * (S + F + E)"
  shows "mtk_snand_bm_swap_raw s = Some (s\<lparr>sf_page_cache :=
      (if no_swap s then c else exchanged (last_fdm n S F E) (n * S) c)\<rparr>)"
    and "mtk_snand_fdm_bm_swap_raw s = Some (s\<lparr>sf_page_cache :=
      (if no_swap s then c else exchanged (first_fdm S) (last_fdm n S F E) c)\<rparr>)"
    and "mtk_snand_bm_swap s = Some (s\<lparr>sf_page_cache :=
      (if no_swap s then c
       else exchanged (sector_pos n S F E (last_fdm n S F E)) (sector_pos n S F E (n * S)) c)\<rparr>)"
    and "mtk_snand_fdm_bm_swap s = Some (s\<lparr>sf_page_cache :=
      (if no_swap s then c
       else exchanged (sector_pos n S F E (first_fdm S)) (sector_pos n S F E (last_fdm n S F E)) c)\<rparr>)"
proof -
  note sf = sizes_facts [OF assms(1,2)] and p = swap_positions [OF assms(1,2)]
  have in_cache: "r < length c" if "r < n * (S + F + E)" for r
    using that sf(9) assms(3) by (simp add: c_def)
  note pl = p(1-3) [THEN in_cache]
  note pr = p(1-3) [THEN sector_pos_less, THEN in_cache]
  show "mtk_snand_bm_swap_raw s = Some (s\<lparr>sf_page_cache :=
      (if no_swap s then c else exchanged (last_fdm n S F E) (n * S) c)\<rparr>)"
    using pl unfolding c_def
    by (simp add: mtk_snand_bm_swap_raw_def swap_cache_eq sf(13,16) last_fdm_def)
  show "mtk_snand_fdm_bm_swap_raw s = Some (s\<lparr>sf_page_cache :=
      (if no_swap s then c else exchanged (first_fdm S) (last_fdm n S F E) c)\<rparr>)"
    using pl unfolding c_def
    by (simp add: mtk_snand_fdm_bm_swap_raw_def swap_cache_eq sf(2,16) last_fdm_def first_fdm_def)
  show "mtk_snand_bm_swap s = Some (s\<lparr>sf_page_cache :=
      (if no_swap s then c
       else exchanged (sector_pos n S F E (last_fdm n S F E)) (sector_pos n S F E (n * S)) c)\<rparr>)"
    using pr unfolding p(4-6) c_def
    by (simp add: mtk_snand_bm_swap_def swap_cache_eq sf(17,18))
  show "mtk_snand_fdm_bm_swap s = Some (s\<lparr>sf_page_cache :=
      (if no_swap s then c
       else exchanged (sector_pos n S F E (first_fdm S)) (sector_pos n S F E (last_fdm n S F E)) c)\<rparr>)"
    using pr unfolding p(4-6) c_def
    by (simp add: mtk_snand_fdm_bm_swap_def swap_cache_eq sf(13,18))
qed

lemma sector_pos_exch:
  assumes "p < n * (S + F + E)" "q < n * (S + F + E)" "r < n * (S + F + E)"
  shows "sector_pos n S F E (exch p q r) =
     exch (sector_pos n S F E p) (sector_pos n S F E q) (sector_pos n S F E r)"
  using assms sector_pos_inj [of r n S F E p] sector_pos_inj [of r n S F E q] by (auto simp: exch_def)

text \<open>
  The bytes of a page on the chip that come from the driver: data and FDM, but not parity. A page on
  the chip \<open>m\<close> carries the separated page \<open>c\<close> when it has them in the order of the sectors.
\<close>

definition carried :: "nat \<Rightarrow> nat \<Rightarrow> nat \<Rightarrow> nat \<Rightarrow> nat \<Rightarrow> bool" where
  "carried n S F E r \<longleftrightarrow> r < n * (S + F + E) \<and> r mod (S + F + E) < S + F"

definition carries :: "nat \<Rightarrow> nat \<Rightarrow> nat \<Rightarrow> nat \<Rightarrow> bytes \<Rightarrow> bytes \<Rightarrow> bool" where
  "carries n S F E m c \<longleftrightarrow> (\<forall>r. carried n S F E r \<longrightarrow> m ! r = c ! sector_pos n S F E r)"

lemma carried_less: "carried n S F E r \<Longrightarrow> r < n * (S + F + E)"
  by (simp add: carried_def)

lemma carried_in: "i < n \<Longrightarrow> x < S + F \<Longrightarrow> carried n S F E (i * (S + F + E) + x)"
  using sector_index [of i n x "S + F + E"] by (simp add: carried_def)

lemma carried_cases:
  assumes "carried n S F E r"
  obtains i x where "i < n" "x < S" "r = i * (S + F + E) + x"
    | i x where "i < n" "x < F" "r = i * (S + F + E) + S + x"
proof -
  have r: "r < n * (S + F + E)" "r mod (S + F + E) < S + F" using assms by (simp_all add: carried_def)
  then have i: "r div (S + F + E) < n" by (simp add: less_mult_imp_div_less)
  have e: "r = r div (S + F + E) * (S + F + E) + r mod (S + F + E)" by (rule div_mult_mod_eq [symmetric])
  show thesis
  proof (cases "r mod (S + F + E) < S")
    case True
    then show thesis using that(1) [OF i _ e] by simp
  next
    case False
    then have "r = r div (S + F + E) * (S + F + E) + S + (r mod (S + F + E) - S)" "r mod (S + F + E) - S < F"
      using e r(2) by linarith+
    then show thesis using that(2) [OF i] by blast
  qed
qed

lemma swaps_carried:
  assumes "page_format s" and "sizes s = (n, S, F, E)"
  shows "carried n S F E (last_fdm n S F E)" "carried n S F E (first_fdm S)" "carried n S F E (n * S)"
proof -
  note sf = sizes_facts [OF assms]
  obtain n' where n: "n = Suc n'" using sf(10) by (cases n) simp_all
  show "carried n S F E (last_fdm n S F E)" using carried_in [of "n - 1" n S S F E] sf(10,11) by (simp add: last_fdm_def)
  show "carried n S F E (first_fdm S)" using carried_in [of 0 n S S F E] sf(10,11) by (simp add: first_fdm_def)
  have "n * S = n' * (S + F + E) + (S - n' * (F + E))" using sf(19) by (simp add: n algebra_simps)
  then show "carried n S F E (n * S)" using carried_in [of n' n "S - n' * (F + E)" S F E] sf(11) by (simp add: n)
qed

lemma carries_exchanged:
  assumes "carries n S F E m c" and "carried n S F E p" "carried n S F E q"
    and "n * (S + F + E) \<le> length m" "n * (S + F + E) \<le> length c"
  shows "carries n S F E (exchanged p q m) (exchanged (sector_pos n S F E p) (sector_pos n S F E q) c)"
  unfolding carries_def
proof (intro allI impI)
  fix r assume r: "carried n S F E r"
  note less = assms(2,3) [THEN carried_less] carried_less [OF r]
  have "carried n S F E (exch p q r)" using assms(2,3) r by (simp add: exch_def)
  then have "m ! exch p q r = c ! sector_pos n S F E (exch p q r)" using assms(1) by (simp add: carries_def)
  moreover have "sector_pos n S F E r < length c" using sector_pos_less [OF less(3)] assms(5) by simp
  ultimately show "exchanged p q m ! r =
      exchanged (sector_pos n S F E p) (sector_pos n S F E q) c ! sector_pos n S F E r"
    using less assms(4) by (simp add: nth_exchanged sector_pos_exch)
qed

text \<open>Exchanging the marks in the separated page and in the page on the chip keeps the two in step.\<close>

lemma carries_bm_swap:
  assumes f: "page_format s" and sz: "sizes s = (n, S, F, E)" and L: "length c = page_len s" "length m = page_len s"
    and "carries n S F E m c"
  shows "\<exists>c' m'. mtk_snand_bm_swap (s\<lparr>sf_page_cache := c\<rparr>) = Some (s\<lparr>sf_page_cache := c'\<rparr>) \<and>
      mtk_snand_bm_swap_raw (s\<lparr>sf_page_cache := m\<rparr>) = Some (s\<lparr>sf_page_cache := m'\<rparr>) \<and>
      length c' = page_len s \<and> length m' = page_len s \<and> carries n S F E m' c'"
    and "\<exists>c' m'. mtk_snand_fdm_bm_swap (s\<lparr>sf_page_cache := c\<rparr>) = Some (s\<lparr>sf_page_cache := c'\<rparr>) \<and>
      mtk_snand_fdm_bm_swap_raw (s\<lparr>sf_page_cache := m\<rparr>) = Some (s\<lparr>sf_page_cache := m'\<rparr>) \<and>
      length c' = page_len s \<and> length m' = page_len s \<and> carries n S F E m' c'"
proof -
  have fm: "page_format (s\<lparr>sf_page_cache := x\<rparr>)" "sizes (s\<lparr>sf_page_cache := x\<rparr>) = (n, S, F, E)" for x
    using f sz by simp_all
  have N: "n * (S + F + E) \<le> length m" "n * (S + F + E) \<le> length c" using sizes_facts(9) [OF f sz] L by simp_all
  note e = bm_swap_eqs [OF fm [of c]] bm_swap_eqs [OF fm [of m]]
    and p = swaps_carried [OF f sz] and x = carries_exchanged [OF assms(5) _ _ N]
  show "\<exists>c' m'. mtk_snand_bm_swap (s\<lparr>sf_page_cache := c\<rparr>) = Some (s\<lparr>sf_page_cache := c'\<rparr>) \<and>
      mtk_snand_bm_swap_raw (s\<lparr>sf_page_cache := m\<rparr>) = Some (s\<lparr>sf_page_cache := m'\<rparr>) \<and>
      length c' = page_len s \<and> length m' = page_len s \<and> carries n S F E m' c'"
    by (intro exI [of _ "if no_swap s then c else exchanged (sector_pos n S F E (last_fdm n S F E)) (sector_pos n S F E (n * S)) c"]
        exI [of _ "if no_swap s then m else exchanged (last_fdm n S F E) (n * S) m"])
      (use L assms(5) x [OF p(1,3)] in \<open>simp add: e\<close>)
  show "\<exists>c' m'. mtk_snand_fdm_bm_swap (s\<lparr>sf_page_cache := c\<rparr>) = Some (s\<lparr>sf_page_cache := c'\<rparr>) \<and>
      mtk_snand_fdm_bm_swap_raw (s\<lparr>sf_page_cache := m\<rparr>) = Some (s\<lparr>sf_page_cache := m'\<rparr>) \<and>
      length c' = page_len s \<and> length m' = page_len s \<and> carries n S F E m' c'"
    by (intro exI [of _ "if no_swap s then c else exchanged (sector_pos n S F E (first_fdm S)) (sector_pos n S F E (last_fdm n S F E)) c"]
        exI [of _ "if no_swap s then m else exchanged (first_fdm S) (last_fdm n S F E) m"])
      (use L assms(5) x [OF p(2,1)] in \<open>simp add: e\<close>)
qed

section \<open>Reading a raw page\<close>

lemma raw_pos_data: "i < n \<Longrightarrow> x < S \<Longrightarrow> raw_pos n S F E (i * S + x) = i * (S + F + E) + x"
  using sector_index [of i n x S] by (simp add: raw_pos_def)

lemma raw_pos_fdm:
  "i < n \<Longrightarrow> x < F \<Longrightarrow> raw_pos n S F E (n * S + (i * F + x)) = i * (S + F + E) + S + x"
  using sector_index [of i n x F] by (simp add: raw_pos_def Let_def)

lemma raw_pos_ecc:
  "i < n \<Longrightarrow> x < E \<Longrightarrow>
   raw_pos n S F E (n * S + (n * F + i * E + x)) = i * (S + F + E) + S + F + x"
  by (simp add: raw_pos_def Let_def add.assoc)

lemma from_raw_sector_ok:
  assumes "page_format s" and sz: "sizes s = (n, S, F, E)" and i: "i < n"
    and L: "length (sf_page_cache s) = page_len s"
    and w: "wide (n * S) buf" "wide (n * F + n * E) oob"
    and g_def: "\<And>k. g k = sf_page_cache s ! raw_pos n S F E k"
  shows "ok (from_raw_sector s i (buf, oob)) (\<lambda>(buf', oob').
     rel_option (written g {i * S..<Suc i * S}) buf buf' \<and>
     rel_option (written (\<lambda>k. g (n * S + k)) ({i * F..<Suc i * F} \<union> {n * F + i * E..<n * F + Suc i * E}))
       oob oob')"
proof -
  note sf = sizes_facts [OF assms(1) sz]
  let ?R = "S + F + E" and ?c = "sf_page_cache s" and ?h = "\<lambda>k. g (n * S + k)"
  have room: "Suc i * ?R \<le> length ?c"
    using mult_le_mono1 [of "Suc i" n ?R] i sf(9) L by linarith
  have 1: "ok (case buf of None \<Rightarrow> Some None | Some b \<Rightarrow> map_option Some (memcpy b (i * S) ?c (i * ?R) S))
      (rel_option (written g {i * S..<Suc i * S}) buf)"
  proof (cases buf)
    case (Some b)
    have len: "i * S + S \<le> length b"
      using w(1) mult_le_mono1 [of "Suc i" n S] i Some by (simp add: wide_def)
    have "written g {i * S..<i * S + S} b (patch b (i * S) (take S (drop (i * ?R) ?c)))"
      by (rule written_slice) (use len room i in \<open>simp_all add: g_def raw_pos_data\<close>)
    then have "ok (memcpy b (i * S) ?c (i * ?R) S) (written g {i * S..<Suc i * S} b)"
      using len room by (simp add: add.commute)
    then show ?thesis using Some by (auto simp: ok_def)
  qed simp
  have 2: "ok (case oob of None \<Rightarrow> Some None | Some ob \<Rightarrow> do {
        ob \<leftarrow> memcpy ob (i * F) ?c (i * ?R + S) F;
        map_option Some (memcpy ob (n * F + i * E) ?c (i * ?R + S + F) E)})
      (rel_option (written ?h ({i * F..<Suc i * F} \<union> {n * F + i * E..<n * F + Suc i * E})) oob)"
  proof (cases oob)
    case (Some ob)
    have len: "i * F + F \<le> length ob" "n * F + i * E + E \<le> length ob"
      using w(2) mult_le_mono1 [of "Suc i" n F] mult_le_mono1 [of "Suc i" n E] i Some
      by (simp_all add: wide_def)
    let ?ob = "patch ob (i * F) (take F (drop (i * ?R + S) ?c))"
    have f: "written ?h {i * F..<i * F + F} ob ?ob"
      by (rule written_slice) (use len room i in \<open>simp_all add: g_def raw_pos_fdm\<close>)
    have e: "ok (memcpy m (n * F + i * E) ?c (i * ?R + S + F) E)
        (written ?h {n * F + i * E..<n * F + i * E + E} m)" if "length m = length ob" for m
    proof -
      have "written ?h {n * F + i * E..<n * F + i * E + E} m
          (patch m (n * F + i * E) (take E (drop (i * ?R + S + F) ?c)))"
        by (rule written_slice) (use len room i that in \<open>simp_all add: g_def raw_pos_ecc\<close>)
      then show ?thesis using len room that by simp
    qed
    have sets: "{i * F..<Suc i * F} \<union> {n * F + i * E..<n * F + Suc i * E} =
        {i * F..<i * F + F} \<union> {n * F + i * E..<n * F + i * E + E}" by auto
    have "ok (memcpy ?ob (n * F + i * E) ?c (i * ?R + S + F) E)
        (written ?h ({i * F..<Suc i * F} \<union> {n * F + i * E..<n * F + Suc i * E}) ob)"
      unfolding sets
      by (rule ok_mono [OF e written_Un [OF f]]) (rule written_length [OF f])
    then have "ok (do { ob \<leftarrow> memcpy ob (i * F) ?c (i * ?R + S) F;
        memcpy ob (n * F + i * E) ?c (i * ?R + S + F) E })
        (written ?h ({i * F..<Suc i * F} \<union> {n * F + i * E..<n * F + Suc i * E}) ob)"
      unfolding ok_bind ok_memcpy using len room by simp
    then show ?thesis using Some by (auto simp: ok_def Option.bind_eq_Some_conv)
  qed simp
  show ?thesis
    unfolding from_raw_sector_def Let_def split_conv sf(1-6) sf(7) [OF i]
    by (rule ok_bindI [OF 1], rule ok_bindI [OF 2]) simp
qed

lemma written_overlay: "written g {0..<k} b b' \<Longrightarrow> k \<le> length b \<Longrightarrow> b' = overlay b (map g [0..<k])"
  by (rule nth_equalityI) (auto simp: written_def overlay_def nth_append)

text \<open>What mtk_snand_from_raw_page delivers.\<close>

lemma from_raw_page_ok:
  assumes f: "page_format s" and sz: "sizes s = (n, S, F, E)"
    and L: "length (sf_page_cache s) = page_len s"
    and w: "wide (n * S) buf" "wide (n * F + n * E) oob"
    and g_def: "\<And>k. g k = sf_page_cache s ! raw_pos n S F E k"
  shows "mtk_snand_from_raw_page s buf oob =
     Some (map_option (\<lambda>b. overlay b (map g [0..<n * S])) buf,
           map_option (\<lambda>b. overlay b (map (\<lambda>k. g (n * S + k)) [0..<n * F + n * E])) oob)"
proof -
  let ?h = "\<lambda>k. g (n * S + k)"
  let ?O = "\<lambda>j. {0..<j * F} \<union> {n * F..<n * F + j * E}"
  define I where "I = (\<lambda>j (b, ob). rel_option (written g {0..<j * S}) buf b \<and>
      rel_option (written ?h (?O j)) oob ob)"
  have step: "ok (from_raw_sector s j x) (I (Suc j))" if j: "j < n" and I: "I j x" for j x
  proof -
    obtain b ob where x: "x = (b, ob)" by (cases x) auto
    have b: "rel_option (written g {0..<j * S}) buf b" and ob: "rel_option (written ?h (?O j)) oob ob"
      using I by (simp_all add: I_def x)
    have wide: "wide (n * S) b" "wide (n * F + n * E) ob"
      using w b ob by (auto simp: wide_def rel_option_iff written_length split: option.splits)
    have e: "{0..<j * S} \<union> {j * S..<Suc j * S} = {0..<Suc j * S}"
        "?O j \<union> ({j * F..<Suc j * F} \<union> {n * F + j * E..<n * F + Suc j * E}) = ?O (Suc j)" by auto
    show ?thesis
      unfolding x using from_raw_sector_ok [where g = g, OF f sz j L wide g_def]
    proof (rule ok_mono)
      fix y assume y: "case y of (b', ob') \<Rightarrow> rel_option (written g {j * S..<Suc j * S}) b b' \<and>
         rel_option (written ?h ({j * F..<Suc j * F} \<union> {n * F + j * E..<n * F + Suc j * E})) ob ob'"
      obtain b' ob' where yy: "y = (b', ob')" by (cases y) auto
      have "rel_option (written g {0..<Suc j * S}) buf b'"
        using b y yy written_Un [where g = g and A = "{0..<j * S}" and B = "{j * S..<Suc j * S}"]
        unfolding e(1) [symmetric] by (auto simp: option.rel_sel)
      moreover have "rel_option (written ?h (?O (Suc j))) oob ob'"
        using ob y yy written_Un [where g = ?h and A = "?O j"] unfolding e(2) [symmetric]
        by (auto simp: option.rel_sel)
      ultimately show "I (Suc j) y" by (simp add: I_def yy)
    qed
  qed
  have "ok (run_all (from_raw_sector s) [0..<n] (buf, oob)) (I n)"
  proof (rule run_all_upt)
    show "I 0 (buf, oob)" by (auto simp: I_def option.rel_sel intro: written_refl)
  qed (rule step)
  then obtain b ob where run: "mtk_snand_from_raw_page s buf oob = Some (b, ob)" and I: "I n (b, ob)"
    by (auto simp: mtk_snand_from_raw_page_def sizes_facts(1) [OF f sz] elim!: okE)
  have e: "?O n = {0..<n * F + n * E}" by auto
  have "b = map_option (\<lambda>b. overlay b (map g [0..<n * S])) buf"
    using I w(1) by (auto simp: I_def rel_option_iff wide_def dest: written_overlay split: option.splits)
  moreover have "ob = map_option (\<lambda>b. overlay b (map ?h [0..<n * F + n * E])) oob"
    using I w(2) unfolding I_def split_conv e
    by (auto simp: rel_option_iff wide_def dest: written_overlay split: option.splits)
  ultimately show ?thesis using run by simp
qed

end
