(* ===== verification/Snand_Ecc.thy ===== *)
theory Snand_Ecc
  imports Snand_Layout
begin

text \<open>
  The ECC engine of the SPI-NAND controller (mtk-snand-ecc.c): its set-up, the start and stop of the
  encoder and the decoder, the result of a decoding, and the check in software of a sector the
  engine could not correct: a page that was erased may have lost a few bits, and is repaired
  when no more bits than the ECC strength are zero.
\<close>

section \<open>Constants\<close>

definition ECC_ENCCON :: u32 where "ECC_ENCCON = 0"
definition ENC_EN :: u32 where "ENC_EN = BIT 0"
definition ECC_ENCCNFG :: u32 where "ECC_ENCCNFG = 0x4"
definition ENC_MS_S :: nat where "ENC_MS_S = 16"
definition ECC_ENCIDLE :: u32 where "ECC_ENCIDLE = 0xc"
definition ECC_DECCON :: u32 where "ECC_DECCON = 0x100"
definition DEC_EN :: u32 where "DEC_EN = BIT 0"
definition ECC_DECCNFG :: u32 where "ECC_DECCNFG = 0x104"
definition DEC_EMPTY_EN :: u32 where "DEC_EMPTY_EN = BIT 31"
definition DEC_CS_S :: nat where "DEC_CS_S = 16"
definition DEC_CON_S :: nat where "DEC_CON_S = 12"
definition DEC_CON_CORRECT :: u32 where "DEC_CON_CORRECT = 3"
definition ECC_DECIDLE :: u32 where "ECC_DECIDLE = 0x10c"
definition ECC_DECENUM0 :: u32 where "ECC_DECENUM0 = 0x114"
definition ECC_IDLE :: u32 where "ECC_IDLE = BIT 0"
definition ECC_MODE_NFI :: u32 where "ECC_MODE_NFI = 1"
definition ECC_TIMEOUT :: u32 where "ECC_TIMEOUT = 500000"

definition ECC_DECENUM :: "u32 \<Rightarrow> u32" where
  "ECC_DECENUM n = ECC_DECENUM0 + n * 4"

definition mt7622_ecc_caps :: bytes where "mt7622_ecc_caps = [4, 6, 8, 10, 12]"
definition mt7981_ecc_caps :: bytes where "mt7981_ecc_caps = [4, 6, 8, 10, 12, 14, 16, 18, 20, 22, 24]"
definition mt7986_ecc_caps :: bytes where "mt7986_ecc_caps = [4, 6, 8, 10, 12, 14, 16, 18, 20, 22, 24]"

definition mt7622_ecc_regs :: u32 where "mt7622_ecc_regs = 0x11c"
definition mt7981_ecc_regs :: u32 where "mt7981_ecc_regs = 0x124"
definition mt7986_ecc_regs :: u32 where "mt7986_ecc_regs = 0x124"

definition ecc_7622 :: mtk_ecc_soc_data where
  "ecc_7622 = \<lparr>ed_ecc_caps = mt7622_ecc_caps, ed_num_ecc_cap = of_nat (length mt7622_ecc_caps),
     ed_decdone = mt7622_ecc_regs, ed_mode_shift = 4, ed_errnum_bits = 5, ed_errnum_shift = 5\<rparr>"

definition ecc_7981 :: mtk_ecc_soc_data where
  "ecc_7981 = \<lparr>ed_ecc_caps = mt7981_ecc_caps, ed_num_ecc_cap = of_nat (length mt7981_ecc_caps),
     ed_decdone = mt7981_ecc_regs, ed_mode_shift = 5, ed_errnum_bits = 5, ed_errnum_shift = 8\<rparr>"

definition ecc_7986 :: mtk_ecc_soc_data where
  "ecc_7986 = \<lparr>ed_ecc_caps = mt7986_ecc_caps, ed_num_ecc_cap = of_nat (length mt7986_ecc_caps),
     ed_decdone = mt7986_ecc_regs, ed_mode_shift = 5, ed_errnum_bits = 5, ed_errnum_shift = 8\<rparr>"

text \<open>In the order of \<open>enum mtk_snand_soc\<close>: MT7622, MT7629, MT7981, MT7986, MT7988.\<close>

definition mtk_ecc_socs :: "mtk_ecc_soc_data list" where
  "mtk_ecc_socs = [ecc_7622, ecc_7622, ecc_7981, ecc_7986, ecc_7986]"

section \<open>Code\<close>

definition mtk_ecc_poll :: "'h bus \<Rightarrow> u32 \<Rightarrow> u32 \<Rightarrow> 'h mtk_snand \<Rightarrow> int \<times> 'h mtk_snand" where
  "mtk_ecc_poll B reg bits =
     from_hw (bus_ecc_poll16 B reg (\<lambda>val. ucast val AND bits \<noteq> 0) ECC_TIMEOUT)"

definition EBUSY :: int where "EBUSY = 16"

definition mtk_ecc_wait_idle :: "'h bus \<Rightarrow> u32 \<Rightarrow> 'h mtk_snand \<Rightarrow> int \<times> 'h mtk_snand" where
  "mtk_ecc_wait_idle B reg s =
     (let (ret, s) = mtk_ecc_poll B reg ECC_IDLE s
      in if ret \<noteq> 0 then (- EBUSY, s) else (0, s))"

text \<open>
  The loop of mtk_ecc_setup, which looks for the greatest correction capability that fits, from
  the last index down. The index is unsigned: past 0 it wraps to \<open>2 ^ 32 - 1\<close>, and the next access lies
  outside the table.
\<close>

fun ecc_cap_search :: "bytes \<Rightarrow> u32 \<Rightarrow> nat \<Rightarrow> nat option" where
  "ecc_cap_search caps strength i = do {
     c \<leftarrow> load caps i;
     (if ucast c \<le> strength then Some i
      else case i of 0 \<Rightarrow> None | Suc j \<Rightarrow> ecc_cap_search caps strength j)
   }"

declare ecc_cap_search.simps [simp del]

definition mtk_ecc_setup ::
    "'h bus \<Rightarrow> u32 \<Rightarrow> u32 \<Rightarrow> 'h mtk_snand \<Rightarrow> (int \<times> 'h mtk_snand) option" where
  "mtk_ecc_setup B max_ecc_bytes msg_size s = do {
     ed \<leftarrow> load mtk_ecc_socs (sf_soc s);
     let s = s\<lparr>sf_ecc_soc := ed, sf_ecc_parity_bits := of_nat (fls (1 + 8 * msg_size))\<rparr>;
     let ecc_strength = max_ecc_bytes * 8 div sf_ecc_parity_bits s;
     i \<leftarrow> ecc_cap_search (ed_ecc_caps ed) ecc_strength (unat (ed_num_ecc_cap ed - 1));
     let s = s\<lparr>sf_ecc_strength := ucast (ed_ecc_caps ed ! i)\<rparr>;
     let s = s\<lparr>sf_ecc_bytes := (sf_ecc_strength s * sf_ecc_parity_bits s + 7) div 8\<rparr>;
     let s = ecc_write16 B ECC_ENCCON 0 s;
     let (ret, s) = mtk_ecc_wait_idle B ECC_ENCIDLE s;
     (if ret \<noteq> 0 then Some (ret, s)
      else let ecc_msg_bits = msg_size * 8;
               val = push_bit ENC_MS_S ecc_msg_bits OR
                 push_bit (unat (ed_mode_shift ed)) ECC_MODE_NFI OR of_nat i;
               s = ecc_write32 B ECC_ENCCNFG val s;
               s = ecc_write16 B ECC_DECCON 0 s;
               (ret, s) = mtk_ecc_wait_idle B ECC_DECIDLE s
      in if ret \<noteq> 0 then Some (ret, s)
      else let ecc_msg_bits = ecc_msg_bits + sf_ecc_strength s * sf_ecc_parity_bits s;
               val = DEC_EMPTY_EN OR push_bit DEC_CS_S ecc_msg_bits OR
                 push_bit DEC_CON_S DEC_CON_CORRECT OR
                 push_bit (unat (ed_mode_shift ed)) ECC_MODE_NFI OR of_nat i
      in Some (0, ecc_write32 B ECC_DECCNFG val s))
   }"

definition mtk_snand_ecc_encoder_start :: "'h bus \<Rightarrow> 'h mtk_snand \<Rightarrow> int \<times> 'h mtk_snand" where
  "mtk_snand_ecc_encoder_start B s =
     (let (ret, s) = mtk_ecc_wait_idle B ECC_ENCIDLE s;
          s = (if ret \<noteq> 0 then snd (mtk_ecc_wait_idle B ECC_ENCIDLE (ecc_write16 B ECC_ENCCON 0 s)) else s)
      in (0, ecc_write16 B ECC_ENCCON ENC_EN s))"

definition mtk_snand_ecc_encoder_stop :: "'h bus \<Rightarrow> 'h mtk_snand \<Rightarrow> 'h mtk_snand" where
  "mtk_snand_ecc_encoder_stop B s =
     ecc_write16 B ECC_ENCCON 0 (snd (mtk_ecc_wait_idle B ECC_ENCIDLE s))"

definition mtk_snand_ecc_decoder_start :: "'h bus \<Rightarrow> 'h mtk_snand \<Rightarrow> int \<times> 'h mtk_snand" where
  "mtk_snand_ecc_decoder_start B s =
     (let (ret, s) = mtk_ecc_wait_idle B ECC_DECIDLE s;
          s = (if ret \<noteq> 0 then snd (mtk_ecc_wait_idle B ECC_DECIDLE (ecc_write16 B ECC_DECCON 0 s)) else s)
      in (0, ecc_write16 B ECC_DECCON DEC_EN s))"

definition mtk_snand_ecc_decoder_stop :: "'h bus \<Rightarrow> 'h mtk_snand \<Rightarrow> 'h mtk_snand" where
  "mtk_snand_ecc_decoder_stop B s =
     ecc_write16 B ECC_DECCON 0 (snd (mtk_ecc_wait_idle B ECC_DECIDLE s))"

definition mtk_ecc_wait_decoder_done :: "'h bus \<Rightarrow> 'h mtk_snand \<Rightarrow> int \<times> 'h mtk_snand" where
  "mtk_ecc_wait_decoder_done B s =
     (let step_mask = ucast (push_bit (unat (sf_ecc_steps s)) 1 - 1 :: u32) :: u16
      in from_hw (bus_ecc_poll16 B (ed_decdone (sf_ecc_soc s))
           (\<lambda>val. val AND step_mask = step_mask) ECC_TIMEOUT) s)"

text \<open>The body of the loop of mtk_ecc_check_decode_error.\<close>

definition decode_error_step ::
    "'h bus \<Rightarrow> nat \<Rightarrow> int \<times> 'h mtk_snand \<Rightarrow> (int \<times> 'h mtk_snand) option" where
  "decode_error_step B i = (\<lambda>(ret, s).
     let errnum_shift = unat (ed_errnum_shift (sf_ecc_soc s));
         errnum_mask = push_bit (unat (ed_errnum_bits (sf_ecc_soc s))) 1 - 1;
         regi = i div 4;
         fi = i mod 4;
         (errnum, s) = ecc_read32 B (ECC_DECENUM (of_nat regi)) s;
         errnum = drop_bit (fi * errnum_shift) errnum AND errnum_mask
     in if errnum \<le> sf_ecc_strength s
        then do { bf \<leftarrow> store (sf_sect_bf s) i (uint errnum); Some (ret, s\<lparr>sf_sect_bf := bf\<rparr>) }
        else do { bf \<leftarrow> store (sf_sect_bf s) i (- 1); Some (- EBADMSG, s\<lparr>sf_sect_bf := bf\<rparr>) })"

definition mtk_ecc_check_decode_error :: "'h bus \<Rightarrow> 'h mtk_snand \<Rightarrow> (int \<times> 'h mtk_snand) option" where
  "mtk_ecc_check_decode_error B s =
     run_all (decode_error_step B) [0..<unat (sf_ecc_steps s)] (0, s)"

text \<open>
  Zero bits of a buffer: byte by byte up to the first address that is a multiple of four, then
  by words, then the rest. An \<open>Inl\<close> is the error return, an \<open>Inr\<close> the count.
\<close>

definition byte_flips :: "u8 \<Rightarrow> u32" where
  "byte_flips b = 8 - hweight8 b"

fun flips_head :: "u32 \<Rightarrow> nat \<Rightarrow> bytes \<Rightarrow> u32 \<Rightarrow> int + (bytes \<times> u32)" where
  "flips_head strength addr [] bitflips = Inr ([], bitflips)"
| "flips_head strength addr (b # bs) bitflips =
     (if addr mod 4 = 0 then Inr (b # bs, bitflips)
      else let bitflips = bitflips + byte_flips b
           in if bitflips > strength then Inl (- EBADMSG)
              else flips_head strength (addr + 1) bs bitflips)"

fun flips_words :: "u32 \<Rightarrow> bytes \<Rightarrow> u32 \<Rightarrow> int + (bytes \<times> u32)" where
  "flips_words strength (a # b # c # d # bs) bitflips =
     (let w = rd32 [a, b, c, d] 0;
          bitflips = (if w \<noteq> - 1 then bitflips + (32 - hweight32 w) else bitflips)
      in if bitflips > strength then Inl (- EBADMSG) else flips_words strength bs bitflips)"
| "flips_words strength bs bitflips = Inr (bs, bitflips)"

fun flips_tail :: "u32 \<Rightarrow> bytes \<Rightarrow> u32 \<Rightarrow> int + u32" where
  "flips_tail strength [] bitflips = Inr bitflips"
| "flips_tail strength (b # bs) bitflips =
     (let bitflips = bitflips + byte_flips b
      in if bitflips > strength then Inl (- EBADMSG) else flips_tail strength bs bitflips)"

definition mtk_ecc_check_buf_bitflips :: "u32 \<Rightarrow> nat \<Rightarrow> bytes \<Rightarrow> u32 \<Rightarrow> int" where
  "mtk_ecc_check_buf_bitflips strength addr buf bitflips =
     (case flips_head strength addr buf bitflips of
        Inl e \<Rightarrow> e
      | Inr (buf, bitflips) \<Rightarrow>
          (case flips_words strength buf bitflips of
             Inl e \<Rightarrow> e
           | Inr (buf, bitflips) \<Rightarrow>
               (case flips_tail strength buf bitflips of Inl e \<Rightarrow> e | Inr bitflips \<Rightarrow> sint bitflips)))"

definition mtk_ecc_check_parity_bitflips :: "u32 \<Rightarrow> nat \<Rightarrow> bytes \<Rightarrow> u32 \<Rightarrow> u32 \<Rightarrow> int option" where
  "mtk_ecc_check_parity_bitflips strength addr buf nbits bitflips = do {
     let len = drop_bit 3 nbits;
     let nbits = nbits AND 7;
     data \<leftarrow> slice buf 0 (unat len);
     let rc = mtk_ecc_check_buf_bitflips strength addr data bitflips;
     (if nbits = 0 \<or> rc < 0 then Some rc
      else do {
        b \<leftarrow> load buf (unat len);
        let bitflips = word_of_int rc + of_nat (length (filter (\<lambda>i. \<not> bit b i) [0..<unat nbits]));
        Some (if bitflips > strength then - EBADMSG else sint bitflips)
      })
   }"

definition mtk_ecc_reset_parity :: "bytes \<Rightarrow> nat \<Rightarrow> u32 \<Rightarrow> bytes option" where
  "mtk_ecc_reset_parity m off nbits = do {
     let len = unat (drop_bit 3 nbits);
     let nbits = nbits AND 7;
     m \<leftarrow> memset m off 0xff len;
     (if nbits \<noteq> 0
      then do {
        b \<leftarrow> load m (off + len);
        store m (off + len) (b OR ucast (GENMASK (unat nbits - 1) 0))
      }
      else Some m)
   }"

definition mtk_ecc_fixup_empty_sector :: "u32 \<Rightarrow> 'h mtk_snand \<Rightarrow> (int \<times> 'h mtk_snand) option" where
  "mtk_ecc_fixup_empty_sector sect s = do {
     let ecc_bytes = ecc_room s;
     let oob = unat (sf_writesize s);
     let parity_bits = of_nat (fls (sector_size s * 8));
     let ecc_bits = sf_ecc_strength s * parity_bits;
     let data_ptr = unat (sect * sector_size s);
     let fdm_ptr = oob + unat (sect * fdm_size s);
     let ecc_ptr = oob + unat (sf_ecc_steps s * fdm_size s) + unat (sect * ecc_bytes);
     let check = (\<lambda>ptr. mtk_ecc_check_buf_bitflips (sf_ecc_strength s) (sf_page_addr s + ptr));
     dat \<leftarrow> slice (sf_page_cache s) data_ptr (unat (sector_size s));
     let bitflips = check data_ptr dat 0;
     (if bitflips < 0 then Some (- EBADMSG, s)
      else do {
        fdm \<leftarrow> slice (sf_page_cache s) fdm_ptr (unat (fdm_ecc_size s));
        let bitflips = check fdm_ptr fdm (word_of_int bitflips);
        (if bitflips < 0 then Some (- EBADMSG, s)
         else do {
           bitflips \<leftarrow> mtk_ecc_check_parity_bitflips (sf_ecc_strength s) (sf_page_addr s + ecc_ptr)
             (drop ecc_ptr (sf_page_cache s)) ecc_bits (word_of_int bitflips);
           (if bitflips < 0 then Some (- EBADMSG, s)
            else if bitflips = 0 then Some (0, s)
            else do {
              m \<leftarrow> memset (sf_page_cache s) data_ptr 0xff (unat (sector_size s));
              m \<leftarrow> memset m fdm_ptr 0xff (unat (fdm_ecc_size s));
              m \<leftarrow> mtk_ecc_reset_parity m ecc_ptr ecc_bits;
              Some (bitflips, s\<lparr>sf_page_cache := m\<rparr>)
            })
         })
      })
   }"

section \<open>The bit-flip count\<close>

text \<open>The reference: the number of zero bits of a byte and of a buffer.\<close>

definition zeros :: "u8 \<Rightarrow> nat" where
  "zeros b = length (filter (\<lambda>i. \<not> bit b i) [0..<8])"

definition zero_bits :: "bytes \<Rightarrow> nat" where
  "zero_bits bs = sum_list (map zeros bs)"

lemma zero_bits_simps [simp]:
  "zero_bits [] = 0" "zero_bits (b # bs) = zeros b + zero_bits bs"
  "zero_bits (xs @ ys) = zero_bits xs + zero_bits ys"
  by (simp_all add: zero_bits_def)

lemma length_filter_not: "length (filter (\<lambda>x. \<not> P x) xs) = length xs - length (filter P xs)"
  using sum_length_filter_compl [of P xs] by simp

lemma zeros_le: "zeros b \<le> 8"
  using length_filter_le [of "\<lambda>i. \<not> bit b i" "[0..<8]"] by (simp add: zeros_def)

lemma zero_bits_le: "zero_bits bs \<le> 8 * length bs"
proof (induction bs)
  case (Cons b bs)
  then show ?case using zeros_le [of b] by simp
qed simp

lemma byte_flips_eq: "byte_flips b = of_nat (zeros b)"
proof -
  have "length (filter (bit b) [0..<8]) \<le> 8" using length_filter_le [of "bit b" "[0..<8]"] by simp
  then show ?thesis by (simp add: byte_flips_def hweight8_def zeros_def length_filter_not)
qed

lemma bit_beyond: "8 \<le> j \<Longrightarrow> \<not> bit (x :: u8) j"
  using bit_imp_le_length [of x j] by auto

lemma bit_rd32_iff:
  assumes "j < 32"
  shows "bit (rd32 [a, b, c, d] 0) j \<longleftrightarrow>
     bit a j \<or> 8 \<le> j \<and> bit b (j - 8) \<or> 16 \<le> j \<and> bit c (j - 16) \<or> 24 \<le> j \<and> bit d (j - 24)"
proof -
  have n: "[a, b, c, d] ! 0 = a" "[a, b, c, d] ! (0 + 1) = b" "[a, b, c, d] ! (0 + 2) = c"
      "[a, b, c, d] ! (0 + 3) = d" by simp_all
  consider "j < 8" | "8 \<le> j" "j < 16" | "16 \<le> j" "j < 24" | "24 \<le> j" using assms by linarith
  then show ?thesis
    unfolding rd32_def n bit_or_iff bit_push_bit_iff bit_word_ucast_iff
    using assms by cases (simp_all add: possible_bit_word bit_beyond less_diff_conv2)
qed

lemma bit_rd32:
  assumes "i < 8"
  shows "bit (rd32 [a, b, c, d] 0) i = bit a i" "bit (rd32 [a, b, c, d] 0) (8 + i) = bit b i"
    "bit (rd32 [a, b, c, d] 0) (16 + i) = bit c i" "bit (rd32 [a, b, c, d] 0) (24 + i) = bit d i"
  using assms by (simp_all add: bit_rd32_iff bit_beyond)
lemma word_flips_eq:
  "32 - hweight32 (rd32 [a, b, c, d] 0) = of_nat (zeros a + zeros b + zeros c + zeros d)"
proof -
  let ?w = "rd32 [a, b, c, d] 0"
  have seg: "length (filter (bit ?w) [m..<m + 8]) = length (filter (bit x) [0..<8])"
    if "\<And>i. i < 8 \<Longrightarrow> bit ?w (m + i) = bit x i" for m x
  proof -
    have "[m..<m + 8] = map (\<lambda>i. m + i) [0..<8]" by (rule nth_equalityI) simp_all
    then have "length (filter (bit ?w) [m..<m + 8]) = length (filter (\<lambda>i. bit ?w (m + i)) [0..<8])"
      by (simp only: filter_map length_map o_def)
    also have "\<dots> = length (filter (bit x) [0..<8])"
      by (rule arg_cong [where f = length], rule filter_cong) (simp_all add: that)
    finally show ?thesis .
  qed
  have "[0..<32::nat] = [0..<0 + 8] @ [8..<8 + 8] @ [16..<16 + 8] @ [24..<24 + 8]"
    by (simp add: upt_conv_Cons)
  then have h: "length (filter (bit ?w) [0..<32]) = length (filter (bit a) [0..<8]) +
      length (filter (bit b) [0..<8]) + length (filter (bit c) [0..<8]) + length (filter (bit d) [0..<8])"
    using seg [of 0 a] seg [of 8 b] seg [of 16 c] seg [of 24 d] bit_rd32 [of _ a b c d]
    by (simp only: filter_append length_append) simp
  have le: "length (filter (bit x) [0..<8]) \<le> 8" for x :: u8
    using length_filter_le [of "bit x" "[0..<8]"] by simp
  have z: "zeros x = 8 - length (filter (bit x) [0..<8])" for x
    by (simp add: zeros_def length_filter_not)
  have "(of_nat (32 - length (filter (bit ?w) [0..<32])) :: u32) = 32 - hweight32 ?w"
    using le [of a] le [of b] le [of c] le [of d] by (simp add: h hweight32_def of_nat_diff)
  moreover have "32 - length (filter (bit ?w) [0..<32]) = zeros a + zeros b + zeros c + zeros d"
    using le [of a] le [of b] le [of c] le [of d] by (simp add: h z)
  ultimately show ?thesis by simp
qed

definition weak :: "u32 \<Rightarrow> bool" where
  "weak strength \<longleftrightarrow> unat strength < 2 ^ 30"

lemma unat_add_flips:
  fixes bf :: u32
  assumes "weak strength" "unat bf \<le> unat strength" "k \<le> 32"
  shows "unat (bf + of_nat k) = unat bf + k"
proof -
  have k: "unat (of_nat k :: u32) = k" using assms(3) by (simp add: unat_of_nat)
  then have "unat (bf + of_nat k) = unat bf + unat (of_nat k :: u32)"
    using assms unat_add_u32 [of bf "of_nat k"] by (simp add: weak_def)
  then show ?thesis by (simp only: k)
qed

lemma flips_head_ok:
  assumes "weak strength" and "unat bf \<le> unat strength"
  shows "case flips_head strength addr bs bf of
      Inl e \<Rightarrow> e = - EBADMSG \<and> unat strength < unat bf + zero_bits bs
    | Inr (rest, bf') \<Rightarrow> unat bf' + zero_bits rest = unat bf + zero_bits bs \<and> unat bf' \<le> unat strength"
  using assms(2)
proof (induction bs arbitrary: addr bf)
  case (Cons b bs)
  have add: "unat (bf + byte_flips b) = unat bf + zeros b"
    using unat_add_flips [OF assms(1) Cons.prems] zeros_le [of b] by (simp add: byte_flips_eq)
  consider "addr mod 4 = 0" | "addr mod 4 \<noteq> 0" "bf + byte_flips b > strength"
    | "addr mod 4 \<noteq> 0" "bf + byte_flips b \<le> strength" by fastforce
  then show ?case
  proof cases
    case 3
    then have "unat (bf + byte_flips b) \<le> unat strength" by (simp add: word_le_nat_alt)
    from Cons.IH [OF this, of "addr + 1"] show ?thesis
      using 3 by (simp add: add Let_def not_less [symmetric] add.assoc split: sum.splits prod.splits)
  qed (use Cons.prems add in \<open>simp_all add: Let_def word_less_nat_alt\<close>)
qed simp

lemma flips_words_ok:
  assumes "weak strength" and "unat bf \<le> unat strength"
  shows "case flips_words strength bs bf of
      Inl e \<Rightarrow> e = - EBADMSG \<and> unat strength < unat bf + zero_bits bs
    | Inr (rest, bf') \<Rightarrow> unat bf' + zero_bits rest = unat bf + zero_bits bs \<and> unat bf' \<le> unat strength"
  using assms(2)
proof (induction bs arbitrary: bf rule: bytes_to_words.induct)
  case (1 a b c d bs)
  let ?k = "zeros a + zeros b + zeros c + zeros d" and ?w = "rd32 [a, b, c, d] 0"
  define bf1 where "bf1 = (if ?w \<noteq> - 1 then bf + (32 - hweight32 ?w) else bf)"
  have "?w = - 1 \<Longrightarrow> zeros a = 0 \<and> zeros b = 0 \<and> zeros c = 0 \<and> zeros d = 0"
    using bit_rd32 [of _ a b c d] by (simp add: zeros_def)
  then have "bf1 = bf + of_nat ?k" by (auto simp: bf1_def word_flips_eq)
  then have add: "unat bf1 = unat bf + ?k"
    using unat_add_flips [OF assms(1) 1(2), of ?k] zeros_le [of a] zeros_le [of b] zeros_le [of c]
      zeros_le [of d] by simp
  have step: "flips_words strength (a # b # c # d # bs) bf =
      (if bf1 > strength then Inl (- EBADMSG) else flips_words strength bs bf1)"
    by (simp add: bf1_def)
  show ?case
  proof (cases "bf1 > strength")
    case True
    then show ?thesis using add by (simp only: step if_True) (simp add: word_less_nat_alt)
  next
    case False
    then have "unat bf1 \<le> unat strength" by (simp add: word_le_nat_alt not_less)
    from 1(1) [OF this] show ?thesis
      using False by (simp only: step if_False) (simp add: add add.assoc split: sum.splits prod.splits)
  qed
qed simp_all

lemma flips_tail_ok:
  assumes "weak strength" and "unat bf \<le> unat strength"
  shows "case flips_tail strength bs bf of
      Inl e \<Rightarrow> e = - EBADMSG \<and> unat strength < unat bf + zero_bits bs
    | Inr bf' \<Rightarrow> unat bf' = unat bf + zero_bits bs \<and> unat bf' \<le> unat strength"
  using assms(2)
proof (induction bs arbitrary: bf)
  case (Cons b bs)
  have add: "unat (bf + byte_flips b) = unat bf + zeros b"
    using unat_add_flips [OF assms(1) Cons.prems] zeros_le [of b] by (simp add: byte_flips_eq)
  show ?case
  proof (cases "bf + byte_flips b > strength")
    case True
    then show ?thesis using add by (simp add: Let_def word_less_nat_alt)
  next
    case False
    then have "unat (bf + byte_flips b) \<le> unat strength" by (simp add: word_le_nat_alt not_less)
    from Cons.IH [OF this] show ?thesis
      using False by (simp add: add Let_def add.assoc split: sum.splits)
  qed
qed simp

lemma sint_of_small:
  assumes "unat (w :: u32) < 2 ^ 31"
  shows "sint w = int (unat w)"
proof -
  have "int (unat w) < int (2 ^ 31)" using assms by (simp only: of_nat_less_iff)
  then have u: "uint w < 2 ^ 31" by simp
  have "sint w = signed_take_bit 31 (uint w)" by (simp add: sint_uint)
  also have "\<dots> = uint w"
    by (rule signed_take_bit_int_eq_self [OF _ u]) (rule order_trans [OF _ unsigned_greater_eq], simp)
  finally show ?thesis by simp
qed

text \<open>
  The count of mtk_ecc_check_buf_bitflips is that of the reference, wherever the buffer lies and
  however many of its bytes are read as words.
\<close>

lemma check_buf_bitflips_eq:
  assumes "weak strength" and "unat bf \<le> unat strength"
  shows "mtk_ecc_check_buf_bitflips strength addr buf bf =
     (if unat bf + zero_bits buf \<le> unat strength then int (unat bf + zero_bits buf) else - EBADMSG)"
proof (cases "flips_head strength addr buf bf")
  case (Inl e)
  then show ?thesis using flips_head_ok [OF assms, where addr = addr and bs = buf]
    by (simp add: mtk_ecc_check_buf_bitflips_def)
next
  case (Inr x)
  then obtain b1 bf1 where h: "flips_head strength addr buf bf = Inr (b1, bf1)" by (cases x) auto
  then have 1: "unat bf1 + zero_bits b1 = unat bf + zero_bits buf" "unat bf1 \<le> unat strength"
    using flips_head_ok [OF assms, where addr = addr and bs = buf] by simp_all
  show ?thesis
  proof (cases "flips_words strength b1 bf1")
    case (Inl e)
    then show ?thesis using flips_words_ok [OF assms(1) 1(2), where bs = b1] 1(1)
      by (simp add: mtk_ecc_check_buf_bitflips_def h)
  next
    case (Inr y)
    then obtain b2 bf2 where w: "flips_words strength b1 bf1 = Inr (b2, bf2)" by (cases y) auto
    then have 2: "unat bf2 + zero_bits b2 = unat bf1 + zero_bits b1" "unat bf2 \<le> unat strength"
      using flips_words_ok [OF assms(1) 1(2), where bs = b1] by simp_all
    have small: "unat strength < 2 ^ 31" using assms(1) by (simp add: weak_def)
    show ?thesis
      using flips_tail_ok [OF assms(1) 2(2), where bs = b2] 1(1) 2(1) small
      by (auto simp: mtk_ecc_check_buf_bitflips_def h w sint_of_small split: sum.splits)
  qed
qed

section \<open>The repair of an erased sector\<close>

text \<open>Bit \<open>q\<close> of a buffer: bit \<open>q mod 8\<close> of byte \<open>q div 8\<close>.\<close>

definition buf_bit :: "bytes \<Rightarrow> nat \<Rightarrow> bool" where
  "buf_bit m q = bit (m ! (q div 8)) (q mod 8)"

definition clear_bits :: "bytes \<Rightarrow> nat set \<Rightarrow> nat set" where
  "clear_bits m A = {q \<in> A. \<not> buf_bit m q}"

lemma clear_bits_Un: "clear_bits m (A \<union> B) = clear_bits m A \<union> clear_bits m B"
  by (auto simp: clear_bits_def)

lemma finite_clear_bits: "finite A \<Longrightarrow> finite (clear_bits m A)"
  by (simp add: clear_bits_def)

lemma card_clear_Un:
  "finite A \<Longrightarrow> finite B \<Longrightarrow> A \<inter> B = {} \<Longrightarrow>
   card (clear_bits m (A \<union> B)) = card (clear_bits m A) + card (clear_bits m B)"
  unfolding clear_bits_Un
  by (rule card_Un_disjoint) (auto simp: clear_bits_def)

lemma card_filter_upt: "card {q \<in> {a..<a + n}. P q} = length (filter (\<lambda>i. P (a + i)) [0..<n])"
proof -
  have "{q \<in> {a..<a + n}. P q} = (\<lambda>i. a + i) ` set (filter (\<lambda>i. P (a + i)) [0..<n])"
    by (auto simp: image_iff le_iff_add)
  then have "card {q \<in> {a..<a + n}. P q} = card (set (filter (\<lambda>i. P (a + i)) [0..<n]))"
    by (simp add: card_image inj_on_def)
  then show ?thesis using distinct_card [of "filter (\<lambda>i. P (a + i)) [0..<n]"] by simp
qed

lemma card_clear_byte:
  assumes "k \<le> 8"
  shows "card (clear_bits m {8 * j..<8 * j + k}) = length (filter (\<lambda>i. \<not> bit (m ! j) i) [0..<k])"
proof -
  have "buf_bit m (8 * j + i) = bit (m ! j) i" if "i < k" for i
    using that assms by (simp add: buf_bit_def)
  then show ?thesis
    unfolding clear_bits_def card_filter_upt
    by (intro arg_cong [where f = length] filter_cong) auto
qed

lemma zero_bits_slice:
  "off + k \<le> length m \<Longrightarrow>
   zero_bits (take k (drop off m)) = card (clear_bits m {8 * off..<8 * (off + k)})"
proof (induction k)
  case 0
  then show ?case by (simp add: clear_bits_def)
next
  case (Suc k)
  have "take (Suc k) (drop off m) = take k (drop off m) @ [m ! (off + k)]"
    using Suc.prems by (simp add: take_Suc_conv_app_nth)
  then have "zero_bits (take (Suc k) (drop off m)) =
      card (clear_bits m {8 * off..<8 * (off + k)}) + card (clear_bits m {8 * (off + k)..<8 * (off + k) + 8})"
    using Suc card_clear_byte [of 8 m "off + k"] by (simp add: zeros_def)
  also have "\<dots> = card (clear_bits m ({8 * off..<8 * (off + k)} \<union> {8 * (off + k)..<8 * (off + k) + 8}))"
    by (simp add: card_clear_Un)
  also have "{8 * off..<8 * (off + k)} \<union> {8 * (off + k)..<8 * (off + k) + 8} = {8 * off..<8 * (off + Suc k)}"
    by auto
  finally show ?case .
qed

lemma and_7: "w AND 7 = w mod (8 :: u32)"
  using take_bit_eq_mask [of 3 w] by (simp add: take_bit_eq_mod mask_eq_exp_minus_1)

text \<open>The bits that follow one another from byte \<open>off\<close> on.\<close>

lemma check_parity_bitflips_ok:
  assumes w: "weak strength" "unat bf \<le> unat strength"
    and room: "8 * off + unat nbits \<le> 8 * length m"
  defines "z \<equiv> unat bf + card (clear_bits m {8 * off..<8 * off + unat nbits})"
  shows "mtk_ecc_check_parity_bitflips strength addr (drop off m) nbits bf =
     Some (if z \<le> unat strength then int z else - EBADMSG)"
proof -
  let ?len = "unat nbits div 8" and ?k = "unat nbits mod 8"
  have len: "unat (drop_bit 3 nbits) = ?len" by (simp add: drop_bit_eq_div unat_div_distrib)
  have k: "unat (nbits AND 7) = ?k" by (simp add: and_7 unat_mod_distrib)
  have k0: "nbits AND 7 = 0 \<longleftrightarrow> ?k = 0" using k by (metis unat_eq_0)
  have fit: "off + ?len \<le> length m" "?k \<noteq> 0 \<Longrightarrow> off + ?len < length m"
  proof -
    have "unat nbits = 8 * ?len + ?k" by simp
    then show "off + ?len \<le> length m" "?k \<noteq> 0 \<Longrightarrow> off + ?len < length m" using room by linarith+
  qed
  let ?z1 = "unat bf + card (clear_bits m {8 * off..<8 * (off + ?len)})"
  have sl: "slice (drop off m) 0 ?len = Some (take ?len (drop off m))"
    using fit(1) by (simp add: slice_def)
  have rc: "mtk_ecc_check_buf_bitflips strength addr (take ?len (drop off m)) bf =
      (if ?z1 \<le> unat strength then int ?z1 else - EBADMSG)"
    using check_buf_bitflips_eq [OF w] zero_bits_slice [OF fit(1)] by simp
  have z: "z = ?z1 + length (filter (\<lambda>i. \<not> bit (m ! (off + ?len)) i) [0..<?k])"
  proof -
    have "{8 * off..<8 * off + unat nbits} =
        {8 * off..<8 * (off + ?len)} \<union> {8 * (off + ?len)..<8 * (off + ?len) + ?k}"
      by auto
    then show ?thesis
      using card_clear_byte [of ?k m "off + ?len"] by (simp add: z_def card_clear_Un)
  qed
  have small: "unat strength < 2 ^ 30" using w(1) by (simp add: weak_def)
  show ?thesis
  proof (cases "?k = 0 \<or> unat strength < ?z1")
    case True
    then show ?thesis
      using z by (auto simp: mtk_ecc_check_parity_bitflips_def len sl rc k0 EBADMSG_def)
  next
    case False
    let ?f = "length (filter (\<lambda>i. \<not> bit (m ! (off + ?len)) i) [0..<?k])"
    have "?f \<le> ?k" using length_filter_le [of "\<lambda>i. \<not> bit (m ! (off + ?len)) i" "[0..<?k]"] by simp
    then have f: "?f \<le> 32" by linarith
    define y where "y = (of_nat ?z1 :: u32)"
    define r where "r = int ?z1"
    have r: "mtk_ecc_check_buf_bitflips strength addr (take ?len (drop off m)) bf = r"
      using False by (simp add: rc r_def)
    have r0: "\<not> r < 0" unfolding r_def by (rule leD [OF of_nat_0_le_iff])
    have ry: "word_of_int r = y" by (simp only: r_def y_def of_int_of_nat_eq)
    have uy: "unat y = ?z1" unfolding y_def by (rule unat_of_nat_u32) (use False small in simp)
    have add: "unat (y + of_nat ?f) = z"
      using unat_add_flips [OF w(1) _ f, of y] False uy z by simp
    have ld: "load (drop off m) ?len = Some (m ! (off + ?len))" using fit(2) False by (simp add: load_def)
    have "strength < y + of_nat ?f \<longleftrightarrow> unat strength < z" using add by (simp add: word_less_nat_alt)
    moreover have "sint (y + of_nat ?f) = int z" if "z \<le> unat strength"
      using sint_of_small [of "y + of_nat ?f", unfolded add] that small by simp
    moreover have "mtk_ecc_check_parity_bitflips strength addr (drop off m) nbits bf =
        Some (if strength < y + of_nat ?f then - EBADMSG else sint (y + of_nat ?f))"
      using False r r0 ry k0 by (simp add: mtk_ecc_check_parity_bitflips_def Let_def len sl k ld)
    ultimately show ?thesis by (simp add: not_less)
  qed
qed

text \<open>\<open>m'\<close> is \<open>m\<close> with the bits of \<open>A\<close> set.\<close>

definition bits_set :: "nat set \<Rightarrow> bytes \<Rightarrow> bytes \<Rightarrow> bool" where
  "bits_set A m m' \<longleftrightarrow>
     length m' = length m \<and> (\<forall>q < 8 * length m. buf_bit m' q \<longleftrightarrow> q \<in> A \<or> buf_bit m q)"

lemma bits_set_Un: "bits_set A m m' \<Longrightarrow> bits_set B m' m'' \<Longrightarrow> bits_set (A \<union> B) m m''"
  by (auto simp: bits_set_def)

lemma bits_set_length: "bits_set A m m' \<Longrightarrow> length m' = length m"
  by (simp add: bits_set_def)

lemma memset_bits:
  assumes "off + n \<le> length m"
  shows "ok (memset m off 0xff n) (bits_set {8 * off..<8 * (off + n)} m)"
proof -
  have ff: "bit (0xff :: u8) b" if "b < 8" for b
  proof -
    have "(0xff :: u8) = - 1" by simp
    then show ?thesis using that by (simp only: bit_minus_1_iff) (simp add: possible_bit_word)
  qed
  have "buf_bit (patch m off (replicate n 0xff)) q \<longleftrightarrow> q \<in> {8 * off..<8 * (off + n)} \<or> buf_bit m q"
    if q: "q < 8 * length m" for q
  proof -
    have k: "q div 8 < length m" using q by (simp add: less_mult_imp_div_less)
    have "patch m off (replicate n 0xff) ! (q div 8) =
        (if off \<le> q div 8 \<and> q div 8 < off + n then 0xff else m ! (q div 8))"
      using nth_patch [OF _ k, of off "replicate n 0xff"] assms by (auto split: if_splits)
    moreover have "off \<le> q div 8 \<and> q div 8 < off + n \<longleftrightarrow> q \<in> {8 * off..<8 * (off + n)}"
      by auto
    moreover have "bit (0xff :: u8) (q mod 8)" by (rule ff) simp
    ultimately show ?thesis by (auto simp: buf_bit_def)
  qed
  then show ?thesis using assms by (simp add: bits_set_def)
qed

lemma store_bits:
  assumes "j < length m" "k \<le> 8"
  shows "bits_set {8 * j..<8 * j + k} m (m[j := m ! j OR ucast (mask k :: u32)])"
proof -
  have "buf_bit (m[j := m ! j OR ucast (mask k :: u32)]) q \<longleftrightarrow> q \<in> {8 * j..<8 * j + k} \<or> buf_bit m q"
    if q: "q < 8 * length m" for q
  proof (cases "q div 8 = j")
    case True
    then have "8 * j \<le> q" "q mod 8 = q - 8 * j" "q mod 8 < 8" by (auto simp: minus_mult_div_eq_mod)
    then show ?thesis
      using True assms by (auto simp: buf_bit_def bit_or_iff bit_word_ucast_iff bit_mask_iff)
  next
    case False
    then have "q \<notin> {8 * j..<8 * j + k}" using assms(2) by auto
    then show ?thesis using False by (auto simp: buf_bit_def nth_list_update)
  qed
  then show ?thesis by (simp add: bits_set_def)
qed

lemma reset_parity_ok:
  assumes "8 * off + unat nbits \<le> 8 * length m"
  shows "ok (mtk_ecc_reset_parity m off nbits) (bits_set {8 * off..<8 * off + unat nbits} m)"
proof -
  let ?len = "unat nbits div 8" and ?k = "unat nbits mod 8"
  have len: "unat (drop_bit 3 nbits) = ?len" by (simp add: drop_bit_eq_div unat_div_distrib)
  have k: "unat (nbits AND 7) = ?k" by (simp add: and_7 unat_mod_distrib)
  have k0: "nbits AND 7 = 0 \<longleftrightarrow> ?k = 0" using k by (metis unat_eq_0)
  have "unat nbits = 8 * ?len + ?k" by simp
  then have fit: "off + ?len \<le> length m" "?k \<noteq> 0 \<Longrightarrow> off + ?len < length m"
    using assms by linarith+
  have set: "{8 * off..<8 * (off + ?len)} \<union> {8 * (off + ?len)..<8 * (off + ?len) + ?k} =
      {8 * off..<8 * off + unat nbits}" by auto
  show ?thesis
    unfolding mtk_ecc_reset_parity_def Let_def len k k0
  proof (rule ok_bindI [OF memset_bits [OF fit(1)]])
    fix m' assume m': "bits_set {8 * off..<8 * (off + ?len)} m m'"
    show "ok (if ?k \<noteq> 0 then do { b \<leftarrow> load m' (off + ?len);
          store m' (off + ?len) (b OR ucast (GENMASK (?k - 1) 0)) } else Some m')
        (bits_set {8 * off..<8 * off + unat nbits} m)"
    proof (cases "?k = 0")
      case True
      then have "{8 * off..<8 * off + unat nbits} = {8 * off..<8 * (off + ?len)}" by auto
      then show ?thesis using True m' by simp
    next
      case False
      have "GENMASK (?k - 1) 0 = mask ?k" using False by (simp add: GENMASK_def)
      moreover have "off + ?len < length m'" using fit(2) False bits_set_length [OF m'] by simp
      ultimately show ?thesis
        using False bits_set_Un [OF m' store_bits [of "off + ?len" m' ?k]]
        by (simp only: set if_True not_False_eq_True) (simp add: ok_bind)
    qed
  qed
qed

text \<open>The number of parity bits of a sector, and the positions of the bits the ECC of a sector covers.\<close>

definition ecc_bits_of :: "'h mtk_snand \<Rightarrow> u32" where
  "ecc_bits_of s = sf_ecc_strength s * of_nat (fls (sector_size s * 8))"

definition covered :: "'h mtk_snand \<Rightarrow> nat \<Rightarrow> nat set" where
  "covered s i = (case sizes s of (n, S, F, E) \<Rightarrow>
     let data = i * S; fdm = n * S + i * F; ecc = n * S + n * F + i * E
     in {8 * data..<8 * (data + S)} \<union> {8 * fdm..<8 * (fdm + unat (fdm_ecc_size s))} \<union>
        {8 * ecc..<8 * ecc + unat (ecc_bits_of s)})"

definition ecc_format :: "'h mtk_snand \<Rightarrow> bool" where
  "ecc_format s \<longleftrightarrow> weak (sf_ecc_strength s) \<and> unat (ecc_bits_of s) \<le> 8 * unat (ecc_room s)"

lemma sector_offsets:
  assumes f: "page_format s" and sz: "sizes s = (n, S, F, E)" and i: "i < n"
  shows "unat (of_nat i * sector_size s) = i * S" "unat (of_nat i * fdm_size s) = i * F"
    "unat (of_nat i * ecc_room s) = i * E"
    "i * S + S \<le> n * S" "i * F + F \<le> n * F" "i * E + E \<le> n * E"
    "n * S + n * F + n * E \<le> page_len s" "unat (fdm_ecc_size s) \<le> F"
proof -
  note sf = sizes_facts [OF f sz]
  show b: "i * S + S \<le> n * S" "i * F + F \<le> n * F" "i * E + E \<le> n * E"
    using mult_le_mono1 [of "Suc i" n S] mult_le_mono1 [of "Suc i" n F] mult_le_mono1 [of "Suc i" n E] i
    by simp_all
  show N: "n * S + n * F + n * E \<le> page_len s" using sf(9) by (simp add: algebra_simps)
  have i': "unat (of_nat i :: u32) = i"
    using i unat_u32_lt [of "sf_ecc_steps s"] sf(1) by (simp add: unat_of_nat)
  show "unat (of_nat i * fdm_size s) = i * F" using sf(8) i .
  have "i * S < 2 ^ 32" "i * E < 2 ^ 32" using b N sf(20) by simp_all
  then show "unat (of_nat i * sector_size s) = i * S" "unat (of_nat i * ecc_room s) = i * E"
    using unat_mul_u32 [of "of_nat i" "sector_size s"] unat_mul_u32 [of "of_nat i" "ecc_room s"]
    by (simp_all add: i' sf(2,5))
  show "unat (fdm_ecc_size s) \<le> F" using page_format_nat(8) [OF f] sf(3) by simp
qed

lemma set_covered:
  assumes "d + k \<le> length m" "f + j \<le> length m" "8 * p + unat nb \<le> 8 * length m"
  shows "ok (do { m \<leftarrow> memset m d 0xff k; m \<leftarrow> memset m f 0xff j; mtk_ecc_reset_parity m p nb })
     (bits_set ({8 * d..<8 * (d + k)} \<union> {8 * f..<8 * (f + j)} \<union> {8 * p..<8 * p + unat nb}) m)"
    (is "ok _ (bits_set (?D \<union> ?F \<union> ?P) m)")
proof (rule ok_bindI [OF memset_bits [OF assms(1)]])
  fix m1 assume m1: "bits_set ?D m m1"
  show "ok (do { m \<leftarrow> memset m1 f 0xff j; mtk_ecc_reset_parity m p nb }) (bits_set (?D \<union> ?F \<union> ?P) m)"
  proof (rule ok_bindI [OF memset_bits [of f j m1]])
    show "f + j \<le> length m1" using assms(2) bits_set_length [OF m1] by simp
    fix m2 assume m2: "bits_set ?F m1 m2"
    have "ok (mtk_ecc_reset_parity m2 p nb) (bits_set ?P m2)"
      using assms(3) bits_set_length [OF m1] bits_set_length [OF m2] by (intro reset_parity_ok) simp
    then show "ok (mtk_ecc_reset_parity m2 p nb) (bits_set (?D \<union> ?F \<union> ?P) m)"
      by (rule ok_mono) (rule bits_set_Un [OF bits_set_Un [OF m1 m2]])
  qed
qed

text \<open>
  The repair of sector \<open>i\<close>: when at most \<open>ecc_strength\<close> of the bits that its ECC covers are zero, their
  number is returned and they are set; otherwise the page cache stays as it is.
\<close>

lemma fixup_empty_sector_ok:
  assumes f: "page_format s" and e: "ecc_format s" and L: "length (sf_page_cache s) = page_len s"
    and i: "i < unat (sf_ecc_steps s)"
  defines "z \<equiv> card (clear_bits (sf_page_cache s) (covered s i))"
  shows "ok (mtk_ecc_fixup_empty_sector (of_nat i) s) (\<lambda>(ret, s').
     if z \<le> unat (sf_ecc_strength s)
     then ret = int z \<and>
       (\<exists>m. s' = s\<lparr>sf_page_cache := m\<rparr> \<and> bits_set (covered s i) (sf_page_cache s) m)
     else ret = - EBADMSG \<and> s' = s)"
proof -
  obtain n S F E where sz: "sizes s = (n, S, F, E)" by (cases "sizes s") auto
  note sf = sizes_facts [OF f sz]
  have i': "i < n" using i sf(1) by simp
  note o = sector_offsets [OF f sz i']
  let ?c = "sf_page_cache s" and ?st = "sf_ecc_strength s" and ?fe = "unat (fdm_ecc_size s)"
    and ?nb = "ecc_bits_of s"
  let ?d = "i * S" and ?f = "n * S + i * F" and ?p = "n * S + n * F + i * E"
  let ?D = "{8 * ?d..<8 * (?d + S)}" and ?F = "{8 * ?f..<8 * (?f + ?fe)}"
    and ?P = "{8 * ?p..<8 * ?p + unat ?nb}"
  have w: "weak ?st" and nb: "unat ?nb \<le> 8 * E" using e sf(5) by (auto simp: ecc_format_def)
  have "?p + E \<le> length ?c" using o(6,7) L by linarith
  then have fit: "?d + S \<le> length ?c" "?f + ?fe \<le> length ?c" "8 * ?p + unat ?nb \<le> 8 * length ?c"
    using o(4-8) nb L by simp_all
  have cov: "covered s i = ?D \<union> ?F \<union> ?P" by (simp add: covered_def sz Let_def)
  define z1 z2 z3 where "z1 = card (clear_bits ?c ?D)" and "z2 = z1 + card (clear_bits ?c ?F)"
    and "z3 = z2 + card (clear_bits ?c ?P)"
  have "(?D \<union> ?F) \<inter> ?P = {}" "?D \<inter> ?F = {}" using o(4-6,8) by auto
  then have z: "z = z3"
    unfolding z_def cov z1_def z2_def z3_def by (subst card_clear_Un; simp add: card_clear_Un)
  have le: "z1 \<le> z2" "z2 \<le> z3" by (simp_all add: z2_def z3_def)
  have small: "unat ?st < 2 ^ 30" using w by (simp add: weak_def)
  have unword: "unat (of_nat k :: u32) = k" if "k \<le> unat ?st" for k
    using that small by (simp add: unat_of_nat)
  have c1: "mtk_ecc_check_buf_bitflips ?st addr (take S (drop ?d ?c)) 0 =
      (if z1 \<le> unat ?st then int z1 else - EBADMSG)" for addr
    using check_buf_bitflips_eq [OF w, of 0 addr] zero_bits_slice [OF fit(1)] by (simp add: z1_def)
  have c2: "mtk_ecc_check_buf_bitflips ?st addr (take ?fe (drop ?f ?c)) (of_nat z1) =
      (if z2 \<le> unat ?st then int z2 else - EBADMSG)" if "z1 \<le> unat ?st" for addr
    using check_buf_bitflips_eq [OF w, of "of_nat z1" addr] zero_bits_slice [OF fit(2)] that
    unfolding unword [OF that] by (simp add: z2_def)
  have c3: "mtk_ecc_check_parity_bitflips ?st addr (drop ?p ?c) ?nb (of_nat z2) =
      Some (if z3 \<le> unat ?st then int z3 else - EBADMSG)" if "z2 \<le> unat ?st" for addr
    using check_parity_bitflips_ok [OF w _ fit(3), of "of_nat z2" addr] that
    unfolding unword [OF that] by (simp add: z3_def)
  have fill: "ok (do { m \<leftarrow> memset ?c ?d 0xff S; m \<leftarrow> memset m ?f 0xff ?fe; mtk_ecc_reset_parity m ?p ?nb })
      (bits_set (covered s i) ?c)"
    unfolding cov by (rule set_covered [OF fit])
  have ptrs: "unat (sf_writesize s) + unat (of_nat i * fdm_size s) = ?f"
      "unat (sf_writesize s) + unat (sf_ecc_steps s * fdm_size s) + unat (of_nat i * ecc_room s) = ?p"
    using sf(6,13) o(2,3) by simp_all
  note unf = mtk_ecc_fixup_empty_sector_def Let_def ptrs o(1) sf(2) ecc_bits_of_def [symmetric]
  have s1: "slice ?c ?d S = Some (take S (drop ?d ?c))" "slice ?c ?f ?fe = Some (take ?fe (drop ?f ?c))"
    using fit by (simp_all add: slice_def)
  consider "unat ?st < z1" | "z1 \<le> unat ?st" "unat ?st < z2" | "z2 \<le> unat ?st" "unat ?st < z3"
    | "z3 = 0" | "0 < z3" "z3 \<le> unat ?st" by linarith
  then show ?thesis
  proof cases
    case 1
    then show ?thesis using le z by (simp add: unf s1 c1 EBADMSG_def)
  next
    case 2
    then show ?thesis using le z by (simp add: unf s1 c1 c2 EBADMSG_def)
  next
    case 3
    then have "z1 \<le> unat ?st" using le by simp
    then show ?thesis using 3 le z by (simp add: unf s1 c1 c2 c3 EBADMSG_def)
  next
    case 4
    then have "clear_bits ?c (covered s i) = {}"
      using z finite_clear_bits [of "covered s i" ?c] by (simp add: z_def cov)
    then have "bits_set (covered s i) ?c ?c" by (auto simp: bits_set_def clear_bits_def)
    moreover have "s = s\<lparr>sf_page_cache := ?c\<rparr>" by simp
    ultimately have "\<exists>m. s = s\<lparr>sf_page_cache := m\<rparr> \<and> bits_set (covered s i) ?c m" by blast
    moreover have "z1 = 0" "z2 = 0" using 4 le by simp_all
    ultimately show ?thesis using 4 z c1 c2 c3 by (simp add: unf s1)
  next
    case 5
    then have "z1 \<le> unat ?st" "z2 \<le> unat ?st" using le by simp_all
    moreover obtain m1 m2 m where "memset ?c ?d 0xff S = Some m1" "memset m1 ?f 0xff ?fe = Some m2"
        "mtk_ecc_reset_parity m2 ?p ?nb = Some m" "bits_set (covered s i) ?c m"
      using fill unfolding ok_def by (auto simp: Option.bind_eq_Some_conv)
    ultimately show ?thesis using 5 z by (auto simp: unf s1 c1 c2 c3)
  qed
qed

end
