(* ===== verification/Snand_Ops.thy ===== *)
theory Snand_Ops
  imports Snand_Ecc
begin

text \<open>
  The operations of the SPI-NAND driver (mtk-snand.c): reading and programming a page through the
  chip's cache, erasing and testing blocks, and the spare-area variants. Caller's buffers are
  lists, null pointers \<open>None\<close>; a read returns the new contents of the buffers it was given.
\<close>

section \<open>Reading\<close>

text \<open>The body of the loop of mtk_snand_read_fdm, for the bytes of one sector.\<close>

definition fdm_byte :: "u32 \<Rightarrow> u32 \<Rightarrow> nat \<Rightarrow> u8" where
  "fdm_byte vall valm j = ucast (drop_bit (j mod 4 * 8) (if j \<ge> 4 then valm else vall))"

definition NFI_FDML :: "u32 \<Rightarrow> u32" where "NFI_FDML n = NFI_FDM0L + n * 8"
definition NFI_FDMM :: "u32 \<Rightarrow> u32" where "NFI_FDMM n = NFI_FDM0M + n * 8"

definition read_fdm_sector :: "'h bus \<Rightarrow> nat \<Rightarrow> 'h mtk_snand \<Rightarrow> 'h mtk_snand option" where
  "read_fdm_sector B i s =
     (let (vall, s) = nfi_read32 B (NFI_FDML (of_nat i)) s;
          (valm, s) = nfi_read32 B (NFI_FDMM (of_nat i)) s;
          fs = unat (fdm_size s)
      in do {
        m \<leftarrow> blit (sf_page_cache s) (unat (sf_writesize s) + i * fs) (map (fdm_byte vall valm) [0..<fs]);
        Some (s\<lparr>sf_page_cache := m\<rparr>)
      })"

definition mtk_snand_read_fdm :: "'h bus \<Rightarrow> 'h mtk_snand \<Rightarrow> 'h mtk_snand option" where
  "mtk_snand_read_fdm B s = run_all (read_fdm_sector B) [0..<unat (sf_ecc_steps s)] s"

definition mtk_snand_read_ecc_parity ::
    "'h bus \<Rightarrow> u32 \<Rightarrow> u32 \<Rightarrow> 'h mtk_snand \<Rightarrow> (int \<times> 'h mtk_snand) option" where
  "mtk_snand_read_ecc_parity B page sect s =
     (let ecc_bytes = ecc_room s
      in if 4 + unat ecc_bytes > unat SNF_GPRAM_SIZE then Some (- ENOTSUPP, s)
         else let raw_offs = sect * sf_raw_sector_size s + sector_size s + fdm_size s;
                  offs = sf_ecc_steps s * fdm_size s + sect * ecc_bytes;
                  coladdr = raw_offs OR mtk_snand_get_plane_address s page;
                  (ret, data, s) = mtk_snand_mac_io B [SNAND_CMD_READ_FROM_CACHE,
                    ucast (drop_bit 8 coladdr AND 0xff), ucast (coladdr AND 0xff), 0] ecc_bytes s
         in do {
           m \<leftarrow> blit (sf_page_cache s) (unat (sf_writesize s) + unat offs) data;
           Some (ret, s\<lparr>sf_page_cache := m\<rparr>)
         })"

text \<open>
  The loop of mtk_snand_check_ecc_result over the sectors from \<open>i\<close> on. \<open>Inl\<close> is a return from
  inside the loop.
\<close>

fun check_ecc_loop ::
    "'h bus \<Rightarrow> u32 \<Rightarrow> nat list \<Rightarrow> int \<Rightarrow> int \<Rightarrow> 'h mtk_snand \<Rightarrow>
     ((int + int \<times> int) \<times> 'h mtk_snand) option" where
  "check_ecc_loop B page [] ret max_bitflips s = Some (Inr (ret, max_bitflips), s)"
| "check_ecc_loop B page (i # is) ret max_bitflips s = do {
     bf \<leftarrow> load (sf_sect_bf s) i;
     (if bf \<ge> 0 then check_ecc_loop B page is ret (if bf > max_bitflips then bf else max_bitflips) s
      else do {
        (rc, s) \<leftarrow> mtk_snand_read_ecc_parity B page (of_nat i) s;
        (if rc \<noteq> 0 then Some (Inl rc, s)
         else do {
           (rc, s) \<leftarrow> mtk_ecc_fixup_empty_sector (of_nat i) s;
           (if rc < 0 then check_ecc_loop B page is (- EBADMSG) max_bitflips s
            else if rc \<noteq> 0
            then do {
              sb \<leftarrow> store (sf_sect_bf s) i rc;
              check_ecc_loop B page is ret (if rc > max_bitflips then rc else max_bitflips)
                (s\<lparr>sf_sect_bf := sb\<rparr>)
            }
            else do {
              sb \<leftarrow> store (sf_sect_bf s) i 0;
              check_ecc_loop B page is ret max_bitflips (s\<lparr>sf_sect_bf := sb\<rparr>)
            })
         })
      })
   }"

definition mtk_snand_check_ecc_result ::
    "'h bus \<Rightarrow> u32 \<Rightarrow> 'h mtk_snand \<Rightarrow> (int \<times> 'h mtk_snand) option" where
  "mtk_snand_check_ecc_result B page s = do {
     (r, s) \<leftarrow> check_ecc_loop B page [0..<unat (sf_ecc_steps s)] 0 0 s;
     Some (case r of Inl rc \<Rightarrow> rc | Inr (ret, max_bitflips) \<Rightarrow> if ret \<noteq> 0 then ret else max_bitflips, s)
   }"

definition BUS_SEC_CNTR :: "u32 \<Rightarrow> u32" where "BUS_SEC_CNTR val = drop_bit SEC_CNTR_S (val AND SEC_CNTR)"
definition NFI_SEC_CNTR :: "u32 \<Rightarrow> u32" where "NFI_SEC_CNTR val = drop_bit SEC_CNTR_S (val AND SEC_CNTR)"

text \<open>The registers of a read up to the DMA mapping.\<close>

definition read_cache_setup :: "'h bus \<Rightarrow> u32 \<Rightarrow> bool \<Rightarrow> 'h mtk_snand \<Rightarrow> 'h mtk_snand" where
  "read_cache_setup B page raw s =
     (let coladdr = mtk_snand_get_plane_address s page;
          (_, s) = mtk_snand_mac_reset B s;
          (_, s) = mtk_nfi_reset B s;
          s = nfi_write32 B SNF_RD_CTL2 (push_bit DATA_READ_DUMMY_S (ucast (sf_dummy_rfc s)) OR
                push_bit DATA_READ_CMD_S (ucast (sf_opcode_rfc s))) s;
          s = nfi_write32 B SNF_RD_CTL3 coladdr s;
          mode = push_bit DATA_READ_MODE_S (ucast (sf_mode_rfc s));
          s = nfi_rmw32 B SNF_MISC_CTL DATA_READ_MODE
                (mode OR DATARD_CUSTOM_EN OR push_bit LATCH_LAT_S (ucast (sd_latch_lat (sf_nfi_soc s)))) s;
          rwbytes = sf_ecc_steps s * sf_raw_sector_size s;
          s = nfi_write32 B SNF_MISC_CTL2 (push_bit PROGRAM_LOAD_BYTE_NUM_S rwbytes OR rwbytes) s;
          mode = (if raw then 0 else CNFG_HW_ECC_EN OR CNFG_AUTO_FMT_EN);
          s = nfi_write16 B NFI_CNFG (push_bit CNFG_OP_MODE_S CNFG_OP_MODE_CUST OR CNFG_DMA_BURST_EN OR
                CNFG_READ_MODE OR CNFG_DMA_MODE OR mode) s
      in nfi_write32 B NFI_CON (push_bit CON_SEC_NUM_S (sf_ecc_steps s)) s)"

text \<open>Starting the DMA of a read, and the three waits.\<close>

definition read_cache_start :: "'h bus \<Rightarrow> bool \<Rightarrow> u64 \<Rightarrow> 'h mtk_snand \<Rightarrow> 'h mtk_snand" where
  "read_cache_start B raw dma_addr s =
     (let s = nfi_write32 B NFI_STRADDR (ucast dma_addr) s;
          s = (if \<not> raw then snd (mtk_snand_ecc_decoder_start B s) else s);
          s = nfi_write32 B NFI_INTR_EN (NFI_IRQ_INTR_EN OR NFI_IRQ_CUS_READ) s;
          s = irq_completion_init B s;
          s = nfi_write16 B NFI_CMD NFI_CMD_DUMMY_READ s;
          s = nfi_rmw32 B NFI_CON 0 CON_BRD s
      in nfi_write16 B NFI_STRDATA STR_DATA s)"

definition read_cache_wait :: "'h bus \<Rightarrow> 'h mtk_snand \<Rightarrow> int \<times> 'h mtk_snand" where
  "read_cache_wait B s =
     (let (ret, s) = irq_completion_wait B SNF_STA_CTL1 CUS_READ_DONE SNFI_POLL_INTERVAL s
      in if ret \<noteq> 0 then (ret, s)
         else let (ret, s) = nfi_poll32 B NFI_BYTELEN (\<lambda>val. BUS_SEC_CNTR val \<ge> sf_ecc_steps s)
                    SNFI_POLL_INTERVAL s
         in if ret \<noteq> 0 then (ret, s)
         else nfi_poll32 B NFI_MASTERSTA (\<lambda>val. val AND sd_mastersta_mask (sf_nfi_soc s) = 0)
                    SNFI_POLL_INTERVAL s)"

definition read_cache_decode ::
    "'h bus \<Rightarrow> u32 \<Rightarrow> 'h mtk_snand \<Rightarrow> (int \<times> 'h mtk_snand) option" where
  "read_cache_decode B page s =
     (let (ret, s) = mtk_ecc_wait_decoder_done B s
      in if ret \<noteq> 0 then Some (ret, s)
         else do {
           s \<leftarrow> mtk_snand_read_fdm B s;
           (_, s) \<leftarrow> mtk_ecc_check_decode_error B s;
           mtk_snand_check_ecc_result B page (mtk_snand_ecc_decoder_stop B s)
         })"

definition read_cache_cleanup :: "'h bus \<Rightarrow> u64 \<Rightarrow> 'h mtk_snand \<Rightarrow> 'h mtk_snand" where
  "read_cache_cleanup B dma_addr s =
     (let s = dma_mem_unmap B dma_addr (sf_writesize s + sf_oobsize s) False s;
          s = nfi_write32 B NFI_CON 0 s;
          s = nfi_write16 B NFI_CNFG 0 s;
          s = nfi_rmw32 B SNF_STA_CTL1 0 CUS_READ_DONE s;
          s = nfi_write32 B SNF_STA_CTL1 0 s;
          (_, s) = nfi_read32 B NFI_INTR_STA s;
          s = nfi_write32 B NFI_INTR_EN 0 s
      in nfi_rmw32 B SNF_MISC_CTL (DATARD_CUSTOM_EN OR LATCH_LAT) 0 s)"

definition mtk_snand_read_cache ::
    "'h bus \<Rightarrow> u32 \<Rightarrow> bool \<Rightarrow> 'h mtk_snand \<Rightarrow> (int \<times> 'h mtk_snand) option" where
  "mtk_snand_read_cache B page raw s =
     (let s = read_cache_setup B page raw s;
          (ret, dma_addr, s) = dma_mem_map B (sf_writesize s + sf_oobsize s) False s
      in if ret \<noteq> 0 then Some (ret, s)
         else let (ret, s) = read_cache_wait B (read_cache_start B raw dma_addr s);
                  s = dma_arrived B s
         in do {
           (ret, s) \<leftarrow> (if ret \<noteq> 0 \<or> raw then Some (ret, s) else read_cache_decode B page s);
           Some (ret, read_cache_cleanup B dma_addr s)
         })"

text \<open>The calibration: a failed decoding is repeated with other sample delays, 16 times.\<close>

fun read_cache_retry ::
    "'h bus \<Rightarrow> u32 \<Rightarrow> bool \<Rightarrow> nat \<Rightarrow> nat \<Rightarrow> 'h mtk_snand \<Rightarrow> (int \<times> nat \<times> 'h mtk_snand) option" where
  "read_cache_retry B page raw left retry_cnt s = do {
     (ret, s) \<leftarrow> mtk_snand_read_cache B page raw s;
     (case left of
        0 \<Rightarrow> Some (ret, retry_cnt, s)
      | Suc k \<Rightarrow>
          if ret = - EBADMSG
          then read_cache_retry B page raw k (retry_cnt + 1)
                 (nfi_write32 B SNF_DLY_CTL3 (of_nat (retry_cnt * 2)) s)
          else Some (ret, retry_cnt, s))
   }"

declare read_cache_retry.simps [simp del]

text \<open>What a read delivers from the page cache: with \<open>k\<close> bytes of the spare area, or formatted.\<close>

definition copy_out ::
    "'h mtk_snand \<Rightarrow> bytes option \<Rightarrow> bytes option \<Rightarrow> nat \<Rightarrow>
     (bytes option \<times> bytes option \<times> 'h mtk_snand) option" where
  "copy_out s buf oob k = do {
     let ws = unat (sf_writesize s);
     buf \<leftarrow> (case buf of None \<Rightarrow> Some None
            | Some b \<Rightarrow> map_option Some (memcpy b 0 (sf_page_cache s) 0 ws));
     oob \<leftarrow> (case oob of None \<Rightarrow> Some None
            | Some ob \<Rightarrow> do {
                ob \<leftarrow> memset ob 0 0xff (unat (sf_oobsize s));
                map_option Some (memcpy ob 0 (sf_page_cache s) ws k)
              });
     Some (buf, oob, s)
   }"

definition deliver_page ::
    "'h mtk_snand \<Rightarrow> bytes option \<Rightarrow> bytes option \<Rightarrow> bool \<Rightarrow> bool \<Rightarrow>
     (bytes option \<times> bytes option \<times> 'h mtk_snand) option" where
  "deliver_page s buf oob raw format =
     (if raw then
        (if format then do {
           s \<leftarrow> mtk_snand_bm_swap_raw s;
           s \<leftarrow> mtk_snand_fdm_bm_swap_raw s;
           (buf, oob) \<leftarrow> mtk_snand_from_raw_page s buf oob;
           Some (buf, oob, s)
         }
         else copy_out s buf oob (unat (sf_ecc_steps s * sf_spare_per_sector s)))
      else do {
        s \<leftarrow> mtk_snand_bm_swap s;
        s \<leftarrow> mtk_snand_fdm_bm_swap s;
        copy_out s buf oob (unat (sf_ecc_steps s * fdm_size s))
      })"

text \<open>The end of a read: calibrated transfer from the chip's cache, sample delay, delivery.\<close>

definition settle_delay :: "'h bus \<Rightarrow> u32 \<Rightarrow> nat \<Rightarrow> int \<Rightarrow> 'h mtk_snand \<Rightarrow> 'h mtk_snand" where
  "settle_delay B dly_ctrl3 retry_cnt ret s =
     (if retry_cnt \<noteq> 0
      then if ret = - EBADMSG then nfi_write32 B SNF_DLY_CTL3 dly_ctrl3 s
           else snd (nfi_read32 B SNF_DLY_CTL3 s)
      else s)"

definition fetch_page ::
    "'h bus \<Rightarrow> u32 \<Rightarrow> u32 \<Rightarrow> bytes option \<Rightarrow> bytes option \<Rightarrow> bool \<Rightarrow> bool \<Rightarrow> 'h mtk_snand \<Rightarrow>
     (int \<times> bytes option \<times> bytes option \<times> 'h mtk_snand) option" where
  "fetch_page B page dly_ctrl3 buf oob raw format s = do {
     (ret, retry_cnt, s) \<leftarrow> read_cache_retry B page raw 16 0 s;
     (if ret < 0 \<and> ret \<noteq> - EBADMSG then Some (ret, buf, oob, s)
      else do {
        (buf, oob, s) \<leftarrow> deliver_page (settle_delay B dly_ctrl3 retry_cnt ret s) buf oob raw format;
        Some (ret, buf, oob, s)
      })
   }"

definition mtk_snand_do_read_page ::
    "'h bus \<Rightarrow> u64 \<Rightarrow> bytes option \<Rightarrow> bytes option \<Rightarrow> bool \<Rightarrow> bool \<Rightarrow> 'h mtk_snand \<Rightarrow>
     (int \<times> bytes option \<times> bytes option \<times> 'h mtk_snand) option" where
  "mtk_snand_do_read_page B addr buf oob raw format s =
     (let (die_addr, s) = mtk_snand_select_die_address B addr s;
          page = ucast (drop_bit (unat (sf_writesize_shift s)) die_addr);
          (dly_ctrl3, s) = nfi_read32 B SNF_DLY_CTL3 s;
          (ret, s) = mtk_snand_page_op B page SNAND_CMD_READ_TO_CACHE s
      in if ret \<noteq> 0 then Some (ret, buf, oob, s)
         else do {
           (ret, s) \<leftarrow> mtk_snand_poll_status B SNFI_POLL_INTERVAL s;
           (if ret < 0 then Some (ret, buf, oob, s)
            else fetch_page B page dly_ctrl3 buf oob raw format s)
         })"

definition mtk_snand_read_page ::
    "'h bus \<Rightarrow> u64 \<Rightarrow> bytes option \<Rightarrow> bytes option \<Rightarrow> bool \<Rightarrow> 'h mtk_snand \<Rightarrow>
     (int \<times> bytes option \<times> bytes option \<times> 'h mtk_snand) option" where
  "mtk_snand_read_page B addr buf oob raw s =
     (if buf = None \<and> oob = None then Some (- EINVAL, buf, oob, s)
      else if addr \<ge> sf_size s then Some (- EINVAL, buf, oob, s)
      else mtk_snand_do_read_page B addr buf oob raw True s)"

section \<open>Programming\<close>

definition fdm_word :: "bytes \<Rightarrow> nat \<Rightarrow> nat \<Rightarrow> nat \<Rightarrow> nat \<Rightarrow> u32 option" where
  "fdm_word m off fs from n =
     run_all (\<lambda>j v. do {
       b \<leftarrow> (if from + j < fs then load m (off + from + j) else Some 0xff);
       Some (v OR push_bit (j * 8) (ucast b))
     }) [0..<n] 0"

definition write_fdm_sector :: "'h bus \<Rightarrow> nat \<Rightarrow> 'h mtk_snand \<Rightarrow> 'h mtk_snand option" where
  "write_fdm_sector B i s = do {
     let fs = unat (fdm_size s);
     let oobptr = unat (sf_writesize s) + i * fs;
     vall \<leftarrow> fdm_word (sf_page_cache s) oobptr fs 0 4;
     valm \<leftarrow> fdm_word (sf_page_cache s) oobptr fs 4 4;
     let s = nfi_write32 B (NFI_FDML (of_nat i)) vall s;
     Some (nfi_write32 B (NFI_FDMM (of_nat i)) valm s)
   }"

definition mtk_snand_write_fdm :: "'h bus \<Rightarrow> 'h mtk_snand \<Rightarrow> 'h mtk_snand option" where
  "mtk_snand_write_fdm B s = run_all (write_fdm_sector B) [0..<unat (sf_ecc_steps s)] s"

definition program_load_setup :: "'h bus \<Rightarrow> u32 \<Rightarrow> bool \<Rightarrow> 'h mtk_snand \<Rightarrow> 'h mtk_snand option" where
  "program_load_setup B page raw s = do {
     let coladdr = mtk_snand_get_plane_address s page;
     let (_, s) = mtk_snand_mac_reset B s;
     let (_, s) = mtk_nfi_reset B s;
     s \<leftarrow> (if \<not> raw then mtk_snand_write_fdm B s else Some s);
     let s = nfi_write32 B SNF_PG_CTL1 (push_bit PG_LOAD_CMD_S (ucast (sf_opcode_pl s))) s;
     let s = nfi_write32 B SNF_PG_CTL2 coladdr s;
     let mode = (if sf_mode_pl s \<noteq> 0 then PG_LOAD_X4_EN else 0);
     let s = nfi_rmw32 B SNF_MISC_CTL PG_LOAD_X4_EN (mode OR PG_LOAD_CUSTOM_EN) s;
     let rwbytes = sf_ecc_steps s * sf_raw_sector_size s;
     let s = nfi_write32 B SNF_MISC_CTL2 (push_bit PROGRAM_LOAD_BYTE_NUM_S rwbytes OR rwbytes) s;
     let mode = (if raw then 0 else CNFG_HW_ECC_EN OR CNFG_AUTO_FMT_EN);
     let s = nfi_write16 B NFI_CNFG (push_bit CNFG_OP_MODE_S CNFG_OP_MODE_PROGRAM OR CNFG_DMA_BURST_EN OR
               CNFG_DMA_MODE OR mode) s;
     Some (nfi_write32 B NFI_CON (push_bit CON_SEC_NUM_S (sf_ecc_steps s)) s)
   }"

definition program_load_start :: "'h bus \<Rightarrow> bool \<Rightarrow> u64 \<Rightarrow> 'h mtk_snand \<Rightarrow> 'h mtk_snand" where
  "program_load_start B raw dma_addr s =
     (let s = nfi_write32 B NFI_STRADDR (ucast dma_addr) s;
          s = (if \<not> raw then snd (mtk_snand_ecc_encoder_start B s) else s);
          s = nfi_write32 B NFI_INTR_EN (NFI_IRQ_INTR_EN OR NFI_IRQ_CUS_PG) s;
          s = irq_completion_init B s;
          s = nfi_write16 B NFI_CMD NFI_CMD_DUMMY_WRITE s;
          s = nfi_rmw32 B NFI_CON 0 CON_BWR s
      in nfi_write16 B NFI_STRDATA STR_DATA s)"

definition program_load_wait :: "'h bus \<Rightarrow> bool \<Rightarrow> 'h mtk_snand \<Rightarrow> int \<times> 'h mtk_snand" where
  "program_load_wait B raw s =
     (let (ret, s) = irq_completion_wait B SNF_STA_CTL1 CUS_PG_DONE SNFI_POLL_INTERVAL s
      in if ret \<noteq> 0 then (ret, s)
         else let (ret, s) = nfi_poll32 B NFI_ADDRCNTR (\<lambda>val. NFI_SEC_CNTR val \<ge> sf_ecc_steps s)
                    SNFI_POLL_INTERVAL s
         in if ret \<noteq> 0 then (ret, s)
         else (ret, if \<not> raw then mtk_snand_ecc_encoder_stop B s else s))"

definition program_load_cleanup :: "'h bus \<Rightarrow> u64 \<Rightarrow> 'h mtk_snand \<Rightarrow> 'h mtk_snand" where
  "program_load_cleanup B dma_addr s =
     (let s = dma_mem_unmap B dma_addr (sf_writesize s + sf_oobsize s) True s;
          s = nfi_write32 B NFI_CON 0 s;
          s = nfi_write16 B NFI_CNFG 0 s;
          s = nfi_rmw32 B SNF_STA_CTL1 0 CUS_PG_DONE s;
          s = nfi_write32 B SNF_STA_CTL1 0 s;
          (_, s) = nfi_read32 B NFI_INTR_STA s;
          s = nfi_write32 B NFI_INTR_EN 0 s
      in nfi_rmw32 B SNF_MISC_CTL PG_LOAD_CUSTOM_EN 0 s)"

definition mtk_snand_program_load ::
    "'h bus \<Rightarrow> u32 \<Rightarrow> bool \<Rightarrow> 'h mtk_snand \<Rightarrow> (int \<times> 'h mtk_snand) option" where
  "mtk_snand_program_load B page raw s = do {
     s \<leftarrow> program_load_setup B page raw s;
     let (ret, dma_addr, s) = dma_mem_map B (sf_writesize s + sf_oobsize s) True s;
     (if ret \<noteq> 0 then Some (ret, s)
      else let (ret, s) = program_load_wait B raw (program_load_start B raw dma_addr s)
      in Some (ret, program_load_cleanup B dma_addr s))
   }"

definition copy_in ::
    "'h mtk_snand \<Rightarrow> bytes option \<Rightarrow> bytes option \<Rightarrow> nat \<Rightarrow> 'h mtk_snand option" where
  "copy_in s buf oob k = do {
     let ws = unat (sf_writesize s);
     s \<leftarrow> clear_page_cache s;
     m \<leftarrow> (case buf of None \<Rightarrow> Some (sf_page_cache s) | Some b \<Rightarrow> memcpy (sf_page_cache s) 0 b 0 ws);
     m \<leftarrow> (case oob of None \<Rightarrow> Some m | Some ob \<Rightarrow> memcpy m ws ob 0 k);
     Some (s\<lparr>sf_page_cache := m\<rparr>)
   }"

text \<open>
  What a write puts into the page cache, and whether the page is then programmed in raw mode: a
  page whose data and ECC-protected FDM bytes are all 0xff is, so that no parity is written.
\<close>

definition prepare_page ::
    "'h mtk_snand \<Rightarrow> bytes option \<Rightarrow> bytes option \<Rightarrow> bool \<Rightarrow> bool \<Rightarrow> (bool \<times> 'h mtk_snand) option" where
  "prepare_page s buf oob raw format = do {
     empty_ecc \<leftarrow> (if \<not> raw then mtk_snand_is_empty_page s buf oob else Some False);
     let raw = (raw \<or> empty_ecc);
     let format = (format \<or> empty_ecc);
     s \<leftarrow> (if raw then
             (if format then do {
                s \<leftarrow> mtk_snand_to_raw_page s buf oob empty_ecc;
                s \<leftarrow> mtk_snand_fdm_bm_swap_raw s;
                mtk_snand_bm_swap_raw s
              }
              else copy_in s buf oob (unat (sf_ecc_steps s * sf_spare_per_sector s)))
           else do {
             s \<leftarrow> copy_in s buf oob (unat (sf_ecc_steps s * fdm_size s));
             s \<leftarrow> mtk_snand_fdm_bm_swap s;
             mtk_snand_bm_swap s
           });
     Some (raw, s)
   }"

text \<open>The end of a program and of an erase operation: the command, and the status it leaves.\<close>

definition finish_op :: "'h bus \<Rightarrow> u32 \<Rightarrow> u8 \<Rightarrow> int \<Rightarrow> 'h mtk_snand \<Rightarrow> (int \<times> 'h mtk_snand) option" where
  "finish_op B page cmd fail s =
     (let (ret, s) = mtk_snand_page_op B page cmd s
      in if ret \<noteq> 0 then Some (ret, s)
         else do {
           (ret, s) \<leftarrow> mtk_snand_poll_status B SNFI_POLL_INTERVAL s;
           Some (if ret < 0 then ret else if ret AND fail \<noteq> 0 then - EIO else 0, s)
         })"

definition mtk_snand_do_write_page ::
    "'h bus \<Rightarrow> u64 \<Rightarrow> bytes option \<Rightarrow> bytes option \<Rightarrow> bool \<Rightarrow> bool \<Rightarrow> 'h mtk_snand \<Rightarrow>
     (int \<times> 'h mtk_snand) option" where
  "mtk_snand_do_write_page B addr buf oob raw format s =
     (let (die_addr, s) = mtk_snand_select_die_address B addr s;
          page = ucast (drop_bit (unat (sf_writesize_shift s)) die_addr)
      in do {
        (raw, s) \<leftarrow> prepare_page s buf oob raw format;
        let (ret, s) = mtk_snand_write_enable B s;
        (if ret \<noteq> 0 then Some (ret, s)
         else do {
           (ret, s) \<leftarrow> mtk_snand_program_load B page raw s;
           (if ret \<noteq> 0 then Some (ret, s)
            else finish_op B page SNAND_CMD_PROGRAM_EXECUTE SNAND_STATUS_PROGRAM_FAIL s)
         })
      })"

definition mtk_snand_write_page ::
    "'h bus \<Rightarrow> u64 \<Rightarrow> bytes option \<Rightarrow> bytes option \<Rightarrow> bool \<Rightarrow> 'h mtk_snand \<Rightarrow>
     (int \<times> 'h mtk_snand) option" where
  "mtk_snand_write_page B addr buf oob raw s =
     (if buf = None \<and> oob = None then Some (- EINVAL, s)
      else if addr \<ge> sf_size s then Some (- EINVAL, s)
      else mtk_snand_do_write_page B addr buf oob raw True s)"

section \<open>Blocks\<close>

definition mtk_snand_erase_block :: "'h bus \<Rightarrow> u64 \<Rightarrow> 'h mtk_snand \<Rightarrow> (int \<times> 'h mtk_snand) option" where
  "mtk_snand_erase_block B addr s =
     (if addr \<ge> sf_size s then Some (- EINVAL, s)
      else let (die_addr, s) = mtk_snand_select_die_address B addr s;
               block = ucast (drop_bit (unat (sf_erasesize_shift s)) die_addr);
               page = push_bit (unat (sf_erasesize_shift s - sf_writesize_shift s)) block;
               (ret, s) = mtk_snand_write_enable B s
      in if ret \<noteq> 0 then Some (ret, s)
         else finish_op B page SNAND_CMD_BLOCK_ERASE SNAND_STATUS_ERASE_FAIL s)"

text \<open>The two tests read the spare area into buf_cache, unformatted and formatted.\<close>

definition block_isbad_read ::
    "'h bus \<Rightarrow> u64 \<Rightarrow> bool \<Rightarrow> 'h mtk_snand \<Rightarrow> (int \<times> 'h mtk_snand) option" where
  "block_isbad_read B addr format s = do {
     (ret, _, oob, s) \<leftarrow> mtk_snand_do_read_page B addr None (Some (sf_buf_cache s)) True format s;
     let s = s\<lparr>sf_buf_cache := (case oob of None \<Rightarrow> sf_buf_cache s | Some ob \<Rightarrow> ob)\<rparr>;
     (if ret \<noteq> 0 \<and> ret \<noteq> - EBADMSG then Some (ret, s)
      else do {
        b \<leftarrow> load (sf_buf_cache s) 0;
        Some (if b \<noteq> 0xff then 1 else 0, s)
      })
   }"

definition mtk_snand_block_isbad_std ::
    "'h bus \<Rightarrow> u64 \<Rightarrow> 'h mtk_snand \<Rightarrow> (int \<times> 'h mtk_snand) option" where
  "mtk_snand_block_isbad_std B addr s = block_isbad_read B addr False s"

definition mtk_snand_block_isbad_mtk ::
    "'h bus \<Rightarrow> u64 \<Rightarrow> 'h mtk_snand \<Rightarrow> (int \<times> 'h mtk_snand) option" where
  "mtk_snand_block_isbad_mtk B addr s = block_isbad_read B addr True s"

text \<open>The mask of the block address is a 32-bit value, so that its complement clears the upper
  half of the address.\<close>

definition mtk_snand_block_isbad :: "'h bus \<Rightarrow> u64 \<Rightarrow> 'h mtk_snand \<Rightarrow> (int \<times> 'h mtk_snand) option" where
  "mtk_snand_block_isbad B addr s =
     (if addr \<ge> sf_size s then Some (- EINVAL, s)
      else let addr = addr AND ucast (NOT (sf_erasesize_mask s))
      in if sd_bbm_swap (sf_nfi_soc s) then mtk_snand_block_isbad_std B addr s
         else mtk_snand_block_isbad_mtk B addr s)"

definition mtk_snand_block_markbad_std ::
    "'h bus \<Rightarrow> u64 \<Rightarrow> 'h mtk_snand \<Rightarrow> (int \<times> 'h mtk_snand) option" where
  "mtk_snand_block_markbad_std B addr s = do {
     m \<leftarrow> memset (sf_buf_cache s) 0 0xff (unat (sf_oobsize s));
     m \<leftarrow> store m 0 0;
     mtk_snand_do_write_page B addr None (Some m) True False (s\<lparr>sf_buf_cache := m\<rparr>)
   }"

definition mtk_snand_block_markbad_mtk ::
    "'h bus \<Rightarrow> u64 \<Rightarrow> 'h mtk_snand \<Rightarrow> (int \<times> 'h mtk_snand) option" where
  "mtk_snand_block_markbad_mtk B addr s = do {
     m \<leftarrow> memset (sf_buf_cache s) 0 0 (unat (sf_writesize s + sf_oobsize s));
     mtk_snand_do_write_page B addr (Some m) (Some (drop (unat (sf_writesize s)) m)) True True
       (s\<lparr>sf_buf_cache := m\<rparr>)
   }"

definition mtk_snand_block_markbad :: "'h bus \<Rightarrow> u64 \<Rightarrow> 'h mtk_snand \<Rightarrow> (int \<times> 'h mtk_snand) option" where
  "mtk_snand_block_markbad B addr s =
     (if addr \<ge> sf_size s then Some (- EINVAL, s)
      else let addr = addr AND ucast (NOT (sf_erasesize_mask s))
      in if sd_bbm_swap (sf_nfi_soc s) then mtk_snand_block_markbad_std B addr s
         else mtk_snand_block_markbad_mtk B addr s)"

section \<open>The free bytes of the spare area\<close>

definition mtk_snand_read_page_auto_oob ::
    "'h bus \<Rightarrow> u64 \<Rightarrow> bytes option \<Rightarrow> bytes option \<Rightarrow> nat \<Rightarrow> bool \<Rightarrow> 'h mtk_snand \<Rightarrow>
     (int \<times> bytes option \<times> bytes option \<times> nat option \<times> 'h mtk_snand) option" where
  "mtk_snand_read_page_auto_oob B addr buf oob ooblen raw s =
     (case oob of
        None \<Rightarrow> do {
          (ret, buf, _, s) \<leftarrow> mtk_snand_read_page B addr buf None raw s;
          Some (ret, buf, None, None, s)
        }
      | Some ob \<Rightarrow> do {
          (ret, buf, cache, s) \<leftarrow> mtk_snand_read_page B addr buf (Some (sf_buf_cache s)) raw s;
          let s = s\<lparr>sf_buf_cache := (case cache of None \<Rightarrow> sf_buf_cache s | Some c \<Rightarrow> c)\<rparr>;
          (if ret \<noteq> 0 \<and> ret \<noteq> - EBADMSG then Some (ret, buf, oob, Some 0, s)
           else do {
             (oobremain, ob) \<leftarrow> mtk_snand_transfer_oob s ob ooblen (sf_buf_cache s);
             Some (ret, buf, Some ob, Some (ooblen - oobremain), s)
           })
        })"

definition mtk_snand_write_page_auto_oob ::
    "'h bus \<Rightarrow> u64 \<Rightarrow> bytes option \<Rightarrow> bytes option \<Rightarrow> nat \<Rightarrow> bool \<Rightarrow> 'h mtk_snand \<Rightarrow>
     (int \<times> nat option \<times> 'h mtk_snand) option" where
  "mtk_snand_write_page_auto_oob B addr buf oob ooblen raw s =
     (case oob of
        None \<Rightarrow> do {
          (ret, s) \<leftarrow> mtk_snand_write_page B addr buf None raw s;
          Some (ret, None, s)
        }
      | Some ob \<Rightarrow> do {
          m \<leftarrow> memset (sf_buf_cache s) 0 0xff (unat (sf_oobsize s));
          (oobremain, m) \<leftarrow> mtk_snand_fill_oob s m ob ooblen;
          let s = s\<lparr>sf_buf_cache := m\<rparr>;
          (ret, s) \<leftarrow> mtk_snand_write_page B addr buf (Some m) raw s;
          Some (ret, Some (ooblen - oobremain), s)
        })"

section \<open>Interrupts\<close>

definition mtk_snand_irq_process :: "'h bus \<Rightarrow> 'h mtk_snand \<Rightarrow> int \<times> 'h mtk_snand" where
  "mtk_snand_irq_process B s =
     (let (sta, s) = nfi_read32 B NFI_INTR_STA s;
          (ien, s) = nfi_read32 B NFI_INTR_EN s
      in if sta AND ien = 0 then (0, s)
         else (1, irq_completion_done B (nfi_write32 B NFI_INTR_EN 0 s)))"

end
