(* ===== verification/Snand_Frame.thy ===== *)
theory Snand_Frame
  imports Snand_Ops
begin

text \<open>
  What the operations of the SPI-NAND driver leave alone. Register accesses and the commands built of
  them change the state of the hardware only (\<open>strip\<close>); the operations keep the chip's description
  and the sizes of the buffers (\<open>shape\<close>).
\<close>

definition strip :: "'h mtk_snand \<Rightarrow> 'h mtk_snand" where
  "strip s = s\<lparr>sf_hw := undefined\<rparr>"

definition shape ::
    "'h mtk_snand \<Rightarrow> mtk_snand_conf \<times> nat \<times> nat \<times> nat \<times> bool" where
  "shape s = (mtk_snand_conf.truncate s, length (sf_page_cache s), length (sf_buf_cache s),
     length (sf_sect_bf s), sf_poll_mode s)"

lemma strip_hw [simp]: "strip (s\<lparr>sf_hw := h\<rparr>) = strip s"
  by (simp add: strip_def)

lemma shape_strip: "shape (strip s) = shape s"
  by (simp add: shape_def strip_def mtk_snand_conf.truncate_def)

lemma strip_shape: "strip s' = strip s \<Longrightarrow> shape s' = shape s"
  by (metis shape_strip)

lemma strip_fields:
  assumes "strip s' = strip s"
  shows "sf_page_cache s' = sf_page_cache s" "sf_buf_cache s' = sf_buf_cache s"
    "sf_sect_bf s' = sf_sect_bf s"
proof -
  have "sf_page_cache (strip s') = sf_page_cache (strip s)"
    "sf_buf_cache (strip s') = sf_buf_cache (strip s)" "sf_sect_bf (strip s') = sf_sect_bf (strip s)"
    by (simp_all only: assms)
  then show "sf_page_cache s' = sf_page_cache s" "sf_buf_cache s' = sf_buf_cache s"
    "sf_sect_bf s' = sf_sect_bf s" by (simp_all add: strip_def)
qed

section \<open>Hardware only\<close>

named_theorems frame

lemma strip_prims [frame]:
  "strip (on_hw f s) = strip s"
  "strip (snd (from_hw g s)) = strip s"
  "strip (nfi_write32 B reg val s) = strip s"
  "strip (nfi_write16 B reg val s) = strip s"
  "strip (snd (nfi_read32 B reg s)) = strip s"
  "strip (snd (nfi_poll16 B reg cond16 tmo s)) = strip s"
  "strip (snd (nfi_poll32 B reg cond32 tmo s)) = strip s"
  "strip (ecc_write32 B reg val s) = strip s"
  "strip (ecc_write16 B reg val s) = strip s"
  "strip (snd (ecc_read32 B reg s)) = strip s"
  by (simp_all add: on_hw_def from_hw_def nfi_write32_def nfi_write16_def nfi_read32_def nfi_poll16_def
      nfi_poll32_def ecc_write32_def ecc_write16_def ecc_read32_def case_prod_beta)

lemma strip_rmw [frame]: "strip (nfi_rmw32 B reg clr put s) = strip s"
  by (simp add: nfi_rmw32_def frame case_prod_beta Let_def)

lemma strip_write_bytes [frame]: "strip (nfi_write_bytes B i ds val s) = strip s"
  by (induction B i ds val s rule: nfi_write_bytes.induct) (simp_all add: frame Let_def)

lemma strip_read_bytes [frame]: "strip (snd (nfi_read_bytes B start i n val s)) = strip s"
  by (induction n arbitrary: start i val s) (simp_all add: frame case_prod_beta Let_def)

lemma length_read_bytes: "length (fst (nfi_read_bytes B start i n val s)) = n"
  by (induction n arbitrary: start i val s) (simp_all add: case_prod_beta Let_def)

lemma strip_platform [frame]:
  "strip (snd (timer_get_ticks B s)) = strip s"
  "strip (snd (timer_is_timeout B t tmo s)) = strip s"
  "strip (irq_completion_done B s) = strip s"
  "strip (irq_completion_init B s) = strip s"
  "strip (snd (irq_completion_wait B reg bits us s)) = strip s"
  "strip (snd (snd (dma_mem_map B len dir s))) = strip s"
  "strip (dma_mem_unmap B addr len dir s) = strip s"
  by (simp_all add: timer_get_ticks_def timer_is_timeout_def irq_completion_done_def
      irq_completion_init_def irq_completion_wait_def dma_mem_map_def dma_mem_unmap_def frame
      case_prod_beta Let_def)

lemma strip_resets [frame]:
  "strip (snd (mtk_nfi_reset B s)) = strip s"
  "strip (snd (mtk_snand_mac_reset B s)) = strip s"
  by (simp_all add: mtk_nfi_reset_def mtk_snand_mac_reset_def frame case_prod_beta Let_def)

lemma strip_mac [frame]:
  "strip (snd (mtk_snand_mac_trigger B outlen inlen s)) = strip s"
  "strip (snd (snd (mtk_snand_mac_io B out inlen s))) = strip s"
  "strip (snd (mac_out B out s)) = strip s"
proof -
  show t: "strip (snd (mtk_snand_mac_trigger B outlen inlen s)) = strip s" for outlen inlen and s :: "'a mtk_snand"
    by (simp add: mtk_snand_mac_trigger_def frame case_prod_beta Let_def)
  show io: "strip (snd (snd (mtk_snand_mac_io B out inlen s))) = strip s" for inlen
    by (simp add: mtk_snand_mac_io_def nfi_write_data_def nfi_read_data_def t frame case_prod_beta Let_def)
  show "strip (snd (mac_out B out s)) = strip s"
    by (simp add: mac_out_def io case_prod_beta Let_def)
qed

lemma length_mac_io:
  "fst (snd (mtk_snand_mac_io B out inlen s)) = [] \<or>
   length (fst (snd (mtk_snand_mac_io B out inlen s))) = unat inlen"
  by (simp add: mtk_snand_mac_io_def nfi_read_data_def length_read_bytes case_prod_beta Let_def)

lemma strip_features [frame]:
  "strip (snd (mtk_snand_get_feature B addr s)) = strip s"
  "strip (snd (mtk_snand_set_feature B addr val s)) = strip s"
  by (simp_all add: mtk_snand_get_feature_def mtk_snand_set_feature_def frame case_prod_beta Let_def)

lemma strip_commands [frame]:
  "strip (snd (mtk_snand_config_feature B clr put s)) = strip s"
  "strip (snd (mtk_snand_unlock B s)) = strip s"
  "strip (snd (mtk_snand_write_enable B s)) = strip s"
  "strip (snd (mtk_snand_winbond_select_die B dieidx s)) = strip s"
  "strip (snd (mtk_snand_micron_select_die B dieidx s)) = strip s"
  "strip (snd (mtk_snand_page_op B page cmd s)) = strip s"
  by (simp_all add: mtk_snand_config_feature_def mtk_snand_unlock_def mtk_snand_write_enable_def
      mtk_snand_winbond_select_die_def mtk_snand_micron_select_die_def mtk_snand_page_op_def frame
      case_prod_beta Let_def)

lemma strip_die [frame]:
  "strip (snd (mtk_snand_select_die B dieidx s)) = strip s"
  "strip (snd (mtk_snand_select_die_address B addr s)) = strip s"
  by (simp_all add: mtk_snand_select_die_def mtk_snand_select_die_address_def frame case_prod_beta Let_def
      split: option.splits select_die_fn.splits)

lemma strip_controls [frame]:
  "strip (snd (mtk_snand_ondie_ecc_control B enable s)) = strip s"
  "strip (snd (mtk_snand_qspi_control B enable s)) = strip s"
  by (simp_all add: mtk_snand_ondie_ecc_control_def mtk_snand_qspi_control_def frame)

lemma strip_ecc_poll [frame]: "strip (snd (mtk_ecc_poll B reg bits s)) = strip s"
  by (simp add: mtk_ecc_poll_def frame)

lemma strip_ecc_idle [frame]: "strip (snd (mtk_ecc_wait_idle B reg s)) = strip s"
  by (simp add: mtk_ecc_wait_idle_def frame case_prod_beta Let_def)

lemma strip_ecc [frame]:
  "strip (snd (mtk_snand_ecc_encoder_start B s)) = strip s"
  "strip (mtk_snand_ecc_encoder_stop B s) = strip s"
  "strip (snd (mtk_snand_ecc_decoder_start B s)) = strip s"
  "strip (mtk_snand_ecc_decoder_stop B s) = strip s"
  "strip (snd (mtk_ecc_wait_decoder_done B s)) = strip s"
  by (simp_all add: mtk_snand_ecc_encoder_start_def mtk_snand_ecc_encoder_stop_def
      mtk_snand_ecc_decoder_start_def mtk_snand_ecc_decoder_stop_def mtk_ecc_wait_decoder_done_def frame
      case_prod_beta Let_def)

lemma strip_read_cache [frame]:
  "strip (read_cache_setup B page raw s) = strip s"
  "strip (read_cache_start B raw dma_addr s) = strip s"
  "strip (snd (read_cache_wait B s)) = strip s"
  "strip (read_cache_cleanup B dma_addr s) = strip s"
  by (simp_all add: read_cache_setup_def read_cache_start_def read_cache_wait_def read_cache_cleanup_def
      frame case_prod_beta Let_def)

lemma strip_program_load [frame]:
  "strip (program_load_start B raw dma_addr s) = strip s"
  "strip (snd (program_load_wait B raw s)) = strip s"
  "strip (program_load_cleanup B dma_addr s) = strip s"
  by (simp_all add: program_load_start_def program_load_wait_def program_load_cleanup_def
      frame case_prod_beta Let_def)

lemma strip_irq [frame]: "strip (snd (mtk_snand_irq_process B s)) = strip s"
  by (simp add: mtk_snand_irq_process_def frame case_prod_beta Let_def)

lemmas shape_frame = frame [THEN strip_shape]

end
