(* ===== verification/Snand_Safe.thy ===== *)
theory Snand_Safe
  imports Snand_Frame
begin

text \<open>
  Total correctness of the SPI-NAND operations on any hardware: from a state that mtk_snand_init
  leaves (\<open>snand_wf\<close>), every operation returns, stays inside its buffers and keeps the state's
  shape, whatever the registers answer. The only hypothesis about the hardware is that the clock
  advances while the driver polls the chip's status (\<open>clock_runs\<close>).
\<close>

section \<open>The invariant\<close>

definition snand_wf :: "'h mtk_snand \<Rightarrow> bool" where
  "snand_wf s \<longleftrightarrow> page_format s \<and> ecc_format s \<and> length (sf_page_cache s) = page_len s \<and>
     length (sf_buf_cache s) = page_len s \<and> unat (sf_ecc_steps s) \<le> length (sf_sect_bf s)"

lemma shape_conf:
  assumes "shape s' = shape s"
  shows "sf_writesize s' = sf_writesize s" "sf_oobsize s' = sf_oobsize s"
    "sf_ecc_steps s' = sf_ecc_steps s" "sf_nfi_soc s' = sf_nfi_soc s"
    "sf_spare_per_sector s' = sf_spare_per_sector s" "sf_raw_sector_size s' = sf_raw_sector_size s"
    "sf_ecc_strength s' = sf_ecc_strength s" "sf_size s' = sf_size s"
    "length (sf_page_cache s') = length (sf_page_cache s)"
    "length (sf_buf_cache s') = length (sf_buf_cache s)"
    "length (sf_sect_bf s') = length (sf_sect_bf s)"
  using assms by (simp_all add: shape_def mtk_snand_conf.truncate_def)

lemma shape_wf:
  assumes "shape s' = shape s"
  shows "snand_wf s' = snand_wf s" "page_format s' = page_format s" "page_len s' = page_len s"
    "sizes s' = sizes s" "no_swap s' = no_swap s"
  by (simp_all add: snand_wf_def page_format_def ecc_format_def page_len_def sizes_def no_swap_def
      ecc_bits_of_def ecc_room_def shape_conf [OF assms] Let_def)

lemma shape_updates [simp]:
  "length m = length (sf_page_cache s) \<Longrightarrow> shape (s\<lparr>sf_page_cache := m\<rparr>) = shape s"
  "length m = length (sf_buf_cache s) \<Longrightarrow> shape (s\<lparr>sf_buf_cache := m\<rparr>) = shape s"
  "length b = length (sf_sect_bf s) \<Longrightarrow> shape (s\<lparr>sf_sect_bf := b\<rparr>) = shape s"
  by (simp_all add: shape_def mtk_snand_conf.truncate_def)

lemma snand_wfD:
  assumes "snand_wf s"
  shows "page_format s" "ecc_format s" "length (sf_page_cache s) = page_len s"
    "length (sf_buf_cache s) = page_len s" "unat (sf_ecc_steps s) \<le> length (sf_sect_bf s)"
  using assms by (simp_all add: snand_wf_def)

section \<open>Polling the chip\<close>

text \<open>\<open>now\<close> is the time at which the hardware is in a state: register accesses do not turn it back, and
  a reading of the clock is later than what came before.\<close>

definition clock_runs :: "'h bus \<Rightarrow> ('h \<Rightarrow> int) \<Rightarrow> bool" where
  "clock_runs B now \<longleftrightarrow>
     (\<forall>reg h. now h \<le> now (snd (bus_nfi_read B reg h))) \<and>
     (\<forall>reg val h. now h \<le> now (bus_nfi_write B reg val h)) \<and>
     (\<forall>reg cond tmo h. now h \<le> now (snd (bus_nfi_poll32 B reg cond tmo h))) \<and>
     (\<forall>h. now h < fst (bus_ktime_get B h) \<and> fst (bus_ktime_get B h) \<le> now (snd (bus_ktime_get B h)))"

lemma clock_prims:
  assumes "clock_runs B now" "t \<le> now (sf_hw s)"
  shows "t \<le> now (sf_hw (snd (nfi_read32 B reg s)))" "t \<le> now (sf_hw (nfi_write32 B reg val s))"
    "t \<le> now (sf_hw (snd (nfi_poll32 B reg cond tmo s)))"
  using assms
  by (auto simp: clock_runs_def nfi_read32_def nfi_write32_def nfi_poll32_def on_hw_def from_hw_def
      case_prod_beta intro: order_trans)

lemma clock_rmw:
  "clock_runs B now \<Longrightarrow> t \<le> now (sf_hw s) \<Longrightarrow> t \<le> now (sf_hw (nfi_rmw32 B reg clr put s))"
  by (simp add: nfi_rmw32_def clock_prims case_prod_beta Let_def)

lemma clock_bytes:
  assumes "clock_runs B now" "t \<le> now (sf_hw s)"
  shows "t \<le> now (sf_hw (nfi_write_bytes B i ds val s))"
    and "t \<le> now (sf_hw (snd (nfi_read_bytes B start i n val s)))"
proof -
  show "t \<le> now (sf_hw (nfi_write_bytes B i ds val s))"
    using assms(2)
    by (induction ds arbitrary: i val s) (simp_all add: clock_prims [OF assms(1)] Let_def)
  show "t \<le> now (sf_hw (snd (nfi_read_bytes B start i n val s)))"
    using assms(2)
    by (induction n arbitrary: start i val s)
       (simp_all add: clock_prims [OF assms(1)] case_prod_beta Let_def)
qed

lemma clock_get_feature:
  assumes "clock_runs B now" "t \<le> now (sf_hw s)"
  shows "t \<le> now (sf_hw (snd (mtk_snand_get_feature B addr s)))"
proof -
  note c = clock_prims [OF assms(1)] clock_rmw [OF assms(1)] clock_bytes [OF assms(1)]
  have r: "t \<le> now (sf_hw (snd (mtk_snand_mac_reset B s)))" if "t \<le> now (sf_hw s)" for s
    using that by (simp add: mtk_snand_mac_reset_def c case_prod_beta Let_def)
  have t: "t \<le> now (sf_hw (snd (mtk_snand_mac_trigger B a b s)))" if "t \<le> now (sf_hw s)" for a b s
    using that by (simp add: mtk_snand_mac_trigger_def c case_prod_beta Let_def)
  show ?thesis
    using assms(2)
    by (simp add: mtk_snand_get_feature_def mtk_snand_mac_io_def nfi_write_data_def nfi_read_data_def
        c r t case_prod_beta Let_def)
qed

lemma and_status: "(0 :: int) \<le> val AND (SNAND_STATUS_ERASE_FAIL OR SNAND_STATUS_PROGRAM_FAIL)"
  by (simp add: SNAND_STATUS_ERASE_FAIL_def SNAND_STATUS_PROGRAM_FAIL_def)

text \<open>The loop ends when the clock has passed the limit, at the latest.\<close>

lemma poll_status_loop_ok:
  assumes c: "clock_runs B now"
  shows "ok (poll_status_loop B time_start tmo s) (\<lambda>(ret, s').
     strip s' = strip s \<and> (ret = - ETIMEDOUT \<or> 0 \<le> ret))"
proof (induction "nat (time_start + tmo + 1 - now (sf_hw s))" arbitrary: s rule: less_induct)
  case less
  obtain val s1 where g: "mtk_snand_get_feature B SNAND_FEATURE_STATUS_ADDR s = (val, s1)" by fastforce
  obtain late s2 where t: "timer_is_timeout B time_start tmo s1 = (late, s2)" by fastforce
  have s1: "strip s1 = strip s" "now (sf_hw s) \<le> now (sf_hw s1)"
    using strip_features(1) [of B SNAND_FEATURE_STATUS_ADDR s]
      clock_get_feature [OF c order_refl, of s SNAND_FEATURE_STATUS_ADDR] g by simp_all
  have s2: "strip s2 = strip s1" using strip_platform(2) [of B time_start tmo s1] t by simp
  have n: "s2 = s1\<lparr>sf_hw := snd (bus_ktime_get B (sf_hw s1))\<rparr>"
      "late \<longleftrightarrow> time_start + tmo < fst (bus_ktime_get B (sf_hw s1))"
    using t by (auto simp: timer_is_timeout_def from_hw_def case_prod_beta Let_def)
  have k: "now (sf_hw s1) < fst (bus_ktime_get B (sf_hw s1))"
      "fst (bus_ktime_get B (sf_hw s1)) \<le> now (sf_hw s2)"
    using c by (simp_all add: clock_runs_def n(1))
  show ?case
  proof (cases "val AND SNAND_STATUS_OIP = 0 \<or> late")
    case True
    then show ?thesis
      using s1 s2 and_status by (subst poll_status_loop.simps) (auto simp: g t Let_def)
  next
    case False
    then have "nat (time_start + tmo + 1 - now (sf_hw s2)) < nat (time_start + tmo + 1 - now (sf_hw s))"
      using n(2) k s1(2) by simp
    from less [OF this] show ?thesis
      using False s1 s2 by (subst poll_status_loop.simps) (simp add: g t Let_def)
  qed
qed

lemma poll_status_ok:
  assumes "clock_runs B now"
  shows "ok (mtk_snand_poll_status B us s) (\<lambda>(ret, s'). strip s' = strip s \<and> (ret = - ETIMEDOUT \<or> 0 \<le> ret))"
  unfolding mtk_snand_poll_status_def Let_def case_prod_beta
  by (rule ok_mono [OF poll_status_loop_ok [OF assms]]) (simp add: frame case_prod_beta)

section \<open>Reading\<close>

text \<open>The kernel's functions return 0 or a negative error number.\<close>

definition errno_bus :: "'h bus \<Rightarrow> bool" where
  "errno_bus B \<longleftrightarrow>
     (\<forall>reg cond tmo h. fst (bus_nfi_poll32 B reg cond tmo h) \<le> 0) \<and>
     (\<forall>reg cond tmo h. fst (bus_ecc_poll16 B reg cond tmo h) \<le> 0) \<and>
     (\<forall>m len dir h. fst (bus_dma_map B m len dir h) \<le> 0)"

lemma errno_poll32: "errno_bus B \<Longrightarrow> fst (nfi_poll32 B reg cond tmo s) \<le> 0"
  by (simp add: errno_bus_def nfi_poll32_def from_hw_def case_prod_beta Let_def)

lemma errno_mac_io: "errno_bus B \<Longrightarrow> fst (mtk_snand_mac_io B out inlen s) \<le> 0"
  by (simp add: mtk_snand_mac_io_def mtk_snand_mac_trigger_def errno_poll32 EINVAL_def
      case_prod_beta Let_def)

lemma errno_mac_out: "errno_bus B \<Longrightarrow> fst (mac_out B out s) \<le> 0"
  by (simp add: mac_out_def errno_mac_io case_prod_beta Let_def)

definition bf_ok :: "'h mtk_snand \<Rightarrow> bool" where
  "bf_ok s \<longleftrightarrow> (\<forall>k < unat (sf_ecc_steps s). sf_sect_bf s ! k \<le> uint (sf_ecc_strength s))"

lemma read_fdm_sector_ok:
  assumes "snand_wf s" and "i < unat (sf_ecc_steps s)"
  shows "ok (read_fdm_sector B i s) (\<lambda>s'. shape s' = shape s)"
proof -
  obtain n S F E where sz: "sizes s = (n, S, F, E)" by (cases "sizes s") auto
  note w = snand_wfD [OF assms(1)]
  note sf = sizes_facts [OF w(1) sz] and o = sector_offsets [OF w(1) sz assms(2) [unfolded sizes_facts(1) [OF w(1) sz]]]
  define s1 where "s1 = snd (nfi_read32 B (NFI_FDML (of_nat i)) s)"
  define s2 where "s2 = snd (nfi_read32 B (NFI_FDMM (of_nat i)) s1)"
  have st: "strip s2 = strip s" by (simp add: s1_def s2_def frame)
  note sh = strip_shape [OF st] and pc = strip_fields(1) [OF st]
  have "unat (sf_writesize s2) = n * S" "unat (fdm_size s2) = F" "length (sf_page_cache s2) = page_len s"
    using shape_conf [OF sh] sf(3,13) pc w(3) by simp_all
  then show ?thesis
    using o(5,7) sh
    by (simp add: read_fdm_sector_def case_prod_beta Let_def ok_bind flip: s1_def s2_def)
qed

lemma read_fdm_ok:
  fixes s :: "'a mtk_snand"
  assumes "snand_wf s"
  shows "ok (mtk_snand_read_fdm B s) (\<lambda>s'. shape s' = shape s)"
  unfolding mtk_snand_read_fdm_def
proof (rule run_all_upt [where I = "\<lambda>j s'. shape s' = shape s"])
  fix j and s' :: "'a mtk_snand"
  assume j: "j < unat (sf_ecc_steps s)" and s': "shape s' = shape s"
  have "ok (read_fdm_sector B j s') (\<lambda>s''. shape s'' = shape s')"
    using shape_wf(1) [OF s'] assms j shape_conf(3) [OF s'] by (intro read_fdm_sector_ok) simp_all
  then show "ok (read_fdm_sector B j s') (\<lambda>s''. shape s'' = shape s)" by (simp add: s')
qed simp

lemma check_decode_error_ok:
  fixes s :: "'a mtk_snand"
  assumes "snand_wf s"
  shows "ok (mtk_ecc_check_decode_error B s) (\<lambda>(ret, s'). shape s' = shape s \<and> bf_ok s')"
proof -
  let ?n = "unat (sf_ecc_steps s)" and ?st = "uint (sf_ecc_strength s)"
  let ?I = "\<lambda>j (ret :: int, s' :: 'a mtk_snand). shape s' = shape s \<and> (\<forall>k < j. sf_sect_bf s' ! k \<le> ?st)"
  have "ok (run_all (decode_error_step B) [0..<?n] (0, s)) (?I ?n)"
  proof (rule run_all_upt [where I = ?I])
    fix j x assume j: "j < ?n" and I: "?I j x"
    obtain ret s' where x: "x = (ret, s')" by (cases x)
    define s1 where "s1 = snd (ecc_read32 B (ECC_DECENUM (of_nat (j div 4))) s')"
    have st: "strip s1 = strip s'" by (simp add: s1_def frame)
    have sh: "shape s1 = shape s" using strip_shape [OF st] I by (simp add: x)
    have bf: "sf_sect_bf s1 = sf_sect_bf s'" by (rule strip_fields(3) [OF st])
    have len: "j < length (sf_sect_bf s')"
      using snand_wfD(5) [OF assms] shape_conf(11) [OF sh] bf j by simp
    have strength: "sf_ecc_strength s1 = sf_ecc_strength s" by (rule shape_conf(7) [OF sh])
    have upd: "\<forall>k < Suc j. (sf_sect_bf s')[j := v] ! k \<le> ?st" if "v \<le> ?st" for v
      using I that len by (auto simp: x nth_list_update less_Suc_eq)
    have upd1: "\<forall>k < Suc j. (sf_sect_bf s')[j := - 1] ! k \<le> ?st"
      by (rule upd, rule order_trans [OF _ unsigned_greater_eq]) simp
    have le: "uint w \<le> ?st" if "w \<le> sf_ecc_strength s" for w
      using that by (simp add: word_le_def)
    define e where "e = drop_bit (j mod 4 * unat (ed_errnum_shift (sf_ecc_soc s')))
        (fst (ecc_read32 B (ECC_DECENUM (of_nat (j div 4))) s')) AND
        (2 ^ unat (ed_errnum_bits (sf_ecc_soc s')) - 1)"
    have step: "decode_error_step B j x =
        (if e \<le> sf_ecc_strength s then Some (ret, s1\<lparr>sf_sect_bf := (sf_sect_bf s')[j := uint e]\<rparr>)
         else Some (- EBADMSG, s1\<lparr>sf_sect_bf := (sf_sect_bf s')[j := - 1]\<rparr>))"
      using len by (simp add: x decode_error_step_def case_prod_beta Let_def store_def bf strength
          flip: s1_def e_def)
    have put: "?I (Suc j) (r, s1\<lparr>sf_sect_bf := (sf_sect_bf s')[j := v]\<rparr>)"
      if "\<forall>k < Suc j. (sf_sect_bf s')[j := v] ! k \<le> ?st" for r v
    proof -
      have "sf_sect_bf (s1\<lparr>sf_sect_bf := (sf_sect_bf s')[j := v]\<rparr>) = (sf_sect_bf s')[j := v]" by simp
      moreover have "shape (s1\<lparr>sf_sect_bf := (sf_sect_bf s')[j := v]\<rparr>) = shape s"
        using sh bf by simp
      ultimately show ?thesis using that by (simp only: split_conv simp_thms)
    qed
    show "ok (decode_error_step B j x) (?I (Suc j))"
      unfolding step using put [OF upd [OF le]] put [OF upd1]
      by (cases "e \<le> sf_ecc_strength s") (simp_all only: if_True if_False ok_Some)
  qed simp
  then show ?thesis
    unfolding mtk_ecc_check_decode_error_def
  proof (rule ok_mono)
    fix x assume I: "?I ?n x"
    obtain ret s' where x: "x = (ret, s')" by (cases x)
    have sh: "shape s' = shape s" using I by (simp add: x)
    show "case x of (ret, s') \<Rightarrow> shape s' = shape s \<and> bf_ok s'"
      using I by (simp add: x bf_ok_def shape_conf(3,7) [OF sh])
  qed
qed

lemma unat_ecc_offset:
  assumes "page_format s" and "sizes s = (n, S, F, E)" and "i < n"
  shows "unat (sf_ecc_steps s * fdm_size s + of_nat i * ecc_room s) = n * F + i * E"
proof -
  note sf = sizes_facts [OF assms(1,2)] and o = sector_offsets [OF assms]
  have "n * F + i * E < 2 ^ 32" using o(6,7) sf(20) by simp
  then show ?thesis
    using unat_add_u32 [of "sf_ecc_steps s * fdm_size s" "of_nat i * ecc_room s"] sf(6) o(3) by simp
qed

lemma read_ecc_parity_ok:
  assumes "snand_wf s" and "i < unat (sf_ecc_steps s)"
  shows "ok (mtk_snand_read_ecc_parity B page (of_nat i) s) (\<lambda>(ret, s').
     shape s' = shape s \<and> sf_sect_bf s' = sf_sect_bf s \<and> (errno_bus B \<longrightarrow> ret \<le> 0))"
proof -
  obtain n S F E where sz: "sizes s = (n, S, F, E)" by (cases "sizes s") auto
  note w = snand_wfD [OF assms(1)]
  note sf = sizes_facts [OF w(1) sz]
  have i: "i < n" using assms(2) sf(1) by simp
  note o = sector_offsets [OF w(1) sz i]
  let ?io = "\<lambda>out. mtk_snand_mac_io B out (ecc_room s) s"
  have st: "strip (snd (snd (?io out))) = strip s" for out by (simp add: frame)
  note sh = strip_shape [OF st] and pc = strip_fields [OF st]
  have len: "length (fst (snd (?io out))) \<le> E" for out
    using length_mac_io [of B out "ecc_room s" s] sf(5) by auto
  have fit: "n * S + (n * F + i * E) + length (fst (snd (?io out))) \<le> page_len s" for out
    using o(6,7) len [of out] by linarith
  have ws: "unat (sf_writesize (snd (snd (?io out)))) = n * S" for out
    using sf(13) shape_conf(1) [OF sh] by simp
  show ?thesis
  proof (cases "4 + unat (ecc_room s) > unat SNF_GPRAM_SIZE")
    case True
    then show ?thesis by (simp add: mtk_snand_read_ecc_parity_def ENOTSUPP_def)
  next
    case False
    then show ?thesis
      using fit
      by (simp add: mtk_snand_read_ecc_parity_def case_prod_beta Let_def ok_bind unat_ecc_offset [OF w(1) sz i]
          w(3) ws pc sh errno_mac_io)
  qed
qed

lemma int_le_uint: "int z \<le> uint (w :: u32) \<longleftrightarrow> z \<le> unat w"
  using of_nat_le_iff [of z "unat w", where ?'a = int] by simp

lemma fixup_keeps:
  assumes "snand_wf s" and "i < unat (sf_ecc_steps s)"
  shows "ok (mtk_ecc_fixup_empty_sector (of_nat i) s) (\<lambda>(ret, s').
     shape s' = shape s \<and> sf_sect_bf s' = sf_sect_bf s \<and>
     (ret < 0 \<or> 0 \<le> ret \<and> ret \<le> uint (sf_ecc_strength s)))"
  by (rule ok_mono [OF fixup_empty_sector_ok [OF snand_wfD(1-3) [OF assms(1)] assms(2)]])
     (auto simp: EBADMSG_def bits_set_length int_le_uint split: if_splits)

text \<open>A return value that is an error, or at most the ECC strength when the kernel's functions
  return error numbers.\<close>

definition flips_ret :: "'h bus \<Rightarrow> 'h mtk_snand \<Rightarrow> int \<Rightarrow> bool" where
  "flips_ret B s ret \<longleftrightarrow> (errno_bus B \<longrightarrow> ret \<le> uint (sf_ecc_strength s))"

lemma flips_ret_le: "ret \<le> uint (sf_ecc_strength s) \<Longrightarrow> flips_ret B s ret"
  by (simp add: flips_ret_def)

lemma flips_ret_errno: "(errno_bus B \<Longrightarrow> ret \<le> 0) \<Longrightarrow> flips_ret B s ret"
  unfolding flips_ret_def by (blast intro: order_trans [OF _ unsigned_greater_eq])

lemma flips_ret_shape:
  assumes "shape s' = shape s"
  shows "flips_ret B s' = flips_ret B s"
  by (intro ext) (simp add: flips_ret_def shape_conf(7) [OF assms])

lemma bf_ok_update:
  assumes "bf_ok s" "v \<le> uint (sf_ecc_strength s)" "i < length (sf_sect_bf s)"
  shows "bf_ok (s\<lparr>sf_sect_bf := (sf_sect_bf s)[i := v]\<rparr>)"
  using assms by (simp add: bf_ok_def nth_list_update)

lemma bf_ok_cong:
  assumes "shape s' = shape s" and "sf_sect_bf s' = sf_sect_bf s"
  shows "bf_ok s' = bf_ok s"
  by (simp add: bf_ok_def assms(2) shape_conf(3,7) [OF assms(1)])

lemma check_ecc_loop_ok:
  fixes s :: "'a mtk_snand"
  assumes "snand_wf s" "bf_ok s" and "\<And>i. i \<in> set is \<Longrightarrow> i < unat (sf_ecc_steps s)"
    and "ret \<le> 0" "mx \<le> uint (sf_ecc_strength s)"
  shows "ok (check_ecc_loop B page is ret mx s) (\<lambda>(r, s'). shape s' = shape s \<and>
     (case r of Inl rc \<Rightarrow> flips_ret B s rc | Inr (ret', mx') \<Rightarrow> ret' \<le> 0 \<and> mx' \<le> uint (sf_ecc_strength s)))"
  using assms
proof (induction "is" arbitrary: ret mx s)
  case (Cons i "is" ret mx s)
  let ?Q = "\<lambda>(r, s'). shape s' = shape s \<and>
     (case r of Inl rc \<Rightarrow> flips_ret B s rc | Inr (ret', mx') \<Rightarrow> ret' \<le> 0 \<and> mx' \<le> uint (sf_ecc_strength s))"
  note w = Cons.prems(1) and b = Cons.prems(2) and mx = Cons.prems(5)
  have i: "i < unat (sf_ecc_steps s)" using Cons.prems(3) by simp
  have len: "i < length (sf_sect_bf s)" using snand_wfD(5) [OF w] i by simp
  have IH: "ok (check_ecc_loop B page is ret' mx' s') ?Q"
    if "shape s' = shape s" "bf_ok s'" "ret' \<le> 0" "mx' \<le> uint (sf_ecc_strength s)" for ret' mx' s'
    using Cons.IH [of s' ret' mx', unfolded flips_ret_shape [OF that(1)] shape_wf(1) [OF that(1)]
        shape_conf(3,7) [OF that(1)], unfolded that(1)] that w Cons.prems(3) by simp
  have bf: "sf_sect_bf s ! i \<le> uint (sf_ecc_strength s)" using b i by (simp add: bf_ok_def)
  show ?case
  proof (cases "sf_sect_bf s ! i \<ge> 0")
    case True
    then show ?thesis using IH [of s] b bf mx Cons.prems(4) len by (simp add: load_def)
  next
    case False
    have rest: "ok (if rc < 0 then check_ecc_loop B page is (- EBADMSG) mx s2
          else if rc \<noteq> 0 then do { sb \<leftarrow> store (sf_sect_bf s2) i rc;
              check_ecc_loop B page is ret (if rc > mx then rc else mx) (s2\<lparr>sf_sect_bf := sb\<rparr>) }
          else do { sb \<leftarrow> store (sf_sect_bf s2) i 0;
              check_ecc_loop B page is ret mx (s2\<lparr>sf_sect_bf := sb\<rparr>) }) ?Q"
      if s2: "shape s2 = shape s" "sf_sect_bf s2 = sf_sect_bf s"
        and rc: "rc < 0 \<or> 0 \<le> rc \<and> rc \<le> uint (sf_ecc_strength s)" for rc s2
    proof -
      have upd: "shape (s2\<lparr>sf_sect_bf := (sf_sect_bf s)[i := v]\<rparr>) = shape s"
          "bf_ok (s2\<lparr>sf_sect_bf := (sf_sect_bf s)[i := v]\<rparr>)"
        if "v \<le> uint (sf_ecc_strength s)" for v
        using that s2 b bf_ok_cong [OF s2] bf_ok_update [of s2 v i] len
        by (simp_all add: shape_conf(7) [OF s2(1)])
      have bad: "ok (check_ecc_loop B page is (- EBADMSG) mx s2) ?Q"
        using IH [of s2 "- EBADMSG" mx] s2 b mx bf_ok_cong [OF s2] by (simp add: EBADMSG_def)
      have good: "ok (check_ecc_loop B page is ret (if rc > mx then rc else mx)
          (s2\<lparr>sf_sect_bf := (sf_sect_bf s)[i := rc]\<rparr>)) ?Q" if "\<not> rc < 0"
        using IH [OF upd(1) upd(2), of rc ret "if rc > mx then rc else mx"] rc that Cons.prems(4) mx by simp
      have zero: "ok (check_ecc_loop B page is ret mx (s2\<lparr>sf_sect_bf := (sf_sect_bf s)[i := 0]\<rparr>)) ?Q"
        using IH [OF upd(1) upd(2), of 0 ret mx] Cons.prems(4) mx by simp
      show ?thesis using bad good zero len s2(2) by (simp add: store_def)
    qed
    have fixup: "ok (do { (rc, s2) \<leftarrow> mtk_ecc_fixup_empty_sector (of_nat i) s1;
          (if rc < 0 then check_ecc_loop B page is (- EBADMSG) mx s2
          else if rc \<noteq> 0 then do { sb \<leftarrow> store (sf_sect_bf s2) i rc;
              check_ecc_loop B page is ret (if rc > mx then rc else mx) (s2\<lparr>sf_sect_bf := sb\<rparr>) }
          else do { sb \<leftarrow> store (sf_sect_bf s2) i 0;
              check_ecc_loop B page is ret mx (s2\<lparr>sf_sect_bf := sb\<rparr>) }) }) ?Q"
      if s1: "shape s1 = shape s" "sf_sect_bf s1 = sf_sect_bf s" for s1
      by (rule ok_bind2 [OF fixup_keeps], unfold shape_wf(1) [OF s1(1)] shape_conf(3,7) [OF s1(1)],
          rule w, rule i, rule rest) (use s1 in simp_all)
    have "ok (do { (rc, s1) \<leftarrow> mtk_snand_read_ecc_parity B page (of_nat i) s;
        (if rc \<noteq> 0 then Some (Inl rc, s1)
         else do { (rc, s2) \<leftarrow> mtk_ecc_fixup_empty_sector (of_nat i) s1;
          (if rc < 0 then check_ecc_loop B page is (- EBADMSG) mx s2
          else if rc \<noteq> 0 then do { sb \<leftarrow> store (sf_sect_bf s2) i rc;
              check_ecc_loop B page is ret (if rc > mx then rc else mx) (s2\<lparr>sf_sect_bf := sb\<rparr>) }
          else do { sb \<leftarrow> store (sf_sect_bf s2) i 0;
              check_ecc_loop B page is ret mx (s2\<lparr>sf_sect_bf := sb\<rparr>) }) }) }) ?Q"
      by (rule ok_bind2 [OF read_ecc_parity_ok [OF w i]]) (use fixup flips_ret_errno in auto)
    then show ?thesis using False len by (simp add: load_def)
  qed
qed simp

lemma check_ecc_result_ok:
  assumes "snand_wf s" "bf_ok s"
  shows "ok (mtk_snand_check_ecc_result B page s) (\<lambda>(ret, s'). shape s' = shape s \<and> flips_ret B s ret)"
  unfolding mtk_snand_check_ecc_result_def
  by (rule ok_bind2 [OF check_ecc_loop_ok [OF assms]])
     (auto simp: flips_ret_def intro: order_trans [OF _ unsigned_greater_eq] split: sum.splits)

lemma shape_dma_arrived: "shape (dma_arrived B s) = shape s"
  by (simp add: dma_arrived_def)

lemma errno_ecc_poll:
  "errno_bus B \<Longrightarrow> fst (mtk_ecc_wait_decoder_done B s) \<le> 0"
  by (simp add: mtk_ecc_wait_decoder_done_def errno_bus_def from_hw_def case_prod_beta Let_def)

lemma read_cache_decode_ok:
  assumes "snand_wf s"
  shows "ok (read_cache_decode B page s) (\<lambda>(ret, s'). shape s' = shape s \<and> flips_ret B s ret)"
proof -
  define s1 where "s1 = snd (mtk_ecc_wait_decoder_done B s)"
  have s1: "shape s1 = shape s" by (simp add: s1_def shape_frame)
  have w1: "snand_wf s1" using assms shape_wf(1) [OF s1] by simp
  have "ok (do { s \<leftarrow> mtk_snand_read_fdm B s1; (_, s) \<leftarrow> mtk_ecc_check_decode_error B s;
      mtk_snand_check_ecc_result B page (mtk_snand_ecc_decoder_stop B s) })
      (\<lambda>(ret, s'). shape s' = shape s \<and> flips_ret B s ret)"
  proof (rule ok_bindI [OF read_fdm_ok [OF w1]])
    fix s2 :: "'a mtk_snand" assume s2: "shape s2 = shape s1"
    have w2: "snand_wf s2" using w1 shape_wf(1) [OF s2] by simp
    show "ok (do { (_, s) \<leftarrow> mtk_ecc_check_decode_error B s2;
        mtk_snand_check_ecc_result B page (mtk_snand_ecc_decoder_stop B s) })
        (\<lambda>(ret, s'). shape s' = shape s \<and> flips_ret B s ret)"
    proof (rule ok_bind2 [OF check_decode_error_ok [OF w2]])
      fix r :: int and s3 :: "'a mtk_snand" assume s3: "shape s3 = shape s2 \<and> bf_ok s3"
      let ?s4 = "mtk_snand_ecc_decoder_stop B s3"
      have st: "strip ?s4 = strip s3" by (simp add: frame)
      have sh: "shape ?s4 = shape s" using strip_shape [OF st] s1 s2 s3 by simp
      have "bf_ok ?s4" using bf_ok_cong [OF strip_shape [OF st] strip_fields(3) [OF st]] s3 by simp
      moreover have "snand_wf ?s4" using assms shape_wf(1) [OF sh] by simp
      ultimately show "ok (mtk_snand_check_ecc_result B page ?s4)
          (\<lambda>(ret, s'). shape s' = shape s \<and> flips_ret B s ret)"
        using check_ecc_result_ok [of ?s4 B page] by (simp add: sh flips_ret_shape [OF sh])
    qed
  qed
  moreover have "flips_ret B s (fst (mtk_ecc_wait_decoder_done B s))"
    by (rule flips_ret_errno) (rule errno_ecc_poll)
  ultimately show ?thesis
    using s1 by (simp add: read_cache_decode_def case_prod_beta Let_def flip: s1_def)
qed

lemma errno_read_wait:
  "errno_bus B \<Longrightarrow> fst (read_cache_wait B s) \<le> 0"
  by (simp add: read_cache_wait_def irq_completion_wait_def ETIMEDOUT_def errno_poll32
      case_prod_beta Let_def)

lemma read_cache_ok:
  assumes "snand_wf s"
  shows "ok (mtk_snand_read_cache B page raw s) (\<lambda>(ret, s'). shape s' = shape s \<and> flips_ret B s ret)"
proof -
  define s1 where "s1 = read_cache_setup B page raw s"
  define map where "map = dma_mem_map B (sf_writesize s1 + sf_oobsize s1) False s1"
  define addr where "addr = fst (snd map)"
  define s2 where "s2 = snd (snd map)"
  define w where "w = read_cache_wait B (read_cache_start B raw addr s2)"
  define s3 where "s3 = dma_arrived B (snd w)"
  have s2: "shape s2 = shape s" by (simp add: s2_def map_def s1_def shape_frame)
  have "shape (snd w) = shape s2" by (rule strip_shape) (simp add: w_def frame)
  then have s3: "shape s3 = shape s" using s2 by (simp add: s3_def shape_dma_arrived)
  have w3: "snand_wf s3" using assms shape_wf(1) [OF s3] by simp
  have "flips_ret B s (fst map)"
    by (rule flips_ret_errno)
       (simp add: map_def dma_mem_map_def errno_bus_def case_prod_beta Let_def)
  moreover have "flips_ret B s (fst w)"
    by (rule flips_ret_errno) (simp add: w_def errno_read_wait)
  moreover have "ok (read_cache_decode B page s3) (\<lambda>(ret, s'). shape s' = shape s \<and> flips_ret B s ret)"
    using read_cache_decode_ok [OF w3, of B page] by (simp add: s3 flips_ret_shape [OF s3])
  then have "ok (if fst w \<noteq> 0 \<or> raw then Some (fst w, s3) else read_cache_decode B page s3)
      (\<lambda>(ret, s'). shape s' = shape s \<and> flips_ret B s ret)"
    using calculation s3 by simp
  then have main: "ok (do { (ret, s) \<leftarrow> (if fst w \<noteq> 0 \<or> raw then Some (fst w, s3) else read_cache_decode B page s3);
      Some (ret, read_cache_cleanup B addr s) }) (\<lambda>(ret, s'). shape s' = shape s \<and> flips_ret B s ret)"
    by (rule ok_bind2) (simp add: shape_frame)
  have "mtk_snand_read_cache B page raw s = (if fst map \<noteq> 0 then Some (fst map, s2)
      else do { (ret, s) \<leftarrow> (if fst w \<noteq> 0 \<or> raw then Some (fst w, s3) else read_cache_decode B page s3);
        Some (ret, read_cache_cleanup B addr s) })"
    by (simp add: mtk_snand_read_cache_def case_prod_beta Let_def
        flip: s1_def map_def addr_def s2_def w_def s3_def)
  then show ?thesis
    using main s2 calculation(1) by (cases "fst map \<noteq> 0") (simp_all only: simp_thms if_True if_False ok_Some split_conv)
qed

lemma read_cache_retry_ok:
  assumes "snand_wf s"
  shows "ok (read_cache_retry B page raw left cnt s) (\<lambda>(ret, cnt', s'). shape s' = shape s \<and> flips_ret B s ret)"
  using assms
proof (induction left arbitrary: cnt s)
  case 0
  show ?case
    unfolding read_cache_retry.simps [of _ _ _ 0] nat.case
    by (rule ok_bind2 [OF read_cache_ok [OF 0]]) simp
next
  case (Suc left)
  have again: "ok (read_cache_retry B page raw left c s1) (\<lambda>(ret, cnt', s'). shape s' = shape s \<and> flips_ret B s ret)"
    if s1: "shape s1 = shape s" for c s1
    using Suc.IH [of s1 c] Suc.prems
    by (simp add: shape_wf(1) [OF s1] s1 flips_ret_shape [OF s1])
  show ?case
    unfolding read_cache_retry.simps [of _ _ _ "Suc left"] nat.case
    by (rule ok_bind2 [OF read_cache_ok [OF Suc.prems]]) (simp add: again shape_frame)
qed

lemma bm_swap_keeps:
  assumes "snand_wf s"
  shows "ok (mtk_snand_bm_swap_raw s) (\<lambda>s'. shape s' = shape s)"
    "ok (mtk_snand_fdm_bm_swap_raw s) (\<lambda>s'. shape s' = shape s)"
    "ok (mtk_snand_bm_swap s) (\<lambda>s'. shape s' = shape s)"
    "ok (mtk_snand_fdm_bm_swap s) (\<lambda>s'. shape s' = shape s)"
proof -
  obtain n S F E where sz: "sizes s = (n, S, F, E)" by (cases "sizes s") auto
  note w = snand_wfD [OF assms]
  show "ok (mtk_snand_bm_swap_raw s) (\<lambda>s'. shape s' = shape s)"
    "ok (mtk_snand_fdm_bm_swap_raw s) (\<lambda>s'. shape s' = shape s)"
    "ok (mtk_snand_bm_swap s) (\<lambda>s'. shape s' = shape s)"
    "ok (mtk_snand_fdm_bm_swap s) (\<lambda>s'. shape s' = shape s)"
    by (simp_all add: bm_swap_eqs [OF w(1) sz w(3)])
qed

text \<open>The caller's buffers are long enough, and keep their length.\<close>

definition bufs_fit :: "'h mtk_snand \<Rightarrow> bytes option \<Rightarrow> bytes option \<Rightarrow> bool" where
  "bufs_fit s buf oob \<longleftrightarrow> wide (unat (sf_writesize s)) buf \<and> wide (unat (sf_oobsize s)) oob"

definition same_len :: "bytes option \<Rightarrow> bytes option \<Rightarrow> bool" where
  "same_len b b' \<longleftrightarrow> rel_option (\<lambda>x y. length x = length y) b b'"

lemma same_len_refl [simp]: "same_len b b"
  by (simp add: same_len_def option.rel_refl)

lemma bufs_fit_shape: "shape s' = shape s \<Longrightarrow> bufs_fit s' = bufs_fit s"
  by (intro ext) (simp add: bufs_fit_def shape_def mtk_snand_conf.truncate_def)

lemma copy_out_ok:
  assumes "snand_wf s" "bufs_fit s buf oob" "k \<le> unat (sf_oobsize s)"
  shows "ok (copy_out s buf oob k) (\<lambda>(buf', oob', s'). s' = s \<and> same_len buf buf' \<and> same_len oob oob')"
proof -
  have len: "length (sf_page_cache s) = unat (sf_writesize s) + unat (sf_oobsize s)"
    using snand_wfD(3) [OF assms(1)] by (simp add: page_len_def)
  have "ok (case buf of None \<Rightarrow> Some None
      | Some b \<Rightarrow> map_option Some (memcpy b 0 (sf_page_cache s) 0 (unat (sf_writesize s)))) (same_len buf)"
    using assms(2) len
    by (auto simp: bufs_fit_def wide_def same_len_def memcpy_def slice_def blit_def split: option.splits)
  moreover have "ok (case oob of None \<Rightarrow> Some None
      | Some ob \<Rightarrow> do {
          ob \<leftarrow> memset ob 0 0xff (unat (sf_oobsize s));
          map_option Some (memcpy ob 0 (sf_page_cache s) (unat (sf_writesize s)) k)
        }) (same_len oob)"
    using assms(2,3) len
    by (auto simp: bufs_fit_def wide_def same_len_def memcpy_def memset_def slice_def blit_def
        split: option.splits)
  ultimately show ?thesis by (auto simp: copy_out_def Let_def ok_bind elim!: ok_mono)
qed

lemma spare_counts:
  assumes "snand_wf s"
  shows "unat (sf_ecc_steps s * sf_spare_per_sector s) \<le> unat (sf_oobsize s)"
    "unat (sf_ecc_steps s * fdm_size s) \<le> unat (sf_oobsize s)"
proof -
  obtain n S F E where sz: "sizes s = (n, S, F, E)" by (cases "sizes s") auto
  note sf = sizes_facts [OF snand_wfD(1) [OF assms] sz]
  have "n * (F + E) < 2 ^ 32" using sf(9,20) by (simp add: algebra_simps)
  then have "unat (sf_ecc_steps s * sf_spare_per_sector s) = n * (F + E)"
    using unat_mul_u32 [of "sf_ecc_steps s" "sf_spare_per_sector s"] sf(1,4) by simp
  then show "unat (sf_ecc_steps s * sf_spare_per_sector s) \<le> unat (sf_oobsize s)" using sf(14) by simp
  show "unat (sf_ecc_steps s * fdm_size s) \<le> unat (sf_oobsize s)"
    using sf(6,14) by (simp add: algebra_simps)
qed

lemma deliver_page_ok:
  assumes "snand_wf s" "bufs_fit s buf oob"
  shows "ok (deliver_page s buf oob raw format) (\<lambda>(buf', oob', s').
     shape s' = shape s \<and> same_len buf buf' \<and> same_len oob oob')" (is "ok _ ?Q")
proof -
  obtain n S F E where sz: "sizes s = (n, S, F, E)" by (cases "sizes s") auto
  note w = snand_wfD [OF assms(1)]
  note sf = sizes_facts [OF w(1) sz]
  have plain: "ok (copy_out s' buf oob k) ?Q" if s': "shape s' = shape s" "k \<le> unat (sf_oobsize s')" for s' k
    by (rule ok_mono [OF copy_out_ok [of s' buf oob k]])
       (use assms s' in \<open>auto simp: shape_wf(1) [OF s'(1)] bufs_fit_shape [OF s'(1)]\<close>)
  consider "raw" "format" | "raw" "\<not> format" | "\<not> raw" by blast
  then show ?thesis
  proof cases
    case 1
    have copy: "ok (do { (buf, oob) \<leftarrow> mtk_snand_from_raw_page s2 buf oob; Some (buf, oob, s2) }) ?Q"
      if s2: "shape s2 = shape s" for s2
    proof -
      have "page_format s2" "sizes s2 = (n, S, F, E)" "length (sf_page_cache s2) = page_len s2"
        using w(1,3) sz by (simp_all add: shape_wf [OF s2] shape_conf(9) [OF s2])
      moreover have "wide (n * S) buf" "wide (n * F + n * E) oob"
        using assms(2) sf(13,14) by (auto simp: bufs_fit_def algebra_simps intro: wide_mono)
      ultimately show ?thesis
        using s2 by (simp add: from_raw_page_ok same_len_def option.rel_map option.rel_refl)
    qed
    have "ok (do { s \<leftarrow> mtk_snand_bm_swap_raw s; s \<leftarrow> mtk_snand_fdm_bm_swap_raw s;
        (buf, oob) \<leftarrow> mtk_snand_from_raw_page s buf oob; Some (buf, oob, s) }) ?Q"
    proof (rule ok_bindI [OF bm_swap_keeps(1) [OF assms(1)]])
      fix s1 :: "'a mtk_snand" assume s1: "shape s1 = shape s"
      have "snand_wf s1" using assms(1) shape_wf(1) [OF s1] by simp
      then show "ok (do { s \<leftarrow> mtk_snand_fdm_bm_swap_raw s1;
        (buf, oob) \<leftarrow> mtk_snand_from_raw_page s buf oob; Some (buf, oob, s) }) ?Q"
        by (rule ok_bindI [OF bm_swap_keeps(2)]) (simp add: copy s1)
    qed
    then show ?thesis using 1 by (simp add: deliver_page_def)
  next
    case 2
    then show ?thesis using plain [OF refl] spare_counts(1) [OF assms(1)] by (simp add: deliver_page_def)
  next
    case 3
    have "ok (do { s \<leftarrow> mtk_snand_bm_swap s; s \<leftarrow> mtk_snand_fdm_bm_swap s;
        copy_out s buf oob (unat (sf_ecc_steps s * fdm_size s)) }) ?Q"
    proof (rule ok_bindI [OF bm_swap_keeps(3) [OF assms(1)]])
      fix s1 :: "'a mtk_snand" assume s1: "shape s1 = shape s"
      have w1: "snand_wf s1" using assms(1) shape_wf(1) [OF s1] by simp
      show "ok (do { s \<leftarrow> mtk_snand_fdm_bm_swap s1;
          copy_out s buf oob (unat (sf_ecc_steps s * fdm_size s)) }) ?Q"
      proof (rule ok_bindI [OF bm_swap_keeps(4) [OF w1]])
        fix s2 :: "'a mtk_snand" assume s2: "shape s2 = shape s1"
        have "snand_wf s2" using w1 shape_wf(1) [OF s2] by simp
        then show "ok (copy_out s2 buf oob (unat (sf_ecc_steps s2 * fdm_size s2))) ?Q"
          using s1 s2 by (intro plain spare_counts) simp_all
      qed
    qed
    then show ?thesis using 3 by (simp add: deliver_page_def)
  qed
qed

end
