(* ===== verification/Snand_Total.thy ===== *)
theory Snand_Total
  imports Snand_Safe
begin

text \<open>
  The requests of the SPI-NAND driver on any hardware: reading and programming pages, erasing,
  testing and marking blocks, and the variants that fill and read the free bytes of the spare area.
  Every one of them returns, with the buffers and the description of the chip in shape.
\<close>

section \<open>Reading a page\<close>

lemma errno_page_op: "errno_bus B \<Longrightarrow> fst (mtk_snand_page_op B page cmd s) \<le> 0"
  by (simp add: mtk_snand_page_op_def errno_mac_out)

lemma same_len_trans: "same_len a b \<Longrightarrow> same_len b c \<Longrightarrow> same_len a c"
  by (auto simp: same_len_def option.rel_sel)

lemma fetch_page_ok:
  fixes s :: "'a mtk_snand"
  assumes "snand_wf s" "bufs_fit s buf oob"
  shows "ok (fetch_page B page dly buf oob raw format s) (\<lambda>(ret, buf', oob', s').
     shape s' = shape s \<and> same_len buf buf' \<and> same_len oob oob' \<and> flips_ret B s ret)"
  unfolding fetch_page_def
proof (rule ok_bind3 [OF read_cache_retry_ok [OF assms(1)]], rule ok_if)
  fix ret :: int and cnt and s1 :: "'a mtk_snand" assume s1: "shape s1 = shape s \<and> flips_ret B s ret"
  let ?s2 = "settle_delay B dly cnt ret s1"
  have s2: "shape ?s2 = shape s" using s1 by (simp add: settle_delay_def shape_frame)
  have "snand_wf ?s2" "bufs_fit ?s2 buf oob" using assms by (simp_all add: shape_wf(1) [OF s2] bufs_fit_shape [OF s2])
  from deliver_page_ok [OF this]
  show "ok (do { (buf, oob, s) \<leftarrow> deliver_page ?s2 buf oob raw format; Some (ret, buf, oob, s) })
      (\<lambda>(ret, buf', oob', s'). shape s' = shape s \<and> same_len buf buf' \<and> same_len oob oob' \<and> flips_ret B s ret)"
    by (rule ok_bind3) (use s1 s2 in simp)
qed simp

lemma do_read_page_ok:
  fixes s :: "'a mtk_snand"
  assumes "clock_runs B now" "snand_wf s" "bufs_fit s buf oob"
  shows "ok (mtk_snand_do_read_page B addr buf oob raw format s) (\<lambda>(ret, buf', oob', s').
     shape s' = shape s \<and> same_len buf buf' \<and> same_len oob oob' \<and> flips_ret B s ret)"
proof -
  define d where "d = mtk_snand_select_die_address B addr s"
  define page :: u32 where "page = ucast (drop_bit (unat (sf_writesize_shift (snd d))) (fst d))"
  define r where "r = nfi_read32 B SNF_DLY_CTL3 (snd d)"
  define op where "op = mtk_snand_page_op B page SNAND_CMD_READ_TO_CACHE (snd r)"
  have "strip (snd r) = strip s" by (simp add: r_def d_def frame)
  then have op: "shape (snd op) = shape s" by (intro strip_shape) (simp add: op_def frame)
  have e: "flips_ret B s (fst op)" by (rule flips_ret_errno) (simp add: op_def errno_page_op)
  have p: "ok (do { (ret, s) \<leftarrow> mtk_snand_poll_status B SNFI_POLL_INTERVAL (snd op);
       (if ret < 0 then Some (ret, buf, oob, s) else fetch_page B page (fst r) buf oob raw format s) })
     (\<lambda>(ret, buf', oob', s'). shape s' = shape s \<and> same_len buf buf' \<and> same_len oob oob' \<and> flips_ret B s ret)"
  proof (rule ok_bind2 [OF poll_status_ok [OF assms(1)]], rule ok_if)
    fix ret :: int and s2 :: "'a mtk_snand"
    assume "strip s2 = strip (snd op) \<and> (ret = - ETIMEDOUT \<or> 0 \<le> ret)"
    then have s2: "shape s2 = shape s" using op strip_shape [of s2 "snd op"] by simp
    show "ok (Some (ret, buf, oob, s2)) (\<lambda>(ret, buf', oob', s'). shape s' = shape s \<and> same_len buf buf' \<and>
        same_len oob oob' \<and> flips_ret B s ret)" if "ret < 0"
      using s2 that by (simp add: flips_ret_errno)
    show "ok (fetch_page B page (fst r) buf oob raw format s2) (\<lambda>(ret, buf', oob', s'). shape s' = shape s \<and>
        same_len buf buf' \<and> same_len oob oob' \<and> flips_ret B s ret)"
      using fetch_page_ok [of s2 buf oob B page "fst r" raw format] assms(2,3)
      by (simp add: shape_wf(1) [OF s2] bufs_fit_shape [OF s2] flips_ret_shape [OF s2] s2)
  qed
  show ?thesis
    using e op p unfolding op_def r_def page_def d_def
    by (simp add: mtk_snand_do_read_page_def case_prod_beta Let_def)
qed

lemma read_page_ok:
  fixes s :: "'a mtk_snand"
  assumes "clock_runs B now" "snand_wf s" "bufs_fit s buf oob"
  shows "ok (mtk_snand_read_page B addr buf oob raw s) (\<lambda>(ret, buf', oob', s').
     shape s' = shape s \<and> same_len buf buf' \<and> same_len oob oob' \<and> flips_ret B s ret)"
  using do_read_page_ok [OF assms]
  by (simp add: mtk_snand_read_page_def flips_ret_errno EINVAL_def)

section \<open>Programming a page\<close>

lemma all_ff_ok: "off + n \<le> length p \<Longrightarrow> ok (all_ff p off n) (\<lambda>_. True)"
  by (induction n arbitrary: off) (simp_all add: ok_bind)

lemma is_empty_page_ok:
  assumes "snand_wf s" "bufs_fit s buf oob"
  shows "ok (mtk_snand_is_empty_page s buf oob) (\<lambda>_. True)"
proof -
  obtain n S F E where sz: "sizes s = (n, S, F, E)" by (cases "sizes s") auto
  note w = snand_wfD [OF assms(1)]
  note sf = sizes_facts [OF w(1) sz]
  have fdm: "ok (fdm_all_ff s p js) (\<lambda>_. True)" if "unat (sf_oobsize s) \<le> length p" "\<And>j. j \<in> set js \<Longrightarrow> j < n" for p js
    using that
  proof (induction js)
    case (Cons j js)
    have j: "j < n" using Cons.prems by simp
    have "j * F + unat (fdm_ecc_size s) \<le> length p"
      using page_format_nat(8) [OF w(1)] sf(3,14) Cons.prems(1) mult_le_mono1 [of "Suc j" n F] j
      by (simp add: algebra_simps)
    then show ?case
      unfolding fdm_all_ff.simps sf(8) [OF j]
      by (intro ok_bindI [OF all_ff_ok] ok_if Cons.IH) (use Cons.prems in simp_all)
  qed simp
  have "ok (case buf of None \<Rightarrow> Some True | Some p \<Rightarrow> all_ff p 0 (unat (sf_writesize s))) (\<lambda>_. True)"
    using assms(2) by (auto simp: bufs_fit_def wide_def split: option.splits intro: all_ff_ok)
  then show ?thesis
    unfolding mtk_snand_is_empty_page_def
    by (rule ok_bindI)
       (use assms(2) fdm [of _ "[0..<n]"] in \<open>auto simp: bufs_fit_def wide_def sf(1) split: option.splits\<close>)
qed

lemma copy_in_ok:
  assumes "snand_wf s" "bufs_fit s buf oob" "k \<le> unat (sf_oobsize s)"
  shows "ok (copy_in s buf oob k) (\<lambda>s'. shape s' = shape s)"
proof -
  let ?ws = "unat (sf_writesize s)" and ?pl = "page_len s"
  note w = snand_wfD [OF assms(1)]
  have pl: "unat (sf_writesize s + sf_oobsize s) = ?pl" "?pl = ?ws + unat (sf_oobsize s)"
    by (rule page_positions(7) [OF w(1)]) (simp add: page_len_def)
  have 1: "ok (case buf of None \<Rightarrow> Some m | Some b \<Rightarrow> memcpy m 0 b 0 ?ws) (\<lambda>m'. length m' = ?pl)"
    if "length m = ?pl" for m
    using that assms(2) pl(2) by (auto simp: bufs_fit_def wide_def split: option.splits)
  have 2: "ok (case oob of None \<Rightarrow> Some m | Some ob \<Rightarrow> memcpy m ?ws ob 0 k) (\<lambda>m'. length m' = ?pl)"
    if "length m = ?pl" for m
    using that assms(2,3) pl(2) by (auto simp: bufs_fit_def wide_def split: option.splits)
  have main: "ok (do {
      m \<leftarrow> (case buf of None \<Rightarrow> Some c | Some b \<Rightarrow> memcpy c 0 b 0 ?ws);
      m \<leftarrow> (case oob of None \<Rightarrow> Some m | Some ob \<Rightarrow> memcpy m ?ws ob 0 k);
      Some (s\<lparr>sf_page_cache := m\<rparr>) }) (\<lambda>s'. shape s' = shape s)" if "length c = ?pl" for c
    by (rule ok_bindI [OF 1 [OF that]], rule ok_bindI [OF 2]) (use w(3) in simp_all)
  obtain c where "clear_page_cache s = Some (s\<lparr>sf_page_cache := c\<rparr>)" "length c = ?pl"
    by (simp add: clear_page_cache_def memset_def blit_def w(3) pl(1))
  then show ?thesis using main [of c] by (simp add: copy_in_def Let_def cong: option.case_cong)
qed

lemma prepare_page_ok:
  fixes s :: "'a mtk_snand"
  assumes "snand_wf s" "bufs_fit s buf oob"
  shows "ok (prepare_page s buf oob raw format) (\<lambda>(raw', s'). shape s' = shape s)"
proof -
  obtain n S F E where sz: "sizes s = (n, S, F, E)" by (cases "sizes s") auto
  note w = snand_wfD [OF assms(1)]
  note sf = sizes_facts [OF w(1) sz]
  have e: "ok (if \<not> raw then mtk_snand_is_empty_page s buf oob else Some False) (\<lambda>_. True)"
    using is_empty_page_ok [OF assms] by simp
  have swap: "ok (Option.bind (f s') g) (\<lambda>s''. shape s'' = shape s)"
    if "shape s' = shape s" "\<And>s'. snand_wf s' \<Longrightarrow> ok (f s') (\<lambda>s''. shape s'' = shape s')"
      "\<And>s'. snand_wf s' \<Longrightarrow> ok (g s') (\<lambda>s''. shape s'' = shape s')"
    for s' and f g :: "'a mtk_snand \<Rightarrow> 'a mtk_snand option"
  proof (rule ok_bindI [OF that(2)])
    show "snand_wf s'" using assms(1) by (simp add: shape_wf(1) [OF that(1)])
    fix s2 :: "'a mtk_snand" assume s2: "shape s2 = shape s'"
    then have "snand_wf s2" using assms(1) that(1) by (simp add: shape_wf(1) [of s2 s])
    then show "ok (g s2) (\<lambda>s''. shape s'' = shape s)" using that(3) [of s2] s2 that(1) by simp
  qed
  have raw_fmt: "ok (do { s \<leftarrow> mtk_snand_to_raw_page s buf oob empty_ecc; s \<leftarrow> mtk_snand_fdm_bm_swap_raw s;
      mtk_snand_bm_swap_raw s }) (\<lambda>s'. shape s' = shape s)" for empty_ecc
  proof (rule ok_bindI)
    have "wide (n * S) buf" "wide (n * F + (if empty_ecc then 0 else n * E)) oob"
      using assms(2) sf(13,14) by (auto simp: bufs_fit_def algebra_simps intro: wide_mono)
    note raw = to_raw_page_ok [OF w(1) sz w(3) this]
    show "ok (mtk_snand_to_raw_page s buf oob empty_ecc) (\<lambda>s'. shape s' = shape s)"
      unfolding raw by (simp add: w(3))
  qed (rule swap [OF _ bm_swap_keeps(2,1)])
  have plain: "ok (copy_in s buf oob (unat (sf_ecc_steps s * sf_spare_per_sector s))) (\<lambda>s'. shape s' = shape s)"
    by (rule copy_in_ok [OF assms spare_counts(1) [OF assms(1)]])
  have coded: "ok (do { s \<leftarrow> copy_in s buf oob (unat (sf_ecc_steps s * fdm_size s)); s \<leftarrow> mtk_snand_fdm_bm_swap s;
      mtk_snand_bm_swap s }) (\<lambda>s'. shape s' = shape s)"
    by (rule ok_bindI [OF copy_in_ok [OF assms spare_counts(2) [OF assms(1)]]]) (rule swap [OF _ bm_swap_keeps(4,3)])
  show ?thesis
    unfolding prepare_page_def Let_def
    by (rule ok_bindI [OF e], rule ok_bindI [where P = "\<lambda>s'. shape s' = shape s"], intro ok_if raw_fmt plain coded) simp
qed

lemma run_all_bits: "ok (run_all f js v) (\<lambda>_. True)" if "\<And>j v. j \<in> set js \<Longrightarrow> ok (f j v) (\<lambda>_. True)"
  using that by (induction js arbitrary: v) (auto intro: ok_bindI)

lemma fdm_word_ok: "off + fs \<le> length m \<Longrightarrow> ok (fdm_word m off fs start n) (\<lambda>_. True)"
  unfolding fdm_word_def by (rule run_all_bits) (auto simp: ok_bind)

lemma write_fdm_ok:
  fixes s :: "'a mtk_snand"
  assumes "snand_wf s"
  shows "ok (mtk_snand_write_fdm B s) (\<lambda>s'. strip s' = strip s)"
  unfolding mtk_snand_write_fdm_def
proof (rule run_all_upt [where I = "\<lambda>j s'. strip s' = strip s"])
  fix j and s' :: "'a mtk_snand"
  assume j: "j < unat (sf_ecc_steps s)" and st: "strip s' = strip s"
  note sh = strip_shape [OF st]
  have w': "snand_wf s'" using assms by (simp add: shape_wf(1) [OF sh])
  obtain n S F E where sz: "sizes s' = (n, S, F, E)" by (cases "sizes s'") auto
  note w = snand_wfD [OF w'] and sf = sizes_facts [OF snand_wfD(1) [OF w'] sz]
  have "j < n" using j sf(1) shape_conf(3) [OF sh] by simp
  note o = sector_offsets [OF w(1) sz this]
  show "ok (write_fdm_sector B j s') (\<lambda>s''. strip s'' = strip s)"
    unfolding write_fdm_sector_def Let_def
    by (intro ok_bindI [OF fdm_word_ok]) (use o(5,7) w(3) sf(3,13) st in \<open>simp_all add: frame\<close>)
qed simp

lemma program_load_ok:
  fixes s :: "'a mtk_snand"
  assumes "snand_wf s"
  shows "ok (mtk_snand_program_load B page raw s) (\<lambda>(ret, s'). strip s' = strip s \<and> (errno_bus B \<longrightarrow> ret \<le> 0))"
proof -
  have wr: "ok (if \<not> raw then mtk_snand_write_fdm B s' else Some s') (\<lambda>s''. strip s'' = strip s)"
    if st: "strip s' = strip s" for s'
    using write_fdm_ok [of s' B] assms shape_wf(1) [OF strip_shape [OF st]] st by simp
  have regs: "ok (program_load_setup B page raw s) (\<lambda>s'. strip s' = strip s)"
    unfolding program_load_setup_def Let_def case_prod_beta
    by (rule ok_bindI [OF wr]) (simp_all add: frame)
  have dma: "errno_bus B \<Longrightarrow> fst (dma_mem_map B len dir s') \<le> 0" for len dir and s' :: "'a mtk_snand"
    by (simp add: dma_mem_map_def errno_bus_def case_prod_beta Let_def)
  have wait: "errno_bus B \<Longrightarrow> fst (program_load_wait B raw s') \<le> 0" for s' :: "'a mtk_snand"
    by (simp add: program_load_wait_def irq_completion_wait_def ETIMEDOUT_def errno_poll32 case_prod_beta Let_def)
  show ?thesis
    unfolding mtk_snand_program_load_def Let_def
    by (rule ok_bindI [OF regs]) (simp add: case_prod_beta frame dma wait)
qed

lemma finish_op_ok:
  assumes "clock_runs B now"
  shows "ok (finish_op B page cmd fail s) (\<lambda>(ret, s'). shape s' = shape s \<and> (errno_bus B \<longrightarrow> ret \<le> 0))"
proof -
  let ?op = "mtk_snand_page_op B page cmd s"
  have op: "shape (snd ?op) = shape s" by (simp add: shape_frame)
  have "ok (do { (ret, s) \<leftarrow> mtk_snand_poll_status B SNFI_POLL_INTERVAL (snd ?op);
      Some (if ret < 0 then ret else if ret AND fail \<noteq> 0 then - EIO else 0, s) })
      (\<lambda>(ret, s'). shape s' = shape s \<and> (errno_bus B \<longrightarrow> ret \<le> 0))"
  proof (rule ok_bind2 [OF poll_status_ok [OF assms]])
    fix ret :: int and s' :: "'a mtk_snand"
    assume s': "strip s' = strip (snd ?op) \<and> (ret = - ETIMEDOUT \<or> 0 \<le> ret)"
    have "shape s' = shape s" by (rule trans [OF strip_shape op]) (use s' in simp)
    then show "ok (Some (if ret < 0 then ret else if ret AND fail \<noteq> 0 then - EIO else 0, s'))
        (\<lambda>(ret, s'). shape s' = shape s \<and> (errno_bus B \<longrightarrow> ret \<le> 0))"
      by (simp add: EIO_def)
  qed
  then show ?thesis using op by (simp add: finish_op_def case_prod_beta Let_def errno_page_op)
qed

lemma errno_write_enable: "errno_bus B \<Longrightarrow> fst (mtk_snand_write_enable B s) \<le> 0"
  by (simp add: mtk_snand_write_enable_def errno_mac_out ENOTSUPP_def case_prod_beta Let_def)

lemma do_write_page_ok:
  fixes s :: "'a mtk_snand"
  assumes "clock_runs B now" "snand_wf s" "bufs_fit s buf oob"
  shows "ok (mtk_snand_do_write_page B addr buf oob raw format s) (\<lambda>(ret, s').
     shape s' = shape s \<and> (errno_bus B \<longrightarrow> ret \<le> 0))" (is "ok _ ?Q")
proof -
  define d where "d = mtk_snand_select_die_address B addr s"
  define page :: u32 where "page = ucast (drop_bit (unat (sf_writesize_shift (snd d))) (fst d))"
  have d: "shape (snd d) = shape s" by (simp add: d_def shape_frame)
  have fin: "ok (finish_op B page cmd fail s1) ?Q" if "shape s1 = shape s" for cmd fail and s1 :: "'a mtk_snand"
    using finish_op_ok [OF assms(1), of page cmd fail s1] that by simp
  have ld: "ok (do { (ret, s) \<leftarrow> mtk_snand_program_load B page raw s1;
      (if ret \<noteq> 0 then Some (ret, s) else finish_op B page cmd fail s) }) ?Q"
    if s1: "shape s1 = shape s" for raw cmd fail and s1 :: "'a mtk_snand"
  proof (rule ok_bind2 [OF program_load_ok], goal_cases)
    case 1
    show ?case using assms(2) by (simp add: shape_wf(1) [OF s1])
  next
    case (2 ret s2)
    then have "shape s2 = shape s" using strip_shape [of s2 s1] s1 by simp
    then show ?case using fin 2 by (intro ok_if) simp_all
  qed
  have en: "ok (let (ret, s) = mtk_snand_write_enable B s1 in if ret \<noteq> 0 then Some (ret, s) else do {
      (ret, s) \<leftarrow> mtk_snand_program_load B page raw s;
      (if ret \<noteq> 0 then Some (ret, s) else finish_op B page cmd fail s) }) ?Q"
    if s1: "shape s1 = shape s" for raw cmd fail and s1 :: "'a mtk_snand"
    unfolding Let_def case_prod_beta
    by (intro ok_if ld [unfolded case_prod_beta]) (use s1 in \<open>simp_all add: shape_frame errno_write_enable\<close>)
  have "ok (prepare_page (snd d) buf oob raw format) (\<lambda>(raw', s'). shape s' = shape (snd d))"
    by (rule prepare_page_ok) (use assms(2,3) in \<open>simp_all add: shape_wf(1) [OF d] bufs_fit_shape [OF d]\<close>)
  then have "ok (do { (raw, s) \<leftarrow> prepare_page (snd d) buf oob raw format;
      let (ret, s) = mtk_snand_write_enable B s;
      (if ret \<noteq> 0 then Some (ret, s) else do {
        (ret, s) \<leftarrow> mtk_snand_program_load B page raw s;
        (if ret \<noteq> 0 then Some (ret, s)
         else finish_op B page SNAND_CMD_PROGRAM_EXECUTE SNAND_STATUS_PROGRAM_FAIL s) }) }) ?Q"
    by (rule ok_bind2) (rule en, use d in simp)
  then show ?thesis
    unfolding page_def d_def by (simp add: mtk_snand_do_write_page_def case_prod_beta Let_def)
qed

lemma snand_write_page_ok:
  fixes s :: "'a mtk_snand"
  assumes "clock_runs B now" "snand_wf s" "bufs_fit s buf oob"
  shows "ok (mtk_snand_write_page B addr buf oob raw s) (\<lambda>(ret, s').
     shape s' = shape s \<and> (errno_bus B \<longrightarrow> ret \<le> 0))"
  using do_write_page_ok [OF assms] by (simp add: mtk_snand_write_page_def EINVAL_def)

section \<open>Blocks\<close>

lemma erase_block_ok:
  assumes "clock_runs B now"
  shows "ok (mtk_snand_erase_block B addr s) (\<lambda>(ret, s'). shape s' = shape s \<and> (errno_bus B \<longrightarrow> ret \<le> 0))"
proof -
  have "ok (finish_op B page cmd fail s1) (\<lambda>(ret, s'). shape s' = shape s \<and> (errno_bus B \<longrightarrow> ret \<le> 0))"
    if "shape s1 = shape s" for page cmd fail and s1 :: "'a mtk_snand"
    using finish_op_ok [OF assms, of page cmd fail s1] that by simp
  then show ?thesis
    by (simp add: mtk_snand_erase_block_def EINVAL_def case_prod_beta Let_def shape_frame errno_write_enable)
qed

lemma buf_cache_fits:
  assumes "snand_wf s"
  shows "bufs_fit s None (Some (sf_buf_cache s))" "0 < length (sf_buf_cache s)" "0 < unat (sf_oobsize s)"
proof -
  obtain n S F E where sz: "sizes s = (n, S, F, E)" by (cases "sizes s") auto
  note w = snand_wfD [OF assms] and sf = sizes_facts [OF snand_wfD(1) [OF assms] sz]
  show "bufs_fit s None (Some (sf_buf_cache s))" by (simp add: bufs_fit_def wide_def w(4) page_len_def)
  have "0 < n * (F + E)" using sf(10,11) by simp
  then show o: "0 < unat (sf_oobsize s)" using sf(14) by linarith
  show "0 < length (sf_buf_cache s)" unfolding w(4) page_len_def using o by linarith
qed

lemma same_len_Some: "same_len (Some x) b' \<longleftrightarrow> (\<exists>y. b' = Some y \<and> length y = length x)"
  by (auto simp: same_len_def option.rel_sel)

lemma block_isbad_read_ok:
  fixes s :: "'a mtk_snand"
  assumes "clock_runs B now" "snand_wf s"
  shows "ok (block_isbad_read B addr format s) (\<lambda>(ret, s'). shape s' = shape s \<and> (errno_bus B \<longrightarrow> ret \<le> max 1 (uint (sf_ecc_strength s))))"
  unfolding block_isbad_read_def
proof (rule ok_bind4 [OF do_read_page_ok [OF assms buf_cache_fits(1) [OF assms(2)]]], goal_cases)
  case (1 ret buf oob s1)
  then obtain c where oob: "oob = Some c" and c: "length c = length (sf_buf_cache s)"
    by (auto simp: same_len_Some)
  have s1: "shape s1 = shape s" using 1 by simp
  have "shape (s1\<lparr>sf_buf_cache := c\<rparr>) = shape s" using s1 c shape_conf(10) [OF s1] by simp
  moreover have "0 < length c" using buf_cache_fits(2) [OF assms(2)] c by simp
  ultimately show ?case using 1 by (auto simp: oob load_def Let_def flips_ret_def)
qed

lemma block_isbad_ok:
  assumes "clock_runs B now" "snand_wf s"
  shows "ok (mtk_snand_block_isbad B addr s) (\<lambda>(ret, s'). shape s' = shape s \<and> (errno_bus B \<longrightarrow> ret \<le> max 1 (uint (sf_ecc_strength s))))"
  using block_isbad_read_ok [OF assms]
  by (simp add: mtk_snand_block_isbad_def mtk_snand_block_isbad_std_def mtk_snand_block_isbad_mtk_def
      EINVAL_def le_max_iff_disj Let_def)

lemma block_markbad_ok:
  fixes s :: "'a mtk_snand"
  assumes "clock_runs B now" "snand_wf s"
  shows "ok (mtk_snand_block_markbad B addr s) (\<lambda>(ret, s'). shape s' = shape s \<and> (errno_bus B \<longrightarrow> ret \<le> 0))"
proof -
  note w = snand_wfD [OF assms(2)] and b = buf_cache_fits [OF assms(2)]
  have pl: "unat (sf_writesize s + sf_oobsize s) = page_len s" by (rule page_positions(7) [OF w(1)])
  have wr: "ok (mtk_snand_do_write_page B a buf oob True fmt (s\<lparr>sf_buf_cache := m\<rparr>))
      (\<lambda>(ret, s'). shape s' = shape s \<and> (errno_bus B \<longrightarrow> ret \<le> 0))"
    if "length m = page_len s" "bufs_fit s buf oob" for a buf oob fmt m
  proof -
    have sh: "shape (s\<lparr>sf_buf_cache := m\<rparr>) = shape s" using that w(4) by simp
    show ?thesis
      using do_write_page_ok [OF assms(1), of "s\<lparr>sf_buf_cache := m\<rparr>" buf oob a True fmt] assms(2) that(2)
      by (simp add: shape_wf(1) [OF sh] bufs_fit_shape [OF sh] sh)
  qed
  have std: "ok (mtk_snand_block_markbad_std B a s) (\<lambda>(ret, s'). shape s' = shape s \<and> (errno_bus B \<longrightarrow> ret \<le> 0))" for a
    unfolding mtk_snand_block_markbad_std_def ok_bind ok_memset ok_store
    using b w(4) by (intro conjI wr) (simp_all add: page_len_def bufs_fit_def wide_def)
  have mtk: "ok (mtk_snand_block_markbad_mtk B a s) (\<lambda>(ret, s'). shape s' = shape s \<and> (errno_bus B \<longrightarrow> ret \<le> 0))" for a
    unfolding mtk_snand_block_markbad_mtk_def ok_bind ok_memset pl
    using w(4) by (intro conjI wr) (simp_all add: page_len_def bufs_fit_def wide_def)
  show ?thesis using std mtk by (simp add: mtk_snand_block_markbad_def EINVAL_def Let_def)
qed

section \<open>The free bytes of the spare area\<close>

text \<open>Free byte \<open>k\<close> of the spare area: a sector's FDM without its first byte.\<close>

definition free_pos :: "nat \<Rightarrow> nat \<Rightarrow> nat" where
  "free_pos F k = k div (F - 1) * F + 1 + k mod (F - 1)"

lemma free_pos_in: "x < F - 1 \<Longrightarrow> free_pos F (i * (F - 1) + x) = i * F + 1 + x"
  by (simp add: free_pos_def)

text \<open>The index of the free byte at a position.\<close>

definition free_index :: "nat \<Rightarrow> nat \<Rightarrow> nat" where
  "free_index F r = r div F * (F - 1) + (r mod F - 1)"

lemma free_index_in: "x < F - 1 \<Longrightarrow> free_index F (i * F + 1 + x) = i * (F - 1) + x"
proof -
  assume "x < F - 1"
  then have x: "1 + x < F" by simp
  then have "(i * F + (1 + x)) div F = i" "(i * F + (1 + x)) mod F = 1 + x"
    using div_mult_self3 [of F i "1 + x"] by simp_all
  then show ?thesis unfolding free_index_def add.assoc by simp
qed

lemma upto_shift: "{a..<a + l} = (\<lambda>x. a + x) ` {0..<l :: nat}"
  by (simp add: image_add_atLeastLessThan add.commute)

lemma interval_join:
  "l \<le> n \<Longrightarrow> {a..<a + l} \<union> {a + l..<a + l + min (n - l) b} = {a..<a + min n (l + b :: nat)}"
  by auto

lemma free_pos_image:
  assumes "l \<le> F - 1"
  shows "free_pos F ` {i * (F - 1)..<i * (F - 1) + l} = {i * F + 1..<i * F + 1 + l}"
proof -
  have "free_pos F (i * (F - 1) + x) = i * F + 1 + x" if "x \<in> {0..<l}" for x
    using that assms by (intro free_pos_in) simp
  then show ?thesis
    unfolding upto_shift [of "i * (F - 1)"] upto_shift [of "i * F + 1"] image_image by (rule image_cong [OF refl])
qed

lemma free_pos_less:
  assumes "1 < F" "j < k * (F - 1)"
  shows "free_pos F j < k * F"
proof -
  obtain G where F: "F = Suc G" "0 < G" using assms(1) by (cases F) auto
  have q: "j div G < k" using assms(2) F by (simp add: less_mult_imp_div_less)
  have "j mod G < G" using F(2) by simp
  then have "j div G * F + 1 + j mod G < Suc (j div G) * F"
    unfolding mult_Suc F(1) by linarith
  also have "\<dots> \<le> k * F" using q by (intro mult_le_mono1) simp
  finally show ?thesis by (simp add: free_pos_def F)
qed

text \<open>Both loops go on where the sectors before are full.\<close>

lemma fill_steps_ok:
  assumes "1 < F" "step * (F - 1) + n \<le> length oob" "(step + k) * F \<le> length raw"
  shows "ok (fill_steps F k step raw oob (step * (F - 1)) n) (\<lambda>(rest, raw').
     rest = n - k * (F - 1) \<and> written (\<lambda>r. oob ! free_index F r)
       (free_pos F ` {step * (F - 1)..<step * (F - 1) + min n (k * (F - 1))}) raw raw')"
  using assms
proof (induction k arbitrary: step raw n)
  case 0
  then show ?case by (simp add: written_def)
next
  case (Suc k)
  show ?case
  proof (cases "n = 0")
    case True
    then show ?thesis by (simp add: written_def)
  next
    case False
    let ?G = "F - 1" and ?g = "\<lambda>r. oob ! free_index F r"
    define l where "l = (if ?G > n then n else ?G)"
    define raw1 where "raw1 = patch raw (step * F + 1) (take l (drop (step * ?G) oob))"
    have l: "l \<le> ?G" "l \<le> n" by (simp_all add: l_def)
    have room: "step * F + 1 + l \<le> length raw"
      using Suc.prems(1,3) l by (simp add: algebra_simps)
    have src: "step * ?G + l \<le> length oob" using Suc.prems(2) l by simp
    have idx: "oob ! (step * ?G + x) = ?g (step * F + 1 + x)" if "x < l" for x
    proof -
      have "x < F - 1" using that l(1) by simp
      then show ?thesis by (simp only: free_index_in)
    qed
    have now: "written ?g (free_pos F ` {step * ?G..<step * ?G + l}) raw raw1"
      unfolding free_pos_image [OF l(1)] raw1_def by (rule written_slice [OF room src idx])
    have run: "fill_steps F (Suc k) step raw oob (step * ?G) n =
        fill_steps F k (step + 1) raw1 oob (step * ?G + l) (n - l)"
      unfolding fill_steps.simps(2) l_def [symmetric] Let_def
      using False room src by (simp add: memcpy_def slice_def blit_def raw1_def)
    show ?thesis
    proof (cases "?G > n")
      case True
      then have "l = n" by (simp add: l_def)
      moreover have "fill_steps F k (step + 1) raw1 oob q 0 = Some (0, raw1)" for q by (cases k) simp_all
      ultimately show ?thesis using now True unfolding run by simp
    next
      case False
      then have lG: "l = ?G" by (simp add: l_def)
      have e: "(step + 1) * ?G = step * ?G + l" "Suc k * ?G = l + k * ?G"
        by (simp_all only: add_mult_distrib mult_1 mult_Suc lG)
      have len: "length raw1 = length raw" using now by (rule written_length)
      have "ok (fill_steps F k (step + 1) raw1 oob ((step + 1) * ?G) (n - l)) (\<lambda>(rest, raw').
          rest = n - l - k * ?G \<and> written ?g
            (free_pos F ` {(step + 1) * ?G..<(step + 1) * ?G + min (n - l) (k * ?G)}) raw1 raw')"
        by (rule Suc.IH [OF Suc.prems(1)]) (use Suc.prems(2,3) len l lG in \<open>simp_all add: add.commute\<close>)
      moreover have "{step * ?G..<step * ?G + l} \<union> {(step + 1) * ?G..<(step + 1) * ?G + min (n - l) (k * ?G)} =
          {step * ?G..<step * ?G + min n (Suc k * ?G)}"
        unfolding e by (rule interval_join [OF l(2)])
      then have "free_pos F ` {step * ?G..<step * ?G + l} \<union>
          free_pos F ` {(step + 1) * ?G..<(step + 1) * ?G + min (n - l) (k * ?G)} =
          free_pos F ` {step * ?G..<step * ?G + min n (Suc k * ?G)}" by (simp flip: image_Un)
      note written_Un [OF now, of "free_pos F ` {(step + 1) * ?G..<(step + 1) * ?G + min (n - l) (k * ?G)}",
          unfolded this]
      ultimately show ?thesis
        unfolding run using lG by (auto simp: add.commute elim!: ok_mono)
    qed
  qed
qed

lemma transfer_steps_ok:
  assumes "1 < F" "step * (F - 1) + n \<le> length oob" "(step + k) * F \<le> length raw"
  shows "ok (transfer_steps F k step oob raw (step * (F - 1)) n) (\<lambda>(rest, oob').
     rest = n - k * (F - 1) \<and> written (\<lambda>j. raw ! free_pos F j)
       {step * (F - 1)..<step * (F - 1) + min n (k * (F - 1))} oob oob')"
  using assms
proof (induction k arbitrary: step oob n)
  case 0
  then show ?case by (simp add: written_def)
next
  case (Suc k)
  show ?case
  proof (cases "n = 0")
    case True
    then show ?thesis by (simp add: written_def)
  next
    case False
    let ?G = "F - 1" and ?g = "\<lambda>j. raw ! free_pos F j"
    define l where "l = (if ?G > n then n else ?G)"
    define oob1 where "oob1 = patch oob (step * ?G) (take l (drop (step * F + 1) raw))"
    have l: "l \<le> ?G" "l \<le> n" by (simp_all add: l_def)
    have src: "step * F + 1 + l \<le> length raw"
      using Suc.prems(1,3) l by (simp add: algebra_simps)
    have room: "step * ?G + l \<le> length oob" using Suc.prems(2) l by simp
    have idx: "raw ! (step * F + 1 + x) = ?g (step * ?G + x)" if "x < l" for x
    proof -
      have "x < F - 1" using that l(1) by simp
      then show ?thesis by (simp only: free_pos_in)
    qed
    have now: "written ?g {step * ?G..<step * ?G + l} oob oob1"
      unfolding oob1_def by (rule written_slice [OF room src idx])
    have run: "transfer_steps F (Suc k) step oob raw (step * ?G) n =
        transfer_steps F k (step + 1) oob1 raw (step * ?G + l) (n - l)"
      unfolding transfer_steps.simps(2) l_def [symmetric] Let_def
      using False room src by (simp add: memcpy_def slice_def blit_def oob1_def)
    show ?thesis
    proof (cases "?G > n")
      case True
      then have "l = n" by (simp add: l_def)
      moreover have "transfer_steps F k (step + 1) oob1 raw q 0 = Some (0, oob1)" for q by (cases k) simp_all
      ultimately show ?thesis using now True unfolding run by simp
    next
      case False
      then have lG: "l = ?G" by (simp add: l_def)
      have e: "(step + 1) * ?G = step * ?G + l" "Suc k * ?G = l + k * ?G"
        by (simp_all only: add_mult_distrib mult_1 mult_Suc lG)
      have len: "length oob1 = length oob" using now by (rule written_length)
      have "ok (transfer_steps F k (step + 1) oob1 raw ((step + 1) * ?G) (n - l)) (\<lambda>(rest, oob').
          rest = n - l - k * ?G \<and> written ?g
            {(step + 1) * ?G..<(step + 1) * ?G + min (n - l) (k * ?G)} oob1 oob')"
        by (rule Suc.IH [OF Suc.prems(1)]) (use Suc.prems(2,3) len l lG in \<open>simp_all add: add.commute\<close>)
      moreover have "{step * ?G..<step * ?G + l} \<union> {(step + 1) * ?G..<(step + 1) * ?G + min (n - l) (k * ?G)} =
          {step * ?G..<step * ?G + min n (Suc k * ?G)}"
        unfolding e by (rule interval_join [OF l(2)])
      note written_Un [OF now, of "{(step + 1) * ?G..<(step + 1) * ?G + min (n - l) (k * ?G)}", unfolded this]
      ultimately show ?thesis
        unfolding run using lG by (auto simp: add.commute elim!: ok_mono)
    qed
  qed
qed

text \<open>Filling the spare area and reading it back gives the bytes that have room.\<close>

lemma fill_transfer:
  assumes "1 < F" "n \<le> length oob" "n \<le> length buf" "k * F \<le> length raw"
  shows "\<exists>raw' buf'. fill_steps F k 0 raw oob 0 n = Some (n - k * (F - 1), raw') \<and>
     transfer_steps F k 0 buf raw' 0 n = Some (n - k * (F - 1), buf') \<and>
     length raw' = length raw \<and> length buf' = length buf \<and>
     take (min n (k * (F - 1))) buf' = take (min n (k * (F - 1))) oob"
proof -
  let ?m = "min n (k * (F - 1))"
  obtain raw' where f: "fill_steps F k 0 raw oob 0 n = Some (n - k * (F - 1), raw')"
    and r: "written (\<lambda>r. oob ! free_index F r) (free_pos F ` {0..<?m}) raw raw'"
    using fill_steps_ok [OF assms(1), of 0 n oob k raw] assms(2,4) by (auto elim!: okE)
  have len: "length raw' = length raw" using r by (rule written_length)
  obtain buf' where t: "transfer_steps F k 0 buf raw' 0 n = Some (n - k * (F - 1), buf')"
    and b: "written (\<lambda>j. raw' ! free_pos F j) {0..<?m} buf buf'"
    using transfer_steps_ok [OF assms(1), of 0 n buf k raw'] assms(3,4) len by (auto elim!: okE)
  have "buf' ! j = oob ! j" if j: "j < ?m" for j
  proof -
    have p: "free_pos F j < length raw" using free_pos_less [OF assms(1), of j k] j assms(4) by simp
    have "j mod (F - 1) < F - 1" using assms(1) by simp
    then have "free_index F (free_pos F j) = j"
      unfolding free_pos_def by (subst free_index_in) (simp_all only: div_mult_mod_eq)
    then show ?thesis
      using written_nth [OF b, of j] written_nth [OF r _ p] j assms(3) by simp
  qed
  then have "take ?m buf' = take ?m oob"
    using assms(2,3) written_length [OF b] by (intro nth_equalityI) simp_all
  then show ?thesis using f t len written_length [OF b] by blast
qed

section \<open>The variants with free bytes\<close>

lemma steps_lengths:
  assumes "1 < F" "n \<le> length oob" "k * F \<le> length raw"
  shows "ok (fill_steps F k 0 raw oob 0 n) (\<lambda>(rest, raw'). length raw' = length raw)"
    and "ok (transfer_steps F k 0 oob raw 0 n) (\<lambda>(rest, oob'). length oob' = length oob)"
  using fill_steps_ok [OF assms(1), of 0 n oob k raw] transfer_steps_ok [OF assms(1), of 0 n oob k raw] assms
  by (auto elim!: ok_mono dest: written_length)

lemma buf_cache_fdm:
  assumes "snand_wf s"
  shows "unat (sf_ecc_steps s) * unat (fdm_size s) \<le> length (sf_buf_cache s)"
proof -
  obtain n S F E where sz: "sizes s = (n, S, F, E)" by (cases "sizes s") auto
  note w = snand_wfD [OF assms] and sf = sizes_facts [OF snand_wfD(1) [OF assms] sz]
  show ?thesis using sf(1,3,9) w(4) by (simp add: algebra_simps)
qed

lemma read_page_auto_oob_ok:
  fixes s :: "'a mtk_snand"
  assumes "clock_runs B now" "snand_wf s" "1 < unat (fdm_size s)" "wide (unat (sf_writesize s)) buf" "wide ooblen oob"
  shows "ok (mtk_snand_read_page_auto_oob B addr buf oob ooblen raw s) (\<lambda>(ret, buf', oob', actual, s').
     shape s' = shape s \<and> same_len buf buf' \<and> same_len oob oob' \<and> flips_ret B s ret)" (is "ok _ ?Q")
proof (cases oob)
  case None
  have "bufs_fit s buf None" using assms(4) by (simp add: bufs_fit_def wide_def)
  then show ?thesis
    unfolding None mtk_snand_read_page_auto_oob_def option.case
    by (rule ok_bind4 [OF read_page_ok [OF assms(1,2)]]) (simp add: same_len_def)
next
  case (Some ob)
  have "bufs_fit s buf (Some (sf_buf_cache s))"
    using assms(4) buf_cache_fits(1) [OF assms(2)] by (simp add: bufs_fit_def)
  note read = read_page_ok [OF assms(1,2) this]
  show ?thesis
    unfolding Some mtk_snand_read_page_auto_oob_def option.case
  proof (rule ok_bind4 [OF read], goal_cases)
    case (1 ret buf1 cache s1)
    then obtain c where cache: "cache = Some c" and c: "length c = length (sf_buf_cache s)"
      by (auto simp: same_len_Some)
    have s1: "shape s1 = shape s" using 1 by simp
    let ?s2 = "s1\<lparr>sf_buf_cache := c\<rparr>"
    have s2: "shape ?s2 = shape s" using s1 c shape_conf(10) [OF s1] by simp
    have "unat (sf_ecc_steps ?s2) * unat (fdm_size ?s2) \<le> length c"
      using buf_cache_fdm [OF assms(2)] c shape_conf(3,4) [OF s1] by simp
    then have "ok (mtk_snand_transfer_oob ?s2 ob ooblen c) (\<lambda>(rest, ob'). length ob' = length ob)"
      unfolding mtk_snand_transfer_oob_def
      by (intro steps_lengths(2)) (use assms(3,5) shape_conf(4) [OF s1] Some in \<open>simp_all add: wide_def\<close>)
    then have "ok (do { (oobremain, ob) \<leftarrow> mtk_snand_transfer_oob ?s2 ob ooblen c;
        Some (ret, buf1, Some ob, Some (ooblen - oobremain), ?s2) }) (\<lambda>(ret, buf', oob', actual, s').
        shape s' = shape s \<and> same_len buf buf' \<and> same_len (Some ob) oob' \<and> flips_ret B s ret)"
      by (rule ok_bind2) (use 1 s2 in \<open>simp add: same_len_Some\<close>)
    then show ?case using 1 s2 by (simp add: cache Let_def)
  qed
qed

lemma write_page_auto_oob_ok:
  fixes s :: "'a mtk_snand"
  assumes "clock_runs B now" "snand_wf s" "1 < unat (fdm_size s)" "wide (unat (sf_writesize s)) buf" "wide ooblen oob"
  shows "ok (mtk_snand_write_page_auto_oob B addr buf oob ooblen raw s) (\<lambda>(ret, actual, s').
     shape s' = shape s \<and> (errno_bus B \<longrightarrow> ret \<le> 0))"
proof (cases oob)
  case None
  have "bufs_fit s buf None" using assms(4) by (simp add: bufs_fit_def wide_def)
  then show ?thesis
    unfolding None mtk_snand_write_page_auto_oob_def option.case
    by (rule ok_bind2 [OF snand_write_page_ok [OF assms(1,2)]]) simp
next
  case (Some ob)
  note w = snand_wfD [OF assms(2)]
  let ?m = "patch (sf_buf_cache s) 0 (replicate (unat (sf_oobsize s)) 0xff)"
  have m: "length ?m = length (sf_buf_cache s)" using w(4) by (simp add: page_len_def)
  have fill: "ok (mtk_snand_fill_oob s ?m ob ooblen) (\<lambda>(rest, m'). length m' = length ?m)"
    unfolding mtk_snand_fill_oob_def
    by (intro steps_lengths(1)) (use assms(3,5) buf_cache_fdm [OF assms(2)] m Some in \<open>simp_all add: wide_def\<close>)
  have "ok (do { (oobremain, m) \<leftarrow> mtk_snand_fill_oob s ?m ob ooblen;
      (ret, s) \<leftarrow> mtk_snand_write_page B addr buf (Some m) raw (s\<lparr>sf_buf_cache := m\<rparr>);
      Some (ret, Some (ooblen - oobremain), s) }) (\<lambda>(ret, actual, s'). shape s' = shape s \<and> (errno_bus B \<longrightarrow> ret \<le> 0))"
  proof (rule ok_bind2 [OF fill], goal_cases)
    case (1 rest m')
    have sh: "shape (s\<lparr>sf_buf_cache := m'\<rparr>) = shape s" using 1 m by simp
    have "snand_wf (s\<lparr>sf_buf_cache := m'\<rparr>)" using assms(2) shape_wf(1) [OF sh] by simp
    moreover have "bufs_fit (s\<lparr>sf_buf_cache := m'\<rparr>) buf (Some m')"
      unfolding bufs_fit_shape [OF sh] using assms(4) 1 m w(4) by (simp add: bufs_fit_def wide_def page_len_def)
    ultimately show ?case
      by (rule ok_bind2 [OF snand_write_page_ok [OF assms(1)]]) (use sh in simp)
  qed
  then show ?thesis
    using w(4) by (simp add: Some mtk_snand_write_page_auto_oob_def memset_def blit_def page_len_def Let_def)
qed

end
