(* ===== verification/Snand_Ids.thy ===== *)
theory Snand_Ids
  imports Snand_Base
begin

text \<open>
  The chips the SPI-NAND driver knows (mtk-snand-ids.c): their organisation, the commands they take for
  reading from and loading the cache, and the lookup by the ID a chip answers with.
\<close>

section \<open>Structures\<close>

record snand_opcode =
  oc_opcode :: u8
  oc_dummy :: u8

record snand_io_cap =
  ic_caps :: u8
  ic_opcodes :: "snand_opcode list"

text \<open>The initialiser lists the opcodes by index; the others are zero.\<close>

definition SNAND_IO_CAP :: "u32 \<Rightarrow> (nat \<times> u8 \<times> u8) list \<Rightarrow> snand_io_cap" where
  "SNAND_IO_CAP caps ops = \<lparr>ic_caps = ucast caps,
     ic_opcodes = fold (\<lambda>(io, opcode, dummy) xs. xs[io := \<lparr>oc_opcode = opcode, oc_dummy = dummy\<rparr>]) ops
       (replicate SNAND_IO_MAX \<lparr>oc_opcode = 0, oc_dummy = 0\<rparr>)\<rparr>"

definition SNAND_MAX_ID_LEN :: nat where "SNAND_MAX_ID_LEN = 4"
definition SNAND_ID_DYMMY :: nat where "SNAND_ID_DYMMY = 0"
definition SNAND_ID_ADDR :: nat where "SNAND_ID_ADDR = SNAND_ID_DYMMY"
definition SNAND_ID_DIRECT :: nat where "SNAND_ID_DIRECT = 1"

record snand_id =
  si_type :: nat
  si_len :: nat
  si_id :: bytes

definition SNAND_ID :: "nat \<Rightarrow> bytes \<Rightarrow> snand_id" where
  "SNAND_ID type ids = \<lparr>si_type = type, si_len = length ids,
     si_id = ids @ replicate (SNAND_MAX_ID_LEN - length ids) 0\<rparr>"

record snand_mem_org =
  mo_pagesize :: u16
  mo_sparesize :: u16
  mo_pages_per_block :: u16
  mo_blocks_per_die :: u16
  mo_planes_per_die :: u16
  mo_ndies :: u16

definition SNAND_MEMORG :: "u16 \<Rightarrow> u16 \<Rightarrow> u16 \<Rightarrow> u16 \<Rightarrow> u16 \<Rightarrow> u16 \<Rightarrow> snand_mem_org" where
  "SNAND_MEMORG ps ss ppb bpd ppd nd = \<lparr>mo_pagesize = ps, mo_sparesize = ss, mo_pages_per_block = ppb,
     mo_blocks_per_die = bpd, mo_planes_per_die = ppd, mo_ndies = nd\<rparr>"

record snand_flash_info =
  fi_model :: string
  fi_id :: snand_id
  fi_memorg :: snand_mem_org
  fi_cap_rd :: snand_io_cap
  fi_cap_pl :: snand_io_cap
  fi_select_die :: "select_die_fn option"

definition SNAND_INFO ::
    "string \<Rightarrow> snand_id \<Rightarrow> snand_mem_org \<Rightarrow> snand_io_cap \<Rightarrow> snand_io_cap \<Rightarrow> select_die_fn option \<Rightarrow>
     snand_flash_info" where
  "SNAND_INFO model i memorg rd pl die = \<lparr>fi_model = model, fi_id = i, fi_memorg = memorg,
     fi_cap_rd = rd, fi_cap_pl = pl, fi_select_die = die\<rparr>"

section \<open>The table\<close>

definition SNAND_MEMORG_512M_2K_64 :: snand_mem_org where "SNAND_MEMORG_512M_2K_64 = SNAND_MEMORG 2048 64 64 512 1 1"
definition SNAND_MEMORG_1G_2K_64 :: snand_mem_org where "SNAND_MEMORG_1G_2K_64 = SNAND_MEMORG 2048 64 64 1024 1 1"
definition SNAND_MEMORG_2G_2K_64 :: snand_mem_org where "SNAND_MEMORG_2G_2K_64 = SNAND_MEMORG 2048 64 64 2048 1 1"
definition SNAND_MEMORG_2G_2K_120 :: snand_mem_org where "SNAND_MEMORG_2G_2K_120 = SNAND_MEMORG 2048 120 64 2048 1 1"
definition SNAND_MEMORG_4G_2K_64 :: snand_mem_org where "SNAND_MEMORG_4G_2K_64 = SNAND_MEMORG 2048 64 64 4096 1 1"
definition SNAND_MEMORG_1G_2K_120 :: snand_mem_org where "SNAND_MEMORG_1G_2K_120 = SNAND_MEMORG 2048 120 64 1024 1 1"
definition SNAND_MEMORG_1G_2K_128 :: snand_mem_org where "SNAND_MEMORG_1G_2K_128 = SNAND_MEMORG 2048 128 64 1024 1 1"
definition SNAND_MEMORG_2G_2K_128 :: snand_mem_org where "SNAND_MEMORG_2G_2K_128 = SNAND_MEMORG 2048 128 64 2048 1 1"
definition SNAND_MEMORG_4G_2K_128 :: snand_mem_org where "SNAND_MEMORG_4G_2K_128 = SNAND_MEMORG 2048 128 64 4096 1 1"
definition SNAND_MEMORG_4G_4K_240 :: snand_mem_org where "SNAND_MEMORG_4G_4K_240 = SNAND_MEMORG 4096 240 64 2048 1 1"
definition SNAND_MEMORG_4G_4K_256 :: snand_mem_org where "SNAND_MEMORG_4G_4K_256 = SNAND_MEMORG 4096 256 64 2048 1 1"
definition SNAND_MEMORG_8G_4K_256 :: snand_mem_org where "SNAND_MEMORG_8G_4K_256 = SNAND_MEMORG 4096 256 64 4096 1 1"
definition SNAND_MEMORG_2G_2K_64_2P :: snand_mem_org where "SNAND_MEMORG_2G_2K_64_2P = SNAND_MEMORG 2048 64 64 2048 2 1"
definition SNAND_MEMORG_2G_2K_64_2D :: snand_mem_org where "SNAND_MEMORG_2G_2K_64_2D = SNAND_MEMORG 2048 64 64 1024 1 2"
definition SNAND_MEMORG_2G_2K_128_2P :: snand_mem_org where "SNAND_MEMORG_2G_2K_128_2P = SNAND_MEMORG 2048 128 64 2048 2 1"
definition SNAND_MEMORG_4G_2K_64_2P :: snand_mem_org where "SNAND_MEMORG_4G_2K_64_2P = SNAND_MEMORG 2048 64 64 4096 2 1"
definition SNAND_MEMORG_4G_2K_128_2P_2D :: snand_mem_org where "SNAND_MEMORG_4G_2K_128_2P_2D = SNAND_MEMORG 2048 128 64 2048 2 2"
definition SNAND_MEMORG_8G_4K_256_2D :: snand_mem_org where "SNAND_MEMORG_8G_4K_256_2D = SNAND_MEMORG 4096 256 64 2048 1 2"

definition snand_cap_read_from_cache_quad :: snand_io_cap where
  "snand_cap_read_from_cache_quad = SNAND_IO_CAP
     (SPI_IO_1_1_1 OR SPI_IO_1_1_2 OR SPI_IO_1_2_2 OR SPI_IO_1_1_4 OR SPI_IO_1_4_4)
     [(SNAND_IO_1_1_1, SNAND_CMD_READ_FROM_CACHE, 8),
      (SNAND_IO_1_1_2, SNAND_CMD_READ_FROM_CACHE_X2, 8),
      (SNAND_IO_1_2_2, SNAND_CMD_READ_FROM_CACHE_DUAL, 4),
      (SNAND_IO_1_1_4, SNAND_CMD_READ_FROM_CACHE_X4, 8),
      (SNAND_IO_1_4_4, SNAND_CMD_READ_FROM_CACHE_QUAD, 4)]"

definition snand_cap_read_from_cache_quad_q2d :: snand_io_cap where
  "snand_cap_read_from_cache_quad_q2d = SNAND_IO_CAP
     (SPI_IO_1_1_1 OR SPI_IO_1_1_2 OR SPI_IO_1_2_2 OR SPI_IO_1_1_4 OR SPI_IO_1_4_4)
     [(SNAND_IO_1_1_1, SNAND_CMD_READ_FROM_CACHE, 8),
      (SNAND_IO_1_1_2, SNAND_CMD_READ_FROM_CACHE_X2, 8),
      (SNAND_IO_1_2_2, SNAND_CMD_READ_FROM_CACHE_DUAL, 4),
      (SNAND_IO_1_1_4, SNAND_CMD_READ_FROM_CACHE_X4, 8),
      (SNAND_IO_1_4_4, SNAND_CMD_READ_FROM_CACHE_QUAD, 2)]"

definition snand_cap_read_from_cache_quad_a8d :: snand_io_cap where
  "snand_cap_read_from_cache_quad_a8d = SNAND_IO_CAP
     (SPI_IO_1_1_1 OR SPI_IO_1_1_2 OR SPI_IO_1_2_2 OR SPI_IO_1_1_4 OR SPI_IO_1_4_4)
     [(SNAND_IO_1_1_1, SNAND_CMD_READ_FROM_CACHE, 8),
      (SNAND_IO_1_1_2, SNAND_CMD_READ_FROM_CACHE_X2, 8),
      (SNAND_IO_1_2_2, SNAND_CMD_READ_FROM_CACHE_DUAL, 8),
      (SNAND_IO_1_1_4, SNAND_CMD_READ_FROM_CACHE_X4, 8),
      (SNAND_IO_1_4_4, SNAND_CMD_READ_FROM_CACHE_QUAD, 8)]"

definition snand_cap_read_from_cache_x4 :: snand_io_cap where
  "snand_cap_read_from_cache_x4 = SNAND_IO_CAP
     (SPI_IO_1_1_1 OR SPI_IO_1_1_2 OR SPI_IO_1_1_4)
     [(SNAND_IO_1_1_1, SNAND_CMD_READ_FROM_CACHE, 8),
      (SNAND_IO_1_1_2, SNAND_CMD_READ_FROM_CACHE_X2, 8),
      (SNAND_IO_1_1_4, SNAND_CMD_READ_FROM_CACHE_X4, 8)]"

definition snand_cap_read_from_cache_x4_only :: snand_io_cap where
  "snand_cap_read_from_cache_x4_only = SNAND_IO_CAP
     (SPI_IO_1_1_1 OR SPI_IO_1_1_4)
     [(SNAND_IO_1_1_1, SNAND_CMD_READ_FROM_CACHE, 8),
      (SNAND_IO_1_1_4, SNAND_CMD_READ_FROM_CACHE_X4, 8)]"

definition snand_cap_program_load_x1 :: snand_io_cap where
  "snand_cap_program_load_x1 = SNAND_IO_CAP
     (SPI_IO_1_1_1)
     [(SNAND_IO_1_1_1, SNAND_CMD_PROGRAM_LOAD, 0)]"

definition snand_cap_program_load_x4 :: snand_io_cap where
  "snand_cap_program_load_x4 = SNAND_IO_CAP
     (SPI_IO_1_1_1 OR SPI_IO_1_1_4)
     [(SNAND_IO_1_1_1, SNAND_CMD_PROGRAM_LOAD, 0),
      (SNAND_IO_1_1_4, SNAND_CMD_PROGRAM_LOAD_X4, 0)]"

definition snand_flash_ids :: "snand_flash_info list" where
  "snand_flash_ids = [
     SNAND_INFO ''W25N512GV'' (SNAND_ID SNAND_ID_DYMMY [0xef, 0xaa, 0x20]) SNAND_MEMORG_512M_2K_64
       snand_cap_read_from_cache_quad snand_cap_program_load_x4 None,
     SNAND_INFO ''W25N01GV'' (SNAND_ID SNAND_ID_DYMMY [0xef, 0xaa, 0x21]) SNAND_MEMORG_1G_2K_64
       snand_cap_read_from_cache_quad snand_cap_program_load_x4 None,
     SNAND_INFO ''W25M02GV'' (SNAND_ID SNAND_ID_DYMMY [0xef, 0xab, 0x21]) SNAND_MEMORG_2G_2K_64_2D
       snand_cap_read_from_cache_quad snand_cap_program_load_x4 (Some Winbond_select_die),
     SNAND_INFO ''W25N01KV'' (SNAND_ID SNAND_ID_DYMMY [0xef, 0xae, 0x21]) SNAND_MEMORG_1G_2K_64
       snand_cap_read_from_cache_quad snand_cap_program_load_x4 None,
     SNAND_INFO ''W25N02KV'' (SNAND_ID SNAND_ID_DYMMY [0xef, 0xaa, 0x22]) SNAND_MEMORG_2G_2K_128
       snand_cap_read_from_cache_quad snand_cap_program_load_x4 None,
     SNAND_INFO ''GD5F1GQ4UAWxx'' (SNAND_ID SNAND_ID_ADDR [0xc8, 0x10]) SNAND_MEMORG_1G_2K_64
       snand_cap_read_from_cache_quad_q2d snand_cap_program_load_x4 None,
     SNAND_INFO ''GD5F1GQ4UExIG'' (SNAND_ID SNAND_ID_ADDR [0xc8, 0xd1]) SNAND_MEMORG_1G_2K_128
       snand_cap_read_from_cache_quad_q2d snand_cap_program_load_x4 None,
     SNAND_INFO ''GD5F1GQ4UExxH'' (SNAND_ID SNAND_ID_ADDR [0xc8, 0xd9]) SNAND_MEMORG_1G_2K_64
       snand_cap_read_from_cache_quad_q2d snand_cap_program_load_x4 None,
     SNAND_INFO ''GD5F1GQ4xAYIG'' (SNAND_ID SNAND_ID_ADDR [0xc8, 0xf1]) SNAND_MEMORG_1G_2K_64
       snand_cap_read_from_cache_quad_q2d snand_cap_program_load_x4 None,
     SNAND_INFO ''GD5F2GQ4UExIG'' (SNAND_ID SNAND_ID_ADDR [0xc8, 0xd2]) SNAND_MEMORG_2G_2K_128
       snand_cap_read_from_cache_quad_q2d snand_cap_program_load_x4 None,
     SNAND_INFO ''GD5F2GQ5UExxH'' (SNAND_ID SNAND_ID_ADDR [0xc8, 0x32]) SNAND_MEMORG_2G_2K_64
       snand_cap_read_from_cache_quad_a8d snand_cap_program_load_x4 None,
     SNAND_INFO ''GD5F2GQ4xAYIG'' (SNAND_ID SNAND_ID_ADDR [0xc8, 0xf2]) SNAND_MEMORG_2G_2K_64
       snand_cap_read_from_cache_quad_q2d snand_cap_program_load_x4 None,
     SNAND_INFO ''GD5F4GQ4UBxIG'' (SNAND_ID SNAND_ID_ADDR [0xc8, 0xd4]) SNAND_MEMORG_4G_4K_256
       snand_cap_read_from_cache_quad_q2d snand_cap_program_load_x4 None,
     SNAND_INFO ''GD5F4GQ4xAYIG'' (SNAND_ID SNAND_ID_ADDR [0xc8, 0xf4]) SNAND_MEMORG_4G_2K_64
       snand_cap_read_from_cache_quad_q2d snand_cap_program_load_x4 None,
     SNAND_INFO ''GD5F2GQ5UExxG'' (SNAND_ID SNAND_ID_DYMMY [0xc8, 0x52]) SNAND_MEMORG_2G_2K_128
       snand_cap_read_from_cache_quad_a8d snand_cap_program_load_x4 None,
     SNAND_INFO ''GD5F4GQ4UCxIG'' (SNAND_ID SNAND_ID_DYMMY [0xc8, 0xb4]) SNAND_MEMORG_4G_4K_256
       snand_cap_read_from_cache_quad_q2d snand_cap_program_load_x4 None,
     SNAND_INFO ''MX35LF1GE4AB'' (SNAND_ID SNAND_ID_DYMMY [0xc2, 0x12]) SNAND_MEMORG_1G_2K_64
       snand_cap_read_from_cache_x4 snand_cap_program_load_x4 None,
     SNAND_INFO ''MX35LF1G24AD'' (SNAND_ID SNAND_ID_DYMMY [0xc2, 0x14]) SNAND_MEMORG_1G_2K_128
       snand_cap_read_from_cache_quad snand_cap_program_load_x4 None,
     SNAND_INFO ''MX31LF1GE4BC'' (SNAND_ID SNAND_ID_DYMMY [0xc2, 0x1e]) SNAND_MEMORG_1G_2K_64
       snand_cap_read_from_cache_x4 snand_cap_program_load_x4 None,
     SNAND_INFO ''MX35LF2GE4AB'' (SNAND_ID SNAND_ID_DYMMY [0xc2, 0x22]) SNAND_MEMORG_2G_2K_64
       snand_cap_read_from_cache_x4 snand_cap_program_load_x4 None,
     SNAND_INFO ''MX35LF2G24AD'' (SNAND_ID SNAND_ID_DYMMY [0xc2, 0x24]) SNAND_MEMORG_2G_2K_128
       snand_cap_read_from_cache_quad snand_cap_program_load_x4 None,
     SNAND_INFO ''MX35LF2GE4AD'' (SNAND_ID SNAND_ID_DYMMY [0xc2, 0x26]) SNAND_MEMORG_2G_2K_128
       snand_cap_read_from_cache_x4 snand_cap_program_load_x4 None,
     SNAND_INFO ''MX35LF2G14AC'' (SNAND_ID SNAND_ID_DYMMY [0xc2, 0x20]) SNAND_MEMORG_2G_2K_64
       snand_cap_read_from_cache_x4 snand_cap_program_load_x4 None,
     SNAND_INFO ''MX35LF4G24AD'' (SNAND_ID SNAND_ID_DYMMY [0xc2, 0x35]) SNAND_MEMORG_4G_4K_256
       snand_cap_read_from_cache_quad snand_cap_program_load_x4 None,
     SNAND_INFO ''MX35LF4GE4AD'' (SNAND_ID SNAND_ID_DYMMY [0xc2, 0x37]) SNAND_MEMORG_4G_4K_256
       snand_cap_read_from_cache_x4 snand_cap_program_load_x4 None,
     SNAND_INFO ''MT29F1G01AAADD'' (SNAND_ID SNAND_ID_DYMMY [0x2c, 0x12]) SNAND_MEMORG_1G_2K_64
       snand_cap_read_from_cache_x4 snand_cap_program_load_x1 None,
     SNAND_INFO ''MT29F1G01ABAFD'' (SNAND_ID SNAND_ID_DYMMY [0x2c, 0x14]) SNAND_MEMORG_1G_2K_128
       snand_cap_read_from_cache_quad snand_cap_program_load_x4 None,
     SNAND_INFO ''MT29F2G01AAAED'' (SNAND_ID SNAND_ID_DYMMY [0x2c, 0x9f]) SNAND_MEMORG_2G_2K_64_2P
       snand_cap_read_from_cache_x4 snand_cap_program_load_x1 None,
     SNAND_INFO ''MT29F2G01ABAGD'' (SNAND_ID SNAND_ID_DYMMY [0x2c, 0x24]) SNAND_MEMORG_2G_2K_128_2P
       snand_cap_read_from_cache_quad snand_cap_program_load_x4 None,
     SNAND_INFO ''MT29F4G01AAADD'' (SNAND_ID SNAND_ID_DYMMY [0x2c, 0x32]) SNAND_MEMORG_4G_2K_64_2P
       snand_cap_read_from_cache_x4 snand_cap_program_load_x1 None,
     SNAND_INFO ''MT29F4G01ABAFD'' (SNAND_ID SNAND_ID_DYMMY [0x2c, 0x34]) SNAND_MEMORG_4G_4K_256
       snand_cap_read_from_cache_quad snand_cap_program_load_x4 None,
     SNAND_INFO ''MT29F4G01ADAGD'' (SNAND_ID SNAND_ID_DYMMY [0x2c, 0x36]) SNAND_MEMORG_4G_2K_128_2P_2D
       snand_cap_read_from_cache_quad snand_cap_program_load_x4 (Some Micron_select_die),
     SNAND_INFO ''MT29F8G01ADAFD'' (SNAND_ID SNAND_ID_DYMMY [0x2c, 0x46]) SNAND_MEMORG_8G_4K_256_2D
       snand_cap_read_from_cache_quad snand_cap_program_load_x4 (Some Micron_select_die),
     SNAND_INFO ''TC58CVG0S3HRAIG'' (SNAND_ID SNAND_ID_DYMMY [0x98, 0xc2]) SNAND_MEMORG_1G_2K_128
       snand_cap_read_from_cache_x4 snand_cap_program_load_x1 None,
     SNAND_INFO ''TC58CVG1S3HRAIG'' (SNAND_ID SNAND_ID_DYMMY [0x98, 0xcb]) SNAND_MEMORG_2G_2K_128
       snand_cap_read_from_cache_x4 snand_cap_program_load_x1 None,
     SNAND_INFO ''TC58CVG2S0HRAIG'' (SNAND_ID SNAND_ID_DYMMY [0x98, 0xcd]) SNAND_MEMORG_4G_4K_256
       snand_cap_read_from_cache_x4 snand_cap_program_load_x1 None,
     SNAND_INFO ''TC58CVG0S3HRAIJ'' (SNAND_ID SNAND_ID_DYMMY [0x98, 0xe2]) SNAND_MEMORG_1G_2K_128
       snand_cap_read_from_cache_x4 snand_cap_program_load_x4 None,
     SNAND_INFO ''TC58CVG1S3HRAIJ'' (SNAND_ID SNAND_ID_DYMMY [0x98, 0xeb]) SNAND_MEMORG_2G_2K_128
       snand_cap_read_from_cache_x4 snand_cap_program_load_x4 None,
     SNAND_INFO ''TC58CVG2S0HRAIJ'' (SNAND_ID SNAND_ID_DYMMY [0x98, 0xed]) SNAND_MEMORG_4G_4K_256
       snand_cap_read_from_cache_x4 snand_cap_program_load_x4 None,
     SNAND_INFO ''TH58CVG3S0HRAIJ'' (SNAND_ID SNAND_ID_DYMMY [0x98, 0xe4]) SNAND_MEMORG_8G_4K_256
       snand_cap_read_from_cache_x4 snand_cap_program_load_x4 None,
     SNAND_INFO ''F50L512M41A'' (SNAND_ID SNAND_ID_DYMMY [0xc8, 0x20]) SNAND_MEMORG_512M_2K_64
       snand_cap_read_from_cache_x4 snand_cap_program_load_x4 None,
     SNAND_INFO ''F50L1G41A'' (SNAND_ID SNAND_ID_DYMMY [0xc8, 0x21]) SNAND_MEMORG_1G_2K_64
       snand_cap_read_from_cache_x4 snand_cap_program_load_x4 None,
     SNAND_INFO ''F50L1G41LB'' (SNAND_ID SNAND_ID_DYMMY [0xc8, 0x01]) SNAND_MEMORG_1G_2K_64
       snand_cap_read_from_cache_quad snand_cap_program_load_x4 None,
     SNAND_INFO ''F50L2G41LB'' (SNAND_ID SNAND_ID_DYMMY [0xc8, 0x0a]) SNAND_MEMORG_2G_2K_64_2D
       snand_cap_read_from_cache_quad snand_cap_program_load_x4 (Some Winbond_select_die),
     SNAND_INFO ''CS11G0T0A0AA'' (SNAND_ID SNAND_ID_DYMMY [0x6b, 0x00]) SNAND_MEMORG_1G_2K_128
       snand_cap_read_from_cache_quad_q2d snand_cap_program_load_x4 None,
     SNAND_INFO ''CS11G0G0A0AA'' (SNAND_ID SNAND_ID_DYMMY [0x6b, 0x10]) SNAND_MEMORG_1G_2K_128
       snand_cap_read_from_cache_quad_q2d snand_cap_program_load_x4 None,
     SNAND_INFO ''CS11G0S0A0AA'' (SNAND_ID SNAND_ID_DYMMY [0x6b, 0x20]) SNAND_MEMORG_1G_2K_64
       snand_cap_read_from_cache_quad_q2d snand_cap_program_load_x4 None,
     SNAND_INFO ''CS11G1T0A0AA'' (SNAND_ID SNAND_ID_DYMMY [0x6b, 0x01]) SNAND_MEMORG_2G_2K_128
       snand_cap_read_from_cache_quad_q2d snand_cap_program_load_x4 None,
     SNAND_INFO ''CS11G1S0A0AA'' (SNAND_ID SNAND_ID_DYMMY [0x6b, 0x21]) SNAND_MEMORG_2G_2K_64
       snand_cap_read_from_cache_quad_q2d snand_cap_program_load_x4 None,
     SNAND_INFO ''CS11G2T0A0AA'' (SNAND_ID SNAND_ID_DYMMY [0x6b, 0x02]) SNAND_MEMORG_4G_2K_128
       snand_cap_read_from_cache_quad_q2d snand_cap_program_load_x4 None,
     SNAND_INFO ''CS11G2S0A0AA'' (SNAND_ID SNAND_ID_DYMMY [0x6b, 0x22]) SNAND_MEMORG_4G_2K_64
       snand_cap_read_from_cache_quad_q2d snand_cap_program_load_x4 None,
     SNAND_INFO ''EM73B044VCA'' (SNAND_ID SNAND_ID_DYMMY [0xd5, 0x01]) SNAND_MEMORG_512M_2K_64
       snand_cap_read_from_cache_quad_q2d snand_cap_program_load_x4 None,
     SNAND_INFO ''EM73C044SNB'' (SNAND_ID SNAND_ID_DYMMY [0xd5, 0x11]) SNAND_MEMORG_1G_2K_120
       snand_cap_read_from_cache_quad_q2d snand_cap_program_load_x4 None,
     SNAND_INFO ''EM73C044SNF'' (SNAND_ID SNAND_ID_DYMMY [0xd5, 0x09]) SNAND_MEMORG_1G_2K_128
       snand_cap_read_from_cache_quad_q2d snand_cap_program_load_x4 None,
     SNAND_INFO ''EM73C044VCA'' (SNAND_ID SNAND_ID_DYMMY [0xd5, 0x18]) SNAND_MEMORG_1G_2K_64
       snand_cap_read_from_cache_quad_q2d snand_cap_program_load_x4 None,
     SNAND_INFO ''EM73C044SNA'' (SNAND_ID SNAND_ID_DYMMY [0xd5, 0x19]) (SNAND_MEMORG 2048 64 128 512 1 1)
       snand_cap_read_from_cache_quad_q2d snand_cap_program_load_x4 None,
     SNAND_INFO ''EM73C044VCD'' (SNAND_ID SNAND_ID_DYMMY [0xd5, 0x1c]) SNAND_MEMORG_1G_2K_64
       snand_cap_read_from_cache_quad_q2d snand_cap_program_load_x4 None,
     SNAND_INFO ''EM73C044SND'' (SNAND_ID SNAND_ID_DYMMY [0xd5, 0x1d]) SNAND_MEMORG_1G_2K_64
       snand_cap_read_from_cache_quad_q2d snand_cap_program_load_x4 None,
     SNAND_INFO ''EM73D044SND'' (SNAND_ID SNAND_ID_DYMMY [0xd5, 0x1e]) SNAND_MEMORG_2G_2K_64
       snand_cap_read_from_cache_quad_q2d snand_cap_program_load_x4 None,
     SNAND_INFO ''EM73C044VCC'' (SNAND_ID SNAND_ID_DYMMY [0xd5, 0x22]) SNAND_MEMORG_1G_2K_64
       snand_cap_read_from_cache_quad_q2d snand_cap_program_load_x4 None,
     SNAND_INFO ''EM73C044VCF'' (SNAND_ID SNAND_ID_DYMMY [0xd5, 0x25]) SNAND_MEMORG_1G_2K_64
       snand_cap_read_from_cache_quad_q2d snand_cap_program_load_x4 None,
     SNAND_INFO ''EM73C044SNC'' (SNAND_ID SNAND_ID_DYMMY [0xd5, 0x31]) SNAND_MEMORG_1G_2K_128
       snand_cap_read_from_cache_quad_q2d snand_cap_program_load_x4 None,
     SNAND_INFO ''EM73D044SNC'' (SNAND_ID SNAND_ID_DYMMY [0xd5, 0x0a]) SNAND_MEMORG_2G_2K_120
       snand_cap_read_from_cache_quad_q2d snand_cap_program_load_x4 None,
     SNAND_INFO ''EM73D044SNA'' (SNAND_ID SNAND_ID_DYMMY [0xd5, 0x12]) SNAND_MEMORG_2G_2K_128
       snand_cap_read_from_cache_quad_q2d snand_cap_program_load_x4 None,
     SNAND_INFO ''EM73D044SNF'' (SNAND_ID SNAND_ID_DYMMY [0xd5, 0x10]) SNAND_MEMORG_2G_2K_128
       snand_cap_read_from_cache_quad_q2d snand_cap_program_load_x4 None,
     SNAND_INFO ''EM73D044VCA'' (SNAND_ID SNAND_ID_DYMMY [0xd5, 0x13]) SNAND_MEMORG_2G_2K_128
       snand_cap_read_from_cache_quad_q2d snand_cap_program_load_x4 None,
     SNAND_INFO ''EM73D044VCB'' (SNAND_ID SNAND_ID_DYMMY [0xd5, 0x14]) SNAND_MEMORG_2G_2K_64
       snand_cap_read_from_cache_quad_q2d snand_cap_program_load_x4 None,
     SNAND_INFO ''EM73D044VCD'' (SNAND_ID SNAND_ID_DYMMY [0xd5, 0x17]) SNAND_MEMORG_2G_2K_128
       snand_cap_read_from_cache_quad_q2d snand_cap_program_load_x4 None,
     SNAND_INFO ''EM73D044VCH'' (SNAND_ID SNAND_ID_DYMMY [0xd5, 0x1b]) SNAND_MEMORG_2G_2K_64
       snand_cap_read_from_cache_quad_q2d snand_cap_program_load_x4 None,
     SNAND_INFO ''EM73D044SND'' (SNAND_ID SNAND_ID_DYMMY [0xd5, 0x1d]) SNAND_MEMORG_2G_2K_64
       snand_cap_read_from_cache_quad_q2d snand_cap_program_load_x4 None,
     SNAND_INFO ''EM73D044VCG'' (SNAND_ID SNAND_ID_DYMMY [0xd5, 0x1f]) SNAND_MEMORG_2G_2K_64
       snand_cap_read_from_cache_quad_q2d snand_cap_program_load_x4 None,
     SNAND_INFO ''EM73D044VCE'' (SNAND_ID SNAND_ID_DYMMY [0xd5, 0x20]) SNAND_MEMORG_2G_2K_64
       snand_cap_read_from_cache_quad_q2d snand_cap_program_load_x4 None,
     SNAND_INFO ''EM73D044VCL'' (SNAND_ID SNAND_ID_DYMMY [0xd5, 0x2e]) SNAND_MEMORG_2G_2K_128
       snand_cap_read_from_cache_quad_q2d snand_cap_program_load_x4 None,
     SNAND_INFO ''EM73D044SNB'' (SNAND_ID SNAND_ID_DYMMY [0xd5, 0x32]) SNAND_MEMORG_2G_2K_128
       snand_cap_read_from_cache_quad_q2d snand_cap_program_load_x4 None,
     SNAND_INFO ''EM73E044SNA'' (SNAND_ID SNAND_ID_DYMMY [0xd5, 0x03]) SNAND_MEMORG_4G_4K_256
       snand_cap_read_from_cache_quad_q2d snand_cap_program_load_x4 None,
     SNAND_INFO ''EM73E044SND'' (SNAND_ID SNAND_ID_DYMMY [0xd5, 0x0b]) SNAND_MEMORG_4G_4K_240
       snand_cap_read_from_cache_quad_q2d snand_cap_program_load_x4 None,
     SNAND_INFO ''EM73E044SNB'' (SNAND_ID SNAND_ID_DYMMY [0xd5, 0x23]) SNAND_MEMORG_4G_4K_256
       snand_cap_read_from_cache_quad_q2d snand_cap_program_load_x4 None,
     SNAND_INFO ''EM73E044VCA'' (SNAND_ID SNAND_ID_DYMMY [0xd5, 0x2c]) SNAND_MEMORG_4G_4K_256
       snand_cap_read_from_cache_quad_q2d snand_cap_program_load_x4 None,
     SNAND_INFO ''EM73E044VCB'' (SNAND_ID SNAND_ID_DYMMY [0xd5, 0x2f]) SNAND_MEMORG_4G_2K_128
       snand_cap_read_from_cache_quad_q2d snand_cap_program_load_x4 None,
     SNAND_INFO ''EM73F044SNA'' (SNAND_ID SNAND_ID_DYMMY [0xd5, 0x24]) SNAND_MEMORG_8G_4K_256
       snand_cap_read_from_cache_quad_q2d snand_cap_program_load_x4 None,
     SNAND_INFO ''EM73F044VCA'' (SNAND_ID SNAND_ID_DYMMY [0xd5, 0x2d]) SNAND_MEMORG_8G_4K_256
       snand_cap_read_from_cache_quad_q2d snand_cap_program_load_x4 None,
     SNAND_INFO ''EM73E044SNE'' (SNAND_ID SNAND_ID_DYMMY [0xd5, 0x0e]) SNAND_MEMORG_8G_4K_256
       snand_cap_read_from_cache_quad_q2d snand_cap_program_load_x4 None,
     SNAND_INFO ''EM73C044SNG'' (SNAND_ID SNAND_ID_DYMMY [0xd5, 0x0c]) SNAND_MEMORG_1G_2K_120
       snand_cap_read_from_cache_quad_q2d snand_cap_program_load_x4 None,
     SNAND_INFO ''EM73D044VCN'' (SNAND_ID SNAND_ID_DYMMY [0xd5, 0x0f]) SNAND_MEMORG_2G_2K_64
       snand_cap_read_from_cache_quad_q2d snand_cap_program_load_x4 None,
     SNAND_INFO ''FM35Q1GA'' (SNAND_ID SNAND_ID_DYMMY [0xe5, 0x71]) SNAND_MEMORG_1G_2K_64
       snand_cap_read_from_cache_x4 snand_cap_program_load_x4 None,
     SNAND_INFO ''PN26G01A'' (SNAND_ID SNAND_ID_DYMMY [0xa1, 0xe1]) SNAND_MEMORG_1G_2K_128
       snand_cap_read_from_cache_quad_q2d snand_cap_program_load_x4 None,
     SNAND_INFO ''PN26G02A'' (SNAND_ID SNAND_ID_DYMMY [0xa1, 0xe2]) SNAND_MEMORG_2G_2K_128
       snand_cap_read_from_cache_quad_q2d snand_cap_program_load_x4 None,
     SNAND_INFO ''IS37SML01G1'' (SNAND_ID SNAND_ID_DYMMY [0xc8, 0x21]) SNAND_MEMORG_1G_2K_64
       snand_cap_read_from_cache_x4 snand_cap_program_load_x4 None,
     SNAND_INFO ''ATO25D1GA'' (SNAND_ID SNAND_ID_DYMMY [0x9b, 0x12]) SNAND_MEMORG_1G_2K_64
       snand_cap_read_from_cache_x4_only snand_cap_program_load_x4 None,
     SNAND_INFO ''HYF1GQ4U'' (SNAND_ID SNAND_ID_DYMMY [0xc9, 0x51]) SNAND_MEMORG_1G_2K_128
       snand_cap_read_from_cache_quad_q2d snand_cap_program_load_x4 None,
     SNAND_INFO ''HYF2GQ4U'' (SNAND_ID SNAND_ID_DYMMY [0xc9, 0x52]) SNAND_MEMORG_2G_2K_128
       snand_cap_read_from_cache_quad_q2d snand_cap_program_load_x4 None]"

section \<open>Lookup\<close>

definition id_matches :: "nat \<Rightarrow> bytes \<Rightarrow> snand_flash_info \<Rightarrow> bool" where
  "id_matches type i info \<longleftrightarrow> si_type (fi_id info) = type \<and>
     take (si_len (fi_id info)) (si_id (fi_id info)) = take (si_len (fi_id info)) i"

definition snand_flash_id_lookup :: "nat \<Rightarrow> bytes \<Rightarrow> snand_flash_info option" where
  "snand_flash_id_lookup type i = find (id_matches type i) snand_flash_ids"

text \<open>What the table promises of every chip.\<close>

definition known_page :: "u16 \<times> u16 \<Rightarrow> bool" where
  "known_page p \<longleftrightarrow> p \<in> {(2048, 64), (2048, 120), (2048, 128), (4096, 240), (4096, 256)}"

definition known_caps :: "snand_io_cap \<Rightarrow> bool" where
  "known_caps c \<longleftrightarrow> length (ic_opcodes c) = 5 \<and> bit (ic_caps c) 0"

definition known_org :: "snand_mem_org \<Rightarrow> bool" where
  "known_org mo \<longleftrightarrow> known_page (mo_pagesize mo, mo_sparesize mo) \<and> mo_pages_per_block mo \<in> {64, 128} \<and>
     0 < mo_blocks_per_die mo \<and> 0 < mo_ndies mo \<and>
     unat (mo_pagesize mo) * unat (mo_pages_per_block mo) * unat (mo_blocks_per_die mo) * unat (mo_ndies mo) \<le> 2 ^ 30"

definition known_chip :: "snand_flash_info \<Rightarrow> bool" where
  "known_chip info \<longleftrightarrow> known_org (fi_memorg info) \<and>
     known_caps (fi_cap_rd info) \<and> known_caps (fi_cap_pl info)"

lemma memorgs_known:
  "known_org SNAND_MEMORG_512M_2K_64"
  "known_org SNAND_MEMORG_1G_2K_64"
  "known_org SNAND_MEMORG_2G_2K_64"
  "known_org SNAND_MEMORG_2G_2K_120"
  "known_org SNAND_MEMORG_4G_2K_64"
  "known_org SNAND_MEMORG_1G_2K_120"
  "known_org SNAND_MEMORG_1G_2K_128"
  "known_org SNAND_MEMORG_2G_2K_128"
  "known_org SNAND_MEMORG_4G_2K_128"
  "known_org SNAND_MEMORG_4G_4K_240"
  "known_org SNAND_MEMORG_4G_4K_256"
  "known_org SNAND_MEMORG_8G_4K_256"
  "known_org SNAND_MEMORG_2G_2K_64_2P"
  "known_org SNAND_MEMORG_2G_2K_64_2D"
  "known_org SNAND_MEMORG_2G_2K_128_2P"
  "known_org SNAND_MEMORG_4G_2K_64_2P"
  "known_org SNAND_MEMORG_4G_2K_128_2P_2D"
  "known_org SNAND_MEMORG_8G_4K_256_2D"
  "known_org (SNAND_MEMORG 2048 64 128 512 1 1)"
  by (simp_all add: known_org_def known_page_def SNAND_MEMORG_def
      SNAND_MEMORG_512M_2K_64_def SNAND_MEMORG_1G_2K_64_def SNAND_MEMORG_2G_2K_64_def
      SNAND_MEMORG_2G_2K_120_def SNAND_MEMORG_4G_2K_64_def SNAND_MEMORG_1G_2K_120_def
      SNAND_MEMORG_1G_2K_128_def SNAND_MEMORG_2G_2K_128_def SNAND_MEMORG_4G_2K_128_def
      SNAND_MEMORG_4G_4K_240_def SNAND_MEMORG_4G_4K_256_def SNAND_MEMORG_8G_4K_256_def
      SNAND_MEMORG_2G_2K_64_2P_def SNAND_MEMORG_2G_2K_64_2D_def SNAND_MEMORG_2G_2K_128_2P_def
      SNAND_MEMORG_4G_2K_64_2P_def SNAND_MEMORG_4G_2K_128_2P_2D_def SNAND_MEMORG_8G_4K_256_2D_def)

lemma caps_known:
  "known_caps snand_cap_read_from_cache_quad"
  "known_caps snand_cap_read_from_cache_quad_q2d"
  "known_caps snand_cap_read_from_cache_quad_a8d"
  "known_caps snand_cap_read_from_cache_x4"
  "known_caps snand_cap_read_from_cache_x4_only"
  "known_caps snand_cap_program_load_x1"
  "known_caps snand_cap_program_load_x4"
  by (simp_all add: known_caps_def SNAND_IO_CAP_def SPI_IO_1_1_1_def SPI_IO_1_1_2_def SPI_IO_1_2_2_def
      SPI_IO_1_1_4_def SPI_IO_1_4_4_def SNAND_IO_1_1_1_def SNAND_IO_1_1_2_def SNAND_IO_1_2_2_def
      SNAND_IO_1_1_4_def SNAND_IO_1_4_4_def SNAND_IO_MAX_def BIT_def bit_or_iff bit_ucast_iff
      snand_cap_read_from_cache_quad_def snand_cap_read_from_cache_quad_q2d_def
      snand_cap_read_from_cache_quad_a8d_def snand_cap_read_from_cache_x4_def
      snand_cap_read_from_cache_x4_only_def snand_cap_program_load_x1_def
      snand_cap_program_load_x4_def)

lemma known_SNAND_INFO:
  "known_chip (SNAND_INFO model i memorg rd pl die) \<longleftrightarrow>
     known_org memorg \<and> known_caps rd \<and> known_caps pl"
  by (simp add: known_chip_def SNAND_INFO_def)

lemma chips_known: "list_all known_chip snand_flash_ids"
  unfolding snand_flash_ids_def list.pred_inject known_SNAND_INFO by (simp only: memorgs_known caps_known list.pred_inject simp_thms)

lemma lookup_known: "snand_flash_id_lookup type i = Some info \<Longrightarrow> info \<in> set snand_flash_ids \<and> known_chip info"
  using chips_known by (auto simp: snand_flash_id_lookup_def list_all_iff find_Some_iff)

end
