(* ===== verification/Snand_Setup.thy ===== *)
theory Snand_Setup
  imports Snand_Total Snand_Ids
begin

text \<open>
  Bringing up the SPI-NAND driver (mtk-snand.c from mtk_snand_select_spare_per_sector to
  mtk_snand_cleanup): the chip is reset and identified, its description written in, the page format and the
  ECC engine set up. For every chip of the table on every controller the description that results has
  the properties the operations rely on (\<open>snand_wf\<close>).
\<close>

section \<open>Code\<close>

text \<open>The loop of mtk_snand_select_spare_per_sector over the first \<open>n\<close> sizes, from the last down;
  the inner \<open>None\<close> is the index - 1.\<close>

fun spare_search :: "bytes \<Rightarrow> u32 \<Rightarrow> nat \<Rightarrow> nat option option" where
  "spare_search table limit 0 = Some None"
| "spare_search table limit (Suc i) = do {
     c \<leftarrow> load table i;
     (if ucast c \<le> limit then Some (Some i) else spare_search table limit i)
   }"

definition mtk_snand_select_spare_per_sector :: "'h mtk_snand \<Rightarrow> (u32 \<times> 'h mtk_snand) option" where
  "mtk_snand_select_spare_per_sector s =
     (if sf_ecc_steps s = 0 then None
      else let mul = (if sd_sector_size (sf_nfi_soc s) = 1024 then 2 else 1);
               spare_per_step = sf_oobsize s div sf_ecc_steps s div mul
      in do {
        r \<leftarrow> spare_search (sd_spare_sizes (sf_nfi_soc s)) spare_per_step
               (unat (sd_num_spare_size (sf_nfi_soc s)));
        Some (case r of
            None \<Rightarrow> (- 1, s)
          | Some i \<Rightarrow> (of_nat i, s\<lparr>sf_spare_per_sector := ucast (sd_spare_sizes (sf_nfi_soc s) ! i) * mul\<rparr>))
      })"

definition pagesize_index :: "bool \<Rightarrow> u32 \<Rightarrow> u32 option" where
  "pagesize_index sector_512 ws =
     (if ws = 512 then Some NFI_PAGE_SIZE_512_2K
      else if ws = 2048 then Some (if sector_512 then NFI_PAGE_SIZE_2K_4K else NFI_PAGE_SIZE_512_2K)
      else if ws = 4096 then Some (if sector_512 then NFI_PAGE_SIZE_4K_8K else NFI_PAGE_SIZE_2K_4K)
      else if ws = 8192 then Some (if sector_512 then NFI_PAGE_SIZE_8K_16K else NFI_PAGE_SIZE_4K_8K)
      else if ws = 16384 then Some NFI_PAGE_SIZE_8K_16K
      else None)"

text \<open>The index is kept in an unsigned variable, so that the test for a negative one never holds.\<close>

definition mtk_snand_pagefmt_setup :: "'h bus \<Rightarrow> 'h mtk_snand \<Rightarrow> (int \<times> 'h mtk_snand) option" where
  "mtk_snand_pagefmt_setup B s =
     (let sector_512 = (sd_sector_size (sf_nfi_soc s) = 512);
          sector_size_512 = (if sector_512 then NFI_SEC_SEL_512 else 0);
          spare_size_shift = (if sector_512 then NFI_SPARE_SIZE_S else NFI_SPARE_SIZE_LS_S)
      in case pagesize_index sector_512 (sf_writesize s) of
           None \<Rightarrow> Some (- ENOTSUPP, s)
         | Some pagesize_idx \<Rightarrow> do {
             (spare_size_idx, s) \<leftarrow> mtk_snand_select_spare_per_sector s;
             let s = s\<lparr>sf_raw_sector_size := sector_size s + sf_spare_per_sector s\<rparr>;
             Some (0, nfi_write32 B NFI_PAGEFMT
               (push_bit NFI_FDM_ECC_NUM_S (fdm_ecc_size s) OR push_bit NFI_FDM_NUM_S (fdm_size s) OR
                push_bit spare_size_shift spare_size_idx OR push_bit NFI_PAGE_SIZE_S pagesize_idx OR
                sector_size_512) s)
           })"

text \<open>The I/O mode chosen, its opcode and dummy cycles; \<open>SNAND_IO_MAX\<close> with no opcode when the chip
  and the controller share none.\<close>

definition mtk_snand_select_opcode :: "u32 \<Rightarrow> snand_io_cap \<Rightarrow> (nat \<times> snand_opcode option) option" where
  "mtk_snand_select_opcode snfi_caps op_cap =
     (let caps = snfi_caps AND ucast (ic_caps op_cap); i = fls caps
      in if i > 0 then do { oc \<leftarrow> load (ic_opcodes op_cap) (i - 1); Some (i - 1, Some oc) }
         else Some (SNAND_IO_MAX, None))"

definition rfc_modes :: "u32 list" where
  "rfc_modes = [DATA_READ_MODE_X1, DATA_READ_MODE_X2, DATA_READ_MODE_DUAL, DATA_READ_MODE_X4, DATA_READ_MODE_QUAD]"

definition pl_modes :: "u8 list" where
  "pl_modes = [0, 0, 0, 1, 0]"

definition mtk_snand_select_opcode_rfc ::
    "u32 \<Rightarrow> snand_io_cap \<Rightarrow> 'h mtk_snand \<Rightarrow> (int \<times> 'h mtk_snand) option" where
  "mtk_snand_select_opcode_rfc snfi_caps op_cap s = do {
     (idx, oc) \<leftarrow> mtk_snand_select_opcode snfi_caps op_cap;
     let s = (case oc of None \<Rightarrow> s | Some c \<Rightarrow> s\<lparr>sf_opcode_rfc := oc_opcode c, sf_dummy_rfc := oc_dummy c\<rparr>);
     (if idx \<ge> SNAND_IO_MAX then Some (- ENOTSUPP, s)
      else do {
        mode \<leftarrow> load rfc_modes idx;
        let s = s\<lparr>sf_mode_rfc := ucast mode\<rparr>;
        Some (0, if idx = SNAND_IO_1_1_4 \<or> idx = SNAND_IO_1_4_4 then s\<lparr>sf_quad_spi_op := True\<rparr> else s)
      })
   }"

definition mtk_snand_select_opcode_pl ::
    "u32 \<Rightarrow> snand_io_cap \<Rightarrow> 'h mtk_snand \<Rightarrow> (int \<times> 'h mtk_snand) option" where
  "mtk_snand_select_opcode_pl snfi_caps op_cap s = do {
     (idx, oc) \<leftarrow> mtk_snand_select_opcode snfi_caps op_cap;
     let s = (case oc of None \<Rightarrow> s | Some c \<Rightarrow> s\<lparr>sf_opcode_pl := oc_opcode c\<rparr>);
     (if idx \<ge> SNAND_IO_MAX then Some (- ENOTSUPP, s)
      else do {
        mode \<leftarrow> load pl_modes idx;
        let s = s\<lparr>sf_mode_pl := mode\<rparr>;
        Some (0, if idx = SNAND_IO_1_1_4 then s\<lparr>sf_quad_spi_op := True\<rparr> else s)
      })
   }"

text \<open>The organisation of the chip.\<close>

definition setup_geometry :: "snand_flash_info \<Rightarrow> 'h mtk_snand \<Rightarrow> 'h mtk_snand" where
  "setup_geometry info s =
     (let memorg = fi_memorg info;
          ws = ucast (mo_pagesize memorg);
          es = ws * ucast (mo_pages_per_block memorg);
          die_size = ucast (es :: u32) * ucast (mo_blocks_per_die memorg) :: u64
      in s\<lparr>sf_model := fi_model info, sf_writesize := ws, sf_oobsize := ucast (mo_sparesize memorg),
           sf_erasesize := es, sf_die_size := die_size,
           sf_size := die_size * ucast (mo_ndies memorg), sf_num_dies := ucast (mo_ndies memorg),
           sf_writesize_mask := ws - 1, sf_erasesize_mask := es - 1, sf_die_mask := die_size - 1,
           sf_writesize_shift := of_nat (ffs32 ws) - 1, sf_erasesize_shift := of_nat (ffs32 es) - 1,
           sf_die_shift := of_nat (mtk_snand_ffs64 die_size) - 1, sf_select_die := fi_select_die info\<rparr>)"

text \<open>The loop over the dies, from die \<open>i\<close> on.\<close>

fun setup_dies :: "'h bus \<Rightarrow> nat \<Rightarrow> nat \<Rightarrow> 'h mtk_snand \<Rightarrow> int \<times> 'h mtk_snand" where
  "setup_dies B i 0 s = (0, s)"
| "setup_dies B i (Suc n) s =
     (let (_, s) = mtk_snand_select_die B (of_nat i) s;
          (ret, s) = mtk_snand_ondie_ecc_control B False s
      in if ret \<noteq> 0 then (ret, s)
         else let (_, s) = mtk_snand_unlock B s;
                  (_, s) = mtk_snand_qspi_control B (sf_quad_spi_op s) s
         in setup_dies B (i + 1) n s)"

definition setup_registers :: "'h bus \<Rightarrow> 'h mtk_snand \<Rightarrow> 'h mtk_snand" where
  "setup_registers B s =
     (let s = nfi_write16 B NFI_CNFG 0 s;
          s = nfi_write16 B NFI_DEBUG_CON1 WBUF_EN s;
          s = nfi_write32 B SNF_DLY_CTL3 (push_bit SFCK_SAM_DLY_S (ucast (sd_sample_delay (sf_nfi_soc s)))) s;
          (_, s) = nfi_read32 B NFI_INTR_STA s;
          s = nfi_write32 B NFI_INTR_EN 0 s;
          s = nfi_rmw32 B SNF_STA_CTL1 0 (CUS_READ_DONE OR CUS_PG_DONE) s
      in nfi_write32 B SNF_STA_CTL1 0 s)"

text \<open>The second half of the setup, from the ECC steps on.\<close>

definition setup_layout :: "'h bus \<Rightarrow> 'h mtk_snand \<Rightarrow> (int \<times> 'h mtk_snand) option" where
  "setup_layout B s =
     (let s = s\<lparr>sf_ecc_steps := sf_writesize s div sector_size s\<rparr>
      in if sf_ecc_steps s > ucast (sd_max_sectors (sf_nfi_soc s)) then Some (- ENOTSUPP, s)
      else do {
        (ret, s) \<leftarrow> mtk_snand_pagefmt_setup B s;
        (if ret \<noteq> 0 then Some (ret, s) else do {
           (ret, s) \<leftarrow> mtk_ecc_setup B (sf_spare_per_sector s - fdm_size s) (sector_size s + fdm_ecc_size s) s;
           (if ret \<noteq> 0 then Some (ret, s)
            else let (ret, s) = setup_dies B 0 (unat (sf_num_dies s)) (setup_registers B s)
            in if ret \<noteq> 0 then Some (ret, s)
            else Some (0, snd (mtk_snand_select_die B 0 s)))
        })
      })"

definition mtk_snand_setup ::
    "'h bus \<Rightarrow> snand_flash_info \<Rightarrow> 'h mtk_snand \<Rightarrow> (int \<times> 'h mtk_snand) option" where
  "mtk_snand_setup B info s = do {
     let s = setup_geometry info s;
     let snfi_caps = SPI_IO_1_1_1 OR SPI_IO_1_1_2 OR SPI_IO_1_2_2;
     let snfi_caps = (if sf_snfi_quad_spi s then snfi_caps OR SPI_IO_1_1_4 OR SPI_IO_1_4_4 else snfi_caps);
     (ret, s) \<leftarrow> mtk_snand_select_opcode_rfc snfi_caps (fi_cap_rd info) s;
     (if ret \<noteq> 0 then Some (ret, s) else do {
        (ret, s) \<leftarrow> mtk_snand_select_opcode_pl snfi_caps (fi_cap_pl info) s;
        (if ret \<noteq> 0 then Some (ret, s) else setup_layout B s)
     })
   }"

definition mtk_snand_id_probe :: "'h bus \<Rightarrow> 'h mtk_snand \<Rightarrow> int \<times> snand_flash_info option \<times> 'h mtk_snand" where
  "mtk_snand_id_probe B s =
     (let (ret, i, s) = mtk_snand_mac_io B [SNAND_CMD_READID, 0] 4 s
      in if ret \<noteq> 0 then (ret, None, s)
         else case snand_flash_id_lookup SNAND_ID_DYMMY i of
           Some info \<Rightarrow> (0, Some info, s)
         | None \<Rightarrow>
             (let (ret, i, s) = mtk_snand_mac_io B [SNAND_CMD_READID] 4 s
              in if ret \<noteq> 0 then (ret, None, s)
                 else case snand_flash_id_lookup SNAND_ID_DYMMY i of
                   Some info \<Rightarrow> (0, Some info, s)
                 | None \<Rightarrow> (- EINVAL, None, s)))"

record mtk_snand_platdata =
  pd_soc :: nat
  pd_quad_spi :: bool

text \<open>The pointers of a zeroed instance are null until they are set.\<close>

definition null_soc :: mtk_snand_soc_data where
  "null_soc = \<lparr>sd_sector_size = 0, sd_max_sectors = 0, sd_fdm_size = 0, sd_fdm_ecc_size = 0, sd_fifo_size = 0,
     sd_bbm_swap = False, sd_empty_page_check = False, sd_mastersta_mask = 0, sd_spare_sizes = [],
     sd_num_spare_size = 0, sd_latch_lat = 0, sd_sample_delay = 0\<rparr>"

definition null_ecc :: mtk_ecc_soc_data where
  "null_ecc = \<lparr>ed_ecc_caps = [], ed_num_ecc_cap = 0, ed_decdone = 0, ed_mode_shift = 0, ed_errnum_bits = 0,
     ed_errnum_shift = 0\<rparr>"

text \<open>The instance that kzalloc returns, with its buffers, on the platform device of \<open>s\<close>.\<close>

definition zeroed_instance :: "nat \<Rightarrow> nat \<Rightarrow> nat \<Rightarrow> 'h mtk_snand \<Rightarrow> 'h mtk_snand" where
  "zeroed_instance rawpage sectors page_addr s =
     \<lparr>sf_soc = 0, sf_nfi_soc = null_soc, sf_ecc_soc = null_ecc, sf_snfi_quad_spi = False, sf_quad_spi_op = False,
      sf_model = [], sf_size = 0, sf_die_size = 0, sf_erasesize = 0, sf_writesize = 0, sf_oobsize = 0,
      sf_num_dies = 0, sf_select_die = None, sf_opcode_rfc = 0, sf_opcode_pl = 0, sf_dummy_rfc = 0,
      sf_mode_rfc = 0, sf_mode_pl = 0, sf_writesize_mask = 0, sf_writesize_shift = 0, sf_erasesize_mask = 0,
      sf_erasesize_shift = 0, sf_die_mask = 0, sf_die_shift = 0, sf_spare_per_sector = 0,
      sf_raw_sector_size = 0, sf_ecc_strength = 0, sf_ecc_steps = 0, sf_ecc_bytes = 0, sf_ecc_parity_bits = 0,
      sf_page_addr = page_addr, sf_page_cache = replicate rawpage 0, sf_buf_cache = replicate rawpage 0,
      sf_sect_bf = replicate sectors 0, sf_poll_mode = sf_poll_mode s, sf_hw = sf_hw s\<rparr>"

text \<open>The part of mtk_snand_init that allocates and sets up the instance of a chip that was found.\<close>

definition create_instance ::
    "'h bus \<Rightarrow> nat \<Rightarrow> mtk_snand_platdata \<Rightarrow> mtk_snand_soc_data \<Rightarrow> snand_flash_info \<Rightarrow> 'h mtk_snand \<Rightarrow>
     (int \<times> (nat \<times> 'h mtk_snand) option \<times> 'h) option" where
  "create_instance B struct_size pdata soc info t =
     (let rawpage = unat (mo_pagesize (fi_memorg info)) + unat (mo_sparesize (fi_memorg info));
          sectors = unat (sd_max_sectors soc);
          (snf, t) = from_hw (bus_kzalloc B (struct_size + rawpage + sectors * 4)) t
      in case snf of
           None \<Rightarrow> Some (- ENOMEM, None, sf_hw t)
         | Some snf_addr \<Rightarrow>
             (let (cache, t) = from_hw (bus_kzalloc B rawpage) t
              in case cache of
                   None \<Rightarrow> Some (- ENOMEM, None, bus_kfree B snf_addr (sf_hw t))
                 | Some page_addr \<Rightarrow> do {
                     (ret, s) \<leftarrow> mtk_snand_setup B info ((zeroed_instance rawpage sectors page_addr t)
                       \<lparr>sf_soc := pd_soc pdata, sf_nfi_soc := soc, sf_snfi_quad_spi := pd_quad_spi pdata\<rparr>);
                     (if ret \<noteq> 0
                      then Some (ret, None, bus_kfree B snf_addr (bus_kfree B (sf_page_addr s) (sf_hw s)))
                      else Some (0, Some (snf_addr, s), sf_hw s))
                   }))"

text \<open>
  mtk_snand_init. \<open>tmpsnf\<close> is the dummy instance on the stack with whatever it holds, and the platform
  device; \<open>struct_size\<close> is sizeof(struct mtk_snand). The result is the return value, the instance with its
  address, and the state of the hardware.
\<close>

definition mtk_snand_init ::
    "'h bus \<Rightarrow> nat \<Rightarrow> mtk_snand_platdata \<Rightarrow> 'h mtk_snand \<Rightarrow> (int \<times> (nat \<times> 'h mtk_snand) option \<times> 'h) option" where
  "mtk_snand_init B struct_size pdata tmpsnf =
     (if pd_soc pdata \<ge> SNAND_SOC_MAX then Some (- EINVAL, None, sf_hw tmpsnf)
      else do {
        soc \<leftarrow> load mtk_snand_socs (pd_soc pdata);
        let t = tmpsnf\<lparr>sf_soc := pd_soc pdata, sf_nfi_soc := soc\<rparr>;
        let t = nfi_write32 B SNF_CFG SPI_MODE t;
        let (_, t) = mtk_snand_mac_reset B t;
        let (_, t) = mtk_nfi_reset B t;
        (ret, t) \<leftarrow> mtk_snand_chip_reset B t;
        (if ret \<noteq> 0 then Some (ret, None, sf_hw t)
         else let (ret, snand_info, t) = mtk_snand_id_probe B t
         in if ret \<noteq> 0 then Some (ret, None, sf_hw t)
         else do {
           info \<leftarrow> snand_info;
           create_instance B struct_size pdata soc info t
         })
      })"

definition mtk_snand_cleanup :: "'h bus \<Rightarrow> (nat \<times> 'h mtk_snand) option \<Rightarrow> 'h \<Rightarrow> int \<times> 'h" where
  "mtk_snand_cleanup B snf h =
     (case snf of None \<Rightarrow> (0, h)
      | Some (snf_addr, s) \<Rightarrow> (0, bus_kfree B snf_addr (bus_kfree B (sf_page_addr s) h)))"

record mtk_snand_chip_info =
  ci_model :: string
  ci_chipsize :: u64
  ci_blocksize :: u32
  ci_pagesize :: u32
  ci_sparesize :: u32
  ci_spare_per_sector :: u32
  ci_fdm_size :: u32
  ci_fdm_ecc_size :: u32
  ci_num_sectors :: u32
  ci_sector_size :: u32
  ci_ecc_strength :: u32
  ci_ecc_bytes :: u32

definition mtk_snand_get_chip_info :: "'h mtk_snand \<Rightarrow> mtk_snand_chip_info" where
  "mtk_snand_get_chip_info s =
     \<lparr>ci_model = sf_model s, ci_chipsize = sf_size s, ci_blocksize = sf_erasesize s,
      ci_pagesize = sf_writesize s, ci_sparesize = sf_oobsize s, ci_spare_per_sector = sf_spare_per_sector s,
      ci_fdm_size = fdm_size s, ci_fdm_ecc_size = fdm_ecc_size s, ci_num_sectors = sf_ecc_steps s,
      ci_sector_size = sector_size s, ci_ecc_strength = sf_ecc_strength s, ci_ecc_bytes = sf_ecc_bytes s\<rparr>"

section \<open>The layouts of the table\<close>

text \<open>The numbers that the setup computes from the controller and the size of a page: the sectors of
  a page, the spare bytes of a sector, and the bits its code corrects.\<close>

definition planned ::
    "mtk_snand_soc_data \<Rightarrow> mtk_ecc_soc_data \<Rightarrow> u32 \<Rightarrow> u32 \<Rightarrow> (u32 \<times> nat \<times> nat) option" where
  "planned soc ed ws oob =
     (let ss = ucast (sd_sector_size soc); n = ws div ss; mul = (if sd_sector_size soc = 1024 then 2 else 1)
      in if n = 0 \<or> n > ucast (sd_max_sectors soc) then None
         else do {
           r \<leftarrow> spare_search (sd_spare_sizes soc) (oob div n div mul) (unat (sd_num_spare_size soc));
           i \<leftarrow> r;
           let room = ucast (sd_spare_sizes soc ! i) * mul - ucast (sd_fdm_size soc);
           let bits = of_nat (fls (1 + 8 * (ss + ucast (sd_fdm_ecc_size soc))));
           j \<leftarrow> ecc_cap_search (ed_ecc_caps ed) (room * 8 div bits) (unat (ed_num_ecc_cap ed - 1));
           Some (n, i, j)
         })"

definition plan_ok :: "mtk_snand_soc_data \<Rightarrow> u32 \<Rightarrow> u32 \<Rightarrow> u32 \<Rightarrow> u32 \<Rightarrow> u32 \<Rightarrow> bool" where
  "plan_ok soc ws oob steps spare strength \<longleftrightarrow>
     (let n = unat steps; S = unat (sd_sector_size soc); F = unat (sd_fdm_size soc); P = unat spare
      in 0 < n \<and> 1 < F \<and> F \<le> P \<and> P \<le> S \<and> (n - 1) * P \<le> S \<and> unat ws = n * S \<and> n * P \<le> unat oob \<and>
         unat ws + unat oob < 2 ^ 31 \<and> unat (sd_fdm_ecc_size soc) \<le> F \<and> n \<le> unat (sd_max_sectors soc) \<and>
         unat strength < 2 ^ 30 \<and>
         unat (strength * of_nat (fls (ucast (sd_sector_size soc) * 8))) \<le> 8 * (P - F))"

definition plan_good :: "nat \<Rightarrow> u16 \<times> u16 \<Rightarrow> bool" where
  "plan_good k = (\<lambda>(ps, ss).
     let soc = mtk_snand_socs ! k; ed = mtk_ecc_socs ! k
     in case planned soc ed (ucast ps) (ucast ss) of None \<Rightarrow> False
        | Some (n, i, j) \<Rightarrow> plan_ok soc (ucast ps) (ucast ss) n
            (ucast (sd_spare_sizes soc ! i) * (if sd_sector_size soc = 1024 then 2 else 1))
            (ucast (ed_ecc_caps ed ! j)))"

lemma spare_search_eq:
  "spare_search table limit n = (case n of 0 \<Rightarrow> Some None
     | Suc i \<Rightarrow> do { c \<leftarrow> load table i;
         (if ucast c \<le> limit then Some (Some i) else spare_search table limit i) })"
  by (cases n) simp_all

lemmas plan_defs = plan_good_def planned_def plan_ok_def mtk_snand_socs_def mtk_ecc_socs_def Let_def
  soc_7622_def soc_7629_def soc_7981_def soc_7986_def soc_7988_def ecc_7622_def ecc_7981_def ecc_7986_def
  mt7622_spare_sizes_def mt7981_spare_sizes_def mt7986_spare_sizes_def
  mt7622_ecc_caps_def mt7981_ecc_caps_def mt7986_ecc_caps_def load_def fls_def

lemma plans:
  assumes "k < SNAND_SOC_MAX" and "known_page p"
  shows "plan_good k p"
proof -
  note eqs = spare_search_eq [of _ _ "numeral k" for k] spare_search_eq [of _ _ "Suc j" for j]
    ecc_cap_search.simps [of _ _ "numeral k" for k] ecc_cap_search.simps [of _ _ "Suc j" for j]
    ecc_cap_search.simps [of _ _ 0]
  have "plan_good 0 (2048, 64)" "plan_good 0 (2048, 120)" "plan_good 0 (2048, 128)"
    "plan_good 0 (4096, 240)" "plan_good 0 (4096, 256)"
    by (simp_all add: plan_defs eqs upt_rec)
  moreover have "plan_good 1 (2048, 64)" "plan_good 1 (2048, 120)" "plan_good 1 (2048, 128)"
    "plan_good 1 (4096, 240)" "plan_good 1 (4096, 256)"
    by (simp_all add: plan_defs eqs upt_rec)
  moreover have "plan_good 2 (2048, 64)" "plan_good 2 (2048, 120)" "plan_good 2 (2048, 128)"
    "plan_good 2 (4096, 240)" "plan_good 2 (4096, 256)"
    by (simp_all add: plan_defs eqs upt_rec)
  moreover have "plan_good 3 (2048, 64)" "plan_good 3 (2048, 120)" "plan_good 3 (2048, 128)"
    "plan_good 3 (4096, 240)" "plan_good 3 (4096, 256)"
    by (simp_all add: plan_defs eqs upt_rec)
  moreover have "plan_good 4 (2048, 64)" "plan_good 4 (2048, 120)" "plan_good 4 (2048, 128)"
    "plan_good 4 (4096, 240)" "plan_good 4 (4096, 256)"
    by (simp_all add: plan_defs eqs upt_rec)
  moreover have "k = 0 \<or> k = 1 \<or> k = 2 \<or> k = 3 \<or> k = 4"
    using assms(1) by (auto simp: SNAND_SOC_MAX_def)
  ultimately show ?thesis using assms(2) by (auto simp: known_page_def)
qed

section \<open>The description that results\<close>

lemma fls_bounds:
  fixes w :: u32
  shows "(\<And>n. k \<le> n \<Longrightarrow> \<not> bit w n) \<Longrightarrow> fls w \<le> k" and "bit w 0 \<Longrightarrow> 0 < fls w"
proof -
  have mem: "n \<in> set (filter (bit w) (rev [0..<32]))" if "filter (bit w) (rev [0..<32]) = n # ns" for n ns
    unfolding that by simp
  assume "\<And>n. k \<le> n \<Longrightarrow> \<not> bit w n"
  then have "bit w n \<Longrightarrow> Suc n \<le> k" for n by (meson not_less_eq_eq)
  then show "fls w \<le> k" by (auto simp: fls_def split: list.splits dest!: mem)
next
  assume "bit w 0"
  then have "0 \<in> set (filter (bit w) (rev [0..<32]))" by simp
  then have "filter (bit w) (rev [0..<32]) \<noteq> []" by (metis empty_iff empty_set)
  then show "0 < fls w" unfolding fls_def by (cases "filter (bit w) (rev [0..<32])") simp_all
qed

definition io_caps :: "u32 \<Rightarrow> bool" where
  "io_caps c \<longleftrightarrow> bit c 0 \<and> (\<forall>n. 5 \<le> n \<longrightarrow> \<not> bit c n)"

lemma io_caps_used:
  "io_caps (SPI_IO_1_1_1 OR SPI_IO_1_1_2 OR SPI_IO_1_2_2)"
  "io_caps ((SPI_IO_1_1_1 OR SPI_IO_1_1_2 OR SPI_IO_1_2_2) OR SPI_IO_1_1_4 OR SPI_IO_1_4_4)"
proof -
  note defs = SPI_IO_1_1_1_def SPI_IO_1_1_2_def SPI_IO_1_2_2_def SPI_IO_1_1_4_def SPI_IO_1_4_4_def
    SNAND_IO_1_1_1_def SNAND_IO_1_1_2_def SNAND_IO_1_2_2_def SNAND_IO_1_1_4_def SNAND_IO_1_4_4_def
    BIT_def mask_eq_exp_minus_1
  have "SPI_IO_1_1_1 OR SPI_IO_1_1_2 OR SPI_IO_1_2_2 = mask 3"
    "(SPI_IO_1_1_1 OR SPI_IO_1_1_2 OR SPI_IO_1_2_2) OR SPI_IO_1_1_4 OR SPI_IO_1_4_4 = mask 5"
    by (simp_all add: defs)
  then show "io_caps (SPI_IO_1_1_1 OR SPI_IO_1_1_2 OR SPI_IO_1_2_2)"
    "io_caps ((SPI_IO_1_1_1 OR SPI_IO_1_1_2 OR SPI_IO_1_2_2) OR SPI_IO_1_1_4 OR SPI_IO_1_4_4)"
    by (simp_all only: io_caps_def bit_mask_iff) simp_all
qed

lemma select_opcode_ok:
  assumes "io_caps c" "known_caps op"
  shows "ok (mtk_snand_select_opcode c op) (\<lambda>(idx, oc). idx < 5)"
proof -
  let ?c = "c AND ucast (ic_caps op)"
  have "fls ?c \<le> 5" by (rule fls_bounds) (use assms(1) in \<open>auto simp: io_caps_def bit_and_iff\<close>)
  moreover have "0 < fls ?c"
    by (rule fls_bounds) (use assms in \<open>auto simp: io_caps_def known_caps_def bit_and_iff bit_ucast_iff\<close>)
  ultimately show ?thesis
    using assms(2) by (simp add: mtk_snand_select_opcode_def known_caps_def ok_bind Let_def)
qed

text \<open>What the invariant depends on.\<close>

definition geo where
  "geo s = ((sf_erasesize s, sf_size s), sf_nfi_soc s, sf_soc s, sf_writesize s, sf_oobsize s, sf_page_cache s, sf_buf_cache s, sf_sect_bf s)"

definition fmt where
  "fmt s = (geo s, sf_ecc_steps s, sf_spare_per_sector s, sf_raw_sector_size s)"

lemma opcodes_ok:
  assumes "io_caps c" "known_caps op"
  shows "ok (mtk_snand_select_opcode_rfc c op s) (\<lambda>(ret, s'). geo s' = geo s)"
    and "ok (mtk_snand_select_opcode_pl c op s) (\<lambda>(ret, s'). geo s' = geo s)"
proof -
  show "ok (mtk_snand_select_opcode_rfc c op s) (\<lambda>(ret, s'). geo s' = geo s)"
    unfolding mtk_snand_select_opcode_rfc_def Let_def
    by (rule ok_bind2 [OF select_opcode_ok [OF assms]])
       (simp add: rfc_modes_def SNAND_IO_MAX_def geo_def load_def split: option.splits)
  show "ok (mtk_snand_select_opcode_pl c op s) (\<lambda>(ret, s'). geo s' = geo s)"
    unfolding mtk_snand_select_opcode_pl_def Let_def
    by (rule ok_bind2 [OF select_opcode_ok [OF assms]])
       (simp add: pl_modes_def SNAND_IO_MAX_def geo_def load_def split: option.splits)
qed

lemma strip_keys:
  assumes "strip s' = strip s"
  shows "fmt s' = fmt s" "sf_ecc_strength s' = sf_ecc_strength s"
  using shape_conf [OF strip_shape [OF assms]] strip_fields [OF assms] strip_shape [OF assms]
  by (auto simp: fmt_def geo_def shape_def mtk_snand_conf.truncate_def)

lemma ecc_setup_ok:
  assumes "sf_soc s < SNAND_SOC_MAX"
    and "ecc_cap_search (ed_ecc_caps (mtk_ecc_socs ! sf_soc s)) (mx * 8 div of_nat (fls (1 + 8 * msg)))
           (unat (ed_num_ecc_cap (mtk_ecc_socs ! sf_soc s) - 1)) = Some i"
  shows "ok (mtk_ecc_setup B mx msg s) (\<lambda>(ret, s').
     fmt s' = fmt s \<and> sf_ecc_strength s' = ucast (ed_ecc_caps (mtk_ecc_socs ! sf_soc s) ! i))"
proof -
  have l: "load mtk_ecc_socs (sf_soc s) = Some (mtk_ecc_socs ! sf_soc s)"
    using assms(1) by (simp add: load_def mtk_ecc_socs_def SNAND_SOC_MAX_def)
  let ?ed = "mtk_ecc_socs ! sf_soc s"
  let ?s = "s\<lparr>sf_ecc_soc := ?ed, sf_ecc_parity_bits := of_nat (fls (1 + 8 * msg)),
      sf_ecc_strength := ucast (ed_ecc_caps ?ed ! i),
      sf_ecc_bytes := (ucast (ed_ecc_caps ?ed ! i) * of_nat (fls (1 + 8 * msg)) + 7) div 8\<rparr>"
  have "ok (mtk_ecc_setup B mx msg s) (\<lambda>(ret, s'). strip s' = strip ?s)"
    by (simp add: mtk_ecc_setup_def l assms(2) case_prod_beta Let_def frame)
  then show ?thesis
  proof (rule ok_mono2)
    fix ret :: int and s' assume st: "strip s' = strip ?s"
    show "fmt s' = fmt s \<and> sf_ecc_strength s' = ucast (ed_ecc_caps ?ed ! i)"
      unfolding strip_keys [OF st] by (simp add: fmt_def geo_def)
  qed
qed

lemma pagefmt_setup_ok:
  assumes "sf_ecc_steps s \<noteq> 0"
    and "spare_search (sd_spare_sizes (sf_nfi_soc s)) (sf_oobsize s div sf_ecc_steps s div
           (if sd_sector_size (sf_nfi_soc s) = 1024 then 2 else 1)) (unat (sd_num_spare_size (sf_nfi_soc s))) = Some (Some i)"
  defines "v \<equiv> ucast (sd_spare_sizes (sf_nfi_soc s) ! i) * (if sd_sector_size (sf_nfi_soc s) = 1024 then 2 else 1)"
  shows "ok (mtk_snand_pagefmt_setup B s) (\<lambda>(ret, s').
     ret = 0 \<longrightarrow> fmt s' = (geo s, sf_ecc_steps s, v, sector_size s + v))"
proof -
  have sp: "mtk_snand_select_spare_per_sector s = Some (of_nat i, s\<lparr>sf_spare_per_sector := v\<rparr>)"
    using assms(1,2) by (simp add: mtk_snand_select_spare_per_sector_def v_def Let_def)
  have "fmt (nfi_write32 B reg x (s\<lparr>sf_spare_per_sector := v, sf_raw_sector_size := r + v\<rparr>)) =
      (geo s, sf_ecc_steps s, v, r + v)" for reg x r
    unfolding strip_keys(1) [OF strip_prims(3)] by (simp add: fmt_def geo_def)
  then show ?thesis
    by (simp add: mtk_snand_pagefmt_setup_def sp ENOTSUPP_def Let_def split: option.splits)
qed

lemma strip_setup:
  "strip (setup_registers B s) = strip s"
  "strip (snd (setup_dies B i n s)) = strip s"
proof -
  show "strip (setup_registers B s) = strip s"
    by (simp add: setup_registers_def frame case_prod_beta Let_def)
  show "strip (snd (setup_dies B i n s)) = strip s"
    by (induction n arbitrary: i s) (simp_all add: frame case_prod_beta Let_def)
qed

lemma unat_ucast_u16: "unat (ucast (w :: u16) :: u32) = unat w"
proof -
  have "unat w < 2 ^ LENGTH(16)" by (rule unsigned_less)
  then show ?thesis by (simp add: unsigned_ucast_eq take_bit_nat_eq_self)
qed

text \<open>A description with the planned numbers has the invariant.\<close>

lemma plan_wf:
  assumes "plan_ok (sf_nfi_soc s) (sf_writesize s) (sf_oobsize s) (sf_ecc_steps s) (sf_spare_per_sector s)
      (sf_ecc_strength s)"
    and "sf_raw_sector_size s = sector_size s + sf_spare_per_sector s"
    and "length (sf_page_cache s) = page_len s" "length (sf_buf_cache s) = page_len s"
    and "length (sf_sect_bf s) = unat (sd_max_sectors (sf_nfi_soc s))"
  shows "snand_wf s" "1 < unat (fdm_size s)"
proof -
  note u = unat_ucast_u16
  note p = assms(1) [unfolded plan_ok_def Let_def]
  have raw: "unat (sf_raw_sector_size s) = unat (sector_size s) + unat (sf_spare_per_sector s)"
  proof -
    have "unat (sd_sector_size (sf_nfi_soc s)) < 2 ^ 16" using unsigned_less [of "sd_sector_size (sf_nfi_soc s)"] by simp
    then have "unat (sector_size s) + unat (sf_spare_per_sector s) < 2 ^ 32" using p by (simp add: u)
    then show ?thesis unfolding assms(2) by (rule unat_add_u32)
  qed
  have pf: "page_format s" using p raw by (simp add: page_format_def Let_def u)
  moreover have "ecc_format s"
    using p page_positions(6) [OF pf] by (simp add: ecc_format_def weak_def ecc_bits_of_def u)
  moreover show "1 < unat (fdm_size s)" using p by (simp add: u)
  ultimately show "snand_wf s" using p assms(3-5) by (simp add: snand_wf_def)
qed

lemma setup_layout_ok:
  fixes s :: "'a mtk_snand"
  assumes k: "sf_soc s < SNAND_SOC_MAX" and soc: "sf_nfi_soc s = mtk_snand_socs ! sf_soc s"
    and pg: "known_page (ps, os)" "sf_writesize s = ucast ps" "sf_oobsize s = ucast os"
    and len: "length (sf_page_cache s) = page_len s" "length (sf_buf_cache s) = page_len s"
      "length (sf_sect_bf s) = unat (sd_max_sectors (sf_nfi_soc s))"
  shows "ok (setup_layout B s) (\<lambda>(ret, s'). ret = 0 \<longrightarrow>
     snand_wf s' \<and> 1 < unat (fdm_size s') \<and> geo s' = geo s)" (is "ok _ ?Q")
proof -
  let ?soc = "sf_nfi_soc s" and ?ed = "mtk_ecc_socs ! sf_soc s" and ?mul = "if sd_sector_size (sf_nfi_soc s) = 1024 then 2 else 1 :: u32"
  define n where "n = sf_writesize s div sector_size s"
  have "plan_good (sf_soc s) (ps, os)" using plans [OF k pg(1)] .
  then obtain i j where n: "n \<noteq> 0" "\<not> n > ucast (sd_max_sectors ?soc)"
    and i: "spare_search (sd_spare_sizes ?soc) (sf_oobsize s div n div ?mul) (unat (sd_num_spare_size ?soc)) = Some (Some i)"
    and j: "ecc_cap_search (ed_ecc_caps ?ed)
        ((ucast (sd_spare_sizes ?soc ! i) * ?mul - fdm_size s) * 8 div
         of_nat (fls (1 + 8 * (sector_size s + fdm_ecc_size s)))) (unat (ed_num_ecc_cap ?ed - 1)) = Some j"
    and plan: "plan_ok ?soc (sf_writesize s) (sf_oobsize s) n (ucast (sd_spare_sizes ?soc ! i) * ?mul) (ucast (ed_ecc_caps ?ed ! j))"
    unfolding n_def plan_good_def planned_def Let_def soc [symmetric] split_conv pg(2,3) [symmetric]
    by (auto split: option.splits if_split_asm simp: Option.bind_eq_Some_conv)
  define v where "v = ucast (sd_spare_sizes ?soc ! i) * ?mul"
  let ?s = "s\<lparr>sf_ecc_steps := n\<rparr>"
  have fmt: "ok (mtk_snand_pagefmt_setup B ?s) (\<lambda>(ret, s'). ret = 0 \<longrightarrow> fmt s' = (geo s, n, v, sector_size s + v))"
    using pagefmt_setup_ok [of ?s i B] n i by (simp add: v_def geo_def)
  have main: "ok (do {
        (ret, s) \<leftarrow> mtk_snand_pagefmt_setup B ?s;
        (if ret \<noteq> 0 then Some (ret, s) else do {
           (ret, s) \<leftarrow> mtk_ecc_setup B (sf_spare_per_sector s - fdm_size s) (sector_size s + fdm_ecc_size s) s;
           (if ret \<noteq> 0 then Some (ret, s)
            else let (ret, s) = setup_dies B 0 (unat (sf_num_dies s)) (setup_registers B s)
            in if ret \<noteq> 0 then Some (ret, s)
            else Some (0, snd (mtk_snand_select_die B 0 s)))
        }) }) ?Q"
  proof (rule ok_bind2 [OF fmt], rule ok_if, goal_cases)
    case 1
    then show ?case by simp
  next
    case (2 ret s1)
    then have s1: "geo s1 = geo s" "sf_ecc_steps s1 = n" "sf_spare_per_sector s1 = v"
      "sf_raw_sector_size s1 = sector_size s + v" by (simp_all add: fmt_def)
    then have g: "sf_soc s1 = sf_soc s" "sf_nfi_soc s1 = ?soc" by (simp_all add: geo_def)
    have ecc: "ok (mtk_ecc_setup B (sf_spare_per_sector s1 - fdm_size s1) (sector_size s1 + fdm_ecc_size s1) s1)
      (\<lambda>(ret, s'). fmt s' = fmt s1 \<and> sf_ecc_strength s' = ucast (ed_ecc_caps ?ed ! j))"
      using ecc_setup_ok [of s1 "sf_spare_per_sector s1 - fdm_size s1" "sector_size s1 + fdm_ecc_size s1" j B] j k
      by (simp add: g s1(3) v_def)
    show ?case
    proof (rule ok_bind2 [OF ecc], rule ok_if, goal_cases)
      case 1
      then show ?case by simp
    next
      case (2 ret s2)
      let ?d = "setup_dies B 0 (unat (sf_num_dies s2)) (setup_registers B s2)"
      let ?s3 = "snd (mtk_snand_select_die B 0 (snd ?d))"
      have st: "strip ?s3 = strip s2" by (simp add: strip_die(1) strip_setup)
      have "fmt ?s3 = (geo s, n, v, sector_size s + v)" "sf_ecc_strength ?s3 = ucast (ed_ecc_caps ?ed ! j)"
        using strip_keys [OF st] 2(1) s1 by (simp_all add: fmt_def)
      then have "snand_wf ?s3 \<and> 1 < unat (fdm_size ?s3) \<and> geo ?s3 = geo s"
        using plan_wf [of ?s3] plan len by (simp add: fmt_def geo_def v_def page_len_def)
      then show ?case by (simp add: case_prod_beta Let_def)
    qed
  qed
  show ?thesis
    unfolding setup_layout_def n_def [symmetric] using n(2) main by (simp add: Let_def)
qed

text \<open>The size of a block and of the chip, as the setup computes them.\<close>

definition erase_and_size :: "snand_mem_org \<Rightarrow> u32 \<times> u64" where
  "erase_and_size mo =
     (let es = ucast (mo_pagesize mo) * ucast (mo_pages_per_block mo)
      in (es, ucast es * ucast (mo_blocks_per_die mo) * ucast (mo_ndies mo)))"

lemma setup_ok:
  fixes s :: "'a mtk_snand"
  assumes "sf_soc s < SNAND_SOC_MAX" "sf_nfi_soc s = mtk_snand_socs ! sf_soc s" and info: "known_chip info"
    and "length (sf_page_cache s) = unat (mo_pagesize (fi_memorg info)) + unat (mo_sparesize (fi_memorg info))"
    and "length (sf_buf_cache s) = unat (mo_pagesize (fi_memorg info)) + unat (mo_sparesize (fi_memorg info))"
    and "length (sf_sect_bf s) = unat (sd_max_sectors (sf_nfi_soc s))"
  shows "ok (mtk_snand_setup B info s) (\<lambda>(ret, s'). ret = 0 \<longrightarrow>
     snand_wf s' \<and> 1 < unat (fdm_size s') \<and> sf_nfi_soc s' = sf_nfi_soc s \<and>
     (sf_erasesize s', sf_size s') = erase_and_size (fi_memorg info) \<and>
     sf_writesize s' = ucast (mo_pagesize (fi_memorg info)) \<and> sf_oobsize s' = ucast (mo_sparesize (fi_memorg info)))"
    (is "ok _ ?Q")
proof -
  define s0 where "s0 = setup_geometry info s"
  define c where "c = (let c = SPI_IO_1_1_1 OR SPI_IO_1_1_2 OR SPI_IO_1_2_2
      in if sf_snfi_quad_spi s0 then c OR SPI_IO_1_1_4 OR SPI_IO_1_4_4 else c)"
  have c: "io_caps c" by (simp add: c_def Let_def io_caps_used del: or.assoc)
  note u = unat_ucast_u16
  have g0: "geo s0 = (erase_and_size (fi_memorg info), sf_nfi_soc s, sf_soc s, ucast (mo_pagesize (fi_memorg info)), ucast (mo_sparesize (fi_memorg info)),
      sf_page_cache s, sf_buf_cache s, sf_sect_bf s)"
    by (simp add: s0_def setup_geometry_def geo_def erase_and_size_def Let_def)
  have lay: "ok (setup_layout B s2) ?Q" if g: "geo s2 = geo s0" for s2 :: "'a mtk_snand"
  proof -
    have "ok (setup_layout B s2) (\<lambda>(ret, s'). ret = 0 \<longrightarrow>
        snand_wf s' \<and> 1 < unat (fdm_size s') \<and> geo s' = geo s2)"
      by (rule setup_layout_ok [where ps = "mo_pagesize (fi_memorg info)" and os = "mo_sparesize (fi_memorg info)"])
         (use g [unfolded g0] assms in \<open>auto simp: geo_def known_chip_def known_org_def page_len_def u\<close>)
    then show ?thesis
      by (rule ok_mono2) (use g [unfolded g0] in \<open>auto simp: geo_def\<close>)
  qed
  have pl: "ok (do { (ret, s) \<leftarrow> mtk_snand_select_opcode_pl c (fi_cap_pl info) s1;
      (if ret \<noteq> 0 then Some (ret, s) else setup_layout B s) }) ?Q" if g: "geo s1 = geo s0" for s1 :: "'a mtk_snand"
    by (rule ok_bind2 [OF opcodes_ok(2) [OF c]], use info in \<open>simp add: known_chip_def\<close>, rule ok_if)
       (use g lay in simp_all)
  have "ok (do { (ret, s) \<leftarrow> mtk_snand_select_opcode_rfc c (fi_cap_rd info) s0;
      (if ret \<noteq> 0 then Some (ret, s) else do { (ret, s) \<leftarrow> mtk_snand_select_opcode_pl c (fi_cap_pl info) s;
      (if ret \<noteq> 0 then Some (ret, s) else setup_layout B s) }) }) ?Q"
    by (rule ok_bind2 [OF opcodes_ok(1) [OF c]], use info in \<open>simp add: known_chip_def\<close>, rule ok_if)
       (use pl in simp_all)
  then show ?thesis unfolding mtk_snand_setup_def s0_def c_def Let_def .
qed

section \<open>The instance that results\<close>

lemma chip_reset_ok:
  assumes "clock_runs B now"
  shows "ok (mtk_snand_chip_reset B s) (\<lambda>(ret, s'). strip s' = strip s)"
proof -
  have m: "strip (snd (mac_out B [SNAND_CMD_RESET] s)) = strip s" by (simp add: frame)
  have "ok (do { (ret, s) \<leftarrow> mtk_snand_poll_status B SNFI_POLL_INTERVAL (snd (mac_out B [SNAND_CMD_RESET] s));
      Some (if ret < 0 then ret else 0, s) }) (\<lambda>(ret, s'). strip s' = strip s)"
    by (rule ok_bind2 [OF poll_status_ok [OF assms]]) (use m in simp)
  then show ?thesis
    using m by (simp add: mtk_snand_chip_reset_def case_prod_beta Let_def)
qed

lemma id_probe_known:
  "fst (mtk_snand_id_probe B s) \<noteq> 0 \<or>
   (\<exists>i. fst (snd (mtk_snand_id_probe B s)) = Some i \<and> i \<in> set snand_flash_ids \<and> known_chip i)"
  by (auto simp: mtk_snand_id_probe_def EINVAL_def case_prod_beta Let_def split: option.split
      dest: lookup_known)

definition new_instance :: "nat \<Rightarrow> 'h mtk_snand \<Rightarrow> bool" where
  "new_instance k s \<longleftrightarrow> snand_wf s \<and> 1 < unat (fdm_size s) \<and> sf_nfi_soc s = mtk_snand_socs ! k \<and>
     (\<exists>info \<in> set snand_flash_ids. (sf_erasesize s, sf_size s) = erase_and_size (fi_memorg info) \<and>
        sf_writesize s = ucast (mo_pagesize (fi_memorg info)) \<and>
        sf_oobsize s = ucast (mo_sparesize (fi_memorg info)))"

lemma init_ok:
  fixes tmp :: "'a mtk_snand"
  assumes "clock_runs B now"
  shows "ok (mtk_snand_init B sz pdata tmp) (\<lambda>(ret, psnf, h).
     (ret = 0 \<longleftrightarrow> psnf \<noteq> None) \<and> (\<forall>a s. psnf = Some (a, s) \<longrightarrow> new_instance (pd_soc pdata) s))" (is "ok _ ?Q")
proof (cases "pd_soc pdata < SNAND_SOC_MAX")
  case False
  then show ?thesis by (simp add: mtk_snand_init_def EINVAL_def)
next
  case True
  let ?soc = "mtk_snand_socs ! pd_soc pdata"
  have soc: "load mtk_snand_socs (pd_soc pdata) = Some ?soc"
    using True by (simp add: load_def mtk_snand_socs_def SNAND_SOC_MAX_def)
  have inst: "ok (create_instance B sz pdata ?soc info t) ?Q"
    if info: "info \<in> set snand_flash_ids \<and> known_chip info" for info and t :: "'a mtk_snand"
  proof -
    have st: "ok (do { (ret, s) \<leftarrow> mtk_snand_setup B info
          ((zeroed_instance (unat (mo_pagesize (fi_memorg info)) + unat (mo_sparesize (fi_memorg info)))
             (unat (sd_max_sectors ?soc)) page_addr t)
           \<lparr>sf_soc := pd_soc pdata, sf_nfi_soc := ?soc, sf_snfi_quad_spi := pd_quad_spi pdata\<rparr>);
        (if ret \<noteq> 0 then Some (ret, None, bus_kfree B a (bus_kfree B (sf_page_addr s) (sf_hw s)))
         else Some (0, Some (a, s), sf_hw s)) }) ?Q" for page_addr a and t :: "'a mtk_snand"
      by (rule ok_bind2 [OF setup_ok [where info = info]])
         (use True info in \<open>auto simp: zeroed_instance_def new_instance_def\<close>)
    then show ?thesis
      by (simp add: create_instance_def ENOMEM_def case_prod_beta Let_def split: option.split)
  qed
  have probe: "ok (if ret \<noteq> 0 then Some (ret, None, sf_hw t)
         else let (ret, snand_info, t) = mtk_snand_id_probe B t
         in if ret \<noteq> 0 then Some (ret, None, sf_hw t)
         else do { info \<leftarrow> snand_info; create_instance B sz pdata ?soc info t }) ?Q" for ret and t :: "'a mtk_snand"
    using id_probe_known [of B t] inst by (auto simp: case_prod_beta Let_def)
  have "ok (do { (ret, t) \<leftarrow> mtk_snand_chip_reset B t;
      (if ret \<noteq> 0 then Some (ret, None, sf_hw t)
       else let (ret, snand_info, t) = mtk_snand_id_probe B t
         in if ret \<noteq> 0 then Some (ret, None, sf_hw t)
         else do { info \<leftarrow> snand_info; create_instance B sz pdata ?soc info t }) }) ?Q" for t
    by (rule ok_bind2 [OF chip_reset_ok [OF assms]], rule probe)
  then show ?thesis using True by (simp add: mtk_snand_init_def soc case_prod_beta Let_def)
qed

end
