(* ===== verification/Snand_Service.thy ===== *)
theory Snand_Service
  imports Snand_Setup
begin

text \<open>
  What the SPI-NAND driver promises its callers: sequences of requests (the contract \<open>service\<close> of the
  prelude), what a read delivers of what a write put into the page cache, and how the two ways of writing a
  page agree on where its bytes lie in the chip.
\<close>

section \<open>Requests\<close>

datatype snand_request =
    SnandReset
  | SnandRead u64 "bytes option" "bytes option" bool
  | SnandWrite u64 "bytes option" "bytes option" bool
  | SnandErase u64
  | SnandIsBad u64
  | SnandMarkBad u64
  | SnandReadAuto u64 "bytes option" "bytes option" nat bool
  | SnandWriteAuto u64 "bytes option" "bytes option" nat bool
  | SnandIrq

fun snand_serve :: "'h bus \<Rightarrow> snand_request \<Rightarrow> 'h mtk_snand \<Rightarrow> 'h mtk_snand option" where
  "snand_serve B SnandReset s = map_option snd (mtk_snand_chip_reset B s)"
| "snand_serve B (SnandRead addr buf oob raw) s = map_option (\<lambda>(_, _, _, s). s) (mtk_snand_read_page B addr buf oob raw s)"
| "snand_serve B (SnandWrite addr buf oob raw) s = map_option snd (mtk_snand_write_page B addr buf oob raw s)"
| "snand_serve B (SnandErase addr) s = map_option snd (mtk_snand_erase_block B addr s)"
| "snand_serve B (SnandIsBad addr) s = map_option snd (mtk_snand_block_isbad B addr s)"
| "snand_serve B (SnandMarkBad addr) s = map_option snd (mtk_snand_block_markbad B addr s)"
| "snand_serve B (SnandReadAuto addr buf oob n raw) s =
     map_option (\<lambda>(_, _, _, _, s). s) (mtk_snand_read_page_auto_oob B addr buf oob n raw s)"
| "snand_serve B (SnandWriteAuto addr buf oob n raw) s =
     map_option (\<lambda>(_, _, s). s) (mtk_snand_write_page_auto_oob B addr buf oob n raw s)"
| "snand_serve B SnandIrq s = Some (snd (mtk_snand_irq_process B s))"

text \<open>The callers owe buffers as long as a page and its spare area, or as they say.\<close>

fun snand_legal :: "nat \<Rightarrow> nat \<Rightarrow> snand_request \<Rightarrow> bool" where
  "snand_legal ws os (SnandRead addr buf oob raw) \<longleftrightarrow> wide ws buf \<and> wide os oob"
| "snand_legal ws os (SnandWrite addr buf oob raw) \<longleftrightarrow> wide ws buf \<and> wide os oob"
| "snand_legal ws os (SnandReadAuto addr buf oob n raw) \<longleftrightarrow> wide ws buf \<and> wide n oob"
| "snand_legal ws os (SnandWriteAuto addr buf oob n raw) \<longleftrightarrow> wide ws buf \<and> wide n oob"
| "snand_legal ws os _ \<longleftrightarrow> True"

definition snand_good :: "'h bus \<Rightarrow> ('h \<Rightarrow> int) \<Rightarrow> nat \<Rightarrow> nat \<Rightarrow> 'h mtk_snand \<Rightarrow> bool" where
  "snand_good B now ws os s \<longleftrightarrow> clock_runs B now \<and> snand_wf s \<and> 1 < unat (fdm_size s) \<and>
     unat (sf_writesize s) = ws \<and> unat (sf_oobsize s) = os"

lemma snand_good_shape:
  assumes "shape s' = shape s"
  shows "snand_good B now ws os s' = snand_good B now ws os s"
  by (simp add: snand_good_def shape_wf(1) [OF assms] shape_conf(1,2,4) [OF assms])

lemma ok_map: "ok (map_option f m) Q \<longleftrightarrow> ok m (\<lambda>x. Q (f x))"
  by (cases m) simp_all

lemma snand_serve_shape:
  assumes "snand_good B now ws os s" and "snand_legal ws os r"
  shows "ok (snand_serve B r s) (\<lambda>s'. shape s' = shape s)"
proof -
  have g: "clock_runs B now" "snand_wf s" "1 < unat (fdm_size s)"
    using assms(1) by (simp_all add: snand_good_def)
  have fit: "bufs_fit s buf oob" if "wide ws buf" "wide os oob" for buf oob
    using that assms(1) by (simp add: bufs_fit_def snand_good_def)
  have buf: "wide (unat (sf_writesize s)) b" if "wide ws b" for b
    using that assms(1) by (simp add: snand_good_def)
  show ?thesis
  proof (cases r)
    case SnandReset
    show ?thesis
      using chip_reset_ok [OF g(1), of s] by (auto simp: SnandReset ok_map elim!: ok_mono dest: strip_shape)
  next
    case (SnandRead addr b ob raw)
    then show ?thesis
      using read_page_ok [OF g(1,2) fit, of b ob addr raw] assms(2) by (auto simp: ok_map elim!: ok_mono)
  next
    case (SnandWrite addr b ob raw)
    then show ?thesis
      using snand_write_page_ok [OF g(1,2) fit, of b ob addr raw] assms(2) by (auto simp: ok_map elim!: ok_mono)
  next
    case (SnandErase addr)
    show ?thesis using erase_block_ok [OF g(1), of addr s] by (auto simp: SnandErase ok_map elim!: ok_mono)
  next
    case (SnandIsBad addr)
    show ?thesis using block_isbad_ok [OF g(1,2), of addr] by (auto simp: SnandIsBad ok_map elim!: ok_mono)
  next
    case (SnandMarkBad addr)
    show ?thesis using block_markbad_ok [OF g(1,2), of addr] by (auto simp: SnandMarkBad ok_map elim!: ok_mono)
  next
    case (SnandReadAuto addr b ob n raw)
    then show ?thesis
      using read_page_auto_oob_ok [OF g buf, of b n ob addr raw] assms(2) by (auto simp: ok_map elim!: ok_mono)
  next
    case (SnandWriteAuto addr b ob n raw)
    then show ?thesis
      using write_page_auto_oob_ok [OF g buf, of b n ob addr raw] assms(2) by (auto simp: ok_map elim!: ok_mono)
  next
    case SnandIrq
    show ?thesis by (simp add: SnandIrq shape_frame)
  qed
qed

interpretation snand: service "snand_serve B" "snand_legal ws os" "snand_good B now ws os"
  "\<lambda>s s'. shape s' = shape s"
proof unfold_locales
  fix s :: "'a mtk_snand" and r
  assume g: "snand_good B now ws os s" and "snand_legal ws os r"
  from snand_serve_shape [OF this]
  show "ok (snand_serve B r s) (\<lambda>s'. snand_good B now ws os s' \<and> shape s' = shape s)"
    by (rule ok_mono) (use g snand_good_shape in blast)
qed simp_all

lemmas snand_requests_ok = snand.run_all_ok

section \<open>Reading back what was written\<close>

lemma exact_to_wide: "length b = k \<Longrightarrow> wide k (Some b)"
  by (simp add: wide_def)

text \<open>Both plain copies, with buffers of the size of the page and its spare area.\<close>

lemma copy_in_eq:
  assumes "page_format s" "length (sf_page_cache s) = page_len s" "length d = unat (sf_writesize s)"
    "k \<le> unat (sf_oobsize s)" "length ob = unat (sf_oobsize s)"
  shows "copy_in s (Some d) (Some ob) k =
     Some (s\<lparr>sf_page_cache := d @ take k ob @ replicate (unat (sf_oobsize s) - k) 0xff\<rparr>)"
proof -
  let ?W = "unat (sf_writesize s)" and ?O = "unat (sf_oobsize s)" and ?f = "\<lambda>n. replicate n (0xff :: u8)"
  have pl: "unat (sf_writesize s + sf_oobsize s) = page_len s" by (rule page_positions(7) [OF assms(1)])
  have clear: "clear_page_cache s = Some (s\<lparr>sf_page_cache := ?f (page_len s)\<rparr>)"
    using assms(2) by (simp add: clear_page_cache_def memset_def blit_def pl)
  have data: "memcpy (?f (page_len s)) 0 d 0 ?W = Some (d @ ?f ?O)"
    using assms(3) by (simp add: memcpy_def slice_def blit_def page_len_def)
  have spare: "memcpy (d @ ?f ?O) ?W ob 0 k = Some (d @ take k ob @ ?f (?O - k))"
    using assms(3-5) by (simp add: memcpy_def slice_def blit_def flip: assms(3))
  show ?thesis by (simp add: copy_in_def clear data spare Let_def)
qed

lemma copy_out_eq:
  assumes "length (sf_page_cache s) = page_len s" "length b = unat (sf_writesize s)"
    "k \<le> unat (sf_oobsize s)" "length ob = unat (sf_oobsize s)"
  shows "copy_out s (Some b) (Some ob) k = Some (Some (take (unat (sf_writesize s)) (sf_page_cache s)),
     Some (take k (drop (unat (sf_writesize s)) (sf_page_cache s)) @ replicate (unat (sf_oobsize s) - k) 0xff), s)"
  using assms by (simp add: copy_out_def memset_def memcpy_def slice_def blit_def page_len_def Let_def)

lemma overlay_prefix: "length xs \<le> length b \<Longrightarrow> overlay b xs = xs @ drop (length xs) b"
  by (simp add: overlay_def)

lemma swap_undo:
  assumes "page_format s" "length (sf_page_cache s) = page_len s"
  shows "ok (mtk_snand_fdm_bm_swap_raw s) (\<lambda>s1. ok (mtk_snand_bm_swap_raw s1) (\<lambda>s2.
       ok (mtk_snand_bm_swap_raw s2) (\<lambda>s3. ok (mtk_snand_fdm_bm_swap_raw s3) (\<lambda>s4. s4 = s))))"
    and "ok (mtk_snand_fdm_bm_swap s) (\<lambda>s1. ok (mtk_snand_bm_swap s1) (\<lambda>s2.
       ok (mtk_snand_bm_swap s2) (\<lambda>s3. ok (mtk_snand_fdm_bm_swap s3) (\<lambda>s4. s4 = s))))"
proof -
  obtain n S F E where sz: "sizes s = (n, S, F, E)" by (cases "sizes s") auto
  note sf = sizes_facts [OF assms(1) sz] and p = swap_positions(1-3) [OF assms(1) sz]
  have pl: "r < page_len s" if "r < n * (S + F + E)" for r using that sf(9) by simp
  note q = p [THEN pl] p [THEN sector_pos_less, THEN pl]
  have eqs: "mtk_snand_bm_swap_raw (s\<lparr>sf_page_cache := m\<rparr>) = Some (s\<lparr>sf_page_cache :=
      (if no_swap s then m else exchanged (last_fdm n S F E) (n * S) m)\<rparr>)"
    "mtk_snand_fdm_bm_swap_raw (s\<lparr>sf_page_cache := m\<rparr>) = Some (s\<lparr>sf_page_cache :=
      (if no_swap s then m else exchanged (first_fdm S) (last_fdm n S F E) m)\<rparr>)"
    "mtk_snand_bm_swap (s\<lparr>sf_page_cache := m\<rparr>) = Some (s\<lparr>sf_page_cache :=
      (if no_swap s then m
       else exchanged (sector_pos n S F E (last_fdm n S F E)) (sector_pos n S F E (n * S)) m)\<rparr>)"
    "mtk_snand_fdm_bm_swap (s\<lparr>sf_page_cache := m\<rparr>) = Some (s\<lparr>sf_page_cache :=
      (if no_swap s then m
       else exchanged (sector_pos n S F E (first_fdm S)) (sector_pos n S F E (last_fdm n S F E)) m)\<rparr>)"
    if "length m = page_len s" for m
    using bm_swap_eqs [of "s\<lparr>sf_page_cache := m\<rparr>" n S F E] assms(1) sz that by simp_all
  note e = eqs [OF assms(2), simplified] and c = assms(2)
  show "ok (mtk_snand_fdm_bm_swap_raw s) (\<lambda>s1. ok (mtk_snand_bm_swap_raw s1) (\<lambda>s2.
       ok (mtk_snand_bm_swap_raw s2) (\<lambda>s3. ok (mtk_snand_fdm_bm_swap_raw s3) (\<lambda>s4. s4 = s))))"
    by (simp add: e eqs c exchanged_twice q)
  show "ok (mtk_snand_fdm_bm_swap s) (\<lambda>s1. ok (mtk_snand_bm_swap s1) (\<lambda>s2.
       ok (mtk_snand_bm_swap s2) (\<lambda>s3. ok (mtk_snand_fdm_bm_swap s3) (\<lambda>s4. s4 = s))))"
    by (simp add: e eqs c exchanged_twice q)
qed

lemma raw_copies_inverse:
  assumes f: "page_format s" and sz: "sizes s = (n, S, F, E)" and L: "length (sf_page_cache s) = page_len s"
    and d: "length d = n * S" "length b = n * S" and ob: "n * (F + E) \<le> length ob" "n * (F + E) \<le> length ob2"
  shows "\<exists>s1. mtk_snand_to_raw_page s (Some d) (Some ob) False = Some s1 \<and>
     page_format s1 \<and> length (sf_page_cache s1) = page_len s1 \<and>
     mtk_snand_from_raw_page s1 (Some b) (Some ob2) = Some (Some d, Some (overlay ob2 (take (n * (F + E)) ob)))"
proof -
  note sf = sizes_facts [OF f sz]
  let ?s1 = "s\<lparr>sf_page_cache := map (raw_byte s (Some d) (Some ob) False) [0..<page_len s]\<rparr>"
  have w: "wide (n * S) (Some d)" "wide (n * F + (if False then 0 else n * E)) (Some ob)"
    using d ob by (simp_all add: wide_def algebra_simps)
  have w2: "wide (n * S) (Some b)" "wide (n * F + n * E) (Some ob2)"
    using d ob by (simp_all add: wide_def algebra_simps)
  have s1: "page_format ?s1" "sizes ?s1 = (n, S, F, E)" "length (sf_page_cache ?s1) = page_len ?s1"
    using f sz by simp_all
  have byte: "sf_page_cache ?s1 ! raw_pos n S F E k = (if k < n * S then d ! k else ob ! (k - n * S))"
    if k: "k < n * (S + F + E)" for k
  proof -
    have "raw_pos n S F E k < n * (S + F + E)" using k by (rule raw_pos_less)
    then show ?thesis
      using sector_pos_raw_pos [OF k] sf(9) by (simp add: raw_byte_def sz cooked_def)
  qed
  have len: "n * (F + E) = n * F + n * E" "n * (S + F + E) = n * S + (n * F + n * E)" by (simp_all add: algebra_simps)
  have "map (\<lambda>k. sf_page_cache ?s1 ! raw_pos n S F E k) [0..<n * S] = d"
    by (rule nth_equalityI) (use byte d len in simp_all)
  moreover have "map (\<lambda>k. sf_page_cache ?s1 ! raw_pos n S F E (n * S + k)) [0..<n * F + n * E] = take (n * (F + E)) ob"
    by (rule nth_equalityI) (use byte ob len in simp_all)
  ultimately have "mtk_snand_from_raw_page ?s1 (Some b) (Some ob2) =
      Some (Some (overlay b d), Some (overlay ob2 (take (n * (F + E)) ob)))"
    using from_raw_page_ok [OF s1 w2 refl] by simp
  then show ?thesis
    using to_raw_page_ok [OF f sz L w] s1 d by (intro exI [of _ ?s1]) (simp add: overlay_same_length)
qed

definition spare_span :: "'h mtk_snand \<Rightarrow> bool \<Rightarrow> nat" where
  "spare_span s raw = unat (if raw then sf_ecc_steps s * sf_spare_per_sector s else sf_ecc_steps s * fdm_size s)"

lemma take_overlay: "k \<le> length xs \<Longrightarrow> length xs \<le> length b \<Longrightarrow> take k (overlay b xs) = take k xs"
  by (simp add: overlay_def)

lemma page_cache_round_trip:
  assumes w: "snand_wf s" and d: "length d = unat (sf_writesize s)" "length b = unat (sf_writesize s)"
    and ob: "length ob = unat (sf_oobsize s)" "length ob2 = unat (sf_oobsize s)"
    and prep: "prepare_page s (Some d) (Some ob) raw format = Some (raw, s')"
  shows "\<exists>ob' s''. deliver_page s' (Some b) (Some ob2) raw format = Some (Some d, Some ob', s'') \<and>
     length ob' = length ob \<and> take (spare_span s raw) ob' = take (spare_span s raw) ob"
proof -
  obtain n S F E where sz: "sizes s = (n, S, F, E)" by (cases "sizes s") auto
  note wf = snand_wfD [OF w] and sf = sizes_facts [OF snand_wfD(1) [OF w] sz] and sp = spare_counts [OF w]
  have np: "unat (sf_ecc_steps s * sf_spare_per_sector s) = n * (F + E)"
  proof -
    have "unat (sf_ecc_steps s) * unat (sf_spare_per_sector s) < 2 ^ 32"
      using sf(1,4,9,20) by (simp add: algebra_simps)
    then show ?thesis using unat_mul_u32 [of "sf_ecc_steps s" "sf_spare_per_sector s"] sf(1,4) by simp
  qed
  have plain: "\<exists>s1. copy_in s (Some d) (Some ob) k = Some s1 \<and> page_format s1 \<and> length (sf_page_cache s1) = page_len s1 \<and>
      sf_ecc_steps s1 = sf_ecc_steps s \<and> sf_spare_per_sector s1 = sf_spare_per_sector s \<and>
      copy_out s1 (Some b) (Some ob2) k = Some (Some d, Some (take k ob @ replicate (unat (sf_oobsize s) - k) 0xff), s1)"
    if "k \<le> unat (sf_oobsize s)" for k
  proof -
    let ?s1 = "s\<lparr>sf_page_cache := d @ take k ob @ replicate (unat (sf_oobsize s) - k) 0xff\<rparr>"
    have len: "length (sf_page_cache ?s1) = page_len ?s1" using d ob that by (simp add: page_len_def)
    show ?thesis
      using copy_in_eq [OF wf(1,3) d(1) that ob(1)] copy_out_eq [OF len, of b k ob2] len wf(1) d ob that
      by (intro exI [of _ ?s1]) simp
  qed
  consider "raw" "format" | "raw" "\<not> format" | "\<not> raw" by blast
  then show ?thesis
  proof cases
    case 1
    obtain s1 where to: "mtk_snand_to_raw_page s (Some d) (Some ob) False = Some s1"
      and s1: "page_format s1" "length (sf_page_cache s1) = page_len s1"
      and again: "mtk_snand_from_raw_page s1 (Some b) (Some ob2) = Some (Some d, Some (overlay ob2 (take (n * (F + E)) ob)))"
      using raw_copies_inverse [OF wf(1) sz wf(3), of d b ob ob2] d ob sf(13,14) by auto
    have "deliver_page s' (Some b) (Some ob2) raw format = Some (Some d, Some (overlay ob2 (take (n * (F + E)) ob)), s1)"
      using prep 1 swap_undo(1) [OF s1]
      by (auto simp: prepare_page_def deliver_page_def to again ok_def)
    then show ?thesis
      using 1 ob sf(14) by (simp add: spare_span_def np take_overlay)
  next
    case 2
    then show ?thesis
      using prep plain [OF sp(1)] sp(1) ob
      by (auto simp: prepare_page_def deliver_page_def spare_span_def min_def)
  next
    case 3
    have e: "mtk_snand_is_empty_page s (Some d) (Some ob) = Some False"
      using prep 3 by (auto simp: prepare_page_def Option.bind_eq_Some_conv)
    obtain s1 where cin: "copy_in s (Some d) (Some ob) (unat (sf_ecc_steps s * fdm_size s)) = Some s1"
      and s1: "page_format s1" "length (sf_page_cache s1) = page_len s1"
      and cout: "copy_out s1 (Some b) (Some ob2) (unat (sf_ecc_steps s * fdm_size s)) = Some (Some d,
        Some (take (unat (sf_ecc_steps s * fdm_size s)) ob @ replicate (unat (sf_oobsize s) - unat (sf_ecc_steps s * fdm_size s)) 0xff), s1)"
      using plain [OF sp(2)] by auto
    have same: "sf_ecc_steps s1 * fdm_size s1 = sf_ecc_steps s * fdm_size s"
      using cin copy_in_eq [OF wf(1,3) d(1) sp(2) ob(1)] by auto
    have "deliver_page s' (Some b) (Some ob2) raw format = copy_out s1 (Some b) (Some ob2) (unat (sf_ecc_steps s1 * fdm_size s1))"
      using prep 3 swap_undo(2) [OF s1] by (auto simp: prepare_page_def deliver_page_def e cin ok_def)
    then show ?thesis
      using 3 cout sp(2) ob by (simp add: same spare_span_def)
  qed
qed

section \<open>The free bytes of a page\<close>

lemma free_pos_not_mark: "1 < F \<Longrightarrow> free_pos F j \<noteq> i * F"
proof
  assume F: "1 < F" and eq: "free_pos F j = i * F"
  have "free_pos F j mod F = (1 + j mod (F - 1)) mod F"
    unfolding free_pos_def add.assoc by (rule mod_mult_self3)
  moreover have "1 + j mod (F - 1) < F" using F mod_less_divisor [of "F - 1" j] by linarith
  ultimately show False by (simp add: eq)
qed

lemma free_bytes_keep_marks:
  assumes "snand_wf s" "1 < unat (fdm_size s)" and "length raw = unat (sf_oobsize s)"
    and "n \<le> length oob" "n \<le> length buf"
  shows "\<exists>raw' buf'. mtk_snand_fill_oob s raw oob n = Some (n - unat (sf_ecc_steps s) * (unat (fdm_size s) - 1), raw') \<and>
     mtk_snand_transfer_oob s buf n raw' = Some (n - unat (sf_ecc_steps s) * (unat (fdm_size s) - 1), buf') \<and>
     take (min n (unat (sf_ecc_steps s) * (unat (fdm_size s) - 1))) buf' =
       take (min n (unat (sf_ecc_steps s) * (unat (fdm_size s) - 1))) oob \<and>
     length raw' = length raw \<and>
     (\<forall>i < unat (sf_ecc_steps s). raw' ! (i * unat (fdm_size s)) = raw ! (i * unat (fdm_size s)))"
proof -
  obtain k S F E where sz: "sizes s = (k, S, F, E)" by (cases "sizes s") auto
  note sf = sizes_facts [OF snand_wfD(1) [OF assms(1)] sz]
  have bufs_fit: "k * F \<le> length raw" using sf(14) assms(3) by (simp add: algebra_simps)
  have F: "1 < F" using assms(2) sf(3) by simp
  obtain raw' buf' where f: "fill_steps F k 0 raw oob 0 n = Some (n - k * (F - 1), raw')"
    and t: "transfer_steps F k 0 buf raw' 0 n = Some (n - k * (F - 1), buf')"
    and l: "length raw' = length raw" "take (min n (k * (F - 1))) buf' = take (min n (k * (F - 1))) oob"
    using fill_transfer [OF F assms(4,5) bufs_fit] by blast
  have r: "written (\<lambda>r. oob ! free_index F r) (free_pos F ` {0..<min n (k * (F - 1))}) raw raw'"
    using fill_steps_ok [OF F, of 0 n oob k raw] assms(4) bufs_fit f by (auto elim!: okE)
  have "raw' ! (i * F) = raw ! (i * F)" if "i < k" for i
  proof (rule written_outside [OF r])
    show "i * F \<notin> free_pos F ` {0..<min n (k * (F - 1))}" using free_pos_not_mark [OF F] by (metis imageE)
    have "Suc i * F \<le> k * F" using that by (intro mult_le_mono1) simp
    then show "i * F < length raw" using F bufs_fit by simp
  qed
  then show ?thesis
    using f t l by (simp add: mtk_snand_fill_oob_def mtk_snand_transfer_oob_def sf(1,3))
qed

section \<open>The two ways of writing a page\<close>

text \<open>
  The automatic format is a function of the controller: from the page in its buffer, data first and
  then the FDM bytes of all sectors, it makes the page on the chip. The driver relies on the layout:
  the data of each sector with its FDM bytes behind it, then parity, about which nothing is said.
\<close>

definition auto_layout :: "'h mtk_snand \<Rightarrow> (bytes \<Rightarrow> bytes) \<Rightarrow> bool" where
  "auto_layout s afmt \<longleftrightarrow>
     (case sizes s of (n, S, F, E) \<Rightarrow> \<forall>c i. length c = page_len s \<longrightarrow> i < n \<longrightarrow>
        length (afmt c) = page_len s \<and>
        take S (drop (i * (S + F + E)) (afmt c)) = take S (drop (i * S) c) \<and>
        take F (drop (i * (S + F + E) + S) (afmt c)) = take F (drop (n * S + i * F) c))"

lemma nth_take_drop: "take k (drop a xs) = take k (drop b ys) \<Longrightarrow> x < k \<Longrightarrow> a + x < length xs \<Longrightarrow> b + x < length ys \<Longrightarrow>
    xs ! (a + x) = ys ! (b + x)"
  by (metis add_leD1 less_imp_le_nat nth_drop nth_take)

lemma auto_layout_carries:
  assumes "page_format s" and sz: "sizes s = (n, S, F, E)" and "auto_layout s afmt" and L: "length c = page_len s"
  shows "carries n S F E (afmt c) c"
  unfolding carries_def
proof (intro allI impI)
  fix r assume r: "carried n S F E r"
  note sf = sizes_facts [OF assms(1,2)]
  have lay: "length (afmt c) = page_len s" "take S (drop (i * (S + F + E)) (afmt c)) = take S (drop (i * S) c)"
    "take F (drop (i * (S + F + E) + S) (afmt c)) = take F (drop (n * S + i * F) c)" if "i < n" for i
    using assms(3) L that by (simp_all add: auto_layout_def sz)
  have less: "r < page_len s" "sector_pos n S F E r < page_len s"
    using carried_less [OF r] sector_pos_less [OF carried_less [OF r]] sf(9) by simp_all
  from r show "afmt c ! r = c ! sector_pos n S F E r"
  proof (cases rule: carried_cases)
    case (1 i x)
    then show ?thesis
      using nth_take_drop [OF lay(2) [of i], of x] lay(1) [of i] less L by (simp add: sector_pos_data)
  next
    case (2 i x)
    then have r: "sector_pos n S F E r = n * S + (i * F + x)" by (simp only: sector_pos_fdm)
    from 2 show ?thesis
      using nth_take_drop [OF lay(3) [of i], of x] lay(1) [of i] less L unfolding r by (simp add: add.assoc)
  qed
qed

lemma raw_page_carries:
  assumes f: "page_format s" and sz: "sizes s = (n, S, F, E)"
    and d: "length d = unat (sf_writesize s)" and ob: "n * F \<le> k" "k \<le> length ob"
  shows "carries n S F E (map (raw_byte s (Some d) (Some ob) False) [0..<page_len s]) (d @ take k ob @ xs)"
  unfolding carries_def
proof (intro allI impI)
  fix r assume r: "carried n S F E r"
  note sf = sizes_facts [OF f sz]
  have "sector_pos n S F E r < n * S + n * F"
    using r
  proof (cases rule: carried_cases)
    case (1 i x)
    then show ?thesis using sector_index [of i n x S] by (simp add: sector_pos_data)
  next
    case (2 i x)
    then have "sector_pos n S F E r = n * S + (i * F + x)" by (simp only: sector_pos_fdm)
    then show ?thesis using sector_index [OF 2(1,2)] by simp
  qed
  then have "sector_pos n S F E r < n * S + k" using ob(1) by linarith
  then show "map (raw_byte s (Some d) (Some ob) False) [0..<page_len s] ! r =
      (d @ take k ob @ xs) ! sector_pos n S F E r"
    using carried_less [OF r] sf(9,13) d ob
    by (auto simp: raw_byte_def sz cooked_def nth_append)
qed

lemma coded_page_layout:
  assumes w: "snand_wf s" and d: "length d = unat (sf_writesize s)" and ob: "length ob = unat (sf_oobsize s)"
    and prep: "prepare_page s (Some d) (Some ob) False format = Some (False, s')"
    and sz: "sizes s = (n, S, F, E)"
  shows "\<exists>s''. prepare_page s (Some d) (Some ob) True True = Some (True, s'') \<and>
    length (sf_page_cache s') = page_len s \<and> length (sf_page_cache s'') = page_len s \<and>
    carries n S F E (sf_page_cache s'') (sf_page_cache s')"
proof -
  note wf = snand_wfD [OF w] and sp = spare_counts(2) [OF w]
  note sf = sizes_facts [OF wf(1) sz]
  let ?k = "unat (sf_ecc_steps s * fdm_size s)"
  let ?c = "d @ take ?k ob @ replicate (unat (sf_oobsize s) - ?k) 0xff"
  let ?m = "map (raw_byte s (Some d) (Some ob) False) [0..<page_len s]"
  have lc: "length ?c = page_len s" using d ob sp by (simp add: page_len_def)
  have e: "mtk_snand_is_empty_page s (Some d) (Some ob) = Some False"
    using prep by (auto simp: prepare_page_def Option.bind_eq_Some_conv)
  have c0: "carries n S F E ?m ?c"
    by (rule raw_page_carries [OF wf(1) sz d]) (use sf(6) ob sp in simp_all)
  obtain c1 m1 where 1: "mtk_snand_fdm_bm_swap (s\<lparr>sf_page_cache := ?c\<rparr>) = Some (s\<lparr>sf_page_cache := c1\<rparr>)"
      "mtk_snand_fdm_bm_swap_raw (s\<lparr>sf_page_cache := ?m\<rparr>) = Some (s\<lparr>sf_page_cache := m1\<rparr>)"
      "length c1 = page_len s" "length m1 = page_len s" "carries n S F E m1 c1"
    using carries_bm_swap(2) [OF wf(1) sz lc _ c0] by auto
  obtain c2 m2 where 2: "mtk_snand_bm_swap (s\<lparr>sf_page_cache := c1\<rparr>) = Some (s\<lparr>sf_page_cache := c2\<rparr>)"
      "mtk_snand_bm_swap_raw (s\<lparr>sf_page_cache := m1\<rparr>) = Some (s\<lparr>sf_page_cache := m2\<rparr>)"
      "length c2 = page_len s" "length m2 = page_len s" "carries n S F E m2 c2"
    using carries_bm_swap(1) [OF wf(1) sz 1(3-5)] by auto
  have "s' = s\<lparr>sf_page_cache := c2\<rparr>"
    using prep copy_in_eq [OF wf(1,3) d sp ob] by (simp add: prepare_page_def e 1(1) 2(1))
  moreover have "mtk_snand_to_raw_page s (Some d) (Some ob) False = Some (s\<lparr>sf_page_cache := ?m\<rparr>)"
    by (rule to_raw_page_ok [OF wf(1) sz wf(3)]) (use d ob sf(13,14) in \<open>simp_all add: wide_def algebra_simps\<close>)
  then have "prepare_page s (Some d) (Some ob) True True = Some (True, s\<lparr>sf_page_cache := m2\<rparr>)"
    by (simp add: prepare_page_def 1(2) 2(2))
  ultimately show ?thesis using 2(3-5) by simp
qed

text \<open>The pages of a coded and of a raw write, compared on the chip sector by sector.\<close>

lemma carries_same_sectors:
  assumes "carries n S F E m c" "carries n S F E m' c" and "i < n"
    and "n * (S + F + E) \<le> length m" "n * (S + F + E) \<le> length m'"
  shows "take (S + F) (drop (i * (S + F + E)) m) = take (S + F) (drop (i * (S + F + E)) m')"
proof -
  have "i * (S + F + E) + (S + F + E) \<le> n * (S + F + E)" using mult_le_mono1 [of "Suc i" n "S + F + E"] assms(3) by simp
  then show ?thesis
    using assms(4,5) carried_in [OF assms(3), of _ S F E] assms(1,2)
    by (intro nth_equalityI) (simp_all add: carries_def)
qed

section \<open>The status of a finished operation\<close>

lemma and_timeout: "- ETIMEDOUT AND SNAND_STATUS_OIP = 0"
  "- ETIMEDOUT AND (SNAND_STATUS_ERASE_FAIL OR SNAND_STATUS_PROGRAM_FAIL) = 0"
  by (simp_all add: ETIMEDOUT_def SNAND_STATUS_OIP_def SNAND_STATUS_ERASE_FAIL_def SNAND_STATUS_PROGRAM_FAIL_def)

lemma lost_status_is_success:
  assumes "mtk_snand_page_op B page cmd s = (0, s1)" "timer_get_ticks B s1 = (t, s2)"
    and "mtk_snand_get_feature B SNAND_FEATURE_STATUS_ADDR s2 = (- ETIMEDOUT, s3)"
  shows "finish_op B page cmd fail s = Some (0, s3)"
proof -
  have "poll_status_loop B t (timer_time_to_tick SNFI_POLL_INTERVAL) s2 = Some (0, s3)"
    by (subst poll_status_loop.simps) (simp add: assms(3) and_timeout)
  then show ?thesis by (simp add: finish_op_def assms(1) mtk_snand_poll_status_def assms(2))
qed

section \<open>An example\<close>

text \<open>
  A controller that answers every register read with \<open>w\<close>, whose clock is the number of steps taken, and
  whose polls time out from step \<open>k\<close> on.
\<close>

definition snand_bus :: "u32 \<Rightarrow> nat \<Rightarrow> nat bus" where
  "snand_bus w k =
     \<lparr>bus_nfi_read = (\<lambda>reg h. (w, h)), bus_nfi_write = (\<lambda>reg val h. h), bus_nfi_write16 = (\<lambda>reg val h. h),
      bus_nfi_poll16 = (\<lambda>reg cond tmo h. (0, h)),
      bus_nfi_poll32 = (\<lambda>reg cond tmo h. (if h < k then 0 else - ETIMEDOUT, h + 1)),
      bus_ecc_read = (\<lambda>reg h. (w, h)), bus_ecc_write = (\<lambda>reg val h. h), bus_ecc_write16 = (\<lambda>reg val h. h),
      bus_ecc_poll16 = (\<lambda>reg cond tmo h. (0, h)), bus_ktime_get = (\<lambda>h. (int h + 1, h + 1)),
      bus_init_completion = id, bus_complete = id, bus_wait_for_completion = (\<lambda>tmo h. (1, h)),
      bus_dma_map = (\<lambda>m len dir h. (0, 0x1000, h)), bus_dma_unmap = (\<lambda>addr len dir h. h),
      bus_dma_data = (\<lambda>h. []), bus_kzalloc = (\<lambda>n h. (Some 0x4000, h)), bus_kfree = (\<lambda>a h. h)\<rparr>"

text \<open>A small chip: pages of two sectors of 8 + 4 bytes.\<close>

definition snand_demo :: "nat mtk_snand" where
  "snand_demo =
     \<lparr>sf_soc = 3, sf_nfi_soc = soc_7986\<lparr>sd_sector_size := 8, sd_max_sectors := 2, sd_fdm_size := 2\<rparr>,
      sf_ecc_soc = ecc_7986, sf_snfi_quad_spi = False, sf_quad_spi_op = False, sf_model = ''demo'',
      sf_size = 1024, sf_die_size = 1024, sf_erasesize = 64, sf_writesize = 16, sf_oobsize = 8,
      sf_num_dies = 1, sf_select_die = None, sf_opcode_rfc = 0x0b, sf_opcode_pl = 2, sf_dummy_rfc = 8,
      sf_mode_rfc = 0, sf_mode_pl = 0, sf_writesize_mask = 15, sf_writesize_shift = 4, sf_erasesize_mask = 63,
      sf_erasesize_shift = 6, sf_die_mask = 1023, sf_die_shift = 10, sf_spare_per_sector = 4,
      sf_raw_sector_size = 12, sf_ecc_strength = 2, sf_ecc_steps = 2, sf_ecc_bytes = 2, sf_ecc_parity_bits = 7,
      sf_page_addr = 0x8000, sf_page_cache = replicate 24 0, sf_buf_cache = replicate 24 0, sf_sect_bf = [0, 0],
      sf_poll_mode = False, sf_hw = 0\<rparr>"

lemma snand_bus_clock: "clock_runs (snand_bus w k) int"
  by (simp add: clock_runs_def snand_bus_def)

lemma snand_demo_wf: "snand_wf snand_demo" "1 < unat (fdm_size snand_demo)"
  by (simp_all add: snand_wf_def page_format_def ecc_format_def weak_def ecc_bits_of_def ecc_room_def page_len_def
      snand_demo_def soc_7986_def fls_def upt_rec Let_def)

lemma snand_demo_sizes:
  "unat (sf_writesize snand_demo) = 16" "unat (sf_oobsize snand_demo) = 8" "unat (fdm_size snand_demo) = 2"
  "unat (sf_ecc_steps snand_demo) = 2" "unat (sf_ecc_strength snand_demo) = 2" "sf_hw snand_demo = 0"
  "spare_span snand_demo False = 4" "sf_page_cache snand_demo = replicate 24 0"
  by (simp_all add: snand_demo_def spare_span_def)

lemma snand_demo_good: "snand_good (snand_bus w k) int 16 8 snand_demo"
  using snand_demo_wf by (simp add: snand_good_def snand_bus_clock) (simp add: snand_demo_def)

text \<open>The accesses and commands on that controller.\<close>

lemma snand_bus_prims:
  "nfi_write32 (snand_bus w k) reg val s = s" "nfi_write16 (snand_bus w k) reg val s = s"
  "nfi_read32 (snand_bus w k) reg s = (w, s)"
  "nfi_poll32 (snand_bus w k) reg cond tmo s = (if sf_hw s < k then 0 else - ETIMEDOUT, s\<lparr>sf_hw := sf_hw s + 1\<rparr>)"
  "nfi_poll16 (snand_bus w k) reg cond16 tmo s = (0, s)"
  "ecc_write32 (snand_bus w k) reg val s = s" "ecc_write16 (snand_bus w k) reg val s = s"
  "timer_get_ticks (snand_bus w k) s = (int (sf_hw s) + 1, s\<lparr>sf_hw := sf_hw s + 1\<rparr>)"
  by (simp_all add: nfi_write32_def nfi_write16_def nfi_read32_def nfi_poll32_def nfi_poll16_def
      ecc_write32_def ecc_write16_def timer_get_ticks_def on_hw_def from_hw_def snand_bus_def Let_def)

lemma snand_bus_rmw: "nfi_rmw32 (snand_bus w k) reg clr put s = s"
  by (simp add: nfi_rmw32_def snand_bus_prims)

lemma snand_bus_data:
  "nfi_write_data (snand_bus w k) reg ds s = s"
  "snd (nfi_read_bytes (snand_bus w k) start i n val s) = s"
proof -
  have "nfi_write_bytes (snand_bus w k) i ds val s = s" for i val
    by (induction ds arbitrary: i val) (simp_all add: snand_bus_prims Let_def)
  then show "nfi_write_data (snand_bus w k) reg ds s = s" by (simp add: nfi_write_data_def)
  show "snd (nfi_read_bytes (snand_bus w k) start i n val s) = s"
    by (induction n arbitrary: start i val) (simp_all add: snand_bus_prims case_prod_beta Let_def)
qed

lemma snand_bus_mac:
  assumes "of_nat (length out) + inlen \<le> SNF_GPRAM_SIZE"
  shows "mtk_snand_mac_io (snand_bus w k) out inlen s =
     (if sf_hw s + 2 < k
      then (0, fst (nfi_read_data (snand_bus w k) (SNF_GPRAM + of_nat (length out)) inlen s), s\<lparr>sf_hw := sf_hw s + 3\<rparr>)
      else (- ETIMEDOUT, [], s\<lparr>sf_hw := sf_hw s + (if sf_hw s + 1 < k then 3 else 2)\<rparr>))"
proof -
  have rd: "nfi_read_bytes (snand_bus w k) start i n val s' = (fst (nfi_read_bytes (snand_bus w k) start i n val s), s')"
    for start i n val s'
    by (induction n arbitrary: start i val) (simp_all add: snand_bus_prims case_prod_beta Let_def)
  have reset: "snd (mtk_snand_mac_reset (snand_bus w k) s) = s\<lparr>sf_hw := sf_hw s + 1\<rparr>"
    by (simp add: mtk_snand_mac_reset_def snand_bus_prims snand_bus_rmw Let_def)
  have trigger: "mtk_snand_mac_trigger (snand_bus w k) a b s' =
      (if sf_hw s' + 1 < k then (0, s'\<lparr>sf_hw := sf_hw s' + 2\<rparr>)
       else (- ETIMEDOUT, s'\<lparr>sf_hw := sf_hw s' + (if sf_hw s' < k then 2 else 1)\<rparr>))" for a b s'
    by (simp add: mtk_snand_mac_trigger_def snand_bus_prims ETIMEDOUT_def Let_def)
  have e: "ETIMEDOUT \<noteq> 0" by (simp add: ETIMEDOUT_def)
  have len: "of_nat (length out) + inlen > SNF_GPRAM_SIZE \<longleftrightarrow> False" using assms by (simp add: not_less)
  have "fst (nfi_read_data (snand_bus w k) reg 0 s) = []" for reg by (simp add: nfi_read_data_def)
  moreover have "nfi_read_data (snand_bus w k) reg inlen (s\<lparr>sf_hw := h\<rparr>) =
      (fst (nfi_read_data (snand_bus w k) reg inlen s), s\<lparr>sf_hw := h\<rparr>)" for reg h
    unfolding nfi_read_data_def by (rule rd)
  ultimately show ?thesis
    unfolding mtk_snand_mac_io_def Let_def case_prod_beta snd_conv fst_conv len reset snand_bus_data trigger
    by (cases "inlen = 0"; cases "sf_hw s + 2 < k") (simp_all add: e)
qed

lemma snand_bus_commands:
  "mac_out (snand_bus w k) [a, b, c, d] s = (if sf_hw s + 2 < k then (0, s\<lparr>sf_hw := sf_hw s + 3\<rparr>)
     else (- ETIMEDOUT, s\<lparr>sf_hw := sf_hw s + (if sf_hw s + 1 < k then 3 else 2)\<rparr>))"
  "mac_out (snand_bus w k) [a] s = (if sf_hw s + 2 < k then (0, s\<lparr>sf_hw := sf_hw s + 3\<rparr>)
     else (- ETIMEDOUT, s\<lparr>sf_hw := sf_hw s + (if sf_hw s + 1 < k then 3 else 2)\<rparr>))"
  "mtk_snand_get_feature (snand_bus w k) addr s = (if sf_hw s + 2 < k
     then (uint (ucast (drop_bit 16 w) :: u8), s\<lparr>sf_hw := sf_hw s + 3\<rparr>)
     else (- ETIMEDOUT, s\<lparr>sf_hw := sf_hw s + (if sf_hw s + 1 < k then 3 else 2)\<rparr>))"
  "mtk_snand_mac_io (snand_bus w k) [a, b] 4 s = (if sf_hw s + 2 < k
     then (0, [ucast (drop_bit 16 w), ucast (drop_bit 24 w), ucast w, ucast (drop_bit 8 w)], s\<lparr>sf_hw := sf_hw s + 3\<rparr>)
     else (- ETIMEDOUT, [], s\<lparr>sf_hw := sf_hw s + (if sf_hw s + 1 < k then 3 else 2)\<rparr>))"
proof -
  have four: "nfi_read_bytes B st i 4 v s = nfi_read_bytes B st i (Suc (Suc (Suc (Suc 0)))) v s"
    and one: "nfi_read_bytes B st i (Suc 0) v s = nfi_read_bytes B st i (Suc 0) v s"
    for B :: "nat bus" and st i v and s :: "nat mtk_snand"
    by (simp_all add: eval_nat_numeral)
  show "mac_out (snand_bus w k) [a, b, c, d] s = (if sf_hw s + 2 < k then (0, s\<lparr>sf_hw := sf_hw s + 3\<rparr>)
     else (- ETIMEDOUT, s\<lparr>sf_hw := sf_hw s + (if sf_hw s + 1 < k then 3 else 2)\<rparr>))"
    "mac_out (snand_bus w k) [a] s = (if sf_hw s + 2 < k then (0, s\<lparr>sf_hw := sf_hw s + 3\<rparr>)
     else (- ETIMEDOUT, s\<lparr>sf_hw := sf_hw s + (if sf_hw s + 1 < k then 3 else 2)\<rparr>))"
    by (simp_all add: mac_out_def snand_bus_mac SNF_GPRAM_SIZE_def)
  show "mtk_snand_get_feature (snand_bus w k) addr s = (if sf_hw s + 2 < k
     then (uint (ucast (drop_bit 16 w) :: u8), s\<lparr>sf_hw := sf_hw s + 3\<rparr>)
     else (- ETIMEDOUT, s\<lparr>sf_hw := sf_hw s + (if sf_hw s + 1 < k then 3 else 2)\<rparr>))"
    by (simp add: mtk_snand_get_feature_def snand_bus_mac SNF_GPRAM_SIZE_def SNF_GPRAM_def ETIMEDOUT_def
        nfi_read_data_def snand_bus_prims)
  show "mtk_snand_mac_io (snand_bus w k) [a, b] 4 s = (if sf_hw s + 2 < k
     then (0, [ucast (drop_bit 16 w), ucast (drop_bit 24 w), ucast w, ucast (drop_bit 8 w)], s\<lparr>sf_hw := sf_hw s + 3\<rparr>)
     else (- ETIMEDOUT, [], s\<lparr>sf_hw := sf_hw s + (if sf_hw s + 1 < k then 3 else 2)\<rparr>))"
    by (simp add: snand_bus_mac SNF_GPRAM_SIZE_def SNF_GPRAM_def nfi_read_data_def snand_bus_prims four)
qed

end
