(* ===== verification/Snand_Properties.thy ===== *)
theory Snand_Properties
  imports Snand_Service
begin

text \<open>
  The properties of the SPI-NAND driver, each stated over the code's functions and applied to a concrete
  controller and chip.
\<close>

text \<open>C11: Whatever a controller answers, as long as its clock advances: every sequence of requests with
  buffers of the size of a page returns, with every access inside its buffer, and leaves a driver state that has
  the invariant and the same description of the chip.\<close>

theorem snand_requests_total:
  assumes "clock_runs B now" "snand_wf s" "1 < unat (fdm_size s)"
    and "list_all (snand_legal (unat (sf_writesize s)) (unat (sf_oobsize s))) rs"
  shows "\<exists>s'. run_all (snand_serve B) rs s = Some s' \<and> snand_wf s' \<and>
    mtk_snand_get_chip_info s' = mtk_snand_get_chip_info s"
proof -
  let ?ws = "unat (sf_writesize s)" and ?os = "unat (sf_oobsize s)"
  have "ok (run_all (snand_serve B) rs s) (\<lambda>s'. snand_good B now ?ws ?os s' \<and> shape s' = shape s)"
    by (rule snand_requests_ok) (use assms in \<open>auto simp: snand_good_def list_all_iff\<close>)
  then obtain s' where r: "run_all (snand_serve B) rs s = Some s'" and g: "snand_good B now ?ws ?os s'"
    and s': "shape s' = shape s" by (auto elim!: okE)
  then show ?thesis
    by (auto simp: snand_good_def mtk_snand_get_chip_info_def shape_def mtk_snand_conf.truncate_def)
qed

theorem snand_requests_total_witness:
  "\<exists>s'. run_all (snand_serve (snand_bus 0x12345678 5))
      [SnandErase 0, SnandWrite 0 (Some (replicate 16 7)) None False, SnandRead 0 None (Some (replicate 8 0)) True,
       SnandIsBad 64, SnandMarkBad 64] snand_demo = Some s' \<and> snand_wf s' \<and>
    mtk_snand_get_chip_info s' = mtk_snand_get_chip_info snand_demo"
  by (rule snand_requests_total [OF snand_bus_clock snand_demo_wf]) (simp add: snand_demo_sizes wide_def)

text \<open>C15: mtk_snand_init returns on every controller whose clock advances; it returns 0 exactly when it hands
  out an instance, and that instance is well formed: for each of the five controllers and each chip of the
  table the computed sector count, spare size and ECC strength fit the page.\<close>

theorem snand_init_well_formed:
  assumes "clock_runs B now"
  shows "\<exists>ret psnf h. mtk_snand_init B struct_size pdata tmpsnf = Some (ret, psnf, h) \<and>
    (case psnf of None \<Rightarrow> ret \<noteq> 0 | Some (a, s) \<Rightarrow> ret = 0 \<and> new_instance (pd_soc pdata) s)"
proof -
  obtain ret psnf h where "mtk_snand_init B struct_size pdata tmpsnf = Some (ret, psnf, h)"
    and "ret = 0 \<longleftrightarrow> psnf \<noteq> None" and "\<forall>a s. psnf = Some (a, s) \<longrightarrow> new_instance (pd_soc pdata) s"
    using init_ok [OF assms, of struct_size pdata tmpsnf] by (auto elim!: okE)
  then show ?thesis by (cases psnf) auto
qed

theorem snand_init_well_formed_witness:
  "\<exists>ret psnf h. mtk_snand_init (snand_bus 0x10c80000 1000) 208 \<lparr>pd_soc = 0, pd_quad_spi = False\<rparr> snand_demo =
      Some (ret, psnf, h) \<and>
    (case psnf of None \<Rightarrow> ret \<noteq> 0 | Some (a, s) \<Rightarrow> ret = 0 \<and> new_instance (pd_soc \<lparr>pd_soc = 0, pd_quad_spi = False\<rparr>) s)"
  by (rule snand_init_well_formed [OF snand_bus_clock])

text \<open>C13: A page written with ECC and a page written raw agree on the chip: when a page that is not
  empty is prepared for an ECC write, and the controller's automatic format (a parameter) puts each
  sector on the chip as its data, its FDM bytes and then parity, then in every sector the data and FDM bytes are those of the page
  that a raw write prepares for the same data and the same spare bytes. Nothing is said of parity.\<close>

theorem coded_and_raw_agree:
  assumes "snand_wf s" and "length d = unat (sf_writesize s)" and "length ob = unat (sf_oobsize s)"
    and "prepare_page s (Some d) (Some ob) False format = Some (False, s')"
    and "auto_layout s afmt" and "sizes s = (n, S, F, E)"
  shows "\<exists>s''. prepare_page s (Some d) (Some ob) True True = Some (True, s'') \<and>
    (\<forall>i < n. take (S + F) (drop (i * (S + F + E)) (afmt (sf_page_cache s'))) =
       take (S + F) (drop (i * (S + F + E)) (sf_page_cache s'')))"
proof -
  note f = snand_wfD(1) [OF assms(1)]
  obtain s'' where s'': "prepare_page s (Some d) (Some ob) True True = Some (True, s'')"
      "length (sf_page_cache s') = page_len s" "length (sf_page_cache s'') = page_len s"
      "carries n S F E (sf_page_cache s'') (sf_page_cache s')"
    using coded_page_layout [OF assms(1-4,6)] by blast
  have c: "carries n S F E (afmt (sf_page_cache s')) (sf_page_cache s')"
    by (rule auto_layout_carries [OF f assms(6,5) s''(2)])
  have "length (afmt (sf_page_cache s')) = page_len s"
    using assms(5) s''(2) sizes_facts(10) [OF f assms(6)] by (auto simp: auto_layout_def assms(6))
  then show ?thesis
    using carries_same_sectors [OF c s''(4)] s'' sizes_facts(9) [OF f assms(6)] by auto
qed

lemma snand_demo_not_empty:
  "\<exists>s'. prepare_page snand_demo (Some (replicate 16 7)) (Some [1, 2, 3, 4, 5, 6, 7, 8]) False False = Some (False, s')"
proof -
  have fit: "bufs_fit snand_demo (Some (replicate 16 7)) (Some [1, 2, 3, 4, 5, 6, 7, 8])"
    by (simp add: bufs_fit_def wide_def snand_demo_sizes)
  have "all_ff (replicate 16 7) 0 16 = Some False"
    using all_ff.simps(2) [of "replicate 16 7" 0 15] by (simp add: load_def)
  then have "mtk_snand_is_empty_page snand_demo (Some (replicate 16 7)) (Some [1, 2, 3, 4, 5, 6, 7, 8]) = Some False"
    by (simp add: mtk_snand_is_empty_page_def snand_demo_sizes)
  then show ?thesis
    using prepare_page_ok [OF snand_demo_wf(1) fit, of False False]
    by (auto simp: prepare_page_def ok_def Option.bind_eq_Some_conv)
qed

text \<open>A format for the two sectors of the example, with parity bytes of its own.\<close>

definition demo_format :: "bytes \<Rightarrow> bytes" where
  "demo_format c = take 8 c @ take 2 (drop 16 c) @ [0xaa, 0xbb] @ take 8 (drop 8 c) @ take 2 (drop 18 c) @ [0xcc, 0xdd]"

lemma demo_format_layout: "auto_layout snand_demo demo_format" "sizes snand_demo = (2, 8, 2, 2)"
proof -
  show sz: "sizes snand_demo = (2, 8, 2, 2)" by (simp add: sizes_def snand_demo_def soc_7986_def)
  have pl: "page_len snand_demo = 24" by (simp add: page_len_def snand_demo_sizes)
  have "i = 0 \<or> i = 1" if "i < 2" for i :: nat using that by auto
  moreover have "length (demo_format c) = 24 \<and>
      take 8 (drop (i * 12) (demo_format c)) = take 8 (drop (i * 8) c) \<and>
      take 2 (drop (i * 12 + 8) (demo_format c)) = take 2 (drop (16 + i * 2) c)"
    if "length c = 24" "i = 0 \<or> i = 1" for c i
    using that by (auto simp: demo_format_def)
  ultimately show "auto_layout snand_demo demo_format"
    by (auto simp: auto_layout_def sz pl)
qed

theorem coded_and_raw_agree_witness:
  "\<exists>s' s''. prepare_page snand_demo (Some (replicate 16 7)) (Some [1, 2, 3, 4, 5, 6, 7, 8]) False False = Some (False, s') \<and>
    prepare_page snand_demo (Some (replicate 16 7)) (Some [1, 2, 3, 4, 5, 6, 7, 8]) True True = Some (True, s'') \<and>
    take 10 (drop 12 (demo_format (sf_page_cache s'))) = take 10 (drop 12 (sf_page_cache s''))"
proof -
  obtain s' where p: "prepare_page snand_demo (Some (replicate 16 7)) (Some [1, 2, 3, 4, 5, 6, 7, 8]) False False =
    Some (False, s')" using snand_demo_not_empty by blast
  obtain s'' where q: "prepare_page snand_demo (Some (replicate 16 7)) (Some [1, 2, 3, 4, 5, 6, 7, 8]) True True = Some (True, s'')"
    and "\<forall>i < 2. take (8 + 2) (drop (i * (8 + 2 + 2)) (demo_format (sf_page_cache s'))) =
      take (8 + 2) (drop (i * (8 + 2 + 2)) (sf_page_cache s''))"
    using coded_and_raw_agree [OF snand_demo_wf(1) _ _ p demo_format_layout] by (auto simp: snand_demo_sizes)
  from this(2) [rule_format, of 1] p q show ?thesis by auto
qed

text \<open>C14: What a write puts into the page cache, a read in the same mode delivers: the data of the page, and the
  spare bytes of the FDM (with ECC) or of all sectors (raw), whichever way the bad-block marks were exchanged.\<close>

theorem page_write_read:
  assumes "snand_wf s" and "length d = unat (sf_writesize s)" "length b = unat (sf_writesize s)"
    and "length ob = unat (sf_oobsize s)" "length ob2 = unat (sf_oobsize s)"
    and "prepare_page s (Some d) (Some ob) raw format = Some (raw, s')"
  shows "\<exists>ob' s''. deliver_page s' (Some b) (Some ob2) raw format = Some (Some d, Some ob', s'') \<and>
     length ob' = length ob \<and> take (spare_span s raw) ob' = take (spare_span s raw) ob"
  by (rule page_cache_round_trip [OF assms])

theorem page_write_read_witness:
  "\<exists>s' ob' s''. prepare_page snand_demo (Some (replicate 16 7)) (Some [1, 2, 3, 4, 5, 6, 7, 8]) False False = Some (False, s') \<and>
     deliver_page s' (Some (replicate 16 0)) (Some (replicate 8 0)) False False = Some (Some (replicate 16 7), Some ob', s'') \<and>
     take 4 ob' = [1, 2, 3, 4]"
proof -
  obtain s' where p: "prepare_page snand_demo (Some (replicate 16 7)) (Some [1, 2, 3, 4, 5, 6, 7, 8]) False False =
    Some (False, s')" using snand_demo_not_empty by blast
  show ?thesis
    using page_write_read [OF snand_demo_wf(1) _ _ _ _ p, of "replicate 16 0" "replicate 8 0"] p
    by (auto simp: snand_demo_sizes)
qed

text \<open>C17: mtk_ecc_fixup_empty_sector repairs exactly the sectors that are erased up to correctable bit flips: the
  number of zero bits among those that the sector's code covers is returned, and these bits are set, when it is at
  most the ECC strength; otherwise -EBADMSG is returned and nothing changes.\<close>

theorem fixup_counts_zero_bits:
  assumes "snand_wf s" and "i < unat (sf_ecc_steps s)"
  defines "z \<equiv> card {q \<in> covered s i. \<not> buf_bit (sf_page_cache s) q}"
  shows "\<exists>ret s'. mtk_ecc_fixup_empty_sector (of_nat i) s = Some (ret, s') \<and>
    (if z \<le> unat (sf_ecc_strength s)
     then ret = int z \<and> s' = s\<lparr>sf_page_cache := sf_page_cache s'\<rparr> \<and>
       bits_set (covered s i) (sf_page_cache s) (sf_page_cache s')
     else ret = - EBADMSG \<and> s' = s)"
proof -
  note w = snand_wfD [OF assms(1)]
  have "z = card (clear_bits (sf_page_cache s) (covered s i))" by (simp add: z_def clear_bits_def)
  with fixup_empty_sector_ok [OF w(1-3) assms(2)]
  obtain ret s' where "mtk_ecc_fixup_empty_sector (of_nat i) s = Some (ret, s')"
    and "if z \<le> unat (sf_ecc_strength s) then ret = int z \<and>
      (\<exists>m. s' = s\<lparr>sf_page_cache := m\<rparr> \<and> bits_set (covered s i) (sf_page_cache s) m)
     else ret = - EBADMSG \<and> s' = s" by (auto elim!: okE)
  then show ?thesis by (intro exI [of _ ret] exI [of _ s']) (auto split: if_splits)
qed

theorem fixup_counts_zero_bits_witness:
  "mtk_ecc_fixup_empty_sector 0 snand_demo = Some (- EBADMSG, snand_demo)"
proof -
  have cov: "covered snand_demo 0 = {0..<64} \<union> {128..<136} \<union> {160..<174}"
    by (simp add: covered_def sizes_def ecc_bits_of_def snand_demo_def soc_7986_def fls_def upt_rec)
  have "\<not> buf_bit (sf_page_cache snand_demo) q" if "q \<in> covered snand_demo 0" for q
  proof -
    have "q div 8 < 24" using that by (auto simp: cov)
    then show ?thesis by (simp add: buf_bit_def snand_demo_sizes)
  qed
  then have "{q \<in> covered snand_demo 0. \<not> buf_bit (sf_page_cache snand_demo) q} = {0..<64} \<union> {128..<136} \<union> {160..<174}"
    using cov by blast
  moreover have "card ({0..<64} \<union> {128..<136} \<union> {160..<174 :: nat}) = 86"
    by (subst card_Un_disjoint; (subst card_Un_disjoint)?; auto)
  ultimately show ?thesis
    using fixup_counts_zero_bits [OF snand_demo_wf(1), of 0] by (simp add: snand_demo_sizes)
qed

text \<open>C32: The free bytes of the spare area: what mtk_snand_fill_oob spreads over the FDM of the sectors,
  mtk_snand_transfer_oob collects again, both report the bytes that found no room, and the first byte of each
  sector's FDM is left alone.\<close>

theorem free_bytes_round_trip:
  assumes "snand_wf s" "1 < unat (fdm_size s)" and "length raw = unat (sf_oobsize s)"
    and "n \<le> length oob" "n \<le> length buf"
  defines "room \<equiv> unat (sf_ecc_steps s) * (unat (fdm_size s) - 1)"
  shows "\<exists>raw' buf'. mtk_snand_fill_oob s raw oob n = Some (n - room, raw') \<and>
     mtk_snand_transfer_oob s buf n raw' = Some (n - room, buf') \<and>
     take (min n room) buf' = take (min n room) oob \<and> length raw' = length raw \<and>
     (\<forall>i < unat (sf_ecc_steps s). raw' ! (i * unat (fdm_size s)) = raw ! (i * unat (fdm_size s)))"
  using free_bytes_keep_marks [OF assms(1-5)] unfolding room_def .

theorem free_bytes_round_trip_witness:
  "\<exists>raw' buf'. mtk_snand_fill_oob snand_demo (replicate 8 0xff) [1, 2, 3] 3 = Some (1, raw') \<and>
     mtk_snand_transfer_oob snand_demo (replicate 3 0) 3 raw' = Some (1, buf') \<and> take 2 buf' = [1, 2]"
  using free_bytes_round_trip [OF snand_demo_wf, of "replicate 8 0xff" 3 "[1, 2, 3]" "replicate 3 0"]
  by (auto simp: snand_demo_sizes)

text \<open>C36: A program or erase operation whose status cannot be read is reported as done: when the command that
  reads the status times out, its error number has none of the status bits that the driver tests.\<close>

theorem lost_status_reported_as_success:
  assumes "mtk_snand_page_op B page cmd s = (0, s1)" "timer_get_ticks B s1 = (t, s2)"
    and "mtk_snand_get_feature B SNAND_FEATURE_STATUS_ADDR s2 = (- ETIMEDOUT, s3)"
  shows "finish_op B page cmd fail s = Some (0, s3)"
  by (rule lost_status_is_success [OF assms])

theorem lost_status_reported_as_success_witness:
  "finish_op (snand_bus 0 3) 0 SNAND_CMD_PROGRAM_EXECUTE SNAND_STATUS_PROGRAM_FAIL snand_demo =
     Some (0, snand_demo\<lparr>sf_hw := 6\<rparr>)"
  by (rule lost_status_reported_as_success [where t = 4 and ?s1.0 = "snand_demo\<lparr>sf_hw := 3\<rparr>" and ?s2.0 = "snand_demo\<lparr>sf_hw := 4\<rparr>"])
     (simp_all add: mtk_snand_page_op_def snand_bus_commands snand_bus_prims snand_demo_sizes)

end
