(* ===== verification/Snand_Mtd.thy ===== *)
theory Snand_Mtd
  imports Mtd_Request Snand_Service
begin

text \<open>
  The MTD layer of the SPI-NAND driver (mtk-snand-mtd.c): the operations that it registers with the
  kernel's MTD core, its clocks, probe and remove. A mutex that is taken twice is never released to
  the second taker, so that the second lock does not return. \<open>oobav\<close> is the kernel's \<open>mtd_oobavail\<close>.
\<close>

section \<open>Data\<close>

text \<open>\<open>struct mtd_info\<close>: the fields that the driver sets.\<close>

record mtk_mtd_info =
  mi_size :: u64
  mi_erasesize :: u32
  mi_writesize :: u32
  mi_writebufsize :: u32
  mi_oobsize :: u32
  mi_oobavail :: u32
  mi_erasesize_shift :: u32
  mi_writesize_shift :: u32
  mi_erasesize_mask :: u32
  mi_writesize_mask :: u32
  mi_ecc_strength :: u32
  mi_bitflip_threshold :: u32
  mi_ecc_step_size :: u32

record mtk_snand_of_id =
  oi_soc :: nat
  oi_en_ecc_clk :: bool
  oi_en_nfi_hclk :: bool

record 'h mtk_snand_mtd =
  msm_soc_id :: mtk_snand_of_id
  msm_irq :: int
  msm_mtd :: mtk_mtd_info
  msm_cinfo :: mtk_snand_chip_info
  msm_snf_addr :: nat
  msm_snf :: "'h mtk_snand"
  msm_page_cache :: bytes
  msm_locked :: bool
  msm_irq_off :: bool
  msm_corrected :: u32
  msm_failed :: u32

abbreviation msm_ws :: "'h mtk_snand_mtd \<Rightarrow> nat" where
  "msm_ws m \<equiv> unat (mi_writesize (msm_mtd m))"

abbreviation msm_os :: "'h mtk_snand_mtd \<Rightarrow> nat" where
  "msm_os m \<equiv> unat (mi_oobsize (msm_mtd m))"

definition mutex_lock :: "'h mtk_snand_mtd \<Rightarrow> 'h mtk_snand_mtd option" where
  "mutex_lock m = (if msm_locked m then None else Some (m\<lparr>msm_locked := True\<rparr>))"

definition mutex_unlock :: "'h mtk_snand_mtd \<Rightarrow> 'h mtk_snand_mtd" where
  "mutex_unlock m = m\<lparr>msm_locked := False\<rparr>"

section \<open>Erasing\<close>

text \<open>
  The loop. \<open>ret\<close> is the variable of the caller, \<open>None\<close> until it is assigned; the second result is
  \<open>instr->fail_addr\<close> where the code writes it.
\<close>

partial_function (option) mtd_erase_blocks ::
    "'h bus \<Rightarrow> u32 \<Rightarrow> u64 \<Rightarrow> u64 \<Rightarrow> int option \<Rightarrow> 'h mtk_snand \<Rightarrow>
     (int option \<times> u64 option \<times> 'h mtk_snand) option" where
  "mtd_erase_blocks B es start_addr end_addr ret s =
     (if start_addr < end_addr then
        Option.bind (mtk_snand_block_isbad B start_addr s) (\<lambda>(bad, s).
          if bad \<noteq> 0 then Some (Some (- EIO), Some start_addr, s)
          else Option.bind (mtk_snand_erase_block B start_addr s) (\<lambda>(ret, s).
            if ret \<noteq> 0 then Some (Some ret, Some start_addr, s)
            else mtd_erase_blocks B es (start_addr + ucast es) end_addr (Some ret) s))
      else Some (ret, None, s))"

text \<open>The masks of \<open>struct mtd_info\<close> are 32-bit values, complemented before they are widened.\<close>

definition mtk_snand_mtd_erase ::
    "'h bus \<Rightarrow> 'h mtk_snand_mtd \<Rightarrow> u64 \<Rightarrow> u64 \<Rightarrow> (int \<times> u64 option \<times> 'h mtk_snand_mtd) option" where
  "mtk_snand_mtd_erase B m addr len =
     (if addr + len > mi_size (msm_mtd m) then Some (- EINVAL, None, m)
      else do {
        let es_mask = mi_erasesize_mask (msm_mtd m);
        let start_addr = addr AND ucast (NOT es_mask);
        let end_addr = addr + len;
        let end_addr = (if end_addr AND ucast es_mask \<noteq> 0
          then (end_addr + ucast es_mask) AND ucast (NOT es_mask) else end_addr);
        m \<leftarrow> mutex_lock m;
        (ret, fail_addr, s) \<leftarrow> mtd_erase_blocks B (mi_erasesize (msm_mtd m)) start_addr end_addr None (msm_snf m);
        let m = mutex_unlock (m\<lparr>msm_snf := s\<rparr>);
        ret \<leftarrow> ret;
        Some (ret, fail_addr, m)
      })"

section \<open>Reading\<close>

text \<open>The two parts of the page cache that the driver below gets, unless nothing is wanted of them.\<close>

definition msm_datcache :: "'h mtk_snand_mtd \<Rightarrow> bool \<Rightarrow> bytes option option" where
  "msm_datcache m use = (if use then map_option Some (slice (msm_page_cache m) 0 (msm_ws m)) else Some None)"

definition msm_oobcache :: "'h mtk_snand_mtd \<Rightarrow> bool \<Rightarrow> bytes option option" where
  "msm_oobcache m use = (if use then map_option Some (slice (msm_page_cache m) (msm_ws m) (msm_os m)) else Some None)"

definition msm_put :: "'h mtk_snand_mtd \<Rightarrow> nat \<Rightarrow> bytes option \<Rightarrow> 'h mtk_snand_mtd option" where
  "msm_put m off b = (case b of None \<Rightarrow> Some m
     | Some xs \<Rightarrow> do { pc \<leftarrow> blit (msm_page_cache m) off xs; Some (m\<lparr>msm_page_cache := pc\<rparr>) })"

definition mtd_read_page ::
    "'h bus \<Rightarrow> 'h mtk_snand_mtd \<Rightarrow> u64 \<Rightarrow> u32 \<Rightarrow> bool \<Rightarrow> bool \<Rightarrow> nat \<Rightarrow> (int \<times> 'h mtk_snand_mtd) option" where
  "mtd_read_page B m addr mode useDat useOob maxooblen = do {
     let raw = (mode = MTD_OPS_RAW);
     datcache \<leftarrow> msm_datcache m useDat;
     oobcache \<leftarrow> msm_oobcache m useOob;
     (ret, dat, oob, s) \<leftarrow> (if mode = MTD_OPS_AUTO_OOB then do {
         (ret, dat, oob, actual, s) \<leftarrow> mtk_snand_read_page_auto_oob B addr datcache oobcache maxooblen raw (msm_snf m);
         Some (ret, dat, oob, s)
       } else mtk_snand_read_page B addr datcache oobcache raw (msm_snf m));
     m \<leftarrow> msm_put (m\<lparr>msm_snf := s\<rparr>) 0 dat;
     m \<leftarrow> msm_put m (msm_ws m) oob;
     Some (ret, m)
   }"

text \<open>The statistics after a page; \<open>acc\<close> is \<open>ecc_failed\<close> and \<open>max_bitflips\<close>.\<close>

definition note_flips :: "int \<Rightarrow> bool \<times> int \<Rightarrow> 'h mtk_snand_mtd \<Rightarrow> (bool \<times> int) \<times> 'h mtk_snand_mtd" where
  "note_flips ret acc m =
     (if ret = - EBADMSG then ((True, snd acc), m\<lparr>msm_failed := msm_failed m + 1\<rparr>)
      else ((fst acc, max ret (snd acc)), m\<lparr>msm_corrected := msm_corrected m + word_of_int ret\<rparr>))"

partial_function (option) mtd_read_pages ::
    "'h bus \<Rightarrow> 'h mtk_snand_mtd \<Rightarrow> u64 \<Rightarrow> mtd_oob_ops \<Rightarrow> bool \<Rightarrow> bool \<Rightarrow> nat \<Rightarrow> nat \<Rightarrow> nat \<Rightarrow> nat \<Rightarrow> nat \<Rightarrow>
     bool \<times> int \<Rightarrow> (int \<times> mtd_oob_ops \<times> 'h mtk_snand_mtd) option" where
  "mtd_read_pages B m addr ops useDat useOob len ooblen col ooboffs maxooblen acc =
     (if len \<noteq> 0 \<or> ooblen \<noteq> 0 then
        Option.bind (mtd_read_page B m addr (ops_mode ops) useDat useOob maxooblen) (\<lambda>(ret, m).
          if ret < 0 \<and> ret \<noteq> - EBADMSG then Some (ret, ops, m)
          else let (acc, m) = note_flips ret acc m in
            Option.bind (to_user_dat (msm_page_cache m) (msm_ws m) ops len col) (\<lambda>(ops, len, col).
            Option.bind (to_user_oob (msm_page_cache m) (msm_ws m) maxooblen ops ooblen ooboffs) (\<lambda>(ops, ooblen, ooboffs).
              mtd_read_pages B m (addr + ucast (mi_writesize (msm_mtd m))) ops useDat useOob
                len ooblen col ooboffs maxooblen acc)))
      else Some (if fst acc then - EBADMSG else snd acc, ops, m))"

definition msm_oobavail :: "oobav_fun \<Rightarrow> 'h mtk_snand_mtd \<Rightarrow> mtd_oob_ops \<Rightarrow> u32" where
  "msm_oobavail oobav m ops = oobav (mi_oobsize (msm_mtd m)) (mi_oobavail (msm_mtd m)) (ops_mode ops)"

definition msm_col :: "'h mtk_snand_mtd \<Rightarrow> u64 \<Rightarrow> nat" where
  "msm_col m addr = unat (ucast (addr AND ucast (mi_writesize_mask (msm_mtd m))) :: u32)"

definition msm_page_addr :: "'h mtk_snand_mtd \<Rightarrow> u64 \<Rightarrow> u64" where
  "msm_page_addr m addr = addr AND ucast (NOT (mi_writesize_mask (msm_mtd m)))"

definition mtk_snand_mtd_read_data ::
    "'h bus \<Rightarrow> oobav_fun \<Rightarrow> 'h mtk_snand_mtd \<Rightarrow> u64 \<Rightarrow> mtd_oob_ops \<Rightarrow> (int \<times> mtd_oob_ops \<times> 'h mtk_snand_mtd) option" where
  "mtk_snand_mtd_read_data B oobav m addr ops =
     mtd_read_pages B m (msm_page_addr m addr) (ops\<lparr>ops_oobretlen := 0, ops_retlen := 0\<rparr>)
       (ops_len ops \<noteq> 0) (ops_ooblen ops \<noteq> 0) (ops_len ops) (ops_ooblen ops) (msm_col m addr)
       (unat (ops_ooboffs ops)) (unat (msm_oobavail oobav m ops)) (False, 0)"

text \<open>The checks that reading and writing share: \<open>None\<close> when the request goes on to the chip.\<close>

definition mtd_check_ops :: "oobav_fun \<Rightarrow> 'h mtk_snand_mtd \<Rightarrow> u64 \<Rightarrow> mtd_oob_ops \<Rightarrow> int option" where
  "mtd_check_ops oobav m from ops =
     (if ops_oobbuf ops = None \<and> ops_datbuf ops = None
      then Some (if ops_ooblen ops \<noteq> 0 \<or> ops_len ops \<noteq> 0 then - EINVAL else 0)
      else if ops_mode ops \<noteq> MTD_OPS_PLACE_OOB \<and> ops_mode ops \<noteq> MTD_OPS_AUTO_OOB \<and> ops_mode ops \<noteq> MTD_OPS_RAW
      then Some (- EINVAL)
      else let maxooblen = msm_oobavail oobav m ops; sh = unat (mi_writesize_shift (msm_mtd m)) in
        if ops_datbuf ops \<noteq> None \<and> from + of_nat (ops_len ops) > mi_size (msm_mtd m) then Some (- EINVAL)
        else if ops_ooboffs ops \<ge> maxooblen then Some (- EINVAL)
        else if from \<ge> mi_size (msm_mtd m) \<or>
          ucast (ops_ooboffs ops) + of_nat (ops_ooblen ops) >
            (drop_bit sh (mi_size (msm_mtd m)) - drop_bit sh from) * ucast maxooblen then Some (- EINVAL)
        else None)"

definition mtk_snand_mtd_read_oob ::
    "'h bus \<Rightarrow> oobav_fun \<Rightarrow> 'h mtk_snand_mtd \<Rightarrow> u64 \<Rightarrow> mtd_oob_ops \<Rightarrow> (int \<times> mtd_oob_ops \<times> 'h mtk_snand_mtd) option" where
  "mtk_snand_mtd_read_oob B oobav m from ops =
     (case mtd_check_ops oobav m from ops of
        Some ret \<Rightarrow> Some (ret, ops, m)
      | None \<Rightarrow> do {
          m \<leftarrow> mutex_lock m;
          (ret, ops, m) \<leftarrow> mtk_snand_mtd_read_data B oobav m from ops;
          Some (ret, ops, mutex_unlock m)
        })"

section \<open>Writing\<close>

definition mtd_write_page ::
    "'h bus \<Rightarrow> 'h mtk_snand_mtd \<Rightarrow> u64 \<Rightarrow> u32 \<Rightarrow> bool \<Rightarrow> bool \<Rightarrow> nat \<Rightarrow> (int \<times> 'h mtk_snand_mtd) option" where
  "mtd_write_page B m addr mode useDat useOob oobwrlen = do {
     let raw = (mode = MTD_OPS_RAW);
     datcache \<leftarrow> msm_datcache m useDat;
     oobcache \<leftarrow> msm_oobcache m useOob;
     (ret, s) \<leftarrow> (if mode = MTD_OPS_AUTO_OOB then do {
         (ret, actual, s) \<leftarrow> mtk_snand_write_page_auto_oob B addr datcache oobcache oobwrlen raw (msm_snf m);
         Some (ret, s)
       } else mtk_snand_write_page B addr datcache oobcache raw (msm_snf m));
     Some (ret, m\<lparr>msm_snf := s\<rparr>)
   }"

partial_function (option) mtd_write_pages ::
    "'h bus \<Rightarrow> 'h mtk_snand_mtd \<Rightarrow> u64 \<Rightarrow> mtd_oob_ops \<Rightarrow> bool \<Rightarrow> bool \<Rightarrow> nat \<Rightarrow> nat \<Rightarrow> nat \<Rightarrow> nat \<Rightarrow> nat \<Rightarrow>
     (int \<times> mtd_oob_ops \<times> 'h mtk_snand_mtd) option" where
  "mtd_write_pages B m addr ops useDat useOob len ooblen col ooboffs maxooblen =
     (if len \<noteq> 0 \<or> ooblen \<noteq> 0 then
        Option.bind (from_user_dat (msm_page_cache m) (msm_ws m) ops len col) (\<lambda>(ops, len, col, pc).
        Option.bind (from_user_oob pc (msm_ws m) (msm_os m) maxooblen ops ooblen ooboffs)
          (\<lambda>(ops, ooblen, ooboffs, oobwrlen, pc).
        Option.bind (mtd_write_page B (m\<lparr>msm_page_cache := pc\<rparr>) addr (ops_mode ops) useDat useOob oobwrlen) (\<lambda>(ret, m).
          if ret \<noteq> 0 then Some (ret, ops, m)
          else mtd_write_pages B m (addr + ucast (mi_writesize (msm_mtd m))) ops useDat useOob
                 len ooblen col ooboffs maxooblen)))
      else Some (0, ops, m))"

definition mtk_snand_mtd_write_data ::
    "'h bus \<Rightarrow> oobav_fun \<Rightarrow> 'h mtk_snand_mtd \<Rightarrow> u64 \<Rightarrow> mtd_oob_ops \<Rightarrow> (int \<times> mtd_oob_ops \<times> 'h mtk_snand_mtd) option" where
  "mtk_snand_mtd_write_data B oobav m addr ops =
     mtd_write_pages B m (msm_page_addr m addr) (ops\<lparr>ops_oobretlen := 0, ops_retlen := 0\<rparr>)
       (ops_len ops \<noteq> 0) (ops_ooblen ops \<noteq> 0) (ops_len ops) (ops_ooblen ops) (msm_col m addr)
       (unat (ops_ooboffs ops)) (unat (msm_oobavail oobav m ops))"

definition mtk_snand_mtd_write_oob ::
    "'h bus \<Rightarrow> oobav_fun \<Rightarrow> 'h mtk_snand_mtd \<Rightarrow> u64 \<Rightarrow> mtd_oob_ops \<Rightarrow> (int \<times> mtd_oob_ops \<times> 'h mtk_snand_mtd) option" where
  "mtk_snand_mtd_write_oob B oobav m to ops =
     (case mtd_check_ops oobav m to ops of
        Some ret \<Rightarrow> Some (ret, ops, m)
      | None \<Rightarrow> do {
          m \<leftarrow> mutex_lock m;
          (ret, ops, m) \<leftarrow> mtk_snand_mtd_write_data B oobav m to ops;
          Some (ret, ops, mutex_unlock m)
        })"

text \<open>\<open>wrlen\<close> counts the bytes moved into the cache; \<open>ret\<close> is \<open>None\<close> until it is assigned.\<close>

partial_function (option) mtd_panic_pages ::
    "'h bus \<Rightarrow> 'h mtk_snand_mtd \<Rightarrow> u64 \<Rightarrow> nat \<Rightarrow> nat \<Rightarrow> bytes \<Rightarrow> nat \<Rightarrow> int option \<Rightarrow>
     (int option \<times> nat \<times> 'h mtk_snand_mtd) option" where
  "mtd_panic_pages B m to len col buf wrlen ret =
     (if len \<noteq> 0 then
        (let ws = msm_ws m; chklen = min (ws - col) len in
         Option.bind (if chklen < ws then blit (msm_page_cache m) 0 (replicate ws 0xff)
                      else Some (msm_page_cache m)) (\<lambda>pc.
         Option.bind (slice buf wrlen chklen) (\<lambda>src.
         Option.bind (blit pc col src) (\<lambda>pc.
         Option.bind (slice pc 0 ws) (\<lambda>page.
         Option.bind (mtk_snand_write_page B to (Some page) None False (msm_snf m)) (\<lambda>(ret, s).
           let m = m\<lparr>msm_page_cache := pc, msm_snf := s\<rparr> in
           if ret \<noteq> 0 then Some (Some ret, wrlen + chklen, m)
           else mtd_panic_pages B m (to + ucast (mi_writesize (msm_mtd m))) (len - chklen) 0 buf
                  (wrlen + chklen) (Some ret)))))))
      else Some (ret, wrlen, m))"

definition mtk_snand_mtd_panic_write ::
    "'h bus \<Rightarrow> 'h mtk_snand_mtd \<Rightarrow> u64 \<Rightarrow> nat \<Rightarrow> bytes \<Rightarrow> (int \<times> nat \<times> 'h mtk_snand_mtd) option" where
  "mtk_snand_mtd_panic_write B m to len buf = do {
     let m = m\<lparr>msm_irq_off := True, msm_snf := mtk_snand_control_poll_mode True (msm_snf m)\<rparr>;
     (ret, wrlen, m) \<leftarrow> mtd_panic_pages B m (msm_page_addr m to) len (msm_col m to) buf 0 None;
     ret \<leftarrow> ret;
     Some (ret, wrlen, m)
   }"

section \<open>Bad blocks, layout of the spare area, interrupt\<close>

definition mtk_snand_mtd_block_isbad :: "'h bus \<Rightarrow> 'h mtk_snand_mtd \<Rightarrow> u64 \<Rightarrow> (int \<times> 'h mtk_snand_mtd) option" where
  "mtk_snand_mtd_block_isbad B m offs = do {
     m \<leftarrow> mutex_lock m;
     (ret, s) \<leftarrow> mtk_snand_block_isbad B offs (msm_snf m);
     Some (ret, mutex_unlock (m\<lparr>msm_snf := s\<rparr>))
   }"

definition mtk_snand_mtd_block_markbad :: "'h bus \<Rightarrow> 'h mtk_snand_mtd \<Rightarrow> u64 \<Rightarrow> (int \<times> 'h mtk_snand_mtd) option" where
  "mtk_snand_mtd_block_markbad B m offs = do {
     m \<leftarrow> mutex_lock m;
     (ret, s) \<leftarrow> mtk_snand_block_markbad B offs (msm_snf m);
     Some (ret, mutex_unlock (m\<lparr>msm_snf := s\<rparr>))
   }"

definition ERANGE :: int where "ERANGE = 34"

text \<open>A region of the spare area: an error, or its offset and its length.\<close>

definition mtk_snand_ooblayout_ecc :: "'h mtk_snand_mtd \<Rightarrow> int \<Rightarrow> int + u32 \<times> u32" where
  "mtk_snand_ooblayout_ecc m sect =
     (if sect \<noteq> 0 then Inl (- ERANGE)
      else let off = ci_fdm_size (msm_cinfo m) * ci_num_sectors (msm_cinfo m)
      in Inr (off, mi_oobsize (msm_mtd m) - off))"

definition mtk_snand_ooblayout_free :: "'h mtk_snand_mtd \<Rightarrow> int \<Rightarrow> int + u32 \<times> u32" where
  "mtk_snand_ooblayout_free m sect =
     (if (word_of_int sect :: u32) \<ge> ci_num_sectors (msm_cinfo m) then Inl (- ERANGE)
      else Inr (word_of_int sect * ci_fdm_size (msm_cinfo m) + 1, ci_fdm_size (msm_cinfo m) - 1))"

text \<open>Whether the interrupt was the driver's (\<open>IRQ_HANDLED\<close>).\<close>

definition mtk_snand_irq :: "'h bus \<Rightarrow> 'h mtk_snand_mtd \<Rightarrow> bool \<times> 'h mtk_snand_mtd" where
  "mtk_snand_irq B m = (let (ret, s) = mtk_snand_irq_process B (msm_snf m) in (ret > 0, m\<lparr>msm_snf := s\<rparr>))"

section \<open>Clocks\<close>

datatype mtk_clk = Nfi_clk | Pad_clk | Ecc_clk | Nfi_hclk

text \<open>
  The calls to the kernel that probe and remove must undo: clocks that were enabled (a failed
  \<open>clk_prepare_enable\<close> enables nothing) and disabled, the interrupt, memory.
\<close>

datatype kcall = Clk_on mtk_clk | Clk_off mtk_clk | Irq_requested | Irq_freed | Cache_freed | Msm_freed

definition mtk_snand_enable_clk :: "(mtk_clk \<Rightarrow> int) \<Rightarrow> mtk_snand_of_id \<Rightarrow> int \<times> kcall list" where
  "mtk_snand_enable_clk clk_prepare_enable soc_id =
     (let ret = clk_prepare_enable Nfi_clk
      in if ret \<noteq> 0 then (ret, [])
      else let calls = [Clk_on Nfi_clk]; ret = clk_prepare_enable Pad_clk
      in if ret \<noteq> 0 then (ret, calls @ [Clk_off Nfi_clk])
      else let calls = calls @ [Clk_on Pad_clk]; ret = (if oi_en_ecc_clk soc_id then clk_prepare_enable Ecc_clk else 0)
      in if ret \<noteq> 0 then (ret, calls @ [Clk_off Nfi_clk, Clk_off Pad_clk])
      else let calls = calls @ (if oi_en_ecc_clk soc_id then [Clk_on Ecc_clk] else []);
               ret = (if oi_en_nfi_hclk soc_id then clk_prepare_enable Nfi_hclk else 0)
      in if ret \<noteq> 0 then (ret, calls @ [Clk_off Nfi_clk, Clk_off Pad_clk] @
           (if oi_en_ecc_clk soc_id then [Clk_off Ecc_clk] else []))
      else (0, calls @ (if oi_en_nfi_hclk soc_id then [Clk_on Nfi_hclk] else [])))"

definition mtk_snand_disable_clk :: "mtk_snand_of_id \<Rightarrow> kcall list" where
  "mtk_snand_disable_clk soc_id =
     [Clk_off Nfi_clk, Clk_off Pad_clk] @ (if oi_en_ecc_clk soc_id then [Clk_off Ecc_clk] else []) @
     (if oi_en_nfi_hclk soc_id then [Clk_off Nfi_hclk] else [])"

definition mt7622_soc_id :: mtk_snand_of_id where
  "mt7622_soc_id = \<lparr>oi_soc = SNAND_SOC_MT7622, oi_en_ecc_clk = True, oi_en_nfi_hclk = False\<rparr>"

definition mt7629_soc_id :: mtk_snand_of_id where
  "mt7629_soc_id = \<lparr>oi_soc = SNAND_SOC_MT7629, oi_en_ecc_clk = True, oi_en_nfi_hclk = False\<rparr>"

definition mt7986_soc_id :: mtk_snand_of_id where
  "mt7986_soc_id = \<lparr>oi_soc = SNAND_SOC_MT7986, oi_en_ecc_clk = False, oi_en_nfi_hclk = True\<rparr>"

definition mt7988_soc_id :: mtk_snand_of_id where
  "mt7988_soc_id = \<lparr>oi_soc = SNAND_SOC_MT7988, oi_en_ecc_clk = False, oi_en_nfi_hclk = False\<rparr>"

definition mtk_snand_ids :: "(string \<times> mtk_snand_of_id) list" where
  "mtk_snand_ids =
     [(''mediatek,mt7622-snand'', mt7622_soc_id), (''mediatek,mt7629-snand'', mt7629_soc_id),
      (''mediatek,mt7986-snand'', mt7986_soc_id), (''mediatek,mt7988-snand'', mt7988_soc_id)]"

section \<open>Probe and remove\<close>

text \<open>What the kernel answers during probe: 0 or an error number, and the memory it hands out.\<close>

record platform =
  pl_of_match :: "(string \<times> mtk_snand_of_id) list \<Rightarrow> mtk_snand_of_id option"
  pl_kzalloc :: bool
  pl_ioremap :: "string \<Rightarrow> int"
  pl_quad_spi :: bool
  pl_clk_get :: "mtk_clk \<Rightarrow> int"
  pl_clk_enable :: "mtk_clk \<Rightarrow> int"
  pl_get_irq :: int
  pl_request_irq :: int
  pl_dma_mask :: int
  pl_kmalloc :: "nat \<Rightarrow> bytes option"
  pl_register :: int

definition probe_get_clks :: "platform \<Rightarrow> mtk_snand_of_id \<Rightarrow> int" where
  "probe_get_clks P soc_id =
     (let ret = pl_clk_get P Nfi_clk
      in if ret \<noteq> 0 then ret
      else let ret = (if oi_en_ecc_clk soc_id then pl_clk_get P Ecc_clk else 0)
      in if ret \<noteq> 0 then ret
      else let ret = pl_clk_get P Pad_clk
      in if ret \<noteq> 0 then ret
      else if oi_en_nfi_hclk soc_id then pl_clk_get P Nfi_hclk else 0)"

definition probe_mtd_info :: "mtk_snand_chip_info \<Rightarrow> mtk_mtd_info" where
  "probe_mtd_info ci =
     (let es_shift = of_nat (ffs32 (ci_blocksize ci)) - 1; ws_shift = of_nat (ffs32 (ci_pagesize ci)) - 1
      in \<lparr>mi_size = ci_chipsize ci, mi_erasesize = ci_blocksize ci, mi_writesize = ci_pagesize ci,
          mi_writebufsize = ci_pagesize ci, mi_oobsize = ci_sparesize ci,
          mi_oobavail = ci_num_sectors ci * (ci_fdm_size ci - 1),
          mi_erasesize_shift = es_shift, mi_writesize_shift = ws_shift,
          mi_erasesize_mask = push_bit (unat es_shift) 1 - 1,
          mi_writesize_mask = push_bit (unat ws_shift) 1 - 1,
          mi_ecc_strength = ci_ecc_strength ci, mi_bitflip_threshold = ci_ecc_strength ci * 3 div 4,
          mi_ecc_step_size = ci_sector_size ci\<rparr>)"

text \<open>
  The part of mtk_snand_probe that has an instance of the driver, with its error labels: \<open>errout2\<close>
  cleans the instance up and frees the memory, \<open>errout3\<close> frees the interrupt first.
\<close>

definition probe_device ::
    "'h bus \<Rightarrow> platform \<Rightarrow> mtk_snand_of_id \<Rightarrow> kcall list \<Rightarrow> nat \<Rightarrow> 'h mtk_snand \<Rightarrow>
     int \<times> 'h mtk_snand_mtd option \<times> kcall list \<times> 'h" where
  "probe_device B P soc_id calls snf_addr s =
     (let irq = pl_get_irq P;
          errout2 = (\<lambda>ret calls. (ret, None, calls @ [Msm_freed], snd (mtk_snand_cleanup B (Some (snf_addr, s)) (sf_hw s))));
          errout3 = (\<lambda>ret calls. errout2 ret (calls @ (if irq \<ge> 0 then [Irq_freed] else [])));
          ret = (if irq \<ge> 0 then pl_request_irq P else 0)
      in if ret \<noteq> 0 then errout2 ret calls
      else let calls = calls @ (if irq \<ge> 0 then [Irq_requested] else []);
               ret = (if irq \<ge> 0 then pl_dma_mask P else 0)
      in if ret \<noteq> 0 then errout3 ret calls
      else let cinfo = mtk_snand_get_chip_info s
      in case pl_kmalloc P (unat (ci_pagesize cinfo + ci_sparesize cinfo)) of
           None \<Rightarrow> errout3 (- ENOMEM) calls
         | Some pc \<Rightarrow>
             (let ret = pl_register P
              in if ret \<noteq> 0 then errout3 ret (calls @ [Cache_freed])
              else (0, Some \<lparr>msm_soc_id = soc_id, msm_irq = irq, msm_mtd = probe_mtd_info cinfo, msm_cinfo = cinfo,
                  msm_snf_addr = snf_addr, msm_snf = s, msm_page_cache = pc, msm_locked = False,
                  msm_irq_off = False, msm_corrected = 0, msm_failed = 0\<rparr>, calls, sf_hw s)))"

definition mtk_snand_probe ::
    "'h bus \<Rightarrow> platform \<Rightarrow> nat \<Rightarrow> 'h mtk_snand \<Rightarrow> (int \<times> 'h mtk_snand_mtd option \<times> kcall list \<times> 'h) option" where
  "mtk_snand_probe B P struct_size tmpsnf =
     (let h = sf_hw tmpsnf
      in case pl_of_match P mtk_snand_ids of
           None \<Rightarrow> Some (- EINVAL, None, [], h)
         | Some soc_id \<Rightarrow>
             (if \<not> pl_kzalloc P then Some (- ENOMEM, None, [], h)
              else let ret = pl_ioremap P ''nfi''
              in if ret \<noteq> 0 then Some (ret, None, [Msm_freed], h)
              else let ret = pl_ioremap P ''ecc''
              in if ret \<noteq> 0 then Some (ret, None, [Msm_freed], h)
              else let ret = probe_get_clks P soc_id
              in if ret \<noteq> 0 then Some (ret, None, [Msm_freed], h)
              else let (ret, calls) = mtk_snand_enable_clk (pl_clk_enable P) soc_id
              in if ret \<noteq> 0 then Some (ret, None, calls @ [Msm_freed], h)
              else do {
                (ret, snf, h) \<leftarrow> mtk_snand_init B struct_size
                   \<lparr>pd_soc = oi_soc soc_id, pd_quad_spi = pl_quad_spi P\<rparr> tmpsnf;
                (if ret \<noteq> 0 then Some (ret, None, calls @ [Msm_freed], h)
                 else do {
                   (snf_addr, s) \<leftarrow> snf;
                   Some (probe_device B P soc_id calls snf_addr s)
                 })
              }))"

text \<open>\<open>unreg\<close> is what \<open>mtd_device_unregister\<close> answers.\<close>

definition mtk_snand_remove :: "'h bus \<Rightarrow> int \<Rightarrow> 'h mtk_snand_mtd \<Rightarrow> int \<times> kcall list \<times> 'h" where
  "mtk_snand_remove B unreg m =
     (let h = sf_hw (msm_snf m)
      in if unreg \<noteq> 0 then (unreg, [], h)
      else (0, (if msm_irq m \<ge> 0 then [Irq_freed] else []) @ mtk_snand_disable_clk (msm_soc_id m) @
          [Cache_freed, Msm_freed], snd (mtk_snand_cleanup B (Some (msm_snf_addr m, msm_snf m)) h)))"

end
