(* ===== verification/Snand_Mtd_Service.thy ===== *)
theory Snand_Mtd_Service
  imports Snand_Mtd
begin

text \<open>
  What the MTD layer of the SPI-NAND driver promises: from its invariant every operation returns, inside
  its buffers and with the mutex free, and probe establishes the invariant.
\<close>

section \<open>The invariant\<close>

text \<open>The same chip, with buffers of the same sizes; the driver may have gone to polling.\<close>

definition same_snf :: "'h mtk_snand \<Rightarrow> 'h mtk_snand \<Rightarrow> bool" where
  "same_snf s s' \<longleftrightarrow> shape (mtk_snand_control_poll_mode True s') = shape (mtk_snand_control_poll_mode True s)"

lemma same_snf_shape: "shape s' = shape s \<Longrightarrow> same_snf s s'"
  by (simp add: same_snf_def shape_def mtk_snand_control_poll_mode_def mtk_snand_conf.truncate_def)

lemma same_snf_poll: "same_snf s (mtk_snand_control_poll_mode b s)"
  by (simp add: same_snf_def shape_def mtk_snand_control_poll_mode_def mtk_snand_conf.truncate_def)

lemma same_snf_keeps:
  assumes "same_snf s s'"
  shows "snand_wf s' = snand_wf s" "sf_writesize s' = sf_writesize s" "sf_oobsize s' = sf_oobsize s"
    "sf_nfi_soc s' = sf_nfi_soc s"
proof -
  have sh: "shape (mtk_snand_control_poll_mode True s') = shape (mtk_snand_control_poll_mode True s)"
    using assms by (simp add: same_snf_def)
  have wf: "snand_wf (mtk_snand_control_poll_mode True x) = snand_wf x" for x :: "'a mtk_snand"
    by (simp add: snand_wf_def mtk_snand_control_poll_mode_def page_format_def ecc_format_def weak_def
        ecc_bits_of_def ecc_room_def page_len_def)
  show "snand_wf s' = snand_wf s" using shape_wf(1) [OF sh] by (simp add: wf)
  show "sf_writesize s' = sf_writesize s" "sf_oobsize s' = sf_oobsize s" "sf_nfi_soc s' = sf_nfi_soc s"
    using shape_conf(1,2,4) [OF sh] by (simp_all add: mtk_snand_control_poll_mode_def)
qed

definition msm_step :: "'h mtk_snand_mtd \<Rightarrow> 'h mtk_snand_mtd \<Rightarrow> bool" where
  "msm_step m m' \<longleftrightarrow> msm_mtd m' = msm_mtd m \<and> msm_cinfo m' = msm_cinfo m \<and> msm_soc_id m' = msm_soc_id m \<and>
     msm_irq m' = msm_irq m \<and> msm_locked m' = msm_locked m \<and>
     length (msm_page_cache m') = length (msm_page_cache m) \<and> same_snf (msm_snf m) (msm_snf m')"

lemma msm_step_refl [simp]: "msm_step m m"
  by (simp add: msm_step_def same_snf_def)

lemma msm_step_trans: "msm_step a b \<Longrightarrow> msm_step b c \<Longrightarrow> msm_step a c"
  by (simp add: msm_step_def same_snf_def)

lemma msm_step_snf: "shape s = shape (msm_snf m) \<Longrightarrow> msm_step m (m\<lparr>msm_snf := s\<rparr>)"
  by (simp add: msm_step_def same_snf_shape)

lemma msm_step_cache: "length pc = length (msm_page_cache m) \<Longrightarrow> msm_step m (m\<lparr>msm_page_cache := pc\<rparr>)"
  by (simp add: msm_step_def same_snf_def)

definition msm_fit :: "'h bus \<Rightarrow> ('h \<Rightarrow> int) \<Rightarrow> 'h mtk_snand_mtd \<Rightarrow> bool" where
  "msm_fit B now m \<longleftrightarrow> clock_runs B now \<and> snand_wf (msm_snf m) \<and> 1 < unat (fdm_size (msm_snf m)) \<and>
     sf_writesize (msm_snf m) = mi_writesize (msm_mtd m) \<and> sf_oobsize (msm_snf m) = mi_oobsize (msm_mtd m) \<and>
     unat (mi_writesize_mask (msm_mtd m)) < msm_ws m \<and> length (msm_page_cache m) = msm_ws m + msm_os m"

lemma msm_fit_step: "msm_fit B now m \<Longrightarrow> msm_step m m' \<Longrightarrow> msm_fit B now m'"
  using same_snf_keeps [of "msm_snf m" "msm_snf m'"] by (simp add: msm_fit_def msm_step_def)

lemma msm_step_sizes: "msm_step m m' \<Longrightarrow> msm_ws m' = msm_ws m \<and> msm_os m' = msm_os m"
  by (simp add: msm_step_def)

lemma msm_fitD:
  assumes "msm_fit B now m"
  shows "clock_runs B now" "snand_wf (msm_snf m)" "1 < unat (fdm_size (msm_snf m))"
    "unat (sf_writesize (msm_snf m)) = msm_ws m" "unat (sf_oobsize (msm_snf m)) = msm_os m"
    "unat (mi_writesize_mask (msm_mtd m)) < msm_ws m" "length (msm_page_cache m) = msm_ws m + msm_os m"
  using assms by (simp_all add: msm_fit_def)

section \<open>The page cache\<close>

definition long :: "nat \<Rightarrow> bytes option \<Rightarrow> bool" where
  "long n b \<longleftrightarrow> (\<forall>xs. b = Some xs \<longrightarrow> length xs = n)"

lemma long_wide: "long n b \<Longrightarrow> k \<le> n \<Longrightarrow> wide k b"
  by (cases b) (simp_all add: long_def wide_def)

lemma long_same_len: "long n b \<Longrightarrow> same_len b b' \<Longrightarrow> long n b'"
  by (auto simp: long_def same_len_def option.rel_sel split: option.splits)

lemma caches_ok:
  assumes "msm_fit B now m"
  shows "ok (msm_datcache m use) (long (msm_ws m))" "ok (msm_oobcache m use) (long (msm_os m))"
  using msm_fitD(7) [OF assms] by (cases use; simp add: msm_datcache_def msm_oobcache_def long_def slice_def)+

lemma msm_put_ok:
  assumes "long n b" and "off + n \<le> length (msm_page_cache m)"
  shows "ok (msm_put m off b) (msm_step m)"
  using assms by (cases b) (auto simp: msm_put_def ok_bind long_def intro: msm_step_cache)

lemma mtd_read_page_ok:
  fixes m :: "'a mtk_snand_mtd"
  assumes f: "msm_fit B now m" and k: "maxooblen \<le> msm_os m"
  shows "ok (mtd_read_page B m addr mode useDat useOob maxooblen) (\<lambda>(ret, m'). msm_step m m')"
  unfolding mtd_read_page_def Let_def
proof (rule ok_bindI [OF caches_ok(1) [OF f]], rule ok_bindI [OF caches_ok(2) [OF f]])
  fix dc oc assume dc: "long (msm_ws m) dc" and oc: "long (msm_os m) oc"
  note w = msm_fitD [OF f]
  let ?raw = "mode = MTD_OPS_RAW"
  have auto_mode: "ok (do { (ret, dat, oob, actual, s) \<leftarrow> mtk_snand_read_page_auto_oob B addr dc oc maxooblen ?raw (msm_snf m);
        Some (ret, dat, oob, s) })
      (\<lambda>(ret, dat, oob, s). shape s = shape (msm_snf m) \<and> same_len dc dat \<and> same_len oc oob)"
    by (rule ok_bind5 [OF read_page_auto_oob_ok [OF w(1-3)]])
       (use dc oc k w(4) in \<open>simp_all add: long_wide\<close>)
  have "ok (mtk_snand_read_page B addr dc oc ?raw (msm_snf m))
      (\<lambda>(ret, dat, oob, s). shape s = shape (msm_snf m) \<and> same_len dc dat \<and> same_len oc oob)"
    using read_page_ok [OF w(1,2), of dc oc addr ?raw] dc oc w(4,5)
    by (auto simp: bufs_fit_def long_wide elim!: ok_mono)
  with auto_mode have rd: "ok (if mode = MTD_OPS_AUTO_OOB then do {
        (ret, dat, oob, actual, s) \<leftarrow> mtk_snand_read_page_auto_oob B addr dc oc maxooblen ?raw (msm_snf m);
        Some (ret, dat, oob, s) } else mtk_snand_read_page B addr dc oc ?raw (msm_snf m))
      (\<lambda>(ret, dat, oob, s). shape s = shape (msm_snf m) \<and> same_len dc dat \<and> same_len oc oob)" by (rule ok_if)
  show "ok (do {
      (ret, dat, oob, s) \<leftarrow> (if mode = MTD_OPS_AUTO_OOB then do {
        (ret, dat, oob, actual, s) \<leftarrow> mtk_snand_read_page_auto_oob B addr dc oc maxooblen ?raw (msm_snf m);
        Some (ret, dat, oob, s) } else mtk_snand_read_page B addr dc oc ?raw (msm_snf m));
      m \<leftarrow> msm_put (m\<lparr>msm_snf := s\<rparr>) 0 dat;
      m \<leftarrow> msm_put m (msm_ws m) oob;
      Some (ret, m) }) (\<lambda>(ret, m'). msm_step m m')"
  proof (rule ok_bind4 [OF rd])
    fix ret dat oob and s :: "'a mtk_snand"
    assume r: "shape s = shape (msm_snf m) \<and> same_len dc dat \<and> same_len oc oob"
    let ?m = "m\<lparr>msm_snf := s\<rparr>"
    have m1: "msm_step m ?m" using r by (simp add: msm_step_snf)
    have d: "long (msm_ws m) dat" "long (msm_os m) oob" using r dc oc by (auto intro: long_same_len)
    have p1: "ok (msm_put ?m 0 dat) (msm_step ?m)" by (rule msm_put_ok [OF d(1)]) (simp add: w(7))
    have p2: "ok (msm_put m2 (msm_ws m2) oob) (msm_step m2)" if "msm_step ?m m2" for m2
      by (rule msm_put_ok [OF d(2)]) (use that w(7) in \<open>simp add: msm_step_def\<close>)
    show "ok (do { m \<leftarrow> msm_put ?m 0 dat; m \<leftarrow> msm_put m (msm_ws m) oob; Some (ret, m) }) (\<lambda>(ret, m'). msm_step m m')"
      by (rule ok_bindI [OF p1], rule ok_bindI [OF p2], assumption)
         (use m1 in \<open>auto intro: msm_step_trans\<close>)
  qed
qed

lemma mtd_write_page_ok:
  fixes m :: "'a mtk_snand_mtd"
  assumes f: "msm_fit B now m" and k: "oobwrlen \<le> msm_os m"
  shows "ok (mtd_write_page B m addr mode useDat useOob oobwrlen) (\<lambda>(ret, m'). msm_step m m')"
  unfolding mtd_write_page_def Let_def
proof (rule ok_bindI [OF caches_ok(1) [OF f]], rule ok_bindI [OF caches_ok(2) [OF f]])
  fix dc oc assume dc: "long (msm_ws m) dc" and oc: "long (msm_os m) oc"
  note w = msm_fitD [OF f]
  let ?raw = "mode = MTD_OPS_RAW"
  have auto_mode: "ok (do { (ret, actual, s) \<leftarrow> mtk_snand_write_page_auto_oob B addr dc oc oobwrlen ?raw (msm_snf m);
        Some (ret, s) }) (\<lambda>(ret, s). shape s = shape (msm_snf m))"
    by (rule ok_bind3 [OF write_page_auto_oob_ok [OF w(1-3)]])
       (use dc oc k w(4) in \<open>simp_all add: long_wide\<close>)
  have "ok (mtk_snand_write_page B addr dc oc ?raw (msm_snf m)) (\<lambda>(ret, s). shape s = shape (msm_snf m))"
    using snand_write_page_ok [OF w(1,2), of dc oc addr ?raw] dc oc w(4,5)
    by (auto simp: bufs_fit_def long_wide elim!: ok_mono)
  with auto_mode have "ok (if mode = MTD_OPS_AUTO_OOB then do {
        (ret, actual, s) \<leftarrow> mtk_snand_write_page_auto_oob B addr dc oc oobwrlen ?raw (msm_snf m);
        Some (ret, s) } else mtk_snand_write_page B addr dc oc ?raw (msm_snf m))
      (\<lambda>(ret, s). shape s = shape (msm_snf m))" by (rule ok_if)
  then show "ok (do {
      (ret, s) \<leftarrow> (if mode = MTD_OPS_AUTO_OOB then do {
        (ret, actual, s) \<leftarrow> mtk_snand_write_page_auto_oob B addr dc oc oobwrlen ?raw (msm_snf m);
        Some (ret, s) } else mtk_snand_write_page B addr dc oc ?raw (msm_snf m));
      Some (ret, m\<lparr>msm_snf := s\<rparr>) }) (\<lambda>(ret, m'). msm_step m m')"
    by (rule ok_bind2) (simp add: msm_step_snf)
qed

section \<open>The page loops\<close>

text \<open>A loop moved part of what it was asked for, and all of it unless it failed.\<close>

definition mtd_moved :: "'h mtk_snand_mtd \<Rightarrow> mtd_oob_ops \<Rightarrow> nat \<Rightarrow> nat \<Rightarrow> bool \<Rightarrow> mtd_oob_ops \<Rightarrow> 'h mtk_snand_mtd \<Rightarrow> bool" where
  "mtd_moved m ops len ooblen failed ops' m' \<longleftrightarrow> msm_step m m' \<and>
     (\<exists>n k. n \<le> len \<and> k \<le> ooblen \<and> filled ops n k ops' \<and> (\<not> failed \<longrightarrow> n = len \<and> k = ooblen))"

lemma mtd_moved_none:
  "msm_step m m' \<Longrightarrow> failed \<or> len = 0 \<and> ooblen = 0 \<Longrightarrow> mtd_moved m ops len ooblen failed ops m'"
  unfolding mtd_moved_def by (intro conjI exI [of _ "0::nat"]) auto

lemma mtd_moved_step:
  assumes "msm_step m m1" and "filled ops n k ops1" and "mtd_moved m1 ops1 len ooblen failed ops2 m2"
  shows "mtd_moved m ops (n + len) (k + ooblen) failed ops2 m2"
proof -
  obtain n' k' where m: "msm_step m1 m2" "n' \<le> len" "k' \<le> ooblen" "filled ops1 n' k' ops2"
      "\<not> failed \<longrightarrow> n' = len \<and> k' = ooblen"
    using assms(3) by (auto simp: mtd_moved_def)
  show ?thesis
    unfolding mtd_moved_def using msm_step_trans [OF assms(1) m(1)] filled_trans [OF assms(2) m(4)] m(2,3,5)
    by (intro conjI exI [of _ "n + n'"] exI [of _ "k + k'"]) auto
qed

lemma note_flips_step: "msm_step m (snd (note_flips ret acc m))"
  by (simp add: note_flips_def msm_step_def same_snf_def)

lemma mtd_read_pages_ok:
  fixes m :: "'a mtk_snand_mtd"
  assumes "msm_fit B now m" and "chunks (msm_ws m) (msm_os m) maxooblen ops len ooblen col ooboffs"
  shows "ok (mtd_read_pages B m addr ops useDat useOob len ooblen col ooboffs maxooblen acc)
    (\<lambda>(ret, ops', m'). mtd_moved m ops len ooblen (ret < 0 \<and> ret \<noteq> - EBADMSG) ops' m')"
  using assms
proof (induction "len + ooblen" arbitrary: m addr ops len ooblen col ooboffs acc rule: less_induct)
  case less
  let ?Q = "\<lambda>(ret, ops', m'). mtd_moved m ops len ooblen (ret < 0 \<and> ret \<noteq> - EBADMSG) ops' m'"
  show ?case
  proof (cases "len \<noteq> 0 \<or> ooblen \<noteq> 0")
    case False
    then show ?thesis by (subst mtd_read_pages.simps) (simp add: mtd_moved_none)
  next
    case True
    have k: "maxooblen \<le> msm_os m" using less.prems(2) by (simp add: chunks_def)
    show ?thesis
      unfolding mtd_read_pages.simps [of B m] if_P [OF True]
    proof (rule ok_bind2 [OF mtd_read_page_ok [OF less.prems(1) k]], rule ok_if, goal_cases)
      case (1 ret m1)
      then show ?case by (simp add: mtd_moved_none)
    next
      case (2 ret m1)
      define a where "a = note_flips ret acc m1"
      have m2: "msm_step m (snd a)" unfolding a_def by (rule msm_step_trans [OF 2(1) note_flips_step])
      have sz: "msm_ws (snd a) = msm_ws m" "msm_os (snd a) = msm_os m" using msm_step_sizes [OF m2] by simp_all
      have f2: "msm_fit B now (snd a)" by (rule msm_fit_step [OF less.prems(1) m2])
      have ch: "chunks (msm_ws (snd a)) (msm_os (snd a)) maxooblen ops len ooblen col ooboffs"
        using less.prems(2) by (simp only: sz)
      have "ok (Option.bind (to_user_dat (msm_page_cache (snd a)) (msm_ws (snd a)) ops len col) (\<lambda>(ops, len, col).
          Option.bind (to_user_oob (msm_page_cache (snd a)) (msm_ws (snd a)) maxooblen ops ooblen ooboffs) (\<lambda>(ops, ooblen, ooboffs).
            mtd_read_pages B (snd a) (addr + ucast (mi_writesize (msm_mtd (snd a)))) ops useDat useOob
              len ooblen col ooboffs maxooblen (fst a)))) ?Q"
      proof (rule to_user_ok [OF ch])
        show "msm_ws (snd a) + msm_os (snd a) \<le> length (msm_page_cache (snd a))" using msm_fitD(7) [OF f2] by simp
        fix ops' len' col' ooblen' ooboffs' n k
        assume l: "len = n + len'" and ol: "ooblen = k + ooblen'" and pos: "len \<noteq> 0 \<or> ooblen \<noteq> 0 \<longrightarrow> 0 < n + k"
          and fl: "filled ops n k ops'" and c': "chunks (msm_ws (snd a)) (msm_os (snd a)) maxooblen ops' len' ooblen' col' ooboffs'"
        have dec: "len' + ooblen' < len + ooblen" using pos True l ol by auto
        show "ok (mtd_read_pages B (snd a) (addr + ucast (mi_writesize (msm_mtd (snd a)))) ops' useDat useOob
            len' ooblen' col' ooboffs' maxooblen (fst a)) ?Q"
          by (rule ok_mono3 [OF less.hyps [OF dec f2 c']]) (simp add: l ol mtd_moved_step [OF m2 fl])
      qed
      then show ?case by (simp add: a_def case_prod_beta Let_def)
    qed
  qed
qed

lemma mtd_write_pages_ok:
  fixes m :: "'a mtk_snand_mtd"
  assumes "msm_fit B now m" and "chunks (msm_ws m) (msm_os m) maxooblen ops len ooblen col ooboffs"
  shows "ok (mtd_write_pages B m addr ops useDat useOob len ooblen col ooboffs maxooblen)
    (\<lambda>(ret, ops', m'). mtd_moved m ops len ooblen (ret \<noteq> 0) ops' m')"
  using assms
proof (induction "len + ooblen" arbitrary: m addr ops len ooblen col ooboffs rule: less_induct)
  case less
  let ?Q = "\<lambda>(ret, ops', m'). mtd_moved m ops len ooblen (ret \<noteq> 0) ops' m'"
  show ?case
  proof (cases "len \<noteq> 0 \<or> ooblen \<noteq> 0")
    case False
    then show ?thesis by (subst mtd_write_pages.simps) (simp add: mtd_moved_none)
  next
    case True
    have pc: "msm_ws m + msm_os m \<le> length (msm_page_cache m)" using msm_fitD(7) [OF less.prems(1)] by simp
    show ?thesis
      unfolding mtd_write_pages.simps [of B m] if_P [OF True]
    proof (rule from_user_ok [OF less.prems(2) pc])
      fix ops' len' col' ooblen' ooboffs' n k wrlen and pc' :: bytes
      assume l: "len = n + len'" and ol: "ooblen = k + ooblen'" and pos: "len \<noteq> 0 \<or> ooblen \<noteq> 0 \<longrightarrow> 0 < n + k"
        and fl: "filled ops n k ops'" and lp: "length pc' = length (msm_page_cache m)" and wl: "wrlen \<le> msm_os m"
        and c': "chunks (msm_ws m) (msm_os m) maxooblen ops' len' ooblen' col' ooboffs'"
      let ?m1 = "m\<lparr>msm_page_cache := pc'\<rparr>"
      have m1: "msm_step m ?m1" by (rule msm_step_cache [OF lp])
      have f1: "msm_fit B now ?m1" by (rule msm_fit_step [OF less.prems(1) m1])
      have wl1: "wrlen \<le> msm_os ?m1" using wl by simp
      have dec: "len' + ooblen' < len + ooblen" using pos True l ol by auto
      show "ok (Option.bind (mtd_write_page B ?m1 addr (ops_mode ops') useDat useOob wrlen) (\<lambda>(ret, m).
          if ret \<noteq> 0 then Some (ret, ops', m)
          else mtd_write_pages B m (addr + ucast (mi_writesize (msm_mtd m))) ops' useDat useOob
                 len' ooblen' col' ooboffs' maxooblen)) ?Q"
      proof (rule ok_bind2 [OF mtd_write_page_ok [OF f1 wl1]], rule ok_if, goal_cases)
        case (1 ret m2)
        have m2: "msm_step m m2" by (rule msm_step_trans [OF m1 1(1)])
        have "mtd_moved m ops (n + len') (k + ooblen') (ret \<noteq> 0) ops' m2"
          by (rule mtd_moved_step [OF m2 fl]) (simp add: mtd_moved_none 1(2))
        then show ?case by (simp add: l ol)
      next
        case (2 ret m2)
        have m2: "msm_step m m2" by (rule msm_step_trans [OF m1 2(1)])
        have c2: "chunks (msm_ws m2) (msm_os m2) maxooblen ops' len' ooblen' col' ooboffs'"
          using c' msm_step_sizes [OF m2] by simp
        show ?case
          by (rule ok_mono3 [OF less.hyps [OF dec msm_fit_step [OF less.prems(1) m2] c2]])
             (simp add: l ol mtd_moved_step [OF m2 fl])
      qed
    qed
  qed
qed

lemma mtd_panic_pages_ok:
  fixes m :: "'a mtk_snand_mtd"
  assumes "msm_fit B now m" and "col < msm_ws m" and "wrlen + len \<le> length buf"
  shows "ok (mtd_panic_pages B m to len col buf wrlen ret) (\<lambda>(ret', n, m'). msm_step m m' \<and>
     (ret \<noteq> None \<or> len \<noteq> 0 \<longrightarrow> ret' \<noteq> None) \<and> wrlen \<le> n \<and> n \<le> wrlen + len \<and> (ret' = Some 0 \<longrightarrow> n = wrlen + len))"
  using assms
proof (induction len arbitrary: m to col wrlen ret rule: less_induct)
  case (less len)
  let ?ws = "msm_ws m"
  note w = msm_fitD [OF less.prems(1)]
  show ?case
  proof (cases "len = 0")
    case True
    then show ?thesis by (subst mtd_panic_pages.simps) simp
  next
    case False
    define k where "k = min (?ws - col) len"
    have k: "0 < k" "k \<le> len" "col + k \<le> ?ws" using less.prems(2) False by (auto simp: k_def)
    have pc: "?ws \<le> length (msm_page_cache m)" using w(7) by simp
    obtain p0 where p0: "(if k < ?ws then blit (msm_page_cache m) 0 (replicate ?ws 0xff) else Some (msm_page_cache m)) = Some p0"
        "length p0 = length (msm_page_cache m)"
      using blit_exists [of 0 "replicate ?ws 0xff" "msm_page_cache m"] pc by (cases "k < ?ws") auto
    obtain src where src: "slice buf wrlen k = Some src" "length src = k"
      using slice_exists [of wrlen k buf] less.prems(3) k(2) by auto
    obtain p1 where p1: "blit p0 col src = Some p1" "length p1 = length (msm_page_cache m)"
      using blit_exists [of col src p0] p0(2) src(2) k(3) pc by auto
    obtain page where page: "slice p1 0 ?ws = Some page" "length page = ?ws"
      using slice_exists [of 0 ?ws p1] p1(2) pc by auto
    have fit: "bufs_fit (msm_snf m) (Some page) None" using page(2) w(4) by (simp add: bufs_fit_def wide_def)
    let ?Q = "\<lambda>(ret', n, m'). msm_step m m' \<and> (ret \<noteq> None \<or> len \<noteq> 0 \<longrightarrow> ret' \<noteq> None) \<and> wrlen \<le> n \<and> n \<le> wrlen + len \<and>
      (ret' = Some 0 \<longrightarrow> n = wrlen + len)"
    have "ok (Option.bind (mtk_snand_write_page B to (Some page) None False (msm_snf m)) (\<lambda>(ret, s).
        let m = m\<lparr>msm_page_cache := p1, msm_snf := s\<rparr> in
        if ret \<noteq> 0 then Some (Some ret, wrlen + k, m)
        else mtd_panic_pages B m (to + ucast (mi_writesize (msm_mtd m))) (len - k) 0 buf (wrlen + k) (Some ret))) ?Q"
    proof (rule ok_bind2 [OF snand_write_page_ok [OF w(1,2) fit]])
      fix r :: int and s :: "'a mtk_snand"
      assume "shape s = shape (msm_snf m) \<and> (errno_bus B \<longrightarrow> r \<le> 0)"
      then have sh: "shape s = shape (msm_snf m)" by simp
      define m1 where "m1 = m\<lparr>msm_page_cache := p1, msm_snf := s\<rparr>"
      have m: "msm_step m m1" unfolding m1_def
        by (rule msm_step_trans [OF msm_step_cache [OF p1(2)] msm_step_snf]) (simp add: sh)
      have c0: "0 < msm_ws m1" using less.prems(2) msm_step_sizes [OF m] by simp
      have rest: "ok (mtd_panic_pages B m1 (to + ucast (mi_writesize (msm_mtd m1))) (len - k) 0 buf (wrlen + k) (Some r)) ?Q" if "r = 0"
      proof (rule ok_mono3 [OF less.IH])
        show "len - k < len" using k by simp
        show "msm_fit B now m1" by (rule msm_fit_step [OF less.prems(1) m])
        show "0 < msm_ws m1" by (rule c0)
        show "wrlen + k + (len - k) \<le> length buf" using less.prems(3) k(2) by simp
        show "msm_step m m2 \<and> (ret \<noteq> None \<or> len \<noteq> 0 \<longrightarrow> ret' \<noteq> None) \<and> wrlen \<le> n \<and> n \<le> wrlen + len \<and>
            (ret' = Some 0 \<longrightarrow> n = wrlen + len)"
          if "msm_step m1 m2 \<and> (Some r \<noteq> None \<or> len - k \<noteq> 0 \<longrightarrow> ret' \<noteq> None) \<and> wrlen + k \<le> n \<and>
            n \<le> wrlen + k + (len - k) \<and> (ret' = Some 0 \<longrightarrow> n = wrlen + k + (len - k))" for ret' n m2
          using that msm_step_trans [OF m] k by auto
      qed
      have fail: "?Q (Some r, wrlen + k, m1)" if "r \<noteq> 0" using that m k by simp
      show "ok (let m = m\<lparr>msm_page_cache := p1, msm_snf := s\<rparr> in if r \<noteq> 0 then Some (Some r, wrlen + k, m)
          else mtd_panic_pages B m (to + ucast (mi_writesize (msm_mtd m))) (len - k) 0 buf (wrlen + k) (Some r)) ?Q"
        unfolding m1_def [symmetric] Let_def using fail rest by (cases "r = 0") simp_all
    qed
    then show ?thesis
      using False
      by (subst mtd_panic_pages.simps, unfold Let_def, unfold k_def [symmetric]) (simp add: p0 src p1 page)
  qed
qed

section \<open>Erasing\<close>

text \<open>The loop visits blocks until its address leaves the chip, which a block size that is not zero makes it do.\<close>

lemma mtd_erase_blocks_ok:
  fixes s :: "'a mtk_snand"
  assumes "clock_runs B now" and "snand_wf s" and "0 < unat es" and "unat end_addr + unat es < 2 ^ 64"
  shows "ok (mtd_erase_blocks B es start_addr end_addr ret s) (\<lambda>(ret', fail_addr, s'). shape s' = shape s \<and>
    (ret \<noteq> None \<or> start_addr < end_addr \<longrightarrow> ret' \<noteq> None) \<and>
    (fail_addr = None \<longrightarrow> ret' = ret \<or> ret' = Some 0) \<and> (fail_addr \<noteq> None \<longrightarrow> ret' \<noteq> Some 0))"
  using assms(2)
proof (induction "unat end_addr - unat start_addr" arbitrary: start_addr ret s rule: less_induct)
  case less
  show ?case
  proof (cases "start_addr < end_addr")
    case False
    then show ?thesis by (subst mtd_erase_blocks.simps) simp
  next
    case True
    have nx: "unat (start_addr + ucast es) = unat start_addr + unat es"
      using True assms(4) by (simp add: unat_word_ariths word_less_nat_alt)
    let ?Q = "\<lambda>(ret', fail_addr, s'). shape s' = shape s \<and>
      (ret \<noteq> None \<or> start_addr < end_addr \<longrightarrow> ret' \<noteq> None) \<and>
      (fail_addr = None \<longrightarrow> ret' = ret \<or> ret' = Some 0) \<and> (fail_addr \<noteq> None \<longrightarrow> ret' \<noteq> Some 0)"
    have rest: "ok (mtd_erase_blocks B es (start_addr + ucast es) end_addr (Some 0) s2) ?Q" if "shape s2 = shape s" for s2 :: "'a mtk_snand"
    proof -
      have "unat end_addr - unat (start_addr + ucast es) < unat end_addr - unat start_addr"
        using True assms(3) nx by (simp add: word_less_nat_alt)
      moreover have "snand_wf s2" using less.prems shape_wf(1) [OF that] by simp
      ultimately show ?thesis
        by (rule ok_mono3 [OF less.hyps]) (use that in auto)
    qed
    show ?thesis
      unfolding mtd_erase_blocks.simps [of B es start_addr] if_P [OF True]
    proof (rule ok_bind2 [OF block_isbad_ok [OF assms(1) less.prems]], rule ok_if, goal_cases)
      case (1 bad s1)
      then show ?case by (simp add: EIO_def)
    next
      case (2 bad s1)
      then have sh: "shape s1 = shape s" by simp
      show ?case
        by (rule ok_bind2 [OF erase_block_ok [OF assms(1)]], rule ok_if) (use sh rest in auto)
    qed
  qed
qed

text \<open>The block mask lies below the block size, and rounding the end of the chip up does not leave 32 bits.\<close>

definition blocks_fit :: "mtk_mtd_info \<Rightarrow> bool" where
  "blocks_fit mi \<longleftrightarrow> unat (mi_erasesize_mask mi) < unat (mi_erasesize mi) \<and>
     unat (mi_size mi) + unat (mi_erasesize mi) \<le> 2 ^ 32"

lemma split_mask:
  fixes y :: u64 and m :: u32
  assumes "unat y < 2 ^ 32"
  shows "unat (y AND ucast (NOT m)) + unat (y AND ucast m) = unat y"
proof -
  let ?a = "y AND ucast (NOT m)" and ?b = "y AND ucast m"
  have y: "y = ucast (ucast y :: u32)"
    by (rule word_unat_eq_iff [THEN iffD2]) (simp only: unat_ucast_u32_u64 unat_ucast_u64_u32 mod_less [OF assms])
  have no: "?a AND ?b = 0" by (rule bit_word_eqI) (auto simp: bit_simps)
  have yes: "?a OR ?b = y" by (subst (3) y, subst (1 2) y, rule bit_word_eqI) (auto simp: bit_simps)
  have "unat ?a + unat ?b = unat ?a OR unat ?b"
    by (rule disjunctive_add_eq_or) (simp only: no unsigned_0 flip: unsigned_and_eq)
  also have "\<dots> = unat y" by (simp only: yes flip: unsigned_or_eq)
  finally show ?thesis .
qed

lemma end_round_up:
  fixes e :: u64 and m :: u32
  assumes "unat e + unat m < 2 ^ 32"
  shows "e \<le> (e + ucast m) AND ucast (NOT m)" "unat ((e + ucast m) AND ucast (NOT m)) < 2 ^ 32"
proof -
  let ?y = "e + ucast m"
  have y: "unat ?y = unat e + unat m" using assms by (simp add: unat_word_ariths)
  have "unat (?y AND ucast m) \<le> unat m"
    using word_and_le1 [of ?y "ucast m"] by (simp add: word_le_nat_alt)
  moreover have "unat (?y AND ucast (NOT m)) + unat (?y AND ucast m) = unat ?y"
    by (rule split_mask) (simp only: y assms)
  ultimately show "e \<le> ?y AND ucast (NOT m)" "unat (?y AND ucast (NOT m)) < 2 ^ 32"
    using y assms by (simp_all add: word_le_nat_alt)
qed

text \<open>The states between two operations: the mutex is free, and the kernel's spare-area sizes lie within the spare area.\<close>

definition msm_good :: "'h bus \<Rightarrow> ('h \<Rightarrow> int) \<Rightarrow> oobav_fun \<Rightarrow> 'h mtk_snand_mtd \<Rightarrow> bool" where
  "msm_good B now oobav m \<longleftrightarrow> msm_fit B now m \<and> blocks_fit (msm_mtd m) \<and> \<not> msm_locked m \<and>
     (\<forall>mode. oobav (mi_oobsize (msm_mtd m)) (mi_oobavail (msm_mtd m)) mode \<le> mi_oobsize (msm_mtd m))"

lemma msm_good_step: "msm_good B now oobav m \<Longrightarrow> msm_step m m' \<Longrightarrow> msm_good B now oobav m'"
  using msm_fit_step [of B now m m'] by (simp add: msm_good_def msm_step_def)

lemma msm_step_mutex:
  assumes "\<not> msm_locked m" and "msm_step (m\<lparr>msm_locked := True\<rparr>) m'"
  shows "msm_step m (mutex_unlock m')"
  using assms by (simp add: msm_step_def mutex_unlock_def)

lemma msm_fit_locked: "msm_fit B now (m\<lparr>msm_locked := b\<rparr>) = msm_fit B now m"
  by (simp add: msm_fit_def)

lemma msm_goodD:
  assumes "msm_good B now oobav m"
  shows "clock_runs B now" "snand_wf (msm_snf m)" "mutex_lock m = Some (m\<lparr>msm_locked := True\<rparr>)"
    "msm_fit B now (m\<lparr>msm_locked := True\<rparr>)" "\<not> msm_locked m"
  using assms by (simp_all add: msm_good_def msm_fit_def mutex_lock_def)

text \<open>An operation below the mutex.\<close>

lemma locked_snf:
  assumes "msm_good B now oobav m" and "shape s = shape (msm_snf m)"
  shows "msm_step m (mutex_unlock (m\<lparr>msm_locked := True, msm_snf := s\<rparr>))"
  using assms msm_step_snf [of s m] by (simp add: msm_step_def mutex_unlock_def msm_good_def)

lemma mtd_erase_ok:
  fixes m :: "'a mtk_snand_mtd"
  assumes g: "msm_good B now oobav m" and "0 < len" and "unat addr + unat len < 2 ^ 64"
  shows "ok (mtk_snand_mtd_erase B m addr len) (\<lambda>(ret, fail_addr, m'). msm_step m m' \<and>
    (ret = 0 \<longleftrightarrow> fail_addr = None \<and> addr + len \<le> mi_size (msm_mtd m)))"
proof (cases "addr + len > mi_size (msm_mtd m)")
  case True
  then show ?thesis by (simp add: mtk_snand_mtd_erase_def EINVAL_def)
next
  case False
  let ?mi = "msm_mtd m" and ?e = "addr + len"
  let ?mask = "mi_erasesize_mask ?mi"
  have bf: "unat ?mask < unat (mi_erasesize ?mi)" "unat (mi_size ?mi) + unat (mi_erasesize ?mi) \<le> 2 ^ 32"
    using g by (simp_all add: msm_good_def blocks_fit_def)
  have e: "unat ?e \<le> unat (mi_size ?mi)" using False by (simp add: word_le_nat_alt not_less)
  have em: "unat ?e + unat ?mask < 2 ^ 32" using e bf by simp
  define s0 where "s0 = addr AND ucast (NOT ?mask)"
  define e0 where "e0 = (if ?e AND ucast ?mask \<noteq> 0 then (?e + ucast ?mask) AND ucast (NOT ?mask) else ?e)"
  have "addr < ?e" using assms(2,3) by (simp add: word_less_nat_alt unat_word_ariths)
  moreover have "s0 \<le> addr" by (simp add: s0_def word_and_le2)
  moreover have "?e \<le> e0" using end_round_up(1) [OF em] by (simp add: e0_def)
  ultimately have lt: "s0 < e0" by simp
  have "unat e0 < 2 ^ 32" using end_round_up(2) [OF em] em by (auto simp: e0_def)
  then have top_ok: "unat e0 + unat (mi_erasesize ?mi) < 2 ^ 64" using bf(2) by simp
  have pos: "0 < unat (mi_erasesize ?mi)" using bf(1) by simp
  note d = msm_goodD [OF g]
  have "ok (do {
      (ret, fail_addr, s) \<leftarrow> mtd_erase_blocks B (mi_erasesize ?mi) s0 e0 None (msm_snf m);
      ret \<leftarrow> ret;
      Some (ret, fail_addr, mutex_unlock (m\<lparr>msm_locked := True, msm_snf := s\<rparr>)) })
    (\<lambda>(ret, fail_addr, m'). msm_step m m' \<and> (ret = 0 \<longleftrightarrow> fail_addr = None))"
    by (rule ok_bind3 [OF mtd_erase_blocks_ok [OF d(1,2) pos top_ok]])
       (use lt locked_snf [OF g] in auto)
  then show ?thesis
    using False by (simp add: mtk_snand_mtd_erase_def Let_def d(3) s0_def [symmetric] e0_def [symmetric] not_less [symmetric])
qed

section \<open>Reading and writing\<close>

lemma msm_col_less: "msm_fit B now m \<Longrightarrow> msm_col m addr < msm_ws m"
proof -
  assume f: "msm_fit B now m"
  let ?x = "addr AND ucast (mi_writesize_mask (msm_mtd m)) :: u64"
  have x: "unat ?x \<le> unat (mi_writesize_mask (msm_mtd m))"
    using word_and_le1 [of addr "ucast (mi_writesize_mask (msm_mtd m))"] by (simp add: word_le_nat_alt)
  have "msm_col m addr \<le> unat ?x" by (simp add: msm_col_def unat_ucast_u64_u32)
  then show ?thesis using x msm_fitD(6) [OF f] by simp
qed

text \<open>A request that passes the checks starts the page loop with room for everything.\<close>

lemma first_chunks:
  assumes g: "msm_good B now oobav m" and c: "mtd_check_ops oobav m addr ops = None" and r: "ops_room ops"
  shows "chunks (msm_ws m) (msm_os m) (unat (msm_oobavail oobav m ops)) (ops\<lparr>ops_oobretlen := 0, ops_retlen := 0\<rparr>)
    (ops_len ops) (ops_ooblen ops) (msm_col m addr) (unat (ops_ooboffs ops))"
proof -
  have "msm_fit B now m" using g by (simp add: msm_good_def)
  then have "msm_col m addr < msm_ws m" by (rule msm_col_less)
  moreover have "unat (ops_ooboffs ops) < unat (msm_oobavail oobav m ops)"
    using c by (simp add: mtd_check_ops_def Let_def not_le word_less_nat_alt split: if_splits)
  moreover have "unat (msm_oobavail oobav m ops) \<le> msm_os m"
    using g by (simp add: msm_good_def msm_oobavail_def word_le_nat_alt)
  ultimately show ?thesis using r by (simp add: chunks_def ops_room_def)
qed

text \<open>The counts that an operation reports: what it was asked for, unless it failed or had nothing to do.\<close>

definition served :: "mtd_oob_ops \<Rightarrow> bool \<Rightarrow> mtd_oob_ops \<Rightarrow> bool" where
  "served ops failed ops' \<longleftrightarrow> ops' = ops \<or>
     (\<exists>n k. n \<le> ops_len ops \<and> k \<le> ops_ooblen ops \<and> filled (ops\<lparr>ops_oobretlen := 0, ops_retlen := 0\<rparr>) n k ops' \<and>
        (\<not> failed \<longrightarrow> n = ops_len ops \<and> k = ops_ooblen ops))"

lemma locked_request:
  assumes g: "msm_good B now oobav m" and r: "ops_room ops"
    and body: "mtd_check_ops oobav m addr ops = None \<Longrightarrow>
      ok (f (m\<lparr>msm_locked := True\<rparr>) addr ops) (\<lambda>(ret, ops', m').
        mtd_moved (m\<lparr>msm_locked := True\<rparr>) (ops\<lparr>ops_oobretlen := 0, ops_retlen := 0\<rparr>)
          (ops_len ops) (ops_ooblen ops) (fl ret) ops' m')"
  shows "ok (case mtd_check_ops oobav m addr ops of
        Some ret \<Rightarrow> Some (ret, ops, m)
      | None \<Rightarrow> do {
          m \<leftarrow> mutex_lock m;
          (ret, ops, m) \<leftarrow> f m addr ops;
          Some (ret, ops, mutex_unlock m)
        }) (\<lambda>(ret, ops', m'). msm_step m m' \<and> served ops (fl ret) ops')"
proof (cases "mtd_check_ops oobav m addr ops")
  case None
  note d = msm_goodD [OF g]
  have "ok (do { (ret, ops, m) \<leftarrow> f (m\<lparr>msm_locked := True\<rparr>) addr ops; Some (ret, ops, mutex_unlock m) })
      (\<lambda>(ret, ops', m'). msm_step m m' \<and> served ops (fl ret) ops')"
    by (rule ok_bind3 [OF body [OF None]])
       (auto simp: mtd_moved_def served_def intro: msm_step_mutex [OF d(5)])
  then show ?thesis by (simp add: None d(3))
qed (simp add: served_def)

lemma mtd_read_oob_ok:
  assumes g: "msm_good B now oobav m" and r: "ops_room ops"
  shows "ok (mtk_snand_mtd_read_oob B oobav m addr ops)
    (\<lambda>(ret, ops', m'). msm_step m m' \<and> served ops (ret < 0 \<and> ret \<noteq> - EBADMSG) ops')"
  unfolding mtk_snand_mtd_read_oob_def
proof (rule locked_request [OF g r])
  assume c: "mtd_check_ops oobav m addr ops = None"
  show "ok (mtk_snand_mtd_read_data B oobav (m\<lparr>msm_locked := True\<rparr>) addr ops) (\<lambda>(ret, ops', m').
      mtd_moved (m\<lparr>msm_locked := True\<rparr>) (ops\<lparr>ops_oobretlen := 0, ops_retlen := 0\<rparr>)
        (ops_len ops) (ops_ooblen ops) (ret < 0 \<and> ret \<noteq> - EBADMSG) ops' m')"
    unfolding mtk_snand_mtd_read_data_def
    by (rule mtd_read_pages_ok [OF msm_goodD(4) [OF g]])
       (use first_chunks [OF g c r] in \<open>simp add: msm_oobavail_def msm_col_def\<close>)
qed

lemma mtd_write_oob_ok:
  assumes g: "msm_good B now oobav m" and r: "ops_room ops"
  shows "ok (mtk_snand_mtd_write_oob B oobav m addr ops)
    (\<lambda>(ret, ops', m'). msm_step m m' \<and> served ops (ret \<noteq> 0) ops')"
  unfolding mtk_snand_mtd_write_oob_def
proof (rule locked_request [OF g r])
  assume c: "mtd_check_ops oobav m addr ops = None"
  show "ok (mtk_snand_mtd_write_data B oobav (m\<lparr>msm_locked := True\<rparr>) addr ops) (\<lambda>(ret, ops', m').
      mtd_moved (m\<lparr>msm_locked := True\<rparr>) (ops\<lparr>ops_oobretlen := 0, ops_retlen := 0\<rparr>)
        (ops_len ops) (ops_ooblen ops) (ret \<noteq> 0) ops' m')"
    unfolding mtk_snand_mtd_write_data_def
    by (rule mtd_write_pages_ok [OF msm_goodD(4) [OF g]])
       (use first_chunks [OF g c r] in \<open>simp add: msm_oobavail_def msm_col_def\<close>)
qed

lemma mtd_panic_write_ok:
  fixes m :: "'a mtk_snand_mtd"
  assumes f: "msm_fit B now m" and "0 < len" and "len \<le> length buf"
  shows "ok (mtk_snand_mtd_panic_write B m addr len buf) (\<lambda>(ret, retlen, m'). msm_step m m' \<and>
    retlen \<le> len \<and> (ret = 0 \<longrightarrow> retlen = len))"
proof -
  let ?m = "m\<lparr>msm_irq_off := True, msm_snf := mtk_snand_control_poll_mode True (msm_snf m)\<rparr>"
  have m: "msm_step m ?m" by (simp add: msm_step_def same_snf_poll)
  have fit: "msm_fit B now ?m" by (rule msm_fit_step [OF f m])
  have col: "msm_col m addr < msm_ws ?m" using msm_col_less [OF f] by simp
  have buf: "0 + len \<le> length buf" using assms(3) by simp
  show ?thesis
    unfolding mtk_snand_mtd_panic_write_def Let_def
    by (rule ok_bind3 [OF mtd_panic_pages_ok [OF fit, of _ 0 len buf]])
       (use m col buf assms(2) in \<open>auto simp: msm_col_def intro: msm_step_trans\<close>)
qed

section \<open>Requests\<close>

datatype msm_request =
    MsmErase u64 u64
  | MsmReadOob u64 mtd_oob_ops
  | MsmWriteOob u64 mtd_oob_ops
  | MsmPanicWrite u64 nat bytes
  | MsmIsBad u64
  | MsmMarkBad u64
  | MsmIrq

fun msm_serve :: "'h bus \<Rightarrow> oobav_fun \<Rightarrow> msm_request \<Rightarrow> 'h mtk_snand_mtd \<Rightarrow> 'h mtk_snand_mtd option" where
  "msm_serve B oobav (MsmErase addr len) m = map_option (\<lambda>(_, _, m'). m') (mtk_snand_mtd_erase B m addr len)"
| "msm_serve B oobav (MsmReadOob addr ops) m = map_option (\<lambda>(_, _, m'). m') (mtk_snand_mtd_read_oob B oobav m addr ops)"
| "msm_serve B oobav (MsmWriteOob addr ops) m = map_option (\<lambda>(_, _, m'). m') (mtk_snand_mtd_write_oob B oobav m addr ops)"
| "msm_serve B oobav (MsmPanicWrite addr len buf) m = map_option (\<lambda>(_, _, m'). m') (mtk_snand_mtd_panic_write B m addr len buf)"
| "msm_serve B oobav (MsmIsBad offs) m = map_option snd (mtk_snand_mtd_block_isbad B m offs)"
| "msm_serve B oobav (MsmMarkBad offs) m = map_option snd (mtk_snand_mtd_block_markbad B m offs)"
| "msm_serve B oobav MsmIrq m = Some (snd (mtk_snand_irq B m))"

text \<open>
  The callers owe buffers as long as the request says; an erasure and a panic write of nothing would return
  a variable that nobody assigned.
\<close>

fun msm_legal :: "msm_request \<Rightarrow> bool" where
  "msm_legal (MsmErase addr len) \<longleftrightarrow> 0 < len \<and> unat addr + unat len < 2 ^ 64"
| "msm_legal (MsmReadOob addr ops) \<longleftrightarrow> ops_room ops"
| "msm_legal (MsmWriteOob addr ops) \<longleftrightarrow> ops_room ops"
| "msm_legal (MsmPanicWrite addr len buf) \<longleftrightarrow> 0 < len \<and> len \<le> length buf"
| "msm_legal _ \<longleftrightarrow> True"

lemma mtd_bad_blocks_ok:
  assumes g: "msm_good B now oobav m"
  shows "ok (mtk_snand_mtd_block_isbad B m offs) (\<lambda>(ret, m'). msm_step m m')"
    "ok (mtk_snand_mtd_block_markbad B m offs) (\<lambda>(ret, m'). msm_step m m')"
proof -
  note d = msm_goodD [OF g]
  have "ok (do { (ret, s) \<leftarrow> mtk_snand_block_isbad B offs (msm_snf m);
      Some (ret, mutex_unlock (m\<lparr>msm_locked := True, msm_snf := s\<rparr>)) }) (\<lambda>(ret, m'). msm_step m m')"
    by (rule ok_bind2 [OF block_isbad_ok [OF d(1,2)]]) (simp add: locked_snf [OF g])
  then show "ok (mtk_snand_mtd_block_isbad B m offs) (\<lambda>(ret, m'). msm_step m m')"
    by (simp add: mtk_snand_mtd_block_isbad_def d(3))
  have "ok (do { (ret, s) \<leftarrow> mtk_snand_block_markbad B offs (msm_snf m);
      Some (ret, mutex_unlock (m\<lparr>msm_locked := True, msm_snf := s\<rparr>)) }) (\<lambda>(ret, m'). msm_step m m')"
    by (rule ok_bind2 [OF block_markbad_ok [OF d(1,2)]]) (simp add: locked_snf [OF g])
  then show "ok (mtk_snand_mtd_block_markbad B m offs) (\<lambda>(ret, m'). msm_step m m')"
    by (simp add: mtk_snand_mtd_block_markbad_def d(3))
qed

lemma msm_irq_step: "msm_step m (snd (mtk_snand_irq B m))"
  by (simp add: mtk_snand_irq_def case_prod_beta Let_def msm_step_snf shape_frame)

lemma msm_serve_ok:
  assumes g: "msm_good B now oobav m" and "msm_legal r"
  shows "ok (msm_serve B oobav r m) (msm_step m)"
proof (cases r)
  case (MsmErase addr len)
  then show ?thesis using mtd_erase_ok [OF g, of len addr] assms(2)
    by (auto simp: ok_map case_prod_unfold elim!: ok_mono)
next
  case (MsmReadOob addr ops)
  then show ?thesis using mtd_read_oob_ok [OF g, of ops addr] assms(2)
    by (auto simp: ok_map case_prod_unfold elim!: ok_mono)
next
  case (MsmWriteOob addr ops)
  then show ?thesis using mtd_write_oob_ok [OF g, of ops addr] assms(2)
    by (auto simp: ok_map case_prod_unfold elim!: ok_mono)
next
  case (MsmPanicWrite addr len buf)
  have "msm_fit B now m" using g by (simp add: msm_good_def)
  then show ?thesis using mtd_panic_write_ok [of B now m len buf addr] assms(2) MsmPanicWrite
    by (auto simp: ok_map case_prod_unfold elim!: ok_mono)
next
  case (MsmIsBad offs)
  then show ?thesis using mtd_bad_blocks_ok(1) [OF g, of offs] by (auto simp: ok_map case_prod_unfold elim!: ok_mono)
next
  case (MsmMarkBad offs)
  then show ?thesis using mtd_bad_blocks_ok(2) [OF g, of offs] by (auto simp: ok_map case_prod_unfold elim!: ok_mono)
next
  case MsmIrq
  then show ?thesis by (simp add: msm_irq_step)
qed

interpretation snand_mtd: service "msm_serve B oobav" msm_legal "msm_good B now oobav" msm_step
proof unfold_locales
  fix s :: "'a mtk_snand_mtd" and r
  assume g: "msm_good B now oobav s" and "msm_legal r"
  then have "ok (msm_serve B oobav r s) (msm_step s)" by (rule msm_serve_ok)
  then show "ok (msm_serve B oobav r s) (\<lambda>s'. msm_good B now oobav s' \<and> msm_step s s')"
    by (rule ok_mono) (use msm_good_step [OF g] in auto)
qed (auto intro: msm_step_trans)

lemmas msm_requests_ok = snand_mtd.run_all_ok

section \<open>The device that probe registers\<close>

lemma ffs_bit:
  assumes "w \<noteq> 0"
  obtains n where "ffs32 w = Suc n" "n < 32" "bit w n"
proof -
  obtain n where "bit w n" using assms by (auto simp: bit_eq_iff)
  then have "n \<in> set (filter (bit w) [0..<32])" using bit_imp_le_length [of w n] by simp
  then obtain k ks where k: "filter (bit w) [0..<32] = k # ks" by (cases "filter (bit w) [0..<32]") auto
  then have "k \<in> set (filter (bit w) [0..<32])" by (simp only: list.set_intros)
  moreover have "ffs32 w = Suc k" by (simp only: ffs32_def k list.case)
  ultimately show ?thesis using that [of k] by simp
qed

lemma ffs_mask_below:
  assumes "w \<noteq> 0"
  shows "unat (push_bit (unat (of_nat (ffs32 w) - 1 :: u32)) 1 - 1 :: u32) < unat w"
proof -
  obtain n where n: "ffs32 w = Suc n" "n < 32" "bit w n" using ffs_bit [OF assms] .
  have "unat (of_nat n :: u32) = n" by (rule unat_of_nat_u32) (use n(2) in simp)
  then have sh: "unat (of_nat (ffs32 w) - 1 :: u32) = n" by (simp add: n(1))
  have p: "unat (push_bit n 1 :: u32) = 2 ^ n"
    unfolding unsigned_push_bit_eq using n(2) by (simp add: take_bit_nat_eq_self)
  then have "unat (push_bit n 1 - 1 :: u32) = 2 ^ n - 1"
    by (subst unat_sub) (simp_all add: word_le_nat_alt)
  moreover have "(2::nat) ^ n \<le> unat w"
  proof (rule ccontr)
    assume "\<not> 2 ^ n \<le> unat w"
    then have "\<not> bit (unat w) n" by (simp add: bit_iff_odd)
    then show False using n(3) by (simp add: bit_unsigned_iff)
  qed
  moreover have "(0::nat) < 2 ^ n" by simp
  ultimately show ?thesis unfolding sh by linarith
qed

lemma unat_ucast_u16_u64: "unat (ucast (w :: u16) :: u64) = unat w"
proof -
  have "unat w < 2 ^ LENGTH(16)" by (rule unsigned_less)
  then show ?thesis by (simp add: unsigned_ucast_eq take_bit_nat_eq_self)
qed

lemma known_size:
  assumes k: "known_org mo"
  shows "0 < unat (fst (erase_and_size mo))"
    and "unat (snd (erase_and_size mo)) + unat (fst (erase_and_size mo)) \<le> 2 ^ 32"
proof -
  let ?ps = "unat (mo_pagesize mo)" and ?pb = "unat (mo_pages_per_block mo)"
    and ?bd = "unat (mo_blocks_per_die mo)" and ?nd = "unat (mo_ndies mo)"
  note o = k [unfolded known_org_def]
  have pos: "0 < ?ps" "0 < ?pb" "0 < ?bd" "0 < ?nd" using o by (auto simp: known_page_def word_less_nat_alt)
  have all: "?ps * ?pb * ?bd * ?nd \<le> 2 ^ 30" using o by simp
  have b2: "?ps * ?pb * ?bd \<le> 2 ^ 30" by (rule le_trans [OF _ all]) (use pos(4) in simp)
  have b1: "?ps * ?pb \<le> 2 ^ 30" by (rule le_trans [OF _ b2]) (use pos(3) in simp)
  note u = unat_ucast_u16 unat_ucast_u16_u64 unat_ucast_u32_u64
  have es: "unat (ucast (mo_pagesize mo) * ucast (mo_pages_per_block mo) :: u32) = ?ps * ?pb"
    by (rule unat_times_word [of "ucast (mo_pagesize mo) :: u32" "ucast (mo_pages_per_block mo)", unfolded u])
       (rule le_less_trans [OF b1], simp)
  let ?es = "ucast (ucast (mo_pagesize mo) * ucast (mo_pages_per_block mo) :: u32) :: u64"
  have d: "unat (?es * ucast (mo_blocks_per_die mo)) = ?ps * ?pb * ?bd"
    by (rule unat_times_word [of ?es "ucast (mo_blocks_per_die mo)", unfolded u es]) (rule le_less_trans [OF b2], simp)
  have sz: "unat (?es * ucast (mo_blocks_per_die mo) * ucast (mo_ndies mo)) = ?ps * ?pb * ?bd * ?nd"
    by (rule unat_times_word [of "?es * ucast (mo_blocks_per_die mo)" "ucast (mo_ndies mo)", unfolded u d]) (rule le_less_trans [OF all], simp)
  show "0 < unat (fst (erase_and_size mo))" using pos by (simp add: erase_and_size_def Let_def es)
  show "unat (snd (erase_and_size mo)) + unat (fst (erase_and_size mo)) \<le> 2 ^ 32"
    unfolding erase_and_size_def Let_def fst_conv snd_conv es sz using b1 all by simp
qed

lemma new_instance_chip:
  assumes "new_instance k s"
  obtains mo where "known_org mo" "(sf_erasesize s, sf_size s) = erase_and_size mo"
  using assms chips_known by (auto simp: new_instance_def list_all_iff known_chip_def)

lemma spare_avail_below:
  assumes "page_format s" and "1 < unat (fdm_size s)"
  shows "sf_ecc_steps s * (fdm_size s - 1) \<le> sf_oobsize s"
proof -
  let ?n = "unat (sf_ecc_steps s)" and ?F = "unat (fdm_size s)" and ?P = "unat (sf_spare_per_sector s)"
  have f: "?F \<le> ?P" "?n * ?P \<le> unat (sf_oobsize s)" "unat (sf_oobsize s) < 2 ^ 31"
    using assms(1) by (auto simp: page_format_def Let_def)
  have F1: "unat (fdm_size s - 1) = ?F - 1"
    by (subst unat_sub) (use assms(2) in \<open>simp_all add: word_le_nat_alt\<close>)
  have le: "?n * (?F - 1) \<le> unat (sf_oobsize s)"
    by (rule le_trans [OF mult_le_mono2 f(2)]) (use f(1) in simp)
  have "unat (sf_ecc_steps s * (fdm_size s - 1)) = ?n * (?F - 1)"
    by (rule unat_times_word [of "sf_ecc_steps s" "fdm_size s - 1", unfolded F1])
       (rule le_less_trans [OF le], use f(3) in simp)
  then show ?thesis using le by (simp add: word_le_nat_alt)
qed

text \<open>What the kernel gives: memory of the size asked for, and a spare area no larger than the device's.\<close>

definition fair_platform :: "platform \<Rightarrow> bool" where
  "fair_platform P \<longleftrightarrow> (\<forall>n pc. pl_kmalloc P n = Some pc \<longrightarrow> length pc = n)"

definition fair_oobav :: "oobav_fun \<Rightarrow> bool" where
  "fair_oobav oobav \<longleftrightarrow> (\<forall>os av mode. av \<le> os \<longrightarrow> oobav os av mode \<le> os)"

lemma registered_good:
  fixes s :: "'a mtk_snand"
  assumes c: "clock_runs B now" and n: "new_instance k s" and f: "fair_platform P" and o: "fair_oobav oobav"
    and pc: "pl_kmalloc P (unat (ci_pagesize ci + ci_sparesize ci)) = Some pc"
    and ci: "ci = mtk_snand_get_chip_info s"
    and m: "msm_mtd m = probe_mtd_info ci" "msm_snf m = s" "msm_page_cache m = pc" "\<not> msm_locked m"
  shows "msm_good B now oobav m"
proof -
  have w: "snand_wf s" "1 < unat (fdm_size s)" using n unfolding new_instance_def by blast+
  note pf = snand_wfD(1) [OF w(1)]
  obtain mo where mo: "known_org mo" "(sf_erasesize s, sf_size s) = erase_and_size mo"
    using new_instance_chip [OF n] .
  have es: "fst (erase_and_size mo) = sf_erasesize s" "snd (erase_and_size mo) = sf_size s"
    using mo(2) by (metis fst_conv snd_conv)+
  have e0: "sf_erasesize s \<noteq> 0" using known_size(1) [OF mo(1)] by (auto simp: es)
  have "0 < unat (sf_writesize s)"
    using pf by (auto simp: page_format_def Let_def)
  then have w0: "sf_writesize s \<noteq> 0" by auto
  have lpc: "length pc = unat (sf_writesize s) + unat (sf_oobsize s)"
    using f pc page_positions(7) [OF pf] by (simp add: fair_platform_def ci mtk_snand_get_chip_info_def page_len_def)
  have mi: "mi_size (msm_mtd m) = sf_size s" "mi_erasesize (msm_mtd m) = sf_erasesize s"
    "mi_writesize (msm_mtd m) = sf_writesize s" "mi_oobsize (msm_mtd m) = sf_oobsize s"
    "mi_oobavail (msm_mtd m) = sf_ecc_steps s * (fdm_size s - 1)"
    "mi_erasesize_mask (msm_mtd m) = push_bit (unat (of_nat (ffs32 (sf_erasesize s)) - 1 :: u32)) 1 - 1"
    "mi_writesize_mask (msm_mtd m) = push_bit (unat (of_nat (ffs32 (sf_writesize s)) - 1 :: u32)) 1 - 1"
    by (simp_all add: m(1) probe_mtd_info_def ci mtk_snand_get_chip_info_def Let_def)
  have "msm_fit B now m"
    using c w lpc ffs_mask_below [OF w0] by (simp add: msm_fit_def m(2,3) mi)
  moreover have "blocks_fit (msm_mtd m)"
    using ffs_mask_below [OF e0] known_size(2) [OF mo(1)] by (simp add: blocks_fit_def mi es)
  moreover have "oobav (mi_oobsize (msm_mtd m)) (mi_oobavail (msm_mtd m)) mode \<le> mi_oobsize (msm_mtd m)" for mode
    using o spare_avail_below [OF pf w(2)] by (simp add: fair_oobav_def mi)
  ultimately show ?thesis using m(4) by (simp add: msm_good_def)
qed

definition probed :: "'h bus \<Rightarrow> ('h \<Rightarrow> int) \<Rightarrow> oobav_fun \<Rightarrow> int \<Rightarrow> 'h mtk_snand_mtd option \<Rightarrow> bool" where
  "probed B now oobav ret pm \<longleftrightarrow> (case pm of None \<Rightarrow> ret \<noteq> 0 | Some m \<Rightarrow> ret = 0 \<and> msm_good B now oobav m)"

lemma probed_simps [simp]:
  "probed B now oobav ret None \<longleftrightarrow> ret \<noteq> 0"
  "probed B now oobav ret (Some m) \<longleftrightarrow> ret = 0 \<and> msm_good B now oobav m"
  by (simp_all add: probed_def)

lemma probe_device_ok:
  assumes "clock_runs B now" and "new_instance k s" and "fair_platform P" and "fair_oobav oobav"
  shows "case probe_device B P soc_id calls a s of (ret, pm, _) \<Rightarrow> probed B now oobav ret pm"
  using registered_good [OF assms]
  by (simp add: probe_device_def Let_def ENOMEM_def split: option.split)

lemma probe_ok:
  fixes tmpsnf :: "'a mtk_snand"
  assumes c: "clock_runs B now" and f: "fair_platform P" "fair_oobav oobav"
  shows "ok (mtk_snand_probe B P sz tmpsnf) (\<lambda>(ret, pm, calls, h). probed B now oobav ret pm)"
proof -
  have i: "ok (do {
      (ret, snf, h) \<leftarrow> mtk_snand_init B sz pdata tmpsnf;
      (if ret \<noteq> 0 then Some (ret, None, calls @ [Msm_freed], h)
       else do { (snf_addr, s) \<leftarrow> snf; Some (probe_device B P soc_id calls snf_addr s) }) })
    (\<lambda>(ret, pm, calls, h). probed B now oobav ret pm)" for pdata calls soc_id
    by (rule ok_bind3 [OF init_ok [OF c]])
       (use probe_device_ok [OF c _ f] in \<open>fastforce simp: case_prod_unfold\<close>)
  then show ?thesis
    by (simp add: mtk_snand_probe_def Let_def case_prod_unfold ENOMEM_def EINVAL_def split: option.split)
qed

section \<open>Clocks\<close>

text \<open>How often a clock was enabled more than disabled.\<close>

definition held :: "kcall list \<Rightarrow> mtk_clk \<Rightarrow> int" where
  "held calls c = int (count_list calls (Clk_on c)) - int (count_list calls (Clk_off c))"

lemma held_append [simp]: "held (xs @ ys) c = held xs c + held ys c"
  by (simp add: held_def)

lemma held_simps [simp]:
  "held [] c = 0"
  "held (Clk_on d # xs) c = (if d = c then 1 else 0) + held xs c"
  "held (Clk_off d # xs) c = held xs c - (if d = c then 1 else 0)"
  "held (Irq_requested # xs) c = held xs c" "held (Irq_freed # xs) c = held xs c"
  "held (Cache_freed # xs) c = held xs c" "held (Msm_freed # xs) c = held xs c"
  by (simp_all add: held_def)

definition needs :: "mtk_snand_of_id \<Rightarrow> mtk_clk \<Rightarrow> int" where
  "needs soc_id c = (case c of Nfi_clk \<Rightarrow> 1 | Pad_clk \<Rightarrow> 1 | Ecc_clk \<Rightarrow> (if oi_en_ecc_clk soc_id then 1 else 0)
     | Nfi_hclk \<Rightarrow> (if oi_en_nfi_hclk soc_id then 1 else 0))"

lemma enable_clk_held:
  "case mtk_snand_enable_clk f soc_id of (ret, calls) \<Rightarrow> held calls c = (if ret = 0 then needs soc_id c else 0)"
  by (cases c) (simp_all add: mtk_snand_enable_clk_def needs_def Let_def)

lemma disable_clk_held: "held (mtk_snand_disable_clk soc_id) c = - needs soc_id c"
  by (cases c) (simp_all add: mtk_snand_disable_clk_def needs_def)

lemma probe_device_held:
  "case probe_device B P soc_id calls a s of (ret, pm, calls', h) \<Rightarrow> held calls' c = held calls c"
  by (simp add: probe_device_def Let_def split: option.split)

end
