(* ===== verification/Snand_Mtd_Properties.thy ===== *)
theory Snand_Mtd_Properties
  imports Snand_Mtd_Service
begin

text \<open>
  The properties of the MTD layer of the SPI-NAND driver, with the device over the small chip that
  their witnesses use.
\<close>

section \<open>A device over the small chip\<close>

definition msm_demo :: "nat mtk_snand_mtd" where
  "msm_demo =
     \<lparr>msm_soc_id = mt7986_soc_id, msm_irq = 5,
      msm_mtd = probe_mtd_info (mtk_snand_get_chip_info snand_demo), msm_cinfo = mtk_snand_get_chip_info snand_demo,
      msm_snf_addr = 0x4000, msm_snf = snand_demo, msm_page_cache = replicate 24 0, msm_locked = False,
      msm_irq_off = False, msm_corrected = 0, msm_failed = 0\<rparr>"

definition msm_demo_oobav :: oobav_fun where
  "msm_demo_oobav os av mode = (if mode = MTD_OPS_AUTO_OOB then av else os)"

definition msm_demo_platform :: platform where
  "msm_demo_platform =
     \<lparr>pl_of_match = (\<lambda>ids. Some (snd (ids ! 2))), pl_kzalloc = True, pl_ioremap = (\<lambda>name. 0), pl_quad_spi = False,
      pl_clk_get = (\<lambda>c. 0), pl_clk_enable = (\<lambda>c. 0), pl_get_irq = 5, pl_request_irq = 0, pl_dma_mask = 0,
      pl_kmalloc = (\<lambda>n. Some (replicate n 0)), pl_register = - EINVAL\<rparr>"

lemma msm_demo_good: "msm_good (snand_bus w k) int msm_demo_oobav msm_demo"
proof -
  have mi: "msm_mtd msm_demo = \<lparr>mi_size = 1024, mi_erasesize = 64, mi_writesize = 16, mi_writebufsize = 16,
      mi_oobsize = 8, mi_oobavail = 2, mi_erasesize_shift = 6, mi_writesize_shift = 4, mi_erasesize_mask = 63,
      mi_writesize_mask = 15, mi_ecc_strength = 2, mi_bitflip_threshold = 1, mi_ecc_step_size = 8\<rparr>"
    by (simp add: msm_demo_def probe_mtd_info_def mtk_snand_get_chip_info_def snand_demo_def ffs32_def upt_rec Let_def)
  have s: "msm_snf msm_demo = snand_demo" "length (msm_page_cache msm_demo) = 24" "\<not> msm_locked msm_demo"
    by (simp_all add: msm_demo_def)
  have sz: "sf_writesize snand_demo = 16" "sf_oobsize snand_demo = 8" by (simp_all add: snand_demo_def)
  show ?thesis
    using snand_demo_wf
    by (simp add: msm_good_def msm_fit_def blocks_fit_def mi s sz snand_bus_clock msm_demo_oobav_def)
qed

section \<open>Properties\<close>

text \<open>C12: Whatever the controller answers, as long as its clock advances: every sequence of legal requests to
  the MTD layer of a device that has its invariant returns, with every access inside the page cache and the
  caller's buffers, leaves the mutex free, and keeps the invariant and the description of the device. Legal means
  that buffers are as long as the request says, that an erasure and a panic write have a length other than 0 (with
  0 the code returns a variable it never assigned, which the model does not give a value), and that an erasure does
  not wrap around the address space.\<close>

theorem snand_mtd_requests_total:
  assumes "msm_good B now oobav m" and "list_all msm_legal rs"
  shows "\<exists>m'. run_all (msm_serve B oobav) rs m = Some m' \<and> msm_good B now oobav m' \<and> \<not> msm_locked m' \<and>
    msm_mtd m' = msm_mtd m \<and> length (msm_page_cache m') = length (msm_page_cache m)"
proof -
  have "ok (run_all (msm_serve B oobav) rs m) (\<lambda>m'. msm_good B now oobav m' \<and> msm_step m m')"
    by (rule msm_requests_ok) (use assms in \<open>auto simp: list_all_iff\<close>)
  then obtain m' where "run_all (msm_serve B oobav) rs m = Some m'" "msm_good B now oobav m'" "msm_step m m'"
    by (auto elim!: okE)
  then show ?thesis by (auto simp: msm_good_def msm_step_def)
qed

theorem snand_mtd_requests_total_witness:
  "\<exists>m'. run_all (msm_serve (snand_bus 0x12345678 5) msm_demo_oobav)
      [MsmErase 70 64, MsmWriteOob 3 (zero_ops\<lparr>ops_len := 20, ops_datbuf := Some (replicate 20 7)\<rparr>),
       MsmReadOob 16 (zero_ops\<lparr>ops_mode := MTD_OPS_AUTO_OOB, ops_ooblen := 3, ops_oobbuf := Some [0, 0, 0]\<rparr>),
       MsmIsBad 64, MsmIrq, MsmPanicWrite 0 2 [1, 2], MsmMarkBad 64] msm_demo = Some m' \<and>
    msm_good (snand_bus 0x12345678 5) int msm_demo_oobav m' \<and> \<not> msm_locked m' \<and>
    msm_mtd m' = msm_mtd msm_demo \<and> length (msm_page_cache m') = length (msm_page_cache msm_demo)"
  by (rule snand_mtd_requests_total [OF msm_demo_good]) (simp add: ops_room_def room_def zero_ops_def)

text \<open>C16: mtk_snand_probe returns on every controller whose clock advances; it returns 0 exactly when it
  registers a device, and that device has the invariant of the MTD layer: masks below the sizes of a page and a
  block, a page cache of a page with its spare area, and a chip size that rounding does not take out of 32 bits,
  whichever chip of the table was found.\<close>

theorem snand_probe_registers:
  assumes "clock_runs B now" and "fair_platform P" and "fair_oobav oobav"
  shows "\<exists>ret pm calls h. mtk_snand_probe B P struct_size tmpsnf = Some (ret, pm, calls, h) \<and>
    (case pm of None \<Rightarrow> ret \<noteq> 0 | Some m \<Rightarrow> ret = 0 \<and> msm_good B now oobav m)"
proof -
  obtain ret pm calls h where "mtk_snand_probe B P struct_size tmpsnf = Some (ret, pm, calls, h)"
    and "probed B now oobav ret pm"
    using probe_ok [OF assms, of struct_size tmpsnf] by (auto elim!: okE)
  then show ?thesis by (auto simp: probed_def)
qed

theorem snand_probe_registers_witness:
  "\<exists>ret pm calls h. mtk_snand_probe (snand_bus 0x10c80000 1000) (msm_demo_platform\<lparr>pl_register := 0\<rparr>) 208 snand_demo =
      Some (ret, pm, calls, h) \<and>
    (case pm of None \<Rightarrow> ret \<noteq> 0 | Some m \<Rightarrow> ret = 0 \<and> msm_good (snand_bus 0x10c80000 1000) int msm_demo_oobav m)"
  by (rule snand_probe_registers [OF snand_bus_clock])
     (simp_all add: fair_platform_def msm_demo_platform_def fair_oobav_def msm_demo_oobav_def)

text \<open>C37: Once mtk_snand_probe has enabled the clocks they stay enabled whether it registers a device or fails
  afterwards: the labels of its error paths free the interrupt and the memory, but no path disables a clock.\<close>

theorem probe_keeps_clocks:
  assumes "clock_runs B now" and "pl_of_match P mtk_snand_ids = Some soc_id" and "pl_kzalloc P"
    and "pl_ioremap P ''nfi'' = 0" "pl_ioremap P ''ecc'' = 0" and "probe_get_clks P soc_id = 0"
    and "fst (mtk_snand_enable_clk (pl_clk_enable P) soc_id) = 0"
  shows "\<exists>ret pm calls h. mtk_snand_probe B P struct_size tmpsnf = Some (ret, pm, calls, h) \<and>
    (\<forall>c. held calls c = needs soc_id c)"
proof -
  obtain on where on: "mtk_snand_enable_clk (pl_clk_enable P) soc_id = (0, on)"
    using assms(7) by (cases "mtk_snand_enable_clk (pl_clk_enable P) soc_id") simp
  have h: "held on c = needs soc_id c" for c
    using enable_clk_held [where f = "pl_clk_enable P" and soc_id = soc_id and c = c] by (simp add: on)
  have "ok (do {
      (ret, snf, h) \<leftarrow> mtk_snand_init B struct_size \<lparr>pd_soc = oi_soc soc_id, pd_quad_spi = pl_quad_spi P\<rparr> tmpsnf;
      (if ret \<noteq> 0 then Some (ret, None, on @ [Msm_freed], h)
       else do { (snf_addr, s) \<leftarrow> snf; Some (probe_device B P soc_id on snf_addr s) }) })
    (\<lambda>(ret, pm, calls, h). \<forall>c. held calls c = needs soc_id c)"
    by (rule ok_bind3 [OF init_ok [OF assms(1)]])
       (use probe_device_held [where B = B and P = P and soc_id = soc_id and calls = on] h in \<open>fastforce simp: case_prod_unfold\<close>)
  then show ?thesis
    using assms(2-6) by (auto simp: mtk_snand_probe_def on Let_def elim!: okE)
qed

theorem probe_keeps_clocks_witness:
  "\<exists>ret pm calls h. mtk_snand_probe (snand_bus 0 1000) msm_demo_platform 208 snand_demo = Some (ret, pm, calls, h) \<and>
    (\<forall>c. held calls c = needs mt7986_soc_id c)"
  by (rule probe_keeps_clocks [OF snand_bus_clock])
     (simp_all add: msm_demo_platform_def mtk_snand_ids_def probe_get_clks_def mtk_snand_enable_clk_def Let_def)

end
