(* ===== verification/Spec2Isabelle.thy ===== *)
theory Spec2Isabelle
  imports Nmbm_Used_Chip Mtd_Parsers Mtd_Wfi_Properties Snand_Properties Snand_Mtd_Properties
begin

text \<open>
  A verification library for the flash storage code of this OpenWrt tree for MediaTek SoCs: NMBM,
  the bad-block manager between a raw NAND chip and the MTD layer, mtdsplit, which finds the
  kernel and the root file system inside a firmware partition, and mtk-snand, the driver of the
  SPI-NAND controller below both.

  \<^bold>\<open>The program.\<close> The sources of the first three parts lie under src/openwrt/target/linux/generic,
  those of the last under src/openwrt/target/linux/mediatek.

  \<^item> files-5.4/drivers/mtd/nmbm/nmbm-core.c with nmbm-private.h and files-5.4/include/nmbm/nmbm.h is
    the core. It divides a chip into logic blocks and a management area at the end of the chip. The
    management area holds, from its start, the main info table, the backup info table, the spare
    blocks that replace failed blocks, and the signature in the last good block. An info table is
    the image of a block state table (two bits per block) and of the table that maps logic blocks to
    physical ones. Whenever one of them changes, both copies are written anew, and since a block may
    fail under the write, this repeats until a write finds no new bad block.
  \<^item> files-5.4/drivers/mtd/nmbm/nmbm-mtd.c puts the core between two MTD devices: its adapters turn
    the lower MTD device into the structure of functions the core calls, and the upper MTD device
    splits requests into pages and passes them on, under a state machine that admits one task.
  \<^item> files/drivers/mtd/mtdsplit holds the partition parsers, one for each image format. They share
    mtdsplit.c: the root file system test and the search for one at erase block boundaries.
  \<^item> files-5.4/drivers/mtd/mtk-snand drives the controller. mtk-snand.c sends commands to the chip
    through a small RAM of the controller, and moves pages by DMA between the chip and the page cache
    of its instance, with ECC or raw. With ECC the controller formats the page: it takes the data and
    the spare bytes (FDM) of each sector from different places and appends the parity bytes
    (mtk-snand-ecc.c). Since on the chip data and spare bytes alternate, the place where the vendor
    puts the bad-block mark holds data; the driver exchanges the two. mtk-snand-ids.c is the table of
    chips. mtk-snand-mtd.c puts the driver below the kernel's MTD core: it splits requests into pages
    under a mutex, and its probe brings up clocks, controller and interrupt.

  The core keeps all its state in the instance that nmbm_attach fills; the MTD layer keeps that
  instance, its own page cache and the state of the device. The parsers keep no state. The SPI-NAND
  driver keeps struct mtk_snand with its caches, and its MTD layer struct mtk_snand_mtd around it.

  \<^bold>\<open>Theories.\<close>

  \<^item> \<^verbatim>\<open>Nmbm_Prelude\<close>: words of fixed width, the option type as partial computation with the
    predicate \<^verbatim>\<open>ok\<close> (the run returns and its result satisfies a postcondition) and its rules, bounds
    checked copies between buffers (\<^verbatim>\<open>slice\<close>, \<^verbatim>\<open>blit\<close>, \<^verbatim>\<open>load\<close>, \<^verbatim>\<open>store\<close>), little-endian layout, and the
    locale \<^verbatim>\<open>service\<close>: if every legal request returns and keeps an invariant and a relation, so does
    every sequence of legal requests.
  \<^item> \<^verbatim>\<open>Nmbm_Types\<close>: \<^verbatim>\<open>struct nmbm_lower_device\<close>, the structures on flash and \<^verbatim>\<open>struct nmbm_instance\<close> as
    records; \<^verbatim>\<open>dev_reach\<close>, the chip states that erasures, writes and marks of a given set of blocks can
    produce; a simulated chip for the witnesses.
  \<^item> \<^verbatim>\<open>Nmbm_Phys\<close>: addr2ba, ba2addr and size2blk; reads, writes, erasures and bad-block marks of the
    chip with their retries.
  \<^item> \<^verbatim>\<open>Nmbm_State\<close>: the block state table, the walks over good blocks, nmbm_try_reserve_blocks, the
    bad-block scan and the first mapping table.
  \<^item> \<^verbatim>\<open>Nmbm_Header\<close>: the signature and the header of an info table as bytes, and their checksums.
  \<^item> \<^verbatim>\<open>Nmbm_Blocks\<close>: erase and check, verified writes, and the loops that put the signature or a
    table into the next usable blocks.
  \<^item> \<^verbatim>\<open>Nmbm_Tables\<close>: generation, writing, rescue and update of the info tables, nmbm_map_block and
    nmbm_create_info_table.
  \<^item> \<^verbatim>\<open>Nmbm_Attach\<close>: validation of the lower device, layout of the instance, search for the signature,
    search, validation and loading of info tables, nmbm_attach and nmbm_detach.
  \<^item> \<^verbatim>\<open>Nmbm_Logic\<close>: the operations by logic address that the MTD layer calls.
  \<^item> \<^verbatim>\<open>Mtd_Request\<close>: the request of the kernel's MTD core and the copies between a page cache and its
    buffers, for the two MTD layers. \<^verbatim>\<open>Nmbm_Mtd\<close>: nmbm-mtd.c.
  \<^item> \<^verbatim>\<open>Nmbm_Properties\<close>, \<^verbatim>\<open>Nmbm_Service\<close>, \<^verbatim>\<open>Nmbm_Mtd_Service\<close>, \<^verbatim>\<open>Nmbm_Start\<close>: the properties of the
    core, of sequences of requests to the core and to the MTD layer, and of attaching a new chip.
  \<^item> \<^verbatim>\<open>Nmbm_Flash\<close>: what the flash holds: the laws of a chip that works as a memory (\<^verbatim>\<open>memory\<close>), the bytes of
    the flash (\<^verbatim>\<open>stored\<close>) and what the read and write procedures do to them.
  \<^item> \<^verbatim>\<open>Nmbm_Recovery\<close>, \<^verbatim>\<open>Nmbm_Reattach\<close>, \<^verbatim>\<open>Nmbm_Used_Chip\<close>: the search for the info tables and for the
    signature on such a chip, up to nmbm_attach on a chip in use; the properties, and a chip in
    memory on which their hypotheses hold.
  \<^item> \<^verbatim>\<open>Mtd_Split\<close>, \<^verbatim>\<open>Mtd_Parsers\<close>: mtdsplit.c and the parsers mtdsplit_lzma, minor, wrgg, cfe_bootfs,
    seama, tplink, eva, brnimage, squashfs, uimage, jimage, trx, fit and elf, with their properties.
  \<^item> \<^verbatim>\<open>Mtd_Wfi\<close>, \<^verbatim>\<open>Mtd_Wfi_Properties\<close>: mtdsplit_bcm_wfi, which looks for JFFS2 directory entries and a UBI
    volume, with the device on which it stays inside its block buffer (\<^verbatim>\<open>wfi_device\<close>).
  \<^item> \<^verbatim>\<open>Snand_Base\<close>: constants, structures and register access of mtk-snand, and the commands of the chip;
    the controller with its clock, its DMA and the allocator is a record of functions, \<^verbatim>\<open>bus\<close>.
  \<^item> \<^verbatim>\<open>Snand_Page\<close>, \<^verbatim>\<open>Snand_Layout\<close>: the page cache: exchange of the bad-block mark, raw layout, empty
    pages, free bytes; where each byte of a page lies in either layout.
  \<^item> \<^verbatim>\<open>Snand_Ecc\<close>: mtk-snand-ecc.c, and the bit-flip count as the number of zero bits.
  \<^item> \<^verbatim>\<open>Snand_Ops\<close>: page and block operations. \<^verbatim>\<open>Snand_Frame\<close>, \<^verbatim>\<open>Snand_Safe\<close>, \<^verbatim>\<open>Snand_Total\<close>: which parts of
    the instance a command leaves alone, and that each operation returns.
  \<^item> \<^verbatim>\<open>Snand_Ids\<close>, \<^verbatim>\<open>Snand_Setup\<close>: the table of chips, identification and set-up.
  \<^item> \<^verbatim>\<open>Snand_Service\<close>, \<^verbatim>\<open>Snand_Properties\<close>: sequences of requests, round trips through the page cache, a
    simulated controller, and the properties.
  \<^item> \<^verbatim>\<open>Snand_Mtd\<close>: mtk-snand-mtd.c. \<^verbatim>\<open>Snand_Mtd_Service\<close>, \<^verbatim>\<open>Snand_Mtd_Properties\<close>: its invariant, sequences of
    requests, the device that probe registers, the clocks, and the properties.

  Definitions carry the names of the functions they model; a helper that names a piece of a
  function (a loop body, the code behind a label) stands next to it and says so.

  \<^bold>\<open>Conventions.\<close> A C function whose calls always end and stay in bounds is a HOL function to its
  results. The others return an option, and \<open>None\<close> stands for what C gives no meaning to: reading or
  writing out of the bounds of a buffer, using an uninitialised variable, calling a null function,
  dividing by zero, overflowing a signed product, and not returning. The operations of the MTD layer
  are those of one task, for which waiting on a device that is not ready does not return; how several
  tasks take turns is the step relation \<^verbatim>\<open>gate_step\<close>. A theorem that says a run
  yields \<open>Some\<close> therefore says that it ends and that none of this happens.
  Fields and variables of type uint32_t and uint64_t are words of that width and wrap around; an
  \<open>int\<close> that carries a return code is an integer, since codes are small. Function pointers of the
  lower device are fields of its record that take and return the state of the chip; a function
  that may be missing is an option. Output parameters are components of the result, and an option
  where the callee may leave them unwritten. Tests of the instance pointer for NULL are left out,
  as are log messages; only the log level is kept, because attaching sets it. The watchdog and
  block colouring macros are empty in this tree. Memory comes from \<open>devm_kzalloc\<close> and is zero.
  The kernel's \<open>crc32_le\<close> is the parameter \<open>crc\<close>; the round trips use that it can be computed in two
  pieces (\<^verbatim>\<open>crc_incremental\<close>). \<open>oobav\<close> is mtd_oobavail. The MTD core calls the driver with a null data
  buffer only for length 0, which \<^verbatim>\<open>mtd_legal\<close> states. In the parsers a read is a function of offset
  and length, that is, nothing else writes the device during a parse, and a successful read returns
  as many bytes as were asked for; the tests of retlen become tests of the result. \<open>kz\<close> and \<open>vm\<close> say
  whether kzalloc and vmalloc succeed. The machine is 64-bit and little-endian.

  In the SPI-NAND driver the kernel's polling macros and its wait for a completion are functions of the
  \<^verbatim>\<open>bus\<close> that return 0 or an error; nothing is assumed of the controller but, where a theorem says so,
  that its clock advances (\<^verbatim>\<open>clock_runs\<close>). The format that the controller gives a page
  on the chip is a parameter too, of which \<^verbatim>\<open>auto_layout\<close> says where data and FDM bytes lie. A pointer into
  a buffer is an offset. What the kernel answers
  to its MTD layer during probe is the record \<^verbatim>\<open>platform\<close>, of which \<^verbatim>\<open>fair_platform\<close> says that allocated
  memory has the size asked for, and \<^verbatim>\<open>fair_oobav\<close> says that mtd_oobavail stays within the spare area; the calls
  that probe and remove must undo are recorded in a list.

  \<^bold>\<open>Loops.\<close> A loop whose end is visible from its bounds is a \<^theory_text>\<open>function\<close> with a measure. A loop that
  may run for ever is a \<^theory_text>\<open>partial_function (option)\<close>: the update of the info tables (which repeats
  while it finds bad blocks; the measure is the number of blocks not yet known to be bad), the
  retry of a logic erasure (each retry uses up a spare block), the downward rescue loop (which does
  not end when its lower bound is block 0; the layout invariant excludes this), the search for the
  signature (which runs off the start of a chip of fewer than 16 blocks), the polling of the chip's
  status (which ends because the clock advances), the page and block loops of the
  two MTD layers and the scans of the parsers. No fuel is used anywhere. The chip accesses are retried 3
  times, as NMBM_TRY_COUNT says.

  \<^bold>\<open>What the lemmas show.\<close> \<^verbatim>\<open>wf\<close> is the well-formedness of an instance (shifts, masks and buffer sizes
  agree with the geometry), \<^verbatim>\<open>lay\<close> adds the order of the management area, \<^verbatim>\<open>attached\<close> adds that the
  mapping table is in range and that spare blocks in use lie above the free ones, \<^verbatim>\<open>readable\<close> is the
  part of it that a read-only device has, and \<^verbatim>\<open>mtd_good\<close> is the invariant of the MTD layer. For each
  operation there is a lemma \<^verbatim>\<open><operation>_ok\<close> with its total correctness: from the invariant it
  returns, keeps the invariant, changes the chip within \<^verbatim>\<open>dev_reach\<close> of the blocks it may touch, and
  its results are described. The properties combine them: any sequence of requests to the core or to
  the MTD layer returns and loses no knowledge of bad blocks; a new chip is attached, and a used one is
  recovered without a write; tables and headers come back from their image and from the flash; what was written is read back; the walks, the reservation and the
  first mapping are equal to their plain descriptions; nothing is written on a read-only device;
  at most one task holds the device, and after a shutdown no task gets it to read, write or erase; the parsers that give the tail of the device to the root file
  system tile the device, and the search for it equals a search through a list of candidates.
  For the SPI-NAND driver, \<^verbatim>\<open>snand_wf\<close> says that the instance describes a page that fits its caches.
  \<^verbatim>\<open>plans\<close> computes, for each controller and each page size of the chip table, the number of sectors, the
  spare size and the ECC strength that set-up arrives at, so that \<^verbatim>\<open>init_ok\<close> covers all of them. Any
  sequence of requests returns; a page comes back from the page cache as it went in; pages written
  with ECC and pages written raw carry the same data and FDM bytes on the chip, for every automatic format
  that has the documented layout; the repair of an erased sector
  accepts it exactly when at most as many bits as the ECC corrects have flipped. \<^verbatim>\<open>msm_good\<close> is the invariant
  of its MTD layer: the page cache holds a page with its spare area, masks lie below the sizes, the mutex is
  free. Probe establishes it for every chip of the table, and any sequence of requests keeps it.
  The whole-flash-image parser gives its partitions in the order of the blocks where it found the files.
  Some properties state what the code does where that is not what it means to do, with the
  smallest instance: they are listed as findings of the manifest.

  \<^bold>\<open>Interfaces.\<close> \<^verbatim>\<open>service\<close> is the contract between a component and a client that sends it requests; the
  core (\<^verbatim>\<open>nmbm\<close>), its MTD layer (\<^verbatim>\<open>upper\<close>), the SPI-NAND driver (\<^verbatim>\<open>snand\<close>) and the MTD layer of that
  (\<^verbatim>\<open>snand_mtd\<close>) each interpret it, and \<^verbatim>\<open>requests_total\<close>, \<^verbatim>\<open>mtd_requests_total\<close>, \<^verbatim>\<open>snand_requests_total\<close> and
  \<^verbatim>\<open>snand_mtd_requests_total\<close> are its consequence.

  \<^bold>\<open>Not modelled.\<close> The block colouring of nmbm-debug.h (a debug build prints it; otherwise it is
  empty), the text of log messages, parser registration and device tree matching of mtdsplit, and the
  device attributes of nmbm-mtd.c. Outside the storage code: the wireless driver (a vendor driver of more than a million lines with firmware
  blobs), switch and PHY drivers (register sequences), the web interface and the build system.
  Of the SPI-NAND driver, the log messages and the registration of the platform driver. The image tools
  that write the headers the parsers read.
\<close>

end
